(* ===== verification/Prelude.thy ===== *)
theory Prelude
  imports Complex_Main "HOL-Library.AList" "HOL-Library.Multiset"
begin

text \<open>
  Shared vocabulary of the development.

  \<^item> A JavaScript \<open>Map\<close> keeps its keys in insertion order, \<open>set\<close> on a present key keeps the
    key's place and \<open>set\<close> on a new key appends. That is an association list with
    \<open>AList.update\<close> and \<open>AList.delete\<close>; \<open>distinct (map fst m)\<close> is its invariant.
  \<^item> A JavaScript \<open>Set\<close> is a list without duplicates in insertion order.
  \<^item> A \<open>bigint\<close>, a millisecond timestamp and a counter are an \<open>int\<close> or a \<open>nat\<close>.
  \<^item> A finite decimal is a \<open>rat\<close>; rounding to a grid is half-even, as \<open>src/src/book/decimal.ts\<close>
    configures it.

  The collections \<open>jsmap\<close> and \<open>grid\<close> gather the rewrite rules on maps and on rounding.
\<close>

named_theorems jsmap \<open>lookup, key and invariant rules of JavaScript maps and sets\<close>
named_theorems grid \<open>rounding to a decimal grid\<close>

section \<open>JavaScript maps and sets\<close>

type_synonym ('k, 'v) jsmap = "('k \<times> 'v) list"

abbreviation js_get :: "('k, 'v) jsmap \<Rightarrow> 'k \<Rightarrow> 'v option" where
  "js_get \<equiv> map_of"

abbreviation js_set :: "'k \<Rightarrow> 'v \<Rightarrow> ('k, 'v) jsmap \<Rightarrow> ('k, 'v) jsmap" where
  "js_set \<equiv> AList.update"

abbreviation js_del :: "'k \<Rightarrow> ('k, 'v) jsmap \<Rightarrow> ('k, 'v) jsmap" where
  "js_del \<equiv> AList.delete"

abbreviation js_keys :: "('k, 'v) jsmap \<Rightarrow> 'k list" where
  "js_keys \<equiv> map fst"

abbreviation js_map_ok :: "('k, 'v) jsmap \<Rightarrow> bool" where
  "js_map_ok m \<equiv> distinct (js_keys m)"

definition js_has :: "('k, 'v) jsmap \<Rightarrow> 'k \<Rightarrow> bool" where
  "js_has m k = (js_get m k \<noteq> None)"

definition set_add :: "'a \<Rightarrow> 'a list \<Rightarrow> 'a list" where
  "set_add x xs = (if x \<in> set xs then xs else xs @ [x])"

definition set_del :: "'a \<Rightarrow> 'a list \<Rightarrow> 'a list" where
  "set_del x xs = filter (\<lambda>y. y \<noteq> x) xs"

lemma js_get_set [jsmap, simp]: "js_get (js_set k v m) k' = (if k' = k then Some v else js_get m k')"
  by (simp add: update_conv')

lemma js_get_del [jsmap, simp]: "js_get (js_del k m) k' = (if k' = k then None else js_get m k')"
  by (simp add: delete_conv')

lemma js_map_ok_set [jsmap, intro, simp]: "js_map_ok m \<Longrightarrow> js_map_ok (js_set k v m)"
  by (rule distinct_update)

lemma js_map_ok_del [jsmap, intro, simp]: "js_map_ok m \<Longrightarrow> js_map_ok (js_del k m)"
  by (rule distinct_delete)

lemma js_keys_set [jsmap]: "set (js_keys (js_set k v m)) = insert k (set (js_keys m))"
  by (simp add: dom_update)

lemma js_keys_del [jsmap]: "set (js_keys (js_del k m)) = set (js_keys m) - {k}"
  by (auto simp: delete_keys)

lemma js_has_iff [jsmap]: "js_has m k \<longleftrightarrow> k \<in> set (js_keys m)"
  by (simp add: js_has_def map_of_eq_None_iff)

lemma js_entry_get: "js_map_ok m \<Longrightarrow> (k, v) \<in> set m \<longleftrightarrow> js_get m k = Some v"
  by simp

lemma js_set_entries:
  "js_map_ok m \<Longrightarrow> set (js_set k v m) = insert (k, v) {(k', v') \<in> set m. k' \<noteq> k}"
proof -
  assume ok: "js_map_ok m"
  have "(k', v') \<in> set (js_set k v m) \<longleftrightarrow> js_get (js_set k v m) k' = Some v'" for k' v'
    by (rule js_entry_get) (use ok in simp)
  moreover have "(k', v') \<in> set m \<longleftrightarrow> js_get m k' = Some v'" for k' v'
    by (rule js_entry_get) (use ok in simp)
  ultimately show ?thesis by (auto simp del: map_of_eq_Some_iff split: if_splits)
qed

lemma js_set_entryD: "(k', v') \<in> set (js_set k v m) \<Longrightarrow> (k', v') = (k, v) \<or> (k', v') \<in> set m"
  by (induction m) (auto split: if_splits)

lemma js_del_entries: "set (js_del k m) = {(k', v') \<in> set m. k' \<noteq> k}"
  by (auto simp: AList.delete_eq)

text \<open>Copying a map entry by entry, in order, gives the same map.\<close>

lemma js_set_fresh: "k \<notin> set (js_keys m) \<Longrightarrow> js_set k v m = m @ [(k, v)]"
  by (induction m) auto

lemma js_copy_append:
  "js_map_ok (acc @ m) \<Longrightarrow> foldl (\<lambda>m (k, v). js_set k v m) acc m = acc @ m"
proof (induction m arbitrary: acc)
  case (Cons p m)
  obtain k v where p: "p = (k, v)" by fastforce
  have "js_set k v acc = acc @ [(k, v)]" using Cons.prems p by (intro js_set_fresh) auto
  then show ?case using Cons.IH [of "acc @ [p]"] Cons.prems p by simp
qed simp

lemma js_copy [jsmap]: "js_map_ok m \<Longrightarrow> foldl (\<lambda>m (k, v). js_set k v m) [] m = m"
  using js_copy_append [of "[]" m] by simp

text \<open>Two maps with the same lookups have the same entries, in some order.\<close>

lemma js_map_eq_mset:
  assumes "js_map_ok m" "js_map_ok n" "\<And>k. js_get m k = js_get n k"
  shows "mset m = mset n"
proof (rule set_eq_iff_mset_eq_distinct [THEN iffD1])
  show "distinct m" "distinct n" using assms(1,2) by (simp_all add: distinct_map)
  have "(k, v) \<in> set m \<longleftrightarrow> (k, v) \<in> set n" for k v
    using assms by (metis js_entry_get)
  then show "set m = set n" by auto
qed

text \<open>A total over the values of a map, after one entry is written.\<close>

lemma sum_counts: "js_map_ok m \<Longrightarrow>
  sum_list (map snd (js_set k (case js_get m k of None \<Rightarrow> 1 | Some n \<Rightarrow> n + 1) m)) = sum_list (map snd m) + (1::nat)"
proof (induction m)
  case (Cons e m)
  then show ?case by (cases e) (auto split: option.splits)
qed simp

lemma filter_both_le: "length (filter (\<lambda>x. P x \<and> Q x) xs) \<le> length (filter P xs)"
  by (induction xs) simp_all

lemma sum_js_set:
  fixes f :: "'v \<Rightarrow> 'a::ab_group_add"
  assumes "js_map_ok m"
  shows "sum_list (map (\<lambda>e. f (snd e)) (js_set k v m)) =
    sum_list (map (\<lambda>e. f (snd e)) m) - (case js_get m k of None \<Rightarrow> 0 | Some u \<Rightarrow> f u) + f v"
  using assms
proof (induction m)
  case (Cons e m)
  obtain k' u where e: "e = (k', u)" by fastforce
  show ?case
  proof (cases "k' = k")
    case True
    then show ?thesis by (simp add: e)
  next
    case False
    then show ?thesis using Cons by (simp add: e algebra_simps)
  qed
qed simp

lemma set_set_add [jsmap, simp]: "set (set_add x xs) = insert x (set xs)"
  by (auto simp: set_add_def)

lemma distinct_set_add [jsmap, simp]: "distinct (set_add x xs) = distinct xs"
  by (auto simp: set_add_def)

lemma set_set_del [jsmap, simp]: "set (set_del x xs) = set xs - {x}"
  by (auto simp: set_del_def)

lemma distinct_set_del [jsmap, simp]: "distinct xs \<Longrightarrow> distinct (set_del x xs)"
  by (simp add: set_del_def)

lemma set_del_eq_Nil [jsmap]: "set_del x xs = [] \<longleftrightarrow> set xs \<subseteq> {x}"
  by (auto simp: set_del_def filter_empty_conv)

section \<open>Running a component over a list of inputs\<close>

text \<open>
  Most components are a state and a step function. The locale states what an invariant of such a
  component is; each component interprets it on its own step function and gets the statement
  for every finite run.
\<close>

locale stepper =
  fixes step :: "'s \<Rightarrow> 'e \<Rightarrow> 's"
    and ok :: "'e \<Rightarrow> bool"
    and inv :: "'s \<Rightarrow> bool"
  assumes step_inv: "inv s \<Longrightarrow> ok e \<Longrightarrow> inv (step s e)"
begin

lemma run_inv: "inv s \<Longrightarrow> (\<And>e. e \<in> set es \<Longrightarrow> ok e) \<Longrightarrow> inv (foldl step s es)"
  by (induction es arbitrary: s) (auto intro: step_inv)

end

text \<open>The same for a component whose step preserves a quantity.\<close>

lemma foldl_invariant:
  assumes "\<And>s e. P s \<Longrightarrow> e \<in> set es \<Longrightarrow> P (f s e)" "P s"
  shows "P (foldl f s es)"
  using assms by (induction es arbitrary: s) auto

section \<open>Half-even rounding\<close>

definition half_even :: "rat \<Rightarrow> int" where
  "half_even x =
     (let f = \<lfloor>x\<rfloor>; r = x - of_int f in
      if r < 1 / 2 then f
      else if r > 1 / 2 then f + 1
      else if even f then f else f + 1)"

definition round_dp :: "nat \<Rightarrow> rat \<Rightarrow> rat" where
  "round_dp dp x = of_int (half_even (x * 10 ^ dp)) / 10 ^ dp"

definition on_grid :: "nat \<Rightarrow> rat \<Rightarrow> bool" where
  "on_grid dp x = (x * 10 ^ dp = of_int \<lfloor>x * 10 ^ dp\<rfloor>)"

lemma half_even_int [grid, simp]: "half_even (of_int n) = n"
  by (simp add: half_even_def)

lemma half_even_0 [grid, simp]: "half_even 0 = 0"
  using half_even_int [of 0] by simp

lemma half_even_near: "\<bar>of_int (half_even x) - x\<bar> \<le> 1 / 2"
proof -
  have "0 \<le> x - of_int \<lfloor>x\<rfloor>" "x - of_int \<lfloor>x\<rfloor> < 1" by linarith+
  then show ?thesis by (auto simp: half_even_def Let_def)
qed

lemma half_even_bounds: "\<lfloor>x\<rfloor> \<le> half_even x" "half_even x \<le> \<lfloor>x\<rfloor> + 1"
  by (auto simp: half_even_def Let_def)

lemma half_even_mono: "x \<le> y \<Longrightarrow> half_even x \<le> half_even y"
proof -
  assume le: "x \<le> y"
  then have fl: "\<lfloor>x\<rfloor> \<le> \<lfloor>y\<rfloor>" by (rule floor_mono)
  show ?thesis
  proof (cases "\<lfloor>x\<rfloor> = \<lfloor>y\<rfloor>")
    case True
    then show ?thesis using le by (auto simp: half_even_def Let_def)
  next
    case False
    then show ?thesis using fl half_even_bounds [of x] half_even_bounds [of y] by linarith
  qed
qed

lemma half_even_nonneg [grid]: "0 \<le> x \<Longrightarrow> 0 \<le> half_even x"
  using half_even_mono [of 0 x] by simp

lemma round_dp_mono [grid]: "x \<le> y \<Longrightarrow> round_dp dp x \<le> round_dp dp y"
  by (simp add: round_dp_def divide_right_mono half_even_mono)

lemma round_dp_grid [grid, simp]: "on_grid dp x \<Longrightarrow> round_dp dp x = x"
proof -
  assume g: "on_grid dp x"
  then have "half_even (x * 10 ^ dp) = \<lfloor>x * 10 ^ dp\<rfloor>"
    unfolding on_grid_def by (metis half_even_int)
  then have "of_int (half_even (x * 10 ^ dp)) = x * 10 ^ dp"
    using g by (simp add: on_grid_def)
  then show ?thesis by (simp add: round_dp_def)
qed

lemma on_grid_iff: "on_grid dp x \<longleftrightarrow> (\<exists>n. x * 10 ^ dp = of_int n)"
  unfolding on_grid_def by (metis floor_of_int)

lemma on_grid_of_int [grid]: "on_grid dp (of_int n)"
  unfolding on_grid_iff by (rule exI [of _ "n * 10 ^ dp"]) simp

lemma on_grid_round [grid, simp]: "on_grid dp (round_dp dp x)"
  by (simp add: on_grid_iff round_dp_def)

lemma round_dp_idem [grid, simp]: "round_dp dp (round_dp dp x) = round_dp dp x"
  by simp

lemma on_grid_0 [grid, simp]: "on_grid dp 0"
  by (simp add: on_grid_def)

lemma on_grid_1 [grid, simp]: "on_grid dp 1"
  using on_grid_of_int [of dp 1] by simp

lemma on_grid_add [grid, intro]: "on_grid dp x \<Longrightarrow> on_grid dp y \<Longrightarrow> on_grid dp (x + y)"
  unfolding on_grid_iff by (metis of_int_add distrib_right)

lemma on_grid_minus [grid, intro]: "on_grid dp x \<Longrightarrow> on_grid dp (- x)"
  unfolding on_grid_iff by (metis mult_minus_left of_int_minus)

lemma on_grid_diff [grid, intro]: "on_grid dp x \<Longrightarrow> on_grid dp y \<Longrightarrow> on_grid dp (x - y)"
  using on_grid_add [of dp x "- y"] on_grid_minus [of dp y] by simp

lemma round_dp_0 [grid, simp]: "round_dp dp 0 = 0"
  by simp

lemma round_dp_nonneg [grid]: "0 \<le> x \<Longrightarrow> 0 \<le> round_dp dp x"
  using round_dp_mono [of 0 x dp] by simp

lemma round_dp_le_1 [grid]: "x \<le> 1 \<Longrightarrow> round_dp dp x \<le> 1"
  using round_dp_mono [of x 1 dp] by simp

lemma round_dp_near: "\<bar>round_dp dp x - x\<bar> \<le> 1 / (2 * 10 ^ dp)"
proof -
  have "round_dp dp x - x = (of_int (half_even (x * 10 ^ dp)) - x * 10 ^ dp) / 10 ^ dp"
    by (simp add: round_dp_def diff_divide_distrib)
  then have "\<bar>round_dp dp x - x\<bar> = \<bar>of_int (half_even (x * 10 ^ dp)) - x * 10 ^ dp\<bar> / 10 ^ dp"
    by (simp add: abs_divide)
  also have "\<dots> \<le> (1 / 2) / 10 ^ dp"
    using half_even_near [of "x * 10 ^ dp"] by (rule divide_right_mono) simp
  finally show ?thesis by simp
qed

text \<open>Rounding is compatible with shifting by a grid value.\<close>

lemma half_even_add_even: "even n \<Longrightarrow> half_even (x + of_int n) = half_even x + n"
  by (auto simp: half_even_def Let_def)

section \<open>Joining and splitting strings\<close>

text \<open>\<open>xs.join(sep)\<close>.\<close>

fun join :: "string \<Rightarrow> string list \<Rightarrow> string" where
  "join sep [] = []"
| "join sep [x] = x"
| "join sep (x # y # xs) = x @ sep @ join sep (y # xs)"

lemma split_unique:
  "c \<notin> set a \<Longrightarrow> c \<notin> set a' \<Longrightarrow> a @ c # b = a' @ c # b' \<Longrightarrow> a = a' \<and> b = b'"
proof (induction a arbitrary: a')
  case Nil
  then show ?case by (cases a') auto
next
  case (Cons x a)
  then show ?case by (cases a') auto
qed

lemma set_join: "set (join sep xs) \<subseteq> \<Union> (set ` set xs) \<union> set sep"
  by (induction sep xs rule: join.induct) auto

lemma join_inj:
  assumes "\<And>x. x \<in> set xs \<union> set ys \<Longrightarrow> x \<noteq> [] \<and> c \<notin> set x"
    and "join [c] xs = join [c] ys"
  shows "xs = ys"
  using assms
proof (induction "[c]" xs arbitrary: ys rule: join.induct)
  case 1
  show ?case
  proof (cases ys)
    case (Cons y zs)
    with 1 show ?thesis by (cases zs) auto
  qed simp
next
  case (2 x)
  have nc: "c \<notin> set x" using "2.prems"(1) [of x] by simp
  show ?case
  proof (cases ys)
    case Nil
    with 2 show ?thesis by simp
  next
    case (Cons y zs)
    with nc "2.prems"(2) show ?thesis by (cases zs) auto
  qed
next
  case (3 x y xs)
  obtain z w zs where ys: "ys = z # w # zs"
  proof (cases ys)
    case Nil
    with "3.prems" show ?thesis by auto
  next
    case (Cons z us)
    have "c \<notin> set z" using "3.prems"(1) [of z] Cons by simp
    with Cons "3.prems"(2) that show ?thesis by (cases us) auto
  qed
  have "c \<notin> set x" "c \<notin> set z" using "3.prems"(1) ys by auto
  then have xz: "x = z" "join [c] (y # xs) = join [c] (w # zs)"
    using split_unique [of c x z] "3.prems"(2) ys by auto
  have "y # xs = w # zs"
  proof (rule "3.hyps")
    show "u \<noteq> [] \<and> c \<notin> set u" if "u \<in> set (y # xs) \<union> set (w # zs)" for u
      using "3.prems"(1) [of u] that ys by auto
  qed (rule xz(2))
  then show ?case using ys xz by simp
qed

section \<open>Stable descending sort\<close>

text \<open>\<open>xs.sort((a, b) => key(b) - key(a))\<close>: JavaScript's sort is stable.\<close>

definition sort_desc :: "('a \<Rightarrow> rat) \<Rightarrow> 'a list \<Rightarrow> 'a list" where
  "sort_desc key xs = sort_key (\<lambda>x. - key x) xs"

lemma set_sort_desc [simp]: "set (sort_desc key xs) = set xs"
  by (simp add: sort_desc_def)

lemma mset_sort_desc [simp]: "mset (sort_desc key xs) = mset xs"
  by (simp add: sort_desc_def)

lemma length_sort_desc [simp]: "length (sort_desc key xs) = length xs"
  by (simp add: sort_desc_def)

lemma sort_desc_Nil [simp]: "sort_desc key [] = []"
  by (simp add: sort_desc_def)

lemma sorted_sort_desc: "sorted_wrt (\<lambda>a b. key b \<le> key a) (sort_desc key xs)"
proof -
  have "sorted (map (\<lambda>x. - key x) (sort_desc key xs))" by (simp add: sort_desc_def)
  then show ?thesis by (simp add: sorted_map)
qed

lemma sort_desc_mset_cong:
  assumes "mset xs = mset ys" "inj_on key (set xs)"
  shows "sort_desc key xs = sort_desc key ys"
proof -
  have "inj_on (\<lambda>x. - key x) (set xs)" using assms(2) by (auto simp: inj_on_def)
  then show ?thesis
    unfolding sort_desc_def using assms(1) by (intro sort_key_inj_key_eq) simp_all
qed

lemma hd_sort_desc: "xs \<noteq> [] \<Longrightarrow> x \<in> set xs \<Longrightarrow> key x \<le> key (hd (sort_desc key xs))"
proof -
  assume ne: "xs \<noteq> []" and x: "x \<in> set xs"
  from ne obtain y ys where yy: "sort_desc key xs = y # ys"
    by (cases "sort_desc key xs") (auto dest: arg_cong [where f = length])
  with sorted_sort_desc [of key xs] x show ?thesis
    by (metis list.sel(1) order_refl set_ConsD set_sort_desc sorted_wrt.simps(2))
qed

end
