(* ===== verification/Decimals.thy ===== *)
theory Decimals
  imports Prelude
begin

text \<open>
  Decimal arithmetic: \<open>src/src/book/decimal.ts\<close>.

  A finite \<open>Decimal\<close> is the rational it denotes, and \<open>plus\<close>, \<open>minus\<close>, \<open>mul\<close>, \<open>neg\<close>, \<open>abs\<close>,
  the comparisons, \<open>min\<close> and \<open>max\<close> are those of \<open>rat\<close>. What depends on the library
  \<open>decimal.js\<close> beyond that (how \<open>toFixed\<close> prints, how a string is read back, how a quotient is
  rounded to the configured 34 significant digits) is the record \<open>dec_lib\<close>, an argument of the
  definitions that use it; the locale \<open>decimal_lib\<close> states the documented behaviour the code
  relies on, and \<open>std_dlib\<close> is a concrete library for which every law is proved.
\<close>

section \<open>The library's interface\<close>

record dec_lib =
  dl_fixed :: "nat \<Rightarrow> rat \<Rightarrow> string"   \<comment> \<open>\<open>x.toFixed(dp, ROUND_HALF_EVEN)\<close>\<close>
  dl_of_string :: "string \<Rightarrow> rat"      \<comment> \<open>\<open>new Decimal(s)\<close> and \<open>Number(s)\<close> on a canonical string\<close>
  dl_round :: "rat \<Rightarrow> rat"             \<comment> \<open>the rounding of an exact quotient to \<open>precision\<close> digits\<close>

text \<open>At most 34 significant digits (\<open>Decimal.set\<close>: \<open>precision: 34\<close>).\<close>

definition sig34 :: "rat \<Rightarrow> bool" where
  "sig34 x \<longleftrightarrow> (\<exists>m e. \<bar>m\<bar> < (10::int) ^ 34 \<and> x = of_int m * 10 powi e)"

definition decimal_chars :: "char set" where
  "decimal_chars = set ''0123456789.-''"

locale decimal_lib =
  fixes L :: dec_lib
  assumes parse_fixed: "dl_of_string L (dl_fixed L dp x) = round_dp dp x"
    and fixed_cong: "0 \<le> x \<Longrightarrow> 0 \<le> y \<Longrightarrow> round_dp dp x = round_dp dp y \<Longrightarrow>
        dl_fixed L dp x = dl_fixed L dp y"
    and fixed_chars: "set (dl_fixed L dp x) \<subseteq> decimal_chars"
    and round_mono: "x \<le> y \<Longrightarrow> dl_round L x \<le> dl_round L y"
    and round_exact: "sig34 x \<Longrightarrow> dl_round L x = x"
    and round_err: "\<bar>dl_round L x - x\<bar> \<le> \<bar>x\<bar> / 10 ^ 33"
begin

lemma fixed_eq_iff:
  "0 \<le> x \<Longrightarrow> 0 \<le> y \<Longrightarrow> dl_fixed L dp x = dl_fixed L dp y \<longleftrightarrow> round_dp dp x = round_dp dp y"
  by (metis fixed_cong parse_fixed)

lemma fixed_round: "0 \<le> x \<Longrightarrow> dl_fixed L dp (round_dp dp x) = dl_fixed L dp x"
  by (rule fixed_cong) (simp_all add: round_dp_nonneg)

lemma fixed_parse_fixed: "0 \<le> x \<Longrightarrow> dl_fixed L dp (dl_of_string L (dl_fixed L dp x)) = dl_fixed L dp x"
  by (simp add: parse_fixed fixed_round)

lemma round_0: "dl_round L 0 = 0"
  using round_err [of 0] by simp

lemma round_nonneg: "0 \<le> x \<Longrightarrow> 0 \<le> dl_round L x"
  using round_mono [of 0 x] round_0 by simp

end

section \<open>decimal.ts\<close>

definition PRICE_DP :: nat where "PRICE_DP = 6"
definition SIZE_DP :: nat where "SIZE_DP = 6"

definition canonicalPrice :: "dec_lib \<Rightarrow> rat \<Rightarrow> string" where
  "canonicalPrice L value = dl_fixed L PRICE_DP value"

definition canonicalSize :: "dec_lib \<Rightarrow> rat \<Rightarrow> string" where
  "canonicalSize L value = dl_fixed L SIZE_DP value"

definition ddiv :: "dec_lib \<Rightarrow> rat \<Rightarrow> rat \<Rightarrow> rat" where
  \<comment> \<open>\<open>x.div(y)\<close> for a non-zero \<open>y\<close>\<close>
  "ddiv L x y = dl_round L (x / y)"

definition centsToPrice :: "dec_lib \<Rightarrow> rat \<Rightarrow> rat" where
  "centsToPrice L cents = ddiv L cents 100"

definition priceToCents :: "rat \<Rightarrow> rat" where
  "priceToCents price = price * 100"

definition yesAskFromNoBid :: "rat \<Rightarrow> rat" where
  "yesAskFromNoBid noBidPrice = 1 - noBidPrice"

definition noBidFromYesAsk :: "rat \<Rightarrow> rat" where
  "noBidFromYesAsk yesAskPrice = 1 - yesAskPrice"

text \<open>A \<open>Decimal\<close> that may not be finite, as the two range assertions see it.\<close>

datatype decimal_value = Finite rat | PosInf | NegInf | NaN

datatype decimal_error = DecimalRangeError (range_context: string) (range_value: decimal_value)

fun dv_lt :: "decimal_value \<Rightarrow> rat \<Rightarrow> bool" where
  "dv_lt (Finite x) b = (x < b)"
| "dv_lt NegInf b = True"
| "dv_lt _ b = False"

fun dv_gt :: "decimal_value \<Rightarrow> rat \<Rightarrow> bool" where
  "dv_gt (Finite x) b = (b < x)"
| "dv_gt PosInf b = True"
| "dv_gt _ b = False"

fun dv_isFinite :: "decimal_value \<Rightarrow> bool" where
  "dv_isFinite (Finite _) = True"
| "dv_isFinite _ = False"

definition assertPriceInRange :: "decimal_value \<Rightarrow> string \<Rightarrow> decimal_error + unit" where
  "assertPriceInRange value ctx =
     (if \<not> dv_isFinite value \<or> dv_lt value 0 \<or> dv_gt value 1
      then Inl (DecimalRangeError ctx value) else Inr ())"

definition assertNonNegativeSize :: "decimal_value \<Rightarrow> string \<Rightarrow> decimal_error + unit" where
  "assertNonNegativeSize value ctx =
     (if \<not> dv_isFinite value \<or> dv_lt value 0
      then Inl (DecimalRangeError ctx value) else Inr ())"

definition fromNumeric :: "dec_lib \<Rightarrow> string option \<Rightarrow> rat option" where
  "fromNumeric L value = map_option (dl_of_string L) value"

definition toNumeric :: "dec_lib \<Rightarrow> rat option \<Rightarrow> nat \<Rightarrow> string option" where
  "toNumeric L value dp = map_option (dl_fixed L dp) value"

section \<open>A concrete library\<close>

text \<open>Digits of a natural number, most significant first.\<close>

fun ndig :: "nat \<Rightarrow> nat" where
  "ndig n = (if n < 10 then 1 else Suc (ndig (n div 10)))"

declare ndig.simps [simp del]

definition digit_alphabet :: string where
  "digit_alphabet = ''0123456789''"

definition digit_char :: "nat \<Rightarrow> char" where
  "digit_char d = digit_alphabet ! (d mod 10)"

definition digit_val :: "char \<Rightarrow> nat" where
  "digit_val c = length (takeWhile (\<lambda>x. x \<noteq> c) digit_alphabet)"

fun digs :: "nat \<Rightarrow> nat \<Rightarrow> string" where
  "digs 0 n = []"
| "digs (Suc k) n = digs k (n div 10) @ [digit_char (n mod 10)]"

definition read_digs :: "string \<Rightarrow> nat" where
  "read_digs s = foldl (\<lambda>a c. 10 * a + digit_val c) 0 s"

definition std_fixed :: "nat \<Rightarrow> rat \<Rightarrow> string" where
  "std_fixed dp x =
     (let n = nat \<bar>half_even (x * 10 ^ dp)\<bar>; ip = n div 10 ^ dp
      in (if x < 0 then ''-'' else []) @ digs (ndig ip) ip
         @ (if dp = 0 then [] else ''.'' @ digs dp (n mod 10 ^ dp)))"

definition std_of_string :: "string \<Rightarrow> rat" where
  "std_of_string s =
     (let neg = (\<exists>c \<in> set s. c = CHR ''-'');
          body = filter (\<lambda>c. c \<noteq> CHR ''-'') s;
          frac = tl (dropWhile (\<lambda>c. c \<noteq> CHR ''.'') body);
          v = of_nat (read_digs (filter (\<lambda>c. c \<noteq> CHR ''.'') body)) / 10 ^ length frac
      in if neg then - v else v)"

text \<open>The decimal exponent of a positive rational, and half-even rounding to 34 digits.\<close>

definition exp10 :: "rat \<Rightarrow> int" where
  "exp10 x =
     (let (a, b) = quotient_of x
      in if b \<le> a then int (ndig (nat (a div b))) - 1
         else - int (ndig (nat ((b - 1) div a))))"

definition round_pos :: "rat \<Rightarrow> rat" where
  "round_pos x = of_int (half_even (x * 10 powi (33 - exp10 x))) / 10 powi (33 - exp10 x)"

definition round34 :: "rat \<Rightarrow> rat" where
  "round34 x = (if x = 0 then 0 else if x < 0 then - round_pos (- x) else round_pos x)"

definition std_dlib :: dec_lib where
  "std_dlib = \<lparr>dl_fixed = std_fixed, dl_of_string = std_of_string, dl_round = round34\<rparr>"

subsection \<open>Printing and reading back\<close>

lemma length_digs [simp]: "length (digs k n) = k"
  by (induction k arbitrary: n) auto

lemma digit_val_char: "d < 10 \<Longrightarrow> digit_val (digit_char d) = d"
proof -
  assume "d < 10"
  then have "d \<in> {0, 1, 2, 3, 4, 5, 6, 7, 8, 9}" by auto
  then show ?thesis by (auto simp: digit_val_def digit_char_def digit_alphabet_def)
qed

lemma digit_char_cases: "digit_char d \<in> set ''0123456789''"
  unfolding digit_char_def digit_alphabet_def by (rule nth_mem) simp

lemma set_digs: "set (digs k n) \<subseteq> set ''0123456789''"
proof (induction k arbitrary: n)
  case (Suc k)
  then show ?case using digit_char_cases [of "n mod 10"] by (simp only: digs.simps set_append) auto
qed simp

lemma read_digs_snoc: "read_digs (s @ [c]) = 10 * read_digs s + digit_val c"
  by (simp add: read_digs_def)

lemma read_digs_digs: "n < 10 ^ k \<Longrightarrow> read_digs (digs k n) = n"
proof (induction k arbitrary: n)
  case 0
  then show ?case by (simp add: read_digs_def)
next
  case (Suc k)
  then have "n div 10 < 10 ^ k" by (simp add: div_less_iff_less_mult)
  then have "read_digs (digs k (n div 10)) = n div 10" by (rule Suc.IH)
  then show ?case by (simp add: read_digs_snoc digit_val_char)
qed

lemma read_digs_append:
  "read_digs (s @ t) = read_digs s * 10 ^ length t + read_digs t"
proof (induction t rule: rev_induct)
  case Nil
  then show ?case by (simp add: read_digs_def)
next
  case (snoc c t)
  then show ?case by (simp add: read_digs_snoc flip: append_assoc)
qed

lemma ndig_bound: "n < 10 ^ ndig n"
proof (induction n rule: ndig.induct)
  case (1 n)
  show ?case
  proof (cases "n < 10")
    case True
    then show ?thesis by (subst ndig.simps) simp
  next
    case False
    then have "n div 10 < 10 ^ ndig (n div 10)" by (rule 1)
    then have "n < 10 * 10 ^ ndig (n div 10)" by (simp add: div_less_iff_less_mult mult.commute)
    with False show ?thesis by (subst ndig.simps) simp
  qed
qed

lemma ndig_lower: "0 < n \<Longrightarrow> 10 ^ (ndig n - 1) \<le> n"
proof (induction n rule: ndig.induct)
  case (1 n)
  show ?case
  proof (cases "n < 10")
    case True
    then show ?thesis using "1.prems" by (subst ndig.simps) simp
  next
    case False
    then have d: "0 < n div 10" by (simp add: div_greater_zero_iff)
    have "10 ^ (ndig (n div 10) - 1) \<le> n div 10" by (rule "1.IH" [OF False d])
    then have "10 * 10 ^ (ndig (n div 10) - 1) \<le> n" by (simp add: less_eq_div_iff_mult_less_eq mult.commute)
    moreover have "10 * (10::nat) ^ (ndig (n div 10) - 1) = 10 ^ ndig (n div 10)"
      by (subst (1 2) ndig.simps) simp
    ultimately show ?thesis using False by (subst ndig.simps) simp
  qed
qed

lemma ndig_pos: "0 < ndig n"
  by (subst ndig.simps) simp

lemma half_even_neg: "x \<le> 0 \<Longrightarrow> half_even x \<le> 0"
  using half_even_mono [of x 0] by simp

lemma digits_no_dot: "set s \<subseteq> set ''0123456789'' \<Longrightarrow> CHR ''.'' \<notin> set s \<and> CHR ''-'' \<notin> set s"
  by (auto dest: subsetD)

lemma std_body:
  assumes "set s \<subseteq> set ''0123456789''" "set t \<subseteq> set ''0123456789''"
  shows "std_of_string ((if neg then ''-'' else []) @ s @ (if t = [] then [] else ''.'' @ t))
    = (if neg then -1 else 1) * of_nat (read_digs (s @ t)) / 10 ^ length t"
proof -
  have nd: "CHR ''.'' \<notin> set s" "CHR ''-'' \<notin> set s" "CHR ''.'' \<notin> set t" "CHR ''-'' \<notin> set t"
    using assms digits_no_dot by blast+
  have f: "filter (\<lambda>c. c \<noteq> CHR ''-'') s = s" "filter (\<lambda>c. c \<noteq> CHR ''-'') t = t"
    "filter (\<lambda>c. c \<noteq> CHR ''.'') s = s" "filter (\<lambda>c. c \<noteq> CHR ''.'') t = t"
    using nd by (auto simp: filter_id_conv)
  have d: "dropWhile (\<lambda>c. c \<noteq> CHR ''.'') s = []" "dropWhile (\<lambda>c. c \<noteq> CHR ''.'') t = []"
    "dropWhile (\<lambda>c. c \<noteq> CHR ''.'') (s @ CHR ''.'' # t) = CHR ''.'' # t"
    using nd by (auto simp: dropWhile_append)
  show ?thesis
    using nd by (cases "t = []"; cases neg) (simp_all add: std_of_string_def Let_def f d del: filter_filter)
qed

lemma std_parse_fixed: "std_of_string (std_fixed dp x) = round_dp dp x"
proof -
  let ?h = "half_even (x * 10 ^ dp)"
  define n where "n = nat \<bar>?h\<bar>"
  define ip where "ip = n div 10 ^ dp"
  have t: "dp = 0 \<longleftrightarrow> digs dp (n mod 10 ^ dp) = []"
    by (metis length_0_conv length_digs)
  have "std_of_string (std_fixed dp x)
     = std_of_string ((if x < 0 then ''-'' else []) @ digs (ndig ip) ip
         @ (if digs dp (n mod 10 ^ dp) = [] then [] else ''.'' @ digs dp (n mod 10 ^ dp)))"
    using t by (simp add: std_fixed_def Let_def n_def ip_def)
  also have "\<dots> = (if x < 0 then -1 else 1) *
      of_nat (read_digs (digs (ndig ip) ip @ digs dp (n mod 10 ^ dp))) / 10 ^ dp"
    by (subst std_body [OF set_digs set_digs]) simp
  also have "read_digs (digs (ndig ip) ip @ digs dp (n mod 10 ^ dp)) = n"
    by (simp add: read_digs_append read_digs_digs ndig_bound) (simp add: ip_def div_mult_mod_eq)
  finally have main: "std_of_string (std_fixed dp x) = (if x < 0 then -1 else 1) * of_nat n / 10 ^ dp" .
  have "of_int ?h = (if x < 0 then -1 else 1) * (of_nat n :: rat)"
  proof (cases "x < 0")
    case True
    then have "?h \<le> 0" by (simp add: half_even_neg mult_nonpos_nonneg)
    with True show ?thesis by (simp add: n_def)
  next
    case False
    then have "0 \<le> ?h" by (simp add: half_even_nonneg)
    with False show ?thesis by (simp add: n_def)
  qed
  with main show ?thesis by (simp add: round_dp_def)
qed

lemma std_fixed_cong:
  assumes "0 \<le> x" "0 \<le> y" "round_dp dp x = round_dp dp y"
  shows "std_fixed dp x = std_fixed dp y"
proof -
  have "half_even (x * 10 ^ dp) = half_even (y * 10 ^ dp)"
    using assms(3) by (simp add: round_dp_def)
  then show ?thesis using assms(1,2) by (simp add: std_fixed_def)
qed

lemma std_fixed_chars: "set (std_fixed dp x) \<subseteq> decimal_chars"
proof -
  have "set (digs k n) \<subseteq> decimal_chars" for k n
    by (rule subset_trans [OF set_digs]) (simp add: decimal_chars_def)
  moreover have "CHR ''-'' \<in> decimal_chars" "CHR ''.'' \<in> decimal_chars"
    by (simp_all add: decimal_chars_def)
  ultimately show ?thesis
    by (cases "x < 0"; cases "dp = 0") (simp_all add: std_fixed_def Let_def)
qed

subsection \<open>Rounding to 34 significant digits\<close>

lemma zdiv_iffs:
  assumes "0 < (b::int)"
  shows "k \<le> a div b \<longleftrightarrow> k * b \<le> a" "a div b < k \<longleftrightarrow> a < k * b"
proof -
  have f: "a div b = \<lfloor>(of_int a :: rat) / of_int b\<rfloor>" by (simp add: floor_divide_of_int_eq)
  have b: "(0::rat) < of_int b" using assms by simp
  have "of_int k \<le> (of_int a :: rat) / of_int b \<longleftrightarrow> (of_int (k * b) :: rat) \<le> of_int a"
    using b by (simp add: pos_le_divide_eq)
  then show "k \<le> a div b \<longleftrightarrow> k * b \<le> a" unfolding f le_floor_iff of_int_le_iff .
  have "(of_int a :: rat) / of_int b < of_int k \<longleftrightarrow> (of_int a :: rat) < of_int (k * b)"
    using b by (simp add: pos_divide_less_eq)
  then show "a div b < k \<longleftrightarrow> a < k * b" unfolding f floor_less_iff of_int_less_iff .
qed

lemma ndig_int_bounds:
  assumes "0 < (n::int)"
  shows "10 ^ (ndig (nat n) - 1) \<le> n" "n < 10 ^ ndig (nat n)"
proof -
  have "(10::nat) ^ (ndig (nat n) - 1) \<le> nat n" by (rule ndig_lower) (use assms in simp)
  then have "int (10 ^ (ndig (nat n) - 1)) \<le> int (nat n)" by (simp only: of_nat_le_iff)
  then show "10 ^ (ndig (nat n) - 1) \<le> n" using assms by simp
  have "int (nat n) < int (10 ^ ndig (nat n))" using ndig_bound [of "nat n"] by (simp only: of_nat_less_iff)
  then show "n < 10 ^ ndig (nat n)" using assms by simp
qed

lemma exp10_bounds_ge1:
  assumes "0 < b" "b \<le> a" "x = of_int a / of_int b" "e = int (ndig (nat (a div b))) - 1"
  shows "10 powi e \<le> (x::rat) \<and> x < 10 powi (e + 1)"
proof -
  define k where "k = ndig (nat (a div b))"
  have kp: "0 < a div b" using assms(1,2) by (simp add: pos_imp_zdiv_pos_iff)
  have "10 ^ (k - 1) * b \<le> a" "a < 10 ^ k * b"
    using ndig_int_bounds [OF kp] unfolding k_def by (simp_all only: zdiv_iffs [OF assms(1)])
  then have "(of_int (10 ^ (k - 1) * b) :: rat) \<le> of_int a" "(of_int a :: rat) < of_int (10 ^ k * b)"
    by (simp_all only: of_int_le_iff of_int_less_iff)
  then have "10 ^ (k - 1) \<le> x" "x < 10 ^ k"
    using assms(1,3) by (simp_all add: pos_le_divide_eq pos_divide_less_eq)
  moreover have "10 powi e = (10::rat) ^ (k - 1)" "10 powi (e + 1) = (10::rat) ^ k"
    using ndig_pos [of "nat (a div b)"] assms(4)
    by (simp_all add: power_int_def k_def nat_diff_distrib')
  ultimately show ?thesis by simp
qed

lemma exp10_bounds_lt1:
  assumes "0 < a" "a < b" "x = of_int a / of_int b" "e = - int (ndig (nat ((b - 1) div a)))"
  shows "10 powi e \<le> (x::rat) \<and> x < 10 powi (e + 1)"
proof -
  define k where "k = ndig (nat ((b - 1) div a))"
  have kp: "0 < (b - 1) div a" using assms(1,2) by (simp add: pos_imp_zdiv_pos_iff)
  have "10 ^ (k - 1) * a \<le> b - 1" "b - 1 < 10 ^ k * a"
    using ndig_int_bounds [OF kp] unfolding k_def by (simp_all only: zdiv_iffs [OF assms(1)])
  then have "10 ^ (k - 1) * a < b" "b \<le> 10 ^ k * a" by simp_all
  then have "(of_int (10 ^ (k - 1) * a) :: rat) < of_int b" "(of_int b :: rat) \<le> of_int (10 ^ k * a)"
    by (simp_all only: of_int_le_iff of_int_less_iff)
  then have "x < 1 / 10 ^ (k - 1)" "1 / 10 ^ k \<le> x"
    unfolding assms(3) using assms(1,2) by (simp_all add: field_simps)
  moreover have "e = - int k" "e + 1 = - int (k - 1)"
    using ndig_pos [of "nat ((b - 1) div a)"] assms(4) by (auto simp: k_def of_nat_diff Suc_leI)
  then have "10 powi e = 1 / (10::rat) ^ k" "10 powi (e + 1) = 1 / (10::rat) ^ (k - 1)"
    by (simp_all only: power_int_minus power_int_of_nat) (simp_all add: divide_inverse)
  ultimately show ?thesis by simp
qed

lemma exp10_bounds:
  assumes "0 < x"
  shows "10 powi exp10 x \<le> x" "x < 10 powi (exp10 x + 1)"
proof -
  obtain a b where q: "quotient_of x = (a, b)" by fastforce
  then have b: "0 < b" by (rule quotient_of_denom_pos)
  have x: "x = of_int a / of_int b" using q by (rule quotient_of_div)
  then have a: "0 < a" using assms b by (simp add: zero_less_divide_iff)
  have "10 powi exp10 x \<le> x \<and> x < 10 powi (exp10 x + 1)"
  proof (cases "b \<le> a")
    case True
    then show ?thesis by (intro exp10_bounds_ge1 [OF b True x]) (simp add: exp10_def q)
  next
    case False
    then show ?thesis by (intro exp10_bounds_lt1 [OF a _ x]) (simp_all add: exp10_def q)
  qed
  then show "10 powi exp10 x \<le> x" "x < 10 powi (exp10 x + 1)" by simp_all
qed

lemma powi_mono10: "e \<le> f \<Longrightarrow> (10::rat) powi e \<le> 10 powi f"
  by (rule power_int_increasing) simp_all

lemma powi_less10: "(10::rat) powi e < 10 powi f \<Longrightarrow> e < f"
  using powi_mono10 [of f e] by linarith

lemma exp10_mono: "0 < x \<Longrightarrow> x \<le> y \<Longrightarrow> exp10 x \<le> exp10 y"
proof -
  assume "0 < x" "x \<le> y"
  then have "(10::rat) powi exp10 x < 10 powi (exp10 y + 1)"
    using exp10_bounds(1) [of x] exp10_bounds(2) [of y] by linarith
  then show ?thesis using powi_less10 by fastforce
qed

text \<open>A positive value scaled to 34 integer digits, and what rounding does to it.\<close>

lemma scaled_bounds:
  assumes "0 < x" "s = 33 - exp10 x"
  shows "10 ^ 33 \<le> x * 10 powi s" "x * 10 powi s < 10 ^ 34"
proof -
  have p: "(0::rat) < 10 powi s" by simp
  have "10 powi exp10 x * 10 powi s \<le> x * 10 powi s" "x * 10 powi s < 10 powi (exp10 x + 1) * 10 powi s"
    using exp10_bounds [OF assms(1)] p by (simp_all add: mult_right_mono)
  moreover have "(10::rat) powi exp10 x * 10 powi s = 10 powi 33"
    "(10::rat) powi (exp10 x + 1) * 10 powi s = 10 powi 34"
    by (simp_all add: assms(2) flip: power_int_add)
  ultimately show "10 ^ 33 \<le> x * 10 powi s" "x * 10 powi s < 10 ^ 34"
    by (simp_all add: power_int_def)
qed

lemma round_pos_bounds:
  assumes "0 < x"
  shows "10 powi exp10 x \<le> round_pos x" "round_pos x \<le> 10 powi (exp10 x + 1)"
proof -
  define s where "s = 33 - exp10 x"
  have p: "(0::rat) < 10 powi s" by simp
  have "(10::int) ^ 33 \<le> half_even (x * 10 powi s)" "half_even (x * 10 powi s) \<le> 10 ^ 34"
    using scaled_bounds [OF assms s_def]
      half_even_mono [of "of_int (10 ^ 33)" "x * 10 powi s"] half_even_mono [of "x * 10 powi s" "of_int (10 ^ 34)"]
    by (simp_all only: half_even_int) simp_all
  then have "(of_int (10 ^ 33) :: rat) \<le> of_int (half_even (x * 10 powi s))"
     "of_int (half_even (x * 10 powi s)) \<le> (of_int (10 ^ 34) :: rat)"
    by (simp_all only: of_int_le_iff)
  then have h: "(10::rat) ^ 33 \<le> of_int (half_even (x * 10 powi s))"
     "of_int (half_even (x * 10 powi s)) \<le> (10::rat) ^ 34"
    by (simp_all only: of_int_power of_int_numeral)
  have e: "(10::rat) powi exp10 x = 10 ^ 33 / 10 powi s" "(10::rat) powi (exp10 x + 1) = 10 ^ 34 / 10 powi s"
    by (simp_all add: s_def power_int_diff power_int_add)
  show "10 powi exp10 x \<le> round_pos x" "round_pos x \<le> 10 powi (exp10 x + 1)"
    unfolding e round_pos_def s_def [symmetric] using h p by (auto intro!: divide_right_mono)
qed

lemma round_pos_mono:
  assumes "0 < x" "x \<le> y"
  shows "round_pos x \<le> round_pos y"
proof (cases "exp10 x = exp10 y")
  case True
  then show ?thesis
    using assms(2) by (auto simp: round_pos_def intro!: divide_right_mono half_even_mono mult_right_mono)
next
  case False
  then have "exp10 x + 1 \<le> exp10 y" using exp10_mono [OF assms] by simp
  then have "(10::rat) powi (exp10 x + 1) \<le> 10 powi exp10 y" by (rule powi_mono10)
  then show ?thesis
    using round_pos_bounds(2) [of x] round_pos_bounds(1) [of y] assms by linarith
qed

lemma round_pos_pos: "0 < x \<Longrightarrow> 0 < round_pos x"
  using round_pos_bounds(1) [of x] zero_less_power_int [of "10::rat" "exp10 x"] by linarith

lemma round_pos_err:
  assumes "0 < x"
  shows "\<bar>round_pos x - x\<bar> \<le> x / 10 ^ 33"
proof -
  define s where "s = 33 - exp10 x"
  have p: "(0::rat) < 10 powi s" by simp
  have "round_pos x - x = (of_int (half_even (x * 10 powi s)) - x * 10 powi s) / 10 powi s"
    by (simp add: round_pos_def s_def diff_divide_distrib)
  then have "\<bar>round_pos x - x\<bar> = \<bar>of_int (half_even (x * 10 powi s)) - x * 10 powi s\<bar> / 10 powi s"
    using p by (simp add: abs_divide)
  also have "\<dots> \<le> (x * 10 powi s / 10 ^ 33) / 10 powi s"
  proof (rule divide_right_mono)
    have "1 \<le> x * 10 powi s / 10 ^ 33" using scaled_bounds(1) [OF assms s_def] by simp
    then show "\<bar>of_int (half_even (x * 10 powi s)) - x * 10 powi s\<bar> \<le> x * 10 powi s / 10 ^ 33"
      using half_even_near [of "x * 10 powi s"] by linarith
  qed (use p in simp)
  also have "\<dots> = x / 10 ^ 33" using p by simp
  finally show ?thesis .
qed

lemma round_pos_exact:
  assumes "0 < x" "sig34 x"
  shows "round_pos x = x"
proof -
  define s where "s = 33 - exp10 x"
  obtain m e where m: "\<bar>m\<bar> < (10::int) ^ 34" "x = of_int m * 10 powi e"
    using assms(2) by (auto simp: sig34_def)
  have "0 \<le> e + s"
  proof (rule ccontr)
    assume "\<not> 0 \<le> e + s"
    then have "e + 34 \<le> exp10 x" by (simp add: s_def)
    then have "(10::rat) powi e * 10 ^ 34 \<le> x"
      using exp10_bounds(1) [OF assms(1)] powi_mono10 [of "e + 34" "exp10 x"]
      by (simp add: power_int_add)
    then have "(10::rat) ^ 34 \<le> of_int m" by (simp add: m(2) mult.commute)
    then have "(of_int (10 ^ 34) :: rat) \<le> of_int m" by simp
    then show False using m(1) by (simp only: of_int_le_iff)
  qed
  then have "(10::rat) powi (e + s) = 10 ^ nat (e + s)" by (simp add: power_int_def)
  then have "x * 10 powi s = of_int (m * 10 ^ nat (e + s))"
    by (simp add: m(2) mult.assoc power_int_add)
  then have "of_int (half_even (x * 10 powi s)) = x * 10 powi s"
    by (metis half_even_int)
  then show ?thesis by (simp add: round_pos_def flip: s_def)
qed

lemma sig34_minus: "sig34 (- x) \<longleftrightarrow> sig34 x"
proof -
  have "sig34 x \<Longrightarrow> sig34 (- x)" for x
    unfolding sig34_def by (metis abs_minus_cancel mult_minus_left of_int_minus)
  from this [of x] this [of "- x"] show ?thesis by auto
qed

lemma round34_mono: "x \<le> y \<Longrightarrow> round34 x \<le> round34 y"
  using round_pos_mono [of x y] round_pos_mono [of "- y" "- x"] round_pos_pos [of y] round_pos_pos [of "- x"]
  by (auto simp: round34_def)

lemma round34_exact: "sig34 x \<Longrightarrow> round34 x = x"
  using round_pos_exact [of x] round_pos_exact [of "- x"] by (auto simp: round34_def sig34_minus)

lemma round34_err: "\<bar>round34 x - x\<bar> \<le> \<bar>x\<bar> / 10 ^ 33"
proof (cases "x < 0")
  case True
  then have "\<bar>round34 x - x\<bar> = \<bar>round_pos (- x) - (- x)\<bar>"
    by (simp add: round34_def abs_minus_commute)
  then show ?thesis using round_pos_err [of "- x"] True by simp
next
  case False
  then show ?thesis using round_pos_err [of x] by (simp add: round34_def)
qed

lemma std_dlib_simps [simp]:
  "dl_fixed std_dlib = std_fixed" "dl_of_string std_dlib = std_of_string" "dl_round std_dlib = round34"
  by (simp_all add: std_dlib_def)

interpretation std: decimal_lib std_dlib
proof unfold_locales
  fix dp x y
  show "dl_of_string std_dlib (dl_fixed std_dlib dp x) = round_dp dp x"
    by (simp add: std_parse_fixed)
  show "dl_fixed std_dlib dp x = dl_fixed std_dlib dp y"
    if "0 \<le> x" "0 \<le> y" "round_dp dp x = round_dp dp y"
    unfolding std_dlib_simps using that by (rule std_fixed_cong)
  show "set (dl_fixed std_dlib dp x) \<subseteq> decimal_chars"
    unfolding std_dlib_simps by (rule std_fixed_chars)
  show "dl_round std_dlib x \<le> dl_round std_dlib y" if "x \<le> y"
    unfolding std_dlib_simps using that by (rule round34_mono)
  show "dl_round std_dlib x = x" if "sig34 x"
    unfolding std_dlib_simps using that by (rule round34_exact)
  show "\<bar>dl_round std_dlib x - x\<bar> \<le> \<bar>x\<bar> / 10 ^ 33"
    unfolding std_dlib_simps by (rule round34_err)
qed

text \<open>Evaluation of the concrete library on closed terms, for the witnesses.\<close>

lemma digs_numeral: "digs (numeral k) n = digs (pred_numeral k) (n div 10) @ [digit_char (n mod 10)]"
  by (subst numeral_eq_Suc) (rule digs.simps(2))

lemma ndig_small: "n < 10 \<Longrightarrow> ndig n = 1"
  by (subst ndig.simps) simp

lemma ndig_big: "\<not> n < 10 \<Longrightarrow> ndig n = Suc (ndig (n div 10))"
  by (subst ndig.simps) simp

lemmas std_eval =
  std_fixed_def std_of_string_def half_even_def digit_char_def digit_val_def digit_alphabet_def read_digs_def
  digs_numeral ndig_small ndig_big

section \<open>Properties of decimal.ts\<close>

lemma sig34_of_int: "\<bar>n\<bar> < 10 ^ 34 \<Longrightarrow> sig34 (of_int n)"
  unfolding sig34_def by (intro exI [of _ n] exI [of _ 0]) simp

lemma sig34_scaled: "\<bar>n\<bar> < 10 ^ 34 \<Longrightarrow> sig34 (of_int n / 10 ^ k)"
  unfolding sig34_def
  by (intro exI [of _ n] exI [of _ "- int k"]) (simp add: power_int_minus divide_inverse)

lemma sig34_unit: "sig34 1" "sig34 (- 1)" "sig34 0"
  using sig34_of_int [of 1] sig34_of_int [of "- 1"] sig34_of_int [of 0] by simp_all

context decimal_lib
begin

lemma round_between: "sig34 lo \<Longrightarrow> sig34 hi \<Longrightarrow> lo \<le> x \<Longrightarrow> x \<le> hi \<Longrightarrow> lo \<le> dl_round L x \<and> dl_round L x \<le> hi"
  using round_mono [of lo x] round_mono [of x hi] by (simp add: round_exact)

text \<open>A quotient of a non-negative value by at least as large a positive one is a fraction.\<close>

lemma ddiv_unit: "0 < y \<Longrightarrow> 0 \<le> x \<Longrightarrow> x \<le> y \<Longrightarrow> 0 \<le> ddiv L x y \<and> ddiv L x y \<le> 1"
  unfolding ddiv_def by (rule round_between) (simp_all add: sig34_unit)

lemma parse_canonicalPrice: "dl_of_string L (canonicalPrice L x) = round_dp PRICE_DP x"
  by (simp add: canonicalPrice_def parse_fixed)

lemma parse_canonicalSize: "dl_of_string L (canonicalSize L x) = round_dp SIZE_DP x"
  by (simp add: canonicalSize_def parse_fixed)

lemma canonicalPrice_eq_iff:
  "0 \<le> x \<Longrightarrow> 0 \<le> y \<Longrightarrow>
     canonicalPrice L x = canonicalPrice L y \<longleftrightarrow> round_dp PRICE_DP x = round_dp PRICE_DP y"
  by (simp add: canonicalPrice_def fixed_eq_iff)

lemma canonicalSize_eq_iff:
  "0 \<le> x \<Longrightarrow> 0 \<le> y \<Longrightarrow>
     canonicalSize L x = canonicalSize L y \<longleftrightarrow> round_dp SIZE_DP x = round_dp SIZE_DP y"
  by (simp add: canonicalSize_def fixed_eq_iff)

lemma canonicalPrice_round:
  "0 \<le> x \<Longrightarrow> canonicalPrice L (round_dp PRICE_DP x) = canonicalPrice L x"
  by (simp add: canonicalPrice_def fixed_round)

lemma canonical_chars:
  "set (canonicalPrice L x) \<subseteq> decimal_chars" "set (canonicalSize L x) \<subseteq> decimal_chars"
  by (simp_all add: canonicalPrice_def canonicalSize_def fixed_chars)

lemma ddiv_exact: "sig34 (x / y) \<Longrightarrow> ddiv L x y = x / y"
  by (simp add: ddiv_def round_exact)

lemma ddiv_mono: "0 < y \<Longrightarrow> x \<le> x' \<Longrightarrow> ddiv L x y \<le> ddiv L x' y"
  by (simp add: ddiv_def round_mono divide_right_mono)

end

end
