(* ===== verification/Hashing.thy ===== *)
theory Hashing
  imports Decimals "HOL-Library.List_Lexorder" "HOL-Library.Char_ord"
begin

text \<open>
  Canonical levels and hash preimages: \<open>src/src/book/hashing.ts\<close>.

  \<open>sha256\<close> is a parameter (a function on strings): nothing here depends on how it computes. What
  the code relies on, that the preimage determines the book, is \<open>preimage_inj\<close>.
\<close>

type_synonym level_pair = "string \<times> string"

section \<open>Definitions\<close>

definition level_num :: "dec_lib \<Rightarrow> level_pair \<Rightarrow> rat" where
  "level_num L l = dl_of_string L (fst l)"

definition canonicalLevels :: "dec_lib \<Rightarrow> (rat \<times> rat) list \<Rightarrow> level_pair list" where
  "canonicalLevels L levels =
     sort_desc (level_num L)
       (filter (\<lambda>(p, s). dl_of_string L s \<noteq> 0)
         (map (\<lambda>(price, sz). (canonicalPrice L price, canonicalSize L sz)) levels))"

definition serializeLevels :: "level_pair list \<Rightarrow> string" where
  "serializeLevels levels = join '','' (map (\<lambda>(p, s). p @ ''@'' @ s) levels)"

definition NL :: char where "NL = CHR 0x0A"

definition bookPreimage :: "string \<Rightarrow> level_pair list \<Rightarrow> level_pair list \<Rightarrow> string" where
  "bookPreimage marketTicker yesLevels noLevels =
     marketTicker @ [NL] @ ''yes:'' @ serializeLevels yesLevels @ [NL] @ ''no:'' @ serializeLevels noLevels"

definition hashBookState ::
  "(string \<Rightarrow> string) \<Rightarrow> string \<Rightarrow> level_pair list \<Rightarrow> level_pair list \<Rightarrow> string" where
  "hashBookState sha256 marketTicker yesLevels noLevels =
     sha256 (bookPreimage marketTicker yesLevels noLevels)"

definition hashLadderState :: "(string \<Rightarrow> string) \<Rightarrow> (string \<times> string option) list \<Rightarrow> string" where
  "hashLadderState sha256 entries =
     (let sorted = sort_key fst entries
      in sha256 (join [NL] (map (\<lambda>(ticker, hash). ticker @ ''='' @ (case hash of None \<Rightarrow> ''null'' | Some h \<Rightarrow> h)) sorted)))"

section \<open>Canonical levels\<close>

lemma canonicalLevels_set:
  "set (canonicalLevels L levels) =
     {(canonicalPrice L p, canonicalSize L s) | p s. (p, s) \<in> set levels \<and> dl_of_string L (canonicalSize L s) \<noteq> 0}"
  by (auto simp: canonicalLevels_def)

lemma canonicalLevels_sorted:
  "sorted_wrt (\<lambda>a b. level_num L b \<le> level_num L a) (canonicalLevels L levels)"
  by (simp add: canonicalLevels_def sorted_sort_desc)

definition well_formed_level :: "level_pair \<Rightarrow> bool" where
  "well_formed_level l \<longleftrightarrow> set (fst l) \<subseteq> decimal_chars \<and> set (snd l) \<subseteq> decimal_chars"

lemma decimal_chars_sep:
  "CHR ''@'' \<notin> decimal_chars" "CHR '','' \<notin> decimal_chars" "NL \<notin> decimal_chars"
  by (simp_all add: decimal_chars_def NL_def)

lemma level_piece_inj:
  assumes "well_formed_level a" "well_formed_level b"
    and "(\<lambda>(p, s). p @ ''@'' @ s) a = (\<lambda>(p, s). p @ ''@'' @ s) b"
  shows "a = b"
proof -
  have "CHR ''@'' \<notin> set (fst a)" "CHR ''@'' \<notin> set (fst b)"
    using assms(1,2) decimal_chars_sep(1) by (auto simp: well_formed_level_def)
  then show ?thesis
    using assms(3) split_unique [of "CHR ''@''" "fst a" "fst b" "snd a" "snd b"]
    by (simp add: case_prod_beta prod_eq_iff)
qed

lemma level_piece_chars:
  "well_formed_level a \<Longrightarrow> set ((\<lambda>(p, s). p @ ''@'' @ s) a) \<subseteq> decimal_chars \<union> {CHR ''@''}"
  by (auto simp: well_formed_level_def case_prod_beta)

lemma serializeLevels_chars:
  assumes "\<And>l. l \<in> set ls \<Longrightarrow> well_formed_level l"
  shows "set (serializeLevels ls) \<subseteq> decimal_chars \<union> {CHR ''@'', CHR '',''}"
proof -
  have "set ((\<lambda>(p, s). p @ ''@'' @ s) a) \<subseteq> decimal_chars \<union> {CHR ''@''}" if "a \<in> set ls" for a
    using level_piece_chars assms that by blast
  then show ?thesis
    using set_join [of "'',''" "map (\<lambda>(p, s). p @ ''@'' @ s) ls"]
    by (fastforce simp: serializeLevels_def)
qed

lemma serializeLevels_inj:
  assumes "\<And>l. l \<in> set ls \<union> set ms \<Longrightarrow> well_formed_level l"
    and "serializeLevels ls = serializeLevels ms"
  shows "ls = ms"
proof -
  let ?f = "\<lambda>(p, s). p @ ''@'' @ s"
  have "map ?f ls = map ?f ms"
  proof (rule join_inj [of _ _ "CHR '',''"])
    fix x assume "x \<in> set (map ?f ls) \<union> set (map ?f ms)"
    then obtain a where a: "a \<in> set ls \<union> set ms" "x = ?f a" by auto
    have "CHR '','' \<notin> decimal_chars \<union> {CHR ''@''}" using decimal_chars_sep by simp
    then have "CHR '','' \<notin> set x" using level_piece_chars [of a] assms(1) a by blast
    then show "x \<noteq> [] \<and> CHR '','' \<notin> set x" using a by (auto simp: case_prod_beta)
  qed (use assms(2) in \<open>simp add: serializeLevels_def\<close>)
  moreover have "inj_on ?f (set ls \<union> set ms)"
    using level_piece_inj assms(1) by (intro inj_onI) blast
  ultimately show ?thesis by (rule map_inj_on)
qed

lemma bookPreimage_inj:
  assumes "NL \<notin> set t" "NL \<notin> set t'"
    and "\<And>l. l \<in> set ys \<union> set ys' \<union> set ns \<union> set ns' \<Longrightarrow> well_formed_level l"
    and eq: "bookPreimage t ys ns = bookPreimage t' ys' ns'"
  shows "t = t' \<and> ys = ys' \<and> ns = ns'"
proof -
  have sep: "NL \<notin> decimal_chars \<union> {CHR ''@'', CHR '',''}"
    using decimal_chars_sep by (simp add: NL_def)
  have nl: "NL \<notin> set (''yes:'' @ serializeLevels ys)" "NL \<notin> set (''yes:'' @ serializeLevels ys')"
    using serializeLevels_chars [of ys] serializeLevels_chars [of ys'] assms(3) sep
    by (auto simp: NL_def)
  have "t @ NL # (''yes:'' @ serializeLevels ys) @ NL # ''no:'' @ serializeLevels ns
      = t' @ NL # (''yes:'' @ serializeLevels ys') @ NL # ''no:'' @ serializeLevels ns'"
    using eq by (simp add: bookPreimage_def)
  from split_unique [OF assms(1,2) this]
  have t: "t = t'" and rest: "(''yes:'' @ serializeLevels ys) @ NL # ''no:'' @ serializeLevels ns
      = (''yes:'' @ serializeLevels ys') @ NL # ''no:'' @ serializeLevels ns'" by blast+
  from split_unique [OF nl rest]
  have "serializeLevels ys = serializeLevels ys'" "serializeLevels ns = serializeLevels ns'"
    by simp_all
  then have "ys = ys'" "ns = ns'"
    using serializeLevels_inj [of ys ys'] serializeLevels_inj [of ns ns'] assms(3) by auto
  with t show ?thesis by simp
qed

section \<open>Canonical keys\<close>

text \<open>
  A key of a book's ladder is the canonical string of a non-negative price; on such keys the
  numeric value determines the string.
\<close>

definition key_ok :: "dec_lib \<Rightarrow> string \<Rightarrow> bool" where
  "key_ok L k \<longleftrightarrow> canonicalPrice L (dl_of_string L k) = k \<and> 0 \<le> dl_of_string L k"

context decimal_lib
begin

lemma key_ok_canonical: "0 \<le> x \<Longrightarrow> key_ok L (canonicalPrice L x)"
  by (simp add: key_ok_def parse_canonicalPrice canonicalPrice_round round_dp_nonneg)

lemma key_ok_num_inj: "key_ok L k \<Longrightarrow> key_ok L k' \<Longrightarrow> dl_of_string L k = dl_of_string L k' \<Longrightarrow> k = k'"
  by (metis key_ok_def)

lemma key_ok_grid: "key_ok L k \<Longrightarrow> on_grid PRICE_DP (dl_of_string L k)"
  by (metis key_ok_def on_grid_round parse_canonicalPrice)

lemma canonicalLevels_well_formed: "l \<in> set (canonicalLevels L levels) \<Longrightarrow> well_formed_level l"
  using canonical_chars by (fastforce simp: canonicalLevels_set well_formed_level_def)

end

end
