(* ===== verification/Book.thy ===== *)
theory Book
  imports Hashing
begin

text \<open>
  The in-memory order book of one market: \<open>src/src/book/book.ts\<close>.

  \<open>market_book\<close> has the fields of \<open>MarketBook\<close>; each method is a function on it, with the
  reading of \<open>Date.now()\<close> as the argument \<open>now\<close> where the method may take it. The YES and NO
  ladders are JavaScript maps from canonical price strings to sizes. The first part is the model,
  the second the representation invariant \<open>book_ok\<close> and the facts that rest on it: what a delta
  does to a level, the best prices, the bounds on the derived quantities, and that rewinding the
  delta journal gives the states the book was really in.
\<close>

section \<open>The model\<close>

datatype book_side = Yes | No

datatype level_action = ActInsert | ActIncrease | ActDecrease | ActDelete | ActUnknown

record apply_delta_input =
  di_side :: book_side
  di_price :: rat
  di_delta :: rat
  di_seq :: "int option"
  di_atMs :: "int option"

record apply_delta_result =
  dr_applied :: bool
  dr_preCount :: rat
  dr_postCount :: "rat option"
  dr_levelAction :: level_action
  dr_error :: "string option"

record snapshot_levels =
  sl_yesBids :: "(rat \<times> rat) list"
  sl_noBids :: "(rat \<times> rat) list"

record snapshot_opts =
  so_seq :: "int option"
  so_atMs :: "int option"
  so_sessionId :: "string option"
  so_streamId :: "string option"

record yes_bbo =
  bbo_bid :: "rat option"
  bbo_bidSize :: "rat option"
  bbo_ask :: "rat option"
  bbo_askSize :: "rat option"
  bbo_spread :: "rat option"
  bbo_mid :: "rat option"

record depth =
  dp_bid :: rat
  dp_ask :: rat

record canonical_book =
  cb_yes_bids :: "level_pair list"
  cb_no_bids :: "level_pair list"

record journal_entry =
  je_seq :: "int option"
  je_atMs :: int
  je_side :: book_side
  je_price :: string
  je_delta :: rat

type_synonym ladder = "(string, rat) jsmap"

record market_book =
  mb_ticker :: string
  mb_yesBids :: ladder
  mb_noBids :: ladder
  mb_lastSeq :: "int option"
  mb_valid :: bool
  mb_invalidReason :: "string option"
  mb_lastSnapshotAtMs :: int
  mb_lastUpdateAtMs :: int
  mb_sessionId :: "string option"
  mb_streamId :: "string option"
  mb_hashCache :: "string option"
  mb_journal :: "journal_entry list"
  mb_journalWindowMs :: int
  mb_journalMaxEntries :: nat

definition newMarketBook :: "string \<Rightarrow> int option \<Rightarrow> nat option \<Rightarrow> market_book" where
  "newMarketBook marketTicker windowMs maxEntries =
     \<lparr>mb_ticker = marketTicker, mb_yesBids = [], mb_noBids = [], mb_lastSeq = None,
      mb_valid = False, mb_invalidReason = None, mb_lastSnapshotAtMs = 0, mb_lastUpdateAtMs = 0,
      mb_sessionId = None, mb_streamId = None, mb_hashCache = None, mb_journal = [],
      mb_journalWindowMs = (case windowMs of None \<Rightarrow> 10000 | Some w \<Rightarrow> w),
      mb_journalMaxEntries = (case maxEntries of None \<Rightarrow> 2048 | Some m \<Rightarrow> m)\<rparr>"

text \<open>The ladder of one side, and the book with that ladder replaced.\<close>

fun sideLadder :: "book_side \<Rightarrow> market_book \<Rightarrow> ladder" where
  "sideLadder Yes b = mb_yesBids b"
| "sideLadder No b = mb_noBids b"

fun withLadder :: "book_side \<Rightarrow> ladder \<Rightarrow> market_book \<Rightarrow> market_book" where
  "withLadder Yes m b = b\<lparr>mb_yesBids := m\<rparr>"
| "withLadder No m b = b\<lparr>mb_noBids := m\<rparr>"

definition levelSize :: "ladder \<Rightarrow> string \<Rightarrow> rat" where
  \<comment> \<open>\<open>map.get(key) ?? ZERO\<close>\<close>
  "levelSize m k = (case js_get m k of None \<Rightarrow> 0 | Some v \<Rightarrow> v)"

definition putLevel :: "ladder \<Rightarrow> string \<Rightarrow> rat \<Rightarrow> ladder" where
  \<comment> \<open>\<open>if (v.isZero()) map.delete(key); else map.set(key, v)\<close>\<close>
  "putLevel m k v = (if v = 0 then js_del k m else js_set k v m)"

definition invalidate :: "string \<Rightarrow> market_book \<Rightarrow> market_book" where
  "invalidate reason b = b\<lparr>mb_valid := False, mb_invalidReason := Some reason\<rparr>"

definition setLevel :: "dec_lib \<Rightarrow> book_side \<Rightarrow> rat \<Rightarrow> rat \<Rightarrow> market_book \<Rightarrow> market_book" where
  "setLevel L side price sz b =
     (let key = canonicalPrice L price
      in if sz = 0 then b
         else withLadder side (js_set key sz (sideLadder side b)) b)"

definition replaceWithSnapshot ::
  "dec_lib \<Rightarrow> int \<Rightarrow> snapshot_levels \<Rightarrow> snapshot_opts \<Rightarrow> market_book \<Rightarrow> market_book" where
  "replaceWithSnapshot L now levels opts b =
     (let b = b\<lparr>mb_yesBids := [], mb_noBids := []\<rparr>;
          b = foldl (\<lambda>b (price, sz). setLevel L Yes price sz b) b (sl_yesBids levels);
          b = foldl (\<lambda>b (price, sz). setLevel L No price sz b) b (sl_noBids levels);
          atMs = (case so_atMs opts of None \<Rightarrow> now | Some t \<Rightarrow> t)
      in b\<lparr>mb_lastSeq := so_seq opts, mb_valid := True, mb_invalidReason := None,
           mb_lastSnapshotAtMs := atMs, mb_lastUpdateAtMs := atMs, mb_journal := [],
           mb_sessionId := (case so_sessionId opts of None \<Rightarrow> mb_sessionId b | Some s \<Rightarrow> Some s),
           mb_streamId := (case so_streamId opts of None \<Rightarrow> mb_streamId b | Some s \<Rightarrow> Some s),
           mb_hashCache := None\<rparr>)"

text \<open>
  \<open>trimJournal\<close>: the leading entries older than the window go, then all but the newest
  \<open>journalMaxEntries\<close>.
\<close>

definition trimJournal :: "int \<Rightarrow> market_book \<Rightarrow> market_book" where
  "trimJournal nowMs b =
     (let cutoff = nowMs - mb_journalWindowMs b;
          j = dropWhile (\<lambda>e. je_atMs e < cutoff) (mb_journal b);
          j = (if length j > mb_journalMaxEntries b then drop (length j - mb_journalMaxEntries b) j else j)
      in b\<lparr>mb_journal := j\<rparr>)"

fun sideString :: "book_side \<Rightarrow> string" where
  "sideString Yes = ''yes''"
| "sideString No = ''no''"

definition negativeLevelMessage ::
  "string \<Rightarrow> book_side \<Rightarrow> string \<Rightarrow> string \<Rightarrow> string \<Rightarrow> string \<Rightarrow> string" where
  "negativeLevelMessage ticker side price pre delta post =
     ''negative level quantity for '' @ ticker @ '' '' @ sideString side @ ''@'' @ price @ '': ''
       @ pre @ '' + '' @ delta @ '' = '' @ post"

text \<open>
  \<open>applyDelta\<close>. \<open>isPositive()\<close> of a zero \<open>Decimal\<close> is true (its sign is positive), so the test is
  \<open>0 \<le> delta\<close> and a zero delta on a present level reports \<open>increase\<close>; see
  \<open>zero_delta_reported_as_increase\<close>.
\<close>

definition deltaAction :: "rat \<Rightarrow> rat \<Rightarrow> level_action" where
  "deltaAction pre delta =
     (let post = pre + delta
      in if post = 0 then ActDelete
         else if pre = 0 then ActInsert
         else if 0 \<le> delta then ActIncrease
         else if delta = 0 then ActUnknown
         else ActDecrease)"

definition applyDelta ::
  "dec_lib \<Rightarrow> int \<Rightarrow> apply_delta_input \<Rightarrow> market_book \<Rightarrow> apply_delta_result \<times> market_book" where
  "applyDelta L now inp b =
     (let side = di_side inp;
          priceKey = canonicalPrice L (di_price inp);
          delta = di_delta inp;
          pre = levelSize (sideLadder side b) priceKey;
          post = pre + delta
      in if post < 0 then
           let message = negativeLevelMessage (mb_ticker b) side priceKey
                 (canonicalSize L pre) (canonicalSize L delta) (canonicalSize L post)
           in (\<lparr>dr_applied = False, dr_preCount = pre, dr_postCount = Some post,
                dr_levelAction = ActUnknown, dr_error = Some message\<rparr>,
               invalidate message b)
         else
           let atMs = (case di_atMs inp of None \<Rightarrow> now | Some t \<Rightarrow> t);
               b = withLadder side (putLevel (sideLadder side b) priceKey post) b;
               b = b\<lparr>mb_lastSeq := (case di_seq inp of None \<Rightarrow> mb_lastSeq b | Some s \<Rightarrow> Some s),
                     mb_lastUpdateAtMs := atMs, mb_hashCache := None,
                     mb_journal := mb_journal b @
                       [\<lparr>je_seq = di_seq inp, je_atMs = atMs, je_side = side,
                         je_price = priceKey, je_delta = delta\<rparr>]\<rparr>
           in (\<lparr>dr_applied = True, dr_preCount = pre, dr_postCount = Some post,
                dr_levelAction = deltaAction pre delta, dr_error = None\<rparr>,
               trimJournal atMs b))"

definition earliestJournalMs :: "market_book \<Rightarrow> int option" where
  "earliestJournalMs b = (case mb_journal b of [] \<Rightarrow> None | e # _ \<Rightarrow> Some (je_atMs e))"

definition journalSize :: "market_book \<Rightarrow> nat" where
  "journalSize b = length (mb_journal b)"

subsection \<open>Derived views\<close>

definition ladderEntries :: "dec_lib \<Rightarrow> ladder \<Rightarrow> (rat \<times> rat) list" where
  \<comment> \<open>\<open>map.entries()\<close> as decimal inputs: a key stands for the decimal it spells\<close>
  "ladderEntries L m = map (\<lambda>(k, v). (dl_of_string L k, v)) m"

definition yesBidLevels :: "dec_lib \<Rightarrow> market_book \<Rightarrow> level_pair list" where
  "yesBidLevels L b = canonicalLevels L (ladderEntries L (mb_yesBids b))"

definition noBidLevels :: "dec_lib \<Rightarrow> market_book \<Rightarrow> level_pair list" where
  "noBidLevels L b = canonicalLevels L (ladderEntries L (mb_noBids b))"

definition yesAskLevels :: "dec_lib \<Rightarrow> market_book \<Rightarrow> level_pair list" where
  "yesAskLevels L b =
     map (\<lambda>(price, sz). (canonicalPrice L (1 - dl_of_string L price), sz)) (noBidLevels L b)"

definition firstLevel :: "dec_lib \<Rightarrow> level_pair list \<Rightarrow> (rat \<times> rat) option" where
  "firstLevel L ls = (case ls of [] \<Rightarrow> None | l # _ \<Rightarrow> Some (dl_of_string L (fst l), dl_of_string L (snd l)))"

definition mkBbo :: "dec_lib \<Rightarrow> (rat \<times> rat) option \<Rightarrow> (rat \<times> rat) option \<Rightarrow> yes_bbo" where
  "mkBbo L bestBid bestAsk =
     (let bid = map_option fst bestBid; ask = map_option fst bestAsk
      in \<lparr>bbo_bid = bid, bbo_bidSize = map_option snd bestBid,
          bbo_ask = ask, bbo_askSize = map_option snd bestAsk,
          bbo_spread = (case (bid, ask) of (Some x, Some y) \<Rightarrow> Some (y - x) | _ \<Rightarrow> None),
          bbo_mid = (case (bid, ask) of (Some x, Some y) \<Rightarrow> Some (ddiv L (x + y) 2) | _ \<Rightarrow> None)\<rparr>)"

definition getYesBBO :: "dec_lib \<Rightarrow> market_book \<Rightarrow> yes_bbo" where
  "getYesBBO L b = mkBbo L (firstLevel L (yesBidLevels L b)) (firstLevel L (yesAskLevels L b))"

definition sumLevels :: "dec_lib \<Rightarrow> nat \<Rightarrow> level_pair list \<Rightarrow> rat" where
  "sumLevels L k levels = foldl (\<lambda>acc (_, sz). acc + dl_of_string L sz) 0 (take k levels)"

definition getDepth :: "dec_lib \<Rightarrow> nat \<Rightarrow> market_book \<Rightarrow> depth" where
  "getDepth L k b = \<lparr>dp_bid = sumLevels L k (yesBidLevels L b), dp_ask = sumLevels L k (yesAskLevels L b)\<rparr>"

definition getImbalance :: "dec_lib \<Rightarrow> nat \<Rightarrow> market_book \<Rightarrow> rat option" where
  "getImbalance L k b =
     (let d = getDepth L k b; denom = dp_bid d + dp_ask d
      in if denom = 0 then None else Some (ddiv L (dp_bid d - dp_ask d) denom))"

definition micropriceOf :: "dec_lib \<Rightarrow> yes_bbo \<Rightarrow> rat option" where
  "micropriceOf L q =
     (case (bbo_bid q, bbo_ask q, bbo_bidSize q, bbo_askSize q) of
        (Some bid, Some ask, Some bidSize, Some askSize) \<Rightarrow>
          let denom = bidSize + askSize
          in if denom = 0 then None else Some (ddiv L (ask * bidSize + bid * askSize) denom)
      | _ \<Rightarrow> None)"

definition getMicroprice :: "dec_lib \<Rightarrow> market_book \<Rightarrow> rat option" where
  "getMicroprice L b = micropriceOf L (getYesBBO L b)"

definition levelCount :: "market_book \<Rightarrow> nat \<times> nat" where
  "levelCount b = (length (mb_yesBids b), length (mb_noBids b))"

definition isEmpty :: "market_book \<Rightarrow> bool" where
  "isEmpty b \<longleftrightarrow> length (mb_yesBids b) = 0 \<and> length (mb_noBids b) = 0"

subsection \<open>Serialisation, hashing, copying, rewinding\<close>

definition serializeCanonical :: "dec_lib \<Rightarrow> market_book \<Rightarrow> canonical_book" where
  "serializeCanonical L b =
     \<lparr>cb_yes_bids = map (\<lambda>(p, s). (p, s)) (yesBidLevels L b),
      cb_no_bids = map (\<lambda>(p, s). (p, s)) (noBidLevels L b)\<rparr>"

definition bookHash :: "dec_lib \<Rightarrow> (string \<Rightarrow> string) \<Rightarrow> market_book \<Rightarrow> string" where
  \<comment> \<open>the hash \<open>getStateHash\<close> computes when nothing is cached\<close>
  "bookHash L sha b = hashBookState sha (mb_ticker b) (yesBidLevels L b) (noBidLevels L b)"

definition getStateHash ::
  "dec_lib \<Rightarrow> (string \<Rightarrow> string) \<Rightarrow> market_book \<Rightarrow> string \<times> market_book" where
  "getStateHash L sha b =
     (case mb_hashCache b of
        Some h \<Rightarrow> (h, b)
      | None \<Rightarrow> let h = bookHash L sha b in (h, b\<lparr>mb_hashCache := Some h\<rparr>))"

definition clone :: "market_book \<Rightarrow> market_book" where
  "clone b =
     (let copy = newMarketBook (mb_ticker b) (Some (mb_journalWindowMs b)) (Some (mb_journalMaxEntries b))
      in copy\<lparr>mb_yesBids := foldl (\<lambda>m (k, v). js_set k v m) [] (mb_yesBids b),
              mb_noBids := foldl (\<lambda>m (k, v). js_set k v m) [] (mb_noBids b),
              mb_lastSeq := mb_lastSeq b, mb_valid := mb_valid b,
              mb_invalidReason := mb_invalidReason b,
              mb_lastSnapshotAtMs := mb_lastSnapshotAtMs b,
              mb_lastUpdateAtMs := mb_lastUpdateAtMs b,
              mb_sessionId := mb_sessionId b, mb_streamId := mb_streamId b\<rparr>)"

definition levelPairsIn :: "dec_lib \<Rightarrow> level_pair list \<Rightarrow> (rat \<times> rat) list" where
  "levelPairsIn L ls = map (\<lambda>(p, s). (dl_of_string L p, dl_of_string L s)) ls"

definition fromCanonical :: "dec_lib \<Rightarrow> int \<Rightarrow> string \<Rightarrow> canonical_book \<Rightarrow> market_book" where
  "fromCanonical L now marketTicker canonical =
     replaceWithSnapshot L now
       \<lparr>sl_yesBids = levelPairsIn L (cb_yes_bids canonical),
        sl_noBids = levelPairsIn L (cb_no_bids canonical)\<rparr>
       \<lparr>so_seq = None, so_atMs = None, so_sessionId = None, so_streamId = None\<rparr>
       (newMarketBook marketTicker None None)"

record historical_state =
  hs_atMs :: int
  hs_seq :: "int option"
  hs_hash :: string

text \<open>
  The loop of \<open>historicalStates\<close>. The journal is given newest first, so the entry before the one
  at hand is the head of the rest; \<open>n\<close> is \<open>out.length\<close>.
\<close>

fun rewindLoop ::
  "dec_lib \<Rightarrow> (string \<Rightarrow> string) \<Rightarrow> int \<Rightarrow> nat \<Rightarrow> journal_entry list \<Rightarrow> market_book \<Rightarrow> nat \<Rightarrow> historical_state list" where
  "rewindLoop L sha fromMs maxStates [] rewound n = []"
| "rewindLoop L sha fromMs maxStates (entry # older) rewound n =
     (if \<not> n < maxStates \<or> je_atMs entry < fromMs then []
      else let m = sideLadder (je_side entry) rewound;
               before = levelSize m (je_price entry) - je_delta entry
           in if before < 0 then []
              else let rewound = withLadder (je_side entry) (putLevel m (je_price entry) before) rewound;
                       rewound = rewound\<lparr>mb_hashCache := None,
                         mb_lastSeq := (case older of [] \<Rightarrow> None | p # _ \<Rightarrow> je_seq p)\<rparr>;
                       priorMs = (case older of [] \<Rightarrow> je_atMs entry | p # _ \<Rightarrow> je_atMs p);
                       (h, rewound) = getStateHash L sha rewound
                   in \<lparr>hs_atMs = priorMs, hs_seq = mb_lastSeq rewound, hs_hash = h\<rparr>
                      # rewindLoop L sha fromMs maxStates older rewound (Suc n))"

definition historicalStates ::
  "dec_lib \<Rightarrow> (string \<Rightarrow> string) \<Rightarrow> int \<Rightarrow> nat \<Rightarrow> market_book \<Rightarrow> historical_state list" where
  "historicalStates L sha fromMs maxStates b =
     (let (h, rewound) = getStateHash L sha (clone b)
      in \<lparr>hs_atMs = mb_lastUpdateAtMs b, hs_seq = mb_lastSeq b, hs_hash = h\<rparr>
         # rewindLoop L sha fromMs maxStates (rev (mb_journal b)) rewound 1)"

section \<open>The representation invariant\<close>

text \<open>
  \<open>ladder_ok\<close>: keys are distinct canonical strings of non-negative prices and every stored size is
  positive. \<open>book_ok\<close>: both ladders are, and a cached hash is the hash of the current levels.
\<close>

definition ladder_ok :: "dec_lib \<Rightarrow> ladder \<Rightarrow> bool" where
  "ladder_ok L m \<longleftrightarrow> js_map_ok m \<and> (\<forall>(k, v) \<in> set m. key_ok L k \<and> 0 < v)"

definition book_ok :: "dec_lib \<Rightarrow> (string \<Rightarrow> string) \<Rightarrow> market_book \<Rightarrow> bool" where
  "book_ok L sha b \<longleftrightarrow> ladder_ok L (mb_yesBids b) \<and> ladder_ok L (mb_noBids b) \<and>
     (case mb_hashCache b of None \<Rightarrow> True | Some h \<Rightarrow> h = bookHash L sha b)"

lemma levelSize_put [jsmap, simp]:
  "levelSize (putLevel m k v) k' = (if k' = k then v else levelSize m k')"
  by (simp add: levelSize_def putLevel_def)

lemma putLevel_0 [jsmap, simp]: "\<not> js_has (putLevel m k 0) k"
  by (simp add: putLevel_def js_has_def)

lemma ladder_ok_Nil [simp]: "ladder_ok L []"
  by (simp add: ladder_ok_def)

lemma ladder_ok_set: "ladder_ok L m \<Longrightarrow> key_ok L k \<Longrightarrow> 0 < v \<Longrightarrow> ladder_ok L (js_set k v m)"
  by (auto simp: ladder_ok_def dest: js_set_entryD)

lemma ladder_ok_del: "ladder_ok L m \<Longrightarrow> ladder_ok L (js_del k m)"
  by (auto simp: ladder_ok_def js_del_entries)

lemma ladder_ok_put: "ladder_ok L m \<Longrightarrow> key_ok L k \<Longrightarrow> 0 \<le> v \<Longrightarrow> ladder_ok L (putLevel m k v)"
  by (simp add: putLevel_def ladder_ok_set ladder_ok_del)

lemma ladder_ok_get: "ladder_ok L m \<Longrightarrow> js_get m k = (if levelSize m k = 0 then None else Some (levelSize m k))"
  by (auto simp: ladder_ok_def levelSize_def split: option.splits dest!: map_of_SomeD)

lemma levelSize_nonneg: "ladder_ok L m \<Longrightarrow> 0 \<le> levelSize m k"
  by (fastforce simp: ladder_ok_def levelSize_def split: option.splits dest!: map_of_SomeD)

lemma levelSize_entry: "ladder_ok L m \<Longrightarrow> (k, v) \<in> set m \<Longrightarrow> levelSize m k = v"
  by (simp add: ladder_ok_def levelSize_def)

text \<open>The ladders of one side do not see an update of the other.\<close>

lemma sideLadder_with [simp]:
  "sideLadder side' (withLadder side m b) = (if side' = side then m else sideLadder side' b)"
  by (cases side; cases side') simp_all

lemma withLadder_fields [simp]:
  "mb_ticker (withLadder side m b) = mb_ticker b" "mb_lastSeq (withLadder side m b) = mb_lastSeq b"
  "mb_valid (withLadder side m b) = mb_valid b" "mb_invalidReason (withLadder side m b) = mb_invalidReason b"
  "mb_journal (withLadder side m b) = mb_journal b" "mb_hashCache (withLadder side m b) = mb_hashCache b"
  "mb_sessionId (withLadder side m b) = mb_sessionId b" "mb_streamId (withLadder side m b) = mb_streamId b"
  "mb_journalWindowMs (withLadder side m b) = mb_journalWindowMs b"
  "mb_journalMaxEntries (withLadder side m b) = mb_journalMaxEntries b"
  "mb_lastUpdateAtMs (withLadder side m b) = mb_lastUpdateAtMs b"
  "mb_lastSnapshotAtMs (withLadder side m b) = mb_lastSnapshotAtMs b"
  by (cases side; simp)+

lemma all_side: "(\<forall>side. P side) \<longleftrightarrow> P Yes \<and> P No"
  by (metis book_side.exhaust)

lemma book_ok_ladder: "book_ok L sha b \<Longrightarrow> ladder_ok L (sideLadder side b)"
  by (cases side) (simp_all add: book_ok_def)

lemma trimJournal_fields [simp]:
  "sideLadder side (trimJournal t b) = sideLadder side b" "mb_ticker (trimJournal t b) = mb_ticker b"
  "mb_yesBids (trimJournal t b) = mb_yesBids b" "mb_noBids (trimJournal t b) = mb_noBids b"
  "mb_hashCache (trimJournal t b) = mb_hashCache b" "mb_valid (trimJournal t b) = mb_valid b"
  "mb_invalidReason (trimJournal t b) = mb_invalidReason b" "mb_lastSeq (trimJournal t b) = mb_lastSeq b"
  "mb_lastUpdateAtMs (trimJournal t b) = mb_lastUpdateAtMs b"
  "mb_streamId (trimJournal t b) = mb_streamId b" "mb_sessionId (trimJournal t b) = mb_sessionId b"
  by (cases side; simp add: trimJournal_def Let_def)+

text \<open>The journal keeps a suffix: what \<open>trimJournal\<close> drops is the oldest.\<close>

lemma trimJournal_suffix: "\<exists>n. rev (mb_journal (trimJournal t b)) = take n (rev (mb_journal b))"
proof -
  let ?c = "t - mb_journalWindowMs b" and ?m = "mb_journalMaxEntries b"
  let ?j = "dropWhile (\<lambda>e. je_atMs e < ?c) (mb_journal b)"
  obtain i where i: "?j = drop i (mb_journal b)" by (metis dropWhile_eq_drop)
  obtain j where j: "mb_journal (trimJournal t b) = drop j ?j"
  proof (cases "?m < length ?j")
    case True
    then have "mb_journal (trimJournal t b) = drop (length ?j - ?m) ?j" by (simp add: trimJournal_def Let_def)
    then show ?thesis by (rule that)
  next
    case False
    then have "mb_journal (trimJournal t b) = drop 0 ?j" by (simp add: trimJournal_def Let_def)
    then show ?thesis by (rule that)
  qed
  have "mb_journal (trimJournal t b) = drop (j + i) (mb_journal b)" by (simp only: j i drop_drop)
  then show ?thesis by (metis rev_drop)
qed

section \<open>What a delta does\<close>

definition deltaEntry :: "dec_lib \<Rightarrow> apply_delta_input \<Rightarrow> int \<Rightarrow> journal_entry" where
  "deltaEntry L d t = \<lparr>je_seq = di_seq d, je_atMs = t, je_side = di_side d,
     je_price = canonicalPrice L (di_price d), je_delta = di_delta d\<rparr>"

lemma applyDelta_rejected:
  assumes "levelSize (sideLadder (di_side d) b) (canonicalPrice L (di_price d)) + di_delta d < 0"
  shows "\<not> dr_applied (fst (applyDelta L now d b))"
    "sideLadder side (snd (applyDelta L now d b)) = sideLadder side b"
    "\<not> mb_valid (snd (applyDelta L now d b))"
    "mb_journal (snd (applyDelta L now d b)) = mb_journal b"
    "mb_ticker (snd (applyDelta L now d b)) = mb_ticker b"
    "mb_hashCache (snd (applyDelta L now d b)) = mb_hashCache b"
proof -
  show "sideLadder side (snd (applyDelta L now d b)) = sideLadder side b"
    using assms by (cases side) (simp_all add: applyDelta_def Let_def invalidate_def)
qed (use assms in \<open>simp_all add: applyDelta_def Let_def invalidate_def\<close>)

lemma applyDelta_applied:
  assumes "0 \<le> levelSize (sideLadder (di_side d) b) (canonicalPrice L (di_price d)) + di_delta d"
  shows "dr_applied (fst (applyDelta L now d b))"
    "sideLadder side (snd (applyDelta L now d b)) =
      (if side = di_side d
       then putLevel (sideLadder side b) (canonicalPrice L (di_price d))
              (levelSize (sideLadder side b) (canonicalPrice L (di_price d)) + di_delta d)
       else sideLadder side b)"
    "mb_valid (snd (applyDelta L now d b)) = mb_valid b"
    "mb_ticker (snd (applyDelta L now d b)) = mb_ticker b"
    "mb_hashCache (snd (applyDelta L now d b)) = None"
    "\<exists>n t. rev (mb_journal (snd (applyDelta L now d b))) = take n (deltaEntry L d t # rev (mb_journal b))"
proof -
  have n: "\<not> levelSize (sideLadder (di_side d) b) (canonicalPrice L (di_price d)) + di_delta d < 0"
    using assms by simp
  show "dr_applied (fst (applyDelta L now d b))"
    "mb_valid (snd (applyDelta L now d b)) = mb_valid b"
    "mb_ticker (snd (applyDelta L now d b)) = mb_ticker b"
    "mb_hashCache (snd (applyDelta L now d b)) = None"
    using n by (simp_all add: applyDelta_def Let_def)
  show "sideLadder side (snd (applyDelta L now d b)) =
      (if side = di_side d
       then putLevel (sideLadder side b) (canonicalPrice L (di_price d))
              (levelSize (sideLadder side b) (canonicalPrice L (di_price d)) + di_delta d)
       else sideLadder side b)"
    using n by (cases side; cases "di_side d"; simp add: applyDelta_def Let_def)
  obtain t b' where b': "snd (applyDelta L now d b) = trimJournal t b'"
      "mb_journal b' = mb_journal b @ [deltaEntry L d t]"
    using n by (simp add: applyDelta_def Let_def deltaEntry_def)
  show "\<exists>n t. rev (mb_journal (snd (applyDelta L now d b))) = take n (deltaEntry L d t # rev (mb_journal b))"
    using trimJournal_suffix [of t b'] b' by auto
qed

section \<open>Preservation\<close>

text \<open>The inputs the exchange sends: prices and snapshot sizes are not negative.\<close>

definition levels_nonneg :: "snapshot_levels \<Rightarrow> bool" where
  "levels_nonneg sl \<longleftrightarrow> (\<forall>(p, s) \<in> set (sl_yesBids sl) \<union> set (sl_noBids sl). 0 \<le> p \<and> 0 \<le> s)"

context decimal_lib
begin

lemma book_ok_applyDelta:
  assumes ok: "book_ok L sha b" and price: "0 \<le> di_price d"
  shows "book_ok L sha (snd (applyDelta L now d b))"
proof (cases "levelSize (sideLadder (di_side d) b) (canonicalPrice L (di_price d)) + di_delta d < 0")
  case True
  note rej = applyDelta_rejected [OF True, where now = now]
  have levels: "mb_yesBids (snd (applyDelta L now d b)) = mb_yesBids b"
    "mb_noBids (snd (applyDelta L now d b)) = mb_noBids b"
    using rej(2) [of Yes] rej(2) [of No] by simp_all
  then have "bookHash L sha (snd (applyDelta L now d b)) = bookHash L sha b"
    by (simp add: bookHash_def yesBidLevels_def noBidLevels_def rej(5))
  then show ?thesis using ok by (simp add: book_ok_def levels rej(6) split: option.splits)
next
  case False
  then have nn: "0 \<le> levelSize (sideLadder (di_side d) b) (canonicalPrice L (di_price d)) + di_delta d" by simp
  have "ladder_ok L (sideLadder side (snd (applyDelta L now d b)))" for side
    using book_ok_ladder [OF ok, of side] nn price
    by (auto simp: applyDelta_applied(2) [OF nn] intro!: ladder_ok_put key_ok_canonical)
  from this [of Yes] this [of No] show ?thesis
    by (simp add: book_ok_def applyDelta_applied(5) [OF nn])
qed

lemma setLevels_fields:
  "mb_ticker (foldl (\<lambda>b (p, s). setLevel L side p s b) b ls) = mb_ticker b"
  "side' \<noteq> side \<Longrightarrow>
     sideLadder side' (foldl (\<lambda>b (p, s). setLevel L side p s b) b ls) = sideLadder side' b"
  by (induction ls arbitrary: b) (auto simp: setLevel_def Let_def)

lemma setLevels_ok:
  assumes "\<And>p s. (p, s) \<in> set ls \<Longrightarrow> 0 \<le> p \<and> 0 \<le> s" "ladder_ok L (sideLadder side b)"
  shows "ladder_ok L (sideLadder side (foldl (\<lambda>b (p, s). setLevel L side p s b) b ls))"
  using assms
proof (induction ls arbitrary: b)
  case (Cons l ls)
  obtain p s where l: "l = (p, s)" by fastforce
  have ps: "0 \<le> p" "0 \<le> s" using Cons.prems(1) [of p s] l by auto
  have "ladder_ok L (sideLadder side (setLevel L side p s b))"
    using Cons.prems(2) ps by (simp add: setLevel_def Let_def ladder_ok_set key_ok_canonical)
  then have "ladder_ok L (sideLadder side
      (foldl (\<lambda>b (p, s). setLevel L side p s b) (setLevel L side p s b) ls))"
    using Cons.prems(1) by (intro Cons.IH) auto
  then show ?case by (simp add: l)
qed simp

lemma replaceWithSnapshot_ladders:
  "sideLadder Yes (replaceWithSnapshot L now sl opts b) = sideLadder Yes
     (foldl (\<lambda>b (p, s). setLevel L Yes p s b) (b\<lparr>mb_yesBids := [], mb_noBids := []\<rparr>) (sl_yesBids sl))"
  "sideLadder No (replaceWithSnapshot L now sl opts b) = sideLadder No
     (foldl (\<lambda>b (p, s). setLevel L No p s b)
       (foldl (\<lambda>b (p, s). setLevel L Yes p s b) (b\<lparr>mb_yesBids := [], mb_noBids := []\<rparr>) (sl_yesBids sl))
       (sl_noBids sl))"
  using setLevels_fields(2) [of Yes No _ "sl_noBids sl"]
  by (simp_all add: replaceWithSnapshot_def Let_def del: sideLadder.simps) (simp_all)

lemma replaceWithSnapshot_fields:
  "mb_ticker (replaceWithSnapshot L now sl opts b) = mb_ticker b"
  "mb_journal (replaceWithSnapshot L now sl opts b) = []"
  "mb_hashCache (replaceWithSnapshot L now sl opts b) = None"
  "mb_valid (replaceWithSnapshot L now sl opts b)"
  "mb_lastSeq (replaceWithSnapshot L now sl opts b) = so_seq opts"
  by (simp_all add: replaceWithSnapshot_def Let_def setLevels_fields)

lemma book_ok_replace:
  assumes "levels_nonneg sl"
  shows "book_ok L sha (replaceWithSnapshot L now sl opts b)"
proof -
  let ?b = "b\<lparr>mb_yesBids := [], mb_noBids := []\<rparr>"
  let ?b1 = "foldl (\<lambda>b (p, s). setLevel L Yes p s b) ?b (sl_yesBids sl)"
  have nn: "0 \<le> p \<and> 0 \<le> s" if "(p, s) \<in> set (sl_yesBids sl) \<union> set (sl_noBids sl)" for p s
    using assms that by (auto simp: levels_nonneg_def)
  have y: "ladder_ok L (sideLadder Yes ?b1)" by (rule setLevels_ok) (use nn in auto)
  have "sideLadder No ?b1 = []" by (subst setLevels_fields(2)) simp_all
  then have n: "ladder_ok L (sideLadder No (foldl (\<lambda>b (p, s). setLevel L No p s b) ?b1 (sl_noBids sl)))"
    by (intro setLevels_ok) (use nn in auto)
  show ?thesis
    using y n replaceWithSnapshot_ladders [of now sl opts b]
    by (simp add: book_ok_def replaceWithSnapshot_fields)
qed

lemma book_ok_getStateHash:
  "book_ok L sha b \<Longrightarrow> book_ok L sha (snd (getStateHash L sha b)) \<and> fst (getStateHash L sha b) = bookHash L sha b"
  by (auto simp: book_ok_def getStateHash_def bookHash_def yesBidLevels_def noBidLevels_def Let_def
      split: option.splits)

lemma book_ok_invalidate: "book_ok L sha b \<Longrightarrow> book_ok L sha (invalidate m b)"
  by (simp add: book_ok_def invalidate_def bookHash_def yesBidLevels_def noBidLevels_def split: option.splits)

section \<open>The levels a book shows depend on its lookups only\<close>

lemma ladder_ext:
  assumes "ladder_ok L m" "ladder_ok L n" "\<And>k. levelSize m k = levelSize n k"
  shows "canonicalLevels L (ladderEntries L m) = canonicalLevels L (ladderEntries L n)"
proof -
  let ?g = "\<lambda>(k, v). (canonicalPrice L (dl_of_string L k), canonicalSize L v)"
  have "mset m = mset n"
  proof (rule js_map_eq_mset)
    show "js_map_ok m" "js_map_ok n" using assms by (simp_all add: ladder_ok_def)
    show "js_get m k = js_get n k" for k
      by (simp only: ladder_ok_get [OF assms(1)] ladder_ok_get [OF assms(2)] assms(3))
  qed
  then have "mset (map ?g m) = mset (map ?g n)" by simp
  then have ms: "mset (filter (\<lambda>(p, s). dl_of_string L s \<noteq> 0) (map ?g m))
      = mset (filter (\<lambda>(p, s). dl_of_string L s \<noteq> 0) (map ?g n))" by simp
  have "inj_on (level_num L) (?g ` set m)"
  proof (rule inj_onI)
    fix x y assume "x \<in> ?g ` set m" "y \<in> ?g ` set m" and eq: "level_num L x = level_num L y"
    then obtain k v k' v' where kv: "(k, v) \<in> set m" "(k', v') \<in> set m" "x = ?g (k, v)" "y = ?g (k', v')"
      by auto
    then have ok: "key_ok L k" "key_ok L k'" using assms(1) by (auto simp: ladder_ok_def)
    have num: "level_num L (?g (u, w)) = dl_of_string L u" if "key_ok L u" for u w
      using that by (simp add: level_num_def key_ok_def)
    then have "dl_of_string L k = dl_of_string L k'" using eq kv(3,4) ok by metis
    with ok have kk: "k = k'" by (rule key_ok_num_inj)
    have "v = v'" using levelSize_entry [OF assms(1) kv(1)] levelSize_entry [OF assms(1) kv(2)] kk by simp
    with kk show "x = y" using kv(3,4) by simp
  qed
  then have "inj_on (level_num L) (set (filter (\<lambda>(p, s). dl_of_string L s \<noteq> 0) (map ?g m)))"
    by (rule inj_on_subset) auto
  from sort_desc_mset_cong [OF ms this] show ?thesis
    by (simp add: canonicalLevels_def ladderEntries_def comp_def case_prod_unfold)
qed

lemma bookHash_ext:
  assumes "book_ok L sha b" "book_ok L sha c" "mb_ticker b = mb_ticker c"
    "\<And>side k. levelSize (sideLadder side b) k = levelSize (sideLadder side c) k"
  shows "bookHash L sha b = bookHash L sha c"
proof -
  have "canonicalLevels L (ladderEntries L (sideLadder side b)) = canonicalLevels L (ladderEntries L (sideLadder side c))" for side
    using assms by (intro ladder_ext) (simp_all add: book_ok_ladder)
  from this [of Yes] this [of No] show ?thesis
    using assms(3) by (simp add: bookHash_def yesBidLevels_def noBidLevels_def)
qed

end

section \<open>Rewinding the journal\<close>

text \<open>
  \<open>deltaRun\<close> feeds deltas to a book and keeps the books it was in, newest first: a rejected delta
  changes no level and adds no state. \<open>explains b es ss\<close>: un-applying the entries \<open>es\<close> (newest first)
  from \<open>b\<close> passes through the books \<open>ss\<close>.
\<close>

fun deltaRun ::
  "dec_lib \<Rightarrow> int \<Rightarrow> apply_delta_input list \<Rightarrow> market_book \<Rightarrow> market_book list \<Rightarrow> market_book \<times> market_book list" where
  "deltaRun L now [] b older = (b, older)"
| "deltaRun L now (d # ds) b older =
     (let (r, b') = applyDelta L now d b
      in deltaRun L now ds b' (if dr_applied r then b # older else older))"

fun explains :: "dec_lib \<Rightarrow> market_book \<Rightarrow> journal_entry list \<Rightarrow> market_book list \<Rightarrow> bool" where
  "explains L b [] ss = True"
| "explains L b (e # es) [] = False"
| "explains L b (e # es) (s # ss) =
     (mb_ticker s = mb_ticker b \<and> key_ok L (je_price e) \<and>
      (\<forall>side k. levelSize (sideLadder side b) k =
         levelSize (sideLadder side s) k + (if side = je_side e \<and> k = je_price e then je_delta e else 0)) \<and>
      explains L s es ss)"

lemma explains_take: "explains L b es ss \<Longrightarrow> explains L b (take n es) ss"
proof (induction L b es ss arbitrary: n rule: explains.induct)
  case (3 L b e es s ss)
  then show ?case by (cases n) auto
qed simp_all

lemma explains_same_levels:
  "explains L b es ss \<Longrightarrow> mb_ticker c = mb_ticker b \<Longrightarrow>
    (\<And>side. sideLadder side c = sideLadder side b) \<Longrightarrow> explains L c es ss"
  by (cases "(L, b, es, ss)" rule: explains.cases) simp_all

context decimal_lib
begin

lemma applyDelta_explains:
  assumes "explains L b (rev (mb_journal b)) ss" "0 \<le> di_price d"
  shows "explains L (snd (applyDelta L now d b)) (rev (mb_journal (snd (applyDelta L now d b))))
     (if dr_applied (fst (applyDelta L now d b)) then b # ss else ss)"
proof (cases "levelSize (sideLadder (di_side d) b) (canonicalPrice L (di_price d)) + di_delta d < 0")
  case True
  note rej = applyDelta_rejected [OF True, where now = now]
  show ?thesis using assms(1) rej by (auto intro: explains_same_levels)
next
  case False
  then have nn: "0 \<le> levelSize (sideLadder (di_side d) b) (canonicalPrice L (di_price d)) + di_delta d" by simp
  note app = applyDelta_applied [OF nn, where now = now]
  obtain n t where j: "rev (mb_journal (snd (applyDelta L now d b))) = take n (deltaEntry L d t # rev (mb_journal b))"
    using app(6) by blast
  have "explains L (snd (applyDelta L now d b)) (deltaEntry L d t # rev (mb_journal b)) (b # ss)"
    using assms by (auto simp: deltaEntry_def key_ok_canonical app(2,4))
  then show ?thesis using app(1) by (simp add: j explains_take)
qed

lemma deltaRun_explains:
  assumes "explains L b (rev (mb_journal b)) older" "book_ok L sha b" "\<forall>s \<in> set older. book_ok L sha s"
    "\<forall>d \<in> set ds. 0 \<le> di_price d" "deltaRun L now ds b older = (c, hist)"
  shows "explains L c (rev (mb_journal c)) hist \<and> book_ok L sha c \<and> (\<forall>s \<in> set hist. book_ok L sha s)"
  using assms
proof (induction ds arbitrary: b older)
  case Nil
  then show ?case by simp
next
  case (Cons d ds)
  obtain r b' where r: "applyDelta L now d b = (r, b')" by fastforce
  have p: "0 \<le> di_price d" using Cons.prems(4) by simp
  show ?case
  proof (rule Cons.IH)
    show "explains L b' (rev (mb_journal b')) (if dr_applied r then b # older else older)"
      using applyDelta_explains [OF Cons.prems(1) p, of now] r by simp
    show "book_ok L sha b'" using book_ok_applyDelta [OF Cons.prems(2) p, of now] r by simp
    show "\<forall>s \<in> set (if dr_applied r then b # older else older). book_ok L sha s"
      using Cons.prems(2,3) by simp
    show "deltaRun L now ds b' (if dr_applied r then b # older else older) = (c, hist)"
      using Cons.prems(5) r by simp
  qed (use Cons.prems(4) in simp)
qed

lemma rewind_step:
  assumes "explains L b (e # es) (s # ss)" "book_ok L sha s" "book_ok L sha rw" "mb_ticker rw = mb_ticker b"
    "\<And>side k. levelSize (sideLadder side rw) k = levelSize (sideLadder side b) k"
    "rw' = withLadder (je_side e) (putLevel (sideLadder (je_side e) rw) (je_price e)
        (levelSize (sideLadder (je_side e) rw) (je_price e) - je_delta e)) rw\<lparr>mb_hashCache := None, mb_lastSeq := q\<rparr>"
  shows "0 \<le> levelSize (sideLadder (je_side e) rw) (je_price e) - je_delta e" (is "0 \<le> ?before")
    "book_ok L sha rw'" "mb_ticker rw' = mb_ticker s"
    "levelSize (sideLadder side rw') k = levelSize (sideLadder side s) k"
proof -
  have before: "?before = levelSize (sideLadder (je_side e) s) (je_price e)"
    using assms(1) by (simp add: assms(5))
  then show nn: "0 \<le> ?before"
    using levelSize_nonneg [OF book_ok_ladder [OF assms(2), of "je_side e"], of "je_price e"] by linarith
  have lad: "sideLadder side rw' = (if side = je_side e then putLevel (sideLadder side rw) (je_price e) ?before
       else sideLadder side rw)" for side
    unfolding assms(6) by (cases side; cases "je_side e"; simp)
  have "ladder_ok L (sideLadder side rw')" for side
    using assms(1) nn book_ok_ladder [OF assms(3)] by (auto simp: lad intro!: ladder_ok_put)
  from this [of Yes] this [of No] show "book_ok L sha rw'" by (simp add: book_ok_def assms(6))
  show "mb_ticker rw' = mb_ticker s" using assms(1,4) by (simp add: assms(6))
  show "levelSize (sideLadder side rw') k = levelSize (sideLadder side s) k"
    using assms(1) before by (simp add: lad assms(5))
qed

lemma getStateHash_fields:
  "mb_ticker (snd (getStateHash L sha b)) = mb_ticker b"
  "sideLadder side (snd (getStateHash L sha b)) = sideLadder side b"
  "mb_lastSeq (snd (getStateHash L sha b)) = mb_lastSeq b"
  by (cases side; auto simp: getStateHash_def Let_def split: option.split)+

lemma rewindLoop_hashes:
  assumes "explains L b es ss" "\<forall>s \<in> set ss. book_ok L sha s" "book_ok L sha rw" "mb_ticker rw = mb_ticker b"
    "\<And>side k. levelSize (sideLadder side rw) k = levelSize (sideLadder side b) k"
  shows "map hs_hash (rewindLoop L sha fromMs maxStates es rw n) =
    map (bookHash L sha)
      (take (length (takeWhile (\<lambda>e. fromMs \<le> je_atMs e) (take (maxStates - n) es))) ss)"
  using assms
proof (induction es arbitrary: b ss rw n)
  case Nil
  then show ?case by simp
next
  case (Cons e es)
  obtain s ss' where ss: "ss = s # ss'" using Cons.prems(1) by (cases ss) auto
  define rw1 where "rw1 = withLadder (je_side e) (putLevel (sideLadder (je_side e) rw) (je_price e)
        (levelSize (sideLadder (je_side e) rw) (je_price e) - je_delta e)) rw
        \<lparr>mb_hashCache := None, mb_lastSeq := (case es of [] \<Rightarrow> None | p # _ \<Rightarrow> je_seq p)\<rparr>"
  have sok: "book_ok L sha s" using Cons.prems(2) ss by simp
  note st = rewind_step [OF Cons.prems(1) [unfolded ss] sok Cons.prems(3-5) rw1_def]
  show ?case
  proof (cases "\<not> n < maxStates \<or> je_atMs e < fromMs")
    case True
    then show ?thesis by (cases "maxStates - n") auto
  next
    case False
    obtain h rw2 where rw2: "getStateHash L sha rw1 = (h, rw2)" by fastforce
    have ok2: "book_ok L sha rw2" "h = bookHash L sha rw1"
      using book_ok_getStateHash [OF st(2)] rw2 by simp_all
    have h: "h = bookHash L sha s"
      unfolding ok2(2) by (rule bookHash_ext [OF st(2) sok st(3)]) (rule st(4))
    have tick: "mb_ticker rw2 = mb_ticker s" and lad: "sideLadder side rw2 = sideLadder side rw1" for side
      using getStateHash_fields [where sha = sha and b = rw1] rw2 st(3) by simp_all
    have "map hs_hash (rewindLoop L sha fromMs maxStates es rw2 (Suc n)) =
      map (bookHash L sha)
       (take (length (takeWhile (\<lambda>e. fromMs \<le> je_atMs e) (take (maxStates - Suc n) es))) ss')"
      by (rule Cons.IH [of s]) (use Cons.prems(1,2) ss ok2(1) tick st(4) in \<open>simp_all add: lad\<close>)
    moreover have "n < maxStates" using False by simp
    then have "maxStates - n = Suc (maxStates - Suc n)" by simp
    ultimately show ?thesis
      using False st(1) h ss rw2 by (simp add: Let_def rw1_def [symmetric])
  qed
qed

text \<open>\<open>clone\<close> copies the levels in order and leaves the journal and the cached hash behind.\<close>

lemma clone_levels:
  assumes "book_ok L sha b"
  shows "clone b = b\<lparr>mb_hashCache := None, mb_journal := []\<rparr>"
proof -
  have "js_map_ok (mb_yesBids b)" "js_map_ok (mb_noBids b)"
    using assms by (simp_all add: book_ok_def ladder_ok_def)
  then show ?thesis by (simp add: clone_def newMarketBook_def js_copy)
qed

lemma historicalStates_explained:
  assumes "explains L b (rev (mb_journal b)) hist" "book_ok L sha b" "\<forall>s \<in> set hist. book_ok L sha s"
  shows "map hs_hash (historicalStates L sha fromMs maxStates b) = map (bookHash L sha)
     (b # take (length (takeWhile (\<lambda>e. fromMs \<le> je_atMs e) (take (maxStates - 1) (rev (mb_journal b))))) hist)"
proof -
  obtain h rw where rw: "getStateHash L sha (clone b) = (h, rw)" by fastforce
  have ok: "book_ok L sha (clone b)" using assms(2) by (simp add: clone_levels [OF assms(2)] book_ok_def)
  have cl: "sideLadder side (clone b) = sideLadder side b" "mb_ticker (clone b) = mb_ticker b" for side
    by (cases side; simp add: clone_levels [OF assms(2)])+
  have rwok: "book_ok L sha rw" "h = bookHash L sha (clone b)"
    using book_ok_getStateHash [OF ok] rw by simp_all
  have h: "h = bookHash L sha b"
    unfolding rwok(2) by (rule bookHash_ext [OF ok assms(2)]) (simp_all add: cl)
  have "map hs_hash (rewindLoop L sha fromMs maxStates (rev (mb_journal b)) rw 1) = map (bookHash L sha)
     (take (length (takeWhile (\<lambda>e. fromMs \<le> je_atMs e) (take (maxStates - 1) (rev (mb_journal b))))) hist)"
    using getStateHash_fields [where sha = sha and b = "clone b"] rw
    by (intro rewindLoop_hashes [OF assms(1,3) rwok(1)]) (simp_all add: cl)
  then show ?thesis by (simp add: historicalStates_def rw h)
qed

end

section \<open>Runs of book operations\<close>

datatype book_op =
  OpSnapshot snapshot_levels snapshot_opts
| OpDelta apply_delta_input
| OpInvalidate string
| OpHash

fun bookStep :: "dec_lib \<Rightarrow> (string \<Rightarrow> string) \<Rightarrow> int \<Rightarrow> market_book \<Rightarrow> book_op \<Rightarrow> market_book" where
  "bookStep L sha now b (OpSnapshot sl opts) = replaceWithSnapshot L now sl opts b"
| "bookStep L sha now b (OpDelta d) = snd (applyDelta L now d b)"
| "bookStep L sha now b (OpInvalidate reason) = invalidate reason b"
| "bookStep L sha now b OpHash = snd (getStateHash L sha b)"

fun book_op_ok :: "book_op \<Rightarrow> bool" where
  "book_op_ok (OpSnapshot sl opts) = levels_nonneg sl"
| "book_op_ok (OpDelta d) = (0 \<le> di_price d)"
| "book_op_ok _ = True"

text \<open>What a ladder shows: price and displayed size of the levels whose displayed size is not zero.\<close>

definition displayed :: "dec_lib \<Rightarrow> ladder \<Rightarrow> (rat \<times> rat) set" where
  "displayed L m = {(dl_of_string L k, round_dp SIZE_DP v) | k v. (k, v) \<in> set m \<and> round_dp SIZE_DP v \<noteq> 0}"

fun is_best :: "(rat \<times> rat) set \<Rightarrow> (rat \<times> rat) option \<Rightarrow> bool" where
  "is_best S None = (S = {})"
| "is_best S (Some l) = (l \<in> S \<and> (\<forall>l' \<in> S. fst l' \<le> fst l))"

context decimal_lib
begin

lemma bookStep_ok: "book_ok L sha b \<Longrightarrow> book_op_ok op \<Longrightarrow> book_ok L sha (bookStep L sha now b op)"
  by (cases op)
    (simp_all add: book_ok_replace book_ok_applyDelta book_ok_invalidate book_ok_getStateHash)

lemma book_stepper: "stepper (bookStep L sha now) book_op_ok (book_ok L sha)"
  by unfold_locales (rule bookStep_ok)

sublocale book_run: stepper "bookStep L sha now" book_op_ok "book_ok L sha" for sha now
  by (rule book_stepper)

section \<open>Best prices\<close>

abbreviation pair_num :: "level_pair \<Rightarrow> rat \<times> rat" where
  "pair_num l \<equiv> (dl_of_string L (fst l), dl_of_string L (snd l))"

abbreviation shown :: "ladder \<Rightarrow> level_pair list" where
  "shown m \<equiv> canonicalLevels L (ladderEntries L m)"

lemma shown_set:
  assumes "ladder_ok L m"
  shows "set (shown m) = {(k, canonicalSize L v) | k v. (k, v) \<in> set m \<and> round_dp SIZE_DP v \<noteq> 0}"
proof -
  have k: "canonicalPrice L (dl_of_string L k) = k" if "(k, v) \<in> set m" for k v
    using assms that by (auto simp: ladder_ok_def key_ok_def)
  have "set (shown m) = {(canonicalPrice L (dl_of_string L k), canonicalSize L v) | k v.
      (k, v) \<in> set m \<and> round_dp SIZE_DP v \<noteq> 0}"
    by (fastforce simp: canonicalLevels_set ladderEntries_def parse_canonicalSize)
  also have "\<dots> = {(k, canonicalSize L v) | k v. (k, v) \<in> set m \<and> round_dp SIZE_DP v \<noteq> 0}"
    using k by (metis (no_types, lifting))
  finally show ?thesis .
qed

lemma shown_displayed: "ladder_ok L m \<Longrightarrow> pair_num ` set (shown m) = displayed L m"
  unfolding displayed_def by (simp only: shown_set image_Collect) (force simp: parse_canonicalSize)

lemma first_shown_best:
  assumes "ladder_ok L m"
  shows "is_best (displayed L m) (firstLevel L (shown m))"
proof (cases "shown m")
  case Nil
  then show ?thesis using shown_displayed [OF assms] by (simp add: firstLevel_def)
next
  case (Cons l ls)
  have "\<forall>x \<in> set (l # ls). level_num L x \<le> level_num L l"
    using canonicalLevels_sorted [of L "ladderEntries L m"] Cons by simp
  then show ?thesis
    using shown_displayed [OF assms, symmetric] Cons by (auto simp: firstLevel_def level_num_def)
qed

lemma shown_key_ok: "ladder_ok L m \<Longrightarrow> l \<in> set (shown m) \<Longrightarrow> key_ok L (fst l)"
  by (auto simp: shown_set ladder_ok_def)

lemma firstLevel_asks:
  assumes "book_ok L sha b"
  shows "firstLevel L (yesAskLevels L b) =
    map_option (\<lambda>(q, s). (1 - q, s)) (firstLevel L (noBidLevels L b))"
proof (cases "noBidLevels L b")
  case Nil
  then show ?thesis by (simp add: firstLevel_def yesAskLevels_def)
next
  case (Cons l ls)
  then have "key_ok L (fst l)"
    using shown_key_ok [of "mb_noBids b" l] assms by (simp add: book_ok_def noBidLevels_def)
  then have "on_grid PRICE_DP (1 - dl_of_string L (fst l))"
    by (intro on_grid_diff on_grid_1 key_ok_grid)
  then show ?thesis using Cons
    by (simp add: firstLevel_def yesAskLevels_def case_prod_unfold parse_canonicalPrice)
qed

lemma displayed_nonneg: "ladder_ok L m \<Longrightarrow> (p, s) \<in> displayed L m \<Longrightarrow> 0 \<le> p \<and> on_grid PRICE_DP p \<and> 0 < s"
  by (fastforce simp: displayed_def ladder_ok_def key_ok_def key_ok_grid less_le round_dp_nonneg
      dest: spec)

lemma bbo_best:
  assumes "book_ok L sha b"
  shows "\<exists>bid nobid. is_best (displayed L (mb_yesBids b)) bid \<and> is_best (displayed L (mb_noBids b)) nobid \<and>
     getYesBBO L b = mkBbo L bid (map_option (\<lambda>(q, s). (1 - q, s)) nobid)"
  using assms first_shown_best [of "mb_yesBids b"] first_shown_best [of "mb_noBids b"] firstLevel_asks [OF assms]
  unfolding getYesBBO_def yesBidLevels_def noBidLevels_def book_ok_def by metis

section \<open>Bounds on the derived quantities\<close>

lemma sumLevels_nonneg:
  assumes "\<forall>l \<in> set ls. 0 \<le> dl_of_string L (snd l)"
  shows "0 \<le> sumLevels L k ls"
  unfolding sumLevels_def
  by (rule foldl_invariant) (use assms in \<open>fastforce dest: in_set_takeD\<close>)+

lemma shown_sizes: "ladder_ok L m \<Longrightarrow> l \<in> set (shown m) \<Longrightarrow> 0 < dl_of_string L (snd l)"
  using shown_displayed [of m] displayed_nonneg [of m "dl_of_string L (fst l)" "dl_of_string L (snd l)"] by auto

lemma depth_nonneg:
  assumes "book_ok L sha b"
  shows "0 \<le> dp_bid (getDepth L k b)" "0 \<le> dp_ask (getDepth L k b)"
proof -
  have "\<forall>l \<in> set (yesBidLevels L b). 0 \<le> dl_of_string L (snd l)"
    using assms shown_sizes [of "mb_yesBids b"] unfolding yesBidLevels_def book_ok_def by (auto intro: less_imp_le)
  then show "0 \<le> dp_bid (getDepth L k b)" by (simp add: getDepth_def sumLevels_nonneg)
  have "\<forall>l \<in> set (yesAskLevels L b). 0 \<le> dl_of_string L (snd l)"
    using assms shown_sizes [of "mb_noBids b"] unfolding yesAskLevels_def noBidLevels_def book_ok_def
    by (auto intro: less_imp_le)
  then show "0 \<le> dp_ask (getDepth L k b)" by (simp add: getDepth_def sumLevels_nonneg)
qed

lemma sig34_price: "on_grid PRICE_DP p \<Longrightarrow> \<bar>p\<bar> \<le> 1 \<Longrightarrow> sig34 p"
proof -
  assume g: "on_grid PRICE_DP p" and le: "\<bar>p\<bar> \<le> 1"
  obtain n where n: "p * 10 ^ PRICE_DP = of_int n" using g on_grid_iff by blast
  then have p: "p = of_int n / 10 ^ 6" by (simp add: PRICE_DP_def field_simps)
  have "of_int \<bar>n\<bar> \<le> (of_int (10 ^ 6) :: rat)" using le by (simp add: p)
  then have "\<bar>n\<bar> \<le> 10 ^ 6" by (simp only: of_int_le_iff)
  then show ?thesis unfolding p by (intro sig34_scaled) simp
qed

lemma imbalance_bounds:
  assumes "book_ok L sha b" "getImbalance L k b = Some i"
  shows "- 1 \<le> i \<and> i \<le> 1"
proof -
  let ?d = "getDepth L k b"
  have i: "i = dl_round L ((dp_bid ?d - dp_ask ?d) / (dp_bid ?d + dp_ask ?d))" and nz: "dp_bid ?d + dp_ask ?d \<noteq> 0"
    using assms(2) by (auto simp: getImbalance_def Let_def ddiv_def split: if_splits)
  have pos: "0 < dp_bid ?d + dp_ask ?d" using depth_nonneg [OF assms(1), of k] nz by linarith
  show ?thesis unfolding i
    by (rule round_between) (use pos depth_nonneg [OF assms(1), of k] in \<open>simp_all add: sig34_unit field_simps\<close>)
qed

lemma weighted_between:
  fixes x y u v :: rat
  assumes "x \<le> y" "0 \<le> u" "0 \<le> v" "u + v \<noteq> 0"
  shows "x \<le> (y * u + x * v) / (u + v) \<and> (y * u + x * v) / (u + v) \<le> y"
proof -
  have pos: "0 < u + v" using assms by linarith
  have "x * u \<le> y * u" "x * v \<le> y * v" using assms by (simp_all add: mult_right_mono)
  then show ?thesis using pos by (simp add: pos_le_divide_eq pos_divide_le_eq distrib_left)
qed

lemma microprice_bounds:
  assumes "book_ok L sha b" "bbo_bid (getYesBBO L b) = Some bid" "bbo_ask (getYesBBO L b) = Some ask"
    "bid \<le> ask" "ask \<le> 1"
  shows "\<exists>m. getMicroprice L b = Some m \<and> bid \<le> m \<and> m \<le> ask"
proof -
  from bbo_best [OF assms(1)] obtain ob on where
    best: "is_best (displayed L (mb_yesBids b)) ob" "is_best (displayed L (mb_noBids b)) on" and
    q: "getYesBBO L b = mkBbo L ob (map_option (\<lambda>(q, s). (1 - q, s)) on)" by blast
  obtain s u where ob: "ob = Some (bid, s)" and on: "on = Some (1 - ask, u)"
    using assms(2,3) q by (auto simp: mkBbo_def Let_def)
  have bp: "0 \<le> bid \<and> on_grid PRICE_DP bid \<and> 0 < s" "0 \<le> 1 - ask \<and> on_grid PRICE_DP (1 - ask) \<and> 0 < u"
    using best assms(1) displayed_nonneg [of "mb_yesBids b" bid s] displayed_nonneg [of "mb_noBids b" "1 - ask" u]
    by (simp_all add: ob on book_ok_def)
  have "on_grid PRICE_DP (1 - (1 - ask))" by (rule on_grid_diff [OF on_grid_1]) (use bp(2) in blast)
  then have sig: "sig34 bid" "sig34 ask" using bp assms(4,5) by (auto intro!: sig34_price)
  have "bid \<le> (ask * s + bid * u) / (s + u) \<and> (ask * s + bid * u) / (s + u) \<le> ask"
    using bp assms(4) by (intro weighted_between) auto
  then show ?thesis using bp round_between [OF sig]
    by (simp add: getMicroprice_def micropriceOf_def q ob on mkBbo_def Let_def ddiv_def)
qed

section \<open>Reading a serialised book back\<close>

lemma setLevels_copy:
  assumes "\<And>l. l \<in> set ls \<Longrightarrow> canonicalPrice L (dl_of_string L (fst l)) = fst l \<and> dl_of_string L (snd l) \<noteq> 0"
  shows "sideLadder side (foldl (\<lambda>b (p, s). setLevel L side p s b) b (levelPairsIn L ls)) =
    foldl (\<lambda>m (k, v). js_set k v m) (sideLadder side b) (map (\<lambda>l. (fst l, dl_of_string L (snd l))) ls)"
  using assms
proof (induction ls arbitrary: b)
  case (Cons l ls)
  then have "canonicalPrice L (dl_of_string L (fst l)) = fst l" "dl_of_string L (snd l) \<noteq> 0" by auto
  then show ?case using Cons
    by (simp add: levelPairsIn_def case_prod_unfold setLevel_def Let_def)
qed (simp add: levelPairsIn_def)

lemma shown_distinct:
  assumes "ladder_ok L m"
  shows "distinct (map fst (shown m))"
proof -
  let ?g = "\<lambda>(k, v). (canonicalPrice L (dl_of_string L k), canonicalSize L v)"
  have "map fst (map ?g m) = map fst m"
    unfolding map_map by (rule map_cong) (use assms in \<open>auto simp: ladder_ok_def key_ok_def\<close>)
  then have "distinct (map fst (map ?g m))" using assms by (simp only: ladder_ok_def)
  then have "distinct (map fst (filter (\<lambda>(p, s). dl_of_string L s \<noteq> 0) (map ?g m)))"
    by (rule distinct_map_filter)
  moreover have "mset (map fst (shown m)) = mset (map fst (filter (\<lambda>(p, s). dl_of_string L s \<noteq> 0) (map ?g m)))"
    by (simp add: canonicalLevels_def ladderEntries_def comp_def case_prod_unfold)
  ultimately show ?thesis by (metis mset_eq_imp_distinct_iff)
qed

lemma shown_canonical:
  assumes "ladder_ok L m" "l \<in> set (shown m)"
  shows "canonicalPrice L (dl_of_string L (fst l)) = fst l" "canonicalSize L (dl_of_string L (snd l)) = snd l"
    "dl_of_string L (snd l) \<noteq> 0"
proof -
  obtain k v where kv: "l = (k, canonicalSize L v)" "(k, v) \<in> set m" "round_dp SIZE_DP v \<noteq> 0"
    using assms by (auto simp: shown_set)
  then have "key_ok L k" "0 < v" using assms(1) by (auto simp: ladder_ok_def)
  then show "canonicalPrice L (dl_of_string L (fst l)) = fst l" "canonicalSize L (dl_of_string L (snd l)) = snd l"
    "dl_of_string L (snd l) \<noteq> 0"
    using kv by (simp_all add: key_ok_def canonicalSize_def parse_fixed fixed_round)
qed

lemma shown_fixpoint:
  assumes "ladder_ok L m"
  shows "shown (map (\<lambda>l. (fst l, dl_of_string L (snd l))) (shown m)) = shown m"
proof -
  have "map (\<lambda>(price, sz). (canonicalPrice L price, canonicalSize L sz))
      (ladderEntries L (map (\<lambda>l. (fst l, dl_of_string L (snd l))) ls)) = map id ls" if "set ls = set (shown m)" for ls
    unfolding ladderEntries_def map_map by (rule map_cong) (use shown_canonical [OF assms] that in auto)
  moreover have "filter (\<lambda>(p, s). dl_of_string L s \<noteq> 0) (shown m) = shown m"
    using shown_canonical(3) [OF assms] by (auto simp: filter_id_conv)
  moreover have "sort_desc (level_num L) (shown m) = shown m"
    unfolding sort_desc_def by (rule sort_key_id_if_sorted)
      (use canonicalLevels_sorted [of L "ladderEntries L m"] in \<open>simp add: sorted_map\<close>)
  ultimately show ?thesis by (simp only: canonicalLevels_def [of L "ladderEntries L (map _ (shown m))"] list.map_id)
qed

lemma setLevels_shown:
  assumes "ladder_ok L m" "sideLadder side b = []"
  shows "sideLadder side (foldl (\<lambda>b (p, s). setLevel L side p s b) b (levelPairsIn L (shown m))) =
    map (\<lambda>l. (fst l, dl_of_string L (snd l))) (shown m)"
proof -
  have "js_map_ok (map (\<lambda>l. (fst l, dl_of_string L (snd l))) (shown m))"
    using shown_distinct [OF assms(1)] by (simp add: comp_def)
  then show ?thesis
    using shown_canonical [OF assms(1)] assms(2) by (simp add: setLevels_copy js_copy)
qed

lemma fromCanonical_ladder:
  assumes "book_ok L sha b"
  shows "sideLadder Yes (fromCanonical L now t (serializeCanonical L b)) =
      map (\<lambda>l. (fst l, dl_of_string L (snd l))) (yesBidLevels L b)"
    "sideLadder No (fromCanonical L now t (serializeCanonical L b)) =
      map (\<lambda>l. (fst l, dl_of_string L (snd l))) (noBidLevels L b)"
proof -
  have ok: "ladder_ok L (mb_yesBids b)" "ladder_ok L (mb_noBids b)" using assms by (simp_all add: book_ok_def)
  let ?b = "(newMarketBook t None None)\<lparr>mb_yesBids := [], mb_noBids := []\<rparr>"
  let ?b1 = "foldl (\<lambda>b (p, s). setLevel L Yes p s b) ?b (levelPairsIn L (shown (mb_yesBids b)))"
  have "sideLadder Yes ?b1 = map (\<lambda>l. (fst l, dl_of_string L (snd l))) (shown (mb_yesBids b))"
    by (rule setLevels_shown [OF ok(1)]) simp
  then show "sideLadder Yes (fromCanonical L now t (serializeCanonical L b)) =
      map (\<lambda>l. (fst l, dl_of_string L (snd l))) (yesBidLevels L b)"
    by (simp only: fromCanonical_def serializeCanonical_def replaceWithSnapshot_ladders yesBidLevels_def
        canonical_book.simps snapshot_levels.simps case_prod_eta list.map_ident prod.collapse case_prod_unfold)
  have "sideLadder No ?b1 = []" by (subst setLevels_fields(2)) simp_all
  then have "sideLadder No (foldl (\<lambda>b (p, s). setLevel L No p s b) ?b1 (levelPairsIn L (shown (mb_noBids b)))) =
      map (\<lambda>l. (fst l, dl_of_string L (snd l))) (shown (mb_noBids b))"
    by (rule setLevels_shown [OF ok(2)])
  then show "sideLadder No (fromCanonical L now t (serializeCanonical L b)) =
      map (\<lambda>l. (fst l, dl_of_string L (snd l))) (noBidLevels L b)"
    by (simp only: fromCanonical_def serializeCanonical_def replaceWithSnapshot_ladders yesBidLevels_def
        noBidLevels_def canonical_book.simps snapshot_levels.simps case_prod_eta list.map_ident prod.collapse case_prod_unfold)
qed

lemma fromCanonical_levels:
  assumes "book_ok L sha b"
  shows "yesBidLevels L (fromCanonical L now t (serializeCanonical L b)) = yesBidLevels L b"
    "noBidLevels L (fromCanonical L now t (serializeCanonical L b)) = noBidLevels L b"
  using fromCanonical_ladder [OF assms, of now t] assms
  by (simp_all add: book_ok_def yesBidLevels_def noBidLevels_def shown_fixpoint)

end

context decimal_lib
begin

lemma shown_cong:
  assumes "ladder_ok L m" "ladder_ok L n" "displayed L m = displayed L n"
  shows "shown m = shown n"
proof -
  have set_eq: "set (shown m) = (\<lambda>(p, s). (canonicalPrice L p, canonicalSize L s)) ` displayed L m"
    if "ladder_ok L m" for m
  proof -
    have "(\<lambda>(p, s). (canonicalPrice L p, canonicalSize L s)) ` pair_num ` set (shown m) = id ` set (shown m)"
      unfolding image_image by (rule image_cong) (use shown_canonical [OF that] in auto)
    then show ?thesis by (simp add: shown_displayed [OF that])
  qed
  have fix_sort: "sort_desc (level_num L) (shown m) = shown m" for m
    unfolding sort_desc_def by (rule sort_key_id_if_sorted)
      (use canonicalLevels_sorted [of L "ladderEntries L m"] in \<open>simp add: sorted_map\<close>)
  have inj: "inj_on (level_num L) (set (shown m))" if "ladder_ok L m" for m
  proof (rule inj_onI)
    fix x y assume xy: "x \<in> set (shown m)" "y \<in> set (shown m)" "level_num L x = level_num L y"
    then have "fst x = fst y"
      using shown_key_ok [OF that] by (intro key_ok_num_inj) (simp_all add: level_num_def)
    then show "x = y" using shown_distinct [OF that] xy(1,2) by (metis eq_key_imp_eq_value prod.collapse)
  qed
  have "distinct (shown m)" "distinct (shown n)" using shown_distinct assms by (simp_all add: distinct_map)
  then have "mset (shown m) = mset (shown n)"
    using set_eq [OF assms(1)] set_eq [OF assms(2)] assms(3)
    by (simp only: set_eq_iff_mset_eq_distinct [symmetric])
  then show ?thesis
    using sort_desc_mset_cong [OF _ inj [OF assms(1)]] fix_sort by metis
qed

end

section \<open>The states of a run\<close>

context decimal_lib
begin

lemma historicalStates_of_run:
  assumes "levels_nonneg sl" "\<And>d. d \<in> set ds \<Longrightarrow> 0 \<le> di_price d"
    and run: "deltaRun L now ds (replaceWithSnapshot L now sl opts b0) [] = (b, hist)"
  shows "map hs_hash (historicalStates L sha fromMs maxStates b) = map (bookHash L sha)
     (b # take (length (takeWhile (\<lambda>e. fromMs \<le> je_atMs e) (take (maxStates - 1) (rev (mb_journal b))))) hist)"
proof -
  let ?s = "replaceWithSnapshot L now sl opts b0"
  have "explains L ?s (rev (mb_journal ?s)) []" by (simp add: replaceWithSnapshot_fields)
  moreover have "book_ok L sha ?s" by (rule book_ok_replace [OF assms(1)])
  ultimately have "explains L b (rev (mb_journal b)) hist \<and> book_ok L sha b \<and> (\<forall>s \<in> set hist. book_ok L sha s)"
    using assms(2) by (intro deltaRun_explains [OF _ _ _ _ run]) auto
  then show ?thesis by (intro historicalStates_explained) auto
qed

end

section \<open>Properties\<close>

definition wit_snapshot :: snapshot_levels where
  "wit_snapshot = \<lparr>sl_yesBids = [(2/5, 10), (1/2, 3)], sl_noBids = [(2/5, 7)]\<rparr>"

definition wit_opts :: snapshot_opts where
  "wit_opts = \<lparr>so_seq = Some 1, so_atMs = Some 100, so_sessionId = None, so_streamId = None\<rparr>"

definition wit_book :: "(string \<Rightarrow> string) \<Rightarrow> market_book" where
  "wit_book sha = foldl (bookStep std_dlib sha 100) (newMarketBook ''MKT'' None None) [OpSnapshot wit_snapshot wit_opts]"

lemma wit_snapshot_nonneg: "levels_nonneg wit_snapshot"
  by (simp add: levels_nonneg_def wit_snapshot_def)

lemma std_strings:
  "std_fixed 6 (2/5) = ''0.400000''" "std_fixed 6 (1/2) = ''0.500000''" "std_fixed 6 (3/5) = ''0.600000''"
  "std_fixed 6 3 = ''3.000000''" "std_fixed 6 7 = ''7.000000''" "std_fixed 6 10 = ''10.000000''"
  by (simp_all add: std_eval)
lemma std_numbers:
  "std_of_string ''0.400000'' = 2/5" "std_of_string ''0.500000'' = 1/2" "std_of_string ''0.600000'' = 3/5"
  "std_of_string ''3.000000'' = 3" "std_of_string ''7.000000'' = 7" "std_of_string ''10.000000'' = 10"
  by (simp_all add: std_eval)
lemma wit_book_levels:
  "yesBidLevels std_dlib (wit_book sha) = [(''0.500000'', ''3.000000''), (''0.400000'', ''10.000000'')]"
  "noBidLevels std_dlib (wit_book sha) = [(''0.400000'', ''7.000000'')]"
  by (simp_all add: wit_book_def wit_snapshot_def wit_opts_def replaceWithSnapshot_def setLevel_def Let_def
      newMarketBook_def yesBidLevels_def noBidLevels_def
      canonicalLevels_def ladderEntries_def canonicalPrice_def canonicalSize_def PRICE_DP_def SIZE_DP_def
      sort_desc_def level_num_def std_strings std_numbers)

lemma wit_book_bbo:
  "bbo_bid (getYesBBO std_dlib (wit_book sha)) = Some (1/2)"
  "bbo_ask (getYesBBO std_dlib (wit_book sha)) = Some (3/5)"
  by (simp_all add: getYesBBO_def mkBbo_def firstLevel_def yesAskLevels_def wit_book_levels std_numbers
    canonicalPrice_def PRICE_DP_def std_strings)

lemma wit_book_ok: "book_ok std_dlib sha (wit_book sha)"
  by (simp add: wit_book_def std.book_ok_replace wit_snapshot_nonneg)

text \<open>
  C1: From a new book, every sequence of snapshots, deltas, invalidations and hash reads keeps the
  representation invariant: keys of a ladder are distinct canonical strings of non-negative prices,
  no level holds a zero or negative size, and a cached hash is the hash of the current levels.
\<close>
theorem book_run_ok:
  assumes "decimal_lib L" "\<And>op. op \<in> set ops \<Longrightarrow> book_op_ok op"
  shows "book_ok L sha (foldl (bookStep L sha now) (newMarketBook ticker windowMs maxEntries) ops)"
  by (rule stepper.run_inv [OF decimal_lib.book_stepper [OF assms(1)]]) (simp_all add: assms(2) newMarketBook_def book_ok_def)

definition wit_delta :: apply_delta_input where
  "wit_delta = \<lparr>di_side = Yes, di_price = 1/2, di_delta = - 3, di_seq = Some 2, di_atMs = Some 200\<rparr>"

theorem book_run_ok_witness:
  "book_ok std_dlib id (foldl (bookStep std_dlib id 5) (newMarketBook ''MKT'' None None)
     [OpSnapshot wit_snapshot wit_opts, OpHash, OpDelta wit_delta, OpInvalidate ''gap''])"
  by (rule book_run_ok [OF std.decimal_lib_axioms])
    (auto simp: wit_snapshot_nonneg wit_delta_def)

text \<open>
  C9: A delta adds to exactly one level, or is refused: it reports the quantity before and after,
  is applied exactly when the quantity after is not negative, and then only the level it names
  changes, a level that reaches zero being removed; refused, it changes no level and invalidates
  the book. Nothing is clamped.
\<close>
theorem applyDelta_level:
  "let r = fst (applyDelta L now d b); b' = snd (applyDelta L now d b);
       key = canonicalPrice L (di_price d); pre = levelSize (sideLadder (di_side d) b) key
   in dr_preCount r = pre \<and> dr_postCount r = Some (pre + di_delta d) \<and>
      (dr_applied r \<longleftrightarrow> 0 \<le> pre + di_delta d) \<and>
      (\<forall>side k. levelSize (sideLadder side b') k =
         (if dr_applied r \<and> side = di_side d \<and> k = key then pre + di_delta d
          else levelSize (sideLadder side b) k)) \<and>
      (dr_applied r \<and> pre + di_delta d = 0 \<longrightarrow> \<not> js_has (sideLadder (di_side d) b') key) \<and>
      mb_valid b' = (mb_valid b \<and> dr_applied r)"
proof (cases "levelSize (sideLadder (di_side d) b) (canonicalPrice L (di_price d)) + di_delta d < 0")
  case True
  then show ?thesis using applyDelta_rejected [OF True, where now = now]
    by (simp add: Let_def) (simp add: applyDelta_def Let_def)
next
  case False
  then have nn: "0 \<le> levelSize (sideLadder (di_side d) b) (canonicalPrice L (di_price d)) + di_delta d" by simp
  have res: "dr_preCount (fst (applyDelta L now d b)) = levelSize (sideLadder (di_side d) b) (canonicalPrice L (di_price d))"
    "dr_postCount (fst (applyDelta L now d b)) = Some (levelSize (sideLadder (di_side d) b) (canonicalPrice L (di_price d)) + di_delta d)"
    using False by (simp_all add: applyDelta_def Let_def)
  show ?thesis using applyDelta_applied [OF nn, where now = now] nn res
    by (simp add: Let_def)
qed

theorem applyDelta_level_witness:
  "dr_applied (fst (applyDelta std_dlib 0 wit_delta (wit_book id))) \<longleftrightarrow>
     0 \<le> levelSize (sideLadder Yes (wit_book id)) (canonicalPrice std_dlib (1/2)) - 3"
  using applyDelta_level [where L = std_dlib and now = 0 and d = wit_delta and b = "wit_book id"]
  by (simp add: wit_delta_def Let_def)



text \<open>
  C31: The imbalance lies in [-1, 1] whenever it is defined, and the microprice of an uncrossed
  two-sided book is defined and lies between bid and ask, rounding of the quotients included.
\<close>
theorem book_quantities_bounded:
  assumes "decimal_lib L" "book_ok L sha b"
  shows "(\<forall>i. getImbalance L k b = Some i \<longrightarrow> - 1 \<le> i \<and> i \<le> 1) \<and>
    (\<forall>bid ask. bbo_bid (getYesBBO L b) = Some bid \<longrightarrow> bbo_ask (getYesBBO L b) = Some ask \<longrightarrow>
       bid \<le> ask \<longrightarrow> ask \<le> 1 \<longrightarrow> (\<exists>m. getMicroprice L b = Some m \<and> bid \<le> m \<and> m \<le> ask))"
  using decimal_lib.imbalance_bounds [OF assms] decimal_lib.microprice_bounds [OF assms] by blast

theorem book_quantities_bounded_witness:
  "\<exists>m. getMicroprice std_dlib (wit_book id) = Some m \<and> 1 / 2 \<le> m \<and> m \<le> 3 / 5"
  using book_quantities_bounded [OF std.decimal_lib_axioms wit_book_ok [of id]] wit_book_bbo [of id] by fastforce

text \<open>
  C30: Rewinding is exact. After a snapshot and any deltas, \<open>historicalStates\<close> returns the hash of
  the current book followed by the hashes of the books it really was in, newest first, as far back
  as the journal, the requested time and the number of states allow; the guard that stops at a
  negative quantity never fires.
\<close>
theorem historicalStates_exact:
  assumes "decimal_lib L" "levels_nonneg sl" "\<And>d. d \<in> set ds \<Longrightarrow> 0 \<le> di_price d"
    and run: "deltaRun L now ds (replaceWithSnapshot L now sl opts b0) [] = (b, hist)"
  shows "map hs_hash (historicalStates L sha fromMs maxStates b) = map (bookHash L sha)
     (b # take (length (takeWhile (\<lambda>e. fromMs \<le> je_atMs e) (take (maxStates - 1) (rev (mb_journal b))))) hist)"
  by (rule decimal_lib.historicalStates_of_run [OF assms])

theorem historicalStates_exact_witness:
  "\<exists>b hist. map hs_hash (historicalStates std_dlib id 0 64 b) = map (bookHash std_dlib id)
     (b # take (length (takeWhile (\<lambda>e. 0 \<le> je_atMs e) (take (64 - 1) (rev (mb_journal b))))) hist) \<and>
     deltaRun std_dlib 0 [wit_delta] (replaceWithSnapshot std_dlib 0 wit_snapshot wit_opts (wit_book id)) [] = (b, hist)"
proof -
  obtain b hist where run: "deltaRun std_dlib 0 [wit_delta]
      (replaceWithSnapshot std_dlib 0 wit_snapshot wit_opts (wit_book id)) [] = (b, hist)" by fastforce
  have p: "\<And>d. d \<in> set [wit_delta] \<Longrightarrow> 0 \<le> di_price d" by (simp add: wit_delta_def)
  show ?thesis
    using historicalStates_exact [OF std.decimal_lib_axioms wit_snapshot_nonneg p run, of id 0 64] run
    by blast
qed

text \<open>
  C32: The hashed text determines the book: two books have the same hash preimage exactly when they
  have the same ticker and display the same sizes at the same prices on both sides, whatever the
  order in which their levels were inserted.
\<close>
theorem preimage_faithful:
  assumes "decimal_lib L" "book_ok L sha b" "book_ok L sha c" "NL \<notin> set (mb_ticker b)" "NL \<notin> set (mb_ticker c)"
  shows "bookPreimage (mb_ticker b) (yesBidLevels L b) (noBidLevels L b) =
      bookPreimage (mb_ticker c) (yesBidLevels L c) (noBidLevels L c) \<longleftrightarrow>
    mb_ticker b = mb_ticker c \<and> displayed L (mb_yesBids b) = displayed L (mb_yesBids c) \<and>
    displayed L (mb_noBids b) = displayed L (mb_noBids c)"
proof -
  have ok: "ladder_ok L (mb_yesBids b)" "ladder_ok L (mb_noBids b)" "ladder_ok L (mb_yesBids c)" "ladder_ok L (mb_noBids c)"
    using assms(2,3) by (simp_all add: book_ok_def)
  note shows_iff = decimal_lib.shown_cong [OF assms(1)] decimal_lib.shown_displayed [OF assms(1)]
  have wf: "well_formed_level l" if "l \<in> set (yesBidLevels L b) \<union> set (yesBidLevels L c) \<union>
      set (noBidLevels L b) \<union> set (noBidLevels L c)" for l
    using that decimal_lib.canonicalLevels_well_formed [OF assms(1)]
    unfolding yesBidLevels_def noBidLevels_def by blast
  have levels: "canonicalLevels L (ladderEntries L m) = canonicalLevels L (ladderEntries L n) \<longleftrightarrow> displayed L m = displayed L n"
    if "ladder_ok L m" "ladder_ok L n" for m n
    using shows_iff(1) [OF that] shows_iff(2) [OF that(1)] shows_iff(2) [OF that(2)] by metis
  have "bookPreimage (mb_ticker b) (yesBidLevels L b) (noBidLevels L b) =
      bookPreimage (mb_ticker c) (yesBidLevels L c) (noBidLevels L c) \<longleftrightarrow>
    mb_ticker b = mb_ticker c \<and> yesBidLevels L b = yesBidLevels L c \<and> noBidLevels L b = noBidLevels L c"
    using bookPreimage_inj [OF assms(4,5) wf] by auto
  then show ?thesis
    using levels [OF ok(1,3)] levels [OF ok(2,4)] by (simp add: yesBidLevels_def noBidLevels_def)
qed

theorem preimage_faithful_witness:
  "bookPreimage (mb_ticker (wit_book id)) (yesBidLevels std_dlib (wit_book id)) (noBidLevels std_dlib (wit_book id)) =
      bookPreimage (mb_ticker (newMarketBook ''MKT'' None None)) [] [] \<longleftrightarrow>
    displayed std_dlib (mb_yesBids (wit_book id)) = {} \<and> displayed std_dlib (mb_noBids (wit_book id)) = {}"
proof -
  have t: "mb_ticker (wit_book id) = ''MKT''"
    by (simp add: wit_book_def std.replaceWithSnapshot_fields newMarketBook_def)
  have e: "book_ok std_dlib id (newMarketBook ''MKT'' None None)" by (simp add: newMarketBook_def book_ok_def)
  show ?thesis
    using preimage_faithful [OF std.decimal_lib_axioms wit_book_ok e]
    by (simp add: t newMarketBook_def NL_def yesBidLevels_def noBidLevels_def ladderEntries_def
        canonicalLevels_def displayed_def)
qed

text \<open>
  C22: Serialising a book and reading it back gives a valid book that shows the same levels and has
  the same hash.
\<close>
theorem fromCanonical_roundtrip:
  assumes "decimal_lib L" "book_ok L sha b"
  shows "bookHash L sha (fromCanonical L now (mb_ticker b) (serializeCanonical L b)) = bookHash L sha b \<and>
    serializeCanonical L (fromCanonical L now (mb_ticker b) (serializeCanonical L b)) = serializeCanonical L b \<and>
    mb_valid (fromCanonical L now (mb_ticker b) (serializeCanonical L b))"
proof -
  have "mb_ticker (fromCanonical L now t c) = t" "mb_valid (fromCanonical L now t c)" for t c
    by (simp_all add: fromCanonical_def decimal_lib.replaceWithSnapshot_fields [OF assms(1)] newMarketBook_def)
  then show ?thesis
    using decimal_lib.fromCanonical_levels [OF assms] by (simp add: bookHash_def serializeCanonical_def)
qed

theorem fromCanonical_roundtrip_witness:
  "bookHash std_dlib id (fromCanonical std_dlib 9 (mb_ticker (wit_book id)) (serializeCanonical std_dlib (wit_book id)))
     = bookHash std_dlib id (wit_book id)"
  using fromCanonical_roundtrip [OF std.decimal_lib_axioms wit_book_ok [of id]] by blast

text \<open>A zero delta on a present level is reported as an increase: the \<open>unknown\<close> branch is unreachable.\<close>

lemma zero_delta_reported_as_increase:
  "0 < levelSize (sideLadder (di_side d) b) (canonicalPrice L (di_price d)) \<Longrightarrow> di_delta d = 0 \<Longrightarrow>
     dr_levelAction (fst (applyDelta L now d b)) = ActIncrease"
  by (simp add: applyDelta_def Let_def deltaAction_def)

end
