(* ===== verification/Ladder.thy ===== *)
theory Ladder
  imports Book
begin

text \<open>
  Where a YES-ladder order rests in the public book: \<open>src/src/book/ladder.ts\<close>.

  The exchange publishes YES bids and NO bids while an order is a bid or an ask on the YES ladder.
  The lemmas show that the two coordinate systems are inverse to each other and that, in both
  cases, the depth ahead of an order is what rests higher on the public ladder it sits on.
\<close>

datatype ladder_side = Bid | Ask

record public_level =
  pl_side :: book_side
  pl_price :: string

record ahead_depth =
  ad_better :: rat
  ad_sameLevel :: rat
  ad_betterLevels :: nat

fun publicLevelFor :: "dec_lib \<Rightarrow> ladder_side \<Rightarrow> rat \<Rightarrow> public_level" where
  "publicLevelFor L Bid p = \<lparr>pl_side = Yes, pl_price = canonicalPrice L p\<rparr>"
| "publicLevelFor L Ask p = \<lparr>pl_side = No, pl_price = canonicalPrice L (1 - p)\<rparr>"

fun yesPriceOfPublicLevel :: "dec_lib \<Rightarrow> book_side \<Rightarrow> rat \<Rightarrow> string" where
  "yesPriceOfPublicLevel L Yes p = canonicalPrice L p"
| "yesPriceOfPublicLevel L No p = canonicalPrice L (1 - p)"

fun isBetterYesPrice :: "ladder_side \<Rightarrow> rat \<Rightarrow> rat \<Rightarrow> bool" where
  "isBetterYesPrice Bid ours other = (ours < other)"
| "isBetterYesPrice Ask ours other = (other < ours)"

text \<open>One pass of the inner \<open>scan\<close>: the accumulators are \<open>better\<close>, \<open>sameLevel\<close>, \<open>betterLevels\<close>.\<close>

definition scanLevel ::
  "dec_lib \<Rightarrow> ladder_side \<Rightarrow> rat \<Rightarrow> book_side \<Rightarrow> ahead_depth \<Rightarrow> string \<times> rat \<Rightarrow> ahead_depth" where
  "scanLevel L side ours publicSide acc entry =
     (let (price, qty) = entry
      in if qty \<le> 0 then acc
         else if publicSide \<noteq> pl_side (publicLevelFor L side ours) then acc
         else
           let yes = dl_of_string L (yesPriceOfPublicLevel L publicSide (dl_of_string L price))
           in if yes = ours then acc\<lparr>ad_sameLevel := ad_sameLevel acc + qty\<rparr>
              else if isBetterYesPrice side ours yes
              then acc\<lparr>ad_better := ad_better acc + qty, ad_betterLevels := ad_betterLevels acc + 1\<rparr>
              else acc)"

definition depthAhead ::
  "dec_lib \<Rightarrow> ladder_side \<Rightarrow> rat \<Rightarrow> (string \<times> rat) list \<Rightarrow> (string \<times> rat) list \<Rightarrow> ahead_depth" where
  "depthAhead L side yesPrice yesBids noBids =
     (let acc = \<lparr>ad_better = 0, ad_sameLevel = 0, ad_betterLevels = 0\<rparr>;
          acc = foldl (scanLevel L side yesPrice Yes) acc yesBids
      in foldl (scanLevel L side yesPrice No) acc noBids)"

text \<open>\<open>Math.round\<close> rounds half up; the decimal difference is read as the number it denotes.\<close>

definition math_round :: "rat \<Rightarrow> int" where
  "math_round x = \<lfloor>x + 1 / 2\<rfloor>"

definition ticksFromTouch ::
  "ladder_side \<Rightarrow> rat \<Rightarrow> rat option \<Rightarrow> rat option \<Rightarrow> int option" where
  "ticksFromTouch side ours bestYesBid bestYesAsk =
     (case (if side = Bid then bestYesBid else bestYesAsk) of
        None \<Rightarrow> None
      | Some touch \<Rightarrow>
          let diff = (if side = Bid then touch - ours else ours - touch)
          in Some (max 0 (math_round (diff * 100))))"

section \<open>Lemmas\<close>

fun otherSide :: "book_side \<Rightarrow> book_side" where
  "otherSide Yes = No"
| "otherSide No = Yes"

fun restsOn :: "ladder_side \<Rightarrow> book_side" where
  "restsOn Bid = Yes"
| "restsOn Ask = No"

lemma publicLevelFor_side [simp]: "pl_side (publicLevelFor L side p) = restsOn side"
  by (cases side) simp_all

fun publicNum :: "ladder_side \<Rightarrow> rat \<Rightarrow> rat" where
  "publicNum Bid p = p"
| "publicNum Ask p = 1 - p"

text \<open>What ranks ahead of number \<open>c\<close> on one public ladder, and what shares its level.\<close>

definition higherSize :: "dec_lib \<Rightarrow> ladder \<Rightarrow> rat \<Rightarrow> rat" where
  "higherSize L m c = sum_list (map snd (filter (\<lambda>e. c < dl_of_string L (fst e)) m))"

definition higherCount :: "dec_lib \<Rightarrow> ladder \<Rightarrow> rat \<Rightarrow> nat" where
  "higherCount L m c = length (filter (\<lambda>e. c < dl_of_string L (fst e)) m)"

definition levelAt :: "dec_lib \<Rightarrow> ladder \<Rightarrow> rat \<Rightarrow> rat" where
  "levelAt L m c = sum_list (map snd (filter (\<lambda>e. dl_of_string L (fst e) = c) m))"

lemma scan_other:
  "restsOn side \<noteq> ps \<Longrightarrow> foldl (scanLevel L side p ps) acc m = acc"
  by (induction m arbitrary: acc) (auto simp: scanLevel_def)

context decimal_lib
begin

lemma scan_own_step:
  assumes "key_ok L k" "0 < v" "on_grid PRICE_DP p"
  shows "scanLevel L side p (restsOn side) acc (k, v) =
    acc\<lparr>ad_better := ad_better acc + (if publicNum side p < dl_of_string L k then v else 0),
        ad_sameLevel := ad_sameLevel acc + (if dl_of_string L k = publicNum side p then v else 0),
        ad_betterLevels := ad_betterLevels acc + (if publicNum side p < dl_of_string L k then 1 else 0)\<rparr>"
proof -
  have g: "on_grid PRICE_DP (dl_of_string L k)" "on_grid PRICE_DP (1 - dl_of_string L k)"
    using key_ok_grid [OF assms(1)] on_grid_diff [OF on_grid_1] by blast+
  show ?thesis
    using assms(2) g by (cases side) (auto simp: scanLevel_def Let_def parse_canonicalPrice)
qed

lemma scan_own:
  assumes "ladder_ok L m" "on_grid PRICE_DP p"
  shows "foldl (scanLevel L side p (restsOn side)) acc m =
    acc\<lparr>ad_better := ad_better acc + higherSize L m (publicNum side p),
        ad_sameLevel := ad_sameLevel acc + levelAt L m (publicNum side p),
        ad_betterLevels := ad_betterLevels acc + higherCount L m (publicNum side p)\<rparr>"
  using assms
proof (induction m arbitrary: acc)
  case Nil
  then show ?case by (simp add: higherSize_def levelAt_def higherCount_def)
next
  case (Cons e m)
  obtain k v where e: "e = (k, v)" by fastforce
  have kv: "key_ok L k" "0 < v" and ok: "ladder_ok L m" using Cons.prems(1) by (auto simp: e ladder_ok_def)
  show ?case
    by (simp add: e scan_own_step [OF kv Cons.prems(2)] Cons.IH [OF ok Cons.prems(2)])
      (simp add: higherSize_def levelAt_def higherCount_def)
qed

lemma filter_unique_key:
  "js_map_ok m \<Longrightarrow> filter (\<lambda>e. fst e = k) m = (case js_get m k of None \<Rightarrow> [] | Some v \<Rightarrow> [(k, v)])"
proof (induction m)
  case (Cons e m)
  then show ?case
    by (cases e) (auto simp: filter_empty_conv image_iff split: option.splits)
qed simp

lemma levelAt_levelSize:
  assumes "ladder_ok L m" "0 \<le> c" "on_grid PRICE_DP c"
  shows "levelAt L m c = levelSize m (canonicalPrice L c)"
proof -
  have "dl_of_string L (fst e) = c \<longleftrightarrow> fst e = canonicalPrice L c" if "e \<in> set m" for e
  proof -
    have "key_ok L (fst e)" using assms(1) that by (auto simp: ladder_ok_def)
    moreover have "dl_of_string L (canonicalPrice L c) = c" using assms(3) by (simp add: parse_canonicalPrice)
    ultimately show ?thesis using key_ok_num_inj [OF _ key_ok_canonical [OF assms(2)]] by metis
  qed
  then have "filter (\<lambda>e. dl_of_string L (fst e) = c) m = filter (\<lambda>e. fst e = canonicalPrice L c) m"
    by (rule filter_cong [OF refl])
  then show ?thesis
    using assms(1) by (simp add: levelAt_def filter_unique_key ladder_ok_def levelSize_def split: option.split)
qed

lemma publicLevel_roundtrip:
  assumes "on_grid PRICE_DP p"
  shows "dl_of_string L (yesPriceOfPublicLevel L (pl_side (publicLevelFor L side p))
     (dl_of_string L (pl_price (publicLevelFor L side p)))) = p"
proof -
  have "on_grid PRICE_DP (1 - p)" by (rule on_grid_diff [OF on_grid_1 assms])
  then show ?thesis using assms by (cases side) (simp_all add: parse_canonicalPrice)
qed

lemma depthAhead_public:
  assumes "book_ok L sha b" "on_grid PRICE_DP p" "0 \<le> p" "p \<le> 1"
  shows "depthAhead L side p (mb_yesBids b) (mb_noBids b) =
    (let m = sideLadder (restsOn side) b; q = publicNum side p
     in \<lparr>ad_better = higherSize L m q, ad_sameLevel = levelSize m (pl_price (publicLevelFor L side p)),
         ad_betterLevels = higherCount L m q\<rparr>)"
proof -
  have ok: "ladder_ok L (mb_yesBids b)" "ladder_ok L (mb_noBids b)" using assms(1) by (simp_all add: book_ok_def)
  have g: "on_grid PRICE_DP (1 - p)" by (rule on_grid_diff [OF on_grid_1 assms(2)])
  show ?thesis
  proof (cases side)
    case Bid
    show ?thesis
      using scan_own [OF ok(1) assms(2), of Bid] levelAt_levelSize [OF ok(1) assms(3,2)]
      by (simp add: Bid depthAhead_def Let_def scan_other)
  next
    case Ask
    show ?thesis
      using scan_own [OF ok(2) assms(2), of Ask] levelAt_levelSize [OF ok(2) _ g] assms(4)
      by (simp add: Ask depthAhead_def Let_def scan_other)
  qed
qed

end

section \<open>Properties\<close>

text \<open>
  C8: The depth ahead of an order is read on the one public ladder it rests on: for a bid at p the
  YES ladder at p, for an ask at p the NO ladder at 1 - p. Ahead of it is exactly what rests at a
  higher number of that ladder (for an ask too, where better YES prices are lower), at its own level
  the size of that level, and the opposing ladder does not count. The level it rests on maps back to
  its YES price.
\<close>
theorem depthAhead_on_own_ladder:
  assumes "decimal_lib L" "book_ok L sha b" "on_grid PRICE_DP p" "0 \<le> p" "p \<le> 1"
  shows "depthAhead L side p (mb_yesBids b) (mb_noBids b) =
      (let m = sideLadder (restsOn side) b; q = publicNum side p
       in \<lparr>ad_better = higherSize L m q, ad_sameLevel = levelSize m (pl_price (publicLevelFor L side p)),
           ad_betterLevels = higherCount L m q\<rparr>) \<and>
    dl_of_string L (yesPriceOfPublicLevel L (pl_side (publicLevelFor L side p))
      (dl_of_string L (pl_price (publicLevelFor L side p)))) = p"
  by (intro conjI decimal_lib.depthAhead_public [OF assms] decimal_lib.publicLevel_roundtrip [OF assms(1,3)])

lemma half_on_grid: "on_grid PRICE_DP (1 / 2)"
  by (simp add: on_grid_def PRICE_DP_def)

theorem depthAhead_on_own_ladder_witness:
  "ad_better (depthAhead std_dlib Ask (1 / 2) (mb_yesBids (wit_book id)) (mb_noBids (wit_book id))) =
     higherSize std_dlib (mb_noBids (wit_book id)) (1 / 2)"
  using depthAhead_on_own_ladder [OF std.decimal_lib_axioms wit_book_ok [of id] half_on_grid, of Ask]
  by (simp add: Let_def)

end
