(* ===== verification/Rows.thy ===== *)
theory Rows
  imports Book
begin

text \<open>
  Rows handed to the batch writer: \<open>src/src/persistence/types.ts\<close>, \<open>convert.ts\<close>, the snapshot row
  of \<open>repositories/snapshots.ts\<close> and the feature columns of \<open>src/src/book/features.ts\<close>.

  A row's values are an association list from column names to cells. A \<open>Date\<close> is its millisecond
  timestamp, \<open>CDec\<close> is a decimal printed by \<open>toString\<close>, and a JSON value is a \<open>CObj\<close> or a \<open>CList\<close>.
\<close>

datatype cell =
  CNull | CText string | CBool bool | CInt int | CDate int | CDec rat | CLevels "level_pair list"
| CObj "(string \<times> cell) list" | CList "cell list"

record normalized_row =
  nr_table :: string
  nr_linkRawEvent :: bool
  nr_values :: "(string \<times> cell) list"

definition int_str :: "int \<Rightarrow> string" where
  \<comment> \<open>\<open>n.toString()\<close> of a \<open>bigint\<close>\<close>
  "int_str n = (if n < 0 then ''-'' else []) @ digs (ndig (nat \<bar>n\<bar>)) (nat \<bar>n\<bar>)"

lemma int_str_chars: "set (int_str n) \<subseteq> set ''-0123456789''"
  using set_digs by (fastforce simp: int_str_def)

lemma int_str_inj: "int_str m = int_str n \<longleftrightarrow> m = n"
proof
  assume e: "int_str m = int_str n"
  have val: "read_digs (filter (\<lambda>c. c \<noteq> CHR ''-'') (int_str k)) = nat \<bar>k\<bar>" for k
  proof -
    have "CHR ''-'' \<notin> set (digs (ndig (nat \<bar>k\<bar>)) (nat \<bar>k\<bar>))" using set_digs by fastforce
    then have "filter (\<lambda>c. c \<noteq> CHR ''-'') (int_str k) = digs (ndig (nat \<bar>k\<bar>)) (nat \<bar>k\<bar>)"
      by (auto simp: int_str_def filter_id_conv)
    then show ?thesis using read_digs_digs [of "nat \<bar>k\<bar>" "ndig (nat \<bar>k\<bar>)"] ndig_bound [of "nat \<bar>k\<bar>"] by simp
  qed
  have sgn: "CHR ''-'' \<in> set (int_str k) \<longleftrightarrow> k < 0" for k using set_digs by (fastforce simp: int_str_def)
  have "nat \<bar>m\<bar> = nat \<bar>n\<bar>" "m < 0 \<longleftrightarrow> n < 0" using val [of m] val [of n] sgn [of m] sgn [of n] e by simp_all
  then show "m = n" by linarith
qed simp

fun textCell :: "string option \<Rightarrow> cell" where
  "textCell None = CNull"
| "textCell (Some s) = CText s"

fun intCell :: "int option \<Rightarrow> cell" where
  "intCell None = CNull"
| "intCell (Some n) = CInt n"

definition bigintCell :: "int option \<Rightarrow> cell" where
  "bigintCell v = textCell (map_option int_str v)"

definition toNumericString :: "dec_lib \<Rightarrow> decimal_value option \<Rightarrow> nat \<Rightarrow> string option" where
  "toNumericString L value dp =
     (case value of None \<Rightarrow> None
      | Some (Finite x) \<Rightarrow> Some (dl_fixed L dp x)
      | Some _ \<Rightarrow> None)"

definition numericCell :: "dec_lib \<Rightarrow> rat option \<Rightarrow> nat \<Rightarrow> cell" where
  "numericCell L v dp = textCell (toNumeric L v dp)"

section \<open>Integrity rows\<close>

datatype integrity_type =
  ItSequenceGap | ItNegativeLevelQuantity | ItRestSnapshotMismatch | ItTickerBboMismatch
| ItDuplicateTradeId | ItInvalidDecimal | ItUnexpectedSchema | ItDbWriteFailure | ItWsDisconnect
| ItSubscriptionFailure | ItRecoveryFailure | ItBufferOverflow | ItPartitionMissing
| ItPriceOutOfRange | ItCrossedBook | ItVolumeDecrease

fun integrityTypeString :: "integrity_type \<Rightarrow> string" where
  "integrityTypeString ItSequenceGap = ''sequence_gap''"
| "integrityTypeString ItNegativeLevelQuantity = ''negative_level_quantity''"
| "integrityTypeString ItRestSnapshotMismatch = ''rest_snapshot_mismatch''"
| "integrityTypeString ItTickerBboMismatch = ''ticker_bbo_mismatch''"
| "integrityTypeString ItDuplicateTradeId = ''duplicate_trade_id''"
| "integrityTypeString ItInvalidDecimal = ''invalid_decimal''"
| "integrityTypeString ItUnexpectedSchema = ''unexpected_schema''"
| "integrityTypeString ItDbWriteFailure = ''db_write_failure''"
| "integrityTypeString ItWsDisconnect = ''ws_disconnect''"
| "integrityTypeString ItSubscriptionFailure = ''subscription_failure''"
| "integrityTypeString ItRecoveryFailure = ''recovery_failure''"
| "integrityTypeString ItBufferOverflow = ''buffer_overflow''"
| "integrityTypeString ItPartitionMissing = ''partition_missing''"
| "integrityTypeString ItPriceOutOfRange = ''price_out_of_range''"
| "integrityTypeString ItCrossedBook = ''crossed_book''"
| "integrityTypeString ItVolumeDecrease = ''volume_decrease''"

datatype severity = SevInfo | SevWarning | SevError | SevCritical

fun severityString :: "severity \<Rightarrow> string" where
  "severityString SevInfo = ''info''"
| "severityString SevWarning = ''warning''"
| "severityString SevError = ''error''"
| "severityString SevCritical = ''critical''"

record integrity_input =
  ii_sessionId :: "string option"
  ii_marketTicker :: "string option"
  ii_type :: integrity_type
  ii_severity :: severity
  ii_details :: "(string \<times> cell) list"
  ii_detectedAt :: "int option"

definition integrityRow :: "int \<Rightarrow> integrity_input \<Rightarrow> normalized_row" where
  "integrityRow now inp =
     \<lparr>nr_table = ''integrity_events'', nr_linkRawEvent = False,
      nr_values =
       [(''session_id'', textCell (ii_sessionId inp)),
        (''market_ticker'', textCell (ii_marketTicker inp)),
        (''detected_at'', CDate (case ii_detectedAt inp of None \<Rightarrow> now | Some t \<Rightarrow> t)),
        (''type'', CText (integrityTypeString (ii_type inp))),
        (''severity'', CText (severityString (ii_severity inp))),
        (''details'', CObj (ii_details inp))]\<rparr>"

section \<open>Snapshot rows\<close>

datatype snapshot_source = WsInitial | WsRecovery | LocalMaterialized | RestValidation | SessionHandoff

fun sourceString :: "snapshot_source \<Rightarrow> string" where
  "sourceString WsInitial = ''ws_initial''"
| "sourceString WsRecovery = ''ws_recovery''"
| "sourceString LocalMaterialized = ''local_materialized''"
| "sourceString RestValidation = ''rest_validation''"
| "sourceString SessionHandoff = ''session_handoff''"

record snapshot_input =
  si_book :: market_book
  si_source :: snapshot_source
  si_sessionId :: "string option"
  si_streamId :: "string option"
  si_sid :: "int option"
  si_seq :: "int option"
  si_receivedAt :: int
  si_receivedAtMs :: int
  si_marketId :: "string option"
  si_linkRawEvent :: bool

text \<open>The row, and the book with the hash that \<open>getStateHash\<close> cached.\<close>

definition snapshotRow ::
  "dec_lib \<Rightarrow> (string \<Rightarrow> string) \<Rightarrow> snapshot_input \<Rightarrow> normalized_row \<times> market_book" where
  "snapshotRow L sha inp =
     (let book = si_book inp;
          canonical = serializeCanonical L book;
          bbo = getYesBBO L book;
          bestNo = (case noBidLevels L book of [] \<Rightarrow> None | l # _ \<Rightarrow> Some l);
          (h, book') = getStateHash L sha book
      in (\<lparr>nr_table = ''orderbook_snapshots'', nr_linkRawEvent = si_linkRawEvent inp,
           nr_values =
            [(''market_ticker'', CText (mb_ticker book)),
             (''market_id'', textCell (si_marketId inp)),
             (''session_id'', textCell (si_sessionId inp)),
             (''stream_id'', textCell (si_streamId inp)),
             (''source'', CText (sourceString (si_source inp))),
             (''sid'', intCell (si_sid inp)),
             (''seq'', bigintCell (si_seq inp)),
             (''received_at'', CDate (si_receivedAt inp)),
             (''received_at_ms'', CText (int_str (si_receivedAtMs inp))),
             (''yes_bids'', CLevels (cb_yes_bids canonical)),
             (''no_bids'', CLevels (cb_no_bids canonical)),
             (''yes_level_count'', CInt (int (length (cb_yes_bids canonical)))),
             (''no_level_count'', CInt (int (length (cb_no_bids canonical)))),
             (''best_yes_bid'', numericCell L (bbo_bid bbo) PRICE_DP),
             (''best_yes_bid_size'', numericCell L (bbo_bidSize bbo) SIZE_DP),
             (''best_no_bid'', textCell (map_option fst bestNo)),
             (''best_no_bid_size'', textCell (map_option snd bestNo)),
             (''best_yes_ask'', numericCell L (bbo_ask bbo) PRICE_DP),
             (''best_yes_ask_size'', numericCell L (bbo_askSize bbo) SIZE_DP),
             (''spread'', numericCell L (bbo_spread bbo) PRICE_DP),
             (''mid'', numericCell L (bbo_mid bbo) PRICE_DP),
             (''state_hash'', CText h)]\<rparr>, book'))"

section \<open>Features\<close>

definition DEPTH_LEVELS :: "nat list" where
  "DEPTH_LEVELS = [1, 3, 5, 10]"

record book_features =
  bf_yesBid :: "rat option"
  bf_yesAsk :: "rat option"
  bf_bidSize :: "rat option"
  bf_askSize :: "rat option"
  bf_spread :: "rat option"
  bf_mid :: "rat option"
  bf_microprice :: "rat option"
  bf_depth :: "nat \<Rightarrow> depth"
  bf_imbalance :: "nat \<Rightarrow> rat option"
  bf_stateHash :: string
  bf_valid :: bool
  bf_lastSeq :: "int option"

text \<open>\<open>depth\<close> and \<open>imbalance\<close> are read at the keys \<open>DEPTH_LEVELS\<close> only.\<close>

definition computeFeatures ::
  "dec_lib \<Rightarrow> (string \<Rightarrow> string) \<Rightarrow> market_book \<Rightarrow> book_features \<times> market_book" where
  "computeFeatures L sha book =
     (let bbo = getYesBBO L book; (h, book') = getStateHash L sha book
      in (\<lparr>bf_yesBid = bbo_bid bbo, bf_yesAsk = bbo_ask bbo,
           bf_bidSize = bbo_bidSize bbo, bf_askSize = bbo_askSize bbo,
           bf_spread = bbo_spread bbo, bf_mid = bbo_mid bbo,
           bf_microprice = getMicroprice L book,
           bf_depth = (\<lambda>k. getDepth L k book), bf_imbalance = (\<lambda>k. getImbalance L k book),
           bf_stateHash = h, bf_valid = mb_valid book, bf_lastSeq = mb_lastSeq book\<rparr>, book'))"

definition featuresToSampleColumns :: "dec_lib \<Rightarrow> book_features \<Rightarrow> (string \<times> cell) list" where
  "featuresToSampleColumns L f =
     [(''yes_bid'', numericCell L (bf_yesBid f) PRICE_DP),
      (''yes_ask'', numericCell L (bf_yesAsk f) PRICE_DP),
      (''bid_size'', numericCell L (bf_bidSize f) SIZE_DP),
      (''ask_size'', numericCell L (bf_askSize f) SIZE_DP),
      (''spread'', numericCell L (bf_spread f) PRICE_DP),
      (''mid'', numericCell L (bf_mid f) PRICE_DP),
      (''microprice'', numericCell L (bf_microprice f) PRICE_DP),
      (''bid_depth_1'', numericCell L (Some (dp_bid (bf_depth f 1))) SIZE_DP),
      (''ask_depth_1'', numericCell L (Some (dp_ask (bf_depth f 1))) SIZE_DP),
      (''bid_depth_3'', numericCell L (Some (dp_bid (bf_depth f 3))) SIZE_DP),
      (''ask_depth_3'', numericCell L (Some (dp_ask (bf_depth f 3))) SIZE_DP),
      (''bid_depth_5'', numericCell L (Some (dp_bid (bf_depth f 5))) SIZE_DP),
      (''ask_depth_5'', numericCell L (Some (dp_ask (bf_depth f 5))) SIZE_DP),
      (''bid_depth_10'', numericCell L (Some (dp_bid (bf_depth f 10))) SIZE_DP),
      (''ask_depth_10'', numericCell L (Some (dp_ask (bf_depth f 10))) SIZE_DP),
      (''imbalance_1'', numericCell L (bf_imbalance f 1) 8),
      (''imbalance_3'', numericCell L (bf_imbalance f 3) 8),
      (''imbalance_5'', numericCell L (bf_imbalance f 5) 8),
      (''imbalance_10'', numericCell L (bf_imbalance f 10) 8),
      (''book_state_hash'', CText (bf_stateHash f)),
      (''book_valid'', CBool (bf_valid f)),
      (''source_seq'', bigintCell (bf_lastSeq f))]"

text \<open>A reported decimal stands for the text the code puts in the issue.\<close>

datatype consistency_issue =
  PriceOutOfRange book_side string
| NegativeSize book_side string rat
| CrossedBook rat rat

definition levelIssues :: "dec_lib \<Rightarrow> book_side \<Rightarrow> string \<times> rat \<Rightarrow> consistency_issue list" where
  "levelIssues L side entry =
     (let (price, sz) = entry; p = dl_of_string L price
      in (if p < 0 \<or> 1 < p then [PriceOutOfRange side price] else []) @
         (if sz < 0 then [NegativeSize side price sz] else []))"

fun crossedIssue :: "rat option \<Rightarrow> rat option \<Rightarrow> consistency_issue list" where
  "crossedIssue (Some bid) (Some ask) = (if ask < bid then [CrossedBook bid ask] else [])"
| "crossedIssue _ _ = []"

definition checkConsistency :: "dec_lib \<Rightarrow> market_book \<Rightarrow> consistency_issue list" where
  "checkConsistency L book =
     concat (map (levelIssues L Yes) (mb_yesBids book)) @
     concat (map (levelIssues L No) (mb_noBids book)) @
     (let bbo = getYesBBO L book in crossedIssue (bbo_bid bbo) (bbo_ask bbo))"

section \<open>Lemmas\<close>

lemma getStateHash_result:
  "book_ok L sha b \<Longrightarrow> fst (getStateHash L sha b) = bookHash L sha b"
  by (auto simp: book_ok_def getStateHash_def Let_def split: option.splits)

lemma levelIssues_ok: "ladder_ok L m \<Longrightarrow> e \<in> set m \<Longrightarrow>
    levelIssues L side e = (if 1 < dl_of_string L (fst e) then [PriceOutOfRange side (fst e)] else [])"
  by (fastforce simp: ladder_ok_def levelIssues_def key_ok_def Let_def)

lemma checkConsistency_ok:
  assumes "book_ok L sha b"
  shows "checkConsistency L b =
    map (\<lambda>e. PriceOutOfRange Yes (fst e)) (filter (\<lambda>e. 1 < dl_of_string L (fst e)) (mb_yesBids b)) @
    map (\<lambda>e. PriceOutOfRange No (fst e)) (filter (\<lambda>e. 1 < dl_of_string L (fst e)) (mb_noBids b)) @
    crossedIssue (bbo_bid (getYesBBO L b)) (bbo_ask (getYesBBO L b))"
proof -
  have one: "concat (map (levelIssues L side) m) =
      map (\<lambda>e. PriceOutOfRange side (fst e)) (filter (\<lambda>e. 1 < dl_of_string L (fst e)) m)"
    if "ladder_ok L m" for side m
    using levelIssues_ok [OF that] by (induction m rule: rev_induct) (auto)
  show ?thesis using assms by (simp add: checkConsistency_def Let_def one book_ok_def)
qed

section \<open>Properties\<close>

text \<open>
  C9: On a book reached by its operations the consistency check reports no negative size: what it
  reports are the levels priced above one, side by side in ladder order, and the crossed best prices,
  which the features of the same book carry unchanged together with the hash of its levels.
\<close>
theorem consistency_and_features:
  assumes "book_ok L sha b"
  shows "checkConsistency L b =
      map (\<lambda>e. PriceOutOfRange Yes (fst e)) (filter (\<lambda>e. 1 < dl_of_string L (fst e)) (mb_yesBids b)) @
      map (\<lambda>e. PriceOutOfRange No (fst e)) (filter (\<lambda>e. 1 < dl_of_string L (fst e)) (mb_noBids b)) @
      crossedIssue (bf_yesBid (fst (computeFeatures L sha b))) (bf_yesAsk (fst (computeFeatures L sha b))) \<and>
    bf_stateHash (fst (computeFeatures L sha b)) = bookHash L sha b"
  using checkConsistency_ok [OF assms] getStateHash_result [OF assms]
  by (simp add: computeFeatures_def Let_def case_prod_unfold)

theorem consistency_and_features_witness:
  "bf_stateHash (fst (computeFeatures std_dlib id (wit_book id))) = bookHash std_dlib id (wit_book id)"
  using consistency_and_features [OF wit_book_ok [of id]] by blast

end
