(* ===== verification/BookManager.thy ===== *)
theory BookManager
  imports Rows
begin

text \<open>
  The owner of every tracked market's book: \<open>src/src/book/bookManager.ts\<close>.

  \<open>book_manager\<close> holds the map from tickers to books and the map from streams to the set of
  markets they carry. Books are mutable objects of that map; an operation returns the updated
  manager. Log calls are left out. The operations are gathered in \<open>bmStep\<close>, the interface through
  which the collector drives the books.
\<close>

section \<open>The model\<close>

record book_manager =
  bm_books :: "(string, market_book) jsmap"
  bm_streamMarkets :: "(string, string list) jsmap"

record delta_input =
  xd_marketTicker :: string
  xd_marketId :: "string option"
  xd_side :: book_side
  xd_price :: rat
  xd_delta :: rat
  xd_seq :: int
  xd_sid :: "int option"
  xd_sessionId :: string
  xd_streamId :: string
  xd_exchangeTsMs :: "int option"
  xd_receivedAt :: int
  xd_receivedAtMs :: int

record snapshot_apply_input =
  xs_marketTicker :: string
  xs_marketId :: "string option"
  xs_yesBids :: "(rat \<times> rat) list"
  xs_noBids :: "(rat \<times> rat) list"
  xs_seq :: "int option"
  xs_sid :: "int option"
  xs_sessionId :: string
  xs_streamId :: string
  xs_source :: snapshot_source
  xs_receivedAt :: int
  xs_receivedAtMs :: int

record delta_options =
  opt_canApply :: bool
  opt_skipReason :: "string option"

record delta_outcome =
  do_result :: apply_delta_result
  do_row :: normalized_row
  do_needsRecovery :: bool

definition newBookManager :: book_manager where
  "newBookManager = \<lparr>bm_books = [], bm_streamMarkets = []\<rparr>"

definition bm_get :: "book_manager \<Rightarrow> string \<Rightarrow> market_book option" where
  "bm_get m t = js_get (bm_books m) t"

definition putBook :: "market_book \<Rightarrow> string \<Rightarrow> book_manager \<Rightarrow> book_manager" where
  "putBook b t m = m\<lparr>bm_books := js_set t b (bm_books m)\<rparr>"

definition getOrCreate :: "string \<Rightarrow> book_manager \<Rightarrow> market_book \<times> book_manager" where
  "getOrCreate t m =
     (case bm_get m t of
        Some b \<Rightarrow> (b, m)
      | None \<Rightarrow> let b = newMarketBook t None None in (b, putBook b t m))"

definition bm_has :: "book_manager \<Rightarrow> string \<Rightarrow> bool" where
  "bm_has m t = js_has (bm_books m) t"

definition bm_size :: "book_manager \<Rightarrow> nat" where
  "bm_size m = length (bm_books m)"

definition tickers :: "book_manager \<Rightarrow> string list" where
  "tickers m = js_keys (bm_books m)"

definition allBooks :: "book_manager \<Rightarrow> market_book list" where
  "allBooks m = map snd (bm_books m)"

definition validBooks :: "book_manager \<Rightarrow> market_book list" where
  "validBooks m = filter mb_valid (allBooks m)"

definition invalidBooks :: "book_manager \<Rightarrow> market_book list" where
  "invalidBooks m = filter (\<lambda>b. \<not> mb_valid b) (allBooks m)"

definition bm_remove :: "string \<Rightarrow> book_manager \<Rightarrow> book_manager" where
  "bm_remove t m =
     m\<lparr>bm_books := js_del t (bm_books m),
       bm_streamMarkets := map (\<lambda>(s, ms). (s, set_del t ms)) (bm_streamMarkets m)\<rparr>"

definition marketsForStream :: "book_manager \<Rightarrow> string \<Rightarrow> string list" where
  "marketsForStream m s = (case js_get (bm_streamMarkets m) s of None \<Rightarrow> [] | Some ms \<Rightarrow> ms)"

definition associate :: "string \<Rightarrow> string \<Rightarrow> book_manager \<Rightarrow> book_manager" where
  "associate streamId t m =
     m\<lparr>bm_streamMarkets := js_set streamId (set_add t (marketsForStream m streamId)) (bm_streamMarkets m)\<rparr>"

definition releaseStream :: "string \<Rightarrow> book_manager \<Rightarrow> string list \<times> book_manager" where
  "releaseStream s m =
     (marketsForStream m s, m\<lparr>bm_streamMarkets := js_del s (bm_streamMarkets m)\<rparr>)"

definition invalidateIfPresent :: "string \<Rightarrow> book_manager \<Rightarrow> string \<Rightarrow> book_manager" where
  "invalidateIfPresent reason m t =
     (case bm_get m t of None \<Rightarrow> m | Some b \<Rightarrow> putBook (invalidate reason b) t m)"

definition invalidateStream :: "string \<Rightarrow> string \<Rightarrow> book_manager \<Rightarrow> string list \<times> book_manager" where
  "invalidateStream s reason m =
     (let affected = marketsForStream m s
      in (affected, foldl (invalidateIfPresent reason) m affected))"

definition invalidateAll :: "string \<Rightarrow> book_manager \<Rightarrow> string list \<times> book_manager" where
  "invalidateAll reason m =
     (tickers m, m\<lparr>bm_books := map (\<lambda>(t, b). (t, invalidate reason b)) (bm_books m)\<rparr>)"

definition bm_applySnapshot ::
  "dec_lib \<Rightarrow> (string \<Rightarrow> string) \<Rightarrow> snapshot_apply_input \<Rightarrow> book_manager \<Rightarrow> normalized_row \<times> book_manager" where
  "bm_applySnapshot L sha inp m =
     (let t = xs_marketTicker inp;
          (book, m) = getOrCreate t m;
          book = replaceWithSnapshot L (xs_receivedAtMs inp)
            \<lparr>sl_yesBids = xs_yesBids inp, sl_noBids = xs_noBids inp\<rparr>
            \<lparr>so_seq = xs_seq inp, so_atMs = Some (xs_receivedAtMs inp),
             so_sessionId = Some (xs_sessionId inp), so_streamId = Some (xs_streamId inp)\<rparr> book;
          m = associate (xs_streamId inp) t m;
          (row, book) = snapshotRow L sha
            \<lparr>si_book = book, si_source = xs_source inp, si_sessionId = Some (xs_sessionId inp),
             si_streamId = Some (xs_streamId inp), si_sid = xs_sid inp, si_seq = xs_seq inp,
             si_receivedAt = xs_receivedAt inp, si_receivedAtMs = xs_receivedAtMs inp,
             si_marketId = xs_marketId inp,
             si_linkRawEvent = (xs_source inp = WsInitial \<or> xs_source inp = WsRecovery)\<rparr>
      in (row, putBook book t m))"

fun actionString :: "level_action \<Rightarrow> string" where
  "actionString ActInsert = ''insert''"
| "actionString ActIncrease = ''increase''"
| "actionString ActDecrease = ''decrease''"
| "actionString ActDelete = ''delete''"
| "actionString ActUnknown = ''unknown''"

definition deltaBaseValues :: "dec_lib \<Rightarrow> delta_input \<Rightarrow> (string \<times> cell) list" where
  "deltaBaseValues L inp =
     [(''session_id'', CText (xd_sessionId inp)),
      (''stream_id'', CText (xd_streamId inp)),
      (''market_ticker'', CText (xd_marketTicker inp)),
      (''market_id'', textCell (xd_marketId inp)),
      (''sid'', intCell (xd_sid inp)),
      (''seq'', CText (int_str (xd_seq inp))),
      (''exchange_ts_ms'', bigintCell (xd_exchangeTsMs inp)),
      (''exchange_ts'', (case xd_exchangeTsMs inp of
          None \<Rightarrow> CNull | Some t \<Rightarrow> if t = 0 then CNull else CDate t)),
      (''received_at'', CDate (xd_receivedAt inp)),
      (''received_at_ms'', CText (int_str (xd_receivedAtMs inp))),
      (''side'', CText (sideString (xd_side inp))),
      (''price'', textCell (toNumericString L (Some (Finite (xd_price inp))) PRICE_DP)),
      (''delta_count'', textCell (toNumericString L (Some (Finite (xd_delta inp))) SIZE_DP))]"

definition SKIP_DEFAULT :: string where
  "SKIP_DEFAULT = ''book invalid; awaiting recovery snapshot''"

definition bm_applyDelta ::
  "dec_lib \<Rightarrow> delta_input \<Rightarrow> delta_options \<Rightarrow> book_manager \<Rightarrow> delta_outcome \<times> book_manager" where
  "bm_applyDelta L inp options m =
     (let t = xd_marketTicker inp;
          (book, m) = getOrCreate t m;
          m = associate (xd_streamId inp) t m
      in if \<not> opt_canApply options \<or> \<not> mb_valid book then
           let reason = (case opt_skipReason options of Some r \<Rightarrow> r
                 | None \<Rightarrow> (case mb_invalidReason book of Some r \<Rightarrow> r | None \<Rightarrow> SKIP_DEFAULT))
           in (\<lparr>do_result = \<lparr>dr_applied = False, dr_preCount = 0, dr_postCount = None,
                  dr_levelAction = ActUnknown, dr_error = Some reason\<rparr>,
                do_row = \<lparr>nr_table = ''orderbook_deltas'', nr_linkRawEvent = True,
                  nr_values = deltaBaseValues L inp @
                    [(''pre_count'', CNull), (''post_count'', CNull), (''level_action'', CText ''unknown''),
                     (''applied'', CBool False), (''apply_error'', CText reason)]\<rparr>,
                do_needsRecovery = True\<rparr>, m)
         else
           let (result, book) = applyDelta L (xd_receivedAtMs inp)
                 \<lparr>di_side = xd_side inp, di_price = xd_price inp, di_delta = xd_delta inp,
                  di_seq = Some (xd_seq inp), di_atMs = Some (xd_receivedAtMs inp)\<rparr> book
           in (\<lparr>do_result = result,
                do_row = \<lparr>nr_table = ''orderbook_deltas'', nr_linkRawEvent = True,
                  nr_values = deltaBaseValues L inp @
                    [(''pre_count'', textCell (toNumericString L (Some (Finite (dr_preCount result))) SIZE_DP)),
                     (''post_count'', textCell (toNumericString L (map_option Finite (dr_postCount result)) SIZE_DP)),
                     (''level_action'', CText (actionString (dr_levelAction result))),
                     (''applied'', CBool (dr_applied result)),
                     (''apply_error'', textCell (dr_error result))]\<rparr>,
                do_needsRecovery = (\<not> dr_applied result)\<rparr>, putBook book t m))"

definition snapshotAll :: "string list option \<Rightarrow> book_manager \<Rightarrow> (string, market_book) jsmap" where
  "snapshotAll ts m =
     foldl (\<lambda>out t. case bm_get m t of None \<Rightarrow> out | Some b \<Rightarrow> js_set t (clone b) out) []
       (case ts of None \<Rightarrow> tickers m | Some l \<Rightarrow> l)"

definition bm_clear :: "book_manager \<Rightarrow> book_manager" where
  "bm_clear m = m\<lparr>bm_books := [], bm_streamMarkets := []\<rparr>"

datatype bm_op =
  BmSnapshot snapshot_apply_input
| BmDelta delta_input delta_options
| BmInvalidateStream string string
| BmInvalidateAll string
| BmReleaseStream string
| BmAssociate string string
| BmRemove string
| BmClear

fun bmStep :: "dec_lib \<Rightarrow> (string \<Rightarrow> string) \<Rightarrow> book_manager \<Rightarrow> bm_op \<Rightarrow> book_manager" where
  "bmStep L sha m (BmSnapshot inp) = snd (bm_applySnapshot L sha inp m)"
| "bmStep L sha m (BmDelta inp opt) = snd (bm_applyDelta L inp opt m)"
| "bmStep L sha m (BmInvalidateStream s reason) = snd (invalidateStream s reason m)"
| "bmStep L sha m (BmInvalidateAll reason) = snd (invalidateAll reason m)"
| "bmStep L sha m (BmReleaseStream s) = snd (releaseStream s m)"
| "bmStep L sha m (BmAssociate s t) = associate s t m"
| "bmStep L sha m (BmRemove t) = bm_remove t m"
| "bmStep L sha m BmClear = bm_clear m"

section \<open>Lookups after an operation\<close>

definition validAt :: "book_manager \<Rightarrow> string \<Rightarrow> bool" where
  "validAt m t = (case bm_get m t of None \<Rightarrow> False | Some b \<Rightarrow> mb_valid b)"

named_theorems bm_get_simps \<open>lookups after an operation of the manager\<close>

lemma bm_get_putBook [bm_get_simps, simp]: "bm_get (putBook b t m) t' = (if t' = t then Some b else bm_get m t')"
  by (simp add: bm_get_def putBook_def)

lemma bm_get_associate [bm_get_simps, simp]: "bm_get (associate s t m) t' = bm_get m t'"
  by (simp add: bm_get_def associate_def)

lemma bm_get_release [bm_get_simps, simp]: "bm_get (snd (releaseStream s m)) t = bm_get m t"
  by (simp add: bm_get_def releaseStream_def)

lemma bm_get_remove [bm_get_simps, simp]: "bm_get (bm_remove t m) t' = (if t' = t then None else bm_get m t')"
  by (simp add: bm_get_def bm_remove_def)

lemma bm_get_clear [bm_get_simps, simp]: "bm_get (bm_clear m) t = None"
  by (simp add: bm_get_def bm_clear_def)

lemma invalidate_idem [simp]: "invalidate r (invalidate r b) = invalidate r b"
  by (simp add: invalidate_def)

lemma bm_get_invalidates:
  "bm_get (foldl (invalidateIfPresent r) m ts) t =
     (if t \<in> set ts then map_option (invalidate r) (bm_get m t) else bm_get m t)"
proof (induction ts arbitrary: m)
  case (Cons u ts)
  then show ?case by (cases "bm_get m u") (auto simp: invalidateIfPresent_def)
qed simp

lemma bm_get_invalidateStream [bm_get_simps, simp]:
  "bm_get (snd (invalidateStream s r m)) t =
     (if t \<in> set (marketsForStream m s) then map_option (invalidate r) (bm_get m t) else bm_get m t)"
  by (simp add: invalidateStream_def bm_get_invalidates Let_def)

lemma bm_get_invalidateAll [bm_get_simps, simp]:
  "bm_get (snd (invalidateAll r m)) t = map_option (invalidate r) (bm_get m t)"
proof -
  have "map_of (map (\<lambda>(t, b). (t, invalidate r b)) xs) t = map_option (invalidate r) (map_of xs t)" for xs
    by (induction xs) auto
  then show ?thesis by (simp add: bm_get_def invalidateAll_def)
qed

lemma getOrCreate_cases:
  "getOrCreate t m = (b, m') \<Longrightarrow>
     (bm_get m t = Some b \<and> m' = m) \<or>
     (bm_get m t = None \<and> b = newMarketBook t None None \<and> m' = putBook b t m)"
  by (auto simp: getOrCreate_def Let_def split: option.splits)

text \<open>\<open>bookFor\<close> is the book an operation on \<open>t\<close> works on: the one in the map or a new one.\<close>

definition bookFor :: "book_manager \<Rightarrow> string \<Rightarrow> market_book" where
  "bookFor m t = (case bm_get m t of Some b \<Rightarrow> b | None \<Rightarrow> newMarketBook t None None)"

lemma getOrCreate_eq: "getOrCreate t m = (bookFor m t, case bm_get m t of Some _ \<Rightarrow> m | None \<Rightarrow> putBook (bookFor m t) t m)"
  by (auto simp: getOrCreate_def bookFor_def Let_def split: option.splits)

lemma bm_get_getOrCreate [simp]:
  "bm_get (snd (getOrCreate t m)) t' = (if t' = t then Some (bookFor m t) else bm_get m t')"
  by (auto simp: getOrCreate_eq bookFor_def split: option.splits)

lemma newMarketBook_invalid [simp]: "\<not> mb_valid (newMarketBook t w n)"
  by (simp add: newMarketBook_def)

lemma bookFor_valid: "mb_valid (bookFor m t) \<longleftrightarrow> validAt m t"
  by (simp add: bookFor_def validAt_def split: option.splits)

definition managerDelta :: "delta_input \<Rightarrow> apply_delta_input" where
  "managerDelta inp = \<lparr>di_side = xd_side inp, di_price = xd_price inp, di_delta = xd_delta inp,
     di_seq = Some (xd_seq inp), di_atMs = Some (xd_receivedAtMs inp)\<rparr>"

lemma bm_applyDelta_skip:
  assumes "\<not> opt_canApply opt \<or> \<not> validAt m (xd_marketTicker inp)"
  shows "\<not> dr_applied (do_result (fst (bm_applyDelta L inp opt m)))"
    "do_needsRecovery (fst (bm_applyDelta L inp opt m))"
    "bm_get (snd (bm_applyDelta L inp opt m)) t =
      (if t = xd_marketTicker inp then Some (bookFor m t) else bm_get m t)"
    "js_get (nr_values (do_row (fst (bm_applyDelta L inp opt m)))) ''applied'' = Some (CBool False)"
proof -
  have v: "\<not> opt_canApply opt \<or> \<not> mb_valid (bookFor m (xd_marketTicker inp))"
    using assms by (simp add: bookFor_valid)
  obtain b m' where g: "getOrCreate (xd_marketTicker inp) m = (b, m')" by fastforce
  then have b: "b = bookFor m (xd_marketTicker inp)" by (simp add: getOrCreate_eq)
  have "bm_get m' t = (if t = xd_marketTicker inp then Some (bookFor m t) else bm_get m t)"
    using bm_get_getOrCreate [of "xd_marketTicker inp" m t] g by auto
  then show "bm_get (snd (bm_applyDelta L inp opt m)) t =
      (if t = xd_marketTicker inp then Some (bookFor m t) else bm_get m t)"
    using v by (simp add: bm_applyDelta_def g b Let_def)
  show "\<not> dr_applied (do_result (fst (bm_applyDelta L inp opt m)))"
    "do_needsRecovery (fst (bm_applyDelta L inp opt m))"
    using v by (simp_all add: bm_applyDelta_def g b Let_def)
  show "js_get (nr_values (do_row (fst (bm_applyDelta L inp opt m)))) ''applied'' = Some (CBool False)"
    using v by (simp add: bm_applyDelta_def g b Let_def deltaBaseValues_def)
qed

lemma bm_applyDelta_apply:
  assumes "opt_canApply opt" "validAt m (xd_marketTicker inp)"
  shows "do_result (fst (bm_applyDelta L inp opt m)) =
      fst (applyDelta L (xd_receivedAtMs inp) (managerDelta inp) (bookFor m (xd_marketTicker inp)))"
    "do_needsRecovery (fst (bm_applyDelta L inp opt m)) =
      (\<not> dr_applied (do_result (fst (bm_applyDelta L inp opt m))))"
    "bm_get (snd (bm_applyDelta L inp opt m)) t =
      (if t = xd_marketTicker inp
       then Some (snd (applyDelta L (xd_receivedAtMs inp) (managerDelta inp) (bookFor m t)))
       else bm_get m t)"
    "js_get (nr_values (do_row (fst (bm_applyDelta L inp opt m)))) ''applied'' =
      Some (CBool (dr_applied (do_result (fst (bm_applyDelta L inp opt m)))))"
proof -
  obtain b m' where g: "getOrCreate (xd_marketTicker inp) m = (b, m')" by fastforce
  then have b: "b = bookFor m (xd_marketTicker inp)" by (simp add: getOrCreate_eq)
  have v: "mb_valid b" using assms(2) by (simp add: b bookFor_valid)
  have m': "bm_get m' t = (if t = xd_marketTicker inp then Some (bookFor m t) else bm_get m t)"
    using bm_get_getOrCreate [of "xd_marketTicker inp" m t] g by auto
  obtain r b' where r: "applyDelta L (xd_receivedAtMs inp) (managerDelta inp) b = (r, b')" by fastforce
  have eq: "bm_applyDelta L inp opt m = (\<lparr>do_result = r,
      do_row = \<lparr>nr_table = ''orderbook_deltas'', nr_linkRawEvent = True,
        nr_values = deltaBaseValues L inp @
          [(''pre_count'', textCell (toNumericString L (Some (Finite (dr_preCount r))) SIZE_DP)),
           (''post_count'', textCell (toNumericString L (map_option Finite (dr_postCount r)) SIZE_DP)),
           (''level_action'', CText (actionString (dr_levelAction r))),
           (''applied'', CBool (dr_applied r)), (''apply_error'', textCell (dr_error r))]\<rparr>,
      do_needsRecovery = (\<not> dr_applied r)\<rparr>,
     putBook b' (xd_marketTicker inp) (associate (xd_streamId inp) (xd_marketTicker inp) m'))"
    using assms(1) v r by (simp add: bm_applyDelta_def g Let_def managerDelta_def)
  show "do_result (fst (bm_applyDelta L inp opt m)) =
      fst (applyDelta L (xd_receivedAtMs inp) (managerDelta inp) (bookFor m (xd_marketTicker inp)))"
    using r by (simp add: eq b)
  show "do_needsRecovery (fst (bm_applyDelta L inp opt m)) =
      (\<not> dr_applied (do_result (fst (bm_applyDelta L inp opt m))))"
    by (simp add: eq)
  show "bm_get (snd (bm_applyDelta L inp opt m)) t =
      (if t = xd_marketTicker inp
       then Some (snd (applyDelta L (xd_receivedAtMs inp) (managerDelta inp) (bookFor m t)))
       else bm_get m t)"
    using r by (simp add: eq m' b)
  show "js_get (nr_values (do_row (fst (bm_applyDelta L inp opt m)))) ''applied'' =
      Some (CBool (dr_applied (do_result (fst (bm_applyDelta L inp opt m)))))"
    by (simp add: eq deltaBaseValues_def)
qed

definition managerSnapshot ::
  "dec_lib \<Rightarrow> snapshot_apply_input \<Rightarrow> market_book \<Rightarrow> market_book" where
  "managerSnapshot L inp b = replaceWithSnapshot L (xs_receivedAtMs inp)
     \<lparr>sl_yesBids = xs_yesBids inp, sl_noBids = xs_noBids inp\<rparr>
     \<lparr>so_seq = xs_seq inp, so_atMs = Some (xs_receivedAtMs inp),
      so_sessionId = Some (xs_sessionId inp), so_streamId = Some (xs_streamId inp)\<rparr> b"

lemma snapshotRow_book: "snd (snapshotRow L sha inp) = snd (getStateHash L sha (si_book inp))"
  by (simp add: snapshotRow_def Let_def case_prod_unfold)

lemma bm_get_snapshot [bm_get_simps]:
  "bm_get (snd (bm_applySnapshot L sha inp m)) t =
    (if t = xs_marketTicker inp
     then Some (snd (getStateHash L sha (managerSnapshot L inp (bookFor m t)))) else bm_get m t)"
proof -
  obtain b m' where g: "getOrCreate (xs_marketTicker inp) m = (b, m')" by fastforce
  then have b: "b = bookFor m (xs_marketTicker inp)" by (simp add: getOrCreate_eq)
  have m': "bm_get m' t = (if t = xs_marketTicker inp then Some (bookFor m t) else bm_get m t)"
    using bm_get_getOrCreate [of "xs_marketTicker inp" m t] g by auto
  show ?thesis
    by (auto simp: bm_applySnapshot_def g Let_def case_prod_unfold snapshotRow_book m' b managerSnapshot_def)
qed

section \<open>Only a snapshot validates\<close>

fun snapshotOf :: "bm_op \<Rightarrow> string option" where
  "snapshotOf (BmSnapshot inp) = Some (xs_marketTicker inp)"
| "snapshotOf _ = None"

lemma applyDelta_valid: "mb_valid (snd (applyDelta L now d b)) \<Longrightarrow> mb_valid b"
  by (auto simp: applyDelta_def Let_def trimJournal_fields invalidate_def split: if_splits)

lemma bmStep_valid:
  assumes "validAt (bmStep L sha m op) t" "snapshotOf op \<noteq> Some t"
  shows "validAt m t"
proof (cases op)
  case (BmSnapshot inp)
  then show ?thesis using assms by (auto simp: validAt_def bm_get_snapshot split: option.splits)
next
  case (BmDelta inp opt)
  show ?thesis
  proof (cases "\<not> opt_canApply opt \<or> \<not> validAt m (xd_marketTicker inp)")
    case True
    have "bm_get (bmStep L sha m op) t = (if t = xd_marketTicker inp then Some (bookFor m t) else bm_get m t)"
      using bm_applyDelta_skip(3) [OF True] BmDelta by simp
    then show ?thesis using assms(1) bookFor_valid [of m t] by (simp add: validAt_def split: if_splits)
  next
    case False
    then have "opt_canApply opt" "validAt m (xd_marketTicker inp)" by simp_all
    note ap = bm_applyDelta_apply(3) [OF this]
    show ?thesis using assms(1) False applyDelta_valid bookFor_valid [of m t] BmDelta
      by (auto simp: validAt_def ap split: if_splits)
  qed
qed (use assms(1) in \<open>auto simp: validAt_def invalidate_def split: if_splits option.splits\<close>)

lemma bmRun_valid:
  assumes "validAt (foldl (bmStep L sha) m ops) t" "\<not> validAt m t"
  shows "\<exists>op \<in> set ops. snapshotOf op = Some t"
  using assms
proof (induction ops arbitrary: m)
  case (Cons op ops)
  show ?case
  proof (cases "validAt (bmStep L sha m op) t")
    case True
    then show ?thesis using bmStep_valid Cons.prems(2) by fastforce
  next
    case False
    then show ?thesis using Cons.IH [of "bmStep L sha m op"] Cons.prems(1) by auto
  qed
qed simp

section \<open>The manager's invariant\<close>

definition manager_ok :: "dec_lib \<Rightarrow> (string \<Rightarrow> string) \<Rightarrow> book_manager \<Rightarrow> bool" where
  "manager_ok L sha m \<longleftrightarrow> js_map_ok (bm_books m) \<and>
     (\<forall>t b. bm_get m t = Some b \<longrightarrow> mb_ticker b = t \<and> book_ok L sha b)"

fun bm_op_ok :: "bm_op \<Rightarrow> bool" where
  "bm_op_ok (BmSnapshot inp) = levels_nonneg \<lparr>sl_yesBids = xs_yesBids inp, sl_noBids = xs_noBids inp\<rparr>"
| "bm_op_ok (BmDelta inp opt) = (0 \<le> xd_price inp)"
| "bm_op_ok _ = True"

lemma keys_associate [simp]: "bm_books (associate s t m) = bm_books m"
  by (simp add: associate_def)

lemma keys_putBook: "js_map_ok (bm_books m) \<Longrightarrow> js_map_ok (bm_books (putBook b t m))"
  by (simp add: putBook_def)

lemma keys_getOrCreate: "js_map_ok (bm_books m) \<Longrightarrow> js_map_ok (bm_books (snd (getOrCreate t m)))"
  by (simp add: getOrCreate_eq keys_putBook split: option.split)

lemma keys_invalidates: "js_map_ok (bm_books m) \<Longrightarrow> js_map_ok (bm_books (foldl (invalidateIfPresent r) m ts))"
  by (rule foldl_invariant) (auto simp: invalidateIfPresent_def keys_putBook split: option.split)

lemma keys_bmStep: "js_map_ok (bm_books m) \<Longrightarrow> js_map_ok (bm_books (bmStep L sha m op))"
proof (cases op)
  case (BmSnapshot inp)
  assume ok: "js_map_ok (bm_books m)"
  show ?thesis using keys_getOrCreate [OF ok, of "xs_marketTicker inp"]
    by (simp add: BmSnapshot bm_applySnapshot_def Let_def case_prod_unfold keys_putBook)
next
  case (BmDelta inp opt)
  assume ok: "js_map_ok (bm_books m)"
  show ?thesis using keys_getOrCreate [OF ok, of "xd_marketTicker inp"]
    by (simp add: BmDelta bm_applyDelta_def Let_def case_prod_unfold keys_putBook)
qed (simp_all add: invalidateStream_def invalidateAll_def releaseStream_def bm_remove_def bm_clear_def
      keys_invalidates comp_def case_prod_unfold Let_def)

lemma invalidate_ticker [simp]: "mb_ticker (invalidate r b) = mb_ticker b"
  by (simp add: invalidate_def)

lemma newMarketBook_ok: "mb_ticker (newMarketBook t w n) = t" "book_ok L sha (newMarketBook t w n)"
  by (simp_all add: newMarketBook_def book_ok_def)

context decimal_lib
begin

lemma bookFor_ok: "manager_ok L sha m \<Longrightarrow> mb_ticker (bookFor m t) = t \<and> book_ok L sha (bookFor m t)"
  by (auto simp: manager_ok_def bookFor_def newMarketBook_ok split: option.splits)

lemma applyDelta_ticker: "mb_ticker (snd (applyDelta L now d b)) = mb_ticker b"
  by (cases "levelSize (sideLadder (di_side d) b) (canonicalPrice L (di_price d)) + di_delta d < 0")
    (simp_all add: applyDelta_rejected(5) applyDelta_applied(4))

lemma bmStep_ok:
  assumes "manager_ok L sha m" "bm_op_ok op"
  shows "manager_ok L sha (bmStep L sha m op)"
proof -
  have get: "bm_get m t = Some b \<Longrightarrow> mb_ticker b = t \<and> book_ok L sha b" for t b
    using assms(1) by (simp add: manager_ok_def)
  have "bm_get (bmStep L sha m op) t = Some b \<Longrightarrow> mb_ticker b = t \<and> book_ok L sha b" for t b
  proof (cases op)
    case (BmSnapshot inp)
    assume "bm_get (bmStep L sha m op) t = Some b"
    moreover have "book_ok L sha (managerSnapshot L inp c)" for c
      unfolding managerSnapshot_def by (rule book_ok_replace) (use assms(2) BmSnapshot in simp)
    ultimately show ?thesis using get bookFor_ok [OF assms(1), of t] book_ok_getStateHash getStateHash_fields
      by (auto simp: BmSnapshot bm_get_snapshot managerSnapshot_def replaceWithSnapshot_fields split: if_splits)
  next
    case (BmDelta inp opt)
    assume *: "bm_get (bmStep L sha m op) t = Some b"
    show ?thesis
    proof (cases "\<not> opt_canApply opt \<or> \<not> validAt m (xd_marketTicker inp)")
      case True
      then show ?thesis using * get bookFor_ok [OF assms(1), of t]
        by (auto simp: BmDelta bm_applyDelta_skip(3) split: if_splits)
    next
      case False
      then have "opt_canApply opt" "validAt m (xd_marketTicker inp)" by simp_all
      note ap = bm_applyDelta_apply(3) [OF this]
      show ?thesis using * get bookFor_ok [OF assms(1), of t] assms(2)
        by (auto simp: BmDelta ap applyDelta_ticker book_ok_applyDelta managerDelta_def split: if_splits)
    qed
  qed (use get in \<open>auto simp: book_ok_invalidate split: if_splits\<close>)
  then show ?thesis using assms(1) keys_bmStep by (simp add: manager_ok_def)
qed

lemma bm_stepper: "stepper (bmStep L sha) bm_op_ok (manager_ok L sha)"
  by unfold_locales (rule bmStep_ok)

sublocale bm_run: stepper "bmStep L sha" bm_op_ok "manager_ok L sha" for sha
  by (rule bm_stepper)

end

section \<open>Properties\<close>

text \<open>
  C16: After a stream is invalidated, none of the books it carries is valid and the others are
  untouched; from then on, whatever operations follow, a market that is valid again has had a
  snapshot of its own among them.
\<close>
theorem only_snapshot_revalidates:
  "let (affected, m') = invalidateStream s reason m
   in affected = marketsForStream m s \<and> (\<forall>t \<in> set affected. \<not> validAt m' t) \<and>
      (\<forall>t. t \<notin> set affected \<longrightarrow> bm_get m' t = bm_get m t) \<and>
      (\<forall>t \<in> set affected. \<forall>ops. validAt (foldl (bmStep L sha) m' ops) t \<longrightarrow>
         (\<exists>inp. BmSnapshot inp \<in> set ops \<and> xs_marketTicker inp = t))"
proof -
  have inv: "\<not> validAt (snd (invalidateStream s reason m)) t" if "t \<in> set (marketsForStream m s)" for t
    using that by (auto simp: validAt_def invalidate_def split: option.split)
  have "\<exists>inp. BmSnapshot inp \<in> set ops \<and> xs_marketTicker inp = t"
    if t: "t \<in> set (marketsForStream m s)" and v: "validAt (foldl (bmStep L sha) (snd (invalidateStream s reason m)) ops) t" for t ops
  proof -
    obtain op where op: "op \<in> set ops" "snapshotOf op = Some t" using bmRun_valid [OF v inv [OF t]] by blast
    from op(2) obtain inp where "op = BmSnapshot inp" "xs_marketTicker inp = t" by (cases op) auto
    then show ?thesis using op(1) by blast
  qed
  moreover have "fst (invalidateStream s reason m) = marketsForStream m s"
    by (simp add: invalidateStream_def Let_def)
  ultimately show ?thesis using inv by (simp add: case_prod_unfold Let_def)
qed

definition wit_xs :: snapshot_apply_input where
  "wit_xs = \<lparr>xs_marketTicker = ''MKT'', xs_marketId = None, xs_yesBids = [(1/2, 3)], xs_noBids = [(2/5, 7)],
     xs_seq = Some 1, xs_sid = None, xs_sessionId = ''S'', xs_streamId = ''ST'', xs_source = WsInitial,
     xs_receivedAt = 100, xs_receivedAtMs = 100\<rparr>"

definition wit_xd :: delta_input where
  "wit_xd = \<lparr>xd_marketTicker = ''MKT'', xd_marketId = None, xd_side = Yes, xd_price = 1/2, xd_delta = - 3,
     xd_seq = 2, xd_sid = None, xd_sessionId = ''S'', xd_streamId = ''ST'', xd_exchangeTsMs = None,
     xd_receivedAt = 110, xd_receivedAtMs = 110\<rparr>"

definition wit_manager :: book_manager where
  "wit_manager = bmStep std_dlib id newBookManager (BmSnapshot wit_xs)"

lemma wit_manager_markets: "marketsForStream wit_manager ''ST'' = [''MKT'']"
  by (simp add: wit_manager_def wit_xs_def bm_applySnapshot_def Let_def case_prod_unfold newBookManager_def
      getOrCreate_def bm_get_def putBook_def associate_def marketsForStream_def set_add_def)

theorem only_snapshot_revalidates_witness:
  "\<not> validAt (snd (invalidateStream ''ST'' ''gap'' wit_manager)) ''MKT'' \<and>
   \<not> validAt (bmStep std_dlib id (snd (invalidateStream ''ST'' ''gap'' wit_manager))
      (BmDelta wit_xd \<lparr>opt_canApply = True, opt_skipReason = None\<rparr>)) ''MKT''"
proof -
  let ?op = "BmDelta wit_xd \<lparr>opt_canApply = True, opt_skipReason = None\<rparr>"
  let ?m = "snd (invalidateStream ''ST'' ''gap'' wit_manager)"
  have n: "''MKT'' \<in> set (marketsForStream wit_manager ''ST'')" by (simp add: wit_manager_markets)
  have *: "\<forall>t \<in> set (marketsForStream wit_manager ''ST''). \<not> validAt ?m t \<and> (\<forall>ops. validAt (foldl (bmStep std_dlib id) ?m ops) t \<longrightarrow>
         (\<exists>inp. BmSnapshot inp \<in> set ops \<and> xs_marketTicker inp = t))"
    using only_snapshot_revalidates [of "''ST''" "''gap''" wit_manager std_dlib id]
    by (auto simp: case_prod_unfold Let_def)
  have "\<not> validAt (foldl (bmStep std_dlib id) ?m [?op]) ''MKT''"
    using * [THEN bspec, OF n, THEN conjunct2, THEN spec, of "[?op]"] by auto
  then show ?thesis using * [THEN bspec, OF n] by simp
qed

text \<open>
  C25: A delta reaches the book exactly when the caller may apply it and the book is valid; then the
  outcome and the new book are those of the book's own \<open>applyDelta\<close>. Otherwise no book changes
  beyond the creation of an empty invalid one for an unknown ticker. Either way one row is produced
  whose \<open>applied\<close> cell tells which happened, and recovery is asked for exactly when it was not
  applied.
\<close>
theorem delta_gated:
  "let (out, m') = bm_applyDelta L inp opt m; t = xd_marketTicker inp;
       gate = (opt_canApply opt \<and> validAt m t);
       own = applyDelta L (xd_receivedAtMs inp) (managerDelta inp) (bookFor m t)
   in (gate \<longrightarrow> do_result out = fst own) \<and> (\<not> gate \<longrightarrow> \<not> dr_applied (do_result out)) \<and>
      (\<forall>t'. bm_get m' t' = (if t' = t then Some (if gate then snd own else bookFor m t) else bm_get m t')) \<and>
      do_needsRecovery out = (\<not> dr_applied (do_result out)) \<and>
      js_get (nr_values (do_row out)) ''applied'' = Some (CBool (dr_applied (do_result out)))"
proof (cases "opt_canApply opt \<and> validAt m (xd_marketTicker inp)")
  case True
  then have "opt_canApply opt" "validAt m (xd_marketTicker inp)" by simp_all
  note ap = bm_applyDelta_apply [OF this, where L = L]
  show ?thesis using True ap by (simp add: case_prod_unfold Let_def)
next
  case False
  then have "\<not> opt_canApply opt \<or> \<not> validAt m (xd_marketTicker inp)" by simp
  note sk = bm_applyDelta_skip [OF this, where L = L]
  show ?thesis using False sk by (auto simp: case_prod_unfold Let_def)
qed

theorem delta_gated_witness:
  "\<not> dr_applied (do_result (fst (bm_applyDelta std_dlib wit_xd
     \<lparr>opt_canApply = False, opt_skipReason = Some ''stream degraded''\<rparr> wit_manager)))"
  using delta_gated [of std_dlib wit_xd "\<lparr>opt_canApply = False, opt_skipReason = Some ''stream degraded''\<rparr>" wit_manager]
  by (simp add: case_prod_unfold Let_def)

end
