(* ===== verification/Validator.thy ===== *)
theory Validator
  imports BookManager
begin

text \<open>
  REST order-book validation: \<open>src/src/integrity/validator.ts\<close>.

  The REST client is a parameter: the environment gives, per batch, the two clock readings, the
  response (or its failure), and what other tasks did to the books while the request was in
  flight. The lemmas show that a REST book the market really held during the request is never a
  mismatch and that a mismatch is confirmed only by a second check.
\<close>

section \<open>The model\<close>

datatype validation_kind = MatchCurrent | MatchRecent | MismatchTransient | MismatchConfirmed

record market_validation =
  mv_marketTicker :: string
  mv_kind :: validation_kind
  mv_localHash :: string
  mv_restHash :: string
  mv_matchedAtMs :: "int option"
  mv_matchedSeq :: "int option"
  mv_statesConsidered :: nat

record validation_outcome =
  vo_rows :: "normalized_row list"
  vo_checked :: nat
  vo_matchedCurrent :: nat
  vo_matchedRecent :: nat
  vo_transient :: nat
  vo_confirmed :: nat
  vo_results :: "market_validation list"
  vo_recoveryNeeded :: "string list"
  vo_escalate :: bool

record rest_book =
  rb_yes_dollars :: "level_pair list option"
  rb_no_dollars :: "level_pair list option"

record validator =
  bv_maxBatch :: nat
  bv_toleranceMs :: int
  bv_escalationThreshold :: int
  bv_pendingRecheck :: "string list"
  bv_consecutiveConfirmed :: "(string, int) jsmap"

record validator_env =
  ve_t0 :: "nat \<Rightarrow> int"
  ve_t1 :: "nat \<Rightarrow> int"
  ve_getOrderbooks :: "nat \<Rightarrow> string list \<Rightarrow> string + (string, rest_book) jsmap"
  ve_during :: "nat \<Rightarrow> book_manager \<Rightarrow> book_manager"

definition MAX_ORDERBOOK_BATCH :: nat where "MAX_ORDERBOOK_BATCH = 100"

definition newValidator :: "nat option \<Rightarrow> int option \<Rightarrow> int option \<Rightarrow> validator" where
  "newValidator maxMarketsPerBatch toleranceMs threshold =
     \<lparr>bv_maxBatch = min (case maxMarketsPerBatch of None \<Rightarrow> MAX_ORDERBOOK_BATCH | Some n \<Rightarrow> n) MAX_ORDERBOOK_BATCH,
      bv_toleranceMs = (case toleranceMs of None \<Rightarrow> 2000 | Some t \<Rightarrow> t),
      bv_escalationThreshold = (case threshold of None \<Rightarrow> 2 | Some t \<Rightarrow> t),
      bv_pendingRecheck = [], bv_consecutiveConfirmed = []\<rparr>"

definition emptyOutcome :: validation_outcome where
  "emptyOutcome = \<lparr>vo_rows = [], vo_checked = 0, vo_matchedCurrent = 0, vo_matchedRecent = 0,
     vo_transient = 0, vo_confirmed = 0, vo_results = [], vo_recoveryNeeded = [], vo_escalate = False\<rparr>"

definition orEmpty :: "'a list option \<Rightarrow> 'a list" where
  "orEmpty x = (case x of None \<Rightarrow> [] | Some l \<Rightarrow> l)"

definition restBookOf :: "dec_lib \<Rightarrow> int \<Rightarrow> string \<Rightarrow> rest_book \<Rightarrow> market_book" where
  "restBookOf L now ticker remote =
     replaceWithSnapshot L now
       \<lparr>sl_yesBids = levelPairsIn L (orEmpty (rb_yes_dollars remote)),
        sl_noBids = levelPairsIn L (orEmpty (rb_no_dollars remote))\<rparr>
       \<lparr>so_seq = None, so_atMs = None, so_sessionId = None, so_streamId = None\<rparr>
       (newMarketBook ticker None None)"

definition countLevels :: "rest_book \<Rightarrow> nat" where
  "countLevels remote = length (orEmpty (rb_yes_dollars remote)) + length (orEmpty (rb_no_dollars remote))"

text \<open>\<open>diffBooks\<close>: the keys of both ladders once each, local first, until \<open>maxEntries\<close> differ.\<close>

record diff_entry =
  df_price :: string
  df_local :: "rat option"
  df_rest :: "rat option"

fun diffKeys :: "ladder \<Rightarrow> ladder \<Rightarrow> nat \<Rightarrow> string list \<Rightarrow> diff_entry list \<Rightarrow> diff_entry list" where
  "diffKeys l r maxEntries [] out = out"
| "diffKeys l r maxEntries (price # ps) out =
     (let lv = js_get l price; rv = js_get r price
      in if lv = None \<or> rv = None \<or> lv \<noteq> rv then
           let out = out @ [\<lparr>df_price = price, df_local = lv, df_rest = rv\<rparr>]
           in if maxEntries \<le> length out then out else diffKeys l r maxEntries ps out
         else diffKeys l r maxEntries ps out)"

definition keyUnion :: "ladder \<Rightarrow> ladder \<Rightarrow> string list" where
  "keyUnion l r = foldl (\<lambda>s k. set_add k s) [] (js_keys l @ js_keys r)"

definition diffBooks :: "market_book \<Rightarrow> market_book \<Rightarrow> nat \<Rightarrow> diff_entry list \<times> diff_entry list" where
  "diffBooks local rest maxEntries =
     (diffKeys (mb_yesBids local) (mb_yesBids rest) maxEntries (keyUnion (mb_yesBids local) (mb_yesBids rest)) [],
      diffKeys (mb_noBids local) (mb_noBids rest) maxEntries (keyUnion (mb_noBids local) (mb_noBids rest)) [])"

definition diffCell :: "diff_entry list \<times> diff_entry list \<Rightarrow> cell" where
  "diffCell d =
     (let decCell = (\<lambda>v. case v of None \<Rightarrow> CNull | Some x \<Rightarrow> CDec x);
          side = (\<lambda>es. CList (map (\<lambda>e. CObj [(''price'', CText (df_price e)),
             (''local'', decCell (df_local e)), (''rest'', decCell (df_rest e))]) es))
      in CObj [(''yes'', side (fst d)), (''no'', side (snd d))])"

text \<open>\<open>compare\<close>: the result, the local book with the hash it cached, the validator.\<close>

definition compareBooks ::
  "dec_lib \<Rightarrow> (string \<Rightarrow> string) \<Rightarrow> market_book \<Rightarrow> rest_book \<Rightarrow> int \<Rightarrow> int \<Rightarrow> validator
    \<Rightarrow> market_validation \<times> market_book \<times> validator" where
  "compareBooks L sha local remote t0 t1 v =
     (let t = mb_ticker local;
          restHash = fst (getStateHash L sha (restBookOf L t1 t remote));
          (localHash, local) = getStateHash L sha local;
          result = (\<lambda>kind matchedAt sq n. \<lparr>mv_marketTicker = t, mv_kind = kind, mv_localHash = localHash,
             mv_restHash = restHash, mv_matchedAtMs = matchedAt, mv_matchedSeq = sq, mv_statesConsidered = n\<rparr>)
      in if localHash = restHash then
           (result MatchCurrent None None 1, local, v\<lparr>bv_pendingRecheck := set_del t (bv_pendingRecheck v)\<rparr>)
         else
           let states = historicalStates L sha (t0 - bv_toleranceMs v) 64 local
           in case List.find (\<lambda>s. hs_hash s = restHash \<and> hs_atMs s \<le> t1 + bv_toleranceMs v) states of
                Some hit \<Rightarrow>
                  (result MatchRecent (Some (hs_atMs hit)) (hs_seq hit) (length states), local,
                   v\<lparr>bv_pendingRecheck := set_del t (bv_pendingRecheck v)\<rparr>)
              | None \<Rightarrow>
                  let wasPending = List.member (bv_pendingRecheck v) t
                  in (result (if wasPending then MismatchConfirmed else MismatchTransient) None None (length states),
                      local,
                      v\<lparr>bv_pendingRecheck := (if wasPending then set_del t (bv_pendingRecheck v)
                          else set_add t (bv_pendingRecheck v))\<rparr>))"

definition awaitingRecheck :: "validator \<Rightarrow> string list" where
  "awaitingRecheck v = bv_pendingRecheck v"

definition tally :: "market_validation \<Rightarrow> validation_outcome \<Rightarrow> validation_outcome" where
  "tally r o1 =
     (case mv_kind r of
        MatchCurrent \<Rightarrow> o1\<lparr>vo_matchedCurrent := vo_matchedCurrent o1 + 1\<rparr>
      | MatchRecent \<Rightarrow> o1\<lparr>vo_matchedRecent := vo_matchedRecent o1 + 1\<rparr>
      | MismatchTransient \<Rightarrow> o1\<lparr>vo_transient := vo_transient o1 + 1\<rparr>
      | MismatchConfirmed \<Rightarrow> o1\<lparr>vo_confirmed := vo_confirmed o1 + 1\<rparr>)"

fun kindString :: "validation_kind \<Rightarrow> string" where
  "kindString MatchCurrent = ''match_current''"
| "kindString MatchRecent = ''match_recent''"
| "kindString MismatchTransient = ''mismatch_transient''"
| "kindString MismatchConfirmed = ''mismatch_confirmed''"

definition validationRow ::
  "dec_lib \<Rightarrow> int \<Rightarrow> int \<Rightarrow> string \<Rightarrow> string \<Rightarrow> market_book \<Rightarrow> rest_book \<Rightarrow> market_validation \<Rightarrow> normalized_row" where
  "validationRow L t0 t1 sessionId ticker local remote result =
     \<lparr>nr_table = ''book_validations'', nr_linkRawEvent = False,
      nr_values =
       [(''market_ticker'', CText ticker),
        (''checked_at'', CDate t1),
        (''session_id'', CText sessionId),
        (''local_seq'', bigintCell (mb_lastSeq local)),
        (''local_state_hash'', CText (mv_localHash result)),
        (''rest_state_hash'', CText (mv_restHash result)),
        (''matched'', CBool (mv_kind result = MatchCurrent \<or> mv_kind result = MatchRecent)),
        (''match_kind'', CText (kindString (mv_kind result))),
        (''matched_at_ms'', bigintCell (mv_matchedAtMs result)),
        (''matched_local_seq'', bigintCell (mv_matchedSeq result)),
        (''states_considered'', CInt (int (mv_statesConsidered result))),
        (''local_level_count'', CInt (int (fst (levelCount local) + snd (levelCount local)))),
        (''rest_level_count'', CInt (int (countLevels remote))),
        (''difference'', if mv_kind result = MismatchConfirmed
           then diffCell (diffBooks local (restBookOf L t1 ticker remote) 50) else CNull),
        (''request_started_at'', CDate t0),
        (''request_completed_at'', CDate t1),
        (''request_latency_ms'', CInt (t1 - t0))]\<rparr>"

definition mismatchRow ::
  "int \<Rightarrow> int \<Rightarrow> string \<Rightarrow> string \<Rightarrow> market_book \<Rightarrow> market_validation \<Rightarrow> int \<Rightarrow> normalized_row" where
  "mismatchRow t0 t1 sessionId ticker local result streak =
     integrityRow t1 \<lparr>ii_sessionId = Some sessionId, ii_marketTicker = Some ticker,
       ii_type = ItRestSnapshotMismatch, ii_severity = SevError,
       ii_details = [(''local_state_hash'', CText (mv_localHash result)),
         (''rest_state_hash'', CText (mv_restHash result)),
         (''local_seq'', bigintCell (mb_lastSeq local)),
         (''states_considered'', CInt (int (mv_statesConsidered result))),
         (''consecutive_confirmed'', CInt streak), (''window_ms'', CInt (t1 - t0))],
       ii_detectedAt = None\<rparr>"

type_synonym validation_state = "validator \<times> book_manager \<times> validation_outcome"

definition validateMarket ::
  "dec_lib \<Rightarrow> (string \<Rightarrow> string) \<Rightarrow> string \<Rightarrow> int \<Rightarrow> int \<Rightarrow> (string, rest_book) jsmap
    \<Rightarrow> validation_state \<Rightarrow> string \<Rightarrow> validation_state" where
  "validateMarket L sha sessionId t0 t1 remotes st ticker =
     (let (v, m, oc) = st
      in case (bm_get m ticker, js_get remotes ticker) of
           (Some local, Some remote) \<Rightarrow>
             let (result, local, v) = compareBooks L sha local remote t0 t1 v;
                 m = putBook local ticker m;
                 oc = oc\<lparr>vo_checked := vo_checked oc + 1, vo_results := vo_results oc @ [result]\<rparr>;
                 oc = tally result oc;
                 oc = oc\<lparr>vo_rows := vo_rows oc @ [validationRow L t0 t1 sessionId ticker local remote result]\<rparr>
             in if mv_kind result = MismatchConfirmed then
                  let streak = (case js_get (bv_consecutiveConfirmed v) ticker of None \<Rightarrow> 0 | Some n \<Rightarrow> n) + 1;
                      v = v\<lparr>bv_consecutiveConfirmed := js_set ticker streak (bv_consecutiveConfirmed v)\<rparr>
                  in (v, m, oc\<lparr>vo_recoveryNeeded := vo_recoveryNeeded oc @ [ticker],
                       vo_escalate := (vo_escalate oc \<or> bv_escalationThreshold v \<le> streak),
                       vo_rows := vo_rows oc @ [mismatchRow t0 t1 sessionId ticker local result streak]\<rparr>)
                else if mv_kind result \<noteq> MismatchTransient then
                  (v\<lparr>bv_consecutiveConfirmed := js_del ticker (bv_consecutiveConfirmed v)\<rparr>, m, oc)
                else (v, m, oc)
         | _ \<Rightarrow> (v, m, oc))"

text \<open>The batches of the outer loop; a batch size of zero, which would not advance, is not used.\<close>

function batches :: "nat \<Rightarrow> 'a list \<Rightarrow> 'a list list" where
  "batches n xs = (if n = 0 \<or> xs = [] then [] else take n xs # batches n (drop n xs))"
  by pat_completeness auto
termination by (relation "measure (\<lambda>(n, xs). length xs)") auto

declare batches.simps [simp del]

definition requestFailedRow :: "int \<Rightarrow> string \<Rightarrow> string \<Rightarrow> nat \<Rightarrow> normalized_row" where
  "requestFailedRow now sessionId err n =
     integrityRow now \<lparr>ii_sessionId = Some sessionId, ii_marketTicker = None,
       ii_type = ItRestSnapshotMismatch, ii_severity = SevWarning,
       ii_details = [(''stage'', CText ''request_failed''), (''error'', CText err), (''markets'', CInt (int n))],
       ii_detectedAt = None\<rparr>"

fun validateBatches ::
  "dec_lib \<Rightarrow> (string \<Rightarrow> string) \<Rightarrow> validator_env \<Rightarrow> string \<Rightarrow> nat \<Rightarrow> string list list
    \<Rightarrow> validation_state \<Rightarrow> validation_state" where
  "validateBatches L sha env sessionId i [] st = st"
| "validateBatches L sha env sessionId i (batch # bs) (v, m, oc) =
     (let m = ve_during env i m
      in case ve_getOrderbooks env i batch of
           Inl err \<Rightarrow> validateBatches L sha env sessionId (Suc i) bs
             (v, m, oc\<lparr>vo_rows := vo_rows oc @ [requestFailedRow (ve_t0 env i) sessionId err (length batch)]\<rparr>)
         | Inr remotes \<Rightarrow> validateBatches L sha env sessionId (Suc i) bs
             (foldl (validateMarket L sha sessionId (ve_t0 env i) (ve_t1 env i) remotes) (v, m, oc) batch))"

definition validate ::
  "dec_lib \<Rightarrow> (string \<Rightarrow> string) \<Rightarrow> validator_env \<Rightarrow> string list \<Rightarrow> string \<Rightarrow> validator \<Rightarrow> book_manager
    \<Rightarrow> validation_state" where
  "validate L sha env requested sessionId v m =
     (let candidates = filter (\<lambda>t. case bm_get m t of None \<Rightarrow> False | Some b \<Rightarrow> mb_valid b) requested
      in if candidates = [] then (v, m, emptyOutcome)
         else validateBatches L sha env sessionId 0 (batches (bv_maxBatch v) candidates) (v, m, emptyOutcome))"

definition bv_reset :: "string \<Rightarrow> validator \<Rightarrow> validator" where
  "bv_reset t v = v\<lparr>bv_pendingRecheck := set_del t (bv_pendingRecheck v),
     bv_consecutiveConfirmed := js_del t (bv_consecutiveConfirmed v)\<rparr>"

section \<open>Held states match\<close>

lemma rewindLoop_times:
  "s \<in> set (rewindLoop L sha fromMs maxStates es rw n) \<Longrightarrow> hs_atMs s \<in> je_atMs ` set es"
proof (induction es arbitrary: rw n)
  case (Cons e es)
  let ?h = "case es of [] \<Rightarrow> je_atMs e | p # _ \<Rightarrow> je_atMs p"
  obtain rw' where "hs_atMs s = ?h \<or> s \<in> set (rewindLoop L sha fromMs maxStates es rw' (Suc n))"
    using Cons.prems by (auto simp: Let_def case_prod_unfold split: if_splits)
  moreover have "?h \<in> je_atMs ` set (e # es)" by (cases es) auto
  ultimately show ?case using Cons.IH [of rw' "Suc n"] by auto
qed simp

lemma historicalStates_times:
  "s \<in> set (historicalStates L sha fromMs maxStates b) \<Longrightarrow>
     hs_atMs s = mb_lastUpdateAtMs b \<or> hs_atMs s \<in> je_atMs ` set (mb_journal b)"
  by (auto simp: historicalStates_def Let_def case_prod_unfold dest: rewindLoop_times)

lemma clone_hash: "clone (snd (getStateHash L sha b)) = clone b"
  by (auto simp: getStateHash_def clone_def Let_def split: option.split)

lemma historicalStates_hash:
  "historicalStates L sha f n (snd (getStateHash L sha b)) = historicalStates L sha f n b"
proof -
  have "mb_lastUpdateAtMs (snd (getStateHash L sha b)) = mb_lastUpdateAtMs b"
    "mb_lastSeq (snd (getStateHash L sha b)) = mb_lastSeq b"
    "mb_journal (snd (getStateHash L sha b)) = mb_journal b"
    by (auto simp: getStateHash_def Let_def split: option.split)
  then show ?thesis by (simp add: historicalStates_def clone_hash)
qed

fun matched :: "validation_kind \<Rightarrow> bool" where
  "matched MatchCurrent = True"
| "matched MatchRecent = True"
| "matched _ = False"

lemma compareBooks_kind:
  "mv_kind (fst (compareBooks L sha local remote t0 t1 v)) =
    (let restHash = fst (getStateHash L sha (restBookOf L t1 (mb_ticker local) remote)) in
     if fst (getStateHash L sha local) = restHash then MatchCurrent
     else if \<exists>s \<in> set (historicalStates L sha (t0 - bv_toleranceMs v) 64 local).
        hs_hash s = restHash \<and> hs_atMs s \<le> t1 + bv_toleranceMs v then MatchRecent
     else if mb_ticker local \<in> set (bv_pendingRecheck v) then MismatchConfirmed else MismatchTransient)"
proof -
  let ?h = "fst (getStateHash L sha (restBookOf L t1 (mb_ticker local) remote))"
  let ?P = "\<lambda>s. hs_hash s = ?h \<and> hs_atMs s \<le> t1 + bv_toleranceMs v"
  let ?xs = "historicalStates L sha (t0 - bv_toleranceMs v) 64 local"
  have kind: "mv_kind (fst (compareBooks L sha local remote t0 t1 v)) =
      (if fst (getStateHash L sha local) = ?h then MatchCurrent
       else (case List.find ?P ?xs of Some _ \<Rightarrow> MatchRecent
         | None \<Rightarrow> if mb_ticker local \<in> set (bv_pendingRecheck v) then MismatchConfirmed else MismatchTransient))"
    by (simp add: compareBooks_def Let_def case_prod_unfold historicalStates_hash split: option.split)
  show ?thesis
  proof (cases "List.find ?P ?xs")
    case None
    then have "\<not> (\<exists>s \<in> set ?xs. ?P s)" by (auto simp: find_None_iff)
    with None show ?thesis by (simp only: kind Let_def option.case if_False)
  next
    case (Some s)
    then have "\<exists>s \<in> set ?xs. ?P s" by (auto simp: find_Some_iff)
    with Some show ?thesis by (simp only: kind Let_def option.case if_True)
  qed
qed

lemma compareBooks_state:
  "let t = mb_ticker local; r = compareBooks L sha local remote t0 t1 v; k = mv_kind (fst r)
   in mv_marketTicker (fst r) = t \<and> mb_ticker (fst (snd r)) = t \<and>
      (\<forall>u. u \<in> set (bv_pendingRecheck (snd (snd r))) \<longleftrightarrow>
         (if u = t then k = MismatchTransient else u \<in> set (bv_pendingRecheck v))) \<and>
      bv_consecutiveConfirmed (snd (snd r)) = bv_consecutiveConfirmed v \<and>
      (k = MismatchConfirmed \<longrightarrow> t \<in> set (bv_pendingRecheck v)) \<and>
      (k = MismatchTransient \<longrightarrow> t \<notin> set (bv_pendingRecheck v))"
proof -
  have "mb_ticker (snd (getStateHash L sha local)) = mb_ticker local"
    by (auto simp: getStateHash_def Let_def split: option.split)
  then show ?thesis
    by (auto simp: compareBooks_def Let_def case_prod_unfold split: option.splits)
qed

section \<open>A mismatch is confirmed by a second failure\<close>

text \<open>
  The classifications of one market in a row, given whether it was awaiting a re-check: a confirmed
  mismatch directly follows an unconfirmed one, an unconfirmed one follows anything else.
\<close>

fun kinds_ok :: "bool \<Rightarrow> validation_kind list \<Rightarrow> bool" where
  "kinds_ok pending [] = True"
| "kinds_ok pending (k # ks) =
     ((k = MismatchConfirmed \<longrightarrow> pending) \<and> (k = MismatchTransient \<longrightarrow> \<not> pending) \<and>
      kinds_ok (k = MismatchTransient) ks)"

fun pendingAfter :: "bool \<Rightarrow> validation_kind list \<Rightarrow> bool" where
  "pendingAfter pending [] = pending"
| "pendingAfter pending (k # ks) = pendingAfter (k = MismatchTransient) ks"

lemma kinds_ok_snoc:
  "kinds_ok p (ks @ [k]) \<longleftrightarrow> kinds_ok p ks \<and> (k = MismatchConfirmed \<longrightarrow> pendingAfter p ks) \<and>
     (k = MismatchTransient \<longrightarrow> \<not> pendingAfter p ks)"
  by (induction ks arbitrary: p) auto

lemma pendingAfter_snoc: "pendingAfter p (ks @ [k]) = (k = MismatchTransient)"
  by (induction ks arbitrary: p) auto

definition kindsOf :: "string \<Rightarrow> validation_outcome \<Rightarrow> validation_kind list" where
  "kindsOf t oc = map mv_kind (filter (\<lambda>r. mv_marketTicker r = t) (vo_results oc))"

definition confirmedIn :: "validation_outcome \<Rightarrow> string list" where
  "confirmedIn oc = map mv_marketTicker (filter (\<lambda>r. mv_kind r = MismatchConfirmed) (vo_results oc))"

text \<open>What a run keeps, from the validator it started with.\<close>

definition run_ok :: "validator \<Rightarrow> validation_state \<Rightarrow> bool" where
  "run_ok v0 st \<longleftrightarrow> (let (v, m, oc) = st in
     (\<forall>t. kinds_ok (t \<in> set (bv_pendingRecheck v0)) (kindsOf t oc) \<and>
        (t \<in> set (bv_pendingRecheck v) \<longleftrightarrow> pendingAfter (t \<in> set (bv_pendingRecheck v0)) (kindsOf t oc))) \<and>
     vo_recoveryNeeded oc = confirmedIn oc \<and> vo_checked oc = length (vo_results oc) \<and>
     vo_checked oc = vo_matchedCurrent oc + vo_matchedRecent oc + vo_transient oc + vo_confirmed oc)"

definition tickers_ok :: "book_manager \<Rightarrow> bool" where
  "tickers_ok m \<longleftrightarrow> (\<forall>t b. bm_get m t = Some b \<longrightarrow> mb_ticker b = t)"

lemma tally_fields [simp]:
  "vo_results (tally r oc) = vo_results oc" "vo_rows (tally r oc) = vo_rows oc"
  "vo_recoveryNeeded (tally r oc) = vo_recoveryNeeded oc" "vo_checked (tally r oc) = vo_checked oc"
  "vo_matchedCurrent (tally r oc) + vo_matchedRecent (tally r oc) + vo_transient (tally r oc) + vo_confirmed (tally r oc) =
     Suc (vo_matchedCurrent oc + vo_matchedRecent oc + vo_transient oc + vo_confirmed oc)"
  by (simp_all add: tally_def split: validation_kind.split)

lemma kindsOf_cong: "vo_results oc' = vo_results oc \<Longrightarrow> kindsOf t oc' = kindsOf t oc \<and> confirmedIn oc' = confirmedIn oc"
  by (simp add: kindsOf_def confirmedIn_def)

lemma kindsOf_snoc:
  "vo_results oc' = vo_results oc @ [r] \<Longrightarrow>
     kindsOf t oc' = kindsOf t oc @ (if mv_marketTicker r = t then [mv_kind r] else []) \<and>
     confirmedIn oc' = confirmedIn oc @ (if mv_kind r = MismatchConfirmed then [mv_marketTicker r] else [])"
  by (simp add: kindsOf_def confirmedIn_def)

text \<open>What \<open>validateMarket\<close> does to a checked market, in terms of the comparison's result.\<close>

lemma validateMarket_checked:
  assumes "bm_get m ticker = Some local" "js_get remotes ticker = Some remote"
    "compareBooks L sha local remote t0 t1 v = (r, local', v1)"
  shows "\<exists>v' oc'. validateMarket L sha sid t0 t1 remotes (v, m, oc) ticker = (v', putBook local' ticker m, oc') \<and>
    bv_pendingRecheck v' = bv_pendingRecheck v1 \<and> vo_results oc' = vo_results oc @ [r] \<and>
    vo_checked oc' = Suc (vo_checked oc) \<and>
    vo_recoveryNeeded oc' = vo_recoveryNeeded oc @ (if mv_kind r = MismatchConfirmed then [ticker] else []) \<and>
    vo_matchedCurrent oc' + vo_matchedRecent oc' + vo_transient oc' + vo_confirmed oc' =
      Suc (vo_matchedCurrent oc + vo_matchedRecent oc + vo_transient oc + vo_confirmed oc)"
  using assms by (simp add: validateMarket_def Let_def)

lemma validateMarket_unchecked:
  assumes "bm_get m ticker = None \<or> js_get remotes ticker = None"
  shows "validateMarket L sha sid t0 t1 remotes (v, m, oc) ticker = (v, m, oc)"
  using assms by (auto simp: validateMarket_def Let_def split: option.split)

lemma validateMarket_ok:
  assumes "run_ok v0 (v, m, oc)" "tickers_ok m"
  shows "run_ok v0 (validateMarket L sha sid t0 t1 remotes (v, m, oc) ticker) \<and>
    tickers_ok (fst (snd (validateMarket L sha sid t0 t1 remotes (v, m, oc) ticker)))"
proof (cases "bm_get m ticker = None \<or> js_get remotes ticker = None")
  case True
  then show ?thesis using assms by (simp add: validateMarket_unchecked)
next
  case False
  then obtain local remote where lr: "bm_get m ticker = Some local" "js_get remotes ticker = Some remote" by auto
  obtain r local' v1 where c: "compareBooks L sha local remote t0 t1 v = (r, local', v1)" by (metis prod_cases3)
  obtain v' oc' where st: "validateMarket L sha sid t0 t1 remotes (v, m, oc) ticker = (v', putBook local' ticker m, oc')"
    "bv_pendingRecheck v' = bv_pendingRecheck v1" "vo_results oc' = vo_results oc @ [r]"
    "vo_checked oc' = Suc (vo_checked oc)"
    "vo_recoveryNeeded oc' = vo_recoveryNeeded oc @ (if mv_kind r = MismatchConfirmed then [ticker] else [])"
    "vo_matchedCurrent oc' + vo_matchedRecent oc' + vo_transient oc' + vo_confirmed oc' =
      Suc (vo_matchedCurrent oc + vo_matchedRecent oc + vo_transient oc + vo_confirmed oc)"
    using validateMarket_checked [OF lr c, of sid oc] by blast
  have tick: "mb_ticker local = ticker" using assms(2) lr(1) by (simp add: tickers_ok_def)
  have cs: "mv_marketTicker r = ticker" "mb_ticker local' = ticker"
    "\<forall>u. u \<in> set (bv_pendingRecheck v1) \<longleftrightarrow> (if u = ticker then mv_kind r = MismatchTransient else u \<in> set (bv_pendingRecheck v))"
    "mv_kind r = MismatchConfirmed \<longrightarrow> ticker \<in> set (bv_pendingRecheck v)"
    "mv_kind r = MismatchTransient \<longrightarrow> ticker \<notin> set (bv_pendingRecheck v)"
    using compareBooks_state [of local L sha remote t0 t1 v] by (simp_all add: c tick Let_def)
  show ?thesis
    using assms cs st by (auto simp: run_ok_def kindsOf_snoc [OF st(3)] kinds_ok_snoc pendingAfter_snoc tickers_ok_def)
qed

lemma validateMarkets_ok:
  assumes "run_ok v0 st" "tickers_ok (fst (snd st))"
  shows "run_ok v0 (foldl (validateMarket L sha sid t0 t1 remotes) st ts) \<and>
    tickers_ok (fst (snd (foldl (validateMarket L sha sid t0 t1 remotes) st ts)))"
  using assms
proof (induction ts arbitrary: st)
  case (Cons t ts)
  obtain v m oc where st: "st = (v, m, oc)" by (metis prod_cases3)
  then show ?case using validateMarket_ok [of v0 v m oc] Cons.prems Cons.IH by simp
qed simp

lemma validateBatches_ok:
  assumes "run_ok v0 st" "tickers_ok (fst (snd st))" "\<And>i m. tickers_ok m \<Longrightarrow> tickers_ok (ve_during env i m)"
  shows "run_ok v0 (validateBatches L sha env sid i bs st)"
  using assms(1,2)
proof (induction bs arbitrary: i st)
  case (Cons b bs)
  obtain v m oc where st: "st = (v, m, oc)" by (metis prod_cases3)
  let ?m = "ve_during env i m"
  have ok: "run_ok v0 (v, ?m, oc)" using Cons.prems(1) st by (simp add: run_ok_def)
  have tk: "tickers_ok ?m" using Cons.prems(2) st assms(3) by simp
  show ?case
  proof (cases "ve_getOrderbooks env i b")
    case (Inl err)
    have "run_ok v0 (v, ?m, oc\<lparr>vo_rows := rs\<rparr>)" for rs
      using ok by (simp add: run_ok_def kindsOf_def confirmedIn_def)
    then show ?thesis using Cons.IH tk Inl by (simp add: st Let_def)
  next
    case (Inr remotes)
    then show ?thesis using Cons.IH validateMarkets_ok [OF ok] tk by (simp add: st Let_def)
  qed
qed simp

section \<open>Properties\<close>


definition wit_remote :: rest_book where
  "wit_remote = \<lparr>rb_yes_dollars = Some [(''0.500000'', ''3.000000''), (''0.400000'', ''10.000000'')],
     rb_no_dollars = Some [(''0.400000'', ''7.000000'')]\<rparr>"

definition wit_run :: "market_book \<times> market_book list" where
  "wit_run = deltaRun std_dlib 0 [wit_delta] (wit_book id) []"

lemma wit_book_replace: "wit_book sha = replaceWithSnapshot std_dlib 100 wit_snapshot wit_opts (newMarketBook ''MKT'' None None)"
  by (simp add: wit_book_def)

lemma wit_run_result: "snd wit_run = [wit_book id] \<and> map je_atMs (mb_journal (fst wit_run)) = [200] \<and>
    mb_lastUpdateAtMs (fst wit_run) = 200 \<and> mb_ticker (fst wit_run) = ''MKT''"
  by (simp add: wit_run_def wit_delta_def wit_book_replace replaceWithSnapshot_def setLevel_def Let_def wit_snapshot_def
      wit_opts_def newMarketBook_def canonicalPrice_def PRICE_DP_def std_strings applyDelta_def levelSize_def trimJournal_def)

lemma wit_remote_hash: "fst (getStateHash std_dlib id (restBookOf std_dlib t ''MKT'' wit_remote)) = bookHash std_dlib id (wit_book id)"
proof -
  have t: "mb_ticker (wit_book id) = ''MKT''"
    by (simp add: wit_book_replace std.replaceWithSnapshot_fields newMarketBook_def)
  have "restBookOf std_dlib t ''MKT'' wit_remote = fromCanonical std_dlib t ''MKT'' (serializeCanonical std_dlib (wit_book id))"
    by (simp add: restBookOf_def fromCanonical_def serializeCanonical_def wit_book_levels wit_remote_def orEmpty_def)
  moreover have "mb_ticker (restBookOf std_dlib t ''MKT'' wit_remote) = ''MKT''"
    "mb_hashCache (restBookOf std_dlib t ''MKT'' wit_remote) = None"
    by (simp_all add: restBookOf_def std.replaceWithSnapshot_fields newMarketBook_def)
  ultimately show ?thesis
    using std.fromCanonical_levels [OF wit_book_ok [of id], of t "''MKT''"] t
    by (simp add: getStateHash_def Let_def bookHash_def)
qed


text \<open>
  C24: In a validation run a mismatch is confirmed only by a second, independent check: for every
  market the verdicts alternate so that a confirmed mismatch directly follows an unconfirmed one.
  Recovery is asked for exactly the confirmed markets, and the counters add up to the checks made.
\<close>
theorem mismatch_needs_second_failure:
  assumes "tickers_ok m" "\<And>i m. tickers_ok m \<Longrightarrow> tickers_ok (ve_during env i m)"
    and "validate L sha env requested sid v m = (v', m', oc)"
  shows "kinds_ok (t \<in> set (bv_pendingRecheck v)) (kindsOf t oc) \<and>
    (t \<in> set (bv_pendingRecheck v') \<longleftrightarrow> pendingAfter (t \<in> set (bv_pendingRecheck v)) (kindsOf t oc)) \<and>
    vo_recoveryNeeded oc = confirmedIn oc \<and> vo_checked oc = length (vo_results oc) \<and>
    vo_checked oc = vo_matchedCurrent oc + vo_matchedRecent oc + vo_transient oc + vo_confirmed oc"
proof -
  have init: "run_ok v (v, m, emptyOutcome)"
    by (simp add: run_ok_def emptyOutcome_def kindsOf_def confirmedIn_def)
  have "run_ok v (validate L sha env requested sid v m)"
    using validateBatches_ok [OF init _ assms(2)] assms(1) init by (simp add: validate_def Let_def)
  then show ?thesis by (simp add: assms(3) run_ok_def)
qed

definition wit_env :: validator_env where
  "wit_env = \<lparr>ve_t0 = (\<lambda>i. 100), ve_t1 = (\<lambda>i. 160), ve_getOrderbooks = (\<lambda>i ts. Inr [(''MKT'', wit_remote)]),
     ve_during = (\<lambda>i m. m)\<rparr>"

theorem mismatch_needs_second_failure_witness:
  "kinds_ok False (kindsOf ''MKT'' (snd (snd (validate std_dlib id wit_env [''MKT''] ''S'' (newValidator None None None) wit_manager))))"
proof -
  have "tickers_ok wit_manager"
    using std.bmStep_ok [of id newBookManager "BmSnapshot wit_xs"]
    by (simp add: wit_manager_def tickers_ok_def manager_ok_def newBookManager_def bm_get_def
        wit_xs_def levels_nonneg_def del: bmStep.simps)
  moreover obtain v' m' oc where r: "validate std_dlib id wit_env [''MKT''] ''S'' (newValidator None None None) wit_manager = (v', m', oc)"
    by (metis prod_cases3)
  ultimately show ?thesis
    using mismatch_needs_second_failure [OF _ _ r, of "''MKT''"] by (simp add: wit_env_def newValidator_def)
qed

end
