(* ===== verification/Sequence.thy ===== *)
theory Sequence
  imports Prelude
begin

text \<open>
  Per-stream sequence validation: \<open>src/src/integrity/sequenceTracker.ts\<close>, with the set of sequenced
  channels of \<open>src/src/kalshi/schemas.ts\<close>.

  A tracker maps stream ids to their state. The lemmas follow one stream through any list of
  observations: what is accepted is a contiguous run of sequence numbers, one discontinuity is one
  gap, and the streams do not influence each other.
\<close>

section \<open>The model\<close>

datatype verdict = VOk | VFirst | VDuplicate | VOutOfOrder | VGap | VUnsequenced | VDegraded

record sequence_result =
  sr_verdict :: verdict
  sr_expectedSeq :: "int option"
  sr_receivedSeq :: "int option"
  sr_missingCount :: "int option"

record stream_sequence_state =
  ss_streamId :: string
  ss_channel :: string
  ss_firstSeq :: "int option"
  ss_lastSeq :: "int option"
  ss_gapCount :: nat
  ss_duplicateCount :: nat
  ss_outOfOrderCount :: nat
  ss_messageCount :: nat
  ss_degraded :: bool
  ss_skippedWhileDegraded :: nat

type_synonym sequence_tracker = "(string, stream_sequence_state) jsmap"

definition SEQUENCED_CHANNELS :: "string list" where
  "SEQUENCED_CHANNELS = [''orderbook_delta'', ''trade'', ''fill'', ''market_lifecycle_v2'']"

definition isSequencedChannel :: "string option \<Rightarrow> bool" where
  "isSequencedChannel channel =
     (case channel of None \<Rightarrow> False | Some c \<Rightarrow> List.member SEQUENCED_CHANNELS c)"

definition newStreamState :: "string \<Rightarrow> string \<Rightarrow> stream_sequence_state" where
  "newStreamState streamId channel =
     \<lparr>ss_streamId = streamId, ss_channel = channel, ss_firstSeq = None, ss_lastSeq = None,
      ss_gapCount = 0, ss_duplicateCount = 0, ss_outOfOrderCount = 0, ss_messageCount = 0,
      ss_degraded = False, ss_skippedWhileDegraded = 0\<rparr>"

definition st_register ::
  "string \<Rightarrow> string \<Rightarrow> sequence_tracker \<Rightarrow> stream_sequence_state \<times> sequence_tracker" where
  "st_register streamId channel tr =
     (case js_get tr streamId of
        Some st \<Rightarrow> (st, tr)
      | None \<Rightarrow> let st = newStreamState streamId channel in (st, js_set streamId st tr))"

definition st_all :: "sequence_tracker \<Rightarrow> stream_sequence_state list" where
  "st_all tr = map snd tr"

text \<open>The body of \<open>observe\<close> after the registration, on the state of the stream.\<close>

definition classify ::
  "string \<Rightarrow> int option \<Rightarrow> stream_sequence_state \<Rightarrow> sequence_result \<times> stream_sequence_state" where
  "classify channel seq st0 =
     (let st = st0\<lparr>ss_messageCount := ss_messageCount st0 + 1\<rparr>
      in case (if isSequencedChannel (Some channel) then seq else None) of
        None \<Rightarrow> (\<lparr>sr_verdict = VUnsequenced, sr_expectedSeq = None, sr_receivedSeq = None,
                  sr_missingCount = None\<rparr>, st)
      | Some received \<Rightarrow>
          if ss_degraded st then
            (\<lparr>sr_verdict = VDegraded, sr_expectedSeq = map_option (\<lambda>l. l + 1) (ss_lastSeq st),
              sr_receivedSeq = Some received, sr_missingCount = None\<rparr>,
             st\<lparr>ss_skippedWhileDegraded := ss_skippedWhileDegraded st + 1\<rparr>)
          else (case ss_lastSeq st of
            None \<Rightarrow>
              (\<lparr>sr_verdict = VFirst, sr_expectedSeq = None, sr_receivedSeq = Some received,
                sr_missingCount = None\<rparr>,
               st\<lparr>ss_firstSeq := Some received, ss_lastSeq := Some received\<rparr>)
          | Some lastSeq \<Rightarrow>
              let expected = lastSeq + 1 in
              if received = expected then
                (\<lparr>sr_verdict = VOk, sr_expectedSeq = Some expected, sr_receivedSeq = Some received,
                  sr_missingCount = None\<rparr>, st\<lparr>ss_lastSeq := Some received\<rparr>)
              else if received = lastSeq then
                (\<lparr>sr_verdict = VDuplicate, sr_expectedSeq = Some expected, sr_receivedSeq = Some received,
                  sr_missingCount = None\<rparr>, st\<lparr>ss_duplicateCount := ss_duplicateCount st + 1\<rparr>)
              else if received < lastSeq then
                (\<lparr>sr_verdict = VOutOfOrder, sr_expectedSeq = Some expected, sr_receivedSeq = Some received,
                  sr_missingCount = None\<rparr>, st\<lparr>ss_outOfOrderCount := ss_outOfOrderCount st + 1\<rparr>)
              else
                (\<lparr>sr_verdict = VGap, sr_expectedSeq = Some expected, sr_receivedSeq = Some received,
                  sr_missingCount = Some (received - expected)\<rparr>,
                 st\<lparr>ss_gapCount := ss_gapCount st + 1, ss_degraded := True\<rparr>)))"

definition st_observe ::
  "string \<Rightarrow> string \<Rightarrow> int option \<Rightarrow> sequence_tracker \<Rightarrow> sequence_result \<times> sequence_tracker" where
  "st_observe streamId channel seq tr =
     (let (st, tr) = st_register streamId channel tr; (r, st) = classify channel seq st
      in (r, js_set streamId st tr))"

definition resetAfterRecovery :: "string \<Rightarrow> int option \<Rightarrow> sequence_tracker \<Rightarrow> nat \<times> sequence_tracker" where
  "resetAfterRecovery streamId seq tr =
     (case js_get tr streamId of
        None \<Rightarrow> (0, tr)
      | Some st \<Rightarrow>
          (ss_skippedWhileDegraded st,
           js_set streamId (st\<lparr>ss_lastSeq := seq,
             ss_firstSeq := (case ss_firstSeq st of None \<Rightarrow> seq | Some f \<Rightarrow> Some f),
             ss_degraded := False, ss_skippedWhileDegraded := 0\<rparr>) tr))"

definition st_remove :: "string \<Rightarrow> sequence_tracker \<Rightarrow> sequence_tracker" where
  "st_remove streamId tr = js_del streamId tr"

definition st_clear :: "sequence_tracker \<Rightarrow> sequence_tracker" where
  "st_clear tr = []"

section \<open>One stream\<close>

fun accepting :: "verdict \<Rightarrow> bool" where
  "accepting VOk = True"
| "accepting VFirst = True"
| "accepting _ = False"

fun classifyRun ::
  "string \<Rightarrow> int option list \<Rightarrow> stream_sequence_state \<Rightarrow> sequence_result list \<times> stream_sequence_state" where
  "classifyRun ch [] st = ([], st)"
| "classifyRun ch (s # ss) st =
     (let (r, st) = classify ch s st; (rs, st) = classifyRun ch ss st in (r # rs, st))"

definition acceptedSeqs :: "sequence_result list \<Rightarrow> int list" where
  "acceptedSeqs rs = concat (map (\<lambda>r. if accepting (sr_verdict r)
     then (case sr_receivedSeq r of None \<Rightarrow> [] | Some n \<Rightarrow> [n]) else []) rs)"

definition gaps :: "sequence_result list \<Rightarrow> nat" where
  "gaps rs = length (filter (\<lambda>r. sr_verdict r = VGap) rs)"

text \<open>Three step lemmas: unsequenced, degraded, and healthy messages.\<close>

lemma classify_unsequenced:
  "\<not> (isSequencedChannel (Some ch) \<and> seq \<noteq> None) \<Longrightarrow>
    classify ch seq st = (\<lparr>sr_verdict = VUnsequenced, sr_expectedSeq = None, sr_receivedSeq = None,
      sr_missingCount = None\<rparr>, st\<lparr>ss_messageCount := ss_messageCount st + 1\<rparr>)"
  by (auto simp: classify_def Let_def)

lemma classify_degraded:
  "ss_degraded st \<Longrightarrow> ss_degraded (snd (classify ch seq st)) \<and> ss_lastSeq (snd (classify ch seq st)) = ss_lastSeq st \<and>
    ss_gapCount (snd (classify ch seq st)) = ss_gapCount st \<and>
    sr_verdict (fst (classify ch seq st)) \<in> {VUnsequenced, VDegraded}"
  by (auto simp: classify_def Let_def split: option.split)

lemma classifyRun_degraded:
  assumes "ss_degraded st"
  shows "acceptedSeqs (fst (classifyRun ch ss st)) = [] \<and> gaps (fst (classifyRun ch ss st)) = 0 \<and>
    ss_degraded (snd (classifyRun ch ss st)) \<and> ss_lastSeq (snd (classifyRun ch ss st)) = ss_lastSeq st \<and>
    ss_gapCount (snd (classifyRun ch ss st)) = ss_gapCount st"
  using assms
proof (induction ss arbitrary: st)
  case Nil
  then show ?case by (simp add: acceptedSeqs_def gaps_def)
next
  case (Cons s ss)
  obtain r st' where c: "classify ch s st = (r, st')" by fastforce
  with classify_degraded [OF Cons.prems, of ch s]
  have st': "ss_degraded st'" "ss_lastSeq st' = ss_lastSeq st" "ss_gapCount st' = ss_gapCount st"
    and v: "sr_verdict r \<in> {VUnsequenced, VDegraded}" by auto
  from v have "\<not> accepting (sr_verdict r)" "sr_verdict r \<noteq> VGap" by auto
  then show ?case
    using Cons.IH [OF st'(1)] st'(2,3)
    by (simp add: c case_prod_unfold Let_def acceptedSeqs_def gaps_def)
qed

text \<open>
  The run of sequence numbers accepted from a healthy stream whose last one was \<open>last\<close>: the numbers
  directly after it.
\<close>

lemma upto_extend: "(l::int) < n \<Longrightarrow> [l + 1..n] = (l + 1) # [l + 1 + 1..n]"
  by (subst upto_rec1) simp_all

lemma classifyRun_from:
  assumes "\<not> ss_degraded st" "ss_lastSeq st = Some l"
  shows "\<exists>n \<ge> l. ss_lastSeq (snd (classifyRun ch ss st)) = Some n \<and>
    acceptedSeqs (fst (classifyRun ch ss st)) = [l + 1..n] \<and>
    gaps (fst (classifyRun ch ss st)) = (if ss_degraded (snd (classifyRun ch ss st)) then 1 else 0) \<and>
    ss_gapCount (snd (classifyRun ch ss st)) = ss_gapCount st + gaps (fst (classifyRun ch ss st))"
  using assms
proof (induction ss arbitrary: st l)
  case Nil
  then show ?case by (simp add: acceptedSeqs_def gaps_def)
next
  case (Cons s ss)
  obtain r st' where c: "classify ch s st = (r, st')" by fastforce
  obtain rs st'' where run: "classifyRun ch ss st' = (rs, st'')" by fastforce
  have split: "acceptedSeqs (r # rs) = (if accepting (sr_verdict r)
     then (case sr_receivedSeq r of None \<Rightarrow> [] | Some n \<Rightarrow> [n]) else []) @ acceptedSeqs rs"
    "gaps (r # rs) = (if sr_verdict r = VGap then 1 else 0) + gaps rs"
    by (simp_all add: acceptedSeqs_def gaps_def)
  consider (skip) "\<not> ss_degraded st'" "ss_lastSeq st' = Some l" "\<not> accepting (sr_verdict r)" "sr_verdict r \<noteq> VGap"
      "ss_gapCount st' = ss_gapCount st"
    | (ok) "\<not> ss_degraded st'" "ss_lastSeq st' = Some (l + 1)" "accepting (sr_verdict r)"
      "sr_receivedSeq r = Some (l + 1)" "sr_verdict r \<noteq> VGap" "ss_gapCount st' = ss_gapCount st"
    | (gap) "ss_degraded st'" "ss_lastSeq st' = Some l" "sr_verdict r = VGap" "ss_gapCount st' = ss_gapCount st + 1"
    using c Cons.prems
    by (auto simp: classify_def Let_def split: option.splits if_splits)
  then show ?case
  proof cases
    case skip
    then show ?thesis using Cons.IH [OF skip(1,2)] by (simp add: c run split)
  next
    case ok
    then obtain n where n: "n \<ge> l + 1" "ss_lastSeq st'' = Some n" "acceptedSeqs rs = [l + 1 + 1..n]"
      "gaps rs = (if ss_degraded st'' then 1 else 0)" "ss_gapCount st'' = ss_gapCount st' + gaps rs"
      using Cons.IH [OF ok(1,2)] run by auto
    then show ?thesis using ok by (intro exI [of _ n]) (simp add: c run split upto_extend)
  next
    case gap
    then show ?thesis using classifyRun_degraded [OF gap(1), of ch ss] by (simp add: c run split)
  qed
qed

section \<open>All streams\<close>

lemma st_observe_other:
  "s' \<noteq> s \<Longrightarrow> js_get (snd (st_observe s ch seq tr)) s' = js_get tr s'"
  by (auto simp: st_observe_def st_register_def Let_def case_prod_unfold split: option.split)

lemma st_observe_own:
  "js_get tr s = Some st \<Longrightarrow> fst (st_observe s ch seq tr) = fst (classify ch seq st) \<and>
     js_get (snd (st_observe s ch seq tr)) s = Some (snd (classify ch seq st))"
  by (auto simp: st_observe_def st_register_def Let_def case_prod_unfold)

text \<open>\<open>observeRun\<close> observes messages of many streams; \<open>onStream\<close> is what one of them sees of it.\<close>

fun observeRun ::
  "(string \<times> string \<times> int option) list \<Rightarrow> sequence_tracker \<Rightarrow> (string \<times> sequence_result) list \<times> sequence_tracker" where
  "observeRun [] tr = ([], tr)"
| "observeRun ((s, ch, seq) # ms) tr =
     (let (r, tr) = st_observe s ch seq tr; (rs, tr) = observeRun ms tr in ((s, r) # rs, tr))"

definition onStream :: "string \<Rightarrow> (string \<times> sequence_result) list \<Rightarrow> sequence_result list" where
  "onStream s rs = map snd (filter (\<lambda>p. fst p = s) rs)"

lemma observeRun_stream:
  assumes "js_get tr s = Some st" "\<forall>m \<in> set ms. fst m = s \<longrightarrow> fst (snd m) = ch"
  shows "onStream s (fst (observeRun ms tr)) =
      fst (classifyRun ch (map (\<lambda>(_, _, q). q) (filter (\<lambda>(s', _, _). s' = s) ms)) st) \<and>
    js_get (snd (observeRun ms tr)) s =
      Some (snd (classifyRun ch (map (\<lambda>(_, _, q). q) (filter (\<lambda>(s', _, _). s' = s) ms)) st))"
  using assms
proof (induction ms arbitrary: tr st)
  case Nil
  then show ?case by (simp add: onStream_def)
next
  case (Cons m ms)
  obtain s' ch' q where m: "m = (s', ch', q)" by (cases m) auto
  obtain r tr' where o: "st_observe s' ch' q tr = (r, tr')" by fastforce
  have rest: "\<forall>m \<in> set ms. fst m = s \<longrightarrow> fst (snd m) = ch" using Cons.prems(2) by simp
  show ?case
  proof (cases "s' = s")
    case True
    then have ch: "ch' = ch" using Cons.prems(2) m by auto
    obtain r2 st2 where k: "classify ch q st = (r2, st2)" by fastforce
    have own: "r = r2" "js_get tr' s = Some st2"
      using st_observe_own [OF Cons.prems(1), of ch q] o k True ch by auto
    show ?thesis using Cons.IH [OF own(2) rest]
      by (simp add: m o [unfolded True ch] True ch k own(1) case_prod_unfold Let_def onStream_def)
  next
    case False
    then have "js_get tr' s = Some st" using st_observe_other [of s s' ch' q tr] o Cons.prems(1) by simp
    from Cons.IH [OF this rest] show ?thesis
      using False by (simp add: m o case_prod_unfold Let_def onStream_def)
  qed
qed

section \<open>Properties\<close>

text \<open>
  C31: Whatever messages of whatever streams a tracker observes, the messages of a healthy stream
  that it accepts carry exactly the sequence numbers after its baseline, each once and in order, up
  to the new baseline; a discontinuity is reported as one gap however many messages follow it, the
  stream is degraded exactly when that happened, and the other streams have no influence.
\<close>
theorem tracker_accepts_contiguous:
  assumes "js_get tr s = Some st" "\<not> ss_degraded st" "ss_lastSeq st = Some l"
    and "\<forall>m \<in> set ms. fst m = s \<longrightarrow> fst (snd m) = ch"
  shows "\<exists>st' n. js_get (snd (observeRun ms tr)) s = Some st' \<and> l \<le> n \<and> ss_lastSeq st' = Some n \<and>
    acceptedSeqs (onStream s (fst (observeRun ms tr))) = [l + 1..n] \<and>
    gaps (onStream s (fst (observeRun ms tr))) = (if ss_degraded st' then 1 else 0) \<and>
    ss_gapCount st' = ss_gapCount st + gaps (onStream s (fst (observeRun ms tr)))"
proof -
  let ?qs = "map (\<lambda>(_, _, q). q) (filter (\<lambda>(s', _, _). s' = s) ms)"
  obtain n where "l \<le> n" "ss_lastSeq (snd (classifyRun ch ?qs st)) = Some n"
    "acceptedSeqs (fst (classifyRun ch ?qs st)) = [l + 1..n]"
    "gaps (fst (classifyRun ch ?qs st)) = (if ss_degraded (snd (classifyRun ch ?qs st)) then 1 else 0)"
    "ss_gapCount (snd (classifyRun ch ?qs st)) = ss_gapCount st + gaps (fst (classifyRun ch ?qs st))"
    using classifyRun_from [OF assms(2,3), of ch ?qs] by blast
  moreover note observeRun_stream [OF assms(1,4)]
  ultimately show ?thesis by auto
qed

definition wit_stream :: stream_sequence_state where
  "wit_stream = (newStreamState ''A'' ''orderbook_delta'')\<lparr>ss_firstSeq := Some 5, ss_lastSeq := Some 5\<rparr>"

definition wit_messages :: "(string \<times> string \<times> int option) list" where
  "wit_messages = [(''A'', ''orderbook_delta'', Some 6), (''B'', ''trade'', Some 9), (''A'', ''orderbook_delta'', Some 6),
     (''A'', ''orderbook_delta'', Some 7), (''A'', ''orderbook_delta'', Some 10), (''A'', ''orderbook_delta'', Some 11)]"

theorem tracker_accepts_contiguous_witness:
  "acceptedSeqs (onStream ''A'' (fst (observeRun wit_messages [(''A'', wit_stream)]))) = [6..7] \<and>
   gaps (onStream ''A'' (fst (observeRun wit_messages [(''A'', wit_stream)]))) = 1"
proof -
  let ?run = "observeRun wit_messages [(''A'', wit_stream)]"
  have pre: "js_get [(''A'', wit_stream)] ''A'' = Some wit_stream" "\<not> ss_degraded wit_stream"
    "ss_lastSeq wit_stream = Some 5"
    "\<forall>m \<in> set wit_messages. fst m = ''A'' \<longrightarrow> fst (snd m) = ''orderbook_delta''"
    by (auto simp: wit_stream_def newStreamState_def wit_messages_def)
  have fin: "map_option (\<lambda>st. (ss_lastSeq st, ss_degraded st)) (js_get (snd ?run) ''A'') = Some (Some 7, True)"
    by code_simp
  obtain st' n where "js_get (snd ?run) ''A'' = Some st'" "ss_lastSeq st' = Some n"
    "acceptedSeqs (onStream ''A'' (fst ?run)) = [5 + 1..n]"
    "gaps (onStream ''A'' (fst ?run)) = (if ss_degraded st' then 1 else 0)"
    using tracker_accepts_contiguous [OF pre] by blast
  then show ?thesis using fin by simp
qed

end
