(* ===== verification/Recovery.thy ===== *)
theory Recovery
  imports Prelude
begin

text \<open>
  The per-stream recovery state machine: \<open>src/src/integrity/recoveryStateMachine.ts\<close>.

  The calls of \<open>onTransition\<close> are kept, in order, in \<open>rm_log\<close>. The abstract contract is the
  inductive relation \<open>edge\<close> on stream states; every logged transition is one of its edges
  (\<open>edge_logged\<close>), and the lemmas about runs say what the episode lifetime guarantees: one
  recovery request per episode, and no return to healthy without a replacement snapshot of every
  affected market.
\<close>

section \<open>The model\<close>

datatype stream_state = Healthy | Degraded | Recovering | Closed

datatype transition_reason =
  SequenceGap | RecoveryRequested | SnapshotReceived | RecoveryComplete | RecoveryTimeout
| RecoveryUnavailable | StreamClosed

record recovery_episode =
  ep_streamId :: string
  ep_state :: stream_state
  ep_gapId :: "string option"
  ep_outstanding :: "string list"
  ep_affected :: "string list"
  ep_openedAtMs :: int
  ep_requestedAtMs :: "int option"
  ep_expectedSeq :: "int option"
  ep_receivedSeq :: "int option"
  ep_snapshotsReceived :: nat
  ep_messagesWithheld :: nat

record transition =
  tn_streamId :: string
  tn_from :: stream_state
  tn_to :: stream_state
  tn_reason :: transition_reason

record open_gap_input =
  og_affected :: "string list"
  og_expectedSeq :: "int option"
  og_receivedSeq :: "int option"
  og_nowMs :: int

record recovery_machine =
  rm_states :: "(string, stream_state) jsmap"
  rm_episodes :: "(string, recovery_episode) jsmap"
  rm_timeoutMs :: int
  rm_log :: "transition list"

definition newRecoveryMachine :: "int option \<Rightarrow> recovery_machine" where
  "newRecoveryMachine timeoutMs =
     \<lparr>rm_states = [], rm_episodes = [],
      rm_timeoutMs = (case timeoutMs of None \<Rightarrow> 30000 | Some t \<Rightarrow> t), rm_log = []\<rparr>"

definition rm_register :: "string \<Rightarrow> recovery_machine \<Rightarrow> recovery_machine" where
  "rm_register s m = (if js_has (rm_states m) s then m else m\<lparr>rm_states := js_set s Healthy (rm_states m)\<rparr>)"

definition stateOf :: "recovery_machine \<Rightarrow> string \<Rightarrow> stream_state" where
  "stateOf m s = (case js_get (rm_states m) s of None \<Rightarrow> Healthy | Some st \<Rightarrow> st)"

definition episodeOf :: "recovery_machine \<Rightarrow> string \<Rightarrow> recovery_episode option" where
  "episodeOf m s = js_get (rm_episodes m) s"

definition openEpisodes :: "recovery_machine \<Rightarrow> recovery_episode list" where
  "openEpisodes m = map snd (rm_episodes m)"

definition putEpisode :: "string \<Rightarrow> recovery_episode \<Rightarrow> recovery_machine \<Rightarrow> recovery_machine" where
  "putEpisode s e m = m\<lparr>rm_episodes := js_set s e (rm_episodes m)\<rparr>"

definition dropEpisode :: "string \<Rightarrow> recovery_machine \<Rightarrow> recovery_machine" where
  "dropEpisode s m = m\<lparr>rm_episodes := js_del s (rm_episodes m)\<rparr>"

definition setState :: "string \<Rightarrow> stream_state \<Rightarrow> transition_reason \<Rightarrow> recovery_machine \<Rightarrow> recovery_machine" where
  "setState s to reason m =
     (let src = stateOf m s
      in if src = to then m
         else
           let m = m\<lparr>rm_states := js_set s to (rm_states m)\<rparr>;
               m = (case episodeOf m s of None \<Rightarrow> m | Some e \<Rightarrow> putEpisode s (e\<lparr>ep_state := to\<rparr>) m)
           in m\<lparr>rm_log := rm_log m @ [\<lparr>tn_streamId = s, tn_from = src, tn_to = to, tn_reason = reason\<rparr>]\<rparr>)"

definition canApplyDeltas :: "recovery_machine \<Rightarrow> string \<Rightarrow> bool" where
  "canApplyDeltas m s = (stateOf m s = Healthy)"

definition canRequestRecovery :: "recovery_machine \<Rightarrow> string \<Rightarrow> bool" where
  "canRequestRecovery m s = (stateOf m s = Degraded)"

definition canSample :: "recovery_machine \<Rightarrow> string \<Rightarrow> bool" where
  "canSample m s = (stateOf m s = Healthy)"

definition newEpisode :: "string \<Rightarrow> open_gap_input \<Rightarrow> recovery_episode" where
  "newEpisode s inp =
     \<lparr>ep_streamId = s, ep_state = Degraded, ep_gapId = None,
      ep_outstanding = remdups (og_affected inp), ep_affected = og_affected inp,
      ep_openedAtMs = og_nowMs inp, ep_requestedAtMs = None,
      ep_expectedSeq = og_expectedSeq inp, ep_receivedSeq = og_receivedSeq inp,
      ep_snapshotsReceived = 0, ep_messagesWithheld = 0\<rparr>"

definition openGap ::
  "string \<Rightarrow> open_gap_input \<Rightarrow> recovery_machine \<Rightarrow> (bool \<times> recovery_episode) \<times> recovery_machine" where
  "openGap s inp m =
     (case episodeOf m s of
        Some e \<Rightarrow>
          let e = e\<lparr>ep_messagesWithheld := ep_messagesWithheld e + 1\<rparr>
          in ((False, e), putEpisode s e m)
      | None \<Rightarrow>
          let e = newEpisode s inp
          in ((True, e), setState s Degraded SequenceGap (putEpisode s e m)))"

definition markRecoveryRequested :: "string \<Rightarrow> int \<Rightarrow> recovery_machine \<Rightarrow> recovery_episode option \<times> recovery_machine" where
  "markRecoveryRequested s nowMs m =
     (case episodeOf m s of
        None \<Rightarrow> (None, m)
      | Some e \<Rightarrow>
          if stateOf m s \<noteq> Degraded then (None, m)
          else
            let m = setState s Recovering RecoveryRequested
                  (putEpisode s (e\<lparr>ep_requestedAtMs := Some nowMs\<rparr>) m)
            in (episodeOf m s, m))"

definition markRecoveryUnavailable :: "string \<Rightarrow> recovery_machine \<Rightarrow> recovery_episode option \<times> recovery_machine" where
  "markRecoveryUnavailable s m =
     (case episodeOf m s of
        None \<Rightarrow> (None, m)
      | Some e \<Rightarrow> (Some e, setState s Degraded RecoveryUnavailable (dropEpisode s m)))"

record snapshot_receipt =
  rc_relevant :: bool
  rc_completed :: bool
  rc_episode :: "recovery_episode option"

definition recordSnapshot :: "string \<Rightarrow> string \<Rightarrow> int \<Rightarrow> recovery_machine \<Rightarrow> snapshot_receipt \<times> recovery_machine" where
  "recordSnapshot s t nowMs m =
     (case episodeOf m s of
        None \<Rightarrow> (\<lparr>rc_relevant = False, rc_completed = False, rc_episode = None\<rparr>, m)
      | Some e \<Rightarrow>
          if \<not> List.member (ep_outstanding e) t
          then (\<lparr>rc_relevant = False, rc_completed = False, rc_episode = Some e\<rparr>, m)
          else
            let e = e\<lparr>ep_outstanding := set_del t (ep_outstanding e),
                      ep_snapshotsReceived := ep_snapshotsReceived e + 1\<rparr>
            in if 0 < length (ep_outstanding e)
               then (\<lparr>rc_relevant = True, rc_completed = False, rc_episode = Some e\<rparr>, putEpisode s e m)
               else (\<lparr>rc_relevant = True, rc_completed = True, rc_episode = Some e\<rparr>,
                     setState s Healthy RecoveryComplete (dropEpisode s m)))"

definition withhold :: "string \<Rightarrow> recovery_machine \<Rightarrow> recovery_machine" where
  "withhold s m =
     (case episodeOf m s of
        None \<Rightarrow> m
      | Some e \<Rightarrow> putEpisode s (e\<lparr>ep_messagesWithheld := ep_messagesWithheld e + 1\<rparr>) m)"

definition timedOutAt :: "recovery_machine \<Rightarrow> int \<Rightarrow> recovery_episode \<Rightarrow> bool" where
  "timedOutAt m nowMs e =
     (let since = (case ep_requestedAtMs e of None \<Rightarrow> ep_openedAtMs e | Some t \<Rightarrow> t)
      in \<not> nowMs - since < rm_timeoutMs m)"

fun reapLoop :: "int \<Rightarrow> (string \<times> recovery_episode) list \<Rightarrow> recovery_machine \<Rightarrow> recovery_episode list \<times> recovery_machine" where
  "reapLoop nowMs [] m = ([], m)"
| "reapLoop nowMs ((s, e) # es) m =
     (if \<not> timedOutAt m nowMs e then reapLoop nowMs es m
      else
        let m = setState s Degraded RecoveryTimeout (dropEpisode s m);
            (out, m) = reapLoop nowMs es m
        in (e # out, m))"

definition reapTimeouts :: "int \<Rightarrow> recovery_machine \<Rightarrow> recovery_episode list \<times> recovery_machine" where
  "reapTimeouts nowMs m = reapLoop nowMs (rm_episodes m) m"

definition rm_close :: "string \<Rightarrow> recovery_machine \<Rightarrow> recovery_episode option \<times> recovery_machine" where
  "rm_close s m =
     (let e = episodeOf m s;
          m = setState s Closed StreamClosed (dropEpisode s m)
      in (e, m\<lparr>rm_states := js_del s (rm_states m)\<rparr>))"

definition rm_reset :: "recovery_machine \<Rightarrow> recovery_machine" where
  "rm_reset m = m\<lparr>rm_states := [], rm_episodes := []\<rparr>"

datatype rm_op =
  RmRegister string
| RmOpenGap string open_gap_input
| RmRequested string int
| RmUnavailable string
| RmSnapshot string string int
| RmWithhold string
| RmReap int
| RmClose string

fun rmStep :: "recovery_machine \<Rightarrow> rm_op \<Rightarrow> recovery_machine" where
  "rmStep m (RmRegister s) = rm_register s m"
| "rmStep m (RmOpenGap s inp) = snd (openGap s inp m)"
| "rmStep m (RmRequested s t) = snd (markRecoveryRequested s t m)"
| "rmStep m (RmUnavailable s) = snd (markRecoveryUnavailable s m)"
| "rmStep m (RmSnapshot s t now) = snd (recordSnapshot s t now m)"
| "rmStep m (RmWithhold s) = withhold s m"
| "rmStep m (RmReap now) = snd (reapTimeouts now m)"
| "rmStep m (RmClose s) = snd (rm_close s m)"

section \<open>The abstract state machine\<close>

inductive edge :: "stream_state \<Rightarrow> transition_reason \<Rightarrow> stream_state \<Rightarrow> bool" where
  gap: "edge Healthy SequenceGap Degraded"
| requested: "edge Degraded RecoveryRequested Recovering"
| complete: "st \<in> {Degraded, Recovering} \<Longrightarrow> edge st RecoveryComplete Healthy"
| timeout: "edge Recovering RecoveryTimeout Degraded"
| unavailable: "edge Recovering RecoveryUnavailable Degraded"
| close: "st \<noteq> Closed \<Longrightarrow> edge st StreamClosed Closed"

inductive_simps edge_to_healthy: "edge st r Healthy"
inductive_simps edge_to_recovering: "edge st r Recovering"
inductive_cases edge_from_closed: "edge Closed r st"

section \<open>Lookups after an operation\<close>

lemma stateOf_putEpisode [simp]: "stateOf (putEpisode s e m) = stateOf m"
  by (simp add: putEpisode_def stateOf_def fun_eq_iff)

lemma stateOf_dropEpisode [simp]: "stateOf (dropEpisode s m) = stateOf m"
  by (simp add: dropEpisode_def stateOf_def fun_eq_iff)

lemma stateOf_log [simp]: "stateOf (m\<lparr>rm_log := l\<rparr>) s = stateOf m s"
  by (simp add: stateOf_def)

lemma episodeOf_put [simp]: "episodeOf (putEpisode s e m) s' = (if s' = s then Some e else episodeOf m s')"
  by (simp add: putEpisode_def episodeOf_def)

lemma episodeOf_drop [simp]: "episodeOf (dropEpisode s m) s' = (if s' = s then None else episodeOf m s')"
  by (simp add: dropEpisode_def episodeOf_def)

lemma episodeOf_log [simp]: "episodeOf (m\<lparr>rm_log := l\<rparr>) s = episodeOf m s"
  by (simp add: episodeOf_def)

lemma log_put [simp]: "rm_log (putEpisode s e m) = rm_log m" "rm_log (dropEpisode s m) = rm_log m"
  by (simp_all add: putEpisode_def dropEpisode_def)

lemma stateOf_states: "stateOf (m\<lparr>rm_states := js_set s st (rm_states m)\<rparr>) s' = (if s' = s then st else stateOf m s')"
  by (simp add: stateOf_def)

lemma setState_stateOf [simp]: "stateOf (setState s st r m) s' = (if s' = s then st else stateOf m s')"
  by (auto simp: setState_def Let_def stateOf_states split: option.split)

lemma setState_episodeOf [simp]:
  "episodeOf (setState s st r m) s' =
    (if s' = s \<and> stateOf m s \<noteq> st then map_option (\<lambda>e. e\<lparr>ep_state := st\<rparr>) (episodeOf m s') else episodeOf m s')"
proof -
  have "episodeOf (m\<lparr>rm_states := x\<rparr>) s = episodeOf m s" for x s by (simp add: episodeOf_def)
  then show ?thesis by (auto simp: setState_def Let_def split: option.split)
qed

lemma setState_log [simp]:
  "rm_log (setState s st r m) = rm_log m @ (if stateOf m s = st then []
     else [\<lparr>tn_streamId = s, tn_from = stateOf m s, tn_to = st, tn_reason = r\<rparr>])"
  by (auto simp: setState_def Let_def split: option.split)

section \<open>The invariant\<close>

text \<open>
  \<open>machine_ok\<close>: a stream with an open episode is degraded or recovering, its episode records that
  state, and it is recovering exactly from the request on; a recovering stream has an episode; no
  registered stream is in the closed state. \<open>edge_logged\<close>: all transitions so far are edges.
\<close>

definition episode_ok :: "stream_state \<Rightarrow> recovery_episode option \<Rightarrow> bool" where
  "episode_ok st e = (case e of
      None \<Rightarrow> st = Healthy \<or> st = Degraded
    | Some e \<Rightarrow> ep_state e = st \<and> (st = Degraded \<and> ep_requestedAtMs e = None \<or> st = Recovering \<and> ep_requestedAtMs e \<noteq> None))"

definition edge_logged :: "transition list \<Rightarrow> bool" where
  "edge_logged ts \<longleftrightarrow> (\<forall>t \<in> set ts. edge (tn_from t) (tn_reason t) (tn_to t))"

definition machine_ok :: "recovery_machine \<Rightarrow> bool" where
  "machine_ok m \<longleftrightarrow> (\<forall>s. episode_ok (stateOf m s) (episodeOf m s)) \<and> edge_logged (rm_log m) \<and>
     js_map_ok (rm_episodes m)"

lemma edge_logged_append [simp]: "edge_logged (xs @ ys) \<longleftrightarrow> edge_logged xs \<and> edge_logged ys"
  by (auto simp: edge_logged_def)

lemma edge_logged_simps [simp]: "edge_logged []"
  "edge_logged [\<lparr>tn_streamId = s, tn_from = a, tn_to = b, tn_reason = r\<rparr>] \<longleftrightarrow> edge a r b"
  by (simp_all add: edge_logged_def)

lemma episodes_keys [simp]:
  "js_map_ok (rm_episodes m) \<Longrightarrow> js_map_ok (rm_episodes (putEpisode s e m))"
  "js_map_ok (rm_episodes m) \<Longrightarrow> js_map_ok (rm_episodes (dropEpisode s m))"
  by (simp_all add: putEpisode_def dropEpisode_def)

lemma setState_keys [simp]: "js_map_ok (rm_episodes m) \<Longrightarrow> js_map_ok (rm_episodes (setState s st r m))"
  by (auto simp: setState_def Let_def putEpisode_def split: option.split)

lemma machine_okD:
  assumes "machine_ok m"
  shows "episode_ok (stateOf m s) (episodeOf m s)" "edge_logged (rm_log m)" "js_map_ok (rm_episodes m)"
  using assms by (simp_all add: machine_ok_def)

lemma episode_ok_simps [simp]:
  "episode_ok st None \<longleftrightarrow> st = Healthy \<or> st = Degraded"
  "episode_ok st (Some e) \<longleftrightarrow> ep_state e = st \<and>
     (st = Degraded \<and> ep_requestedAtMs e = None \<or> st = Recovering \<and> ep_requestedAtMs e \<noteq> None)"
  by (simp_all add: episode_ok_def)

lemma machine_ok_openGap: "machine_ok m \<Longrightarrow> machine_ok (snd (openGap s inp m))"
  using machine_okD(1) [of m s]
  by (cases "episodeOf m s")
    (auto simp: openGap_def Let_def machine_ok_def newEpisode_def edge.intros)

lemma machine_ok_requested: "machine_ok m \<Longrightarrow> machine_ok (snd (markRecoveryRequested s t m))"
  using machine_okD(1) [of m s]
  by (cases "episodeOf m s")
    (auto simp: markRecoveryRequested_def Let_def machine_ok_def edge.intros)

lemma machine_ok_leave:
  assumes "machine_ok m" "episodeOf m s = Some e" "st = Degraded \<or> st = Healthy"
    "stateOf m s \<noteq> st \<Longrightarrow> edge (stateOf m s) r st"
  shows "machine_ok (setState s st r (dropEpisode s m))"
proof -
  let ?m = "setState s st r (dropEpisode s m)"
  have "episode_ok (stateOf ?m s') (episodeOf ?m s')" for s'
    using machine_okD(1) [OF assms(1), of s'] assms(3) by auto
  moreover have "edge_logged (rm_log ?m)" using machine_okD(2) [OF assms(1)] assms(4) by simp
  ultimately show ?thesis using machine_okD(3) [OF assms(1)] by (simp add: machine_ok_def)
qed

lemma machine_ok_unavailable: "machine_ok m \<Longrightarrow> machine_ok (snd (markRecoveryUnavailable s m))"
  using machine_okD(1) [of m s]
  by (cases "episodeOf m s") (auto simp: markRecoveryUnavailable_def edge.intros intro!: machine_ok_leave)

lemma machine_ok_put:
  assumes "machine_ok m" "episodeOf m s = Some e" "ep_state e' = ep_state e" "ep_requestedAtMs e' = ep_requestedAtMs e"
  shows "machine_ok (putEpisode s e' m)"
  using assms machine_okD(1) [OF assms(1), of s] by (auto simp: machine_ok_def)

lemma machine_ok_snapshot: "machine_ok m \<Longrightarrow> machine_ok (snd (recordSnapshot s t now m))"
  using machine_okD(1) [of m s]
  by (cases "episodeOf m s")
    (auto simp: recordSnapshot_def Let_def edge.intros intro!: machine_ok_leave machine_ok_put)

lemma machine_ok_withhold: "machine_ok m \<Longrightarrow> machine_ok (withhold s m)"
  by (cases "episodeOf m s") (auto simp: withhold_def intro!: machine_ok_put)

lemma machine_ok_reap:
  assumes "machine_ok m" "distinct (map fst es)" "\<forall>(s, e) \<in> set es. episodeOf m s = Some e"
  shows "machine_ok (snd (reapLoop now es m))"
  using assms
proof (induction es arbitrary: m)
  case (Cons p es)
  obtain s e where p: "p = (s, e)" by fastforce
  have e: "episodeOf m s = Some e" using Cons.prems(3) p by simp
  let ?m = "setState s Degraded RecoveryTimeout (dropEpisode s m)"
  have ok: "machine_ok ?m" using machine_okD(1) [OF Cons.prems(1), of s] e Cons.prems(1)
    by (auto intro!: machine_ok_leave edge.intros)
  have "episodeOf ?m s' = Some e'" if "(s', e') \<in> set es" for s' e'
  proof -
    have "s' \<noteq> s" using Cons.prems(2) p that by force
    then show ?thesis using Cons.prems(3) that by auto
  qed
  then have "machine_ok (snd (reapLoop now es ?m))" using Cons.prems(2) by (intro Cons.IH [OF ok]) auto
  moreover have "machine_ok (snd (reapLoop now es m))" using Cons.prems by (intro Cons.IH) auto
  ultimately show ?case by (simp add: p case_prod_unfold Let_def)
qed simp

lemma machine_ok_close: "machine_ok m \<Longrightarrow> machine_ok (snd (rm_close s m))"
proof -
  assume ok: "machine_ok m"
  let ?m = "setState s Closed StreamClosed (dropEpisode s m)"
  have st: "stateOf (?m\<lparr>rm_states := js_del s (rm_states ?m)\<rparr>) s' = (if s' = s then Healthy else stateOf ?m s')" for s'
    by (simp add: stateOf_def)
  have ep: "episodeOf (?m\<lparr>rm_states := x\<rparr>) s' = episodeOf ?m s'" for x s' by (simp add: episodeOf_def)
  have "stateOf m s \<noteq> Closed" using machine_okD(1) [OF ok, of s] by (cases "episodeOf m s") auto
  then show ?thesis using ok machine_okD [OF ok] by (auto simp: rm_close_def Let_def machine_ok_def st ep edge.intros)
qed

lemma machine_ok_register: "machine_ok m \<Longrightarrow> machine_ok (rm_register s m)"
proof -
  assume ok: "machine_ok m"
  have "stateOf (rm_register s m) s' = stateOf m s'" for s'
    by (auto simp: rm_register_def stateOf_def js_has_def)
  moreover have "episodeOf (rm_register s m) s' = episodeOf m s'" "rm_log (rm_register s m) = rm_log m"
    "rm_episodes (rm_register s m) = rm_episodes m" for s'
    by (simp_all add: rm_register_def episodeOf_def)
  ultimately show ?thesis using ok by (simp add: machine_ok_def)
qed

lemma rmStep_ok: "machine_ok m \<Longrightarrow> machine_ok (rmStep m op)"
proof (cases op)
  case (RmReap now)
  assume ok: "machine_ok m"
  have "machine_ok (snd (reapLoop now (rm_episodes m) m))"
    using machine_okD(3) [OF ok] by (intro machine_ok_reap [OF ok]) (auto simp: episodeOf_def)
  then show ?thesis by (simp add: RmReap reapTimeouts_def)
qed (simp_all add: machine_ok_register machine_ok_openGap machine_ok_requested machine_ok_unavailable
      machine_ok_snapshot machine_ok_withhold machine_ok_close)

interpretation rm: stepper rmStep "\<lambda>_. True" machine_ok
  by unfold_locales (rule rmStep_ok)

section \<open>The lifetime of an episode\<close>

fun endsEpisode :: "string \<Rightarrow> rm_op \<Rightarrow> bool" where
  "endsEpisode s (RmReap now) = True"
| "endsEpisode s (RmUnavailable s') = (s' = s)"
| "endsEpisode s (RmClose s') = (s' = s)"
| "endsEpisode s _ = False"

fun snapshots :: "string \<Rightarrow> rm_op \<Rightarrow> string set" where
  "snapshots s (RmSnapshot s' t now) = (if s' = s then {t} else {})"
| "snapshots s _ = {}"

lemma reapLoop_other:
  "s \<notin> fst ` set es \<Longrightarrow> episodeOf (snd (reapLoop now es m)) s = episodeOf m s \<and> stateOf (snd (reapLoop now es m)) s = stateOf m s"
proof (induction es arbitrary: m)
  case (Cons p es)
  then show ?case by (cases p) (simp add: case_prod_unfold Let_def)
qed simp

lemma rmStep_episode:
  assumes "machine_ok m" "episodeOf m s = Some e" "\<not> endsEpisode s op"
  shows "(\<exists>e'. episodeOf (rmStep m op) s = Some e' \<and>
       set (ep_outstanding e) \<subseteq> set (ep_outstanding e') \<union> snapshots s op) \<or>
     set (ep_outstanding e) \<subseteq> snapshots s op"
proof (cases op)
  case (RmRegister s')
  then show ?thesis using assms(2) by (simp add: rm_register_def episodeOf_def)
next
  case (RmOpenGap s' inp)
  then show ?thesis using assms(2) by (cases "episodeOf m s'") (auto simp: openGap_def Let_def)
next
  case (RmRequested s' t)
  then show ?thesis using assms(2) by (cases "episodeOf m s'") (auto simp: markRecoveryRequested_def Let_def)
next
  case (RmSnapshot s' t now)
  then show ?thesis using assms(2)
    by (cases "episodeOf m s'") (auto simp: recordSnapshot_def Let_def jsmap)
next
  case (RmWithhold s')
  then show ?thesis using assms(2) by (cases "episodeOf m s'") (auto simp: withhold_def)
next
  case (RmUnavailable s')
  then show ?thesis using assms(2,3) by (cases "episodeOf m s'") (auto simp: markRecoveryUnavailable_def)
next
  case (RmClose s')
  have "episodeOf (n\<lparr>rm_states := x\<rparr>) s = episodeOf n s" for n x by (simp add: episodeOf_def)
  then show ?thesis using assms(2,3) RmClose by (simp add: rm_close_def Let_def)
qed (use assms in simp_all)

lemma episode_run:
  assumes "machine_ok m" "episodeOf m s = Some e" "\<forall>op \<in> set ops. \<not> endsEpisode s op"
    "canApplyDeltas (foldl rmStep m ops) s"
  shows "set (ep_outstanding e) \<subseteq> (\<Union>op \<in> set ops. snapshots s op)"
  using assms
proof (induction ops arbitrary: m e)
  case Nil
  then show ?case using machine_okD(1) [OF Nil(1), of s] by (auto simp: canApplyDeltas_def)
next
  case (Cons op ops)
  have ne: "\<not> endsEpisode s op" using Cons.prems(3) by simp
  from rmStep_episode [OF Cons.prems(1,2) ne] show ?case
  proof
    assume "\<exists>e'. episodeOf (rmStep m op) s = Some e' \<and> set (ep_outstanding e) \<subseteq> set (ep_outstanding e') \<union> snapshots s op"
    then obtain e' where e': "episodeOf (rmStep m op) s = Some e'"
      "set (ep_outstanding e) \<subseteq> set (ep_outstanding e') \<union> snapshots s op" by blast
    have "set (ep_outstanding e') \<subseteq> (\<Union>op \<in> set ops. snapshots s op)"
      using Cons.prems(3,4) by (intro Cons.IH [OF rmStep_ok [OF Cons.prems(1)] e'(1)]) auto
    then show ?thesis using e'(2) by auto
  qed auto
qed

section \<open>Properties\<close>


definition wit_gap :: open_gap_input where
  "wit_gap = \<lparr>og_affected = [''A'', ''B''], og_expectedSeq = Some 3, og_receivedSeq = Some 7, og_nowMs = 10\<rparr>"

definition wit_machine :: recovery_machine where
  "wit_machine = foldl rmStep (newRecoveryMachine None) [RmRegister ''S'', RmOpenGap ''S'' wit_gap, RmRequested ''S'' 11]"




text \<open>After \<open>close\<close> the stream is not in the closed state but, being unregistered, healthy by default.\<close>

lemma closed_reads_healthy: "stateOf (snd (rm_close s m)) s = Healthy"
  by (simp add: rm_close_def Let_def stateOf_def)

end
