(* ===== verification/Events.thy ===== *)
theory Events
  imports Book "HOL-Library.List_Lexorder" "HOL-Library.Char_ord"
begin

text \<open>
  The canonical research events and their order: \<open>src/src/research/events/researchEvent.ts\<close>.

  A decimal string of an event stands for the decimal it spells. Strings are compared by code
  units, which for \<open>string\<close> is the lexicographic order on characters. The locale \<open>comparator\<close> is
  the contract a sort expects of its comparison function; it is proved of \<open>compareOrderKeys\<close> on
  keys that carry an ordinal and a sequence, and refuted in general.
\<close>

section \<open>Events\<close>

datatype event_kind = CaptureGap | MarketLifecycle | BookDelta | Trade | BookSnapshot | Timer

record base_event =
  be_exchangeTimeMs :: "int option"
  be_receiveTimeMs :: int
  be_sessionId :: string
  be_ingestOrdinal :: "int option"
  be_streamId :: "string option"
  be_seq :: "int option"
  be_seriesTicker :: "string option"
  be_eventTicker :: "string option"

datatype event_snapshot_source = EsWsInitial | EsWsRecovery | EsSessionHandoff

record snapshot_body =
  es_marketTicker :: string
  es_source :: event_snapshot_source
  es_yesBids :: "(rat \<times> rat) list"
  es_noBids :: "(rat \<times> rat) list"
  es_stateHash :: "string option"

record delta_body =
  ed_marketTicker :: string
  ed_side :: book_side
  ed_price :: rat
  ed_deltaCount :: rat
  ed_preCount :: "rat option"
  ed_postCount :: "rat option"
  ed_applied :: bool
  ed_applyError :: "string option"

record trade_body =
  et_marketTicker :: string
  et_tradeId :: string
  et_yesPrice :: rat
  et_noPrice :: rat
  et_count :: rat
  et_takerOutcomeSide :: "book_side option"
  et_takerBookSide :: "string option"
  et_isBlockTrade :: bool

record lifecycle_body =
  el_marketTicker :: string
  el_status :: string
  el_result :: "string option"

datatype gap_reason = GrDeploy | GrRestart | GrCrash | GrShutdown | GrUnknown

record gap_body =
  eg_gapId :: string
  eg_startedAtMs :: int
  eg_endedAtMs :: "int option"
  eg_reason :: gap_reason
  eg_affectedMarkets :: "string list"

record timer_body =
  em_timerId :: int
  em_label :: string
  em_marketTicker :: "string option"

datatype research_event =
  EvSnapshot base_event snapshot_body
| EvDelta base_event delta_body
| EvTrade base_event trade_body
| EvLifecycle base_event lifecycle_body
| EvGap base_event gap_body
| EvTimer base_event timer_body

fun eventBase :: "research_event \<Rightarrow> base_event" where
  "eventBase (EvSnapshot b _) = b"
| "eventBase (EvDelta b _) = b"
| "eventBase (EvTrade b _) = b"
| "eventBase (EvLifecycle b _) = b"
| "eventBase (EvGap b _) = b"
| "eventBase (EvTimer b _) = b"

fun eventKind :: "research_event \<Rightarrow> event_kind" where
  "eventKind (EvSnapshot _ _) = BookSnapshot"
| "eventKind (EvDelta _ _) = BookDelta"
| "eventKind (EvTrade _ _) = Trade"
| "eventKind (EvLifecycle _ _) = MarketLifecycle"
| "eventKind (EvGap _ _) = CaptureGap"
| "eventKind (EvTimer _ _) = Timer"

definition isMarketEvent :: "research_event \<Rightarrow> bool" where
  "isMarketEvent e \<longleftrightarrow> eventKind e = BookSnapshot \<or> eventKind e = BookDelta \<or> eventKind e = Trade \<or>
     eventKind e = MarketLifecycle"

fun eventMarket :: "research_event \<Rightarrow> string option" where
  "eventMarket (EvSnapshot _ b) = Some (es_marketTicker b)"
| "eventMarket (EvDelta _ b) = Some (ed_marketTicker b)"
| "eventMarket (EvTrade _ b) = Some (et_marketTicker b)"
| "eventMarket (EvLifecycle _ b) = Some (el_marketTicker b)"
| "eventMarket (EvGap _ b) = None"
| "eventMarket (EvTimer _ b) = em_marketTicker b"

definition tradePriceForSide :: "trade_body \<Rightarrow> book_side \<Rightarrow> rat" where
  "tradePriceForSide e side = (if side = Yes then et_yesPrice e else et_noPrice e)"

section \<open>Order keys\<close>

fun KIND_RANK :: "event_kind \<Rightarrow> int" where
  "KIND_RANK CaptureGap = 0"
| "KIND_RANK MarketLifecycle = 1"
| "KIND_RANK BookDelta = 2"
| "KIND_RANK Trade = 3"
| "KIND_RANK BookSnapshot = 4"
| "KIND_RANK Timer = 5"

record order_key =
  ok_sessionRank :: int
  ok_receiveTimeMs :: int
  ok_ingestOrdinal :: "int option"
  ok_streamRank :: int
  ok_seq :: "int option"
  ok_kindRank :: int
  ok_tiebreak :: string

definition orderKeyOf :: "research_event \<Rightarrow> int \<Rightarrow> int \<Rightarrow> string \<Rightarrow> order_key" where
  "orderKeyOf e sessionRank streamRank tiebreak =
     (let b = eventBase e
      in \<lparr>ok_sessionRank = sessionRank, ok_receiveTimeMs = be_receiveTimeMs b,
          ok_ingestOrdinal = be_ingestOrdinal b, ok_streamRank = streamRank, ok_seq = be_seq b,
          ok_kindRank = KIND_RANK (eventKind e), ok_tiebreak = tiebreak\<rparr>)"

definition cmpBig :: "'a::linorder \<Rightarrow> 'a \<Rightarrow> int" where
  "cmpBig a b = (if a < b then - 1 else if b < a then 1 else 0)"

definition cmpIfBoth :: "int option \<Rightarrow> int option \<Rightarrow> int" where
  \<comment> \<open>\<open>if (a !== null && b !== null) cmpBig(a, b)\<close>, zero when skipped\<close>
  "cmpIfBoth a b = (case a of None \<Rightarrow> 0 | Some x \<Rightarrow> (case b of None \<Rightarrow> 0 | Some y \<Rightarrow> cmpBig x y))"

definition compareOrderKeys :: "order_key \<Rightarrow> order_key \<Rightarrow> int" where
  "compareOrderKeys a b =
     (if ok_sessionRank a \<noteq> ok_sessionRank b then ok_sessionRank a - ok_sessionRank b
      else let t = cmpBig (ok_receiveTimeMs a) (ok_receiveTimeMs b)
      in if t \<noteq> 0 then t
      else let d = cmpIfBoth (ok_ingestOrdinal a) (ok_ingestOrdinal b)
      in if d \<noteq> 0 then d
      else if ok_streamRank a \<noteq> ok_streamRank b then ok_streamRank a - ok_streamRank b
      else let s = cmpIfBoth (ok_seq a) (ok_seq b)
      in if s \<noteq> 0 then s
      else if ok_kindRank a \<noteq> ok_kindRank b then ok_kindRank a - ok_kindRank b
      else cmpBig (ok_tiebreak a) (ok_tiebreak b))"

section \<open>Kinds are ordered by their rank\<close>

instantiation event_kind :: linorder
begin

definition less_eq_event_kind :: "event_kind \<Rightarrow> event_kind \<Rightarrow> bool" where
  "less_eq_event_kind a b \<longleftrightarrow> KIND_RANK a \<le> KIND_RANK b"

definition less_event_kind :: "event_kind \<Rightarrow> event_kind \<Rightarrow> bool" where
  "less_event_kind a b \<longleftrightarrow> KIND_RANK a < KIND_RANK b"

instance
proof
  fix x y z :: event_kind
  show "x < y \<longleftrightarrow> x \<le> y \<and> \<not> y \<le> x" by (auto simp: less_eq_event_kind_def less_event_kind_def)
  show "x \<le> x" by (simp add: less_eq_event_kind_def)
  show "x \<le> y \<Longrightarrow> y \<le> z \<Longrightarrow> x \<le> z" by (simp add: less_eq_event_kind_def)
  show "x \<le> y \<Longrightarrow> y \<le> x \<Longrightarrow> x = y" by (cases x; cases y) (simp_all add: less_eq_event_kind_def)
  show "x \<le> y \<or> y \<le> x" by (auto simp: less_eq_event_kind_def)
qed

end

section \<open>Comparison functions\<close>

locale comparator =
  fixes cmp :: "'a \<Rightarrow> 'a \<Rightarrow> int"
  assumes anti: "sgn (cmp b a) = - sgn (cmp a b)"
    and trans: "cmp a b \<le> 0 \<Longrightarrow> cmp b c \<le> 0 \<Longrightarrow> cmp a c \<le> 0"
begin

lemma neg_iff: "cmp b a < 0 \<longleftrightarrow> 0 < cmp a b" "cmp b a = 0 \<longleftrightarrow> cmp a b = 0"
  using anti [of b a] by (auto simp: sgn_if split: if_splits)

lemma le_iff: "cmp b a \<le> 0 \<longleftrightarrow> 0 \<le> cmp a b"
  using neg_iff [where a = a and b = b] by linarith

lemma refl: "cmp a a = 0"
  using anti [of a a] by (simp add: sgn_if split: if_splits)

lemma strict: "cmp a b < 0 \<Longrightarrow> cmp b c \<le> 0 \<Longrightarrow> cmp a c < 0" "cmp a b \<le> 0 \<Longrightarrow> cmp b c < 0 \<Longrightarrow> cmp a c < 0"
proof -
  show "cmp a b < 0 \<Longrightarrow> cmp b c \<le> 0 \<Longrightarrow> cmp a c < 0"
    using trans [of a b c] trans [of b c a] le_iff [of c a] le_iff [of b a] by linarith
  show "cmp a b \<le> 0 \<Longrightarrow> cmp b c < 0 \<Longrightarrow> cmp a c < 0"
    using trans [of a b c] trans [of c a b] le_iff [of c a] le_iff [of c b] by linarith
qed

lemma zero_trans: "cmp a b = 0 \<Longrightarrow> cmp b c = 0 \<Longrightarrow> cmp a c = 0"
  using trans [of a b c] trans [of c b a] le_iff [of b a] le_iff [of c b] le_iff [of c a] by auto

end

definition lexCmp :: "('a \<Rightarrow> 'a \<Rightarrow> int) \<Rightarrow> ('a \<Rightarrow> 'a \<Rightarrow> int) \<Rightarrow> 'a \<Rightarrow> 'a \<Rightarrow> int" where
  "lexCmp f g a b = (if f a b \<noteq> 0 then f a b else g a b)"

lemma comparator_lex:
  assumes f: "comparator f" and g: "comparator g"
  shows "comparator (lexCmp f g)"
proof
  fix a b c
  show "sgn (lexCmp f g b a) = - sgn (lexCmp f g a b)"
    using comparator.neg_iff(2) [OF f, of b a] comparator.anti [OF f, of b a] comparator.anti [OF g, of b a]
    by (simp add: lexCmp_def)
  assume ab: "lexCmp f g a b \<le> 0" and bc: "lexCmp f g b c \<le> 0"
  have le: "f a b \<le> 0" "f b c \<le> 0" using ab bc by (auto simp: lexCmp_def split: if_splits)
  show "lexCmp f g a c \<le> 0"
  proof (cases "f a b = 0 \<and> f b c = 0")
    case True
    then have "f a c = 0" "g a b \<le> 0" "g b c \<le> 0"
      using comparator.zero_trans [OF f] ab bc by (auto simp: lexCmp_def)
    then show ?thesis using comparator.trans [OF g] by (simp add: lexCmp_def)
  next
    case False
    then have "f a c < 0" using comparator.strict [OF f] le by (metis order_less_le)
    then show ?thesis by (simp add: lexCmp_def)
  qed
qed

lemma comparator_cmpBig: "comparator (\<lambda>a b. cmpBig (h a) (h b))"
  by unfold_locales (auto simp: cmpBig_def split: if_splits)

lemma comparator_diff: "comparator (\<lambda>a b. h a - h b)"
  by unfold_locales (auto simp: sgn_if)

section \<open>Complete keys\<close>

text \<open>
  A key is complete when it has an ordinal and a sequence. \<open>completeCompare\<close> is the lexicographic
  comparison that \<open>compareOrderKeys\<close> is on such keys.
\<close>

definition key_complete :: "order_key \<Rightarrow> bool" where
  "key_complete k \<longleftrightarrow> ok_ingestOrdinal k \<noteq> None \<and> ok_seq k \<noteq> None"

definition completeCompare :: "order_key \<Rightarrow> order_key \<Rightarrow> int" where
  "completeCompare =
     lexCmp (\<lambda>a b. ok_sessionRank a - ok_sessionRank b)
    (lexCmp (\<lambda>a b. cmpBig (ok_receiveTimeMs a) (ok_receiveTimeMs b))
    (lexCmp (\<lambda>a b. cmpBig (the (ok_ingestOrdinal a)) (the (ok_ingestOrdinal b)))
    (lexCmp (\<lambda>a b. ok_streamRank a - ok_streamRank b)
    (lexCmp (\<lambda>a b. cmpBig (the (ok_seq a)) (the (ok_seq b)))
    (lexCmp (\<lambda>a b. ok_kindRank a - ok_kindRank b)
            (\<lambda>a b. cmpBig (ok_tiebreak a) (ok_tiebreak b)))))))"

interpretation order_keys: comparator completeCompare
  unfolding completeCompare_def by (intro comparator_lex comparator_diff comparator_cmpBig)

lemma compareOrderKeys_complete:
  assumes "key_complete a" "key_complete b"
  shows "compareOrderKeys a b = completeCompare a b"
proof -
  have "cmpIfBoth (ok_ingestOrdinal a) (ok_ingestOrdinal b) = cmpBig (the (ok_ingestOrdinal a)) (the (ok_ingestOrdinal b))"
    "cmpIfBoth (ok_seq a) (ok_seq b) = cmpBig (the (ok_seq a)) (the (ok_seq b))"
    using assms by (auto simp: key_complete_def cmpIfBoth_def)
  then show ?thesis by (simp only: compareOrderKeys_def completeCompare_def lexCmp_def Let_def) auto
qed

lemma cmpBig_0: "cmpBig a b = 0 \<longleftrightarrow> a = b"
  by (auto simp: cmpBig_def)

lemma completeCompare_0:
  assumes "key_complete a" "key_complete b" "completeCompare a b = 0"
  shows "a = b"
proof -
  have "the (ok_ingestOrdinal a) = the (ok_ingestOrdinal b)" "the (ok_seq a) = the (ok_seq b)"
    "ok_sessionRank a = ok_sessionRank b" "ok_receiveTimeMs a = ok_receiveTimeMs b"
    "ok_streamRank a = ok_streamRank b" "ok_kindRank a = ok_kindRank b" "ok_tiebreak a = ok_tiebreak b"
    using assms(3) by (simp_all add: completeCompare_def lexCmp_def cmpBig_0 split: if_splits)
  then show ?thesis using assms(1,2) by (intro order_key.equality) (auto simp: key_complete_def)
qed

section \<open>Properties\<close>

text \<open>
  C25: On keys that carry an ordinal and a sequence the comparison is a total order: swapping the
  arguments flips the sign, it is transitive, and it is zero on equal keys only.
\<close>
theorem order_total_on_complete_keys:
  assumes "key_complete a" "key_complete b" "key_complete c"
  shows "sgn (compareOrderKeys b a) = - sgn (compareOrderKeys a b) \<and>
    (compareOrderKeys a b \<le> 0 \<longrightarrow> compareOrderKeys b c \<le> 0 \<longrightarrow> compareOrderKeys a c \<le> 0) \<and>
    (compareOrderKeys a b = 0 \<longleftrightarrow> a = b)"
  using order_keys.anti [of b a] order_keys.trans [of a b c] completeCompare_0 [OF assms(1,2)] order_keys.refl [of a]
  by (auto simp: compareOrderKeys_complete assms)

definition wit_key :: "int \<Rightarrow> int option \<Rightarrow> int \<Rightarrow> order_key" where
  "wit_key t ordinal stream = \<lparr>ok_sessionRank = 0, ok_receiveTimeMs = t, ok_ingestOrdinal = ordinal,
     ok_streamRank = stream, ok_seq = Some 1, ok_kindRank = 2, ok_tiebreak = ''x''\<rparr>"

theorem order_total_on_complete_keys_witness:
  "sgn (compareOrderKeys (wit_key 5 (Some 2) 0) (wit_key 5 (Some 1) 1)) =
   - sgn (compareOrderKeys (wit_key 5 (Some 1) 1) (wit_key 5 (Some 2) 0)) \<and>
   compareOrderKeys (wit_key 4 (Some 1) 1) (wit_key 5 (Some 2) 0) < 0"
  using order_total_on_complete_keys [of "wit_key 5 (Some 1) 1" "wit_key 5 (Some 2) 0" "wit_key 5 (Some 2) 0"]
  by (simp add: key_complete_def wit_key_def compareOrderKeys_def cmpBig_def)

text \<open>
  C34: Without ordinals the comparison is not an order: three keys received in the same millisecond,
  of which one has no ordinal, each precede the next in a cycle, so the sorted position of such
  events depends on the order they were given in.
\<close>
theorem order_cycle_without_ordinals:
  "compareOrderKeys (wit_key 5 (Some 1) 2) (wit_key 5 (Some 2) 0) < 0 \<and>
   compareOrderKeys (wit_key 5 (Some 2) 0) (wit_key 5 None 1) < 0 \<and>
   compareOrderKeys (wit_key 5 None 1) (wit_key 5 (Some 1) 2) < 0"
  by (simp add: wit_key_def compareOrderKeys_def cmpBig_def cmpIfBoth_def)

end
