(* ===== verification/Timers.thy ===== *)
theory Timers
  imports Events "HOL-Library.Product_Lexorder"
begin

text \<open>
  Strategy timers and the simulation clock: \<open>src/src/research/engine/scheduler.ts\<close> and
  \<open>simulationClock.ts\<close>.

  The queue is sorted lazily: the flag \<open>dirty\<close> says that it may be unsorted. \<open>scheduler_ok\<close> is what
  every operation keeps; on it \<open>drainDue\<close> is characterised by the set of timers alone.
\<close>

section \<open>The clock\<close>

record simulation_clock =
  sc_current :: int
  sc_started :: "int option"

datatype clock_error = ClockMovedBackwards int int

definition newClock :: "int \<Rightarrow> simulation_clock" where
  "newClock startMs = \<lparr>sc_current = startMs, sc_started = None\<rparr>"

definition sc_nowMs :: "simulation_clock \<Rightarrow> int" where
  "sc_nowMs c = sc_current c"

definition sc_startMs :: "simulation_clock \<Rightarrow> int option" where
  "sc_startMs c = sc_started c"

definition sc_advanceTo :: "int \<Rightarrow> simulation_clock \<Rightarrow> clock_error + simulation_clock" where
  "sc_advanceTo ms c =
     (let c = (case sc_started c of None \<Rightarrow> c\<lparr>sc_started := Some ms\<rparr> | Some _ \<Rightarrow> c)
      in if ms < sc_current c then Inl (ClockMovedBackwards (sc_current c) ms)
         else Inr (c\<lparr>sc_current := ms\<rparr>))"

section \<open>The scheduler\<close>

record scheduled_timer =
  tm_id :: int
  tm_dueMs :: int
  tm_label :: string
  tm_sequence :: int
  tm_marketTicker :: "string option"

record timer_scheduler =
  ts_queue :: "scheduled_timer list"
  ts_nextId :: int
  ts_sequence :: int
  ts_dirty :: bool

datatype timer_error = TimerInThePast int

definition newScheduler :: timer_scheduler where
  "newScheduler = \<lparr>ts_queue = [], ts_nextId = 1, ts_sequence = 0, ts_dirty = False\<rparr>"

definition scheduleAt :: "int \<Rightarrow> string \<Rightarrow> string option \<Rightarrow> timer_scheduler \<Rightarrow> int \<times> timer_scheduler" where
  "scheduleAt dueMs label market s =
     (let timer = \<lparr>tm_id = ts_nextId s, tm_dueMs = dueMs, tm_label = label,
            tm_sequence = ts_sequence s, tm_marketTicker = market\<rparr>
      in (tm_id timer, s\<lparr>ts_queue := ts_queue s @ [timer], ts_nextId := ts_nextId s + 1,
            ts_sequence := ts_sequence s + 1, ts_dirty := True\<rparr>))"

definition scheduleAfter ::
  "int \<Rightarrow> int \<Rightarrow> string \<Rightarrow> string option \<Rightarrow> timer_scheduler \<Rightarrow> timer_error + int \<times> timer_scheduler" where
  "scheduleAfter nowMs delayMs label market s =
     (if delayMs < 0 then Inl (TimerInThePast delayMs)
      else Inr (scheduleAt (nowMs + delayMs) label market s))"

definition ts_cancel :: "int \<Rightarrow> timer_scheduler \<Rightarrow> bool \<times> timer_scheduler" where
  "ts_cancel i s =
     (let q = filter (\<lambda>t. tm_id t \<noteq> i) (ts_queue s)
      in (length q \<noteq> length (ts_queue s), s\<lparr>ts_queue := q\<rparr>))"

definition ts_cancelAll :: "timer_scheduler \<Rightarrow> timer_scheduler" where
  "ts_cancelAll s = s\<lparr>ts_queue := []\<rparr>"

definition timerKey :: "scheduled_timer \<Rightarrow> int \<times> int" where
  "timerKey t = (tm_dueMs t, tm_sequence t)"

definition sortIfNeeded :: "timer_scheduler \<Rightarrow> timer_scheduler" where
  "sortIfNeeded s =
     (if \<not> ts_dirty s then s
      else s\<lparr>ts_queue := sort_key timerKey (ts_queue s), ts_dirty := False\<rparr>)"

definition peekDueMs :: "timer_scheduler \<Rightarrow> int option \<times> timer_scheduler" where
  "peekDueMs s =
     (let s = sortIfNeeded s
      in ((case ts_queue s of [] \<Rightarrow> None | t # _ \<Rightarrow> Some (tm_dueMs t)), s))"

fun drainLoop :: "int \<Rightarrow> scheduled_timer list \<Rightarrow> scheduled_timer list \<times> scheduled_timer list" where
  "drainLoop ms [] = ([], [])"
| "drainLoop ms (t # q) =
     (if tm_dueMs t \<le> ms then (let (due, rest) = drainLoop ms q in (t # due, rest)) else ([], t # q))"

definition drainDue :: "int \<Rightarrow> timer_scheduler \<Rightarrow> scheduled_timer list \<times> timer_scheduler" where
  "drainDue ms s =
     (let s = sortIfNeeded s; (due, rest) = drainLoop ms (ts_queue s)
      in (due, s\<lparr>ts_queue := rest\<rparr>))"

definition ts_size :: "timer_scheduler \<Rightarrow> nat" where
  "ts_size s = length (ts_queue s)"

definition timerEvent :: "scheduled_timer \<Rightarrow> string \<Rightarrow> research_event" where
  "timerEvent t sessionId =
     EvTimer \<lparr>be_exchangeTimeMs = None, be_receiveTimeMs = tm_dueMs t, be_sessionId = sessionId,
        be_ingestOrdinal = None, be_streamId = None, be_seq = None,
        be_seriesTicker = None, be_eventTicker = None\<rparr>
       \<lparr>em_timerId = tm_id t, em_label = tm_label t, em_marketTicker = tm_marketTicker t\<rparr>"

section \<open>The invariant\<close>

definition scheduler_ok :: "timer_scheduler \<Rightarrow> bool" where
  "scheduler_ok s \<longleftrightarrow> distinct (map tm_id (ts_queue s)) \<and> distinct (map tm_sequence (ts_queue s)) \<and>
     (\<forall>t \<in> set (ts_queue s). tm_id t < ts_nextId s \<and> tm_sequence t < ts_sequence s) \<and>
     (\<not> ts_dirty s \<longrightarrow> sorted (map timerKey (ts_queue s)))"

datatype ts_op = TsScheduleAt int string "string option" | TsCancel int | TsCancelAll | TsPeek | TsDrain int

fun tsStep :: "timer_scheduler \<Rightarrow> ts_op \<Rightarrow> timer_scheduler" where
  "tsStep s (TsScheduleAt d l m) = snd (scheduleAt d l m s)"
| "tsStep s (TsCancel i) = snd (ts_cancel i s)"
| "tsStep s TsCancelAll = ts_cancelAll s"
| "tsStep s TsPeek = snd (peekDueMs s)"
| "tsStep s (TsDrain ms) = snd (drainDue ms s)"

lemma sortIfNeeded_ok: "scheduler_ok s \<Longrightarrow> scheduler_ok (sortIfNeeded s) \<and> sorted (map timerKey (ts_queue (sortIfNeeded s)))"
proof -
  assume ok: "scheduler_ok s"
  have d: "distinct (map f (sort_key timerKey q)) = distinct (map f q)" for f :: "scheduled_timer \<Rightarrow> int" and q
    by (metis mset_map mset_sort mset_eq_imp_distinct_iff)
  show ?thesis using ok by (auto simp: scheduler_ok_def sortIfNeeded_def d)
qed

lemma set_sortIfNeeded [simp]: "set (ts_queue (sortIfNeeded s)) = set (ts_queue s)"
  by (simp add: sortIfNeeded_def)

lemma drainLoop_append: "drainLoop ms q = (due, rest) \<Longrightarrow> q = due @ rest"
  by (induction q arbitrary: due) (auto split: if_splits prod.splits)

lemma drainLoop_due: "drainLoop ms q = (due, rest) \<Longrightarrow> t \<in> set due \<Longrightarrow> tm_dueMs t \<le> ms"
  by (induction q arbitrary: due) (auto split: if_splits prod.splits)

lemma drainLoop_rest:
  "sorted (map timerKey q) \<Longrightarrow> drainLoop ms q = (due, rest) \<Longrightarrow> t \<in> set rest \<Longrightarrow> ms < tm_dueMs t"
proof (induction q arbitrary: due)
  case (Cons a q)
  show ?case
  proof (cases "tm_dueMs a \<le> ms")
    case True
    then show ?thesis using Cons by (auto split: prod.splits)
  next
    case False
    have "t = a \<or> timerKey a \<le> timerKey t" using Cons.prems False by auto
    then show ?thesis using False by (auto simp: timerKey_def)
  qed
qed simp

lemma scheduler_ok_sub:
  assumes "scheduler_ok s" "\<not> ts_dirty s" "ts_queue s = xs @ q"
  shows "scheduler_ok (s\<lparr>ts_queue := q\<rparr>)"
  using assms by (auto simp: scheduler_ok_def sorted_append)

lemma sortIfNeeded_clean: "\<not> ts_dirty (sortIfNeeded s)"
  by (simp add: sortIfNeeded_def)

lemma drainDue_ok: "scheduler_ok s \<Longrightarrow> scheduler_ok (snd (drainDue ms s))"
proof -
  assume ok: "scheduler_ok s"
  obtain due rest where d: "drainLoop ms (ts_queue (sortIfNeeded s)) = (due, rest)" by fastforce
  show ?thesis
    using scheduler_ok_sub [OF conjunct1 [OF sortIfNeeded_ok [OF ok]] sortIfNeeded_clean drainLoop_append [OF d]]
    by (simp add: drainDue_def Let_def d)
qed

lemma sorted_map_filter': "sorted (map f xs) \<Longrightarrow> sorted (map f (filter P xs))"
  by (induction xs) auto

lemma distinct_map_filter': "distinct (map f xs) \<Longrightarrow> distinct (map f (filter P xs))"
  by (rule distinct_map_filter)

lemma tsStep_ok: "scheduler_ok s \<Longrightarrow> scheduler_ok (tsStep s op)"
proof (cases op)
  case (TsScheduleAt d l m)
  assume "scheduler_ok s"
  then show ?thesis
    by (fastforce simp: TsScheduleAt scheduler_ok_def scheduleAt_def Let_def)
next
  case (TsCancel i)
  assume "scheduler_ok s"
  then show ?thesis
    by (auto simp: TsCancel scheduler_ok_def ts_cancel_def Let_def sorted_map_filter' distinct_map_filter')
next
  case TsPeek
  assume "scheduler_ok s"
  then show ?thesis using sortIfNeeded_ok by (simp add: TsPeek peekDueMs_def Let_def)
qed (simp_all add: drainDue_ok, simp add: scheduler_ok_def ts_cancelAll_def)

interpretation timers: stepper tsStep "\<lambda>_. True" scheduler_ok
  by unfold_locales (rule tsStep_ok)

lemma sorted_keys_unique:
  assumes "sorted (map f xs)" "sorted (map f ys)" "distinct (map f xs)" "set xs = set ys" "distinct xs" "distinct ys"
  shows "xs = ys"
proof -
  have inj: "inj_on f (set xs)" using assms(3) by (simp add: distinct_map)
  have "map f xs = map f ys"
  proof (rule sorted_distinct_set_unique)
    show "sorted (map f xs)" "distinct (map f xs)" "sorted (map f ys)" by (fact assms)+
    show "distinct (map f ys)" using assms(6) inj unfolding assms(4) by (simp only: distinct_map)
    show "set (map f xs) = set (map f ys)" by (simp only: set_map assms(4))
  qed
  moreover have "inj_on f (set xs \<union> set ys)" using inj by (simp only: assms(4) Un_absorb)
  ultimately show ?thesis by (rule map_inj_on)
qed

text \<open>What draining returns depends on the set of timers only.\<close>

lemma partition_sets:
  assumes "S = A \<union> B" "\<forall>t \<in> B. \<not> P t" "\<forall>t \<in> A. P t"
  shows "A = {t \<in> S. P t}" "B = {t \<in> S. \<not> P t}"
  using assms by blast+

lemma scheduler_keys_distinct:
  assumes "distinct (map tm_sequence q)"
  shows "distinct (map timerKey q)" "distinct q"
proof -
  have "distinct (map snd (map timerKey q))" using assms by (simp add: timerKey_def comp_def)
  then show "distinct (map timerKey q)" by (rule distinct_map [THEN iffD1, THEN conjunct1])
  show "distinct q" using assms by (rule distinct_map [THEN iffD1, THEN conjunct1])
qed

lemma drainDue_spec:
  assumes "scheduler_ok s"
  shows "fst (drainDue ms s) = sort_key timerKey (filter (\<lambda>t. tm_dueMs t \<le> ms) (ts_queue s)) \<and>
    set (ts_queue (snd (drainDue ms s))) = {t \<in> set (ts_queue s). ms < tm_dueMs t}"
proof -
  note so = sortIfNeeded_ok [OF assms]
  obtain due rest where d: "drainLoop ms (ts_queue (sortIfNeeded s)) = (due, rest)" by fastforce
  have q: "ts_queue (sortIfNeeded s) = due @ rest" by (rule drainLoop_append [OF d])
  have "set (ts_queue s) = set (due @ rest)" using q set_sortIfNeeded [of s] by simp
  then have u: "set (ts_queue s) = set due \<union> set rest" by simp
  have rest: "\<forall>t \<in> set rest. \<not> tm_dueMs t \<le> ms"
    using drainLoop_rest [OF conjunct2 [OF so] d] by (simp add: not_le)
  have due: "\<forall>t \<in> set due. tm_dueMs t \<le> ms" using drainLoop_due [OF d] by blast
  note sets = partition_sets [OF u rest due]
  have "distinct (map tm_sequence (due @ rest))" using conjunct1 [OF so] q by (simp only: scheduler_ok_def)
  then have dist: "distinct (map tm_sequence due)" by simp
  have dq: "distinct (ts_queue s)"
    by (rule scheduler_keys_distinct(2)) (use assms in \<open>simp add: scheduler_ok_def\<close>)
  have "due = sort_key timerKey (filter (\<lambda>t. tm_dueMs t \<le> ms) (ts_queue s))"
  proof (rule sorted_keys_unique [where f = timerKey])
    have "sorted (map timerKey (due @ rest))" using conjunct2 [OF so] by (simp only: q)
    then show "sorted (map timerKey due)" by (simp only: map_append sorted_append)
    show "distinct (sort_key timerKey (filter (\<lambda>t. tm_dueMs t \<le> ms) (ts_queue s)))" using dq by simp
    show "set due = set (sort_key timerKey (filter (\<lambda>t. tm_dueMs t \<le> ms) (ts_queue s)))"
      by (subst sets(1)) simp
    show "distinct (map timerKey due)" "distinct due" by (rule scheduler_keys_distinct [OF dist])+
    show "sorted (map timerKey (sort_key timerKey (filter (\<lambda>t. tm_dueMs t \<le> ms) (ts_queue s))))"
      by (rule sorted_sort_key)
  qed
  moreover have "set rest = {t \<in> set (ts_queue s). ms < tm_dueMs t}" using sets(2) by (simp add: not_le)
  ultimately show ?thesis by (simp add: drainDue_def Let_def d)
qed

lemma peekDueMs_spec:
  assumes "scheduler_ok s"
  shows "case fst (peekDueMs s) of None \<Rightarrow> ts_queue s = []
    | Some d \<Rightarrow> (\<exists>t \<in> set (ts_queue s). tm_dueMs t = d) \<and> (\<forall>t \<in> set (ts_queue s). d \<le> tm_dueMs t)"
proof (cases "ts_queue (sortIfNeeded s)")
  case Nil
  then have "set (ts_queue s) = {}" by (metis set_empty set_sortIfNeeded)
  then show ?thesis using Nil by (simp add: peekDueMs_def Let_def)
next
  case (Cons t q)
  then have s: "set (ts_queue s) = insert t (set q)" by (metis list.simps(15) set_sortIfNeeded)
  have "\<forall>u \<in> set q. timerKey t \<le> timerKey u" using sortIfNeeded_ok [OF assms] Cons by simp
  then have "\<forall>u \<in> set q. tm_dueMs t \<le> tm_dueMs u" by (auto simp: timerKey_def)
  then show ?thesis using Cons s by (simp add: peekDueMs_def Let_def)
qed

section \<open>Properties\<close>

text \<open>
  C27: After any operations, draining up to an instant returns exactly the timers due by then, by due
  time and in the order they were requested within one instant, and leaves exactly the later ones;
  peeking gives the earliest due time. The lazily sorted queue shows nothing of when it was sorted.
\<close>
theorem timers_drain_in_order:
  "let s = foldl tsStep newScheduler ops
   in fst (drainDue ms s) = sort_key timerKey (filter (\<lambda>t. tm_dueMs t \<le> ms) (ts_queue s)) \<and>
      set (ts_queue (snd (drainDue ms s))) = {t \<in> set (ts_queue s). ms < tm_dueMs t} \<and>
      (case fst (peekDueMs s) of None \<Rightarrow> ts_queue s = []
       | Some d \<Rightarrow> (\<exists>t \<in> set (ts_queue s). tm_dueMs t = d) \<and> (\<forall>t \<in> set (ts_queue s). d \<le> tm_dueMs t))"
proof -
  have "scheduler_ok (foldl tsStep newScheduler ops)"
    by (rule timers.run_inv) (simp_all add: scheduler_ok_def newScheduler_def)
  then show ?thesis using drainDue_spec peekDueMs_spec by (simp add: Let_def)
qed

theorem timers_drain_in_order_witness:
  "map tm_label (fst (drainDue 20 (foldl tsStep newScheduler
     [TsScheduleAt 20 ''b'' None, TsScheduleAt 10 ''a'' None, TsPeek, TsScheduleAt 20 ''c'' None,
      TsScheduleAt 30 ''d'' None, TsCancel 1]))) = [''a'', ''c'']"
proof -
  let ?ops = "[TsScheduleAt 20 ''b'' None, TsScheduleAt 10 ''a'' None, TsPeek, TsScheduleAt 20 ''c'' None,
      TsScheduleAt 30 ''d'' None, TsCancel 1]"
  have "fst (drainDue 20 (foldl tsStep newScheduler ?ops)) =
      sort_key timerKey (filter (\<lambda>t. tm_dueMs t \<le> 20) (ts_queue (foldl tsStep newScheduler ?ops)))"
    using timers_drain_in_order [of ?ops 20] unfolding Let_def by (rule conjunct1)
  then show ?thesis
    by (simp add: newScheduler_def scheduleAt_def Let_def peekDueMs_def sortIfNeeded_def timerKey_def ts_cancel_def)
qed

lemma clock_monotone: "sc_advanceTo ms c = Inr c' \<Longrightarrow> sc_nowMs c \<le> sc_nowMs c' \<and> sc_nowMs c' = ms"
  by (auto simp: sc_advanceTo_def sc_nowMs_def Let_def split: if_splits option.splits)

end
