(* ===== verification/Markets.thy ===== *)
theory Markets
  imports Decimals
begin

text \<open>
  What the exchange says a market is and how it ended:
  \<open>src/src/research/data/marketDefinitions.ts\<close>.

  \<open>trim\<close> and \<open>toLowerCase\<close> are written out on the characters of Isabelle's \<open>char\<close>; the status and
  result words the code compares with are ASCII, and no character outside ASCII is mapped into it.
\<close>

section \<open>Lifecycle and settlement\<close>

datatype lifecycle_state = LcOpen | LcClosedUndetermined | LcDeterminedYes | LcDeterminedNo | LcVoided

datatype settlement_basis = SbSettlementValue | SbResult | SbNone

record market_state =
  ms_marketTicker :: string
  ms_eventTicker :: "string option"
  ms_seriesTicker :: "string option"
  ms_state :: lifecycle_state
  ms_rawStatus :: "string option"
  ms_rawResult :: "string option"
  ms_yesSettlementValue :: "rat option"
  ms_settlementBasis :: settlement_basis
  ms_notionalValue :: "rat option"
  ms_isProvisional :: bool
  ms_closeTimeMs :: "int option"
  ms_settlementTimeMs :: "int option"
  ms_observedAtMs :: "int option"
  ms_strikeType :: "string option"
  ms_floorStrike :: "rat option"
  ms_capStrike :: "rat option"
  ms_feeType :: "string option"
  ms_feeMultiplier :: "rat option"
  ms_feeUpdatedAtMs :: "int option"
  ms_settlementSources :: "string list"

definition js_space :: "char \<Rightarrow> bool" where
  "js_space c = ((of_char c :: nat) \<in> {9, 10, 11, 12, 13, 32, 160})"

definition js_trim :: "string \<Rightarrow> string" where
  "js_trim s = rev (dropWhile js_space (rev (dropWhile js_space s)))"

definition lower_char :: "char \<Rightarrow> char" where
  "lower_char c = (let n = (of_char c :: nat) in
     if 65 \<le> n \<and> n \<le> 90 \<or> 192 \<le> n \<and> n \<le> 222 \<and> n \<noteq> 215 then char_of (n + 32) else c)"

definition js_toLowerCase :: "string \<Rightarrow> string" where
  "js_toLowerCase s = map lower_char s"

definition norm_word :: "string option \<Rightarrow> string" where
  "norm_word x = js_toLowerCase (js_trim (case x of None \<Rightarrow> '''' | Some s \<Rightarrow> s))"

definition resolveLifecycleState :: "string option \<Rightarrow> string option \<Rightarrow> lifecycle_state" where
  "resolveLifecycleState status result =
     (let r = norm_word result; s = norm_word status in
      if r = ''yes'' then LcDeterminedYes
      else if r = ''no'' then LcDeterminedNo
      else if r = ''void'' \<or> r = ''voided'' \<or> r = ''cancelled'' \<or> r = ''canceled'' then LcVoided
      else if s = ''closed'' \<or> s = ''determined'' \<or> s = ''settled'' \<or> s = ''finalized''
      then LcClosedUndetermined
      else LcOpen)"

definition isDetermined :: "lifecycle_state \<Rightarrow> bool" where
  "isDetermined state = (state = LcDeterminedYes \<or> state = LcDeterminedNo \<or> state = LcVoided)"

record payout =
  po_value :: "rat option"
  po_basis :: settlement_basis

definition yesPayout :: "dec_lib \<Rightarrow> lifecycle_state \<Rightarrow> rat option \<Rightarrow> rat option \<Rightarrow> payout" where
  "yesPayout L state settlementValue notionalValue =
     (case settlementValue of
        Some v \<Rightarrow>
          (let notional = (case notionalValue of None \<Rightarrow> 1 | Some n \<Rightarrow> n) in
           if notional = 0 then \<lparr>po_value = None, po_basis = SbNone\<rparr>
           else \<lparr>po_value = Some (ddiv L v notional), po_basis = SbSettlementValue\<rparr>)
      | None \<Rightarrow>
          if state = LcDeterminedYes then \<lparr>po_value = Some 1, po_basis = SbResult\<rparr>
          else if state = LcDeterminedNo then \<lparr>po_value = Some 0, po_basis = SbResult\<rparr>
          else \<lparr>po_value = None, po_basis = SbNone\<rparr>)"

section \<open>Lemmas\<close>

lemma norm_word_None [simp]: "norm_word None = ''''"
  by (simp add: norm_word_def js_trim_def js_toLowerCase_def)

lemma length_trim: "length (js_trim s) \<le> length s"
proof -
  have "length (js_trim s) \<le> length (dropWhile js_space s)"
    unfolding js_trim_def length_rev by (metis length_dropWhile_le length_rev)
  also have "\<dots> \<le> length s" by (rule length_dropWhile_le)
  finally show ?thesis .
qed

lemma trim_space:
  assumes "js_space c"
  shows "js_trim (c # s) = js_trim s" "js_trim (s @ [c]) = js_trim s"
proof -
  show "js_trim (c # s) = js_trim s" using assms by (simp add: js_trim_def)
  have "dropWhile js_space (rev (dropWhile js_space (s @ [c]))) = dropWhile js_space (rev (dropWhile js_space s))"
  proof (cases "\<forall>x \<in> set s. js_space x")
    case True
    then have nil: "dropWhile js_space (s @ [c]) = []" "dropWhile js_space s = []" using assms by simp_all
    show ?thesis by (simp only: nil)
  next
    case False
    then obtain x where x: "x \<in> set s" "\<not> js_space x" by blast
    have "dropWhile js_space (s @ [c]) = dropWhile js_space s @ [c]"
      by (rule dropWhile_append1) (use x in auto)
    then show ?thesis using assms by simp
  qed
  then show "js_trim (s @ [c]) = js_trim s" by (simp add: js_trim_def)
qed

lemma determined_iff:
  "isDetermined (resolveLifecycleState status result) \<longleftrightarrow>
     norm_word result \<in> {''yes'', ''no'', ''void'', ''voided'', ''cancelled'', ''canceled''}"
  by (auto simp: isDetermined_def resolveLifecycleState_def Let_def)

lemma payout_value_None:
  "po_value (yesPayout L state sv nv) = None \<longleftrightarrow> po_basis (yesPayout L state sv nv) = SbNone"
  by (auto simp: yesPayout_def Let_def split: option.split)

section \<open>Properties\<close>

text \<open>
  C25: No payout is invented: the code derives a payout from the status and result strings only when
  the exchange named a side, cased and padded in any way; every other string, a missing one included,
  leaves the market without a payout, and an unrecognised status leaves it open. A stated settlement
  value takes precedence and lies between 0 and 1 whenever it is between 0 and the notional.
\<close>
theorem payout_never_invented:
  assumes "decimal_lib L"
  shows "po_value (yesPayout L (resolveLifecycleState status result) None nv) =
      (if norm_word result = ''yes'' then Some 1 else if norm_word result = ''no'' then Some 0 else None) \<and>
    (norm_word result \<notin> {''yes'', ''no'', ''void'', ''voided'', ''cancelled'', ''canceled''} \<longrightarrow>
      \<not> isDetermined (resolveLifecycleState status result) \<and>
      (norm_word status \<notin> {''closed'', ''determined'', ''settled'', ''finalized''} \<longrightarrow>
        resolveLifecycleState status result = LcOpen)) \<and>
    (0 < n \<and> 0 \<le> v \<and> v \<le> n \<longrightarrow>
      (\<exists>p. yesPayout L state (Some v) (Some n) = \<lparr>po_value = Some p, po_basis = SbSettlementValue\<rparr> \<and> 0 \<le> p \<and> p \<le> 1))"
proof (intro conjI impI)
  show "po_value (yesPayout L (resolveLifecycleState status result) None nv) =
      (if norm_word result = ''yes'' then Some 1 else if norm_word result = ''no'' then Some 0 else None)"
    by (simp add: yesPayout_def resolveLifecycleState_def Let_def)
  assume un: "norm_word result \<notin> {''yes'', ''no'', ''void'', ''voided'', ''cancelled'', ''canceled''}"
  then show "\<not> isDetermined (resolveLifecycleState status result)" by (simp only: determined_iff) simp
  assume "norm_word status \<notin> {''closed'', ''determined'', ''settled'', ''finalized''}"
  then show "resolveLifecycleState status result = LcOpen"
    using un by (simp add: resolveLifecycleState_def Let_def)
next
  assume v: "0 < n \<and> 0 \<le> v \<and> v \<le> n"
  then have "0 \<le> ddiv L v n" "ddiv L v n \<le> 1"
    using decimal_lib.ddiv_unit [OF assms, of n v] v by simp_all
  then show "\<exists>p. yesPayout L state (Some v) (Some n) = \<lparr>po_value = Some p, po_basis = SbSettlementValue\<rparr> \<and> 0 \<le> p \<and> p \<le> 1"
    using v by (simp add: yesPayout_def Let_def)
qed

theorem payout_never_invented_witness:
  "po_value (yesPayout std_dlib (resolveLifecycleState (Some ''settled'') (Some '' YES '')) None None) = Some 1 \<and>
   resolveLifecycleState (Some ''settled'') (Some ''pending'') = LcClosedUndetermined \<and>
   map_option (\<lambda>p. 0 \<le> p \<and> p \<le> 1) (po_value (yesPayout std_dlib LcOpen (Some 1) (Some 2))) = Some True"
proof -
  have y: "norm_word (Some '' YES '') = ''yes''" by code_simp
  have c: "resolveLifecycleState (Some ''settled'') (Some ''pending'') = LcClosedUndetermined" by code_simp
  note p = payout_never_invented [OF std.decimal_lib_axioms, of "Some ''settled''" "Some '' YES ''" None 2 1 LcOpen]
  show ?thesis using p y c by auto
qed

end
