(* ===== verification/Fees.thy ===== *)
theory Fees
  imports Markets Rows "HOL-Library.List_Lexorder" "HOL-Library.Char_ord"
begin

text \<open>
  Trading fees: \<open>src/src/research/portfolio/fees.ts\<close> and \<open>feeSchedule.ts\<close>.

  A \<open>FeeModel\<close> is a record of its methods over a state \<open>'s\<close>; the mutable fields of
  \<open>KalshiHistoricalFeeModel\<close> are the record \<open>fee_state\<close>. The zod parsing and the reading of the
  schedule file are not modelled. \<open>Date.parse\<close> is written out for the ISO forms \<open>YYYY-MM-DD\<close> and
  \<open>YYYY-MM-DDTHH:mm:ss[.sss]Z\<close>; ECMAScript leaves other strings to the implementation, which is the
  argument \<open>other\<close>. Decimals printed by \<open>toString\<close> in the provenance are kept as the decimal.
\<close>

section \<open>Date.parse\<close>

definition daysFromCivil :: "int \<Rightarrow> int \<Rightarrow> int \<Rightarrow> int" where
  "daysFromCivil y m d =
     (let y' = (if m \<le> 2 then y - 1 else y);
          doy = (153 * (if 2 < m then m - 3 else m + 9) + 2) div 5 + d - 1;
          yoe = y' mod 400;
          doe = yoe * 365 + yoe div 4 - yoe div 100 + doy
      in y' div 400 * 146097 + doe - 719468)"

definition daysInMonth :: "int \<Rightarrow> int \<Rightarrow> int" where
  "daysInMonth y m =
     (if m = 2 then (if 4 dvd y \<and> (\<not> 100 dvd y \<or> 400 dvd y) then 29 else 28)
      else if m \<in> {4, 6, 9, 11} then 30 else 31)"

definition all_digits :: "string \<Rightarrow> bool" where
  "all_digits s = (s \<noteq> [] \<and> list_all (\<lambda>c. c \<in> set digit_alphabet) s)"

definition num :: "string \<Rightarrow> int" where
  "num s = int (read_digs s)"

definition isoDay :: "string \<Rightarrow> int option" where
  "isoDay s =
     (let y = num (take 4 s); m = num (take 2 (drop 5 s)); d = num (drop 8 s) in
      if length s = 10 \<and> s ! 4 = CHR ''-'' \<and> s ! 7 = CHR ''-'' \<and> all_digits (take 4 s) \<and>
         all_digits (take 2 (drop 5 s)) \<and> all_digits (drop 8 s) \<and> 1 \<le> m \<and> m \<le> 12 \<and>
         1 \<le> d \<and> d \<le> daysInMonth y m
      then Some (daysFromCivil y m d) else None)"

definition isoMillis :: "string \<Rightarrow> int option" where
  \<comment> \<open>the part \<open>[.sss]Z\<close> after the seconds\<close>
  "isoMillis s =
     (if s = ''Z'' then Some 0
      else if length s = 5 \<and> s ! 0 = CHR ''.'' \<and> s ! 4 = CHR ''Z'' \<and> all_digits (take 3 (drop 1 s))
      then Some (num (take 3 (drop 1 s))) else None)"

definition isoTime :: "string \<Rightarrow> int option" where
  \<comment> \<open>\<open>THH:mm:ss[.sss]Z\<close> in milliseconds\<close>
  "isoTime s =
     (let h = num (take 2 (drop 1 s)); mi = num (take 2 (drop 4 s)); sec = num (take 2 (drop 7 s)) in
      if 9 < length s \<and> s ! 0 = CHR ''T'' \<and> s ! 3 = CHR '':'' \<and> s ! 6 = CHR '':'' \<and>
         all_digits (take 2 (drop 1 s)) \<and> all_digits (take 2 (drop 4 s)) \<and> all_digits (take 2 (drop 7 s)) \<and>
         h < 24 \<and> mi < 60 \<and> sec < 60
      then map_option (\<lambda>ms. ((h * 60 + mi) * 60 + sec) * 1000 + ms) (isoMillis (drop 9 s)) else None)"

definition dateParse :: "(string \<Rightarrow> int option) \<Rightarrow> string \<Rightarrow> int option" where
  "dateParse other s =
     (case isoDay (take 10 s) of
        None \<Rightarrow> other s
      | Some day \<Rightarrow>
          if length s = 10 then Some (day * 86400000)
          else (case isoTime (drop 10 s) of None \<Rightarrow> other s | Some t \<Rightarrow> Some (day * 86400000 + t)))"

section \<open>The schedule\<close>

datatype schedule_notes = NoteText string | NoteLines "string list"

record fee_schedule_entry =
  se_feeType :: string
  se_baseRate :: string
  se_makerFeePerContract :: string
  se_roundUpToCents :: bool
  se_effectiveFrom :: string
  se_source :: string
  se_verified :: bool
  se_verifiedBy :: "string option"
  se_verifiedAt :: "string option"
  se_notes :: "schedule_notes option"

record maker_rebate =
  mr_programme :: string
  mr_perContract :: string
  mr_source :: string
  mr_effectiveFrom :: string
  mr_verified :: bool

record fee_schedule_file =
  sf_schedules :: "fee_schedule_entry list"
  sf_makerRebate :: "maker_rebate option"

definition MAX_SAFE_INTEGER :: int where
  "MAX_SAFE_INTEGER = 2 ^ 53 - 1"

definition scheduleFor ::
  "(string \<Rightarrow> int option) \<Rightarrow> fee_schedule_file \<Rightarrow> string option \<Rightarrow> int option \<Rightarrow> fee_schedule_entry option" where
  "scheduleFor other file feeType atMs =
     (case feeType of
        None \<Rightarrow> None
      | Some ft \<Rightarrow>
          (let instant = (case atMs of None \<Rightarrow> MAX_SAFE_INTEGER | Some a \<Rightarrow> a);
               candidates = sort_key (\<lambda>s. - (case dateParse other (se_effectiveFrom s) of None \<Rightarrow> 0 | Some d \<Rightarrow> d))
                 (filter (\<lambda>s. case dateParse other (se_effectiveFrom s) of None \<Rightarrow> False | Some d \<Rightarrow> d \<le> instant)
                   (filter (\<lambda>s. se_feeType s = ft) (sf_schedules file)))
           in case candidates of [] \<Rightarrow> None | e # _ \<Rightarrow> Some e))"

section \<open>The fee models\<close>

datatype liquidity = Maker | Taker

record fee_context =
  fc_marketTicker :: string
  fc_quantity :: rat
  fc_yesPrice :: rat
  fc_liquidity :: liquidity
  fc_market :: "market_state option"
  fc_atMs :: int

record fee_outcome =
  fo_amount :: rat
  fo_known :: bool
  fo_reason :: "string option"

record fee_provenance =
  fp_model :: string
  fp_verified :: bool
  fp_source :: "string option"
  fp_feeType :: "string option"
  fp_feeMultiplier :: "rat option"
  fp_baseRate :: "string option"
  fp_makerFeePerContract :: "string option"
  fp_effectiveAt :: "string option"
  fp_verifiedBy :: "string option"
  fp_verifiedAt :: "string option"
  fp_unverifiedReasons :: "string list"
  fp_unresolvedMarkets :: "string list"
  fp_makerRebateApplied :: bool

record 's fee_model =
  fe_name :: string
  fe_fee :: "fee_context \<Rightarrow> 's \<Rightarrow> fee_outcome \<times> 's"
  fe_provenance :: "'s \<Rightarrow> fee_provenance"

record fee_state =
  fs_seen :: "(string, fee_schedule_entry option) jsmap"
  fs_reasons :: "string list"
  fs_unresolved :: "string list"
  fs_anyUnverified :: bool
  fs_lastEntry :: "fee_schedule_entry option"
  fs_lastFeeType :: "string option"
  fs_lastMultiplier :: "rat option"

definition newFeeState :: fee_state where
  "newFeeState = \<lparr>fs_seen = [], fs_reasons = [], fs_unresolved = [], fs_anyUnverified = False,
     fs_lastEntry = None, fs_lastFeeType = None, fs_lastMultiplier = None\<rparr>"

definition unresolvedFee :: "string \<Rightarrow> string \<Rightarrow> string \<Rightarrow> fee_state \<Rightarrow> fee_outcome \<times> fee_state" where
  \<comment> \<open>the three early returns for a market whose fee cannot be resolved\<close>
  "unresolvedFee ticker why reason s =
     (\<lparr>fo_amount = 0, fo_known = False, fo_reason = Some reason\<rparr>,
      s\<lparr>fs_unresolved := set_add ticker (fs_unresolved s), fs_reasons := set_add why (fs_reasons s),
        fs_anyUnverified := True\<rparr>)"

definition feeKey :: "string \<Rightarrow> int option \<Rightarrow> string" where
  "feeKey feeType updated = feeType @ ''@'' @ (case updated of None \<Rightarrow> ''null'' | Some n \<Rightarrow> int_str n)"

definition lookupEntry ::
  "(string \<Rightarrow> int option) \<Rightarrow> fee_schedule_file \<Rightarrow> string \<Rightarrow> int option \<Rightarrow> int \<Rightarrow> fee_state
    \<Rightarrow> fee_schedule_entry option \<times> fee_state" where
  "lookupEntry other file feeType updated atMs s =
     (let key = feeKey feeType updated in
      case js_get (fs_seen s) key of
        Some entry \<Rightarrow> (entry, s)
      | None \<Rightarrow>
          (let entry = scheduleFor other file (Some feeType) (Some atMs)
           in (entry, s\<lparr>fs_seen := js_set key entry (fs_seen s)\<rparr>)))"

definition rawFee :: "dec_lib \<Rightarrow> fee_schedule_entry \<Rightarrow> rat option \<Rightarrow> fee_context \<Rightarrow> rat" where
  "rawFee L entry feeMultiplier ctx =
     (let multiplier = (case feeMultiplier of None \<Rightarrow> 1 | Some m \<Rightarrow> m) in
      if fc_liquidity ctx = Taker
      then dl_of_string L (se_baseRate entry) * multiplier * fc_quantity ctx * fc_yesPrice ctx * (1 - fc_yesPrice ctx)
      else dl_of_string L (se_makerFeePerContract entry) * fc_quantity ctx)"

definition chargedFee :: "dec_lib \<Rightarrow> fee_schedule_entry \<Rightarrow> rat \<Rightarrow> rat" where
  "chargedFee L entry raw =
     (if raw \<le> 0 then 0
      else if se_roundUpToCents entry then ddiv L (of_int \<lceil>raw * 100\<rceil>) 100 else raw)"

definition kalshi_fee ::
  "dec_lib \<Rightarrow> (string \<Rightarrow> int option) \<Rightarrow> fee_schedule_file \<Rightarrow> fee_context \<Rightarrow> fee_state \<Rightarrow> fee_outcome \<times> fee_state" where
  "kalshi_fee L other file ctx s =
     (case fc_market ctx of
        None \<Rightarrow> unresolvedFee (fc_marketTicker ctx) ''no market_state record in the lake for this market'' ''market_state_missing'' s
      | Some market \<Rightarrow>
          if ms_feeType market = None \<or> ms_feeType market = Some ''''
          then unresolvedFee (fc_marketTicker ctx) ''the exchange reported no fee_type for this series'' ''fee_type_missing'' s
          else
            (let feeType = the (ms_feeType market);
                 (found, s) = lookupEntry other file feeType (ms_feeUpdatedAtMs market) (fc_atMs ctx) s
             in case found of
                  None \<Rightarrow> unresolvedFee (fc_marketTicker ctx)
                    (''no schedule entry for fee_type '' @ [CHR 0x22] @ feeType @ [CHR 0x22] @ '' in config/feeSchedule.json'')
                    ''schedule_entry_missing'' s
                | Some entry \<Rightarrow>
                    (let s = s\<lparr>fs_lastEntry := Some entry, fs_lastFeeType := Some feeType,
                           fs_lastMultiplier := ms_feeMultiplier market\<rparr>
                     in if \<not> se_verified entry then
                          (\<lparr>fo_amount = 0, fo_known = False, fo_reason = Some ''schedule_entry_unverified''\<rparr>,
                           s\<lparr>fs_reasons := set_add (''schedule entry for '' @ [CHR 0x22] @ se_feeType entry @ [CHR 0x22] @
                                '' is not marked verified (source '' @ se_source entry @ '')'') (fs_reasons s),
                             fs_anyUnverified := True\<rparr>)
                        else
                          (\<lparr>fo_amount = chargedFee L entry (rawFee L entry (ms_feeMultiplier market) ctx),
                            fo_known = True, fo_reason = None\<rparr>, s))))"

definition kalshi_provenance :: "fee_state \<Rightarrow> fee_provenance" where
  "kalshi_provenance s =
     (let entry = fs_lastEntry s in
      \<lparr>fp_model = ''kalshi_historical'',
       fp_verified = (\<not> fs_anyUnverified s \<and> entry \<noteq> None),
       fp_source = map_option se_source entry,
       fp_feeType = fs_lastFeeType s,
       fp_feeMultiplier = fs_lastMultiplier s,
       fp_baseRate = map_option se_baseRate entry,
       fp_makerFeePerContract = map_option se_makerFeePerContract entry,
       fp_effectiveAt = map_option se_effectiveFrom entry,
       fp_verifiedBy = Option.bind entry se_verifiedBy,
       fp_verifiedAt = Option.bind entry se_verifiedAt,
       fp_unverifiedReasons = sort (fs_reasons s),
       fp_unresolvedMarkets = take 20 (sort (fs_unresolved s)),
       fp_makerRebateApplied = False\<rparr>)"

definition kalshiHistoricalFeeModel ::
  "dec_lib \<Rightarrow> (string \<Rightarrow> int option) \<Rightarrow> fee_schedule_file \<Rightarrow> fee_state fee_model" where
  "kalshiHistoricalFeeModel L other file =
     \<lparr>fe_name = ''kalshi_historical'', fe_fee = kalshi_fee L other file, fe_provenance = kalshi_provenance\<rparr>"

definition zero_provenance :: fee_provenance where
  "zero_provenance =
     \<lparr>fp_model = ''zero'', fp_verified = True,
      fp_source = Some ''deliberate counterfactual: fees excluded from this run'',
      fp_feeType = None, fp_feeMultiplier = None, fp_baseRate = Some ''0'', fp_makerFeePerContract = Some ''0'',
      fp_effectiveAt = None, fp_verifiedBy = None, fp_verifiedAt = None, fp_unverifiedReasons = [],
      fp_unresolvedMarkets = [], fp_makerRebateApplied = False\<rparr>"

definition zeroFeeModel :: "unit fee_model" where
  "zeroFeeModel = \<lparr>fe_name = ''zero'',
     fe_fee = (\<lambda>ctx s. (\<lparr>fo_amount = 0, fo_known = True, fo_reason = None\<rparr>, s)),
     fe_provenance = (\<lambda>s. zero_provenance)\<rparr>"

section \<open>The contract\<close>

text \<open>
  What the exchange and the portfolio rely on: a fee is never negative, an unknown fee is the
  placeholder zero, and a model that once answered \<open>known: false\<close> never reports itself verified
  again. \<open>tainted\<close> is the part of the state that remembers it.
\<close>

locale fee_model =
  fixes FM :: "'s fee_model" and tainted :: "'s \<Rightarrow> bool"
  assumes amount_nonneg: "fe_fee FM ctx s = (out, s') \<Longrightarrow> 0 \<le> fo_amount out"
    and unknown_is_zero: "fe_fee FM ctx s = (out, s') \<Longrightarrow> \<not> fo_known out \<Longrightarrow> fo_amount out = 0"
    and unknown_taints: "fe_fee FM ctx s = (out, s') \<Longrightarrow> \<not> fo_known out \<or> tainted s \<Longrightarrow> tainted s'"
    and tainted_unverified: "tainted s \<Longrightarrow> \<not> fp_verified (fe_provenance FM s)"

text \<open>All the fees of a run, in order.\<close>

fun feeRun :: "'s fee_model \<Rightarrow> fee_context list \<Rightarrow> 's \<Rightarrow> fee_outcome list \<times> 's" where
  "feeRun FM [] s = ([], s)"
| "feeRun FM (c # cs) s =
     (let (out, s) = fe_fee FM c s; (outs, s) = feeRun FM cs s in (out # outs, s))"

context fee_model
begin

lemma run_tainted: "feeRun FM cs s = (outs, s') \<Longrightarrow> tainted s \<or> (\<exists>out \<in> set outs. \<not> fo_known out) \<Longrightarrow> tainted s'"
proof (induction cs arbitrary: s s' outs)
  case (Cons c cs)
  obtain out s1 where 1: "fe_fee FM c s = (out, s1)" by fastforce
  obtain outs2 s2 where 2: "feeRun FM cs s1 = (outs2, s2)" by fastforce
  have "tainted s1 \<or> (\<exists>out \<in> set outs2. \<not> fo_known out)"
    using Cons.prems unknown_taints [OF 1] by (auto simp: 1 2)
  then show ?case using Cons.IH [OF 2] Cons.prems(1) by (simp add: 1 2)
qed simp

lemma verified_all_known:
  assumes "feeRun FM cs s = (outs, s')" "fp_verified (fe_provenance FM s')" "out \<in> set outs"
  shows "fo_known out"
  using run_tainted [OF assms(1)] tainted_unverified assms(2,3) by blast

lemma run_nonneg: "feeRun FM cs s = (outs, s') \<Longrightarrow> out \<in> set outs \<Longrightarrow> 0 \<le> fo_amount out"
proof (induction cs arbitrary: s s' outs)
  case (Cons c cs)
  obtain out1 s1 where 1: "fe_fee FM c s = (out1, s1)" by fastforce
  obtain outs2 s2 where 2: "feeRun FM cs s1 = (outs2, s2)" by fastforce
  show ?case using Cons.IH [OF 2] Cons.prems amount_nonneg [OF 1] by (auto simp: 1 2)
qed simp

end

interpretation zero_fee: fee_model zeroFeeModel "\<lambda>s. False"
  by unfold_locales (auto simp: zeroFeeModel_def)

section \<open>The historical model\<close>

lemma num_ceil:
  fixes x :: rat
  assumes "0 < x"
  shows "x \<le> of_int \<lceil>x * 100\<rceil> / 100" "of_int \<lceil>x * 100\<rceil> / 100 < x + 1 / 100" "0 < \<lceil>x * 100\<rceil>"
proof -
  have "x * 100 \<le> of_int \<lceil>x * 100\<rceil>" "of_int \<lceil>x * 100\<rceil> < x * 100 + 1"
    using ceiling_correct [of "x * 100"] by linarith+
  then show "x \<le> of_int \<lceil>x * 100\<rceil> / 100" "of_int \<lceil>x * 100\<rceil> / 100 < x + 1 / 100" by simp_all
  show "0 < \<lceil>x * 100\<rceil>" using assms by simp
qed

text \<open>A fee rounded up to cents is within a cent of the raw fee, while the library is exact.\<close>

lemma charged_bounds:
  assumes "decimal_lib L" "0 < raw" "raw < 10 ^ 30"
  shows "raw \<le> chargedFee L entry raw" "chargedFee L entry raw < raw + 1 / 100"
    "se_roundUpToCents entry \<Longrightarrow> chargedFee L entry raw * 100 = of_int \<lceil>raw * 100\<rceil>"
proof -
  have le: "raw * 100 \<le> of_int (10 ^ 33)" using assms(3) by simp
  have "\<lceil>raw * 100\<rceil> \<le> 10 ^ 33" by (rule ceiling_le) (rule le)
  then have "\<bar>\<lceil>raw * 100\<rceil>\<bar> < 10 ^ 34" using num_ceil(3) [OF assms(2)] by simp
  then have "sig34 (of_int \<lceil>raw * 100\<rceil> / 10 ^ 2)" by (rule sig34_scaled)
  then have ex: "ddiv L (of_int \<lceil>raw * 100\<rceil>) 100 = of_int \<lceil>raw * 100\<rceil> / 100"
    using decimal_lib.ddiv_exact [OF assms(1)] by simp
  show "raw \<le> chargedFee L entry raw" "chargedFee L entry raw < raw + 1 / 100"
    "se_roundUpToCents entry \<Longrightarrow> chargedFee L entry raw * 100 = of_int \<lceil>raw * 100\<rceil>"
    using assms(2) num_ceil [OF assms(2)] by (simp_all add: chargedFee_def ex)
qed

lemma charged_nonneg: "decimal_lib L \<Longrightarrow> 0 \<le> chargedFee L entry raw"
  using decimal_lib.round_nonneg [of L "of_int \<lceil>raw * 100\<rceil> / 100"]
  by (simp add: chargedFee_def ddiv_def)

text \<open>What one call can answer.\<close>

lemma kalshi_fee_cases:
  assumes "kalshi_fee L other file ctx s = (out, s')"
  obtains (unknown) "\<not> fo_known out" "fo_amount out = 0" "fs_anyUnverified s'"
  | (known) market entry feeType s1 where "fc_market ctx = Some market" "ms_feeType market = Some feeType"
      "lookupEntry other file feeType (ms_feeUpdatedAtMs market) (fc_atMs ctx) s = (Some entry, s1)"
      "se_verified entry" "fo_known out" "fo_amount out = chargedFee L entry (rawFee L entry (ms_feeMultiplier market) ctx)"
      "fs_anyUnverified s' = fs_anyUnverified s"
proof (cases "fo_known out")
  case True
  then obtain market feeType where m: "fc_market ctx = Some market" "ms_feeType market = Some feeType" "feeType \<noteq> ''''"
    using assms by (auto simp: kalshi_fee_def unresolvedFee_def split: option.splits if_splits)
  obtain found s1 where l: "lookupEntry other file feeType (ms_feeUpdatedAtMs market) (fc_atMs ctx) s = (found, s1)"
    by fastforce
  obtain entry where e: "found = Some entry"
    using assms True by (cases found) (auto simp: kalshi_fee_def unresolvedFee_def m l Let_def)
  have "fs_anyUnverified s1 = fs_anyUnverified s"
    using l by (auto simp: lookupEntry_def Let_def split: option.splits)
  then show thesis using assms True
    by (intro known [OF m(1,2) l [unfolded e]]) (auto simp: kalshi_fee_def m l e Let_def split: if_splits)
next
  case False
  then show thesis using assms
    by (intro unknown) (auto simp: kalshi_fee_def unresolvedFee_def Let_def
      split: option.splits if_splits prod.splits)
qed

lemma lookup_keeps: "lookupEntry other file ft u t s = (e, s') \<Longrightarrow> fs_anyUnverified s' = fs_anyUnverified s"
  by (auto simp: lookupEntry_def Let_def split: option.splits)

lemma kalshi_laws: "decimal_lib L \<Longrightarrow> fee_model (kalshiHistoricalFeeModel L other file) fs_anyUnverified"
proof (unfold_locales, unfold kalshiHistoricalFeeModel_def fee_model.simps)
  fix ctx s out s'
  assume L: "decimal_lib L" and f: "kalshi_fee L other file ctx s = (out, s')"
  show "0 \<le> fo_amount out" using f by (cases rule: kalshi_fee_cases) (simp_all add: charged_nonneg [OF L])
  show "\<not> fo_known out \<Longrightarrow> fo_amount out = 0" using f by (cases rule: kalshi_fee_cases) simp_all
  show "\<not> fo_known out \<or> fs_anyUnverified s \<Longrightarrow> fs_anyUnverified s'"
    using f by (cases rule: kalshi_fee_cases) simp_all
qed (simp add: kalshi_provenance_def Let_def)

interpretation std_fee: fee_model "kalshiHistoricalFeeModel std_dlib other schedule" fs_anyUnverified for other schedule
  by (rule kalshi_laws) (rule std.decimal_lib_axioms)

section \<open>The entry in force\<close>

lemma scheduleFor_None [simp]: "scheduleFor other file None t = None"
  by (simp add: scheduleFor_def)

lemma scheduleFor_sound:
  assumes "scheduleFor other file (Some ft) (Some t) = Some e"
  shows "e \<in> set (sf_schedules file)" "se_feeType e = ft"
    "\<exists>d. dateParse other (se_effectiveFrom e) = Some d \<and> d \<le> t \<and>
      (\<forall>e' \<in> set (sf_schedules file). \<forall>d'. se_feeType e' = ft \<and> dateParse other (se_effectiveFrom e') = Some d' \<and>
         d' \<le> t \<longrightarrow> d' \<le> d)"
proof -
  let ?k = "\<lambda>s. - (case dateParse other (se_effectiveFrom s) of None \<Rightarrow> 0 | Some d \<Rightarrow> d)"
  let ?in = "\<lambda>s. case dateParse other (se_effectiveFrom s) of None \<Rightarrow> False | Some d \<Rightarrow> d \<le> t"
  let ?c = "filter ?in (filter (\<lambda>s. se_feeType s = ft) (sf_schedules file))"
  obtain es where es: "sort_key ?k ?c = e # es"
    using assms by (auto simp: scheduleFor_def Let_def split: list.splits)
  then have "e \<in> set (sort_key ?k ?c)" by simp
  then have e: "e \<in> set ?c" by simp
  then show "e \<in> set (sf_schedules file)" "se_feeType e = ft" by auto
  obtain d where d: "dateParse other (se_effectiveFrom e) = Some d" "d \<le> t"
    using e by (auto split: option.splits)
  have "sorted (map ?k (e # es))" unfolding es [symmetric] by (rule sorted_sort_key)
  then have mn: "?k e \<le> ?k x" if "x \<in> set (e # es)" for x using that by auto
  have "d' \<le> d" if *: "e' \<in> set (sf_schedules file)" "se_feeType e' = ft" "dateParse other (se_effectiveFrom e') = Some d'" "d' \<le> t" for e' d'
  proof -
    have "e' \<in> set (sort_key ?k ?c)" using * by simp
    then have "e' \<in> set (e # es)" by (simp only: es)
    from mn [OF this] show ?thesis using d *(3) by simp
  qed
  with d show "\<exists>d. dateParse other (se_effectiveFrom e) = Some d \<and> d \<le> t \<and>
      (\<forall>e' \<in> set (sf_schedules file). \<forall>d'. se_feeType e' = ft \<and> dateParse other (se_effectiveFrom e') = Some d' \<and>
         d' \<le> t \<longrightarrow> d' \<le> d)" by blast
qed

lemma scheduleFor_mem:
  "scheduleFor other file (Some ft) (Some t) = Some e \<Longrightarrow> e \<in> set (sf_schedules file) \<and> ft = se_feeType e"
  using scheduleFor_sound(1,2) by blast

lemma scheduleFor_None_iff:
  "scheduleFor other file (Some ft) (Some t) = None \<longleftrightarrow>
    (\<forall>e \<in> set (sf_schedules file). \<forall>d. se_feeType e = ft \<longrightarrow> dateParse other (se_effectiveFrom e) = Some d \<longrightarrow> t < d)"
proof -
  have "scheduleFor other file (Some ft) (Some t) = None \<longleftrightarrow>
      filter (\<lambda>s. case dateParse other (se_effectiveFrom s) of None \<Rightarrow> False | Some d \<Rightarrow> d \<le> t)
        (filter (\<lambda>s. se_feeType s = ft) (sf_schedules file)) = []"
    by (auto simp: scheduleFor_def Let_def simp del: sort_key_simps split: list.split
      dest!: arg_cong [where f = length])
  also have "\<dots> \<longleftrightarrow> (\<forall>e \<in> set (sf_schedules file). \<forall>d. se_feeType e = ft \<longrightarrow> dateParse other (se_effectiveFrom e) = Some d \<longrightarrow> t < d)"
    by (auto simp: filter_empty_conv not_le split: option.splits)
  finally show ?thesis .
qed

section \<open>The cache\<close>

lemma feeKey_inj: "feeKey ft u = feeKey ft' u' \<Longrightarrow> ft = ft'"
proof -
  let ?s = "\<lambda>u. case u of None \<Rightarrow> ''null'' | Some n \<Rightarrow> int_str n"
  have nat: "CHR ''@'' \<notin> set (rev (?s u))" for u
    using int_str_chars by (auto split: option.split)
  assume "feeKey ft u = feeKey ft' u'"
  then have "rev (feeKey ft u) = rev (feeKey ft' u')" by simp
  then have "rev (?s u) @ CHR ''@'' # rev ft = rev (?s u') @ CHR ''@'' # rev ft'"
    by (simp add: feeKey_def)
  from split_unique [OF nat nat this] show "ft = ft'" by simp
qed

definition seen_ok :: "fee_schedule_file \<Rightarrow> fee_state \<Rightarrow> bool" where
  "seen_ok file s \<longleftrightarrow> (\<forall>k e. js_get (fs_seen s) k = Some (Some e) \<longrightarrow>
     e \<in> set (sf_schedules file) \<and> (\<exists>u. k = feeKey (se_feeType e) u))"

lemma lookup_seen_ok:
  assumes "seen_ok file s" "lookupEntry other file ft u t s = (found, s')"
  shows "seen_ok file s'"
    "found = Some e \<Longrightarrow> e \<in> set (sf_schedules file) \<and> se_feeType e = ft"
proof -
  show "seen_ok file s'"
    using assms
    by (auto simp: seen_ok_def lookupEntry_def Let_def dest!: scheduleFor_mem split: option.splits if_splits)
  show "e \<in> set (sf_schedules file) \<and> se_feeType e = ft" if "found = Some e"
  proof (cases "js_get (fs_seen s) (feeKey ft u)")
    case None
    then show ?thesis using assms(2) that scheduleFor_sound(1,2) by (auto simp: lookupEntry_def Let_def)
  next
    case (Some x)
    then have "js_get (fs_seen s) (feeKey ft u) = Some (Some e)" using assms(2) that by (simp add: lookupEntry_def Let_def)
    then show ?thesis using assms(1) feeKey_inj unfolding seen_ok_def by metis
  qed
qed

lemma kalshi_seen_ok:
  assumes "seen_ok file s" "kalshi_fee L other file ctx s = (out, s')"
  shows "seen_ok file s'"
proof -
  have keep: "seen_ok file r \<Longrightarrow> fs_seen r' = fs_seen r \<Longrightarrow> seen_ok file r'" for r r' by (simp add: seen_ok_def)
  show ?thesis
  proof (cases "\<exists>market ft. fc_market ctx = Some market \<and> ms_feeType market = Some ft \<and> ft \<noteq> ''''")
    case True
    then obtain market ft where m: "fc_market ctx = Some market" "ms_feeType market = Some ft" "ft \<noteq> ''''" by blast
    obtain found s1 where l: "lookupEntry other file ft (ms_feeUpdatedAtMs market) (fc_atMs ctx) s = (found, s1)"
      by fastforce
    have "fs_seen s' = fs_seen s1"
      using assms(2) by (cases found) (auto simp: kalshi_fee_def unresolvedFee_def m l Let_def split: if_splits)
    then show ?thesis using keep lookup_seen_ok(1) [OF assms(1) l] by blast
  next
    case False
    then have "fs_seen s' = fs_seen s"
      using assms(2) by (auto simp: kalshi_fee_def unresolvedFee_def split: option.splits if_splits)
    then show ?thesis using keep assms(1) by blast
  qed
qed

lemma seen_ok_run:
  "feeRun (kalshiHistoricalFeeModel L other file) cs s = (outs, s') \<Longrightarrow> seen_ok file s \<Longrightarrow> seen_ok file s'"
proof (induction cs arbitrary: s s' outs)
  case (Cons c cs)
  obtain out s1 where 1: "kalshi_fee L other file c s = (out, s1)" by fastforce
  obtain outs2 s2 where 2: "feeRun (kalshiHistoricalFeeModel L other file) cs s1 = (outs2, s2)" by fastforce
  show ?case using Cons.IH [OF 2 kalshi_seen_ok [OF Cons.prems(2) 1]] Cons.prems(1) 2
    by (simp add: kalshiHistoricalFeeModel_def 1)
qed simp

lemma seen_ok_new: "seen_ok file newFeeState"
  by (simp add: seen_ok_def newFeeState_def)

section \<open>Properties\<close>

text \<open>
  C31: Verified means known: when the historical fee model reports itself verified after a run, every
  fee of the run was known; and no fee is negative, nor different from zero while unknown.
\<close>
theorem verified_means_all_known:
  assumes "decimal_lib L" "feeRun (kalshiHistoricalFeeModel L other file) cs s = (outs, s')" "out \<in> set outs"
  shows "(fp_verified (fe_provenance (kalshiHistoricalFeeModel L other file) s') \<longrightarrow> fo_known out) \<and> 0 \<le> fo_amount out"
  using fee_model.verified_all_known [OF kalshi_laws [OF assms(1)] assms(2)]
    fee_model.run_nonneg [OF kalshi_laws [OF assms(1)] assms(2,3)] assms(3) by blast

text \<open>
  C27: The published formula: a fee that is known was computed from a verified entry of the schedule
  for the market's own fee type. A taker fee is the rate times the series multiplier, the contracts
  and P(1 - P), a maker fee the per-contract fee times the contracts; a non-positive value is charged
  as zero, and rounding up to cents charges whole cents, less than a cent above the raw fee.
\<close>
theorem known_fee_formula:
  assumes "decimal_lib L" "feeRun (kalshiHistoricalFeeModel L other file) cs newFeeState = (outs, s)"
    and "kalshi_fee L other file ctx s = (out, s')" "fo_known out"
  shows "\<exists>market entry raw. fc_market ctx = Some market \<and> entry \<in> set (sf_schedules file) \<and> se_verified entry \<and>
    ms_feeType market = Some (se_feeType entry) \<and>
    raw = (if fc_liquidity ctx = Taker
      then dl_of_string L (se_baseRate entry) * (case ms_feeMultiplier market of None \<Rightarrow> 1 | Some m \<Rightarrow> m) *
        fc_quantity ctx * fc_yesPrice ctx * (1 - fc_yesPrice ctx)
      else dl_of_string L (se_makerFeePerContract entry) * fc_quantity ctx) \<and>
    (raw \<le> 0 \<longrightarrow> fo_amount out = 0) \<and> (0 < raw \<and> \<not> se_roundUpToCents entry \<longrightarrow> fo_amount out = raw) \<and>
    (0 < raw \<and> raw < 10 ^ 30 \<and> se_roundUpToCents entry \<longrightarrow>
      raw \<le> fo_amount out \<and> fo_amount out < raw + 1 / 100 \<and> fo_amount out * 100 = of_int \<lceil>raw * 100\<rceil>)"
  using assms(3)
proof (cases rule: kalshi_fee_cases)
  case (known market entry feeType s1)
  have "seen_ok file s" using seen_ok_run [OF assms(2) seen_ok_new] .
  from lookup_seen_ok(2) [OF this known(3), of entry]
  have e: "entry \<in> set (sf_schedules file)" "se_feeType entry = feeType" by simp_all
  let ?raw = "rawFee L entry (ms_feeMultiplier market) ctx"
  define raw where "raw = ?raw"
  have am: "fo_amount out = chargedFee L entry raw" using known(6) by (simp add: raw_def)
  have "(raw \<le> 0 \<longrightarrow> fo_amount out = 0) \<and> (0 < raw \<and> \<not> se_roundUpToCents entry \<longrightarrow> fo_amount out = raw) \<and>
    (0 < raw \<and> raw < 10 ^ 30 \<and> se_roundUpToCents entry \<longrightarrow>
      raw \<le> fo_amount out \<and> fo_amount out < raw + 1 / 100 \<and> fo_amount out * 100 = of_int \<lceil>raw * 100\<rceil>)"
    using charged_bounds [OF assms(1), of raw entry] unfolding am by (auto simp: chargedFee_def)
  moreover have "raw = (if fc_liquidity ctx = Taker
      then dl_of_string L (se_baseRate entry) * (case ms_feeMultiplier market of None \<Rightarrow> 1 | Some m \<Rightarrow> m) *
        fc_quantity ctx * fc_yesPrice ctx * (1 - fc_yesPrice ctx)
      else dl_of_string L (se_makerFeePerContract entry) * fc_quantity ctx)"
    by (simp add: raw_def rawFee_def Let_def)
  ultimately show ?thesis using known(1,2,4) e by blast
qed (use assms(4) in simp)

text \<open>
  C29: The entry in force: the schedule lookup finds an entry of the fee type whose date is not after
  the instant and not before that of any other such entry, and finds none only when there is none.
\<close>
theorem schedule_entry_in_force:
  "case scheduleFor other file (Some ft) (Some t) of
     None \<Rightarrow> \<forall>e \<in> set (sf_schedules file). \<forall>d. se_feeType e = ft \<longrightarrow> dateParse other (se_effectiveFrom e) = Some d \<longrightarrow> t < d
   | Some e \<Rightarrow> e \<in> set (sf_schedules file) \<and> se_feeType e = ft \<and>
       (\<exists>d. dateParse other (se_effectiveFrom e) = Some d \<and> d \<le> t \<and>
         (\<forall>e' \<in> set (sf_schedules file). \<forall>d'. se_feeType e' = ft \<and> dateParse other (se_effectiveFrom e') = Some d' \<and>
            d' \<le> t \<longrightarrow> d' \<le> d))"
  using scheduleFor_sound [of other "file" ft t] scheduleFor_None_iff [of other "file" ft t]
  by (cases "scheduleFor other file (Some ft) (Some t)") simp_all

text \<open>
  C27: The cache forgets the instant: once a fee type and its update time have been looked up, the
  answer for a later fill depends neither on when that fill happened nor on what the schedule says is
  in force then. A schedule that changes during a run is therefore not followed, unlike what the
  field \<open>atMs\<close> of the fee context is documented to select.
\<close>
theorem cached_entry_ignores_time:
  assumes "fc_market ctx = Some market" "ms_feeType market = Some ft" "ft \<noteq> ''''"
    and "js_get (fs_seen s) (feeKey ft (ms_feeUpdatedAtMs market)) = Some cached"
  shows "kalshi_fee L other file ctx s = kalshi_fee L other file' (ctx\<lparr>fc_atMs := t\<rparr>) s"
  using assms by (cases cached) (simp_all add: kalshi_fee_def lookupEntry_def rawFee_def Let_def)

subsection \<open>Witnesses\<close>

definition wit_entry :: "string \<Rightarrow> string \<Rightarrow> fee_schedule_entry" where
  "wit_entry from rate = \<lparr>se_feeType = ''quadratic'', se_baseRate = rate, se_makerFeePerContract = ''0'',
     se_roundUpToCents = True, se_effectiveFrom = from, se_source = ''schedule'', se_verified = True,
     se_verifiedBy = None, se_verifiedAt = None, se_notes = None\<rparr>"

definition wit_schedule :: fee_schedule_file where
  "wit_schedule = \<lparr>sf_schedules = [wit_entry ''1970-01-01'' ''0.4'', wit_entry ''2024-02-29T12:00:00Z'' ''0.5''],
     sf_makerRebate = None\<rparr>"

definition wit_market :: market_state where
  "wit_market = \<lparr>ms_marketTicker = ''M'', ms_eventTicker = None, ms_seriesTicker = None, ms_state = LcOpen,
     ms_rawStatus = None, ms_rawResult = None, ms_yesSettlementValue = None, ms_settlementBasis = SbNone,
     ms_notionalValue = None, ms_isProvisional = False, ms_closeTimeMs = None, ms_settlementTimeMs = None,
     ms_observedAtMs = None, ms_strikeType = None, ms_floorStrike = None, ms_capStrike = None,
     ms_feeType = Some ''quadratic'', ms_feeMultiplier = None, ms_feeUpdatedAtMs = None, ms_settlementSources = []\<rparr>"

definition wit_ctx :: "int \<Rightarrow> fee_context" where
  "wit_ctx t = \<lparr>fc_marketTicker = ''M'', fc_quantity = 3, fc_yesPrice = 1 / 2, fc_liquidity = Taker,
     fc_market = Some wit_market, fc_atMs = t\<rparr>"

definition wit_state :: fee_state where
  "wit_state = newFeeState\<lparr>fs_seen := [(feeKey ''quadratic'' None, Some (wit_entry ''1970-01-01'' ''0.4''))],
     fs_lastEntry := Some (wit_entry ''1970-01-01'' ''0.4''), fs_lastFeeType := Some ''quadratic''\<rparr>"

lemma wit_dates:
  "dateParse (\<lambda>s. None) ''1970-01-01'' = Some 0" "dateParse (\<lambda>s. None) ''2024-02-29T12:00:00Z'' = Some 1709208000000"
  by code_simp+

lemma wit_found:
  "scheduleFor (\<lambda>s. None) wit_schedule (Some ''quadratic'') (Some 5) = Some (wit_entry ''1970-01-01'' ''0.4'')"
  "scheduleFor (\<lambda>s. None) wit_schedule (Some ''quadratic'') (Some 1709208000000) = Some (wit_entry ''2024-02-29T12:00:00Z'' ''0.5'')"
  by (simp_all add: scheduleFor_def Let_def wit_schedule_def wit_dates wit_entry_def)

lemma wit_rates: "std_of_string ''0.4'' = 2 / 5" "std_of_string ''0.5'' = 1 / 2"
  by (simp_all add: std_eval)

lemma wit_charge: "ddiv std_dlib 30 100 = 3 / 10"
proof -
  have "sig34 (of_int 3 / 10 ^ 1)" by (rule sig34_scaled) simp
  then show ?thesis using std.ddiv_exact [of 30 100] by simp
qed

lemma wit_fee: "kalshi_fee std_dlib (\<lambda>s. None) wit_schedule (wit_ctx 5) newFeeState =
    (\<lparr>fo_amount = 3 / 10, fo_known = True, fo_reason = None\<rparr>, wit_state)"
  by (simp add: kalshi_fee_def wit_ctx_def wit_market_def lookupEntry_def Let_def newFeeState_def wit_state_def
      wit_found [simplified] rawFee_def chargedFee_def)
    (simp add: wit_entry_def wit_rates wit_charge)

lemma wit_run: "feeRun (kalshiHistoricalFeeModel std_dlib (\<lambda>s. None) wit_schedule) [wit_ctx 5] newFeeState =
    ([\<lparr>fo_amount = 3 / 10, fo_known = True, fo_reason = None\<rparr>], wit_state)"
  by (simp add: kalshiHistoricalFeeModel_def wit_fee)

theorem verified_means_all_known_witness:
  "fo_known \<lparr>fo_amount = 3 / 10, fo_known = True, fo_reason = None\<rparr> \<and>
   fp_verified (fe_provenance (kalshiHistoricalFeeModel std_dlib (\<lambda>s. None) wit_schedule) wit_state)"
proof -
  have v: "fp_verified (fe_provenance (kalshiHistoricalFeeModel std_dlib (\<lambda>s. None) wit_schedule) wit_state)"
    by (simp add: kalshiHistoricalFeeModel_def kalshi_provenance_def wit_state_def newFeeState_def)
  with verified_means_all_known [OF std.decimal_lib_axioms wit_run] show ?thesis by simp
qed

lemma wit_fee_again: "kalshi_fee std_dlib (\<lambda>s. None) wit_schedule (wit_ctx 6) wit_state =
    (\<lparr>fo_amount = 3 / 10, fo_known = True, fo_reason = None\<rparr>, wit_state)"
  by (simp add: kalshi_fee_def wit_ctx_def wit_market_def lookupEntry_def Let_def newFeeState_def wit_state_def
      rawFee_def chargedFee_def)
    (simp add: wit_entry_def wit_rates wit_charge)

theorem known_fee_formula_witness:
  "\<exists>entry. entry \<in> set (sf_schedules wit_schedule) \<and> se_verified entry \<and>
    fst (kalshi_fee std_dlib (\<lambda>s. None) wit_schedule (wit_ctx 6) wit_state) =
      \<lparr>fo_amount = 3 / 10, fo_known = True, fo_reason = None\<rparr>"
  using known_fee_formula [OF std.decimal_lib_axioms wit_run wit_fee_again] wit_fee_again by auto

theorem schedule_entry_in_force_witness:
  "scheduleFor (\<lambda>s. None) wit_schedule (Some ''quadratic'') (Some 5) = Some (wit_entry ''1970-01-01'' ''0.4'') \<and>
   wit_entry ''1970-01-01'' ''0.4'' \<in> set (sf_schedules wit_schedule)"
  using schedule_entry_in_force [of wit_schedule "''quadratic''" "\<lambda>s. None" 5] by (simp add: wit_found)

theorem cached_entry_ignores_time_witness:
  "fo_amount (fst (kalshi_fee std_dlib (\<lambda>s. None) wit_schedule (wit_ctx 1709208000000) wit_state)) = 3 / 10 \<and>
   scheduleFor (\<lambda>s. None) wit_schedule (Some ''quadratic'') (Some 1709208000000) =
     Some (wit_entry ''2024-02-29T12:00:00Z'' ''0.5'')"
proof -
  have c: "wit_ctx 6 = (wit_ctx 1709208000000)\<lparr>fc_atMs := 6\<rparr>" by (simp add: wit_ctx_def)
  have "kalshi_fee std_dlib (\<lambda>s. None) wit_schedule (wit_ctx 1709208000000) wit_state =
      kalshi_fee std_dlib (\<lambda>s. None) wit_schedule (wit_ctx 6) wit_state"
    unfolding c by (rule cached_entry_ignores_time [of _ wit_market "''quadratic''"])
      (simp_all add: wit_ctx_def wit_market_def wit_state_def)
  then show ?thesis by (simp add: wit_fee_again wit_found)
qed

end
