(* ===== verification/Fills.thy ===== *)
theory Fills
  imports Decimals
begin

text \<open>
  Passive fill models: \<open>src/src/research/execution/fills/\<close>.

  A \<open>FillModel\<close> is a record of its methods; \<open>queue_state\<close> is threaded through them instead of
  being mutated. The locale \<open>fill_model\<close> is the contract the simulated exchange relies on, proved for
  the three shipped models. \<open>Decimal.pow\<close> with a fractional exponent belongs to the decimal library
  and is a parameter of the decay model.
\<close>

section \<open>The models\<close>

datatype fill_reason = FrCross | FrTradeThrough | FrQueueDepleted | FrProbabilisticQueue | FrTouch

record queue_state =
  qs_displayedSizeAtEntry :: rat
  qs_queueAheadAtEntry :: rat
  qs_queueAhead :: rat
  qs_executedVolumeAtLevel :: rat
  qs_lastDisplayedSize :: rat
  qs_restedAtMs :: int
  qs_tradeCount :: nat
  qs_unreconciledTradeVolume :: rat

definition newQueueState :: "rat \<Rightarrow> rat \<Rightarrow> int \<Rightarrow> queue_state" where
  "newQueueState displayedSize queueAhead atMs =
     \<lparr>qs_displayedSizeAtEntry = displayedSize, qs_queueAheadAtEntry = queueAhead,
      qs_queueAhead = queueAhead, qs_executedVolumeAtLevel = 0, qs_lastDisplayedSize = displayedSize,
      qs_restedAtMs = atMs, qs_tradeCount = 0, qs_unreconciledTradeVolume = 0\<rparr>"

record trade_fill_result =
  tf_filled :: rat
  tf_reason :: fill_reason

record fill_model =
  fm_name :: string
  fm_initialQueueAhead :: "rat \<Rightarrow> rat"
  fm_onDisplayedSizeChange :: "queue_state \<Rightarrow> rat \<Rightarrow> rat \<Rightarrow> int \<Rightarrow> queue_state"
  fm_onTrade :: "queue_state \<Rightarrow> rat \<Rightarrow> rat \<Rightarrow> bool \<Rightarrow> int \<Rightarrow> trade_fill_result \<times> queue_state"

text \<open>The shared base class \<open>QueueFillModel\<close>, with its two parameters.\<close>

definition q_initialQueueAhead :: "rat \<Rightarrow> rat \<Rightarrow> rat" where
  "q_initialQueueAhead fraction displayedSize = displayedSize * fraction"

definition q_onDisplayedSizeChange :: "rat \<Rightarrow> queue_state \<Rightarrow> rat \<Rightarrow> rat \<Rightarrow> int \<Rightarrow> queue_state" where
  "q_onDisplayedSizeChange creditRatio st previous next atMs =
     (let st = st\<lparr>qs_lastDisplayedSize := next\<rparr>;
          decrease = previous - next
      in if decrease \<le> 0 then st
         else
           let explained = min decrease (qs_unreconciledTradeVolume st);
               st = st\<lparr>qs_unreconciledTradeVolume := qs_unreconciledTradeVolume st - explained\<rparr>;
               cancelled = decrease - explained
           in if cancelled \<le> 0 \<or> creditRatio = 0 then st
              else st\<lparr>qs_queueAhead := max 0 (qs_queueAhead st - cancelled * creditRatio)\<rparr>)"

definition q_onTrade ::
  "queue_state \<Rightarrow> rat \<Rightarrow> rat \<Rightarrow> bool \<Rightarrow> int \<Rightarrow> trade_fill_result \<times> queue_state" where
  "q_onTrade st tradeQty remaining through atMs =
     (let st = st\<lparr>qs_tradeCount := qs_tradeCount st + 1,
            qs_executedVolumeAtLevel := qs_executedVolumeAtLevel st + tradeQty,
            qs_unreconciledTradeVolume := qs_unreconciledTradeVolume st + tradeQty\<rparr>
      in if through then (\<lparr>tf_filled = min remaining tradeQty, tf_reason = FrTradeThrough\<rparr>, st)
         else
           let consumedByQueue = min (qs_queueAhead st) tradeQty;
               st = st\<lparr>qs_queueAhead := qs_queueAhead st - consumedByQueue\<rparr>;
               available = tradeQty - consumedByQueue
           in if available \<le> 0 then (\<lparr>tf_filled = 0, tf_reason = FrQueueDepleted\<rparr>, st)
              else (\<lparr>tf_filled = min remaining available,
                     tf_reason = (if qs_queueAheadAtEntry st = 0 then FrTouch else FrQueueDepleted)\<rparr>, st))"

definition queueFillModel :: "string \<Rightarrow> rat \<Rightarrow> rat \<Rightarrow> fill_model" where
  "queueFillModel name fraction creditRatio =
     \<lparr>fm_name = name, fm_initialQueueAhead = q_initialQueueAhead fraction,
      fm_onDisplayedSizeChange = q_onDisplayedSizeChange creditRatio, fm_onTrade = q_onTrade\<rparr>"

definition touchFillModel :: fill_model where
  "touchFillModel = queueFillModel ''touch'' 0 1"

definition conservativeQueueModel :: fill_model where
  "conservativeQueueModel = queueFillModel ''conservative_queue'' 1 0"

record queue_decay_params =
  qd_queueAheadFraction :: rat
  qd_cancelCreditRatio :: rat
  qd_decayPerSecond :: rat

definition QUEUE_DECAY_DEFAULTS :: queue_decay_params where
  "QUEUE_DECAY_DEFAULTS = \<lparr>qd_queueAheadFraction = 1, qd_cancelCreditRatio = 1 / 2, qd_decayPerSecond = 0\<rparr>"

definition decay_onTrade ::
  "(rat \<Rightarrow> rat \<Rightarrow> rat) \<Rightarrow> rat \<Rightarrow> queue_state \<Rightarrow> rat \<Rightarrow> rat \<Rightarrow> bool \<Rightarrow> int
    \<Rightarrow> trade_fill_result \<times> queue_state" where
  "decay_onTrade pow decayPerSecond st tradeQty remaining through atMs =
     (let st = (if decayPerSecond \<noteq> 0 \<and> 0 < qs_queueAhead st then
                  let elapsedSec = of_int (atMs - qs_restedAtMs st) / 1000
                  in if 0 < elapsedSec then
                       let survival = pow (1 - decayPerSecond) elapsedSec;
                           decayed = max 0 (qs_queueAheadAtEntry st * survival)
                       in st\<lparr>qs_queueAhead := (if decayed < qs_queueAhead st then decayed else qs_queueAhead st)\<rparr>
                     else st
                else st)
      in q_onTrade st tradeQty remaining through atMs)"

datatype decay_error = DecayPerSecondOutOfRange rat

definition queueDecayModel ::
  "(rat \<Rightarrow> rat \<Rightarrow> rat) \<Rightarrow> queue_decay_params \<Rightarrow> decay_error + fill_model" where
  "queueDecayModel pow params =
     (let d = qd_decayPerSecond params
      in if d < 0 \<or> 1 < d then Inl (DecayPerSecondOutOfRange d)
         else Inr \<lparr>fm_name = ''queue_decay'',
                fm_initialQueueAhead = q_initialQueueAhead (qd_queueAheadFraction params),
                fm_onDisplayedSizeChange = q_onDisplayedSizeChange (qd_cancelCreditRatio params),
                fm_onTrade = decay_onTrade pow d\<rparr>)"

section \<open>The contract\<close>

definition queue_ok :: "queue_state \<Rightarrow> bool" where
  "queue_ok st \<longleftrightarrow> 0 \<le> qs_queueAhead st \<and> 0 \<le> qs_queueAheadAtEntry st \<and> 0 \<le> qs_unreconciledTradeVolume st"

locale fill_model =
  fixes fm :: fill_model
  assumes initial_ok: "0 \<le> d \<Longrightarrow> queue_ok (newQueueState d (fm_initialQueueAhead fm d) t)"
    and size_ok: "queue_ok st \<Longrightarrow> queue_ok (fm_onDisplayedSizeChange fm st prev nxt t)"
    and size_queue: "queue_ok st \<Longrightarrow> qs_queueAhead (fm_onDisplayedSizeChange fm st prev nxt t) \<le> qs_queueAhead st"
    and trade_ok: "queue_ok st \<Longrightarrow> 0 \<le> q \<Longrightarrow> 0 \<le> rem \<Longrightarrow> fm_onTrade fm st q rem thr t = (r, st') \<Longrightarrow>
        queue_ok st' \<and> qs_queueAhead st' \<le> qs_queueAhead st \<and> 0 \<le> tf_filled r \<and> tf_filled r \<le> rem \<and> tf_filled r \<le> q"
    and through_fills: "queue_ok st \<Longrightarrow> fm_onTrade fm st q rem True t = (r, st') \<Longrightarrow> tf_filled r = min rem q"

lemma q_size_ok:
  assumes "queue_ok st" "0 \<le> c"
  shows "queue_ok (q_onDisplayedSizeChange c st prev nxt t)"
    "qs_queueAhead (q_onDisplayedSizeChange c st prev nxt t) \<le> qs_queueAhead st"
  using assms by (auto simp: queue_ok_def q_onDisplayedSizeChange_def Let_def)

lemma q_trade_ok:
  assumes "queue_ok st" "0 \<le> q" "0 \<le> rem" "q_onTrade st q rem thr t = (r, st')"
  shows "queue_ok st' \<and> qs_queueAhead st' \<le> qs_queueAhead st \<and> 0 \<le> tf_filled r \<and> tf_filled r \<le> rem \<and> tf_filled r \<le> q"
  using assms by (auto simp: queue_ok_def q_onTrade_def Let_def split: if_splits)

lemma q_through: "q_onTrade st q rem True t = (r, st') \<Longrightarrow> tf_filled r = min rem q"
  by (auto simp: q_onTrade_def Let_def)

lemma queueFillModel_laws: "0 \<le> f \<Longrightarrow> 0 \<le> c \<Longrightarrow> fill_model (queueFillModel n f c)"
  by unfold_locales
    (auto simp: queueFillModel_def newQueueState_def queue_ok_def q_initialQueueAhead_def
      q_size_ok [unfolded queue_ok_def] q_through dest: q_trade_ok [unfolded queue_ok_def, rotated 3])

interpretation touch: fill_model touchFillModel
  unfolding touchFillModel_def by (rule queueFillModel_laws) simp_all

interpretation conservative: fill_model conservativeQueueModel
  unfolding conservativeQueueModel_def by (rule queueFillModel_laws) simp_all

text \<open>The decay model, for a power that maps \<open>[0, 1]\<close> into itself.\<close>

lemma decay_state:
  assumes "queue_ok st"
  shows "\<exists>st0. decay_onTrade pow d st q rem thr t = q_onTrade st0 q rem thr t \<and> queue_ok st0 \<and>
    qs_queueAhead st0 \<le> qs_queueAhead st"
proof -
  let ?e = "of_int (t - qs_restedAtMs st) / 1000 :: rat"
  let ?x = "max 0 (qs_queueAheadAtEntry st * pow (1 - d) ?e)"
  show ?thesis
  proof (cases "d \<noteq> 0 \<and> 0 < qs_queueAhead st \<and> 0 < ?e \<and> ?x < qs_queueAhead st")
    case True
    then show ?thesis using assms
      by (intro exI [of _ "st\<lparr>qs_queueAhead := ?x\<rparr>"]) (simp add: decay_onTrade_def Let_def queue_ok_def)
  next
    case False
    then show ?thesis using assms by (intro exI [of _ st]) (auto simp: decay_onTrade_def Let_def)
  qed
qed

lemma decay_laws:
  assumes "queueDecayModel pow params = Inr fm" "0 \<le> qd_queueAheadFraction params" "0 \<le> qd_cancelCreditRatio params"
  shows "fill_model fm"
proof -
  have fm: "fm_initialQueueAhead fm = q_initialQueueAhead (qd_queueAheadFraction params)"
    "fm_onDisplayedSizeChange fm = q_onDisplayedSizeChange (qd_cancelCreditRatio params)"
    "fm_onTrade fm = decay_onTrade pow (qd_decayPerSecond params)"
    using assms(1) by (auto simp: queueDecayModel_def Let_def split: if_splits)
  show ?thesis
  proof (unfold_locales, unfold fm)
    fix d t assume "(0::rat) \<le> d"
    then show "queue_ok (newQueueState d (q_initialQueueAhead (qd_queueAheadFraction params) d) t)"
      using assms(2) by (simp add: newQueueState_def queue_ok_def q_initialQueueAhead_def)
  next
    fix st prev nxt t assume "queue_ok st"
    then show "queue_ok (q_onDisplayedSizeChange (qd_cancelCreditRatio params) st prev nxt t)"
      "qs_queueAhead (q_onDisplayedSizeChange (qd_cancelCreditRatio params) st prev nxt t) \<le> qs_queueAhead st"
      using q_size_ok assms(3) by blast+
  next
    fix st q rem thr t r st' assume *: "queue_ok st" "0 \<le> q" "0 \<le> rem"
      "decay_onTrade pow (qd_decayPerSecond params) st q rem thr t = (r, st')"
    then show "queue_ok st' \<and> qs_queueAhead st' \<le> qs_queueAhead st \<and> 0 \<le> tf_filled r \<and> tf_filled r \<le> rem \<and> tf_filled r \<le> q"
      using decay_state [OF *(1), of pow "qd_decayPerSecond params" q rem thr t] q_trade_ok [OF _ *(2,3)] by fastforce
  next
    fix st q rem t r st' assume *: "queue_ok st" "decay_onTrade pow (qd_decayPerSecond params) st q rem True t = (r, st')"
    then show "tf_filled r = min rem q"
      using decay_state [OF *(1), of pow "qd_decayPerSecond params" q rem True t] q_through by fastforce
  qed
qed

section \<open>One order on a level\<close>

text \<open>
  What happens to one resting order at its level: the level's displayed size changes, and trades
  print at or through its price. \<open>levelRun\<close> is the order's remaining quantity and its queue after a
  list of such events, as \<open>onBookDelta\<close> and \<open>onTrade\<close> of the exchange drive the model.
\<close>

datatype level_event = SizeChange rat rat int | Print rat bool int

fun levelStep :: "fill_model \<Rightarrow> rat \<times> queue_state \<Rightarrow> level_event \<Rightarrow> rat \<times> queue_state" where
  "levelStep fm (rem, st) (SizeChange prev nxt t) = (rem, fm_onDisplayedSizeChange fm st prev nxt t)"
| "levelStep fm (rem, st) (Print q thr t) =
     (let (r, st) = fm_onTrade fm st q rem thr t in (rem - tf_filled r, st))"

definition levelRun :: "fill_model \<Rightarrow> rat \<Rightarrow> rat \<Rightarrow> int \<Rightarrow> level_event list \<Rightarrow> rat \<times> queue_state" where
  "levelRun fm qty displayed t es =
     foldl (levelStep fm) (qty, newQueueState displayed (fm_initialQueueAhead fm displayed) t) es"

definition filledBy :: "fill_model \<Rightarrow> rat \<Rightarrow> rat \<Rightarrow> int \<Rightarrow> level_event list \<Rightarrow> rat" where
  "filledBy fm qty displayed t es = qty - fst (levelRun fm qty displayed t es)"

fun event_nonneg :: "level_event \<Rightarrow> bool" where
  "event_nonneg (Print q thr t) = (0 \<le> q)"
| "event_nonneg _ = True"

fun notThrough :: "level_event \<Rightarrow> bool" where
  "notThrough (Print q thr t) = (\<not> thr)"
| "notThrough _ = True"

fun printed :: "level_event \<Rightarrow> rat" where
  "printed (Print q thr t) = q"
| "printed _ = 0"

fun decreased :: "level_event \<Rightarrow> rat" where
  "decreased (SizeChange prev nxt t) = max 0 (prev - nxt)"
| "decreased _ = 0"

lemma q_onTrade_remaining:
  assumes "0 \<le> q" "0 \<le> rem" "0 \<le> qs_queueAhead st"
  shows "rem - tf_filled (fst (q_onTrade st q rem thr t)) =
      (if thr then max 0 (rem - q) else max 0 (rem - max 0 (q - qs_queueAhead st)))"
    "qs_queueAhead (snd (q_onTrade st q rem thr t)) = (if thr then qs_queueAhead st else max 0 (qs_queueAhead st - q))"
    "qs_unreconciledTradeVolume (snd (q_onTrade st q rem thr t)) = qs_unreconciledTradeVolume st + q"
  using assms by (auto simp: q_onTrade_def Let_def min_def max_def)

definition unexplained :: "rat \<Rightarrow> rat \<Rightarrow> rat" where
  \<comment> \<open>the part of a decrease that recent trades do not explain\<close>
  "unexplained decrease unreconciled = (if decrease \<le> 0 then 0 else max 0 (decrease - min decrease unreconciled))"

lemma q_size_fields:
  "qs_unreconciledTradeVolume (q_onDisplayedSizeChange c st prev nxt t) =
     qs_unreconciledTradeVolume st - (if prev - nxt \<le> 0 then 0 else min (prev - nxt) (qs_unreconciledTradeVolume st))"
  "0 \<le> qs_queueAhead st \<Longrightarrow> qs_queueAhead (q_onDisplayedSizeChange c st prev nxt t) =
     max 0 (qs_queueAhead st - unexplained (prev - nxt) (qs_unreconciledTradeVolume st) * c)"
  by (auto simp: q_onDisplayedSizeChange_def unexplained_def Let_def max_def)

lemma unexplained_nonneg: "0 \<le> unexplained d u"
  by (simp add: unexplained_def)

text \<open>Two models side by side: less queue ahead and more credit never fills less.\<close>

lemma levelStep_dominates:
  assumes "0 \<le> c2" "c2 \<le> c1" "event_nonneg e"
    and "0 \<le> fst s1" "fst s1 \<le> fst s2" "0 \<le> qs_queueAhead (snd s1)" "qs_queueAhead (snd s1) \<le> qs_queueAhead (snd s2)"
    "qs_unreconciledTradeVolume (snd s1) = qs_unreconciledTradeVolume (snd s2)"
  shows "let s1' = levelStep (queueFillModel n1 f1 c1) s1 e; s2' = levelStep (queueFillModel n2 f2 c2) s2 e
    in 0 \<le> fst s1' \<and> fst s1' \<le> fst s2' \<and> 0 \<le> qs_queueAhead (snd s1') \<and>
       qs_queueAhead (snd s1') \<le> qs_queueAhead (snd s2') \<and>
       qs_unreconciledTradeVolume (snd s1') = qs_unreconciledTradeVolume (snd s2')"
proof -
  obtain r1 st1 where s1: "s1 = (r1, st1)" by fastforce
  obtain r2 st2 where s2: "s2 = (r2, st2)" by fastforce
  show ?thesis
  proof (cases e)
    case (SizeChange prev nxt t)
    let ?x = "unexplained (prev - nxt) (qs_unreconciledTradeVolume st2)"
    have "?x * c2 \<le> ?x * c1" using assms(2) unexplained_nonneg by (rule mult_left_mono)
    then have "max 0 (qs_queueAhead st1 - ?x * c1) \<le> max 0 (qs_queueAhead st2 - ?x * c2)"
      using assms(7) by (simp add: s1 s2)
    then show ?thesis
      using assms(4-8) by (simp add: SizeChange s1 s2 queueFillModel_def q_size_fields Let_def)
  next
    case (Print q thr t)
    then show ?thesis
      using assms by (auto simp: s1 s2 queueFillModel_def case_prod_unfold q_onTrade_remaining Let_def max_def)
  qed
qed

lemma run_dominates:
  assumes "0 \<le> c2" "c2 \<le> c1" "\<forall>e \<in> set es. event_nonneg e"
    and "0 \<le> fst s1" "fst s1 \<le> fst s2" "0 \<le> qs_queueAhead (snd s1)" "qs_queueAhead (snd s1) \<le> qs_queueAhead (snd s2)"
    "qs_unreconciledTradeVolume (snd s1) = qs_unreconciledTradeVolume (snd s2)"
  shows "fst (foldl (levelStep (queueFillModel n1 f1 c1)) s1 es) \<le> fst (foldl (levelStep (queueFillModel n2 f2 c2)) s2 es)"
  using assms(3-)
proof (induction es arbitrary: s1 s2)
  case (Cons e es)
  have "event_nonneg e" using Cons.prems(1) by simp
  note d = levelStep_dominates [OF assms(1,2) this Cons.prems(2-6), of n1 f1 n2 f2]
  show ?case unfolding foldl_Cons
    by (rule Cons.IH) (use Cons.prems(1) d in \<open>simp_all add: Let_def\<close>)
qed simp

text \<open>The conservative queue drains by prints only.\<close>

lemma max_0_diff: "0 \<le> (c::rat) \<Longrightarrow> max 0 (max 0 (a - b) - c) = max 0 (a - (b + c))"
  by (auto simp: max_def)

lemma conservative_run:
  assumes "\<forall>e \<in> set es. event_nonneg e \<and> notThrough e" "0 \<le> rem" "0 \<le> qs_queueAhead st"
  shows "fst (foldl (levelStep conservativeQueueModel) (rem, st) es) =
      max 0 (rem - max 0 (sum_list (map printed es) - qs_queueAhead st)) \<and>
    qs_queueAhead (snd (foldl (levelStep conservativeQueueModel) (rem, st) es)) =
      max 0 (qs_queueAhead st - sum_list (map printed es))"
  using assms
proof (induction es arbitrary: rem st)
  case (Cons e es)
  have tot: "0 \<le> sum_list (map printed es)"
  proof (rule sum_list_nonneg)
    fix x assume "x \<in> set (map printed es)"
    then obtain a where a: "a \<in> set es" "x = printed a" by auto
    then have "event_nonneg a" using Cons.prems(1) by auto
    then show "0 \<le> x" using a(2) by (cases a) simp_all
  qed
  have rest: "\<forall>e \<in> set es. event_nonneg e \<and> notThrough e" using Cons.prems(1) by simp
  show ?case
  proof (cases e)
    case (SizeChange prev nxt t)
    have "qs_queueAhead (q_onDisplayedSizeChange 0 st prev nxt t) = qs_queueAhead st"
      using Cons.prems(3) by (simp add: q_size_fields)
    then show ?thesis
      using Cons.IH [OF rest Cons.prems(2), of "q_onDisplayedSizeChange 0 st prev nxt t"] Cons.prems(3)
      by (simp add: SizeChange conservativeQueueModel_def queueFillModel_def)
  next
    case (Print q thr t)
    have q: "0 \<le> q" "\<not> thr" using Cons.prems(1) Print by auto
    obtain r st' where r: "q_onTrade st q rem thr t = (r, st')" by fastforce
    have st': "rem - tf_filled r = max 0 (rem - max 0 (q - qs_queueAhead st))"
      "qs_queueAhead st' = max 0 (qs_queueAhead st - q)"
      using q_onTrade_remaining(1,2) [OF q(1) Cons.prems(2,3), of thr t, unfolded r fst_conv snd_conv] q(2)
      by simp_all
    have nn: "0 \<le> rem - tf_filled r" "0 \<le> qs_queueAhead st'" by (simp_all add: st')
    show ?thesis
      using Cons.IH [OF rest nn] q(1) tot Cons.prems(2,3)
      by (simp add: Print r conservativeQueueModel_def queueFillModel_def st') (auto simp: max_def)
  qed
qed simp

text \<open>A trace whose decreases are covered by earlier prints.\<close>

fun explainedTrace :: "rat \<Rightarrow> level_event list \<Rightarrow> bool" where
  "explainedTrace u [] = True"
| "explainedTrace u (SizeChange prev nxt t # es) =
     (max 0 (prev - nxt) \<le> u \<and> explainedTrace (u - max 0 (prev - nxt)) es)"
| "explainedTrace u (Print q thr t # es) = explainedTrace (u + q) es"

lemma explained_run:
  assumes "explainedTrace (qs_unreconciledTradeVolume st) es" "0 \<le> qs_unreconciledTradeVolume st"
    "\<forall>e \<in> set es. event_nonneg e"
  shows "foldl (levelStep (queueFillModel n f c)) (rem, st) es = foldl (levelStep (queueFillModel n' f' c')) (rem, st) es"
  using assms
proof (induction es arbitrary: rem st)
  case (Cons e es)
  show ?case
  proof (cases e)
    case (SizeChange prev nxt t)
    have ex: "max 0 (prev - nxt) \<le> qs_unreconciledTradeVolume st" using Cons.prems(1) by (simp add: SizeChange)
    then have same: "q_onDisplayedSizeChange c st prev nxt t = q_onDisplayedSizeChange c' st prev nxt t"
      by (auto simp: q_onDisplayedSizeChange_def Let_def)
    have u: "qs_unreconciledTradeVolume (q_onDisplayedSizeChange c' st prev nxt t) =
        qs_unreconciledTradeVolume st - max 0 (prev - nxt)"
      using ex by (auto simp: q_size_fields)
    have "foldl (levelStep (queueFillModel n f c)) (rem, q_onDisplayedSizeChange c' st prev nxt t) es =
        foldl (levelStep (queueFillModel n' f' c')) (rem, q_onDisplayedSizeChange c' st prev nxt t) es"
      by (rule Cons.IH) (use Cons.prems ex in \<open>simp_all add: u SizeChange\<close>)
    then show ?thesis using same by (simp add: SizeChange queueFillModel_def)
  next
    case (Print q thr t)
    obtain r st' where r: "q_onTrade st q rem thr t = (r, st')" by fastforce
    then have u: "qs_unreconciledTradeVolume st' = qs_unreconciledTradeVolume st + q"
      by (auto simp: q_onTrade_def Let_def split: if_splits)
    have "0 \<le> q" using Cons.prems(3) by (simp add: Print)
    then have "foldl (levelStep (queueFillModel n f c)) (rem - tf_filled r, st') es =
        foldl (levelStep (queueFillModel n' f' c')) (rem - tf_filled r, st') es"
      using Cons.prems by (intro Cons.IH) (simp_all add: u Print)
    then show ?thesis by (simp add: Print queueFillModel_def r)
  qed
qed simp

section \<open>Properties\<close>

text \<open>
  C27: The models bracket each other: on the same order and the same level events, a queue model that
  assumes a smaller share of the displayed size ahead and credits cancellations at least as much never
  fills less. In particular \<open>touch\<close> is a ceiling for \<open>conservative_queue\<close> on every trace.
\<close>
theorem models_bracket_fills:
  assumes "0 \<le> f1" "f1 \<le> f2" "0 \<le> c2" "c2 \<le> c1" "0 \<le> displayed" "0 \<le> qty" "\<forall>e \<in> set es. event_nonneg e"
  shows "filledBy (queueFillModel n2 f2 c2) qty displayed t es \<le> filledBy (queueFillModel n1 f1 c1) qty displayed t es"
proof -
  have "displayed * f1 \<le> displayed * f2" using assms(2,5) by (rule mult_left_mono)
  then show ?thesis
    using run_dominates [OF assms(3,4,7), of "(qty, newQueueState displayed (displayed * f1) t)"
        "(qty, newQueueState displayed (displayed * f2) t)" n1 f1 n2 f2] assms
    by (simp add: filledBy_def levelRun_def newQueueState_def queueFillModel_def q_initialQueueAhead_def)
qed

definition wit_events :: "level_event list" where
  "wit_events = [Print 4 False 10, SizeChange 10 6 11, SizeChange 6 3 12, Print 5 False 13, Print 2 True 14]"

theorem models_bracket_fills_witness:
  "filledBy conservativeQueueModel 5 10 0 wit_events \<le> filledBy touchFillModel 5 10 0 wit_events \<and>
   filledBy conservativeQueueModel 5 10 0 wit_events = 2 \<and> filledBy touchFillModel 5 10 0 wit_events = 5"
  using models_bracket_fills [of 0 1 0 1 10 5 wit_events "''conservative_queue''" 0 "''touch''"]
  by (simp add: conservativeQueueModel_def touchFillModel_def wit_events_def)
    (simp add: filledBy_def levelRun_def queueFillModel_def newQueueState_def q_initialQueueAhead_def q_onTrade_def
      q_onDisplayedSizeChange_def Let_def)

text \<open>
  C30: The conservative model is first in, first out behind the displayed size: as long as no print
  goes through the level, an order has filled exactly the printed volume beyond the size displayed
  when it joined, up to its quantity, whatever size changes are seen in between.
\<close>
theorem conservative_is_fifo:
  assumes "\<forall>e \<in> set es. event_nonneg e \<and> notThrough e" "0 \<le> qty" "0 \<le> displayed"
  shows "filledBy conservativeQueueModel qty displayed t es =
    min qty (max 0 (sum_list (map printed es) - displayed))"
proof -
  have "fst (levelRun conservativeQueueModel qty displayed t es) =
      max 0 (qty - max 0 (sum_list (map printed es) - displayed))"
    using conservative_run [OF assms(1,2), of "newQueueState displayed displayed t"] assms(3)
    by (simp add: levelRun_def newQueueState_def conservativeQueueModel_def queueFillModel_def q_initialQueueAhead_def)
  then show ?thesis by (simp add: filledBy_def min_def max_def)
qed

theorem conservative_is_fifo_witness:
  "filledBy conservativeQueueModel 5 10 0 [Print 4 False 10, SizeChange 10 1 11, Print 8 False 12] = 2"
  using conservative_is_fifo [of "[Print 4 False 10, SizeChange 10 1 11, Print 8 False 12]" 5 10 0] by simp

text \<open>
  C22: Volume is never credited twice: when every decrease of the displayed size is covered by prints
  already seen, the cancellation credit plays no part and all credit ratios give the same fills and
  the same queue.
\<close>
theorem explained_decreases_not_credited:
  assumes "explainedTrace 0 es" "\<forall>e \<in> set es. event_nonneg e"
  shows "levelRun (queueFillModel n f c) qty displayed t es = levelRun (queueFillModel n' f c') qty displayed t es"
  using explained_run [of "newQueueState displayed (displayed * f) t" es n f c qty n' f c'] assms
  by (simp add: levelRun_def newQueueState_def queueFillModel_def q_initialQueueAhead_def)

theorem explained_decreases_not_credited_witness:
  "levelRun (queueFillModel ''a'' 1 1) 5 10 0 [Print 4 False 10, SizeChange 10 6 11] =
   levelRun (queueFillModel ''b'' 1 0) 5 10 0 [Print 4 False 10, SizeChange 10 6 11]"
  by (rule explained_decreases_not_credited) simp_all

end
