(* ===== verification/Orders.thy ===== *)
theory Orders
  imports Fees Fills Events Ladder
begin

text \<open>
  The vocabulary of the execution side: order intents
  (\<open>src/src/research/strategy/orderIntent.ts\<close>), what every venue can report
  (\<open>execution/executionAdapter.ts\<close>), the simulator's extensions of it (the types at the head of
  \<open>execution/simulatedExchange.ts\<close>) and the latency models (\<open>execution/latencyModel.ts\<close>).

  A simulated order extends a working order, a simulated fill a fill; both are record extensions.
  The \<open>describe\<close> methods, which only build the run manifest, are left out.
\<close>

section \<open>Intents\<close>

datatype order_action = Buy | Sell

datatype time_in_force = Gtc | Ioc

record limit_intent =
  li_marketTicker :: string
  li_side :: book_side
  li_action :: order_action
  li_price :: rat
  li_quantity :: rat
  li_clientOrderId :: string
  li_timeInForce :: "time_in_force option"
  li_tag :: "string option"

record market_intent =
  mi_marketTicker :: string
  mi_side :: book_side
  mi_action :: order_action
  mi_quantity :: rat
  mi_clientOrderId :: string
  mi_maxPrice :: rat
  mi_tag :: "string option"

record replace_intent =
  ri_clientOrderId :: string
  ri_newPrice :: "rat option"
  ri_newQuantity :: "rat option"
  ri_newClientOrderId :: string

datatype order_intent =
  LimitIntent limit_intent | MarketIntent market_intent | CancelIntent string | ReplaceIntent replace_intent

definition cancel :: "string \<Rightarrow> order_intent" where
  "cancel clientOrderId = CancelIntent clientOrderId"

fun yesEquivalentPrice :: "book_side \<Rightarrow> order_action \<Rightarrow> rat \<Rightarrow> rat" where
  "yesEquivalentPrice side action price = (if side = Yes then price else 1 - price)"

fun yesAction :: "book_side \<Rightarrow> order_action \<Rightarrow> order_action" where
  "yesAction side action = (if side = Yes then action else if action = Buy then Sell else Buy)"

section \<open>What a venue reports\<close>

datatype execution_mode = ModeBacktest | ModeShadow | ModeCalibration | ModeLive

datatype order_status = StPending | StResting | StFilled | StCancelled | StRejected

record working_order =
  wo_orderId :: string
  wo_clientOrderId :: string
  wo_marketTicker :: string
  wo_side :: book_side
  wo_action :: order_action
  wo_price :: rat
  wo_yesPrice :: rat
  wo_yesAction :: order_action
  wo_quantity :: rat
  wo_filledQuantity :: rat
  wo_status :: order_status
  wo_timeInForce :: time_in_force
  wo_tag :: "string option"

record order_update =
  ou_orderId :: string
  ou_clientOrderId :: string
  ou_marketTicker :: string
  ou_status :: order_status
  ou_reason :: string
  ou_atMs :: int
  ou_remainingQuantity :: rat

record fill =
  fl_fillId :: string
  fl_orderId :: string
  fl_clientOrderId :: string
  fl_marketTicker :: string
  fl_side :: book_side
  fl_action :: order_action
  fl_yesAction :: order_action
  fl_price :: rat
  fl_yesPrice :: rat
  fl_quantity :: rat
  fl_liquidity :: liquidity
  fl_fee :: rat
  fl_feeKnown :: bool
  fl_submittedAtMs :: int
  fl_arrivedAtMs :: int
  fl_filledAtMs :: int
  fl_tag :: "string option"

section \<open>The simulator's bookkeeping\<close>

record simulated_order = working_order +
  so_sequence :: nat
  so_submittedAtMs :: int
  so_effectiveAtMs :: int
  so_restedAtMs :: "int option"
  so_cancelRequestedAtMs :: "int option"
  so_cancelEffectiveAtMs :: "int option"
  so_terminalAtMs :: "int option"
  so_queue :: "queue_state option"
  so_rejectReason :: "string option"
  so_decisionBid :: "rat option"
  so_decisionAsk :: "rat option"
  so_decisionBidSize :: "rat option"
  so_decisionAskSize :: "rat option"
  so_decisionBookHash :: "string option"
  so_arrivalBid :: "rat option"
  so_arrivalAsk :: "rat option"
  so_arrivalDisplayedSize :: "rat option"

record simulated_fill = fill +
  sl_reason :: fill_reason
  sl_queueAheadAtEntry :: "rat option"
  sl_queueAheadBeforeFill :: "rat option"
  sl_fillModel :: string
  sl_bookStateHash :: "string option"
  sl_triggeringTradeId :: "string option"
  sl_midAtFill :: "rat option"
  sl_spreadAtFill :: "rat option"
  sl_depth1AtFill :: "rat option"
  sl_imbalance1AtFill :: "rat option"

datatype gap_order_policy = GpCancelAll | GpKeepResting | GpFreeze

definition remainingOf :: "simulated_order \<Rightarrow> rat" where
  "remainingOf o1 = wo_quantity o1 - wo_filledQuantity o1"

definition ladderSideOf :: "order_action \<Rightarrow> ladder_side" where
  "ladderSideOf a = (if a = Buy then Bid else Ask)"

definition ladderOf :: "dec_lib \<Rightarrow> simulated_order \<Rightarrow> public_level" where
  "ladderOf L o1 = publicLevelFor L (ladderSideOf (wo_yesAction o1)) (wo_yesPrice o1)"

section \<open>Latency\<close>

text \<open>\<open>number\<close> milliseconds may be fractional; the exchange rounds them with \<open>Math.round\<close>.\<close>

record latency_model =
  lm_name :: string
  lm_marketDataLatencyMs :: "research_event \<Rightarrow> rat"
  lm_decisionLatencyMs :: rat
  lm_submitLatencyMs :: "order_intent \<Rightarrow> rat"
  lm_cancelLatencyMs :: "simulated_order \<Rightarrow> rat"

definition zeroLatencyModel :: latency_model where
  "zeroLatencyModel = \<lparr>lm_name = ''zero'', lm_marketDataLatencyMs = (\<lambda>e. 0), lm_decisionLatencyMs = 0,
     lm_submitLatencyMs = (\<lambda>i. 0), lm_cancelLatencyMs = (\<lambda>o1. 0)\<rparr>"

record fixed_latency_params =
  fl_marketDataMs :: rat
  fl_decisionMs :: rat
  fl_submitMs :: rat
  fl_cancelMs :: rat

definition fixedLatencyModel :: "fixed_latency_params \<Rightarrow> latency_model" where
  "fixedLatencyModel params = \<lparr>lm_name = ''fixed'', lm_marketDataLatencyMs = (\<lambda>e. fl_marketDataMs params),
     lm_decisionLatencyMs = fl_decisionMs params, lm_submitLatencyMs = (\<lambda>i. fl_submitMs params),
     lm_cancelLatencyMs = (\<lambda>o1. fl_cancelMs params)\<rparr>"

definition uniform :: "rat \<Rightarrow> latency_model" where
  "uniform ms = fixedLatencyModel \<lparr>fl_marketDataMs = ms, fl_decisionMs = 0, fl_submitMs = ms, fl_cancelMs = ms\<rparr>"

text \<open>
  The contract the lookahead rule rests on: no delay is negative, so an effective time is never
  before the instant of the decision.
\<close>

locale latency_model =
  fixes LM :: latency_model
  assumes decision_nonneg: "0 \<le> lm_decisionLatencyMs LM"
    and submit_nonneg: "0 \<le> lm_submitLatencyMs LM intent"
    and cancel_nonneg: "0 \<le> lm_cancelLatencyMs LM o1"

lemma math_round_nonneg: "0 \<le> x \<Longrightarrow> 0 \<le> math_round x"
  by (simp add: math_round_def)

definition submitEffectiveAt :: "latency_model \<Rightarrow> order_intent \<Rightarrow> int \<Rightarrow> int" where
  "submitEffectiveAt LM intent nowMs =
     nowMs + math_round (lm_decisionLatencyMs LM) + math_round (lm_submitLatencyMs LM intent)"

definition cancelEffectiveAt :: "latency_model \<Rightarrow> simulated_order \<Rightarrow> int \<Rightarrow> int" where
  "cancelEffectiveAt LM o1 nowMs =
     nowMs + math_round (lm_decisionLatencyMs LM) + math_round (lm_cancelLatencyMs LM o1)"

context latency_model
begin

lemma submit_not_early: "nowMs \<le> submitEffectiveAt LM intent nowMs"
  using math_round_nonneg [OF decision_nonneg] math_round_nonneg [OF submit_nonneg]
  by (simp add: submitEffectiveAt_def)

lemma cancel_not_early: "nowMs \<le> cancelEffectiveAt LM o1 nowMs"
  using math_round_nonneg [OF decision_nonneg] math_round_nonneg [OF cancel_nonneg]
  by (simp add: cancelEffectiveAt_def)

end

interpretation zero_latency: latency_model zeroLatencyModel
  by unfold_locales (simp_all add: zeroLatencyModel_def)

lemma fixed_latency_laws:
  "0 \<le> fl_decisionMs p \<Longrightarrow> 0 \<le> fl_submitMs p \<Longrightarrow> 0 \<le> fl_cancelMs p \<Longrightarrow> latency_model (fixedLatencyModel p)"
  by unfold_locales (simp_all add: fixedLatencyModel_def)

lemma uniform_laws: "0 \<le> ms \<Longrightarrow> latency_model (uniform ms)"
  unfolding uniform_def by (rule fixed_latency_laws) simp_all

text \<open>A complementary contract at the complementary price is the same order.\<close>

lemma yesAction_flip: "yesAction (otherSide side) action = (if yesAction side action = Buy then Sell else Buy)"
  by (cases side; cases action) simp_all

lemma yes_no_equivalent:
  "yesEquivalentPrice No action (1 - p) = yesEquivalentPrice Yes action p"
  "yesAction No Buy = yesAction Yes Sell" "yesAction No Sell = yesAction Yes Buy"
  by simp_all

lemma yes_price_range: "0 \<le> p \<Longrightarrow> p \<le> 1 \<Longrightarrow> 0 \<le> yesEquivalentPrice side action p \<and> yesEquivalentPrice side action p \<le> 1"
  by simp

end
