(* ===== verification/Accounting.thy ===== *)
theory Accounting
  imports Orders
begin

text \<open>
  Position accounting: \<open>src/src/research/portfolio/accounting.ts\<close>.

  A position is one signed number of YES contracts with its average entry price. Every function
  returns the position it mutates. The average is a quotient rounded to 34 digits by the decimal
  library (\<open>ddiv\<close>); everything else is exact. The lemmas give the accounting identity of one
  fill, of a settlement and of a void, with the error the rounded average can cause.
\<close>

section \<open>The model\<close>

datatype position_resolution =
  PrFlat | PrSettled | PrVoided | PrOpenAtRunEnd | PrAwaitingDetermination | PrUnpriceable

record position_state =
  ps_marketTicker :: string
  ps_quantity :: rat
  ps_averageEntryPrice :: rat
  ps_realizedPnl :: rat
  ps_feesPaid :: rat
  ps_boughtQuantity :: rat
  ps_soldQuantity :: rat
  ps_notional :: rat
  ps_fillCount :: nat
  ps_settled :: bool
  ps_settlementPayout :: "rat option"
  ps_resolution :: position_resolution

definition newPosition :: "string \<Rightarrow> position_state" where
  "newPosition marketTicker =
     \<lparr>ps_marketTicker = marketTicker, ps_quantity = 0, ps_averageEntryPrice = 0, ps_realizedPnl = 0,
      ps_feesPaid = 0, ps_boughtQuantity = 0, ps_soldQuantity = 0, ps_notional = 0, ps_fillCount = 0,
      ps_settled = False, ps_settlementPayout = None, ps_resolution = PrFlat\<rparr>"

record fill_application =
  fa_cashDelta :: rat
  fa_realizedDelta :: rat
  fa_closedQuantity :: rat

definition opposing :: "rat \<Rightarrow> rat \<Rightarrow> bool" where
  "opposing before signedQuantity \<longleftrightarrow> before \<noteq> 0 \<and> (before < 0) \<noteq> (signedQuantity < 0)"

definition applyFillToPosition ::
  "dec_lib \<Rightarrow> position_state \<Rightarrow> rat \<Rightarrow> rat \<Rightarrow> rat \<Rightarrow> fill_application \<times> position_state" where
  "applyFillToPosition L pos signedQuantity price fee =
     (if signedQuantity = 0
      then (\<lparr>fa_cashDelta = - fee, fa_realizedDelta = 0, fa_closedQuantity = 0\<rparr>, pos)
      else
        let absQty = \<bar>signedQuantity\<bar>;
            before = ps_quantity pos;
            (pos, realizedDelta, closedQuantity) =
              (if opposing before signedQuantity then
                 let closedQuantity = min \<bar>before\<bar> absQty;
                     direction = (if 0 < before then 1 else - 1);
                     realizedDelta = closedQuantity * (price - ps_averageEntryPrice pos) * direction;
                     remaining = absQty - closedQuantity;
                     pos = (if remaining = 0 then
                              let pos = pos\<lparr>ps_quantity := before + signedQuantity\<rparr>
                              in if ps_quantity pos = 0 then pos\<lparr>ps_averageEntryPrice := 0\<rparr> else pos
                            else pos\<lparr>ps_quantity := (if 0 < signedQuantity then remaining else - remaining),
                                   ps_averageEntryPrice := price\<rparr>)
                 in (pos, realizedDelta, closedQuantity)
               else
                 let priorAbs = \<bar>before\<bar>;
                     newAbs = priorAbs + absQty
                 in (pos\<lparr>ps_averageEntryPrice :=
                       ddiv L (priorAbs * ps_averageEntryPrice pos + absQty * price) newAbs,
                       ps_quantity := before + signedQuantity\<rparr>, 0, 0));
            pos = pos\<lparr>ps_realizedPnl := ps_realizedPnl pos + realizedDelta,
                      ps_feesPaid := ps_feesPaid pos + fee,
                      ps_notional := ps_notional pos + absQty * price,
                      ps_fillCount := ps_fillCount pos + 1\<rparr>;
            pos = (if 0 < signedQuantity
                   then pos\<lparr>ps_boughtQuantity := ps_boughtQuantity pos + absQty\<rparr>
                   else pos\<lparr>ps_soldQuantity := ps_soldQuantity pos + absQty\<rparr>)
        in (\<lparr>fa_cashDelta = - (signedQuantity * price) - fee, fa_realizedDelta = realizedDelta,
             fa_closedQuantity = closedQuantity\<rparr>, pos))"

datatype accounting_error = AlreadySettled string

definition settlePosition :: "position_state \<Rightarrow> rat \<Rightarrow> accounting_error + fill_application \<times> position_state" where
  "settlePosition pos perYes =
     (if ps_settled pos then Inl (AlreadySettled (ps_marketTicker pos))
      else let qty = ps_quantity pos
           in Inr (\<lparr>fa_cashDelta = qty * perYes, fa_realizedDelta = qty * (perYes - ps_averageEntryPrice pos),
                    fa_closedQuantity = \<bar>qty\<bar>\<rparr>,
                   pos\<lparr>ps_settled := True, ps_settlementPayout := Some perYes, ps_resolution := PrSettled,
                       ps_quantity := 0, ps_averageEntryPrice := 0\<rparr>))"

definition voidPosition :: "position_state \<Rightarrow> accounting_error + fill_application \<times> position_state" where
  "voidPosition pos =
     (if ps_settled pos then Inl (AlreadySettled (ps_marketTicker pos))
      else let qty = ps_quantity pos
           in Inr (\<lparr>fa_cashDelta = qty * ps_averageEntryPrice pos, fa_realizedDelta = 0, fa_closedQuantity = \<bar>qty\<bar>\<rparr>,
                   pos\<lparr>ps_settled := True, ps_settlementPayout := None, ps_resolution := PrVoided,
                       ps_quantity := 0, ps_averageEntryPrice := 0\<rparr>))"

definition unrealizedPnl :: "position_state \<Rightarrow> rat option \<Rightarrow> rat option" where
  "unrealizedPnl pos mark =
     (if ps_quantity pos = 0 then Some 0
      else map_option (\<lambda>m. ps_quantity pos * (m - ps_averageEntryPrice pos)) mark)"

definition collateralRequired :: "position_state \<Rightarrow> rat" where
  "collateralRequired pos =
     (let qty = ps_quantity pos
      in if qty = 0 then 0
         else if 0 < qty then qty * ps_averageEntryPrice pos
         else \<bar>qty\<bar> * (1 - ps_averageEntryPrice pos))"

section \<open>One fill\<close>

definition costBasis :: "position_state \<Rightarrow> rat" where
  \<comment> \<open>what the open position cost, at its recorded average\<close>
  "costBasis pos = ps_quantity pos * ps_averageEntryPrice pos"

definition position_ok :: "position_state \<Rightarrow> bool" where
  "position_ok pos \<longleftrightarrow> 0 \<le> ps_averageEntryPrice pos \<and> ps_averageEntryPrice pos \<le> 1 \<and>
     (ps_quantity pos = 0 \<longrightarrow> ps_averageEntryPrice pos = 0)"

lemma fill_quantity:
  "applyFillToPosition L pos sq price fee = (a, pos') \<Longrightarrow> ps_quantity pos' = ps_quantity pos + sq"
  by (auto simp: applyFillToPosition_def opposing_def Let_def min_def abs_if split: if_splits)

lemma fill_keeps:
  "applyFillToPosition L pos sq price fee = (a, pos') \<Longrightarrow>
     ps_settled pos' = ps_settled pos \<and> ps_marketTicker pos' = ps_marketTicker pos \<and>
     ps_resolution pos' = ps_resolution pos \<and> ps_settlementPayout pos' = ps_settlementPayout pos"
  by (auto simp: applyFillToPosition_def Let_def split: if_splits)

lemma fill_totals:
  assumes "applyFillToPosition L pos sq price fee = (a, pos')"
  shows "ps_boughtQuantity pos' = ps_boughtQuantity pos + max 0 sq"
    "ps_soldQuantity pos' = ps_soldQuantity pos + max 0 (- sq)"
    "ps_realizedPnl pos' = ps_realizedPnl pos + fa_realizedDelta a"
    "fa_cashDelta a = - (sq * price) - fee"
    "0 \<le> fa_closedQuantity a" "fa_closedQuantity a \<le> \<bar>ps_quantity pos\<bar>" "fa_closedQuantity a \<le> \<bar>sq\<bar>"
  using assms by (auto simp: applyFillToPosition_def Let_def split: if_splits)

text \<open>Away from an opening fill the identity is exact.\<close>

lemma closing_identity:
  assumes "applyFillToPosition L pos sq price fee = (a, pos')" "opposing (ps_quantity pos) sq"
  shows "costBasis pos' - costBasis pos = fa_realizedDelta a + sq * price"
  using assms
  by (auto simp: applyFillToPosition_def costBasis_def opposing_def Let_def min_def abs_if algebra_simps split: if_splits)
    (simp add: distrib_left [symmetric] add_eq_0_iff)

lemma closing_average:
  assumes "applyFillToPosition L pos sq price fee = (a, pos')" "opposing (ps_quantity pos) sq"
  shows "ps_averageEntryPrice pos' \<in> {0, price, ps_averageEntryPrice pos}"
    "ps_quantity pos' = 0 \<Longrightarrow> ps_averageEntryPrice pos' = 0"
  using assms
  by (auto simp: applyFillToPosition_def opposing_def Let_def min_def abs_if split: if_splits)

lemma opening_fields:
  assumes "applyFillToPosition L pos sq price fee = (a, pos')" "\<not> opposing (ps_quantity pos) sq" "sq \<noteq> 0"
  shows "ps_averageEntryPrice pos' =
      ddiv L (\<bar>ps_quantity pos\<bar> * ps_averageEntryPrice pos + \<bar>sq\<bar> * price) (\<bar>ps_quantity pos\<bar> + \<bar>sq\<bar>)"
    "fa_realizedDelta a = 0"
  using assms by (auto simp: applyFillToPosition_def Let_def split: if_splits)

context decimal_lib
begin

lemma opening_unit:
  fixes avg price a b :: rat
  assumes "0 \<le> avg" "avg \<le> 1" "0 \<le> price" "price \<le> 1" "0 \<le> a" "0 < b"
  shows "0 \<le> a * avg + b * price" "a * avg + b * price \<le> a + b"
proof -
  show "0 \<le> a * avg + b * price"
    using assms by (intro add_nonneg_nonneg mult_nonneg_nonneg) simp_all
  have "a * avg \<le> a" "b * price \<le> b" using assms by (simp_all add: mult_left_le)
  then show "a * avg + b * price \<le> a + b" by simp
qed

lemma fill_position_ok:
  assumes "position_ok pos" "0 \<le> price" "price \<le> 1" "applyFillToPosition L pos sq price fee = (a, pos')"
  shows "position_ok pos'"
proof (cases "sq = 0")
  case True
  then show ?thesis using assms by (simp add: applyFillToPosition_def)
next
  case nz: False
  show ?thesis
  proof (cases "opposing (ps_quantity pos) sq")
    case True
    then show ?thesis using closing_average [OF assms(4)] assms(1-3) by (auto simp: position_ok_def)
  next
    case False
    let ?a = "\<bar>ps_quantity pos\<bar>" and ?b = "\<bar>sq\<bar>"
    have b: "0 < ?b" using nz by simp
    have avg: "0 \<le> ps_averageEntryPrice pos" "ps_averageEntryPrice pos \<le> 1"
      using assms(1) by (simp_all add: position_ok_def)
    have "0 \<le> ps_averageEntryPrice pos' \<and> ps_averageEntryPrice pos' \<le> 1"
      unfolding opening_fields(1) [OF assms(4) False nz]
      by (rule ddiv_unit) (use opening_unit [OF avg assms(2,3) _ b, of ?a] b in simp_all)
    moreover have "ps_quantity pos' \<noteq> 0"
      using fill_quantity [OF assms(4)] False nz by (auto simp: opposing_def split: if_splits)
    ultimately show ?thesis by (simp add: position_ok_def)
  qed
qed

text \<open>The cash of a fill is the change of the cost basis, up to the rounding of the average.\<close>

lemma fill_identity:
  assumes "position_ok pos" "0 \<le> price" "price \<le> 1" "applyFillToPosition L pos sq price fee = (a, pos')"
  shows "\<bar>fa_cashDelta a + fee + (costBasis pos' - costBasis pos) - fa_realizedDelta a\<bar> \<le> (\<bar>ps_quantity pos\<bar> + \<bar>sq\<bar>) / 10 ^ 33"
proof (cases "sq = 0")
  case True
  then show ?thesis using assms(4) by (auto simp: applyFillToPosition_def)
next
  case nz: False
  note cash = fill_totals(4) [OF assms(4)]
  show ?thesis
  proof (cases "opposing (ps_quantity pos) sq")
    case True
    then show ?thesis using closing_identity [OF assms(4)] by (simp add: cash)
  next
    case False
    let ?a = "\<bar>ps_quantity pos\<bar>" and ?b = "\<bar>sq\<bar>" and ?q = "ps_quantity pos"
    let ?x = "?a * ps_averageEntryPrice pos + ?b * price"
    have b: "0 < ?a + ?b" using nz by simp
    have avg: "0 \<le> ps_averageEntryPrice pos" "ps_averageEntryPrice pos \<le> 1"
      using assms(1) by (simp_all add: position_ok_def)
    note x = opening_unit [OF avg assms(2,3), of ?a ?b]
    have q': "ps_quantity pos' = ?q + sq" by (rule fill_quantity [OF assms(4)])
    obtain s where s: "?q = s * ?a" "sq = s * ?b" "\<bar>s\<bar> = 1"
    proof (cases "sq < 0")
      case True
      then show ?thesis using False by (intro that [of "- 1"]) (auto simp: opposing_def)
    next
      case nonneg: False
      then show ?thesis using False by (intro that [of 1]) (auto simp: opposing_def)
    qed
    have qs: "?q + sq = s * (?a + ?b)" unfolding distrib_left using s(1,2) by simp
    have old: "costBasis pos + sq * price = s * ?x"
      using s(1,2) unfolding costBasis_def distrib_left mult.assoc [symmetric] by simp
    let ?r = "dl_round L (?x / (?a + ?b))"
    have new: "costBasis pos' = s * (?a + ?b) * ?r"
      unfolding costBasis_def q' qs opening_fields(1) [OF assms(4) False nz] ddiv_def by simp
    have ex: "(?a + ?b) * (?x / (?a + ?b)) = ?x" using b by simp
    have "fa_cashDelta a + fee + (costBasis pos' - costBasis pos) - fa_realizedDelta a
        = costBasis pos' - (costBasis pos + sq * price)"
      using cash opening_fields(2) [OF assms(4) False nz] by simp
    also have "\<dots> = s * ((?a + ?b) * (?r - ?x / (?a + ?b)))"
      unfolding new old right_diff_distrib ex by (simp add: mult.assoc)
    finally have "\<bar>fa_cashDelta a + fee + (costBasis pos' - costBasis pos) - fa_realizedDelta a\<bar>
        = (?a + ?b) * \<bar>?r - ?x / (?a + ?b)\<bar>"
      using s(3) b by (simp add: abs_mult)
    also have "\<dots> \<le> (?a + ?b) * (\<bar>?x / (?a + ?b)\<bar> / 10 ^ 33)"
      by (rule mult_left_mono [OF round_err]) (use b in simp)
    also have "\<dots> \<le> (?a + ?b) * (1 / 10 ^ 33)"
      using x b nz by (intro mult_left_mono divide_right_mono) (simp_all add: abs_divide)
    finally show ?thesis by simp
  qed
qed

end

section \<open>Settlement and void\<close>

lemma settle_cases:
  assumes "settlePosition pos p = r"
  obtains (settled) "ps_settled pos" "r = Inl (AlreadySettled (ps_marketTicker pos))"
  | (pays) a pos' where "\<not> ps_settled pos" "r = Inr (a, pos')" "fa_cashDelta a = ps_quantity pos * p"
      "fa_realizedDelta a = ps_quantity pos * p - costBasis pos" "ps_quantity pos' = 0" "ps_averageEntryPrice pos' = 0"
      "ps_settled pos'" "ps_settlementPayout pos' = Some p" "ps_resolution pos' = PrSettled"
      "ps_marketTicker pos' = ps_marketTicker pos"
  using assms by (cases "ps_settled pos") (auto simp: settlePosition_def Let_def costBasis_def right_diff_distrib)

lemma void_cases:
  assumes "voidPosition pos = r"
  obtains (settled) "ps_settled pos" "r = Inl (AlreadySettled (ps_marketTicker pos))"
  | (returned) a pos' where "\<not> ps_settled pos" "r = Inr (a, pos')" "fa_cashDelta a = costBasis pos"
      "fa_realizedDelta a = 0" "ps_quantity pos' = 0" "ps_averageEntryPrice pos' = 0"
      "ps_settled pos'" "ps_settlementPayout pos' = None" "ps_resolution pos' = PrVoided"
      "ps_marketTicker pos' = ps_marketTicker pos"
  using assms by (cases "ps_settled pos") (auto simp: voidPosition_def Let_def costBasis_def)

lemma position_ok_new: "position_ok (newPosition t)"
  by (simp add: position_ok_def newPosition_def)

section \<open>Properties\<close>

text \<open>
  C32: One fill: the signed position moves by the signed quantity, the closing part realises the
  distance between the fill price and the average in the direction of the position it closes, an
  opening fill realises nothing, and the cash paid is the change of the cost basis and what was
  realised, up to the rounding of the average to 34 digits. Averages stay within [0, 1].
\<close>
theorem fill_accounting:
  assumes "decimal_lib L" "position_ok pos" "0 \<le> price" "price \<le> 1" "sq \<noteq> 0"
    and "applyFillToPosition L pos sq price fee = (a, pos')"
  shows "position_ok pos' \<and> ps_quantity pos' = ps_quantity pos + sq \<and>
    fa_cashDelta a = - (sq * price) - fee \<and>
    fa_closedQuantity a = (if opposing (ps_quantity pos) sq then min \<bar>ps_quantity pos\<bar> \<bar>sq\<bar> else 0) \<and>
    fa_realizedDelta a = fa_closedQuantity a * (price - ps_averageEntryPrice pos) * sgn (ps_quantity pos) \<and>
    \<bar>fa_cashDelta a + fee + (costBasis pos' - costBasis pos) - fa_realizedDelta a\<bar> \<le> (\<bar>ps_quantity pos\<bar> + \<bar>sq\<bar>) / 10 ^ 33"
proof (intro conjI)
  show "position_ok pos'" by (rule decimal_lib.fill_position_ok [OF assms(1-4,6)])
  show "\<bar>fa_cashDelta a + fee + (costBasis pos' - costBasis pos) - fa_realizedDelta a\<bar> \<le> (\<bar>ps_quantity pos\<bar> + \<bar>sq\<bar>) / 10 ^ 33"
    by (rule decimal_lib.fill_identity [OF assms(1-4,6)])
  show "ps_quantity pos' = ps_quantity pos + sq" by (rule fill_quantity [OF assms(6)])
  show "fa_cashDelta a = - (sq * price) - fee" by (rule fill_totals(4) [OF assms(6)])
  show "fa_closedQuantity a = (if opposing (ps_quantity pos) sq then min \<bar>ps_quantity pos\<bar> \<bar>sq\<bar> else 0)"
    "fa_realizedDelta a = fa_closedQuantity a * (price - ps_averageEntryPrice pos) * sgn (ps_quantity pos)"
    using assms(5,6) by (auto simp: applyFillToPosition_def opposing_def Let_def sgn_if split: if_splits)
qed

definition wit_position :: position_state where
  "wit_position = (newPosition ''M'')\<lparr>ps_quantity := 4, ps_averageEntryPrice := 2 / 5\<rparr>"

theorem fill_accounting_witness:
  "map_prod fa_realizedDelta ps_quantity (applyFillToPosition std_dlib wit_position (- 6) (1 / 2) (1 / 10)) = (2 / 5, - 2)"
proof -
  obtain a pos' where r: "applyFillToPosition std_dlib wit_position (- 6) (1 / 2) (1 / 10) = (a, pos')" by fastforce
  have q: "ps_quantity wit_position = 4" "ps_averageEntryPrice wit_position = 2 / 5"
    by (simp_all add: wit_position_def newPosition_def)
  then have "position_ok wit_position" by (simp add: position_ok_def)
  from fill_accounting [OF std.decimal_lib_axioms this _ _ _ r]
  show ?thesis by (simp add: r q opposing_def)
qed

text \<open>
  C33: Collateral is the worst case: whatever a market pays, a position loses at settlement no more
  than its collateral, and it loses exactly that when a long pays nothing or a short pays one.
\<close>
theorem collateral_is_worst_loss:
  assumes "position_ok pos" "0 \<le> p" "p \<le> 1" "settlePosition pos p = Inr (a, pos')"
  shows "- collateralRequired pos \<le> fa_realizedDelta a \<and> 0 \<le> collateralRequired pos \<and>
    (p = (if 0 < ps_quantity pos then 0 else 1) \<longrightarrow> fa_realizedDelta a = - collateralRequired pos)"
proof -
  let ?q = "ps_quantity pos" and ?v = "ps_averageEntryPrice pos"
  have v: "0 \<le> ?v" "?v \<le> 1" using assms(1) by (simp_all add: position_ok_def)
  have r: "fa_realizedDelta a = ?q * (p - ?v)"
    using assms(4) by (auto simp: settlePosition_def Let_def split: if_splits)
  show ?thesis
  proof (cases "0 < ?q")
    case True
    then have "0 \<le> ?q * p" "0 \<le> ?q * ?v" using assms(2) v by simp_all
    then show ?thesis using True by (simp add: r collateralRequired_def algebra_simps)
  next
    case False
    then have "0 \<le> - ?q * (1 - p)" "0 \<le> - ?q * (1 - ?v)" using assms(3) v by (intro mult_nonneg_nonneg; simp)+
    then show ?thesis using False by (auto simp: r collateralRequired_def Let_def algebra_simps abs_if)
  qed
qed

theorem collateral_is_worst_loss_witness:
  "map_option (fa_realizedDelta \<circ> fst) (case settlePosition wit_position 0 of Inl e \<Rightarrow> None | Inr r \<Rightarrow> Some r) =
     Some (- collateralRequired wit_position)"
proof -
  obtain a pos' where r: "settlePosition wit_position 0 = Inr (a, pos')"
    by (simp add: settlePosition_def wit_position_def newPosition_def)
  have "position_ok wit_position" by (simp add: position_ok_def wit_position_def newPosition_def)
  from collateral_is_worst_loss [OF this _ _ r] show ?thesis by (simp add: r) (simp add: wit_position_def)
qed

end
