(* ===== verification/Portfolio.thy ===== *)
theory Portfolio
  imports Accounting
begin

text \<open>
  Cash, positions and profit across the markets of a run:
  \<open>src/src/research/portfolio/portfolio.ts\<close>.

  \<open>portfolio\<close> has the private fields of the class; each method returns the portfolio it mutates.
  The positions are a JavaScript map whose values are mutated in place, which is a \<open>js_set\<close> of the
  same key. The lemmas show the accounting identity of every run, the meaning of the drawdown and
  of the mean inventory, and that a market resolves once.
\<close>

section \<open>The model\<close>

record position_snapshot =
  pp_marketTicker :: string
  pp_quantity :: string
  pp_averageEntryPrice :: string
  pp_realizedPnl :: string
  pp_unrealizedPnl :: "string option"
  pp_feesPaid :: string
  pp_mark :: "string option"
  pp_collateral :: string
  pp_settled :: bool
  pp_resolution :: position_resolution
  pp_settlementPayout :: "string option"

record equity_row =
  er_atMs :: string
  er_cash :: string
  er_realizedTradingPnl :: string
  er_settlementPnl :: string
  er_unrealizedMarkPnl :: string
  er_grossPnl :: string
  er_netPnl :: "string option"
  er_feesPaid :: string
  er_feeVerified :: bool
  er_netInventory :: string
  er_absInventory :: string
  er_collateral :: string
  er_unmarkedPositions :: nat
  er_unmarkedQuantity :: string

record portfolio_snapshot =
  pn_atMs :: string
  pn_cash :: string
  pn_realizedTradingPnl :: string
  pn_settlementPnl :: string
  pn_unrealizedMarkPnl :: string
  pn_feesPaid :: string
  pn_feeVerified :: bool
  pn_grossPnl :: string
  pn_netPnl :: "string option"
  pn_netInventory :: string
  pn_absInventory :: string
  pn_collateral :: string
  pn_positions :: "position_snapshot list"

record portfolio =
  pf_positions :: "(string, position_state) jsmap"
  pf_cashBalance :: rat
  pf_realized :: rat
  pf_settlement :: rat
  pf_fees :: rat
  pf_unknownFeeFills :: nat
  pf_maxAbsInventory :: rat
  pf_inventoryTimeIntegral :: rat
  pf_lastInventoryMs :: "int option"
  pf_lastAbsInventory :: rat
  pf_maxCollateral :: rat
  pf_peakEquity :: "rat option"
  pf_maxDrawdownValue :: rat

definition newPortfolio :: portfolio where
  "newPortfolio = \<lparr>pf_positions = [], pf_cashBalance = 0, pf_realized = 0, pf_settlement = 0, pf_fees = 0,
     pf_unknownFeeFills = 0, pf_maxAbsInventory = 0, pf_inventoryTimeIntegral = 0, pf_lastInventoryMs = None,
     pf_lastAbsInventory = 0, pf_maxCollateral = 0, pf_peakEquity = None, pf_maxDrawdownValue = 0\<rparr>"

definition pf_position :: "string \<Rightarrow> portfolio \<Rightarrow> position_state \<times> portfolio" where
  "pf_position ticker pf =
     (case js_get (pf_positions pf) ticker of
        Some p \<Rightarrow> (p, pf)
      | None \<Rightarrow> let p = newPosition ticker in (p, pf\<lparr>pf_positions := js_set ticker p (pf_positions pf)\<rparr>))"

definition positionQuantity :: "string \<Rightarrow> portfolio \<Rightarrow> rat" where
  "positionQuantity ticker pf = (case js_get (pf_positions pf) ticker of None \<Rightarrow> 0 | Some p \<Rightarrow> ps_quantity p)"

definition allPositions :: "portfolio \<Rightarrow> position_state list" where
  "allPositions pf = map snd (pf_positions pf)"

definition putPosition :: "string \<Rightarrow> position_state \<Rightarrow> portfolio \<Rightarrow> portfolio" where
  \<comment> \<open>the position object was mutated in place\<close>
  "putPosition ticker pos pf = pf\<lparr>pf_positions := js_set ticker pos (pf_positions pf)\<rparr>"

definition pf_applyFill :: "dec_lib \<Rightarrow> simulated_fill \<Rightarrow> portfolio \<Rightarrow> portfolio" where
  "pf_applyFill L f pf =
     (let (pos, pf) = pf_position (fl_marketTicker f) pf;
          signed = (if fl_yesAction f = Buy then fl_quantity f else - fl_quantity f);
          (applied, pos) = applyFillToPosition L pos signed (fl_yesPrice f) (fl_fee f);
          pf = putPosition (fl_marketTicker f) pos pf
      in pf\<lparr>pf_cashBalance := pf_cashBalance pf + fa_cashDelta applied,
            pf_realized := pf_realized pf + fa_realizedDelta applied,
            pf_fees := pf_fees pf + fl_fee f\<rparr>)"

definition settle :: "string \<Rightarrow> rat \<Rightarrow> portfolio \<Rightarrow> portfolio" where
  "settle ticker perYes pf =
     (case js_get (pf_positions pf) ticker of
        None \<Rightarrow> pf
      | Some pos \<Rightarrow>
          (case settlePosition pos perYes of
             Inl _ \<Rightarrow> pf
           | Inr (applied, pos) \<Rightarrow>
               (let pf = putPosition ticker pos pf
                in pf\<lparr>pf_cashBalance := pf_cashBalance pf + fa_cashDelta applied,
                      pf_settlement := pf_settlement pf + fa_realizedDelta applied\<rparr>)))"

definition voidMarket :: "string \<Rightarrow> portfolio \<Rightarrow> portfolio" where
  "voidMarket ticker pf =
     (case js_get (pf_positions pf) ticker of
        None \<Rightarrow> pf
      | Some pos \<Rightarrow>
          (case voidPosition pos of
             Inl _ \<Rightarrow> pf
           | Inr (applied, pos) \<Rightarrow>
               (let pf = putPosition ticker pos pf
                in pf\<lparr>pf_cashBalance := pf_cashBalance pf + fa_cashDelta applied\<rparr>)))"

definition resolveAs :: "string \<Rightarrow> position_resolution \<Rightarrow> portfolio \<Rightarrow> portfolio" where
  "resolveAs ticker resolution pf =
     (case js_get (pf_positions pf) ticker of
        None \<Rightarrow> pf
      | Some pos \<Rightarrow> if ps_settled pos then pf else putPosition ticker (pos\<lparr>ps_resolution := resolution\<rparr>) pf)"

definition noteUnknownFee :: "portfolio \<Rightarrow> portfolio" where
  "noteUnknownFee pf = pf\<lparr>pf_unknownFeeFills := pf_unknownFeeFills pf + 1\<rparr>"

type_synonym marks = "(string, rat option) jsmap"

definition markOf :: "marks \<Rightarrow> string \<Rightarrow> rat option" where
  \<comment> \<open>\<open>marks.get(ticker) ?? null\<close>\<close>
  "markOf ms ticker = (case js_get ms ticker of None \<Rightarrow> None | Some m \<Rightarrow> m)"

text \<open>The loop of \<open>mark\<close> and what it does with its totals.\<close>

definition markStep :: "marks \<Rightarrow> rat \<times> rat \<times> rat \<Rightarrow> position_state \<Rightarrow> rat \<times> rat \<times> rat" where
  "markStep ms acc pos =
     (let (absQ, collateral, equity) = acc;
          absQ = absQ + \<bar>ps_quantity pos\<bar>;
          collateral = collateral + collateralRequired pos
      in if ps_quantity pos = 0 then (absQ, collateral, equity)
         else (case markOf ms (ps_marketTicker pos) of
                 None \<Rightarrow> (absQ, collateral, equity)
               | Some m \<Rightarrow> (absQ, collateral, equity + ps_quantity pos * m)))"

definition markTotals :: "marks \<Rightarrow> portfolio \<Rightarrow> rat \<times> rat \<times> rat" where
  "markTotals ms pf = foldl (markStep ms) (0, 0, pf_cashBalance pf) (allPositions pf)"

definition mark :: "int \<Rightarrow> marks \<Rightarrow> portfolio \<Rightarrow> portfolio" where
  "mark atMs ms pf =
     (let (absQ, collateral, equity) = markTotals ms pf;
          pf = (case pf_lastInventoryMs pf of
                  None \<Rightarrow> pf
                | Some prev \<Rightarrow>
                    if prev < atMs
                    then pf\<lparr>pf_inventoryTimeIntegral :=
                           pf_inventoryTimeIntegral pf + pf_lastAbsInventory pf * of_int (atMs - prev)\<rparr>
                    else pf);
          pf = pf\<lparr>pf_lastInventoryMs := Some atMs, pf_lastAbsInventory := absQ\<rparr>;
          pf = (if pf_maxAbsInventory pf < absQ then pf\<lparr>pf_maxAbsInventory := absQ\<rparr> else pf);
          pf = (if pf_maxCollateral pf < collateral then pf\<lparr>pf_maxCollateral := collateral\<rparr> else pf);
          peak = (case pf_peakEquity pf of None \<Rightarrow> equity | Some p \<Rightarrow> if p < equity then equity else p);
          pf = pf\<lparr>pf_peakEquity := Some peak\<rparr>;
          drawdown = peak - equity
      in if pf_maxDrawdownValue pf < drawdown then pf\<lparr>pf_maxDrawdownValue := drawdown\<rparr> else pf)"

definition meanAbsInventory :: "dec_lib \<Rightarrow> int option \<Rightarrow> int option \<Rightarrow> portfolio \<Rightarrow> rat option" where
  "meanAbsInventory L firstMs lastMs pf =
     (case (firstMs, lastMs) of
        (Some f, Some l) \<Rightarrow>
          if l \<le> f then None else Some (ddiv L (pf_inventoryTimeIntegral pf) (of_int (l - f)))
      | _ \<Rightarrow> None)"

record equity_totals =
  eq_unrealized :: rat
  eq_net :: rat
  eq_abs :: rat
  eq_collateral :: rat
  eq_unmarkedPositions :: nat
  eq_unmarkedQuantity :: rat

definition equityStep :: "marks \<Rightarrow> equity_totals \<Rightarrow> position_state \<Rightarrow> equity_totals" where
  "equityStep ms acc pos =
     (let acc = acc\<lparr>eq_net := eq_net acc + ps_quantity pos, eq_abs := eq_abs acc + \<bar>ps_quantity pos\<bar>,
                eq_collateral := eq_collateral acc + collateralRequired pos\<rparr>
      in case unrealizedPnl pos (markOf ms (ps_marketTicker pos)) of
           None \<Rightarrow> acc\<lparr>eq_unmarkedPositions := eq_unmarkedPositions acc + 1,
                       eq_unmarkedQuantity := eq_unmarkedQuantity acc + \<bar>ps_quantity pos\<bar>\<rparr>
         | Some u \<Rightarrow> acc\<lparr>eq_unrealized := eq_unrealized acc + u\<rparr>)"

definition equityTotals :: "marks \<Rightarrow> portfolio \<Rightarrow> equity_totals" where
  "equityTotals ms pf =
     foldl (equityStep ms)
       \<lparr>eq_unrealized = 0, eq_net = 0, eq_abs = 0, eq_collateral = 0, eq_unmarkedPositions = 0, eq_unmarkedQuantity = 0\<rparr>
       (allPositions pf)"

definition grossOf :: "marks \<Rightarrow> portfolio \<Rightarrow> rat" where
  "grossOf ms pf = pf_realized pf + pf_settlement pf + eq_unrealized (equityTotals ms pf)"

definition equityRow :: "dec_lib \<Rightarrow> int \<Rightarrow> marks \<Rightarrow> portfolio \<Rightarrow> equity_row" where
  "equityRow L atMs ms pf =
     (let t = equityTotals ms pf;
          gross = grossOf ms pf;
          feeVerified = (pf_unknownFeeFills pf = 0)
      in \<lparr>er_atMs = int_str atMs, er_cash = dl_fixed L 6 (pf_cashBalance pf),
          er_realizedTradingPnl = dl_fixed L 6 (pf_realized pf), er_settlementPnl = dl_fixed L 6 (pf_settlement pf),
          er_unrealizedMarkPnl = dl_fixed L 6 (eq_unrealized t), er_grossPnl = dl_fixed L 6 gross,
          er_netPnl = (if feeVerified then Some (dl_fixed L 6 (gross - pf_fees pf)) else None),
          er_feesPaid = dl_fixed L 6 (pf_fees pf), er_feeVerified = feeVerified,
          er_netInventory = dl_fixed L 6 (eq_net t), er_absInventory = dl_fixed L 6 (eq_abs t),
          er_collateral = dl_fixed L 6 (eq_collateral t), er_unmarkedPositions = eq_unmarkedPositions t,
          er_unmarkedQuantity = dl_fixed L 6 (eq_unmarkedQuantity t)\<rparr>)"

definition positionSnapshot :: "dec_lib \<Rightarrow> marks \<Rightarrow> position_state \<Rightarrow> position_snapshot" where
  "positionSnapshot L ms pos =
     (let m = markOf ms (ps_marketTicker pos); unreal = unrealizedPnl pos m
      in \<lparr>pp_marketTicker = ps_marketTicker pos, pp_quantity = dl_fixed L 6 (ps_quantity pos),
          pp_averageEntryPrice = dl_fixed L 6 (ps_averageEntryPrice pos),
          pp_realizedPnl = dl_fixed L 6 (ps_realizedPnl pos), pp_unrealizedPnl = map_option (dl_fixed L 6) unreal,
          pp_feesPaid = dl_fixed L 6 (ps_feesPaid pos), pp_mark = map_option (dl_fixed L 6) m,
          pp_collateral = dl_fixed L 6 (collateralRequired pos), pp_settled = ps_settled pos,
          pp_resolution = ps_resolution pos, pp_settlementPayout = map_option (dl_fixed L 6) (ps_settlementPayout pos)\<rparr>)"

text \<open>The loop of \<open>snapshot\<close> keeps the same totals, without counting the unmarked positions.\<close>

definition snapshotStep :: "marks \<Rightarrow> rat \<times> rat \<times> rat \<times> rat \<Rightarrow> position_state \<Rightarrow> rat \<times> rat \<times> rat \<times> rat" where
  "snapshotStep ms acc pos =
     (let (unrealized, net, absQ, collateral) = acc
      in (case unrealizedPnl pos (markOf ms (ps_marketTicker pos)) of None \<Rightarrow> unrealized | Some u \<Rightarrow> unrealized + u,
          net + ps_quantity pos, absQ + \<bar>ps_quantity pos\<bar>, collateral + collateralRequired pos))"

definition snapshot :: "dec_lib \<Rightarrow> int \<Rightarrow> marks \<Rightarrow> portfolio \<Rightarrow> portfolio_snapshot" where
  "snapshot L atMs ms pf =
     (let (unrealized, net, absQ, collateral) = foldl (snapshotStep ms) (0, 0, 0, 0) (allPositions pf);
          gross = pf_realized pf + pf_settlement pf + unrealized;
          feeVerified = (pf_unknownFeeFills pf = 0)
      in \<lparr>pn_atMs = int_str atMs, pn_cash = dl_fixed L 6 (pf_cashBalance pf),
          pn_realizedTradingPnl = dl_fixed L 6 (pf_realized pf), pn_settlementPnl = dl_fixed L 6 (pf_settlement pf),
          pn_unrealizedMarkPnl = dl_fixed L 6 unrealized, pn_feesPaid = dl_fixed L 6 (pf_fees pf),
          pn_feeVerified = feeVerified, pn_grossPnl = dl_fixed L 6 gross,
          pn_netPnl = (if feeVerified then Some (dl_fixed L 6 (gross - pf_fees pf)) else None),
          pn_netInventory = dl_fixed L 6 net, pn_absInventory = dl_fixed L 6 absQ,
          pn_collateral = dl_fixed L 6 collateral,
          pn_positions = sort_key pp_marketTicker (map (positionSnapshot L ms) (allPositions pf))\<rparr>)"

section \<open>Runs\<close>

datatype portfolio_op =
  OpFill simulated_fill | OpSettle string rat | OpVoid string | OpResolve string position_resolution
| OpUnknownFee | OpMark int marks

fun pf_step :: "dec_lib \<Rightarrow> portfolio \<Rightarrow> portfolio_op \<Rightarrow> portfolio" where
  "pf_step L pf (OpFill f) = pf_applyFill L f pf"
| "pf_step L pf (OpSettle t p) = settle t p pf"
| "pf_step L pf (OpVoid t) = voidMarket t pf"
| "pf_step L pf (OpResolve t r) = resolveAs t r pf"
| "pf_step L pf OpUnknownFee = noteUnknownFee pf"
| "pf_step L pf (OpMark t ms) = mark t ms pf"

definition pf_run :: "dec_lib \<Rightarrow> portfolio_op list \<Rightarrow> portfolio" where
  "pf_run L ops = foldl (pf_step L) newPortfolio ops"

text \<open>A fill as the exchange produces it: a non-negative quantity at a price within [0, 1].\<close>

fun op_ok :: "portfolio_op \<Rightarrow> bool" where
  "op_ok (OpFill f) = (0 \<le> fl_quantity f \<and> 0 \<le> fl_yesPrice f \<and> fl_yesPrice f \<le> 1)"
| "op_ok _ = True"

fun op_volume :: "portfolio_op \<Rightarrow> rat" where
  "op_volume (OpFill f) = fl_quantity f"
| "op_volume _ = 0"

fun op_fills :: "portfolio_op \<Rightarrow> nat" where
  "op_fills (OpFill f) = 1"
| "op_fills _ = 0"

definition volume :: "portfolio_op list \<Rightarrow> rat" where
  "volume ops = sum_list (map op_volume ops)"

definition fillCount :: "portfolio_op list \<Rightarrow> nat" where
  "fillCount ops = sum_list (map op_fills ops)"

section \<open>The ledger invariant\<close>

definition bookValue :: "portfolio \<Rightarrow> rat" where
  \<comment> \<open>what the open positions cost\<close>
  "bookValue pf = sum_list (map (\<lambda>e. costBasis (snd e)) (pf_positions pf))"

definition discrepancy :: "portfolio \<Rightarrow> rat" where
  "discrepancy pf = pf_cashBalance pf + bookValue pf - (pf_realized pf + pf_settlement pf - pf_fees pf)"

definition positions_ok :: "portfolio \<Rightarrow> bool" where
  "positions_ok pf \<longleftrightarrow> js_map_ok (pf_positions pf) \<and>
     (\<forall>t p. js_get (pf_positions pf) t = Some p \<longrightarrow> position_ok p \<and> ps_marketTicker p = t)"

definition ledger_ok :: "nat \<Rightarrow> rat \<Rightarrow> portfolio \<Rightarrow> bool" where
  "ledger_ok n vol pf \<longleftrightarrow> positions_ok pf \<and> 0 \<le> vol \<and>
     (\<forall>t p. js_get (pf_positions pf) t = Some p \<longrightarrow> \<bar>ps_quantity p\<bar> \<le> vol) \<and>
     \<bar>discrepancy pf\<bar> \<le> of_nat n * vol / 10 ^ 33"

lemma bookValue_set:
  assumes "js_map_ok m"
  shows "sum_list (map (\<lambda>e. costBasis (snd e)) (js_set t pos m)) =
    sum_list (map (\<lambda>e. costBasis (snd e)) m) - (case js_get m t of None \<Rightarrow> 0 | Some p \<Rightarrow> costBasis p) + costBasis pos"
  by (rule sum_js_set [OF assms])

lemma costBasis_new [simp]: "costBasis (newPosition t) = 0"
  by (simp add: costBasis_def newPosition_def)

definition heldAt :: "string \<Rightarrow> portfolio \<Rightarrow> position_state" where
  \<comment> \<open>what \<open>position(ticker)\<close> returns\<close>
  "heldAt t pf = (case js_get (pf_positions pf) t of None \<Rightarrow> newPosition t | Some p \<Rightarrow> p)"

lemma heldAt_ok: "positions_ok pf \<Longrightarrow> position_ok (heldAt t pf) \<and> ps_marketTicker (heldAt t pf) = t"
  by (auto simp: positions_ok_def heldAt_def position_ok_new split: option.split) (simp add: newPosition_def)

lemma applyFill_eq:
  assumes "applyFillToPosition L (heldAt (fl_marketTicker f) pf)
      (if fl_yesAction f = Buy then fl_quantity f else - fl_quantity f) (fl_yesPrice f) (fl_fee f) = (a, pos)"
    and "js_map_ok (pf_positions pf)"
  shows "pf_applyFill L f pf = pf\<lparr>pf_positions := js_set (fl_marketTicker f) pos (pf_positions pf),
      pf_cashBalance := pf_cashBalance pf + fa_cashDelta a, pf_realized := pf_realized pf + fa_realizedDelta a,
      pf_fees := pf_fees pf + fl_fee f\<rparr>"
proof (cases "js_get (pf_positions pf) (fl_marketTicker f)")
  case None
  have "js_set (fl_marketTicker f) pos (js_set (fl_marketTicker f) (newPosition (fl_marketTicker f)) (pf_positions pf)) =
      js_set (fl_marketTicker f) pos (pf_positions pf)"
    by (induction "pf_positions pf") (auto simp: update_last)
  then show ?thesis using assms(1) None
    by (simp add: pf_applyFill_def pf_position_def heldAt_def putPosition_def Let_def)
next
  case (Some p)
  then show ?thesis using assms(1)
    by (simp add: pf_applyFill_def pf_position_def heldAt_def putPosition_def Let_def)
qed

lemma bookValue_put:
  assumes "js_map_ok (pf_positions pf)"
  shows "sum_list (map (\<lambda>e. costBasis (snd e)) (js_set t pos (pf_positions pf))) =
    bookValue pf - costBasis (heldAt t pf) + costBasis pos"
  using bookValue_set [OF assms, of t pos] by (auto simp: bookValue_def heldAt_def split: option.split)

lemma held_bound: "ledger_ok n vol pf \<Longrightarrow> \<bar>ps_quantity (heldAt t pf)\<bar> \<le> vol"
  by (auto simp: ledger_ok_def heldAt_def newPosition_def split: option.split)

lemma fill_ledger:
  assumes L: "decimal_lib L" and ok: "ledger_ok n vol pf" and f: "op_ok (OpFill f)"
  shows "ledger_ok (n + 1) (vol + fl_quantity f) (pf_applyFill L f pf)"
proof -
  let ?t = "fl_marketTicker f" and ?h = "heldAt (fl_marketTicker f) pf"
  let ?s = "if fl_yesAction f = Buy then fl_quantity f else - fl_quantity f"
  have pos: "positions_ok pf" and vol: "0 \<le> vol" and disc: "\<bar>discrepancy pf\<bar> \<le> of_nat n * vol / 10 ^ 33"
    using ok by (auto simp: ledger_ok_def)
  have m: "js_map_ok (pf_positions pf)" using pos by (simp add: positions_ok_def)
  have h: "position_ok ?h" "ps_marketTicker ?h = ?t" using heldAt_ok [OF pos] by blast+
  obtain a p where r: "applyFillToPosition L ?h ?s (fl_yesPrice f) (fl_fee f) = (a, p)" by fastforce
  note eq = applyFill_eq [OF r m]
  have p: "position_ok p" by (rule decimal_lib.fill_position_ok [OF L h(1) _ _ r]) (use f in simp_all)
  have tick: "ps_marketTicker p = ?t" using fill_keeps [OF r] h(2) by simp
  have abs: "\<bar>?s\<bar> = fl_quantity f" using f by simp
  have q: "\<bar>ps_quantity p\<bar> \<le> vol + fl_quantity f"
    using fill_quantity [OF r] held_bound [OF ok, of ?t] abs abs_triangle_ineq [of "ps_quantity ?h" ?s] by linarith
  have "\<bar>fa_cashDelta a + fl_fee f + (costBasis p - costBasis ?h) - fa_realizedDelta a\<bar> \<le> (\<bar>ps_quantity ?h\<bar> + \<bar>?s\<bar>) / 10 ^ 33"
    by (rule decimal_lib.fill_identity [OF L h(1) _ _ r]) (use f in simp_all)
  also have "\<dots> \<le> (vol + fl_quantity f) / 10 ^ 33"
    using held_bound [OF ok, of ?t] abs by (intro divide_right_mono) simp_all
  finally have step: "\<bar>fa_cashDelta a + fl_fee f + (costBasis p - costBasis ?h) - fa_realizedDelta a\<bar> \<le> (vol + fl_quantity f) / 10 ^ 33" .
  have "discrepancy (pf_applyFill L f pf) =
      discrepancy pf + (fa_cashDelta a + fl_fee f + (costBasis p - costBasis ?h) - fa_realizedDelta a)"
    unfolding eq using bookValue_put [OF m, of ?t p] by (simp add: discrepancy_def bookValue_def)
  then have "\<bar>discrepancy (pf_applyFill L f pf)\<bar> \<le> of_nat n * vol / 10 ^ 33 + (vol + fl_quantity f) / 10 ^ 33"
    using disc step by linarith
  also have "\<dots> \<le> of_nat n * (vol + fl_quantity f) / 10 ^ 33 + (vol + fl_quantity f) / 10 ^ 33"
    using f by (intro add_right_mono divide_right_mono mult_left_mono) simp_all
  also have "\<dots> = of_nat (n + 1) * (vol + fl_quantity f) / 10 ^ 33"
    by (simp add: algebra_simps add_divide_distrib)
  finally have d: "\<bar>discrepancy (pf_applyFill L f pf)\<bar> \<le> of_nat (n + 1) * (vol + fl_quantity f) / 10 ^ 33" .
  have "positions_ok (pf_applyFill L f pf)" using pos p tick by (simp add: eq positions_ok_def)
  moreover have "\<bar>ps_quantity u\<bar> \<le> vol + fl_quantity f" if "js_get (pf_positions (pf_applyFill L f pf)) t = Some u" for t u
    using that q ok f by (fastforce simp: eq ledger_ok_def split: if_splits)
  ultimately show ?thesis using d vol f by (simp add: ledger_ok_def)
qed

text \<open>Every other operation keeps the discrepancy and the bound on the positions.\<close>

lemma ledger_put:
  assumes ok: "ledger_ok n vol pf" and p: "position_ok p" "ps_marketTicker p = t" "\<bar>ps_quantity p\<bar> \<le> \<bar>ps_quantity (heldAt t pf)\<bar>"
    and pf': "pf_positions pf' = js_set t p (pf_positions pf)"
      "pf_cashBalance pf' + costBasis p - pf_settlement pf' = pf_cashBalance pf + costBasis (heldAt t pf) - pf_settlement pf"
      "pf_realized pf' = pf_realized pf" "pf_fees pf' = pf_fees pf"
  shows "ledger_ok n vol pf'"
proof -
  have m: "js_map_ok (pf_positions pf)" using ok by (simp add: ledger_ok_def positions_ok_def)
  have "bookValue pf' = bookValue pf - costBasis (heldAt t pf) + costBasis p"
    unfolding bookValue_put [OF m, symmetric] by (simp add: bookValue_def pf'(1))
  then have "discrepancy pf' = discrepancy pf" using pf' by (simp add: discrepancy_def)
  moreover have "positions_ok pf'" using ok p pf'(1) by (simp add: ledger_ok_def positions_ok_def)
  moreover have "\<bar>ps_quantity u\<bar> \<le> vol" if "js_get (pf_positions pf') t' = Some u" for t' u
    using that p(3) held_bound [OF ok, of t] ok pf'(1) by (fastforce simp: ledger_ok_def split: if_splits)
  ultimately show ?thesis using ok by (simp add: ledger_ok_def)
qed

lemma settle_ledger:
  assumes "ledger_ok n vol pf"
  shows "ledger_ok n vol (settle t p pf)" "ledger_ok n vol (voidMarket t pf)" "ledger_ok n vol (resolveAs t r pf)"
proof -
  have pos: "positions_ok pf" using assms by (simp add: ledger_ok_def)
  show "ledger_ok n vol (settle t p pf)"
  proof (cases "js_get (pf_positions pf) t")
    case (Some u)
    then have u: "position_ok u" "ps_marketTicker u = t" using pos by (simp_all add: positions_ok_def)
    show ?thesis
    proof (cases rule: settle_cases [of u p, OF refl])
      case 1
      then show ?thesis using assms Some by (simp add: settle_def)
    next
      case (2 a pos')
      show ?thesis
        by (rule ledger_put [OF assms, of pos' t])
          (use 2 Some u in \<open>simp_all add: settle_def putPosition_def heldAt_def position_ok_def costBasis_def\<close>)
    qed
  qed (simp add: settle_def assms)
  show "ledger_ok n vol (voidMarket t pf)"
  proof (cases "js_get (pf_positions pf) t")
    case (Some u)
    then have u: "position_ok u" "ps_marketTicker u = t" using pos by (simp_all add: positions_ok_def)
    show ?thesis
    proof (cases rule: void_cases [of u, OF refl])
      case 1
      then show ?thesis using assms Some by (simp add: voidMarket_def)
    next
      case (2 a pos')
      show ?thesis
        by (rule ledger_put [OF assms, of pos' t])
          (use 2 Some u in \<open>simp_all add: voidMarket_def putPosition_def heldAt_def position_ok_def costBasis_def\<close>)
    qed
  qed (simp add: voidMarket_def assms)
  show "ledger_ok n vol (resolveAs t r pf)"
  proof (cases "js_get (pf_positions pf) t")
    case (Some u)
    then have u: "position_ok u" "ps_marketTicker u = t" using pos by (simp_all add: positions_ok_def)
    show ?thesis
    proof (cases "ps_settled u")
      case False
      show ?thesis
        by (rule ledger_put [OF assms, of "u\<lparr>ps_resolution := r\<rparr>" t])
          (use False Some u in \<open>simp_all add: resolveAs_def putPosition_def heldAt_def position_ok_def costBasis_def\<close>)
    qed (use Some assms in \<open>simp add: resolveAs_def\<close>)
  qed (simp add: resolveAs_def assms)
qed

lemma mark_ledger_fields:
  "pf_positions (mark t ms pf) = pf_positions pf" "pf_cashBalance (mark t ms pf) = pf_cashBalance pf"
  "pf_realized (mark t ms pf) = pf_realized pf" "pf_settlement (mark t ms pf) = pf_settlement pf"
  "pf_fees (mark t ms pf) = pf_fees pf" "pf_unknownFeeFills (mark t ms pf) = pf_unknownFeeFills pf"
  by (simp_all add: mark_def Let_def split: prod.split option.split)

lemma ledger_cong:
  assumes "pf_positions pf' = pf_positions pf" "pf_cashBalance pf' = pf_cashBalance pf" "pf_realized pf' = pf_realized pf"
    "pf_settlement pf' = pf_settlement pf" "pf_fees pf' = pf_fees pf"
  shows "ledger_ok n vol pf' = ledger_ok n vol pf"
  using assms by (simp add: ledger_ok_def positions_ok_def discrepancy_def bookValue_def)

lemma step_ledger:
  assumes "decimal_lib L" "ledger_ok n vol pf" "op_ok x"
  shows "ledger_ok (n + op_fills x) (vol + op_volume x) (pf_step L pf x)"
proof (cases x)
  case (OpFill f)
  then show ?thesis using fill_ledger [OF assms(1,2)] assms(3) by simp
next
  case OpUnknownFee
  have "ledger_ok n vol (noteUnknownFee pf) = ledger_ok n vol pf"
    by (rule ledger_cong) (simp_all add: noteUnknownFee_def)
  then show ?thesis using OpUnknownFee assms(2) by simp
next
  case (OpMark t ms)
  have "ledger_ok n vol (mark t ms pf) = ledger_ok n vol pf"
    by (rule ledger_cong) (simp_all add: mark_ledger_fields)
  then show ?thesis using OpMark assms(2) by simp
qed (use settle_ledger [OF assms(2)] in simp_all)

lemma ledger_new: "ledger_ok 0 0 newPortfolio"
  by (simp add: ledger_ok_def positions_ok_def discrepancy_def bookValue_def newPortfolio_def)

lemma ledger_run:
  assumes "decimal_lib L" "\<forall>x \<in> set ops. op_ok x"
  shows "ledger_ok (fillCount ops) (volume ops) (pf_run L ops)"
  using assms(2)
proof (induction ops rule: rev_induct)
  case Nil
  show ?case using ledger_new by (simp add: pf_run_def fillCount_def volume_def)
next
  case (snoc x ops)
  then have "ledger_ok (fillCount ops + op_fills x) (volume ops + op_volume x) (pf_step L (pf_run L ops) x)"
    by (intro step_ledger [OF assms(1)]) simp_all
  then show ?case by (simp add: pf_run_def fillCount_def volume_def)
qed

section \<open>Marking\<close>

lemma foldl_markStep:
  "foldl (markStep ms) (a, c, e) ps =
    (a + sum_list (map (\<lambda>p. \<bar>ps_quantity p\<bar>) ps), c + sum_list (map collateralRequired ps),
     e + sum_list (map (\<lambda>p. case markOf ms (ps_marketTicker p) of None \<Rightarrow> 0 | Some m \<Rightarrow> ps_quantity p * m) ps))"
  by (induction ps arbitrary: a c e) (auto simp: markStep_def Let_def split: option.split)

definition equityAt :: "marks \<Rightarrow> portfolio \<Rightarrow> rat" where
  "equityAt ms pf = snd (snd (markTotals ms pf))"

definition absInventory :: "portfolio \<Rightarrow> rat" where
  "absInventory pf = sum_list (map (\<lambda>p. \<bar>ps_quantity p\<bar>) (allPositions pf))"

lemma markTotals_eq:
  "markTotals ms pf = (absInventory pf, sum_list (map collateralRequired (allPositions pf)), equityAt ms pf)"
  "equityAt ms pf = pf_cashBalance pf +
     sum_list (map (\<lambda>p. case markOf ms (ps_marketTicker p) of None \<Rightarrow> 0 | Some m \<Rightarrow> ps_quantity p * m) (allPositions pf))"
  by (simp_all add: markTotals_def equityAt_def absInventory_def foldl_markStep)

lemma equityTotals_fold:
  "eq_unrealized (foldl (equityStep ms) acc ps) =
     eq_unrealized acc + sum_list (map (\<lambda>p. case unrealizedPnl p (markOf ms (ps_marketTicker p)) of None \<Rightarrow> 0 | Some u \<Rightarrow> u) ps)"
  "eq_unmarkedPositions (foldl (equityStep ms) acc ps) =
     eq_unmarkedPositions acc + length (filter (\<lambda>p. ps_quantity p \<noteq> 0 \<and> markOf ms (ps_marketTicker p) = None) ps)"
  "eq_net (foldl (equityStep ms) acc ps) = eq_net acc + sum_list (map ps_quantity ps)"
  "eq_abs (foldl (equityStep ms) acc ps) = eq_abs acc + sum_list (map (\<lambda>p. \<bar>ps_quantity p\<bar>) ps)"
  "eq_collateral (foldl (equityStep ms) acc ps) = eq_collateral acc + sum_list (map collateralRequired ps)"
  by (induction ps arbitrary: acc) (simp_all add: equityStep_def unrealizedPnl_def Let_def split: option.splits)

lemma all_marked_equity:
  assumes "\<forall>p \<in> set (allPositions pf). ps_quantity p \<noteq> 0 \<longrightarrow> markOf ms (ps_marketTicker p) \<noteq> None"
  shows "equityAt ms pf - (grossOf ms pf - pf_fees pf) = discrepancy pf"
proof -
  have "sum_list (map (\<lambda>p. case markOf ms (ps_marketTicker p) of None \<Rightarrow> 0 | Some m \<Rightarrow> ps_quantity p * m) ps) =
      sum_list (map (\<lambda>p. case unrealizedPnl p (markOf ms (ps_marketTicker p)) of None \<Rightarrow> 0 | Some u \<Rightarrow> u) ps) +
      sum_list (map costBasis ps)"
    if "\<forall>p \<in> set ps. ps_quantity p \<noteq> 0 \<longrightarrow> markOf ms (ps_marketTicker p) \<noteq> None" for ps
    using that by (induction ps) (auto simp: unrealizedPnl_def costBasis_def algebra_simps split: option.splits)
  from this [OF assms] show ?thesis
    by (simp add: markTotals_eq grossOf_def equityTotals_def equityTotals_fold discrepancy_def bookValue_def
        allPositions_def comp_def)
qed

section \<open>Drawdown and mean inventory\<close>

fun equityTrace :: "dec_lib \<Rightarrow> portfolio \<Rightarrow> portfolio_op list \<Rightarrow> rat list" where
  "equityTrace L pf [] = []"
| "equityTrace L pf (OpMark t ms # ops) = equityAt ms pf # equityTrace L (mark t ms pf) ops"
| "equityTrace L pf (x # ops) = equityTrace L (pf_step L pf x) ops"

definition dropsOf :: "rat list \<Rightarrow> rat set" where
  \<comment> \<open>every fall of the equity from one mark to the same or a later one\<close>
  "dropsOf es = {es ! i - es ! j | i j. i \<le> j \<and> j < length es}"

lemma finite_drops: "finite (dropsOf es)"
proof (rule finite_subset)
  show "dropsOf es \<subseteq> (\<lambda>(i, j). es ! i - es ! j) ` ({..<length es} \<times> {..<length es})"
    by (force simp: dropsOf_def)
qed simp

lemma drops_snoc: "dropsOf (es @ [e]) = dropsOf es \<union> (\<lambda>x. x - e) ` set (es @ [e])"
proof (intro equalityI subsetI)
  fix x assume "x \<in> dropsOf (es @ [e])"
  then obtain i j where x: "x = (es @ [e]) ! i - (es @ [e]) ! j" "i \<le> j" "j < length (es @ [e])"
    unfolding dropsOf_def by blast
  show "x \<in> dropsOf es \<union> (\<lambda>x. x - e) ` set (es @ [e])"
  proof (cases "j < length es")
    case True
    then show ?thesis using x by (auto simp: dropsOf_def nth_append)
  next
    case False
    then have "(es @ [e]) ! j = e" using x(3) by (simp add: nth_append)
    moreover have "(es @ [e]) ! i \<in> set (es @ [e])" using x by (intro nth_mem) simp
    ultimately show ?thesis unfolding x(1)
      by (intro UnI2 image_eqI [of _ _ "(es @ [e]) ! i"]) simp_all
  qed
next
  fix x assume "x \<in> dropsOf es \<union> (\<lambda>x. x - e) ` set (es @ [e])"
  then show "x \<in> dropsOf (es @ [e])"
  proof
    assume "x \<in> dropsOf es"
    then obtain i j where "x = es ! i - es ! j" "i \<le> j" "j < length es" unfolding dropsOf_def by blast
    then have "x = (es @ [e]) ! i - (es @ [e]) ! j" "i \<le> j" "j < length (es @ [e])" by (simp_all add: nth_append)
    then show ?thesis unfolding dropsOf_def by blast
  next
    assume "x \<in> (\<lambda>x. x - e) ` set (es @ [e])"
    then obtain y where y: "y \<in> set (es @ [e])" "x = y - e" by blast
    then obtain i where "i < length (es @ [e])" "x = (es @ [e]) ! i - e" by (metis in_set_conv_nth)
    then have "x = (es @ [e]) ! i - (es @ [e]) ! length es" "i \<le> length es" "length es < length (es @ [e])"
      by simp_all
    then show ?thesis unfolding dropsOf_def by blast
  qed
qed

definition drawdown_ok :: "rat list \<Rightarrow> portfolio \<Rightarrow> bool" where
  "drawdown_ok es pf \<longleftrightarrow> pf_peakEquity pf = (if es = [] then None else Some (Max (set es))) \<and>
     pf_maxDrawdownValue pf = Max (insert 0 (dropsOf es))"

lemma mark_peak:
  "pf_peakEquity (mark t ms pf) =
     Some (case pf_peakEquity pf of None \<Rightarrow> equityAt ms pf | Some p \<Rightarrow> max p (equityAt ms pf))"
  "pf_maxDrawdownValue (mark t ms pf) =
     max (pf_maxDrawdownValue pf) (the (pf_peakEquity (mark t ms pf)) - equityAt ms pf)"
  unfolding mark_def markTotals_eq(1)
  by (auto simp: Let_def max_def split: option.split)

lemma mark_drawdown:
  assumes "drawdown_ok es pf"
  shows "drawdown_ok (es @ [equityAt ms pf]) (mark t ms pf)"
proof -
  let ?e = "equityAt ms pf"
  have peak: "pf_peakEquity (mark t ms pf) = Some (Max (set (es @ [?e])))"
    using assms by (auto simp: drawdown_ok_def mark_peak(1) max.commute)
  have "Max ((\<lambda>x. x - ?e) ` set (es @ [?e])) = Max (set (es @ [?e])) - ?e"
    by (rule mono_Max_commute [symmetric]) (auto simp: mono_def)
  moreover have "Max (insert 0 (dropsOf es) \<union> (\<lambda>x. x - ?e) ` set (es @ [?e])) =
      max (Max (insert 0 (dropsOf es))) (Max ((\<lambda>x. x - ?e) ` set (es @ [?e])))"
    by (rule Max_Un) (simp_all add: finite_drops)
  moreover have "insert 0 (dropsOf (es @ [?e])) = insert 0 (dropsOf es) \<union> (\<lambda>x. x - ?e) ` set (es @ [?e])"
    unfolding drops_snoc by blast
  ultimately show ?thesis using assms peak by (simp add: drawdown_ok_def mark_peak(2))
qed

lemma other_steps_keep_marks:
  assumes "\<And>t ms. x \<noteq> OpMark t ms"
  shows "pf_peakEquity (pf_step L pf x) = pf_peakEquity pf \<and> pf_maxDrawdownValue (pf_step L pf x) = pf_maxDrawdownValue pf \<and>
    pf_maxAbsInventory (pf_step L pf x) = pf_maxAbsInventory pf \<and> pf_lastInventoryMs (pf_step L pf x) = pf_lastInventoryMs pf \<and>
    pf_lastAbsInventory (pf_step L pf x) = pf_lastAbsInventory pf \<and>
    pf_inventoryTimeIntegral (pf_step L pf x) = pf_inventoryTimeIntegral pf"
  using assms
  by (cases x) (auto simp: pf_applyFill_def pf_position_def putPosition_def settle_def voidMarket_def resolveAs_def
      noteUnknownFee_def Let_def split: option.split sum.split prod.split)

lemma trace_drawdown: "drawdown_ok es pf \<Longrightarrow> drawdown_ok (es @ equityTrace L pf ops) (foldl (pf_step L) pf ops)"
proof (induction ops arbitrary: es pf)
  case (Cons x ops)
  show ?case
  proof (cases "\<exists>t ms. x = OpMark t ms")
    case True
    then obtain t ms where x: "x = OpMark t ms" by blast
    show ?thesis using Cons.IH [OF mark_drawdown [OF Cons.prems]] by (simp add: x)
  next
    case False
    then have "drawdown_ok es (pf_step L pf x)"
      using Cons.prems other_steps_keep_marks [of x L pf] by (simp add: drawdown_ok_def)
    moreover have "equityTrace L pf (x # ops) = equityTrace L (pf_step L pf x) ops" using False by (cases x) auto
    ultimately show ?thesis using Cons.IH by simp
  qed
qed simp

lemma drawdown_new: "drawdown_ok [] newPortfolio"
  by (simp add: drawdown_ok_def newPortfolio_def dropsOf_def)

fun markTimes :: "portfolio_op list \<Rightarrow> int list" where
  "markTimes [] = []"
| "markTimes (OpMark t ms # ops) = t # markTimes ops"
| "markTimes (x # ops) = markTimes ops"

definition inventory_ok :: "int \<Rightarrow> portfolio \<Rightarrow> bool" where
  "inventory_ok t0 pf \<longleftrightarrow> 0 \<le> pf_lastAbsInventory pf \<and> pf_lastAbsInventory pf \<le> pf_maxAbsInventory pf \<and>
     0 \<le> pf_inventoryTimeIntegral pf \<and>
     (case pf_lastInventoryMs pf of None \<Rightarrow> pf_inventoryTimeIntegral pf = 0
      | Some l \<Rightarrow> t0 \<le> l \<and> pf_inventoryTimeIntegral pf \<le> pf_maxAbsInventory pf * of_int (l - t0))"

lemma absInventory_nonneg: "0 \<le> absInventory pf"
  by (auto simp: absInventory_def intro!: sum_list_nonneg)

lemma mark_inventory_fields:
  "pf_lastInventoryMs (mark t ms pf) = Some t" "pf_lastAbsInventory (mark t ms pf) = absInventory pf"
  "pf_maxAbsInventory (mark t ms pf) = max (pf_maxAbsInventory pf) (absInventory pf)"
  "pf_inventoryTimeIntegral (mark t ms pf) = pf_inventoryTimeIntegral pf +
     (case pf_lastInventoryMs pf of None \<Rightarrow> 0
      | Some l \<Rightarrow> if l < t then pf_lastAbsInventory pf * of_int (t - l) else 0)"
  unfolding mark_def markTotals_eq(1) by (auto simp: Let_def max_def split: option.split)

lemma mark_inventory:
  assumes ok: "inventory_ok t0 pf" and t: "t0 \<le> t" "\<forall>l. pf_lastInventoryMs pf = Some l \<longrightarrow> l \<le> t"
  shows "inventory_ok t0 (mark t ms pf)"
proof -
  let ?M = "max (pf_maxAbsInventory pf) (absInventory pf)"
  have M: "0 \<le> ?M" "pf_maxAbsInventory pf \<le> ?M" using absInventory_nonneg [of pf] by simp_all
  show ?thesis
  proof (cases "pf_lastInventoryMs pf")
    case None
    then have "pf_inventoryTimeIntegral pf = 0" using ok by (simp add: inventory_ok_def)
    then show ?thesis using None t M absInventory_nonneg [of pf]
      by (simp add: inventory_ok_def mark_inventory_fields)
  next
    case (Some l)
    have l: "t0 \<le> l" "l \<le> t" "pf_inventoryTimeIntegral pf \<le> pf_maxAbsInventory pf * of_int (l - t0)"
      and nn: "0 \<le> pf_inventoryTimeIntegral pf" "0 \<le> pf_lastAbsInventory pf" "pf_lastAbsInventory pf \<le> ?M"
      using ok t Some by (auto simp: inventory_ok_def)
    have "pf_maxAbsInventory pf * of_int (l - t0) \<le> ?M * of_int (l - t0)"
      "pf_lastAbsInventory pf * of_int (t - l) \<le> ?M * of_int (t - l)"
      using M(2) nn(3) l(1,2) by (intro mult_right_mono; simp)+
    then have "pf_inventoryTimeIntegral pf + pf_lastAbsInventory pf * of_int (t - l) \<le> ?M * of_int (t - t0)"
      using l(3) by (simp add: algebra_simps)
    moreover have "0 \<le> pf_lastAbsInventory pf * of_int (t - l)" using nn(2) l(2) by simp
    moreover have "l = t" if "\<not> l < t" using that l(2) by simp
    ultimately show ?thesis using Some l nn M absInventory_nonneg [of pf] t(1)
      by (auto simp: inventory_ok_def mark_inventory_fields)
  qed
qed

lemma run_inventory:
  assumes "inventory_ok t0 pf" "sorted (markTimes ops)" "\<forall>t \<in> set (markTimes ops). t0 \<le> t"
    and "\<forall>t \<in> set (markTimes ops). \<forall>l. pf_lastInventoryMs pf = Some l \<longrightarrow> l \<le> t"
  shows "inventory_ok t0 (foldl (pf_step L) pf ops) \<and>
    (\<forall>l. pf_lastInventoryMs (foldl (pf_step L) pf ops) = Some l \<longrightarrow> l \<in> set (markTimes ops) \<or> pf_lastInventoryMs pf = Some l)"
  using assms
proof (induction ops arbitrary: pf)
  case (Cons x ops)
  show ?case
  proof (cases "\<exists>t ms. x = OpMark t ms")
    case True
    then obtain t ms where x: "x = OpMark t ms" by blast
    have "inventory_ok t0 (mark t ms pf)" by (rule mark_inventory) (use Cons.prems x in auto)
    then show ?thesis using Cons.IH [of "mark t ms pf"] Cons.prems x
      by (simp add: mark_inventory_fields) blast
  next
    case False
    have tm: "markTimes (x # ops) = markTimes ops" using False by (cases x) auto
    have keep: "pf_lastInventoryMs (pf_step L pf x) = pf_lastInventoryMs pf" "inventory_ok t0 (pf_step L pf x)"
      using False Cons.prems(1) other_steps_keep_marks [of x L pf]
      by (auto simp: inventory_ok_def split: option.splits)
    show ?thesis using Cons.IH [OF keep(2)] Cons.prems(2-) by (simp add: keep(1) tm del: markTimes.simps)
  qed
qed simp

lemma inventory_new: "inventory_ok t0 newPortfolio"
  by (simp add: inventory_ok_def newPortfolio_def)

section \<open>Properties\<close>

text \<open>
  C23: The ledger balances: after any fills at prices within [0, 1], settlements, voids and marks, cash
  plus the cost of the open positions is what was realised by trading and by settlement minus the
  fees, up to the rounding of the averages, at most fills times volume over \<open>10 ^ 33\<close>. When every open
  position has a mark, the equity that \<open>mark\<close> computes is the gross profit minus the fees, up to the
  same error.
\<close>
theorem ledger_balances:
  assumes "decimal_lib L" "\<forall>x \<in> set ops. op_ok x"
  shows "\<bar>pf_cashBalance (pf_run L ops) + bookValue (pf_run L ops)
      - (pf_realized (pf_run L ops) + pf_settlement (pf_run L ops) - pf_fees (pf_run L ops))\<bar>
      \<le> of_nat (fillCount ops) * volume ops / 10 ^ 33 \<and>
    ((\<forall>p \<in> set (allPositions (pf_run L ops)). ps_quantity p \<noteq> 0 \<longrightarrow> markOf ms (ps_marketTicker p) \<noteq> None) \<longrightarrow>
      \<bar>equityAt ms (pf_run L ops) - (grossOf ms (pf_run L ops) - pf_fees (pf_run L ops))\<bar>
        \<le> of_nat (fillCount ops) * volume ops / 10 ^ 33)"
proof -
  have "\<bar>discrepancy (pf_run L ops)\<bar> \<le> of_nat (fillCount ops) * volume ops / 10 ^ 33"
    using ledger_run [OF assms] by (simp only: ledger_ok_def)
  then show ?thesis
    using all_marked_equity [of "pf_run L ops" ms] unfolding discrepancy_def by presburger
qed

text \<open>
  C30: The drawdown is the largest fall: after a run it is the largest difference between the equity at
  one mark and at the same or a later mark, zero at least.
\<close>
theorem drawdown_is_largest_fall:
  "pf_maxDrawdownValue (pf_run L ops) = Max (insert 0 (dropsOf (equityTrace L newPortfolio ops)))"
  using trace_drawdown [OF drawdown_new, of L ops] by (simp add: drawdown_ok_def pf_run_def)

text \<open>
  C32: The mean inventory is a mean: when the marks of a run come in order within an interval, the
  time-weighted mean of the absolute inventory over the interval lies between zero and the largest
  inventory seen, as the decimal library rounds it.
\<close>
theorem mean_inventory_within_max:
  assumes "decimal_lib L" "sorted (markTimes ops)" "\<forall>t \<in> set (markTimes ops). t0 \<le> t \<and> t \<le> t1"
    and "meanAbsInventory L (Some t0) (Some t1) (pf_run L ops) = Some m"
  shows "0 \<le> m \<and> m \<le> dl_round L (pf_maxAbsInventory (pf_run L ops))"
proof -
  let ?pf = "pf_run L ops"
  have lt: "t0 < t1" and m: "m = dl_round L (pf_inventoryTimeIntegral ?pf / of_int (t1 - t0))"
    using assms(4) by (auto simp: meanAbsInventory_def ddiv_def split: if_splits)
  have inv: "inventory_ok t0 ?pf" and inr: "\<forall>l. pf_lastInventoryMs ?pf = Some l \<longrightarrow> l \<in> set (markTimes ops)"
    using run_inventory [OF inventory_new assms(2), of t0 L] assms(3) by (auto simp: pf_run_def newPortfolio_def)
  have M: "0 \<le> pf_maxAbsInventory ?pf" using inv by (simp add: inventory_ok_def)
  have "pf_inventoryTimeIntegral ?pf \<le> pf_maxAbsInventory ?pf * of_int (t1 - t0)"
  proof (cases "pf_lastInventoryMs ?pf")
    case None
    then show ?thesis using inv M lt by (simp add: inventory_ok_def)
  next
    case (Some l)
    then have "pf_inventoryTimeIntegral ?pf \<le> pf_maxAbsInventory ?pf * of_int (l - t0)" "l \<le> t1"
      using inv inr assms(3) by (auto simp: inventory_ok_def)
    moreover from this(2) M have "pf_maxAbsInventory ?pf * of_int (l - t0) \<le> pf_maxAbsInventory ?pf * of_int (t1 - t0)"
      by (intro mult_left_mono) simp_all
    ultimately show ?thesis by linarith
  qed
  then have "pf_inventoryTimeIntegral ?pf / of_int (t1 - t0) \<le> pf_maxAbsInventory ?pf"
    using lt by (simp add: pos_divide_le_eq)
  moreover have "0 \<le> pf_inventoryTimeIntegral ?pf / of_int (t1 - t0)" using inv lt by (simp add: inventory_ok_def)
  ultimately show ?thesis
    unfolding m using decimal_lib.round_mono [OF assms(1)] decimal_lib.round_nonneg [OF assms(1)] by blast
qed

text \<open>
  C33: A market resolves once: after a settlement or a void, settling or voiding the same market again,
  or noting how it finished, changes nothing.
\<close>
theorem market_resolves_once:
  "settle t p' (settle t p pf) = settle t p pf \<and> voidMarket t (settle t p pf) = settle t p pf \<and>
   settle t p (voidMarket t pf) = voidMarket t pf \<and> voidMarket t (voidMarket t pf) = voidMarket t pf \<and>
   resolveAs t r (settle t p pf) = settle t p pf \<and> resolveAs t r (voidMarket t pf) = voidMarket t pf"
proof (cases "js_get (pf_positions pf) t")
  case None
  then show ?thesis by (simp add: settle_def voidMarket_def resolveAs_def)
next
  case (Some u)
  then show ?thesis
    by (simp add: settle_def voidMarket_def resolveAs_def settlePosition_def voidPosition_def putPosition_def Let_def)
qed

subsection \<open>Witnesses\<close>

definition wit_fill :: "order_action \<Rightarrow> rat \<Rightarrow> rat \<Rightarrow> simulated_fill" where
  "wit_fill action qty price =
     \<lparr>fl_fillId = ''f1'', fl_orderId = ''o1'', fl_clientOrderId = ''c1'', fl_marketTicker = ''M'', fl_side = Yes,
      fl_action = action, fl_yesAction = action, fl_price = price, fl_yesPrice = price, fl_quantity = qty,
      fl_liquidity = Taker, fl_fee = 1 / 10, fl_feeKnown = True, fl_submittedAtMs = 0, fl_arrivedAtMs = 0,
      fl_filledAtMs = 0, fl_tag = None, sl_reason = FrCross, sl_queueAheadAtEntry = None,
      sl_queueAheadBeforeFill = None, sl_fillModel = ''touch'', sl_bookStateHash = None,
      sl_triggeringTradeId = None, sl_midAtFill = None, sl_spreadAtFill = None, sl_depth1AtFill = None,
      sl_imbalance1AtFill = None\<rparr>"

definition wit_ops :: "portfolio_op list" where
  "wit_ops = [OpFill (wit_fill Buy 4 (2 / 5)), OpFill (wit_fill Sell 6 (1 / 2)), OpMark 5 [(''M'', Some (1 / 2))],
     OpSettle ''M'' 1]"

theorem ledger_balances_witness:
  "\<bar>pf_cashBalance (pf_run std_dlib wit_ops) + bookValue (pf_run std_dlib wit_ops)
      - (pf_realized (pf_run std_dlib wit_ops) + pf_settlement (pf_run std_dlib wit_ops) - pf_fees (pf_run std_dlib wit_ops))\<bar>
      \<le> 20 / 10 ^ 33"
  using ledger_balances [OF std.decimal_lib_axioms, of wit_ops "[]"]
  by (simp add: wit_ops_def wit_fill_def fillCount_def volume_def)

definition wit_marks :: "portfolio_op list" where
  "wit_marks = [OpFill (wit_fill Buy 4 (2 / 5)), OpMark 0 [], OpMark 10 []]"

lemma wit_inventory:
  "pf_inventoryTimeIntegral (pf_run std_dlib wit_marks) = 40" "pf_maxAbsInventory (pf_run std_dlib wit_marks) = 4"
  by (simp_all add: pf_run_def wit_marks_def mark_inventory_fields mark_ledger_fields)
    (simp_all add: absInventory_def allPositions_def mark_ledger_fields pf_applyFill_def wit_fill_def pf_position_def
      newPortfolio_def putPosition_def applyFillToPosition_def opposing_def newPosition_def Let_def)

theorem mean_inventory_within_max_witness:
  "meanAbsInventory std_dlib (Some 0) (Some 20) (pf_run std_dlib wit_marks) = Some 2 \<and>
   2 \<le> dl_round std_dlib (pf_maxAbsInventory (pf_run std_dlib wit_marks))"
proof -
  have "sig34 (of_int 2)" by (rule sig34_of_int) simp
  then have "ddiv std_dlib 40 20 = 2" using std.ddiv_exact [of 40 20] by simp
  then have m: "meanAbsInventory std_dlib (Some 0) (Some 20) (pf_run std_dlib wit_marks) = Some 2"
    by (simp add: meanAbsInventory_def wit_inventory)
  with mean_inventory_within_max [OF std.decimal_lib_axioms _ _ m] show ?thesis by (simp add: wit_marks_def)
qed

end
