(* ===== verification/MarketState.thy ===== *)
theory MarketState
  imports Events Ladder
begin

text \<open>
  The books a backtest runs against: \<open>src/src/research/engine/marketState.ts\<close>.

  A \<open>BookView\<close> only reads its \<open>MarketBook\<close>, so it is the book and the methods of the view are
  functions of it. \<open>stateHash()\<close> also fills the book's hash cache; the view here returns the hash
  only, which by \<open>view_hash\<close> is what any later read gives as well. \<open>market_store\<close> has the fields
  of \<open>MarketStateStore\<close>.
\<close>

section \<open>Views\<close>

definition bestStep :: "dec_lib \<Rightarrow> (rat \<times> rat) option \<Rightarrow> string \<times> rat \<Rightarrow> (rat \<times> rat) option" where
  "bestStep L acc entry =
     (let (key, value) = entry
      in if value = 0 then acc
         else let candidate = dl_of_string L key
              in case acc of
                   None \<Rightarrow> Some (candidate, value)
                 | Some (price, sz) \<Rightarrow> if price < candidate then Some (candidate, value) else acc)"

definition bestLevel :: "dec_lib \<Rightarrow> ladder \<Rightarrow> (rat \<times> rat) option" where
  "bestLevel L levels = foldl (bestStep L) None levels"

definition view_bbo :: "dec_lib \<Rightarrow> market_book \<Rightarrow> yes_bbo" where
  "view_bbo L b =
     (let bestBid = bestLevel L (mb_yesBids b);
          bestNoBid = bestLevel L (mb_noBids b);
          bid = map_option fst bestBid;
          ask = map_option (\<lambda>l. dl_of_string L (yesPriceOfPublicLevel L No (fst l))) bestNoBid
      in \<lparr>bbo_bid = bid, bbo_bidSize = map_option snd bestBid, bbo_ask = ask, bbo_askSize = map_option snd bestNoBid,
          bbo_spread = (case (bid, ask) of (Some x, Some y) \<Rightarrow> Some (y - x) | _ \<Rightarrow> None),
          bbo_mid = (case (bid, ask) of (Some x, Some y) \<Rightarrow> Some (ddiv L (x + y) 2) | _ \<Rightarrow> None)\<rparr>)"

definition view_microprice :: "dec_lib \<Rightarrow> market_book \<Rightarrow> rat option" where
  "view_microprice L b =
     (let q = view_bbo L b
      in case (bbo_bid q, bbo_ask q, bbo_bidSize q, bbo_askSize q) of
           (Some bid, Some ask, Some bidSize, Some askSize) \<Rightarrow>
             let denom = bidSize + askSize
             in if denom = 0 then None else Some (ddiv L (ask * bidSize + bid * askSize) denom)
         | _ \<Rightarrow> None)"

definition view_depth :: "dec_lib \<Rightarrow> nat \<Rightarrow> market_book \<Rightarrow> depth" where
  "view_depth L k b = getDepth L k b"

definition view_imbalance :: "dec_lib \<Rightarrow> nat \<Rightarrow> market_book \<Rightarrow> rat option" where
  "view_imbalance L k b = getImbalance L k b"

definition view_yesBidLevels :: "dec_lib \<Rightarrow> market_book \<Rightarrow> level_pair list" where
  "view_yesBidLevels L b = yesBidLevels L b"

definition view_yesAskLevels :: "dec_lib \<Rightarrow> market_book \<Rightarrow> level_pair list" where
  "view_yesAskLevels L b = yesAskLevels L b"

definition yesBidSizeAt :: "dec_lib \<Rightarrow> rat \<Rightarrow> market_book \<Rightarrow> rat" where
  "yesBidSizeAt L price b = levelSize (mb_yesBids b) (canonicalPrice L price)"

definition yesAskSizeAt :: "dec_lib \<Rightarrow> rat \<Rightarrow> market_book \<Rightarrow> rat" where
  "yesAskSizeAt L price b = levelSize (mb_noBids b) (pl_price (publicLevelFor L Ask price))"

definition view_depthAhead :: "dec_lib \<Rightarrow> ladder_side \<Rightarrow> rat \<Rightarrow> market_book \<Rightarrow> ahead_depth" where
  "view_depthAhead L side yesPrice b = depthAhead L side yesPrice (mb_yesBids b) (mb_noBids b)"

definition view_stateHash :: "dec_lib \<Rightarrow> (string \<Rightarrow> string) \<Rightarrow> market_book \<Rightarrow> string" where
  "view_stateHash L sha b = fst (getStateHash L sha b)"

section \<open>The store\<close>

record apply_outcome =
  ao_applied :: bool
  ao_reason :: "string option"

record store_stats =
  mt_snapshotsApplied :: nat
  mt_deltasApplied :: nat
  mt_deltasSkippedNotApplied :: nat
  mt_deltasSkippedStaleStream :: nat
  mt_deltasSkippedInvalidBook :: nat
  mt_deltasDiverged :: nat
  mt_gapsOpened :: nat

record stream_owner =
  sw_streamId :: "string option"
  sw_rank :: int

record market_store =
  mk_books :: "(string, market_book) jsmap"
  mk_owningStream :: "(string, stream_owner) jsmap"
  mk_streamRanks :: "(string, int) jsmap"
  mk_stats :: store_stats

definition newMarketStore :: market_store where
  "newMarketStore = \<lparr>mk_books = [], mk_owningStream = [], mk_streamRanks = [],
     mk_stats = \<lparr>mt_snapshotsApplied = 0, mt_deltasApplied = 0, mt_deltasSkippedNotApplied = 0,
       mt_deltasSkippedStaleStream = 0, mt_deltasSkippedInvalidBook = 0, mt_deltasDiverged = 0, mt_gapsOpened = 0\<rparr>\<rparr>"

fun rankOf :: "string option \<Rightarrow> market_store \<Rightarrow> int \<times> market_store" where
  "rankOf None s = (- 1, s)"
| "rankOf (Some streamId) s =
     (case js_get (mk_streamRanks s) streamId of
        Some rank \<Rightarrow> (rank, s)
      | None \<Rightarrow> let rank = int (length (mk_streamRanks s))
                in (rank, s\<lparr>mk_streamRanks := js_set streamId rank (mk_streamRanks s)\<rparr>))"

definition ms_tickers :: "market_store \<Rightarrow> string list" where
  "ms_tickers s = js_keys (mk_books s)"

definition ms_has :: "string \<Rightarrow> market_store \<Rightarrow> bool" where
  "ms_has ticker s = js_has (mk_books s) ticker"

definition ms_view :: "string \<Rightarrow> market_store \<Rightarrow> market_book option" where
  "ms_view ticker s = js_get (mk_books s) ticker"

definition ms_views :: "market_store \<Rightarrow> market_book list" where
  "ms_views s = map snd (mk_books s)"

definition ms_book :: "string \<Rightarrow> market_store \<Rightarrow> market_book option" where
  "ms_book ticker s = js_get (mk_books s) ticker"

definition putStoreBook :: "market_book \<Rightarrow> string \<Rightarrow> market_store \<Rightarrow> market_store" where
  "putStoreBook b ticker s = s\<lparr>mk_books := js_set ticker b (mk_books s)\<rparr>"

definition setOwner :: "string \<Rightarrow> string option \<Rightarrow> market_store \<Rightarrow> market_store" where
  "setOwner ticker streamId s =
     (let (rank, s) = rankOf streamId s
      in s\<lparr>mk_owningStream := js_set ticker \<lparr>sw_streamId = streamId, sw_rank = rank\<rparr> (mk_owningStream s)\<rparr>)"

definition ms_applySnapshot ::
  "dec_lib \<Rightarrow> base_event \<Rightarrow> snapshot_body \<Rightarrow> market_store \<Rightarrow> apply_outcome \<times> market_store" where
  "ms_applySnapshot L b e s =
     (let ticker = es_marketTicker e;
          book = (case js_get (mk_books s) ticker of None \<Rightarrow> newMarketBook ticker None None | Some bk \<Rightarrow> bk);
          book = replaceWithSnapshot L (be_receiveTimeMs b)
                   \<lparr>sl_yesBids = es_yesBids e, sl_noBids = es_noBids e\<rparr>
                   \<lparr>so_seq = be_seq b, so_atMs = Some (be_receiveTimeMs b), so_sessionId = Some (be_sessionId b),
                    so_streamId = be_streamId b\<rparr> book;
          s = putStoreBook book ticker s;
          s = setOwner ticker (be_streamId b) s;
          s = s\<lparr>mk_stats := (mk_stats s)\<lparr>mt_snapshotsApplied := mt_snapshotsApplied (mk_stats s) + 1\<rparr>\<rparr>
      in (\<lparr>ao_applied = True, ao_reason = None\<rparr>, s))"

text \<open>The stale-stream guard: only a delta from another stream asks for its rank.\<close>

definition staleStream :: "string \<Rightarrow> string option \<Rightarrow> market_store \<Rightarrow> bool \<times> market_store" where
  "staleStream ticker streamId s =
     (case js_get (mk_owningStream s) ticker of
        None \<Rightarrow> (False, s)
      | Some owner \<Rightarrow>
          if streamId \<noteq> sw_streamId owner
          then (let (rank, s) = rankOf streamId s in (rank < sw_rank owner, s))
          else (False, s))"

definition ms_applyDelta ::
  "dec_lib \<Rightarrow> base_event \<Rightarrow> delta_body \<Rightarrow> market_store \<Rightarrow> apply_outcome \<times> market_store" where
  "ms_applyDelta L b e s =
     (let ticker = ed_marketTicker e in
      if \<not> ed_applied e
      then (\<lparr>ao_applied = False, ao_reason = Some ''recorder_did_not_apply''\<rparr>,
            s\<lparr>mk_stats := (mk_stats s)\<lparr>mt_deltasSkippedNotApplied := mt_deltasSkippedNotApplied (mk_stats s) + 1\<rparr>\<rparr>)
      else
        (case js_get (mk_books s) ticker of
           None \<Rightarrow> (\<lparr>ao_applied = False, ao_reason = Some ''book_not_seeded''\<rparr>,
             s\<lparr>mk_stats := (mk_stats s)\<lparr>mt_deltasSkippedInvalidBook := mt_deltasSkippedInvalidBook (mk_stats s) + 1\<rparr>\<rparr>)
         | Some book \<Rightarrow>
             if \<not> mb_valid book
             then (\<lparr>ao_applied = False, ao_reason = Some ''book_not_seeded''\<rparr>,
               s\<lparr>mk_stats := (mk_stats s)\<lparr>mt_deltasSkippedInvalidBook := mt_deltasSkippedInvalidBook (mk_stats s) + 1\<rparr>\<rparr>)
             else
               let owner = js_get (mk_owningStream s) ticker;
                   (stale, s) = staleStream ticker (be_streamId b) s
               in if stale
                  then (\<lparr>ao_applied = False, ao_reason = Some ''stale_stream''\<rparr>,
                    s\<lparr>mk_stats := (mk_stats s)\<lparr>mt_deltasSkippedStaleStream := mt_deltasSkippedStaleStream (mk_stats s) + 1\<rparr>\<rparr>)
                  else
                    let (outcome, book) = applyDelta L (be_receiveTimeMs b)
                          \<lparr>di_side = ed_side e, di_price = ed_price e, di_delta = ed_deltaCount e, di_seq = be_seq b,
                           di_atMs = Some (be_receiveTimeMs b)\<rparr> book;
                        s = putStoreBook book ticker s
                    in if \<not> dr_applied outcome
                       then (\<lparr>ao_applied = False, ao_reason = Some (case dr_error outcome of None \<Rightarrow> ''diverged'' | Some m \<Rightarrow> m)\<rparr>,
                         s\<lparr>mk_stats := (mk_stats s)\<lparr>mt_deltasDiverged := mt_deltasDiverged (mk_stats s) + 1\<rparr>\<rparr>)
                       else
                         let s = (if be_streamId b \<noteq> None \<and>
                                     (owner = None \<or> map_option sw_streamId owner \<noteq> Some (be_streamId b))
                                  then setOwner ticker (be_streamId b) s else s)
                         in (\<lparr>ao_applied = True, ao_reason = None\<rparr>,
                           s\<lparr>mk_stats := (mk_stats s)\<lparr>mt_deltasApplied := mt_deltasApplied (mk_stats s) + 1\<rparr>\<rparr>)))"

fun gapReasonString :: "gap_reason \<Rightarrow> string" where
  "gapReasonString GrDeploy = ''deploy''"
| "gapReasonString GrRestart = ''restart''"
| "gapReasonString GrCrash = ''crash''"
| "gapReasonString GrShutdown = ''shutdown''"
| "gapReasonString GrUnknown = ''unknown''"

definition gapStep :: "string \<Rightarrow> string list \<times> market_store \<Rightarrow> string \<Rightarrow> string list \<times> market_store" where
  "gapStep why acc ticker =
     (let (invalidated, s) = acc
      in case js_get (mk_books s) ticker of
           None \<Rightarrow> (invalidated, s)
         | Some book \<Rightarrow>
             if \<not> mb_valid book then (invalidated, s)
             else (invalidated @ [ticker], putStoreBook (invalidate why book) ticker s))"

definition applyCaptureGap :: "gap_body \<Rightarrow> market_store \<Rightarrow> string list \<times> market_store" where
  "applyCaptureGap e s =
     (let affected = (if eg_affectedMarkets e \<noteq> [] then eg_affectedMarkets e else js_keys (mk_books s));
          (invalidated, s) = foldl (gapStep (''capture gap '' @ eg_gapId e @ '' ('' @ gapReasonString (eg_reason e) @ '')''))
            ([], s) affected
      in (invalidated, s\<lparr>mk_stats := (mk_stats s)\<lparr>mt_gapsOpened := mt_gapsOpened (mk_stats s) + 1\<rparr>\<rparr>))"

section \<open>The scan finds the best level\<close>

definition heldLevels :: "dec_lib \<Rightarrow> ladder \<Rightarrow> (rat \<times> rat) set" where
  "heldLevels L m = {(dl_of_string L k, v) | k v. (k, v) \<in> set m \<and> v \<noteq> 0}"

lemma heldLevels_Nil [simp]: "heldLevels L [] = {}"
  by (simp add: heldLevels_def)

lemma heldLevels_snoc: "heldLevels L (m @ [(k, v)]) =
    (if v = 0 then heldLevels L m else insert (dl_of_string L k, v) (heldLevels L m))"
  by (auto simp: heldLevels_def)

lemma bestLevel_best: "is_best (heldLevels L m) (bestLevel L m)"
proof (induction m rule: rev_induct)
  case Nil
  show ?case by (simp add: bestLevel_def)
next
  case (snoc e m)
  obtain k v where e: "e = (k, v)" by fastforce
  have b: "bestLevel L (m @ [(k, v)]) = bestStep L (bestLevel L m) (k, v)" by (simp add: bestLevel_def)
  show ?case
  proof (cases "bestLevel L m")
    case None
    then show ?thesis using snoc by (simp add: b e bestStep_def heldLevels_snoc)
  next
    case (Some l)
    then show ?thesis using snoc by (cases l) (auto simp: b e bestStep_def heldLevels_snoc Let_def intro: order_trans less_imp_le)
  qed
qed

lemma is_best_unique:
  assumes "is_best S x" "is_best S y" "\<And>a b. a \<in> S \<Longrightarrow> b \<in> S \<Longrightarrow> fst a = fst b \<Longrightarrow> a = b"
  shows "x = y"
proof (cases x; cases y)
  fix a b assume x: "x = Some a" and y: "y = Some b"
  then have "fst a = fst b" using assms(1,2) by (auto intro: order_antisym)
  then show ?thesis using assms x y by auto
qed (use assms(1,2) in auto)

definition ladder_grid :: "ladder \<Rightarrow> bool" where
  "ladder_grid m \<longleftrightarrow> (\<forall>(k, v) \<in> set m. on_grid SIZE_DP v)"

lemma ladder_grid_size: "ladder_ok L m \<Longrightarrow> ladder_grid m \<longleftrightarrow> (\<forall>k. on_grid SIZE_DP (levelSize m k))"
proof
  assume "ladder_ok L m" "ladder_grid m"
  then show "\<forall>k. on_grid SIZE_DP (levelSize m k)"
    by (fastforce simp: ladder_grid_def levelSize_def split: option.split dest!: map_of_SomeD)
next
  assume ok: "ladder_ok L m" and g: "\<forall>k. on_grid SIZE_DP (levelSize m k)"
  then show "ladder_grid m" unfolding ladder_grid_def by (metis (no_types, lifting) case_prodI2 levelSize_entry)
qed

context decimal_lib
begin

lemma held_displayed:
  assumes "ladder_ok L m" "ladder_grid m"
  shows "heldLevels L m = displayed L m"
proof -
  have "round_dp SIZE_DP v = v" if "(k, v) \<in> set m" for k v using assms(2) that by (intro round_dp_grid) (auto simp: ladder_grid_def)
  then show ?thesis unfolding heldLevels_def displayed_def by (metis (no_types, lifting))
qed

lemma held_functional:
  assumes "ladder_ok L m" "a \<in> heldLevels L m" "b \<in> heldLevels L m" "fst a = fst b"
  shows "a = b"
proof -
  obtain k v where a: "a = (dl_of_string L k, v)" "(k, v) \<in> set m" using assms(2) by (auto simp: heldLevels_def)
  obtain k' v' where b: "b = (dl_of_string L k', v')" "(k', v') \<in> set m" using assms(3) by (auto simp: heldLevels_def)
  have "key_ok L k" "key_ok L k'" using assms(1) a(2) b(2) by (auto simp: ladder_ok_def)
  then have "k = k'" using assms(4) a(1) b(1) by (intro key_ok_num_inj) simp_all
  then show ?thesis using levelSize_entry [OF assms(1) a(2)] levelSize_entry [OF assms(1) b(2)] a(1) b(1) by simp
qed

lemma best_eq:
  assumes "ladder_ok L m" "ladder_grid m" "is_best (displayed L m) l"
  shows "bestLevel L m = l"
  by (rule is_best_unique [of "heldLevels L m"])
    (use bestLevel_best [of L m] held_functional [OF assms(1)] assms(3) held_displayed [OF assms(1,2)] in auto)

lemma view_bbo_eq:
  assumes "book_ok L sha b" "ladder_grid (mb_yesBids b)" "ladder_grid (mb_noBids b)"
  shows "view_bbo L b = getYesBBO L b"
proof -
  obtain bid nobid where b: "is_best (displayed L (mb_yesBids b)) bid" "is_best (displayed L (mb_noBids b)) nobid"
    and q: "getYesBBO L b = mkBbo L bid (map_option (\<lambda>(q, s). (1 - q, s)) nobid)"
    using bbo_best [OF assms(1)] by blast
  have ok: "ladder_ok L (mb_yesBids b)" "ladder_ok L (mb_noBids b)" using assms(1) by (simp_all add: book_ok_def)
  have best: "bestLevel L (mb_yesBids b) = bid" "bestLevel L (mb_noBids b) = nobid"
    using best_eq [OF ok(1) assms(2) b(1)] best_eq [OF ok(2) assms(3) b(2)] by blast+
  have "dl_of_string L (canonicalPrice L (1 - fst l)) = 1 - fst l" if "nobid = Some l" for l
  proof -
    have "l \<in> displayed L (mb_noBids b)" using b(2) that by simp
    then have "on_grid PRICE_DP (fst l)" using displayed_nonneg [OF ok(2), of "fst l" "snd l"] by simp
    then show ?thesis by (simp add: parse_canonicalPrice on_grid_diff)
  qed
  then show ?thesis
    by (cases bid; cases nobid) (auto simp: view_bbo_def q best mkBbo_def Let_def case_prod_unfold)
qed

lemma view_hash: "book_ok L sha b \<Longrightarrow> view_stateHash L sha b = bookHash L sha b \<and>
    view_stateHash L sha (snd (getStateHash L sha b)) = bookHash L sha b"
  using book_ok_getStateHash [of sha b] book_ok_getStateHash [of sha "snd (getStateHash L sha b)"]
  by (auto simp: view_stateHash_def getStateHash_def Let_def bookHash_def yesBidLevels_def noBidLevels_def split: option.splits)

end

section \<open>Runs of the store\<close>

fun storeStep :: "dec_lib \<Rightarrow> market_store \<Rightarrow> research_event \<Rightarrow> market_store" where
  "storeStep L s (EvSnapshot b e) = snd (ms_applySnapshot L b e s)"
| "storeStep L s (EvDelta b e) = snd (ms_applyDelta L b e s)"
| "storeStep L s (EvGap b e) = snd (applyCaptureGap e s)"
| "storeStep L s _ = s"

text \<open>What the exchange publishes: prices and snapshot sizes are not negative, sizes have at most six decimals.\<close>

fun event_ok :: "research_event \<Rightarrow> bool" where
  "event_ok (EvSnapshot b e) =
     (list_all (\<lambda>(p, sz). 0 \<le> p \<and> 0 \<le> sz \<and> on_grid SIZE_DP sz) (es_yesBids e) \<and>
      list_all (\<lambda>(p, sz). 0 \<le> p \<and> 0 \<le> sz \<and> on_grid SIZE_DP sz) (es_noBids e))"
| "event_ok (EvDelta b e) = (0 \<le> ed_price e \<and> on_grid SIZE_DP (ed_deltaCount e))"
| "event_ok _ = True"

definition book_fine :: "dec_lib \<Rightarrow> (string \<Rightarrow> string) \<Rightarrow> market_book \<Rightarrow> bool" where
  "book_fine L sha b \<longleftrightarrow> book_ok L sha b \<and> ladder_grid (mb_yesBids b) \<and> ladder_grid (mb_noBids b)"

definition ranks_ok :: "market_store \<Rightarrow> bool" where
  "ranks_ok s \<longleftrightarrow> js_map_ok (mk_streamRanks s) \<and>
     map snd (mk_streamRanks s) = map int [0..<length (mk_streamRanks s)]"

definition owner_ok :: "market_store \<Rightarrow> stream_owner \<Rightarrow> bool" where
  "owner_ok s w \<longleftrightarrow> (case sw_streamId w of None \<Rightarrow> sw_rank w = - 1
     | Some sid \<Rightarrow> js_get (mk_streamRanks s) sid = Some (sw_rank w))"

definition store_ok :: "dec_lib \<Rightarrow> (string \<Rightarrow> string) \<Rightarrow> market_store \<Rightarrow> bool" where
  "store_ok L sha s \<longleftrightarrow> ranks_ok s \<and>
     (\<forall>t b. js_get (mk_books s) t = Some b \<longrightarrow> book_fine L sha b \<and> mb_ticker b = t) \<and>
     (\<forall>t w. js_get (mk_owningStream s) t = Some w \<longrightarrow> owner_ok s w)"

lemma store_ok_new: "store_ok L sha newMarketStore"
  by (simp add: store_ok_def ranks_ok_def newMarketStore_def)

lemma ladder_grid_put: "ladder_ok L m \<Longrightarrow> ladder_grid m \<Longrightarrow> key_ok L k \<Longrightarrow> 0 \<le> v \<Longrightarrow> on_grid SIZE_DP v \<Longrightarrow>
    ladder_grid (putLevel m k v)"
  using ladder_grid_size [of L m] ladder_grid_size [OF ladder_ok_put, of L m k v] by simp

context decimal_lib
begin

lemma book_fine_applyDelta:
  assumes "book_fine L sha b" "0 \<le> di_price d" "on_grid SIZE_DP (di_delta d)"
  shows "book_fine L sha (snd (applyDelta L now d b))"
proof -
  have ok: "book_ok L sha b" and g: "ladder_grid (sideLadder side b)" for side
    using assms(1) by (cases side; simp add: book_fine_def)+
  have "ladder_grid (sideLadder side (snd (applyDelta L now d b)))" for side
  proof (cases "levelSize (sideLadder (di_side d) b) (canonicalPrice L (di_price d)) + di_delta d < 0")
    case True
    show ?thesis unfolding applyDelta_rejected(2) [OF True] by (rule g)
  next
    case False
    then have nn: "0 \<le> levelSize (sideLadder (di_side d) b) (canonicalPrice L (di_price d)) + di_delta d" by simp
    have "on_grid SIZE_DP (levelSize (sideLadder (di_side d) b) (canonicalPrice L (di_price d)))"
      using ladder_grid_size [OF book_ok_ladder [OF ok]] g by blast
    then have "ladder_grid (putLevel (sideLadder (di_side d) b) (canonicalPrice L (di_price d))
        (levelSize (sideLadder (di_side d) b) (canonicalPrice L (di_price d)) + di_delta d))"
      using nn assms(2,3) by (intro ladder_grid_put [OF book_ok_ladder [OF ok] g] key_ok_canonical on_grid_add)
    then show ?thesis unfolding applyDelta_applied(2) [OF nn] using g by auto
  qed
  from this [of Yes] this [of No] show ?thesis
    using book_ok_applyDelta [OF ok assms(2)] by (simp add: book_fine_def)
qed

lemma setLevels_grid:
  assumes "list_all (\<lambda>(p, sz). 0 \<le> p \<and> 0 \<le> sz \<and> on_grid SIZE_DP sz) ls" "ladder_grid (sideLadder side b)"
  shows "ladder_grid (sideLadder side (foldl (\<lambda>b (p, sz). setLevel L side p sz b) b ls))"
  using assms
proof (induction ls arbitrary: b)
  case (Cons l ls)
  obtain p sz where l: "l = (p, sz)" by fastforce
  have "ladder_grid (sideLadder side (setLevel L side p sz b))"
    using Cons.prems by (auto simp: l setLevel_def Let_def ladder_grid_def dest: js_set_entryD)
  then show ?case using Cons.IH Cons.prems(1) by (simp add: l)
qed simp

lemma book_fine_snapshot:
  assumes "list_all (\<lambda>(p, sz). 0 \<le> p \<and> 0 \<le> sz \<and> on_grid SIZE_DP sz) ys"
    "list_all (\<lambda>(p, sz). 0 \<le> p \<and> 0 \<le> sz \<and> on_grid SIZE_DP sz) ns"
  shows "book_fine L sha (replaceWithSnapshot L now \<lparr>sl_yesBids = ys, sl_noBids = ns\<rparr> opts b)"
proof -
  let ?sl = "\<lparr>sl_yesBids = ys, sl_noBids = ns\<rparr>"
  have "levels_nonneg ?sl" using assms by (fastforce simp: levels_nonneg_def list_all_iff)
  moreover have "ladder_grid (sideLadder Yes (replaceWithSnapshot L now ?sl opts b))"
    unfolding replaceWithSnapshot_ladders(1) snapshot_levels.simps
    by (rule setLevels_grid [OF assms(1)]) (simp add: ladder_grid_def)
  moreover have "ladder_grid (sideLadder No (replaceWithSnapshot L now ?sl opts b))"
    unfolding replaceWithSnapshot_ladders(2) snapshot_levels.simps
    by (rule setLevels_grid [OF assms(2)]) (subst setLevels_fields(2), simp_all add: ladder_grid_def)
  ultimately show ?thesis using book_ok_replace [of ?sl sha now opts b] by (simp add: book_fine_def)
qed

lemma book_fine_invalidate: "book_fine L sha b \<Longrightarrow> book_fine L sha (invalidate m b)"
  using book_ok_invalidate by (auto simp: book_fine_def invalidate_def)

end

text \<open>Ranks are given in the order streams are first seen and never change.\<close>

definition ranks_extend :: "market_store \<Rightarrow> market_store \<Rightarrow> bool" where
  "ranks_extend s s' \<longleftrightarrow> (\<exists>more. mk_streamRanks s' = mk_streamRanks s @ more)"

lemma ranks_extend_refl: "mk_streamRanks s' = mk_streamRanks s \<Longrightarrow> ranks_extend s s'"
  by (simp add: ranks_extend_def)

lemma ranks_extend_trans: "ranks_extend s s' \<Longrightarrow> ranks_extend s' s'' \<Longrightarrow> ranks_extend s s''"
  by (auto simp: ranks_extend_def)

lemma ranks_extend_get: "ranks_extend s s' \<Longrightarrow> js_get (mk_streamRanks s) sid = Some r \<Longrightarrow> js_get (mk_streamRanks s') sid = Some r"
  by (auto simp: ranks_extend_def map_of_append map_add_Some_iff)

lemma owner_extend: "ranks_extend s s' \<Longrightarrow> owner_ok s w \<Longrightarrow> owner_ok s' w"
  using ranks_extend_get by (auto simp: owner_ok_def split: option.splits)

lemma owner_cong: "mk_streamRanks s' = mk_streamRanks s \<Longrightarrow> owner_ok s' w = owner_ok s w"
  by (simp add: owner_ok_def split: option.split)

lemma rankOf_spec:
  assumes "rankOf sid s = (r, s')" "ranks_ok s"
  shows "ranks_ok s'" "ranks_extend s s'" "owner_ok s' \<lparr>sw_streamId = sid, sw_rank = r\<rparr>"
    "mk_books s' = mk_books s" "mk_owningStream s' = mk_owningStream s" "mk_stats s' = mk_stats s"
proof -
  have "ranks_ok s' \<and> ranks_extend s s' \<and> owner_ok s' \<lparr>sw_streamId = sid, sw_rank = r\<rparr> \<and>
    mk_books s' = mk_books s \<and> mk_owningStream s' = mk_owningStream s \<and> mk_stats s' = mk_stats s"
  proof (cases sid)
    case None
    then show ?thesis using assms by (auto simp: owner_ok_def ranks_extend_def)
  next
    case (Some i)
    show ?thesis
    proof (cases "js_get (mk_streamRanks s) i")
      case None
      then have fresh: "i \<notin> set (js_keys (mk_streamRanks s))" by (simp add: map_of_eq_None_iff)
      show ?thesis using assms None Some js_set_fresh [OF fresh]
        by (auto simp: ranks_ok_def ranks_extend_def owner_ok_def Let_def fresh map_of_append map_add_def)
    next
      case (Some r')
      then show ?thesis using assms \<open>sid = Some i\<close> by (auto simp: owner_ok_def ranks_extend_def)
    qed
  qed
  then show "ranks_ok s'" "ranks_extend s s'" "owner_ok s' \<lparr>sw_streamId = sid, sw_rank = r\<rparr>"
    "mk_books s' = mk_books s" "mk_owningStream s' = mk_owningStream s" "mk_stats s' = mk_stats s" by blast+
qed

section \<open>What each event does to the store\<close>

definition deltaInput :: "base_event \<Rightarrow> delta_body \<Rightarrow> apply_delta_input" where
  "deltaInput b e = \<lparr>di_side = ed_side e, di_price = ed_price e, di_delta = ed_deltaCount e, di_seq = be_seq b,
     di_atMs = Some (be_receiveTimeMs b)\<rparr>"

lemma rankOf_cong: "mk_streamRanks s' = mk_streamRanks s \<Longrightarrow> fst (rankOf sid s') = fst (rankOf sid s)"
  by (cases sid) (simp_all add: Let_def split: option.split)

lemma owner_rank: "owner_ok s w \<Longrightarrow> fst (rankOf (sw_streamId w) s) = sw_rank w"
  by (cases "sw_streamId w") (auto simp: owner_ok_def)

lemma rankOf_again: "rankOf sid s = (r, s') \<Longrightarrow> fst (rankOf sid s') = r"
  by (cases sid) (auto simp: Let_def split: option.splits)

lemma stale_spec:
  assumes "staleStream t sid s = (stale, s')" "ranks_ok s"
  shows "ranks_ok s'" "ranks_extend s s'" "mk_books s' = mk_books s" "mk_owningStream s' = mk_owningStream s" "mk_stats s' = mk_stats s"
    "stale = (case js_get (mk_owningStream s) t of None \<Rightarrow> False
       | Some w \<Rightarrow> sid \<noteq> sw_streamId w \<and> fst (rankOf sid s) < sw_rank w)"
    "fst (rankOf sid s') = fst (rankOf sid s)"
proof -
  obtain r s1 where r: "rankOf sid s = (r, s1)" by fastforce
  show "fst (rankOf sid s') = fst (rankOf sid s)"
    using assms rankOf_again [OF r] r by (auto simp: staleStream_def split: option.splits if_splits)
  show "ranks_ok s'" "ranks_extend s s'" "mk_books s' = mk_books s" "mk_owningStream s' = mk_owningStream s" "mk_stats s' = mk_stats s"
    "stale = (case js_get (mk_owningStream s) t of None \<Rightarrow> False
       | Some w \<Rightarrow> sid \<noteq> sw_streamId w \<and> fst (rankOf sid s) < sw_rank w)"
    using assms rankOf_spec [OF r assms(2)] ranks_extend_refl
    by (auto simp: staleStream_def r split: option.splits if_splits)
qed

lemma setOwner_spec:
  assumes "ranks_ok s"
  shows "ranks_ok (setOwner t sid s)" "ranks_extend s (setOwner t sid s)" "mk_books (setOwner t sid s) = mk_books s"
    "\<exists>r. mk_owningStream (setOwner t sid s) = js_set t \<lparr>sw_streamId = sid, sw_rank = r\<rparr> (mk_owningStream s) \<and>
       r = fst (rankOf sid s) \<and> owner_ok (setOwner t sid s) \<lparr>sw_streamId = sid, sw_rank = r\<rparr>"
proof -
  obtain r s1 where r: "rankOf sid s = (r, s1)" by fastforce
  note k = rankOf_spec [OF r assms]
  have eq: "setOwner t sid s = s1\<lparr>mk_owningStream := js_set t \<lparr>sw_streamId = sid, sw_rank = r\<rparr> (mk_owningStream s1)\<rparr>"
    by (simp add: setOwner_def r)
  show "ranks_ok (setOwner t sid s)" "ranks_extend s (setOwner t sid s)" "mk_books (setOwner t sid s) = mk_books s"
    using k by (simp_all add: eq ranks_ok_def ranks_extend_def)
  show "\<exists>r. mk_owningStream (setOwner t sid s) = js_set t \<lparr>sw_streamId = sid, sw_rank = r\<rparr> (mk_owningStream s) \<and>
       r = fst (rankOf sid s) \<and> owner_ok (setOwner t sid s) \<lparr>sw_streamId = sid, sw_rank = r\<rparr>"
    using k(3,5) owner_cong [of "setOwner t sid s" s1] by (simp add: eq r)
qed

definition seedBook :: "string \<Rightarrow> market_store \<Rightarrow> market_book" where
  "seedBook t s = (case js_get (mk_books s) t of None \<Rightarrow> newMarketBook t None None | Some bk \<Rightarrow> bk)"

definition snapshotBook :: "dec_lib \<Rightarrow> base_event \<Rightarrow> snapshot_body \<Rightarrow> market_book \<Rightarrow> market_book" where
  "snapshotBook L b e = replaceWithSnapshot L (be_receiveTimeMs b)
     \<lparr>sl_yesBids = es_yesBids e, sl_noBids = es_noBids e\<rparr>
     \<lparr>so_seq = be_seq b, so_atMs = Some (be_receiveTimeMs b), so_sessionId = Some (be_sessionId b), so_streamId = be_streamId b\<rparr>"

lemma snapshot_spec:
  assumes "ms_applySnapshot L b e s = (out, s')" "ranks_ok s"
  shows "ao_applied out" "ranks_ok s'" "ranks_extend s s'"
    "mk_books s' = js_set (es_marketTicker e) (snapshotBook L b e (seedBook (es_marketTicker e) s)) (mk_books s)"
    "\<exists>r. mk_owningStream s' = js_set (es_marketTicker e) \<lparr>sw_streamId = be_streamId b, sw_rank = r\<rparr> (mk_owningStream s) \<and>
       owner_ok s' \<lparr>sw_streamId = be_streamId b, sw_rank = r\<rparr>"
proof -
  let ?t = "es_marketTicker e"
  let ?s1 = "putStoreBook (snapshotBook L b e (seedBook ?t s)) ?t s"
  have r1: "ranks_ok ?s1" using assms(2) by (simp add: putStoreBook_def ranks_ok_def)
  note k = setOwner_spec [OF r1, of ?t "be_streamId b"]
  have eq: "s' = (setOwner ?t (be_streamId b) ?s1)\<lparr>mk_stats := (mk_stats (setOwner ?t (be_streamId b) ?s1))
      \<lparr>mt_snapshotsApplied := mt_snapshotsApplied (mk_stats (setOwner ?t (be_streamId b) ?s1)) + 1\<rparr>\<rparr>"
    and out: "ao_applied out"
    using assms(1) by (auto simp: ms_applySnapshot_def snapshotBook_def seedBook_def Let_def)
  show "ao_applied out" by (rule out)
  show "ranks_ok s'" "ranks_extend s s'"
    using k(1,2) by (simp_all add: eq ranks_ok_def ranks_extend_def putStoreBook_def)
  show "mk_books s' = js_set ?t (snapshotBook L b e (seedBook ?t s)) (mk_books s)"
    by (simp add: eq k(3)) (simp add: putStoreBook_def)
  show "\<exists>r. mk_owningStream s' = js_set ?t \<lparr>sw_streamId = be_streamId b, sw_rank = r\<rparr> (mk_owningStream s) \<and>
       owner_ok s' \<lparr>sw_streamId = be_streamId b, sw_rank = r\<rparr>"
    using k(4) owner_cong [of s' "setOwner ?t (be_streamId b) ?s1"] by (auto simp: eq) (auto simp: putStoreBook_def)
qed

text \<open>A delta changes nothing, or replaces the book of its market by what \<open>applyDelta\<close> makes of it.\<close>

lemma delta_cases:
  assumes "ms_applyDelta L b e s = (out, s')" "ranks_ok s"
  obtains (skipped) "\<not> ao_applied out" "mk_books s' = mk_books s" "mk_owningStream s' = mk_owningStream s"
      "ranks_ok s'" "ranks_extend s s'"
  | (diverged) bk where "\<not> ao_applied out" "js_get (mk_books s) (ed_marketTicker e) = Some bk" "mb_valid bk"
      "\<not> dr_applied (fst (applyDelta L (be_receiveTimeMs b) (deltaInput b e) bk))"
      "mk_books s' = js_set (ed_marketTicker e) (snd (applyDelta L (be_receiveTimeMs b) (deltaInput b e) bk)) (mk_books s)"
      "mk_owningStream s' = mk_owningStream s" "ranks_ok s'" "ranks_extend s s'"
  | (applied) bk where "ao_applied out" "ed_applied e" "js_get (mk_books s) (ed_marketTicker e) = Some bk" "mb_valid bk"
      "dr_applied (fst (applyDelta L (be_receiveTimeMs b) (deltaInput b e) bk))"
      "mk_books s' = js_set (ed_marketTicker e) (snd (applyDelta L (be_receiveTimeMs b) (deltaInput b e) bk)) (mk_books s)"
      "case js_get (mk_owningStream s) (ed_marketTicker e) of None \<Rightarrow> True
        | Some w \<Rightarrow> be_streamId b = sw_streamId w \<or> sw_rank w \<le> fst (rankOf (be_streamId b) s)"
      "mk_owningStream s' = mk_owningStream s \<and>
         (be_streamId b = None \<or> map_option sw_streamId (js_get (mk_owningStream s) (ed_marketTicker e)) = Some (be_streamId b)) \<or>
       (\<exists>r. mk_owningStream s' = js_set (ed_marketTicker e) \<lparr>sw_streamId = be_streamId b, sw_rank = r\<rparr> (mk_owningStream s) \<and>
         be_streamId b \<noteq> None \<and> owner_ok s' \<lparr>sw_streamId = be_streamId b, sw_rank = r\<rparr> \<and> r = fst (rankOf (be_streamId b) s))"
      "ranks_ok s'" "ranks_extend s s'"
proof -
  let ?t = "ed_marketTicker e" and ?w = "js_get (mk_owningStream s) (ed_marketTicker e)"
  show thesis
  proof (cases "ed_applied e \<and> (\<exists>bk. js_get (mk_books s) ?t = Some bk \<and> mb_valid bk)")
    case False
    then show thesis using assms
      by (intro skipped) (auto simp: ms_applyDelta_def ranks_ok_def ranks_extend_def Let_def split: option.splits if_splits)
  next
    case True
    then obtain bk where bk: "ed_applied e" "js_get (mk_books s) ?t = Some bk" "mb_valid bk" by blast
    obtain stale s1 where st: "staleStream ?t (be_streamId b) s = (stale, s1)" by fastforce
    note k = stale_spec [OF st assms(2)]
    obtain o1 bk' where d: "applyDelta L (be_receiveTimeMs b) (deltaInput b e) bk = (o1, bk')" by fastforce
    have ev: "ms_applyDelta L b e s =
      (if stale then (\<lparr>ao_applied = False, ao_reason = Some ''stale_stream''\<rparr>,
          s1\<lparr>mk_stats := (mk_stats s1)\<lparr>mt_deltasSkippedStaleStream := mt_deltasSkippedStaleStream (mk_stats s1) + 1\<rparr>\<rparr>)
       else let s2 = putStoreBook bk' ?t s1 in
         if \<not> dr_applied o1 then (\<lparr>ao_applied = False, ao_reason = Some (case dr_error o1 of None \<Rightarrow> ''diverged'' | Some m \<Rightarrow> m)\<rparr>,
            s2\<lparr>mk_stats := (mk_stats s2)\<lparr>mt_deltasDiverged := mt_deltasDiverged (mk_stats s2) + 1\<rparr>\<rparr>)
         else let s3 = (if be_streamId b \<noteq> None \<and> (?w = None \<or> map_option sw_streamId ?w \<noteq> Some (be_streamId b))
                        then setOwner ?t (be_streamId b) s2 else s2)
           in (\<lparr>ao_applied = True, ao_reason = None\<rparr>,
             s3\<lparr>mk_stats := (mk_stats s3)\<lparr>mt_deltasApplied := mt_deltasApplied (mk_stats s3) + 1\<rparr>\<rparr>))"
      using bk d by (simp add: ms_applyDelta_def st deltaInput_def Let_def)
    show thesis
    proof (cases "stale \<or> \<not> dr_applied o1")
      case True
      show thesis
      proof (cases stale)
        case True
        then show thesis using assms k ev
          by (intro skipped) (auto simp: ranks_ok_def ranks_extend_def)
      next
        case False
        then show thesis using \<open>stale \<or> \<not> dr_applied o1\<close> assms k ev bk d
          by (intro diverged [of bk]) (auto simp: ranks_ok_def ranks_extend_def putStoreBook_def Let_def)
      qed
    next
      case False
      let ?s2 = "putStoreBook bk' ?t s1"
      have r2: "ranks_ok ?s2" "ranks_extend s ?s2" "mk_owningStream ?s2 = mk_owningStream s"
        "mk_books ?s2 = js_set ?t bk' (mk_books s)"
        using k by (simp_all add: putStoreBook_def ranks_ok_def ranks_extend_def)
      note own = setOwner_spec [OF r2(1), of ?t "be_streamId b"]
      have guard: "case ?w of None \<Rightarrow> True | Some w \<Rightarrow> be_streamId b = sw_streamId w \<or> sw_rank w \<le> fst (rankOf (be_streamId b) s)"
        using False k(6) by (auto split: option.splits)
      show thesis
      proof (cases "be_streamId b \<noteq> None \<and> (?w = None \<or> map_option sw_streamId ?w \<noteq> Some (be_streamId b))")
        case True
        have out: "out = \<lparr>ao_applied = True, ao_reason = None\<rparr>" and s': "s' = (setOwner ?t (be_streamId b) ?s2)\<lparr>mk_stats :=
            (mk_stats (setOwner ?t (be_streamId b) ?s2))\<lparr>mt_deltasApplied := mt_deltasApplied (mk_stats (setOwner ?t (be_streamId b) ?s2)) + 1\<rparr>\<rparr>"
          using ev assms(1) False True by (simp_all add: Let_def)
        have "fst (rankOf (be_streamId b) ?s2) = fst (rankOf (be_streamId b) s)"
          using rankOf_cong [of ?s2 s1] k(7) by (simp add: putStoreBook_def)
        then obtain r where "mk_owningStream s' = js_set ?t \<lparr>sw_streamId = be_streamId b, sw_rank = r\<rparr> (mk_owningStream s)"
            "owner_ok s' \<lparr>sw_streamId = be_streamId b, sw_rank = r\<rparr>" "r = fst (rankOf (be_streamId b) s)"
          using own(4) r2(3) owner_cong [of s' "setOwner ?t (be_streamId b) ?s2"] by (auto simp: s')
        then show thesis using True False bk d guard own r2
          by (intro applied [of bk]) (auto simp: out s' ranks_ok_def intro: ranks_extend_trans simp: ranks_extend_def)
      next
        case same: False
        then show thesis using ev assms(1) False bk d guard r2
          by (intro applied [of bk]) (auto simp: Let_def ranks_ok_def ranks_extend_def)
      qed
    qed
  qed
qed

definition gapWhy :: "gap_body \<Rightarrow> string" where
  "gapWhy e = ''capture gap '' @ eg_gapId e @ '' ('' @ gapReasonString (eg_reason e) @ '')''"

definition affectedBy :: "gap_body \<Rightarrow> market_store \<Rightarrow> string list" where
  "affectedBy e s = (if eg_affectedMarkets e \<noteq> [] then eg_affectedMarkets e else js_keys (mk_books s))"

definition invalidateValid :: "string \<Rightarrow> market_book \<Rightarrow> market_book" where
  "invalidateValid why b = (if mb_valid b then invalidate why b else b)"

lemma invalidateValid_invalid [simp]: "\<not> mb_valid (invalidateValid why b)"
  by (simp add: invalidateValid_def invalidate_def)

lemma gap_fold:
  assumes "foldl (gapStep why) (gone, s) ts = (gone', s')"
  shows "mk_streamRanks s' = mk_streamRanks s" "mk_owningStream s' = mk_owningStream s"
    "js_get (mk_books s') t = map_option (if t \<in> set ts then invalidateValid why else (\<lambda>b. b)) (js_get (mk_books s) t)"
    "set gone' = set gone \<union> {t \<in> set ts. \<exists>b. js_get (mk_books s) t = Some b \<and> mb_valid b}"
proof -
  have "mk_streamRanks s' = mk_streamRanks s \<and> mk_owningStream s' = mk_owningStream s \<and>
    (\<forall>t. js_get (mk_books s') t = map_option (if t \<in> set ts then invalidateValid why else (\<lambda>b. b)) (js_get (mk_books s) t)) \<and>
    set gone' = set gone \<union> {t \<in> set ts. \<exists>b. js_get (mk_books s) t = Some b \<and> mb_valid b}"
    using assms
  proof (induction ts arbitrary: gone s)
    case (Cons u ts)
    obtain gone1 s1 where g: "gapStep why (gone, s) u = (gone1, s1)" by fastforce
    have one: "mk_streamRanks s1 = mk_streamRanks s \<and> mk_owningStream s1 = mk_owningStream s \<and>
        (\<forall>t. js_get (mk_books s1) t = map_option (if t = u then invalidateValid why else (\<lambda>b. b)) (js_get (mk_books s) t)) \<and>
        set gone1 = set gone \<union> {t. t = u \<and> (\<exists>b. js_get (mk_books s) t = Some b \<and> mb_valid b)}"
      using g by (auto simp: gapStep_def putStoreBook_def invalidateValid_def option.map_ident split: option.splits if_splits)
    have idem: "invalidateValid why (invalidateValid why b) = invalidateValid why b" for b
      by (simp add: invalidateValid_def invalidate_def)
    have twice: "map_option (if t \<in> set ts then invalidateValid why else (\<lambda>b. b))
        (map_option (if t = u then invalidateValid why else (\<lambda>b. b)) x) =
        map_option (if t \<in> set (u # ts) then invalidateValid why else (\<lambda>b. b)) x" for t x
      by (cases x) (simp_all add: idem)
    have "foldl (gapStep why) (gone1, s1) ts = (gone', s')" using Cons.prems by (simp add: g)
    note ih = Cons.IH [OF this]
    have v: "mb_valid (invalidateValid why b) = False" for b by (simp add: invalidateValid_def invalidate_def)
    have "set gone' = set gone \<union> {t \<in> set (u # ts). \<exists>b. js_get (mk_books s) t = Some b \<and> mb_valid b}"
      using ih one v by (auto split: if_splits)
    then show ?case using ih one by (simp add: twice del: list.set)
  qed (simp add: option.map_ident)
  then show "mk_streamRanks s' = mk_streamRanks s" "mk_owningStream s' = mk_owningStream s"
    "js_get (mk_books s') t = map_option (if t \<in> set ts then invalidateValid why else (\<lambda>b. b)) (js_get (mk_books s) t)"
    "set gone' = set gone \<union> {t \<in> set ts. \<exists>b. js_get (mk_books s) t = Some b \<and> mb_valid b}" by blast+
qed

lemma gap_spec:
  assumes "applyCaptureGap e s = (gone, s')"
  shows "mk_streamRanks s' = mk_streamRanks s" "mk_owningStream s' = mk_owningStream s"
    "js_get (mk_books s') t = map_option (if t \<in> set (affectedBy e s) then invalidateValid (gapWhy e) else (\<lambda>b. b)) (js_get (mk_books s) t)"
    "set gone = {t \<in> set (affectedBy e s). \<exists>b. js_get (mk_books s) t = Some b \<and> mb_valid b}"
proof -
  obtain gone1 s1 where g: "foldl (gapStep (gapWhy e)) ([], s) (affectedBy e s) = (gone1, s1)" by fastforce
  have "gone = gone1" "mk_streamRanks s' = mk_streamRanks s1" "mk_owningStream s' = mk_owningStream s1" "mk_books s' = mk_books s1"
    using assms g by (auto simp: applyCaptureGap_def affectedBy_def gapWhy_def Let_def)
  with gap_fold [OF g] show "mk_streamRanks s' = mk_streamRanks s" "mk_owningStream s' = mk_owningStream s"
    "js_get (mk_books s') t = map_option (if t \<in> set (affectedBy e s) then invalidateValid (gapWhy e) else (\<lambda>b. b)) (js_get (mk_books s) t)"
    "set gone = {t \<in> set (affectedBy e s). \<exists>b. js_get (mk_books s) t = Some b \<and> mb_valid b}" by simp_all
qed

context decimal_lib
begin

lemma snapshotBook_fine:
  "event_ok (EvSnapshot b e) \<Longrightarrow> book_fine L sha (snapshotBook L b e bk)"
  by (simp add: snapshotBook_def book_fine_snapshot)

lemma snapshotBook_ticker: "mb_ticker (snapshotBook L b e bk) = mb_ticker bk"
  by (simp add: snapshotBook_def replaceWithSnapshot_fields)

lemma applyDelta_ticker: "mb_ticker (snd (applyDelta L now d bk)) = mb_ticker bk"
  using applyDelta_rejected(5) [of d bk L now] applyDelta_applied(4) [of d bk L now] by linarith

lemma store_step_ok:
  assumes "store_ok L sha s" "event_ok ev"
  shows "store_ok L sha (storeStep L s ev)" "ranks_extend s (storeStep L s ev)"
proof -
  have ranks: "ranks_ok s" using assms(1) by (simp add: store_ok_def)
  have bk: "book_fine L sha b \<and> mb_ticker b = t" if "js_get (mk_books s) t = Some b" for t b
    using assms(1) that by (simp add: store_ok_def)
  have own: "owner_ok s w" if "js_get (mk_owningStream s) t = Some w" for t w
    using assms(1) that by (simp add: store_ok_def)
  have "store_ok L sha (storeStep L s ev) \<and> ranks_extend s (storeStep L s ev)"
  proof (cases ev)
    case (EvSnapshot b e)
    obtain out s' where r: "ms_applySnapshot L b e s = (out, s')" by fastforce
    note k = snapshot_spec [OF r ranks]
    have seed: "mb_ticker (seedBook (es_marketTicker e) s) = es_marketTicker e"
      using bk by (auto simp: seedBook_def newMarketBook_def split: option.split)
    show ?thesis
      using k(2-5) snapshotBook_fine [of b e] snapshotBook_ticker seed assms(2) bk own owner_extend
      by (auto simp: EvSnapshot r store_ok_def split: if_splits)
  next
    case (EvDelta b e)
    obtain out s' where r: "ms_applyDelta L b e s = (out, s')" by fastforce
    have d: "book_fine L sha (snd (applyDelta L now (deltaInput b e) x)) \<and>
        mb_ticker (snd (applyDelta L now (deltaInput b e) x)) = mb_ticker x" if "book_fine L sha x" for now x
      using assms(2) that by (auto simp: EvDelta deltaInput_def applyDelta_ticker intro: book_fine_applyDelta)
    show ?thesis
      using r ranks
    proof (cases rule: delta_cases)
      case skipped
      then show ?thesis using bk own owner_extend by (auto simp: EvDelta r store_ok_def)
    next
      case (diverged x)
      then show ?thesis using bk own owner_extend d [of x] by (auto simp: EvDelta r store_ok_def split: if_splits)
    next
      case (applied x)
      then show ?thesis using bk own owner_extend d [of x] by (auto simp: EvDelta r store_ok_def split: if_splits)
    qed
  next
    case (EvGap b e)
    obtain gone s' where r: "applyCaptureGap e s = (gone, s')" by fastforce
    note k = gap_spec [OF r]
    have fine: "book_fine L sha (invalidateValid m x) \<and> mb_ticker (invalidateValid m x) = mb_ticker x" if "book_fine L sha x" for m x
      using book_fine_invalidate that by (auto simp: invalidateValid_def) (simp add: invalidate_def)
    have "js_get (mk_books s') t = Some b \<Longrightarrow> book_fine L sha b \<and> mb_ticker b = t" for t b
      using k(3) [of t] bk [of t] fine by (auto split: if_splits)
    then show ?thesis using k(1,2) own ranks owner_cong [OF k(1)]
      by (auto simp: EvGap r store_ok_def ranks_ok_def ranks_extend_def)
  qed (use assms(1) ranks_extend_refl in \<open>simp_all\<close>)
  then show "store_ok L sha (storeStep L s ev)" "ranks_extend s (storeStep L s ev)" by blast+
qed

lemma store_stepper: "stepper (storeStep L) event_ok (store_ok L sha)"
  by unfold_locales (rule store_step_ok(1))

sublocale store_run: stepper "storeStep L" event_ok "store_ok L sha" for sha
  by (rule store_stepper)

end

definition storeRun :: "dec_lib \<Rightarrow> research_event list \<Rightarrow> market_store" where
  "storeRun L evs = foldl (storeStep L) newMarketStore evs"

lemma storeRun_ok: "decimal_lib L \<Longrightarrow> \<forall>ev \<in> set evs. event_ok ev \<Longrightarrow> store_ok L sha (storeRun L evs)"
  unfolding storeRun_def
  using stepper.run_inv [OF decimal_lib.store_stepper, of L sha newMarketStore evs] store_ok_new by blast

section \<open>Properties\<close>

text \<open>
  C36: The scan and the sort agree: on every book of every run, the best bid and offer the backtest
  reads by one scan of each ladder is the one the recorder's book computes from its sorted levels, and
  so is the microprice, as long as sizes have at most the six decimals the exchange publishes.
\<close>
theorem scan_agrees_with_book:
  assumes "decimal_lib L" "\<forall>ev \<in> set evs. event_ok ev" "js_get (mk_books (storeRun L evs)) t = Some b"
  shows "view_bbo L b = getYesBBO L b \<and> view_microprice L b = getMicroprice L b"
proof -
  have "book_fine L sha b" for sha using storeRun_ok [OF assms(1,2), of sha] assms(3) by (simp add: store_ok_def)
  then have "view_bbo L b = getYesBBO L b"
    using decimal_lib.view_bbo_eq [OF assms(1)] unfolding book_fine_def by blast
  then show ?thesis by (simp add: view_microprice_def getMicroprice_def micropriceOf_def Let_def)
qed

text \<open>
  C31: A superseded stream is not applied: in every reachable store a delta is applied only when the
  recorder applied it, the book is valid, and its stream owns the book or was first seen no earlier
  than the owner; then the book is the recorder's own \<open>applyDelta\<close>, the owner's rank does not go
  back, and no other book moves. A delta that is not applied changes no book, except that a diverging
  one invalidates its own.
\<close>
theorem delta_from_current_stream:
  assumes "decimal_lib L" "\<forall>ev \<in> set evs. event_ok ev" "s = storeRun L evs" "ms_applyDelta L b e s = (out, s')"
  shows "(ao_applied out \<longrightarrow> ed_applied e \<and>
      (\<exists>bk. js_get (mk_books s) (ed_marketTicker e) = Some bk \<and> mb_valid bk \<and>
        js_get (mk_books s') (ed_marketTicker e) = Some (snd (applyDelta L (be_receiveTimeMs b) (deltaInput b e) bk))) \<and>
      (\<forall>w. js_get (mk_owningStream s) (ed_marketTicker e) = Some w \<longrightarrow>
        (be_streamId b = sw_streamId w \<or> sw_rank w \<le> fst (rankOf (be_streamId b) s)) \<and>
        (\<exists>w'. js_get (mk_owningStream s') (ed_marketTicker e) = Some w' \<and> sw_rank w \<le> sw_rank w'))) \<and>
    (\<forall>t. t \<noteq> ed_marketTicker e \<longrightarrow> js_get (mk_books s') t = js_get (mk_books s) t) \<and>
    (\<not> ao_applied out \<longrightarrow> js_get (mk_books s') (ed_marketTicker e) = js_get (mk_books s) (ed_marketTicker e) \<or>
      (\<exists>bk. js_get (mk_books s') (ed_marketTicker e) = Some bk \<and> \<not> mb_valid bk))"
proof -
  have ok: "store_ok L sha s" for sha unfolding assms(3) by (rule storeRun_ok [OF assms(1,2)])
  then have ranks: "ranks_ok s" by (simp add: store_ok_def)
  show ?thesis
    using assms(4) ranks
  proof (cases rule: delta_cases)
    case (diverged bk)
    have "\<not> mb_valid (snd (applyDelta L (be_receiveTimeMs b) (deltaInput b e) bk))"
      using diverged(4) applyDelta_applied(1) applyDelta_rejected(3) by (metis not_le)
    then show ?thesis unfolding diverged(5) using diverged(1) by simp
  next
    case (applied bk)
    have mono: "\<exists>w'. js_get (mk_owningStream s') (ed_marketTicker e) = Some w' \<and> sw_rank w \<le> sw_rank w'"
      if w: "js_get (mk_owningStream s) (ed_marketTicker e) = Some w" for w
    proof (cases "mk_owningStream s' = mk_owningStream s")
      case True
      then show ?thesis using w by simp
    next
      case False
      then obtain r where o': "mk_owningStream s' = js_set (ed_marketTicker e) \<lparr>sw_streamId = be_streamId b, sw_rank = r\<rparr> (mk_owningStream s)"
        and r: "r = fst (rankOf (be_streamId b) s)"
        using applied(8) by blast
      have "owner_ok s w" using ok [of "\<lambda>x. x"] w by (simp add: store_ok_def)
      then have "be_streamId b = sw_streamId w \<Longrightarrow> sw_rank w = r" using owner_rank r by metis
      moreover have "be_streamId b = sw_streamId w \<or> sw_rank w \<le> r" using applied(7) w r by simp
      ultimately have "sw_rank w \<le> r" by linarith
      then show ?thesis by (simp add: o')
    qed
    have w: "be_streamId b = sw_streamId w \<or> sw_rank w \<le> fst (rankOf (be_streamId b) s)"
      if "js_get (mk_owningStream s) (ed_marketTicker e) = Some w" for w
      using applied(7) that by simp
    show ?thesis unfolding applied(6) using applied(1-4) w mono by simp
  next
    case skipped
    then show ?thesis by simp
  qed
qed

lemma gap_kept:
  assumes "ranks_ok s" "\<forall>bk. js_get (mk_books s) t = Some bk \<longrightarrow> \<not> mb_valid bk"
    and "\<forall>ev \<in> set evs. event_ok ev \<and> (\<forall>b e. ev = EvSnapshot b e \<longrightarrow> es_marketTicker e \<noteq> t)"
  shows "ranks_ok (foldl (storeStep L) s evs) \<and> (\<forall>bk. js_get (mk_books (foldl (storeStep L) s evs)) t = Some bk \<longrightarrow> \<not> mb_valid bk)"
  using assms
proof (induction evs arbitrary: s)
  case (Cons ev evs)
  have "ranks_ok (storeStep L s ev) \<and> (\<forall>bk. js_get (mk_books (storeStep L s ev)) t = Some bk \<longrightarrow> \<not> mb_valid bk)"
  proof (cases ev)
    case (EvSnapshot b e)
    obtain out s' where r: "ms_applySnapshot L b e s = (out, s')" by fastforce
    show ?thesis using snapshot_spec [OF r Cons.prems(1)] Cons.prems(2,3) EvSnapshot r by auto
  next
    case (EvDelta b e)
    obtain out s' where r: "ms_applyDelta L b e s = (out, s')" by fastforce
    show ?thesis using r Cons.prems(1)
    proof (cases rule: delta_cases)
      case (diverged bk)
      then have "t \<noteq> ed_marketTicker e" using Cons.prems(2) by auto
      then show ?thesis using diverged Cons.prems(2) by (simp add: EvDelta r)
    next
      case (applied bk)
      then have "t \<noteq> ed_marketTicker e" using Cons.prems(2) by auto
      then show ?thesis using applied Cons.prems(2) by (simp add: EvDelta r)
    qed (use Cons.prems(2) in \<open>simp add: EvDelta r\<close>)
  next
    case (EvGap b e)
    obtain gone s' where r: "applyCaptureGap e s = (gone, s')" by fastforce
    have "\<not> mb_valid bk" if bk: "js_get (mk_books s') t = Some bk" for bk
    proof -
      obtain x where x: "js_get (mk_books s) t = Some x" "bk = x \<or> bk = invalidateValid (gapWhy e) x"
        using gap_spec(3) [OF r, of t] bk by (cases "js_get (mk_books s) t") (auto split: if_splits)
      then show ?thesis using Cons.prems(2) by auto
    qed
    then show ?thesis using gap_spec(1) [OF r] Cons.prems(1) by (simp add: EvGap r ranks_ok_def)
  qed (use Cons.prems in auto)
  then show ?case using Cons.IH [of "storeStep L s ev"] Cons.prems(3) by simp
qed simp

text \<open>
  C33: A gap holds until the next snapshot: once a capture gap covers a market, its book is not valid
  and no delta for it is applied, whatever events follow, until a snapshot of that market arrives.
\<close>
theorem gap_holds_until_snapshot:
  assumes "decimal_lib L" "\<forall>ev \<in> set before. event_ok ev" "applyCaptureGap g (storeRun L before) = (gone, s)"
    and "t \<in> set (affectedBy g (storeRun L before))"
    and "\<forall>ev \<in> set evs. event_ok ev \<and> (\<forall>b e. ev = EvSnapshot b e \<longrightarrow> es_marketTicker e \<noteq> t)"
  shows "(\<forall>bk. ms_view t (foldl (storeStep L) s evs) = Some bk \<longrightarrow> \<not> mb_valid bk) \<and>
    (ed_marketTicker e = t \<longrightarrow> \<not> ao_applied (fst (ms_applyDelta L b e (foldl (storeStep L) s evs))))"
proof -
  have "ranks_ok (storeRun L before)" using storeRun_ok [OF assms(1,2), of "\<lambda>x. x"] by (simp add: store_ok_def)
  then have "ranks_ok s" using gap_spec(1) [OF assms(3)] by (simp add: ranks_ok_def)
  moreover have "\<forall>bk. js_get (mk_books s) t = Some bk \<longrightarrow> \<not> mb_valid bk"
    using gap_spec(3) [OF assms(3), of t] assms(4) by auto
  ultimately have k: "ranks_ok (foldl (storeStep L) s evs)"
    "\<forall>bk. js_get (mk_books (foldl (storeStep L) s evs)) t = Some bk \<longrightarrow> \<not> mb_valid bk"
    using gap_kept [OF _ _ assms(5), of s] by blast+
  obtain out s' where r: "ms_applyDelta L b e (foldl (storeStep L) s evs) = (out, s')" by fastforce
  have "\<not> ao_applied out" if "ed_marketTicker e = t"
    using r k(1) by (cases rule: delta_cases) (use k(2) that in auto)
  then show ?thesis using k(2) r by (simp add: ms_view_def)
qed

subsection \<open>Witnesses\<close>

definition wit_base :: "int \<Rightarrow> string \<Rightarrow> base_event" where
  "wit_base t stream = \<lparr>be_exchangeTimeMs = None, be_receiveTimeMs = t, be_sessionId = ''s1'', be_ingestOrdinal = None,
     be_streamId = Some stream, be_seq = Some t, be_seriesTicker = None, be_eventTicker = None\<rparr>"

definition wit_snap_event :: "int \<Rightarrow> string \<Rightarrow> research_event" where
  "wit_snap_event t stream = EvSnapshot (wit_base t stream)
     \<lparr>es_marketTicker = ''M'', es_source = EsWsInitial, es_yesBids = [(2 / 5, 10)], es_noBids = [(1 / 2, 7)], es_stateHash = None\<rparr>"

definition wit_delta_body :: delta_body where
  "wit_delta_body = \<lparr>ed_marketTicker = ''M'', ed_side = Yes, ed_price = 2 / 5, ed_deltaCount = - 3, ed_preCount = Some 10,
     ed_postCount = Some 7, ed_applied = True, ed_applyError = None\<rparr>"

definition wit_gap :: gap_body where
  "wit_gap = \<lparr>eg_gapId = ''g1'', eg_startedAtMs = 3, eg_endedAtMs = None, eg_reason = GrCrash, eg_affectedMarkets = []\<rparr>"

lemma grid_nat: "on_grid SIZE_DP 10" "on_grid SIZE_DP 7" "on_grid SIZE_DP (- 3)"
  using on_grid_of_int [of SIZE_DP 10] on_grid_of_int [of SIZE_DP 7] on_grid_of_int [of SIZE_DP "- 3"] by simp_all

lemma wit_snap_ok: "event_ok (wit_snap_event t stream)"
  by (simp add: wit_snap_event_def grid_nat)

definition wit_store :: "string list \<Rightarrow> market_store" where
  \<comment> \<open>a snapshot from each of some streams, in order\<close>
  "wit_store streams = storeRun std_dlib (map (wit_snap_event 1) streams)"

lemma wit_store_book:
  "map_option mb_yesBids (js_get (mk_books (wit_store [''A''])) ''M'') = Some [(''0.400000'', 10)]"
  "map_option mb_noBids (js_get (mk_books (wit_store [''A''])) ''M'') = Some [(''0.500000'', 7)]"
  by (simp_all add: wit_store_def storeRun_def newMarketStore_def wit_snap_event_def ms_applySnapshot_def Let_def
    putStoreBook_def setOwner_def wit_base_def replaceWithSnapshot_def newMarketBook_def setLevel_def
    canonicalPrice_def PRICE_DP_def std_strings)

theorem scan_agrees_with_book_witness:
  "map_option (\<lambda>b. (bbo_bid (getYesBBO std_dlib b), bbo_askSize (getYesBBO std_dlib b)))
     (js_get (mk_books (wit_store [''A''])) ''M'') = Some (Some (2 / 5), Some 7)"
proof -
  obtain b where b: "js_get (mk_books (wit_store [''A''])) ''M'' = Some b"
    using wit_store_book(1) by (cases "js_get (mk_books (wit_store [''A''])) ''M''") simp_all
  then have l: "mb_yesBids b = [(''0.400000'', 10)]" "mb_noBids b = [(''0.500000'', 7)]"
    using wit_store_book by simp_all
  have "view_bbo std_dlib b = getYesBBO std_dlib b"
    using scan_agrees_with_book [OF std.decimal_lib_axioms _ b [unfolded wit_store_def]] wit_snap_ok by auto
  moreover have "bbo_bid (view_bbo std_dlib b) = Some (2 / 5)" "bbo_askSize (view_bbo std_dlib b) = Some 7"
    by (simp_all add: view_bbo_def l bestLevel_def bestStep_def std_numbers Let_def)
  ultimately show ?thesis using b by simp
qed

lemma wit_two_streams:
  "js_get (mk_owningStream (wit_store [''A'', ''B''])) ''M'' = Some \<lparr>sw_streamId = Some ''B'', sw_rank = 1\<rparr>"
  "mk_streamRanks (wit_store [''A'', ''B'']) = [(''A'', 0), (''B'', 1)]"
  by (simp_all add: wit_store_def storeRun_def newMarketStore_def wit_snap_event_def ms_applySnapshot_def Let_def
    putStoreBook_def setOwner_def wit_base_def)

text \<open>A delta of the first of two streams after the second has seeded the book.\<close>

theorem delta_from_current_stream_witness:
  "ao_applied (fst (ms_applyDelta std_dlib (wit_base 2 ''A'') wit_delta_body (wit_store [''A'', ''B'']))) = False"
proof -
  obtain out s' where r: "ms_applyDelta std_dlib (wit_base 2 ''A'') wit_delta_body (wit_store [''A'', ''B'']) = (out, s')"
    by fastforce
  have "\<forall>ev \<in> set (map (wit_snap_event 1) [''A'', ''B'']). event_ok ev" using wit_snap_ok by simp
  from delta_from_current_stream [OF std.decimal_lib_axioms this wit_store_def r] wit_two_streams
  have "\<not> ao_applied out" by (auto simp: wit_delta_body_def wit_base_def)
  then show ?thesis by (simp add: r)
qed

theorem gap_holds_until_snapshot_witness:
  "ao_applied (fst (ms_applyDelta std_dlib (wit_base 5 ''A'') wit_delta_body
     (foldl (storeStep std_dlib) (snd (applyCaptureGap wit_gap (wit_store [''A''])))
       [EvDelta (wit_base 4 ''A'') wit_delta_body]))) = False"
proof -
  obtain gone s where g: "applyCaptureGap wit_gap (storeRun std_dlib [wit_snap_event 1 ''A'']) = (gone, s)" by fastforce
  have a: "''M'' \<in> set (affectedBy wit_gap (storeRun std_dlib [wit_snap_event 1 ''A'']))"
    using wit_store_book(1) by (simp add: affectedBy_def wit_gap_def wit_store_def)
      (metis image_eqI map_of_SomeD fst_conv option.map_disc_iff option.exhaust option.distinct(1))
  have "\<forall>ev \<in> set [EvDelta (wit_base 4 ''A'') wit_delta_body]. event_ok ev \<and>
      (\<forall>b e. ev = EvSnapshot b e \<longrightarrow> es_marketTicker e \<noteq> ''M'')"
    by (simp add: wit_delta_body_def grid_nat)
  from gap_holds_until_snapshot [OF std.decimal_lib_axioms _ g a this, of wit_delta_body "wit_base 5 ''A''"] wit_snap_ok
  show ?thesis by (simp add: wit_store_def g wit_delta_body_def)
qed

text \<open>
  The agreement needs sizes on the published grid: a resting size below half a millionth is a level for
  the scan and no level for the sorted book.
\<close>

lemma scan_differs_off_grid:
  "bbo_bid (view_bbo std_dlib (setLevel std_dlib Yes (2 / 5) (1 / 10 ^ 7) (newMarketBook ''M'' None None))) = Some (2 / 5)"
  "bbo_bid (getYesBBO std_dlib (setLevel std_dlib Yes (2 / 5) (1 / 10 ^ 7) (newMarketBook ''M'' None None))) = None"
proof -
  have f: "\<lfloor>1 / 10 :: rat\<rfloor> = 0" by (simp add: floor_eq_iff)
  have z: "std_fixed 6 (1 / 10 ^ 7) = ''0.000000''" "std_of_string ''0.000000'' = 0" by (simp_all add: std_eval f)
  show "bbo_bid (view_bbo std_dlib (setLevel std_dlib Yes (2 / 5) (1 / 10 ^ 7) (newMarketBook ''M'' None None))) = Some (2 / 5)"
    by (simp add: view_bbo_def setLevel_def newMarketBook_def bestLevel_def bestStep_def canonicalPrice_def PRICE_DP_def
      std_strings std_numbers)
  show "bbo_bid (getYesBBO std_dlib (setLevel std_dlib Yes (2 / 5) (1 / 10 ^ 7) (newMarketBook ''M'' None None))) = None"
    using z by (simp add: getYesBBO_def mkBbo_def firstLevel_def yesBidLevels_def canonicalLevels_def ladderEntries_def setLevel_def
      newMarketBook_def canonicalPrice_def canonicalSize_def PRICE_DP_def SIZE_DP_def std_strings std_numbers sort_desc_def)
qed

end
