(* ===== verification/Exchange.thy ===== *)
theory Exchange
  imports Orders MarketState "HOL-Library.Product_Lexorder"
begin

text \<open>
  The simulated exchange: \<open>src/src/research/execution/simulatedExchange.ts\<close>.

  \<open>exchange\<close> has the private fields of the class, with the mutable state of the fee model, which the
  class only reaches through \<open>fee\<close>. An order object that the code shares between its map, the two
  pending lists and the level indexes is one entry of \<open>ex_orders\<close>; the lists and indexes hold its
  id, and a mutation of the object is \<open>putOrder\<close>. The market state store is an argument: the exchange
  only reads it.
\<close>

section \<open>Configuration and state\<close>

record 's exchange_options =
  xo_fillModel :: fill_model
  xo_feeModel :: "'s fee_model"
  xo_latency :: latency_model
  xo_marketStates :: "(string, market_state) jsmap"
  xo_gapOrderPolicy :: gap_order_policy
  xo_dec :: dec_lib
  xo_sha256 :: "string \<Rightarrow> string"
  xo_decString :: "rat \<Rightarrow> string"   \<comment> \<open>\<open>Decimal.toString\<close>, for one rejection message\<close>

record 's exchange =
  ex_orders :: "(string, simulated_order) jsmap"
  ex_byClientId :: "(string, string) jsmap"
  ex_pending :: "string list"
  ex_pendingCancels :: "string list"
  ex_restingByLevel :: "(string, string list) jsmap"
  ex_restingByMarket :: "(string, string list) jsmap"
  ex_frozen :: "string list"
  ex_orderSeq :: nat
  ex_fillSeq :: nat
  ex_fills :: "simulated_fill list"
  ex_feeState :: 's

definition newExchange :: "'s \<Rightarrow> 's exchange" where
  "newExchange feeState = \<lparr>ex_orders = [], ex_byClientId = [], ex_pending = [], ex_pendingCancels = [],
     ex_restingByLevel = [], ex_restingByMarket = [], ex_frozen = [], ex_orderSeq = 0, ex_fillSeq = 0,
     ex_fills = [], ex_feeState = feeState\<rparr>"

section \<open>Bookkeeping\<close>

definition putOrder :: "simulated_order \<Rightarrow> 's exchange \<Rightarrow> 's exchange" where
  "putOrder o1 ex = ex\<lparr>ex_orders := js_set (wo_orderId o1) o1 (ex_orders ex)\<rparr>"

definition levelKey :: "string \<Rightarrow> book_side \<Rightarrow> string \<Rightarrow> string" where
  "levelKey marketTicker side price = marketTicker @ ''|'' @ sideString side @ ''|'' @ price"

definition orderUpdate :: "simulated_order \<Rightarrow> string \<Rightarrow> int \<Rightarrow> order_update" where
  "orderUpdate o1 reason atMs =
     \<lparr>ou_orderId = wo_orderId o1, ou_clientOrderId = wo_clientOrderId o1, ou_marketTicker = wo_marketTicker o1,
      ou_status = wo_status o1, ou_reason = reason, ou_atMs = atMs, ou_remainingQuantity = remainingOf o1\<rparr>"

definition reject :: "string \<Rightarrow> string \<Rightarrow> int \<Rightarrow> order_update" where
  "reject clientOrderId reason atMs =
     \<lparr>ou_orderId = '''', ou_clientOrderId = clientOrderId, ou_marketTicker = '''', ou_status = StRejected,
      ou_reason = reason, ou_atMs = atMs, ou_remainingQuantity = 0\<rparr>"

definition findByClientId :: "string \<Rightarrow> 's exchange \<Rightarrow> simulated_order option" where
  "findByClientId clientOrderId ex =
     (case js_get (ex_byClientId ex) clientOrderId of None \<Rightarrow> None | Some oid \<Rightarrow> js_get (ex_orders ex) oid)"

definition indexDelete :: "string \<Rightarrow> string \<Rightarrow> (string, string list) jsmap \<Rightarrow> (string, string list) jsmap" where
  \<comment> \<open>\<open>index.get(key)?.delete(id)\<close>\<close>
  "indexDelete key oid index =
     (case js_get index key of None \<Rightarrow> index | Some ids \<Rightarrow> js_set key (set_del oid ids) index)"

definition indexAdd :: "string \<Rightarrow> string \<Rightarrow> (string, string list) jsmap \<Rightarrow> (string, string list) jsmap" where
  "indexAdd key oid index =
     (let ids = (case js_get index key of None \<Rightarrow> [] | Some ids \<Rightarrow> ids) in js_set key (set_add oid ids) index)"

definition retire :: "dec_lib \<Rightarrow> simulated_order \<Rightarrow> order_status \<Rightarrow> int \<Rightarrow> 's exchange \<Rightarrow> simulated_order \<times> 's exchange" where
  "retire L o1 status atMs ex =
     (let o2 = o1\<lparr>wo_status := status, so_terminalAtMs := Some atMs, so_queue := None\<rparr>;
          lad = ladderOf L o2;
          ex = putOrder o2 ex
      in (o2, ex\<lparr>ex_restingByLevel :=
                   indexDelete (levelKey (wo_marketTicker o2) (pl_side lad) (pl_price lad)) (wo_orderId o2) (ex_restingByLevel ex),
                 ex_restingByMarket := indexDelete (wo_marketTicker o2) (wo_orderId o2) (ex_restingByMarket ex)\<rparr>))"

definition recordFill ::
  "'s exchange_options \<Rightarrow> simulated_order \<Rightarrow> rat \<Rightarrow> rat \<Rightarrow> liquidity \<Rightarrow> fill_reason \<Rightarrow> int \<Rightarrow> market_book \<Rightarrow>
     string option \<Rightarrow> rat option \<Rightarrow> 's exchange \<Rightarrow> simulated_fill \<times> simulated_order \<times> 's exchange" where
  "recordFill cfg o1 quantity yesPrice liq reason atMs view tradeId queueAheadBeforeFill ex =
     (let L = xo_dec cfg;
          o1 = o1\<lparr>wo_filledQuantity := wo_filledQuantity o1 + quantity\<rparr>;
          (fee, feeState) = fe_fee (xo_feeModel cfg)
             \<lparr>fc_marketTicker = wo_marketTicker o1, fc_quantity = quantity, fc_yesPrice = yesPrice, fc_liquidity = liq,
              fc_market = js_get (xo_marketStates cfg) (wo_marketTicker o1), fc_atMs = atMs\<rparr> (ex_feeState ex);
          sidePrice = (if wo_side o1 = Yes then yesPrice else 1 - yesPrice);
          bbo = (if mb_valid view then Some (view_bbo L view) else None);
          dep = (if mb_valid view then Some (view_depth L 1 view) else None);
          fillSeq = ex_fillSeq ex + 1;
          f = \<lparr>fl_fillId = ''f'' @ int_str (int fillSeq), fl_orderId = wo_orderId o1, fl_clientOrderId = wo_clientOrderId o1,
               fl_marketTicker = wo_marketTicker o1, fl_side = wo_side o1, fl_action = wo_action o1,
               fl_yesAction = wo_yesAction o1, fl_price = sidePrice, fl_yesPrice = yesPrice, fl_quantity = quantity,
               fl_liquidity = liq, fl_fee = fo_amount fee, fl_feeKnown = fo_known fee,
               fl_submittedAtMs = so_submittedAtMs o1, fl_arrivedAtMs = so_effectiveAtMs o1, fl_filledAtMs = atMs,
               fl_tag = wo_tag o1, sl_reason = reason,
               sl_queueAheadAtEntry = map_option qs_queueAheadAtEntry (so_queue o1),
               sl_queueAheadBeforeFill = queueAheadBeforeFill, sl_fillModel = fm_name (xo_fillModel cfg),
               sl_bookStateHash = (if mb_valid view then Some (view_stateHash L (xo_sha256 cfg) view) else None),
               sl_triggeringTradeId = tradeId,
               sl_midAtFill = Option.bind bbo bbo_mid, sl_spreadAtFill = Option.bind bbo bbo_spread,
               sl_depth1AtFill = map_option (\<lambda>d. dp_bid d + dp_ask d) dep,
               sl_imbalance1AtFill = (if mb_valid view then view_imbalance L 1 view else None)\<rparr>
      in (f, o1, (putOrder o1 ex)\<lparr>ex_fillSeq := fillSeq, ex_fills := ex_fills ex @ [f], ex_feeState := feeState\<rparr>))"

section \<open>Submission\<close>

text \<open>The fields \<open>submitNew\<close> reads of a limit and of a market intent.\<close>

record order_request =
  rq_marketTicker :: string
  rq_side :: book_side
  rq_action :: order_action
  rq_price :: rat
  rq_quantity :: rat
  rq_clientOrderId :: string
  rq_timeInForce :: time_in_force
  rq_tag :: "string option"

definition limitRequest :: "limit_intent \<Rightarrow> order_request" where
  "limitRequest i = \<lparr>rq_marketTicker = li_marketTicker i, rq_side = li_side i, rq_action = li_action i,
     rq_price = li_price i, rq_quantity = li_quantity i, rq_clientOrderId = li_clientOrderId i,
     rq_timeInForce = (case li_timeInForce i of None \<Rightarrow> Gtc | Some t \<Rightarrow> t), rq_tag = li_tag i\<rparr>"

definition marketRequest :: "market_intent \<Rightarrow> order_request" where
  "marketRequest i = \<lparr>rq_marketTicker = mi_marketTicker i, rq_side = mi_side i, rq_action = mi_action i,
     rq_price = mi_maxPrice i, rq_quantity = mi_quantity i, rq_clientOrderId = mi_clientOrderId i,
     rq_timeInForce = Ioc, rq_tag = mi_tag i\<rparr>"

definition orderIdOf :: "nat \<Rightarrow> string" where
  "orderIdOf sequence = ''o'' @ int_str (int sequence)"

definition newOrder ::
  "'s exchange_options \<Rightarrow> market_store \<Rightarrow> order_intent \<Rightarrow> order_request \<Rightarrow> int \<Rightarrow> nat \<Rightarrow> simulated_order" where
  "newOrder cfg store intent rq nowMs sequence =
     (let L = xo_dec cfg;
          view = (case ms_view (rq_marketTicker rq) store of None \<Rightarrow> None | Some b \<Rightarrow> if mb_valid b then Some b else None);
          bbo = map_option (view_bbo L) view
      in \<lparr>wo_orderId = orderIdOf sequence, wo_clientOrderId = rq_clientOrderId rq, wo_marketTicker = rq_marketTicker rq,
          wo_side = rq_side rq, wo_action = rq_action rq, wo_price = rq_price rq,
          wo_yesPrice = yesEquivalentPrice (rq_side rq) (rq_action rq) (rq_price rq),
          wo_yesAction = yesAction (rq_side rq) (rq_action rq), wo_quantity = rq_quantity rq, wo_filledQuantity = 0,
          wo_status = StPending, wo_timeInForce = rq_timeInForce rq, wo_tag = rq_tag rq,
          so_sequence = sequence, so_submittedAtMs = nowMs, so_effectiveAtMs = submitEffectiveAt (xo_latency cfg) intent nowMs,
          so_restedAtMs = None, so_cancelRequestedAtMs = None, so_cancelEffectiveAtMs = None, so_terminalAtMs = None,
          so_queue = None, so_rejectReason = None,
          so_decisionBid = Option.bind bbo bbo_bid, so_decisionAsk = Option.bind bbo bbo_ask,
          so_decisionBidSize = Option.bind bbo bbo_bidSize, so_decisionAskSize = Option.bind bbo bbo_askSize,
          so_decisionBookHash = map_option (view_stateHash L (xo_sha256 cfg)) view,
          so_arrivalBid = None, so_arrivalAsk = None, so_arrivalDisplayedSize = None\<rparr>)"

definition submitNew ::
  "'s exchange_options \<Rightarrow> market_store \<Rightarrow> order_intent \<Rightarrow> order_request \<Rightarrow> int \<Rightarrow> 's exchange
     \<Rightarrow> order_update list \<times> 's exchange" where
  "submitNew cfg store intent rq nowMs ex =
     (if js_has (ex_byClientId ex) (rq_clientOrderId rq)
      then ([reject (rq_clientOrderId rq) ''duplicate clientOrderId'' nowMs], ex)
      else if rq_quantity rq \<le> 0
      then ([reject (rq_clientOrderId rq) ''non-positive quantity'' nowMs], ex)
      else if rq_price rq < 0 \<or> 1 < rq_price rq
      then ([reject (rq_clientOrderId rq) (''price '' @ xo_decString cfg (rq_price rq) @ '' outside [0, 1]'') nowMs], ex)
      else
        let sequence = ex_orderSeq ex + 1;
            o1 = newOrder cfg store intent rq nowMs sequence;
            ex = ex\<lparr>ex_orderSeq := sequence\<rparr>;
            ex = putOrder o1 ex;
            ex = ex\<lparr>ex_byClientId := js_set (wo_clientOrderId o1) (wo_orderId o1) (ex_byClientId ex),
                    ex_pending := ex_pending ex @ [wo_orderId o1]\<rparr>
        in ([orderUpdate o1 ''accepted'' nowMs], ex))"

definition isTerminal :: "order_status \<Rightarrow> bool" where
  "isTerminal st = (st = StFilled \<or> st = StCancelled \<or> st = StRejected)"

definition requestCancel ::
  "'s exchange_options \<Rightarrow> string \<Rightarrow> int \<Rightarrow> 's exchange \<Rightarrow> order_update list \<times> 's exchange" where
  "requestCancel cfg clientOrderId nowMs ex =
     (case findByClientId clientOrderId ex of
        None \<Rightarrow> ([reject clientOrderId ''unknown order'' nowMs], ex)
      | Some o1 \<Rightarrow>
          if isTerminal (wo_status o1) then ([], ex)
          else if so_cancelRequestedAtMs o1 \<noteq> None then ([], ex)
          else
            let o1 = o1\<lparr>so_cancelRequestedAtMs := Some nowMs\<rparr>;
                o1 = o1\<lparr>so_cancelEffectiveAtMs := Some (cancelEffectiveAt (xo_latency cfg) o1 nowMs)\<rparr>;
                ex = putOrder o1 ex;
                ex = ex\<lparr>ex_pendingCancels := ex_pendingCancels ex @ [wo_orderId o1]\<rparr>
            in ([orderUpdate o1 ''cancel_requested'' nowMs], ex))"

text \<open>The limit intent a replace submits, from the existing order.\<close>

definition replacementIntent :: "replace_intent \<Rightarrow> simulated_order \<Rightarrow> limit_intent" where
  "replacementIntent i existing =
     \<lparr>li_marketTicker = wo_marketTicker existing, li_side = wo_side existing, li_action = wo_action existing,
      li_price = (case ri_newPrice i of None \<Rightarrow> wo_price existing | Some p \<Rightarrow> p),
      li_quantity = (case ri_newQuantity i of None \<Rightarrow> remainingOf existing | Some q \<Rightarrow> q),
      li_clientOrderId = ri_newClientOrderId i, li_timeInForce = None, li_tag = wo_tag existing\<rparr>"

fun submit ::
  "'s exchange_options \<Rightarrow> market_store \<Rightarrow> order_intent \<Rightarrow> int \<Rightarrow> 's exchange \<Rightarrow> order_update list \<times> 's exchange" where
  "submit cfg store (LimitIntent i) nowMs ex = submitNew cfg store (LimitIntent i) (limitRequest i) nowMs ex"
| "submit cfg store (MarketIntent i) nowMs ex = submitNew cfg store (MarketIntent i) (marketRequest i) nowMs ex"
| "submit cfg store (CancelIntent clientOrderId) nowMs ex = requestCancel cfg clientOrderId nowMs ex"
| "submit cfg store (ReplaceIntent i) nowMs ex =
     (case findByClientId (ri_clientOrderId i) ex of
        None \<Rightarrow> ([reject (ri_clientOrderId i) ''unknown order'' nowMs], ex)
      | Some existing \<Rightarrow>
          (let (updates, ex) = requestCancel cfg (ri_clientOrderId i) nowMs ex;
               intent = replacementIntent i existing;
               (more, ex) = submitNew cfg store (LimitIntent intent) (limitRequest intent) nowMs ex
           in (updates @ more, ex)))"

section \<open>Time\<close>

text \<open>The loop over the effective cancels, in request order; the first list is \<open>stillPendingCancel\<close>.\<close>

fun cancelLoop ::
  "dec_lib \<Rightarrow> int \<Rightarrow> string list \<Rightarrow> 's exchange \<Rightarrow> string list \<times> order_update list \<times> 's exchange" where
  "cancelLoop L nowMs [] ex = ([], [], ex)"
| "cancelLoop L nowMs (oid # oids) ex =
     (case js_get (ex_orders ex) oid of
        None \<Rightarrow> cancelLoop L nowMs oids ex
      | Some o1 \<Rightarrow>
          if (case so_cancelEffectiveAtMs o1 of None \<Rightarrow> False | Some t \<Rightarrow> nowMs < t)
          then (let (still, updates, ex) = cancelLoop L nowMs oids ex in (oid # still, updates, ex))
          else if isTerminal (wo_status o1) then cancelLoop L nowMs oids ex
          else
            (let (o1, ex) = retire L o1 StCancelled nowMs ex;
                 (still, updates, ex) = cancelLoop L nowMs oids ex
             in (still, orderUpdate o1 ''cancelled'' nowMs # updates, ex)))"

text \<open>Taker execution: consume displayed levels, best first, until the limit or the quantity is reached.\<close>

fun crossLoop ::
  "'s exchange_options \<Rightarrow> market_book \<Rightarrow> int \<Rightarrow> level_pair list \<Rightarrow> simulated_order \<Rightarrow> 's exchange
     \<Rightarrow> simulated_fill list \<times> simulated_order \<times> 's exchange" where
  "crossLoop cfg view nowMs [] o1 ex = ([], o1, ex)"
| "crossLoop cfg view nowMs ((priceStr, sizeStr) # levels) o1 ex =
     (let remaining = remainingOf o1;
          levelPrice = dl_of_string (xo_dec cfg) priceStr;
          acceptable = (if wo_yesAction o1 = Buy then levelPrice \<le> wo_yesPrice o1 else wo_yesPrice o1 \<le> levelPrice);
          taken = min remaining (dl_of_string (xo_dec cfg) sizeStr)
      in if remaining \<le> 0 then ([], o1, ex)
         else if \<not> acceptable then ([], o1, ex)
         else if taken \<le> 0 then crossLoop cfg view nowMs levels o1 ex
         else
           (let (f, o1, ex) = recordFill cfg o1 taken levelPrice Taker FrCross nowMs view None None ex;
                (fills, o1, ex) = crossLoop cfg view nowMs levels o1 ex
            in (f # fills, o1, ex)))"

definition crossLevels :: "dec_lib \<Rightarrow> simulated_order \<Rightarrow> market_book \<Rightarrow> level_pair list" where
  "crossLevels L o1 view = (if wo_yesAction o1 = Buy then view_yesAskLevels L view else view_yesBidLevels L view)"

definition cross ::
  "'s exchange_options \<Rightarrow> simulated_order \<Rightarrow> market_book \<Rightarrow> int \<Rightarrow> 's exchange
     \<Rightarrow> simulated_fill list \<times> simulated_order \<times> 's exchange" where
  "cross cfg o1 view nowMs ex = crossLoop cfg view nowMs (crossLevels (xo_dec cfg) o1 view) o1 ex"

definition displayedAt :: "dec_lib \<Rightarrow> simulated_order \<Rightarrow> market_book \<Rightarrow> rat" where
  "displayedAt L o1 view =
     (if pl_side (ladderOf L o1) = Yes then yesBidSizeAt L (wo_yesPrice o1) view else yesAskSizeAt L (wo_yesPrice o1) view)"

definition restOrder ::
  "'s exchange_options \<Rightarrow> simulated_order \<Rightarrow> market_book \<Rightarrow> int \<Rightarrow> 's exchange \<Rightarrow> simulated_order \<times> 's exchange" where
  "restOrder cfg o1 view nowMs ex =
     (let L = xo_dec cfg;
          lad = ladderOf L o1;
          displayed = displayedAt L o1 view;
          o1 = o1\<lparr>wo_status := StResting, so_restedAtMs := Some nowMs,
                 so_queue := Some (newQueueState displayed (fm_initialQueueAhead (xo_fillModel cfg) displayed) nowMs)\<rparr>;
          ex = putOrder o1 ex
      in (o1, ex\<lparr>ex_restingByLevel := indexAdd (levelKey (wo_marketTicker o1) (pl_side lad) (pl_price lad)) (wo_orderId o1) (ex_restingByLevel ex),
                 ex_restingByMarket := indexAdd (wo_marketTicker o1) (wo_orderId o1) (ex_restingByMarket ex)\<rparr>))"

definition activate ::
  "'s exchange_options \<Rightarrow> market_store \<Rightarrow> simulated_order \<Rightarrow> int \<Rightarrow> 's exchange
     \<Rightarrow> order_update list \<times> simulated_fill list \<times> 's exchange" where
  "activate cfg store o1 nowMs ex =
     (let L = xo_dec cfg in
      case (case ms_view (wo_marketTicker o1) store of None \<Rightarrow> None | Some b \<Rightarrow> if mb_valid b then Some b else None) of
        None \<Rightarrow>
          (let (o1, ex) = retire L o1 StRejected nowMs ex;
               o1 = o1\<lparr>so_rejectReason := Some ''book_invalid''\<rparr>;
               ex = putOrder o1 ex
           in ([orderUpdate o1 ''rejected'' nowMs], [], ex))
      | Some view \<Rightarrow>
          (let q = view_bbo L view;
               o1 = o1\<lparr>so_arrivalBid := bbo_bid q, so_arrivalAsk := bbo_ask q,
                      so_arrivalDisplayedSize := Some (displayedAt L o1 view)\<rparr>;
               ex = putOrder o1 ex;
               (fills, o1, ex) = cross cfg o1 view nowMs ex
           in if remainingOf o1 \<le> 0
              then (let (o1, ex) = retire L o1 StFilled nowMs ex in ([orderUpdate o1 ''filled'' nowMs], fills, ex))
              else if wo_timeInForce o1 = Ioc
              then (let (o1, ex) = retire L o1 StCancelled nowMs ex in ([orderUpdate o1 ''cancelled'' nowMs], fills, ex))
              else (let (o1, ex) = restOrder cfg o1 view nowMs ex in ([orderUpdate o1 ''resting'' nowMs], fills, ex))))"

fun activateLoop ::
  "'s exchange_options \<Rightarrow> market_store \<Rightarrow> int \<Rightarrow> string list \<Rightarrow> 's exchange
     \<Rightarrow> string list \<times> order_update list \<times> simulated_fill list \<times> 's exchange" where
  "activateLoop cfg store nowMs [] ex = ([], [], [], ex)"
| "activateLoop cfg store nowMs (oid # oids) ex =
     (case js_get (ex_orders ex) oid of
        None \<Rightarrow> activateLoop cfg store nowMs oids ex
      | Some o1 \<Rightarrow>
          if wo_status o1 \<noteq> StPending then activateLoop cfg store nowMs oids ex
          else if nowMs < so_effectiveAtMs o1
          then (let (still, updates, fills, ex) = activateLoop cfg store nowMs oids ex in (oid # still, updates, fills, ex))
          else
            (let (updates1, fills1, ex) = activate cfg store o1 nowMs ex;
                 (still, updates, fills, ex) = activateLoop cfg store nowMs oids ex
             in (still, updates1 @ updates, fills1 @ fills, ex)))"

definition advanceTo ::
  "'s exchange_options \<Rightarrow> market_store \<Rightarrow> int \<Rightarrow> 's exchange \<Rightarrow> order_update list \<times> simulated_fill list \<times> 's exchange" where
  "advanceTo cfg store nowMs ex =
     (let (stillCancels, cancelUpdates, ex) = cancelLoop (xo_dec cfg) nowMs (ex_pendingCancels ex) ex;
          ex = ex\<lparr>ex_pendingCancels := stillCancels\<rparr>
      in if ex_pending ex = [] then (cancelUpdates, [], ex)
         else
           (let (stillPending, updates, fills, ex) = activateLoop cfg store nowMs (ex_pending ex) ex
            in (cancelUpdates @ updates, fills, ex\<lparr>ex_pending := stillPending\<rparr>)))"

section \<open>Passive execution\<close>

definition sizeChangeStep :: "fill_model \<Rightarrow> rat \<Rightarrow> rat \<Rightarrow> int \<Rightarrow> 's exchange \<Rightarrow> string \<Rightarrow> 's exchange" where
  "sizeChangeStep fm pre post atMs ex oid =
     (case js_get (ex_orders ex) oid of
        None \<Rightarrow> ex
      | Some o1 \<Rightarrow>
          (case so_queue o1 of
             None \<Rightarrow> ex
           | Some q \<Rightarrow> putOrder (o1\<lparr>so_queue := Some (fm_onDisplayedSizeChange fm q pre post atMs)\<rparr>) ex))"

definition onBookDelta :: "'s exchange_options \<Rightarrow> base_event \<Rightarrow> delta_body \<Rightarrow> 's exchange \<Rightarrow> 's exchange" where
  "onBookDelta cfg b e ex =
     (if \<not> ed_applied e then ex
      else case (ed_preCount e, ed_postCount e) of
             (Some pre, Some post) \<Rightarrow>
               (let key = levelKey (ed_marketTicker e) (ed_side e) (canonicalPrice (xo_dec cfg) (ed_price e))
                in case js_get (ex_restingByLevel ex) key of
                     None \<Rightarrow> ex
                   | Some oids \<Rightarrow>
                       if oids = [] then ex
                       else foldl (sizeChangeStep (xo_fillModel cfg) pre post (be_receiveTimeMs b)) ex oids)
           | _ \<Rightarrow> ex)"

definition eligibleAction :: "book_side \<Rightarrow> order_action" where
  "eligibleAction takerOutcomeSide = (if takerOutcomeSide = Yes then Sell else Buy)"

definition reachedBy :: "order_action \<Rightarrow> rat \<Rightarrow> simulated_order \<Rightarrow> bool" where
  "reachedBy eligible tradeYesPrice o1 =
     (if eligible = Buy then tradeYesPrice \<le> wo_yesPrice o1 else wo_yesPrice o1 \<le> tradeYesPrice)"

definition priority :: "order_action \<Rightarrow> simulated_order \<Rightarrow> rat \<times> nat" where
  "priority eligible o1 = (if eligible = Buy then - wo_yesPrice o1 else wo_yesPrice o1, so_sequence o1)"

definition candidates :: "order_action \<Rightarrow> rat \<Rightarrow> string list \<Rightarrow> 's exchange \<Rightarrow> simulated_order list" where
  "candidates eligible tradeYesPrice restingHere ex =
     sort_key (priority eligible)
       (filter (reachedBy eligible tradeYesPrice)
         (filter (\<lambda>o1. wo_status o1 = StResting \<and> wo_yesAction o1 = eligible)
           (List.map_filter (js_get (ex_orders ex)) restingHere)))"

fun tradeLoop ::
  "'s exchange_options \<Rightarrow> market_book \<Rightarrow> base_event \<Rightarrow> trade_body \<Rightarrow> rat \<Rightarrow> string list \<Rightarrow> 's exchange
     \<Rightarrow> simulated_fill list \<times> 's exchange" where
  "tradeLoop cfg view b e available [] ex = ([], ex)"
| "tradeLoop cfg view b e available (oid # oids) ex =
     (if available \<le> 0 then ([], ex)
      else case js_get (ex_orders ex) oid of
             None \<Rightarrow> tradeLoop cfg view b e available oids ex
           | Some o1 \<Rightarrow>
               (case so_queue o1 of
                  None \<Rightarrow> tradeLoop cfg view b e available oids ex
                | Some queue \<Rightarrow>
                    (let remaining = remainingOf o1 in
                     if remaining \<le> 0 then tradeLoop cfg view b e available oids ex
                     else
                       let through = (wo_yesPrice o1 \<noteq> et_yesPrice e);
                           queueAheadBefore = qs_queueAhead queue;
                           (outcome, queue) = fm_onTrade (xo_fillModel cfg) queue available remaining through (be_receiveTimeMs b);
                           o1 = o1\<lparr>so_queue := Some queue\<rparr>;
                           ex = putOrder o1 ex
                       in if tf_filled outcome \<le> 0 then tradeLoop cfg view b e available oids ex
                          else
                            let (f, o1, ex) = recordFill cfg o1 (tf_filled outcome) (wo_yesPrice o1) Maker (tf_reason outcome)
                                  (be_receiveTimeMs b) view (Some (et_tradeId e)) (Some queueAheadBefore) ex;
                                ex = (if remainingOf o1 \<le> 0 then snd (retire (xo_dec cfg) o1 StFilled (be_receiveTimeMs b) ex) else ex);
                                (fills, ex) = tradeLoop cfg view b e (available - tf_filled outcome) oids ex
                            in (f # fills, ex))))"

definition onTrade ::
  "'s exchange_options \<Rightarrow> market_store \<Rightarrow> base_event \<Rightarrow> trade_body \<Rightarrow> 's exchange \<Rightarrow> simulated_fill list \<times> 's exchange" where
  "onTrade cfg store b e ex =
     (case et_takerOutcomeSide e of
        None \<Rightarrow> ([], ex)
      | Some takerSide \<Rightarrow>
          if et_marketTicker e \<in> set (ex_frozen ex) then ([], ex)
          else (case ms_view (et_marketTicker e) store of
                  None \<Rightarrow> ([], ex)
                | Some view \<Rightarrow>
                    if \<not> mb_valid view then ([], ex)
                    else if et_count e \<le> 0 then ([], ex)
                    else
                      (case js_get (ex_restingByMarket ex) (et_marketTicker e) of
                         None \<Rightarrow> ([], ex)
                       | Some restingHere \<Rightarrow>
                           if restingHere = [] then ([], ex)
                           else tradeLoop cfg view b e (et_count e)
                                  (map wo_orderId (candidates (eligibleAction takerSide) (et_yesPrice e) restingHere ex)) ex)))"

section \<open>Capture gaps, queries and the end of the run\<close>

definition gapOrderStep ::
  "'s exchange_options \<Rightarrow> string list \<Rightarrow> int \<Rightarrow> order_update list \<times> 's exchange \<Rightarrow> string \<Rightarrow> order_update list \<times> 's exchange" where
  "gapOrderStep cfg affected nowMs acc oid =
     (let (updates, ex) = acc
      in case js_get (ex_orders ex) oid of
           None \<Rightarrow> (updates, ex)
         | Some o1 \<Rightarrow>
             if wo_marketTicker o1 \<notin> set affected then (updates, ex)
             else if wo_status o1 \<noteq> StResting \<and> wo_status o1 \<noteq> StPending then (updates, ex)
             else if xo_gapOrderPolicy cfg = GpCancelAll
             then (let (o1, ex) = retire (xo_dec cfg) o1 StCancelled nowMs ex
                   in (updates @ [orderUpdate o1 ''cancelled'' nowMs], ex))
             else (updates, ex))"

definition onCaptureGap ::
  "'s exchange_options \<Rightarrow> string list \<Rightarrow> int \<Rightarrow> 's exchange \<Rightarrow> order_update list \<times> 's exchange" where
  "onCaptureGap cfg marketTickers nowMs ex =
     (let ex = ex\<lparr>ex_frozen := foldl (\<lambda>fr t. set_add t fr) (ex_frozen ex) marketTickers\<rparr>
      in if xo_gapOrderPolicy cfg = GpKeepResting then ([], ex)
         else foldl (gapOrderStep cfg marketTickers nowMs) ([], ex) (js_keys (ex_orders ex)))"

definition onCaptureResume :: "string \<Rightarrow> 's exchange \<Rightarrow> 's exchange" where
  "onCaptureResume marketTicker ex = ex\<lparr>ex_frozen := set_del marketTicker (ex_frozen ex)\<rparr>"

definition allOrders :: "'s exchange \<Rightarrow> simulated_order list" where
  "allOrders ex = sort_key so_sequence (map snd (ex_orders ex))"

definition openOrders :: "string option \<Rightarrow> 's exchange \<Rightarrow> simulated_order list" where
  "openOrders marketTicker ex =
     (let markets = (case marketTicker of None \<Rightarrow> js_keys (ex_restingByMarket ex) | Some m \<Rightarrow> [m]);
          resting = concat (map (\<lambda>m. filter (\<lambda>o1. wo_status o1 = StResting)
             (List.map_filter (js_get (ex_orders ex)) (case js_get (ex_restingByMarket ex) m of None \<Rightarrow> [] | Some oids \<Rightarrow> oids))) markets);
          waiting = filter (\<lambda>o1. wo_status o1 = StPending \<and> (case marketTicker of None \<Rightarrow> True | Some m \<Rightarrow> wo_marketTicker o1 = m))
             (List.map_filter (js_get (ex_orders ex)) (ex_pending ex))
      in sort_key so_sequence (resting @ waiting))"

definition finalizeStep ::
  "dec_lib \<Rightarrow> int \<Rightarrow> order_update list \<times> 's exchange \<Rightarrow> simulated_order \<Rightarrow> order_update list \<times> 's exchange" where
  "finalizeStep L atMs acc o1 =
     (let (updates, ex) = acc; (o1, ex) = retire L o1 StCancelled atMs ex
      in (updates @ [orderUpdate o1 ''cancelled'' atMs], ex))"

definition finalize :: "'s exchange_options \<Rightarrow> int \<Rightarrow> 's exchange \<Rightarrow> order_update list \<times> 's exchange" where
  "finalize cfg atMs ex =
     (let (updates, ex) = foldl (finalizeStep (xo_dec cfg) atMs) ([], ex) (openOrders None ex)
      in (updates, ex\<lparr>ex_pending := [], ex_pendingCancels := []\<rparr>))"

text \<open>The adapter submits to its exchange and to the counterfactual ones, and reports the first.\<close>

fun submitToAll ::
  "('s exchange_options \<times> 's exchange) list \<Rightarrow> market_store \<Rightarrow> order_intent \<Rightarrow> int \<Rightarrow> 's exchange list" where
  "submitToAll others store intent nowMs = map (\<lambda>(cfg, ex). snd (submit cfg store intent nowMs ex)) others"

definition adapter_submit ::
  "'s exchange_options \<Rightarrow> ('s exchange_options \<times> 's exchange) list \<Rightarrow> market_store \<Rightarrow> order_intent \<Rightarrow> int \<Rightarrow> 's exchange
     \<Rightarrow> order_update list \<times> 's exchange \<times> 's exchange list" where
  "adapter_submit cfg others store intent nowMs ex =
     (let (updates, ex) = submit cfg store intent nowMs ex
      in (updates, ex, submitToAll others store intent nowMs))"

end
