(* ===== verification/ExchangeRun.thy ===== *)
theory ExchangeRun
  imports Exchange
begin

text \<open>
  What holds of every simulated exchange the code can reach: the accounting of fills against their
  orders, the order of times, and the life of an order. \<open>acct T X ex\<close> is the invariant at time \<open>T\<close>;
  the orders in \<open>X\<close> are in the middle of an operation.
\<close>

section \<open>The invariant\<close>

definition orderOf :: "'s exchange \<Rightarrow> string \<Rightarrow> simulated_order option" where
  "orderOf ex oid = js_get (ex_orders ex) oid"

lemma orderOf_get [simp]: "js_get (ex_orders ex) oid = orderOf ex oid"
  by (simp add: orderOf_def)

lemma orderOf_cong: "ex_orders ex' = ex_orders ex \<Longrightarrow> orderOf ex' = orderOf ex"
  by (rule ext) (simp add: orderOf_def del: orderOf_get)

definition crossable :: "simulated_order \<Rightarrow> rat \<Rightarrow> bool" where
  "crossable o1 p = (if wo_yesAction o1 = Buy then p \<le> wo_yesPrice o1 else wo_yesPrice o1 \<le> p)"

text \<open>The fields of an order that are fixed at submission.\<close>

definition same_order :: "simulated_order \<Rightarrow> simulated_order \<Rightarrow> bool" where
  "same_order o1 o2 \<longleftrightarrow> wo_orderId o2 = wo_orderId o1 \<and> wo_clientOrderId o2 = wo_clientOrderId o1
     \<and> wo_marketTicker o2 = wo_marketTicker o1 \<and> wo_side o2 = wo_side o1 \<and> wo_action o2 = wo_action o1
     \<and> wo_price o2 = wo_price o1 \<and> wo_yesPrice o2 = wo_yesPrice o1 \<and> wo_yesAction o2 = wo_yesAction o1
     \<and> wo_quantity o2 = wo_quantity o1 \<and> so_sequence o2 = so_sequence o1
     \<and> so_submittedAtMs o2 = so_submittedAtMs o1 \<and> so_effectiveAtMs o2 = so_effectiveAtMs o1"

definition order_step :: "simulated_order \<Rightarrow> simulated_order \<Rightarrow> bool" where
  "order_step o1 o2 \<longleftrightarrow> same_order o1 o2 \<and> wo_filledQuantity o1 \<le> wo_filledQuantity o2
     \<and> (isTerminal (wo_status o1) \<longrightarrow> o2 = o1) \<and> (wo_status o2 = StPending \<longrightarrow> wo_status o1 = StPending)"

definition order_ok :: "int \<Rightarrow> simulated_order \<Rightarrow> bool" where
  "order_ok T o1 \<longleftrightarrow> 0 < wo_quantity o1 \<and> 0 \<le> wo_filledQuantity o1 \<and> wo_filledQuantity o1 \<le> wo_quantity o1
     \<and> so_submittedAtMs o1 \<le> so_effectiveAtMs o1
     \<and> 0 \<le> wo_price o1 \<and> wo_price o1 \<le> 1
     \<and> wo_yesPrice o1 = yesEquivalentPrice (wo_side o1) (wo_action o1) (wo_price o1)
     \<and> wo_yesAction o1 = yesAction (wo_side o1) (wo_action o1)
     \<and> (case so_queue o1 of None \<Rightarrow> wo_status o1 \<noteq> StResting
         | Some q \<Rightarrow> queue_ok q \<and> wo_status o1 = StResting \<and> so_effectiveAtMs o1 \<le> T)
     \<and> (wo_status o1 = StFilled \<longrightarrow> wo_filledQuantity o1 = wo_quantity o1)"

definition order_tight :: "simulated_order \<Rightarrow> bool" where
  "order_tight o1 \<longleftrightarrow> (wo_status o1 = StPending \<longrightarrow> wo_filledQuantity o1 = 0)
     \<and> (wo_status o1 = StResting \<longrightarrow> wo_filledQuantity o1 < wo_quantity o1)"

text \<open>A fill of an order: never before the order could arrive, never through its limit.\<close>

definition fill_fits :: "simulated_fill \<Rightarrow> simulated_order \<Rightarrow> bool" where
  "fill_fits f o1 \<longleftrightarrow> fl_marketTicker f = wo_marketTicker o1 \<and> fl_clientOrderId f = wo_clientOrderId o1
     \<and> fl_side f = wo_side o1 \<and> fl_action f = wo_action o1 \<and> fl_yesAction f = wo_yesAction o1
     \<and> fl_submittedAtMs f = so_submittedAtMs o1 \<and> fl_arrivedAtMs f = so_effectiveAtMs o1
     \<and> fl_submittedAtMs f \<le> fl_arrivedAtMs f \<and> fl_arrivedAtMs f \<le> fl_filledAtMs f
     \<and> 0 < fl_quantity f \<and> crossable o1 (fl_yesPrice f)
     \<and> fl_price f = (if wo_side o1 = Yes then fl_yesPrice f else 1 - fl_yesPrice f)
     \<and> (fl_liquidity f = Maker \<longrightarrow> fl_price f = wo_price o1)"

definition filledFor :: "string \<Rightarrow> simulated_fill list \<Rightarrow> rat" where
  "filledFor oid fills = (\<Sum>f\<leftarrow>fills. if fl_orderId f = oid then fl_quantity f else 0)"

definition entry_ok :: "int \<Rightarrow> bool \<Rightarrow> string \<Rightarrow> simulated_order \<Rightarrow> 's exchange \<Rightarrow> bool" where
  "entry_ok T busy oid o1 ex \<longleftrightarrow> wo_orderId o1 = oid \<and> oid = orderIdOf (so_sequence o1) \<and> so_sequence o1 \<le> ex_orderSeq ex
     \<and> js_get (ex_byClientId ex) (wo_clientOrderId o1) = Some oid
     \<and> order_ok T o1 \<and> (\<not> busy \<longrightarrow> order_tight o1) \<and> wo_filledQuantity o1 = filledFor oid (ex_fills ex)"

definition acct :: "int \<Rightarrow> string set \<Rightarrow> 's exchange \<Rightarrow> bool" where
  "acct T X ex \<longleftrightarrow> js_map_ok (ex_orders ex)
     \<and> (\<forall>oid o1. orderOf ex oid = Some o1 \<longrightarrow> entry_ok T (oid \<in> X) oid o1 ex)
     \<and> (\<forall>f \<in> set (ex_fills ex). \<exists>o1. orderOf ex (fl_orderId f) = Some o1 \<and> fill_fits f o1)
     \<and> (\<forall>c oid. js_get (ex_byClientId ex) c = Some oid \<longrightarrow>
          (\<exists>o1. orderOf ex oid = Some o1 \<and> wo_clientOrderId o1 = c))"

definition evolves :: "'s exchange \<Rightarrow> 's exchange \<Rightarrow> bool" where
  "evolves ex ex' \<longleftrightarrow> (\<forall>oid o1. orderOf ex oid = Some o1 \<longrightarrow>
     (\<exists>o2. orderOf ex' oid = Some o2 \<and> order_step o1 o2))"

section \<open>Facts about the parts\<close>

lemma same_order_refl [simp]: "same_order o1 o1"
  by (simp add: same_order_def)

lemma same_order_trans: "same_order o1 o2 \<Longrightarrow> same_order o2 o3 \<Longrightarrow> same_order o1 o3"
  by (simp add: same_order_def)

lemma order_step_refl [simp]: "order_step o1 o1"
  by (simp add: order_step_def)

lemma order_step_trans: "order_step o1 o2 \<Longrightarrow> order_step o2 o3 \<Longrightarrow> order_step o1 o3"
  unfolding order_step_def using same_order_trans by fastforce

lemma evolves_refl [simp]: "evolves ex ex"
  by (auto simp: evolves_def)

lemma evolves_trans: "evolves ex ex' \<Longrightarrow> evolves ex' ex'' \<Longrightarrow> evolves ex ex''"
  unfolding evolves_def using order_step_trans by meson

lemma evolves_one:
  assumes "orderOf ex' = (orderOf ex)(oid \<mapsto> o2)"
    "orderOf ex oid = Some o1" "order_step o1 o2"
  shows "evolves ex ex'"
  unfolding evolves_def
proof (intro allI impI)
  fix k u assume u: "orderOf ex k = Some u"
  show "\<exists>v. orderOf ex' k = Some v \<and> order_step u v"
  proof (cases "k = oid")
    case True
    then show ?thesis using assms u by simp
  next
    case False
    then have "orderOf ex' k = Some u" using assms(1) u by simp
    then show ?thesis by auto
  qed
qed

lemma evolves_cong: "ex_orders ex2 = ex_orders ex1 \<Longrightarrow> evolves ex ex1 \<Longrightarrow> evolves ex ex2"
  by (simp add: evolves_def orderOf_cong [of ex2 ex1])

lemma fill_fits_same: "same_order o1 o2 \<Longrightarrow> fill_fits f o2 = fill_fits f o1"
  by (simp only: fill_fits_def same_order_def crossable_def)

lemma filledFor_snoc: "filledFor oid (fs @ [f]) = filledFor oid fs + (if fl_orderId f = oid then fl_quantity f else 0)"
  by (simp add: filledFor_def)

lemma order_ok_mono: "order_ok T o1 \<Longrightarrow> T \<le> T' \<Longrightarrow> order_ok T' o1"
  by (auto simp: order_ok_def split: option.splits)

lemma entry_ok_mono: "entry_ok T b oid o1 ex \<Longrightarrow> T \<le> T' \<Longrightarrow> (b \<Longrightarrow> b') \<Longrightarrow> entry_ok T' b' oid o1 ex"
  by (auto simp: entry_ok_def intro: order_ok_mono)

lemma acct_mono:
  assumes a: "acct T X ex" and T: "T \<le> T'" and X: "X \<subseteq> X'"
  shows "acct T' X' ex"
proof -
  have "entry_ok T' (oid \<in> X') oid o1 ex" if "orderOf ex oid = Some o1" for oid o1
  proof (rule entry_ok_mono [OF _ T])
    show "entry_ok T (oid \<in> X) oid o1 ex" using a that unfolding acct_def by blast
  qed (use X in blast)
  then show ?thesis using a unfolding acct_def by blast
qed

lemma acct_client:
  "acct T X ex \<Longrightarrow> js_get (ex_byClientId ex) c = Some oid \<Longrightarrow> \<exists>o1. orderOf ex oid = Some o1 \<and> wo_clientOrderId o1 = c"
  unfolding acct_def by blast

lemma acct_fill: "acct T X ex \<Longrightarrow> f \<in> set (ex_fills ex) \<Longrightarrow> \<exists>o1. orderOf ex (fl_orderId f) = Some o1 \<and> fill_fits f o1"
  unfolding acct_def by blast

lemma acct_cong:
  "ex_orders ex' = ex_orders ex \<Longrightarrow> ex_fills ex' = ex_fills ex \<Longrightarrow> ex_byClientId ex' = ex_byClientId ex \<Longrightarrow>
   ex_orderSeq ex' = ex_orderSeq ex \<Longrightarrow> acct T X ex' = acct T X ex"
  by (simp add: acct_def entry_ok_def orderOf_cong [of ex' ex])

lemma acct_entry: "acct T X ex \<Longrightarrow> orderOf ex oid = Some o1 \<Longrightarrow> entry_ok T (oid \<in> X) oid o1 ex"
  by (simp add: acct_def)

lemma acct_id: "acct T X ex \<Longrightarrow> orderOf ex oid = Some o1 \<Longrightarrow> wo_orderId o1 = oid"
  by (auto dest: acct_entry simp: entry_ok_def)

lemma acct_order: "acct T X ex \<Longrightarrow> orderOf ex oid = Some o1 \<Longrightarrow> order_ok T o1"
  by (auto dest: acct_entry simp: entry_ok_def)

lemma get_putOrder [simp]: "orderOf (putOrder o1 ex) = (orderOf ex)(wo_orderId o1 \<mapsto> o1)"
  by (rule ext) (simp add: orderOf_def putOrder_def del: orderOf_get)

lemma putOrder_fields [simp]:
  "ex_fills (putOrder o1 ex) = ex_fills ex" "ex_byClientId (putOrder o1 ex) = ex_byClientId ex"
  "ex_orderSeq (putOrder o1 ex) = ex_orderSeq ex" "ex_pending (putOrder o1 ex) = ex_pending ex"
  "ex_pendingCancels (putOrder o1 ex) = ex_pendingCancels ex" "ex_frozen (putOrder o1 ex) = ex_frozen ex"
  "ex_restingByLevel (putOrder o1 ex) = ex_restingByLevel ex" "ex_restingByMarket (putOrder o1 ex) = ex_restingByMarket ex"
  by (simp_all add: putOrder_def)

lemma entry_ok_put [simp]: "entry_ok T b oid o1 (putOrder o2 ex) = entry_ok T b oid o1 ex"
  by (simp add: entry_ok_def)

lemma js_map_ok_put: "js_map_ok (ex_orders ex) \<Longrightarrow> js_map_ok (ex_orders (putOrder o1 ex))"
  by (simp add: putOrder_def)

text \<open>Writing an order back: the only way the code changes one.\<close>

lemma acct_put:
  assumes a: "acct T X ex" and g: "orderOf ex (wo_orderId o2) = Some o1" and s: "same_order o1 o2"
    and fq: "wo_filledQuantity o2 = wo_filledQuantity o1" and ok: "order_ok T o2"
    and tight: "wo_orderId o2 \<in> X' \<or> order_tight o2" and X: "X - {wo_orderId o2} \<subseteq> X'"
  shows "acct T X' (putOrder o2 ex)"
proof -
  have e1: "entry_ok T (wo_orderId o2 \<in> X) (wo_orderId o2) o1 ex" by (rule acct_entry [OF a g])
  have e2: "entry_ok T (wo_orderId o2 \<in> X') (wo_orderId o2) o2 ex"
    using e1 s fq ok tight by (auto simp: entry_ok_def same_order_def)
  have rest: "entry_ok T (k \<in> X') k u ex" if "orderOf ex k = Some u" "k \<noteq> wo_orderId o2" for k u
    using acct_entry [OF a that(1)] X that(2) by (auto elim!: entry_ok_mono)
  have fills: "\<exists>u. orderOf (putOrder o2 ex) (fl_orderId f) = Some u \<and> fill_fits f u"
    if f: "f \<in> set (ex_fills ex)" for f
  proof -
    obtain u where u: "orderOf ex (fl_orderId f) = Some u" "fill_fits f u" using acct_fill [OF a f] by blast
    then show ?thesis using g fill_fits_same [OF s, of f] by (cases "fl_orderId f = wo_orderId o2") auto
  qed
  have ids: "\<exists>u. orderOf (putOrder o2 ex) oid = Some u \<and> wo_clientOrderId u = c"
    if c: "js_get (ex_byClientId ex) c = Some oid" for c oid
  proof -
    obtain u where u: "orderOf ex oid = Some u" "wo_clientOrderId u = c" using acct_client [OF a c] by blast
    then show ?thesis using g s by (cases "oid = wo_orderId o2") (auto simp: same_order_def)
  qed
  show ?thesis unfolding acct_def
  proof (intro conjI allI impI ballI)
    show "js_map_ok (ex_orders (putOrder o2 ex))" using a by (simp add: acct_def js_map_ok_put)
    show "entry_ok T (k \<in> X') k u (putOrder o2 ex)" if "orderOf (putOrder o2 ex) k = Some u" for k u
      using that e2 rest by (cases "k = wo_orderId o2") auto
  qed (use fills ids in auto)
qed

text \<open>What the operations on one order leave alone.\<close>

definition same_frame :: "'s exchange \<Rightarrow> 's exchange \<Rightarrow> bool" where
  "same_frame ex ex' \<longleftrightarrow> ex_byClientId ex' = ex_byClientId ex \<and> ex_orderSeq ex' = ex_orderSeq ex
     \<and> ex_pending ex' = ex_pending ex \<and> ex_pendingCancels ex' = ex_pendingCancels ex \<and> ex_frozen ex' = ex_frozen ex"

lemma same_frame_refl [simp]: "same_frame ex ex"
  by (simp add: same_frame_def)

lemma same_frame_trans: "same_frame ex ex' \<Longrightarrow> same_frame ex' ex'' \<Longrightarrow> same_frame ex ex''"
  by (simp add: same_frame_def)

lemma same_frame_put [simp]: "same_frame ex (putOrder o1 ex') = same_frame ex ex'"
  by (simp add: same_frame_def)

section \<open>The indexes\<close>

text \<open>
  An index of the resting orders: each of its sets is exactly the resting orders with that key. \<open>key\<close> is the
  market, or the level an order rests on.
\<close>

definition levelOf :: "dec_lib \<Rightarrow> simulated_order \<Rightarrow> string" where
  "levelOf L o1 = levelKey (wo_marketTicker o1) (pl_side (ladderOf L o1)) (pl_price (ladderOf L o1))"

definition indexed :: "(simulated_order \<Rightarrow> string) \<Rightarrow> (string, string list) jsmap \<Rightarrow> (string \<Rightarrow> simulated_order option) \<Rightarrow> bool" where
  "indexed key index get \<longleftrightarrow> js_map_ok index
     \<and> (\<forall>k ids. js_get index k = Some ids \<longrightarrow> distinct ids)
     \<and> (\<forall>k ids oid. js_get index k = Some ids \<longrightarrow> oid \<in> set ids \<longrightarrow>
          (\<exists>o1. get oid = Some o1 \<and> wo_status o1 = StResting \<and> key o1 = k))
     \<and> (\<forall>oid o1. get oid = Some o1 \<longrightarrow> wo_status o1 = StResting \<longrightarrow>
          (\<exists>ids. js_get index (key o1) = Some ids \<and> oid \<in> set ids))"

definition indexes_ok :: "dec_lib \<Rightarrow> 's exchange \<Rightarrow> bool" where
  "indexes_ok L ex \<longleftrightarrow> indexed (levelOf L) (ex_restingByLevel ex) (orderOf ex)
     \<and> indexed wo_marketTicker (ex_restingByMarket ex) (orderOf ex)"

lemma indexed_entry:
  "indexed key index get \<Longrightarrow> js_get index k = Some ids \<Longrightarrow> oid \<in> set ids \<Longrightarrow>
     \<exists>o1. get oid = Some o1 \<and> wo_status o1 = StResting \<and> key o1 = k"
  unfolding indexed_def by blast

lemma indexed_resting:
  "indexed key index get \<Longrightarrow> get oid = Some o1 \<Longrightarrow> wo_status o1 = StResting \<Longrightarrow>
     \<exists>ids. js_get index (key o1) = Some ids \<and> oid \<in> set ids"
  unfolding indexed_def by blast

lemma indexed_upd:
  assumes i: "indexed key index get" and i': "js_map_ok index'"
    and entry: "\<And>k ids'. js_get index' k = Some ids' \<Longrightarrow> distinct ids' \<and>
        (\<forall>j \<in> set ids'. j \<noteq> oid \<longrightarrow> (\<exists>ids. js_get index k = Some ids \<and> j \<in> set ids)) \<and>
        (oid \<in> set ids' \<longrightarrow> wo_status o2 = StResting \<and> key o2 = k)"
    and keep: "\<And>k ids j. js_get index k = Some ids \<Longrightarrow> j \<in> set ids \<Longrightarrow> j \<noteq> oid \<Longrightarrow>
        \<exists>ids'. js_get index' k = Some ids' \<and> j \<in> set ids'"
    and new: "wo_status o2 = StResting \<Longrightarrow> \<exists>ids'. js_get index' (key o2) = Some ids' \<and> oid \<in> set ids'"
  shows "indexed key index' (get(oid \<mapsto> o2))"
proof -
  have "\<exists>o1. (get(oid \<mapsto> o2)) j = Some o1 \<and> wo_status o1 = StResting \<and> key o1 = k"
    if "js_get index' k = Some ids'" "j \<in> set ids'" for k ids' j
    using entry [OF that(1)] that(2) indexed_entry [OF i, of k _ j] by (cases "j = oid") auto
  moreover have "\<exists>ids'. js_get index' (key o1) = Some ids' \<and> j \<in> set ids'"
    if "(get(oid \<mapsto> o2)) j = Some o1" "wo_status o1 = StResting" for j o1
    using that new indexed_resting [OF i, of j o1] keep by (cases "j = oid") auto
  ultimately show ?thesis unfolding indexed_def using i' entry by blast
qed

lemma indexed_distinct: "indexed key index get \<Longrightarrow> js_get index k = Some ids \<Longrightarrow> distinct ids"
  unfolding indexed_def by blast

lemma indexed_same:
  assumes i: "indexed key index get" and g: "get oid = Some o1" and k: "key o2 = key o1"
    and st: "(wo_status o2 = StResting) = (wo_status o1 = StResting)"
  shows "indexed key index (get(oid \<mapsto> o2))"
proof (rule indexed_upd [OF i])
  show "js_map_ok index" using i by (simp add: indexed_def)
  show "distinct ids' \<and> (\<forall>j \<in> set ids'. j \<noteq> oid \<longrightarrow> (\<exists>ids. js_get index k = Some ids \<and> j \<in> set ids)) \<and>
        (oid \<in> set ids' \<longrightarrow> wo_status o2 = StResting \<and> key o2 = k)" if "js_get index k = Some ids'" for k ids'
    using that indexed_distinct [OF i that] indexed_entry [OF i that, of oid] g k st by auto
qed (use indexed_resting [OF i g] k st in auto)

lemma indexed_fresh:
  assumes i: "indexed key index get" and g: "get oid = None" and st: "wo_status o2 \<noteq> StResting"
  shows "indexed key index (get(oid \<mapsto> o2))"
proof (rule indexed_upd [OF i])
  show "js_map_ok index" using i by (simp add: indexed_def)
  show "distinct ids' \<and> (\<forall>j \<in> set ids'. j \<noteq> oid \<longrightarrow> (\<exists>ids. js_get index k = Some ids \<and> j \<in> set ids)) \<and>
        (oid \<in> set ids' \<longrightarrow> wo_status o2 = StResting \<and> key o2 = k)" if "js_get index k = Some ids'" for k ids'
    using that indexed_distinct [OF i that] indexed_entry [OF i that, of oid] g by auto
qed (use st in auto)

lemma get_indexDelete: "js_get (indexDelete key oid index) k =
    (if k = key then map_option (set_del oid) (js_get index k) else js_get index k)"
  by (simp add: indexDelete_def split: option.splits)

lemma get_indexAdd: "js_get (indexAdd key oid index) k =
    (if k = key then Some (set_add oid (case js_get index k of None \<Rightarrow> [] | Some ids \<Rightarrow> ids)) else js_get index k)"
  by (simp add: indexAdd_def Let_def)

lemma map_ok_indexDelete: "js_map_ok index \<Longrightarrow> js_map_ok (indexDelete key oid index)"
  by (simp add: indexDelete_def js_map_ok_set split: option.splits)

lemma map_ok_indexAdd: "js_map_ok index \<Longrightarrow> js_map_ok (indexAdd key oid index)"
  by (simp add: indexAdd_def Let_def js_map_ok_set)

lemma indexed_delete:
  assumes i: "indexed key index get" and g: "get oid = Some o1" and k: "key o2 = key o1" and st: "wo_status o2 \<noteq> StResting"
  shows "indexed key (indexDelete (key o1) oid index) (get(oid \<mapsto> o2))"
proof (rule indexed_upd [OF i])
  show "js_map_ok (indexDelete (key o1) oid index)" using i by (simp add: indexed_def map_ok_indexDelete)
  show "distinct ids' \<and> (\<forall>j \<in> set ids'. j \<noteq> oid \<longrightarrow> (\<exists>ids. js_get index k = Some ids \<and> j \<in> set ids)) \<and>
        (oid \<in> set ids' \<longrightarrow> wo_status o2 = StResting \<and> key o2 = k)"
    if "js_get (indexDelete (key o1) oid index) k = Some ids'" for k ids'
  proof -
    obtain ids where ids: "js_get index k = Some ids" and ids': "ids' = (if k = key o1 then set_del oid ids else ids)"
      using \<open>js_get (indexDelete (key o1) oid index) k = Some ids'\<close> by (auto simp: get_indexDelete split: if_splits)
    then show ?thesis using indexed_distinct [OF i ids] indexed_entry [OF i ids, of oid] g by auto
  qed
  show "\<exists>ids'. js_get (indexDelete (key o1) oid index) k = Some ids' \<and> j \<in> set ids'"
    if "js_get index k = Some ids" "j \<in> set ids" "j \<noteq> oid" for k ids j
    using that by (auto simp: get_indexDelete)
qed (use st in auto)

lemma indexed_add:
  assumes i: "indexed key index get" and g: "get oid = Some o1" "wo_status o1 \<noteq> StResting" and st: "wo_status o2 = StResting"
  shows "indexed key (indexAdd (key o2) oid index) (get(oid \<mapsto> o2))"
proof (rule indexed_upd [OF i])
  show "js_map_ok (indexAdd (key o2) oid index)" using i by (simp add: indexed_def map_ok_indexAdd)
  have no: "oid \<notin> set ids" if "js_get index k = Some ids" for k ids
    using indexed_entry [OF i that, of oid] g by (metis option.inject)
  show "distinct ids' \<and> (\<forall>j \<in> set ids'. j \<noteq> oid \<longrightarrow> (\<exists>ids. js_get index k = Some ids \<and> j \<in> set ids)) \<and>
        (oid \<in> set ids' \<longrightarrow> wo_status o2 = StResting \<and> key o2 = k)"
    if e: "js_get (indexAdd (key o2) oid index) k = Some ids'" for k ids'
  proof (cases "k = key o2")
    case True
    define ids where "ids = (case js_get index k of None \<Rightarrow> [] | Some ids \<Rightarrow> ids)"
    have ids': "ids' = set_add oid ids" using e True by (simp add: get_indexAdd ids_def)
    have d: "distinct ids" using indexed_distinct [OF i, of k] unfolding ids_def by (cases "js_get index k") simp_all
    have old: "\<exists>ids. js_get index k = Some ids \<and> j \<in> set ids" if "j \<in> set ids" for j
      using that unfolding ids_def by (cases "js_get index k") simp_all
    show ?thesis unfolding ids' set_set_add distinct_set_add using d old st True by blast
  next
    case False
    then have g': "js_get index k = Some ids'" using e by (simp add: get_indexAdd)
    then show ?thesis using no [OF g'] indexed_distinct [OF i g'] by auto
  qed
  show "\<exists>ids'. js_get (indexAdd (key o2) oid index) k = Some ids' \<and> j \<in> set ids'"
    if "js_get index k = Some ids" "j \<in> set ids" "j \<noteq> oid" for k ids j
    using that by (cases "k = key o2") (simp_all add: get_indexAdd)
  show "\<exists>ids'. js_get (indexAdd (key o2) oid index) (key o2) = Some ids' \<and> oid \<in> set ids'" by (simp add: get_indexAdd)
qed

definition keeps_indexes :: "dec_lib \<Rightarrow> 's exchange \<Rightarrow> 's exchange \<Rightarrow> bool" where
  "keeps_indexes L ex ex2 \<longleftrightarrow> (indexes_ok L ex \<longrightarrow> indexes_ok L ex2)"

lemma keeps_refl [simp]: "keeps_indexes L ex ex"
  by (simp add: keeps_indexes_def)

lemma keeps_trans: "keeps_indexes L ex ex1 \<Longrightarrow> keeps_indexes L ex1 ex2 \<Longrightarrow> keeps_indexes L ex ex2"
  by (simp add: keeps_indexes_def)

lemma levelOf_same: "same_order o1 o2 \<Longrightarrow> levelOf L o2 = levelOf L o1"
  by (simp add: levelOf_def ladderOf_def same_order_def)

definition same_indexes :: "'s exchange \<Rightarrow> 's exchange \<Rightarrow> bool" where
  "same_indexes ex ex2 \<longleftrightarrow> ex_restingByLevel ex2 = ex_restingByLevel ex \<and> ex_restingByMarket ex2 = ex_restingByMarket ex"

lemma same_indexes_refl [simp]: "same_indexes ex ex"
  by (simp add: same_indexes_def)

lemma same_indexes_put [simp]: "same_indexes ex (putOrder o1 ex2) = same_indexes ex ex2"
  by (simp add: same_indexes_def)

lemma same_indexes_trans: "same_indexes ex ex1 \<Longrightarrow> same_indexes ex1 ex2 \<Longrightarrow> same_indexes ex ex2"
  by (simp add: same_indexes_def)

lemma keeps_one:
  assumes "same_indexes ex ex2" "orderOf ex2 = (orderOf ex)(oid \<mapsto> o2)" "orderOf ex oid = Some o1" "same_order o1 o2"
    "(wo_status o2 = StResting) = (wo_status o1 = StResting)"
  shows "keeps_indexes L ex ex2"
  using assms unfolding keeps_indexes_def indexes_ok_def same_indexes_def
  by (auto intro!: indexed_same levelOf_same simp: same_order_def)

lemma keeps_cong:
  "ex_orders ex' = ex_orders ex2 \<Longrightarrow> same_indexes ex2 ex' \<Longrightarrow> keeps_indexes L ex ex2 \<Longrightarrow> keeps_indexes L ex ex'"
  by (simp add: keeps_indexes_def indexes_ok_def same_indexes_def orderOf_cong [of ex' ex2])

section \<open>Retiring an order\<close>

lemma retire_spec:
  assumes "retire L o1 st t ex = (o2, ex2)"
  shows "o2 = o1\<lparr>wo_status := st, so_terminalAtMs := Some t, so_queue := None\<rparr>"
    "orderOf ex2 = (orderOf ex)(wo_orderId o1 \<mapsto> o2)" "ex_fills ex2 = ex_fills ex" "same_frame ex ex2"
    "ex_orders ex2 = ex_orders (putOrder o2 ex)"
proof -
  show o2: "o2 = o1\<lparr>wo_status := st, so_terminalAtMs := Some t, so_queue := None\<rparr>"
    and orders: "ex_orders ex2 = ex_orders (putOrder o2 ex)"
    and "ex_fills ex2 = ex_fills ex" "same_frame ex ex2"
    using assms by (auto simp: retire_def Let_def same_frame_def)
  show "orderOf ex2 = (orderOf ex)(wo_orderId o1 \<mapsto> o2)"
    using orderOf_cong [OF orders] o2 by simp
qed

lemma acct_retire:
  assumes a: "acct T X ex" and g: "orderOf ex (wo_orderId o1) = Some o1"
    and st: "isTerminal st" "st = StFilled \<Longrightarrow> wo_filledQuantity o1 = wo_quantity o1"
    and r: "retire L o1 st t ex = (o2, ex2)"
  shows "acct T (X - {wo_orderId o1}) ex2"
proof -
  note sp = retire_spec [OF r]
  have ok: "order_ok T o1" by (rule acct_order [OF a g])
  have "acct T (X - {wo_orderId o1}) (putOrder o2 ex)"
  proof (rule acct_put [OF a])
    show "orderOf ex (wo_orderId o2) = Some o1" using g sp(1) by simp
    show "same_order o1 o2" by (simp add: sp(1) same_order_def)
    show "order_ok T o2" using ok st by (auto simp: sp(1) order_ok_def isTerminal_def)
    show "wo_orderId o2 \<in> X - {wo_orderId o1} \<or> order_tight o2"
      using st(1) by (auto simp: sp(1) order_tight_def isTerminal_def)
  qed (simp_all add: sp(1))
  then show ?thesis
    using acct_cong [of ex2 "putOrder o2 ex"] sp(3,4,5) by (simp add: same_frame_def)
qed

lemma evolves_retire:
  assumes g: "orderOf ex (wo_orderId o1) = Some o1" and n: "\<not> isTerminal (wo_status o1)" and st: "isTerminal st"
    and r: "retire L o1 st t ex = (o2, ex2)"
  shows "evolves ex ex2"
proof (rule evolves_one [OF _ g])
  show "orderOf ex2 = (orderOf ex)(wo_orderId o1 \<mapsto> o2)" by (rule retire_spec(2) [OF r])
  show "order_step o1 o2" using n st retire_spec(1) [OF r] by (auto simp: order_step_def same_order_def isTerminal_def)
qed

lemma keeps_retire:
  assumes g: "orderOf ex (wo_orderId o1) = Some o1" and st: "isTerminal st" and r: "retire L o1 st t ex = (o2, ex2)"
  shows "keeps_indexes L ex ex2"
proof -
  note sp = retire_spec [OF r]
  have so: "same_order o1 o2" by (simp add: sp(1) same_order_def)
  have i: "ex_restingByLevel ex2 = indexDelete (levelOf L o1) (wo_orderId o1) (ex_restingByLevel ex)"
    "ex_restingByMarket ex2 = indexDelete (wo_marketTicker o1) (wo_orderId o1) (ex_restingByMarket ex)"
    using r by (auto simp: retire_def Let_def levelOf_def ladderOf_def)
  have "wo_status o2 \<noteq> StResting" using st by (auto simp: sp(1) isTerminal_def)
  then show ?thesis
    unfolding keeps_indexes_def indexes_ok_def i sp(2)
    using indexed_delete [of _ _ _ _ o1 o2] g levelOf_same [OF so] so by (auto simp: same_order_def)
qed

section \<open>Recording a fill\<close>

lemma recordFill_spec:
  assumes "recordFill cfg o1 q p liq rs t v tid qa ex = (f, o2, ex2)"
  shows "o2 = o1\<lparr>wo_filledQuantity := wo_filledQuantity o1 + q\<rparr>"
    "orderOf ex2 = (orderOf ex)(wo_orderId o1 \<mapsto> o2)" "ex_fills ex2 = ex_fills ex @ [f]" "same_frame ex ex2"
    "ex_orders ex2 = ex_orders (putOrder o2 ex)"
    "fl_orderId f = wo_orderId o1" "fl_quantity f = q" "fl_filledAtMs f = t" "fl_yesPrice f = p" "fl_liquidity f = liq"
    "same_indexes ex ex2"
proof -
  obtain fee fs where fee: "fe_fee (xo_feeModel cfg)
             \<lparr>fc_marketTicker = wo_marketTicker o1, fc_quantity = q, fc_yesPrice = p, fc_liquidity = liq,
              fc_market = js_get (xo_marketStates cfg) (wo_marketTicker o1), fc_atMs = t\<rparr> (ex_feeState ex) = (fee, fs)"
    by fastforce
  show o2: "o2 = o1\<lparr>wo_filledQuantity := wo_filledQuantity o1 + q\<rparr>"
    and orders: "ex_orders ex2 = ex_orders (putOrder o2 ex)"
    and "ex_fills ex2 = ex_fills ex @ [f]" "same_frame ex ex2"
    "fl_orderId f = wo_orderId o1" "fl_quantity f = q" "fl_filledAtMs f = t" "fl_yesPrice f = p" "fl_liquidity f = liq"
    "same_indexes ex ex2"
    using assms by (auto simp: recordFill_def Let_def fee same_frame_def same_indexes_def)
  show "orderOf ex2 = (orderOf ex)(wo_orderId o1 \<mapsto> o2)"
    using orderOf_cong [OF orders] o2 by simp
qed

lemma yes_side_price: "yesEquivalentPrice side a p = y \<Longrightarrow> (if side = Yes then y else 1 - y) = p"
  by auto

lemma recordFill_fits:
  assumes r: "recordFill cfg o1 q p liq rs t v tid qa ex = (f, o2, ex2)" and ok: "order_ok T o1"
    and t: "so_effectiveAtMs o1 \<le> t" and q: "0 < q" and p: "crossable o1 p" "liq = Maker \<Longrightarrow> p = wo_yesPrice o1"
  shows "fill_fits f o1"
proof -
  obtain fee fs where fee: "fe_fee (xo_feeModel cfg)
             \<lparr>fc_marketTicker = wo_marketTicker o1, fc_quantity = q, fc_yesPrice = p, fc_liquidity = liq,
              fc_market = js_get (xo_marketStates cfg) (wo_marketTicker o1), fc_atMs = t\<rparr> (ex_feeState ex) = (fee, fs)"
    by fastforce
  have f: "fl_marketTicker f = wo_marketTicker o1" "fl_clientOrderId f = wo_clientOrderId o1" "fl_side f = wo_side o1"
    "fl_action f = wo_action o1" "fl_yesAction f = wo_yesAction o1" "fl_submittedAtMs f = so_submittedAtMs o1"
    "fl_arrivedAtMs f = so_effectiveAtMs o1" "fl_price f = (if wo_side o1 = Yes then p else 1 - p)"
    using r by (auto simp: recordFill_def Let_def fee)
  have "(if wo_side o1 = Yes then wo_yesPrice o1 else 1 - wo_yesPrice o1) = wo_price o1"
    by (rule yes_side_price) (use ok in \<open>simp add: order_ok_def\<close>)
  then show ?thesis
    using recordFill_spec(7-10) [OF r] f p t q ok by (simp add: fill_fits_def order_ok_def)
qed

lemma acct_recordFill:
  assumes a: "acct T X ex" and g: "orderOf ex (wo_orderId o1) = Some o1"
    and q: "0 < q" "q \<le> remainingOf o1" and t: "so_effectiveAtMs o1 \<le> t"
    and p: "crossable o1 p" "liq = Maker \<Longrightarrow> p = wo_yesPrice o1"
    and r: "recordFill cfg o1 q p liq rs t v tid qa ex = (f, o2, ex2)"
  shows "acct T (insert (wo_orderId o1) X) ex2"
proof -
  note sp = recordFill_spec [OF r]
  let ?k = "wo_orderId o1"
  have ok: "order_ok T o1" by (rule acct_order [OF a g])
  have fits: "fill_fits f o1" by (rule recordFill_fits [OF r ok t q(1) p])
  have so: "same_order o1 o2" by (simp add: sp(1) same_order_def)
  have fr: "ex_byClientId ex2 = ex_byClientId ex" "ex_orderSeq ex2 = ex_orderSeq ex"
    using sp(4) by (simp_all add: same_frame_def)
  have ok2: "order_ok T o2" using ok q by (auto simp: sp(1) order_ok_def remainingOf_def split: option.splits)
  have entry: "entry_ok T (k \<in> insert ?k X) k u ex2" if u: "orderOf ex2 k = Some u" for k u
  proof (cases "k = ?k")
    case True
    then have "u = o2" using u sp(2) by simp
    moreover have "entry_ok T (?k \<in> X) ?k o1 ex" by (rule acct_entry [OF a g])
    ultimately show ?thesis
      using True ok2 by (auto simp: entry_ok_def fr sp(1,3,6,7) filledFor_snoc)
  next
    case False
    then have "orderOf ex k = Some u" using u sp(2) by simp
    then have "entry_ok T (k \<in> X) k u ex" by (rule acct_entry [OF a])
    then show ?thesis using False by (auto simp: entry_ok_def fr sp(3,6) filledFor_snoc)
  qed
  have fills: "\<exists>u. orderOf ex2 (fl_orderId h) = Some u \<and> fill_fits h u" if h: "h \<in> set (ex_fills ex2)" for h
  proof (cases "h = f")
    case True
    then show ?thesis using fits fill_fits_same [OF so] sp(2,6) by simp
  next
    case False
    then have "h \<in> set (ex_fills ex)" using h sp(3) by simp
    then obtain u where u: "orderOf ex (fl_orderId h) = Some u" "fill_fits h u" using acct_fill [OF a] by blast
    then show ?thesis using g sp(2) fill_fits_same [OF so, of h] by (cases "fl_orderId h = ?k") auto
  qed
  have ids: "\<exists>u. orderOf ex2 oid = Some u \<and> wo_clientOrderId u = c" if c: "js_get (ex_byClientId ex2) c = Some oid" for c oid
  proof -
    obtain u where u: "orderOf ex oid = Some u" "wo_clientOrderId u = c" using acct_client [OF a] c fr(1) by metis
    then show ?thesis using g so sp(2) by (cases "oid = ?k") (auto simp: same_order_def)
  qed
  have mapok: "js_map_ok (ex_orders ex2)" using a by (simp add: acct_def sp(5) js_map_ok_put)
  show ?thesis unfolding acct_def using mapok entry fills ids by blast
qed

lemma evolves_recordFill:
  assumes g: "orderOf ex (wo_orderId o1) = Some o1" and n: "\<not> isTerminal (wo_status o1)" and q: "0 < q"
    and r: "recordFill cfg o1 q p liq rs t v tid qa ex = (f, o2, ex2)"
  shows "evolves ex ex2"
proof (rule evolves_one [OF _ g])
  show "orderOf ex2 = (orderOf ex)(wo_orderId o1 \<mapsto> o2)" by (rule recordFill_spec(2) [OF r])
  show "order_step o1 o2" using n q recordFill_spec(1) [OF r] by (simp add: order_step_def same_order_def)
qed

section \<open>Taking displayed liquidity\<close>

lemma same_order_filled [simp]: "same_order o1 (o1\<lparr>wo_filledQuantity := n\<rparr>)"
  by (simp add: same_order_def)

text \<open>What taking leaves behind: the order with more filled, its fills appended, nothing else.\<close>

definition taken_by ::
  "int \<Rightarrow> string set \<Rightarrow> 's exchange \<Rightarrow> simulated_order \<Rightarrow> simulated_fill list \<Rightarrow> simulated_order \<Rightarrow> 's exchange \<Rightarrow> bool" where
  "taken_by T X ex o1 fs o2 ex2 \<longleftrightarrow> acct T (insert (wo_orderId o1) X) ex2 \<and> evolves ex ex2 \<and> same_frame ex ex2
     \<and> ex_fills ex2 = ex_fills ex @ fs \<and> orderOf ex2 = (orderOf ex)(wo_orderId o1 \<mapsto> o2)
     \<and> o2 = o1\<lparr>wo_filledQuantity := wo_filledQuantity o2\<rparr> \<and> same_indexes ex ex2"

lemma taken_none: "acct T X ex \<Longrightarrow> orderOf ex (wo_orderId o1) = Some o1 \<Longrightarrow> taken_by T X ex o1 [] o1 ex"
  by (auto simp: taken_by_def fun_upd_idem intro: acct_mono)

lemma taken_more:
  assumes f: "acct T (insert (wo_orderId o1) X) ex3" "evolves ex ex3"
    and sp: "o3 = o1\<lparr>wo_filledQuantity := wo_filledQuantity o1 + q\<rparr>" "orderOf ex3 = (orderOf ex)(wo_orderId o1 \<mapsto> o3)"
      "ex_fills ex3 = ex_fills ex @ [f]" "same_frame ex ex3" "same_indexes ex ex3"
    and tk: "taken_by T (insert (wo_orderId o1) X) ex3 o3 fs o2 ex2"
  shows "taken_by T X ex o1 (f # fs) o2 ex2"
proof -
  have id3: "wo_orderId o3 = wo_orderId o1" by (simp add: sp(1))
  have o2: "o2 = o3\<lparr>wo_filledQuantity := wo_filledQuantity o2\<rparr>" using tk by (simp add: taken_by_def)
  have "o2 = o1\<lparr>wo_filledQuantity := wo_filledQuantity o2\<rparr>" using o2 sp(1) by (metis working_order.fold_congs(10) working_order.surjective working_order.update_convs(10))
  then show ?thesis
    using tk evolves_trans [OF f(2)] same_frame_trans [OF sp(4)] same_indexes_trans [OF sp(5)] by (simp add: taken_by_def sp(2,3) id3)
qed

lemma crossLoop_taken:
  "crossLoop cfg v t levels o1 ex = (fs, o2, ex2) \<Longrightarrow> acct T X ex \<Longrightarrow> orderOf ex (wo_orderId o1) = Some o1 \<Longrightarrow>
   so_effectiveAtMs o1 \<le> t \<Longrightarrow> \<not> isTerminal (wo_status o1) \<Longrightarrow> taken_by T X ex o1 fs o2 ex2"
proof (induction levels arbitrary: o1 ex fs X)
  case Nil
  then show ?case by (simp add: taken_none)
next
  case (Cons l levels)
  note c = Cons.prems(1) and a = Cons.prems(2) and g = Cons.prems(3) and t = Cons.prems(4) and n = Cons.prems(5)
  obtain ps ss where l: "l = (ps, ss)" by fastforce
  let ?p = "dl_of_string (xo_dec cfg) ps"
  let ?take = "min (remainingOf o1) (dl_of_string (xo_dec cfg) ss)"
  consider (stop) "remainingOf o1 \<le> 0 \<or> \<not> crossable o1 ?p"
    | (skip) "0 < remainingOf o1" "crossable o1 ?p" "?take \<le> 0"
    | (take) "0 < remainingOf o1" "crossable o1 ?p" "0 < ?take" by linarith
  then show ?case
  proof cases
    case stop
    then have "fs = [] \<and> o2 = o1 \<and> ex2 = ex" using c by (auto simp: l crossable_def Let_def split: if_splits)
    then show ?thesis using taken_none [OF a g] by simp
  next
    case skip
    then have "crossLoop cfg v t levels o1 ex = (fs, o2, ex2)"
      using c by (simp add: l crossable_def Let_def split: if_splits)
    then show ?thesis using Cons.IH a g t n by blast
  next
    case take
    obtain f o3 ex3 where r: "recordFill cfg o1 ?take ?p Taker FrCross t v None None ex = (f, o3, ex3)"
      by (metis prod_cases3)
    obtain fs' where rest: "crossLoop cfg v t levels o3 ex3 = (fs', o2, ex2)" and fs: "fs = f # fs'"
      using c take by (auto simp: l crossable_def Let_def r split: if_splits prod.splits)
    note sp = recordFill_spec [OF r]
    have a3: "acct T (insert (wo_orderId o1) X) ex3"
      by (rule acct_recordFill [OF a g _ _ t _ _ r]) (use take in auto)
    have e3: "evolves ex ex3" by (rule evolves_recordFill [OF g n _ r]) (use take in simp)
    have "taken_by T (insert (wo_orderId o1) X) ex3 o3 fs' o2 ex2"
      by (rule Cons.IH [OF rest a3]) (use sp(1,2) t n in simp_all)
    then show ?thesis unfolding fs by (rule taken_more [OF a3 e3 sp(1,2,3,4,11)])
  qed
qed

section \<open>Resting and arriving\<close>

lemma displayedAt_nonneg:
  assumes "store_ok L sha store" "ms_view m store = Some v"
  shows "0 \<le> displayedAt L o1 v"
proof -
  have "book_fine L sha v" using assms by (auto simp: store_ok_def ms_view_def)
  then have "ladder_ok L (mb_yesBids v)" "ladder_ok L (mb_noBids v)" by (auto simp: book_fine_def book_ok_def)
  then show ?thesis by (simp add: displayedAt_def yesBidSizeAt_def yesAskSizeAt_def levelSize_nonneg)
qed

lemma restOrder_spec:
  assumes a: "acct T X ex" and g: "orderOf ex (wo_orderId o1) = Some o1" and n: "\<not> isTerminal (wo_status o1)"
    and t: "so_effectiveAtMs o1 \<le> T" and d: "0 \<le> displayedAt (xo_dec cfg) o1 v" and fm: "fill_model (xo_fillModel cfg)"
    and rem: "0 < remainingOf o1" and r: "restOrder cfg o1 v t ex = (o2, ex2)"
  shows "acct T (X - {wo_orderId o1}) ex2" "evolves ex ex2" "ex_fills ex2 = ex_fills ex" "same_frame ex ex2"
    "orderOf ex2 = (orderOf ex)(wo_orderId o1 \<mapsto> o2)" "wo_status o2 = StResting" "same_order o1 o2"
    "wo_status o1 \<noteq> StResting \<Longrightarrow> keeps_indexes (xo_dec cfg) ex ex2"
proof -
  define q where "q = newQueueState (displayedAt (xo_dec cfg) o1 v)
    (fm_initialQueueAhead (xo_fillModel cfg) (displayedAt (xo_dec cfg) o1 v)) t"
  have o2: "o2 = o1\<lparr>wo_status := StResting, so_restedAtMs := Some t, so_queue := Some q\<rparr>"
    and orders: "ex_orders ex2 = ex_orders (putOrder o2 ex)"
    and fr: "ex_fills ex2 = ex_fills ex" "same_frame ex ex2"
    using r by (auto simp: restOrder_def Let_def q_def same_frame_def)
  have ok: "order_ok T o1" by (rule acct_order [OF a g])
  have q: "queue_ok q" unfolding q_def by (rule fill_model.initial_ok [OF fm d])
  show so: "same_order o1 o2" by (simp add: o2 same_order_def)
  have "acct T (X - {wo_orderId o1}) (putOrder o2 ex)"
  proof (rule acct_put [OF a _ so])
    show "orderOf ex (wo_orderId o2) = Some o1" using g o2 by simp
    show "order_ok T o2" using ok q t by (simp add: o2 order_ok_def)
    show "wo_orderId o2 \<in> X - {wo_orderId o1} \<or> order_tight o2" using rem by (simp add: o2 order_tight_def remainingOf_def)
  qed (simp_all add: o2)
  then show "acct T (X - {wo_orderId o1}) ex2"
    using acct_cong [of ex2 "putOrder o2 ex"] fr orders by (simp add: same_frame_def)
  show get: "orderOf ex2 = (orderOf ex)(wo_orderId o1 \<mapsto> o2)"
    using orderOf_cong [OF orders] o2 by simp
  show "evolves ex ex2"
    by (rule evolves_one [OF get g]) (use n so in \<open>simp add: order_step_def o2\<close>)
  show "wo_status o2 = StResting" by (simp add: o2)
  have i: "ex_restingByLevel ex2 = indexAdd (levelOf (xo_dec cfg) o2) (wo_orderId o1) (ex_restingByLevel ex)"
    "ex_restingByMarket ex2 = indexAdd (wo_marketTicker o2) (wo_orderId o1) (ex_restingByMarket ex)"
    using r by (auto simp: restOrder_def Let_def q_def levelOf_def ladderOf_def)
  show "keeps_indexes (xo_dec cfg) ex ex2" if "wo_status o1 \<noteq> StResting"
  proof -
    have "indexed key (indexAdd (key o2) (wo_orderId o1) index) ((orderOf ex)(wo_orderId o1 \<mapsto> o2))"
      if "indexed key index (orderOf ex)" for key index
      by (rule indexed_add [OF that g]) (use \<open>wo_status o1 \<noteq> StResting\<close> o2 in simp_all)
    then show ?thesis unfolding keeps_indexes_def indexes_ok_def i get by blast
  qed
  show "ex_fills ex2 = ex_fills ex" "same_frame ex ex2" by (fact fr)+
qed

text \<open>The result of a step: the invariant with nothing in flight, every order evolved, fills only appended.\<close>

definition stepped :: "dec_lib \<Rightarrow> int \<Rightarrow> 's exchange \<Rightarrow> 's exchange \<Rightarrow> bool" where
  "stepped L T ex ex2 \<longleftrightarrow> acct T {} ex2 \<and> evolves ex ex2 \<and> keeps_indexes L ex ex2"

lemma stepped_refl: "acct T {} ex \<Longrightarrow> stepped L T ex ex"
  by (simp add: stepped_def)

lemma stepped_trans: "stepped L T ex ex1 \<Longrightarrow> stepped L T ex1 ex2 \<Longrightarrow> stepped L T ex ex2"
  unfolding stepped_def using evolves_trans keeps_trans by blast

lemma stepped_cong:
  "ex_orders ex' = ex_orders ex2 \<Longrightarrow> ex_fills ex' = ex_fills ex2 \<Longrightarrow> ex_byClientId ex' = ex_byClientId ex2 \<Longrightarrow>
   ex_orderSeq ex' = ex_orderSeq ex2 \<Longrightarrow> same_indexes ex2 ex' \<Longrightarrow> stepped L T ex ex2 \<Longrightarrow> stepped L T ex ex'"
  unfolding stepped_def using acct_cong evolves_cong keeps_cong by blast

lemma stepped_retire:
  assumes a: "acct T {} ex" and g: "orderOf ex (wo_orderId o1) = Some o1" and n: "\<not> isTerminal (wo_status o1)"
    and st: "st = StCancelled \<or> st = StRejected" and r: "retire L o1 st t ex = (o2, ex2)"
  shows "stepped L T ex ex2"
  unfolding stepped_def
proof (intro conjI)
  show "keeps_indexes L ex ex2" by (rule keeps_retire [OF g _ r]) (use st in \<open>auto simp: isTerminal_def\<close>)
  show "acct T {} ex2" using acct_retire [OF a g _ _ r] st by (auto simp: isTerminal_def)
  show "evolves ex ex2" by (rule evolves_retire [OF g n _ r]) (use st in \<open>auto simp: isTerminal_def\<close>)
qed

lemma activate_reject:
  assumes a: "acct T {} ex" and g: "orderOf ex (wo_orderId o1) = Some o1" and n: "\<not> isTerminal (wo_status o1)"
    and r: "retire L o1 StRejected t ex = (o2, ex2)"
  shows "stepped L T ex (putOrder (o2\<lparr>so_rejectReason := why\<rparr>) ex2)"
proof -
  note sp = retire_spec [OF r]
  let ?o3 = "o2\<lparr>so_rejectReason := why\<rparr>"
  have a2: "acct T {} ex2" using stepped_retire [OF a g n _ r] by (simp add: stepped_def)
  have so: "same_order o1 ?o3" by (simp add: sp(1) same_order_def)
  have g2: "orderOf ex2 (wo_orderId ?o3) = Some o2" using sp(1,2) by simp
  have ok: "order_ok T o2" by (rule acct_order [OF a2]) (use g2 in simp)
  have "acct T {} (putOrder ?o3 ex2)"
  proof (rule acct_put [OF a2 g2])
    show "order_ok T ?o3" using ok by (simp add: order_ok_def split: option.splits)
    show "wo_orderId ?o3 \<in> {} \<or> order_tight ?o3" by (simp add: order_tight_def sp(1))
  qed (simp_all add: same_order_def)
  moreover have "evolves ex (putOrder ?o3 ex2)"
  proof (rule evolves_one [OF _ g])
    show "orderOf (putOrder ?o3 ex2) = (orderOf ex)(wo_orderId o1 \<mapsto> ?o3)" using sp(1,2) by simp
    show "order_step o1 ?o3" using so n sp(1) by (simp add: order_step_def)
  qed
  moreover have "keeps_indexes L ex2 (putOrder ?o3 ex2)"
    by (rule keeps_one [OF _ _ g2, of _ ?o3]) (use sp(1) in \<open>simp_all add: same_order_def\<close>)
  moreover have "keeps_indexes L ex ex2" by (rule keeps_retire [OF g _ r]) (simp add: isTerminal_def)
  ultimately show ?thesis using keeps_trans by (auto simp: stepped_def)
qed

text \<open>The end of an activation: filled, cancelled as immediate-or-cancel, or resting.\<close>

lemma arrival_settled:
  assumes fm: "fill_model (xo_fillModel cfg)" and d: "0 \<le> displayedAt (xo_dec cfg) o2 v"
    and a1: "acct T {wo_orderId o2} ex1" and g1: "orderOf ex1 (wo_orderId o2) = Some o2" and s2: "wo_status o2 = StPending"
    and te: "so_effectiveAtMs o2 \<le> T"
    and fin: "(o3, ex2) = (if remainingOf o2 \<le> 0 then retire (xo_dec cfg) o2 StFilled t ex1
              else if wo_timeInForce o2 = Ioc then retire (xo_dec cfg) o2 StCancelled t ex1
              else restOrder cfg o2 v t ex1)"
  shows "stepped (xo_dec cfg) T ex1 ex2" "same_frame ex1 ex2" "ex_fills ex2 = ex_fills ex1"
    "orderOf ex2 = (orderOf ex1)(wo_orderId o2 \<mapsto> o3)" "wo_status o3 \<noteq> StPending"
proof -
  have n2: "\<not> isTerminal (wo_status o2)" using s2 by (simp add: isTerminal_def)
  have ok2: "order_ok T o2" by (rule acct_order [OF a1 g1])
  have "stepped (xo_dec cfg) T ex1 ex2 \<and> same_frame ex1 ex2 \<and> ex_fills ex2 = ex_fills ex1 \<and>
    orderOf ex2 = (orderOf ex1)(wo_orderId o2 \<mapsto> o3) \<and> wo_status o3 \<noteq> StPending"
  proof (cases "0 < remainingOf o2 \<and> wo_timeInForce o2 \<noteq> Ioc")
    case True
    then have rt: "restOrder cfg o2 v t ex1 = (o3, ex2)" using fin by simp
    note sp = restOrder_spec [OF a1 g1 n2 te d fm _ rt]
    show ?thesis using True sp(1-6,8) s2 by (simp add: stepped_def)
  next
    case False
    then obtain st where rt: "retire (xo_dec cfg) o2 st t ex1 = (o3, ex2)" and
      st: "st = StFilled \<and> remainingOf o2 \<le> 0 \<or> st = StCancelled" using fin by (auto split: if_splits)
    have "acct T ({wo_orderId o2} - {wo_orderId o2}) ex2"
      by (rule acct_retire [OF a1 g1 _ _ rt]) (use st ok2 in \<open>auto simp: isTerminal_def remainingOf_def order_ok_def\<close>)
    moreover have "evolves ex1 ex2" by (rule evolves_retire [OF g1 n2 _ rt]) (use st in \<open>auto simp: isTerminal_def\<close>)
    moreover have "keeps_indexes (xo_dec cfg) ex1 ex2" by (rule keeps_retire [OF g1 _ rt]) (use st in \<open>auto simp: isTerminal_def\<close>)
    ultimately show ?thesis using retire_spec [OF rt] st by (auto simp: stepped_def)
  qed
  then show "stepped (xo_dec cfg) T ex1 ex2" "same_frame ex1 ex2" "ex_fills ex2 = ex_fills ex1"
    "orderOf ex2 = (orderOf ex1)(wo_orderId o2 \<mapsto> o3)" "wo_status o3 \<noteq> StPending" by simp_all
qed

lemma arrival_noted:
  assumes a: "acct T {} ex" and g: "orderOf ex (wo_orderId o1) = Some o1" and n: "wo_status o1 = StPending"
    and oa: "oa = o1\<lparr>so_arrivalBid := x, so_arrivalAsk := y, so_arrivalDisplayedSize := z\<rparr>"
  shows "stepped L T ex (putOrder oa ex)"
proof -
  have so: "same_order o1 oa" by (simp add: oa same_order_def)
  have "acct T {} (putOrder oa ex)"
  proof (rule acct_put [OF a _ so])
    show "orderOf ex (wo_orderId oa) = Some o1" using g oa by simp
    show "order_ok T oa" using acct_order [OF a g] by (simp add: oa order_ok_def split: option.splits)
    have "order_tight o1" using acct_entry [OF a g] by (simp add: entry_ok_def)
    then show "wo_orderId oa \<in> {} \<or> order_tight oa" by (simp add: oa order_tight_def)
  qed (simp_all add: oa)
  moreover have "evolves ex (putOrder oa ex)"
    by (rule evolves_one [OF _ g, of _ oa]) (use n so oa in \<open>simp_all add: order_step_def isTerminal_def\<close>)
  moreover have "keeps_indexes L ex (putOrder oa ex)"
    by (rule keeps_one [OF _ _ g so]) (simp_all add: oa)
  ultimately show ?thesis by (simp add: stepped_def)
qed

lemma activate_stepped:
  assumes fm: "fill_model (xo_fillModel cfg)" and store: "store_ok (xo_dec cfg) sha store"
    and a: "acct T {} ex" and g: "orderOf ex (wo_orderId o1) = Some o1" and n: "wo_status o1 = StPending"
    and t: "so_effectiveAtMs o1 \<le> t" "t \<le> T"
    and r: "activate cfg store o1 t ex = (us, fs, ex2)"
  shows "stepped (xo_dec cfg) T ex ex2 \<and> same_frame ex ex2 \<and> ex_fills ex2 = ex_fills ex @ fs \<and>
    (\<exists>o2. orderOf ex2 = (orderOf ex)(wo_orderId o1 \<mapsto> o2) \<and> wo_status o2 \<noteq> StPending)"
proof (cases "case ms_view (wo_marketTicker o1) store of None \<Rightarrow> None | Some b \<Rightarrow> if mb_valid b then Some b else None")
  case None
  obtain o2 ex1 where rt: "retire (xo_dec cfg) o1 StRejected t ex = (o2, ex1)" by fastforce
  have ex2: "ex2 = putOrder (o2\<lparr>so_rejectReason := Some ''book_invalid''\<rparr>) ex1" "fs = []"
    using r by (auto simp: activate_def None rt Let_def)
  have "stepped (xo_dec cfg) T ex ex2" unfolding ex2 by (rule activate_reject [OF a g _ rt]) (simp add: n isTerminal_def)
  then show ?thesis
    using retire_spec [OF rt] by (auto simp: ex2 intro!: exI [of _ "o2\<lparr>so_rejectReason := Some ''book_invalid''\<rparr>"])
next
  case (Some v)
  have mv: "ms_view (wo_marketTicker o1) store = Some v" using Some by (auto split: option.splits if_splits)
  define oa where "oa = o1\<lparr>so_arrivalBid := bbo_bid (view_bbo (xo_dec cfg) v), so_arrivalAsk := bbo_ask (view_bbo (xo_dec cfg) v),
                      so_arrivalDisplayedSize := Some (displayedAt (xo_dec cfg) o1 v)\<rparr>"
  obtain o2 o3 ex1 where cr: "cross cfg oa v t (putOrder oa ex) = (fs, o2, ex1)" and fin:
    "(o3, ex2) = (if remainingOf o2 \<le> 0 then retire (xo_dec cfg) o2 StFilled t ex1
              else if wo_timeInForce o2 = Ioc then retire (xo_dec cfg) o2 StCancelled t ex1
              else restOrder cfg o2 v t ex1)"
    using r by (auto simp: activate_def Some Let_def oa_def [symmetric] split: prod.splits if_splits)
  have ka: "wo_orderId oa = wo_orderId o1" and na: "wo_status oa = StPending" using n by (simp_all add: oa_def)
  have sa: "stepped (xo_dec cfg) T ex (putOrder oa ex)" by (rule arrival_noted [OF a g n oa_def])
  have tk: "taken_by T {} (putOrder oa ex) oa fs o2 ex1"
    by (rule crossLoop_taken [OF cr [unfolded cross_def]]) (use sa t na in \<open>simp_all add: oa_def isTerminal_def stepped_def\<close>)
  have o2: "o2 = oa\<lparr>wo_filledQuantity := wo_filledQuantity o2\<rparr>" using tk by (simp add: taken_by_def)
  have k2: "wo_orderId o2 = wo_orderId o1" and s2: "wo_status o2 = StPending" and e2: "so_effectiveAtMs o2 \<le> T"
    using ka na t by (subst o2; simp add: oa_def)+
  have g1: "orderOf ex1 = (orderOf ex)(wo_orderId o1 \<mapsto> o2)" and a1: "acct T {wo_orderId o2} ex1"
    and e1: "evolves ex ex1" and f1: "same_frame ex ex1" "ex_fills ex1 = ex_fills ex @ fs"
    using tk ka k2 sa evolves_trans by (auto simp: taken_by_def stepped_def same_frame_def)
  have st2: "(wo_status o2 = StResting) = (wo_status oa = StResting)" using s2 na by simp
  have i1: "keeps_indexes (xo_dec cfg) (putOrder oa ex) ex1"
    by (rule keeps_one [of _ _ "wo_orderId oa" o2 oa])
       (use tk st2 same_order_filled [of oa "wo_filledQuantity o2", folded o2] in \<open>simp_all add: taken_by_def\<close>)
  have i2: "keeps_indexes (xo_dec cfg) ex ex1"
    by (rule keeps_trans [OF _ i1]) (use sa in \<open>simp add: stepped_def\<close>)
  note fs = arrival_settled [OF fm displayedAt_nonneg [OF store mv] a1 _ s2 e2 fin]
  show ?thesis
    using fs g1 k2 f1 evolves_trans [OF e1] same_frame_trans [OF f1(1)] keeps_trans [OF i2]
    by (auto simp: stepped_def intro!: exI [of _ o3])
qed

section \<open>Advancing time\<close>

lemma stepped_acct: "stepped L T ex ex2 \<Longrightarrow> acct T {} ex2"
  by (simp add: stepped_def)

lemma evolves_get: "evolves ex ex2 \<Longrightarrow> orderOf ex k = Some o1 \<Longrightarrow> \<exists>o2. orderOf ex2 k = Some o2 \<and> order_step o1 o2"
  by (simp add: evolves_def)

lemma same_frame_get:
  assumes "acct T {} ex" "acct T' X ex2" "same_frame ex ex2" "orderOf ex2 k = Some o2"
  shows "\<exists>o1. orderOf ex k = Some o1"
proof -
  have "js_get (ex_byClientId ex) (wo_clientOrderId o2) = Some k"
    using acct_entry [OF assms(2,4)] assms(3) by (simp add: entry_ok_def same_frame_def)
  then show ?thesis using acct_client [OF assms(1)] by blast
qed

lemma stays_not_pending:
  "evolves ex ex2 \<Longrightarrow> orderOf ex k = Some o1 \<Longrightarrow> wo_status o1 \<noteq> StPending \<Longrightarrow>
   orderOf ex2 k = Some o2 \<Longrightarrow> wo_status o2 \<noteq> StPending"
  by (fastforce simp: evolves_def order_step_def)

definition pends_in :: "string list \<Rightarrow> 's exchange \<Rightarrow> bool" where
  "pends_in oids ex \<longleftrightarrow> distinct oids \<and> (\<forall>k \<in> set oids. orderOf ex k \<noteq> None)
     \<and> (\<forall>k o1. orderOf ex k = Some o1 \<longrightarrow> wo_status o1 = StPending \<longrightarrow> k \<in> set oids)"

lemma pendsI:
  "distinct oids \<Longrightarrow> (\<And>k. k \<in> set oids \<Longrightarrow> orderOf ex k \<noteq> None) \<Longrightarrow>
   (\<And>k o1. orderOf ex k = Some o1 \<Longrightarrow> wo_status o1 = StPending \<Longrightarrow> k \<in> set oids) \<Longrightarrow> pends_in oids ex"
  unfolding pends_in_def by blast

lemma pendsD: "pends_in oids ex \<Longrightarrow> orderOf ex k = Some o1 \<Longrightarrow> wo_status o1 = StPending \<Longrightarrow> k \<in> set oids"
  unfolding pends_in_def by blast

lemma pends_in_step:
  assumes "acct T {} ex" "stepped L T ex ex2" "same_frame ex ex2" "pends_in oids ex"
  shows "pends_in oids ex2"
proof (rule pendsI)
  show "distinct oids" using assms(4) by (simp add: pends_in_def)
  show "orderOf ex2 k \<noteq> None" if "k \<in> set oids" for k
    using assms(2,4) that by (fastforce simp: pends_in_def stepped_def evolves_def)
  fix k o2 assume g: "orderOf ex2 k = Some o2" and p: "wo_status o2 = StPending"
  obtain o1 where o1: "orderOf ex k = Some o1"
    using same_frame_get [OF assms(1) _ assms(3) g] assms(2) by (auto simp: stepped_def)
  have "wo_status o1 = StPending" using stays_not_pending [OF _ o1 _ g] p assms(2) by (auto simp: stepped_def)
  then show "k \<in> set oids" by (rule pendsD [OF assms(4) o1])
qed

text \<open>What one pass over the pending list achieves.\<close>

definition passed ::
  "dec_lib \<Rightarrow> int \<Rightarrow> string list \<Rightarrow> 's exchange \<Rightarrow> simulated_fill list \<Rightarrow> string list \<Rightarrow> 's exchange \<Rightarrow> bool" where
  "passed L T oids ex fs still ex2 \<longleftrightarrow> stepped L T ex ex2 \<and> same_frame ex ex2 \<and> ex_fills ex2 = ex_fills ex @ fs
     \<and> set still \<subseteq> set oids \<and> (distinct oids \<longrightarrow> distinct still)
     \<and> (\<forall>k o2. orderOf ex2 k = Some o2 \<longrightarrow> wo_status o2 = StPending \<longrightarrow> k \<in> set oids \<longrightarrow> k \<in> set still)"

lemma passed_more:
  assumes s: "stepped L T ex ex1" "same_frame ex ex1" "ex_fills ex1 = ex_fills ex @ fs1"
    and p: "passed L T oids ex1 fs still ex2"
    and h: "\<And>o2. orderOf ex2 oid = Some o2 \<Longrightarrow> wo_status o2 = StPending \<Longrightarrow> oid \<in> set still'"
    and sub: "still' = still \<or> still' = oid # still"
  shows "passed L T (oid # oids) ex (fs1 @ fs) still' ex2"
  using p s h sub stepped_trans [OF s(1)] same_frame_trans [OF s(2)] by (fastforce simp: passed_def)

lemma activateLoop_passed:
  assumes fm: "fill_model (xo_fillModel cfg)" and store: "store_ok (xo_dec cfg) sha store" and T: "t \<le> T"
  shows "activateLoop cfg store t oids ex = (still, us, fs, ex2) \<Longrightarrow> acct T {} ex \<Longrightarrow> passed (xo_dec cfg) T oids ex fs still ex2"
proof (induction oids arbitrary: ex still us fs)
  case Nil
  then show ?case by (simp add: passed_def stepped_refl)
next
  case (Cons oid oids)
  note c = Cons.prems(1) and a = Cons.prems(2)
  have refl: "stepped (xo_dec cfg) T ex ex" "same_frame ex ex" "ex_fills ex = ex_fills ex @ []" using a by (simp_all add: stepped_refl)
  show ?case
  proof (cases "\<exists>o1. orderOf ex oid = Some o1 \<and> wo_status o1 = StPending")
    case False
    have "activateLoop cfg store t oids ex = (still, us, fs, ex2)" using c False by (auto split: option.splits if_splits)
    then have p: "passed (xo_dec cfg) T oids ex fs still ex2" by (rule Cons.IH [OF _ a])
    have "passed (xo_dec cfg) T (oid # oids) ex ([] @ fs) still ex2"
    proof (rule passed_more [OF refl p])
      fix o2 assume o2: "orderOf ex2 oid = Some o2" "wo_status o2 = StPending"
      have "acct T {} ex2" "same_frame ex ex2" using p by (simp_all add: passed_def stepped_def)
      then obtain o1 where "orderOf ex oid = Some o1" using same_frame_get [OF a _ _ o2(1)] by blast
      then show "oid \<in> set still"
        using stays_not_pending [of ex ex2 oid o1 o2] False o2 p by (auto simp: passed_def stepped_def)
    qed simp
    then show ?thesis by simp
  next
    case True
    then obtain o1 where o1: "orderOf ex oid = Some o1" "wo_status o1 = StPending" by blast
    have k: "wo_orderId o1 = oid" by (rule acct_id [OF a o1(1)])
    show ?thesis
    proof (cases "t < so_effectiveAtMs o1")
      case True
      obtain still' where r: "activateLoop cfg store t oids ex = (still', us, fs, ex2)" and st: "still = oid # still'"
        using c True o1 by (auto split: prod.splits)
      have "passed (xo_dec cfg) T (oid # oids) ex ([] @ fs) still ex2"
        by (rule passed_more [OF refl Cons.IH [OF r a]]) (auto simp: st)
      then show ?thesis by simp
    next
      case False
      obtain us1 fs1 ex1 where ac: "activate cfg store o1 t ex = (us1, fs1, ex1)" by (metis prod_cases3)
      obtain us' fs' where r: "activateLoop cfg store t oids ex1 = (still, us', fs', ex2)" and fs: "fs = fs1 @ fs'"
        using c False o1 by (auto simp: ac split: prod.splits)
      have "stepped (xo_dec cfg) T ex ex1 \<and> same_frame ex ex1 \<and> ex_fills ex1 = ex_fills ex @ fs1 \<and>
        (\<exists>o2. orderOf ex1 = (orderOf ex)(wo_orderId o1 \<mapsto> o2) \<and> wo_status o2 \<noteq> StPending)"
        by (rule activate_stepped [OF fm store a _ o1(2) _ T ac]) (use o1 k False in auto)
      then obtain o2 where s: "stepped (xo_dec cfg) T ex ex1" "same_frame ex ex1" "ex_fills ex1 = ex_fills ex @ fs1"
        and o2: "orderOf ex1 oid = Some o2" "wo_status o2 \<noteq> StPending" using k by auto
      have p: "passed (xo_dec cfg) T oids ex1 fs' still ex2" by (rule Cons.IH [OF r stepped_acct [OF s(1)]])
      show ?thesis unfolding fs
        by (rule passed_more [OF s p]) (use stays_not_pending [OF _ o2] p in \<open>auto simp: passed_def stepped_def\<close>)
    qed
  qed
qed

lemma cancelLoop_stepped:
  "cancelLoop L t oids ex = (still, us, ex2) \<Longrightarrow> acct T {} ex \<Longrightarrow> stepped L T ex ex2 \<and> same_frame ex ex2 \<and> ex_fills ex2 = ex_fills ex"
proof (induction oids arbitrary: ex still us)
  case Nil
  then show ?case by (simp add: stepped_refl)
next
  case (Cons oid oids)
  note c = Cons.prems(1) and a = Cons.prems(2)
  show ?case
  proof (cases "orderOf ex oid")
    case None
    then show ?thesis using Cons by simp
  next
    case (Some o1)
    let ?waits = "case so_cancelEffectiveAtMs o1 of None \<Rightarrow> False | Some u \<Rightarrow> t < u"
    consider (waits) "?waits" | (over) "\<not> ?waits" "isTerminal (wo_status o1)" | (cancel) "\<not> ?waits" "\<not> isTerminal (wo_status o1)"
      by blast
    then show ?thesis
    proof cases
      case waits
      then show ?thesis using Cons.IH [OF _ a] c Some by (auto split: prod.splits)
    next
      case over
      then show ?thesis using Cons.IH [OF _ a] c Some by (auto split: prod.splits)
    next
      case cancel
      obtain o2 ex1 where rt: "retire L o1 StCancelled t ex = (o2, ex1)" by fastforce
      have k: "orderOf ex (wo_orderId o1) = Some o1" using acct_id [OF a Some] Some by simp
      obtain us' where r: "cancelLoop L t oids ex1 = (still, us', ex2)"
        using c Some cancel by (auto simp: rt split: prod.splits)
      have s: "stepped L T ex ex1" by (rule stepped_retire [OF a k cancel(2) _ rt]) simp
      show ?thesis
        using Cons.IH [OF r stepped_acct [OF s]] stepped_trans [OF s] same_frame_trans retire_spec(3,4) [OF rt] by auto
    qed
  qed
qed

lemma advanceTo_stepped:
  assumes fm: "fill_model (xo_fillModel cfg)" and store: "store_ok (xo_dec cfg) sha store" and T: "t \<le> T"
    and a: "acct T {} ex" and p: "pends_in (ex_pending ex) ex" and r: "advanceTo cfg store t ex = (us, fs, ex2)"
  shows "stepped (xo_dec cfg) T ex ex2 \<and> ex_fills ex2 = ex_fills ex @ fs \<and> pends_in (ex_pending ex2) ex2"
proof -
  obtain still us1 ex1 where c: "cancelLoop (xo_dec cfg) t (ex_pendingCancels ex) ex = (still, us1, ex1)" by (metis prod_cases3)
  have s1: "stepped (xo_dec cfg) T ex ex1" "same_frame ex ex1" "ex_fills ex1 = ex_fills ex" using cancelLoop_stepped [OF c a] by auto
  define ex1' where "ex1' = ex1\<lparr>ex_pendingCancels := still\<rparr>"
  have s1': "stepped (xo_dec cfg) T ex ex1'" by (rule stepped_cong [OF _ _ _ _ _ s1(1)]) (simp_all add: ex1'_def same_indexes_def)
  have pend: "ex_pending ex1' = ex_pending ex" using s1(2) by (simp add: ex1'_def same_frame_def)
  have o1': "orderOf ex1' = orderOf ex1" by (rule orderOf_cong) (simp add: ex1'_def)
  have p1: "pends_in (ex_pending ex) ex1'"
    using pends_in_step [OF a s1(1,2) p] by (simp add: pends_in_def o1')
  show ?thesis
  proof (cases "ex_pending ex1' = []")
    case True
    then have "ex2 = ex1'" "fs = []" using r True by (auto simp: advanceTo_def c ex1'_def)
    then show ?thesis using s1' s1(3) p1 pend by (simp add: ex1'_def)
  next
    case False
    obtain still2 us2 ex3 where l: "activateLoop cfg store t (ex_pending ex1') ex1' = (still2, us2, fs, ex3)"
      and ex2: "ex2 = ex3\<lparr>ex_pending := still2\<rparr>"
      using r False by (auto simp: advanceTo_def c ex1'_def split: prod.splits)
    have q: "passed (xo_dec cfg) T (ex_pending ex1') ex1' fs still2 ex3"
      by (rule activateLoop_passed [OF fm store T l stepped_acct [OF s1']])
    have o2: "orderOf ex2 = orderOf ex3" by (rule orderOf_cong) (simp add: ex2)
    have "pends_in (ex_pending ex1') ex3"
      by (rule pends_in_step [OF stepped_acct [OF s1'] _ _ p1 [folded pend], of "xo_dec cfg"]) (use q in \<open>simp_all add: passed_def\<close>)
    then have "pends_in still2 ex3" using q unfolding passed_def pends_in_def by blast
    moreover have s3: "stepped (xo_dec cfg) T ex ex3" using stepped_trans [OF s1'] q by (simp add: passed_def)
    have "stepped (xo_dec cfg) T ex ex2" by (rule stepped_cong [OF _ _ _ _ _ s3]) (simp_all add: ex2 same_indexes_def)
    moreover have "ex_fills ex2 = ex_fills ex @ fs" using q s1(3) by (simp add: passed_def ex2 ex1'_def)
    ultimately show ?thesis by (simp add: pends_in_def o2 [unfolded ex2] ex2)
  qed
qed

section \<open>Submitting\<close>

lemma orderIdOf_inj: "orderIdOf m = orderIdOf n \<longleftrightarrow> m = n"
proof
  assume "orderIdOf m = orderIdOf n"
  then have "digs (ndig m) m = digs (ndig n) n" by (simp add: orderIdOf_def int_str_def)
  then show "m = n" by (metis read_digs_digs ndig_bound)
qed simp

lemma acct_fresh: "acct T X ex \<Longrightarrow> orderOf ex (orderIdOf (Suc (ex_orderSeq ex))) = None"
  by (rule ccontr) (auto dest!: acct_entry simp: entry_ok_def orderIdOf_inj)

lemma filledFor_fresh: "acct T X ex \<Longrightarrow> orderOf ex oid = None \<Longrightarrow> filledFor oid (ex_fills ex) = 0"
  unfolding filledFor_def by (rule sum_list_nonneg_eq_0_iff [THEN iffD2]) (auto dest: acct_fill)

lemma newOrder_fields:
  assumes "o1 = newOrder cfg store intent rq nowMs n"
  shows "wo_orderId o1 = orderIdOf n" "wo_clientOrderId o1 = rq_clientOrderId rq" "wo_quantity o1 = rq_quantity rq"
    "wo_filledQuantity o1 = 0" "wo_status o1 = StPending" "so_sequence o1 = n" "so_submittedAtMs o1 = nowMs"
    "so_effectiveAtMs o1 = submitEffectiveAt (xo_latency cfg) intent nowMs" "so_queue o1 = None"
    "wo_price o1 = rq_price rq" "wo_yesPrice o1 = yesEquivalentPrice (wo_side o1) (wo_action o1) (wo_price o1)"
    "wo_yesAction o1 = yesAction (wo_side o1) (wo_action o1)"
  by (simp_all add: assms newOrder_def Let_def del: yesEquivalentPrice.simps yesAction.simps)

text \<open>A submission: nothing existing changes, and the order list grows at its end.\<close>

lemma submitNew_stepped:
  assumes lm: "latency_model (xo_latency cfg)" and a: "acct T {} ex" and p: "pends_in (ex_pending ex) ex"
    and r: "submitNew cfg store intent rq nowMs ex = (us, ex2)"
  shows "stepped L T ex ex2 \<and> ex_fills ex2 = ex_fills ex \<and> pends_in (ex_pending ex2) ex2"
proof (cases "js_has (ex_byClientId ex) (rq_clientOrderId rq) \<or> rq_quantity rq \<le> 0 \<or> rq_price rq < 0 \<or> 1 < rq_price rq")
  case True
  then have "ex2 = ex" using r by (auto simp: submitNew_def split: if_splits)
  then show ?thesis using a p by (simp add: stepped_refl)
next
  case False
  define n where "n = Suc (ex_orderSeq ex)"
  define o1 where "o1 = newOrder cfg store intent rq nowMs n"
  note f = newOrder_fields [OF o1_def]
  have ex2: "ex_orders ex2 = ex_orders (putOrder o1 ex)" "ex_fills ex2 = ex_fills ex" "ex_orderSeq ex2 = n"
    "ex_byClientId ex2 = js_set (wo_clientOrderId o1) (wo_orderId o1) (ex_byClientId ex)"
    "ex_pending ex2 = ex_pending ex @ [wo_orderId o1]" "same_indexes ex ex2"
    using r False by (auto simp: submitNew_def Let_def o1_def n_def putOrder_def same_indexes_def)
  have get: "orderOf ex2 = (orderOf ex)(wo_orderId o1 \<mapsto> o1)" using orderOf_cong [OF ex2(1)] by simp
  have fresh: "orderOf ex (wo_orderId o1) = None" using acct_fresh [OF a] by (simp add: f n_def)
  have noclient: "js_get (ex_byClientId ex) (wo_clientOrderId o1) = None" using False by (simp add: js_has_def f)
  have ok: "order_ok T o1"
    using False f latency_model.submit_not_early [OF lm, of nowMs intent]
    unfolding order_ok_def by (simp del: yesEquivalentPrice.simps yesAction.simps)
  have entry: "entry_ok T (k \<in> {}) k u ex2" if u: "orderOf ex2 k = Some u" for k u
  proof (cases "k = wo_orderId o1")
    case True
    then have "u = o1" using u get by simp
    then show ?thesis
      using True ok filledFor_fresh [OF a fresh] by (simp add: entry_ok_def ex2 f order_tight_def)
  next
    case False
    then have g: "orderOf ex k = Some u" using u get by simp
    have e: "entry_ok T (k \<in> {}) k u ex" by (rule acct_entry [OF a g])
    then have "wo_clientOrderId u \<noteq> wo_clientOrderId o1" using noclient by (auto simp: entry_ok_def)
    then show ?thesis using e by (auto simp: entry_ok_def ex2 n_def)
  qed
  have fills: "\<exists>u. orderOf ex2 (fl_orderId h) = Some u \<and> fill_fits h u" if h: "h \<in> set (ex_fills ex2)" for h
  proof -
    obtain u where "orderOf ex (fl_orderId h) = Some u" "fill_fits h u" using acct_fill [OF a] h ex2(2) by metis
    then show ?thesis using fresh get by (cases "fl_orderId h = wo_orderId o1") auto
  qed
  have ids: "\<exists>u. orderOf ex2 oid = Some u \<and> wo_clientOrderId u = c" if c: "js_get (ex_byClientId ex2) c = Some oid" for c oid
  proof (cases "c = wo_clientOrderId o1")
    case True
    then show ?thesis using c ex2(4) get by simp
  next
    case False
    then have "js_get (ex_byClientId ex) c = Some oid" using c ex2(4) by simp
    then obtain u where "orderOf ex oid = Some u" "wo_clientOrderId u = c" using acct_client [OF a] by blast
    then show ?thesis using fresh get by (cases "oid = wo_orderId o1") auto
  qed
  have mapok: "js_map_ok (ex_orders ex2)" using a by (simp add: acct_def ex2(1) js_map_ok_put)
  have "acct T {} ex2" unfolding acct_def using mapok entry fills ids by blast
  moreover have "evolves ex ex2" using fresh get by (auto simp: evolves_def)
  moreover have "keeps_indexes L ex ex2"
    using ex2(6) f(5) fresh by (auto simp: keeps_indexes_def indexes_ok_def same_indexes_def get intro!: indexed_fresh)
  moreover have "pends_in (ex_pending ex2) ex2" using p fresh by (auto simp: pends_in_def get ex2(5) split: if_splits)
  ultimately show ?thesis using ex2(2) by (simp add: stepped_def)
qed

lemma requestCancel_stepped:
  assumes a: "acct T {} ex" and p: "pends_in (ex_pending ex) ex"
    and r: "requestCancel cfg c nowMs ex = (us, ex2)"
  shows "stepped L T ex ex2 \<and> ex_fills ex2 = ex_fills ex \<and> pends_in (ex_pending ex2) ex2"
proof (cases "\<exists>o1. findByClientId c ex = Some o1 \<and> \<not> isTerminal (wo_status o1) \<and> so_cancelRequestedAtMs o1 = None")
  case False
  then have "ex2 = ex" using r by (auto simp: requestCancel_def split: option.splits if_splits)
  then show ?thesis using a p by (simp add: stepped_refl)
next
  case True
  then obtain o1 where o1: "findByClientId c ex = Some o1" "\<not> isTerminal (wo_status o1)" "so_cancelRequestedAtMs o1 = None" by blast
  then obtain oid where g0: "orderOf ex oid = Some o1" by (auto simp: findByClientId_def split: option.splits)
  have g: "orderOf ex (wo_orderId o1) = Some o1" using acct_id [OF a g0] g0 by simp
  obtain u v where ex2: "ex_orders ex2 = ex_orders (putOrder (o1\<lparr>so_cancelRequestedAtMs := u, so_cancelEffectiveAtMs := v\<rparr>) ex)"
    "ex_fills ex2 = ex_fills ex" "ex_byClientId ex2 = ex_byClientId ex" "ex_orderSeq ex2 = ex_orderSeq ex"
    "ex_pending ex2 = ex_pending ex" "same_indexes ex ex2"
    using r o1 by (auto simp: requestCancel_def Let_def same_indexes_def)
  define o2 where "o2 = o1\<lparr>so_cancelRequestedAtMs := u, so_cancelEffectiveAtMs := v\<rparr>"
  have so: "same_order o1 o2" by (simp add: o2_def same_order_def)
  have get: "orderOf ex2 = (orderOf ex)(wo_orderId o1 \<mapsto> o2)" using orderOf_cong [OF ex2(1)] by (simp add: o2_def)
  have a2: "acct T {} (putOrder o2 ex)"
  proof (rule acct_put [OF a _ so])
    show "orderOf ex (wo_orderId o2) = Some o1" using g by (simp add: o2_def)
    show "order_ok T o2" using acct_order [OF a g] by (simp add: o2_def order_ok_def split: option.splits)
    have "order_tight o1" using acct_entry [OF a g] by (simp add: entry_ok_def)
    then show "wo_orderId o2 \<in> {} \<or> order_tight o2" by (simp add: o2_def order_tight_def)
  qed (simp_all add: o2_def)
  have "acct T {} ex2" using acct_cong [of ex2 "putOrder o2 ex"] a2 ex2 by (simp add: o2_def)
  moreover have "evolves ex ex2"
    by (rule evolves_one [OF get g]) (use so o1 in \<open>simp add: order_step_def o2_def\<close>)
  moreover have "keeps_indexes L ex ex2"
    by (rule keeps_one [OF ex2(6) get g so]) (simp add: o2_def)
  moreover have "pends_in (ex_pending ex2) ex2" using p g by (auto simp: pends_in_def get ex2(5) o2_def split: if_splits)
  ultimately show ?thesis using ex2(2) by (simp add: stepped_def)
qed

lemma submit_stepped:
  assumes lm: "latency_model (xo_latency cfg)" and a: "acct T {} ex" and p: "pends_in (ex_pending ex) ex"
    and r: "submit cfg store intent nowMs ex = (us, ex2)"
  shows "stepped L T ex ex2 \<and> ex_fills ex2 = ex_fills ex \<and> pends_in (ex_pending ex2) ex2"
proof (cases intent)
  case (ReplaceIntent i)
  show ?thesis
  proof (cases "findByClientId (ri_clientOrderId i) ex")
    case None
    then have "ex2 = ex" using r ReplaceIntent by simp
    then show ?thesis using a p by (simp add: stepped_refl)
  next
    case (Some o1)
    obtain us1 ex1 where c: "requestCancel cfg (ri_clientOrderId i) nowMs ex = (us1, ex1)" by fastforce
    have s: "stepped L T ex ex1" "ex_fills ex1 = ex_fills ex" "pends_in (ex_pending ex1) ex1"
      using requestCancel_stepped [OF a p c] by simp_all
    obtain intent' rq us2 where n: "submitNew cfg store intent' rq nowMs ex1 = (us2, ex2)"
      using r ReplaceIntent Some by (auto simp: c Let_def split: prod.splits)
    show ?thesis using submitNew_stepped [OF lm stepped_acct [OF s(1)] s(3) n] stepped_trans [OF s(1)] s(2) by simp
  qed
qed (use r submitNew_stepped [OF lm a p] requestCancel_stepped [OF a p] in simp_all)

section \<open>Passive execution\<close>

text \<open>Replacing an order's queue by another good one.\<close>

lemma queue_replaced:
  assumes a: "acct T {} ex" and g: "orderOf ex oid = Some o1" and q: "so_queue o1 = Some q0" "queue_ok q"
  shows "stepped L T ex (putOrder (o1\<lparr>so_queue := Some q\<rparr>) ex)"
proof -
  let ?o2 = "o1\<lparr>so_queue := Some q\<rparr>"
  have k: "wo_orderId o1 = oid" by (rule acct_id [OF a g])
  have ok: "order_ok T o1" by (rule acct_order [OF a g])
  have so: "same_order o1 ?o2" by (simp add: same_order_def)
  have "acct T {} (putOrder ?o2 ex)"
  proof (rule acct_put [OF a _ so])
    show "orderOf ex (wo_orderId ?o2) = Some o1" using g k by simp
    show "order_ok T ?o2" using ok q by (simp add: order_ok_def)
    have "order_tight o1" using acct_entry [OF a g] by (simp add: entry_ok_def)
    then show "wo_orderId ?o2 \<in> {} \<or> order_tight ?o2" by (simp add: order_tight_def)
  qed simp_all
  moreover have "evolves ex (putOrder ?o2 ex)"
    by (rule evolves_one [OF _ g, of _ ?o2]) (use ok q so k in \<open>simp_all add: order_step_def isTerminal_def order_ok_def\<close>)
  moreover have "keeps_indexes L ex (putOrder ?o2 ex)"
    by (rule keeps_one [OF _ _ g so]) (simp_all add: k)
  ultimately show ?thesis by (simp add: stepped_def)
qed

lemma sizeChange_stepped:
  assumes fm: "fill_model fm" and a: "acct T {} ex"
  shows "stepped L T ex (sizeChangeStep fm pre post t ex oid) \<and> same_frame ex (sizeChangeStep fm pre post t ex oid)
    \<and> ex_fills (sizeChangeStep fm pre post t ex oid) = ex_fills ex"
proof (cases "\<exists>o1 q. orderOf ex oid = Some o1 \<and> so_queue o1 = Some q")
  case False
  then have "sizeChangeStep fm pre post t ex oid = ex" by (auto simp: sizeChangeStep_def split: option.splits)
  then show ?thesis using a by (simp add: stepped_refl)
next
  case True
  then obtain o1 q where o1: "orderOf ex oid = Some o1" "so_queue o1 = Some q" by blast
  have "queue_ok q" using acct_order [OF a o1(1)] o1(2) by (simp add: order_ok_def)
  then have "queue_ok (fm_onDisplayedSizeChange fm q pre post t)" by (rule fill_model.size_ok [OF fm])
  then show ?thesis using queue_replaced [OF a o1] by (simp add: sizeChangeStep_def o1)
qed

lemma onBookDelta_stepped:
  assumes fm: "fill_model (xo_fillModel cfg)" and a: "acct T {} ex"
  shows "stepped L T ex (onBookDelta cfg b e ex) \<and> same_frame ex (onBookDelta cfg b e ex)
    \<and> ex_fills (onBookDelta cfg b e ex) = ex_fills ex"
proof -
  have fold: "stepped L T ex (foldl (sizeChangeStep (xo_fillModel cfg) pre post t) ex oids) \<and>
    same_frame ex (foldl (sizeChangeStep (xo_fillModel cfg) pre post t) ex oids) \<and>
    ex_fills (foldl (sizeChangeStep (xo_fillModel cfg) pre post t) ex oids) = ex_fills ex" for pre post t oids
  proof (rule foldl_invariant)
    fix s k assume s: "stepped L T ex s \<and> same_frame ex s \<and> ex_fills s = ex_fills ex"
    then have "acct T {} s" by (simp add: stepped_def)
    note sizeChange_stepped [OF fm this, of L pre post t k]
    then show "stepped L T ex (sizeChangeStep (xo_fillModel cfg) pre post t s k) \<and>
      same_frame ex (sizeChangeStep (xo_fillModel cfg) pre post t s k) \<and>
      ex_fills (sizeChangeStep (xo_fillModel cfg) pre post t s k) = ex_fills ex"
      using s stepped_trans same_frame_trans by metis
  qed (use a in \<open>simp add: stepped_refl\<close>)
  show ?thesis using fold a by (auto simp: onBookDelta_def Let_def stepped_refl split: option.splits)
qed

definition total_filled :: "simulated_fill list \<Rightarrow> rat" where
  "total_filled fs = (\<Sum>f\<leftarrow>fs. fl_quantity f)"

lemma total_filled_simps [simp]: "total_filled [] = 0" "total_filled (f # fs) = fl_quantity f + total_filled fs"
  by (simp_all add: total_filled_def)

text \<open>What one print does: maker fills of the listed orders, together at most the print.\<close>

definition printed_to :: "dec_lib \<Rightarrow> int \<Rightarrow> rat \<Rightarrow> string set \<Rightarrow> 's exchange \<Rightarrow> simulated_fill list \<Rightarrow> 's exchange \<Rightarrow> bool" where
  "printed_to L t available oids ex fs ex2 \<longleftrightarrow> stepped L t ex ex2 \<and> same_frame ex ex2 \<and> ex_fills ex2 = ex_fills ex @ fs
     \<and> total_filled fs \<le> max 0 available
     \<and> (\<forall>f \<in> set fs. fl_orderId f \<in> oids \<and> fl_liquidity f = Maker \<and> fl_filledAtMs f = t)"

lemma printed_none: "acct t {} ex \<Longrightarrow> printed_to L t available oids ex [] ex"
  by (simp add: printed_to_def stepped_refl)

lemma printed_mono: "printed_to L t available oids ex fs ex2 \<Longrightarrow> oids \<subseteq> oids' \<Longrightarrow> printed_to L t available oids' ex fs ex2"
  by (auto simp: printed_to_def)

lemma printed_more:
  assumes s: "stepped L t ex ex1" "same_frame ex ex1" "ex_fills ex1 = ex_fills ex @ fs1"
    and f: "\<And>f. f \<in> set fs1 \<Longrightarrow> fl_orderId f \<in> oids \<and> fl_liquidity f = Maker \<and> fl_filledAtMs f = t"
    and av: "0 \<le> total_filled fs1" "total_filled fs1 \<le> available"
    and p: "printed_to L t (available - total_filled fs1) oids ex1 fs ex2"
  shows "printed_to L t available oids ex (fs1 @ fs) ex2"
proof -
  have "total_filled (fs1 @ fs) \<le> max 0 available" using av p by (auto simp: printed_to_def total_filled_def)
  then show ?thesis
    using p f s(3) stepped_trans [OF s(1)] same_frame_trans [OF s(2)] by (auto simp: printed_to_def)
qed

lemma crossable_own: "crossable o1 (wo_yesPrice o1)"
  by (simp add: crossable_def)

lemma acct_tight:
  assumes a: "acct T X ex" and g: "orderOf ex k = Some o1" and t: "order_tight o1"
  shows "acct T (X - {k}) ex"
proof -
  have "entry_ok T (j \<in> X - {k}) j u ex" if u: "orderOf ex j = Some u" for j u
    using acct_entry [OF a u] t g u by (cases "j = k") (simp_all add: entry_ok_def)
  moreover have "js_map_ok (ex_orders ex)" using a by (simp add: acct_def)
  ultimately show ?thesis
    unfolding acct_def using acct_fill [OF a] acct_client [OF a] by blast
qed

text \<open>One maker fill, with the order retired when nothing of it remains.\<close>

lemma maker_fill_stepped:
  assumes a: "acct t {} ex" and g: "orderOf ex (wo_orderId o1) = Some o1" and q: "so_queue o1 = Some qu"
    and qty: "0 < qty" "qty \<le> remainingOf o1"
    and r: "recordFill cfg o1 qty (wo_yesPrice o1) Maker rs t v tid qa ex = (f, o2, ex2)"
    and ex3: "ex3 = (if remainingOf o2 \<le> 0 then snd (retire L o2 StFilled t ex2) else ex2)"
  shows "stepped L t ex ex3 \<and> same_frame ex ex3 \<and> ex_fills ex3 = ex_fills ex @ [f]"
proof -
  have ok: "wo_status o1 = StResting" "so_effectiveAtMs o1 \<le> t" using acct_order [OF a g] q by (simp_all add: order_ok_def)
  have n: "\<not> isTerminal (wo_status o1)" using ok by (simp add: isTerminal_def)
  note sp = recordFill_spec [OF r]
  have a2: "acct t {wo_orderId o1} ex2"
    using acct_recordFill [OF a g qty ok(2) crossable_own _ r] by simp
  have e2: "evolves ex ex2" by (rule evolves_recordFill [OF g n qty(1) r])
  have k2: "wo_orderId o2 = wo_orderId o1" "wo_status o2 = StResting" using sp(1) ok by simp_all
  have i2: "keeps_indexes L ex ex2"
    by (rule keeps_one [OF sp(11) sp(2) g]) (use sp(1) in simp_all)
  have g2: "orderOf ex2 (wo_orderId o2) = Some o2" using sp(2) k2 by simp
  show ?thesis
  proof (cases "remainingOf o2 \<le> 0")
    case True
    obtain o3 ex4 where rt: "retire L o2 StFilled t ex2 = (o3, ex4)" by fastforce
    have e: "ex3 = ex4" using ex3 True rt by simp
    have full: "wo_filledQuantity o2 = wo_quantity o2"
      using acct_order [OF a2 g2] True by (simp add: order_ok_def remainingOf_def)
    have "acct t ({wo_orderId o1} - {wo_orderId o2}) ex4"
      by (rule acct_retire [OF a2 g2 _ _ rt]) (use full in \<open>simp_all add: isTerminal_def\<close>)
    moreover have "evolves ex2 ex4" by (rule evolves_retire [OF g2 _ _ rt]) (use k2 in \<open>simp_all add: isTerminal_def\<close>)
    moreover have "keeps_indexes L ex ex4"
      by (rule keeps_trans [OF i2 keeps_retire [OF g2 _ rt]]) (simp add: isTerminal_def)
    moreover have "same_frame ex ex4" by (rule same_frame_trans [OF sp(4) retire_spec(4) [OF rt]])
    ultimately show ?thesis
      using evolves_trans [OF e2, of ex4] retire_spec(3) [OF rt] sp(3) k2(1) by (simp add: stepped_def e)
  next
    case False
    have "order_tight o2" using False k2 by (simp add: order_tight_def remainingOf_def)
    then have "acct t {} ex2" using acct_tight [OF a2 g2] k2(1) by simp
    then show ?thesis using ex3 False e2 i2 sp(3,4) by (simp add: stepped_def)
  qed
qed

lemma tradeLoop_printed:
  assumes fm: "fill_model (xo_fillModel cfg)" and t: "be_receiveTimeMs b = t"
  shows "tradeLoop cfg v b e available oids ex = (fs, ex2) \<Longrightarrow> acct t {} ex \<Longrightarrow> printed_to (xo_dec cfg) t available (set oids) ex fs ex2"
proof (induction oids arbitrary: available ex fs)
  case Nil
  then show ?case by (simp add: printed_none)
next
  case (Cons oid oids)
  note c = Cons.prems(1) and a = Cons.prems(2)
  have skip: ?case if "tradeLoop cfg v b e available oids ex = (fs, ex2)"
    using printed_mono [OF Cons.IH [OF that a]] by auto
  show ?case
  proof (cases "0 < available \<and> (\<exists>o1 q. orderOf ex oid = Some o1 \<and> so_queue o1 = Some q \<and> 0 < remainingOf o1)")
    case False
    then have "available \<le> 0 \<or> tradeLoop cfg v b e available oids ex = (fs, ex2)"
      using c by (auto simp: Let_def split: option.splits if_splits)
    then show ?thesis using skip c a printed_none by auto
  next
    case True
    then obtain o1 q where o1: "orderOf ex oid = Some o1" "so_queue o1 = Some q" and rem: "0 < remainingOf o1" by blast
    have k: "wo_orderId o1 = oid" by (rule acct_id [OF a o1(1)])
    obtain out q2 where ot: "fm_onTrade (xo_fillModel cfg) q available (remainingOf o1) (wo_yesPrice o1 \<noteq> et_yesPrice e) t = (out, q2)"
      by fastforce
    have "queue_ok q" using acct_order [OF a o1(1)] o1(2) by (simp add: order_ok_def)
    then have q2: "queue_ok q2" "0 \<le> tf_filled out" "tf_filled out \<le> remainingOf o1" "tf_filled out \<le> available"
      using fill_model.trade_ok [OF fm _ _ _ ot] True rem by auto
    define o2 where "o2 = o1\<lparr>so_queue := Some q2\<rparr>"
    have s: "stepped (xo_dec cfg) t ex (putOrder o2 ex)" unfolding o2_def by (rule queue_replaced [OF a o1 q2(1)])
    have k2: "wo_orderId o2 = oid" "remainingOf o2 = remainingOf o1" "wo_yesPrice o2 = wo_yesPrice o1"
      using k by (simp_all add: o2_def remainingOf_def)
    show ?thesis
    proof (cases "tf_filled out \<le> 0")
      case zero: True
      have "tradeLoop cfg v b e available oids (putOrder o2 ex) = (fs, ex2)"
        using c True o1 rem ot t zero by (simp add: Let_def o2_def)
      then have "printed_to (xo_dec cfg) t available (set oids) (putOrder o2 ex) fs ex2" by (rule Cons.IH [OF _ stepped_acct [OF s]])
      then have "printed_to (xo_dec cfg) t available (set (oid # oids)) ex ([] @ fs) ex2"
        by (intro printed_more [OF s]) (use True in \<open>auto elim: printed_mono\<close>)
      then show ?thesis by simp
    next
      case False
      obtain f o3 ex3 where rf: "recordFill cfg o2 (tf_filled out) (wo_yesPrice o2) Maker (tf_reason out) t v
        (Some (et_tradeId e)) (Some (qs_queueAhead q)) (putOrder o2 ex) = (f, o3, ex3)" by (metis prod_cases3)
      define ex4 where "ex4 = (if remainingOf o3 \<le> 0 then snd (retire (xo_dec cfg) o3 StFilled t ex3) else ex3)"
      obtain fs' where lp: "tradeLoop cfg v b e (available - tf_filled out) oids ex4 = (fs', ex2)" and fs: "fs = f # fs'"
        using c True o1 rem ot t False rf by (auto simp: Let_def o2_def ex4_def split: prod.splits)
      have m: "stepped (xo_dec cfg) t (putOrder o2 ex) ex4 \<and> same_frame (putOrder o2 ex) ex4 \<and> ex_fills ex4 = ex_fills (putOrder o2 ex) @ [f]"
        by (rule maker_fill_stepped [OF stepped_acct [OF s] _ _ _ _ rf ex4_def])
           (use k2 False q2 in \<open>simp_all add: o2_def\<close>)
      have "printed_to (xo_dec cfg) t (available - tf_filled out) (set oids) ex4 fs' ex2"
        by (rule Cons.IH [OF lp]) (use m in \<open>simp add: stepped_def\<close>)
      then have "printed_to (xo_dec cfg) t available (set (oid # oids)) ex ([f] @ fs') ex2"
        by (intro printed_more [of _ _ _ ex4])
           (use m stepped_trans [OF s] q2 recordFill_spec(6-10) [OF rf] k2 in \<open>auto simp: same_frame_def elim: printed_mono\<close>)
      then show ?thesis using fs by simp
    qed
  qed
qed

section \<open>Capture gaps and the end of the run\<close>

definition live :: "simulated_order \<Rightarrow> bool" where
  "live o1 \<longleftrightarrow> wo_status o1 = StResting \<or> wo_status o1 = StPending"

lemma live_terminal: "isTerminal (wo_status o1) \<longleftrightarrow> \<not> live o1"
  by (cases "wo_status o1") (simp_all add: live_def isTerminal_def)

lemma terminal_kept: "evolves ex ex2 \<Longrightarrow> orderOf ex k = Some o1 \<Longrightarrow> \<not> live o1 \<Longrightarrow> orderOf ex2 k = Some o1"
  by (fastforce simp: evolves_def order_step_def live_terminal)

text \<open>Steps that keep the accounting, the fills and the pending list.\<close>

definition quiet :: "dec_lib \<Rightarrow> int \<Rightarrow> 's exchange \<Rightarrow> 's exchange \<Rightarrow> bool" where
  "quiet L T ex ex2 \<longleftrightarrow> stepped L T ex ex2 \<and> same_frame ex ex2 \<and> ex_fills ex2 = ex_fills ex"

lemma quiet_refl: "acct T {} ex \<Longrightarrow> quiet L T ex ex"
  by (simp add: quiet_def stepped_refl)

lemma quiet_trans: "quiet L T ex ex1 \<Longrightarrow> quiet L T ex1 ex2 \<Longrightarrow> quiet L T ex ex2"
  unfolding quiet_def using stepped_trans same_frame_trans by fastforce

lemma quiet_acct: "quiet L T ex ex2 \<Longrightarrow> acct T {} ex2"
  unfolding quiet_def using stepped_acct by blast

lemma quiet_get: "acct T {} ex \<Longrightarrow> quiet L T ex ex2 \<Longrightarrow> orderOf ex2 k = Some o2 \<Longrightarrow> \<exists>o1. orderOf ex k = Some o1 \<and> order_step o1 o2"
  using same_frame_get [of T ex T "{}" ex2 k o2] by (fastforce simp: quiet_def stepped_def evolves_def)

lemma quiet_retire:
  assumes a: "acct T {} ex" and g: "orderOf ex (wo_orderId o1) = Some o1" and n: "live o1"
    and r: "retire L o1 StCancelled t ex = (o2, ex2)"
  shows "quiet L T ex ex2"
  using stepped_retire [OF a g _ _ r] n retire_spec(3,4) [OF r] by (simp add: quiet_def live_terminal)

lemma gapOrderStep_quiet:
  fixes cfg :: "'s exchange_options"
  assumes a: "acct T {} ex"
  shows "quiet (xo_dec cfg) T ex (snd (gapOrderStep cfg affected t (us, ex) oid)) \<and>
    (xo_gapOrderPolicy cfg = GpCancelAll \<longrightarrow> (\<forall>o1. orderOf (snd (gapOrderStep cfg affected t (us, ex) oid)) oid = Some o1 \<longrightarrow>
       wo_marketTicker o1 \<in> set affected \<longrightarrow> \<not> live o1))"
proof (cases "\<exists>o1. orderOf ex oid = Some o1 \<and> wo_marketTicker o1 \<in> set affected \<and> live o1 \<and> xo_gapOrderPolicy cfg = GpCancelAll")
  case False
  then have "snd (gapOrderStep cfg affected t (us, ex) oid) = ex"
    by (auto simp: gapOrderStep_def live_def split: option.splits if_splits)
  then show ?thesis using False quiet_refl [OF a] by auto
next
  case True
  then obtain o1 where o1: "orderOf ex oid = Some o1" "wo_marketTicker o1 \<in> set affected" "live o1" "xo_gapOrderPolicy cfg = GpCancelAll" by blast
  obtain o2 ex2 where r: "retire (xo_dec cfg) o1 StCancelled t ex = (o2, ex2)" by fastforce
  have k: "wo_orderId o1 = oid" by (rule acct_id [OF a o1(1)])
  have "snd (gapOrderStep cfg affected t (us, ex) oid) = ex2"
    using o1 by (auto simp: gapOrderStep_def r live_def)
  moreover have "quiet (xo_dec cfg) T ex ex2" by (rule quiet_retire [OF a _ o1(3) r]) (simp add: k o1)
  moreover have "orderOf ex2 oid = Some o2" "\<not> live o2" using retire_spec(1,2) [OF r] k by (simp_all add: live_def)
  ultimately show ?thesis by auto
qed

lemma gap_fold_quiet:
  fixes cfg :: "'s exchange_options"
  assumes "acct T {} (snd acc)"
  shows "quiet (xo_dec cfg) T (snd acc) (snd (foldl (gapOrderStep cfg affected t) acc oids)) \<and>
    (xo_gapOrderPolicy cfg = GpCancelAll \<longrightarrow> (\<forall>oid \<in> set oids. \<forall>o1.
       orderOf (snd (foldl (gapOrderStep cfg affected t) acc oids)) oid = Some o1 \<longrightarrow> wo_marketTicker o1 \<in> set affected \<longrightarrow> \<not> live o1))"
  using assms
proof (induction oids arbitrary: acc)
  case Nil
  then show ?case by (simp add: quiet_refl)
next
  case (Cons oid oids)
  obtain us ex where acc: "acc = (us, ex)" by fastforce
  let ?acc1 = "gapOrderStep cfg affected t (us, ex) oid"
  let ?ex2 = "snd (foldl (gapOrderStep cfg affected t) ?acc1 oids)"
  have a: "acct T {} ex" using Cons.prems acc by simp
  note s = gapOrderStep_quiet [OF a, of cfg affected t us oid]
  have a1: "acct T {} (snd ?acc1)" using quiet_acct s by blast
  note ih = Cons.IH [OF a1]
  have head: "\<not> live o2" if cancel: "xo_gapOrderPolicy cfg = GpCancelAll" and o2: "orderOf ?ex2 oid = Some o2"
      and m: "wo_marketTicker o2 \<in> set affected" for o2
  proof -
    obtain o1 where o1: "orderOf (snd ?acc1) oid = Some o1" "order_step o1 o2"
      using quiet_get [OF a1 _ o2] ih by blast
    have "wo_marketTicker o1 \<in> set affected" using o1(2) m by (simp add: order_step_def same_order_def)
    then have "\<not> live o1" using s o1(1) cancel by blast
    then show ?thesis using o1(2) by (simp add: order_step_def live_terminal)
  qed
  show ?case using quiet_trans [of "xo_dec cfg" T ex "snd ?acc1"] s ih head acc by auto
qed

lemma frozen_frame:
  "acct T X (ex\<lparr>ex_frozen := fr\<rparr>) = acct T X ex" "orderOf (ex\<lparr>ex_frozen := fr\<rparr>) = orderOf ex"
  "pends_in oids (ex\<lparr>ex_frozen := fr\<rparr>) = pends_in oids ex" "indexes_ok L (ex\<lparr>ex_frozen := fr\<rparr>) = indexes_ok L ex"
proof -
  show o: "orderOf (ex\<lparr>ex_frozen := fr\<rparr>) = orderOf ex" by (rule orderOf_cong) simp
  show "acct T X (ex\<lparr>ex_frozen := fr\<rparr>) = acct T X ex" by (rule acct_cong) simp_all
  show "pends_in oids (ex\<lparr>ex_frozen := fr\<rparr>) = pends_in oids ex" by (simp add: pends_in_def o)
  show "indexes_ok L (ex\<lparr>ex_frozen := fr\<rparr>) = indexes_ok L ex" by (simp add: indexes_ok_def o)
qed

lemma stepped_frozen [simp]:
  "stepped L T (ex\<lparr>ex_frozen := fr\<rparr>) ex2 = stepped L T ex ex2" "stepped L T ex (ex2\<lparr>ex_frozen := fr\<rparr>) = stepped L T ex ex2"
  by (simp_all add: stepped_def evolves_def keeps_indexes_def frozen_frame)

lemma onCaptureGap_stepped:
  assumes a: "acct T {} ex" and p: "pends_in (ex_pending ex) ex" and r: "onCaptureGap cfg ms t ex = (us, ex2)"
  shows "stepped (xo_dec cfg) T ex ex2 \<and> ex_fills ex2 = ex_fills ex \<and> pends_in (ex_pending ex2) ex2 \<and>
    (xo_gapOrderPolicy cfg = GpCancelAll \<longrightarrow> (\<forall>oid o1. orderOf ex2 oid = Some o1 \<longrightarrow> wo_marketTicker o1 \<in> set ms \<longrightarrow> \<not> live o1))"
proof -
  define fr where "fr = foldl (\<lambda>fr t. set_add t fr) (ex_frozen ex) ms"
  define ex1 where "ex1 = ex\<lparr>ex_frozen := fr\<rparr>"
  have a1: "acct T {} (snd ([], ex1))" using a by (simp add: ex1_def frozen_frame)
  note q = gap_fold_quiet [OF a1, of cfg ms t "js_keys (ex_orders ex1)"]
  show ?thesis
  proof (cases "xo_gapOrderPolicy cfg = GpKeepResting")
    case True
    then have "ex2 = ex1" using r by (auto simp: onCaptureGap_def Let_def fr_def ex1_def)
    then show ?thesis using True a p by (simp add: ex1_def frozen_frame stepped_refl)
  next
    case False
    then have e: "ex2 = snd (foldl (gapOrderStep cfg ms t) ([], ex1) (js_keys (ex_orders ex1)))"
      using r by (simp add: onCaptureGap_def Let_def fr_def ex1_def)
    have q1: "quiet (xo_dec cfg) T ex1 ex2" using q e by simp
    have st: "stepped (xo_dec cfg) T ex ex2" using q1 by (simp add: quiet_def ex1_def)
    have "pends_in (ex_pending ex1) ex1" using p by (simp add: ex1_def frozen_frame)
    then have "pends_in (ex_pending ex1) ex2" using pends_in_step [of T ex1 _ ex2] a1 q1 unfolding quiet_def snd_conv by blast
    moreover have "ex_pending ex1 = ex_pending ex2" "ex_fills ex2 = ex_fills ex"
      using q1 by (simp_all add: quiet_def same_frame_def ex1_def)
    moreover have "\<not> live o1" if c: "xo_gapOrderPolicy cfg = GpCancelAll" and g: "orderOf ex2 oid = Some o1" and m: "wo_marketTicker o1 \<in> set ms" for oid o1
    proof -
      obtain o0 where "orderOf ex1 oid = Some o0" using quiet_get [OF _ q1 g] a1 by auto
      then have "oid \<in> set (js_keys (ex_orders ex1))"
        unfolding orderOf_def by (metis js_has_def js_has_iff option.distinct(1))
      then show ?thesis using q c g m unfolding e snd_conv by blast
    qed
    ultimately show ?thesis using st by simp
  qed
qed

text \<open>Retiring an order a second time writes the same object back.\<close>

lemma retire_again:
  assumes a: "acct T {} ex" and g: "orderOf ex (wo_orderId o1) = Some o2"
    and o2: "o2 = o1\<lparr>wo_status := StCancelled, so_terminalAtMs := Some t, so_queue := None\<rparr>"
    and r: "retire L o1 StCancelled t ex = (o3, ex2)"
  shows "quiet L T ex ex2" "o3 = o2"
proof -
  note sp = retire_spec [OF r]
  show o3: "o3 = o2" by (simp add: sp(1) o2)
  have r2: "retire L o2 StCancelled t ex = (o2, ex2)"
    using r o3 by (auto simp: retire_def Let_def o2 ladderOf_def)
  have g2: "orderOf ex (wo_orderId o2) = Some o2" using g by (simp add: o2)
  have "acct T ({} - {wo_orderId o2}) ex2" by (rule acct_retire [OF a g2 _ _ r2]) (simp_all add: isTerminal_def)
  moreover have "evolves ex ex2" by (rule evolves_one [OF retire_spec(2) [OF r2] g2]) simp
  moreover have "keeps_indexes L ex ex2" by (rule keeps_retire [OF g2 _ r2]) (simp add: isTerminal_def)
  ultimately show "quiet L T ex ex2" using sp(3,4) by (simp add: quiet_def stepped_def)
qed

definition cancelled_as :: "int \<Rightarrow> simulated_order \<Rightarrow> simulated_order" where
  "cancelled_as t o1 = o1\<lparr>wo_status := StCancelled, so_terminalAtMs := Some t, so_queue := None\<rparr>"

text \<open>The loop of \<open>finalize\<close> over the open orders, read before it starts.\<close>

lemma finalize_fold:
  assumes "acct T {} (snd acc)"
    and "\<And>o1. o1 \<in> set os \<Longrightarrow> live o1 \<and>
      (orderOf (snd acc) (wo_orderId o1) = Some o1 \<or> orderOf (snd acc) (wo_orderId o1) = Some (cancelled_as t o1))"
  shows "quiet L T (snd acc) (snd (foldl (finalizeStep L t) acc os)) \<and>
    (\<forall>o1 \<in> set os. orderOf (snd (foldl (finalizeStep L t) acc os)) (wo_orderId o1) = Some (cancelled_as t o1))"
  using assms
proof (induction os arbitrary: acc)
  case Nil
  then show ?case by (simp add: quiet_refl)
next
  case (Cons o1 os)
  obtain us ex where acc: "acc = (us, ex)" by fastforce
  obtain o2 ex1 where r: "retire L o1 StCancelled t ex = (o2, ex1)" by fastforce
  have step: "snd (finalizeStep L t acc o1) = ex1" by (simp add: finalizeStep_def acc r)
  have a: "acct T {} ex" using Cons.prems(1) acc by simp
  have o1: "live o1" "orderOf ex (wo_orderId o1) = Some o1 \<or> orderOf ex (wo_orderId o1) = Some (cancelled_as t o1)"
    using Cons.prems(2) [of o1] acc by simp_all
  have q: "quiet L T ex ex1"
    using o1(2) quiet_retire [OF a _ o1(1) r] retire_again(1) [OF a _ cancelled_as_def r] by blast
  have get: "orderOf ex1 = (orderOf ex)(wo_orderId o1 \<mapsto> cancelled_as t o1)"
    using retire_spec(1,2) [OF r] by (simp add: cancelled_as_def)
  have next_ok: "live u \<and> (orderOf ex1 (wo_orderId u) = Some u \<or> orderOf ex1 (wo_orderId u) = Some (cancelled_as t u))"
    if u: "u \<in> set os" for u
  proof -
    have uu: "live u" "orderOf ex (wo_orderId u) = Some u \<or> orderOf ex (wo_orderId u) = Some (cancelled_as t u)"
      using Cons.prems(2) [of u] u acc by simp_all
    have "\<not> live (cancelled_as t o1)" "\<not> live (cancelled_as t u)" by (simp_all add: cancelled_as_def live_def)
    then have "cancelled_as t u = cancelled_as t o1" if "wo_orderId u = wo_orderId o1"
      using uu o1 that by (metis option.inject)
    then show ?thesis using uu get by (cases "wo_orderId u = wo_orderId o1") simp_all
  qed
  define ex2 where "ex2 = snd (foldl (finalizeStep L t) (finalizeStep L t acc o1) os)"
  have ih: "quiet L T ex1 ex2" "\<And>u. u \<in> set os \<Longrightarrow> orderOf ex2 (wo_orderId u) = Some (cancelled_as t u)"
    using Cons.IH [of "finalizeStep L t acc o1"] quiet_acct [OF q] next_ok unfolding step ex2_def by blast+
  have e: "evolves ex1 ex2" using ih(1) unfolding quiet_def stepped_def by blast
  have "orderOf ex2 (wo_orderId o1) = Some (cancelled_as t o1)"
    by (rule terminal_kept [OF e]) (simp_all add: get cancelled_as_def live_def)
  moreover have "quiet L T (snd acc) ex2" using quiet_trans [OF q ih(1)] acc by simp
  ultimately show ?case using ih(2) by (simp add: ex2_def)
qed

section \<open>What the exchange reports as open\<close>

lemma set_map_filter [simp]: "set (List.map_filter f xs) = {y. \<exists>x \<in> set xs. f x = Some y}"
  by (induction xs) (auto simp: map_filter_simps split: option.splits)

definition in_market :: "string option \<Rightarrow> simulated_order \<Rightarrow> bool" where
  "in_market m o1 = (case m of None \<Rightarrow> True | Some t \<Rightarrow> wo_marketTicker o1 = t)"

definition resting_of :: "'s exchange \<Rightarrow> string \<Rightarrow> simulated_order list" where
  "resting_of ex m = filter (\<lambda>o1. wo_status o1 = StResting)
     (List.map_filter (orderOf ex) (case js_get (ex_restingByMarket ex) m of None \<Rightarrow> [] | Some oids \<Rightarrow> oids))"

definition waiting_of :: "string option \<Rightarrow> 's exchange \<Rightarrow> simulated_order list" where
  "waiting_of m ex = filter (\<lambda>o1. wo_status o1 = StPending \<and> in_market m o1) (List.map_filter (orderOf ex) (ex_pending ex))"

lemma openOrders_parts:
  "openOrders m ex = sort_key so_sequence
     (concat (map (resting_of ex) (case m of None \<Rightarrow> js_keys (ex_restingByMarket ex) | Some t \<Rightarrow> [t])) @ waiting_of m ex)"
proof -
  have o: "js_get (ex_orders ex) = orderOf ex" by (rule ext) simp
  show ?thesis by (simp add: openOrders_def resting_of_def [abs_def] waiting_of_def in_market_def Let_def o)
qed

lemma resting_of_set:
  assumes i: "indexes_ok L ex" and a: "acct T {} ex"
  shows "set (resting_of ex m) = {o1. \<exists>oid. orderOf ex oid = Some o1 \<and> wo_status o1 = StResting \<and> wo_marketTicker o1 = m}"
proof -
  have ix: "indexed wo_marketTicker (ex_restingByMarket ex) (orderOf ex)" using i by (simp add: indexes_ok_def)
  have "o1 \<in> set (resting_of ex m) \<longleftrightarrow> (\<exists>oid. orderOf ex oid = Some o1 \<and> wo_status o1 = StResting \<and> wo_marketTicker o1 = m)" for o1
  proof
    assume "o1 \<in> set (resting_of ex m)"
    then obtain ids oid where ids: "js_get (ex_restingByMarket ex) m = Some ids" "oid \<in> set ids"
      and o1: "orderOf ex oid = Some o1" "wo_status o1 = StResting"
      by (cases "js_get (ex_restingByMarket ex) m") (auto simp: resting_of_def)
    then show "\<exists>oid. orderOf ex oid = Some o1 \<and> wo_status o1 = StResting \<and> wo_marketTicker o1 = m"
      using indexed_entry [OF ix ids] by auto
  next
    assume "\<exists>oid. orderOf ex oid = Some o1 \<and> wo_status o1 = StResting \<and> wo_marketTicker o1 = m"
    then obtain oid where o1: "orderOf ex oid = Some o1" "wo_status o1 = StResting" "wo_marketTicker o1 = m" by blast
    then show "o1 \<in> set (resting_of ex m)" using indexed_resting [OF ix o1(1,2)] by (auto simp: resting_of_def)
  qed
  then show ?thesis by blast
qed

lemma openOrders_set:
  assumes i: "indexes_ok L ex" and a: "acct T {} ex" and p: "pends_in (ex_pending ex) ex"
  shows "set (openOrders m ex) = {o1. \<exists>oid. orderOf ex oid = Some o1 \<and> live o1 \<and> in_market m o1}"
proof -
  have ix: "indexed wo_marketTicker (ex_restingByMarket ex) (orderOf ex)" using i by (simp add: indexes_ok_def)
  have key: "wo_marketTicker o1 \<in> set (js_keys (ex_restingByMarket ex))"
    if "orderOf ex oid = Some o1" "wo_status o1 = StResting" for oid o1
    using indexed_resting [OF ix that] by (metis js_has_def js_has_iff option.distinct(1))
  have w: "set (waiting_of m ex) = {o1. \<exists>oid. orderOf ex oid = Some o1 \<and> wo_status o1 = StPending \<and> in_market m o1}"
    using pendsD [OF p] by (auto simp: waiting_of_def)
  have r: "(\<Union>t \<in> set (case m of None \<Rightarrow> js_keys (ex_restingByMarket ex) | Some t \<Rightarrow> [t]). set (resting_of ex t))
    = {o1. \<exists>oid. orderOf ex oid = Some o1 \<and> wo_status o1 = StResting \<and> in_market m o1}"
  proof (cases m)
    case None
    have "(\<Union>t \<in> set (js_keys (ex_restingByMarket ex)). {o1. \<exists>oid. orderOf ex oid = Some o1 \<and> wo_status o1 = StResting \<and> wo_marketTicker o1 = t})
      = {o1. \<exists>oid. orderOf ex oid = Some o1 \<and> wo_status o1 = StResting}" using key by blast
    then show ?thesis using None by (simp add: resting_of_set [OF i a] in_market_def)
  qed (auto simp: resting_of_set [OF i a] in_market_def)
  have "set (openOrders m ex) = (\<Union>t \<in> set (case m of None \<Rightarrow> js_keys (ex_restingByMarket ex) | Some t \<Rightarrow> [t]). set (resting_of ex t))
    \<union> set (waiting_of m ex)" by (simp add: openOrders_parts)
  then show ?thesis unfolding r w live_def by blast
qed

lemma distinct_lookups:
  assumes a: "acct T {} ex" and d: "distinct oids"
  shows "distinct (List.map_filter (orderOf ex) oids)"
  using d
proof (induction oids)
  case (Cons oid oids)
  show ?case
  proof (cases "orderOf ex oid")
    case (Some o1)
    have "o1 \<notin> set (List.map_filter (orderOf ex) oids)"
    proof
      assume "o1 \<in> set (List.map_filter (orderOf ex) oids)"
      then obtain k where "k \<in> set oids" "orderOf ex k = Some o1" by auto
      then show False using acct_id [OF a Some] acct_id [OF a, of k o1] Cons.prems by simp
    qed
    then show ?thesis using Cons Some by (simp add: map_filter_simps)
  qed (use Cons in \<open>simp add: map_filter_simps\<close>)
qed (simp add: map_filter_simps)

lemma distinct_concat_map:
  "distinct ks \<Longrightarrow> (\<And>k. k \<in> set ks \<Longrightarrow> distinct (f k)) \<Longrightarrow>
   (\<And>j k. j \<in> set ks \<Longrightarrow> k \<in> set ks \<Longrightarrow> j \<noteq> k \<Longrightarrow> set (f j) \<inter> set (f k) = {}) \<Longrightarrow> distinct (concat (map f ks))"
proof (induction ks)
  case (Cons k ks)
  have "set (f k) \<inter> set (f j) = {}" if "j \<in> set ks" for j
    by (rule Cons.prems(3)) (use that Cons.prems(1) in auto)
  then show ?case using Cons by auto
qed simp

lemma openOrders_distinct:
  assumes i: "indexes_ok L ex" and a: "acct T {} ex" and p: "pends_in (ex_pending ex) ex"
  shows "distinct (openOrders m ex)"
proof -
  have ix: "indexed wo_marketTicker (ex_restingByMarket ex) (orderOf ex)" using i by (simp add: indexes_ok_def)
  have d: "distinct (resting_of ex t)" for t
    using indexed_distinct [OF ix, of t]
    by (cases "js_get (ex_restingByMarket ex) t") (simp_all add: resting_of_def distinct_lookups [OF a] map_filter_simps)
  have keys: "distinct (case m of None \<Rightarrow> js_keys (ex_restingByMarket ex) | Some t \<Rightarrow> [t])"
    using ix by (cases m) (simp_all add: indexed_def)
  have "distinct (concat (map (resting_of ex) (case m of None \<Rightarrow> js_keys (ex_restingByMarket ex) | Some t \<Rightarrow> [t])))"
    by (rule distinct_concat_map [OF keys d]) (auto simp: resting_of_set [OF i a])
  moreover have "distinct (waiting_of m ex)"
    using p by (simp add: waiting_of_def pends_in_def distinct_lookups [OF a])
  ultimately show ?thesis
    by (auto simp: openOrders_parts resting_of_set [OF i a] waiting_of_def)
qed

lemma order_sequence_inj:
  assumes a: "acct T {} ex"
  shows "inj_on so_sequence {o1. \<exists>oid. orderOf ex oid = Some o1}"
proof (rule inj_onI)
  fix x y assume "x \<in> {o1. \<exists>oid. orderOf ex oid = Some o1}" "y \<in> {o1. \<exists>oid. orderOf ex oid = Some o1}"
    and eq: "so_sequence x = so_sequence y"
  then obtain j k where j: "orderOf ex j = Some x" and k: "orderOf ex k = Some y" by blast
  have "j = k" using acct_entry [OF a j] acct_entry [OF a k] eq by (simp add: entry_ok_def)
  then show "x = y" using j k by simp
qed

text \<open>The index lookups report exactly what a scan over every order would.\<close>

lemma openOrders_scan:
  assumes i: "indexes_ok L ex" and a: "acct T {} ex" and p: "pends_in (ex_pending ex) ex"
  shows "openOrders m ex = filter (\<lambda>o1. live o1 \<and> in_market m o1) (allOrders ex)"
proof -
  have mok: "js_map_ok (ex_orders ex)" using a by (simp add: acct_def)
  have all: "set (map snd (ex_orders ex)) = {o1. \<exists>oid. orderOf ex oid = Some o1}"
    unfolding orderOf_def map_of_eq_Some_iff [OF mok] set_map by force
  have "map wo_orderId (map snd (ex_orders ex)) = js_keys (ex_orders ex)"
  proof -
    have "wo_orderId (snd e) = fst e" if "e \<in> set (ex_orders ex)" for e
    proof -
      obtain k v where e: "e = (k, v)" by fastforce
      have "orderOf ex k = Some v" unfolding orderOf_def map_of_eq_Some_iff [OF mok] using that e by simp
      then show ?thesis using acct_id [OF a] e by simp
    qed
    then show ?thesis by simp
  qed
  then have d: "distinct (map snd (ex_orders ex))" using mok by (metis distinct_map)
  define P where "P = (\<lambda>o1. live o1 \<and> in_market m o1)"
  have "set (openOrders m ex) = set (filter P (map snd (ex_orders ex)))"
    by (simp add: openOrders_set [OF i a p] all [simplified] P_def)
  then have ms: "mset (openOrders m ex) = mset (filter P (map snd (ex_orders ex)))"
    using set_eq_iff_mset_eq_distinct [OF openOrders_distinct [OF i a p] distinct_filter [OF d]] by blast
  have inj: "inj_on so_sequence (set (openOrders m ex))"
    by (rule inj_on_subset [OF order_sequence_inj [OF a]]) (auto simp: openOrders_set [OF i a p])
  obtain zs where z: "openOrders m ex = sort_key so_sequence zs" using openOrders_parts by blast
  have "sort_key so_sequence zs = sort_key so_sequence (filter P (map snd (ex_orders ex)))"
    by (rule sort_key_inj_key_eq) (use ms inj z in simp_all)
  then show ?thesis by (simp add: z allOrders_def filter_sort P_def)
qed

lemma finalize_stepped:
  assumes i: "indexes_ok (xo_dec cfg) ex" and a: "acct T {} ex" and p: "pends_in (ex_pending ex) ex"
    and r: "finalize cfg t ex = (us, ex2)"
  shows "stepped (xo_dec cfg) T ex ex2 \<and> ex_fills ex2 = ex_fills ex \<and> pends_in (ex_pending ex2) ex2 \<and>
    (\<forall>oid o1. orderOf ex2 oid = Some o1 \<longrightarrow> \<not> live o1)"
proof -
  define ex1 where "ex1 = snd (foldl (finalizeStep (xo_dec cfg) t) ([], ex) (openOrders None ex))"
  have ex2: "ex2 = ex1\<lparr>ex_pending := [], ex_pendingCancels := []\<rparr>"
    using r by (simp add: finalize_def ex1_def split: prod.splits)
  have o1: "live o1 \<and> (orderOf (snd ([], ex)) (wo_orderId o1) = Some o1 \<or> orderOf (snd ([], ex)) (wo_orderId o1) = Some (cancelled_as t o1))"
    if "o1 \<in> set (openOrders None ex)" for o1
    using that acct_id [OF a] by (auto simp: openOrders_set [OF i a p])
  have f: "quiet (xo_dec cfg) T ex ex1" "\<And>o1. o1 \<in> set (openOrders None ex) \<Longrightarrow> orderOf ex1 (wo_orderId o1) = Some (cancelled_as t o1)"
    using finalize_fold [of T "([], ex)" "openOrders None ex" t "xo_dec cfg"] a o1 by (auto simp: ex1_def)
  have get: "orderOf ex2 = orderOf ex1" by (rule orderOf_cong) (simp add: ex2)
  have dead: "\<not> live u" if u: "orderOf ex2 oid = Some u" for oid u
  proof
    assume l: "live u"
    have u1: "orderOf ex1 oid = Some u" using u get by simp
    obtain u0 where u0: "orderOf ex oid = Some u0" "order_step u0 u" using quiet_get [OF a f(1) u1] by blast
    have "live u0" using u0(2) l by (auto simp: order_step_def live_terminal)
    then have "u0 \<in> set (openOrders None ex)" using u0(1) by (auto simp: openOrders_set [OF i a p] in_market_def)
    then have "orderOf ex1 (wo_orderId u0) = Some (cancelled_as t u0)" by (rule f(2))
    then show False using u1 l acct_id [OF a u0(1)] by (simp add: cancelled_as_def live_def)
  qed
  have "stepped (xo_dec cfg) T ex ex1" using f(1) by (simp add: quiet_def)
  then have "stepped (xo_dec cfg) T ex ex2"
    by (rule stepped_cong [rotated 5]) (simp_all add: ex2 same_indexes_def)
  moreover have "ex_fills ex2 = ex_fills ex" using f(1) by (simp add: quiet_def ex2)
  moreover have "pends_in (ex_pending ex2) ex2" using dead by (auto simp: pends_in_def ex2 live_def)
  ultimately show ?thesis using dead by blast
qed

section \<open>Runs\<close>

text \<open>One call of the exchange, with the market state store of that moment.\<close>

datatype exchange_call =
  XSubmit order_intent int | XAdvance int | XDelta base_event delta_body | XTrade base_event trade_body
| XGap "string list" int | XResume string | XFinalize int

fun callTime :: "exchange_call \<Rightarrow> int option" where
  "callTime (XSubmit i t) = Some t"
| "callTime (XAdvance t) = Some t"
| "callTime (XDelta b e) = Some (be_receiveTimeMs b)"
| "callTime (XTrade b e) = Some (be_receiveTimeMs b)"
| "callTime (XGap ms t) = Some t"
| "callTime (XResume m) = None"
| "callTime (XFinalize t) = Some t"

fun exchangeCall :: "'s exchange_options \<Rightarrow> market_store \<Rightarrow> exchange_call \<Rightarrow> 's exchange \<Rightarrow> 's exchange" where
  "exchangeCall cfg store (XSubmit i t) ex = snd (submit cfg store i t ex)"
| "exchangeCall cfg store (XAdvance t) ex = snd (snd (advanceTo cfg store t ex))"
| "exchangeCall cfg store (XDelta b e) ex = onBookDelta cfg b e ex"
| "exchangeCall cfg store (XTrade b e) ex = snd (onTrade cfg store b e ex)"
| "exchangeCall cfg store (XGap ms t) ex = snd (onCaptureGap cfg ms t ex)"
| "exchangeCall cfg store (XResume m) ex = onCaptureResume m ex"
| "exchangeCall cfg store (XFinalize t) ex = snd (finalize cfg t ex)"

text \<open>The clock of a run never goes back, and every store is one the backtest can hold.\<close>

fun callsFrom :: "'s exchange_options \<Rightarrow> int \<Rightarrow> (market_store \<times> exchange_call) list \<Rightarrow> bool" where
  "callsFrom cfg T [] = True"
| "callsFrom cfg T ((store, c) # calls) =
     (store_ok (xo_dec cfg) (xo_sha256 cfg) store \<and>
      (case callTime c of None \<Rightarrow> callsFrom cfg T calls | Some t \<Rightarrow> T \<le> t \<and> callsFrom cfg t calls))"

fun lastTime :: "int \<Rightarrow> (market_store \<times> exchange_call) list \<Rightarrow> int" where
  "lastTime T [] = T"
| "lastTime T ((store, c) # calls) = lastTime (case callTime c of None \<Rightarrow> T | Some t \<Rightarrow> t) calls"

definition exchangeRun :: "'s exchange_options \<Rightarrow> (market_store \<times> exchange_call) list \<Rightarrow> 's exchange \<Rightarrow> 's exchange" where
  "exchangeRun cfg calls ex = foldl (\<lambda>ex (store, c). exchangeCall cfg store c ex) ex calls"

definition exchange_ok :: "'s exchange_options \<Rightarrow> int \<Rightarrow> 's exchange \<Rightarrow> bool" where
  "exchange_ok cfg T ex \<longleftrightarrow> acct T {} ex \<and> indexes_ok (xo_dec cfg) ex \<and> pends_in (ex_pending ex) ex"

lemma exchange_ok_new: "exchange_ok cfg T (newExchange s)"
  by (simp add: exchange_ok_def newExchange_def acct_def indexes_ok_def indexed_def pends_in_def orderOf_def)

text \<open>The orders a print reaches: resting in its market, on the side it consumed, at its price or better.\<close>

definition print_reaches :: "trade_body \<Rightarrow> simulated_order \<Rightarrow> bool" where
  "print_reaches e o1 \<longleftrightarrow> wo_status o1 = StResting \<and> wo_marketTicker o1 = et_marketTicker e
     \<and> (case et_takerOutcomeSide e of None \<Rightarrow> False
         | Some Yes \<Rightarrow> wo_yesAction o1 = Sell \<and> wo_yesPrice o1 \<le> et_yesPrice e
         | Some No \<Rightarrow> wo_yesAction o1 = Buy \<and> et_yesPrice e \<le> wo_yesPrice o1)"

lemma candidates_set:
  assumes i: "indexes_ok L ex" and a: "acct T {} ex" and ids: "js_get (ex_restingByMarket ex) (et_marketTicker e) = Some oids"
    and s: "et_takerOutcomeSide e = Some s"
  shows "set (candidates (eligibleAction s) (et_yesPrice e) oids ex) = {o1. \<exists>oid. orderOf ex oid = Some o1 \<and> print_reaches e o1}"
proof -
  have o: "js_get (ex_orders ex) = orderOf ex" by (rule ext) simp
  have "set (filter (\<lambda>o1. wo_status o1 = StResting) (List.map_filter (orderOf ex) oids)) =
    {o1. \<exists>oid. orderOf ex oid = Some o1 \<and> wo_status o1 = StResting \<and> wo_marketTicker o1 = et_marketTicker e}"
    using resting_of_set [OF i a, of "et_marketTicker e"] ids by (simp add: resting_of_def)
  then have "set (candidates (eligibleAction s) (et_yesPrice e) oids ex) =
    {o1 \<in> {o1. \<exists>oid. orderOf ex oid = Some o1 \<and> wo_status o1 = StResting \<and> wo_marketTicker o1 = et_marketTicker e}.
       wo_yesAction o1 = eligibleAction s \<and> reachedBy (eligibleAction s) (et_yesPrice e) o1}"
    by (auto simp: candidates_def o)
  then show ?thesis
    by (cases s) (auto simp: print_reaches_def s eligibleAction_def reachedBy_def)
qed

lemma onTrade_printed:
  assumes fm: "fill_model (xo_fillModel cfg)" and i: "indexes_ok (xo_dec cfg) ex" and a: "acct (be_receiveTimeMs b) {} ex"
    and r: "onTrade cfg store b e ex = (fs, ex2)"
  shows "printed_to (xo_dec cfg) (be_receiveTimeMs b) (et_count e) {oid. \<exists>o1. orderOf ex oid = Some o1 \<and> print_reaches e o1} ex fs ex2"
proof (cases "fs = [] \<and> ex2 = ex")
  case True
  then show ?thesis using printed_none [OF a] by simp
next
  case False
  then obtain s v oids where s: "et_takerOutcomeSide e = Some s" and ids: "js_get (ex_restingByMarket ex) (et_marketTicker e) = Some oids"
    and l: "tradeLoop cfg v b e (et_count e) (map wo_orderId (candidates (eligibleAction s) (et_yesPrice e) oids ex)) ex = (fs, ex2)"
    using r by (auto simp: onTrade_def split: option.splits if_splits)
  note c = candidates_set [OF i a ids s]
  have "set (map wo_orderId (candidates (eligibleAction s) (et_yesPrice e) oids ex)) \<subseteq>
    {oid. \<exists>o1. orderOf ex oid = Some o1 \<and> print_reaches e o1}"
    using acct_id [OF a] by (auto simp: c)
  then show ?thesis by (rule printed_mono [OF tradeLoop_printed [OF fm refl l a]])
qed

text \<open>One call keeps the exchange sound, and what the orders and the fills were stays.\<close>

lemma exchangeCall_ok:
  assumes fm: "fill_model (xo_fillModel cfg)" and lm: "latency_model (xo_latency cfg)"
    and st: "store_ok (xo_dec cfg) (xo_sha256 cfg) store" and ok: "exchange_ok cfg T ex"
    and t: "(case callTime c of None \<Rightarrow> T | Some t \<Rightarrow> t) = T'" "T \<le> T'"
  shows "exchange_ok cfg T' (exchangeCall cfg store c ex) \<and> evolves ex (exchangeCall cfg store c ex) \<and>
    (\<exists>fs. ex_fills (exchangeCall cfg store c ex) = ex_fills ex @ fs)"
proof -
  have a: "acct T' {} ex" and i: "indexes_ok (xo_dec cfg) ex" and p: "pends_in (ex_pending ex) ex"
    using ok acct_mono [OF _ t(2), of "{}" ex "{}"] by (simp_all add: exchange_ok_def)
  have fin: ?thesis if "stepped (xo_dec cfg) T' ex (exchangeCall cfg store c ex)" "ex_fills (exchangeCall cfg store c ex) = ex_fills ex @ fs"
    "pends_in (ex_pending (exchangeCall cfg store c ex)) (exchangeCall cfg store c ex)" for fs
    using that i by (auto simp: exchange_ok_def stepped_def keeps_indexes_def)
  have frame: ?thesis if "stepped (xo_dec cfg) T' ex (exchangeCall cfg store c ex)" "same_frame ex (exchangeCall cfg store c ex)"
    "ex_fills (exchangeCall cfg store c ex) = ex_fills ex @ fs" for fs
    using fin [OF that(1,3)] pends_in_step [OF a that(1,2) p] that(2) by (simp add: same_frame_def)
  show ?thesis
  proof (cases c)
    case (XSubmit intent u)
    then show ?thesis using submit_stepped [OF lm a p] fin [of "[]"] by (cases "submit cfg store intent u ex") simp
  next
    case (XAdvance u)
    obtain us fs ex2 where r: "advanceTo cfg store u ex = (us, fs, ex2)" by (metis prod_cases3)
    show ?thesis using advanceTo_stepped [OF fm st _ a p r] fin [of fs] r XAdvance t by simp
  next
    case (XDelta b e)
    then show ?thesis using onBookDelta_stepped [OF fm a, of "xo_dec cfg" b e] frame [of "[]"] by simp
  next
    case (XTrade b e)
    obtain fs ex2 where r: "onTrade cfg store b e ex = (fs, ex2)" by fastforce
    have "printed_to (xo_dec cfg) T' (et_count e) {oid. \<exists>o1. orderOf ex oid = Some o1 \<and> print_reaches e o1} ex fs ex2"
      using onTrade_printed [OF fm i _ r] a t XTrade by simp
    then show ?thesis using frame [of fs] XTrade r by (simp add: printed_to_def)
  next
    case (XGap ms u)
    then show ?thesis using onCaptureGap_stepped [OF a p] fin [of "[]"] by (cases "onCaptureGap cfg ms u ex") simp
  next
    case (XResume m)
    then show ?thesis using fin [of "[]"] stepped_refl [OF a] p by (simp add: onCaptureResume_def frozen_frame)
  next
    case (XFinalize u)
    then show ?thesis using finalize_stepped [OF i a p] fin [of "[]"] by (cases "finalize cfg u ex") simp
  qed
qed

lemma exchangeRun_ok:
  assumes fm: "fill_model (xo_fillModel cfg)" and lm: "latency_model (xo_latency cfg)"
  shows "exchange_ok cfg T ex \<Longrightarrow> callsFrom cfg T calls \<Longrightarrow>
    exchange_ok cfg (lastTime T calls) (exchangeRun cfg calls ex) \<and> evolves ex (exchangeRun cfg calls ex)"
proof (induction calls arbitrary: T ex)
  case Nil
  then show ?case by (simp add: exchangeRun_def)
next
  case (Cons p calls)
  obtain store c where p: "p = (store, c)" by fastforce
  define T' where "T' = (case callTime c of None \<Rightarrow> T | Some t \<Rightarrow> t)"
  have c: "store_ok (xo_dec cfg) (xo_sha256 cfg) store" "T \<le> T'" "callsFrom cfg T' calls"
    using Cons.prems(2) p by (auto simp: T'_def split: option.splits)
  note s = exchangeCall_ok [OF fm lm c(1) Cons.prems(1) T'_def [symmetric] c(2)]
  have "exchangeRun cfg (p # calls) ex = exchangeRun cfg calls (exchangeCall cfg store c ex)"
    by (simp add: exchangeRun_def p)
  moreover have "lastTime T (p # calls) = lastTime T' calls" by (simp add: p T'_def)
  ultimately show ?case using Cons.IH [OF _ c(3)] s evolves_trans by metis
qed

end
