(* ===== verification/ExchangeProps.thy ===== *)
theory ExchangeProps
  imports ExchangeRun
begin

text \<open>
  The properties of the simulated exchange: how much a taker gets, that fills are accounted for and come
  after their order, that a print is shared once, that a finished order stays finished, and that
  the indexes answer as a scan would.
\<close>

section \<open>Taking, level by level\<close>

context decimal_lib
begin

lemma ask_levels_sorted:
  assumes "ladder_ok L (mb_noBids b)"
  shows "sorted_wrt (\<lambda>x y. dl_of_string L (fst x) \<le> dl_of_string L (fst y)) (yesAskLevels L b)"
proof -
  have num: "dl_of_string L (canonicalPrice L (1 - dl_of_string L (fst l))) = 1 - dl_of_string L (fst l)"
    if "l \<in> set (noBidLevels L b)" for l
  proof -
    have "key_ok L (fst l)" using shown_key_ok [OF assms] that by (simp add: noBidLevels_def)
    then have "on_grid PRICE_DP (1 - dl_of_string L (fst l))" by (intro on_grid_diff on_grid_1 key_ok_grid)
    then show ?thesis by (simp add: parse_canonicalPrice)
  qed
  have "sorted_wrt (\<lambda>x y. dl_of_string L (fst y) \<le> dl_of_string L (fst x)) (noBidLevels L b)"
    using canonicalLevels_sorted [of L "ladderEntries L (mb_noBids b)"] by (simp add: noBidLevels_def level_num_def)
  then have "sorted_wrt (\<lambda>x y. dl_of_string L (canonicalPrice L (1 - dl_of_string L (fst x))) \<le>
      dl_of_string L (canonicalPrice L (1 - dl_of_string L (fst y)))) (noBidLevels L b)"
    by (rule sorted_wrt_mono_rel [rotated]) (simp add: num)
  then show ?thesis by (simp add: yesAskLevels_def sorted_wrt_map case_prod_unfold)
qed

lemma bid_levels_sorted: "sorted_wrt (\<lambda>x y. dl_of_string L (fst y) \<le> dl_of_string L (fst x)) (yesBidLevels L b)"
  using canonicalLevels_sorted [of L "ladderEntries L (mb_yesBids b)"] by (simp add: yesBidLevels_def level_num_def)

lemma level_sizes_nonneg:
  assumes "book_ok L sha b"
    and "l \<in> set (crossLevels L o1 b)"
  shows "0 \<le> dl_of_string L (snd l)"
proof -
  have ok: "ladder_ok L (mb_yesBids b)" "ladder_ok L (mb_noBids b)" using assms(1) by (simp_all add: book_ok_def)
  have "\<exists>m x. ladder_ok L m \<and> x \<in> set (shown m) \<and> snd l = snd x"
  proof (cases "wo_yesAction o1 = Buy")
    case True
    then have "l \<in> (\<lambda>(price, sz). (canonicalPrice L (1 - dl_of_string L price), sz)) ` set (shown (mb_noBids b))"
      using assms(2) by (simp add: crossLevels_def view_yesAskLevels_def yesAskLevels_def noBidLevels_def)
    then show ?thesis using ok(2) by (metis (no_types, lifting) case_prod_conv imageE snd_conv surj_pair)
  next
    case False
    then have "l \<in> set (shown (mb_yesBids b))"
      using assms(2) by (simp add: crossLevels_def view_yesBidLevels_def yesBidLevels_def)
    then show ?thesis using ok(1) by blast
  qed
  then show ?thesis using shown_sizes by (metis less_imp_le)
qed

text \<open>Once a level is too far, every later one is.\<close>

lemma cross_levels_monotone:
  assumes "book_ok L sha b"
  shows "sorted_wrt (\<lambda>x y. crossable o1 (dl_of_string L (fst y)) \<longrightarrow> crossable o1 (dl_of_string L (fst x))) (crossLevels L o1 b)"
proof (cases "wo_yesAction o1 = Buy")
  case True
  have "sorted_wrt (\<lambda>x y. dl_of_string L (fst x) \<le> dl_of_string L (fst y)) (crossLevels L o1 b)"
    using ask_levels_sorted assms True by (simp add: crossLevels_def view_yesAskLevels_def book_ok_def)
  then show ?thesis by (rule sorted_wrt_mono_rel [rotated]) (auto simp: crossable_def True)
next
  case False
  have "sorted_wrt (\<lambda>x y. dl_of_string L (fst y) \<le> dl_of_string L (fst x)) (crossLevels L o1 b)"
    using bid_levels_sorted False by (simp add: crossLevels_def view_yesBidLevels_def)
  then show ?thesis by (rule sorted_wrt_mono_rel [rotated]) (auto simp: crossable_def False)
qed

end

definition volume_within :: "dec_lib \<Rightarrow> simulated_order \<Rightarrow> level_pair list \<Rightarrow> rat" where
  "volume_within L o1 levels = (\<Sum>l\<leftarrow>levels. if crossable o1 (dl_of_string L (fst l)) then dl_of_string L (snd l) else 0)"

lemma volume_nonneg: "(\<And>l. l \<in> set levels \<Longrightarrow> 0 \<le> dl_of_string L (snd l)) \<Longrightarrow> 0 \<le> volume_within L o1 levels"
  unfolding volume_within_def by (rule sum_list_nonneg) auto

lemma crossable_filled [simp]: "crossable (o1\<lparr>wo_filledQuantity := n\<rparr>) = crossable o1"
  by (rule ext) (simp add: crossable_def)

lemma volume_filled [simp]: "volume_within L (o1\<lparr>wo_filledQuantity := n\<rparr>) levels = volume_within L o1 levels"
  by (simp add: volume_within_def)

lemma crossLoop_total:
  "crossLoop cfg v t levels o1 ex = (fs, o2, ex2) \<Longrightarrow> 0 \<le> remainingOf o1 \<Longrightarrow>
   (\<And>l. l \<in> set levels \<Longrightarrow> 0 \<le> dl_of_string (xo_dec cfg) (snd l)) \<Longrightarrow>
   sorted_wrt (\<lambda>x y. crossable o1 (dl_of_string (xo_dec cfg) (fst y)) \<longrightarrow> crossable o1 (dl_of_string (xo_dec cfg) (fst x))) levels \<Longrightarrow>
   total_filled fs = min (remainingOf o1) (volume_within (xo_dec cfg) o1 levels) \<and>
   (\<forall>f \<in> set fs. \<exists>l \<in> set levels. fl_yesPrice f = dl_of_string (xo_dec cfg) (fst l) \<and> fl_quantity f \<le> dl_of_string (xo_dec cfg) (snd l))"
proof (induction levels arbitrary: o1 ex fs)
  case Nil
  then show ?case by (simp add: volume_within_def)
next
  case (Cons l levels)
  note c = Cons.prems(1) and rem = Cons.prems(2) and sizes = Cons.prems(3) and mono = Cons.prems(4)
  let ?L = "xo_dec cfg"
  obtain ps ss where l: "l = (ps, ss)" by fastforce
  let ?p = "dl_of_string ?L ps" and ?s = "dl_of_string ?L ss"
  have s0: "0 \<le> ?s" using sizes [of l] l by simp
  have v0: "0 \<le> volume_within ?L o1 levels" by (rule volume_nonneg) (use sizes in simp)
  have vc: "volume_within ?L o1 (l # levels) = (if crossable o1 ?p then ?s else 0) + volume_within ?L o1 levels"
    by (simp add: volume_within_def l)
  consider (full) "remainingOf o1 = 0" | (far) "0 < remainingOf o1" "\<not> crossable o1 ?p"
    | (skip) "0 < remainingOf o1" "crossable o1 ?p" "min (remainingOf o1) ?s \<le> 0"
    | (take) "0 < remainingOf o1" "crossable o1 ?p" "0 < min (remainingOf o1) ?s" using rem by linarith
  then show ?case
  proof cases
    case full
    then have "fs = []" using c by (simp add: l Let_def)
    then show ?thesis using full vc v0 s0 by simp
  next
    case far
    then have fs: "fs = []" using c by (auto simp: l crossable_def Let_def split: if_splits)
    have "\<forall>x \<in> set levels. \<not> crossable o1 (dl_of_string ?L (fst x))" using mono far l by auto
    then have "volume_within ?L o1 levels = 0" by (induction levels) (simp_all add: volume_within_def)
    then show ?thesis using fs far vc by simp
  next
    case skip
    then have r: "crossLoop cfg v t levels o1 ex = (fs, o2, ex2)" using c by (simp add: l crossable_def Let_def split: if_splits)
    have "?s = 0" using skip s0 by (simp add: min_def split: if_splits)
    then show ?thesis using Cons.IH [OF r rem] sizes mono vc by fastforce
  next
    case take
    let ?q = "min (remainingOf o1) ?s"
    obtain f o3 ex3 where r: "recordFill cfg o1 ?q ?p Taker FrCross t v None None ex = (f, o3, ex3)" by (metis prod_cases3)
    obtain fs' where rest: "crossLoop cfg v t levels o3 ex3 = (fs', o2, ex2)" and fs: "fs = f # fs'"
      using c take by (auto simp: l crossable_def Let_def r split: if_splits prod.splits)
    note sp = recordFill_spec [OF r]
    have rem3: "remainingOf o3 = remainingOf o1 - ?q" by (simp add: sp(1) remainingOf_def)
    have cr: "crossable o3 = crossable o1" "volume_within ?L o3 levels = volume_within ?L o1 levels" by (simp_all add: sp(1))
    have ih: "total_filled fs' = min (remainingOf o3) (volume_within ?L o1 levels) \<and>
      (\<forall>f \<in> set fs'. \<exists>l \<in> set levels. fl_yesPrice f = dl_of_string ?L (fst l) \<and> fl_quantity f \<le> dl_of_string ?L (snd l))"
      using Cons.IH [OF rest] rem3 cr sizes mono by simp
    then have "total_filled fs = min (remainingOf o1) (?s + volume_within ?L o1 levels)"
      using rem3 sp(7) fs v0 by (simp add: min_def)
    moreover have "\<forall>f \<in> set fs. \<exists>l \<in> set (l # levels). fl_yesPrice f = dl_of_string ?L (fst l) \<and> fl_quantity f \<le> dl_of_string ?L (snd l)"
      using ih sp(7,9) fs l by auto
    ultimately show ?thesis using vc take(2) by simp
  qed
qed

text \<open>
  C33: An arriving order takes exactly the smaller of what it still wants and the displayed volume its limit
  accepts, each fill at a displayed price and no larger than that level: stopping at the first level too far
  misses nothing, because the levels are best first. What was taken before by other orders plays no part.
\<close>

theorem cross_takes_displayed:
  assumes "decimal_lib (xo_dec cfg)" "book_ok (xo_dec cfg) (xo_sha256 cfg) view" "wo_filledQuantity o1 \<le> wo_quantity o1"
    and "cross cfg o1 view nowMs ex = (fills, o2, ex2)"
  shows "(\<Sum>f\<leftarrow>fills. fl_quantity f) = min (remainingOf o1)
      (\<Sum>l\<leftarrow>crossLevels (xo_dec cfg) o1 view.
        if (if wo_yesAction o1 = Buy then dl_of_string (xo_dec cfg) (fst l) \<le> wo_yesPrice o1
            else wo_yesPrice o1 \<le> dl_of_string (xo_dec cfg) (fst l))
        then dl_of_string (xo_dec cfg) (snd l) else 0) \<and>
    (\<forall>f \<in> set fills. \<exists>l \<in> set (crossLevels (xo_dec cfg) o1 view).
      fl_yesPrice f = dl_of_string (xo_dec cfg) (fst l) \<and> fl_quantity f \<le> dl_of_string (xo_dec cfg) (snd l))"
  using crossLoop_total [OF assms(4) [unfolded cross_def]] assms(3)
    decimal_lib.level_sizes_nonneg [OF assms(1,2)] decimal_lib.cross_levels_monotone [OF assms(1,2), of o1]
  by (simp add: total_filled_def volume_within_def crossable_def remainingOf_def)

section \<open>Properties of every run\<close>

text \<open>
  C2: On every run of the exchange an order's filled quantity is the sum of the fills reported for it, never
  negative and never above what was ordered; it is all of it exactly when the order is reported filled, less while
  it rests, and nothing while it is in flight.
\<close>

theorem exchange_never_overfills:
  assumes "fill_model (xo_fillModel cfg)" "latency_model (xo_latency cfg)" "callsFrom cfg T calls"
    and "js_get (ex_orders (exchangeRun cfg calls (newExchange feeState))) oid = Some o1"
  shows "wo_filledQuantity o1 =
      (\<Sum>f\<leftarrow>ex_fills (exchangeRun cfg calls (newExchange feeState)). if fl_orderId f = oid then fl_quantity f else 0) \<and>
    0 \<le> wo_filledQuantity o1 \<and> wo_filledQuantity o1 \<le> wo_quantity o1 \<and>
    (wo_status o1 = StFilled \<longrightarrow> wo_filledQuantity o1 = wo_quantity o1) \<and>
    (wo_status o1 = StResting \<longrightarrow> wo_filledQuantity o1 < wo_quantity o1) \<and>
    (wo_status o1 = StPending \<longrightarrow> wo_filledQuantity o1 = 0)"
proof -
  have "acct (lastTime T calls) {} (exchangeRun cfg calls (newExchange feeState))"
    using exchangeRun_ok [OF assms(1,2) exchange_ok_new assms(3)] by (simp add: exchange_ok_def)
  from acct_entry [OF this] have "entry_ok (lastTime T calls) (oid \<in> {}) oid o1 (exchangeRun cfg calls (newExchange feeState))"
    using assms(4) by simp
  then show ?thesis unfolding entry_ok_def order_ok_def order_tight_def filledFor_def by blast
qed

text \<open>
  C10: No fill sees the future: on every run whose clock does not go back, a fill belongs to an order, comes after that
  order could have arrived, which is not before it was submitted, and is never worse than its limit in the
  order's own terms; a maker fill is at the limit itself, not at the print's price.
\<close>

theorem no_fill_from_the_future:
  assumes "fill_model (xo_fillModel cfg)" "latency_model (xo_latency cfg)" "callsFrom cfg T calls"
    and "f \<in> set (ex_fills (exchangeRun cfg calls (newExchange feeState)))"
  shows "fl_submittedAtMs f \<le> fl_arrivedAtMs f \<and> fl_arrivedAtMs f \<le> fl_filledAtMs f \<and> 0 < fl_quantity f \<and>
    (\<exists>o1. js_get (ex_orders (exchangeRun cfg calls (newExchange feeState))) (fl_orderId f) = Some o1 \<and>
      fl_arrivedAtMs f = so_effectiveAtMs o1 \<and>
      (if wo_action o1 = Buy then fl_price f \<le> wo_price o1 else wo_price o1 \<le> fl_price f) \<and>
      (fl_liquidity f = Maker \<longrightarrow> fl_price f = wo_price o1))"
proof -
  have a: "acct (lastTime T calls) {} (exchangeRun cfg calls (newExchange feeState))"
    using exchangeRun_ok [OF assms(1,2) exchange_ok_new assms(3)] by (simp add: exchange_ok_def)
  obtain o1 where o1: "orderOf (exchangeRun cfg calls (newExchange feeState)) (fl_orderId f) = Some o1" and f: "fill_fits f o1"
    using acct_fill [OF a assms(4)] by blast
  have ok: "order_ok (lastTime T calls) o1" by (rule acct_order [OF a o1])
  have lim: "if wo_action o1 = Buy then fl_price f \<le> wo_price o1 else wo_price o1 \<le> fl_price f"
    using f ok by (cases "wo_action o1"; cases "wo_side o1") (auto simp: fill_fits_def order_ok_def crossable_def)
  show ?thesis using f lim o1 unfolding fill_fits_def orderOf_get by blast
qed

text \<open>
  C27: A print is used once: whatever rests, the fills of one print add up to at most its size, and each goes to an order
  that was resting in that market on the side the aggressor consumed, at the print's price or better, as
  a maker. Without an aggressor side, or in a market frozen by a capture gap, nothing fills.
\<close>

theorem print_shared_once:
  assumes "fill_model (xo_fillModel cfg)" "latency_model (xo_latency cfg)" "callsFrom cfg T calls"
    and "ex = exchangeRun cfg calls (newExchange feeState)" "lastTime T calls \<le> be_receiveTimeMs b"
    and "onTrade cfg store b e ex = (fills, ex2)"
  shows "(\<Sum>f\<leftarrow>fills. fl_quantity f) \<le> max 0 (et_count e) \<and>
    (\<forall>f \<in> set fills. fl_liquidity f = Maker \<and> (\<exists>o1. js_get (ex_orders ex) (fl_orderId f) = Some o1 \<and>
      wo_status o1 = StResting \<and> wo_marketTicker o1 = et_marketTicker e \<and>
      (et_takerOutcomeSide e = Some Yes \<and> wo_yesAction o1 = Sell \<and> wo_yesPrice o1 \<le> et_yesPrice e \<or>
       et_takerOutcomeSide e = Some No \<and> wo_yesAction o1 = Buy \<and> et_yesPrice e \<le> wo_yesPrice o1))) \<and>
    (et_takerOutcomeSide e = None \<or> et_marketTicker e \<in> set (ex_frozen ex) \<longrightarrow> fills = [] \<and> ex2 = ex)"
proof -
  have ok: "exchange_ok cfg (lastTime T calls) ex"
    using exchangeRun_ok [OF assms(1,2) exchange_ok_new assms(3)] assms(4) by simp
  have "acct (be_receiveTimeMs b) {} ex" using ok acct_mono [OF _ assms(5)] by (auto simp: exchange_ok_def)
  from onTrade_printed [OF assms(1) _ this assms(6)] ok
  have p: "printed_to (xo_dec cfg) (be_receiveTimeMs b) (et_count e) {oid. \<exists>o1. orderOf ex oid = Some o1 \<and> print_reaches e o1} ex fills ex2"
    by (simp add: exchange_ok_def)
  have pr: "print_reaches e o1 \<longleftrightarrow> wo_status o1 = StResting \<and> wo_marketTicker o1 = et_marketTicker e \<and>
      (et_takerOutcomeSide e = Some Yes \<and> wo_yesAction o1 = Sell \<and> wo_yesPrice o1 \<le> et_yesPrice e \<or>
       et_takerOutcomeSide e = Some No \<and> wo_yesAction o1 = Buy \<and> et_yesPrice e \<le> wo_yesPrice o1)" for o1
    by (auto simp: print_reaches_def split: option.split book_side.split)
  moreover have "fills = [] \<and> ex2 = ex" if "et_takerOutcomeSide e = None \<or> et_marketTicker e \<in> set (ex_frozen ex)"
    using assms(6) that by (cases "et_takerOutcomeSide e") (auto simp: onTrade_def)
  ultimately show ?thesis using p unfolding printed_to_def total_filled_def pr mem_Collect_eq orderOf_get by blast
qed

lemma callsFrom_append: "callsFrom cfg T (xs @ ys) \<longleftrightarrow> callsFrom cfg T xs \<and> callsFrom cfg (lastTime T xs) ys"
  by (induction xs arbitrary: T) (auto split: option.splits)

text \<open>
  C32: A finished order never comes back: once an order is filled, cancelled or rejected, every later call leaves it
  exactly as it is. Under the policy \<open>cancel_all\<close> a capture gap finishes every order of its markets,
  in flight or resting, and \<open>finalize\<close> finishes every order.
\<close>

theorem finished_orders_stay_finished:
  assumes "fill_model (xo_fillModel cfg)" "latency_model (xo_latency cfg)" "callsFrom cfg T (before @ (store, c) # after)"
    and "js_get (ex_orders (exchangeRun cfg (before @ [(store, c)]) (newExchange feeState))) oid = Some o1"
    and "isTerminal (wo_status o1) \<or>
      (\<exists>ms t. c = XGap ms t \<and> xo_gapOrderPolicy cfg = GpCancelAll \<and> wo_marketTicker o1 \<in> set ms) \<or> (\<exists>t. c = XFinalize t)"
  shows "isTerminal (wo_status o1) \<and>
    js_get (ex_orders (exchangeRun cfg (before @ (store, c) # after) (newExchange feeState))) oid = Some o1"
proof -
  let ?ex0 = "exchangeRun cfg before (newExchange feeState)"
  let ?ex1 = "exchangeCall cfg store c ?ex0"
  let ?T1 = "case callTime c of None \<Rightarrow> lastTime T before | Some t \<Rightarrow> t"
  have c: "callsFrom cfg T before" "callsFrom cfg (lastTime T before) ((store, c) # after)"
    using assms(3) by (simp_all add: callsFrom_append)
  have run: "exchangeRun cfg (before @ [(store, c)]) (newExchange feeState) = ?ex1"
    "exchangeRun cfg (before @ (store, c) # after) (newExchange feeState) = exchangeRun cfg after ?ex1"
    by (simp_all add: exchangeRun_def)
  have ok0: "exchange_ok cfg (lastTime T before) ?ex0"
    using exchangeRun_ok [OF assms(1,2) exchange_ok_new c(1)] by simp
  have c1: "store_ok (xo_dec cfg) (xo_sha256 cfg) store" "lastTime T before \<le> ?T1" "callsFrom cfg ?T1 after"
    using c(2) by (auto split: option.splits)
  have ok1: "exchange_ok cfg ?T1 ?ex1"
    using exchangeCall_ok [OF assms(1,2) c1(1) ok0 refl c1(2)] by blast
  have g: "orderOf ?ex1 oid = Some o1" using assms(4) run(1) by simp
  have "\<not> live o1"
  proof (rule ccontr)
    assume l: "\<not> \<not> live o1"
    have a0: "acct (lastTime T before) {} ?ex0" "pends_in (ex_pending ?ex0) ?ex0" "indexes_ok (xo_dec cfg) ?ex0"
      using ok0 by (simp_all add: exchange_ok_def)
    consider ms t where "c = XGap ms t" "xo_gapOrderPolicy cfg = GpCancelAll" "wo_marketTicker o1 \<in> set ms" | t where "c = XFinalize t"
      using assms(5) l live_terminal by blast
    then show False
    proof cases
      case 1
      obtain us ex2 where r: "onCaptureGap cfg ms t ?ex0 = (us, ex2)" by fastforce
      show False using onCaptureGap_stepped [OF a0(1,2) r] 1 g l r by simp
    next
      case 2
      obtain us ex2 where r: "finalize cfg t ?ex0 = (us, ex2)" by fastforce
      show False using finalize_stepped [OF a0(3,1,2) r] 2 g l r by simp
    qed
  qed
  moreover have "evolves ?ex1 (exchangeRun cfg after ?ex1)" using exchangeRun_ok [OF assms(1,2) ok1 c1(3)] by blast
  ultimately show ?thesis using terminal_kept [OF _ g] run(2) live_terminal by auto
qed

text \<open>
  C31: The two indexes never drift from the orders they index: what is reported as open, in one market or in all, is
  exactly what scanning every order for the live ones would give, in submission order.
\<close>

theorem open_orders_are_a_scan:
  assumes "fill_model (xo_fillModel cfg)" "latency_model (xo_latency cfg)" "callsFrom cfg T calls"
    and "ex = exchangeRun cfg calls (newExchange feeState)"
  shows "openOrders market ex =
    filter (\<lambda>o1. (wo_status o1 = StResting \<or> wo_status o1 = StPending) \<and> (market = None \<or> market = Some (wo_marketTicker o1)))
      (allOrders ex)"
proof -
  have ok: "exchange_ok cfg (lastTime T calls) ex"
    using exchangeRun_ok [OF assms(1,2) exchange_ok_new assms(3)] assms(4) by simp
  have "in_market market o1 \<longleftrightarrow> market = None \<or> market = Some (wo_marketTicker o1)" for o1
    by (auto simp: in_market_def split: option.split)
  then show ?thesis using openOrders_scan [of "xo_dec cfg" ex "lastTime T calls" market] ok
    by (simp add: exchange_ok_def live_def)
qed

subsection \<open>Witnesses\<close>

text \<open>
  A store with one bid of 10 at 0.40 and one NO bid of 7 at 0.50, and a limit buy of 10 at 0.60 that arrives 50 ms
  after it is sent: it takes the 7 offered at 0.50 and rests 3.
\<close>

definition wit_view :: market_book where
  "wit_view = the (js_get (mk_books (wit_store [''A''])) ''M'')"

lemma wit_view_facts:
  "ms_view ''M'' (wit_store [''A'']) = Some wit_view" "mb_valid wit_view"
  "mb_yesBids wit_view = [(''0.400000'', 10)]" "mb_noBids wit_view = [(''0.500000'', 7)]"
proof -
  obtain b where b: "js_get (mk_books (wit_store [''A''])) ''M'' = Some b"
    using wit_store_book(1) by (cases "js_get (mk_books (wit_store [''A''])) ''M''") simp_all
  then show "ms_view ''M'' (wit_store [''A'']) = Some wit_view" by (simp add: ms_view_def wit_view_def)
  show "mb_yesBids wit_view = [(''0.400000'', 10)]" "mb_noBids wit_view = [(''0.500000'', 7)]"
    using wit_store_book b by (simp_all add: wit_view_def)
  show "mb_valid wit_view"
    by (simp_all add: wit_view_def wit_store_def storeRun_def newMarketStore_def wit_snap_event_def ms_applySnapshot_def Let_def
    putStoreBook_def setOwner_def wit_base_def replaceWithSnapshot_def newMarketBook_def setLevel_def
    canonicalPrice_def PRICE_DP_def std_strings)
qed

lemma wit_store_ok: "store_ok std_dlib sha (wit_store [''A''])"
  unfolding wit_store_def by (rule storeRun_ok) (simp_all add: std.decimal_lib_axioms wit_snap_ok)

definition wit_cfg :: "unit exchange_options" where
  "wit_cfg = \<lparr>xo_fillModel = conservativeQueueModel, xo_feeModel = zeroFeeModel, xo_latency = uniform 50, xo_marketStates = [],
     xo_gapOrderPolicy = GpCancelAll, xo_dec = std_dlib, xo_sha256 = (\<lambda>s. s), xo_decString = (\<lambda>p. '''')\<rparr>"

definition wit_limit :: limit_intent where
  "wit_limit = \<lparr>li_marketTicker = ''M'', li_side = Yes, li_action = Buy, li_price = 3 / 5, li_quantity = 10,
     li_clientOrderId = ''c1'', li_timeInForce = None, li_tag = None\<rparr>"

definition wit_calls :: "(market_store \<times> exchange_call) list" where
  "wit_calls = [(wit_store [''A''], XSubmit (LimitIntent wit_limit) 0), (wit_store [''A''], XAdvance 100)]"

lemma wit_cfg_laws: "fill_model (xo_fillModel wit_cfg)" "latency_model (xo_latency wit_cfg)"
  "callsFrom wit_cfg 0 wit_calls" "lastTime 0 wit_calls = 100"
  by (simp_all add: wit_cfg_def conservative.fill_model_axioms uniform_laws wit_calls_def wit_store_ok)

lemma wit_ask_levels: "view_yesAskLevels std_dlib wit_view = [(''0.500000'', ''7.000000'')]"
  by (simp add: view_yesAskLevels_def yesAskLevels_def noBidLevels_def wit_view_facts ladderEntries_def canonicalLevels_def
   canonicalPrice_def canonicalSize_def PRICE_DP_def SIZE_DP_def std_strings std_numbers sort_desc_def)

definition wit_o1 :: simulated_order where
  "wit_o1 = newOrder wit_cfg (wit_store [''A'']) (LimitIntent wit_limit) (limitRequest wit_limit) 0 1"

lemmas wit_o1 = newOrder_fields [OF wit_o1_def]

lemma wit_submit: "exchangeCall wit_cfg (wit_store [''A'']) (XSubmit (LimitIntent wit_limit) 0) (newExchange ()) =
   \<lparr>ex_orders = [(''o1'', wit_o1)], ex_byClientId = [(''c1'', ''o1'')], ex_pending = [''o1''], ex_pendingCancels = [],
     ex_restingByLevel = [], ex_restingByMarket = [], ex_frozen = [], ex_orderSeq = 1, ex_fillSeq = 0, ex_fills = [], ex_feeState = ()\<rparr>"
proof -
  have "int_str 1 = ''1''" by (simp add: int_str_def std_eval)
  then have n: "orderIdOf 1 = ''o1''" by (simp add: orderIdOf_def)
  have r: "rq_clientOrderId (limitRequest wit_limit) = ''c1''" "rq_quantity (limitRequest wit_limit) = 10"
     "rq_price (limitRequest wit_limit) = 3 / 5"
    by (simp_all add: wit_limit_def limitRequest_def)
  have o: "newOrder wit_cfg (wit_store [''A'']) (LimitIntent wit_limit) (limitRequest wit_limit) 0 (0 + 1) = wit_o1"
    by (simp add: wit_o1_def)
  have "submit wit_cfg (wit_store [''A'']) (LimitIntent wit_limit) 0 (newExchange ()) = ([orderUpdate wit_o1 ''accepted'' 0],
    \<lparr>ex_orders = [(''o1'', wit_o1)], ex_byClientId = [(''c1'', ''o1'')], ex_pending = [''o1''], ex_pendingCancels = [],
     ex_restingByLevel = [], ex_restingByMarket = [], ex_frozen = [], ex_orderSeq = 1, ex_fillSeq = 0, ex_fills = [], ex_feeState = ()\<rparr>)"
    unfolding submit.simps submitNew_def newExchange_def Let_def exchange.select_convs js_has_def r o
    by (simp add: putOrder_def wit_o1 n n [simplified] r)
  then show ?thesis by simp
qed

lemma wit_cross_total:
  assumes "cross wit_cfg o1 wit_view t ex = (fs, o2, ex2)" "wo_filledQuantity o1 = 0" "wo_quantity o1 = 10"
    "wo_yesAction o1 = Buy" "wo_yesPrice o1 = 3 / 5"
  shows "total_filled fs = 7"
proof -
  have cfg: "xo_dec wit_cfg = std_dlib" by (simp add: wit_cfg_def)
  have lv: "crossLevels std_dlib o1 wit_view = [(''0.500000'', ''7.000000'')]" using assms by (simp add: crossLevels_def wit_ask_levels)
  have "total_filled fs = min (remainingOf o1) (volume_within std_dlib o1 [(''0.500000'', ''7.000000'')])"
    using crossLoop_total [OF assms(1) [unfolded cross_def cfg lv]] assms(2,3) by (simp add: cfg std_numbers remainingOf_def)
  then show ?thesis using assms by (simp add: volume_within_def crossable_def std_numbers remainingOf_def)
qed

lemma wit_o1_static: "wo_yesAction wit_o1 = Buy" "wo_yesPrice wit_o1 = 3 / 5" "wo_marketTicker wit_o1 = ''M''" "wo_quantity wit_o1 = 10"
    "so_effectiveAtMs wit_o1 = 50"
proof -
  have m: "math_round 50 = 50" "math_round 0 = 0" by (simp_all add: math_round_def floor_eq_iff)
  show "wo_yesAction wit_o1 = Buy" "wo_yesPrice wit_o1 = 3 / 5" "wo_marketTicker wit_o1 = ''M''" "wo_quantity wit_o1 = 10"
    "so_effectiveAtMs wit_o1 = 50"
    by (simp_all add: wit_o1_def newOrder_def Let_def limitRequest_def wit_limit_def wit_cfg_def submitEffectiveAt_def uniform_def
      fixedLatencyModel_def m)
qed

text \<open>The arrival fills: the run's list of fills is not empty.\<close>

abbreviation wit_run :: "unit exchange" where
  "wit_run \<equiv> exchangeRun wit_cfg wit_calls (newExchange ())"

definition wit_ex1 :: "unit exchange" where
  "wit_ex1 = exchangeCall wit_cfg (wit_store [''A'']) (XSubmit (LimitIntent wit_limit) 0) (newExchange ())"

lemma wit_cfg_store: "store_ok (xo_dec wit_cfg) (xo_sha256 wit_cfg) (wit_store [''A''])"
  by (simp add: wit_cfg_def wit_store_ok)

lemma wit_ex1_ok: "exchange_ok wit_cfg 0 wit_ex1"
  unfolding wit_ex1_def
  using exchangeCall_ok [OF wit_cfg_laws(1,2) wit_cfg_store exchange_ok_new, of 0 "XSubmit (LimitIntent wit_limit) 0" 0] by simp

lemma wit_ex1_fields: "ex_pending wit_ex1 = [''o1'']" "ex_pendingCancels wit_ex1 = []" "orderOf wit_ex1 ''o1'' = Some wit_o1"
  "ex_fills wit_ex1 = []" "wo_orderId wit_o1 = ''o1''" "wit_ex1\<lparr>ex_pendingCancels := []\<rparr> = wit_ex1"
  "ex_orders wit_ex1 = [(''o1'', wit_o1)]"
proof -
  have e: "wit_ex1 = \<lparr>ex_orders = [(''o1'', wit_o1)], ex_byClientId = [(''c1'', ''o1'')], ex_pending = [''o1''],
     ex_pendingCancels = [], ex_restingByLevel = [], ex_restingByMarket = [], ex_frozen = [], ex_orderSeq = 1, ex_fillSeq = 0,
     ex_fills = [], ex_feeState = ()\<rparr>" using wit_submit by (simp add: wit_ex1_def)
  show "ex_pending wit_ex1 = [''o1'']" "ex_pendingCancels wit_ex1 = []" "ex_fills wit_ex1 = []"
    "wit_ex1\<lparr>ex_pendingCancels := []\<rparr> = wit_ex1" "ex_orders wit_ex1 = [(''o1'', wit_o1)]" by (simp_all add: e)
  show "orderOf wit_ex1 ''o1'' = Some wit_o1" by (simp add: e orderOf_def del: orderOf_get)
  then show "wo_orderId wit_o1 = ''o1''" using wit_ex1_ok acct_id by (auto simp: exchange_ok_def)
qed

lemma wit_activation:
  assumes "activate wit_cfg (wit_store [''A'']) wit_o1 100 wit_ex1 = (us, fs, ex2)"
  shows "total_filled fs = 7" "ex_fills ex2 = fs"
proof -
  have cfg: "xo_dec wit_cfg = std_dlib" by (simp add: wit_cfg_def)
  obtain oa ex o2 ex3 where c: "cross wit_cfg oa wit_view 100 ex = (fs, o2, ex3)" and
    oa: "\<exists>x y z. oa = wit_o1\<lparr>so_arrivalBid := x, so_arrivalAsk := y, so_arrivalDisplayedSize := z\<rparr>"
    using assms by (fastforce simp: activate_def Let_def wit_o1_static wit_view_facts split: prod.splits if_splits)
  show "total_filled fs = 7"
    by (rule wit_cross_total [OF c]) (use oa wit_o1(4) wit_o1_static in auto)
  have "acct 100 {} wit_ex1" using wit_ex1_ok acct_mono [of 0 "{}" wit_ex1 100 "{}"] by (simp add: exchange_ok_def)
  then show "ex_fills ex2 = fs"
    using activate_stepped [OF wit_cfg_laws(1) _ _ _ _ _ _ assms, of "\<lambda>s. s" 100] wit_store_ok [of "\<lambda>s. s"] wit_ex1_fields wit_o1(5) wit_o1_static
    by (simp add: cfg)
qed

lemma wit_run_fills: "\<exists>f. f \<in> set (ex_fills wit_run)"
proof -
  obtain us fs ex2 where ac: "activate wit_cfg (wit_store [''A'']) wit_o1 100 wit_ex1 = (us, fs, ex2)" by (metis prod_cases3)
  have "advanceTo wit_cfg (wit_store [''A'']) 100 wit_ex1 = (us, fs, ex2\<lparr>ex_pending := []\<rparr>)"
    by (simp add: advanceTo_def wit_ex1_fields wit_o1(5) wit_o1_static ac Let_def)
  then have "ex_fills wit_run = fs" "fs \<noteq> []"
    using wit_activation [OF ac] by (auto simp: exchangeRun_def wit_calls_def wit_ex1_def [symmetric] simp del: exchangeCall.simps(1))
  then show ?thesis by (metis list.set_intros(1) neq_Nil_conv)
qed

theorem cross_takes_displayed_witness:
  "(\<Sum>f\<leftarrow>fst (cross wit_cfg wit_o1 wit_view 100 wit_ex1). fl_quantity f) = 7"
proof -
  obtain fs o2 ex2 where c: "cross wit_cfg wit_o1 wit_view 100 wit_ex1 = (fs, o2, ex2)" by (metis prod_cases3)
  have cfg: "xo_dec wit_cfg = std_dlib" "xo_sha256 wit_cfg = (\<lambda>s. s)" by (simp_all add: wit_cfg_def)
  have "book_fine std_dlib (\<lambda>s. s) wit_view" using wit_store_ok wit_view_facts(1) by (auto simp: store_ok_def ms_view_def)
  then have "book_ok (xo_dec wit_cfg) (xo_sha256 wit_cfg) wit_view" by (simp add: book_fine_def cfg)
  from cross_takes_displayed [OF _ this _ c] show ?thesis
    using std.decimal_lib_axioms wit_o1(4) wit_o1_static by (simp add: c cfg crossLevels_def wit_ask_levels std_numbers remainingOf_def)
qed

theorem exchange_never_overfills_witness:
  "\<exists>o1. js_get (ex_orders wit_run) ''o1'' = Some o1 \<and> wo_quantity o1 = 10 \<and> wo_filledQuantity o1 \<le> 10 \<and>
     wo_filledQuantity o1 = (\<Sum>f\<leftarrow>ex_fills wit_run. if fl_orderId f = ''o1'' then fl_quantity f else 0)"
proof -
  have "callsFrom wit_cfg 0 (tl wit_calls)" by (simp add: wit_calls_def wit_cfg_def wit_store_ok)
  moreover have "exchangeRun wit_cfg (tl wit_calls) wit_ex1 = wit_run"
    by (simp add: exchangeRun_def wit_calls_def wit_ex1_def)
  ultimately have "evolves wit_ex1 wit_run" using exchangeRun_ok [OF wit_cfg_laws(1,2) wit_ex1_ok] by metis
  then obtain o1 where o1: "js_get (ex_orders wit_run) ''o1'' = Some o1" "order_step wit_o1 o1"
    using wit_ex1_fields(3) by (auto simp: evolves_def)
  then have "wo_quantity o1 = 10" using wit_o1_static by (simp add: order_step_def same_order_def)
  then show ?thesis using exchange_never_overfills [OF wit_cfg_laws(1,2,3) o1(1)] o1(1) by auto
qed

theorem no_fill_from_the_future_witness:
  "\<exists>f. f \<in> set (ex_fills wit_run) \<and> fl_arrivedAtMs f \<le> fl_filledAtMs f \<and> 0 < fl_quantity f"
  using wit_run_fills no_fill_from_the_future [OF wit_cfg_laws(1,2,3)] by blast

definition wit_print :: trade_body where
  "wit_print = \<lparr>et_marketTicker = ''M'', et_tradeId = ''t1'', et_yesPrice = 3 / 5, et_noPrice = 2 / 5, et_count = 2,
     et_takerOutcomeSide = Some No, et_takerBookSide = None, et_isBlockTrade = False\<rparr>"

theorem print_shared_once_witness:
  "(\<Sum>f\<leftarrow>fst (onTrade wit_cfg (wit_store [''A'']) (wit_base 200 ''A'') wit_print wit_run). fl_quantity f) \<le> 2"
proof -
  obtain fs ex2 where r: "onTrade wit_cfg (wit_store [''A'']) (wit_base 200 ''A'') wit_print wit_run = (fs, ex2)" by fastforce
  have "lastTime 0 wit_calls \<le> be_receiveTimeMs (wit_base 200 ''A'')" by (simp add: wit_cfg_laws wit_base_def)
  from print_shared_once [OF wit_cfg_laws(1,2,3) refl this r] show ?thesis unfolding r by (simp add: wit_print_def)
qed

theorem finished_orders_stay_finished_witness:
  "\<exists>o1. js_get (ex_orders (exchangeRun wit_cfg
     [(wit_store [''A''], XSubmit (LimitIntent wit_limit) 0), (wit_store [''A''], XGap [''M''] 60), (wit_store [''A''], XAdvance 100)]
     (newExchange ()))) ''o1'' = Some o1 \<and> isTerminal (wo_status o1)"
proof -
  let ?st = "wit_store [''A'']" and ?s = "XSubmit (LimitIntent wit_limit) 0"
  have calls: "callsFrom wit_cfg 0 ([(?st, ?s)] @ (?st, XGap [''M''] 60) # [(?st, XAdvance 100)])"
    by (simp add: wit_cfg_def wit_store_ok)
  have c2: "callsFrom wit_cfg 0 [(?st, XGap [''M''] 60)]" by (simp add: wit_cfg_def wit_store_ok)
  have "evolves wit_ex1 (exchangeRun wit_cfg [(?st, XGap [''M''] 60)] wit_ex1)"
    using exchangeRun_ok [OF wit_cfg_laws(1,2) wit_ex1_ok c2] by blast
  moreover have "exchangeRun wit_cfg [(?st, XGap [''M''] 60)] wit_ex1 =
      exchangeRun wit_cfg ([(?st, ?s)] @ [(?st, XGap [''M''] 60)]) (newExchange ())"
    by (simp add: exchangeRun_def wit_ex1_def)
  ultimately obtain o1 where o1: "js_get (ex_orders (exchangeRun wit_cfg ([(?st, ?s)] @ [(?st, XGap [''M''] 60)]) (newExchange ()))) ''o1'' = Some o1"
    "order_step wit_o1 o1" using wit_ex1_fields(3) by (auto simp: evolves_def)
  then have "wo_marketTicker o1 = ''M''" using wit_o1_static by (simp add: order_step_def same_order_def)
  then have "\<exists>ms t. XGap [''M''] 60 = XGap ms t \<and> xo_gapOrderPolicy wit_cfg = GpCancelAll \<and> wo_marketTicker o1 \<in> set ms"
    by (simp add: wit_cfg_def)
  then show ?thesis using finished_orders_stay_finished [OF wit_cfg_laws(1,2) calls o1(1)] by auto
qed

theorem open_orders_are_a_scan_witness: "openOrders None (exchangeRun wit_cfg [hd wit_calls] (newExchange ())) = [wit_o1]"
proof -
  have c: "callsFrom wit_cfg 0 [hd wit_calls]" by (simp add: wit_calls_def wit_cfg_def wit_store_ok)
  have r: "wit_ex1 = exchangeRun wit_cfg [hd wit_calls] (newExchange ())"
    by (simp add: exchangeRun_def wit_ex1_def wit_calls_def)
  show ?thesis
    using open_orders_are_a_scan [OF wit_cfg_laws(1,2) c r, of None] unfolding r [symmetric]
    by (simp add: allOrders_def wit_ex1_fields wit_o1(5))
qed

end
