(* ===== verification/MidSeries.thy ===== *)
theory MidSeries
  imports Orders
begin

text \<open>
  The mid and microprice history of a market: \<open>src/src/research/metrics/midSeries.ts\<close>.

  A series keeps only the changes, several events of one millisecond share a point, and a lookup is a binary
  search. The theorem is that none of this can be seen: a lookup answers with the last value recorded at
  or before the instant, and never beyond the last instant observed. A JavaScript \<open>undefined\<close> is an
  outer \<open>None\<close>, a \<open>null\<close> an inner one; millisecond numbers are integers.
\<close>

section \<open>The series\<close>

definition MICROS :: rat where
  "MICROS = 1000000"

definition toMicros :: "rat option \<Rightarrow> int option" where
  "toMicros v = (case v of None \<Rightarrow> None | Some x \<Rightarrow> Some (math_round (x * MICROS)))"

definition fromMicros :: "dec_lib \<Rightarrow> int option \<Rightarrow> rat option" where
  "fromMicros L v = (case v of None \<Rightarrow> None | Some n \<Rightarrow> Some (ddiv L (of_int n) MICROS))"

record mid_series =
  md_times :: "int list"
  md_mids :: "int option list"
  md_micros :: "int option list"
  md_lastMid :: "int option option"
  md_lastMicro :: "int option option"
  md_observedUntil :: "int option"

definition newMidSeries :: mid_series where
  "newMidSeries = \<lparr>md_times = [], md_mids = [], md_micros = [], md_lastMid = None, md_lastMicro = None,
     md_observedUntil = None\<rparr>"

definition observe :: "int \<Rightarrow> mid_series \<Rightarrow> mid_series" where
  "observe t s =
     (if (case md_observedUntil s of None \<Rightarrow> True | Some u \<Rightarrow> u < t) then s\<lparr>md_observedUntil := Some t\<rparr> else s)"

definition recordMidPoint :: "int \<Rightarrow> rat option \<Rightarrow> rat option \<Rightarrow> mid_series \<Rightarrow> mid_series" where
  "recordMidPoint t mid microprice s =
     (let s = observe t s; m = toMicros mid; mp = toMicros microprice
      in if Some m = md_lastMid s \<and> Some mp = md_lastMicro s then s
         else
           let s = (if 0 < length (md_times s) \<and> last (md_times s) = t
                    then s\<lparr>md_mids := (md_mids s)[length (md_mids s) - 1 := m],
                           md_micros := (md_micros s)[length (md_micros s) - 1 := mp]\<rparr>
                    else s\<lparr>md_times := md_times s @ [t], md_mids := md_mids s @ [m], md_micros := md_micros s @ [mp]\<rparr>)
           in s\<lparr>md_lastMid := Some m, md_lastMicro := Some mp\<rparr>)"

definition md_length :: "mid_series \<Rightarrow> nat" where
  "md_length s = length (md_times s)"

definition lastTimeMs :: "mid_series \<Rightarrow> int option" where
  "lastTimeMs s = (if length (md_times s) = 0 then None else Some (last (md_times s)))"

text \<open>The loop of \<open>indexAt\<close>: \<open>(lo + hi) >> 1\<close> is the halved sum.\<close>

function searchLoop :: "int list \<Rightarrow> int \<Rightarrow> int \<Rightarrow> int \<Rightarrow> int \<Rightarrow> int" where
  "searchLoop stamps atMs lo hi found =
     (if lo \<le> hi then
        (let middle = (lo + hi) div 2
         in if stamps ! nat middle \<le> atMs then searchLoop stamps atMs (middle + 1) hi middle
            else searchLoop stamps atMs lo (middle - 1) found)
      else found)"
  by pat_completeness auto

termination
  by (relation "measure (\<lambda>(stamps, atMs, lo, hi, found). nat (hi - lo + 1))") auto

declare searchLoop.simps [simp del]

definition indexAt :: "int \<Rightarrow> mid_series \<Rightarrow> int" where
  "indexAt atMs s = searchLoop (md_times s) atMs 0 (int (length (md_times s)) - 1) (- 1)"

definition midAt :: "dec_lib \<Rightarrow> int \<Rightarrow> mid_series \<Rightarrow> rat option" where
  "midAt L atMs s =
     (if (case md_observedUntil s of None \<Rightarrow> True | Some u \<Rightarrow> u < atMs) then None
      else let i = indexAt atMs s in if i < 0 then None else fromMicros L (md_mids s ! nat i))"

definition micropriceAt :: "dec_lib \<Rightarrow> int \<Rightarrow> mid_series \<Rightarrow> rat option" where
  "micropriceAt L atMs s =
     (if (case md_observedUntil s of None \<Rightarrow> True | Some u \<Rightarrow> u < atMs) then None
      else let i = indexAt atMs s in if i < 0 then None else fromMicros L (md_micros s ! nat i))"

section \<open>The store\<close>

type_synonym mid_store = "(string, mid_series) jsmap"

definition seriesFor :: "string \<Rightarrow> mid_store \<Rightarrow> mid_series \<times> mid_store" where
  "seriesFor t store =
     (case js_get store t of
        Some s \<Rightarrow> (s, store)
      | None \<Rightarrow> (newMidSeries, js_set t newMidSeries store))"

definition onSeries :: "string \<Rightarrow> (mid_series \<Rightarrow> mid_series) \<Rightarrow> mid_store \<Rightarrow> mid_store" where
  \<comment> \<open>a mutation of the series \<open>store.for(t)\<close> returns\<close>
  "onSeries t f store = (let (s, store) = seriesFor t store in js_set t (f s) store)"

definition seriesGet :: "string \<Rightarrow> mid_store \<Rightarrow> mid_series option" where
  "seriesGet t store = js_get store t"

definition totalPoints :: "mid_store \<Rightarrow> nat" where
  "totalPoints store = foldl (\<lambda>n e. n + md_length (snd e)) 0 store"

section \<open>Binary search\<close>

definition countAt :: "int \<Rightarrow> int list \<Rightarrow> nat" where
  "countAt t stamps = length (filter (\<lambda>u. u \<le> t) stamps)"

lemma countAt_le: "countAt t stamps \<le> length stamps"
  by (simp add: countAt_def)

lemma countAt_snoc: "countAt t (stamps @ [u]) = countAt t stamps + (if u \<le> t then 1 else 0)"
  by (simp add: countAt_def)

text \<open>In a sorted list exactly the first \<open>countAt t\<close> elements are at most \<open>t\<close>.\<close>

lemma countAt_nth: "sorted_wrt (<) stamps \<Longrightarrow> i < length stamps \<Longrightarrow> stamps ! i \<le> t \<longleftrightarrow> i < countAt t stamps"
proof (induction stamps arbitrary: i)
  case (Cons u stamps)
  show ?case
  proof (cases "u \<le> t")
    case True
    then show ?thesis using Cons by (cases i) (auto simp: countAt_def)
  next
    case False
    then have "\<forall>v \<in> set stamps. \<not> v \<le> t" using Cons.prems(1) by auto
    then have z: "countAt t (u # stamps) = 0" using False by (simp add: countAt_def)
    have "\<not> (u # stamps) ! i \<le> t" using False Cons.prems \<open>\<forall>v \<in> set stamps. \<not> v \<le> t\<close> by (cases i) auto
    then show ?thesis using z by simp
  qed
qed simp

lemma searchLoop_count:
  assumes "sorted_wrt (<) stamps" "0 \<le> lo" "hi < int (length stamps)" "lo \<le> int (countAt t stamps)"
    "int (countAt t stamps) \<le> hi + 1" "found = lo - 1"
  shows "searchLoop stamps t lo hi found = int (countAt t stamps) - 1"
  using assms
proof (induction stamps t lo hi found rule: searchLoop.induct)
  case (1 stamps t lo hi found)
  show ?case
  proof (cases "lo \<le> hi")
    case False
    then show ?thesis using "1.prems" by (subst searchLoop.simps) simp
  next
    case True
    define middle where "middle = (lo + hi) div 2"
    have m: "lo \<le> middle" "middle \<le> hi" "nat middle < length stamps" "int (nat middle) = middle"
      using True "1.prems"(2,3) by (auto simp: middle_def)
    note nth = countAt_nth [OF "1.prems"(1) m(3), of t]
    show ?thesis
    proof (cases "stamps ! nat middle \<le> t")
      case True
      then have "middle < int (countAt t stamps)" using nth m(4) by simp
      then show ?thesis
        by (subst searchLoop.simps)
          (use "1.IH"(1) [OF \<open>lo \<le> hi\<close> middle_def True] "1.prems" m True \<open>lo \<le> hi\<close> in
           \<open>simp add: Let_def middle_def [symmetric]\<close>)
    next
      case False
      then have "int (countAt t stamps) \<le> middle" using nth m(4) by linarith
      then show ?thesis
        by (subst searchLoop.simps)
          (use "1.IH"(2) [OF \<open>lo \<le> hi\<close> middle_def False] "1.prems" m False \<open>lo \<le> hi\<close> in
           \<open>simp add: Let_def middle_def [symmetric]\<close>)
    qed
  qed
qed

lemma indexAt_count: "sorted_wrt (<) (md_times s) \<Longrightarrow> indexAt t s = int (countAt t (md_times s)) - 1"
  unfolding indexAt_def by (rule searchLoop_count) (use countAt_le [of t "md_times s"] in auto)

section \<open>What a lookup answers\<close>

text \<open>The uses of a series during a run, and the plain history they stand for.\<close>

datatype mid_op = MdObserve int | MdRecord int "rat option" "rat option"

fun mdStep :: "mid_series \<Rightarrow> mid_op \<Rightarrow> mid_series" where
  "mdStep s (MdObserve t) = observe t s"
| "mdStep s (MdRecord t m mp) = recordMidPoint t m mp s"

definition mdRun :: "mid_op list \<Rightarrow> mid_series" where
  "mdRun ops = foldl mdStep newMidSeries ops"

fun opTime :: "mid_op \<Rightarrow> int" where
  "opTime (MdObserve t) = t"
| "opTime (MdRecord t m mp) = t"

fun recordsUpTo :: "int \<Rightarrow> mid_op list \<Rightarrow> (int option \<times> int option) list" where
  "recordsUpTo t [] = []"
| "recordsUpTo t (MdObserve u # ops) = recordsUpTo t ops"
| "recordsUpTo t (MdRecord u m mp # ops) = (if u \<le> t then [(toMicros m, toMicros mp)] else []) @ recordsUpTo t ops"

definition inForce :: "int \<Rightarrow> mid_op list \<Rightarrow> (int option \<times> int option) option" where
  "inForce t ops = (if recordsUpTo t ops = [] then None else Some (last (recordsUpTo t ops)))"

definition pointAt :: "int \<Rightarrow> mid_series \<Rightarrow> (int option \<times> int option) option" where
  "pointAt t s = (let n = countAt t (md_times s)
     in if n = 0 then None else Some (md_mids s ! (n - 1), md_micros s ! (n - 1)))"

definition series_ok :: "mid_op list \<Rightarrow> mid_series \<Rightarrow> bool" where
  "series_ok ops s \<longleftrightarrow> sorted_wrt (<) (md_times s) \<and> length (md_mids s) = length (md_times s)
     \<and> length (md_micros s) = length (md_times s) \<and> set (md_times s) \<subseteq> set (map opTime ops)
     \<and> (if md_times s = [] then md_lastMid s = None \<and> md_lastMicro s = None
        else md_lastMid s = Some (last (md_mids s)) \<and> md_lastMicro s = Some (last (md_micros s)))
     \<and> (\<forall>t. pointAt t s = inForce t ops)
     \<and> md_observedUntil s = (if ops = [] then None else Some (Max (set (map opTime ops))))"

lemma recordsUpTo_append: "recordsUpTo t (ops @ ops') = recordsUpTo t ops @ recordsUpTo t ops'"
  by (induction t ops rule: recordsUpTo.induct) auto

lemma inForce_observe: "inForce t (ops @ [MdObserve u]) = inForce t ops"
  by (simp add: inForce_def recordsUpTo_append)

lemma inForce_record: "inForce t (ops @ [MdRecord u m mp]) = (if u \<le> t then Some (toMicros m, toMicros mp) else inForce t ops)"
  by (simp add: inForce_def recordsUpTo_append)

lemma observe_until:
  assumes "md_observedUntil s = (if ops = [] then None else Some (Max (set (map opTime ops))))"
  shows "md_observedUntil (observe t s) = Some (Max (set (map opTime ops @ [t])))"
proof (cases "ops = []")
  case True
  then show ?thesis using assms by (simp add: observe_def)
next
  case False
  define M where "M = Max (set (map opTime ops))"
  have "Max (set (map opTime ops @ [t])) = max t M" using False by (simp add: M_def)
  moreover have "md_observedUntil s = Some M" using assms False by (simp add: M_def)
  ultimately show ?thesis by (simp add: observe_def max_def)
qed

lemma observe_fields [simp]:
  "md_times (observe t s) = md_times s" "md_mids (observe t s) = md_mids s" "md_micros (observe t s) = md_micros s"
  "md_lastMid (observe t s) = md_lastMid s" "md_lastMicro (observe t s) = md_lastMicro s" "pointAt u (observe t s) = pointAt u s"
  by (simp_all add: observe_def pointAt_def Let_def)

lemma countAt_all: "(\<And>u. u \<in> set stamps \<Longrightarrow> u \<le> t) \<Longrightarrow> countAt t stamps = length stamps"
  by (simp add: countAt_def)

lemma series_ok_observe: "series_ok ops s \<Longrightarrow> series_ok (ops @ [MdObserve t]) (observe t s)"
  using observe_until [of s ops t] by (auto simp: series_ok_def inForce_observe)

lemma last_update_last: "length xs = n \<Longrightarrow> n \<noteq> 0 \<Longrightarrow> xs[n - Suc 0 := x] = butlast xs @ [x]"
  by (induction xs arbitrary: n) (auto split: nat.split list.split simp: neq_Nil_conv)

lemma series_ok_record:
  assumes ok: "series_ok ops s" and le: "\<And>op. op \<in> set ops \<Longrightarrow> opTime op \<le> t"
  shows "series_ok (ops @ [MdRecord t mid microprice]) (recordMidPoint t mid microprice s)"
proof -
  let ?m = "toMicros mid" and ?mp = "toMicros microprice" and ?ops = "ops @ [MdRecord t mid microprice]"
  have srt: "sorted_wrt (<) (md_times s)" and len: "length (md_mids s) = length (md_times s)" "length (md_micros s) = length (md_times s)"
    and sub: "set (md_times s) \<subseteq> set (map opTime ops)" and pt: "\<And>u. pointAt u s = inForce u ops"
    using ok by (simp_all add: series_ok_def)
  have obs: "md_observedUntil (observe t s) = Some (Max (set (map opTime ?ops)))"
    using observe_until [of s ops t] ok by (simp add: series_ok_def)
  have before: "u \<le> t" if "u \<in> set (md_times s)" for u using that sub le by auto
  have all: "countAt u (md_times s) = length (md_times s)" if "t \<le> u" for u
    by (rule countAt_all) (use before that in force)
  have sub': "set (md_times s) \<subseteq> set (map opTime ?ops)" using sub by auto
  consider (same) "Some ?m = md_lastMid s" "Some ?mp = md_lastMicro s"
    | (over) "\<not> (Some ?m = md_lastMid s \<and> Some ?mp = md_lastMicro s)" "md_times s \<noteq> []" "last (md_times s) = t"
    | (new) "\<not> (Some ?m = md_lastMid s \<and> Some ?mp = md_lastMicro s)" "md_times s = [] \<or> last (md_times s) \<noteq> t" by blast
  then show ?thesis
  proof cases
    case same
    then have r: "recordMidPoint t mid microprice s = observe t s" by (simp add: recordMidPoint_def Let_def)
    have ne: "md_times s \<noteq> []" and l: "last (md_mids s) = ?m" "last (md_micros s) = ?mp"
      using same ok by (auto simp: series_ok_def split: if_splits)
    have "pointAt u s = Some (?m, ?mp)" if "t \<le> u" for u
    proof -
      have "md_mids s \<noteq> []" "md_micros s \<noteq> []" using ne len by auto
      then show ?thesis using all [OF that] ne l len by (simp add: pointAt_def Let_def last_conv_nth)
    qed
    then have "pointAt u (observe t s) = inForce u ?ops" for u by (simp add: inForce_record pt [symmetric])
    then show ?thesis using ok obs sub' unfolding r series_ok_def by auto
  next
    case over
    define s' where "s' = recordMidPoint t mid microprice s"
    have f: "md_times s' = md_times s" "md_mids s' = butlast (md_mids s) @ [?m]" "md_micros s' = butlast (md_micros s) @ [?mp]"
      "md_lastMid s' = Some ?m" "md_lastMicro s' = Some ?mp" "md_observedUntil s' = md_observedUntil (observe t s)"
      using over len last_update_last [OF len(1), of ?m] last_update_last [OF len(2), of ?mp]
      by (auto simp: s'_def recordMidPoint_def Let_def)
    have "pointAt u s' = inForce u ?ops" for u
    proof (cases "t \<le> u")
      case True
      then have "countAt u (md_times s') = length (md_times s)" using all f(1) by simp
      then show ?thesis using over(2) len True by (simp add: pointAt_def f(2,3) inForce_record nth_append)
    next
      case False
      have "countAt u (md_times s) < length (md_times s)"
        using countAt_nth [OF srt, of "length (md_times s) - 1" u] over(2,3) False
        by (cases "length (md_times s)") (simp_all add: last_conv_nth)
      then have "pointAt u s' = pointAt u s" using len by (auto simp: pointAt_def f Let_def nth_append nth_butlast)
      then show ?thesis using False pt by (simp add: inForce_record)
    qed
    then show ?thesis using over srt len sub' obs unfolding s'_def [symmetric] series_ok_def by (simp add: f)
  next
    case new
    define s' where "s' = recordMidPoint t mid microprice s"
    have f: "md_times s' = md_times s @ [t]" "md_mids s' = md_mids s @ [?m]" "md_micros s' = md_micros s @ [?mp]"
      "md_lastMid s' = Some ?m" "md_lastMicro s' = Some ?mp" "md_observedUntil s' = md_observedUntil (observe t s)"
      using new by (auto simp: s'_def recordMidPoint_def Let_def)
    have "u < t" if u: "u \<in> set (md_times s)" for u
    proof -
      obtain i where i: "i < length (md_times s)" "md_times s ! i = u" using u by (auto simp: in_set_conv_nth)
      have ne: "md_times s \<noteq> []" using u by auto
      have "last (md_times s) \<le> t" using before ne by simp
      then have "last (md_times s) < t" using new ne by simp
      moreover have "u \<le> last (md_times s)"
      proof (cases "i = length (md_times s) - 1")
        case False
        then have "i < length (md_times s) - 1" "length (md_times s) - 1 < length (md_times s)" using i by linarith+
        then show ?thesis using i ne sorted_wrt_nth_less [OF srt] by (fastforce simp: last_conv_nth)
      qed (use i ne in \<open>simp add: last_conv_nth\<close>)
      ultimately show ?thesis by simp
    qed
    then have srt': "sorted_wrt (<) (md_times s')" using srt by (auto simp: f sorted_wrt_append)
    have "pointAt u s' = inForce u ?ops" for u
    proof (cases "t \<le> u")
      case True
      then have "countAt u (md_times s') = Suc (length (md_times s))" using all by (simp add: f countAt_snoc)
      then show ?thesis using len True by (simp add: pointAt_def f inForce_record nth_append)
    next
      case False
      then have "countAt u (md_times s') = countAt u (md_times s)" by (simp add: f countAt_snoc)
      then have "pointAt u s' = pointAt u s"
        using len countAt_le [of u "md_times s"] by (auto simp: pointAt_def f Let_def nth_append)
      then show ?thesis using False pt by (simp add: inForce_record)
    qed
    then show ?thesis using srt' len sub' obs unfolding s'_def [symmetric] series_ok_def by (simp add: f)
  qed
qed

lemma series_ok_run: "sorted (map opTime ops) \<Longrightarrow> series_ok ops (mdRun ops)"
proof (induction ops rule: rev_induct)
  case Nil
  show ?case by (simp add: mdRun_def series_ok_def newMidSeries_def pointAt_def countAt_def inForce_def)
next
  case (snoc op ops)
  have ok: "series_ok ops (mdRun ops)" using snoc by (simp add: sorted_append)
  have le: "opTime x \<le> opTime op" if "x \<in> set ops" for x using snoc.prems that by (simp add: sorted_append)
  have run: "mdRun (ops @ [op]) = mdStep (mdRun ops) op" by (simp add: mdRun_def)
  show ?case
  proof (cases op)
    case (MdObserve t)
    then show ?thesis using series_ok_observe [OF ok] run by simp
  next
    case (MdRecord t m mp)
    then show ?thesis using series_ok_record [OF ok, of t m mp] le run by simp
  qed
qed

text \<open>
  C29: A lookup answers with the last mid recorded at or before the instant, rounded to micro-dollars, and with nothing
  before the first record, after the last instant observed, or where the value in force is unknown: keeping only changes,
  sharing a point within a millisecond and searching by bisection lose nothing.
\<close>

theorem lookup_is_last_recorded:
  assumes "sorted (map opTime ops)"
  shows "midAt L t (mdRun ops) =
    (if \<forall>op \<in> set ops. opTime op < t then None
     else case recordsUpTo t ops of [] \<Rightarrow> None | vs \<Rightarrow> fromMicros L (fst (last vs))) \<and>
   micropriceAt L t (mdRun ops) =
    (if \<forall>op \<in> set ops. opTime op < t then None
     else case recordsUpTo t ops of [] \<Rightarrow> None | vs \<Rightarrow> fromMicros L (snd (last vs)))"
proof -
  have ok: "series_ok ops (mdRun ops)" by (rule series_ok_run [OF assms])
  then have srt: "sorted_wrt (<) (md_times (mdRun ops))" and pt: "pointAt t (mdRun ops) = inForce t ops"
    and obs: "md_observedUntil (mdRun ops) = (if ops = [] then None else Some (Max (set (map opTime ops))))"
    by (simp_all add: series_ok_def)
  have unseen: "(case md_observedUntil (mdRun ops) of None \<Rightarrow> True | Some u \<Rightarrow> u < t) \<longleftrightarrow> (\<forall>op \<in> set ops. opTime op < t)"
    unfolding obs by (cases "ops = []") simp_all
  have at_point: "(let i = indexAt t (mdRun ops) in if i < 0 then None else fromMicros L (f (mdRun ops) ! nat i)) =
    (case recordsUpTo t ops of [] \<Rightarrow> None | vs \<Rightarrow> fromMicros L (sel (last vs)))"
    if f: "\<And>n. sel (md_mids (mdRun ops) ! n, md_micros (mdRun ops) ! n) = f (mdRun ops) ! n" for f sel
  proof -
    have "(let i = indexAt t (mdRun ops) in if i < 0 then None else fromMicros L (f (mdRun ops) ! nat i)) =
      (case pointAt t (mdRun ops) of None \<Rightarrow> None | Some v \<Rightarrow> fromMicros L (sel v))"
      unfolding indexAt_count [OF srt] pointAt_def Let_def
      by (cases "countAt t (md_times (mdRun ops))") (simp_all add: f)
    then show ?thesis unfolding pt by (simp add: inForce_def split: list.split)
  qed
  show ?thesis
    unfolding midAt_def micropriceAt_def unseen using at_point [of fst md_mids] at_point [of snd md_micros] by simp
qed

theorem lookup_is_last_recorded_witness:
  "midAt std_dlib 25 (mdRun [MdRecord 10 (Some (1 / 2)) None, MdRecord 20 (Some (1 / 2)) None, MdObserve 30]) = Some (1 / 2)"
proof -
  have "math_round (500000 :: rat) = 500000" by (simp add: math_round_def floor_eq_iff)
  then have m: "toMicros (Some (1 / 2)) = Some 500000" by (simp add: toMicros_def MICROS_def)
  have "sig34 (1 / 2 :: rat)" using sig34_scaled [of 5 1] by simp
  then have d: "ddiv std_dlib 500000 1000000 = 1 / 2" using std.ddiv_exact [of 500000 1000000] by simp
  have "sorted (map opTime [MdRecord 10 (Some (1 / 2)) None, MdRecord 20 (Some (1 / 2)) None, MdObserve 30])" by simp
  from lookup_is_last_recorded [OF this, of std_dlib 25] show ?thesis
    by (simp add: m fromMicros_def MICROS_def d)
qed

end
