(* ===== verification/Engine.thy ===== *)
theory Engine
  imports MidSeries Timers Portfolio Exchange "HOL-Library.Signed_Division"
begin

text \<open>
  The backtest engine: \<open>src/src/research/engine/backtestEngine.ts\<close>, with the interfaces it talks to,
  \<open>src/src/research/strategy/strategy.ts\<close> and \<open>context.ts\<close>.

  A strategy is code the engine calls, so it is a parameter: \<open>strategy\<close> has one function per
  callback. A callback runs against the context, and a \<open>callback\<close> is what it does there, call by call: each
  read of the context, each order, each timer, in the order they happen, ending with the strategy's own new
  state or an exception. \<open>engine\<close> has the private fields of \<open>BacktestEngine\<close>, with the local
  first and last event times of \<open>run\<close>; \<open>marketStates\<close> is the source's answer and is read there. An exception ends a run, so it is the left side of a sum; a run
  that does not return is \<open>None\<close>. Wall-clock time, memory samples and logs are left out.
\<close>

section \<open>Errors\<close>

datatype engine_error =
  EngineClock clock_error
| EngineTimer timer_error
| EngineGapAborted int "int option"
| EngineDivisionByZero
| StrategyThrew string

definition bindE :: "'e + 'a \<Rightarrow> ('a \<Rightarrow> 'e + 'b) \<Rightarrow> 'e + 'b" where
  "bindE m f = (case m of Inl e \<Rightarrow> Inl e | Inr x \<Rightarrow> f x)"

text \<open>The same for a computation that may not return.\<close>

definition bindR :: "('e + 'a) option \<Rightarrow> ('a \<Rightarrow> ('e + 'b) option) \<Rightarrow> ('e + 'b) option" where
  "bindR m f = (case m of None \<Rightarrow> None | Some (Inl e) \<Rightarrow> Some (Inl e) | Some (Inr x) \<Rightarrow> f x)"

section \<open>Strategies\<close>

text \<open>What \<open>ctx.state\<close> returns; the book view is the book.\<close>

record strategy_market =
  sm_ticker :: string
  sm_book :: market_book
  sm_valid :: bool
  sm_seriesTicker :: "string option"
  sm_eventTicker :: "string option"

text \<open>Everything a strategy can read of its context at one moment.\<close>

record strategy_view =
  sv_nowMs :: int
  sv_startMs :: "int option"
  sv_mode :: execution_mode
  sv_markets :: "string list"
  sv_state :: "string \<Rightarrow> strategy_market option"
  sv_position :: "string \<Rightarrow> rat"
  sv_open :: "string option \<Rightarrow> working_order list"
  sv_find :: "string \<Rightarrow> working_order option"

datatype 'st callback =
  Finish 'st
| Raise string
| Look "strategy_view \<Rightarrow> 'st callback"
| Submit order_intent "'st callback"
| ScheduleAfter int string "string option" "int \<Rightarrow> 'st callback"
| CancelTimer int "bool \<Rightarrow> 'st callback"

definition ctx_cancel :: "string \<Rightarrow> 'st callback \<Rightarrow> 'st callback" where
  "ctx_cancel clientOrderId k = Submit (CancelIntent clientOrderId) k"

definition ctx_replace :: "string \<Rightarrow> string \<Rightarrow> rat option \<Rightarrow> rat option \<Rightarrow> 'st callback \<Rightarrow> 'st callback" where
  "ctx_replace clientOrderId newClientOrderId price quantity k =
     Submit (ReplaceIntent \<lparr>ri_clientOrderId = clientOrderId, ri_newPrice = price, ri_newQuantity = quantity,
               ri_newClientOrderId = newClientOrderId\<rparr>) k"

record 'st strategy =
  sg_onStart :: "'st \<Rightarrow> 'st callback"
  sg_onBookUpdate :: "research_event \<Rightarrow> 'st \<Rightarrow> 'st callback"
  sg_onTrade :: "research_event \<Rightarrow> 'st \<Rightarrow> 'st callback"
  sg_onFill :: "fill \<Rightarrow> 'st \<Rightarrow> 'st callback"
  sg_onOrderUpdate :: "order_update \<Rightarrow> 'st \<Rightarrow> 'st callback"
  sg_onTimer :: "research_event \<Rightarrow> 'st \<Rightarrow> 'st callback"
  sg_onDataGap :: "research_event \<Rightarrow> 'st \<Rightarrow> 'st callback"
  sg_onDataResume :: "string \<Rightarrow> 'st \<Rightarrow> 'st callback"
  sg_onStop :: "'st \<Rightarrow> 'st callback"

definition BaseStrategy :: "'st strategy" where
  "BaseStrategy = \<lparr>sg_onStart = Finish, sg_onBookUpdate = (\<lambda>e. Finish), sg_onTrade = (\<lambda>e. Finish),
     sg_onFill = (\<lambda>f. Finish), sg_onOrderUpdate = (\<lambda>u. Finish), sg_onTimer = (\<lambda>e. Finish),
     sg_onDataGap = (\<lambda>e. Finish), sg_onDataResume = (\<lambda>t. Finish), sg_onStop = Finish\<rparr>"

section \<open>Options and state\<close>

datatype capture_gap_policy = CgAbort | CgSkipEvent | CgSkipUntilFreshSnapshot

record book_checkpoint =
  bc_marketTicker :: string
  bc_atMs :: int
  bc_stateHash :: string

text \<open>What the engine asks of a data source, for the request of the run.\<close>

record historical_source =
  hs_marketTickers :: "string list"
  hs_events :: "research_event list"
  hs_checkpoints :: "book_checkpoint list"
  hs_marketStates :: "(string, market_state) jsmap"

record ('s, 'st) backtest_options =
  bo_source :: historical_source
  bo_strategy :: "'st strategy"
  bo_fillModel :: fill_model
  bo_feeModel :: "'s fee_model"
  bo_latency :: latency_model
  bo_gapPolicy :: "capture_gap_policy option"
  bo_gapOrderPolicy :: "gap_order_policy option"
  bo_markIntervalMs :: "int option"
  bo_maxEvents :: "nat option"
  bo_counterfactualFillModels :: "fill_model list"
  bo_verifyCheckpoints :: "bool option"
  bo_dec :: dec_lib
  bo_sha256 :: "string \<Rightarrow> string"
  bo_decString :: "rat \<Rightarrow> string"

record invalid_interval =
  iv_marketTicker :: string
  iv_fromMs :: string
  iv_toMs :: "string option"
  iv_reason :: string

record engine_counts =
  ct_events :: nat
  ct_snapshots :: nat
  ct_deltas :: nat
  ct_trades :: nat
  ct_timers :: nat
  ct_captureGaps :: nat
  ct_ordersSubmitted :: nat
  ct_ordersCancelled :: nat
  ct_ordersRejected :: nat

record checkpoint_mismatch =
  cm_marketTicker :: string
  cm_atMs :: string
  cm_expected :: string
  cm_actual :: string

record checkpoint_checks =
  cc_compared :: nat
  cc_matched :: nat
  cc_skippedInvalidBook :: nat
  cc_mismatches :: "checkpoint_mismatch list"

record 's counterfactual =
  cf_model :: fill_model
  cf_exchange :: "'s exchange"
  cf_portfolio :: portfolio

record ('s, 'st) engine =
  en_clock :: simulation_clock
  en_scheduler :: timer_scheduler
  en_store :: market_store
  en_portfolio :: portfolio
  en_midSeries :: mid_store
  en_exchange :: "'s exchange"
  en_counterfactuals :: "'s counterfactual list"
  en_seriesOf :: "(string, string option) jsmap"
  en_eventOf :: "(string, string option) jsmap"
  en_gapOpen :: "(string, nat) jsmap"   \<comment> \<open>the interval object, by its index in \<open>en_invalidIntervals\<close>\<close>
  en_invalidIntervals :: "invalid_interval list"
  en_equityCurve :: "equity_row list"
  en_universe :: "string list"
  en_nextMarkMs :: "int option"
  en_counts :: engine_counts
  en_checks :: checkpoint_checks
  en_checkpoints :: "book_checkpoint list"
  en_checkpointIdx :: nat
  en_strategy :: 'st
  en_firstEventMs :: "int option"
  en_lastEventMs :: "int option"

text \<open>Both exchanges are built from the same options; the market states are filled in before the first event.\<close>

definition exchangeOptions :: "('s, 'st) backtest_options \<Rightarrow> fill_model \<Rightarrow> 's exchange_options" where
  "exchangeOptions cfg model =
     \<lparr>xo_fillModel = model, xo_feeModel = bo_feeModel cfg, xo_latency = bo_latency cfg,
      xo_marketStates = hs_marketStates (bo_source cfg),
      xo_gapOrderPolicy = (case bo_gapOrderPolicy cfg of None \<Rightarrow> GpCancelAll | Some p \<Rightarrow> p),
      xo_dec = bo_dec cfg, xo_sha256 = bo_sha256 cfg, xo_decString = bo_decString cfg\<rparr>"

abbreviation primaryOptions :: "('s, 'st) backtest_options \<Rightarrow> 's exchange_options" where
  "primaryOptions cfg \<equiv> exchangeOptions cfg (bo_fillModel cfg)"

definition gapPolicy :: "('s, 'st) backtest_options \<Rightarrow> capture_gap_policy" where
  "gapPolicy cfg = (case bo_gapPolicy cfg of None \<Rightarrow> CgSkipUntilFreshSnapshot | Some p \<Rightarrow> p)"

definition markIntervalMs :: "('s, 'st) backtest_options \<Rightarrow> int" where
  "markIntervalMs cfg = (case bo_markIntervalMs cfg of None \<Rightarrow> 1000 | Some n \<Rightarrow> n)"

definition newEngine :: "('s, 'st) backtest_options \<Rightarrow> 's \<Rightarrow> 'st \<Rightarrow> ('s, 'st) engine" where
  "newEngine cfg feeState st =
     \<lparr>en_clock = newClock 0, en_scheduler = newScheduler, en_store = newMarketStore, en_portfolio = newPortfolio,
      en_midSeries = [], en_exchange = newExchange feeState,
      en_counterfactuals = map (\<lambda>m. \<lparr>cf_model = m, cf_exchange = newExchange feeState, cf_portfolio = newPortfolio\<rparr>)
        (bo_counterfactualFillModels cfg),
      en_seriesOf = [], en_eventOf = [], en_gapOpen = [], en_invalidIntervals = [], en_equityCurve = [],
      en_universe = [], en_nextMarkMs = None,
      en_counts = \<lparr>ct_events = 0, ct_snapshots = 0, ct_deltas = 0, ct_trades = 0, ct_timers = 0, ct_captureGaps = 0,
        ct_ordersSubmitted = 0, ct_ordersCancelled = 0, ct_ordersRejected = 0\<rparr>,
      en_checks = \<lparr>cc_compared = 0, cc_matched = 0, cc_skippedInvalidBook = 0, cc_mismatches = []\<rparr>,
      en_checkpoints = [], en_checkpointIdx = 0, en_strategy = st,
      en_firstEventMs = None, en_lastEventMs = None\<rparr>"

section \<open>The context\<close>

definition marketStateOf :: "('s, 'st) engine \<Rightarrow> string \<Rightarrow> strategy_market option" where
  "marketStateOf en ticker =
     (case ms_view ticker (en_store en) of
        None \<Rightarrow> None
      | Some book \<Rightarrow> Some \<lparr>sm_ticker = ticker, sm_book = book, sm_valid = mb_valid book,
          sm_seriesTicker = Option.bind (js_get (en_seriesOf en) ticker) (\<lambda>x. x),
          sm_eventTicker = Option.bind (js_get (en_eventOf en) ticker) (\<lambda>x. x)\<rparr>)"

definition contextView :: "('s, 'st) engine \<Rightarrow> strategy_view" where
  "contextView en =
     \<lparr>sv_nowMs = sc_nowMs (en_clock en), sv_startMs = sc_startMs (en_clock en), sv_mode = ModeBacktest,
      sv_markets = en_universe en, sv_state = marketStateOf en,
      sv_position = (\<lambda>ticker. positionQuantity ticker (en_portfolio en)),
      sv_open = (\<lambda>market. map working_order.truncate (openOrders market (en_exchange en))),
      sv_find = (\<lambda>c. map_option working_order.truncate (findByClientId c (en_exchange en)))\<rparr>"

text \<open>The adapter submits to the primary exchange and to the counterfactual ones; the gateway drops what it returns.\<close>

definition ctx_submit :: "('s, 'st) backtest_options \<Rightarrow> order_intent \<Rightarrow> ('s, 'st) engine \<Rightarrow> ('s, 'st) engine" where
  "ctx_submit cfg intent en =
     (let others = map (\<lambda>c. (exchangeOptions cfg (cf_model c), cf_exchange c)) (en_counterfactuals en);
          (updates, ex, exs) = adapter_submit (primaryOptions cfg) others (en_store en) intent (sc_nowMs (en_clock en)) (en_exchange en)
      in en\<lparr>en_exchange := ex,
            en_counterfactuals := map2 (\<lambda>c ex. c\<lparr>cf_exchange := ex\<rparr>) (en_counterfactuals en) exs\<rparr>)"

primrec runCallback ::
  "('s, 'st) backtest_options \<Rightarrow> 'st callback \<Rightarrow> ('s, 'st) engine \<Rightarrow> engine_error + ('s, 'st) engine" where
  "runCallback cfg (Finish st) en = Inr (en\<lparr>en_strategy := st\<rparr>)"
| "runCallback cfg (Raise why) en = Inl (StrategyThrew why)"
| "runCallback cfg (Look k) en = runCallback cfg (k (contextView en)) en"
| "runCallback cfg (Submit intent k) en = runCallback cfg k (ctx_submit cfg intent en)"
| "runCallback cfg (ScheduleAfter delayMs label market k) en =
     (case scheduleAfter (sc_nowMs (en_clock en)) delayMs label market (en_scheduler en) of
        Inl err \<Rightarrow> Inl (EngineTimer err)
      | Inr p \<Rightarrow> runCallback cfg (k (fst p)) (en\<lparr>en_scheduler := snd p\<rparr>))"
| "runCallback cfg (CancelTimer i k) en =
     runCallback cfg (k (fst (ts_cancel i (en_scheduler en)))) (en\<lparr>en_scheduler := snd (ts_cancel i (en_scheduler en))\<rparr>)"

section \<open>Plumbing\<close>

definition hasMark :: "('s, 'st) backtest_options \<Rightarrow> string \<Rightarrow> ('s, 'st) engine \<Rightarrow> bool" where
  "hasMark cfg ticker en =
     (case ms_view ticker (en_store en) of
        None \<Rightarrow> False
      | Some view \<Rightarrow> mb_valid view \<and> bbo_mid (view_bbo (bo_dec cfg) view) \<noteq> None)"

definition markStepOf :: "('s, 'st) backtest_options \<Rightarrow> market_store \<Rightarrow> marks \<Rightarrow> position_state \<Rightarrow> marks" where
  "markStepOf cfg store marks pos =
     js_set (ps_marketTicker pos)
       (case ms_view (ps_marketTicker pos) store of
          None \<Rightarrow> None
        | Some view \<Rightarrow> if mb_valid view then bbo_mid (view_bbo (bo_dec cfg) view) else None) marks"

definition marksOf :: "('s, 'st) backtest_options \<Rightarrow> ('s, 'st) engine \<Rightarrow> marks" where
  "marksOf cfg en = foldl (markStepOf cfg (en_store en)) [] (allPositions (en_portfolio en))"

definition markEngine :: "('s, 'st) backtest_options \<Rightarrow> int \<Rightarrow> ('s, 'st) engine \<Rightarrow> ('s, 'st) engine" where
  "markEngine cfg atMs en =
     (let marks = marksOf cfg en;
          en = en\<lparr>en_portfolio := mark atMs marks (en_portfolio en)\<rparr>
      in en\<lparr>en_equityCurve := en_equityCurve en @ [equityRow (bo_dec cfg) atMs marks (en_portfolio en)]\<rparr>)"

text \<open>A \<open>bigint\<close> division truncates, and by zero it throws.\<close>

definition maybeMark ::
  "('s, 'st) backtest_options \<Rightarrow> int \<Rightarrow> ('s, 'st) engine \<Rightarrow> engine_error + ('s, 'st) engine" where
  "maybeMark cfg atMs en =
     (case en_nextMarkMs en of
        None \<Rightarrow> Inr en
      | Some next \<Rightarrow>
          if atMs < next then Inr en
          else
            let en = markEngine cfg atMs en; step = markIntervalMs cfg
            in if step = 0 then Inl EngineDivisionByZero
               else Inr (en\<lparr>en_nextMarkMs := Some (next + ((atMs - next) sdiv step + 1) * step)\<rparr>))"

definition recordMid :: "('s, 'st) backtest_options \<Rightarrow> string \<Rightarrow> int \<Rightarrow> ('s, 'st) engine \<Rightarrow> ('s, 'st) engine" where
  "recordMid cfg marketTicker atMs en =
     (case ms_view marketTicker (en_store en) of
        None \<Rightarrow> en
      | Some view \<Rightarrow>
          if \<not> mb_valid view
          then en\<lparr>en_midSeries := onSeries marketTicker (recordMidPoint atMs None None) (en_midSeries en)\<rparr>
          else en\<lparr>en_midSeries := onSeries marketTicker
                 (recordMidPoint atMs (bbo_mid (view_bbo (bo_dec cfg) view)) (view_microprice (bo_dec cfg) view))
                 (en_midSeries en)\<rparr>)"

text \<open>What the exchange reports: fills first, then order updates, each with its callback.\<close>

fun applyFills ::
  "('s, 'st) backtest_options \<Rightarrow> simulated_fill list \<Rightarrow> ('s, 'st) engine \<Rightarrow> engine_error + ('s, 'st) engine" where
  "applyFills cfg [] en = Inr en"
| "applyFills cfg (f # fs) en =
     (let en = (if \<not> fl_feeKnown f then en\<lparr>en_portfolio := noteUnknownFee (en_portfolio en)\<rparr> else en);
          en = en\<lparr>en_portfolio := pf_applyFill (bo_dec cfg) f (en_portfolio en)\<rparr>
      in bindE (runCallback cfg (sg_onFill (bo_strategy cfg) (fill.truncate f) (en_strategy en)) en) (applyFills cfg fs))"

definition countUpdate :: "order_status \<Rightarrow> engine_counts \<Rightarrow> engine_counts" where
  "countUpdate status c =
     (let c = (if status = StPending then c\<lparr>ct_ordersSubmitted := ct_ordersSubmitted c + 1\<rparr> else c);
          c = (if status = StCancelled then c\<lparr>ct_ordersCancelled := ct_ordersCancelled c + 1\<rparr> else c)
      in if status = StRejected then c\<lparr>ct_ordersRejected := ct_ordersRejected c + 1\<rparr> else c)"

fun applyUpdates ::
  "('s, 'st) backtest_options \<Rightarrow> order_update list \<Rightarrow> ('s, 'st) engine \<Rightarrow> engine_error + ('s, 'st) engine" where
  "applyUpdates cfg [] en = Inr en"
| "applyUpdates cfg (u # us) en =
     (let en = en\<lparr>en_counts := countUpdate (ou_status u) (en_counts en)\<rparr>
      in bindE (runCallback cfg (sg_onOrderUpdate (bo_strategy cfg) u (en_strategy en)) en) (applyUpdates cfg us))"

definition applyExchange ::
  "('s, 'st) backtest_options \<Rightarrow> order_update list \<Rightarrow> simulated_fill list \<Rightarrow> ('s, 'st) engine \<Rightarrow> engine_error + ('s, 'st) engine" where
  "applyExchange cfg updates fills en = bindE (applyFills cfg fills en) (applyUpdates cfg updates)"

definition advancePrimary ::
  "('s, 'st) backtest_options \<Rightarrow> int \<Rightarrow> ('s, 'st) engine \<Rightarrow> engine_error + ('s, 'st) engine" where
  \<comment> \<open>\<open>applyExchange(exchange.advanceTo(atMs))\<close>\<close>
  "advancePrimary cfg atMs en =
     (let (updates, fills, ex) = advanceTo (primaryOptions cfg) (en_store en) atMs (en_exchange en)
      in applyExchange cfg updates fills (en\<lparr>en_exchange := ex\<rparr>))"

text \<open>
  An operation on every counterfactual exchange in turn, whose fills go to that counterfactual's portfolio. All
  exchanges of a run hold the one fee model object: its state is taken from the primary exchange and returned to it.
\<close>

definition eachCounterfactual ::
  "('s, 'st) backtest_options \<Rightarrow> ('s exchange_options \<Rightarrow> 's exchange \<Rightarrow> simulated_fill list \<times> 's exchange) \<Rightarrow>
     ('s, 'st) engine \<Rightarrow> ('s, 'st) engine" where
  "eachCounterfactual cfg act en =
     foldl (\<lambda>en i.
        let c = en_counterfactuals en ! i;
            (fills, ex) = act (exchangeOptions cfg (cf_model c)) ((cf_exchange c)\<lparr>ex_feeState := ex_feeState (en_exchange en)\<rparr>);
            c = c\<lparr>cf_exchange := ex, cf_portfolio := foldl (\<lambda>pf f. pf_applyFill (bo_dec cfg) f pf) (cf_portfolio c) fills\<rparr>
        in en\<lparr>en_counterfactuals := (en_counterfactuals en)[i := c],
              en_exchange := (en_exchange en)\<lparr>ex_feeState := ex_feeState ex\<rparr>\<rparr>)
       en [0..<length (en_counterfactuals en)]"

definition advanceCounterfactuals :: "('s, 'st) backtest_options \<Rightarrow> int \<Rightarrow> ('s, 'st) engine \<Rightarrow> ('s, 'st) engine" where
  "advanceCounterfactuals cfg atMs en =
     eachCounterfactual cfg (\<lambda>xo ex. let (updates, fills, ex) = advanceTo xo (en_store en) atMs ex in (fills, ex)) en"

definition advanceClock :: "int \<Rightarrow> ('s, 'st) engine \<Rightarrow> engine_error + ('s, 'st) engine" where
  "advanceClock atMs en =
     (case sc_advanceTo atMs (en_clock en) of Inl e \<Rightarrow> Inl (EngineClock e) | Inr c \<Rightarrow> Inr (en\<lparr>en_clock := c\<rparr>))"

definition countTimer :: "engine_counts \<Rightarrow> engine_counts" where
  "countTimer c = c\<lparr>ct_timers := ct_timers c + 1\<rparr>"

text \<open>The timers drained for one due time, in order.\<close>

fun fireTimers ::
  "('s, 'st) backtest_options \<Rightarrow> scheduled_timer list \<Rightarrow> ('s, 'st) engine \<Rightarrow> engine_error + ('s, 'st) engine" where
  "fireTimers cfg [] en = Inr en"
| "fireTimers cfg (t # ts) en =
     bindE (advanceClock (tm_dueMs t) en) (\<lambda>en.
     bindE (advancePrimary cfg (tm_dueMs t) en) (\<lambda>en.
       let en = advanceCounterfactuals cfg (tm_dueMs t) en;
           en = en\<lparr>en_counts := countTimer (en_counts en)\<rparr>
       in bindE (runCallback cfg (sg_onTimer (bo_strategy cfg) (timerEvent t ''simulated'') (en_strategy en)) en)
            (fireTimers cfg ts)))"

text \<open>The loop has no bound of its own: a timer may schedule another.\<close>

partial_function (option) drainTimersBefore ::
  "('s, 'st) backtest_options \<Rightarrow> int \<Rightarrow> ('s, 'st) engine \<Rightarrow> (engine_error + ('s, 'st) engine) option" where
  "drainTimersBefore cfg atMs en =
     (let (due, s) = peekDueMs (en_scheduler en);
          en = en\<lparr>en_scheduler := s\<rparr>
      in case due of
           None \<Rightarrow> Some (Inr en)
         | Some d \<Rightarrow>
             if atMs < d then Some (Inr en)
             else
               (let (timers, s) = drainDue d (en_scheduler en)
                in case fireTimers cfg timers (en\<lparr>en_scheduler := s\<rparr>) of
                     Inl err \<Rightarrow> Some (Inl err)
                   | Inr en \<Rightarrow> drainTimersBefore cfg atMs en))"

section \<open>Checkpoints\<close>

text \<open>One iteration on the next checkpoint; the loop runs over those not compared yet.\<close>

definition compareCheckpoint :: "('s, 'st) backtest_options \<Rightarrow> book_checkpoint \<Rightarrow> ('s, 'st) engine \<Rightarrow> ('s, 'st) engine" where
  "compareCheckpoint cfg cp en =
     (let en = en\<lparr>en_checkpointIdx := en_checkpointIdx en + 1\<rparr>; c = en_checks en
      in case (case ms_view (bc_marketTicker cp) (en_store en) of None \<Rightarrow> None | Some v \<Rightarrow> if mb_valid v then Some v else None) of
           None \<Rightarrow> en\<lparr>en_checks := c\<lparr>cc_skippedInvalidBook := cc_skippedInvalidBook c + 1\<rparr>\<rparr>
         | Some view \<Rightarrow>
             (let c = c\<lparr>cc_compared := cc_compared c + 1\<rparr>;
                  actual = view_stateHash (bo_dec cfg) (bo_sha256 cfg) view
              in if actual = bc_stateHash cp then en\<lparr>en_checks := c\<lparr>cc_matched := cc_matched c + 1\<rparr>\<rparr>
                 else if length (cc_mismatches c) < 25
                 then en\<lparr>en_checks := c\<lparr>cc_mismatches := cc_mismatches c @
                        [\<lparr>cm_marketTicker = bc_marketTicker cp, cm_atMs = int_str (bc_atMs cp),
                          cm_expected = bc_stateHash cp, cm_actual = actual\<rparr>]\<rparr>\<rparr>
                 else en\<lparr>en_checks := c\<rparr>))"

fun checkpointLoop ::
  "('s, 'st) backtest_options \<Rightarrow> int \<Rightarrow> book_checkpoint list \<Rightarrow> ('s, 'st) engine \<Rightarrow> ('s, 'st) engine" where
  "checkpointLoop cfg atMs [] en = en"
| "checkpointLoop cfg atMs (cp # cps) en =
     (if atMs \<le> bc_atMs cp then en else checkpointLoop cfg atMs cps (compareCheckpoint cfg cp en))"

definition checkCheckpointsUpTo :: "('s, 'st) backtest_options \<Rightarrow> int \<Rightarrow> ('s, 'st) engine \<Rightarrow> ('s, 'st) engine" where
  "checkCheckpointsUpTo cfg atMs en = checkpointLoop cfg atMs (drop (en_checkpointIdx en) (en_checkpoints en)) en"

section \<open>Event dispatch\<close>

definition closeInterval :: "int \<Rightarrow> nat \<Rightarrow> invalid_interval list \<Rightarrow> invalid_interval list" where
  \<comment> \<open>\<open>interval.toMs = ...\<close>\<close>
  "closeInterval toMs i ivs = ivs[i := (ivs ! i)\<lparr>iv_toMs := Some (int_str toMs)\<rparr>]"

definition onSnapshotEvent ::
  "('s, 'st) backtest_options \<Rightarrow> base_event \<Rightarrow> snapshot_body \<Rightarrow> ('s, 'st) engine \<Rightarrow> engine_error + ('s, 'st) engine" where
  "onSnapshotEvent cfg b e en =
     (let ticker = es_marketTicker e;
          en = en\<lparr>en_store := snd (ms_applySnapshot (bo_dec cfg) b e (en_store en))\<rparr>;
          en = en\<lparr>en_counts := (en_counts en)\<lparr>ct_snapshots := ct_snapshots (en_counts en) + 1\<rparr>\<rparr>
      in bindE
           (case js_get (en_gapOpen en) ticker of
              None \<Rightarrow> Inr en
            | Some i \<Rightarrow>
                (let en = en\<lparr>en_invalidIntervals := closeInterval (be_receiveTimeMs b) i (en_invalidIntervals en)\<rparr>;
                     en = en\<lparr>en_gapOpen := js_del ticker (en_gapOpen en)\<rparr>;
                     en = en\<lparr>en_exchange := onCaptureResume ticker (en_exchange en)\<rparr>;
                     en = eachCounterfactual cfg (\<lambda>xo ex. ([], onCaptureResume ticker ex)) en
                 in runCallback cfg (sg_onDataResume (bo_strategy cfg) ticker (en_strategy en)) en))
           (\<lambda>en. let en = recordMid cfg ticker (be_receiveTimeMs b) en
                 in runCallback cfg (sg_onBookUpdate (bo_strategy cfg) (EvSnapshot b e) (en_strategy en)) en))"

definition onDeltaEvent ::
  "('s, 'st) backtest_options \<Rightarrow> base_event \<Rightarrow> delta_body \<Rightarrow> ('s, 'st) engine \<Rightarrow> engine_error + ('s, 'st) engine" where
  "onDeltaEvent cfg b e en =
     (let (outcome, store) = ms_applyDelta (bo_dec cfg) b e (en_store en);
          en = en\<lparr>en_store := store\<rparr>;
          en = en\<lparr>en_counts := (en_counts en)\<lparr>ct_deltas := ct_deltas (en_counts en) + 1\<rparr>\<rparr>
      in if \<not> ao_applied outcome then Inr en
         else
           let en = en\<lparr>en_exchange := onBookDelta (primaryOptions cfg) b e (en_exchange en)\<rparr>;
               en = eachCounterfactual cfg (\<lambda>xo ex. ([], onBookDelta xo b e ex)) en;
               en = recordMid cfg (ed_marketTicker e) (be_receiveTimeMs b) en
           in runCallback cfg (sg_onBookUpdate (bo_strategy cfg) (EvDelta b e) (en_strategy en)) en)"

definition onTradeEvent ::
  "('s, 'st) backtest_options \<Rightarrow> base_event \<Rightarrow> trade_body \<Rightarrow> ('s, 'st) engine \<Rightarrow> engine_error + ('s, 'st) engine" where
  "onTradeEvent cfg b e en =
     (let en = en\<lparr>en_counts := (en_counts en)\<lparr>ct_trades := ct_trades (en_counts en) + 1\<rparr>\<rparr>;
          en = en\<lparr>en_midSeries := onSeries (et_marketTicker e) (observe (be_receiveTimeMs b)) (en_midSeries en)\<rparr>;
          (fills, ex) = onTrade (primaryOptions cfg) (en_store en) b e (en_exchange en)
      in bindE (applyExchange cfg [] fills (en\<lparr>en_exchange := ex\<rparr>))
           (\<lambda>en. let en = eachCounterfactual cfg (\<lambda>xo ex. onTrade xo (en_store en) b e ex) en
                 in runCallback cfg (sg_onTrade (bo_strategy cfg) (EvTrade b e) (en_strategy en)) en))"

definition openInterval :: "gap_body \<Rightarrow> ('s, 'st) engine \<Rightarrow> string \<Rightarrow> ('s, 'st) engine" where
  "openInterval e en ticker =
     (let interval = \<lparr>iv_marketTicker = ticker, iv_fromMs = int_str (eg_startedAtMs e), iv_toMs = None,
            iv_reason = ''capture_gap:'' @ gapReasonString (eg_reason e)\<rparr>;
          en = en\<lparr>en_gapOpen := js_set ticker (length (en_invalidIntervals en)) (en_gapOpen en),
                  en_invalidIntervals := en_invalidIntervals en @ [interval]\<rparr>
      in en\<lparr>en_midSeries := onSeries ticker (recordMidPoint (eg_startedAtMs e) None None) (en_midSeries en)\<rparr>)"

definition onCaptureGapEvent ::
  "('s, 'st) backtest_options \<Rightarrow> base_event \<Rightarrow> gap_body \<Rightarrow> ('s, 'st) engine \<Rightarrow> engine_error + ('s, 'st) engine" where
  "onCaptureGapEvent cfg b e en =
     (let en = en\<lparr>en_counts := (en_counts en)\<lparr>ct_captureGaps := ct_captureGaps (en_counts en) + 1\<rparr>\<rparr>
      in if gapPolicy cfg = CgAbort then Inl (EngineGapAborted (eg_startedAtMs e) (eg_endedAtMs e))
         else
           let (invalidated, store) = applyCaptureGap e (en_store en);
               en = foldl (openInterval e) (en\<lparr>en_store := store\<rparr>) invalidated
           in bindE
                (if gapPolicy cfg = CgSkipUntilFreshSnapshot
                 then
                   let (updates, ex) = onCaptureGap (primaryOptions cfg) invalidated (be_receiveTimeMs b) (en_exchange en)
                   in bindE (applyExchange cfg updates [] (en\<lparr>en_exchange := ex\<rparr>))
                        (\<lambda>en. Inr (eachCounterfactual cfg
                           (\<lambda>xo ex. ([], snd (onCaptureGap xo invalidated (be_receiveTimeMs b) ex))) en))
                 else Inr en)
                (\<lambda>en. runCallback cfg (sg_onDataGap (bo_strategy cfg) (EvGap b e) (en_strategy en)) en))"

definition noteSeries :: "research_event \<Rightarrow> ('s, 'st) engine \<Rightarrow> ('s, 'st) engine" where
  "noteSeries event en =
     (case eventMarket event of
        None \<Rightarrow> en
      | Some ticker \<Rightarrow>
          if isMarketEvent event \<and> ticker \<noteq> '''' \<and> \<not> js_has (en_seriesOf en) ticker
          then en\<lparr>en_seriesOf := js_set ticker (be_seriesTicker (eventBase event)) (en_seriesOf en),
                  en_eventOf := js_set ticker (be_eventTicker (eventBase event)) (en_eventOf en)\<rparr>
          else en)"

definition handle ::
  "('s, 'st) backtest_options \<Rightarrow> research_event \<Rightarrow> ('s, 'st) engine \<Rightarrow> engine_error + ('s, 'st) engine" where
  "handle cfg event en =
     (let en = noteSeries event en
      in case event of
           EvSnapshot b e \<Rightarrow> onSnapshotEvent cfg b e en
         | EvDelta b e \<Rightarrow> onDeltaEvent cfg b e en
         | EvTrade b e \<Rightarrow> onTradeEvent cfg b e en
         | EvGap b e \<Rightarrow> onCaptureGapEvent cfg b e en
         | EvLifecycle b e \<Rightarrow> Inr en
         | EvTimer b e \<Rightarrow> Inr en)"

section \<open>The run\<close>

text \<open>The rest of an iteration, once the timers before the event have fired.\<close>

definition countEvent :: "engine_counts \<Rightarrow> engine_counts" where
  "countEvent c = c\<lparr>ct_events := ct_events c + 1\<rparr>"

definition processEvent ::
  "('s, 'st) backtest_options \<Rightarrow> research_event \<Rightarrow> ('s, 'st) engine \<Rightarrow> engine_error + ('s, 'st) engine" where
  "processEvent cfg event en =
     (let at_ms = be_receiveTimeMs (eventBase event) in
      bindE (advanceClock at_ms (checkCheckpointsUpTo cfg at_ms en)) (\<lambda>en.
      bindE (advancePrimary cfg (at_ms - 1) en) (\<lambda>en.
      bindE (handle cfg event (advanceCounterfactuals cfg (at_ms - 1) en)) (\<lambda>en.
      bindE (advancePrimary cfg at_ms en) (\<lambda>en.
      bindE (maybeMark cfg at_ms (advanceCounterfactuals cfg at_ms en)) (\<lambda>en.
      Inr (en\<lparr>en_counts := countEvent (en_counts en)\<rparr>)))))))"

definition arriveAt :: "int \<Rightarrow> ('s, 'st) engine \<Rightarrow> ('s, 'st) engine" where
  "arriveAt at_ms en =
     (let en = (if en_firstEventMs en = None then en\<lparr>en_firstEventMs := Some at_ms, en_nextMarkMs := Some at_ms\<rparr> else en)
      in en\<lparr>en_lastEventMs := Some at_ms\<rparr>)"

definition stopAfter :: "('s, 'st) backtest_options \<Rightarrow> ('s, 'st) engine \<Rightarrow> bool" where
  \<comment> \<open>\<open>maxEvents\<close> of zero is falsy, so no limit\<close>
  "stopAfter cfg en = (case bo_maxEvents cfg of None \<Rightarrow> False | Some n \<Rightarrow> n \<noteq> 0 \<and> n \<le> ct_events (en_counts en))"

fun eventLoop ::
  "('s, 'st) backtest_options \<Rightarrow> research_event list \<Rightarrow> ('s, 'st) engine \<Rightarrow> (engine_error + ('s, 'st) engine) option" where
  "eventLoop cfg [] en = Some (Inr en)"
| "eventLoop cfg (event # events) en =
     (let at_ms = be_receiveTimeMs (eventBase event) in
      bindR (drainTimersBefore cfg at_ms (arriveAt at_ms en)) (\<lambda>en.
      bindR (Some (processEvent cfg event en)) (\<lambda>en.
      if stopAfter cfg en then Some (Inr en) else eventLoop cfg events en)))"

definition closeGaps :: "int \<Rightarrow> ('s, 'st) engine \<Rightarrow> ('s, 'st) engine" where
  "closeGaps lastMs en =
     foldl (\<lambda>en (ticker, i). en\<lparr>en_invalidIntervals := closeInterval lastMs i (en_invalidIntervals en),
              en_gapOpen := js_del ticker (en_gapOpen en)\<rparr>) en (en_gapOpen en)"

definition finishRun ::
  "('s, 'st) backtest_options \<Rightarrow> int \<Rightarrow> ('s, 'st) engine \<Rightarrow> engine_error + ('s, 'st) engine" where
  "finishRun cfg lastMs en =
     (let en = checkCheckpointsUpTo cfg (lastMs + 1) en;
          (updates, ex) = finalize (primaryOptions cfg) lastMs (en_exchange en)
      in bindE (applyExchange cfg updates [] (en\<lparr>en_exchange := ex\<rparr>)) (\<lambda>en.
         let en = eachCounterfactual cfg (\<lambda>xo ex. ([], snd (finalize xo lastMs ex))) en
         in Inr (closeGaps lastMs (markEngine cfg lastMs en))))"

section \<open>Settlement\<close>

record settlement_report =
  st_settled :: nat
  st_voided :: nat
  st_openAtRunEnd :: nat
  st_awaitingDetermination :: nat
  st_unpriceable :: nat
  st_provisional :: "string list"
  st_noMarketState :: "string list"
  st_basisCounts :: "(settlement_basis, nat) jsmap"

definition newReport :: settlement_report where
  "newReport = \<lparr>st_settled = 0, st_voided = 0, st_openAtRunEnd = 0, st_awaitingDetermination = 0, st_unpriceable = 0,
     st_provisional = [], st_noMarketState = [], st_basisCounts = []\<rparr>"

definition unsettled ::
  "('s, 'st) backtest_options \<Rightarrow> string \<Rightarrow> bool \<Rightarrow> settlement_report \<Rightarrow> ('s, 'st) engine
     \<Rightarrow> settlement_report \<times> ('s, 'st) engine" where
  \<comment> \<open>the three branches that leave a position open, by what it waits for\<close>
  "unsettled cfg ticker awaiting report en =
     (let marked = hasMark cfg ticker en;
          resolution = (if \<not> marked then PrUnpriceable else if awaiting then PrAwaitingDetermination else PrOpenAtRunEnd);
          en = en\<lparr>en_portfolio := resolveAs ticker resolution (en_portfolio en)\<rparr>
      in (if \<not> marked then report\<lparr>st_unpriceable := st_unpriceable report + 1\<rparr>
          else if awaiting then report\<lparr>st_awaitingDetermination := st_awaitingDetermination report + 1\<rparr>
          else report\<lparr>st_openAtRunEnd := st_openAtRunEnd report + 1\<rparr>, en))"

definition settleStep ::
  "('s, 'st) backtest_options \<Rightarrow> settlement_report \<times> ('s, 'st) engine \<Rightarrow> position_state
     \<Rightarrow> settlement_report \<times> ('s, 'st) engine" where
  "settleStep cfg acc pos =
     (let (report, en) = acc; ticker = ps_marketTicker pos in
      if ps_quantity pos = 0 then (report, en)
      else case js_get (hs_marketStates (bo_source cfg)) ticker of
             None \<Rightarrow> unsettled cfg ticker False (report\<lparr>st_noMarketState := st_noMarketState report @ [ticker]\<rparr>) en
           | Some state \<Rightarrow>
               if ms_state state = LcVoided
               then (report\<lparr>st_voided := st_voided report + 1\<rparr>, en\<lparr>en_portfolio := voidMarket ticker (en_portfolio en)\<rparr>)
               else (case ms_yesSettlementValue state of
                       Some payout \<Rightarrow>
                         (let basis = ms_settlementBasis state;
                              report = report\<lparr>st_settled := st_settled report + 1\<rparr>;
                              report = report\<lparr>st_basisCounts := js_set basis
                                (case js_get (st_basisCounts report) basis of None \<Rightarrow> 1 | Some n \<Rightarrow> n + 1) (st_basisCounts report)\<rparr>;
                              report = (if ms_isProvisional state
                                        then report\<lparr>st_provisional := st_provisional report @ [ticker]\<rparr> else report)
                          in (report, en\<lparr>en_portfolio := settle ticker payout (en_portfolio en)\<rparr>))
                     | None \<Rightarrow> unsettled cfg ticker (ms_state state = LcClosedUndetermined) report en))"

definition applySettlement ::
  "('s, 'st) backtest_options \<Rightarrow> int option \<Rightarrow> ('s, 'st) engine \<Rightarrow> settlement_report \<times> ('s, 'st) engine" where
  "applySettlement cfg lastEventMs en =
     (let (report, en) = foldl (settleStep cfg) (newReport, en) (allPositions (en_portfolio en))
      in (report, case lastEventMs of None \<Rightarrow> en | Some t \<Rightarrow> markEngine cfg t en))"

text \<open>\<open>run\<close> up to settlement, and the whole of it.\<close>

definition loadRun :: "('s, 'st) backtest_options \<Rightarrow> ('s, 'st) engine \<Rightarrow> ('s, 'st) engine" where
  "loadRun cfg en =
     en\<lparr>en_universe := hs_marketTickers (bo_source cfg),
        en_checkpoints := (if bo_verifyCheckpoints cfg \<noteq> Some False then hs_checkpoints (bo_source cfg) else en_checkpoints en)\<rparr>"

definition runTrading ::
  "('s, 'st) backtest_options \<Rightarrow> ('s, 'st) engine \<Rightarrow> (engine_error + ('s, 'st) engine) option" where
  "runTrading cfg en =
     (let en = loadRun cfg en in
      bindR (Some (runCallback cfg (sg_onStart (bo_strategy cfg) (en_strategy en)) en)) (\<lambda>en.
      bindR (eventLoop cfg (hs_events (bo_source cfg)) en) (\<lambda>en.
      bindR (case en_lastEventMs en of
               None \<Rightarrow> Some (Inr en)
             | Some lastMs \<Rightarrow>
                 bindR (drainTimersBefore cfg (lastMs + 1) en) (\<lambda>en. Some (finishRun cfg lastMs en))) (\<lambda>en.
      Some (runCallback cfg (sg_onStop (bo_strategy cfg) (en_strategy en)) en)))))"

definition runBacktest ::
  "('s, 'st) backtest_options \<Rightarrow> 's \<Rightarrow> 'st \<Rightarrow> (engine_error + (settlement_report \<times> ('s, 'st) engine)) option" where
  "runBacktest cfg feeState st =
     bindR (runTrading cfg (newEngine cfg feeState st)) (\<lambda>en.
       Some (Inr (applySettlement cfg (en_lastEventMs en) en)))"

end
