(* ===== verification/EngineSteps.thy ===== *)
theory EngineSteps
  imports Engine ExchangeRun
begin

text \<open>
  The engine as a state machine. \<open>engine_step\<close> lists the moves a run is made of, on the engine and the fills the
  exchange has reported but the portfolio has not booked yet; \<open>runTrading_reaches\<close> shows that every run is a sequence
  of such moves. An invariant of the engine is then a rule induction on \<open>engine_step\<close>.
\<close>

section \<open>Calls to an exchange\<close>

fun callResult ::
  "'s exchange_options \<Rightarrow> market_store \<Rightarrow> exchange_call \<Rightarrow> 's exchange \<Rightarrow> order_update list \<times> simulated_fill list \<times> 's exchange" where
  "callResult xo store (XSubmit i t) ex = (let (us, ex) = submit xo store i t ex in (us, [], ex))"
| "callResult xo store (XAdvance t) ex = advanceTo xo store t ex"
| "callResult xo store (XDelta b e) ex = ([], [], onBookDelta xo b e ex)"
| "callResult xo store (XTrade b e) ex = ([], onTrade xo store b e ex)"
| "callResult xo store (XGap ms t) ex = (let (us, ex) = onCaptureGap xo ms t ex in (us, [], ex))"
| "callResult xo store (XResume m) ex = ([], [], onCaptureResume m ex)"
| "callResult xo store (XFinalize t) ex = (let (us, ex) = finalize xo t ex in (us, [], ex))"

text \<open>No order is placed or activated later than the clock, and a print is always the current event.\<close>

fun in_time :: "int \<Rightarrow> exchange_call \<Rightarrow> bool" where
  "in_time now (XSubmit i t) = (t \<le> now)"
| "in_time now (XAdvance t) = (t \<le> now)"
| "in_time now (XDelta b e) = True"
| "in_time now (XTrade b e) = (be_receiveTimeMs b = now)"
| "in_time now (XGap ms t) = True"
| "in_time now (XResume m) = True"
| "in_time now (XFinalize t) = True"

lemma callResult_ok:
  assumes fm: "fill_model (xo_fillModel xo)" and lm: "latency_model (xo_latency xo)"
    and st: "store_ok (xo_dec xo) (xo_sha256 xo) store" and ok: "exchange_ok xo T ex" and t: "in_time T c"
    and r: "callResult xo store c ex = (us, fs, ex2)"
  shows "exchange_ok xo T ex2 \<and> evolves ex ex2 \<and> ex_fills ex2 = ex_fills ex @ fs"
proof -
  have a: "acct T {} ex" and i: "indexes_ok (xo_dec xo) ex" and p: "pends_in (ex_pending ex) ex"
    using ok by (simp_all add: exchange_ok_def)
  have fin: ?thesis if "stepped (xo_dec xo) T ex ex2" "ex_fills ex2 = ex_fills ex @ fs" "pends_in (ex_pending ex2) ex2"
    using that i by (auto simp: exchange_ok_def stepped_def keeps_indexes_def)
  have frame: ?thesis if "stepped (xo_dec xo) T ex ex2" "same_frame ex ex2" "ex_fills ex2 = ex_fills ex @ fs"
    using fin [OF that(1,3)] pends_in_step [OF a that(1,2) p] that(2) by (simp add: same_frame_def)
  show ?thesis
  proof (cases c)
    case (XSubmit intent u)
    then have "submit xo store intent u ex = (us, ex2)" "fs = []" using r by (auto split: prod.splits)
    then show ?thesis using submit_stepped [OF lm a p] fin by auto
  next
    case (XAdvance u)
    then show ?thesis using advanceTo_stepped [OF fm st _ a p, of u] r t fin by simp
  next
    case (XDelta b e)
    then show ?thesis using onBookDelta_stepped [OF fm a, of "xo_dec xo" b e] frame r by simp
  next
    case (XTrade b e)
    then have "printed_to (xo_dec xo) T (et_count e) {oid. \<exists>o1. orderOf ex oid = Some o1 \<and> print_reaches e o1} ex fs ex2"
      using onTrade_printed [OF fm i, of b store e fs ex2] a t r by simp
    then show ?thesis using frame by (simp add: printed_to_def)
  next
    case (XGap ms u)
    then have "onCaptureGap xo ms u ex = (us, ex2)" "fs = []" using r by (auto split: prod.splits)
    then show ?thesis using onCaptureGap_stepped [OF a p] fin by auto
  next
    case (XResume m)
    then show ?thesis using fin stepped_refl [OF a] p r by (auto simp: onCaptureResume_def frozen_frame)
  next
    case (XFinalize u)
    then have "finalize xo u ex = (us, ex2)" "fs = []" using r by (auto split: prod.splits)
    then show ?thesis using finalize_stepped [OF i a p] fin by auto
  qed
qed

text \<open>Only a submission answers with an order that is still pending.\<close>

lemma cancelLoop_updates: "cancelLoop L t oids ex = (still, us, ex2) \<Longrightarrow> u \<in> set us \<Longrightarrow> ou_status u \<noteq> StPending"
  by (induction oids arbitrary: still us ex)
    (auto simp: retire_def orderUpdate_def Let_def split: option.splits if_splits prod.splits)

lemma activate_updates: "activate xo store o1 t ex = (us, fs, ex2) \<Longrightarrow> u \<in> set us \<Longrightarrow> ou_status u \<noteq> StPending"
  by (auto simp: activate_def retire_def restOrder_def orderUpdate_def Let_def split: option.splits if_splits prod.splits)

lemma activateLoop_updates: "activateLoop xo store t oids ex = (still, us, fs, ex2) \<Longrightarrow> u \<in> set us \<Longrightarrow> ou_status u \<noteq> StPending"
proof (induction oids arbitrary: still us fs ex)
  case (Cons oid oids)
  then show ?case using activate_updates [of xo store _ t ex _ _ _ u]
    by (fastforce split: option.splits if_splits prod.splits)
qed simp

lemma advanceTo_updates: "advanceTo xo store t ex = (us, fs, ex2) \<Longrightarrow> u \<in> set us \<Longrightarrow> ou_status u \<noteq> StPending"
  by (auto simp: advanceTo_def Let_def split: prod.splits if_splits dest: cancelLoop_updates activateLoop_updates)

lemma onCaptureGap_updates: "u \<in> set (fst (onCaptureGap xo ms t ex)) \<Longrightarrow> ou_status u \<noteq> StPending"
proof -
  have "\<forall>u \<in> set (fst (foldl (gapOrderStep xo ms t) ([], s) oids)). ou_status u \<noteq> StPending" for s oids
    by (rule foldl_invariant)
      (auto simp: gapOrderStep_def retire_def orderUpdate_def Let_def split: option.splits if_splits prod.splits)
  then show "u \<in> set (fst (onCaptureGap xo ms t ex)) \<Longrightarrow> ou_status u \<noteq> StPending"
    by (auto simp: onCaptureGap_def Let_def split: if_splits)
qed

lemma finalize_updates: "u \<in> set (fst (finalize xo t ex)) \<Longrightarrow> ou_status u \<noteq> StPending"
proof -
  have "\<forall>u \<in> set (fst (foldl (finalizeStep (xo_dec xo) t) ([], s) os)). ou_status u \<noteq> StPending" for s os
    by (rule foldl_invariant) (auto simp: finalizeStep_def retire_def orderUpdate_def Let_def split: prod.splits)
  then show "u \<in> set (fst (finalize xo t ex)) \<Longrightarrow> ou_status u \<noteq> StPending"
    by (metis (no_types, lifting) case_prod_beta finalize_def fst_conv)
qed

section \<open>The moves\<close>

abbreviation nowOf :: "('s, 'st) engine \<Rightarrow> int" where
  "nowOf en \<equiv> sc_nowMs (en_clock en)"

definition bookFill :: "('s, 'st) backtest_options \<Rightarrow> simulated_fill \<Rightarrow> ('s, 'st) engine \<Rightarrow> ('s, 'st) engine" where
  "bookFill cfg f en =
     (let en = (if \<not> fl_feeKnown f then en\<lparr>en_portfolio := noteUnknownFee (en_portfolio en)\<rparr> else en)
      in en\<lparr>en_portfolio := pf_applyFill (bo_dec cfg) f (en_portfolio en)\<rparr>)"

definition takeSnapshot :: "('s, 'st) backtest_options \<Rightarrow> base_event \<Rightarrow> snapshot_body \<Rightarrow> ('s, 'st) engine \<Rightarrow> ('s, 'st) engine" where
  "takeSnapshot cfg b e en =
     (let en = en\<lparr>en_store := snd (ms_applySnapshot (bo_dec cfg) b e (en_store en))\<rparr>
      in case js_get (en_gapOpen en) (es_marketTicker e) of
           None \<Rightarrow> en
         | Some i \<Rightarrow> en\<lparr>en_invalidIntervals := closeInterval (be_receiveTimeMs b) i (en_invalidIntervals en),
                        en_gapOpen := js_del (es_marketTicker e) (en_gapOpen en)\<rparr>)"

definition takeGap :: "gap_body \<Rightarrow> ('s, 'st) engine \<Rightarrow> ('s, 'st) engine" where
  "takeGap e en =
     (let (invalidated, store) = applyCaptureGap e (en_store en)
      in foldl (openInterval e) (en\<lparr>en_store := store\<rparr>) invalidated)"

definition counterfactualCall :: "market_store \<Rightarrow> exchange_call \<Rightarrow> 's exchange_options \<Rightarrow> 's exchange \<Rightarrow> simulated_fill list \<times> 's exchange" where
  "counterfactualCall store c xo ex = snd (callResult xo store c ex)"

type_synonym ('s, 'st) engine_state = "simulated_fill list \<times> ('s, 'st) engine"

inductive engine_step :: "('s, 'st) backtest_options \<Rightarrow> ('s, 'st) engine_state \<Rightarrow> ('s, 'st) engine_state \<Rightarrow> bool"
  for cfg where
  StrategyStep: "engine_step cfg (p, en) (p, en\<lparr>en_strategy := st\<rparr>)"
| SubmitStep: "engine_step cfg (p, en) (p, ctx_submit cfg intent en)"
| SchedulerStep: "engine_step cfg (p, en) (p, en\<lparr>en_scheduler := s\<rparr>)"
| ClockStep: "advanceClock t en = Inr en' \<Longrightarrow> engine_step cfg ([], en) ([], en')"
| ExchangeStep: "in_time (nowOf en) c \<Longrightarrow>
    callResult (primaryOptions cfg) (en_store en) c (en_exchange en) = (us, fs, ex) \<Longrightarrow>
    engine_step cfg ([], en) (fs, en\<lparr>en_exchange := ex\<rparr>)"
| CounterfactualStep: "in_time (nowOf en) c \<Longrightarrow>
    engine_step cfg (p, en) (p, eachCounterfactual cfg (counterfactualCall (en_store en) c) en)"
| BookStep: "engine_step cfg (f # p, en) (p, bookFill cfg f en)"
| CountStep: "ct_ordersSubmitted c = ct_ordersSubmitted (en_counts en) \<Longrightarrow> engine_step cfg (p, en) (p, en\<lparr>en_counts := c\<rparr>)"
| SnapshotStep: "event_ok (EvSnapshot b e) \<Longrightarrow> engine_step cfg (p, en) (p, takeSnapshot cfg b e en)"
| DeltaStep: "event_ok (EvDelta b e) \<Longrightarrow>
    engine_step cfg (p, en) (p, en\<lparr>en_store := snd (ms_applyDelta (bo_dec cfg) b e (en_store en))\<rparr>)"
| GapStep: "engine_step cfg (p, en) (p, takeGap e en)"
| MidStep: "engine_step cfg (p, en) (p, en\<lparr>en_midSeries := m\<rparr>)"
| CheckStep: "engine_step cfg (p, en) (p, en\<lparr>en_checks := ck, en_checkpointIdx := i\<rparr>)"
| SeriesStep: "engine_step cfg (p, en) (p, en\<lparr>en_seriesOf := so, en_eventOf := ev\<rparr>)"
| MarkStep: "engine_step cfg (p, en) (p, markEngine cfg t en)"
| NextMarkStep: "maybeMark cfg t en = Inr en' \<Longrightarrow> engine_step cfg (p, en) (p, en')"
| ArriveStep: "engine_step cfg (p, en) (p, arriveAt t en)"
| CloseStep: "engine_step cfg (p, en) (p, closeGaps t en)"

text \<open>Moves within one instant of the clock.\<close>

definition instant_step :: "('s, 'st) backtest_options \<Rightarrow> ('s, 'st) engine_state \<Rightarrow> ('s, 'st) engine_state \<Rightarrow> bool" where
  "instant_step cfg s t \<longleftrightarrow> engine_step cfg s t \<and> en_clock (snd t) = en_clock (snd s)"

abbreviation at_once :: "('s, 'st) backtest_options \<Rightarrow> ('s, 'st) engine_state \<Rightarrow> ('s, 'st) engine_state \<Rightarrow> bool" where
  "at_once cfg \<equiv> (instant_step cfg)\<^sup>*\<^sup>*"

abbreviation engine_steps :: "('s, 'st) backtest_options \<Rightarrow> ('s, 'st) engine_state \<Rightarrow> ('s, 'st) engine_state \<Rightarrow> bool" where
  "engine_steps cfg \<equiv> (engine_step cfg)\<^sup>*\<^sup>*"

lemma at_once_steps: "at_once cfg s t \<Longrightarrow> engine_steps cfg s t \<and> en_clock (snd t) = en_clock (snd s)"
  by (induction rule: rtranclp_induct) (auto simp: instant_step_def intro: rtranclp.rtrancl_into_rtrancl)

lemma step_one: "engine_step cfg s t \<Longrightarrow> engine_steps cfg s t"
  by (rule r_into_rtranclp)

lemma once: "engine_step cfg s t \<Longrightarrow> en_clock (snd t) = en_clock (snd s) \<Longrightarrow> at_once cfg s t"
  by (rule r_into_rtranclp) (simp add: instant_step_def)

text \<open>A move that rewrites other fields only, in the form the engine's records take.\<close>

lemma clock_submit [simp]: "en_clock (ctx_submit cfg i en) = en_clock en"
  by (simp add: ctx_submit_def Let_def split: prod.splits)

definition counterfactualStep ::
  "('s, 'st) backtest_options \<Rightarrow> ('s exchange_options \<Rightarrow> 's exchange \<Rightarrow> simulated_fill list \<times> 's exchange) \<Rightarrow>
     ('s, 'st) engine \<Rightarrow> nat \<Rightarrow> ('s, 'st) engine" where
  "counterfactualStep cfg act en i =
     (let c = en_counterfactuals en ! i;
          (fills, ex) = act (exchangeOptions cfg (cf_model c)) ((cf_exchange c)\<lparr>ex_feeState := ex_feeState (en_exchange en)\<rparr>);
          c = c\<lparr>cf_exchange := ex, cf_portfolio := foldl (\<lambda>pf f. pf_applyFill (bo_dec cfg) f pf) (cf_portfolio c) fills\<rparr>
      in en\<lparr>en_counterfactuals := (en_counterfactuals en)[i := c],
            en_exchange := (en_exchange en)\<lparr>ex_feeState := ex_feeState ex\<rparr>\<rparr>)"

lemma eachCounterfactual_fold:
  "eachCounterfactual cfg act en = foldl (counterfactualStep cfg act) en [0..<length (en_counterfactuals en)]"
  by (simp add: eachCounterfactual_def counterfactualStep_def [abs_def])

text \<open>What the counterfactuals cannot touch: everything but themselves and the shared fee state.\<close>

lemma counterfactualStep_frame:
  "\<exists>cs s. counterfactualStep cfg act en i = en\<lparr>en_counterfactuals := cs, en_exchange := (en_exchange en)\<lparr>ex_feeState := s\<rparr>\<rparr>
     \<and> length cs = length (en_counterfactuals en)"
  by (auto simp: counterfactualStep_def Let_def split: prod.splits)

lemma eachCounterfactual_frame:
  "\<exists>cs s. eachCounterfactual cfg act en = en\<lparr>en_counterfactuals := cs, en_exchange := (en_exchange en)\<lparr>ex_feeState := s\<rparr>\<rparr>
     \<and> length cs = length (en_counterfactuals en)"
proof -
  have "\<exists>cs s. foldl (counterfactualStep cfg act) en is = en\<lparr>en_counterfactuals := cs, en_exchange := (en_exchange en)\<lparr>ex_feeState := s\<rparr>\<rparr>
     \<and> length cs = length (en_counterfactuals en)" for "is"
  proof (induction "is" rule: rev_induct)
    case Nil
    have "en = en\<lparr>en_counterfactuals := en_counterfactuals en, en_exchange := (en_exchange en)\<lparr>ex_feeState := ex_feeState (en_exchange en)\<rparr>\<rparr>"
      by simp
    then show ?case by (metis foldl_Nil)
  next
    case (snoc i "is")
    then show ?case using counterfactualStep_frame [of cfg act "foldl (counterfactualStep cfg act) en is" i] by fastforce
  qed
  then show ?thesis unfolding eachCounterfactual_fold .
qed

lemma clock_counterfactual [simp]: "en_clock (eachCounterfactual cfg act en) = en_clock en"
  using eachCounterfactual_frame [of cfg act en] by auto

lemma store_counterfactual [simp]: "en_store (eachCounterfactual cfg act en) = en_store en"
  using eachCounterfactual_frame [of cfg act en] by auto

section \<open>Every run is a sequence of moves\<close>

lemma bindE_Inr: "bindE m f = Inr y \<longleftrightarrow> (\<exists>x. m = Inr x \<and> f x = Inr y)"
  by (cases m) (simp_all add: bindE_def)

lemma bindR_Inr: "bindR m f = Some (Inr y) \<longleftrightarrow> (\<exists>x. m = Some (Inr x) \<and> f x = Some (Inr y))"
  by (cases m) (simp_all add: bindR_def split: sum.splits)

lemma once_trans: "at_once cfg s t \<Longrightarrow> at_once cfg t u \<Longrightarrow> at_once cfg s u"
  by (rule rtranclp_trans)

lemma runCallback_once: "runCallback cfg cb en = Inr en' \<Longrightarrow> at_once cfg (p, en) (p, en')"
proof (induction cb arbitrary: en)
  case (Finish st)
  then show ?case using once [OF StrategyStep [of cfg p en st]] by auto
next
  case (Look k)
  then show ?case by auto
next
  case (Submit intent cb)
  then show ?case using once [OF SubmitStep [of cfg p en intent]] by (auto intro: once_trans)
next
  case (ScheduleAfter d l m k)
  then obtain i s where "runCallback cfg (k i) (en\<lparr>en_scheduler := s\<rparr>) = Inr en'"
    by (auto split: sum.splits)
  moreover have "at_once cfg (p, en) (p, en\<lparr>en_scheduler := s\<rparr>)" by (rule once [OF SchedulerStep]) simp
  ultimately show ?case using ScheduleAfter.IH [OF rangeI] by (blast intro: once_trans)
next
  case (CancelTimer i k)
  let ?en = "en\<lparr>en_scheduler := snd (ts_cancel i (en_scheduler en))\<rparr>"
  have "at_once cfg (p, en) (p, ?en)" by (rule once [OF SchedulerStep]) simp
  then show ?case using CancelTimer.IH [OF rangeI, of _ ?en] CancelTimer.prems by (auto intro: once_trans)
qed simp

lemma clock_bookFill [simp]: "en_clock (bookFill cfg f en) = en_clock en"
  by (simp add: bookFill_def)

lemma applyFills_once: "applyFills cfg fs en = Inr en' \<Longrightarrow> at_once cfg (fs, en) ([], en')"
proof (induction fs arbitrary: en)
  case (Cons f fs)
  obtain en1 where r: "runCallback cfg (sg_onFill (bo_strategy cfg) (fill.truncate f) (en_strategy (bookFill cfg f en))) (bookFill cfg f en) = Inr en1"
    and rest: "applyFills cfg fs en1 = Inr en'"
    using Cons.prems by (auto simp: bookFill_def Let_def bindE_Inr)
  have "at_once cfg (f # fs, en) (fs, bookFill cfg f en)" by (rule once [OF BookStep]) simp
  then show ?case using runCallback_once [OF r, of fs] Cons.IH [OF rest] by (blast intro: once_trans)
qed simp

lemma countUpdate_submitted: "st \<noteq> StPending \<Longrightarrow> ct_ordersSubmitted (countUpdate st c) = ct_ordersSubmitted c"
  by (simp add: countUpdate_def)

lemma applyUpdates_once:
  "applyUpdates cfg us en = Inr en' \<Longrightarrow> (\<And>u. u \<in> set us \<Longrightarrow> ou_status u \<noteq> StPending) \<Longrightarrow> at_once cfg (p, en) (p, en')"
proof (induction us arbitrary: en)
  case (Cons u us)
  let ?en = "en\<lparr>en_counts := countUpdate (ou_status u) (en_counts en)\<rparr>"
  obtain en1 where r: "runCallback cfg (sg_onOrderUpdate (bo_strategy cfg) u (en_strategy ?en)) ?en = Inr en1"
    and rest: "applyUpdates cfg us en1 = Inr en'"
    using Cons.prems(1) by (auto simp: Let_def bindE_Inr)
  have "at_once cfg (p, en) (p, ?en)"
    by (rule once [OF CountStep]) (use Cons.prems(2) countUpdate_submitted in simp_all)
  moreover have "at_once cfg (p, en1) (p, en')" using Cons.IH [OF rest] Cons.prems(2) by simp
  ultimately show ?case using runCallback_once [OF r, of p] by (blast intro: once_trans)
qed simp

lemma applyExchange_once:
  "applyExchange cfg us fs en = Inr en' \<Longrightarrow> (\<And>u. u \<in> set us \<Longrightarrow> ou_status u \<noteq> StPending) \<Longrightarrow> at_once cfg (fs, en) ([], en')"
  unfolding applyExchange_def bindE_Inr using applyFills_once applyUpdates_once once_trans by blast

text \<open>An exchange call, with what it reports booked and delivered.\<close>

lemma exchange_once:
  assumes "callResult (primaryOptions cfg) (en_store en) c (en_exchange en) = (us, fs, ex)" "in_time (nowOf en) c"
    and "applyExchange cfg us fs (en\<lparr>en_exchange := ex\<rparr>) = Inr en'" "\<And>u. u \<in> set us \<Longrightarrow> ou_status u \<noteq> StPending"
  shows "at_once cfg ([], en) ([], en')"
proof -
  have "at_once cfg ([], en) (fs, en\<lparr>en_exchange := ex\<rparr>)"
    by (rule once [OF ExchangeStep]) (use assms(1,2) in simp_all)
  then show ?thesis using applyExchange_once [OF assms(3,4)] by (blast intro: once_trans)
qed

lemma advancePrimary_once:
  assumes "advancePrimary cfg t en = Inr en'" "t \<le> nowOf en"
  shows "at_once cfg ([], en) ([], en')"
proof -
  obtain us fs ex where r: "advanceTo (primaryOptions cfg) (en_store en) t (en_exchange en) = (us, fs, ex)" by (metis prod_cases3)
  have c: "callResult (primaryOptions cfg) (en_store en) (XAdvance t) (en_exchange en) = (us, fs, ex)" using r by simp
  show ?thesis
    by (rule exchange_once [OF c]) (use assms r advanceTo_updates [OF r] in \<open>simp_all add: advancePrimary_def\<close>)
qed

lemma counterfactual_once:
  assumes "act = counterfactualCall (en_store en) c" "in_time (nowOf en) c"
  shows "at_once cfg (p, en) (p, eachCounterfactual cfg act en)"
  unfolding assms(1) by (rule once [OF CounterfactualStep [OF assms(2)]]) simp

lemma advanceCounterfactuals_once: "t \<le> nowOf en \<Longrightarrow> at_once cfg (p, en) (p, advanceCounterfactuals cfg t en)"
  unfolding advanceCounterfactuals_def
  by (rule counterfactual_once [where c = "XAdvance t"])
    (auto simp: counterfactualCall_def case_prod_unfold fun_eq_iff)

lemma clock_advanceCounterfactuals [simp]: "en_clock (advanceCounterfactuals cfg t en) = en_clock en"
  by (simp add: advanceCounterfactuals_def)

lemma once_clock: "at_once cfg (p, en) (q, en') \<Longrightarrow> en_clock en' = en_clock en"
  using at_once_steps by fastforce

lemma once_steps: "at_once cfg s t \<Longrightarrow> engine_steps cfg s t"
  using at_once_steps by blast

lemma advanceClock_now: "advanceClock t en = Inr en' \<Longrightarrow> nowOf en' = t \<and> nowOf en \<le> t"
  using clock_monotone by (fastforce simp: advanceClock_def split: sum.splits)

lemma fireTimers_steps: "fireTimers cfg ts en = Inr en' \<Longrightarrow> engine_steps cfg ([], en) ([], en')"
proof (induction ts arbitrary: en)
  case (Cons t ts)
  obtain en1 en2 where c: "advanceClock (tm_dueMs t) en = Inr en1" and a: "advancePrimary cfg (tm_dueMs t) en1 = Inr en2"
    and r: "bindE (runCallback cfg (sg_onTimer (bo_strategy cfg) (timerEvent t ''simulated'')
        (en_strategy ((advanceCounterfactuals cfg (tm_dueMs t) en2)\<lparr>en_counts := countTimer (en_counts (advanceCounterfactuals cfg (tm_dueMs t) en2))\<rparr>)))
        ((advanceCounterfactuals cfg (tm_dueMs t) en2)\<lparr>en_counts := countTimer (en_counts (advanceCounterfactuals cfg (tm_dueMs t) en2))\<rparr>))
      (fireTimers cfg ts) = Inr en'"
    using Cons.prems by (auto simp: bindE_Inr Let_def)
  have o1: "at_once cfg ([], en1) ([], en2)" by (rule advancePrimary_once [OF a]) (use advanceClock_now [OF c] in simp)
  have n2: "nowOf en2 = tm_dueMs t" using once_clock [OF o1] advanceClock_now [OF c] by simp
  let ?en3 = "advanceCounterfactuals cfg (tm_dueMs t) en2"
  let ?en4 = "?en3\<lparr>en_counts := countTimer (en_counts ?en3)\<rparr>"
  have o2: "at_once cfg ([], en2) ([], ?en3)" by (rule advanceCounterfactuals_once) (simp add: n2)
  have o3: "at_once cfg ([], ?en3) ([], ?en4)" by (rule once [OF CountStep]) (simp_all add: countTimer_def)
  obtain en5 where o4: "at_once cfg ([], ?en4) ([], en5)" and rest: "fireTimers cfg ts en5 = Inr en'"
    using r runCallback_once by (fastforce simp: bindE_Inr)
  have "engine_steps cfg ([], en) ([], en1)" by (rule r_into_rtranclp) (rule ClockStep [OF c])
  moreover have "engine_steps cfg ([], en1) ([], en5)" by (rule once_steps) (use o1 o2 o3 o4 in \<open>blast intro: once_trans\<close>)
  ultimately show ?case using Cons.IH [OF rest] by (meson rtranclp_trans)
qed simp

lemma scheduler_step: "engine_steps cfg (p, en) (p, en\<lparr>en_scheduler := s\<rparr>)"
  by (rule r_into_rtranclp) (rule SchedulerStep)

lemma drain_body:
  assumes body: "(let (due, s) = peekDueMs (en_scheduler en); en = en\<lparr>en_scheduler := s\<rparr>
      in case due of None \<Rightarrow> Some (Inr en)
         | Some d \<Rightarrow> if t < d then Some (Inr en)
             else (let (timers, s) = drainDue d (en_scheduler en)
                   in case fireTimers cfg timers (en\<lparr>en_scheduler := s\<rparr>) of
                        Inl err \<Rightarrow> Some (Inl err) | Inr en \<Rightarrow> loop cfg t en)) = Some (Inr en')"
    and loop: "\<And>en en'. loop cfg t en = Some (Inr en') \<Longrightarrow> engine_steps cfg ([], en) ([], en')"
  shows "engine_steps cfg ([], en) ([], en')"
proof -
  obtain due s where p: "peekDueMs (en_scheduler en) = (due, s)" by fastforce
  obtain timers s2 where d: "drainDue (the due) s = (timers, s2)" by fastforce
  have s1: "engine_steps cfg ([], en) ([], en\<lparr>en_scheduler := s\<rparr>)" by (rule scheduler_step)
  consider "en' = en\<lparr>en_scheduler := s\<rparr>" | en1 where "fireTimers cfg timers (en\<lparr>en_scheduler := s2\<rparr>) = Inr en1" "loop cfg t en1 = Some (Inr en')"
    using body d by (auto simp: p Let_def split: option.splits if_splits sum.splits)
  then show ?thesis
  proof cases
    case 1
    then show ?thesis using s1 by simp
  next
    case (2 en1)
    have "engine_steps cfg ([], en) ([], en\<lparr>en_scheduler := s2\<rparr>)" by (rule scheduler_step)
    then show ?thesis using fireTimers_steps [OF 2(1)] loop [OF 2(2)] by (meson rtranclp_trans)
  qed
qed

lemma drain_steps:
  assumes "drainTimersBefore cfg t en = Some (Inr en')"
  shows "engine_steps cfg ([], en) ([], en')"
proof -
  have "\<forall>en'. y = Inr en' \<longrightarrow> engine_steps cfg ([], en) ([], en')" if "drainTimersBefore cfg t en = Some y" for y
  proof (rule drainTimersBefore.raw_induct [OF _ that])
    fix loop cfg t en y
    assume "\<And>cfg t en y. loop cfg t en = Some y \<Longrightarrow> \<forall>en'. y = Inr en' \<longrightarrow> engine_steps cfg ([], en) ([], en')"
      "(let (due, s) = peekDueMs (en_scheduler en); en = en\<lparr>en_scheduler := s\<rparr>
        in case due of None \<Rightarrow> Some (Inr en)
           | Some d \<Rightarrow> if t < d then Some (Inr en)
               else (let (timers, s) = drainDue d (en_scheduler en)
                     in case fireTimers cfg timers (en\<lparr>en_scheduler := s\<rparr>) of
                          Inl err \<Rightarrow> Some (Inl err) | Inr en \<Rightarrow> loop cfg t en)) = Some y"
    then show "\<forall>en'. y = Inr en' \<longrightarrow> engine_steps cfg ([], en) ([], en')"
      using drain_body [where loop = loop] by blast
  qed
  then show ?thesis using assms by blast
qed

subsection \<open>The handlers\<close>

lemma clock_recordMid [simp]: "en_clock (recordMid cfg m t en) = en_clock en"
  by (simp add: recordMid_def split: option.splits)

lemma recordMid_once: "at_once cfg (p, en) (p, recordMid cfg m t en)"
proof (cases "ms_view m (en_store en)")
  case None
  then show ?thesis by (simp add: recordMid_def)
next
  case (Some v)
  have "at_once cfg (p, en) (p, en\<lparr>en_midSeries := mids\<rparr>)" for mids by (rule once [OF MidStep]) simp
  then show ?thesis by (simp add: recordMid_def Some)
qed

lemma count_once: "ct_ordersSubmitted c = ct_ordersSubmitted (en_counts en) \<Longrightarrow> at_once cfg (p, en) (p, en\<lparr>en_counts := c\<rparr>)"
  by (rule once [OF CountStep]) simp_all

lemma onDeltaEvent_once:
  assumes "onDeltaEvent cfg b e en = Inr en'" "event_ok (EvDelta b e)"
  shows "at_once cfg ([], en) ([], en')"
proof -
  obtain out store where r: "ms_applyDelta (bo_dec cfg) b e (en_store en) = (out, store)" by fastforce
  define en1 where "en1 = en\<lparr>en_store := store\<rparr>"
  define en2 where "en2 = en1\<lparr>en_counts := (en_counts en1)\<lparr>ct_deltas := ct_deltas (en_counts en1) + 1\<rparr>\<rparr>"
  define en3 where "en3 = en2\<lparr>en_exchange := onBookDelta (primaryOptions cfg) b e (en_exchange en2)\<rparr>"
  define en4 where "en4 = recordMid cfg (ed_marketTicker e) (be_receiveTimeMs b) (eachCounterfactual cfg (\<lambda>xo ex. ([], onBookDelta xo b e ex)) en3)"
  have s1: "at_once cfg ([], en) ([], en1)" unfolding en1_def
    using once [OF DeltaStep [OF assms(2), of cfg "[]" en]] r by simp
  have s2: "at_once cfg ([], en1) ([], en2)" unfolding en2_def by (rule count_once) simp
  have s3: "at_once cfg ([], en2) ([], en3)"
    unfolding en3_def using once [OF ExchangeStep [of en2 "XDelta b e" cfg]] by simp
  have s4: "at_once cfg ([], en3) ([], en4)"
    unfolding en4_def
    by (rule once_trans [OF counterfactual_once [where c = "XDelta b e"] recordMid_once]) (simp_all add: counterfactualCall_def fun_eq_iff)
  consider "en' = en2" | "runCallback cfg (sg_onBookUpdate (bo_strategy cfg) (EvDelta b e) (en_strategy en4)) en4 = Inr en'"
    using assms(1) by (auto simp: onDeltaEvent_def r en1_def en2_def en3_def en4_def Let_def split: if_splits)
  then show ?thesis
  proof cases
    case 1
    then show ?thesis using once_trans [OF s1 s2] by simp
  next
    case 2
    then show ?thesis using s1 s2 s3 s4 runCallback_once [OF 2, of "[]"] by (blast intro: once_trans)
  qed
qed

lemma takeSnapshot_counts:
  "takeSnapshot cfg b e en = (let s = snd (ms_applySnapshot (bo_dec cfg) b e (en_store en)) in
     case js_get (en_gapOpen en) (es_marketTicker e) of
       None \<Rightarrow> en\<lparr>en_store := s\<rparr>
     | Some i \<Rightarrow> en\<lparr>en_store := s, en_invalidIntervals := closeInterval (be_receiveTimeMs b) i (en_invalidIntervals en),
                   en_gapOpen := js_del (es_marketTicker e) (en_gapOpen en)\<rparr>)"
  by (simp add: takeSnapshot_def Let_def split: option.splits)

lemma onSnapshotEvent_once:
  assumes "onSnapshotEvent cfg b e en = Inr en'" "event_ok (EvSnapshot b e)"
  shows "at_once cfg ([], en) ([], en')"
proof -
  let ?m = "es_marketTicker e" and ?t = "be_receiveTimeMs b"
  define c where "c = (en_counts en)\<lparr>ct_snapshots := ct_snapshots (en_counts en) + 1\<rparr>"
  define en1 where "en1 = (takeSnapshot cfg b e en)\<lparr>en_counts := c\<rparr>"
  define en2 where "en2 = en1\<lparr>en_exchange := onCaptureResume ?m (en_exchange en1)\<rparr>"
  define en3 where "en3 = eachCounterfactual cfg (\<lambda>xo ex. ([], onCaptureResume ?m ex)) en2"
  have clock: "en_clock (takeSnapshot cfg b e en) = en_clock en" "en_counts (takeSnapshot cfg b e en) = en_counts en"
    by (simp_all add: takeSnapshot_def Let_def split: option.splits)
  have s1: "at_once cfg ([], en) ([], en1)" unfolding en1_def
    by (rule once_trans [OF once [OF SnapshotStep [OF assms(2)]] count_once]) (simp_all add: clock c_def)
  have s2: "at_once cfg ([], en1) ([], en3)" unfolding en3_def
  proof (rule once_trans [OF _ counterfactual_once [where c = "XResume ?m"]])
    show "at_once cfg ([], en1) ([], en2)"
      unfolding en2_def using once [OF ExchangeStep [of en1 "XResume ?m" cfg]] by simp
  qed (simp_all add: counterfactualCall_def fun_eq_iff)
  obtain en4 where s4: "at_once cfg ([], en1) ([], en4)"
    and r: "runCallback cfg (sg_onBookUpdate (bo_strategy cfg) (EvSnapshot b e) (en_strategy (recordMid cfg ?m ?t en4)))
      (recordMid cfg ?m ?t en4) = Inr en'"
  proof (cases "js_get (en_gapOpen en) ?m")
    case None
    then have "en1 = en\<lparr>en_store := snd (ms_applySnapshot (bo_dec cfg) b e (en_store en)), en_counts := c\<rparr>"
      by (simp add: en1_def takeSnapshot_counts Let_def)
    then show ?thesis using that [of en1] assms(1) None by (simp add: onSnapshotEvent_def bindE_def c_def Let_def)
  next
    case (Some i)
    then have en1: "en1 = en\<lparr>en_store := snd (ms_applySnapshot (bo_dec cfg) b e (en_store en)), en_counts := c,
        en_invalidIntervals := closeInterval ?t i (en_invalidIntervals en), en_gapOpen := js_del ?m (en_gapOpen en)\<rparr>"
      by (simp add: en1_def takeSnapshot_counts Let_def)
    obtain en4 where "runCallback cfg (sg_onDataResume (bo_strategy cfg) ?m (en_strategy en3)) en3 = Inr en4"
      "runCallback cfg (sg_onBookUpdate (bo_strategy cfg) (EvSnapshot b e) (en_strategy (recordMid cfg ?m ?t en4)))
        (recordMid cfg ?m ?t en4) = Inr en'"
      using assms(1) Some by (auto simp: onSnapshotEvent_def bindE_Inr c_def Let_def en3_def en2_def en1)
    then show ?thesis using that once_trans [OF s2 runCallback_once] by blast
  qed
  show ?thesis using s1 s4 recordMid_once [of cfg "[]" en4 ?m ?t] runCallback_once [OF r, of "[]"] by (blast intro: once_trans)
qed

lemma onTradeEvent_once:
  assumes "onTradeEvent cfg b e en = Inr en'" "be_receiveTimeMs b = nowOf en"
  shows "at_once cfg ([], en) ([], en')"
proof -
  define c where "c = (en_counts en)\<lparr>ct_trades := ct_trades (en_counts en) + 1\<rparr>"
  define mids where "mids = onSeries (et_marketTicker e) (observe (be_receiveTimeMs b)) (en_midSeries en)"
  define en1 where "en1 = en\<lparr>en_counts := c, en_midSeries := mids\<rparr>"
  obtain fs ex where r: "onTrade (primaryOptions cfg) (en_store en1) b e (en_exchange en1) = (fs, ex)" by fastforce
  have s1: "at_once cfg ([], en) ([], en1)"
    using once_trans [OF count_once [of c en cfg "[]"] once [OF MidStep [of cfg "[]" "en\<lparr>en_counts := c\<rparr>" mids]]]
    by (simp add: c_def en1_def)
  obtain en2 where a: "applyExchange cfg [] fs (en1\<lparr>en_exchange := ex\<rparr>) = Inr en2"
    and k: "runCallback cfg (sg_onTrade (bo_strategy cfg) (EvTrade b e)
        (en_strategy (eachCounterfactual cfg (\<lambda>xo ex. onTrade xo (en_store en2) b e ex) en2)))
        (eachCounterfactual cfg (\<lambda>xo ex. onTrade xo (en_store en2) b e ex) en2) = Inr en'"
    using assms(1) r by (auto simp: onTradeEvent_def en1_def c_def mids_def Let_def bindE_Inr)
  have c1: "callResult (primaryOptions cfg) (en_store en1) (XTrade b e) (en_exchange en1) = ([], fs, ex)" using r by simp
  have n1: "in_time (nowOf en1) (XTrade b e)" using assms(2) by (simp add: en1_def)
  have s2: "at_once cfg ([], en1) ([], en2)" by (rule exchange_once [OF c1 n1 a]) simp
  have n2: "in_time (nowOf en2) (XTrade b e)" using n1 once_clock [OF s2] by simp
  have s3: "at_once cfg ([], en2) ([], eachCounterfactual cfg (\<lambda>xo ex. onTrade xo (en_store en2) b e ex) en2)"
    by (rule counterfactual_once [OF _ n2]) (simp add: counterfactualCall_def fun_eq_iff)
  show ?thesis using s1 s2 s3 runCallback_once [OF k, of "[]"] by (blast intro: once_trans)
qed

lemma openInterval_clock: "en_clock (foldl (openInterval e) en ts) = en_clock en"
  by (rule foldl_invariant [where P = "\<lambda>s. en_clock s = en_clock en"]) (simp_all add: openInterval_def Let_def)

lemma onCaptureGapEvent_once:
  assumes "onCaptureGapEvent cfg b e en = Inr en'"
  shows "at_once cfg ([], en) ([], en')"
proof -
  define c where "c = (en_counts en)\<lparr>ct_captureGaps := ct_captureGaps (en_counts en) + 1\<rparr>"
  define en0 where "en0 = en\<lparr>en_counts := c\<rparr>"
  obtain gone store where r: "applyCaptureGap e (en_store en) = (gone, store)" by fastforce
  define en1 where "en1 = takeGap e en0"
  have en1: "en1 = foldl (openInterval e) (en0\<lparr>en_store := store\<rparr>) gone" using r by (simp add: en1_def takeGap_def en0_def)
  have clock: "en_clock en1 = en_clock en" unfolding en1 openInterval_clock by (simp add: en0_def)
  have s1: "at_once cfg ([], en) ([], en1)" unfolding en1_def
    by (rule once_trans [OF _ once [OF GapStep]]) (use clock in \<open>simp_all add: en1_def en0_def c_def count_once\<close>)
  let ?act = "\<lambda>xo ex. ([], snd (onCaptureGap xo gone (be_receiveTimeMs b) ex))"
  obtain us ex where g: "onCaptureGap (primaryOptions cfg) gone (be_receiveTimeMs b) (en_exchange en1) = (us, ex)" by fastforce
  have c1: "callResult (primaryOptions cfg) (en_store en1) (XGap gone (be_receiveTimeMs b)) (en_exchange en1) = (us, [], ex)"
    using g by simp
  obtain en2 where s2: "at_once cfg ([], en1) ([], en2)"
    and k: "runCallback cfg (sg_onDataGap (bo_strategy cfg) (EvGap b e) (en_strategy en2)) en2 = Inr en'"
  proof (cases "gapPolicy cfg = CgSkipUntilFreshSnapshot")
    case True
    then obtain en3 where a: "applyExchange cfg us [] (en1\<lparr>en_exchange := ex\<rparr>) = Inr en3"
      and k: "runCallback cfg (sg_onDataGap (bo_strategy cfg) (EvGap b e) (en_strategy (eachCounterfactual cfg ?act en3)))
        (eachCounterfactual cfg ?act en3) = Inr en'"
      using assms r g by (auto simp: onCaptureGapEvent_def en1 en0_def c_def Let_def bindE_Inr split: if_splits)
    have n1: "in_time (nowOf en1) (XGap gone (be_receiveTimeMs b))" by simp
    have "ou_status u \<noteq> StPending" if "u \<in> set us" for u using onCaptureGap_updates that g by (metis fst_conv)
    then have s3: "at_once cfg ([], en1) ([], en3)" by (rule exchange_once [OF c1 n1 a])
    have n3: "in_time (nowOf en3) (XGap gone (be_receiveTimeMs b))" by simp
    have "at_once cfg ([], en3) ([], eachCounterfactual cfg ?act en3)"
      by (rule counterfactual_once [OF _ n3]) (simp add: counterfactualCall_def fun_eq_iff case_prod_unfold Let_def)
    then show ?thesis using that [OF once_trans [OF s3] k] by simp
  next
    case False
    then have "runCallback cfg (sg_onDataGap (bo_strategy cfg) (EvGap b e) (en_strategy en1)) en1 = Inr en'"
      using assms r by (auto simp: onCaptureGapEvent_def en1 en0_def c_def Let_def bindE_def split: if_splits)
    then show ?thesis using that [of en1] by simp
  qed
  show ?thesis using s1 s2 runCallback_once [OF k, of "[]"] by (blast intro: once_trans)
qed

lemma noteSeries_once: "at_once cfg (p, en) (p, noteSeries event en)"
proof (cases "eventMarket event")
  case None
  then show ?thesis by (simp add: noteSeries_def)
next
  case (Some m)
  have "at_once cfg (p, en) (p, en\<lparr>en_seriesOf := so, en_eventOf := ev\<rparr>)" for so ev by (rule once [OF SeriesStep]) simp
  then show ?thesis by (simp add: noteSeries_def Some)
qed

lemma handle_once:
  assumes "handle cfg event en = Inr en'" "event_ok event" "be_receiveTimeMs (eventBase event) = nowOf en"
  shows "at_once cfg ([], en) ([], en')"
proof -
  let ?en = "noteSeries event en"
  have s: "at_once cfg ([], en) ([], ?en)" by (rule noteSeries_once)
  have now: "be_receiveTimeMs (eventBase event) = nowOf ?en" using assms(3) once_clock [OF s] by simp
  have "at_once cfg ([], ?en) ([], en')"
  proof (cases event)
    case (EvSnapshot b e)
    then show ?thesis using assms(1,2) onSnapshotEvent_once by (simp add: handle_def)
  next
    case (EvDelta b e)
    then show ?thesis using assms(1,2) onDeltaEvent_once by (simp add: handle_def)
  next
    case (EvTrade b e)
    then show ?thesis using assms(1) now onTradeEvent_once by (simp add: handle_def)
  next
    case (EvGap b e)
    then show ?thesis using assms(1) onCaptureGapEvent_once by (simp add: handle_def)
  qed (use assms(1) in \<open>simp_all add: handle_def\<close>)
  then show ?thesis by (rule once_trans [OF s])
qed

subsection \<open>The loop\<close>

lemma compareCheckpoint_once: "at_once cfg (p, en) (p, compareCheckpoint cfg cp en)"
proof -
  have s: "at_once cfg (p, en) (p, en\<lparr>en_checkpointIdx := i, en_checks := ck\<rparr>)" for ck i
  proof -
    have eq: "en\<lparr>en_checkpointIdx := i, en_checks := ck\<rparr> = en\<lparr>en_checks := ck, en_checkpointIdx := i\<rparr>" by simp
    show ?thesis unfolding eq by (rule once [OF CheckStep]) simp
  qed
  show ?thesis unfolding compareCheckpoint_def Let_def
    by (simp only: split: option.split if_split) (blast intro: s)
qed

lemma checkpointLoop_once: "at_once cfg (p, en) (p, checkpointLoop cfg t cps en)"
  by (induction cps arbitrary: en) (auto intro: once_trans [OF compareCheckpoint_once])

lemma checkpoints_once: "at_once cfg (p, en) (p, checkCheckpointsUpTo cfg t en)"
  by (simp add: checkCheckpointsUpTo_def checkpointLoop_once)

lemma clock_mark [simp]: "en_clock (markEngine cfg t en) = en_clock en"
  by (simp add: markEngine_def Let_def)

lemma maybeMark_cases:
  assumes "maybeMark cfg t en = Inr en'"
  shows "en' = en \<or> (\<exists>n. en' = (markEngine cfg t en)\<lparr>en_nextMarkMs := n\<rparr>)"
proof (cases "en_nextMarkMs en")
  case None
  then show ?thesis using assms by (simp add: maybeMark_def)
next
  case (Some n)
  show ?thesis
  proof (cases "t < n \<or> markIntervalMs cfg = 0")
    case True
    then show ?thesis using assms by (auto simp: maybeMark_def Some Let_def split: if_splits)
  next
    case False
    then have "(markEngine cfg t en)\<lparr>en_nextMarkMs := Some (n + ((t - n) sdiv markIntervalMs cfg + 1) * markIntervalMs cfg)\<rparr> = en'"
      using assms by (simp add: maybeMark_def Some Let_def)
    then show ?thesis by metis
  qed
qed

lemma clock_maybeMark: "maybeMark cfg t en = Inr en' \<Longrightarrow> en_clock en' = en_clock en"
  using maybeMark_cases by fastforce

lemma maybeMark_once: "maybeMark cfg t en = Inr en' \<Longrightarrow> at_once cfg (p, en) (p, en')"
  using once [OF NextMarkStep] clock_maybeMark by fastforce

lemma processEvent_steps:
  assumes "processEvent cfg event en = Inr en'" "event_ok event"
  shows "engine_steps cfg ([], en) ([], en')"
proof -
  let ?t = "be_receiveTimeMs (eventBase event)"
  obtain en1 en2 en3 en4 en5 where r: "advanceClock ?t (checkCheckpointsUpTo cfg ?t en) = Inr en1"
    "advancePrimary cfg (?t - 1) en1 = Inr en2" "handle cfg event (advanceCounterfactuals cfg (?t - 1) en2) = Inr en3"
    "advancePrimary cfg ?t en3 = Inr en4" "maybeMark cfg ?t (advanceCounterfactuals cfg ?t en4) = Inr en5"
    and en': "en' = en5\<lparr>en_counts := countEvent (en_counts en5)\<rparr>"
    using assms(1) by (auto simp: processEvent_def Let_def bindE_Inr)
  have n1: "nowOf en1 = ?t" using advanceClock_now [OF r(1)] by simp
  have s0: "engine_steps cfg ([], en) ([], en1)"
    using once_steps [OF checkpoints_once] step_one [OF ClockStep [OF r(1)]] by (rule rtranclp_trans)
  have s1: "at_once cfg ([], en1) ([], en2)" by (rule advancePrimary_once [OF r(2)]) (simp add: n1)
  have n2: "nowOf en2 = ?t" using once_clock [OF s1] n1 by simp
  have s2: "at_once cfg ([], en2) ([], advanceCounterfactuals cfg (?t - 1) en2)"
    by (rule advanceCounterfactuals_once) (simp add: n2)
  have s3: "at_once cfg ([], advanceCounterfactuals cfg (?t - 1) en2) ([], en3)"
    by (rule handle_once [OF r(3) assms(2)]) (simp add: n2)
  have n3: "nowOf en3 = ?t" using once_clock [OF s3] n2 by simp
  have s4: "at_once cfg ([], en3) ([], en4)" by (rule advancePrimary_once [OF r(4)]) (simp add: n3)
  have n4: "nowOf en4 = ?t" using once_clock [OF s4] n3 by simp
  have s5: "at_once cfg ([], en4) ([], advanceCounterfactuals cfg ?t en4)"
    by (rule advanceCounterfactuals_once) (simp add: n4)
  have s6: "at_once cfg ([], advanceCounterfactuals cfg ?t en4) ([], en5)" by (rule maybeMark_once [OF r(5)])
  have s7: "at_once cfg ([], en5) ([], en')" unfolding en' by (rule count_once) (simp add: countEvent_def)
  have "at_once cfg ([], en1) ([], en')" using s1 s2 s3 s4 s5 s6 s7 by (meson once_trans)
  then show ?thesis using s0 once_steps rtranclp_trans by fast
qed

lemma arriveAt_steps: "engine_steps cfg (p, en) (p, arriveAt t en)"
  by (rule r_into_rtranclp) (rule ArriveStep)

lemma eventLoop_steps:
  "eventLoop cfg events en = Some (Inr en') \<Longrightarrow> (\<And>ev. ev \<in> set events \<Longrightarrow> event_ok ev) \<Longrightarrow> engine_steps cfg ([], en) ([], en')"
proof (induction events arbitrary: en)
  case (Cons event events)
  let ?t = "be_receiveTimeMs (eventBase event)"
  obtain en1 en2 where r: "drainTimersBefore cfg ?t (arriveAt ?t en) = Some (Inr en1)" "processEvent cfg event en1 = Inr en2"
    and rest: "(if stopAfter cfg en2 then Some (Inr en2) else eventLoop cfg events en2) = Some (Inr en')"
    using Cons.prems(1) by (auto simp: Let_def bindR_Inr)
  have "engine_steps cfg ([], en) ([], en2)"
    using arriveAt_steps drain_steps [OF r(1)] processEvent_steps [OF r(2)] Cons.prems(2) by (meson list.set_intros(1) rtranclp_trans)
  moreover have "engine_steps cfg ([], en2) ([], en')"
    using rest Cons.IH Cons.prems(2) by (auto split: if_splits)
  ultimately show ?case by (rule rtranclp_trans)
qed simp

lemma finishRun_steps:
  assumes "finishRun cfg t en = Inr en'"
  shows "engine_steps cfg ([], en) ([], en')"
proof -
  define en1 where "en1 = checkCheckpointsUpTo cfg (t + 1) en"
  have s1: "at_once cfg ([], en) ([], en1)" unfolding en1_def by (rule checkpoints_once)
  have n1: "in_time (nowOf en1) (XFinalize t)" by simp
  obtain us ex where f: "finalize (primaryOptions cfg) t (en_exchange en1) = (us, ex)" by fastforce
  have c1: "callResult (primaryOptions cfg) (en_store en1) (XFinalize t) (en_exchange en1) = (us, [], ex)" using f by simp
  let ?act = "\<lambda>xo ex. ([], snd (finalize xo t ex))"
  obtain en2 where a: "applyExchange cfg us [] (en1\<lparr>en_exchange := ex\<rparr>) = Inr en2"
    and en': "en' = closeGaps t (markEngine cfg t (eachCounterfactual cfg ?act en2))"
    using assms f by (auto simp: finishRun_def en1_def [symmetric] Let_def bindE_Inr)
  have "ou_status u \<noteq> StPending" if "u \<in> set us" for u using finalize_updates that f by (metis fst_conv)
  then have s2: "at_once cfg ([], en1) ([], en2)" by (rule exchange_once [OF c1 n1 a])
  have n2: "in_time (nowOf en2) (XFinalize t)" by simp
  have s3: "at_once cfg ([], en2) ([], eachCounterfactual cfg ?act en2)"
    by (rule counterfactual_once [OF _ n2]) (simp add: counterfactualCall_def fun_eq_iff case_prod_unfold Let_def)
  have "engine_steps cfg ([], eachCounterfactual cfg ?act en2) ([], en')" unfolding en'
    by (rule rtranclp_trans [OF step_one [OF MarkStep] step_one [OF CloseStep]])
  then show ?thesis using once_steps [OF once_trans [OF s1 once_trans [OF s2 s3]]] by (meson rtranclp_trans)
qed

lemma loadRun_fields [simp]:
  "en_exchange (loadRun cfg en) = en_exchange en" "en_store (loadRun cfg en) = en_store en"
  "en_portfolio (loadRun cfg en) = en_portfolio en" "en_counterfactuals (loadRun cfg en) = en_counterfactuals en"
  "en_clock (loadRun cfg en) = en_clock en" "en_counts (loadRun cfg en) = en_counts en"
  "en_gapOpen (loadRun cfg en) = en_gapOpen en" "en_invalidIntervals (loadRun cfg en) = en_invalidIntervals en"
  "en_scheduler (loadRun cfg en) = en_scheduler en" "en_nextMarkMs (loadRun cfg en) = en_nextMarkMs en"
  "en_firstEventMs (loadRun cfg en) = en_firstEventMs en" "en_lastEventMs (loadRun cfg en) = en_lastEventMs en"
  "en_equityCurve (loadRun cfg en) = en_equityCurve en"
  by (simp_all add: loadRun_def)

theorem runTrading_reaches:
  assumes "runTrading cfg en = Some (Inr en')" "\<And>ev. ev \<in> set (hs_events (bo_source cfg)) \<Longrightarrow> event_ok ev"
  shows "engine_steps cfg ([], loadRun cfg en) ([], en')"
proof -
  let ?en = "loadRun cfg en"
  obtain en1 en2 en3 where r: "runCallback cfg (sg_onStart (bo_strategy cfg) (en_strategy ?en)) ?en = Inr en1"
    "eventLoop cfg (hs_events (bo_source cfg)) en1 = Some (Inr en2)"
    "(case en_lastEventMs en2 of None \<Rightarrow> Some (Inr en2)
      | Some lastMs \<Rightarrow> bindR (drainTimersBefore cfg (lastMs + 1) en2) (\<lambda>en. Some (finishRun cfg lastMs en))) = Some (Inr en3)"
    "runCallback cfg (sg_onStop (bo_strategy cfg) (en_strategy en3)) en3 = Inr en'"
    using assms(1) by (auto simp: runTrading_def Let_def bindR_Inr)
  have "engine_steps cfg ([], en2) ([], en3)"
  proof (cases "en_lastEventMs en2")
    case (Some t)
    then show ?thesis using r(3) drain_steps finishRun_steps by (fastforce simp: bindR_Inr intro: rtranclp_trans)
  qed (use r(3) in simp)
  then show ?thesis
    using once_steps [OF runCallback_once [OF r(1)]] eventLoop_steps [OF r(2) assms(2)] once_steps [OF runCallback_once [OF r(4)]]
    by (meson rtranclp_trans)
qed

section \<open>Invariants\<close>

text \<open>
  The contract of an invariant of the machine: it may assume another one already proved. What it gives is the statement
  for every state a run reaches.
\<close>

locale engine_invariant =
  fixes cfg :: "('s, 'st) backtest_options"
    and base inv :: "('s, 'st) engine_state \<Rightarrow> bool"
  assumes base_step: "base s \<Longrightarrow> engine_step cfg s t \<Longrightarrow> base t"
    and inv_step: "base s \<Longrightarrow> inv s \<Longrightarrow> engine_step cfg s t \<Longrightarrow> inv t"
begin

lemma reached: "engine_steps cfg s t \<Longrightarrow> base s \<Longrightarrow> inv s \<Longrightarrow> base t \<and> inv t"
  by (induction rule: rtranclp_induct) (auto intro: base_step inv_step)

lemma run_ends_with:
  assumes "runTrading cfg en = Some (Inr en')" "\<And>ev. ev \<in> set (hs_events (bo_source cfg)) \<Longrightarrow> event_ok ev"
    and "base ([], loadRun cfg en)" "inv ([], loadRun cfg en)"
  shows "base ([], en') \<and> inv ([], en')"
  using reached [OF runTrading_reaches [OF assms(1,2)] assms(3,4)] .

end

end
