(* ===== verification/EngineLive.thy ===== *)
theory EngineLive
  imports EngineSteps
begin

text \<open>
  When a run ends: a strategy whose timers are at least a millisecond away and which throws nothing cannot make the
  engine loop or fail, whatever orders it places.
\<close>

section \<open>Paced strategies\<close>

primrec paced :: "'st callback \<Rightarrow> bool" where
  "paced (Finish st) = True"
| "paced (Raise why) = False"
| "paced (Look k) = (\<forall>v. paced (k v))"
| "paced (Submit intent k) = paced k"
| "paced (ScheduleAfter d l m k) = (1 \<le> d \<and> (\<forall>i. paced (k i)))"
| "paced (CancelTimer i k) = (\<forall>b. paced (k b))"

definition paced_strategy :: "'st strategy \<Rightarrow> bool" where
  "paced_strategy sg \<longleftrightarrow> (\<forall>st. paced (sg_onStart sg st) \<and> paced (sg_onStop sg st)) \<and>
     (\<forall>ev st. paced (sg_onBookUpdate sg ev st) \<and> paced (sg_onTrade sg ev st) \<and> paced (sg_onTimer sg ev st) \<and> paced (sg_onDataGap sg ev st)) \<and>
     (\<forall>f st. paced (sg_onFill sg f st)) \<and> (\<forall>u st. paced (sg_onOrderUpdate sg u st)) \<and> (\<forall>m st. paced (sg_onDataResume sg m st))"

text \<open>
  What the engine does within one instant: the clock stands, the scheduler stays well formed, and every timer it gains is
  later than now. The last clause says that no event has arrived meanwhile.
\<close>

definition calm :: "('s, 'st) engine \<Rightarrow> ('s, 'st) engine \<Rightarrow> bool" where
  "calm en en' \<longleftrightarrow> nowOf en' = nowOf en \<and> (scheduler_ok (en_scheduler en) \<longrightarrow> scheduler_ok (en_scheduler en')) \<and>
     (\<forall>t \<in> set (ts_queue (en_scheduler en')). t \<in> set (ts_queue (en_scheduler en)) \<or> nowOf en < tm_dueMs t) \<and>
     en_lastEventMs en' = en_lastEventMs en"

lemma calm_trans: "calm en en1 \<Longrightarrow> calm en1 en2 \<Longrightarrow> calm en en2"
  unfolding calm_def by metis

lemma calm_same: "en_clock en' = en_clock en \<Longrightarrow> en_scheduler en' = en_scheduler en \<Longrightarrow> en_lastEventMs en' = en_lastEventMs en \<Longrightarrow> calm en en'"
  by (simp add: calm_def)

lemma calm_refl [simp]: "calm en en"
  by (simp add: calm_def)

definition returns_calm :: "engine_error + ('s, 'st) engine \<Rightarrow> ('s, 'st) engine \<Rightarrow> bool" where
  "returns_calm m en \<longleftrightarrow> (\<exists>en'. m = Inr en' \<and> calm en en')"

lemma returns_calmI [intro]: "calm en en' \<Longrightarrow> returns_calm (Inr en') en"
  by (simp add: returns_calm_def)

lemma returns_bind:
  assumes "returns_calm m en" "\<And>en'. m = Inr en' \<Longrightarrow> calm en en' \<Longrightarrow> returns_calm (f en') en'"
  shows "returns_calm (bindE m f) en"
  using assms calm_trans by (fastforce simp: returns_calm_def bindE_def)

lemma returns_start: "calm en en1 \<Longrightarrow> returns_calm m en1 \<Longrightarrow> returns_calm m en"
  using calm_trans by (auto simp: returns_calm_def)

lemma submit_calm: "calm en (ctx_submit cfg i en)"
  by (rule calm_same) (simp_all add: ctx_submit_def Let_def split: prod.splits)

lemma schedule_calm:
  assumes "1 \<le> d" "scheduleAfter (nowOf en) d l m (en_scheduler en) = Inr (i, s)"
  shows "calm en (en\<lparr>en_scheduler := s\<rparr>)"
proof -
  have s: "s = snd (scheduleAt (nowOf en + d) l m (en_scheduler en))" using assms by (auto simp: scheduleAfter_def split: if_splits)
  have "scheduler_ok (en_scheduler en) \<longrightarrow> scheduler_ok s"
    using tsStep_ok [of "en_scheduler en" "TsScheduleAt (nowOf en + d) l m"] by (simp add: s)
  moreover have "t \<in> set (ts_queue (en_scheduler en)) \<or> nowOf en < tm_dueMs t" if "t \<in> set (ts_queue s)" for t
    using that assms(1) by (auto simp: s scheduleAt_def Let_def)
  ultimately show ?thesis by (auto simp: calm_def)
qed

lemma cancel_calm: "calm en (en\<lparr>en_scheduler := snd (ts_cancel i (en_scheduler en))\<rparr>)"
  using tsStep_ok [of "en_scheduler en" "TsCancel i"] by (auto simp: calm_def ts_cancel_def Let_def)

lemma runCallback_calm: "paced cb \<Longrightarrow> returns_calm (runCallback cfg cb en) en"
proof (induction cb arbitrary: en)
  case (Finish st)
  have "calm en (en\<lparr>en_strategy := st\<rparr>)" by (rule calm_same) simp_all
  then show ?case by auto
next
  case (Look k)
  then show ?case by auto
next
  case (Submit i k)
  then have "returns_calm (runCallback cfg k (ctx_submit cfg i en)) (ctx_submit cfg i en)" by simp
  then show ?case by (simp add: returns_start [OF submit_calm])
next
  case (ScheduleAfter d l m k)
  obtain i s where r: "scheduleAfter (nowOf en) d l m (en_scheduler en) = Inr (i, s)"
    using ScheduleAfter.prems by (cases "scheduleAt (nowOf en + d) l m (en_scheduler en)") (auto simp: scheduleAfter_def)
  show ?case using returns_start [OF schedule_calm [OF _ r]] ScheduleAfter.prems ScheduleAfter.IH [OF rangeI] by (auto simp: r)
next
  case (CancelTimer i k)
  have "returns_calm (runCallback cfg (CancelTimer i k) en) (en\<lparr>en_scheduler := snd (ts_cancel i (en_scheduler en))\<rparr>)"
    using CancelTimer.IH [OF rangeI] CancelTimer.prems by simp
  then show ?case by (rule returns_start [OF cancel_calm])
qed simp

section \<open>The operations of one instant\<close>

lemma clear_calm:
  assumes "en_clock en' = en_clock en" "en_scheduler en' = en_scheduler en" "en_lastEventMs en' = en_lastEventMs en"
    and "returns_calm m en'"
  shows "returns_calm m en"
  by (rule returns_start [OF calm_same [OF assms(1-3)] assms(4)])

lemma counterfactual_calm: "calm en (eachCounterfactual cfg act en)"
  using eachCounterfactual_frame [of cfg act en] by (auto intro: calm_same)

lemma callbacks_calm:
  assumes "paced_strategy (bo_strategy cfg)"
  shows "returns_calm (runCallback cfg (sg_onStart (bo_strategy cfg) st) en) en"
    "returns_calm (runCallback cfg (sg_onStop (bo_strategy cfg) st) en) en"
    "returns_calm (runCallback cfg (sg_onBookUpdate (bo_strategy cfg) ev st) en) en"
    "returns_calm (runCallback cfg (sg_onTrade (bo_strategy cfg) ev st) en) en"
    "returns_calm (runCallback cfg (sg_onTimer (bo_strategy cfg) ev st) en) en"
    "returns_calm (runCallback cfg (sg_onDataGap (bo_strategy cfg) ev st) en) en"
    "returns_calm (runCallback cfg (sg_onFill (bo_strategy cfg) fi st) en) en"
    "returns_calm (runCallback cfg (sg_onOrderUpdate (bo_strategy cfg) u st) en) en"
    "returns_calm (runCallback cfg (sg_onDataResume (bo_strategy cfg) m st) en) en"
  using assms by (auto simp: paced_strategy_def intro!: runCallback_calm)

lemma applyFills_calm: "paced_strategy (bo_strategy cfg) \<Longrightarrow> returns_calm (applyFills cfg fs en) en"
proof (induction fs arbitrary: en)
  case (Cons f fs)
  let ?en = "bookFill cfg f en"
  have "returns_calm (bindE (runCallback cfg (sg_onFill (bo_strategy cfg) (fill.truncate f) (en_strategy ?en)) ?en) (applyFills cfg fs)) ?en"
    by (rule returns_bind) (use Cons callbacks_calm in auto)
  then have "returns_calm (applyFills cfg (f # fs) en) ?en" by (simp add: bookFill_def Let_def)
  then show ?case by (rule clear_calm [rotated 3]) (simp_all add: bookFill_def)
qed auto

lemma applyUpdates_calm: "paced_strategy (bo_strategy cfg) \<Longrightarrow> returns_calm (applyUpdates cfg us en) en"
proof (induction us arbitrary: en)
  case (Cons u us)
  let ?en = "en\<lparr>en_counts := countUpdate (ou_status u) (en_counts en)\<rparr>"
  have "returns_calm (bindE (runCallback cfg (sg_onOrderUpdate (bo_strategy cfg) u (en_strategy ?en)) ?en) (applyUpdates cfg us)) ?en"
    by (rule returns_bind) (use Cons callbacks_calm in auto)
  then have "returns_calm (applyUpdates cfg (u # us) en) ?en" by (simp add: Let_def)
  then show ?case by (rule clear_calm [rotated 3]) simp_all
qed auto

lemma applyExchange_calm: "paced_strategy (bo_strategy cfg) \<Longrightarrow> returns_calm (applyExchange cfg us fs en) en"
  unfolding applyExchange_def by (rule returns_bind [OF applyFills_calm applyUpdates_calm])

lemma advancePrimary_calm:
  assumes "paced_strategy (bo_strategy cfg)"
  shows "returns_calm (advancePrimary cfg t en) en"
proof -
  obtain us fs ex where r: "advanceTo (primaryOptions cfg) (en_store en) t (en_exchange en) = (us, fs, ex)" by (metis prod_cases3)
  show ?thesis using applyExchange_calm [OF assms, of us fs "en\<lparr>en_exchange := ex\<rparr>"]
    by (auto simp: advancePrimary_def r intro: clear_calm [rotated 3])
qed

lemma advanceCounterfactuals_calm: "calm en (advanceCounterfactuals cfg t en)"
  unfolding advanceCounterfactuals_def by (rule counterfactual_calm)

lemma recordMid_calm: "calm en (recordMid cfg m t en)"
  by (rule calm_same) (simp_all add: recordMid_def split: option.splits)

lemma noteSeries_calm: "calm en (noteSeries event en)"
  by (rule calm_same) (simp_all add: noteSeries_def split: option.splits)

lemma onSnapshotEvent_calm:
  assumes p: "paced_strategy (bo_strategy cfg)"
  shows "returns_calm (onSnapshotEvent cfg b e en) en"
proof -
  let ?m = "es_marketTicker e" and ?t = "be_receiveTimeMs b"
  let ?en1 = "en\<lparr>en_store := snd (ms_applySnapshot (bo_dec cfg) b e (en_store en)),
    en_counts := (en_counts en)\<lparr>ct_snapshots := ct_snapshots (en_counts en) + 1\<rparr>\<rparr>"
  let ?tail = "\<lambda>en. runCallback cfg (sg_onBookUpdate (bo_strategy cfg) (EvSnapshot b e) (en_strategy (recordMid cfg ?m ?t en))) (recordMid cfg ?m ?t en)"
  have tail: "returns_calm (?tail en) en" for en by (rule returns_start [OF recordMid_calm callbacks_calm(3) [OF p]])
  show ?thesis
  proof (cases "js_get (en_gapOpen en) ?m")
    case None
    have "returns_calm (?tail ?en1) en" by (rule clear_calm [OF _ _ _ tail]) simp_all
    then show ?thesis by (simp add: onSnapshotEvent_def bindE_def None Let_def)
  next
    case (Some i)
    let ?en2 = "?en1\<lparr>en_invalidIntervals := closeInterval ?t i (en_invalidIntervals en), en_gapOpen := js_del ?m (en_gapOpen en),
      en_exchange := onCaptureResume ?m (en_exchange en)\<rparr>"
    let ?en3 = "eachCounterfactual cfg (\<lambda>xo ex. ([], onCaptureResume ?m ex)) ?en2"
    have "returns_calm (bindE (runCallback cfg (sg_onDataResume (bo_strategy cfg) ?m (en_strategy ?en3)) ?en3) ?tail) ?en3"
      by (rule returns_bind [OF callbacks_calm(9) [OF p] tail])
    then have "returns_calm (bindE (runCallback cfg (sg_onDataResume (bo_strategy cfg) ?m (en_strategy ?en3)) ?en3) ?tail) ?en2"
      by (rule returns_start [OF counterfactual_calm])
    then have "returns_calm (bindE (runCallback cfg (sg_onDataResume (bo_strategy cfg) ?m (en_strategy ?en3)) ?en3) ?tail) en"
      by (rule clear_calm [rotated 3]) simp_all
    then show ?thesis by (simp add: onSnapshotEvent_def Some Let_def)
  qed
qed

lemma onDeltaEvent_calm:
  assumes p: "paced_strategy (bo_strategy cfg)"
  shows "returns_calm (onDeltaEvent cfg b e en) en"
proof -
  obtain out store where r: "ms_applyDelta (bo_dec cfg) b e (en_store en) = (out, store)" by fastforce
  let ?en1 = "en\<lparr>en_store := store, en_counts := (en_counts en)\<lparr>ct_deltas := ct_deltas (en_counts en) + 1\<rparr>\<rparr>"
  let ?en2 = "?en1\<lparr>en_exchange := onBookDelta (primaryOptions cfg) b e (en_exchange en)\<rparr>"
  let ?en3 = "recordMid cfg (ed_marketTicker e) (be_receiveTimeMs b) (eachCounterfactual cfg (\<lambda>xo ex. ([], onBookDelta xo b e ex)) ?en2)"
  have "calm ?en2 ?en3" using calm_trans [OF counterfactual_calm recordMid_calm] .
  then have "returns_calm (runCallback cfg (sg_onBookUpdate (bo_strategy cfg) (EvDelta b e) (en_strategy ?en3)) ?en3) ?en2"
    by (rule returns_start [OF _ callbacks_calm(3) [OF p]])
  then have a: "returns_calm (runCallback cfg (sg_onBookUpdate (bo_strategy cfg) (EvDelta b e) (en_strategy ?en3)) ?en3) en"
    by (rule clear_calm [rotated 3]) simp_all
  have b: "calm en ?en1" by (rule calm_same) simp_all
  show ?thesis
  proof (cases "ao_applied out")
    case True
    then show ?thesis using a by (simp add: onDeltaEvent_def r Let_def)
  next
    case False
    then show ?thesis using b by (auto simp: onDeltaEvent_def r Let_def)
  qed
qed

lemma onTradeEvent_calm:
  assumes p: "paced_strategy (bo_strategy cfg)"
  shows "returns_calm (onTradeEvent cfg b e en) en"
proof -
  obtain fs ex where r: "onTrade (primaryOptions cfg) (en_store en) b e (en_exchange en) = (fs, ex)" by fastforce
  let ?en1 = "en\<lparr>en_counts := (en_counts en)\<lparr>ct_trades := ct_trades (en_counts en) + 1\<rparr>,
    en_midSeries := onSeries (et_marketTicker e) (observe (be_receiveTimeMs b)) (en_midSeries en), en_exchange := ex\<rparr>"
  let ?en3 = "\<lambda>en. eachCounterfactual cfg (\<lambda>xo ex. onTrade xo (en_store en) b e ex) en"
  let ?tail = "\<lambda>en. runCallback cfg (sg_onTrade (bo_strategy cfg) (EvTrade b e) (en_strategy (?en3 en))) (?en3 en)"
  have "returns_calm (?tail en) en" for en by (rule returns_start [OF counterfactual_calm callbacks_calm(4) [OF p]])
  then have "returns_calm (bindE (applyExchange cfg [] fs ?en1) ?tail) ?en1"
    by (rule returns_bind [OF applyExchange_calm [OF p]])
  then have "returns_calm (bindE (applyExchange cfg [] fs ?en1) ?tail) en" by (rule clear_calm [rotated 3]) simp_all
  then show ?thesis by (simp add: onTradeEvent_def r Let_def)
qed

lemma openInterval_calm: "calm en (foldl (openInterval e) en ts)"
proof (induction ts arbitrary: en)
  case (Cons t ts)
  have "calm en (openInterval e en t)" by (rule calm_same) (simp_all add: openInterval_def Let_def)
  then show ?case using calm_trans [OF _ Cons.IH] by simp
qed simp

lemma onCaptureGapEvent_calm:
  assumes p: "paced_strategy (bo_strategy cfg)" and "gapPolicy cfg \<noteq> CgAbort"
  shows "returns_calm (onCaptureGapEvent cfg b e en) en"
proof -
  let ?en0 = "en\<lparr>en_counts := (en_counts en)\<lparr>ct_captureGaps := ct_captureGaps (en_counts en) + 1\<rparr>\<rparr>"
  obtain gone store where r: "applyCaptureGap e (en_store en) = (gone, store)" by fastforce
  define en1 where "en1 = foldl (openInterval e) (?en0\<lparr>en_store := store\<rparr>) gone"
  obtain us ex where g: "onCaptureGap (primaryOptions cfg) gone (be_receiveTimeMs b) (en_exchange en1) = (us, ex)" by fastforce
  let ?tail = "\<lambda>en. runCallback cfg (sg_onDataGap (bo_strategy cfg) (EvGap b e) (en_strategy en)) en"
  let ?cf = "\<lambda>en. eachCounterfactual cfg (\<lambda>xo ex. ([], snd (onCaptureGap xo gone (be_receiveTimeMs b) ex))) en"
  have s: "calm en en1" unfolding en1_def
    by (rule calm_trans [OF calm_same openInterval_calm]) simp_all
  have c: "returns_calm (bindE (applyExchange cfg us [] (en1\<lparr>en_exchange := ex\<rparr>)) (\<lambda>en. Inr (?cf en))) en1"
    by (rule clear_calm [where en' = "en1\<lparr>en_exchange := ex\<rparr>"])
      (simp_all add: returns_bind [OF applyExchange_calm [OF p]] returns_calmI counterfactual_calm)
  have "returns_calm (bindE (if gapPolicy cfg = CgSkipUntilFreshSnapshot
      then bindE (applyExchange cfg us [] (en1\<lparr>en_exchange := ex\<rparr>)) (\<lambda>en. Inr (?cf en)) else Inr en1) ?tail) en1"
    by (rule returns_bind) (use c callbacks_calm(6) [OF p] in auto)
  moreover have "onCaptureGapEvent cfg b e en = bindE (if gapPolicy cfg = CgSkipUntilFreshSnapshot
      then bindE (applyExchange cfg us [] (en1\<lparr>en_exchange := ex\<rparr>)) (\<lambda>en. Inr (?cf en)) else Inr en1) ?tail"
    using assms(2) g unfolding onCaptureGapEvent_def Let_def en1_def by (simp add: r)
  ultimately show ?thesis using returns_start [OF s] by simp
qed

lemma handle_calm:
  assumes "paced_strategy (bo_strategy cfg)" "gapPolicy cfg \<noteq> CgAbort"
  shows "returns_calm (handle cfg event en) en"
proof -
  have "returns_calm (handle cfg event en) (noteSeries event en)"
    by (cases event) (auto simp: handle_def assms onSnapshotEvent_calm onDeltaEvent_calm onTradeEvent_calm onCaptureGapEvent_calm)
  then show ?thesis by (rule returns_start [OF noteSeries_calm])
qed

section \<open>Draining ends\<close>

text \<open>The clock has reached \<open>d\<close> at most, and no timer is left that is due by then.\<close>

definition drained_to :: "int \<Rightarrow> ('s, 'st) engine \<Rightarrow> bool" where
  "drained_to d en \<longleftrightarrow> scheduler_ok (en_scheduler en) \<and> nowOf en \<le> d \<and> (\<forall>t \<in> set (ts_queue (en_scheduler en)). d < tm_dueMs t)"

lemma calm_drained: "calm en en' \<Longrightarrow> drained_to d en \<Longrightarrow> nowOf en = d \<Longrightarrow> drained_to d en' \<and> nowOf en' = d"
  by (fastforce simp: calm_def drained_to_def)

lemma clock_moves:
  assumes "nowOf en \<le> d"
  shows "\<exists>en'. advanceClock d en = Inr en' \<and> nowOf en' = d \<and> en_scheduler en' = en_scheduler en \<and> en_lastEventMs en' = en_lastEventMs en"
  using assms by (auto simp: advanceClock_def sc_advanceTo_def sc_nowMs_def Let_def split: option.splits)

lemma fireTimers_drained:
  assumes p: "paced_strategy (bo_strategy cfg)"
  shows "\<forall>t \<in> set ts. tm_dueMs t = d \<Longrightarrow> drained_to d en \<Longrightarrow>
    \<exists>en'. fireTimers cfg ts en = Inr en' \<and> drained_to d en' \<and> en_lastEventMs en' = en_lastEventMs en"
proof (induction ts arbitrary: en)
  case (Cons t ts)
  have d: "tm_dueMs t = d" using Cons.prems(1) by simp
  obtain en1 where c: "advanceClock d en = Inr en1" "nowOf en1 = d" "en_scheduler en1 = en_scheduler en" "en_lastEventMs en1 = en_lastEventMs en"
    using clock_moves [of en d] Cons.prems(2) unfolding drained_to_def by blast
  have d1: "drained_to d en1" using Cons.prems(2) c by (simp add: drained_to_def)
  obtain en2 where a: "advancePrimary cfg d en1 = Inr en2" "calm en1 en2"
    using advancePrimary_calm [OF p] by (auto simp: returns_calm_def)
  let ?en3 = "advanceCounterfactuals cfg d en2"
  let ?en4 = "?en3\<lparr>en_counts := countTimer (en_counts ?en3)\<rparr>"
  obtain en5 where k: "runCallback cfg (sg_onTimer (bo_strategy cfg) (timerEvent t ''simulated'') (en_strategy ?en4)) ?en4 = Inr en5" "calm ?en4 en5"
    using callbacks_calm(5) [OF p] unfolding returns_calm_def by blast
  have "calm ?en3 ?en4" by (rule calm_same) simp_all
  then have s: "calm en1 en5" using calm_trans [OF a(2) calm_trans [OF advanceCounterfactuals_calm calm_trans [OF _ k(2)]]] by blast
  have "fireTimers cfg (t # ts) en = fireTimers cfg ts en5" using c(1) a(1) k(1) by (simp add: d bindE_def Let_def)
  moreover have "drained_to d en5" "en_lastEventMs en5 = en_lastEventMs en"
    using calm_drained [OF s d1 c(2)] s c(4) by (simp_all add: calm_def)
  ultimately show ?case using Cons.IH [of en5] Cons.prems(1) by simp
qed simp

lemma drain_unfold:
  "drainTimersBefore cfg t en = (case peekDueMs (en_scheduler en) of (due, s) \<Rightarrow>
     case due of None \<Rightarrow> Some (Inr (en\<lparr>en_scheduler := s\<rparr>))
     | Some d \<Rightarrow> if t < d then Some (Inr (en\<lparr>en_scheduler := s\<rparr>))
         else (case fireTimers cfg (fst (drainDue d s)) (en\<lparr>en_scheduler := snd (drainDue d s)\<rparr>) of
                 Inl err \<Rightarrow> Some (Inl err) | Inr en \<Rightarrow> drainTimersBefore cfg t en))"
  by (subst drainTimersBefore.simps) (simp add: Let_def case_prod_unfold split: option.split)

text \<open>Each round drains one due time and every later timer is at least a millisecond on: the rounds are bounded.\<close>

lemma drain_ends:
  assumes p: "paced_strategy (bo_strategy cfg)"
  shows "nat (t + 1 - d0) = n \<Longrightarrow> scheduler_ok (en_scheduler en) \<Longrightarrow> nowOf en \<le> t \<Longrightarrow>
    (\<forall>u \<in> set (ts_queue (en_scheduler en)). d0 \<le> tm_dueMs u \<and> nowOf en \<le> tm_dueMs u) \<Longrightarrow>
    \<exists>en'. drainTimersBefore cfg t en = Some (Inr en') \<and> drained_to t en' \<and> en_lastEventMs en' = en_lastEventMs en"
proof (induction n arbitrary: d0 en rule: less_induct)
  case (less n)
  obtain due s where pk: "peekDueMs (en_scheduler en) = (due, s)" by fastforce
  have s: "scheduler_ok s" "set (ts_queue s) = set (ts_queue (en_scheduler en))"
    using pk tsStep_ok [OF less.prems(2), of TsPeek] by (auto simp: peekDueMs_def Let_def)
  have spec: "case due of None \<Rightarrow> ts_queue (en_scheduler en) = []
    | Some d \<Rightarrow> (\<exists>u \<in> set (ts_queue (en_scheduler en)). tm_dueMs u = d) \<and> (\<forall>u \<in> set (ts_queue (en_scheduler en)). d \<le> tm_dueMs u)"
    using peekDueMs_spec [OF less.prems(2)] pk by simp
  show ?case
  proof (cases due)
    case None
    then have "ts_queue s = []" using spec s(2) by simp
    then show ?thesis using None s less.prems(3) by (simp add: drain_unfold pk drained_to_def)
  next
    case (Some d)
    then obtain u where u: "u \<in> set (ts_queue (en_scheduler en))" "tm_dueMs u = d" and least: "\<forall>u \<in> set (ts_queue s). d \<le> tm_dueMs u"
      using spec s(2) by auto
    show ?thesis
    proof (cases "t < d")
      case True
      then have "drained_to t (en\<lparr>en_scheduler := s\<rparr>)" using s(1) less.prems(3) least by (auto simp: drained_to_def)
      then show ?thesis using True by (simp add: drain_unfold pk Some)
    next
      case False
      let ?en = "en\<lparr>en_scheduler := snd (drainDue d s)\<rparr>"
      note dd = drainDue_spec [OF s(1), of d]
      have due: "\<forall>v \<in> set (fst (drainDue d s)). tm_dueMs v = d"
      proof
        fix v assume "v \<in> set (fst (drainDue d s))"
        then have "v \<in> set (ts_queue s)" "tm_dueMs v \<le> d" using dd by auto
        then show "tm_dueMs v = d" using least by fastforce
      qed
      have "drained_to d ?en"
        using drainDue_ok [OF s(1)] dd less.prems(4) u by (auto simp: drained_to_def)
      then obtain en1 where f: "fireTimers cfg (fst (drainDue d s)) ?en = Inr en1" "drained_to d en1" "en_lastEventMs en1 = en_lastEventMs en"
        using fireTimers_drained [OF p due] by fastforce
      have "\<exists>en'. drainTimersBefore cfg t en1 = Some (Inr en') \<and> drained_to t en' \<and> en_lastEventMs en' = en_lastEventMs en1"
      proof (rule less.IH [OF _ refl, of "d + 1"])
        have "d0 \<le> d" using less.prems(4) u by auto
        then show "nat (t + 1 - (d + 1)) < n" using False less.prems(1) by linarith
      qed (use f(2) False in \<open>auto simp: drained_to_def\<close>)
      then show ?thesis using False f by (simp add: drain_unfold [of cfg t en] pk Some)
    qed
  qed
qed

lemma drain_returns:
  assumes "paced_strategy (bo_strategy cfg)" "scheduler_ok (en_scheduler en)" "nowOf en \<le> t"
    and "\<forall>u \<in> set (ts_queue (en_scheduler en)). nowOf en \<le> tm_dueMs u"
  shows "\<exists>en'. drainTimersBefore cfg t en = Some (Inr en') \<and> drained_to t en' \<and> en_lastEventMs en' = en_lastEventMs en"
  using drain_ends [OF assms(1) refl assms(2,3), of "nowOf en"] assms(4) by auto

section \<open>The loop ends\<close>

lemma checkpoints_calm: "calm en (checkCheckpointsUpTo cfg t en)"
proof -
  have "calm en (compareCheckpoint cfg cp en)" for cp en
    by (rule calm_same) (auto simp: compareCheckpoint_def Let_def split: option.splits)
  then have "calm en (checkpointLoop cfg t cps en)" for cps
    by (induction cps arbitrary: en) (auto intro: calm_trans)
  then show ?thesis by (simp add: checkCheckpointsUpTo_def)
qed

lemma mark_calm: "calm en (markEngine cfg t en)"
  by (rule calm_same) (simp_all add: markEngine_def Let_def)

lemma maybeMark_calm:
  assumes "markIntervalMs cfg \<noteq> 0"
  shows "returns_calm (maybeMark cfg t en) en"
proof (cases "en_nextMarkMs en")
  case (Some n)
  have "calm en ((markEngine cfg t en)\<lparr>en_nextMarkMs := m\<rparr>)" for m
    by (rule calm_trans [OF mark_calm calm_same]) simp_all
  then show ?thesis using assms by (auto simp: maybeMark_def Some Let_def)
qed (auto simp: maybeMark_def)

text \<open>What must hold of the options for a run to return: nothing about the prices or the order flow.\<close>

definition run_returns :: "('s, 'st) backtest_options \<Rightarrow> bool" where
  "run_returns cfg \<longleftrightarrow> paced_strategy (bo_strategy cfg) \<and> gapPolicy cfg \<noteq> CgAbort \<and> markIntervalMs cfg \<noteq> 0"

lemma processEvent_returns:
  assumes ok: "run_returns cfg" and now: "drained_to (be_receiveTimeMs (eventBase event)) en"
  shows "\<exists>en'. processEvent cfg event en = Inr en' \<and> nowOf en' = be_receiveTimeMs (eventBase event) \<and>
    drained_to (be_receiveTimeMs (eventBase event)) en' \<and> en_lastEventMs en' = en_lastEventMs en"
proof -
  let ?t = "be_receiveTimeMs (eventBase event)"
  have p: "paced_strategy (bo_strategy cfg)" using ok by (simp add: run_returns_def)
  let ?en0 = "checkCheckpointsUpTo cfg ?t en"
  have s0: "calm en ?en0" by (rule checkpoints_calm)
  have "nowOf ?en0 \<le> ?t" using s0 now by (simp add: calm_def drained_to_def)
  then obtain en1 where c: "advanceClock ?t ?en0 = Inr en1" "nowOf en1 = ?t" "en_scheduler en1 = en_scheduler ?en0"
    "en_lastEventMs en1 = en_lastEventMs ?en0" using clock_moves by blast
  have "scheduler_ok (en_scheduler ?en0)" "en_scheduler ?en0 = en_scheduler en"
  proof -
    have "en_scheduler (checkpointLoop cfg ?t cps en) = en_scheduler en" for cps
      by (induction cps arbitrary: en) (auto simp: compareCheckpoint_def Let_def split: option.splits)
    then show "en_scheduler ?en0 = en_scheduler en" by (simp add: checkCheckpointsUpTo_def)
    then show "scheduler_ok (en_scheduler ?en0)" using now by (simp add: drained_to_def)
  qed
  then have d1: "drained_to ?t en1" using now c by (simp add: drained_to_def)
  have "returns_calm (bindE (advancePrimary cfg (?t - 1) en1) (\<lambda>en.
      bindE (handle cfg event (advanceCounterfactuals cfg (?t - 1) en)) (\<lambda>en.
      bindE (advancePrimary cfg ?t en) (\<lambda>en.
      bindE (maybeMark cfg ?t (advanceCounterfactuals cfg ?t en)) (\<lambda>en.
      Inr (en\<lparr>en_counts := countEvent (en_counts en)\<rparr>)))))) en1"
  proof (intro returns_bind)
    show "returns_calm (advancePrimary cfg (?t - 1) en1) en1" by (rule advancePrimary_calm [OF p])
    show "returns_calm (handle cfg event (advanceCounterfactuals cfg (?t - 1) en)) en" for en
      by (rule returns_start [OF advanceCounterfactuals_calm handle_calm]) (use ok in \<open>simp_all add: run_returns_def\<close>)
    show "returns_calm (advancePrimary cfg ?t en) en" for en by (rule advancePrimary_calm [OF p])
    show "returns_calm (maybeMark cfg ?t (advanceCounterfactuals cfg ?t en)) en" for en
      by (rule returns_start [OF advanceCounterfactuals_calm maybeMark_calm]) (use ok in \<open>simp add: run_returns_def\<close>)
    show "returns_calm (Inr (en\<lparr>en_counts := countEvent (en_counts en)\<rparr>)) en" for en
      by (rule returns_calmI) (rule calm_same; simp)
  qed
  then obtain en' where r: "processEvent cfg event en = Inr en'" and s: "calm en1 en'"
    by (auto simp: returns_calm_def processEvent_def Let_def bindE_def c(1))
  have "en_lastEventMs en' = en_lastEventMs en" using s s0 c(4) by (simp add: calm_def)
  then show ?thesis using r calm_drained [OF s d1 c(2)] by blast
qed

fun eventTimes :: "research_event list \<Rightarrow> int list" where
  "eventTimes [] = []"
| "eventTimes (ev # evs) = be_receiveTimeMs (eventBase ev) # eventTimes evs"

definition between_events :: "('s, 'st) engine \<Rightarrow> bool" where
  "between_events en \<longleftrightarrow> scheduler_ok (en_scheduler en) \<and> (\<forall>t \<in> set (ts_queue (en_scheduler en)). nowOf en \<le> tm_dueMs t) \<and>
     (\<forall>t. en_lastEventMs en = Some t \<longrightarrow> nowOf en = t)"

lemma arriveAt_drain: "en_scheduler (arriveAt t en) = en_scheduler en" "en_clock (arriveAt t en) = en_clock en"
  "en_lastEventMs (arriveAt t en) = Some t"
  by (simp_all add: arriveAt_def Let_def)

lemma eventLoop_returns:
  assumes ok: "run_returns cfg"
  shows "between_events en \<Longrightarrow> sorted (eventTimes evs) \<Longrightarrow> \<forall>t \<in> set (eventTimes evs). nowOf en \<le> t \<Longrightarrow>
    \<exists>en'. eventLoop cfg evs en = Some (Inr en') \<and> between_events en'"
proof (induction evs arbitrary: en)
  case (Cons ev evs)
  let ?t = "be_receiveTimeMs (eventBase ev)"
  have p: "paced_strategy (bo_strategy cfg)" using ok by (simp add: run_returns_def)
  obtain en1 where d: "drainTimersBefore cfg ?t (arriveAt ?t en) = Some (Inr en1)" "drained_to ?t en1" "en_lastEventMs en1 = Some ?t"
    using drain_returns [OF p, of "arriveAt ?t en" ?t] Cons.prems by (auto simp: arriveAt_drain between_events_def)
  obtain en2 where e: "processEvent cfg ev en1 = Inr en2" "nowOf en2 = ?t" "drained_to ?t en2" "en_lastEventMs en2 = Some ?t"
    using processEvent_returns [OF ok d(2)] d(3) by auto
  have b: "between_events en2" using e by (fastforce simp: between_events_def drained_to_def)
  then have "\<exists>en'. eventLoop cfg evs en2 = Some (Inr en') \<and> between_events en'"
    using Cons.IH [OF b] Cons.prems(2) e(2) by simp
  then show ?case using d(1) e(1) b by (simp add: Let_def bindR_def)
qed simp

lemma closeGaps_clear: "en_clock (closeGaps t en) = en_clock en \<and> en_scheduler (closeGaps t en) = en_scheduler en \<and>
   en_lastEventMs (closeGaps t en) = en_lastEventMs en"
  unfolding closeGaps_def by (rule foldl_invariant) auto

lemma finishRun_calm:
  assumes p: "paced_strategy (bo_strategy cfg)"
  shows "returns_calm (finishRun cfg t en) en"
proof -
  let ?en0 = "checkCheckpointsUpTo cfg (t + 1) en"
  obtain us ex where f: "finalize (primaryOptions cfg) t (en_exchange ?en0) = (us, ex)" by fastforce
  let ?fin = "\<lambda>en. closeGaps t (markEngine cfg t (eachCounterfactual cfg (\<lambda>xo ex. ([], snd (finalize xo t ex))) en))"
  have "calm en (?fin en)" for en
    by (rule calm_trans [OF counterfactual_calm calm_trans [OF mark_calm calm_same]]) (simp_all add: closeGaps_clear)
  then have "returns_calm (bindE (applyExchange cfg us [] (?en0\<lparr>en_exchange := ex\<rparr>)) (\<lambda>en. Inr (?fin en))) (?en0\<lparr>en_exchange := ex\<rparr>)"
    by (intro returns_bind [OF applyExchange_calm [OF p]] returns_calmI)
  then have "returns_calm (finishRun cfg t en) (?en0\<lparr>en_exchange := ex\<rparr>)" by (simp add: finishRun_def f Let_def)
  then have "returns_calm (finishRun cfg t en) ?en0" by (rule clear_calm [rotated 3]) simp_all
  then show ?thesis by (rule returns_start [OF checkpoints_calm])
qed

lemma scheduler_ok_new: "scheduler_ok newScheduler"
  by (simp add: scheduler_ok_def newScheduler_def)

lemma runTrading_returns:
  assumes ok: "run_returns cfg" and times: "sorted (eventTimes (hs_events (bo_source cfg)))"
    and start: "\<forall>t \<in> set (eventTimes (hs_events (bo_source cfg))). 0 \<le> t"
  shows "\<exists>en. runTrading cfg (newEngine cfg feeState st) = Some (Inr en)"
proof -
  have p: "paced_strategy (bo_strategy cfg)" using ok by (simp add: run_returns_def)
  let ?en = "loadRun cfg (newEngine cfg feeState st)"
  have new: "en_clock ?en = newClock 0" "en_scheduler ?en = newScheduler" "en_lastEventMs ?en = None"
    by (simp_all add: loadRun_def newEngine_def)
  obtain en1 where s: "runCallback cfg (sg_onStart (bo_strategy cfg) (en_strategy ?en)) ?en = Inr en1" "calm ?en en1"
    using callbacks_calm(1) [OF p] unfolding returns_calm_def by blast
  have b: "between_events en1" "nowOf en1 = 0"
    using s(2) [unfolded calm_def new] scheduler_ok_new
    by (auto simp: between_events_def newScheduler_def newClock_def sc_nowMs_def)
  obtain en2 where l: "eventLoop cfg (hs_events (bo_source cfg)) en1 = Some (Inr en2)" "between_events en2"
    using eventLoop_returns [OF ok b(1) times] b(2) start by auto
  have "\<exists>en3. (case en_lastEventMs en2 of None \<Rightarrow> Some (Inr en2)
      | Some lastMs \<Rightarrow> bindR (drainTimersBefore cfg (lastMs + 1) en2) (\<lambda>en. Some (finishRun cfg lastMs en))) = Some (Inr en3)"
  proof (cases "en_lastEventMs en2")
    case (Some t)
    obtain en3 where "drainTimersBefore cfg (t + 1) en2 = Some (Inr en3)"
      using drain_returns [OF p, of en2 "t + 1"] l(2) Some by (auto simp: between_events_def)
    then show ?thesis using finishRun_calm [OF p] by (fastforce simp: Some bindR_def returns_calm_def)
  qed simp
  then obtain en3 where f: "(case en_lastEventMs en2 of None \<Rightarrow> Some (Inr en2)
      | Some lastMs \<Rightarrow> bindR (drainTimersBefore cfg (lastMs + 1) en2) (\<lambda>en. Some (finishRun cfg lastMs en))) = Some (Inr en3)" by blast
  obtain en4 where k: "runCallback cfg (sg_onStop (bo_strategy cfg) (en_strategy en3)) en3 = Inr en4"
    using callbacks_calm(2) [OF p] unfolding returns_calm_def by blast
  show ?thesis by (simp add: runTrading_def Let_def s(1) bindR_def l(1) f k)
qed

section \<open>Properties\<close>

text \<open>
  C8: A backtest ends: whatever orders a strategy places and whatever the exchange does with them, if its timers are at
  least a millisecond away, it throws nothing, the events are in time order and the options do not ask to abort,
  the run returns a result. A timer that schedules another one is no danger, however many there are.
\<close>

theorem backtest_returns:
  assumes "paced_strategy (bo_strategy cfg)" "bo_gapPolicy cfg \<noteq> Some CgAbort" "bo_markIntervalMs cfg \<noteq> Some 0"
    and "sorted (eventTimes (hs_events (bo_source cfg)))" "list_all (\<lambda>t. 0 \<le> t) (eventTimes (hs_events (bo_source cfg)))"
  shows "\<exists>report en. runBacktest cfg feeState st = Some (Inr (report, en))"
proof -
  have "run_returns cfg"
    using assms(1-3) by (auto simp: run_returns_def gapPolicy_def markIntervalMs_def split: option.splits)
  then obtain en where "runTrading cfg (newEngine cfg feeState st) = Some (Inr en)"
    using runTrading_returns [OF _ assms(4)] assms(5) unfolding list_all_iff by blast
  then show ?thesis by (cases "applySettlement cfg (en_lastEventMs en) en") (auto simp: runBacktest_def bindR_def)
qed

end
