(* ===== verification/EngineProps.thy ===== *)
theory EngineProps
  imports EngineLive ExchangeProps
begin

text \<open>
  Invariants of every backtest run and the properties they give: what the exchange, the books and the portfolios
  promise each other when the engine composes them.
\<close>

section \<open>Everything the exchanges promise holds throughout a run\<close>

definition options_ok :: "('s, 'st) backtest_options \<Rightarrow> bool" where
  "options_ok cfg \<longleftrightarrow> decimal_lib (bo_dec cfg) \<and> latency_model (bo_latency cfg) \<and>
     (\<forall>m \<in> insert (bo_fillModel cfg) (set (bo_counterfactualFillModels cfg)). fill_model m) \<and>
     (\<forall>ev \<in> set (hs_events (bo_source cfg)). event_ok ev)"

definition engine_sound :: "('s, 'st) backtest_options \<Rightarrow> ('s, 'st) engine_state \<Rightarrow> bool" where
  "engine_sound cfg s \<longleftrightarrow> options_ok cfg \<and> store_ok (bo_dec cfg) (bo_sha256 cfg) (en_store (snd s)) \<and>
     exchange_ok (primaryOptions cfg) (nowOf (snd s)) (en_exchange (snd s)) \<and>
     (\<forall>c \<in> set (en_counterfactuals (snd s)). cf_model c \<in> set (bo_counterfactualFillModels cfg) \<and>
        exchange_ok (exchangeOptions cfg (cf_model c)) (nowOf (snd s)) (cf_exchange c))"

lemma exchange_ok_fee [simp]: "exchange_ok xo T (ex\<lparr>ex_feeState := s\<rparr>) = exchange_ok xo T ex"
proof -
  have "orderOf (ex\<lparr>ex_feeState := s\<rparr>) = orderOf ex" by (rule orderOf_cong) simp
  moreover have "acct T {} (ex\<lparr>ex_feeState := s\<rparr>) = acct T {} ex" by (rule acct_cong) simp_all
  ultimately show ?thesis by (simp add: exchange_ok_def indexes_ok_def pends_in_def)
qed

lemma exchange_ok_mono: "exchange_ok xo T ex \<Longrightarrow> T \<le> T' \<Longrightarrow> exchange_ok xo T' ex"
  using acct_mono [of T "{}" ex T' "{}"] by (auto simp: exchange_ok_def)

lemma exchange_ok_model: "exchange_ok (exchangeOptions cfg m) T ex = exchange_ok (primaryOptions cfg) T ex"
  by (simp add: exchange_ok_def exchangeOptions_def)

lemma exchangeOptions_simps [simp]:
  "xo_fillModel (exchangeOptions cfg m) = m" "xo_latency (exchangeOptions cfg m) = bo_latency cfg"
  "xo_dec (exchangeOptions cfg m) = bo_dec cfg" "xo_sha256 (exchangeOptions cfg m) = bo_sha256 cfg"
  "xo_marketStates (exchangeOptions cfg m) = hs_marketStates (bo_source cfg)"
  "xo_feeModel (exchangeOptions cfg m) = bo_feeModel cfg"
  by (simp_all add: exchangeOptions_def)

text \<open>A property of each counterfactual survives a call, if the call keeps it of each one.\<close>

lemma eachCounterfactual_all:
  fixes en :: "('s, 'st) engine"
  assumes "\<forall>c \<in> set (en_counterfactuals en). P c"
    and "\<And>c s fs ex. P c \<Longrightarrow> act (exchangeOptions cfg (cf_model c)) ((cf_exchange c)\<lparr>ex_feeState := s\<rparr>) = (fs, ex) \<Longrightarrow>
      P (c\<lparr>cf_exchange := ex, cf_portfolio := foldl (\<lambda>pf f. pf_applyFill (bo_dec cfg) f pf) (cf_portfolio c) fs\<rparr>)"
  shows "\<forall>c \<in> set (en_counterfactuals (eachCounterfactual cfg act en)). P c"
proof -
  have "(\<forall>c \<in> set (en_counterfactuals (foldl (counterfactualStep cfg act) en is)). P c) \<and>
      length (en_counterfactuals (foldl (counterfactualStep cfg act) en is)) = length (en_counterfactuals en)"
    if "set is \<subseteq> {..<length (en_counterfactuals en)}" for "is"
  proof (rule foldl_invariant)
    fix s :: "('s, 'st) engine" and i
    assume s: "(\<forall>c \<in> set (en_counterfactuals s). P c) \<and> length (en_counterfactuals s) = length (en_counterfactuals en)"
      and "i \<in> set is"
    then have c: "P (en_counterfactuals s ! i)" using that by (auto intro: nth_mem)
    obtain fs ex where a: "act (exchangeOptions cfg (cf_model (en_counterfactuals s ! i)))
        ((cf_exchange (en_counterfactuals s ! i))\<lparr>ex_feeState := ex_feeState (en_exchange s)\<rparr>) = (fs, ex)" by fastforce
    show "(\<forall>c \<in> set (en_counterfactuals (counterfactualStep cfg act s i)). P c) \<and>
        length (en_counterfactuals (counterfactualStep cfg act s i)) = length (en_counterfactuals en)"
      using s assms(2) [OF c a] set_update_subset_insert [of "en_counterfactuals s" i]
      by (auto simp: counterfactualStep_def Let_def a)
  qed (use assms(1) in simp)
  from this [of "[0..<length (en_counterfactuals en)]"] show ?thesis by (simp add: eachCounterfactual_fold atLeast0LessThan)
qed

lemma counterfactual_exchange:
  "\<exists>s. en_exchange (eachCounterfactual cfg act en) = (en_exchange en)\<lparr>ex_feeState := s\<rparr>"
  using eachCounterfactual_frame [of cfg act en] by auto

lemma zip_exchanges: "map (\<lambda>p. (fst p)\<lparr>cf_exchange := snd p\<rparr>) (zip xs (map g xs)) = map (\<lambda>x. x\<lparr>cf_exchange := g x\<rparr>) xs"
  by (induction xs) simp_all

lemma submitToAll_map: "submitToAll others store i t = map (\<lambda>o1. snd (submit (fst o1) store i t (snd o1))) others"
  by (simp add: case_prod_unfold)

lemma ctx_submit_fields:
  "en_exchange (ctx_submit cfg i en) = snd (submit (primaryOptions cfg) (en_store en) i (nowOf en) (en_exchange en))"
  "en_counterfactuals (ctx_submit cfg i en) =
     map (\<lambda>c. c\<lparr>cf_exchange := snd (submit (exchangeOptions cfg (cf_model c)) (en_store en) i (nowOf en) (cf_exchange c))\<rparr>)
       (en_counterfactuals en)"
  "en_store (ctx_submit cfg i en) = en_store en" "en_portfolio (ctx_submit cfg i en) = en_portfolio en"
  "en_counts (ctx_submit cfg i en) = en_counts en" "en_gapOpen (ctx_submit cfg i en) = en_gapOpen en"
  "en_invalidIntervals (ctx_submit cfg i en) = en_invalidIntervals en" "en_scheduler (ctx_submit cfg i en) = en_scheduler en"
  by (simp_all add: ctx_submit_def adapter_submit_def Let_def zip_exchanges comp_def case_prod_unfold)

lemma submit_ok:
  assumes "latency_model (xo_latency xo)" "exchange_ok xo T ex"
  shows "exchange_ok xo T (snd (submit xo store i t ex)) \<and> ex_fills (snd (submit xo store i t ex)) = ex_fills ex"
proof -
  obtain us ex2 where r: "submit xo store i t ex = (us, ex2)" by fastforce
  show ?thesis
    using submit_stepped [OF assms(1) _ _ r, of T "xo_dec xo"] assms(2)
    by (auto simp: r exchange_ok_def stepped_def keeps_indexes_def)
qed

lemma openInterval_one:
  "\<exists>g ivs ms. openInterval e en t = en\<lparr>en_gapOpen := g, en_invalidIntervals := ivs, en_midSeries := ms\<rparr>"
  by (simp add: openInterval_def Let_def) blast

lemma openInterval_frame:
  "\<exists>g ivs ms. foldl (openInterval e) en ts = en\<lparr>en_gapOpen := g, en_invalidIntervals := ivs, en_midSeries := ms\<rparr>"
proof (induction ts arbitrary: en)
  case Nil
  have "en = en\<lparr>en_gapOpen := en_gapOpen en, en_invalidIntervals := en_invalidIntervals en, en_midSeries := en_midSeries en\<rparr>" by simp
  then show ?case by (metis foldl_Nil)
next
  case (Cons t ts)
  obtain g ivs ms where f: "openInterval e en t = en\<lparr>en_gapOpen := g, en_invalidIntervals := ivs, en_midSeries := ms\<rparr>"
    using openInterval_one by blast
  show ?case using Cons.IH [of "openInterval e en t"] by (simp add: f)
qed

lemma takeGap_frame:
  "\<exists>g ivs ms. takeGap e en =
     en\<lparr>en_store := snd (applyCaptureGap e (en_store en)), en_gapOpen := g, en_invalidIntervals := ivs, en_midSeries := ms\<rparr>"
proof -
  obtain gone s where r: "applyCaptureGap e (en_store en) = (gone, s)" by fastforce
  show ?thesis using openInterval_frame [of e "en\<lparr>en_store := s\<rparr>" gone] by (simp add: takeGap_def r)
qed

definition closeOne :: "int \<Rightarrow> ('s, 'st) engine \<Rightarrow> string \<times> nat \<Rightarrow> ('s, 'st) engine" where
  "closeOne t en x = en\<lparr>en_invalidIntervals := closeInterval t (snd x) (en_invalidIntervals en),
     en_gapOpen := js_del (fst x) (en_gapOpen en)\<rparr>"

lemma closeGaps_fold: "closeGaps t en = foldl (closeOne t) en (en_gapOpen en)"
  by (simp add: closeGaps_def closeOne_def [abs_def] case_prod_unfold)

lemma closeOne_frame: "\<exists>g ivs. foldl (closeOne t) en gs = en\<lparr>en_gapOpen := g, en_invalidIntervals := ivs\<rparr>"
proof (induction gs arbitrary: en)
  case Nil
  have "en = en\<lparr>en_gapOpen := en_gapOpen en, en_invalidIntervals := en_invalidIntervals en\<rparr>" by simp
  then show ?case by (metis foldl_Nil)
next
  case (Cons x gs)
  show ?case using Cons.IH [of "closeOne t en x"] by (simp add: closeOne_def)
qed

lemma closeGaps_frame: "\<exists>g ivs. closeGaps t en = en\<lparr>en_gapOpen := g, en_invalidIntervals := ivs\<rparr>"
  unfolding closeGaps_fold by (rule closeOne_frame)

named_theorems engine_frame \<open>the fields a move leaves alone\<close>

lemma bookFill_fields [engine_frame]:
  "en_exchange (bookFill cfg f en) = en_exchange en" "en_store (bookFill cfg f en) = en_store en"
  "en_counterfactuals (bookFill cfg f en) = en_counterfactuals en" "en_counts (bookFill cfg f en) = en_counts en"
  "en_gapOpen (bookFill cfg f en) = en_gapOpen en" "en_invalidIntervals (bookFill cfg f en) = en_invalidIntervals en"
  by (simp_all add: bookFill_def Let_def)

lemma takeSnapshot_fields [engine_frame]:
  "en_exchange (takeSnapshot cfg b e en) = en_exchange en" "en_clock (takeSnapshot cfg b e en) = en_clock en"
  "en_counterfactuals (takeSnapshot cfg b e en) = en_counterfactuals en" "en_counts (takeSnapshot cfg b e en) = en_counts en"
  "en_store (takeSnapshot cfg b e en) = storeStep (bo_dec cfg) (en_store en) (EvSnapshot b e)"
  "en_portfolio (takeSnapshot cfg b e en) = en_portfolio en"
  by (simp_all add: takeSnapshot_def Let_def split: option.splits)

lemma takeGap_fields [engine_frame]:
  "en_exchange (takeGap e en) = en_exchange en" "en_clock (takeGap e en) = en_clock en"
  "en_counterfactuals (takeGap e en) = en_counterfactuals en" "en_counts (takeGap e en) = en_counts en"
  "en_store (takeGap e en) = storeStep (bo_dec cfg) (en_store en) (EvGap b e)" "en_portfolio (takeGap e en) = en_portfolio en"
  using takeGap_frame [of e en] by auto

lemma closeGaps_fields [engine_frame]:
  "en_exchange (closeGaps t en) = en_exchange en" "en_clock (closeGaps t en) = en_clock en"
  "en_counterfactuals (closeGaps t en) = en_counterfactuals en" "en_counts (closeGaps t en) = en_counts en"
  "en_store (closeGaps t en) = en_store en" "en_portfolio (closeGaps t en) = en_portfolio en"
  using closeGaps_frame [of t en] by auto

lemma markEngine_fields [engine_frame]:
  "en_exchange (markEngine cfg t en) = en_exchange en" "en_store (markEngine cfg t en) = en_store en"
  "en_counterfactuals (markEngine cfg t en) = en_counterfactuals en" "en_counts (markEngine cfg t en) = en_counts en"
  "en_gapOpen (markEngine cfg t en) = en_gapOpen en" "en_invalidIntervals (markEngine cfg t en) = en_invalidIntervals en"
  "en_portfolio (markEngine cfg t en) = mark t (marksOf cfg en) (en_portfolio en)"
  by (simp_all add: markEngine_def Let_def)

lemma maybeMark_fields:
  assumes "maybeMark cfg t en = Inr en'"
  shows "en_exchange en' = en_exchange en \<and> en_store en' = en_store en \<and> en_counterfactuals en' = en_counterfactuals en
    \<and> en_counts en' = en_counts en \<and> en_clock en' = en_clock en \<and> en_gapOpen en' = en_gapOpen en
    \<and> en_invalidIntervals en' = en_invalidIntervals en
    \<and> (en_portfolio en' = en_portfolio en \<or> en_portfolio en' = mark t (marksOf cfg en) (en_portfolio en))"
  using maybeMark_cases [OF assms] by (auto simp: engine_frame)

lemma arriveAt_fields [engine_frame]:
  "en_exchange (arriveAt t en) = en_exchange en" "en_store (arriveAt t en) = en_store en" "en_clock (arriveAt t en) = en_clock en"
  "en_counterfactuals (arriveAt t en) = en_counterfactuals en" "en_counts (arriveAt t en) = en_counts en"
  "en_gapOpen (arriveAt t en) = en_gapOpen en" "en_invalidIntervals (arriveAt t en) = en_invalidIntervals en"
  "en_portfolio (arriveAt t en) = en_portfolio en"
  by (simp_all add: arriveAt_def Let_def)

lemma counterfactual_fields [engine_frame]:
  "en_counts (eachCounterfactual cfg act en) = en_counts en" "en_portfolio (eachCounterfactual cfg act en) = en_portfolio en"
  "en_gapOpen (eachCounterfactual cfg act en) = en_gapOpen en"
  "en_invalidIntervals (eachCounterfactual cfg act en) = en_invalidIntervals en"
  using eachCounterfactual_frame [of cfg act en] by auto

lemma clockStep_fields:
  "advanceClock t en = Inr en' \<Longrightarrow> en_exchange en' = en_exchange en \<and> en_store en' = en_store en \<and> nowOf en \<le> nowOf en'
    \<and> en_counterfactuals en' = en_counterfactuals en \<and> en_counts en' = en_counts en \<and> en_portfolio en' = en_portfolio en
    \<and> en_gapOpen en' = en_gapOpen en \<and> en_invalidIntervals en' = en_invalidIntervals en"
  using clock_monotone by (fastforce simp: advanceClock_def split: sum.splits)

lemma options_store: "options_ok cfg \<Longrightarrow> store_ok (bo_dec cfg) sha s \<Longrightarrow> event_ok ev \<Longrightarrow> store_ok (bo_dec cfg) sha (storeStep (bo_dec cfg) s ev)"
  using decimal_lib.store_step_ok(1) by (auto simp: options_ok_def)

lemma sound_exchange_call:
  assumes "options_ok cfg" "store_ok (bo_dec cfg) (bo_sha256 cfg) store" "m \<in> insert (bo_fillModel cfg) (set (bo_counterfactualFillModels cfg))"
    and "exchange_ok (exchangeOptions cfg m) T ex" "in_time T c" "callResult (exchangeOptions cfg m) store c ex = (us, fs, ex2)"
  shows "exchange_ok (exchangeOptions cfg m) T ex2 \<and> ex_fills ex2 = ex_fills ex @ fs"
  using callResult_ok [OF _ _ _ assms(4-6)] assms(1-3) by (auto simp: options_ok_def)

lemma engine_sound_step: "engine_sound cfg s \<Longrightarrow> engine_step cfg s t \<Longrightarrow> engine_sound cfg t"
proof -
  assume s: "engine_sound cfg s" and step: "engine_step cfg s t"
  note ok = s [unfolded engine_sound_def]
  have lm: "latency_model (bo_latency cfg)" using ok by (simp add: options_ok_def)
  show ?thesis using step
  proof (cases rule: engine_step.cases)
    case (SubmitStep p en i)
    then show ?thesis using ok lm by (auto simp: engine_sound_def ctx_submit_fields submit_ok)
  next
    case (ClockStep t en en')
    then show ?thesis using ok clockStep_fields [OF ClockStep(3)] by (auto simp: engine_sound_def intro: exchange_ok_mono)
  next
    case (ExchangeStep en c us fs ex)
    then show ?thesis using ok sound_exchange_call [OF _ _ _ _ ExchangeStep(3,4)] by (auto simp: engine_sound_def)
  next
    case (CounterfactualStep en c p)
    let ?P = "\<lambda>c. cf_model c \<in> set (bo_counterfactualFillModels cfg) \<and> exchange_ok (exchangeOptions cfg (cf_model c)) (nowOf en) (cf_exchange c)"
    have "\<forall>c \<in> set (en_counterfactuals (eachCounterfactual cfg (counterfactualCall (en_store en) c) en)). ?P c"
    proof (rule eachCounterfactual_all)
      fix x s fs ex
      assume x: "?P x" and a: "counterfactualCall (en_store en) c (exchangeOptions cfg (cf_model x)) ((cf_exchange x)\<lparr>ex_feeState := s\<rparr>) = (fs, ex)"
      obtain us where r: "callResult (exchangeOptions cfg (cf_model x)) (en_store en) c ((cf_exchange x)\<lparr>ex_feeState := s\<rparr>) = (us, fs, ex)"
        using a by (metis counterfactualCall_def prod.collapse)
      show "?P (x\<lparr>cf_exchange := ex, cf_portfolio := foldl (\<lambda>pf f. pf_applyFill (bo_dec cfg) f pf) (cf_portfolio x) fs\<rparr>)"
        using sound_exchange_call [OF _ _ _ _ CounterfactualStep(3) r] ok x CounterfactualStep(1) by (auto)
    qed (use ok CounterfactualStep(1) in auto)
    then show ?thesis using ok CounterfactualStep counterfactual_exchange [of cfg _ en]
      by (auto simp: engine_sound_def) (metis exchange_ok_fee)
  next
    case (SnapshotStep b e p en)
    then show ?thesis using ok options_store [OF _ _ SnapshotStep(3)] by (auto simp: engine_sound_def engine_frame)
  next
    case (DeltaStep b e p en)
    then show ?thesis using ok options_store [OF _ _ DeltaStep(3)] by (auto simp: engine_sound_def)
  next
    case (GapStep p en e)
    then show ?thesis using ok options_store [of cfg _ "en_store en" "EvGap undefined e"]
      by (auto simp: engine_sound_def takeGap_fields(1-4) takeGap_fields(5) [of e en cfg undefined])
  next
    case (NextMarkStep t en en' p)
    then show ?thesis using ok maybeMark_fields [OF NextMarkStep(3)] by (auto simp: engine_sound_def)
  qed (use ok in \<open>auto simp: engine_sound_def engine_frame\<close>)
qed

interpretation sound: engine_invariant cfg "engine_sound cfg" "\<lambda>_. True" for cfg
  by unfold_locales (simp_all add: engine_sound_step)

lemma engine_sound_new:
  assumes "options_ok cfg"
  shows "engine_sound cfg ([], loadRun cfg (newEngine cfg feeState st))"
proof -
  have "exchange_ok xo T (newExchange feeState)" for xo :: "'a exchange_options" and T by (rule exchange_ok_new)
  then show ?thesis using assms by (auto simp: engine_sound_def newEngine_def store_ok_new)
qed

lemma options_events: "options_ok cfg \<Longrightarrow> ev \<in> set (hs_events (bo_source cfg)) \<Longrightarrow> event_ok ev"
  by (simp add: options_ok_def)

lemma runTrading_sound:
  assumes "options_ok cfg" "runTrading cfg (newEngine cfg feeState st) = Some (Inr en)"
  shows "engine_sound cfg ([], en)"
  using sound.run_ends_with [OF assms(2) options_events [OF assms(1)] engine_sound_new [OF assms(1)]] by simp

text \<open>Settlement touches the portfolio only.\<close>

lemma settleStep_frame: "\<exists>pf. snd (settleStep cfg acc pos) = (snd acc)\<lparr>en_portfolio := pf\<rparr>"
proof (cases acc)
  case (Pair report en)
  have "\<exists>pf. en = en\<lparr>en_portfolio := pf\<rparr>" by (rule exI [of _ "en_portfolio en"]) simp
  then show ?thesis
    by (auto simp: Pair settleStep_def unsettled_def Let_def split: option.splits)
qed

lemma settle_fold_frame: "\<exists>pf. snd (foldl (settleStep cfg) acc ps) = (snd acc)\<lparr>en_portfolio := pf\<rparr>"
proof (induction ps arbitrary: acc)
  case Nil
  have "snd acc = (snd acc)\<lparr>en_portfolio := en_portfolio (snd acc)\<rparr>" by simp
  then show ?case by (metis foldl_Nil)
next
  case (Cons p ps)
  obtain pf where "snd (settleStep cfg acc p) = (snd acc)\<lparr>en_portfolio := pf\<rparr>" using settleStep_frame by blast
  then show ?case using Cons.IH [of "settleStep cfg acc p"] by simp
qed

lemma applySettlement_frame:
  "applySettlement cfg t en = (report, en') \<Longrightarrow> \<exists>pf ec. en' = en\<lparr>en_portfolio := pf, en_equityCurve := ec\<rparr>"
proof -
  assume a: "applySettlement cfg t en = (report, en')"
  obtain pf where f: "snd (foldl (settleStep cfg) (newReport, en) (allPositions (en_portfolio en))) = en\<lparr>en_portfolio := pf\<rparr>"
    using settle_fold_frame [of cfg "(newReport, en)" "allPositions (en_portfolio en)"] by auto
  have e: "en\<lparr>en_portfolio := pf\<rparr> = en\<lparr>en_portfolio := pf, en_equityCurve := en_equityCurve en\<rparr>" by simp
  have "en' = (case t of None \<Rightarrow> en\<lparr>en_portfolio := pf\<rparr> | Some t \<Rightarrow> markEngine cfg t (en\<lparr>en_portfolio := pf\<rparr>))"
    using a f by (auto simp: applySettlement_def split: prod.splits)
  then consider "en' = en\<lparr>en_portfolio := pf\<rparr>" | u where "en' = markEngine cfg u (en\<lparr>en_portfolio := pf\<rparr>)" by (cases t) auto
  then show ?thesis by cases (use e in metis, auto simp: markEngine_def Let_def)
qed

lemma runBacktest_trading:
  "runBacktest cfg feeState st = Some (Inr (report, en)) \<Longrightarrow>
   \<exists>en0. runTrading cfg (newEngine cfg feeState st) = Some (Inr en0) \<and> applySettlement cfg (en_lastEventMs en0) en0 = (report, en)"
  by (auto simp: runBacktest_def bindR_Inr)

lemma runBacktest_sound:
  assumes "options_ok cfg" "runBacktest cfg feeState st = Some (Inr (report, en))"
  shows "engine_sound cfg ([], en)"
proof -
  obtain en0 where "runTrading cfg (newEngine cfg feeState st) = Some (Inr en0)" "applySettlement cfg (en_lastEventMs en0) en0 = (report, en)"
    using runBacktest_trading [OF assms(2)] by blast
  then show ?thesis using runTrading_sound [OF assms(1)] applySettlement_frame
    by (fastforce simp: engine_sound_def)
qed

section \<open>The portfolios hold exactly what was filled\<close>

definition signedOf :: "simulated_fill \<Rightarrow> rat" where
  "signedOf f = (if fl_yesAction f = Buy then fl_quantity f else - fl_quantity f)"

text \<open>What a list of fills adds up to: positions, cash, fees and the fees that could not be established.\<close>

definition holds_fills :: "simulated_fill list \<Rightarrow> portfolio \<Rightarrow> bool" where
  "holds_fills fs pf \<longleftrightarrow> js_map_ok (pf_positions pf)
     \<and> (\<forall>t. positionQuantity t pf = (\<Sum>f\<leftarrow>fs. if fl_marketTicker f = t then signedOf f else 0))
     \<and> pf_cashBalance pf = (\<Sum>f\<leftarrow>fs. - (signedOf f * fl_yesPrice f) - fl_fee f)
     \<and> pf_fees pf = (\<Sum>f\<leftarrow>fs. fl_fee f)"

lemma applyFill_quantity:
  "applyFillToPosition L pos sq p fee = (a, pos') \<Longrightarrow> ps_quantity pos' = ps_quantity pos + sq \<and> fa_cashDelta a = - (sq * p) - fee"
  by (auto simp: applyFillToPosition_def opposing_def Let_def min_def abs_if split: if_splits)

lemma holds_fills_snoc:
  assumes "holds_fills fs pf"
  shows "holds_fills (fs @ [f]) (pf_applyFill L f pf)"
proof -
  have ok: "js_map_ok (pf_positions pf)" using assms by (simp add: holds_fills_def)
  obtain a pos where a: "applyFillToPosition L (heldAt (fl_marketTicker f) pf)
      (if fl_yesAction f = Buy then fl_quantity f else - fl_quantity f) (fl_yesPrice f) (fl_fee f) = (a, pos)" by fastforce
  note e = applyFill_eq [OF a ok] and q = applyFill_quantity [OF a]
  have h: "ps_quantity (heldAt t pf) = positionQuantity t pf" for t
    by (simp add: heldAt_def positionQuantity_def newPosition_def split: option.split)
  have pq: "positionQuantity t (pf_applyFill L f pf) =
      (if fl_marketTicker f = t then positionQuantity t pf + signedOf f else positionQuantity t pf)" for t
    using q h [of "fl_marketTicker f"] by (auto simp: e positionQuantity_def signedOf_def)
  have "pf_cashBalance (pf_applyFill L f pf) = pf_cashBalance pf + (- (signedOf f * fl_yesPrice f) - fl_fee f)"
    "pf_fees (pf_applyFill L f pf) = pf_fees pf + fl_fee f"
    using q by (simp_all add: e signedOf_def)
  moreover have "js_map_ok (pf_positions (pf_applyFill L f pf))" using ok by (simp add: e)
  ultimately show ?thesis using assms pq by (simp add: holds_fills_def)
qed

lemma holds_fills_fold: "holds_fills fs pf \<Longrightarrow> holds_fills (fs @ fs') (foldl (\<lambda>pf f. pf_applyFill L f pf) pf fs')"
  by (induction fs' rule: rev_induct) (auto dest: holds_fills_snoc [where L = L] simp del: append_assoc simp: append_assoc [symmetric])

lemma holds_fills_mark: "holds_fills fs (mark t ms pf) = holds_fills fs pf"
  by (simp add: holds_fills_def positionQuantity_def mark_def Let_def split: prod.split option.split)

lemma unknown_mark: "pf_unknownFeeFills (mark t ms pf) = pf_unknownFeeFills pf"
  by (simp add: mark_def Let_def split: prod.split option.split)

lemma unknown_fill: "js_map_ok (pf_positions pf) \<Longrightarrow> pf_unknownFeeFills (pf_applyFill L f pf) = pf_unknownFeeFills pf"
  by (simp add: pf_applyFill_def pf_position_def putPosition_def Let_def split: prod.split option.split)

definition unknownFees :: "simulated_fill list \<Rightarrow> nat" where
  "unknownFees fs = length (filter (\<lambda>f. \<not> fl_feeKnown f) fs)"

definition booked :: "('s, 'st) engine_state \<Rightarrow> bool" where
  "booked s \<longleftrightarrow> (\<exists>past. ex_fills (en_exchange (snd s)) = past @ fst s \<and> holds_fills past (en_portfolio (snd s)) \<and>
       pf_unknownFeeFills (en_portfolio (snd s)) = unknownFees past) \<and>
     (\<forall>c \<in> set (en_counterfactuals (snd s)). holds_fills (ex_fills (cf_exchange c)) (cf_portfolio c) \<and>
        pf_unknownFeeFills (cf_portfolio c) = 0)"

lemma holds_fills_keys: "holds_fills fs pf \<Longrightarrow> js_map_ok (pf_positions pf)"
  by (simp add: holds_fills_def)

lemma bookFill_portfolio:
  assumes "holds_fills past (en_portfolio en)" "pf_unknownFeeFills (en_portfolio en) = unknownFees past"
  shows "holds_fills (past @ [f]) (en_portfolio (bookFill cfg f en)) \<and>
    pf_unknownFeeFills (en_portfolio (bookFill cfg f en)) = unknownFees (past @ [f])"
proof -
  have n: "holds_fills past (noteUnknownFee (en_portfolio en))"
    using assms(1) by (simp add: holds_fills_def positionQuantity_def noteUnknownFee_def)
  have u: "js_map_ok (pf_positions (noteUnknownFee (en_portfolio en)))" "js_map_ok (pf_positions (en_portfolio en))"
    using holds_fills_keys n assms(1) by blast+
  show ?thesis
    using assms holds_fills_snoc [OF n, of f "bo_dec cfg"] holds_fills_snoc [OF assms(1), of f "bo_dec cfg"]
      unknown_fill [OF u(1), of "bo_dec cfg" f] unknown_fill [OF u(2), of "bo_dec cfg" f]
    by (simp add: bookFill_def Let_def unknownFees_def noteUnknownFee_def)
qed

lemma unknown_fold: "js_map_ok (pf_positions pf) \<Longrightarrow>
   pf_unknownFeeFills (foldl (\<lambda>pf f. pf_applyFill L f pf) pf fs) = pf_unknownFeeFills pf \<and>
   js_map_ok (pf_positions (foldl (\<lambda>pf f. pf_applyFill L f pf) pf fs))"
proof (induction fs rule: rev_induct)
  case (snoc f fs)
  let ?pf = "foldl (\<lambda>pf f. pf_applyFill L f pf) pf fs"
  obtain a pos where "applyFillToPosition L (heldAt (fl_marketTicker f) ?pf)
      (if fl_yesAction f = Buy then fl_quantity f else - fl_quantity f) (fl_yesPrice f) (fl_fee f) = (a, pos)" by fastforce
  then show ?case using snoc unknown_fill [of ?pf L f] applyFill_eq [of L f ?pf a pos] by simp
qed simp

lemma booked_step:
  assumes snd: "engine_sound cfg s" and b: "booked s" and step: "engine_step cfg s t"
  shows "booked t"
proof -
  note ok = snd [unfolded engine_sound_def]
  have lm: "latency_model (bo_latency cfg)" using ok by (simp add: options_ok_def)
  show ?thesis using step
  proof (cases rule: engine_step.cases)
    case (SubmitStep p en i)
    have "ex_fills (en_exchange (ctx_submit cfg i en)) = ex_fills (en_exchange en)"
      using ok lm submit_ok [of "primaryOptions cfg" "nowOf en" "en_exchange en"] SubmitStep(1) by (simp add: ctx_submit_fields)
    moreover have "ex_fills (snd (submit (exchangeOptions cfg (cf_model c)) (en_store en) i (nowOf en) (cf_exchange c))) = ex_fills (cf_exchange c)"
      if "c \<in> set (en_counterfactuals en)" for c
      using ok lm that SubmitStep(1) submit_ok [of "exchangeOptions cfg (cf_model c)" "nowOf en" "cf_exchange c"] by simp
    ultimately show ?thesis using b SubmitStep by (auto simp: booked_def ctx_submit_fields(2-4))
  next
    case (ClockStep t en en')
    then show ?thesis using b clockStep_fields [OF ClockStep(3)] by (simp add: booked_def)
  next
    case (ExchangeStep en c us fs ex)
    have "ex_fills ex = ex_fills (en_exchange en) @ fs"
      using sound_exchange_call [OF _ _ _ _ ExchangeStep(3,4)] ok ExchangeStep(1) by simp
    then show ?thesis using b ExchangeStep by (auto simp: booked_def)
  next
    case (CounterfactualStep en c p)
    let ?P = "\<lambda>c. cf_model c \<in> set (bo_counterfactualFillModels cfg) \<and> exchange_ok (exchangeOptions cfg (cf_model c)) (nowOf en) (cf_exchange c)
      \<and> holds_fills (ex_fills (cf_exchange c)) (cf_portfolio c) \<and> pf_unknownFeeFills (cf_portfolio c) = 0"
    have "\<forall>c \<in> set (en_counterfactuals (eachCounterfactual cfg (counterfactualCall (en_store en) c) en)). ?P c"
    proof (rule eachCounterfactual_all)
      fix x s fs ex
      assume x: "?P x" and a: "counterfactualCall (en_store en) c (exchangeOptions cfg (cf_model x)) ((cf_exchange x)\<lparr>ex_feeState := s\<rparr>) = (fs, ex)"
      obtain us where r: "callResult (exchangeOptions cfg (cf_model x)) (en_store en) c ((cf_exchange x)\<lparr>ex_feeState := s\<rparr>) = (us, fs, ex)"
        using a by (metis counterfactualCall_def prod.collapse)
      have e: "exchange_ok (exchangeOptions cfg (cf_model x)) (nowOf en) ex \<and> ex_fills ex = ex_fills (cf_exchange x) @ fs"
        using sound_exchange_call [OF _ _ _ _ CounterfactualStep(3) r] ok x CounterfactualStep(1) by auto
      then show "?P (x\<lparr>cf_exchange := ex, cf_portfolio := foldl (\<lambda>pf f. pf_applyFill (bo_dec cfg) f pf) (cf_portfolio x) fs\<rparr>)"
        using x holds_fills_fold unknown_fold [OF holds_fills_keys] by auto
    qed (use ok b CounterfactualStep(1) in \<open>auto simp: booked_def\<close>)
    moreover have "ex_fills (en_exchange (eachCounterfactual cfg (counterfactualCall (en_store en) c) en)) = ex_fills (en_exchange en)"
      using counterfactual_exchange [of cfg "counterfactualCall (en_store en) c" en] by auto
    ultimately show ?thesis using b CounterfactualStep by (simp add: booked_def engine_frame)
  next
    case (BookStep f p en)
    then obtain past where past: "ex_fills (en_exchange en) = past @ f # p" "holds_fills past (en_portfolio en)"
      "pf_unknownFeeFills (en_portfolio en) = unknownFees past" using b by (auto simp: booked_def)
    have "ex_fills (en_exchange (bookFill cfg f en)) = (past @ [f]) @ p" using past(1) by (simp add: engine_frame)
    then show ?thesis using b BookStep bookFill_portfolio [OF past(2,3), of f cfg]
      by (auto simp: booked_def engine_frame simp del: append_assoc)
  next
    case (NextMarkStep t en en' p)
    then show ?thesis using b maybeMark_fields [OF NextMarkStep(3)]
      by (auto simp: booked_def holds_fills_mark unknown_mark)
  next
    case (GapStep p en e)
    then show ?thesis using b by (simp add: booked_def takeGap_fields(1-4,6))
  qed (use b in \<open>auto simp: booked_def engine_frame holds_fills_mark unknown_mark\<close>)
qed

interpretation books: engine_invariant cfg "engine_sound cfg" booked for cfg
  by unfold_locales (simp_all add: engine_sound_step booked_step)

lemma booked_new: "booked ([], loadRun cfg (newEngine cfg feeState st))"
  by (auto simp: booked_def newEngine_def newExchange_def holds_fills_def newPortfolio_def positionQuantity_def unknownFees_def)

section \<open>The intervals nobody watched\<close>

definition untrusted :: "market_store \<Rightarrow> string \<Rightarrow> bool" where
  "untrusted s t \<longleftrightarrow> (\<exists>bk. ms_view t s = Some bk \<and> \<not> mb_valid bk)"

text \<open>Exactly the open intervals are the ones of the open gaps, one per market, and such a market's book is not valid.\<close>

definition intervals_ok :: "invalid_interval list \<Rightarrow> (string, nat) jsmap \<Rightarrow> bool" where
  "intervals_ok ivs g \<longleftrightarrow> js_map_ok g \<and>
     (\<forall>t i. js_get g t = Some i \<longleftrightarrow> i < length ivs \<and> iv_marketTicker (ivs ! i) = t \<and> iv_toMs (ivs ! i) = None)"

definition gaps_ok :: "('s, 'st) engine_state \<Rightarrow> bool" where
  "gaps_ok s \<longleftrightarrow> intervals_ok (en_invalidIntervals (snd s)) (en_gapOpen (snd s)) \<and>
     (\<forall>t. js_get (en_gapOpen (snd s)) t \<noteq> None \<longrightarrow> untrusted (en_store (snd s)) t)"

lemma interval_opened:
  assumes "intervals_ok ivs g" "js_get g t = None" "iv_marketTicker iv = t" "iv_toMs iv = None"
  shows "intervals_ok (ivs @ [iv]) (js_set t (length ivs) g)"
proof -
  have old: "js_get g u = Some i \<longleftrightarrow> i < length ivs \<and> iv_marketTicker (ivs ! i) = u \<and> iv_toMs (ivs ! i) = None" for u i
    using assms(1) unfolding intervals_ok_def by blast
  have "js_get (js_set t (length ivs) g) u = Some i \<longleftrightarrow> i < length (ivs @ [iv]) \<and> iv_marketTicker ((ivs @ [iv]) ! i) = u
      \<and> iv_toMs ((ivs @ [iv]) ! i) = None" for u i
  proof (cases "i < length ivs")
    case True
    then show ?thesis using old [of u i] old [of t i] assms(2) by (auto simp: nth_append)
  next
    case False
    then show ?thesis using old [of u i] assms(3,4) by (auto simp: nth_append less_Suc_eq)
  qed
  moreover have "js_map_ok (js_set t (length ivs) g)" using assms(1) by (simp add: intervals_ok_def)
  ultimately show ?thesis unfolding intervals_ok_def by blast
qed

lemma interval_closed:
  assumes "intervals_ok ivs g" "js_get g t = Some i"
  shows "intervals_ok (closeInterval u i ivs) (js_del t g)"
proof -
  have old: "js_get g v = Some j \<longleftrightarrow> j < length ivs \<and> iv_marketTicker (ivs ! j) = v \<and> iv_toMs (ivs ! j) = None" for v j
    using assms(1) unfolding intervals_ok_def by blast
  have "js_get (js_del t g) v = Some j \<longleftrightarrow> j < length (closeInterval u i ivs) \<and> iv_marketTicker (closeInterval u i ivs ! j) = v
      \<and> iv_toMs (closeInterval u i ivs ! j) = None" for v j
  proof (cases "j = i")
    case True
    then show ?thesis using old [of v i] old [of t i] assms(2) by (auto simp: closeInterval_def simp del: map_of_eq_Some_iff)
  next
    case False
    then show ?thesis using old [of v j] old [of t j] assms(2) by (auto simp: closeInterval_def simp del: map_of_eq_Some_iff)
  qed
  moreover have "js_map_ok (js_del t g)" using assms(1) by (simp add: intervals_ok_def)
  ultimately show ?thesis unfolding intervals_ok_def by blast
qed

lemma untrusted_snapshot:
  assumes "ranks_ok s" "untrusted s t" "t \<noteq> es_marketTicker e"
  shows "untrusted (storeStep L s (EvSnapshot b e)) t"
proof -
  obtain out s' where r: "ms_applySnapshot L b e s = (out, s')" by fastforce
  show ?thesis using snapshot_spec(4) [OF r assms(1)] assms(2,3) by (auto simp: untrusted_def ms_view_def r)
qed

lemma untrusted_delta:
  assumes "ranks_ok s" "untrusted s t"
  shows "untrusted (snd (ms_applyDelta L b e s)) t"
proof -
  obtain out s' where r: "ms_applyDelta L b e s = (out, s')" by fastforce
  show ?thesis using r assms(1)
  proof (cases rule: delta_cases)
    case (diverged bk)
    then show ?thesis using assms(2) by (auto simp: untrusted_def ms_view_def r)
  next
    case (applied bk)
    then show ?thesis using assms(2) by (auto simp: untrusted_def ms_view_def r)
  qed (use assms(2) in \<open>auto simp: untrusted_def ms_view_def r\<close>)
qed

lemma untrusted_gap:
  assumes "applyCaptureGap e s = (gone, s')"
  shows "untrusted s t \<Longrightarrow> untrusted s' t" "t \<in> set gone \<Longrightarrow> untrusted s' t \<and> \<not> untrusted s t"
  using gap_spec(3,4) [OF assms] by (auto simp: untrusted_def ms_view_def invalidateValid_def invalidate_def)

lemma gap_distinct:
  assumes "applyCaptureGap e s = (gone, s')"
  shows "distinct gone"
proof -
  have d: "(\<lambda>(gone, s). distinct gone \<and> (\<forall>t \<in> set gone. untrusted s t)) (foldl (gapStep why) ([], s) ts)" for why ts
    by (rule foldl_invariant)
      (fastforce simp: gapStep_def untrusted_def ms_view_def putStoreBook_def invalidate_def split: option.splits if_splits)+
  obtain gone1 s1 where g: "foldl (gapStep (gapWhy e)) ([], s) (affectedBy e s) = (gone1, s1)" by fastforce
  have "gone = gone1" using assms g by (auto simp: applyCaptureGap_def affectedBy_def gapWhy_def Let_def)
  then show ?thesis using d [of "gapWhy e" "affectedBy e s"] g by simp
qed

lemma openInterval_gaps:
  assumes "intervals_ok (en_invalidIntervals en) (en_gapOpen en)" "distinct ts" "\<forall>t \<in> set ts. js_get (en_gapOpen en) t = None"
  shows "intervals_ok (en_invalidIntervals (foldl (openInterval e) en ts)) (en_gapOpen (foldl (openInterval e) en ts)) \<and>
    (\<forall>t. js_get (en_gapOpen (foldl (openInterval e) en ts)) t \<noteq> None \<longrightarrow> js_get (en_gapOpen en) t \<noteq> None \<or> t \<in> set ts)"
  using assms
proof (induction ts arbitrary: en)
  case (Cons t ts)
  let ?en = "openInterval e en t"
  have g: "en_gapOpen ?en = js_set t (length (en_invalidIntervals en)) (en_gapOpen en)"
    "\<exists>iv. en_invalidIntervals ?en = en_invalidIntervals en @ [iv] \<and> iv_marketTicker iv = t \<and> iv_toMs iv = None"
    by (simp_all add: openInterval_def Let_def)
  then have "intervals_ok (en_invalidIntervals ?en) (en_gapOpen ?en)"
    using interval_opened Cons.prems by auto
  moreover have "distinct ts" "\<forall>u \<in> set ts. js_get (en_gapOpen ?en) u = None" using Cons.prems(2,3) g(1) by auto
  ultimately show ?case using Cons.IH [of ?en] g(1) by (auto split: if_splits)
qed simp

lemma closeGaps_gaps:
  assumes "intervals_ok (en_invalidIntervals en) (en_gapOpen en)"
  shows "intervals_ok (en_invalidIntervals (closeGaps t en)) (en_gapOpen (closeGaps t en)) \<and> en_gapOpen (closeGaps t en) = []"
proof -
  have "intervals_ok (en_invalidIntervals (foldl (closeOne t) en gs)) (en_gapOpen (foldl (closeOne t) en gs)) \<and>
      en_gapOpen (foldl (closeOne t) en gs) = []"
    if "intervals_ok (en_invalidIntervals en) (en_gapOpen en)" "gs = en_gapOpen en" for gs en
    using that
  proof (induction gs arbitrary: en)
    case (Cons x gs)
    have x: "js_get (en_gapOpen en) (fst x) = Some (snd x)" unfolding Cons.prems(2) [symmetric] by (cases x) simp
    have "js_map_ok (x # gs)" using Cons.prems(1) unfolding intervals_ok_def Cons.prems(2) by blast
    then have "filter (\<lambda>y. fst x \<noteq> fst y) gs = gs" by (auto intro!: filter_True)
    then have del: "gs = js_del (fst x) (en_gapOpen en)"
      unfolding Cons.prems(2) [symmetric] by (simp add: AList.delete_eq case_prod_unfold)
    have "gs = en_gapOpen (closeOne t en x)" unfolding del by (simp add: closeOne_def)
    moreover have "intervals_ok (en_invalidIntervals (closeOne t en x)) (en_gapOpen (closeOne t en x))"
      using interval_closed [OF Cons.prems(1) x, of t] by (simp add: closeOne_def)
    ultimately show ?case using Cons.IH [of "closeOne t en x"] unfolding foldl_Cons by blast
  next
    case Nil
    then show ?case unfolding foldl_Nil by metis
  qed
  then show ?thesis using assms unfolding closeGaps_fold by blast
qed

lemma gaps_step:
  assumes snd: "engine_sound cfg s" and b: "gaps_ok s" and step: "engine_step cfg s t"
  shows "gaps_ok t"
proof -
  have ranks: "ranks_ok (en_store (snd s))" using snd by (simp add: engine_sound_def store_ok_def)
  show ?thesis using step
  proof (cases rule: engine_step.cases)
    case (SubmitStep p en i)
    then show ?thesis using b by (simp add: gaps_ok_def ctx_submit_fields)
  next
    case (ClockStep t en en')
    then show ?thesis using b clockStep_fields [OF ClockStep(3)] by (simp add: gaps_ok_def)
  next
    case (SnapshotStep bb e p en)
    have u: "untrusted (en_store (takeSnapshot cfg bb e en)) t" if "untrusted (en_store en) t" "t \<noteq> es_marketTicker e" for t
      using untrusted_snapshot [OF _ that] ranks SnapshotStep(1) by (simp add: takeSnapshot_fields del: storeStep.simps)
    show ?thesis
    proof (cases "js_get (en_gapOpen en) (es_marketTicker e)")
      case None
      then show ?thesis using b u SnapshotStep
        by (auto simp: gaps_ok_def takeSnapshot_counts Let_def) (metis option.distinct(1))
    next
      case (Some i)
      then show ?thesis using b u SnapshotStep interval_closed [of "en_invalidIntervals en" "en_gapOpen en" "es_marketTicker e" i]
        by (auto simp: gaps_ok_def takeSnapshot_counts Let_def split: if_splits)
    qed
  next
    case (DeltaStep bb e p en)
    then show ?thesis using b untrusted_delta ranks by (auto simp: gaps_ok_def)
  next
    case (GapStep p en e)
    obtain gone s' where r: "applyCaptureGap e (en_store en) = (gone, s')" by fastforce
    let ?en = "en\<lparr>en_store := s'\<rparr>"
    have fresh: "\<forall>t \<in> set gone. js_get (en_gapOpen ?en) t = None"
      using b GapStep(1) untrusted_gap(2) [OF r] by (auto simp: gaps_ok_def)
    have iv: "intervals_ok (en_invalidIntervals ?en) (en_gapOpen ?en)" using b GapStep(1) by (simp add: gaps_ok_def)
    have st: "en_store (foldl (openInterval e) ?en gone) = s'"
      using openInterval_frame [of e ?en gone] by auto
    show ?thesis
      using openInterval_gaps [OF iv gap_distinct [OF r] fresh, of e] b GapStep untrusted_gap [OF r]
      by (auto simp: gaps_ok_def takeGap_def r st)
  next
    case (NextMarkStep t en en' p)
    then show ?thesis using b maybeMark_fields [OF NextMarkStep(3)] by (simp add: gaps_ok_def)
  next
    case (CloseStep p en t)
    then show ?thesis using b closeGaps_gaps [of en t] by (auto simp: gaps_ok_def)
  qed (use b in \<open>auto simp: gaps_ok_def engine_frame\<close>)
qed

interpretation gaps: engine_invariant cfg "engine_sound cfg" gaps_ok for cfg
  by unfold_locales (simp_all add: engine_sound_step gaps_step)

section \<open>Counts and the last event\<close>

definition none_submitted :: "('s, 'st) engine_state \<Rightarrow> bool" where
  "none_submitted s \<longleftrightarrow> ct_ordersSubmitted (en_counts (snd s)) = 0"

lemma submitted_step: "none_submitted s \<Longrightarrow> engine_step cfg s t \<Longrightarrow> none_submitted t"
proof -
  assume b: "none_submitted s" and step: "engine_step cfg s t"
  show ?thesis using step
  proof (cases rule: engine_step.cases)
    case (SubmitStep p en i)
    then show ?thesis using b by (simp add: none_submitted_def ctx_submit_fields)
  next
    case (ClockStep t en en')
    then show ?thesis using b clockStep_fields [OF ClockStep(3)] by (simp add: none_submitted_def)
  next
    case (NextMarkStep t en en' p)
    then show ?thesis using b maybeMark_fields [OF NextMarkStep(3)] by (simp add: none_submitted_def)
  qed (use b in \<open>auto simp: none_submitted_def engine_frame\<close>)
qed

interpretation submitted: engine_invariant cfg "\<lambda>_. True" none_submitted for cfg
  by unfold_locales (simp_all add: submitted_step)

text \<open>
  The engine counts an order as submitted when an update reports it pending, but the only such updates are the ones a
  submission returns, and the context drops those: the count is always zero.
\<close>

theorem submitted_never_counted:
  assumes "list_all event_ok (hs_events (bo_source cfg))" "runTrading cfg (newEngine cfg feeState st) = Some (Inr en)"
  shows "ct_ordersSubmitted (en_counts en) = 0"
proof -
  have "none_submitted ([], loadRun cfg (newEngine cfg feeState st))" by (simp add: none_submitted_def newEngine_def)
  then show ?thesis using submitted.run_ends_with [OF assms(2)] assms(1) by (auto simp: none_submitted_def list_all_iff)
qed

definition arrived :: "('s, 'st) engine_state \<Rightarrow> bool" where
  "arrived s \<longleftrightarrow> en_lastEventMs (snd s) \<noteq> None"

lemma arrived_step: "arrived s \<Longrightarrow> engine_step cfg s t \<Longrightarrow> arrived t"
proof -
  assume b: "arrived s" and step: "engine_step cfg s t"
  show ?thesis using step
  proof (cases rule: engine_step.cases)
    case (SubmitStep p en i)
    then show ?thesis using b by (simp add: arrived_def ctx_submit_def Let_def split: prod.splits)
  next
    case (ClockStep t en en')
    then show ?thesis using b by (auto simp: arrived_def advanceClock_def split: sum.splits)
  next
    case (CounterfactualStep en c p)
    then show ?thesis using b eachCounterfactual_frame [of cfg "counterfactualCall (en_store en) c" en] by (auto simp: arrived_def)
  next
    case (BookStep f p en)
    then show ?thesis using b by (simp add: arrived_def bookFill_def Let_def)
  next
    case (SnapshotStep bb e p en)
    then show ?thesis using b by (simp add: arrived_def takeSnapshot_def Let_def split: option.splits)
  next
    case (GapStep p en e)
    then show ?thesis using b takeGap_frame [of e en] by (auto simp: arrived_def)
  next
    case (MarkStep p en t)
    then show ?thesis using b by (simp add: arrived_def markEngine_def Let_def)
  next
    case (NextMarkStep t en en' p)
    then show ?thesis using b maybeMark_cases [OF NextMarkStep(3)] by (auto simp: arrived_def markEngine_def Let_def)
  next
    case (CloseStep p en t)
    then show ?thesis using b closeGaps_frame [of t en] by (auto simp: arrived_def)
  qed (use b in \<open>simp_all add: arrived_def arriveAt_drain\<close>)
qed

interpretation arrival: engine_invariant cfg "\<lambda>_. True" arrived for cfg
  by unfold_locales (simp_all add: arrived_step)

lemma runCallback_frame:
  "runCallback cfg cb en = Inr en' \<Longrightarrow> en_invalidIntervals en' = en_invalidIntervals en \<and> en_gapOpen en' = en_gapOpen en \<and>
     en_portfolio en' = en_portfolio en \<and> en_lastEventMs en' = en_lastEventMs en"
proof (induction cb arbitrary: en)
  case (Submit i k)
  from Submit.IH [of "ctx_submit cfg i en"] Submit.prems show ?case
    by (simp add: ctx_submit_fields) (simp add: ctx_submit_def Let_def split: prod.splits)
next
  case (ScheduleAfter d l m k)
  then obtain i s where "runCallback cfg (k i) (en\<lparr>en_scheduler := s\<rparr>) = Inr en'"
    by (auto split: sum.splits)
  then show ?case using ScheduleAfter.IH [OF rangeI] by fastforce
next
  case (CancelTimer i k)
  then show ?case using CancelTimer.IH [OF rangeI] by fastforce
qed auto

lemma eventLoop_arrived:
  assumes "eventLoop cfg (ev # evs) en = Some (Inr en')" "\<And>ev'. ev' \<in> set (ev # evs) \<Longrightarrow> event_ok ev'"
  shows "arrived ([], en')"
proof -
  let ?t = "be_receiveTimeMs (eventBase ev)"
  obtain en1 en2 where r: "drainTimersBefore cfg ?t (arriveAt ?t en) = Some (Inr en1)" "processEvent cfg ev en1 = Inr en2"
    and rest: "(if stopAfter cfg en2 then Some (Inr en2) else eventLoop cfg evs en2) = Some (Inr en')"
    using assms(1) by (auto simp: Let_def bindR_Inr)
  have a: "arrived ([], arriveAt ?t en)" by (simp add: arrived_def arriveAt_drain)
  have "engine_steps cfg ([], arriveAt ?t en) ([], en2)"
    using drain_steps [OF r(1)] processEvent_steps [OF r(2)] assms(2) by (meson list.set_intros(1) rtranclp_trans)
  moreover have "engine_steps cfg ([], en2) ([], en')"
    using rest eventLoop_steps [of cfg evs en2 en'] assms(2) by (auto split: if_splits)
  ultimately show ?thesis using arrival.reached [of cfg "([], arriveAt ?t en)" "([], en')"] a by (simp add: rtranclp_trans)
qed

lemma closeGaps_empty: "en_gapOpen (closeGaps t en) = []"
proof -
  have "en_gapOpen (foldl (closeOne t) en gs) = filter (\<lambda>x. fst x \<notin> fst ` set gs) (en_gapOpen en)" for gs
    by (induction gs arbitrary: en) (auto simp: closeOne_def AList.delete_eq case_prod_unfold intro: filter_cong)
  then show ?thesis by (simp add: closeGaps_fold filter_empty_conv)
qed

lemma gaps_new: "gaps_ok ([], loadRun cfg (newEngine cfg feeState st))"
  by (simp add: gaps_ok_def intervals_ok_def newEngine_def)

lemma runTrading_closes:
  assumes ok: "options_ok cfg" and run: "runTrading cfg (newEngine cfg feeState st) = Some (Inr en)"
  shows "en_gapOpen en = []"
proof -
  let ?en = "loadRun cfg (newEngine cfg feeState st)"
  obtain en1 en2 en3 where r: "runCallback cfg (sg_onStart (bo_strategy cfg) (en_strategy ?en)) ?en = Inr en1"
    "eventLoop cfg (hs_events (bo_source cfg)) en1 = Some (Inr en2)"
    "(case en_lastEventMs en2 of None \<Rightarrow> Some (Inr en2)
      | Some lastMs \<Rightarrow> bindR (drainTimersBefore cfg (lastMs + 1) en2) (\<lambda>en. Some (finishRun cfg lastMs en))) = Some (Inr en3)"
    "runCallback cfg (sg_onStop (bo_strategy cfg) (en_strategy en3)) en3 = Inr en"
    using run by (auto simp: runTrading_def Let_def bindR_Inr)
  have "en_gapOpen en3 = []"
  proof (cases "en_lastEventMs en2")
    case None
    then have "hs_events (bo_source cfg) = []"
      using eventLoop_arrived [of cfg _ _ en1 en2] r(2) options_events [OF ok] by (cases "hs_events (bo_source cfg)") (auto simp: arrived_def)
    then show ?thesis using r(1,2,3) None runCallback_frame [OF r(1)] by (auto simp: newEngine_def)
  next
    case (Some t)
    then obtain en4 where f: "finishRun cfg t en4 = Inr en3" using r(3) by (auto simp: bindR_Inr)
    obtain us ex where "finalize (primaryOptions cfg) t (en_exchange (checkCheckpointsUpTo cfg (t + 1) en4)) = (us, ex)" by fastforce
    then obtain en5 where "en3 = closeGaps t en5" using f by (auto simp: finishRun_def bindE_Inr Let_def)
    then show ?thesis by (simp add: closeGaps_empty)
  qed
  then show ?thesis using runCallback_frame [OF r(4)] by simp
qed

section \<open>Properties of a backtest\<close>

lemma options_okI:
  assumes "decimal_lib (bo_dec cfg)" "latency_model (bo_latency cfg)"
    and "list_all fill_model (bo_fillModel cfg # bo_counterfactualFillModels cfg)" "list_all event_ok (hs_events (bo_source cfg))"
  shows "options_ok cfg"
  using assms by (auto simp: options_ok_def list_all_iff)

text \<open>
  C3: No strategy can make a backtest trade on the future or beyond its orders. After any run, in the primary exchange and in
  every counterfactual one, each fill belongs to an order, comes no earlier than that order could have arrived,
  which is not before it was submitted, is within the order's limit, and all fills of the order together are what it
  reports as filled, at most what was ordered.
\<close>

theorem backtest_fills_causal:
  assumes "decimal_lib (bo_dec cfg)" "latency_model (bo_latency cfg)"
    and "list_all fill_model (bo_fillModel cfg # bo_counterfactualFillModels cfg)" "list_all event_ok (hs_events (bo_source cfg))"
    and "runBacktest cfg feeState st = Some (Inr (report, en))"
    and "ex = en_exchange en \<or> ex \<in> cf_exchange ` set (en_counterfactuals en)"
  shows "list_all (\<lambda>f. fl_submittedAtMs f \<le> fl_arrivedAtMs f \<and> fl_arrivedAtMs f \<le> fl_filledAtMs f \<and> 0 < fl_quantity f \<and>
    (\<exists>o1. js_get (ex_orders ex) (fl_orderId f) = Some o1 \<and> fl_arrivedAtMs f = so_effectiveAtMs o1 \<and>
      (if wo_action o1 = Buy then fl_price f \<le> wo_price o1 else wo_price o1 \<le> fl_price f) \<and>
      wo_filledQuantity o1 = (\<Sum>g\<leftarrow>ex_fills ex. if fl_orderId g = fl_orderId f then fl_quantity g else 0) \<and>
      wo_filledQuantity o1 \<le> wo_quantity o1)) (ex_fills ex)"
proof -
  have "engine_sound cfg ([], en)" by (rule runBacktest_sound [OF options_okI [OF assms(1-4)] assms(5)])
  then obtain m where "exchange_ok (exchangeOptions cfg m) (nowOf en) ex"
    using assms(6) by (auto simp: engine_sound_def)
  then have a: "acct (nowOf en) {} ex" by (simp add: exchange_ok_def)
  show ?thesis unfolding list_all_iff
  proof
    fix f assume f: "f \<in> set (ex_fills ex)"
    obtain o1 where o1: "orderOf ex (fl_orderId f) = Some o1" and fits: "fill_fits f o1" using acct_fill [OF a f] by blast
    have "entry_ok (nowOf en) (fl_orderId f \<in> {}) (fl_orderId f) o1 ex" by (rule acct_entry [OF a o1])
    then have ok: "order_ok (nowOf en) o1" and sum: "wo_filledQuantity o1 = filledFor (fl_orderId f) (ex_fills ex)"
      by (simp_all add: entry_ok_def)
    have lim: "if wo_action o1 = Buy then fl_price f \<le> wo_price o1 else wo_price o1 \<le> fl_price f"
      using fits ok by (cases "wo_action o1"; cases "wo_side o1") (auto simp: fill_fits_def order_ok_def crossable_def)
    show "fl_submittedAtMs f \<le> fl_arrivedAtMs f \<and> fl_arrivedAtMs f \<le> fl_filledAtMs f \<and> 0 < fl_quantity f \<and>
      (\<exists>o1. js_get (ex_orders ex) (fl_orderId f) = Some o1 \<and> fl_arrivedAtMs f = so_effectiveAtMs o1 \<and>
        (if wo_action o1 = Buy then fl_price f \<le> wo_price o1 else wo_price o1 \<le> fl_price f) \<and>
        wo_filledQuantity o1 = (\<Sum>g\<leftarrow>ex_fills ex. if fl_orderId g = fl_orderId f then fl_quantity g else 0) \<and>
        wo_filledQuantity o1 \<le> wo_quantity o1)"
      using fits ok o1 lim sum unfolding fill_fits_def order_ok_def filledFor_def orderOf_get by blast
  qed
qed

text \<open>
  C17: The portfolio is the fills and nothing else: when trading ends, each market's position is the sum of the signed fill
  quantities there, cash is exactly what they paid and received less their fees, and as many fees are
  reported unknown as fills had one. Every fill the exchange reported was booked once, whatever the strategy did in between. A
  counterfactual's portfolio is its own exchange's fills, but never reports a fee as unknown.
\<close>

theorem portfolio_is_its_fills:
  assumes "decimal_lib (bo_dec cfg)" "latency_model (bo_latency cfg)"
    and "list_all fill_model (bo_fillModel cfg # bo_counterfactualFillModels cfg)" "list_all event_ok (hs_events (bo_source cfg))"
    and "runTrading cfg (newEngine cfg feeState st) = Some (Inr en)"
  shows "holds_fills (ex_fills (en_exchange en)) (en_portfolio en) \<and>
    pf_unknownFeeFills (en_portfolio en) = length (filter (\<lambda>f. \<not> fl_feeKnown f) (ex_fills (en_exchange en))) \<and>
    list_all (\<lambda>c. holds_fills (ex_fills (cf_exchange c)) (cf_portfolio c) \<and> pf_unknownFeeFills (cf_portfolio c) = 0)
      (en_counterfactuals en)"
proof -
  have ok: "options_ok cfg" by (rule options_okI [OF assms(1-4)])
  have "booked ([], en)"
    using books.run_ends_with [OF assms(5) options_events [OF ok] engine_sound_new [OF ok] booked_new] by simp
  then show ?thesis by (auto simp: booked_def unknownFees_def list_all_iff)
qed

text \<open>
  C40: Every interval in which the run refused to trust a book is closed when trading ends, each one by a fresh
  snapshot of its market or by the end of the run, and no gap is left open.
\<close>

theorem gap_intervals_close:
  assumes "decimal_lib (bo_dec cfg)" "latency_model (bo_latency cfg)"
    and "list_all fill_model (bo_fillModel cfg # bo_counterfactualFillModels cfg)" "list_all event_ok (hs_events (bo_source cfg))"
    and "runTrading cfg (newEngine cfg feeState st) = Some (Inr en)"
  shows "en_gapOpen en = [] \<and> list_all (\<lambda>iv. iv_toMs iv \<noteq> None) (en_invalidIntervals en)"
proof -
  have ok: "options_ok cfg" by (rule options_okI [OF assms(1-4)])
  have g: "en_gapOpen en = []" by (rule runTrading_closes [OF ok assms(5)])
  have "gaps_ok ([], en)"
    using gaps.run_ends_with [OF assms(5) options_events [OF ok] engine_sound_new [OF ok] gaps_new] by simp
  then show ?thesis using g by (auto simp: gaps_ok_def intervals_ok_def list_all_length)
qed

text \<open>
  C26: While a gap is open its market is not quotable: at every moment of a run, the state a strategy reads of a market with
  an open interval says that the book is not valid, and that interval is the market's only open one.
\<close>

theorem open_gap_is_not_valid:
  assumes "decimal_lib (bo_dec cfg)" "latency_model (bo_latency cfg)"
    and "list_all fill_model (bo_fillModel cfg # bo_counterfactualFillModels cfg)" "list_all event_ok (hs_events (bo_source cfg))"
    and "engine_steps cfg ([], loadRun cfg (newEngine cfg feeState st)) (p, en)" "js_get (en_gapOpen en) ticker = Some i"
  shows "map_option sm_valid (sv_state (contextView en) ticker) = Some False \<and>
    (\<forall>j. (j < length (en_invalidIntervals en) \<and> iv_marketTicker (en_invalidIntervals en ! j) = ticker \<and>
      iv_toMs (en_invalidIntervals en ! j) = None) = (j = i))"
proof -
  have ok: "options_ok cfg" by (rule options_okI [OF assms(1-4)])
  have g: "gaps_ok (p, en)"
    using gaps.reached [OF assms(5) engine_sound_new [OF ok] gaps_new] by blast
  then have "untrusted (en_store en) ticker" using assms(6) by (auto simp: gaps_ok_def simp del: map_of_eq_Some_iff)
  then have v: "map_option sm_valid (sv_state (contextView en) ticker) = Some False"
    by (auto simp: contextView_def marketStateOf_def untrusted_def)
  have iff: "js_get (en_gapOpen en) ticker = Some j \<longleftrightarrow> j < length (en_invalidIntervals en) \<and>
      iv_marketTicker (en_invalidIntervals en ! j) = ticker \<and> iv_toMs (en_invalidIntervals en ! j) = None" for j
    using g unfolding gaps_ok_def intervals_ok_def snd_conv by blast
  show ?thesis unfolding iff [symmetric] by (simp add: v assms(6) eq_commute del: map_of_eq_Some_iff)
qed

section \<open>Settlement\<close>

definition reported :: "settlement_report \<Rightarrow> nat" where
  "reported r = st_settled r + st_voided r + st_openAtRunEnd r + st_awaitingDetermination r + st_unpriceable r"

definition bases :: "settlement_report \<Rightarrow> nat" where
  "bases r = sum_list (map snd (st_basisCounts r))"

definition report_ok :: "settlement_report \<Rightarrow> bool" where
  "report_ok r \<longleftrightarrow> js_map_ok (st_basisCounts r) \<and> bases r = st_settled r \<and> length (st_provisional r) \<le> st_settled r \<and>
     length (st_noMarketState r) \<le> st_openAtRunEnd r + st_unpriceable r"

lemma settleStep_report:
  assumes "report_ok (fst acc)"
  shows "report_ok (fst (settleStep cfg acc p)) \<and>
    reported (fst (settleStep cfg acc p)) = reported (fst acc) + (if ps_quantity p = 0 then 0 else 1)"
  using assms
  by (cases acc)
    (auto simp: settleStep_def unsettled_def report_ok_def reported_def bases_def sum_counts Let_def split: option.splits)

lemma settle_fold_report:
  "report_ok (fst acc) \<Longrightarrow> report_ok (fst (foldl (settleStep cfg) acc ps)) \<and>
    reported (fst (foldl (settleStep cfg) acc ps)) = reported (fst acc) + length (filter (\<lambda>p. ps_quantity p \<noteq> 0) ps)"
  by (induction ps arbitrary: acc) (auto simp: settleStep_report)

text \<open>
  C29: Settlement loses no position: the five outcomes it reports together count each position that was left
  open exactly once, the bases of the settled ones add up to their number, the provisional ones are among
  them, the markets with no record are among the unsettled ones, and no order or fill is touched.
\<close>

theorem settlement_partitions:
  "let (r, en') = applySettlement cfg lastMs en
   in st_settled r + st_voided r + st_openAtRunEnd r + st_awaitingDetermination r + st_unpriceable r =
        length (filter (\<lambda>p. ps_quantity p \<noteq> 0) (allPositions (en_portfolio en))) \<and>
      sum_list (map snd (st_basisCounts r)) = st_settled r \<and> length (st_provisional r) \<le> st_settled r \<and>
      length (st_noMarketState r) \<le> st_openAtRunEnd r + st_unpriceable r \<and> en_exchange en' = en_exchange en"
proof -
  obtain r en' where a: "applySettlement cfg lastMs en = (r, en')" by fastforce
  have "r = fst (foldl (settleStep cfg) (newReport, en) (allPositions (en_portfolio en)))"
    using a by (auto simp: applySettlement_def split: prod.splits)
  moreover have "report_ok (fst (newReport, en))" by (simp add: report_ok_def newReport_def bases_def)
  ultimately have "report_ok r \<and> reported r = reported newReport + length (filter (\<lambda>p. ps_quantity p \<noteq> 0) (allPositions (en_portfolio en)))"
    using settle_fold_report [of "(newReport, en)" cfg "allPositions (en_portfolio en)"] by simp
  then show ?thesis using applySettlement_frame [OF a]
    by (auto simp: a report_ok_def reported_def bases_def newReport_def)
qed

end
