(* ===== verification/Lookahead.thy ===== *)
theory Lookahead
  imports EngineProps
begin

text \<open>
  What a backtest cannot see. Everything the engine does between the first event and settlement reads the market states
  through the fee model only, so determinations, which are facts from after the run, change nothing before
  settlement.
\<close>

section \<open>The exchange reads a market state only to price a fee\<close>

text \<open>Two maps of market states the fee model cannot tell apart.\<close>

definition fee_blind :: "'s fee_model \<Rightarrow> (string, market_state) jsmap \<Rightarrow> (string, market_state) jsmap \<Rightarrow> bool" where
  "fee_blind fm m m' \<longleftrightarrow> (\<forall>ticker q p l t s.
     fe_fee fm \<lparr>fc_marketTicker = ticker, fc_quantity = q, fc_yesPrice = p, fc_liquidity = l, fc_market = js_get m' ticker, fc_atMs = t\<rparr> s =
     fe_fee fm \<lparr>fc_marketTicker = ticker, fc_quantity = q, fc_yesPrice = p, fc_liquidity = l, fc_market = js_get m ticker, fc_atMs = t\<rparr> s)"

text \<open>Options that differ in the market states alone.\<close>

definition blind_options :: "'s exchange_options \<Rightarrow> 's exchange_options \<Rightarrow> bool" where
  "blind_options xo xo' \<longleftrightarrow> (\<exists>m'. xo' = xo\<lparr>xo_marketStates := m'\<rparr> \<and> fee_blind (xo_feeModel xo) (xo_marketStates xo) m')"

lemma recordFill_blind: "blind_options xo xo' \<Longrightarrow> recordFill xo' o1 q p l why t v tid qa ex = recordFill xo o1 q p l why t v tid qa ex"
  by (auto simp: blind_options_def recordFill_def fee_blind_def Let_def)

lemma blind_fields:
  assumes "blind_options xo xo'"
  shows "xo_dec xo' = xo_dec xo" "xo_fillModel xo' = xo_fillModel xo" "xo_latency xo' = xo_latency xo"
    "xo_sha256 xo' = xo_sha256 xo" "xo_gapOrderPolicy xo' = xo_gapOrderPolicy xo" "xo_decString xo' = xo_decString xo"
  using assms by (auto simp: blind_options_def)

lemma crossLoop_blind: "blind_options xo xo' \<Longrightarrow> crossLoop xo' v t levels o1 ex = crossLoop xo v t levels o1 ex"
proof (induction levels arbitrary: o1 ex)
  case (Cons l levels)
  obtain p s where l: "l = (p, s)" by fastforce
  note f = blind_fields [OF Cons.prems]
  show ?case unfolding l crossLoop.simps Cons.IH [OF Cons.prems] recordFill_blind [OF Cons.prems] f by (rule refl)
qed simp

lemma activate_blind:
  assumes "blind_options xo xo'"
  shows "activate xo' store o1 t ex = activate xo store o1 t ex"
proof -
  have "cross xo' o1 v t ex = cross xo o1 v t ex" "restOrder xo' o1 v t ex = restOrder xo o1 v t ex" for o1 v t ex
    by (simp_all add: cross_def crossLoop_blind [OF assms] restOrder_def blind_fields [OF assms])
  then show ?thesis unfolding activate_def blind_fields [OF assms] by presburger
qed

lemma activateLoop_blind: "blind_options xo xo' \<Longrightarrow> activateLoop xo' store t oids ex = activateLoop xo store t oids ex"
proof (induction oids arbitrary: ex)
  case (Cons oid oids)
  show ?case unfolding activateLoop.simps Cons.IH [OF Cons.prems] activate_blind [OF Cons.prems] by (rule refl)
qed simp

lemma advanceTo_blind:
  assumes "blind_options xo xo'"
  shows "advanceTo xo' store t ex = advanceTo xo store t ex"
  unfolding advanceTo_def blind_fields [OF assms] activateLoop_blind [OF assms] by (rule refl)

lemma tradeLoop_blind: "blind_options xo xo' \<Longrightarrow> tradeLoop xo' v b e avail oids ex = tradeLoop xo v b e avail oids ex"
proof (induction oids arbitrary: avail ex)
  case (Cons oid oids)
  note f = blind_fields [OF Cons.prems]
  show ?case unfolding tradeLoop.simps Cons.IH [OF Cons.prems] recordFill_blind [OF Cons.prems] f by (rule refl)
qed simp

lemma onTrade_blind:
  assumes "blind_options xo xo'"
  shows "onTrade xo' store b e ex = onTrade xo store b e ex"
  unfolding onTrade_def tradeLoop_blind [OF assms] by (rule refl)

lemma submitNew_blind:
  assumes "blind_options xo xo'"
  shows "submitNew xo' store i rq t ex = submitNew xo store i rq t ex"
  unfolding submitNew_def newOrder_def blind_fields [OF assms] by (rule refl)

lemma submit_blind:
  assumes "blind_options xo xo'"
  shows "submit xo' store i t ex = submit xo store i t ex"
proof -
  have "requestCancel xo' c t ex = requestCancel xo c t ex" for c ex
    unfolding requestCancel_def blind_fields [OF assms] by (rule refl)
  then show ?thesis by (cases i) (simp_all only: submit.simps submitNew_blind [OF assms])
qed

lemma other_blind:
  assumes "blind_options xo xo'"
  shows "onBookDelta xo' b e ex = onBookDelta xo b e ex" "onCaptureGap xo' ms t ex = onCaptureGap xo ms t ex"
    "finalize xo' t ex = finalize xo t ex"
  unfolding onBookDelta_def onCaptureGap_def gapOrderStep_def [abs_def] finalize_def blind_fields [OF assms] by (rule refl)+

section \<open>So does the engine\<close>

text \<open>The same run from another source, whose market states the fee model cannot tell from this one's.\<close>

definition blind_run :: "('s, 'st) backtest_options \<Rightarrow> ('s, 'st) backtest_options \<Rightarrow> bool" where
  "blind_run cfg cfg' \<longleftrightarrow> (\<exists>src. cfg' = cfg\<lparr>bo_source := src\<rparr> \<and>
     fee_blind (bo_feeModel cfg) (hs_marketStates (bo_source cfg)) (hs_marketStates src))"

lemma blind_run_options: "blind_run cfg cfg' \<Longrightarrow> blind_options (exchangeOptions cfg m) (exchangeOptions cfg' m)"
  by (auto simp: blind_run_def blind_options_def exchangeOptions_def)

lemma blind_run_fields:
  assumes "blind_run cfg cfg'"
  shows "bo_strategy cfg' = bo_strategy cfg" "bo_dec cfg' = bo_dec cfg" "bo_sha256 cfg' = bo_sha256 cfg"
    "bo_fillModel cfg' = bo_fillModel cfg" "markIntervalMs cfg' = markIntervalMs cfg" "gapPolicy cfg' = gapPolicy cfg"
    "bo_maxEvents cfg' = bo_maxEvents cfg"
  using assms by (auto simp: blind_run_def markIntervalMs_def gapPolicy_def)

lemma ctx_submit_blind: "blind_run cfg cfg' \<Longrightarrow> ctx_submit cfg' i en = ctx_submit cfg i en"
  by (simp add: ctx_submit_def adapter_submit_def submitToAll_map comp_def blind_run_fields
      submit_blind [OF blind_run_options] Let_def del: submitToAll.simps)

lemma runCallback_blind: "blind_run cfg cfg' \<Longrightarrow> runCallback cfg' cb en = runCallback cfg cb en"
proof (induction cb arbitrary: en)
  case (ScheduleAfter d l m k)
  then have "runCallback cfg' (k i) en = runCallback cfg (k i) en" for i en by blast
  then show ?case unfolding runCallback.simps by (rule sum.case_cong [OF refl refl])
qed (auto simp: ctx_submit_blind)

lemma applyFills_blind: "blind_run cfg cfg' \<Longrightarrow> applyFills cfg' fs en = applyFills cfg fs en"
proof (induction fs arbitrary: en)
  case (Cons f fs)
  then show ?case unfolding applyFills.simps Let_def
    by (simp add: runCallback_blind blind_run_fields bindE_def split: sum.split)
qed simp

lemma applyUpdates_blind: "blind_run cfg cfg' \<Longrightarrow> applyUpdates cfg' us en = applyUpdates cfg us en"
proof (induction us arbitrary: en)
  case (Cons u us)
  then show ?case unfolding applyUpdates.simps Let_def
    by (simp add: runCallback_blind blind_run_fields bindE_def split: sum.split)
qed simp

lemma applyExchange_blind: "blind_run cfg cfg' \<Longrightarrow> applyExchange cfg' us fs en = applyExchange cfg us fs en"
  by (simp add: applyExchange_def applyFills_blind applyUpdates_blind bindE_def split: sum.split)

lemma advancePrimary_blind: "blind_run cfg cfg' \<Longrightarrow> advancePrimary cfg' t en = advancePrimary cfg t en"
  by (simp add: advancePrimary_def blind_run_fields advanceTo_blind [OF blind_run_options] applyExchange_blind)

lemma eachCounterfactual_blind:
  assumes "blind_run cfg cfg'" "\<And>m ex. act' (exchangeOptions cfg' m) ex = act (exchangeOptions cfg m) ex"
  shows "eachCounterfactual cfg' act' en = eachCounterfactual cfg act en"
  unfolding eachCounterfactual_def assms(2) blind_run_fields(2) [OF assms(1)] by (rule refl)

lemma advanceCounterfactuals_blind: "blind_run cfg cfg' \<Longrightarrow> advanceCounterfactuals cfg' t en = advanceCounterfactuals cfg t en"
  unfolding advanceCounterfactuals_def
  by (rule eachCounterfactual_blind) (simp_all add: advanceTo_blind [OF blind_run_options])

lemma fireTimers_blind: "blind_run cfg cfg' \<Longrightarrow> fireTimers cfg' ts en = fireTimers cfg ts en"
proof (induction ts arbitrary: en)
  case (Cons t ts)
  then show ?case unfolding fireTimers.simps Let_def
    by (simp add: advancePrimary_blind advanceCounterfactuals_blind runCallback_blind blind_run_fields bindE_def split: sum.split)
qed simp

lemma drain_blind_half:
  assumes "blind_run cfg0 cfg0'" "drainTimersBefore cfg0 t0 en0 = Some y"
  shows "drainTimersBefore cfg0' t0 en0 = Some y"
proof -
  have "\<forall>cfg'. blind_run cfg0 cfg' \<longrightarrow> drainTimersBefore cfg' t0 en0 = Some y"
  proof (rule drainTimersBefore.raw_induct [OF _ assms(2)])
    fix loop :: "('a, 'b) backtest_options \<Rightarrow> int \<Rightarrow> ('a, 'b) engine \<Rightarrow> (engine_error + ('a, 'b) engine) option"
    fix cfg :: "('a, 'b) backtest_options" and t and en :: "('a, 'b) engine" and y
    assume ih: "\<And>cfg t en y. loop cfg t en = Some y \<Longrightarrow> \<forall>cfg'. blind_run cfg cfg' \<longrightarrow> drainTimersBefore cfg' t en = Some y"
      and body: "(let (due, s) = peekDueMs (en_scheduler en); en = en\<lparr>en_scheduler := s\<rparr>
        in case due of None \<Rightarrow> Some (Inr en)
           | Some d \<Rightarrow> if t < d then Some (Inr en)
               else (let (timers, s) = drainDue d (en_scheduler en)
                     in case fireTimers cfg timers (en\<lparr>en_scheduler := s\<rparr>) of
                          Inl err \<Rightarrow> Some (Inl err) | Inr en \<Rightarrow> loop cfg t en)) = Some y"
    show "\<forall>cfg'. blind_run cfg cfg' \<longrightarrow> drainTimersBefore cfg' t en = Some y"
    proof (intro allI impI)
      fix cfg' :: "('a, 'b) backtest_options"
      assume b: "blind_run cfg cfg'"
      show "drainTimersBefore cfg' t en = Some y"
      proof -
        obtain due s where pk: "peekDueMs (en_scheduler en) = (due, s)" by fastforce
        obtain fired s' where dr: "drainDue (the due) s = (fired, s')" by fastforce
        show ?thesis
        proof (cases "due = None \<or> t < the due")
          case True
          then show ?thesis using body pk by (auto simp: drain_unfold [of cfg' t en] split: option.splits if_splits)
        next
          case False
          then obtain d where d: "due = Some d" "\<not> t < d" by auto
          show ?thesis
          proof (cases "fireTimers cfg fired (en\<lparr>en_scheduler := s'\<rparr>)")
            case (Inl err)
            then have "y = Inl err" using body pk d dr by simp
            then show ?thesis using Inl pk d dr by (simp add: drain_unfold [of cfg' t en] fireTimers_blind [OF b])
          next
            case (Inr en')
            then have "loop cfg t en' = Some y" using body pk d dr by simp
            from ih [OF this] b have "drainTimersBefore cfg' t en' = Some y" by blast
            then show ?thesis using Inr pk d dr by (simp add: drain_unfold [of cfg' t en] fireTimers_blind [OF b])
          qed
        qed
      qed
    qed
  qed
  then show ?thesis using assms(1) by blast
qed

lemma fee_blind_sym: "fee_blind fm m m' \<Longrightarrow> fee_blind fm m' m"
  by (simp add: fee_blind_def)

lemma blind_run_sym:
  assumes "blind_run cfg cfg'"
  shows "blind_run cfg' cfg"
proof -
  obtain src where cfg': "cfg' = cfg\<lparr>bo_source := src\<rparr>" and f: "fee_blind (bo_feeModel cfg) (hs_marketStates (bo_source cfg)) (hs_marketStates src)"
    using assms unfolding blind_run_def by blast
  have "cfg = cfg'\<lparr>bo_source := bo_source cfg\<rparr>" unfolding cfg' by simp
  moreover have "fee_blind (bo_feeModel cfg') (hs_marketStates (bo_source cfg')) (hs_marketStates (bo_source cfg))"
    using fee_blind_sym [OF f] unfolding cfg' by simp
  ultimately show ?thesis unfolding blind_run_def by blast
qed

lemma drain_blind:
  assumes b: "blind_run cfg cfg'"
  shows "drainTimersBefore cfg' t en = drainTimersBefore cfg t en"
proof (cases "drainTimersBefore cfg t en")
  case None
  then show ?thesis using drain_blind_half [OF blind_run_sym [OF b], of t en] by (cases "drainTimersBefore cfg' t en") simp_all
next
  case (Some y)
  then show ?thesis using drain_blind_half [OF b Some] by simp
qed

lemma recordMid_blind:
  assumes b: "blind_run cfg cfg'"
  shows "recordMid cfg' m t en = recordMid cfg m t en"
  unfolding recordMid_def blind_run_fields [OF b] by (rule refl)

lemma onSnapshotEvent_blind:
  assumes b: "blind_run cfg cfg'"
  shows "onSnapshotEvent cfg' bb e en = onSnapshotEvent cfg bb e en"
proof -
  have cf: "eachCounterfactual cfg' (\<lambda>xo ex. ([], onCaptureResume m ex)) en = eachCounterfactual cfg (\<lambda>xo ex. ([], onCaptureResume m ex)) en" for m en
    by (rule eachCounterfactual_blind [OF b]) simp
  show ?thesis
    unfolding onSnapshotEvent_def cf blind_run_fields(1,2) [OF b] recordMid_blind [OF b] runCallback_blind [OF b] by (rule refl)
qed

lemma primary_blind: "blind_run cfg cfg' \<Longrightarrow> blind_options (primaryOptions cfg) (primaryOptions cfg')"
  by (simp add: blind_run_fields blind_run_options)

lemma onDeltaEvent_blind:
  assumes b: "blind_run cfg cfg'"
  shows "onDeltaEvent cfg' bb e en = onDeltaEvent cfg bb e en"
proof -
  have cf: "eachCounterfactual cfg' (\<lambda>xo ex. ([], onBookDelta xo bb e ex)) en = eachCounterfactual cfg (\<lambda>xo ex. ([], onBookDelta xo bb e ex)) en" for en
    by (rule eachCounterfactual_blind [OF b]) (simp add: other_blind [OF blind_run_options [OF b]])
  show ?thesis
    unfolding onDeltaEvent_def cf blind_run_fields(1,2) [OF b] recordMid_blind [OF b] runCallback_blind [OF b]
      other_blind(1) [OF primary_blind [OF b]] by (rule refl)
qed

lemma onTradeEvent_blind:
  assumes b: "blind_run cfg cfg'"
  shows "onTradeEvent cfg' bb e en = onTradeEvent cfg bb e en"
proof -
  have cf: "eachCounterfactual cfg' (\<lambda>xo ex. onTrade xo store bb e ex) en = eachCounterfactual cfg (\<lambda>xo ex. onTrade xo store bb e ex) en" for store en
    by (rule eachCounterfactual_blind [OF b]) (simp add: onTrade_blind [OF blind_run_options [OF b]])
  show ?thesis
    unfolding onTradeEvent_def cf blind_run_fields(1,2) [OF b] runCallback_blind [OF b] applyExchange_blind [OF b]
      onTrade_blind [OF primary_blind [OF b]] by (rule refl)
qed

lemma onCaptureGapEvent_blind:
  assumes b: "blind_run cfg cfg'"
  shows "onCaptureGapEvent cfg' bb e en = onCaptureGapEvent cfg bb e en"
proof -
  have cf: "eachCounterfactual cfg' (\<lambda>xo ex. ([], snd (onCaptureGap xo ms t ex))) en = eachCounterfactual cfg (\<lambda>xo ex. ([], snd (onCaptureGap xo ms t ex))) en" for ms t en
    by (rule eachCounterfactual_blind [OF b]) (simp add: other_blind [OF blind_run_options [OF b]])
  show ?thesis
    unfolding onCaptureGapEvent_def cf blind_run_fields(1,6) [OF b] runCallback_blind [OF b] applyExchange_blind [OF b]
      other_blind(2) [OF primary_blind [OF b]] by (rule refl)
qed

lemma handle_blind:
  assumes b: "blind_run cfg cfg'"
  shows "handle cfg' event en = handle cfg event en"
  unfolding handle_def onSnapshotEvent_blind [OF b] onDeltaEvent_blind [OF b] onTradeEvent_blind [OF b] onCaptureGapEvent_blind [OF b]
  by (rule refl)

lemma checkpoints_blind:
  assumes b: "blind_run cfg cfg'"
  shows "checkCheckpointsUpTo cfg' t en = checkCheckpointsUpTo cfg t en"
proof -
  have c: "compareCheckpoint cfg' cp en = compareCheckpoint cfg cp en" for cp en
    unfolding compareCheckpoint_def blind_run_fields [OF b] by (rule refl)
  have "checkpointLoop cfg' t cps en = checkpointLoop cfg t cps en" for cps en
    by (induction cps arbitrary: en) (simp_all add: c)
  then show ?thesis by (simp add: checkCheckpointsUpTo_def)
qed

lemma mark_blind:
  assumes b: "blind_run cfg cfg'"
  shows "markEngine cfg' t en = markEngine cfg t en" "maybeMark cfg' t en = maybeMark cfg t en"
proof -
  have "marksOf cfg' en = marksOf cfg en" for en
    unfolding marksOf_def markStepOf_def blind_run_fields [OF b] by (rule refl)
  then have m: "markEngine cfg' t en = markEngine cfg t en" for t en
    unfolding markEngine_def blind_run_fields [OF b] by simp
  show "markEngine cfg' t en = markEngine cfg t en" by (rule m)
  show "maybeMark cfg' t en = maybeMark cfg t en" unfolding maybeMark_def m blind_run_fields [OF b] by (rule refl)
qed

lemma processEvent_blind:
  assumes b: "blind_run cfg cfg'"
  shows "processEvent cfg' event en = processEvent cfg event en"
  unfolding processEvent_def advancePrimary_blind [OF b] advanceCounterfactuals_blind [OF b] handle_blind [OF b]
    checkpoints_blind [OF b] mark_blind [OF b] by (rule refl)

lemma eventLoop_blind: "blind_run cfg cfg' \<Longrightarrow> eventLoop cfg' events en = eventLoop cfg events en"
proof (induction events arbitrary: en)
  case (Cons event events)
  have s: "stopAfter cfg' en = stopAfter cfg en" for en
    unfolding stopAfter_def blind_run_fields [OF Cons.prems] by (rule refl)
  show ?case
    unfolding eventLoop.simps drain_blind [OF Cons.prems] processEvent_blind [OF Cons.prems] s Cons.IH [OF Cons.prems] by (rule refl)
qed simp

lemma finishRun_blind:
  assumes b: "blind_run cfg cfg'"
  shows "finishRun cfg' t en = finishRun cfg t en"
proof -
  have "eachCounterfactual cfg' (\<lambda>xo ex. ([], snd (finalize xo t ex))) en = eachCounterfactual cfg (\<lambda>xo ex. ([], snd (finalize xo t ex))) en" for t en
    by (rule eachCounterfactual_blind [OF b]) (simp add: other_blind [OF blind_run_options [OF b]])
  then show ?thesis
    unfolding finishRun_def checkpoints_blind [OF b] other_blind [OF blind_run_options [OF b]] blind_run_fields [OF b]
      applyExchange_blind [OF b] mark_blind [OF b] by presburger
qed

section \<open>Properties\<close>

text \<open>The market states carry the same fee treatment; everything else, the determinations above all, may differ.\<close>

definition same_fee_terms :: "(string, market_state) jsmap \<Rightarrow> (string, market_state) jsmap \<Rightarrow> bool" where
  "same_fee_terms m m' \<longleftrightarrow> (\<forall>t. rel_option (\<lambda>s s'. ms_feeType s' = ms_feeType s \<and> ms_feeMultiplier s' = ms_feeMultiplier s \<and>
     ms_feeUpdatedAtMs s' = ms_feeUpdatedAtMs s) (js_get m t) (js_get m' t))"

lemma kalshi_blind:
  assumes "same_fee_terms m m'"
  shows "fee_blind (kalshiHistoricalFeeModel L other file) m m'"
proof -
  have "kalshi_fee L other file \<lparr>fc_marketTicker = t, fc_quantity = q, fc_yesPrice = p, fc_liquidity = l, fc_market = js_get m' t, fc_atMs = a\<rparr> s =
      kalshi_fee L other file \<lparr>fc_marketTicker = t, fc_quantity = q, fc_yesPrice = p, fc_liquidity = l, fc_market = js_get m t, fc_atMs = a\<rparr> s"
    for t q p l a s
  proof (cases "js_get m t")
    case None
    then have "js_get m' t = None" using assms unfolding same_fee_terms_def by (cases "js_get m' t") (auto dest: spec [of _ t])
    then show ?thesis unfolding None by (rule ssubst) (rule refl)
  next
    case (Some st)
    have "rel_option (\<lambda>s s'. ms_feeType s' = ms_feeType s \<and> ms_feeMultiplier s' = ms_feeMultiplier s \<and>
        ms_feeUpdatedAtMs s' = ms_feeUpdatedAtMs s) (Some st) (js_get m' t)"
      using assms unfolding same_fee_terms_def Some [symmetric] by (rule spec)
    then obtain st' where st': "js_get m' t = Some st'" "ms_feeType st' = ms_feeType st" "ms_feeMultiplier st' = ms_feeMultiplier st"
      "ms_feeUpdatedAtMs st' = ms_feeUpdatedAtMs st"
      by (cases "js_get m' t") auto
    show ?thesis unfolding kalshi_fee_def rawFee_def fee_context.simps Some st' option.case by (rule refl)
  qed
  then show ?thesis by (simp add: fee_blind_def kalshiHistoricalFeeModel_def)
qed

lemma runTrading_blind:
  assumes b: "blind_run cfg cfg'"
    and same: "hs_marketTickers (bo_source cfg') = hs_marketTickers (bo_source cfg)" "hs_events (bo_source cfg') = hs_events (bo_source cfg)"
      "hs_checkpoints (bo_source cfg') = hs_checkpoints (bo_source cfg)" "bo_verifyCheckpoints cfg' = bo_verifyCheckpoints cfg"
  shows "runTrading cfg' en = runTrading cfg en"
  unfolding runTrading_def loadRun_def same blind_run_fields(1) [OF b] runCallback_blind [OF b] eventLoop_blind [OF b] drain_blind [OF b]
    finishRun_blind [OF b] by (rule refl)

text \<open>
  C22: Trading does not see how a market came out: with the historical fee model, two runs over the same events and
  options from sources whose market states agree on the fee terms, and may differ in the determination, the settlement value
  and everything else, are the same run up to settlement: the same orders, fills, marks, intervals and failures.
\<close>

theorem trading_sees_no_future:
  assumes "bo_feeModel cfg = kalshiHistoricalFeeModel L other file" "same_fee_terms (hs_marketStates (bo_source cfg)) states"
  shows "runTrading (cfg\<lparr>bo_source := (bo_source cfg)\<lparr>hs_marketStates := states\<rparr>\<rparr>) en = runTrading cfg en"
proof (rule runTrading_blind)
  have "fee_blind (bo_feeModel cfg) (hs_marketStates (bo_source cfg)) states" unfolding assms(1) by (rule kalshi_blind [OF assms(2)])
  then show "blind_run cfg (cfg\<lparr>bo_source := (bo_source cfg)\<lparr>hs_marketStates := states\<rparr>\<rparr>)" by (auto simp: blind_run_def)
qed simp_all

end
