(* ===== verification/Quoting.thy ===== *)
theory Quoting
  imports EngineLive ExchangeProps
begin

text \<open>
  The benchmark strategies: \<open>src/src/research/strategies/quotingStrategy.ts\<close> and its three subclasses
  \<open>joinBbo.ts\<close>, \<open>imbalanceMaker.ts\<close> and \<open>inventorySkewMaker.ts\<close>. The fields of
  \<open>QuotingStrategy\<close> are \<open>quoting_state\<close>; a subclass is its name, its parameters and its
  \<open>desiredQuotes\<close>. The strategy that results is one the engine runs. The parameter dictionaries of the run manifest and the log notes are
  left out.
\<close>

section \<open>The shared quoting machinery\<close>

record quoting_params =
  qp_size :: rat
  qp_maxInventory :: rat
  qp_minSpreadCents :: rat
  qp_repriceThresholdCents :: rat
  qp_marketTickers :: "string list option"

definition QUOTING_DEFAULTS :: quoting_params where
  "QUOTING_DEFAULTS = \<lparr>qp_size = 10, qp_maxInventory = 50, qp_minSpreadCents = 2, qp_repriceThresholdCents = 1,
     qp_marketTickers = None\<rparr>"

record desired_quote =
  dq_bid :: "rat option"
  dq_ask :: "rat option"

record two_sided_bbo =
  tb_bid :: rat
  tb_ask :: rat
  tb_spread :: rat

record working_quote =
  wq_clientOrderId :: string
  wq_yesPrice :: rat

record quoting_state =
  qs_working :: "(string, working_quote) jsmap"
  qs_seq :: nat
  qs_quotable :: "string list option"

definition newQuoting :: quoting_state where
  "newQuoting = \<lparr>qs_working = [], qs_seq = 0, qs_quotable = None\<rparr>"

text \<open>What a subclass adds.\<close>

record quoting =
  qg_name :: string
  qg_dec :: dec_lib
  qg_params :: quoting_params
  qg_desiredQuotes :: "strategy_market \<Rightarrow> two_sided_bbo \<Rightarrow> strategy_view \<Rightarrow> desired_quote"

definition sideName :: "ladder_side \<Rightarrow> string" where
  "sideName side = (if side = Bid then ''bid'' else ''ask'')"

definition quoteKey :: "string \<Rightarrow> ladder_side \<Rightarrow> string" where
  "quoteKey ticker side = ticker @ ''|'' @ sideName side"

definition tickerOfKey :: "string \<Rightarrow> string" where
  \<comment> \<open>\<open>slice(0, lastIndexOf('|'))\<close>, which drops the last character when there is no bar\<close>
  "tickerOfKey key = (if CHR ''|'' \<in> set key then rev (tl (dropWhile (\<lambda>c. c \<noteq> CHR ''|'') (rev key))) else butlast key)"

definition clampPrice :: "rat \<Rightarrow> rat option" where
  "clampPrice price = (if price \<le> 0 \<or> 1 \<le> price then None else Some price)"

datatype round_direction = Down | Up

definition toCentGrid :: "dec_lib \<Rightarrow> rat \<Rightarrow> round_direction \<Rightarrow> rat" where
  "toCentGrid L price direction =
     (let cents = price * 100;
          rounded = (if direction = Down then of_int \<lfloor>cents\<rfloor> else of_int \<lceil>cents\<rceil>)
      in dl_of_string L (canonicalPrice L (ddiv L rounded 100)))"

definition submitPrice :: "ladder_side \<Rightarrow> rat \<Rightarrow> rat" where
  "submitPrice side yesPrice = (if side = Bid then yesPrice else 1 - yesPrice)"

definition nextClientOrderId :: "quoting \<Rightarrow> string \<Rightarrow> string \<Rightarrow> quoting_state \<Rightarrow> string \<times> quoting_state" where
  "nextClientOrderId q ticker side st =
     (let st = st\<lparr>qs_seq := qs_seq st + 1\<rparr>
      in (qg_name q @ '':'' @ ticker @ '':'' @ side @ '':'' @ int_str (int (qs_seq st)), st))"

text \<open>
  A method that may touch orders takes what the caller does next as its last argument.
\<close>

definition reconcile ::
  "quoting \<Rightarrow> string \<Rightarrow> ladder_side \<Rightarrow> rat option \<Rightarrow> quoting_state \<Rightarrow> (quoting_state \<Rightarrow> quoting_state callback) \<Rightarrow> quoting_state callback" where
  "reconcile q ticker side target st k =
     (let key = quoteKey ticker side;
          current = js_get (qs_working st) key
      in case target of
           None \<Rightarrow>
             (case current of
                None \<Rightarrow> k st
              | Some w \<Rightarrow> ctx_cancel (wq_clientOrderId w) (k (st\<lparr>qs_working := js_del key (qs_working st)\<rparr>)))
         | Some t \<Rightarrow>
             (case current of
                Some w \<Rightarrow>
                  (let moved = \<bar>wq_yesPrice w - t\<bar> * 100
                   in if moved < qp_repriceThresholdCents (qg_params q) then k st
                      else
                        (let (next, st) = nextClientOrderId q ticker (sideName side) st
                         in ctx_replace (wq_clientOrderId w) next (Some (submitPrice side t)) None
                              (k (st\<lparr>qs_working := js_set key \<lparr>wq_clientOrderId = next, wq_yesPrice = t\<rparr> (qs_working st)\<rparr>))))
              | None \<Rightarrow>
                  (let (clientOrderId, st) = nextClientOrderId q ticker (sideName side) st
                   in Submit (LimitIntent \<lparr>li_marketTicker = ticker, li_side = (if side = Bid then Yes else No), li_action = Buy,
                          li_price = submitPrice side t, li_quantity = qp_size (qg_params q), li_clientOrderId = clientOrderId,
                          li_timeInForce = None, li_tag = Some (sideName side)\<rparr>)
                        (k (st\<lparr>qs_working := js_set key \<lparr>wq_clientOrderId = clientOrderId, wq_yesPrice = t\<rparr> (qs_working st)\<rparr>)))))"

definition pullSide ::
  "string \<Rightarrow> ladder_side \<Rightarrow> quoting_state \<Rightarrow> (quoting_state \<Rightarrow> quoting_state callback) \<Rightarrow> quoting_state callback" where
  "pullSide ticker side st k =
     (let key = quoteKey ticker side
      in case js_get (qs_working st) key of
           None \<Rightarrow> k st
         | Some w \<Rightarrow> ctx_cancel (wq_clientOrderId w) (k (st\<lparr>qs_working := js_del key (qs_working st)\<rparr>)))"

definition pullAll :: "string \<Rightarrow> quoting_state \<Rightarrow> quoting_state callback" where
  "pullAll ticker st = pullSide ticker Bid st (\<lambda>st. pullSide ticker Ask st Finish)"

text \<open>What to show for a market as the strategy sees it; \<open>None\<close> pulls both quotes.\<close>

definition quoteTargets :: "quoting \<Rightarrow> string \<Rightarrow> strategy_view \<Rightarrow> (rat option \<times> rat option) option" where
  "quoteTargets q ticker v =
     (case sv_state v ticker of
        None \<Rightarrow> None
      | Some state \<Rightarrow>
          if \<not> sm_valid state then None
          else
            let bbo = view_bbo (qg_dec q) (sm_book state)
            in case (bbo_bid bbo, bbo_ask bbo, bbo_spread bbo) of
                 (Some bid, Some ask, Some spread) \<Rightarrow>
                   if spread * 100 < qp_minSpreadCents (qg_params q) then None
                   else
                     let desired = qg_desiredQuotes q state \<lparr>tb_bid = bid, tb_ask = ask, tb_spread = spread\<rparr> v;
                         position = sv_position v ticker;
                         sz = qp_size (qg_params q);
                         maxInventory = qp_maxInventory (qg_params q);
                         bid = (if maxInventory < \<bar>position + sz\<bar> then None else dq_bid desired);
                         ask = (if maxInventory < \<bar>position - sz\<bar> then None else dq_ask desired)
                     in Some (bid, ask)
               | _ \<Rightarrow> None)"

definition requote :: "quoting \<Rightarrow> string \<Rightarrow> quoting_state \<Rightarrow> quoting_state callback" where
  "requote q ticker st = Look (\<lambda>v.
     case quoteTargets q ticker v of
       None \<Rightarrow> pullAll ticker st
     | Some (bid, ask) \<Rightarrow> reconcile q ticker Bid bid st (\<lambda>st. reconcile q ticker Ask ask st Finish))"

definition quoting_onStart :: "quoting \<Rightarrow> quoting_state \<Rightarrow> quoting_state callback" where
  "quoting_onStart q st =
     Finish (st\<lparr>qs_quotable := (case qp_marketTickers (qg_params q) of
        None \<Rightarrow> None
      | Some configured \<Rightarrow> if 0 < length configured then Some (foldl (\<lambda>s t. set_add t s) [] configured) else None)\<rparr>)"

definition quoting_onBookUpdate :: "quoting \<Rightarrow> research_event \<Rightarrow> quoting_state \<Rightarrow> quoting_state callback" where
  "quoting_onBookUpdate q event st =
     (case eventMarket event of
        None \<Rightarrow> Finish st
      | Some ticker \<Rightarrow>
          if ticker = '''' then Finish st
          else if (case qs_quotable st of None \<Rightarrow> False | Some s \<Rightarrow> ticker \<notin> set s) then Finish st
          else requote q ticker st)"

definition quoting_onOrderUpdate :: "order_update \<Rightarrow> quoting_state \<Rightarrow> quoting_state callback" where
  "quoting_onOrderUpdate update st =
     Finish (if ou_status update \<in> {StFilled, StCancelled, StRejected}
       then st\<lparr>qs_working := filter (\<lambda>e. wq_clientOrderId (snd e) \<noteq> ou_clientOrderId update) (qs_working st)\<rparr>
       else st)"

definition quoting_onDataGap :: "research_event \<Rightarrow> quoting_state \<Rightarrow> quoting_state callback" where
  "quoting_onDataGap event st =
     Finish (case event of
        EvGap b e \<Rightarrow> st\<lparr>qs_working := filter (\<lambda>x. \<not> (eg_affectedMarkets e = [] \<or> tickerOfKey (fst x) \<in> set (eg_affectedMarkets e)))
          (qs_working st)\<rparr>
      | _ \<Rightarrow> st)"

definition QuotingStrategy :: "quoting \<Rightarrow> quoting_state strategy" where
  "QuotingStrategy q = BaseStrategy\<lparr>sg_onStart := quoting_onStart q, sg_onBookUpdate := quoting_onBookUpdate q,
     sg_onOrderUpdate := quoting_onOrderUpdate, sg_onDataGap := quoting_onDataGap\<rparr>"

section \<open>The three strategies\<close>

definition joinBboQuotes :: "strategy_market \<Rightarrow> two_sided_bbo \<Rightarrow> strategy_view \<Rightarrow> desired_quote" where
  "joinBboQuotes state bbo v = \<lparr>dq_bid = clampPrice (tb_bid bbo), dq_ask = clampPrice (tb_ask bbo)\<rparr>"

definition joinBbo :: "dec_lib \<Rightarrow> quoting_params \<Rightarrow> quoting" where
  "joinBbo L p = \<lparr>qg_name = ''join-bbo'', qg_dec = L, qg_params = p, qg_desiredQuotes = joinBboQuotes\<rparr>"

datatype imbalance_policy = QuoteFavoured | QuoteAgainst | Skew

record imbalance_params =
  ip_k :: nat
  ip_threshold :: rat
  ip_policy :: imbalance_policy
  ip_skewCents :: rat

definition IMBALANCE_DEFAULTS :: imbalance_params where
  "IMBALANCE_DEFAULTS = \<lparr>ip_k = 3, ip_threshold = 1 / 5, ip_policy = QuoteFavoured, ip_skewCents = 1\<rparr>"

definition imbalanceQuotes ::
  "dec_lib \<Rightarrow> imbalance_params \<Rightarrow> strategy_market \<Rightarrow> two_sided_bbo \<Rightarrow> strategy_view \<Rightarrow> desired_quote" where
  "imbalanceQuotes L p state bbo v =
     (let bid = clampPrice (tb_bid bbo);
          ask = clampPrice (tb_ask bbo)
      in case view_imbalance L (ip_k p) (sm_book state) of
           None \<Rightarrow> \<lparr>dq_bid = None, dq_ask = None\<rparr>
         | Some imbalance \<Rightarrow>
             if \<bar>imbalance\<bar> < ip_threshold p then \<lparr>dq_bid = bid, dq_ask = ask\<rparr>
             else
               let bidFavoured = 0 \<le> imbalance
               in case ip_policy p of
                    QuoteFavoured \<Rightarrow> if bidFavoured then \<lparr>dq_bid = bid, dq_ask = None\<rparr> else \<lparr>dq_bid = None, dq_ask = ask\<rparr>
                  | QuoteAgainst \<Rightarrow> if bidFavoured then \<lparr>dq_bid = None, dq_ask = ask\<rparr> else \<lparr>dq_bid = bid, dq_ask = None\<rparr>
                  | Skew \<Rightarrow>
                      let step = ddiv L (ip_skewCents p) 100
                      in if bidFavoured then \<lparr>dq_bid = bid, dq_ask = Option.bind ask (\<lambda>a. clampPrice (a + step))\<rparr>
                         else \<lparr>dq_bid = Option.bind bid (\<lambda>b. clampPrice (b - step)), dq_ask = ask\<rparr>)"

definition imbalanceMaker :: "dec_lib \<Rightarrow> quoting_params \<Rightarrow> imbalance_params \<Rightarrow> quoting" where
  "imbalanceMaker L p ip = \<lparr>qg_name = ''imbalance-maker'', qg_dec = L, qg_params = p, qg_desiredQuotes = imbalanceQuotes L ip\<rparr>"

record inventory_skew_params =
  sp_maxSkewCents :: rat
  sp_symmetric :: bool
  sp_reference :: rat

definition INVENTORY_SKEW_DEFAULTS :: "quoting_params \<Rightarrow> inventory_skew_params" where
  "INVENTORY_SKEW_DEFAULTS p = \<lparr>sp_maxSkewCents = 2, sp_symmetric = True, sp_reference = qp_maxInventory p\<rparr>"

definition skewRatio :: "dec_lib \<Rightarrow> rat \<Rightarrow> rat \<Rightarrow> rat" where
  "skewRatio L position reference =
     (if 0 < reference
      then let ratio = ddiv L position reference;
               ratio = (if 1 < ratio then 1 else ratio)
           in if ratio < - 1 then - 1 else ratio
      else 0)"

definition inventorySkewQuotes ::
  "dec_lib \<Rightarrow> inventory_skew_params \<Rightarrow> strategy_market \<Rightarrow> two_sided_bbo \<Rightarrow> strategy_view \<Rightarrow> desired_quote" where
  "inventorySkewQuotes L p state bbo v =
     (let ratio = skewRatio L (sv_position v (sm_ticker state)) (sp_reference p);
          stepCents = dl_of_string L (dl_fixed L 0 (ratio * sp_maxSkewCents p));
          step = ddiv L \<bar>stepCents\<bar> 100;
          (bid, ask) =
            (if 0 \<le> stepCents then (tb_bid bbo - step, if sp_symmetric p then tb_ask bbo - step else tb_ask bbo)
             else (if sp_symmetric p then tb_bid bbo + step else tb_bid bbo, tb_ask bbo + step));
          bid = (if tb_ask bbo \<le> bid then None else Some bid);
          ask = (if ask \<le> tb_bid bbo then None else Some ask)
      in \<lparr>dq_bid = Option.bind bid (\<lambda>b. clampPrice (toCentGrid L b Down)),
          dq_ask = Option.bind ask (\<lambda>a. clampPrice (toCentGrid L a Up))\<rparr>)"

definition inventorySkewMaker :: "dec_lib \<Rightarrow> quoting_params \<Rightarrow> inventory_skew_params \<Rightarrow> quoting" where
  "inventorySkewMaker L p sp =
     \<lparr>qg_name = ''inventory-skew-maker'', qg_dec = L, qg_params = p, qg_desiredQuotes = inventorySkewQuotes L sp\<rparr>"

section \<open>What a callback does\<close>

text \<open>The orders a callback places and the state it ends in, when every read returns the same view.\<close>

primrec intentsOf :: "strategy_view \<Rightarrow> 'st callback \<Rightarrow> order_intent list" where
  "intentsOf v (Finish st) = []"
| "intentsOf v (Raise why) = []"
| "intentsOf v (Look k) = intentsOf v (k v)"
| "intentsOf v (Submit intent k) = intent # intentsOf v k"
| "intentsOf v (ScheduleAfter d l m k) = intentsOf v (k 0)"
| "intentsOf v (CancelTimer i k) = intentsOf v (k False)"

primrec finalOf :: "strategy_view \<Rightarrow> 'st callback \<Rightarrow> 'st option" where
  "finalOf v (Finish st) = Some st"
| "finalOf v (Raise why) = None"
| "finalOf v (Look k) = finalOf v (k v)"
| "finalOf v (Submit intent k) = finalOf v k"
| "finalOf v (ScheduleAfter d l m k) = finalOf v (k 0)"
| "finalOf v (CancelTimer i k) = finalOf v (k False)"

abbreviation submitAll :: "order_intent list \<Rightarrow> 'st callback \<Rightarrow> 'st callback" where
  "submitAll is k \<equiv> foldr Submit is k"

lemma submitAll_effects [simp]:
  "intentsOf v (submitAll is k) = is @ intentsOf v k" "finalOf v (submitAll is k) = finalOf v k"
  "paced (submitAll is k) = paced k"
  by (induction "is") simp_all

text \<open>One side of a market, as the orders it places and the state it leaves.\<close>

definition quoteStep :: "quoting \<Rightarrow> string \<Rightarrow> ladder_side \<Rightarrow> rat option \<Rightarrow> quoting_state \<Rightarrow> order_intent list \<times> quoting_state" where
  "quoteStep q ticker side target st =
     (let key = quoteKey ticker side;
          (next, st') = nextClientOrderId q ticker (sideName side) st;
          put = (\<lambda>t. st'\<lparr>qs_working := js_set key \<lparr>wq_clientOrderId = next, wq_yesPrice = t\<rparr> (qs_working st')\<rparr>)
      in case (target, js_get (qs_working st) key) of
           (None, None) \<Rightarrow> ([], st)
         | (None, Some w) \<Rightarrow> ([CancelIntent (wq_clientOrderId w)], st\<lparr>qs_working := js_del key (qs_working st)\<rparr>)
         | (Some t, Some w) \<Rightarrow>
             if \<bar>wq_yesPrice w - t\<bar> * 100 < qp_repriceThresholdCents (qg_params q) then ([], st)
             else ([ReplaceIntent \<lparr>ri_clientOrderId = wq_clientOrderId w, ri_newPrice = Some (submitPrice side t), ri_newQuantity = None,
                      ri_newClientOrderId = next\<rparr>], put t)
         | (Some t, None) \<Rightarrow>
             ([LimitIntent \<lparr>li_marketTicker = ticker, li_side = (if side = Bid then Yes else No), li_action = Buy,
                 li_price = submitPrice side t, li_quantity = qp_size (qg_params q), li_clientOrderId = next,
                 li_timeInForce = None, li_tag = Some (sideName side)\<rparr>], put t))"

lemma reconcile_step:
  "reconcile q ticker side target st k = submitAll (fst (quoteStep q ticker side target st)) (k (snd (quoteStep q ticker side target st)))"
  by (auto simp: reconcile_def quoteStep_def Let_def ctx_cancel_def ctx_replace_def split: option.split prod.split)

lemma pullSide_step: "pullSide ticker side st k = reconcile q ticker side None st k"
  by (simp add: pullSide_def reconcile_def Let_def)

text \<open>Both sides of a market in turn; pulling is a target of nothing on either side.\<close>

definition quoteBoth :: "quoting \<Rightarrow> string \<Rightarrow> rat option \<times> rat option \<Rightarrow> quoting_state \<Rightarrow> order_intent list \<times> quoting_state" where
  "quoteBoth q ticker targets st =
     (let (bids, st) = quoteStep q ticker Bid (fst targets) st;
          (asks, st) = quoteStep q ticker Ask (snd targets) st
      in (bids @ asks, st))"

definition targetsOf :: "quoting \<Rightarrow> string \<Rightarrow> strategy_view \<Rightarrow> rat option \<times> rat option" where
  "targetsOf q ticker v = (case quoteTargets q ticker v of None \<Rightarrow> (None, None) | Some p \<Rightarrow> p)"

lemma requote_both:
  "requote q ticker st = Look (\<lambda>v. let (orders, st') = quoteBoth q ticker (targetsOf q ticker v) st in submitAll orders (Finish st'))"
proof -
  have "(case quoteTargets q ticker v of None \<Rightarrow> pullAll ticker st
     | Some (bid, ask) \<Rightarrow> reconcile q ticker Bid bid st (\<lambda>st. reconcile q ticker Ask ask st Finish)) =
     (let (orders, st') = quoteBoth q ticker (targetsOf q ticker v) st in submitAll orders (Finish st'))" for v
    by (simp add: pullAll_def pullSide_step [of _ _ _ _ q] reconcile_step quoteBoth_def targetsOf_def case_prod_unfold Let_def split: option.split)
  then show ?thesis by (simp add: requote_def)
qed

lemma quoting_paced: "paced_strategy (QuotingStrategy q)"
  by (auto simp: paced_strategy_def QuotingStrategy_def BaseStrategy_def quoting_onStart_def quoting_onBookUpdate_def
      quoting_onOrderUpdate_def quoting_onDataGap_def requote_both case_prod_unfold Let_def split: option.split)

section \<open>Runs of a strategy\<close>

datatype strategy_call =
  ScStart | ScBook research_event | ScTrade research_event | ScFill fill | ScUpdate order_update | ScTimer research_event
| ScGap research_event | ScResume string | ScStop

fun callbackOf :: "'st strategy \<Rightarrow> strategy_call \<Rightarrow> 'st \<Rightarrow> 'st callback" where
  "callbackOf sg ScStart = sg_onStart sg"
| "callbackOf sg (ScBook e) = sg_onBookUpdate sg e"
| "callbackOf sg (ScTrade e) = sg_onTrade sg e"
| "callbackOf sg (ScFill f) = sg_onFill sg f"
| "callbackOf sg (ScUpdate u) = sg_onOrderUpdate sg u"
| "callbackOf sg (ScTimer e) = sg_onTimer sg e"
| "callbackOf sg (ScGap e) = sg_onDataGap sg e"
| "callbackOf sg (ScResume m) = sg_onDataResume sg m"
| "callbackOf sg ScStop = sg_onStop sg"

text \<open>Calls in any order, each with the view at that moment: all orders placed, and the last state.\<close>

fun strategyStep :: "'st strategy \<Rightarrow> order_intent list \<times> 'st \<Rightarrow> strategy_view \<times> strategy_call \<Rightarrow> order_intent list \<times> 'st" where
  "strategyStep sg (is, st) (v, c) =
     (is @ intentsOf v (callbackOf sg c st), case finalOf v (callbackOf sg c st) of None \<Rightarrow> st | Some st' \<Rightarrow> st')"

definition strategyRun :: "'st strategy \<Rightarrow> 'st \<Rightarrow> (strategy_view \<times> strategy_call) list \<Rightarrow> order_intent list \<times> 'st" where
  "strategyRun sg st calls = foldl (strategyStep sg) ([], st) calls"

fun newIdOf :: "order_intent \<Rightarrow> string list" where
  "newIdOf (LimitIntent i) = [li_clientOrderId i]"
| "newIdOf (MarketIntent i) = [mi_clientOrderId i]"
| "newIdOf (CancelIntent c) = []"
| "newIdOf (ReplaceIntent r) = [ri_newClientOrderId r]"

fun withdrawnOf :: "order_intent \<Rightarrow> string list" where
  "withdrawnOf (CancelIntent c) = [c]"
| "withdrawnOf (ReplaceIntent r) = [ri_clientOrderId r]"
| "withdrawnOf _ = []"

definition placedIds :: "order_intent list \<Rightarrow> string list" where
  "placedIds is = concat (map newIdOf is)"

definition withdrawnIds :: "order_intent list \<Rightarrow> string list" where
  "withdrawnIds is = concat (map withdrawnOf is)"

lemma ids_append [simp]:
  "placedIds (a @ b) = placedIds a @ placedIds b" "withdrawnIds (a @ b) = withdrawnIds a @ withdrawnIds b"
  by (simp_all add: placedIds_def withdrawnIds_def)

lemma ids_simps [simp]: "placedIds [] = []" "withdrawnIds [] = []" "placedIds [i] = newIdOf i" "withdrawnIds [i] = withdrawnOf i"
  by (simp_all add: placedIds_def withdrawnIds_def)

definition workingIds :: "quoting_state \<Rightarrow> string set" where
  "workingIds st = (\<lambda>e. wq_clientOrderId (snd e)) ` set (qs_working st)"

text \<open>The serial number an identifier ends in.\<close>

definition serial :: "nat \<Rightarrow> string \<Rightarrow> bool" where
  "serial n s \<longleftrightarrow> (\<exists>xs. s = xs @ '':'' @ int_str (int n))"

lemma serial_inj: "serial m s \<Longrightarrow> serial n s \<Longrightarrow> m = n"
proof -
  assume "serial m s" "serial n s"
  then obtain xs ys where e: "xs @ '':'' @ int_str (int m) = ys @ '':'' @ int_str (int n)" by (auto simp: serial_def)
  have c: "CHR '':'' \<notin> set (int_str k)" for k using int_str_chars [of k] by auto
  have split: "takeWhile (\<lambda>c. c \<noteq> CHR '':'') (rev (zs @ '':'' @ int_str k)) = rev (int_str k)" for zs k
    using c [of k] by (auto simp: takeWhile_append takeWhile_eq_all_conv)
  have "int_str (int m) = int_str (int n)"
    using split [of xs "int m"] split [of ys "int n"] unfolding e by simp
  then have "orderIdOf m = orderIdOf n" by (simp add: orderIdOf_def)
  then show "m = n" by (simp add: orderIdOf_inj)
qed

definition ids_ok :: "order_intent list \<times> quoting_state \<Rightarrow> bool" where
  "ids_ok s \<longleftrightarrow> (case s of (is, st) \<Rightarrow>
     js_map_ok (qs_working st) \<and> distinct (placedIds is) \<and> (\<forall>s \<in> set (placedIds is). \<exists>n. n \<le> qs_seq st \<and> serial n s) \<and>
     distinct (withdrawnIds is) \<and> set (withdrawnIds is) \<subseteq> set (placedIds is) \<and>
     (\<forall>k w. js_get (qs_working st) k = Some w \<longrightarrow> wq_clientOrderId w \<in> set (placedIds is) - set (withdrawnIds is) \<and>
        (\<forall>k' w'. js_get (qs_working st) k' = Some w' \<longrightarrow> wq_clientOrderId w' = wq_clientOrderId w \<longrightarrow> k' = k)))"

lemma nextId:
  "nextClientOrderId q ticker side st = (i, st') \<Longrightarrow> serial (qs_seq st + 1) i \<and> st' = st\<lparr>qs_seq := qs_seq st + 1\<rparr>"
  by (auto simp: nextClientOrderId_def Let_def serial_def intro: exI [of _ "qg_name q @ '':'' @ ticker @ '':'' @ side"])

lemma fresh_serial: "ids_ok (is, st) \<Longrightarrow> serial (qs_seq st + 1) i \<Longrightarrow> i \<notin> set (placedIds is)"
  by (auto simp: ids_ok_def dest!: bspec dest: serial_inj)

lemma ids_okD:
  assumes "ids_ok (is, st)"
  shows "js_map_ok (qs_working st)" "distinct (placedIds is)" "distinct (withdrawnIds is)"
    "set (withdrawnIds is) \<subseteq> set (placedIds is)" "\<And>s. s \<in> set (placedIds is) \<Longrightarrow> \<exists>n. n \<le> qs_seq st \<and> serial n s"
    "\<And>k w. js_get (qs_working st) k = Some w \<Longrightarrow> wq_clientOrderId w \<in> set (placedIds is) - set (withdrawnIds is)"
    "\<And>k w k' w'. js_get (qs_working st) k = Some w \<Longrightarrow> js_get (qs_working st) k' = Some w' \<Longrightarrow>
       wq_clientOrderId w' = wq_clientOrderId w \<Longrightarrow> k' = k"
  using assms unfolding ids_ok_def prod.case by blast+

lemma ids_okI:
  assumes "js_map_ok (qs_working st)" "distinct (placedIds is)" "distinct (withdrawnIds is)"
    "set (withdrawnIds is) \<subseteq> set (placedIds is)" "\<And>s. s \<in> set (placedIds is) \<Longrightarrow> \<exists>n. n \<le> qs_seq st \<and> serial n s"
    "\<And>k w. js_get (qs_working st) k = Some w \<Longrightarrow> wq_clientOrderId w \<in> set (placedIds is) - set (withdrawnIds is)"
    "\<And>k w k' w'. js_get (qs_working st) k = Some w \<Longrightarrow> js_get (qs_working st) k' = Some w' \<Longrightarrow>
       wq_clientOrderId w' = wq_clientOrderId w \<Longrightarrow> k' = k"
  shows "ids_ok (is, st)"
  using assms unfolding ids_ok_def prod.case by blast

lemma get_del_Some: "js_get (js_del key m) k = Some w \<longleftrightarrow> k \<noteq> key \<and> js_get m k = Some w"
  by (simp del: map_of_eq_Some_iff)

lemma get_set_Some: "js_get (js_set key v m) k = Some w \<longleftrightarrow> (if k = key then w = v else js_get m k = Some w)"
  by (auto simp del: map_of_eq_Some_iff)

lemma ids_withdraw:
  assumes ok: "ids_ok (is, st)" and w: "js_get (qs_working st) key = Some w"
  shows "ids_ok (is @ [CancelIntent (wq_clientOrderId w)], st\<lparr>qs_working := js_del key (qs_working st)\<rparr>)"
proof (rule ids_okI)
  note d = ids_okD [OF ok]
  fix k v
  assume "js_get (qs_working (st\<lparr>qs_working := js_del key (qs_working st)\<rparr>)) k = Some v"
  then have v: "k \<noteq> key" "js_get (qs_working st) k = Some v" by (simp_all add: get_del_Some del: map_of_eq_Some_iff js_get_del)
  then have "wq_clientOrderId v \<noteq> wq_clientOrderId w" using d(7) [OF w v(2)] by blast
  then show "wq_clientOrderId v \<in> set (placedIds (is @ [CancelIntent (wq_clientOrderId w)])) - set (withdrawnIds (is @ [CancelIntent (wq_clientOrderId w)]))"
    using d(6) [OF v(2)] by simp
qed (use ids_okD [OF ok] ids_okD(6) [OF ok w] in \<open>auto simp: get_del_Some simp del: map_of_eq_Some_iff js_get_del\<close>)

lemma ids_place:
  assumes ok: "ids_ok (is, st)" and none: "js_get (qs_working st) key = None" and i: "serial (qs_seq st + 1) i"
    and new: "newIdOf intent = [i]" "withdrawnOf intent = []"
  shows "ids_ok (is @ [intent], st\<lparr>qs_seq := qs_seq st + 1, qs_working := js_set key \<lparr>wq_clientOrderId = i, wq_yesPrice = t\<rparr> (qs_working st)\<rparr>)"
    (is "ids_ok (_, ?st)")
proof -
  note d = ids_okD [OF ok]
  have f: "i \<notin> set (placedIds is)" by (rule fresh_serial [OF ok i])
  then have wd: "i \<notin> set (withdrawnIds is)" using d(4) by blast
  have fields: "placedIds (is @ [intent]) = placedIds is @ [i]" "withdrawnIds (is @ [intent]) = withdrawnIds is"
    "qs_working ?st = js_set key \<lparr>wq_clientOrderId = i, wq_yesPrice = t\<rparr> (qs_working st)" "qs_seq ?st = qs_seq st + 1"
    using new by simp_all
  show ?thesis
  proof (rule ids_okI, unfold fields get_set_Some)
    show "js_map_ok (js_set key \<lparr>wq_clientOrderId = i, wq_yesPrice = t\<rparr> (qs_working st))" using d(1) by (rule js_map_ok_set)
    show "distinct (placedIds is @ [i])" using d(2) f by simp
    show "set (withdrawnIds is) \<subseteq> set (placedIds is @ [i])" using d(4) by auto
    show "\<exists>n. n \<le> qs_seq st + 1 \<and> serial n s" if s: "s \<in> set (placedIds is @ [i])" for s
    proof (cases "s = i")
      case True
      then show ?thesis using i by blast
    next
      case False
      then obtain n where "n \<le> qs_seq st" "serial n s" using d(5) [of s] s by auto
      then show ?thesis by (intro exI [of _ n] conjI) simp_all
    qed
    show "wq_clientOrderId w \<in> set (placedIds is @ [i]) - set (withdrawnIds is)"
      if "if k = key then w = \<lparr>wq_clientOrderId = i, wq_yesPrice = t\<rparr> else js_get (qs_working st) k = Some w" for k w
      using that wd d(6) [of k w] by (cases "k = key") (simp_all del: map_of_eq_Some_iff)
    show "k' = k" if "if k = key then w = \<lparr>wq_clientOrderId = i, wq_yesPrice = t\<rparr> else js_get (qs_working st) k = Some w"
      "if k' = key then w' = \<lparr>wq_clientOrderId = i, wq_yesPrice = t\<rparr> else js_get (qs_working st) k' = Some w'"
      "wq_clientOrderId w' = wq_clientOrderId w" for k w k' w'
    proof (cases "k = key")
      case True
      then have "wq_clientOrderId w' = i" using that(1,3) by simp
      then show ?thesis using True that(2) f d(6) [of k' w'] by (cases "k' = key") (simp_all del: map_of_eq_Some_iff)
    next
      case False
      then have "wq_clientOrderId w \<noteq> i" "js_get (qs_working st) k = Some w" using that(1) f d(6) [of k w] by (auto simp del: map_of_eq_Some_iff)
      then show ?thesis using that(2,3) d(7) [of k w k' w'] by (cases "k' = key") (simp_all del: map_of_eq_Some_iff)
    qed
  qed (rule d(3))
qed

lemma ids_replace:
  assumes ok: "ids_ok (is, st)" and w: "js_get (qs_working st) key = Some w" and i: "serial (qs_seq st + 1) i"
    and new: "newIdOf intent = [i]" "withdrawnOf intent = [wq_clientOrderId w]"
  shows "ids_ok (is @ [intent], st\<lparr>qs_seq := qs_seq st + 1, qs_working := js_set key \<lparr>wq_clientOrderId = i, wq_yesPrice = t\<rparr> (qs_working st)\<rparr>)"
    (is "ids_ok (_, ?st)")
proof -
  let ?cut = "st\<lparr>qs_working := js_del key (qs_working st)\<rparr>"
  let ?put = "?cut\<lparr>qs_seq := qs_seq ?cut + 1, qs_working := js_set key \<lparr>wq_clientOrderId = i, wq_yesPrice = t\<rparr> (qs_working ?cut)\<rparr>"
  let ?new = "LimitIntent (undefined\<lparr>li_clientOrderId := i\<rparr>)"
  have "ids_ok (is @ [CancelIntent (wq_clientOrderId w)], ?cut)" by (rule ids_withdraw [OF ok w])
  then have "ids_ok ((is @ [CancelIntent (wq_clientOrderId w)]) @ [?new], ?put)"
    by (rule ids_place) (use i in simp_all)
  note d = ids_okD [OF this]
  have fields: "placedIds ((is @ [CancelIntent (wq_clientOrderId w)]) @ [?new]) = placedIds (is @ [intent])"
    "withdrawnIds ((is @ [CancelIntent (wq_clientOrderId w)]) @ [?new]) = withdrawnIds (is @ [intent])"
    "qs_seq ?put = qs_seq ?st" "js_get (qs_working ?put) = js_get (qs_working ?st)"
    using new by (simp_all add: fun_eq_iff placedIds_def withdrawnIds_def)
  have m: "js_map_ok (qs_working ?st)" using ids_okD(1) [OF ok] by simp
  show ?thesis by (rule ids_okI [OF m d(2-7) [unfolded fields]])
qed

lemma ids_quoteStep:
  assumes ok: "ids_ok (is, st)"
  shows "ids_ok (is @ fst (quoteStep q ticker side target st), snd (quoteStep q ticker side target st))"
proof -
  obtain i st' where n: "nextClientOrderId q ticker (sideName side) st = (i, st')" by fastforce
  note n' = nextId [OF n]
  show ?thesis
  proof (cases target)
    case None
    then show ?thesis using ok ids_withdraw [OF ok] n by (cases "js_get (qs_working st) (quoteKey ticker side)") (simp_all add: quoteStep_def)
  next
    case (Some t)
    then show ?thesis using ok n n' ids_place [OF ok] ids_replace [OF ok]
      by (cases "js_get (qs_working st) (quoteKey ticker side)") (simp_all add: quoteStep_def)
  qed
qed

lemma ids_quoteBoth: "ids_ok (is, st) \<Longrightarrow> quoteBoth q ticker targets st = (orders, st') \<Longrightarrow> ids_ok (is @ orders, st')"
  using ids_quoteStep [of "is" st q ticker Bid "fst targets"]
  by (auto simp: quoteBoth_def case_prod_unfold Let_def dest: ids_quoteStep [of _ _ q ticker Ask "snd targets"])

lemma ids_filter:
  assumes ok: "ids_ok (is, st)"
  shows "ids_ok (is, st\<lparr>qs_working := filter P (qs_working st)\<rparr>)"
proof (rule ids_okI)
  note d = ids_okD [OF ok]
  show map: "js_map_ok (qs_working (st\<lparr>qs_working := filter P (qs_working st)\<rparr>))" using d(1) by (simp add: distinct_map_filter)
  have sub: "js_get (qs_working st) k = Some w" if "js_get (qs_working (st\<lparr>qs_working := filter P (qs_working st)\<rparr>)) k = Some w" for k w
    using that d(1) map by (auto dest!: map_of_SomeD)
  show "wq_clientOrderId w \<in> set (placedIds is) - set (withdrawnIds is)"
    if "js_get (qs_working (st\<lparr>qs_working := filter P (qs_working st)\<rparr>)) k = Some w" for k w
    by (rule d(6) [OF sub [OF that]])
  show "k' = k" if "js_get (qs_working (st\<lparr>qs_working := filter P (qs_working st)\<rparr>)) k = Some w"
    "js_get (qs_working (st\<lparr>qs_working := filter P (qs_working st)\<rparr>)) k' = Some w'" "wq_clientOrderId w' = wq_clientOrderId w" for k w k' w'
    by (rule d(7) [OF sub [OF that(1)] sub [OF that(2)] that(3)])
qed (use ids_okD [OF ok] in auto)

lemma ids_requote:
  assumes "ids_ok (is, st)"
  shows "ids_ok (is @ intentsOf v (requote q ticker st), case finalOf v (requote q ticker st) of None \<Rightarrow> st | Some st' \<Rightarrow> st')"
proof -
  obtain orders st' where b: "quoteBoth q ticker (targetsOf q ticker v) st = (orders, st')" by fastforce
  show ?thesis using ids_quoteBoth [OF assms b] by (simp add: requote_both b)
qed

lemma ids_quotable: "ids_ok (is, st) \<Longrightarrow> ids_ok (is, st\<lparr>qs_quotable := x\<rparr>)"
  by (simp add: ids_ok_def)

lemma ids_step:
  assumes ok: "ids_ok (is, st)"
  shows "ids_ok (strategyStep (QuotingStrategy q) (is, st) (v, c))"
proof (cases c)
  case (ScBook e)
  have "ids_ok (is @ intentsOf v (quoting_onBookUpdate q e st), case finalOf v (quoting_onBookUpdate q e st) of None \<Rightarrow> st | Some st' \<Rightarrow> st')"
    using ok ids_requote [OF ok, of v q] by (cases "eventMarket e") (simp_all add: quoting_onBookUpdate_def)
  then show ?thesis by (simp add: ScBook QuotingStrategy_def BaseStrategy_def)
qed (use ok in \<open>simp_all add: QuotingStrategy_def BaseStrategy_def quoting_onStart_def quoting_onOrderUpdate_def quoting_onDataGap_def
      ids_quotable ids_filter split: option.split research_event.split\<close>)

lemma ids_run: "ids_ok s \<Longrightarrow> ids_ok (foldl (strategyStep (QuotingStrategy q)) s calls)"
proof (induction calls arbitrary: s)
  case (Cons call calls)
  obtain v c "is" st where "call = (v, c)" "s = (is, st)" by (cases call; cases s) auto
  then show ?case using Cons.IH [OF ids_step [of "is" st q v c]] Cons.prems by simp
qed simp

text \<open>
  C34: A quoting strategy keeps its orders apart, over any sequence of callbacks with any views: every order and replacement goes
  out under an identifier of its own, it only cancels or replaces orders of its own, each at most once, and the
  orders it believes to be working are ones it placed and has not withdrawn.
\<close>

theorem quoting_orders_apart:
  "let (is, st) = strategyRun (QuotingStrategy q) newQuoting calls
   in distinct (placedIds is) \<and> distinct (withdrawnIds is) \<and> set (withdrawnIds is) \<subseteq> set (placedIds is) \<and>
      workingIds st \<subseteq> set (placedIds is) - set (withdrawnIds is)"
proof -
  obtain "is" st where r: "strategyRun (QuotingStrategy q) newQuoting calls = (is, st)" by fastforce
  have "ids_ok ([], newQuoting)" by (simp add: ids_ok_def newQuoting_def)
  then have "ids_ok (is, st)" using ids_run [of "([], newQuoting)" q calls] r by (simp add: strategyRun_def)
  note d = ids_okD [OF this]
  have "workingIds st \<subseteq> set (placedIds is) - set (withdrawnIds is)"
  proof
    fix x assume "x \<in> workingIds st"
    then obtain k w where e: "(k, w) \<in> set (qs_working st)" "x = wq_clientOrderId w" by (auto simp: workingIds_def)
    then show "x \<in> set (placedIds is) - set (withdrawnIds is)" using d(6) [of k w] js_entry_get [OF d(1)] by blast
  qed
  then show ?thesis using d(2-4) unfolding r Let_def prod.case by blast
qed

section \<open>Quotes are safe\<close>

context decimal_lib
begin

lemma toCentGrid_exact: "0 \<le> n \<Longrightarrow> n \<le> 100 \<Longrightarrow> dl_of_string L (canonicalPrice L (ddiv L (of_int n) 100)) = of_int n / 100"
proof -
  assume "0 \<le> n" "n \<le> 100"
  then have "sig34 (of_int n / 100)" using sig34_scaled [of n 2] by simp
  then have d: "ddiv L (of_int n) 100 = of_int n / 100" by (rule ddiv_exact)
  have "on_grid PRICE_DP (of_int n / 100)"
    unfolding on_grid_iff PRICE_DP_def by (rule exI [of _ "10000 * n"]) simp
  then show ?thesis by (simp add: d parse_canonicalPrice)
qed

lemma grid_le_0: "n \<le> 0 \<Longrightarrow> dl_of_string L (canonicalPrice L (ddiv L (of_int n) 100)) \<le> 0"
  using ddiv_mono [of 100 "of_int n" 0] round_dp_mono [of "ddiv L (of_int n) 100" 0 PRICE_DP]
  by (simp add: parse_canonicalPrice ddiv_def round_0)

lemma grid_ge_1: "100 \<le> n \<Longrightarrow> 1 \<le> dl_of_string L (canonicalPrice L (ddiv L (of_int n) 100))"
proof -
  assume "100 \<le> n"
  then have "ddiv L 100 100 \<le> ddiv L (of_int n) 100" by (intro ddiv_mono) simp_all
  moreover have "ddiv L 100 100 = 1" using ddiv_exact [of 100 100] sig34_unit by simp
  ultimately have "1 \<le> ddiv L (of_int n) 100" by simp
  then show ?thesis using round_dp_mono [of 1 "ddiv L (of_int n) 100" PRICE_DP] on_grid_of_int [of PRICE_DP 1]
    by (simp add: parse_canonicalPrice)
qed

lemma toCentGrid_down: "clampPrice (toCentGrid L x Down) = Some r \<Longrightarrow> 0 < r \<and> r < 1 \<and> r \<le> x"
proof -
  assume r: "clampPrice (toCentGrid L x Down) = Some r"
  then have b: "0 < r" "r < 1" "r = dl_of_string L (canonicalPrice L (ddiv L (of_int \<lfloor>x * 100\<rfloor>) 100))"
    by (auto simp: clampPrice_def toCentGrid_def Let_def split: if_splits)
  then have "0 \<le> \<lfloor>x * 100\<rfloor>" "\<lfloor>x * 100\<rfloor> \<le> 100" using grid_le_0 [of "\<lfloor>x * 100\<rfloor>"] grid_ge_1 [of "\<lfloor>x * 100\<rfloor>"] by linarith+
  then have "r = of_int \<lfloor>x * 100\<rfloor> / 100" using b(3) toCentGrid_exact by simp
  then have "r * 100 \<le> x * 100" using of_int_floor_le [of "x * 100"] by (simp del: of_int_floor_le)
  then show ?thesis using b(1,2) by simp
qed

lemma toCentGrid_up: "clampPrice (toCentGrid L x Up) = Some r \<Longrightarrow> 0 < r \<and> r < 1 \<and> x \<le> r"
proof -
  assume r: "clampPrice (toCentGrid L x Up) = Some r"
  then have b: "0 < r" "r < 1" "r = dl_of_string L (canonicalPrice L (ddiv L (of_int \<lceil>x * 100\<rceil>) 100))"
    by (auto simp: clampPrice_def toCentGrid_def Let_def split: if_splits)
  then have "0 \<le> \<lceil>x * 100\<rceil>" "\<lceil>x * 100\<rceil> \<le> 100" using grid_le_0 [of "\<lceil>x * 100\<rceil>"] grid_ge_1 [of "\<lceil>x * 100\<rceil>"] by linarith+
  then have "r = of_int \<lceil>x * 100\<rceil> / 100" using b(3) toCentGrid_exact by simp
  then have "x * 100 \<le> r * 100" using le_of_int_ceiling [of "x * 100"] by (simp del: le_of_int_ceiling)
  then show ?thesis using b(1,2) by simp
qed

end

text \<open>A YES price that may be shown on a side of a market as the strategy sees it.\<close>

definition safe_quote :: "dec_lib \<Rightarrow> quoting_params \<Rightarrow> strategy_view \<Rightarrow> string \<Rightarrow> ladder_side \<Rightarrow> rat \<Rightarrow> bool" where
  "safe_quote L p v ticker side x \<longleftrightarrow> 0 < x \<and> x < 1 \<and>
     (case sv_state v ticker of
        None \<Rightarrow> False
      | Some m \<Rightarrow> sm_valid m \<and>
          (case (bbo_bid (view_bbo L (sm_book m)), bbo_ask (view_bbo L (sm_book m))) of
             (Some b, Some a) \<Rightarrow> qp_minSpreadCents p \<le> (a - b) * 100 \<and>
               (if side = Bid then x < a \<and> \<bar>sv_position v ticker + qp_size p\<bar> \<le> qp_maxInventory p
                else b < x \<and> \<bar>sv_position v ticker - qp_size p\<bar> \<le> qp_maxInventory p)
           | _ \<Rightarrow> False))"

text \<open>A subclass whose wishes stay inside the touch whenever the spread is positive.\<close>

definition stays_passive :: "quoting \<Rightarrow> bool" where
  "stays_passive q \<longleftrightarrow> (\<forall>state bbo v. tb_bid bbo < tb_ask bbo \<longrightarrow>
     (\<forall>x. dq_bid (qg_desiredQuotes q state bbo v) = Some x \<longrightarrow> 0 < x \<and> x < 1 \<and> x < tb_ask bbo) \<and>
     (\<forall>x. dq_ask (qg_desiredQuotes q state bbo v) = Some x \<longrightarrow> 0 < x \<and> x < 1 \<and> tb_bid bbo < x))"

lemma clampPrice_Some: "clampPrice x = Some y \<longleftrightarrow> y = x \<and> 0 < x \<and> x < 1"
  by (auto simp: clampPrice_def)

lemma joinBbo_passive: "stays_passive (joinBbo L p)"
  by (auto simp: stays_passive_def joinBbo_def joinBboQuotes_def clampPrice_Some)

lemma imbalanceMaker_passive:
  assumes "decimal_lib L" "0 \<le> ip_skewCents ip"
  shows "stays_passive (imbalanceMaker L p ip)"
proof -
  have s: "0 \<le> ddiv L (ip_skewCents ip) 100"
    using decimal_lib.round_nonneg [OF assms(1), of "ip_skewCents ip / 100"] assms(2) by (simp add: ddiv_def)
  show ?thesis
    unfolding stays_passive_def
  proof (intro allI impI)
    fix state v and bbo :: two_sided_bbo
    assume c: "tb_bid bbo < tb_ask bbo"
    let ?q = "imbalanceQuotes L ip state bbo v"
    have "0 < x \<and> x < 1 \<and> x < tb_ask bbo" if "dq_bid ?q = Some x" for x
      using that c s by (auto simp: imbalanceQuotes_def Let_def clampPrice_Some bind_eq_Some_conv split: option.splits if_splits imbalance_policy.splits)
    moreover have "0 < x \<and> x < 1 \<and> tb_bid bbo < x" if "dq_ask ?q = Some x" for x
      using that c s by (auto simp: imbalanceQuotes_def Let_def clampPrice_Some bind_eq_Some_conv split: option.splits if_splits imbalance_policy.splits)
    ultimately show "(\<forall>x. dq_bid (qg_desiredQuotes (imbalanceMaker L p ip) state bbo v) = Some x \<longrightarrow> 0 < x \<and> x < 1 \<and> x < tb_ask bbo) \<and>
      (\<forall>x. dq_ask (qg_desiredQuotes (imbalanceMaker L p ip) state bbo v) = Some x \<longrightarrow> 0 < x \<and> x < 1 \<and> tb_bid bbo < x)"
      by (simp add: imbalanceMaker_def)
  qed
qed

lemma inventorySkewMaker_passive:
  assumes "decimal_lib L"
  shows "stays_passive (inventorySkewMaker L p sp)"
  unfolding stays_passive_def
proof (intro allI impI)
  fix state v and bbo :: two_sided_bbo
  let ?q = "inventorySkewQuotes L sp state bbo v"
  have "0 < x \<and> x < 1 \<and> x < tb_ask bbo" if b: "dq_bid ?q = Some x" for x
  proof -
    obtain y where "y < tb_ask bbo" "clampPrice (toCentGrid L y Down) = Some x"
      using b that unfolding inventorySkewQuotes_def Let_def case_prod_unfold by (auto simp: bind_eq_Some_conv not_le split: if_splits)
    then show ?thesis using decimal_lib.toCentGrid_down [OF assms] by fastforce
  qed
  moreover have "0 < x \<and> x < 1 \<and> tb_bid bbo < x" if b: "dq_ask ?q = Some x" for x
  proof -
    obtain y where "tb_bid bbo < y" "clampPrice (toCentGrid L y Up) = Some x"
      using b that unfolding inventorySkewQuotes_def Let_def case_prod_unfold by (auto simp: bind_eq_Some_conv not_le split: if_splits)
    then show ?thesis using decimal_lib.toCentGrid_up [OF assms] by fastforce
  qed
  ultimately show "(\<forall>x. dq_bid (qg_desiredQuotes (inventorySkewMaker L p sp) state bbo v) = Some x \<longrightarrow> 0 < x \<and> x < 1 \<and> x < tb_ask bbo) \<and>
      (\<forall>x. dq_ask (qg_desiredQuotes (inventorySkewMaker L p sp) state bbo v) = Some x \<longrightarrow> 0 < x \<and> x < 1 \<and> tb_bid bbo < x)"
      by (simp add: inventorySkewMaker_def)
qed

lemma bbo_spread_of: "bbo_spread (view_bbo L b) =
    (case (bbo_bid (view_bbo L b), bbo_ask (view_bbo L b)) of (Some x, Some y) \<Rightarrow> Some (y - x) | _ \<Rightarrow> None)"
  unfolding view_bbo_def Let_def yes_bbo.simps by (rule refl)

text \<open>The targets of a passive subclass are safe, whatever the limits leave of them.\<close>

lemma targets_safe:
  assumes q: "stays_passive q" and s: "0 < qp_minSpreadCents (qg_params q)"
  shows "fst (targetsOf q ticker v) = Some x \<Longrightarrow> safe_quote (qg_dec q) (qg_params q) v ticker Bid x"
    "snd (targetsOf q ticker v) = Some x \<Longrightarrow> safe_quote (qg_dec q) (qg_params q) v ticker Ask x"
proof -
  let ?goal = "(fst (targetsOf q ticker v) = Some x \<longrightarrow> safe_quote (qg_dec q) (qg_params q) v ticker Bid x) \<and>
    (snd (targetsOf q ticker v) = Some x \<longrightarrow> safe_quote (qg_dec q) (qg_params q) v ticker Ask x)"
  have ?goal
  proof (cases "quoteTargets q ticker v")
    case None
    then show ?thesis by (simp add: targetsOf_def)
  next
    case (Some p)
    obtain m where m1: "sv_state v ticker = Some m"
      using Some by (cases "sv_state v ticker") (simp_all add: quoteTargets_def)
    have m2: "sm_valid m" using Some unfolding quoteTargets_def m1 option.case by (metis option.distinct(1))
    note m = m1 m2
    define bbo where "bbo = view_bbo (qg_dec q) (sm_book m)"
    have sp: "bbo_spread bbo = (case (bbo_bid bbo, bbo_ask bbo) of (Some x, Some y) \<Rightarrow> Some (y - x) | _ \<Rightarrow> None)"
      unfolding bbo_def by (rule bbo_spread_of)
    have "bbo_bid bbo \<noteq> None \<and> bbo_ask bbo \<noteq> None"
      using Some m(2) unfolding quoteTargets_def Let_def m(1) option.case bbo_def [symmetric]
      by (cases "bbo_bid bbo"; cases "bbo_ask bbo"; cases "bbo_spread bbo") simp_all
    then obtain b a where ba: "bbo_bid bbo = Some b" "bbo_ask bbo = Some a" by auto
    have spr: "bbo_spread bbo = Some (a - b)" using sp ba by simp
    let ?d = "qg_desiredQuotes q m \<lparr>tb_bid = b, tb_ask = a, tb_spread = a - b\<rparr> v"
    have e: "quoteTargets q ticker v = (if (a - b) * 100 < qp_minSpreadCents (qg_params q) then None else Some
        (if qp_maxInventory (qg_params q) < \<bar>sv_position v ticker + qp_size (qg_params q)\<bar> then None else dq_bid ?d,
         if qp_maxInventory (qg_params q) < \<bar>sv_position v ticker - qp_size (qg_params q)\<bar> then None else dq_ask ?d))"
      unfolding quoteTargets_def Let_def m(1) option.case bbo_def [symmetric] ba spr prod.case using m(2) by simp
    then have wide: "qp_minSpreadCents (qg_params q) \<le> (a - b) * 100" using Some by (simp split: if_splits)
    have p: "p = (if qp_maxInventory (qg_params q) < \<bar>sv_position v ticker + qp_size (qg_params q)\<bar> then None else dq_bid ?d,
        if qp_maxInventory (qg_params q) < \<bar>sv_position v ticker - qp_size (qg_params q)\<bar> then None else dq_ask ?d)"
      using e Some wide by simp
    have "b < a" using wide s by simp
    then have d: "(\<forall>x. dq_bid ?d = Some x \<longrightarrow> 0 < x \<and> x < 1 \<and> x < a) \<and> (\<forall>x. dq_ask ?d = Some x \<longrightarrow> 0 < x \<and> x < 1 \<and> b < x)"
      using q [unfolded stays_passive_def, THEN spec [of _ m], THEN spec [of _ "\<lparr>tb_bid = b, tb_ask = a, tb_spread = a - b\<rparr>"], THEN spec [of _ v]]
      unfolding two_sided_bbo.simps by blast
    show ?thesis using d unfolding targetsOf_def Some option.case p safe_quote_def m(1) bbo_def [symmetric] ba prod.case
      using m(2) wide by (auto simp: not_less)
  qed
  note goal = this
  show "fst (targetsOf q ticker v) = Some x \<Longrightarrow> safe_quote (qg_dec q) (qg_params q) v ticker Bid x"
    "snd (targetsOf q ticker v) = Some x \<Longrightarrow> safe_quote (qg_dec q) (qg_params q) v ticker Ask x" using goal by blast+
qed

text \<open>What an order of a quoting strategy may be, given what it believed to be working.\<close>

fun safe_order :: "quoting \<Rightarrow> strategy_view \<Rightarrow> quoting_state \<Rightarrow> string \<Rightarrow> order_intent \<Rightarrow> bool" where
  "safe_order q v st ticker (LimitIntent i) \<longleftrightarrow> li_marketTicker i = ticker \<and> li_action i = Buy \<and> li_quantity i = qp_size (qg_params q) \<and>
     safe_quote (qg_dec q) (qg_params q) v ticker (if li_side i = Yes then Bid else Ask) (yesEquivalentPrice (li_side i) Buy (li_price i))"
| "safe_order q v st ticker (ReplaceIntent r) \<longleftrightarrow> ri_newQuantity r = None \<and>
     (\<exists>side w x. js_get (qs_working st) (quoteKey ticker side) = Some w \<and> ri_clientOrderId r = wq_clientOrderId w \<and>
        ri_newPrice r = Some (submitPrice side x) \<and> safe_quote (qg_dec q) (qg_params q) v ticker side x)"
| "safe_order q v st ticker (CancelIntent c) \<longleftrightarrow>
     (\<exists>side w. js_get (qs_working st) (quoteKey ticker side) = Some w \<and> c = wq_clientOrderId w)"
| "safe_order q v st ticker (MarketIntent i) \<longleftrightarrow> False"

lemma quoteKey_sides: "quoteKey ticker Bid \<noteq> quoteKey ticker Ask"
  by (simp add: quoteKey_def sideName_def)

lemma quoteStep_other:
  "k \<noteq> quoteKey ticker side \<Longrightarrow> js_get (qs_working (snd (quoteStep q ticker side target st))) k = js_get (qs_working st) k"
  by (auto simp: quoteStep_def nextClientOrderId_def Let_def split: option.split)

lemma quoteStep_safe:
  assumes t: "\<And>x. target = Some x \<Longrightarrow> safe_quote (qg_dec q) (qg_params q) v ticker side x"
    and same: "js_get (qs_working st) (quoteKey ticker side) = js_get (qs_working st0) (quoteKey ticker side)"
    and i: "intent \<in> set (fst (quoteStep q ticker side target st))"
  shows "safe_order q v st0 ticker intent"
proof -
  have side: "(if (if side = Bid then Yes else No) = Yes then Bid else Ask) = side"
    "yesEquivalentPrice (if side = Bid then Yes else No) Buy (submitPrice side x) = x" for x
    by (cases side; simp add: submitPrice_def)+
  show ?thesis
  proof (cases target)
    case None
    then show ?thesis using i same
      by (auto simp: quoteStep_def case_prod_unfold Let_def simp del: map_of_eq_Some_iff split: option.splits)
  next
    case (Some x)
    note safe = t [OF Some]
    show ?thesis
    proof (cases "js_get (qs_working st) (quoteKey ticker side)")
      case None
      then show ?thesis using i safe side unfolding Some quoteStep_def case_prod_unfold Let_def by simp
    next
      case w: (Some w)
      then obtain n where "intent = ReplaceIntent \<lparr>ri_clientOrderId = wq_clientOrderId w, ri_newPrice = Some (submitPrice side x),
          ri_newQuantity = None, ri_newClientOrderId = n\<rparr>"
        using i unfolding Some quoteStep_def case_prod_unfold Let_def by (auto split: if_splits simp del: map_of_eq_Some_iff)
      then show ?thesis using safe w same by (auto simp del: map_of_eq_Some_iff)
    qed
  qed
qed

lemma quoteBoth_safe:
  assumes "stays_passive q" "0 < qp_minSpreadCents (qg_params q)"
    and i: "intent \<in> set (fst (quoteBoth q ticker (targetsOf q ticker v) st))"
  shows "safe_order q v st ticker intent"
proof -
  let ?t = "targetsOf q ticker v"
  have "intent \<in> set (fst (quoteStep q ticker Bid (fst ?t) st)) \<or>
      intent \<in> set (fst (quoteStep q ticker Ask (snd ?t) (snd (quoteStep q ticker Bid (fst ?t) st))))"
    using i by (simp add: quoteBoth_def case_prod_unfold Let_def)
  then show ?thesis
  proof
    assume a: "intent \<in> set (fst (quoteStep q ticker Bid (fst ?t) st))"
    show ?thesis by (rule quoteStep_safe [OF targets_safe(1) [OF assms(1,2)] refl a])
  next
    assume a: "intent \<in> set (fst (quoteStep q ticker Ask (snd ?t) (snd (quoteStep q ticker Bid (fst ?t) st))))"
    show ?thesis
      by (rule quoteStep_safe [OF targets_safe(2) [OF assms(1,2)] quoteStep_other [OF quoteKey_sides [symmetric]] a])
  qed
qed

text \<open>
  C35: The three benchmark strategies only place safe orders. Whatever a strategy does on a book update concerns
  that market and orders it believes to be working there. Every price it shows lies strictly between nothing and a
  dollar, does not cross the opposite touch of a valid book whose spread is wide enough, and would keep the position
  within the inventory limit if it filled; it never sends a market order and never sells.
\<close>

theorem strategies_quote_safely:
  assumes "decimal_lib L" "0 < qp_minSpreadCents p" "0 \<le> ip_skewCents ip"
    and "q = joinBbo L p \<or> q = imbalanceMaker L p ip \<or> q = inventorySkewMaker L p sp"
    and "intent \<in> set (intentsOf v (sg_onBookUpdate (QuotingStrategy q) event st))"
  shows "\<exists>ticker. eventMarket event = Some ticker \<and> safe_order q v st ticker intent"
proof -
  have q: "stays_passive q" "0 < qp_minSpreadCents (qg_params q)"
    using assms(2,4) joinBbo_passive imbalanceMaker_passive [OF assms(1,3)] inventorySkewMaker_passive [OF assms(1)]
    by (auto simp: joinBbo_def imbalanceMaker_def inventorySkewMaker_def)
  obtain ticker where t: "eventMarket event = Some ticker" "intent \<in> set (intentsOf v (requote q ticker st))"
    using assms(5) by (auto simp: QuotingStrategy_def quoting_onBookUpdate_def split: option.splits if_splits)
  then show ?thesis using quoteBoth_safe [OF q, of intent ticker v st]
    by (auto simp: requote_both case_prod_unfold Let_def)
qed

section \<open>Quotes follow their targets\<close>

text \<open>A working quote is close enough to a target: it moved less than the threshold, or was placed for it.\<close>

definition near :: "quoting \<Rightarrow> working_quote option \<Rightarrow> rat option \<Rightarrow> bool" where
  "near q w target \<longleftrightarrow>
     (case (w, target) of
        (None, None) \<Rightarrow> True
      | (Some w, Some t) \<Rightarrow> wq_yesPrice w = t \<or> \<bar>wq_yesPrice w - t\<bar> * 100 < qp_repriceThresholdCents (qg_params q)
      | _ \<Rightarrow> False)"

lemma quoteStep_near: "near q (js_get (qs_working (snd (quoteStep q ticker side target st))) (quoteKey ticker side)) target"
proof (cases target)
  case None
  then show ?thesis by (cases "js_get (qs_working st) (quoteKey ticker side)")
      (simp_all add: quoteStep_def near_def case_prod_unfold Let_def del: map_of_eq_Some_iff)
next
  case (Some t)
  then show ?thesis by (cases "js_get (qs_working st) (quoteKey ticker side)")
      (simp_all add: quoteStep_def near_def nextClientOrderId_def case_prod_unfold Let_def del: map_of_eq_Some_iff)
qed

text \<open>
  C36: After a book update the strategy works exactly the quotes it wants in that market: on each side one within the
  reprice threshold of its target, or none where it wants none, which is both sides when the book is not valid, one sided or too
  tight; the quotes of other markets are as they were.
\<close>

theorem requote_follows_targets:
  "let (bid, ask) = (case quoteTargets q ticker v of None \<Rightarrow> (None, None) | Some p \<Rightarrow> p);
       st' = the (finalOf v (requote q ticker st))
   in near q (js_get (qs_working st') (quoteKey ticker Bid)) bid \<and> near q (js_get (qs_working st') (quoteKey ticker Ask)) ask \<and>
      (\<forall>k. k = quoteKey ticker Bid \<or> k = quoteKey ticker Ask \<or> js_get (qs_working st') k = js_get (qs_working st) k)"
proof -
  let ?t = "targetsOf q ticker v"
  let ?s1 = "snd (quoteStep q ticker Bid (fst ?t) st)"
  let ?s2 = "snd (quoteStep q ticker Ask (snd ?t) ?s1)"
  have f: "the (finalOf v (requote q ticker st)) = ?s2" by (simp add: requote_both quoteBoth_def case_prod_unfold Let_def)
  have "near q (js_get (qs_working ?s2) (quoteKey ticker Bid)) (fst ?t)"
    using quoteStep_near [of q ticker Bid "fst ?t" st] by (simp only: quoteStep_other [OF quoteKey_sides])
  moreover have "near q (js_get (qs_working ?s2) (quoteKey ticker Ask)) (snd ?t)" by (rule quoteStep_near)
  moreover have "k = quoteKey ticker Bid \<or> k = quoteKey ticker Ask \<or> js_get (qs_working ?s2) k = js_get (qs_working st) k" for k
    using quoteStep_other by metis
  ultimately show ?thesis unfolding f Let_def targetsOf_def [symmetric] by (simp add: case_prod_unfold)
qed

section \<open>A concrete market\<close>

definition wit_sview :: strategy_view where
  "wit_sview = \<lparr>sv_nowMs = 1, sv_startMs = Some 0, sv_mode = ModeBacktest, sv_markets = [''M''],
     sv_state = (\<lambda>t. if t = ''M'' then Some \<lparr>sm_ticker = ''M'', sm_book = wit_view, sm_valid = True, sm_seriesTicker = None, sm_eventTicker = None\<rparr>
       else None),
     sv_position = (\<lambda>t. 45), sv_open = (\<lambda>m. []), sv_find = (\<lambda>c. None)\<rparr>"

definition wit_quoting :: quoting where
  "wit_quoting = joinBbo std_dlib QUOTING_DEFAULTS"

lemma wit_bbo: "bbo_bid (view_bbo std_dlib wit_view) = Some (2 / 5)" "bbo_ask (view_bbo std_dlib wit_view) = Some (1 / 2)"
  by (simp_all add: view_bbo_def bestLevel_def bestStep_def wit_view_facts canonicalPrice_def PRICE_DP_def std_strings std_numbers Let_def)

lemma wit_spread: "bbo_spread (view_bbo std_dlib wit_view) = Some (1 / 10)"
  unfolding bbo_spread_of wit_bbo by simp

text \<open>Long 45 of at most 50: only the offer is shown, as a NO bid.\<close>

lemma wit_targets: "quoteTargets wit_quoting ''M'' wit_sview = Some (None, Some (1 / 2))"
  by (simp add: quoteTargets_def wit_sview_def wit_quoting_def joinBbo_def QUOTING_DEFAULTS_def wit_bbo wit_spread joinBboQuotes_def
      clampPrice_def Let_def)

lemma wit_targetsOf: "targetsOf wit_quoting ''M'' wit_sview = (None, Some (1 / 2))"
  by (simp add: targetsOf_def wit_targets)

lemma wit_size: "qp_size (qg_params wit_quoting) = 10"
  by (simp add: wit_quoting_def joinBbo_def QUOTING_DEFAULTS_def)

definition wit_offer :: order_intent where
  "wit_offer = LimitIntent \<lparr>li_marketTicker = ''M'', li_side = No, li_action = Buy, li_price = 1 / 2, li_quantity = 10,
     li_clientOrderId = fst (nextClientOrderId wit_quoting ''M'' ''ask'' newQuoting), li_timeInForce = None, li_tag = Some ''ask''\<rparr>"

lemma wit_orders: "intentsOf wit_sview (sg_onBookUpdate (QuotingStrategy wit_quoting) (wit_snap_event 1 ''A'') newQuoting) = [wit_offer]"
proof -
  have "intentsOf wit_sview (requote wit_quoting ''M'' newQuoting) = [wit_offer]"
    by (simp add: requote_both wit_targetsOf quoteBoth_def quoteStep_def newQuoting_def wit_offer_def nextClientOrderId_def
        sideName_def submitPrice_def Let_def wit_size)
  then show ?thesis by (simp add: QuotingStrategy_def quoting_onBookUpdate_def wit_snap_event_def newQuoting_def)
qed

theorem strategies_quote_safely_witness: "safe_order wit_quoting wit_sview newQuoting ''M'' wit_offer"
proof -
  have "wit_offer \<in> set (intentsOf wit_sview (sg_onBookUpdate (QuotingStrategy wit_quoting) (wit_snap_event 1 ''A'') newQuoting))"
    by (simp add: wit_orders)
  then have "\<exists>ticker. eventMarket (wit_snap_event 1 ''A'') = Some ticker \<and> safe_order wit_quoting wit_sview newQuoting ticker wit_offer"
    using strategies_quote_safely [OF std.decimal_lib_axioms, of QUOTING_DEFAULTS IMBALANCE_DEFAULTS wit_quoting]
    by (simp add: QUOTING_DEFAULTS_def IMBALANCE_DEFAULTS_def wit_quoting_def)
  then show ?thesis by (simp add: wit_snap_event_def)
qed

end
