(* ===== verification/EngineWitness.thy ===== *)
theory EngineWitness
  imports Lookahead Quoting
begin

text \<open>
  The engine's properties on a concrete run: the join-the-touch strategy, conservative and touch
  fills side by side, a latency of fifty milliseconds, two snapshots with a capture gap between them.
\<close>

definition wit_source :: historical_source where
  "wit_source = \<lparr>hs_marketTickers = [''M''],
     hs_events = [wit_snap_event 1 ''A'', EvGap (wit_base 3 ''A'') wit_gap, wit_snap_event 90 ''A''],
     hs_checkpoints = [], hs_marketStates = [(''M'', wit_market)]\<rparr>"

definition wit_backtest :: "'s fee_model \<Rightarrow> ('s, quoting_state) backtest_options" where
  "wit_backtest fees = \<lparr>bo_source = wit_source, bo_strategy = QuotingStrategy wit_quoting, bo_fillModel = conservativeQueueModel,
     bo_feeModel = fees, bo_latency = uniform 50, bo_gapPolicy = Some CgSkipUntilFreshSnapshot, bo_gapOrderPolicy = None,
     bo_markIntervalMs = None, bo_maxEvents = None, bo_counterfactualFillModels = [touchFillModel], bo_verifyCheckpoints = None,
     bo_dec = std_dlib, bo_sha256 = (\<lambda>s. s), bo_decString = (\<lambda>p. '''')\<rparr>"

lemma wit_paced: "paced_strategy (bo_strategy (wit_backtest fees))"
  by (simp add: wit_backtest_def quoting_paced)

lemma wit_times: "eventTimes (hs_events (bo_source (wit_backtest fees))) = [1, 3, 90]"
  by (simp add: wit_backtest_def wit_source_def wit_snap_event_def wit_base_def)

lemma wit_policy: "bo_gapPolicy (wit_backtest fees) \<noteq> Some CgAbort" "bo_markIntervalMs (wit_backtest fees) \<noteq> Some 0"
  by (simp_all add: wit_backtest_def)

lemma wit_laws: "decimal_lib (bo_dec (wit_backtest fees))" "latency_model (bo_latency (wit_backtest fees))"
  "list_all fill_model (bo_fillModel (wit_backtest fees) # bo_counterfactualFillModels (wit_backtest fees))"
  "list_all event_ok (hs_events (bo_source (wit_backtest fees)))"
  by (simp_all add: wit_backtest_def wit_source_def std.decimal_lib_axioms uniform_laws conservative.fill_model_axioms
    touch.fill_model_axioms wit_snap_ok)

lemma wit_trades: "\<exists>en. runTrading (wit_backtest fees) (newEngine (wit_backtest fees) fs st) = Some (Inr en)"
proof (rule runTrading_returns)
  show "run_returns (wit_backtest fees)" using wit_paced [of fees] by (simp add: run_returns_def wit_backtest_def gapPolicy_def markIntervalMs_def)
qed (simp_all only: wit_times, simp_all)

theorem backtest_returns_witness:
  "\<exists>report en. runBacktest (wit_backtest zeroFeeModel) () newQuoting = Some (Inr (report, en))"
  by (rule backtest_returns [OF wit_paced wit_policy]) (simp_all add: wit_times)

theorem backtest_fills_causal_witness:
  "\<exists>report en. runBacktest (wit_backtest zeroFeeModel) () newQuoting = Some (Inr (report, en)) \<and>
     list_all (\<lambda>ex. list_all (\<lambda>f. fl_submittedAtMs f \<le> fl_arrivedAtMs f \<and> fl_arrivedAtMs f \<le> fl_filledAtMs f) (ex_fills ex))
       (en_exchange en # map cf_exchange (en_counterfactuals en))"
proof -
  let ?cfg = "wit_backtest zeroFeeModel"
  obtain en0 where "runTrading ?cfg (newEngine ?cfg () newQuoting) = Some (Inr en0)" using wit_trades [of zeroFeeModel "()" newQuoting] by blast
  then obtain report en where r: "runBacktest ?cfg () newQuoting = Some (Inr (report, en))"
    by (cases "applySettlement ?cfg (en_lastEventMs en0) en0") (auto simp: runBacktest_def bindR_def)
  have "list_all (\<lambda>f. fl_submittedAtMs f \<le> fl_arrivedAtMs f \<and> fl_arrivedAtMs f \<le> fl_filledAtMs f) (ex_fills ex)"
    if "ex = en_exchange en \<or> ex \<in> cf_exchange ` set (en_counterfactuals en)" for ex
    by (rule list.pred_mono_strong [OF backtest_fills_causal [OF wit_laws r that]]) blast
  then show ?thesis using r by (auto simp: list_all_iff)
qed

theorem portfolio_is_its_fills_witness:
  "\<exists>en. runTrading (wit_backtest zeroFeeModel) (newEngine (wit_backtest zeroFeeModel) () newQuoting) = Some (Inr en) \<and>
     holds_fills (ex_fills (en_exchange en)) (en_portfolio en)"
proof -
  obtain en where r: "runTrading (wit_backtest zeroFeeModel) (newEngine (wit_backtest zeroFeeModel) () newQuoting) = Some (Inr en)"
    using wit_trades [of zeroFeeModel "()" newQuoting] by blast
  then show ?thesis using portfolio_is_its_fills [OF wit_laws r] by blast
qed

theorem gap_intervals_close_witness:
  "\<exists>en. runTrading (wit_backtest zeroFeeModel) (newEngine (wit_backtest zeroFeeModel) () newQuoting) = Some (Inr en) \<and>
     en_gapOpen en = [] \<and> list_all (\<lambda>iv. iv_toMs iv \<noteq> None) (en_invalidIntervals en)"
proof -
  obtain en where r: "runTrading (wit_backtest zeroFeeModel) (newEngine (wit_backtest zeroFeeModel) () newQuoting) = Some (Inr en)"
    using wit_trades [of zeroFeeModel "()" newQuoting] by blast
  then show ?thesis using gap_intervals_close [OF wit_laws r] by blast
qed

text \<open>A run that has seen one snapshot, and then the gap.\<close>

abbreviation wit_fresh :: "(unit, quoting_state) engine" where
  "wit_fresh \<equiv> loadRun (wit_backtest zeroFeeModel) (newEngine (wit_backtest zeroFeeModel) () newQuoting)"

definition wit_seen :: "(unit, quoting_state) engine" where
  "wit_seen = (case wit_snap_event 1 ''A'' of EvSnapshot b e \<Rightarrow> takeSnapshot (wit_backtest zeroFeeModel) b e wit_fresh | _ \<Rightarrow> wit_fresh)"

lemma wit_seen_steps: "engine_steps (wit_backtest zeroFeeModel) ([], wit_fresh) ([], takeGap wit_gap wit_seen)"
proof -
  have "engine_step (wit_backtest zeroFeeModel) ([], wit_fresh) ([], wit_seen)"
    using SnapshotStep [OF wit_snap_ok [unfolded wit_snap_event_def, of 1 "''A''"], of "wit_backtest zeroFeeModel" "[]" wit_fresh]
    by (simp add: wit_seen_def wit_snap_event_def)
  then show ?thesis using GapStep by (rule converse_rtranclp_into_rtranclp [OF _ r_into_rtranclp])
qed

lemma wit_seen_store: "\<exists>b. mk_books (en_store wit_seen) = [(''M'', b)] \<and> mb_valid b" "en_gapOpen wit_seen = []" "en_invalidIntervals wit_seen = []"
  by (simp_all add: wit_seen_def wit_snap_event_def takeSnapshot_def Let_def loadRun_def newEngine_def wit_backtest_def
      newMarketStore_def ms_applySnapshot_def putStoreBook_def setOwner_def wit_base_def replaceWithSnapshot_def newMarketBook_def
      setLevel_def canonicalPrice_def PRICE_DP_def std_strings)

lemma wit_gap_opens: "js_get (en_gapOpen (takeGap wit_gap wit_seen)) ''M'' = Some 0"
  using wit_seen_store
  by (auto simp: takeGap_def applyCaptureGap_def gapStep_def wit_gap_def openInterval_def)

theorem open_gap_is_not_valid_witness:
  "map_option sm_valid (sv_state (contextView (takeGap wit_gap wit_seen)) ''M'') = Some False"
  using open_gap_is_not_valid [OF wit_laws wit_seen_steps wit_gap_opens] by blast

text \<open>Another outcome for the same market: determined, at a settlement value.\<close>

definition wit_determined :: market_state where
  "wit_determined = wit_market\<lparr>ms_state := LcDeterminedYes, ms_rawResult := Some ''yes'', ms_yesSettlementValue := Some 1,
     ms_settlementBasis := SbResult, ms_settlementTimeMs := Some 100\<rparr>"

theorem trading_sees_no_future_witness:
  "let cfg = wit_backtest (kalshiHistoricalFeeModel std_dlib (\<lambda>s. None) wit_schedule) :: (fee_state, quoting_state) backtest_options;
       cfg' = cfg\<lparr>bo_source := (bo_source cfg)\<lparr>hs_marketStates := [(''M'', wit_determined)]\<rparr>\<rparr>
   in runTrading cfg' (newEngine cfg newFeeState newQuoting) = runTrading cfg (newEngine cfg newFeeState newQuoting) \<and>
      hs_marketStates (bo_source cfg') \<noteq> hs_marketStates (bo_source cfg)"
proof -
  let ?cfg = "wit_backtest (kalshiHistoricalFeeModel std_dlib (\<lambda>s. None) wit_schedule) :: (fee_state, quoting_state) backtest_options"
  have m: "hs_marketStates (bo_source ?cfg) = [(''M'', wit_market)]" by (simp add: wit_backtest_def wit_source_def)
  have f: "bo_feeModel ?cfg = kalshiHistoricalFeeModel std_dlib (\<lambda>s. None) wit_schedule" by (simp add: wit_backtest_def)
  have s: "same_fee_terms (hs_marketStates (bo_source ?cfg)) [(''M'', wit_determined)]"
    unfolding m by (simp add: same_fee_terms_def wit_determined_def)
  have "wit_determined \<noteq> wit_market" by (simp add: wit_determined_def wit_market_def)
  then show ?thesis using trading_sees_no_future [OF f s, of "newEngine ?cfg newFeeState newQuoting"] by (simp add: Let_def m)
qed

end
