(* ===== verification/Markouts.thy ===== *)
theory Markouts
  imports Orders MidSeries
begin

text \<open>
  What happened to the market after each fill, and how well the orders were executed:
  \<open>src/src/research/metrics/markouts.ts\<close> and \<open>executionQuality.ts\<close>. A
  \<open>Record\<close> is a map keyed by the string the code uses. Figures are kept as the fixed-point strings the code puts into its
  reports, and are parsed back where the code parses them; parsing a missing one throws, which is the left side of a sum.
\<close>

section \<open>Markouts\<close>

definition MARKOUT_HORIZONS_MS :: "int list" where
  "MARKOUT_HORIZONS_MS = [50, 100, 250, 500, 1000, 5000, 30000]"

datatype markout_reference = RefMid | RefMicroprice

type_synonym figures = "(string, string option) jsmap"

record fill_markout =
  mo_fillId :: string
  mo_orderId :: string
  mo_marketTicker :: string
  mo_filledAtMs :: string
  mo_liquidity :: liquidity
  mo_reason :: fill_reason
  mo_yesAction :: order_action
  mo_yesPrice :: string
  mo_quantity :: string
  mo_referencePrice :: "string option"
  mo_reference :: markout_reference
  mo_spreadCapture :: "string option"
  mo_markouts :: figures
  mo_markoutDollars :: figures
  mo_midDrift :: figures

definition referenceAt :: "dec_lib \<Rightarrow> mid_series \<Rightarrow> int \<Rightarrow> markout_reference \<Rightarrow> rat option" where
  "referenceAt L series atMs reference = (if reference = RefMid then midAt L atMs series else micropriceAt L atMs series)"

definition markoutOf :: "order_action \<Rightarrow> rat \<Rightarrow> rat option \<Rightarrow> rat option" where
  "markoutOf action fillPrice futureReference =
     (case futureReference of
        None \<Rightarrow> None
      | Some m \<Rightarrow> Some (if action = Buy then m - fillPrice else fillPrice - m))"

definition horizonStep ::
  "dec_lib \<Rightarrow> mid_series option \<Rightarrow> markout_reference \<Rightarrow> simulated_fill \<Rightarrow> rat option \<Rightarrow> figures \<times> figures \<times> figures \<Rightarrow> int
    \<Rightarrow> figures \<times> figures \<times> figures" where
  "horizonStep L s reference f ref acc h =
     (let (markouts, markoutDollars, midDrift) = acc;
          future = (case s of None \<Rightarrow> None | Some series \<Rightarrow> referenceAt L series (fl_filledAtMs f + h) reference);
          m = markoutOf (fl_yesAction f) (fl_yesPrice f) future;
          drift = (case ref of None \<Rightarrow> None | Some r \<Rightarrow> markoutOf (fl_yesAction f) r future);
          key = int_str h
      in (js_set key (map_option (dl_fixed L 6) m) markouts,
          js_set key (map_option (\<lambda>m. dl_fixed L 6 (m * fl_quantity f)) m) markoutDollars,
          js_set key (map_option (dl_fixed L 6) drift) midDrift))"

definition fillMarkout :: "dec_lib \<Rightarrow> mid_store \<Rightarrow> markout_reference \<Rightarrow> int list \<Rightarrow> simulated_fill \<Rightarrow> fill_markout" where
  "fillMarkout L series reference horizons f =
     (let s = seriesGet (fl_marketTicker f) series;
          ref = (case s of None \<Rightarrow> None | Some s \<Rightarrow> referenceAt L s (fl_filledAtMs f) reference);
          spreadCapture = markoutOf (fl_yesAction f) (fl_yesPrice f) ref;
          (markouts, markoutDollars, midDrift) = foldl (horizonStep L s reference f ref) ([], [], []) horizons
      in \<lparr>mo_fillId = fl_fillId f, mo_orderId = fl_orderId f, mo_marketTicker = fl_marketTicker f,
          mo_filledAtMs = int_str (fl_filledAtMs f), mo_liquidity = fl_liquidity f, mo_reason = sl_reason f,
          mo_yesAction = fl_yesAction f, mo_yesPrice = dl_fixed L 6 (fl_yesPrice f), mo_quantity = dl_fixed L 6 (fl_quantity f),
          mo_referencePrice = map_option (dl_fixed L 6) ref, mo_reference = reference,
          mo_spreadCapture = map_option (dl_fixed L 6) spreadCapture,
          mo_markouts = markouts, mo_markoutDollars = markoutDollars, mo_midDrift = midDrift\<rparr>)"

definition computeMarkouts ::
  "dec_lib \<Rightarrow> simulated_fill list \<Rightarrow> mid_store \<Rightarrow> markout_reference \<Rightarrow> int list \<Rightarrow> fill_markout list" where
  "computeMarkouts L fills series reference horizons = map (fillMarkout L series reference horizons) fills"

section \<open>Summary over fills\<close>

record markout_summary =
  mz_horizonMs :: int
  mz_observations :: nat
  mz_unobserved :: nat
  mz_meanMarkout :: "string option"
  mz_medianMarkout :: "string option"
  mz_totalMarkoutDollars :: "string option"
  mz_meanSpreadCapture :: "string option"
  mz_meanMidDrift :: "string option"
  mz_realizedEdge :: "string option"
  mz_adverseRate :: "string option"

datatype metric_error = InvalidDecimal string

record markout_sums =
  mx_values :: "rat list"
  mx_dollars :: rat
  mx_driftSum :: rat
  mx_captureSum :: rat
  mx_driftObs :: nat
  mx_unobserved :: nat
  mx_adverse :: nat

definition newSums :: markout_sums where
  "newSums = \<lparr>mx_values = [], mx_dollars = 0, mx_driftSum = 0, mx_captureSum = 0, mx_driftObs = 0, mx_unobserved = 0, mx_adverse = 0\<rparr>"

definition figure :: "figures \<Rightarrow> string \<Rightarrow> string option" where
  \<comment> \<open>\<open>null\<close> and \<open>undefined\<close> are not told apart\<close>
  "figure m key = (case js_get m key of None \<Rightarrow> None | Some v \<Rightarrow> v)"

definition sumStep :: "dec_lib \<Rightarrow> string \<Rightarrow> metric_error + markout_sums \<Rightarrow> fill_markout \<Rightarrow> metric_error + markout_sums" where
  "sumStep L key acc m =
     (case acc of Inl e \<Rightarrow> Inl e
      | Inr a \<Rightarrow>
          (case figure (mo_markouts m) key of
             None \<Rightarrow> Inr (a\<lparr>mx_unobserved := mx_unobserved a + 1\<rparr>)
           | Some v \<Rightarrow>
               (case figure (mo_markoutDollars m) key of
                  None \<Rightarrow> Inl (InvalidDecimal key)
                | Some dollars \<Rightarrow>
                    (let a = a\<lparr>mx_values := mx_values a @ [dl_of_string L v], mx_dollars := mx_dollars a + dl_of_string L dollars\<rparr>
                     in case (figure (mo_midDrift m) key, mo_spreadCapture m) of
                          (Some drift, Some capture) \<Rightarrow>
                            (let d = dl_of_string L drift;
                                 a = a\<lparr>mx_driftSum := mx_driftSum a + d, mx_captureSum := mx_captureSum a + dl_of_string L capture,
                                       mx_driftObs := mx_driftObs a + 1\<rparr>
                             in Inr (if d < 0 then a\<lparr>mx_adverse := mx_adverse a + 1\<rparr> else a))
                        | _ \<Rightarrow> Inr a))))"

definition medianOf :: "dec_lib \<Rightarrow> rat list \<Rightarrow> rat" where
  "medianOf L values =
     (let sorted = sort values; middle = length sorted div 2
      in if length sorted mod 2 = 1 then sorted ! middle else ddiv L (sorted ! (middle - 1) + sorted ! middle) 2)"

definition ratio8 :: "dec_lib \<Rightarrow> rat \<Rightarrow> nat \<Rightarrow> string option" where
  "ratio8 L a n = (if n = 0 then None else Some (dl_fixed L 8 (ddiv L a (of_nat n))))"

definition summaryOf :: "dec_lib \<Rightarrow> int \<Rightarrow> markout_sums \<Rightarrow> markout_summary" where
  "summaryOf L h a =
     (let n = length (mx_values a); sum = foldl (+) 0 (mx_values a) in
      if n = 0 then
        \<lparr>mz_horizonMs = h, mz_observations = 0, mz_unobserved = mx_unobserved a, mz_meanMarkout = None, mz_medianMarkout = None,
         mz_totalMarkoutDollars = None, mz_meanSpreadCapture = None, mz_meanMidDrift = None, mz_realizedEdge = None,
         mz_adverseRate = None\<rparr>
      else
        \<lparr>mz_horizonMs = h, mz_observations = n, mz_unobserved = mx_unobserved a,
         mz_meanMarkout = Some (dl_fixed L 8 (ddiv L sum (of_nat n))),
         mz_medianMarkout = Some (dl_fixed L 8 (medianOf L (mx_values a))),
         mz_totalMarkoutDollars = Some (dl_fixed L 6 (mx_dollars a)),
         mz_meanSpreadCapture = ratio8 L (mx_captureSum a) (mx_driftObs a),
         mz_meanMidDrift = ratio8 L (mx_driftSum a) (mx_driftObs a),
         mz_realizedEdge = ratio8 L (mx_captureSum a + mx_driftSum a) (mx_driftObs a),
         mz_adverseRate = (if mx_driftObs a = 0 then None
           else Some (dl_fixed L 6 (ddiv L (of_nat (mx_adverse a)) (of_nat (mx_driftObs a)))))\<rparr>)"

definition summarizeHorizon :: "dec_lib \<Rightarrow> fill_markout list \<Rightarrow> int \<Rightarrow> metric_error + markout_summary" where
  "summarizeHorizon L markouts h = map_sum id (summaryOf L h) (foldl (sumStep L (int_str h)) (Inr newSums) markouts)"

fun summarizeMarkouts :: "dec_lib \<Rightarrow> fill_markout list \<Rightarrow> int list \<Rightarrow> metric_error + markout_summary list" where
  "summarizeMarkouts L markouts [] = Inr []"
| "summarizeMarkouts L markouts (h # hs) =
     (case summarizeHorizon L markouts h of Inl e \<Rightarrow> Inl e
      | Inr s \<Rightarrow> map_sum id (\<lambda>rest. s # rest) (summarizeMarkouts L markouts hs))"

section \<open>Execution quality\<close>

record execution_quality =
  xq_ordersSubmitted :: nat
  xq_ordersRested :: nat
  xq_ordersFilled :: int
  xq_ordersPartiallyFilled :: int
  xq_ordersCancelled :: nat
  xq_ordersRejected :: nat
  xq_fills :: nat
  xq_makerFills :: nat
  xq_takerFills :: nat
  xq_fillRate :: string
  xq_cancelToFillRatio :: "string option"
  xq_contractVolume :: string
  xq_notional :: string
  xq_fees :: string
  xq_averageSpreadCaptured :: "string option"
  xq_spreadCapturedObservations :: nat
  xq_timeRestingMs :: string
  xq_meanRestingMs :: "string option"
  xq_fillReasons :: "(fill_reason, nat) jsmap"
  xq_meanQueueAheadAtEntry :: "string option"

record order_tally =
  ot_rested :: nat
  ot_cancelled :: nat
  ot_rejected :: nat
  ot_timeResting :: rat
  ot_restingSamples :: nat

definition orderTally :: "order_tally \<Rightarrow> simulated_order \<Rightarrow> order_tally" where
  "orderTally a o1 =
     (let a = (if wo_status o1 = StCancelled then a\<lparr>ot_cancelled := ot_cancelled a + 1\<rparr> else a);
          a = (if wo_status o1 = StRejected then a\<lparr>ot_rejected := ot_rejected a + 1\<rparr> else a)
      in case so_restedAtMs o1 of
           None \<Rightarrow> a
         | Some restedAt \<Rightarrow>
             (let a = a\<lparr>ot_rested := ot_rested a + 1\<rparr>;
                  end = (case so_terminalAtMs o1 of None \<Rightarrow> restedAt | Some t \<Rightarrow> t)
              in if restedAt < end
                 then a\<lparr>ot_timeResting := ot_timeResting a + of_int (end - restedAt), ot_restingSamples := ot_restingSamples a + 1\<rparr>
                 else a))"

record fill_tally =
  ft_contracts :: rat
  ft_notional :: rat
  ft_fees :: rat
  ft_maker :: nat
  ft_taker :: nat
  ft_spreadSum :: rat
  ft_spreadObs :: nat
  ft_queueSum :: rat
  ft_queueObs :: nat
  ft_reasons :: "(fill_reason, nat) jsmap"

definition fillTally :: "fill_tally \<Rightarrow> simulated_fill \<Rightarrow> fill_tally" where
  "fillTally a f =
     (let a = a\<lparr>ft_contracts := ft_contracts a + fl_quantity f, ft_notional := ft_notional a + fl_quantity f * fl_yesPrice f,
               ft_fees := ft_fees a + fl_fee f\<rparr>;
          a = (if fl_liquidity f = Maker then a\<lparr>ft_maker := ft_maker a + 1\<rparr> else a\<lparr>ft_taker := ft_taker a + 1\<rparr>);
          a = a\<lparr>ft_reasons := js_set (sl_reason f) ((case js_get (ft_reasons a) (sl_reason f) of None \<Rightarrow> 0 | Some n \<Rightarrow> n) + 1) (ft_reasons a)\<rparr>;
          a = (case (fl_liquidity f, markoutOf (fl_yesAction f) (fl_yesPrice f) (sl_midAtFill f)) of
                 (Maker, Some captured) \<Rightarrow> a\<lparr>ft_spreadSum := ft_spreadSum a + captured, ft_spreadObs := ft_spreadObs a + 1\<rparr>
               | _ \<Rightarrow> a)
      in case sl_queueAheadAtEntry f of
           None \<Rightarrow> a
         | Some q \<Rightarrow> a\<lparr>ft_queueSum := ft_queueSum a + q, ft_queueObs := ft_queueObs a + 1\<rparr>)"

definition computeExecutionQuality :: "dec_lib \<Rightarrow> simulated_order list \<Rightarrow> simulated_fill list \<Rightarrow> execution_quality" where
  "computeExecutionQuality L orders fills =
     (let t = foldl orderTally \<lparr>ot_rested = 0, ot_cancelled = 0, ot_rejected = 0, ot_timeResting = 0, ot_restingSamples = 0\<rparr> orders;
          filledIds = foldl (\<lambda>s f. set_add (fl_orderId f) s) [] fills;
          fullyFilled = foldl (\<lambda>n o1. if wo_orderId o1 \<notin> set filledIds then n
                          else if wo_quantity o1 \<le> wo_filledQuantity o1 then n + 1 else n) (0 :: nat) orders;
          u = foldl fillTally \<lparr>ft_contracts = 0, ft_notional = 0, ft_fees = 0, ft_maker = 0, ft_taker = 0, ft_spreadSum = 0,
                ft_spreadObs = 0, ft_queueSum = 0, ft_queueObs = 0, ft_reasons = []\<rparr> fills
      in \<lparr>xq_ordersSubmitted = length orders, xq_ordersRested = ot_rested t, xq_ordersFilled = int fullyFilled,
          xq_ordersPartiallyFilled = int (length filledIds) - int fullyFilled, xq_ordersCancelled = ot_cancelled t,
          xq_ordersRejected = ot_rejected t, xq_fills = length fills, xq_makerFills = ft_maker u, xq_takerFills = ft_taker u,
          xq_fillRate = (if length orders = 0 then ''0''
            else dl_fixed L 6 (ddiv L (of_nat (length filledIds)) (of_nat (length orders)))),
          xq_cancelToFillRatio = (if length fills = 0 then None
            else Some (dl_fixed L 6 (ddiv L (of_nat (ot_cancelled t)) (of_nat (length fills))))),
          xq_contractVolume = dl_fixed L 6 (ft_contracts u), xq_notional = dl_fixed L 6 (ft_notional u), xq_fees = dl_fixed L 6 (ft_fees u),
          xq_averageSpreadCaptured = ratio8 L (ft_spreadSum u) (ft_spreadObs u), xq_spreadCapturedObservations = ft_spreadObs u,
          xq_timeRestingMs = dl_fixed L 0 (ot_timeResting t), xq_meanRestingMs = ratio8 L (ot_timeResting t) (ot_restingSamples t),
          xq_fillReasons = ft_reasons u, xq_meanQueueAheadAtEntry = ratio8 L (ft_queueSum u) (ft_queueObs u)\<rparr>)"

section \<open>Each figure\<close>

text \<open>The reference price in force for a fill's market, and a move of it seen from the fill's side.\<close>

definition priceAt :: "dec_lib \<Rightarrow> mid_store \<Rightarrow> markout_reference \<Rightarrow> simulated_fill \<Rightarrow> int \<Rightarrow> rat option" where
  "priceAt L series reference f t =
     (case seriesGet (fl_marketTicker f) series of None \<Rightarrow> None | Some s \<Rightarrow> referenceAt L s t reference)"

definition favour :: "simulated_fill \<Rightarrow> rat \<Rightarrow> rat" where
  "favour f x = (if fl_yesAction f = Buy then x else - x)"

lemma markoutOf_favour: "markoutOf (fl_yesAction f) p r = map_option (\<lambda>m. favour f (m - p)) r"
  by (cases r) (simp_all add: markoutOf_def favour_def)

definition figuresAt :: "dec_lib \<Rightarrow> mid_store \<Rightarrow> markout_reference \<Rightarrow> simulated_fill \<Rightarrow> int \<Rightarrow> string option \<times> string option \<times> string option" where
  "figuresAt L series reference f h =
     (let now = priceAt L series reference f (fl_filledAtMs f); future = priceAt L series reference f (fl_filledAtMs f + h)
      in (map_option (\<lambda>b. dl_fixed L 6 (favour f (b - fl_yesPrice f))) future,
          map_option (\<lambda>b. dl_fixed L 6 (favour f (b - fl_yesPrice f) * fl_quantity f)) future,
          Option.bind now (\<lambda>a. map_option (\<lambda>b. dl_fixed L 6 (favour f (b - a))) future)))"

lemma horizonStep_figures:
  "horizonStep L (seriesGet (fl_marketTicker f) series) reference f (priceAt L series reference f (fl_filledAtMs f)) (a, b, c) h =
     (js_set (int_str h) (fst (figuresAt L series reference f h)) a, js_set (int_str h) (fst (snd (figuresAt L series reference f h))) b,
      js_set (int_str h) (snd (snd (figuresAt L series reference f h))) c)"
  by (simp add: horizonStep_def figuresAt_def Let_def markoutOf_favour option.map_comp comp_def priceAt_def [symmetric]
      split: option.split)

lemma horizons_figures:
  "foldl (horizonStep L (seriesGet (fl_marketTicker f) series) reference f (priceAt L series reference f (fl_filledAtMs f))) acc hs = (a, b, c) \<Longrightarrow>
   h \<in> set hs \<or> (js_get (fst acc) (int_str h) = Some (fst (figuresAt L series reference f h)) \<and>
     js_get (fst (snd acc)) (int_str h) = Some (fst (snd (figuresAt L series reference f h))) \<and>
     js_get (snd (snd acc)) (int_str h) = Some (snd (snd (figuresAt L series reference f h)))) \<Longrightarrow>
   (figure a (int_str h), figure b (int_str h), figure c (int_str h)) = figuresAt L series reference f h"
proof (induction hs arbitrary: acc)
  case Nil
  then show ?case by (auto simp: figure_def simp del: map_of_eq_Some_iff)
next
  case (Cons k hs)
  obtain x y z where acc: "acc = (x, y, z)" by (cases acc) auto
  note step = horizonStep_figures [of L f series reference x y z k]
  show ?case
  proof (rule Cons.IH)
    show "foldl (horizonStep L (seriesGet (fl_marketTicker f) series) reference f (priceAt L series reference f (fl_filledAtMs f)))
      (horizonStep L (seriesGet (fl_marketTicker f) series) reference f (priceAt L series reference f (fl_filledAtMs f)) acc k) hs = (a, b, c)"
      using Cons.prems(1) by simp
    show "h \<in> set hs \<or> (js_get (fst (horizonStep L (seriesGet (fl_marketTicker f) series) reference f (priceAt L series reference f (fl_filledAtMs f)) acc k)) (int_str h) =
        Some (fst (figuresAt L series reference f h)) \<and>
      js_get (fst (snd (horizonStep L (seriesGet (fl_marketTicker f) series) reference f (priceAt L series reference f (fl_filledAtMs f)) acc k))) (int_str h) =
        Some (fst (snd (figuresAt L series reference f h))) \<and>
      js_get (snd (snd (horizonStep L (seriesGet (fl_marketTicker f) series) reference f (priceAt L series reference f (fl_filledAtMs f)) acc k))) (int_str h) =
        Some (snd (snd (figuresAt L series reference f h))))"
      using Cons.prems(2) unfolding acc step fst_conv snd_conv js_get_set by (cases "h = k") (auto simp: int_str_inj simp del: map_of_eq_Some_iff)
  qed
qed

lemma fillMarkout_figures:
  assumes "h \<in> set horizons"
  shows "(figure (mo_markouts (fillMarkout L series reference horizons f)) (int_str h),
      figure (mo_markoutDollars (fillMarkout L series reference horizons f)) (int_str h),
      figure (mo_midDrift (fillMarkout L series reference horizons f)) (int_str h)) = figuresAt L series reference f h"
    and "mo_spreadCapture (fillMarkout L series reference horizons f) =
      map_option (\<lambda>a. dl_fixed L 6 (favour f (a - fl_yesPrice f))) (priceAt L series reference f (fl_filledAtMs f))"
proof -
  obtain a b c where fold: "foldl (horizonStep L (seriesGet (fl_marketTicker f) series) reference f
      (priceAt L series reference f (fl_filledAtMs f))) ([], [], []) horizons = (a, b, c)"
    by (metis prod_cases3)
  have e: "(case seriesGet (fl_marketTicker f) series of None \<Rightarrow> None | Some s \<Rightarrow> referenceAt L s (fl_filledAtMs f) reference) =
      priceAt L series reference f (fl_filledAtMs f)" by (simp add: priceAt_def)
  note m = fillMarkout_def [of L series reference horizons f, unfolded Let_def e fold prod.case]
  show "(figure (mo_markouts (fillMarkout L series reference horizons f)) (int_str h),
      figure (mo_markoutDollars (fillMarkout L series reference horizons f)) (int_str h),
      figure (mo_midDrift (fillMarkout L series reference horizons f)) (int_str h)) = figuresAt L series reference f h"
    unfolding m using horizons_figures [OF fold] assms by simp
  show "mo_spreadCapture (fillMarkout L series reference horizons f) =
      map_option (\<lambda>a. dl_fixed L 6 (favour f (a - fl_yesPrice f))) (priceAt L series reference f (fl_filledAtMs f))"
    unfolding m by (simp add: markoutOf_favour option.map_comp comp_def)
qed

text \<open>
  C37: What a markout says of a fill. A horizon has a figure exactly when the reference price was known there, and it is the move
  from the fill price in the fill's favour; the spread capture is the same at the fill itself, the drift is the move
  from the reference at the fill, and on the exchange's price grid the markout is exactly the spread capture plus
  the drift. A price that is not known never becomes a zero.
\<close>

theorem markout_decomposes:
  assumes "decimal_lib L" "h \<in> set horizons"
    and "a = priceAt L series reference f (fl_filledAtMs f)" "b = priceAt L series reference f (fl_filledAtMs f + h)"
    and "m = fillMarkout L series reference horizons f"
  shows "map_option (dl_of_string L) (figure (mo_markouts m) (int_str h)) = map_option (\<lambda>y. round_dp 6 (favour f (y - fl_yesPrice f))) b \<and>
    map_option (dl_of_string L) (mo_spreadCapture m) = map_option (\<lambda>x. round_dp 6 (favour f (x - fl_yesPrice f))) a \<and>
    map_option (dl_of_string L) (figure (mo_midDrift m) (int_str h)) = Option.bind a (\<lambda>x. map_option (\<lambda>y. round_dp 6 (favour f (y - x))) b) \<and>
    (case (a, b) of
       (Some x, Some y) \<Rightarrow> \<not> (on_grid 6 x \<and> on_grid 6 y \<and> on_grid 6 (fl_yesPrice f)) \<or>
         dl_of_string L (the (figure (mo_markouts m) (int_str h))) =
         dl_of_string L (the (mo_spreadCapture m)) + dl_of_string L (the (figure (mo_midDrift m) (int_str h)))
     | _ \<Rightarrow> True)"
proof -
  note parse_fixed = decimal_lib.parse_fixed [OF assms(1)]
  have fig: "figure (mo_markouts m) (int_str h) = map_option (\<lambda>y. dl_fixed L 6 (favour f (y - fl_yesPrice f))) b"
    "figure (mo_midDrift m) (int_str h) = Option.bind a (\<lambda>x. map_option (\<lambda>y. dl_fixed L 6 (favour f (y - x))) b)"
    using fillMarkout_figures(1) [OF assms(2), of L series reference f] unfolding assms(3-5) figuresAt_def Let_def by simp_all
  have cap: "mo_spreadCapture m = map_option (\<lambda>x. dl_fixed L 6 (favour f (x - fl_yesPrice f))) a"
    unfolding assms(3,5) by (rule fillMarkout_figures(2) [OF assms(2)])
  have grid: "on_grid 6 (favour f (x - y))" if "on_grid 6 x" "on_grid 6 y" for x y
    using that on_grid_diff on_grid_minus by (simp add: favour_def)
  have sum: "favour f (y - p) = favour f (x - p) + favour f (y - x)" for x y p by (simp add: favour_def)
  show ?thesis
    unfolding fig cap using grid sum
    by (cases a; cases b) (simp_all add: parse_fixed option.map_comp comp_def)
qed

section \<open>The summary is over the fills that were observed\<close>

definition observedAt :: "dec_lib \<Rightarrow> mid_store \<Rightarrow> markout_reference \<Rightarrow> int \<Rightarrow> simulated_fill \<Rightarrow> bool" where
  "observedAt L series reference h f \<longleftrightarrow> priceAt L series reference f (fl_filledAtMs f + h) \<noteq> None"

definition driftKnown :: "dec_lib \<Rightarrow> mid_store \<Rightarrow> markout_reference \<Rightarrow> int \<Rightarrow> simulated_fill \<Rightarrow> bool" where
  "driftKnown L series reference h f \<longleftrightarrow> observedAt L series reference h f \<and> priceAt L series reference f (fl_filledAtMs f) \<noteq> None"

text \<open>The rounded figures of a fill whose horizon was observed.\<close>

definition markoutValue :: "dec_lib \<Rightarrow> mid_store \<Rightarrow> markout_reference \<Rightarrow> int \<Rightarrow> simulated_fill \<Rightarrow> rat" where
  "markoutValue L series reference h f = round_dp 6 (favour f (the (priceAt L series reference f (fl_filledAtMs f + h)) - fl_yesPrice f))"

definition captureValue :: "dec_lib \<Rightarrow> mid_store \<Rightarrow> markout_reference \<Rightarrow> simulated_fill \<Rightarrow> rat" where
  "captureValue L series reference f = round_dp 6 (favour f (the (priceAt L series reference f (fl_filledAtMs f)) - fl_yesPrice f))"

definition driftValue :: "dec_lib \<Rightarrow> mid_store \<Rightarrow> markout_reference \<Rightarrow> int \<Rightarrow> simulated_fill \<Rightarrow> rat" where
  "driftValue L series reference h f = round_dp 6 (favour f
     (the (priceAt L series reference f (fl_filledAtMs f + h)) - the (priceAt L series reference f (fl_filledAtMs f))))"

definition dollarsValue :: "dec_lib \<Rightarrow> mid_store \<Rightarrow> markout_reference \<Rightarrow> int \<Rightarrow> simulated_fill \<Rightarrow> rat" where
  "dollarsValue L series reference h f =
     round_dp 6 (favour f (the (priceAt L series reference f (fl_filledAtMs f + h)) - fl_yesPrice f) * fl_quantity f)"

definition sumsOf :: "dec_lib \<Rightarrow> mid_store \<Rightarrow> markout_reference \<Rightarrow> int \<Rightarrow> simulated_fill list \<Rightarrow> markout_sums" where
  "sumsOf L series reference h fills =
     (let seen = filter (observedAt L series reference h) fills; both = filter (driftKnown L series reference h) fills
      in \<lparr>mx_values = map (markoutValue L series reference h) seen, mx_dollars = sum_list (map (dollarsValue L series reference h) seen),
          mx_driftSum = sum_list (map (driftValue L series reference h) both),
          mx_captureSum = sum_list (map (captureValue L series reference) both), mx_driftObs = length both,
          mx_unobserved = length fills - length seen,
          mx_adverse = length (filter (\<lambda>f. driftValue L series reference h f < 0) both)\<rparr>)"

lemma sums_fold:
  assumes L: "decimal_lib L" and h: "h \<in> set horizons"
  shows "foldl (sumStep L (int_str h)) (Inr newSums) (computeMarkouts L fills series reference horizons) = Inr (sumsOf L series reference h fills)"
proof (induction fills rule: rev_induct)
  case Nil
  show ?case by (simp add: computeMarkouts_def sumsOf_def newSums_def)
next
  case (snoc f fills)
  let ?m = "fillMarkout L series reference horizons f"
  note parse_fixed = decimal_lib.parse_fixed [OF L]
  note fig = fillMarkout_figures(1) [OF h, of L series reference f, unfolded figuresAt_def Let_def prod.inject]
    fillMarkout_figures(2) [OF h, of L series reference f]
  have split: "computeMarkouts L (fills @ [f]) series reference horizons = computeMarkouts L fills series reference horizons @ [?m]"
    by (simp add: computeMarkouts_def)
  have le: "length (filter (observedAt L series reference h) fills) \<le> length fills" by (rule length_filter_le)
  have step: "sumStep L (int_str h) (Inr (sumsOf L series reference h fills)) ?m = Inr (sumsOf L series reference h (fills @ [f]))"
  proof (cases "priceAt L series reference f (fl_filledAtMs f + h)")
    case None
    then show ?thesis using fig le by (simp add: sumStep_def sumsOf_def Let_def observedAt_def driftKnown_def Suc_diff_le)
  next
    case b: (Some b)
    show ?thesis
    proof (cases "priceAt L series reference f (fl_filledAtMs f)")
      case None
      then show ?thesis using fig b
        by (simp add: sumStep_def sumsOf_def Let_def observedAt_def driftKnown_def parse_fixed markoutValue_def dollarsValue_def)
    next
      case (Some a)
      then show ?thesis using fig b
        by (simp add: sumStep_def sumsOf_def Let_def observedAt_def driftKnown_def parse_fixed markoutValue_def dollarsValue_def
            driftValue_def captureValue_def)
    qed
  qed
  show ?case unfolding split foldl_append snoc.IH using step by simp
qed

lemma summarizeMarkouts_all:
  assumes L: "decimal_lib L" and sub: "set hs \<subseteq> set horizons"
  shows "summarizeMarkouts L (computeMarkouts L fills series reference horizons) hs =
    Inr (map (\<lambda>h. summaryOf L h (sumsOf L series reference h fills)) hs)"
  using sub
proof (induction hs)
  case (Cons h hs)
  then show ?case using sums_fold [OF L, of h horizons fills series reference] by (simp add: summarizeHorizon_def)
qed simp

lemma sum_list_foldl: "foldl (+) x (xs :: rat list) = x + sum_list xs"
  by (induction xs arbitrary: x) simp_all

text \<open>What a summary should say, stated over the fills.\<close>

definition summary_ok :: "dec_lib \<Rightarrow> mid_store \<Rightarrow> markout_reference \<Rightarrow> simulated_fill list \<Rightarrow> markout_summary \<Rightarrow> bool" where
  "summary_ok L series reference fills s \<longleftrightarrow>
     (let h = mz_horizonMs s; seen = filter (observedAt L series reference h) fills;
          both = filter (driftKnown L series reference h) fills in
      mz_observations s = length seen \<and> mz_unobserved s = length (filter (\<lambda>f. \<not> observedAt L series reference h f) fills) \<and>
      mz_meanMarkout s = (if seen = [] then None
        else Some (dl_fixed L 8 (ddiv L (sum_list (map (markoutValue L series reference h) seen)) (of_nat (length seen))))) \<and>
      mz_realizedEdge s = (if both = [] then None
        else Some (dl_fixed L 8 (ddiv L (sum_list (map (\<lambda>f. captureValue L series reference f + driftValue L series reference h f) both))
               (of_nat (length both))))) \<and>
      (case mz_adverseRate s of None \<Rightarrow> both = [] | Some r \<Rightarrow> 0 \<le> dl_of_string L r \<and> dl_of_string L r \<le> 1))"

text \<open>
  C38: A markout report leaves nothing out and makes nothing up. It never fails; at each horizon the observed and the
  unobserved fills are all the fills, an unobserved fill enters no figure, the mean is over the observed ones, the
  realized edge is the mean capture plus drift over those whose own reference was known, and the adverse rate is a share of these.
\<close>

theorem markout_summary_imputes_nothing:
  assumes "decimal_lib L"
  shows "\<exists>ss. summarizeMarkouts L (computeMarkouts L fills series reference horizons) horizons = Inr ss \<and> map mz_horizonMs ss = horizons \<and>
    list_all (summary_ok L series reference fills) ss"
proof -
  note all = summarizeMarkouts_all [where fills = fills and series = series and reference = reference and hs = horizons and horizons = horizons,
      OF assms subset_refl]
  have un: "length fills - length (filter P fills) = length (filter (\<lambda>f. \<not> P f) fills)" for P
    using sum_length_filter_compl [of P fills] by linarith
  have sub: "filter (driftKnown L series reference h) fills = [] \<or> filter (observedAt L series reference h) fills \<noteq> []" for h
    by (auto simp: driftKnown_def filter_empty_conv)
  have rate: "0 \<le> dl_of_string L (dl_fixed L 6 (ddiv L (of_nat k) (of_nat n))) \<and> dl_of_string L (dl_fixed L 6 (ddiv L (of_nat k) (of_nat n))) \<le> 1"
    if "k \<le> n" "n \<noteq> 0" for k n
    using decimal_lib.ddiv_unit [OF assms, of "of_nat n" "of_nat k"] that
    by (simp add: decimal_lib.parse_fixed [OF assms] round_dp_nonneg round_dp_le_1)
  have map2: "sum_list (map (captureValue L series reference) xs) + sum_list (map (driftValue L series reference h) xs) =
      sum_list (map (\<lambda>f. captureValue L series reference f + driftValue L series reference h f) xs)" for h and xs :: "simulated_fill list"
    by (simp add: sum_list_addf)
  have summary: "mz_horizonMs (summaryOf L h (sumsOf L series reference h fills)) = h \<and>
      summary_ok L series reference fills (summaryOf L h (sumsOf L series reference h fills))" for h
    using sub [of h] by (auto simp: summary_ok_def summaryOf_def sumsOf_def Let_def un ratio8_def map2 sum_list_foldl intro!: rate filter_both_le)
  show ?thesis
    by (intro exI conjI, rule all) (simp_all add: list_all_iff comp_def summary)
qed

section \<open>Execution quality counts every order and every fill\<close>

lemma orderTally_counts:
  "ot_cancelled (foldl orderTally a orders) = ot_cancelled a + length (filter (\<lambda>o1. wo_status o1 = StCancelled) orders)"
  "ot_rejected (foldl orderTally a orders) = ot_rejected a + length (filter (\<lambda>o1. wo_status o1 = StRejected) orders)"
  "ot_rested (foldl orderTally a orders) = ot_rested a + length (filter (\<lambda>o1. so_restedAtMs o1 \<noteq> None) orders)"
  by (induction orders arbitrary: a) (simp_all add: orderTally_def Let_def split: option.split)

lemma orderTally_resting:
  "ot_restingSamples (foldl orderTally a orders) \<le> ot_restingSamples a + length (filter (\<lambda>o1. so_restedAtMs o1 \<noteq> None) orders)"
proof (induction orders arbitrary: a)
  case (Cons o1 orders)
  have "ot_restingSamples (orderTally a o1) \<le> ot_restingSamples a + (if so_restedAtMs o1 \<noteq> None then 1 else 0)"
    by (simp add: orderTally_def Let_def split: option.split)
  then show ?case using Cons.IH [of "orderTally a o1"] by (simp split: if_splits)
qed simp

lemma fillTally_counts:
  "ft_maker (foldl fillTally a fills) + ft_taker (foldl fillTally a fills) = ft_maker a + ft_taker a + length fills"
  "ft_contracts (foldl fillTally a fills) = ft_contracts a + sum_list (map fl_quantity fills)"
  "ft_fees (foldl fillTally a fills) = ft_fees a + sum_list (map fl_fee fills)"
  "ft_spreadObs (foldl fillTally a fills) =
     ft_spreadObs a + length (filter (\<lambda>f. fl_liquidity f = Maker \<and> sl_midAtFill f \<noteq> None) fills)"
  by (induction fills arbitrary: a) (simp_all add: fillTally_def Let_def markoutOf_def split: option.split liquidity.split)

lemma fillTally_reasons:
  "js_map_ok (ft_reasons a) \<Longrightarrow> js_map_ok (ft_reasons (foldl fillTally a fills)) \<and>
     sum_list (map snd (ft_reasons (foldl fillTally a fills))) = sum_list (map snd (ft_reasons a)) + length fills"
proof (induction fills arbitrary: a)
  case (Cons f fills)
  have r: "ft_reasons (fillTally a f) = js_set (sl_reason f) (case js_get (ft_reasons a) (sl_reason f) of None \<Rightarrow> 1 | Some n \<Rightarrow> n + 1) (ft_reasons a)"
    by (simp add: fillTally_def Let_def split: option.split liquidity.split)
  have one: "sum_list (map snd (ft_reasons (fillTally a f))) = Suc (sum_list (map snd (ft_reasons a)))"
    unfolding r using sum_counts [OF Cons.prems, of "sl_reason f"] by simp
  show ?case using Cons.IH [of "fillTally a f"] Cons.prems one by (simp add: r)
qed simp

end
