(* ===== verification/Breakdowns.thy ===== *)
theory Breakdowns
  imports Markouts
begin

text \<open>
  Results cut by market, event, hour and the state of the book at the fill: \<open>src/src/research/metrics/pnl.ts\<close>.
  \<open>to_number\<close> is \<open>Decimal.toNumber\<close>, the nearest double, and the constants it is compared with are
  doubles too. Times are within the range of \<open>Date\<close>, after the year 99.
\<close>

section \<open>Buckets\<close>

definition BUCKET_MARKOUT_HORIZON_MS :: int where
  "BUCKET_MARKOUT_HORIZON_MS = 1000"

record bucket_stats =
  bs_bucket :: string
  bs_fills :: nat
  bs_contracts :: string
  bs_notional :: string
  bs_fees :: string
  bs_spreadCaptured :: "string option"
  bs_markout :: "string option"
  bs_midDrift :: "string option"
  bs_adverseRate :: "string option"

record breakdown =
  bd_dimension :: string
  bd_buckets :: "bucket_stats list"

record accumulator =
  ac_fills :: nat
  ac_contracts :: rat
  ac_notional :: rat
  ac_fees :: rat
  ac_spreadSum :: rat
  ac_spreadObs :: nat
  ac_markoutSum :: rat
  ac_markoutObs :: nat
  ac_driftSum :: rat
  ac_driftObs :: nat
  ac_adverse :: nat

definition emptyAcc :: accumulator where
  "emptyAcc = \<lparr>ac_fills = 0, ac_contracts = 0, ac_notional = 0, ac_fees = 0, ac_spreadSum = 0, ac_spreadObs = 0,
     ac_markoutSum = 0, ac_markoutObs = 0, ac_driftSum = 0, ac_driftObs = 0, ac_adverse = 0\<rparr>"

definition spreadBucket :: "rat option \<Rightarrow> string" where
  "spreadBucket spread =
     (case spread of None \<Rightarrow> ''unknown''
      | Some s \<Rightarrow>
          let cents = s * 100
          in if cents \<le> 1 then ''<=1c'' else if cents \<le> 2 then ''2c'' else if cents \<le> 3 then ''3c''
             else if cents \<le> 5 then ''4-5c'' else if cents \<le> 10 then ''6-10c'' else ''>10c'')"

definition depthBucket :: "rat option \<Rightarrow> string" where
  "depthBucket depth =
     (case depth of None \<Rightarrow> ''unknown''
      | Some d \<Rightarrow> if d \<le> 50 then ''<=50'' else if d \<le> 200 then ''51-200'' else if d \<le> 1000 then ''201-1000'' else ''>1000'')"

definition imbalanceBucket :: "(rat \<Rightarrow> rat) \<Rightarrow> rat option \<Rightarrow> string" where
  "imbalanceBucket to_number imbalance =
     (case imbalance of None \<Rightarrow> ''unknown''
      | Some x \<Rightarrow>
          let v = to_number x
          in if v \<le> to_number (- 3 / 5) then ''[-1.0,-0.6]'' else if v \<le> to_number (- 1 / 5) then ''(-0.6,-0.2]''
             else if v < to_number (1 / 5) then ''(-0.2,0.2)'' else if v < to_number (3 / 5) then ''[0.2,0.6)'' else ''[0.6,1.0]'')"

text \<open>The first match of \<open>-(\d{2})([A-Z]{3})(\d{2})-\<close>, and its three groups.\<close>

definition eventDateHere :: "string \<Rightarrow> bool" where
  "eventDateHere s \<longleftrightarrow> 8 < length s \<and> s ! 0 = CHR ''-'' \<and> all_digits (take 2 (drop 1 s)) \<and>
     list_all (\<lambda>c. CHR ''A'' \<le> c \<and> c \<le> CHR ''Z'') (take 3 (drop 3 s)) \<and> all_digits (take 2 (drop 6 s)) \<and> s ! 8 = CHR ''-''"

fun eventDateMatch :: "string \<Rightarrow> (string \<times> string \<times> string) option" where
  "eventDateMatch [] = None"
| "eventDateMatch (c # s) =
     (if eventDateHere (c # s) then Some (take 2 s, take 3 (drop 2 s), take 2 (drop 5 s)) else eventDateMatch s)"

definition MONTHS :: "(string \<times> int) list" where
  "MONTHS = [(''JAN'', 0), (''FEB'', 1), (''MAR'', 2), (''APR'', 3), (''MAY'', 4), (''JUN'', 5), (''JUL'', 6), (''AUG'', 7),
     (''SEP'', 8), (''OCT'', 9), (''NOV'', 10), (''DEC'', 11)]"

definition daysToEventDate :: "string \<Rightarrow> int \<Rightarrow> string" where
  \<comment> \<open>both dates are whole days, so the quotient of the difference by a day is rounded from an integer\<close>
  "daysToEventDate marketTicker atMs =
     (case eventDateMatch marketTicker of
        None \<Rightarrow> ''unknown''
      | Some (year, month, day) \<Rightarrow>
          (case map_of MONTHS month of
             None \<Rightarrow> ''unknown''
           | Some m \<Rightarrow>
               let eventDay = daysFromCivil (2000 + num year) (m + 1) (num day);
                   fillDay = atMs div 86400000
               in ''D+'' @ int_str (eventDay - fillDay)))"

fun splitOn :: "char \<Rightarrow> string \<Rightarrow> string list" where
  "splitOn c [] = [[]]"
| "splitOn c (x # xs) = (if x = c then [] # splitOn c xs else (x # hd (splitOn c xs)) # tl (splitOn c xs))"

fun joinWith :: "string \<Rightarrow> string list \<Rightarrow> string" where
  "joinWith sep [] = []"
| "joinWith sep [x] = x"
| "joinWith sep (x # y # ys) = x @ sep @ joinWith sep (y # ys)"

definition hourUtc :: "int \<Rightarrow> string" where
  "hourUtc atMs = (let h = int_str (atMs div 3600000 mod 24) in (if length h < 2 then ''0'' @ h else h) @ '':00'')"

fun liquidityString :: "liquidity \<Rightarrow> string" where
  "liquidityString Maker = ''maker''"
| "liquidityString Taker = ''taker''"

fun fillReasonString :: "fill_reason \<Rightarrow> string" where
  "fillReasonString FrCross = ''cross''"
| "fillReasonString FrTradeThrough = ''trade_through''"
| "fillReasonString FrQueueDepleted = ''queue_depleted''"
| "fillReasonString FrProbabilisticQueue = ''probabilistic_queue''"
| "fillReasonString FrTouch = ''touch''"

definition dimensions :: "(rat \<Rightarrow> rat) \<Rightarrow> (string \<times> (simulated_fill \<Rightarrow> string)) list" where
  "dimensions to_number =
     [(''market'', fl_marketTicker),
      (''event'', \<lambda>f. joinWith ''-'' (take 2 (splitOn CHR ''-'' (fl_marketTicker f)))),
      (''series'', \<lambda>f. hd (splitOn CHR ''-'' (fl_marketTicker f))),
      (''hour_utc'', \<lambda>f. hourUtc (fl_filledAtMs f)),
      (''days_to_event_date'', \<lambda>f. daysToEventDate (fl_marketTicker f) (fl_filledAtMs f)),
      (''spread'', \<lambda>f. spreadBucket (sl_spreadAtFill f)),
      (''depth_1'', \<lambda>f. depthBucket (sl_depth1AtFill f)),
      (''imbalance_1'', \<lambda>f. imbalanceBucket to_number (sl_imbalance1AtFill f)),
      (''liquidity'', \<lambda>f. liquidityString (fl_liquidity f)),
      (''fill_reason'', \<lambda>f. fillReasonString (sl_reason f))]"

text \<open>One fill added to its bucket.\<close>

definition addFill :: "dec_lib \<Rightarrow> (string, fill_markout) jsmap \<Rightarrow> string \<Rightarrow> accumulator \<Rightarrow> simulated_fill \<Rightarrow> accumulator" where
  "addFill L markoutByFill key a f =
     (let a = a\<lparr>ac_fills := ac_fills a + 1, ac_contracts := ac_contracts a + fl_quantity f,
                ac_notional := ac_notional a + fl_quantity f * fl_yesPrice f, ac_fees := ac_fees a + fl_fee f\<rparr>;
          a = (case (fl_liquidity f, sl_midAtFill f) of
                 (Maker, Some mid) \<Rightarrow>
                   (let captured = (if fl_yesAction f = Buy then mid - fl_yesPrice f else fl_yesPrice f - mid)
                    in a\<lparr>ac_spreadSum := ac_spreadSum a + captured, ac_spreadObs := ac_spreadObs a + 1\<rparr>)
               | _ \<Rightarrow> a);
          record = js_get markoutByFill (fl_fillId f);
          a = (case Option.bind record (\<lambda>r. figure (mo_markouts r) key) of
                 None \<Rightarrow> a
               | Some v \<Rightarrow> a\<lparr>ac_markoutSum := ac_markoutSum a + dl_of_string L v, ac_markoutObs := ac_markoutObs a + 1\<rparr>)
      in case Option.bind record (\<lambda>r. figure (mo_midDrift r) key) of
           None \<Rightarrow> a
         | Some drift \<Rightarrow>
             (let d = dl_of_string L drift;
                  a = a\<lparr>ac_driftSum := ac_driftSum a + d, ac_driftObs := ac_driftObs a + 1\<rparr>
              in if d < 0 then a\<lparr>ac_adverse := ac_adverse a + 1\<rparr> else a))"

definition bucketStats :: "dec_lib \<Rightarrow> string \<Rightarrow> accumulator \<Rightarrow> bucket_stats" where
  "bucketStats L bucket a =
     \<lparr>bs_bucket = bucket, bs_fills = ac_fills a, bs_contracts = dl_fixed L 6 (ac_contracts a),
      bs_notional = dl_fixed L 6 (ac_notional a), bs_fees = dl_fixed L 6 (ac_fees a),
      bs_spreadCaptured = ratio8 L (ac_spreadSum a) (ac_spreadObs a), bs_markout = ratio8 L (ac_markoutSum a) (ac_markoutObs a),
      bs_midDrift = ratio8 L (ac_driftSum a) (ac_driftObs a),
      bs_adverseRate = (if ac_driftObs a = 0 then None
        else Some (dl_fixed L 6 (ddiv L (of_nat (ac_adverse a)) (of_nat (ac_driftObs a)))))\<rparr>"

definition bucketsOf ::
  "dec_lib \<Rightarrow> (string, fill_markout) jsmap \<Rightarrow> string \<Rightarrow> (simulated_fill \<Rightarrow> string) \<Rightarrow> simulated_fill list \<Rightarrow> (string, accumulator) jsmap" where
  "bucketsOf L markoutByFill key of_fill fills =
     foldl (\<lambda>acc f.
        let bucket = of_fill f; a = (case js_get acc bucket of None \<Rightarrow> emptyAcc | Some a \<Rightarrow> a)
        in js_set bucket (addFill L markoutByFill key a f) acc) [] fills"

definition computeBreakdowns ::
  "dec_lib \<Rightarrow> (rat \<Rightarrow> rat) \<Rightarrow> simulated_fill list \<Rightarrow> fill_markout list \<Rightarrow> int \<Rightarrow> breakdown list" where
  "computeBreakdowns L to_number fills markouts horizonMs =
     (let markoutByFill = foldl (\<lambda>m r. js_set (mo_fillId r) r m) [] markouts; key = int_str horizonMs
      in map (\<lambda>(dimension, of_fill).
           \<lparr>bd_dimension = dimension,
            bd_buckets = sort_key bs_bucket (map (\<lambda>(bucket, a). bucketStats L bucket a) (bucketsOf L markoutByFill key of_fill fills))\<rparr>)
         (dimensions to_number))"

section \<open>Buckets partition the fills\<close>

text \<open>Accumulating by key in one pass is accumulating each key's items on their own.\<close>

definition groupStep :: "('x \<Rightarrow> 'k) \<Rightarrow> ('a \<Rightarrow> 'x \<Rightarrow> 'a) \<Rightarrow> 'a \<Rightarrow> ('k, 'a) jsmap \<Rightarrow> 'x \<Rightarrow> ('k, 'a) jsmap" where
  "groupStep k f e m x = js_set (k x) (f (case js_get m (k x) of None \<Rightarrow> e | Some a \<Rightarrow> a) x) m"

lemma group_get:
  "js_get (foldl (groupStep k f e) [] xs) b =
     (if b \<in> k ` set xs then Some (foldl f e (filter (\<lambda>x. k x = b) xs)) else None)"
proof (induction xs rule: rev_induct)
  case (snoc x xs)
  let ?m = "foldl (groupStep k f e) [] xs"
  have old: "(case js_get ?m (k x) of None \<Rightarrow> e | Some a \<Rightarrow> a) = foldl f e (filter (\<lambda>y. k y = k x) xs)" if "b = k x"
  proof (cases "k x \<in> k ` set xs")
    case True
    then show ?thesis using snoc that by simp
  next
    case False
    then have "filter (\<lambda>y. k y = k x) xs = []" unfolding filter_empty_conv by (metis image_eqI)
    then show ?thesis using snoc that False by simp
  qed
  have step: "foldl (groupStep k f e) [] (xs @ [x]) = js_set (k x) (f (case js_get ?m (k x) of None \<Rightarrow> e | Some a \<Rightarrow> a) x) ?m"
    by (simp add: groupStep_def)
  show ?case
  proof (cases "b = k x")
    case True
    then show ?thesis unfolding step js_get_set using old by simp
  next
    case False
    then show ?thesis unfolding step js_get_set snoc by auto
  qed
qed simp

lemma group_keys:
  "js_map_ok (foldl (groupStep k f e) [] xs) \<and> set (js_keys (foldl (groupStep k f e) [] xs)) = k ` set xs"
proof (induction xs rule: rev_induct)
  case (snoc x xs)
  then show ?case by (simp add: groupStep_def js_keys_set del: set_map)
qed simp

lemma map_entries: "js_map_ok m \<Longrightarrow> m = map (\<lambda>b. (b, the (js_get m b))) (js_keys m)"
proof -
  assume ok: "js_map_ok m"
  have "map (\<lambda>p. (fst p, the (js_get m (fst p)))) m = map id m"
  proof (rule map_cong [OF refl])
    fix p assume "p \<in> set m"
    then have "js_get m (fst p) = Some (snd p)" using js_entry_get [OF ok, of "fst p" "snd p"] by simp
    then show "(fst p, the (js_get m (fst p))) = id p" by simp
  qed
  then show ?thesis by (simp add: comp_def)
qed

lemma group_entries:
  "foldl (groupStep k f e) [] xs = map (\<lambda>b. (b, foldl f e (filter (\<lambda>x. k x = b) xs))) (js_keys (foldl (groupStep k f e) [] xs))"
proof -
  define m where "m = foldl (groupStep k f e) [] xs"
  have ok: "js_map_ok m" and keys: "set (js_keys m) = k ` set xs" using group_keys [of k f e xs] unfolding m_def by blast+
  have get: "js_get m b = Some (foldl f e (filter (\<lambda>x. k x = b) xs))" if "b \<in> set (js_keys m)" for b
    unfolding m_def group_get using that keys by simp
  have "map (\<lambda>b. (b, the (js_get m b))) (js_keys m) = map (\<lambda>b. (b, foldl f e (filter (\<lambda>x. k x = b) xs))) (js_keys m)"
    by (rule map_cong [OF refl]) (simp add: get del: map_of_eq_Some_iff)
  then show ?thesis unfolding m_def [symmetric] by (rule trans [OF map_entries [OF ok]])
qed

lemma bucketsOf_group: "bucketsOf L mb key g fills = foldl (groupStep g (addFill L mb key) emptyAcc) [] fills"
proof -
  have "(\<lambda>acc f. let bucket = g f; a = (case js_get acc bucket of None \<Rightarrow> emptyAcc | Some a \<Rightarrow> a) in js_set bucket (addFill L mb key a f) acc) =
      groupStep g (addFill L mb key) emptyAcc"
    by (simp add: groupStep_def fun_eq_iff Let_def)
  then show ?thesis by (simp only: bucketsOf_def)
qed

definition statsOf :: "dec_lib \<Rightarrow> (string, fill_markout) jsmap \<Rightarrow> string \<Rightarrow> (simulated_fill \<Rightarrow> string) \<Rightarrow> simulated_fill list \<Rightarrow> string \<Rightarrow> bucket_stats" where
  \<comment> \<open>the figures of one bucket, from its own fills alone\<close>
  "statsOf L mb key g fills b = bucketStats L b (foldl (addFill L mb key) emptyAcc (filter (\<lambda>f. g f = b) fills))"

lemma addFill_totals:
  "ac_fills (addFill L mb key a f) = ac_fills a + 1" "ac_contracts (addFill L mb key a f) = ac_contracts a + fl_quantity f"
  "ac_fees (addFill L mb key a f) = ac_fees a + fl_fee f"
  by (simp_all add: addFill_def Let_def split: option.split liquidity.split)

lemma addFills_totals:
  "ac_fills (foldl (addFill L mb key) a fs) = ac_fills a + length fs"
  "ac_contracts (foldl (addFill L mb key) a fs) = ac_contracts a + sum_list (map fl_quantity fs)"
  "ac_fees (foldl (addFill L mb key) a fs) = ac_fees a + sum_list (map fl_fee fs)"
  by (induction fs arbitrary: a) (simp_all add: addFill_totals)

lemma sum_over_groups:
  fixes h :: "'x \<Rightarrow> 'n :: comm_monoid_add"
  assumes "distinct bs" "g ` set xs \<subseteq> set bs"
  shows "(\<Sum>b\<leftarrow>bs. \<Sum>x\<leftarrow>filter (\<lambda>x. g x = b) xs. h x) = (\<Sum>x\<leftarrow>xs. h x)"
  using assms(2)
proof (induction xs)
  case (Cons x xs)
  have one: "(\<Sum>b\<leftarrow>bs. if g x = b then h x else 0) = h x"
    using Cons.prems assms(1) sum_list_map_eq_sum_count2 [of bs "set bs"]
    by (simp add: sum_list_distinct_conv_sum_set sum.delta)
  have "(\<Sum>b\<leftarrow>bs. \<Sum>x\<leftarrow>filter (\<lambda>x. g x = b) (x # xs). h x) =
      (\<Sum>b\<leftarrow>bs. (if g x = b then h x else 0) + (\<Sum>x\<leftarrow>filter (\<lambda>x. g x = b) xs. h x))"
    by (rule arg_cong [where f = sum_list], rule map_cong) simp_all
  then show ?case using one Cons by (simp add: sum_list_addf)
qed simp

text \<open>
  C39: Every cut of the results is a partition. In each dimension there is one bucket per value that occurs, in order, every bucket's
  figures are those of its own fills, and the fills, and on the exchange's grid the contracts and the fees, add up to the run's.
\<close>

theorem breakdowns_partition_fills:
  assumes "decimal_lib L" "list_all (\<lambda>f. on_grid 6 (fl_quantity f) \<and> on_grid 6 (fl_fee f)) fills"
    and "bd \<in> set (computeBreakdowns L to_number fills markouts horizonMs)"
  shows "\<exists>g. (bd_dimension bd, g) \<in> set (dimensions to_number) \<and> map bs_bucket (bd_buckets bd) = sort (remdups (map g fills)) \<and>
    bd_buckets bd = map (statsOf L (foldl (\<lambda>m r. js_set (mo_fillId r) r m) [] markouts) (int_str horizonMs) g fills) (map bs_bucket (bd_buckets bd)) \<and>
    (\<Sum>b\<leftarrow>bd_buckets bd. bs_fills b) = length fills \<and>
    (\<Sum>b\<leftarrow>bd_buckets bd. dl_of_string L (bs_contracts b)) = (\<Sum>f\<leftarrow>fills. fl_quantity f) \<and>
    (\<Sum>b\<leftarrow>bd_buckets bd. dl_of_string L (bs_fees b)) = (\<Sum>f\<leftarrow>fills. fl_fee f)"
proof -
  define mb where "mb = foldl (\<lambda>m r. js_set (mo_fillId r) r m) [] markouts"
  let ?key = "int_str horizonMs"
  obtain g where g: "(bd_dimension bd, g) \<in> set (dimensions to_number)"
    and bs: "bd_buckets bd = sort_key bs_bucket (map (\<lambda>(bucket, a). bucketStats L bucket a) (bucketsOf L mb ?key g fills))"
    using assms(3) by (auto simp: computeBreakdowns_def Let_def mb_def)
  define keys where "keys = js_keys (bucketsOf L mb ?key g fills)"
  have keys: "distinct keys" "set keys = g ` set fills"
    using group_keys [of g "addFill L mb ?key" emptyAcc fills] unfolding keys_def bucketsOf_group by blast+
  have entries: "map (\<lambda>(bucket, a). bucketStats L bucket a) (bucketsOf L mb ?key g fills) = map (statsOf L mb ?key g fills) keys"
    unfolding keys_def bucketsOf_group
    by (subst (1) group_entries) (simp add: statsOf_def comp_def)
  have name: "bs_bucket (statsOf L mb ?key g fills b) = b" for b by (simp add: statsOf_def bucketStats_def)
  have stats: "bd_buckets bd = map (statsOf L mb ?key g fills) (sort keys)"
  proof -
    have "sort_key bs_bucket (map (statsOf L mb ?key g fills) ks) = map (statsOf L mb ?key g fills) (sort ks)" for ks
    proof (induction ks)
      case (Cons k ks)
      have "insort_key bs_bucket (statsOf L mb ?key g fills k) (map (statsOf L mb ?key g fills) xs) = map (statsOf L mb ?key g fills) (insort k xs)" for xs
        by (induction xs) (simp_all add: name)
      then show ?case using Cons by simp
    qed simp
    then show ?thesis unfolding bs entries by simp
  qed
  have names: "map bs_bucket (bd_buckets bd) = sort keys" unfolding stats by (simp add: comp_def name)
  have sorted: "sort keys = sort (remdups (map g fills))"
    using keys by (intro sorted_distinct_set_unique) simp_all
  have d: "distinct (sort keys)" "g ` set fills \<subseteq> set (sort keys)" using keys by simp_all
  have grid: "on_grid 6 (sum_list (map h xs))" if "list_all (\<lambda>f. on_grid 6 (h f)) xs" for h :: "simulated_fill \<Rightarrow> rat" and xs
    using that by (induction xs) (simp_all add: on_grid_add)
  have one: "bs_fills (statsOf L mb ?key g fills b) = (\<Sum>f\<leftarrow>filter (\<lambda>f. g f = b) fills. 1)"
    "dl_of_string L (bs_contracts (statsOf L mb ?key g fills b)) = (\<Sum>f\<leftarrow>filter (\<lambda>f. g f = b) fills. fl_quantity f)"
    "dl_of_string L (bs_fees (statsOf L mb ?key g fills b)) = (\<Sum>f\<leftarrow>filter (\<lambda>f. g f = b) fills. fl_fee f)" for b
    using assms(2) grid [of fl_quantity "filter (\<lambda>f. g f = b) fills"] grid [of fl_fee "filter (\<lambda>f. g f = b) fills"]
    by (simp_all add: statsOf_def bucketStats_def addFills_totals emptyAcc_def sum_list_triv decimal_lib.parse_fixed [OF assms(1)] list_all_iff)
  note totals = sum_over_groups [OF d]
  have "(\<Sum>b\<leftarrow>bd_buckets bd. bs_fills b) = length fills"
    using totals [of "\<lambda>f. 1 :: nat"] unfolding stats by (simp add: comp_def one sum_list_triv)
  moreover have "(\<Sum>b\<leftarrow>bd_buckets bd. dl_of_string L (bs_contracts b)) = (\<Sum>f\<leftarrow>fills. fl_quantity f)"
    using totals [of fl_quantity] unfolding stats by (simp add: comp_def one)
  moreover have "(\<Sum>b\<leftarrow>bd_buckets bd. dl_of_string L (bs_fees b)) = (\<Sum>f\<leftarrow>fills. fl_fee f)"
    using totals [of fl_fee] unfolding stats by (simp add: comp_def one)
  moreover have "bd_buckets bd = map (statsOf L mb ?key g fills) (map bs_bucket (bd_buckets bd))" unfolding names by (rule stats)
  ultimately show ?thesis using g names sorted unfolding mb_def by (intro exI [of _ g] conjI) simp_all
qed

end
