(* ===== verification/RunReport.thy ===== *)
theory RunReport
  imports Breakdowns Lookahead
begin

text \<open>
  The standard report of a run: \<open>src/src/research/metrics/performance.ts\<close>, with the result object of
  \<open>BacktestEngine.run\<close> it reads. The timing block (wall clock, memory, events per second) is left out.
\<close>

record run_result =
  rr_marketTickers :: "string list"
  rr_orders :: "simulated_order list"
  rr_fills :: "simulated_fill list"
  rr_portfolio :: portfolio
  rr_midSeries :: mid_store
  rr_invalidIntervals :: "invalid_interval list"
  rr_settlement :: settlement_report
  rr_equityCurve :: "equity_row list"
  rr_counts :: engine_counts
  rr_firstEventMs :: "int option"
  rr_lastEventMs :: "int option"
  rr_checkpointChecks :: checkpoint_checks

definition runResult :: "('s, 'st) backtest_options \<Rightarrow> settlement_report \<Rightarrow> ('s, 'st) engine \<Rightarrow> run_result" where
  "runResult cfg settlement en =
     \<lparr>rr_marketTickers = hs_marketTickers (bo_source cfg), rr_orders = allOrders (en_exchange en), rr_fills = ex_fills (en_exchange en),
      rr_portfolio = en_portfolio en, rr_midSeries = en_midSeries en, rr_invalidIntervals = en_invalidIntervals en,
      rr_settlement = settlement, rr_equityCurve = en_equityCurve en, rr_counts = en_counts en,
      rr_firstEventMs = en_firstEventMs en, rr_lastEventMs = en_lastEventMs en, rr_checkpointChecks = en_checks en\<rparr>"

record coverage_summary =
  rc_firstEventMs :: "string option"
  rc_lastEventMs :: "string option"
  rc_spanMs :: "string option"
  rc_spanDays :: "string option"
  rc_markets :: nat
  rc_events :: nat
  rc_deltas :: nat
  rc_trades :: nat
  rc_snapshots :: nat
  rc_captureGaps :: nat
  rc_invalidIntervals :: nat

record replay_equality =
  re_compared :: nat
  re_matched :: nat
  re_exact :: bool
  re_skippedInvalidBook :: nat

record resolution_summary =
  rs_settled :: nat
  rs_voided :: nat
  rs_openAtRunEnd :: nat
  rs_awaitingDetermination :: nat
  rs_unpriceable :: nat
  rs_provisional :: nat
  rs_noMarketState :: nat
  rs_basisCounts :: "(settlement_basis, nat) jsmap"

record pnl_summary =
  pl_realizedTradingPnl :: string
  pl_settlementPnl :: string
  pl_unrealizedMarkPnl :: string
  pl_grossPnl :: string
  pl_fees :: string
  pl_feeVerified :: bool
  pl_netPnl :: "string option"
  pl_totalEconomicPnl :: "string option"
  pl_pnlPerDay :: "string option"
  pl_pnlPerMarket :: "string option"
  pl_pnlPerEvent :: "string option"
  pl_maxDrawdown :: string
  pl_finalAbsInventory :: string
  pl_finalPositionsOpen :: nat
  pl_unmarkedPositions :: nat
  pl_unmarkedQuantity :: string
  pl_resolution :: resolution_summary

record inventory_summary =
  iy_meanAbsInventory :: "string option"
  iy_maxAbsInventory :: string
  iy_maxCollateral :: string
  iy_turnoverContracts :: string
  iy_turnoverNotional :: string

record run_summary =
  ru_coverage :: coverage_summary
  ru_replayEquality :: replay_equality
  ru_pnl :: pnl_summary
  ru_inventory :: inventory_summary
  ru_execution :: execution_quality
  ru_markouts :: "markout_summary list"
  ru_adverseSelectionRate :: "string option"
  ru_breakdowns :: "breakdown list"
  ru_midSeriesPoints :: nat

record summary_options =
  so_reference :: "markout_reference option"
  so_horizons :: "int list option"
  so_adverseHorizonMs :: "int option"

definition lastRow :: "run_result \<Rightarrow> equity_row option" where
  "lastRow result = (if rr_equityCurve result = [] then None else Some (last (rr_equityCurve result)))"

definition pnlSummary :: "dec_lib \<Rightarrow> run_result \<Rightarrow> pnl_summary" where
  "pnlSummary L result =
     (let final = lastRow result;
          net = Option.bind final (\<lambda>r. map_option (dl_of_string L) (er_netPnl r));
          gross = map_option (\<lambda>r. dl_of_string L (er_grossPnl r)) final;
          spanMs = (case (rr_firstEventMs result, rr_lastEventMs result) of (Some a, Some b) \<Rightarrow> Some (b - a) | _ \<Rightarrow> None);
          spanDays = map_option (\<lambda>n. ddiv L (of_int n) 86400000) spanMs;
          markets = length (rr_marketTickers result);
          finalAbs = (case final of None \<Rightarrow> 0 | Some r \<Rightarrow> dl_of_string L (er_absInventory r));
          openPositions = length (filter (\<lambda>p. ps_quantity p \<noteq> 0) (allPositions (rr_portfolio result)));
          st = rr_settlement result
      in \<lparr>pl_realizedTradingPnl = dl_fixed L 6 (pf_realized (rr_portfolio result)),
          pl_settlementPnl = dl_fixed L 6 (pf_settlement (rr_portfolio result)),
          pl_unrealizedMarkPnl = (case final of None \<Rightarrow> ''0.000000'' | Some r \<Rightarrow> er_unrealizedMarkPnl r),
          pl_grossPnl = (case gross of None \<Rightarrow> ''0.000000'' | Some g \<Rightarrow> dl_fixed L 6 g),
          pl_fees = dl_fixed L 6 (pf_fees (rr_portfolio result)),
          pl_feeVerified = (case final of None \<Rightarrow> True | Some r \<Rightarrow> er_feeVerified r),
          pl_netPnl = map_option (dl_fixed L 6) net,
          pl_totalEconomicPnl = map_option (dl_fixed L 6) net,
          pl_pnlPerDay = (case (net, spanDays) of
             (Some n, Some d) \<Rightarrow> if d \<le> 0 then None else Some (dl_fixed L 6 (ddiv L n d)) | _ \<Rightarrow> None),
          pl_pnlPerMarket = (case net of None \<Rightarrow> None
             | Some n \<Rightarrow> if markets = 0 then None else Some (dl_fixed L 6 (ddiv L n (of_nat markets)))),
          pl_pnlPerEvent = (case net of None \<Rightarrow> None
             | Some n \<Rightarrow> if ct_events (rr_counts result) = 0 then None
                         else Some (dl_fixed L 10 (ddiv L n (of_nat (ct_events (rr_counts result)))))),
          pl_maxDrawdown = dl_fixed L 6 (pf_maxDrawdownValue (rr_portfolio result)),
          pl_finalAbsInventory = dl_fixed L 6 finalAbs,
          pl_finalPositionsOpen = openPositions,
          pl_unmarkedPositions = (case final of None \<Rightarrow> 0 | Some r \<Rightarrow> er_unmarkedPositions r),
          pl_unmarkedQuantity = (case final of None \<Rightarrow> ''0'' | Some r \<Rightarrow> er_unmarkedQuantity r),
          pl_resolution = \<lparr>rs_settled = st_settled st, rs_voided = st_voided st, rs_openAtRunEnd = st_openAtRunEnd st,
             rs_awaitingDetermination = st_awaitingDetermination st, rs_unpriceable = st_unpriceable st,
             rs_provisional = length (st_provisional st), rs_noMarketState = length (st_noMarketState st),
             rs_basisCounts = st_basisCounts st\<rparr>\<rparr>)"

definition coverageSummary :: "dec_lib \<Rightarrow> run_result \<Rightarrow> coverage_summary" where
  "coverageSummary L result =
     (let spanMs = (case (rr_firstEventMs result, rr_lastEventMs result) of (Some a, Some b) \<Rightarrow> Some (b - a) | _ \<Rightarrow> None);
          counts = rr_counts result
      in \<lparr>rc_firstEventMs = map_option int_str (rr_firstEventMs result), rc_lastEventMs = map_option int_str (rr_lastEventMs result),
          rc_spanMs = map_option int_str spanMs,
          rc_spanDays = map_option (\<lambda>n. dl_fixed L 6 (ddiv L (of_int n) 86400000)) spanMs,
          rc_markets = length (rr_marketTickers result), rc_events = ct_events counts, rc_deltas = ct_deltas counts,
          rc_trades = ct_trades counts, rc_snapshots = ct_snapshots counts, rc_captureGaps = ct_captureGaps counts,
          rc_invalidIntervals = length (rr_invalidIntervals result)\<rparr>)"

definition replayEquality :: "run_result \<Rightarrow> replay_equality" where
  "replayEquality result =
     (let c = rr_checkpointChecks result
      in \<lparr>re_compared = cc_compared c, re_matched = cc_matched c, re_exact = (0 < cc_compared c \<and> cc_compared c = cc_matched c),
          re_skippedInvalidBook = cc_skippedInvalidBook c\<rparr>)"

definition summarizeRun ::
  "dec_lib \<Rightarrow> (rat \<Rightarrow> rat) \<Rightarrow> run_result \<Rightarrow> summary_options \<Rightarrow> metric_error + run_summary \<times> fill_markout list" where
  "summarizeRun L to_number result opts =
     (let reference = (case so_reference opts of None \<Rightarrow> RefMid | Some r \<Rightarrow> r);
          horizons = (case so_horizons opts of None \<Rightarrow> MARKOUT_HORIZONS_MS | Some h \<Rightarrow> h);
          adverseHorizon = (case so_adverseHorizonMs opts of None \<Rightarrow> 1000 | Some h \<Rightarrow> h);
          markouts = computeMarkouts L (rr_fills result) (rr_midSeries result) reference horizons;
          execution = computeExecutionQuality L (rr_orders result) (rr_fills result);
          pf = rr_portfolio result
      in map_sum id (\<lambda>markoutSummary.
           (\<lparr>ru_coverage = coverageSummary L result, ru_replayEquality = replayEquality result, ru_pnl = pnlSummary L result,
             ru_inventory = \<lparr>iy_meanAbsInventory = map_option (dl_fixed L 6)
                 (meanAbsInventory L (rr_firstEventMs result) (rr_lastEventMs result) pf),
               iy_maxAbsInventory = dl_fixed L 6 (pf_maxAbsInventory pf), iy_maxCollateral = dl_fixed L 6 (pf_maxCollateral pf),
               iy_turnoverContracts = xq_contractVolume execution, iy_turnoverNotional = xq_notional execution\<rparr>,
             ru_execution = execution, ru_markouts = markoutSummary,
             ru_adverseSelectionRate = Option.bind (find (\<lambda>m. mz_horizonMs m = adverseHorizon) markoutSummary) mz_adverseRate,
             ru_breakdowns = computeBreakdowns L to_number (rr_fills result) markouts adverseHorizon,
             ru_midSeriesPoints = totalPoints (rr_midSeries result)\<rparr>, markouts))
           (summarizeMarkouts L markouts horizons))"

section \<open>Counting orders by their fills\<close>

lemma quality_counts:
  assumes d: "distinct (map wo_orderId orders)" and sub: "fl_orderId ` set fills \<subseteq> wo_orderId ` set orders"
  shows "xq_ordersFilled (computeExecutionQuality L orders fills) =
      int (length (filter (\<lambda>o1. wo_orderId o1 \<in> fl_orderId ` set fills \<and> wo_quantity o1 \<le> wo_filledQuantity o1) orders))"
    and "xq_ordersPartiallyFilled (computeExecutionQuality L orders fills) =
      int (length (filter (\<lambda>o1. wo_orderId o1 \<in> fl_orderId ` set fills \<and> wo_filledQuantity o1 < wo_quantity o1) orders))"
proof -
  define ids where "ids = foldl (\<lambda>s f. set_add (fl_orderId f) s) [] fills"
  have ids: "distinct ids \<and> set ids = fl_orderId ` set fills"
    unfolding ids_def by (induction fills rule: rev_induct) auto
  let ?has = "\<lambda>o1. wo_orderId o1 \<in> fl_orderId ` set fills" and ?full = "\<lambda>o1. wo_quantity o1 \<le> wo_filledQuantity o1"
  have full: "foldl (\<lambda>n o1. if wo_orderId o1 \<notin> set ids then n else if wo_quantity o1 \<le> wo_filledQuantity o1 then n + 1 else n) k os =
      k + length (filter (\<lambda>o1. ?has o1 \<and> ?full o1) os)" for k :: nat and os
    using ids by (induction os arbitrary: k) simp_all
  have "set ids = set (map wo_orderId (filter ?has orders))" unfolding set_map set_filter using ids sub by blast
  moreover have "distinct (map wo_orderId (filter ?has orders))" using d by (simp add: distinct_map_filter)
  ultimately have n: "length ids = length (filter ?has orders)" using ids by (metis distinct_card length_map)
  have split: "length (filter ?has orders) = length (filter (\<lambda>o1. ?has o1 \<and> ?full o1) orders) + length (filter (\<lambda>o1. ?has o1 \<and> \<not> ?full o1) orders)"
    by (induction orders) simp_all
  show "xq_ordersFilled (computeExecutionQuality L orders fills) = int (length (filter (\<lambda>o1. ?has o1 \<and> ?full o1) orders))"
    unfolding computeExecutionQuality_def Let_def execution_quality.simps ids_def [symmetric] full by simp
  show "xq_ordersPartiallyFilled (computeExecutionQuality L orders fills) =
      int (length (filter (\<lambda>o1. ?has o1 \<and> wo_filledQuantity o1 < wo_quantity o1) orders))"
    unfolding computeExecutionQuality_def Let_def execution_quality.simps ids_def [symmetric] full n split by (simp add: not_le)
qed

lemma quality_fills:
  "xq_makerFills (computeExecutionQuality L orders fills) + xq_takerFills (computeExecutionQuality L orders fills) = length fills"
  "sum_list (map snd (xq_fillReasons (computeExecutionQuality L orders fills))) = length fills"
  unfolding computeExecutionQuality_def Let_def execution_quality.simps
  using fillTally_counts(1) fillTally_reasons by simp_all

text \<open>In an exchange the fills tell which orders were filled, and how far.\<close>

lemma has_fills:
  assumes "list_all (\<lambda>f. 0 < fl_quantity f) fills"
  shows "oid \<in> fl_orderId ` set fills \<longleftrightarrow> 0 < filledFor oid fills"
proof -
  have "0 \<le> filledFor oid fills \<and> (oid \<in> fl_orderId ` set fills \<longleftrightarrow> 0 < filledFor oid fills)"
    using assms by (induction fills) (auto simp: filledFor_def)
  then show ?thesis by blast
qed

lemma acct_entries:
  assumes a: "acct T {} ex" and e: "(oid, o1) \<in> set (ex_orders ex)"
  shows "wo_orderId o1 = oid" and "wo_filledQuantity o1 = filledFor oid (ex_fills ex)" and "wo_filledQuantity o1 \<le> wo_quantity o1"
proof -
  have "js_map_ok (ex_orders ex)" using a unfolding acct_def by blast
  then have "orderOf ex oid = Some o1" using e unfolding orderOf_def by (rule iffD1 [OF js_entry_get])
  then have "entry_ok T (oid \<in> {}) oid o1 ex" by (rule acct_entry [OF a])
  then have "wo_orderId o1 = oid \<and> wo_filledQuantity o1 = filledFor oid (ex_fills ex) \<and> order_ok T o1"
    unfolding entry_ok_def by blast
  moreover from this have "wo_filledQuantity o1 \<le> wo_quantity o1" unfolding order_ok_def by blast
  ultimately show "wo_orderId o1 = oid" "wo_filledQuantity o1 = filledFor oid (ex_fills ex)" "wo_filledQuantity o1 \<le> wo_quantity o1"
    by blast+
qed

lemma acct_entry_of:
  assumes "o1 \<in> set (allOrders ex)"
  obtains oid where "(oid, o1) \<in> set (ex_orders ex)"
  using assms unfolding allOrders_def set_sort set_map by force

lemma acct_distinct:
  assumes a: "acct T {} ex"
  shows "distinct (map wo_orderId (allOrders ex))"
proof -
  have ok: "js_map_ok (ex_orders ex)" using a unfolding acct_def by blast
  have "map wo_orderId (map snd (ex_orders ex)) = js_keys (ex_orders ex)"
    unfolding map_map by (rule map_cong [OF refl]) (use acct_entries(1) [OF a] in \<open>force\<close>)
  then have d: "distinct (map wo_orderId (map snd (ex_orders ex)))" using ok by (simp only:)
  have "mset (map wo_orderId (allOrders ex)) = mset (map wo_orderId (map snd (ex_orders ex)))"
    unfolding allOrders_def mset_map mset_sort by (rule refl)
  then show ?thesis using d mset_eq_imp_distinct_iff by blast
qed

lemma acct_filled_ids:
  assumes a: "acct T {} ex"
  shows "fl_orderId ` set (ex_fills ex) \<subseteq> wo_orderId ` set (allOrders ex)"
proof
  fix x assume "x \<in> fl_orderId ` set (ex_fills ex)"
  then obtain f where f: "f \<in> set (ex_fills ex)" "x = fl_orderId f" by blast
  obtain o1 where o1: "orderOf ex x = Some o1" using acct_fill [OF a f(1)] f(2) by blast
  have ok: "js_map_ok (ex_orders ex)" using a unfolding acct_def by blast
  have "(x, o1) \<in> set (ex_orders ex)" using o1 unfolding orderOf_def by (rule iffD2 [OF js_entry_get [OF ok]])
  then have "o1 \<in> set (allOrders ex)" unfolding allOrders_def set_sort set_map by force
  then show "x \<in> wo_orderId ` set (allOrders ex)" using acct_id [OF a o1] by blast
qed

lemma acct_fills_positive:
  assumes a: "acct T {} ex"
  shows "list_all (\<lambda>f. 0 < fl_quantity f) (ex_fills ex)"
  unfolding list_all_iff
proof
  fix f assume "f \<in> set (ex_fills ex)"
  then obtain o1 where "fill_fits f o1" using acct_fill [OF a] by blast
  then show "0 < fl_quantity f" unfolding fill_fits_def by blast
qed

lemma exchange_counts:
  assumes a: "acct T {} ex"
  shows "xq_ordersFilled (computeExecutionQuality L (allOrders ex) (ex_fills ex)) =
      int (length (filter (\<lambda>o1. 0 < wo_filledQuantity o1 \<and> wo_filledQuantity o1 = wo_quantity o1) (allOrders ex)))"
    and "xq_ordersPartiallyFilled (computeExecutionQuality L (allOrders ex) (ex_fills ex)) =
      int (length (filter (\<lambda>o1. 0 < wo_filledQuantity o1 \<and> wo_filledQuantity o1 < wo_quantity o1) (allOrders ex)))"
proof -
  have has: "wo_orderId o1 \<in> fl_orderId ` set (ex_fills ex) \<longleftrightarrow> 0 < wo_filledQuantity o1"
    and le: "wo_filledQuantity o1 \<le> wo_quantity o1" if m: "o1 \<in> set (allOrders ex)" for o1
  proof -
    obtain oid where e: "(oid, o1) \<in> set (ex_orders ex)" by (rule acct_entry_of [OF m])
    show "wo_orderId o1 \<in> fl_orderId ` set (ex_fills ex) \<longleftrightarrow> 0 < wo_filledQuantity o1"
      unfolding acct_entries(1,2) [OF a e] by (rule has_fills [OF acct_fills_positive [OF a]])
    show "wo_filledQuantity o1 \<le> wo_quantity o1" by (rule acct_entries(3) [OF a e])
  qed
  have "filter (\<lambda>o1. wo_orderId o1 \<in> fl_orderId ` set (ex_fills ex) \<and> wo_quantity o1 \<le> wo_filledQuantity o1) (allOrders ex) =
      filter (\<lambda>o1. 0 < wo_filledQuantity o1 \<and> wo_filledQuantity o1 = wo_quantity o1) (allOrders ex)"
    by (rule filter_cong [OF refl]) (use has le in \<open>metis order.antisym order.refl\<close>)
  then show "xq_ordersFilled (computeExecutionQuality L (allOrders ex) (ex_fills ex)) =
      int (length (filter (\<lambda>o1. 0 < wo_filledQuantity o1 \<and> wo_filledQuantity o1 = wo_quantity o1) (allOrders ex)))"
    unfolding quality_counts(1) [OF acct_distinct [OF a] acct_filled_ids [OF a]] by (rule arg_cong)
  have "filter (\<lambda>o1. wo_orderId o1 \<in> fl_orderId ` set (ex_fills ex) \<and> wo_filledQuantity o1 < wo_quantity o1) (allOrders ex) =
      filter (\<lambda>o1. 0 < wo_filledQuantity o1 \<and> wo_filledQuantity o1 < wo_quantity o1) (allOrders ex)"
    by (rule filter_cong [OF refl]) (use has in blast)
  then show "xq_ordersPartiallyFilled (computeExecutionQuality L (allOrders ex) (ex_fills ex)) =
      int (length (filter (\<lambda>o1. 0 < wo_filledQuantity o1 \<and> wo_filledQuantity o1 < wo_quantity o1) (allOrders ex)))"
    unfolding quality_counts(2) [OF acct_distinct [OF a] acct_filled_ids [OF a]] by (rule arg_cong)
qed

section \<open>What settlement leaves to the report\<close>

definition fees_of :: "portfolio \<Rightarrow> nat \<times> rat" where
  "fees_of pf = (pf_unknownFeeFills pf, pf_fees pf)"

lemma fees_frame [simp]:
  "fees_of (settle ticker payout pf) = fees_of pf" "fees_of (voidMarket ticker pf) = fees_of pf"
  "fees_of (resolveAs ticker r pf) = fees_of pf" "fees_of (mark t ms pf) = fees_of pf"
  by (simp_all add: fees_of_def settle_def voidMarket_def resolveAs_def mark_def putPosition_def Let_def split: option.split sum.split prod.split)

lemma settleStep_fees: "fees_of (en_portfolio (snd (settleStep cfg acc pos))) = fees_of (en_portfolio (snd acc))"
proof (cases acc)
  case (Pair report en)
  then show ?thesis using fees_frame by (auto simp: settleStep_def unsettled_def Let_def split: option.split)
qed

lemma settle_fold_fees: "fees_of (en_portfolio (snd (foldl (settleStep cfg) acc ps))) = fees_of (en_portfolio (snd acc))"
  by (induction ps arbitrary: acc) (simp_all add: settleStep_fees)

text \<open>After settlement the last row of the equity curve is of the settled portfolio.\<close>

lemma settled_run:
  assumes "applySettlement cfg (Some t) en = (report, en')"
  shows "fees_of (en_portfolio en') = fees_of (en_portfolio en)" and "en_exchange en' = en_exchange en"
    and "\<exists>ms. lastRow (runResult cfg r en') = Some (equityRow (bo_dec cfg) t ms (en_portfolio en'))"
proof -
  define en1 where "en1 = snd (foldl (settleStep cfg) (newReport, en) (allPositions (en_portfolio en)))"
  have en': "en' = markEngine cfg t en1"
    using assms by (auto simp: applySettlement_def en1_def split: prod.splits)
  have "fees_of (en_portfolio en1) = fees_of (en_portfolio en)" unfolding en1_def settle_fold_fees by simp
  then show "fees_of (en_portfolio en') = fees_of (en_portfolio en)"
    using fees_frame(4) [of t "marksOf cfg en1" "en_portfolio en1"] by (simp add: en' markEngine_def Let_def)
  show "en_exchange en' = en_exchange en" using applySettlement_frame [OF assms] by auto
  show "\<exists>ms. lastRow (runResult cfg r en') = Some (equityRow (bo_dec cfg) t ms (en_portfolio en'))"
    by (simp add: en' markEngine_def Let_def lastRow_def runResult_def) blast
qed

section \<open>The report of a backtest\<close>

lemma runTrading_arrived:
  assumes run: "runTrading cfg en = Some (Inr en')" and ok: "\<And>ev. ev \<in> set (hs_events (bo_source cfg)) \<Longrightarrow> event_ok ev"
    and some: "hs_events (bo_source cfg) \<noteq> []"
  shows "en_lastEventMs en' \<noteq> None"
proof -
  let ?en = "loadRun cfg en"
  obtain en1 en2 en3 where r: "eventLoop cfg (hs_events (bo_source cfg)) en1 = Some (Inr en2)"
    "(case en_lastEventMs en2 of None \<Rightarrow> Some (Inr en2)
      | Some lastMs \<Rightarrow> bindR (drainTimersBefore cfg (lastMs + 1) en2) (\<lambda>en. Some (finishRun cfg lastMs en))) = Some (Inr en3)"
    "runCallback cfg (sg_onStop (bo_strategy cfg) (en_strategy en3)) en3 = Inr en'"
    using run by (auto simp: runTrading_def Let_def bindR_Inr)
  obtain ev evs where evs: "hs_events (bo_source cfg) = ev # evs" using some by (meson neq_Nil_conv)
  have a: "arrived ([], en2)" by (rule eventLoop_arrived [OF r(1) [unfolded evs]]) (use ok evs in simp)
  then obtain t where "en_lastEventMs en2 = Some t" by (auto simp: arrived_def)
  then have "engine_steps cfg ([], en2) ([], en3)"
    using r(2) drain_steps finishRun_steps by (fastforce simp: bindR_Inr intro: rtranclp_trans)
  then have "engine_steps cfg ([], en2) ([], en')" using once_steps [OF runCallback_once [OF r(3)]] by (rule rtranclp_trans)
  then show ?thesis using arrival.reached [of cfg "([], en2)" "([], en')"] a by (simp add: arrived_def)
qed

lemma backtest_ends:
  assumes ok: "options_ok cfg" and run: "runBacktest cfg feeState st = Some (Inr (report, en))" and some: "hs_events (bo_source cfg) \<noteq> []"
  shows "\<exists>t ms. lastRow (runResult cfg report en) = Some (equityRow (bo_dec cfg) t ms (en_portfolio en))"
    and "pf_unknownFeeFills (en_portfolio en) = unknownFees (ex_fills (en_exchange en))"
    and "pf_fees (en_portfolio en) = (\<Sum>f\<leftarrow>ex_fills (en_exchange en). fl_fee f)"
    and "acct (nowOf en) {} (en_exchange en)"
proof -
  obtain en0 where r: "runTrading cfg (newEngine cfg feeState st) = Some (Inr en0)"
    and s: "applySettlement cfg (en_lastEventMs en0) en0 = (report, en)"
    using runBacktest_trading [OF run] by blast
  obtain t where t: "en_lastEventMs en0 = Some t" using runTrading_arrived [OF r options_events [OF ok] some] by auto
  note settled = settled_run [OF s [unfolded t]]
  have "booked ([], en0)"
    using books.run_ends_with [OF r options_events [OF ok] engine_sound_new [OF ok] booked_new] by simp
  then have "fees_of (en_portfolio en0) = (unknownFees (ex_fills (en_exchange en0)), \<Sum>f\<leftarrow>ex_fills (en_exchange en0). fl_fee f)"
    by (auto simp: booked_def holds_fills_def fees_of_def)
  then show "pf_unknownFeeFills (en_portfolio en) = unknownFees (ex_fills (en_exchange en))"
    and "pf_fees (en_portfolio en) = (\<Sum>f\<leftarrow>ex_fills (en_exchange en). fl_fee f)"
    using settled(1,2) by (simp_all add: fees_of_def)
  show "\<exists>t ms. lastRow (runResult cfg report en) = Some (equityRow (bo_dec cfg) t ms (en_portfolio en))"
    using settled(3) by blast
  have "engine_sound cfg ([], en)" by (rule runBacktest_sound [OF ok run])
  then show "acct (nowOf en) {} (en_exchange en)" by (auto simp: engine_sound_def exchange_ok_def)
qed

text \<open>
  C36: The report of a backtest tells what the run did. It is always produced, with one markout per fill; a net
  profit is given exactly when the fee of every fill was known, and without one nothing per day, market or event is either; the
  fees of the portfolio are those of the fills, and the orders counted filled and partially filled are exactly the orders that were.
\<close>

theorem report_tells_the_run:
  assumes "decimal_lib (bo_dec cfg)" "latency_model (bo_latency cfg)"
    and "list_all fill_model (bo_fillModel cfg # bo_counterfactualFillModels cfg)" "list_all event_ok (hs_events (bo_source cfg))"
    and "runBacktest cfg feeState st = Some (Inr (report, en))" "hs_events (bo_source cfg) \<noteq> []"
  shows "\<exists>s mos. summarizeRun (bo_dec cfg) to_number (runResult cfg report en) opts = Inr (s, mos) \<and>
    map mo_fillId mos = map fl_fillId (ex_fills (en_exchange en)) \<and>
    (pl_netPnl (ru_pnl s) \<noteq> None) = list_all fl_feeKnown (ex_fills (en_exchange en)) \<and>
    (pl_netPnl (ru_pnl s) \<noteq> None \<or> pl_pnlPerDay (ru_pnl s) = None \<and> pl_pnlPerMarket (ru_pnl s) = None \<and> pl_pnlPerEvent (ru_pnl s) = None) \<and>
    pl_fees (ru_pnl s) = xq_fees (ru_execution s) \<and>
    xq_makerFills (ru_execution s) + xq_takerFills (ru_execution s) = length (ex_fills (en_exchange en)) \<and>
    xq_ordersFilled (ru_execution s) =
      int (length (filter (\<lambda>o1. 0 < wo_filledQuantity o1 \<and> wo_filledQuantity o1 = wo_quantity o1) (allOrders (en_exchange en)))) \<and>
    xq_ordersPartiallyFilled (ru_execution s) =
      int (length (filter (\<lambda>o1. 0 < wo_filledQuantity o1 \<and> wo_filledQuantity o1 < wo_quantity o1) (allOrders (en_exchange en))))"
proof -
  note ends = backtest_ends [OF options_okI [OF assms(1-4)] assms(5,6)]
  define result where "result = runResult cfg report en"
  have result: "rr_fills result = ex_fills (en_exchange en)" "rr_orders result = allOrders (en_exchange en)"
    "rr_portfolio result = en_portfolio en" by (simp_all add: result_def runResult_def)
  obtain t ms where row: "lastRow result = Some (equityRow (bo_dec cfg) t ms (en_portfolio en))" using ends(1) unfolding result_def by blast
  have net: "(pl_netPnl (pnlSummary (bo_dec cfg) result) \<noteq> None) = list_all fl_feeKnown (ex_fills (en_exchange en))"
    and per: "pl_netPnl (pnlSummary (bo_dec cfg) result) \<noteq> None \<or> pl_pnlPerDay (pnlSummary (bo_dec cfg) result) = None \<and>
      pl_pnlPerMarket (pnlSummary (bo_dec cfg) result) = None \<and> pl_pnlPerEvent (pnlSummary (bo_dec cfg) result) = None"
    using ends(2) by (simp_all add: pnlSummary_def row Let_def equityRow_def unknownFees_def filter_empty_conv list_all_iff)
  have fees: "pl_fees (pnlSummary (bo_dec cfg) result) = xq_fees (computeExecutionQuality (bo_dec cfg) (rr_orders result) (rr_fills result))"
    using ends(3) by (simp add: pnlSummary_def Let_def computeExecutionQuality_def fillTally_counts(3) result)
  have ids: "map mo_fillId (computeMarkouts L fs series r hs) = map fl_fillId fs" for L fs series r hs
    by (simp add: computeMarkouts_def fillMarkout_def comp_def Let_def split: prod.split)
  show ?thesis
    unfolding summarizeRun_def Let_def result_def [symmetric] summarizeMarkouts_all [OF assms(1) subset_refl] map_sum.simps
    by (rule exI, rule exI, rule conjI, rule refl)
      (insert net per fees exchange_counts [OF ends(4)] quality_fills(1), simp add: result ids)
qed

end
