(* ===== verification/MetricsWitness.thy ===== *)
theory MetricsWitness
  imports RunReport EngineWitness
begin

text \<open>The reports of a run on concrete inputs: one fill, a mid known at the fill and fifty milliseconds later.\<close>

definition wit_mids :: mid_store where
  "wit_mids = [(''M'', mdRun [MdRecord 0 (Some (1 / 2)) None, MdObserve 60])]"

lemma wit_half: "toMicros (Some (1 / 2)) = Some 500000" "ddiv std_dlib 500000 1000000 = 1 / 2"
proof -
  have "math_round (500000 :: rat) = 500000" by (simp add: math_round_def floor_eq_iff)
  then show "toMicros (Some (1 / 2)) = Some 500000" by (simp add: toMicros_def MICROS_def)
  have "sig34 (1 / 2 :: rat)" using sig34_scaled [of 5 1] by simp
  then show "ddiv std_dlib 500000 1000000 = 1 / 2" using std.ddiv_exact [of 500000 1000000] by simp
qed

lemma wit_price: "priceAt std_dlib wit_mids RefMid (wit_fill Buy 4 (2 / 5)) 0 = Some (1 / 2)"
  "priceAt std_dlib wit_mids RefMid (wit_fill Buy 4 (2 / 5)) 50 = Some (1 / 2)"
  by (simp_all add: priceAt_def wit_mids_def seriesGet_def wit_fill_def referenceAt_def mdRun_def
      newMidSeries_def midAt_def indexAt_def searchLoop.simps fromMicros_def MICROS_def wit_half Let_def
      recordMidPoint_def observe_def)

lemma wit_grid: "on_grid 6 (1 / 2)" "on_grid 6 (2 / 5)" "on_grid 6 (1 / 10)" "on_grid 6 4"
  unfolding on_grid_iff
  by (rule exI [of _ 500000], simp, rule exI [of _ 400000], simp, rule exI [of _ 100000], simp, rule exI [of _ 4000000], simp)

theorem markout_decomposes_witness:
  "map_option (dl_of_string std_dlib)
     (figure (mo_markouts (fillMarkout std_dlib wit_mids RefMid [50] (wit_fill Buy 4 (2 / 5)))) (int_str 50)) = Some (1 / 10) \<and>
   map_option (dl_of_string std_dlib) (mo_spreadCapture (fillMarkout std_dlib wit_mids RefMid [50] (wit_fill Buy 4 (2 / 5)))) = Some (1 / 10)"
proof -
  let ?f = "wit_fill Buy 4 (2 / 5)"
  have p: "priceAt std_dlib wit_mids RefMid ?f (fl_filledAtMs ?f) = Some (1 / 2)"
    "priceAt std_dlib wit_mids RefMid ?f (fl_filledAtMs ?f + 50) = Some (1 / 2)"
    using wit_price by (simp_all add: wit_fill_def)
  have v: "round_dp 6 (favour ?f (1 / 2 - fl_yesPrice ?f)) = 1 / 10"
    using wit_grid(3) by (simp add: favour_def wit_fill_def)
  have h: "50 \<in> set [50 :: int]" by simp
  show ?thesis
    using markout_decomposes [OF std.decimal_lib_axioms h p(1) [symmetric] p(2) [symmetric] refl] v by simp
qed

theorem markout_summary_imputes_nothing_witness:
  "\<exists>ss. summarizeMarkouts std_dlib (computeMarkouts std_dlib [wit_fill Buy 4 (2 / 5)] wit_mids RefMid [50, 100]) [50, 100] = Inr ss \<and>
     map mz_horizonMs ss = [50, 100] \<and> list_all (summary_ok std_dlib wit_mids RefMid [wit_fill Buy 4 (2 / 5)]) ss"
  by (rule markout_summary_imputes_nothing [OF std.decimal_lib_axioms])

theorem breakdowns_partition_fills_witness:
  "\<exists>bd. bd \<in> set (computeBreakdowns std_dlib (\<lambda>x. x) [wit_fill Buy 4 (2 / 5), wit_fill Sell 6 (1 / 2)] [] 1000) \<and>
     (\<Sum>b\<leftarrow>bd_buckets bd. bs_fills b) = 2 \<and> (\<Sum>b\<leftarrow>bd_buckets bd. dl_of_string std_dlib (bs_contracts b)) = 10"
proof -
  let ?fills = "[wit_fill Buy 4 (2 / 5), wit_fill Sell 6 (1 / 2)]"
  let ?bds = "computeBreakdowns std_dlib (\<lambda>x. x) ?fills [] 1000"
  have "on_grid 6 6" unfolding on_grid_iff by (rule exI [of _ 6000000]) simp
  then have g: "list_all (\<lambda>f. on_grid 6 (fl_quantity f) \<and> on_grid 6 (fl_fee f)) ?fills"
    using wit_grid by (simp add: wit_fill_def)
  have "?bds \<noteq> []" by (simp add: computeBreakdowns_def dimensions_def Let_def)
  then have m: "hd ?bds \<in> set ?bds" by simp
  have "(\<Sum>b\<leftarrow>bd_buckets (hd ?bds). bs_fills b) = 2" "(\<Sum>b\<leftarrow>bd_buckets (hd ?bds). dl_of_string std_dlib (bs_contracts b)) = 10"
    using breakdowns_partition_fills [OF std.decimal_lib_axioms g m] by (auto simp: wit_fill_def)
  then show ?thesis using m by blast
qed

theorem report_tells_the_run_witness:
  "\<exists>report en s mos. runBacktest (wit_backtest zeroFeeModel) () newQuoting = Some (Inr (report, en)) \<and>
     summarizeRun std_dlib (\<lambda>x. x) (runResult (wit_backtest zeroFeeModel) report en)
       \<lparr>so_reference = None, so_horizons = None, so_adverseHorizonMs = None\<rparr> = Inr (s, mos) \<and>
     xq_makerFills (ru_execution s) + xq_takerFills (ru_execution s) = length (ex_fills (en_exchange en))"
proof -
  let ?cfg = "wit_backtest zeroFeeModel"
  obtain en0 where "runTrading ?cfg (newEngine ?cfg () newQuoting) = Some (Inr en0)" using wit_trades [of zeroFeeModel "()" newQuoting] by blast
  then obtain report en where r: "runBacktest ?cfg () newQuoting = Some (Inr (report, en))"
    by (cases "applySettlement ?cfg (en_lastEventMs en0) en0") (auto simp: runBacktest_def bindR_def)
  have some: "hs_events (bo_source ?cfg) \<noteq> []" and dec: "bo_dec ?cfg = std_dlib" by (simp_all add: wit_backtest_def wit_source_def)
  show ?thesis using report_tells_the_run [OF wit_laws r some, unfolded dec] r by blast
qed

end
