(* ===== verification/Wire.thy ===== *)
theory Wire
  imports Rows Ladder "HOL-Library.Monad_Syntax"
begin

text \<open>
  What arrives on the socket: the message schemas of \<open>src/src/kalshi/schemas.ts\<close>, the raw event of
  \<open>src/src/collector/messageRouter.ts\<close> and the frame of \<open>src/src/kalshi/websocketClient.ts\<close>.

  A JSON value is a datatype; a schema is a parser from JSON to an option, \<open>None\<close> being the error the schema library throws. An
  object keeps its members in order, with distinct names. The numbers of a frame are finite. \<open>sid\<close> and \<open>id\<close>, which the
  server counts up, are integers; \<open>seq\<close> is any number, because the code turns it into a \<open>bigint\<close>, which throws when it is not one.
\<close>

section \<open>JSON and the schema combinators\<close>

datatype json = JNull | JBool bool | JNum rat | JStr string | JArr "json list" | JObj "(string \<times> json) list"

definition member :: "string \<Rightarrow> json \<Rightarrow> json option" where
  "member key v = (case v of JObj kvs \<Rightarrow> map_of kvs key | _ \<Rightarrow> None)"

fun pString :: "json \<Rightarrow> string option" where
  "pString (JStr s) = Some s"
| "pString _ = None"

fun pNumber :: "json \<Rightarrow> rat option" where
  "pNumber (JNum x) = Some x"
| "pNumber _ = None"

fun pBool :: "json \<Rightarrow> bool option" where
  "pBool (JBool b) = Some b"
| "pBool _ = None"

definition pInteger :: "json \<Rightarrow> int option" where
  "pInteger v = Option.bind (pNumber v) (\<lambda>x. if x = of_int \<lfloor>x\<rfloor> then Some \<lfloor>x\<rfloor> else None)"

definition pRecord :: "json \<Rightarrow> json option" where
  "pRecord v = (case v of JObj _ \<Rightarrow> Some v | _ \<Rightarrow> None)"

definition pArray :: "(json \<Rightarrow> 'a option) \<Rightarrow> json \<Rightarrow> 'a list option" where
  "pArray p v = (case v of JArr vs \<Rightarrow> those (map p vs) | _ \<Rightarrow> None)"

definition required :: "(json \<Rightarrow> 'a option) \<Rightarrow> string \<Rightarrow> json \<Rightarrow> 'a option" where
  "required p key v = Option.bind (member key v) p"

definition nullish :: "(json \<Rightarrow> 'a option) \<Rightarrow> string \<Rightarrow> json \<Rightarrow> 'a option option" where
  "nullish p key v =
     (case member key v of None \<Rightarrow> Some None | Some JNull \<Rightarrow> Some None | Some w \<Rightarrow> map_option Some (p w))"

text \<open>The regular expression \<open>^-?\d+(\.\d+)?$\<close>.\<close>

definition digits :: "string \<Rightarrow> bool" where
  "digits s \<longleftrightarrow> s \<noteq> [] \<and> list_all (\<lambda>c. c \<in> set digit_alphabet) s"

definition plainDecimal :: "string \<Rightarrow> bool" where
  "plainDecimal s =
     (let t = (case s of [] \<Rightarrow> [] | c # cs \<Rightarrow> if c = CHR ''-'' then cs else s);
          whole = takeWhile (\<lambda>c. c \<noteq> CHR ''.'') t; rest = dropWhile (\<lambda>c. c \<noteq> CHR ''.'') t
      in digits whole \<and> (rest = [] \<or> digits (tl rest)))"

definition DecimalString :: "json \<Rightarrow> string option" where
  "DecimalString v = Option.bind (pString v) (\<lambda>s. if plainDecimal s then Some s else None)"

definition numberOrDecimal :: "json \<Rightarrow> json option" where
  "numberOrDecimal v = (if pNumber v \<noteq> None \<or> DecimalString v \<noteq> None then Some v else None)"

definition pEnum :: "(string \<times> 'a) list \<Rightarrow> json \<Rightarrow> 'a option" where
  "pEnum table v = Option.bind (pString v) (map_of table)"

definition MarketSide :: "json \<Rightarrow> book_side option" where
  "MarketSide = pEnum [(''yes'', Yes), (''no'', No)]"

definition BookSide :: "json \<Rightarrow> ladder_side option" where
  "BookSide = pEnum [(''bid'', Bid), (''ask'', Ask)]"

definition PriceLevel :: "json \<Rightarrow> (string \<times> string) option" where
  "PriceLevel v =
     (case v of JArr [p, q] \<Rightarrow> do { p' \<leftarrow> DecimalString p; q' \<leftarrow> DecimalString q; Some (p', q') } | _ \<Rightarrow> None)"

section \<open>Messages\<close>

record orderbook_snapshot_msg =
  sn_market_ticker :: string
  sn_market_id :: "string option"
  sn_yes_dollars_fp :: "(string \<times> string) list option"
  sn_no_dollars_fp :: "(string \<times> string) list option"

definition OrderbookSnapshotMsg :: "json \<Rightarrow> orderbook_snapshot_msg option" where
  "OrderbookSnapshotMsg v =
     do { _ \<leftarrow> pRecord v; t \<leftarrow> required pString ''market_ticker'' v; i \<leftarrow> nullish pString ''market_id'' v;
          y \<leftarrow> nullish (pArray PriceLevel) ''yes_dollars_fp'' v; n \<leftarrow> nullish (pArray PriceLevel) ''no_dollars_fp'' v;
          Some \<lparr>sn_market_ticker = t, sn_market_id = i, sn_yes_dollars_fp = y, sn_no_dollars_fp = n\<rparr> }"

record orderbook_delta_msg =
  dm_market_ticker :: string
  dm_market_id :: "string option"
  dm_price_dollars :: string
  dm_delta_fp :: string
  dm_side :: book_side

definition OrderbookDeltaMsg :: "json \<Rightarrow> orderbook_delta_msg option" where
  "OrderbookDeltaMsg v =
     do { _ \<leftarrow> pRecord v; t \<leftarrow> required pString ''market_ticker'' v; i \<leftarrow> nullish pString ''market_id'' v;
          p \<leftarrow> required DecimalString ''price_dollars'' v; d \<leftarrow> required DecimalString ''delta_fp'' v; s \<leftarrow> required MarketSide ''side'' v;
          _ \<leftarrow> nullish pString ''client_order_id'' v; _ \<leftarrow> nullish pNumber ''subaccount'' v;
          _ \<leftarrow> nullish pString ''ts'' v; _ \<leftarrow> nullish pNumber ''ts_ms'' v;
          Some \<lparr>dm_market_ticker = t, dm_market_id = i, dm_price_dollars = p, dm_delta_fp = d, dm_side = s\<rparr> }"

record trade_msg =
  tm_trade_id :: string
  tm_market_ticker :: string
  tm_yes_price_dollars :: string
  tm_no_price_dollars :: string
  tm_count_fp :: string
  tm_taker_side :: "book_side option"
  tm_taker_outcome_side :: "book_side option"
  tm_taker_book_side :: "ladder_side option"
  tm_is_block_trade :: "bool option"

definition TradeMsg :: "json \<Rightarrow> trade_msg option" where
  "TradeMsg v =
     do { _ \<leftarrow> pRecord v; i \<leftarrow> required pString ''trade_id'' v; t \<leftarrow> required pString ''market_ticker'' v; _ \<leftarrow> nullish pString ''market_id'' v;
          y \<leftarrow> required DecimalString ''yes_price_dollars'' v; n \<leftarrow> required DecimalString ''no_price_dollars'' v;
          c \<leftarrow> required DecimalString ''count_fp'' v; ts \<leftarrow> nullish MarketSide ''taker_side'' v;
          tos \<leftarrow> nullish MarketSide ''taker_outcome_side'' v; tbs \<leftarrow> nullish BookSide ''taker_book_side'' v;
          b \<leftarrow> nullish pBool ''is_block_trade'' v; _ \<leftarrow> nullish pNumber ''ts'' v; _ \<leftarrow> nullish pNumber ''ts_ms'' v;
          Some \<lparr>tm_trade_id = i, tm_market_ticker = t, tm_yes_price_dollars = y, tm_no_price_dollars = n, tm_count_fp = c,
                tm_taker_side = ts, tm_taker_outcome_side = tos, tm_taker_book_side = tbs, tm_is_block_trade = b\<rparr> }"

record ticker_msg =
  tk_market_ticker :: string
  tk_market_id :: "string option"
  tk_price_dollars :: "string option"
  tk_yes_bid_dollars :: "string option"
  tk_yes_ask_dollars :: "string option"
  tk_yes_bid_size_fp :: "string option"
  tk_yes_ask_size_fp :: "string option"
  tk_last_trade_size_fp :: "string option"
  tk_volume_fp :: "string option"
  tk_open_interest_fp :: "string option"
  tk_dollar_volume :: "json option"
  tk_dollar_open_interest :: "json option"

definition TickerMsg :: "json \<Rightarrow> ticker_msg option" where
  "TickerMsg v =
     do { _ \<leftarrow> pRecord v; t \<leftarrow> required pString ''market_ticker'' v; i \<leftarrow> nullish pString ''market_id'' v;
          p \<leftarrow> nullish DecimalString ''price_dollars'' v; b \<leftarrow> nullish DecimalString ''yes_bid_dollars'' v;
          a \<leftarrow> nullish DecimalString ''yes_ask_dollars'' v; bs \<leftarrow> nullish DecimalString ''yes_bid_size_fp'' v;
          az \<leftarrow> nullish DecimalString ''yes_ask_size_fp'' v; l \<leftarrow> nullish DecimalString ''last_trade_size_fp'' v;
          vo \<leftarrow> nullish DecimalString ''volume_fp'' v; oi \<leftarrow> nullish DecimalString ''open_interest_fp'' v;
          dv \<leftarrow> nullish numberOrDecimal ''dollar_volume'' v; doi \<leftarrow> nullish numberOrDecimal ''dollar_open_interest'' v;
          _ \<leftarrow> nullish pNumber ''ts'' v; _ \<leftarrow> nullish pNumber ''ts_ms'' v; _ \<leftarrow> nullish pString ''time'' v;
          Some \<lparr>tk_market_ticker = t, tk_market_id = i, tk_price_dollars = p, tk_yes_bid_dollars = b, tk_yes_ask_dollars = a,
                tk_yes_bid_size_fp = bs, tk_yes_ask_size_fp = az, tk_last_trade_size_fp = l, tk_volume_fp = vo,
                tk_open_interest_fp = oi, tk_dollar_volume = dv, tk_dollar_open_interest = doi\<rparr> }"

record market_lifecycle_msg =
  lm_event_type :: string
  lm_market_ticker :: string

definition MarketLifecycleMsg :: "json \<Rightarrow> market_lifecycle_msg option" where
  "MarketLifecycleMsg v =
     do { _ \<leftarrow> pRecord v; e \<leftarrow> required pString ''event_type'' v; t \<leftarrow> required pString ''market_ticker'' v;
          _ \<leftarrow> nullish pNumber ''exchange_index'' v; _ \<leftarrow> nullish pNumber ''open_ts'' v; _ \<leftarrow> nullish pNumber ''close_ts'' v;
          _ \<leftarrow> nullish pString ''result'' v; _ \<leftarrow> nullish pNumber ''determination_ts'' v;
          _ \<leftarrow> nullish numberOrDecimal ''settlement_value'' v; _ \<leftarrow> nullish pNumber ''settled_ts'' v;
          _ \<leftarrow> nullish pBool ''is_deactivated'' v; _ \<leftarrow> nullish pString ''price_level_structure'' v;
          _ \<leftarrow> nullish (pArray pRecord) ''price_ranges'' v; _ \<leftarrow> nullish pString ''strike_type'' v;
          _ \<leftarrow> nullish numberOrDecimal ''floor_strike'' v; _ \<leftarrow> nullish numberOrDecimal ''cap_strike'' v;
          _ \<leftarrow> nullish pRecord ''custom_strike'' v; _ \<leftarrow> nullish pString ''yes_sub_title'' v;
          _ \<leftarrow> nullish pRecord ''additional_metadata'' v;
          Some \<lparr>lm_event_type = e, lm_market_ticker = t\<rparr> }"

definition EventLifecycleMsg :: "json \<Rightarrow> string option" where
  \<comment> \<open>the \<open>event_ticker\<close>\<close>
  "EventLifecycleMsg v =
     do { _ \<leftarrow> pRecord v; t \<leftarrow> required pString ''event_ticker'' v; _ \<leftarrow> nullish pString ''series_ticker'' v;
          _ \<leftarrow> nullish pNumber ''exchange_index'' v; _ \<leftarrow> nullish pString ''title'' v; _ \<leftarrow> nullish pString ''subtitle'' v;
          _ \<leftarrow> nullish pString ''collateral_return_type'' v; _ \<leftarrow> nullish pNumber ''strike_date'' v;
          _ \<leftarrow> nullish pString ''strike_period'' v; Some t }"

definition METADATA_REFRESH_TRIGGERS :: "string list" where
  "METADATA_REFRESH_TRIGGERS =
     [''created'', ''close_date_updated'', ''metadata_updated'', ''price_level_structure_updated'', ''determined'', ''settled'']"

record ws_envelope =
  we_type :: string
  we_id :: "int option"
  we_sid :: "int option"
  we_seq :: "rat option"
  we_msg :: "json option"

definition WsEnvelope :: "json \<Rightarrow> ws_envelope option" where
  "WsEnvelope v =
     do { _ \<leftarrow> pRecord v; t \<leftarrow> required pString ''type'' v; i \<leftarrow> nullish pInteger ''id'' v; s \<leftarrow> nullish pInteger ''sid'' v;
          q \<leftarrow> nullish pNumber ''seq'' v;
          Some \<lparr>we_type = t, we_id = i, we_sid = s, we_seq = q,
                we_msg = (case member ''msg'' v of Some JNull \<Rightarrow> None | m \<Rightarrow> m)\<rparr> }"

section \<open>Frames and raw events\<close>

record raw_frame =
  fm_receivedAt :: int
  fm_receivedAtMs :: int
  fm_recvMonotonicNs :: int
  fm_text :: string
  fm_envelope :: "ws_envelope option"
  fm_json :: "json option"
  fm_parseError :: "string option"

text \<open>The handler of a socket message; \<open>jsonParse\<close> is \<open>JSON.parse\<close>, whose error text is left out.\<close>

definition onMessage :: "(string \<Rightarrow> json option) \<Rightarrow> int \<Rightarrow> int \<Rightarrow> string \<Rightarrow> raw_frame" where
  "onMessage jsonParse nowMs monotonicNs txt =
     (let parsed = jsonParse txt; envelope = Option.bind parsed WsEnvelope
      in \<lparr>fm_receivedAt = nowMs, fm_receivedAtMs = nowMs, fm_recvMonotonicNs = monotonicNs, fm_text = txt, fm_envelope = envelope,
          fm_json = (if envelope = None then None else parsed),
          fm_parseError = (if envelope = None then Some ''parse error'' else None)\<rparr>)"

definition TYPE_TO_CHANNEL :: "(string \<times> string) list" where
  "TYPE_TO_CHANNEL =
     [(''orderbook_snapshot'', ''orderbook_delta''), (''orderbook_delta'', ''orderbook_delta''), (''trade'', ''trade''),
      (''ticker'', ''ticker''), (''ticker_v2'', ''ticker''), (''fill'', ''fill''), (''market_lifecycle_v2'', ''market_lifecycle_v2''),
      (''event_lifecycle'', ''market_lifecycle_v2''), (''event_fee_update'', ''market_lifecycle_v2''),
      (''market_position'', ''market_positions''), (''user_order'', ''user_orders'')]"

definition channelForType :: "string \<Rightarrow> string option" where
  "channelForType messageType = map_of TYPE_TO_CHANNEL messageType"

definition exchangeTsMsOf :: "(string \<Rightarrow> int option) \<Rightarrow> json option \<Rightarrow> int option" where
  \<comment> \<open>\<open>dateParse\<close> is \<open>Date.parse\<close>\<close>
  "exchangeTsMsOf dateParse msg =
     (let ts_ms = Option.bind msg (member ''ts_ms''); ts = Option.bind msg (member ''ts'')
      in case ts_ms of
           Some (JNum x) \<Rightarrow> Some (math_round x)
         | _ \<Rightarrow>
             (case ts of
                Some (JNum x) \<Rightarrow> Some (if x < 100000000000 then math_round (x * 1000) else math_round x)
              | Some (JStr s) \<Rightarrow> dateParse s
              | _ \<Rightarrow> None))"

definition stringField :: "json option \<Rightarrow> string \<Rightarrow> string option" where
  "stringField msg key =
     (case Option.bind msg (member key) of Some (JStr s) \<Rightarrow> if s = [] then None else Some s | _ \<Rightarrow> None)"

record raw_ingest_event =
  ri_sessionId :: string
  ri_streamId :: "string option"
  ri_ingestOrdinal :: int
  ri_receivedAt :: int
  ri_receivedAtMs :: int
  ri_recvMonotonicNs :: int
  ri_channel :: "string option"
  ri_messageType :: string
  ri_sid :: "int option"
  ri_seq :: "int option"
  ri_marketTicker :: "string option"
  ri_marketId :: "string option"
  ri_exchangeTsMs :: "int option"
  ri_payloadHash :: string
  ri_payload :: json
  ri_parseVersion :: nat

record ingest_unit =
  iu_raw :: raw_ingest_event
  iu_normalized :: "normalized_row list"

text \<open>\<open>BigInt(x)\<close> throws unless the number is an integer.\<close>

definition toBigint :: "rat \<Rightarrow> int option" where
  "toBigint x = (if x = of_int \<lfloor>x\<rfloor> then Some \<lfloor>x\<rfloor> else None)"

definition messageTypeOf :: "raw_frame \<Rightarrow> string" where
  "messageTypeOf f = (case fm_envelope f of None \<Rightarrow> ''unparseable'' | Some env \<Rightarrow> we_type env)"

definition unparseablePayload :: "raw_frame \<Rightarrow> json" where
  "unparseablePayload f =
     JObj ([(''__unparseable'', JBool True), (''text'', JStr (fm_text f))] @
       (case fm_parseError f of None \<Rightarrow> [] | Some e \<Rightarrow> [(''error'', JStr e)]))"

text \<open>\<open>None\<close> is the exception of a sequence number that is not an integer.\<close>

definition toRawIngestEvent ::
  "(string \<Rightarrow> string) \<Rightarrow> (string \<Rightarrow> int option) \<Rightarrow> raw_frame \<Rightarrow> string \<Rightarrow> string option \<Rightarrow> int \<Rightarrow> raw_ingest_event option" where
  "toRawIngestEvent sha256 dateParse f sessionId streamId ingestOrdinal =
     (let env = fm_envelope f; msg = Option.bind env we_msg;
          seq = (case Option.bind env we_seq of None \<Rightarrow> Some None | Some x \<Rightarrow> map_option Some (toBigint x))
      in case seq of
           None \<Rightarrow> None
         | Some seq \<Rightarrow>
             Some \<lparr>ri_sessionId = sessionId, ri_streamId = streamId, ri_ingestOrdinal = ingestOrdinal, ri_receivedAt = fm_receivedAt f,
               ri_receivedAtMs = fm_receivedAtMs f, ri_recvMonotonicNs = fm_recvMonotonicNs f,
               ri_channel = channelForType (messageTypeOf f), ri_messageType = messageTypeOf f,
               ri_sid = Option.bind env we_sid, ri_seq = seq, ri_marketTicker = stringField msg ''market_ticker'',
               ri_marketId = stringField msg ''market_id'', ri_exchangeTsMs = exchangeTsMsOf dateParse msg,
               ri_payloadHash = sha256 (fm_text f),
               ri_payload = (case fm_json f of Some v \<Rightarrow> v | None \<Rightarrow> unparseablePayload f), ri_parseVersion = 1\<rparr>)"

text \<open>A JSON value as a cell of a row.\<close>

fun jsonCell :: "json \<Rightarrow> cell" where
  "jsonCell JNull = CNull"
| "jsonCell (JBool b) = CBool b"
| "jsonCell (JNum x) = (if x = of_int \<lfloor>x\<rfloor> then CInt \<lfloor>x\<rfloor> else CDec x)"
| "jsonCell (JStr s) = CText s"
| "jsonCell (JArr vs) = CList (map jsonCell vs)"
| "jsonCell (JObj kvs) = CObj (map (\<lambda>kv. (fst kv, jsonCell (snd kv))) kvs)"

end
