(* ===== verification/Subscriptions.thy ===== *)
theory Subscriptions
  imports Prelude
begin

text \<open>
  The subscriptions of one connection: \<open>src/src/collector/subscriptionManager.ts\<close>, with the command side of
  \<open>src/src/kalshi/websocketClient.ts\<close>. The subscription objects are shared by three maps in the code: here
  they are the entries of \<open>sm_subscriptions\<close>, and the other two maps hold stream ids. Sending on a socket that is
  not open throws after the command id was taken; what the method had changed by then stays, so a method answers with the state in
  both cases. \<open>uuid\<close> is \<open>randomUUID\<close>, a parameter that is given how many were drawn before.
\<close>

section \<open>Commands\<close>

datatype subscription_action = AddMarkets | DeleteMarkets | GetSnapshot

datatype outbound_command =
  SubscribeCommand int "string list" "string list"
| UpdateSubscriptionCommand int "int list" "string list" subscription_action
| UnsubscribeCommand int "int list"

record ws_client =
  ws_isOpen :: bool
  ws_nextCommandId :: int
  ws_sent :: "outbound_command list"

datatype ws_error = WsNotOpen

definition allocateCommandId :: "ws_client \<Rightarrow> int \<times> ws_client" where
  "allocateCommandId ws = (ws_nextCommandId ws, ws\<lparr>ws_nextCommandId := ws_nextCommandId ws + 1\<rparr>)"

definition ws_send :: "outbound_command \<Rightarrow> ws_client \<Rightarrow> (ws_error + unit) \<times> ws_client" where
  "ws_send cmd ws = (if \<not> ws_isOpen ws then (Inl WsNotOpen, ws) else (Inr (), ws\<lparr>ws_sent := ws_sent ws @ [cmd]\<rparr>))"

definition ws_command :: "(int \<Rightarrow> outbound_command) \<Rightarrow> ws_client \<Rightarrow> (ws_error + int) \<times> ws_client" where
  \<comment> \<open>the five methods that build a command and send it\<close>
  "ws_command cmd ws =
     (let (i, ws) = allocateCommandId ws; (r, ws) = ws_send (cmd i) ws in (map_sum id (\<lambda>_. i) r, ws))"

definition ws_subscribe :: "string list \<Rightarrow> string list \<Rightarrow> ws_client \<Rightarrow> (ws_error + int) \<times> ws_client" where
  "ws_subscribe channels marketTickers = ws_command (\<lambda>i. SubscribeCommand i channels marketTickers)"

definition ws_addMarkets :: "int list \<Rightarrow> string list \<Rightarrow> ws_client \<Rightarrow> (ws_error + int) \<times> ws_client" where
  "ws_addMarkets sids marketTickers = ws_command (\<lambda>i. UpdateSubscriptionCommand i sids marketTickers AddMarkets)"

definition ws_deleteMarkets :: "int list \<Rightarrow> string list \<Rightarrow> ws_client \<Rightarrow> (ws_error + int) \<times> ws_client" where
  "ws_deleteMarkets sids marketTickers = ws_command (\<lambda>i. UpdateSubscriptionCommand i sids marketTickers DeleteMarkets)"

definition ws_requestSnapshot :: "int list \<Rightarrow> string list \<Rightarrow> ws_client \<Rightarrow> (ws_error + int) \<times> ws_client" where
  "ws_requestSnapshot sids marketTickers = ws_command (\<lambda>i. UpdateSubscriptionCommand i sids marketTickers GetSnapshot)"

definition ws_unsubscribe :: "int list \<Rightarrow> ws_client \<Rightarrow> (ws_error + int) \<times> ws_client" where
  "ws_unsubscribe sids = ws_command (\<lambda>i. UnsubscribeCommand i sids)"

section \<open>The manager\<close>

definition DEFAULT_MARKETS_PER_SUBSCRIPTION :: nat where
  "DEFAULT_MARKETS_PER_SUBSCRIPTION = 400"

record subscription =
  sb_streamId :: string
  sb_channel :: string
  sb_sid :: "int option"
  sb_markets :: "string list"
  sb_pendingCommandId :: "int option"
  sb_createdAt :: int

record subscription_manager =
  sm_ws :: ws_client
  sm_max :: nat
  sm_drawn :: nat
  sm_subscriptions :: "(string, subscription) jsmap"
  sm_bySid :: "(int, string) jsmap"
  sm_byCommandId :: "(int, string) jsmap"
  sm_marketIndex :: "(string, string list) jsmap"

definition newSubscriptionManager :: "ws_client \<Rightarrow> nat option \<Rightarrow> subscription_manager" where
  "newSubscriptionManager ws limit =
     \<lparr>sm_ws = ws, sm_max = (case limit of None \<Rightarrow> DEFAULT_MARKETS_PER_SUBSCRIPTION | Some n \<Rightarrow> n), sm_drawn = 0,
      sm_subscriptions = [], sm_bySid = [], sm_byCommandId = [], sm_marketIndex = []\<rparr>"

definition sm_all :: "subscription_manager \<Rightarrow> subscription list" where
  "sm_all m = map snd (sm_subscriptions m)"

definition forChannel :: "string \<Rightarrow> subscription_manager \<Rightarrow> subscription list" where
  "forChannel channel m = filter (\<lambda>s. sb_channel s = channel) (sm_all m)"

definition byStreamId :: "string \<Rightarrow> subscription_manager \<Rightarrow> subscription option" where
  "byStreamId streamId m = js_get (sm_subscriptions m) streamId"

definition bySidOrNull :: "int \<Rightarrow> subscription_manager \<Rightarrow> subscription option" where
  "bySidOrNull sid m = Option.bind (js_get (sm_bySid m) sid) (\<lambda>s. byStreamId s m)"

definition streamsForMarket :: "string \<Rightarrow> string option \<Rightarrow> subscription_manager \<Rightarrow> subscription list" where
  "streamsForMarket t channel m =
     (let ids = (case js_get (sm_marketIndex m) t of None \<Rightarrow> [] | Some s \<Rightarrow> s)
      in filter (\<lambda>s. channel = None \<or> channel = Some (sb_channel s)) (List.map_filter (\<lambda>i. byStreamId i m) ids))"

definition sm_size :: "subscription_manager \<Rightarrow> nat" where
  "sm_size m = length (sm_subscriptions m)"

definition putSub :: "subscription \<Rightarrow> subscription_manager \<Rightarrow> subscription_manager" where
  "putSub s m = m\<lparr>sm_subscriptions := js_set (sb_streamId s) s (sm_subscriptions m)\<rparr>"

definition indexMarket :: "string \<Rightarrow> string \<Rightarrow> subscription_manager \<Rightarrow> subscription_manager" where
  "indexMarket t streamId m =
     m\<lparr>sm_marketIndex := js_set t (set_add streamId (case js_get (sm_marketIndex m) t of None \<Rightarrow> [] | Some s \<Rightarrow> s)) (sm_marketIndex m)\<rparr>"

definition unindexMarket :: "string \<Rightarrow> string \<Rightarrow> subscription_manager \<Rightarrow> subscription_manager" where
  "unindexMarket t streamId m =
     (case js_get (sm_marketIndex m) t of
        None \<Rightarrow> m
      | Some s \<Rightarrow>
          (let s = set_del streamId s
           in m\<lparr>sm_marketIndex := (if s = [] then js_del t (sm_marketIndex m) else js_set t s (sm_marketIndex m))\<rparr>))"

function chunk :: "'a list \<Rightarrow> nat \<Rightarrow> 'a list list" where
  "chunk xs n = (if n = 0 then [xs] else if xs = [] then [] else take n xs # chunk (drop n xs) n)"
  by pat_completeness auto

termination
  by (relation "measure (\<lambda>(xs, n). length xs)") (auto simp: length_greater_0_conv)

declare chunk.simps [simp del]

text \<open>One slice of \<open>subscribe\<close>: the subscription it creates, or the throw of the socket.\<close>

definition subscribeSlice ::
  "(nat \<Rightarrow> string) \<Rightarrow> int \<Rightarrow> string \<Rightarrow> string list \<Rightarrow> subscription_manager \<Rightarrow> (ws_error + subscription) \<times> subscription_manager" where
  "subscribeSlice uuid now channel slice m =
     (let streamId = uuid (sm_drawn m); m = m\<lparr>sm_drawn := sm_drawn m + 1\<rparr>;
          (r, ws) = ws_subscribe [channel] slice (sm_ws m); m = m\<lparr>sm_ws := ws\<rparr>
      in case r of
           Inl e \<Rightarrow> (Inl e, m)
         | Inr commandId \<Rightarrow>
             (let sub = \<lparr>sb_streamId = streamId, sb_channel = channel, sb_sid = None, sb_markets = remdups slice,
                         sb_pendingCommandId = Some commandId, sb_createdAt = now\<rparr>;
                  m = putSub sub m;
                  m = m\<lparr>sm_byCommandId := js_set commandId streamId (sm_byCommandId m)\<rparr>;
                  m = foldl (\<lambda>m t. indexMarket t streamId m) m slice
              in (Inr sub, m)))"

fun subscribeSlices ::
  "(nat \<Rightarrow> string) \<Rightarrow> int \<Rightarrow> string \<Rightarrow> string list list \<Rightarrow> subscription_manager
     \<Rightarrow> (ws_error + subscription list) \<times> subscription_manager" where
  "subscribeSlices uuid now channel [] m = (Inr [], m)"
| "subscribeSlices uuid now channel (slice # slices) m =
     (case subscribeSlice uuid now channel slice m of
        (Inl e, m) \<Rightarrow> (Inl e, m)
      | (Inr sub, m) \<Rightarrow>
          (let (r, m) = subscribeSlices uuid now channel slices m in (map_sum id (\<lambda>subs. sub # subs) r, m)))"

definition subscribe ::
  "(nat \<Rightarrow> string) \<Rightarrow> int \<Rightarrow> string \<Rightarrow> string list \<Rightarrow> subscription_manager
     \<Rightarrow> (ws_error + subscription list) \<times> subscription_manager" where
  "subscribe uuid now channel markets m =
     subscribeSlices uuid now channel (if markets = [] then [[]] else chunk markets (sm_max m)) m"

definition bindSid :: "int option \<Rightarrow> int \<Rightarrow> string \<Rightarrow> subscription_manager \<Rightarrow> subscription option \<times> subscription_manager" where
  "bindSid commandId sid channel m =
     (let named = Option.bind commandId (\<lambda>c. Option.bind (js_get (sm_byCommandId m) c) (\<lambda>s. byStreamId s m))
      in case (case named of Some s \<Rightarrow> Some s | None \<Rightarrow> find (\<lambda>s. sb_sid s = None) (forChannel channel m)) of
           None \<Rightarrow> (None, m)
         | Some sub \<Rightarrow>
             (let sub = sub\<lparr>sb_sid := Some sid, sb_pendingCommandId := None\<rparr>;
                  m = putSub sub m;
                  m = (case commandId of None \<Rightarrow> m | Some c \<Rightarrow> m\<lparr>sm_byCommandId := js_del c (sm_byCommandId m)\<rparr>)
              in (Some sub, m\<lparr>sm_bySid := js_set sid (sb_streamId sub) (sm_bySid m)\<rparr>)))"

text \<open>
  The loop of \<open>addMarkets\<close> over the subscriptions of the channel, with what is still to be placed. A negative
  capacity does not occur in \<open>splice\<close>: the loop skips it.
\<close>

definition addToSub :: "string \<Rightarrow> string list \<Rightarrow> subscription_manager \<Rightarrow> subscription_manager" where
  "addToSub streamId take_these m =
     foldl (\<lambda>m t. indexMarket t streamId
        (case byStreamId streamId m of None \<Rightarrow> m | Some s \<Rightarrow> putSub (s\<lparr>sb_markets := set_add t (sb_markets s)\<rparr>) m)) m take_these"

fun fillSubs ::
  "subscription list \<Rightarrow> string list \<Rightarrow> subscription_manager \<Rightarrow> (ws_error + string list \<times> string list) \<times> subscription_manager" where
  "fillSubs [] remaining m = (Inr (remaining, []), m)"
| "fillSubs (sub # subs) remaining m =
     (if remaining = [] then (Inr ([], []), m)
      else case sb_sid sub of
             None \<Rightarrow> fillSubs subs remaining m
           | Some sid \<Rightarrow>
               if sm_max m \<le> length (sb_markets sub) then fillSubs subs remaining m
               else
                 (let capacity = sm_max m - length (sb_markets sub); taken = take capacity remaining;
                      (r, ws) = ws_addMarkets [sid] taken (sm_ws m); m = m\<lparr>sm_ws := ws\<rparr>
                  in case r of
                       Inl e \<Rightarrow> (Inl e, m)
                     | Inr _ \<Rightarrow>
                         (let (r, m) = fillSubs subs (drop capacity remaining) (addToSub (sb_streamId sub) taken m)
                          in (map_sum id (\<lambda>(rest, updated). (rest, sb_streamId sub # updated)) r, m))))"

definition addMarkets ::
  "(nat \<Rightarrow> string) \<Rightarrow> int \<Rightarrow> string \<Rightarrow> string list \<Rightarrow> subscription_manager
     \<Rightarrow> (ws_error + string list \<times> subscription list) \<times> subscription_manager" where
  \<comment> \<open>the stream ids of the updated subscriptions, and the created ones\<close>
  "addMarkets uuid now channel markets m =
     (let remaining = filter (\<lambda>t. streamsForMarket t (Some channel) m = []) markets
      in case fillSubs (forChannel channel m) remaining m of
           (Inl e, m) \<Rightarrow> (Inl e, m)
         | (Inr (rest, updated), m) \<Rightarrow>
             if rest = [] then (Inr (updated, []), m)
             else (let (r, m) = subscribe uuid now channel rest m in (map_sum id (\<lambda>created. (updated, created)) r, m)))"

definition removeFrom :: "string \<Rightarrow> string \<Rightarrow> subscription_manager \<times> string list \<Rightarrow> subscription_manager \<times> string list" where
  "removeFrom t streamId acc =
     (let (m, touched) = acc
      in case byStreamId streamId m of
           None \<Rightarrow> (m, touched)
         | Some sub \<Rightarrow>
             if sb_sid sub = None then (m, touched)
             else (unindexMarket t streamId (putSub (sub\<lparr>sb_markets := set_del t (sb_markets sub)\<rparr>) m), set_add streamId touched))"

fun deleteLoop :: "string list \<Rightarrow> string list \<Rightarrow> subscription_manager \<Rightarrow> (ws_error + unit) \<times> subscription_manager" where
  "deleteLoop markets [] m = (Inr (), m)"
| "deleteLoop markets (streamId # ids) m =
     (case byStreamId streamId m of
        None \<Rightarrow> deleteLoop markets ids m
      | Some sub \<Rightarrow>
          (let removed = filter (\<lambda>t. t \<notin> set (sb_markets sub)) markets
           in case sb_sid sub of
                None \<Rightarrow> deleteLoop markets ids m
              | Some sid \<Rightarrow>
                  if removed = [] then deleteLoop markets ids m
                  else (let (r, ws) = ws_deleteMarkets [sid] removed (sm_ws m); m = m\<lparr>sm_ws := ws\<rparr>
                        in case r of Inl e \<Rightarrow> (Inl e, m) | Inr _ \<Rightarrow> deleteLoop markets ids m)))"

definition removeMarkets ::
  "string \<Rightarrow> string list \<Rightarrow> subscription_manager \<Rightarrow> (ws_error + string list) \<times> subscription_manager" where
  "removeMarkets channel markets m =
     (let (m, touched) = foldl (\<lambda>acc t. foldl (\<lambda>acc sub. removeFrom t (sb_streamId sub) acc) acc
            (streamsForMarket t (Some channel) (fst acc))) (m, []) markets;
          (r, m) = deleteLoop markets touched m
      in (map_sum id (\<lambda>_. touched) r, m))"

text \<open>The markets to ask for, by subscription.\<close>

definition snapshotRequests :: "string list \<Rightarrow> string \<Rightarrow> subscription_manager \<Rightarrow> (int, string list) jsmap" where
  "snapshotRequests markets channel m =
     foldl (\<lambda>bySub t. foldl (\<lambda>bySub sub.
        (case sb_sid sub of
           None \<Rightarrow> bySub
         | Some sid \<Rightarrow> js_set sid ((case js_get bySub sid of None \<Rightarrow> [] | Some l \<Rightarrow> l) @ [t]) bySub)) bySub
        (streamsForMarket t (Some channel) m)) [] markets"

fun requestLoop :: "(int \<times> string list) list \<Rightarrow> ws_client \<Rightarrow> (ws_error + nat) \<times> ws_client" where
  "requestLoop [] ws = (Inr 0, ws)"
| "requestLoop ((sid, ts) # rest) ws =
     (case ws_requestSnapshot [sid] ts ws of
        (Inl e, ws) \<Rightarrow> (Inl e, ws)
      | (Inr _, ws) \<Rightarrow> (let (r, ws) = requestLoop rest ws in (map_sum id (\<lambda>n. length ts + n) r, ws)))"

definition requestSnapshots :: "string list \<Rightarrow> string \<Rightarrow> subscription_manager \<Rightarrow> (ws_error + nat) \<times> subscription_manager" where
  "requestSnapshots markets channel m =
     (let (r, ws) = requestLoop (snapshotRequests markets channel m) (sm_ws m) in (r, m\<lparr>sm_ws := ws\<rparr>))"

definition sm_reset :: "subscription_manager \<Rightarrow> subscription list \<times> subscription_manager" where
  "sm_reset m = (sm_all m, m\<lparr>sm_subscriptions := [], sm_bySid := [], sm_byCommandId := [], sm_marketIndex := []\<rparr>)"

section \<open>What the index says\<close>

definition indexed :: "subscription_manager \<Rightarrow> string \<Rightarrow> string list" where
  "indexed m t = (case js_get (sm_marketIndex m) t of None \<Rightarrow> [] | Some s \<Rightarrow> s)"

definition carries :: "subscription_manager \<Rightarrow> string \<Rightarrow> string \<Rightarrow> bool" where
  "carries m streamId t \<longleftrightarrow> (\<exists>sub. byStreamId streamId m = Some sub \<and> t \<in> set (sb_markets sub))"

text \<open>
  The market index is exact, a subscription is found under its own id, which was drawn before, carries no market twice and at
  most as many as the exchange accepts; the other two maps lead to subscriptions that exist.
\<close>

definition subs_ok :: "(nat \<Rightarrow> string) \<Rightarrow> subscription_manager \<Rightarrow> bool" where
  "subs_ok uuid m \<longleftrightarrow> js_map_ok (sm_subscriptions m) \<and>
     (\<forall>s sub. byStreamId s m = Some sub \<longrightarrow> sb_streamId sub = s \<and> s \<in> uuid ` {..<sm_drawn m} \<and>
        distinct (sb_markets sub) \<and> length (sb_markets sub) \<le> sm_max m) \<and>
     (\<forall>t s. s \<in> set (indexed m t) \<longleftrightarrow> carries m s t) \<and>
     (\<forall>sid s. js_get (sm_bySid m) sid = Some s \<longrightarrow> (\<exists>sub. byStreamId s m = Some sub \<and> sb_sid sub \<noteq> None))"

lemma subs_okD:
  assumes "subs_ok uuid m"
  shows "js_map_ok (sm_subscriptions m)"
    and "\<And>s sub. byStreamId s m = Some sub \<Longrightarrow> sb_streamId sub = s"
    and "\<And>s sub. byStreamId s m = Some sub \<Longrightarrow> s \<in> uuid ` {..<sm_drawn m}"
    and "\<And>s sub. byStreamId s m = Some sub \<Longrightarrow> distinct (sb_markets sub)"
    and "\<And>s sub. byStreamId s m = Some sub \<Longrightarrow> length (sb_markets sub) \<le> sm_max m"
    and "\<And>s t. s \<in> set (indexed m t) \<longleftrightarrow> carries m s t"
    and "\<And>sid s. js_get (sm_bySid m) sid = Some s \<Longrightarrow> \<exists>sub. byStreamId s m = Some sub \<and> sb_sid sub \<noteq> None"
  using assms unfolding subs_ok_def by blast+

lemma subs_okI [intro?]:
  assumes "js_map_ok (sm_subscriptions m)"
    and "\<And>s sub. byStreamId s m = Some sub \<Longrightarrow> sb_streamId sub = s \<and> s \<in> uuid ` {..<sm_drawn m} \<and>
      distinct (sb_markets sub) \<and> length (sb_markets sub) \<le> sm_max m"
    and "\<And>t s. s \<in> set (indexed m t) \<longleftrightarrow> carries m s t"
    and "\<And>sid s. js_get (sm_bySid m) sid = Some s \<Longrightarrow> \<exists>sub. byStreamId s m = Some sub \<and> sb_sid sub \<noteq> None"
  shows "subs_ok uuid m"
  using assms unfolding subs_ok_def by blast

lemma byStreamId_put [simp]: "byStreamId s (putSub sub m) = (if s = sb_streamId sub then Some sub else byStreamId s m)"
  by (simp add: byStreamId_def putSub_def)

lemma putSub_fields [simp]:
  "sm_marketIndex (putSub sub m) = sm_marketIndex m" "sm_bySid (putSub sub m) = sm_bySid m" "sm_max (putSub sub m) = sm_max m"
  "sm_drawn (putSub sub m) = sm_drawn m" "sm_ws (putSub sub m) = sm_ws m" "sm_byCommandId (putSub sub m) = sm_byCommandId m"
  "sm_subscriptions (putSub sub m) = js_set (sb_streamId sub) sub (sm_subscriptions m)" "indexed (putSub sub m) = indexed m"
  by (simp_all add: putSub_def indexed_def fun_eq_iff)

lemma indexMarket_fields [simp]:
  "sm_subscriptions (indexMarket t s m) = sm_subscriptions m" "sm_bySid (indexMarket t s m) = sm_bySid m"
  "sm_max (indexMarket t s m) = sm_max m" "sm_drawn (indexMarket t s m) = sm_drawn m" "sm_ws (indexMarket t s m) = sm_ws m"
  "byStreamId s' (indexMarket t s m) = byStreamId s' m" "carries (indexMarket t s m) = carries m"
  "set (indexed (indexMarket t s m) t') = (if t' = t then insert s (set (indexed m t')) else set (indexed m t'))"
  by (auto simp: indexMarket_def byStreamId_def indexed_def carries_def fun_eq_iff simp del: map_of_eq_Some_iff split: option.split)

lemma unindexMarket_fields [simp]:
  "sm_subscriptions (unindexMarket t s m) = sm_subscriptions m" "sm_bySid (unindexMarket t s m) = sm_bySid m"
  "sm_max (unindexMarket t s m) = sm_max m" "sm_drawn (unindexMarket t s m) = sm_drawn m" "sm_ws (unindexMarket t s m) = sm_ws m"
  "byStreamId s' (unindexMarket t s m) = byStreamId s' m" "carries (unindexMarket t s m) = carries m"
  "set (indexed (unindexMarket t s m) t') = (if t' = t then set (indexed m t') - {s} else set (indexed m t'))"
  by (auto simp: unindexMarket_def byStreamId_def indexed_def carries_def fun_eq_iff set_del_eq_Nil Let_def
      simp del: map_of_eq_Some_iff split: option.split)

lemma carries_put: "carries (putSub sub m) s t = (if s = sb_streamId sub then t \<in> set (sb_markets sub) else carries m s t)"
  by (simp add: carries_def)

lemma index_all:
  "byStreamId s' (foldl (\<lambda>m t. indexMarket t s m) m ts) = byStreamId s' m"
  "carries (foldl (\<lambda>m t. indexMarket t s m) m ts) = carries m"
  "sm_subscriptions (foldl (\<lambda>m t. indexMarket t s m) m ts) = sm_subscriptions m"
  "sm_bySid (foldl (\<lambda>m t. indexMarket t s m) m ts) = sm_bySid m" "sm_max (foldl (\<lambda>m t. indexMarket t s m) m ts) = sm_max m"
  "sm_drawn (foldl (\<lambda>m t. indexMarket t s m) m ts) = sm_drawn m"
  "set (indexed (foldl (\<lambda>m t. indexMarket t s m) m ts) t') = (if t' \<in> set ts then insert s (set (indexed m t')) else set (indexed m t'))"
  by (induction ts arbitrary: m) simp_all

text \<open>The socket and the command ids are of no concern to the index.\<close>

lemma subs_ok_cong:
  "subs_ok uuid m \<Longrightarrow> sm_subscriptions m' = sm_subscriptions m \<Longrightarrow> sm_marketIndex m' = sm_marketIndex m \<Longrightarrow> sm_bySid m' = sm_bySid m \<Longrightarrow>
   sm_max m' = sm_max m \<Longrightarrow> sm_drawn m \<le> sm_drawn m' \<Longrightarrow> subs_ok uuid m'"
  by (fastforce simp: subs_ok_def byStreamId_def indexed_def carries_def simp del: map_of_eq_Some_iff)

lemma ws_command_cases:
  "ws_command cmd ws = (r, ws') \<Longrightarrow> ws_isOpen ws' = ws_isOpen ws \<and>
     (if ws_isOpen ws then r = Inr (ws_nextCommandId ws) \<and> ws_sent ws' = ws_sent ws @ [cmd (ws_nextCommandId ws)]
      else r = Inl WsNotOpen \<and> ws_sent ws' = ws_sent ws)"
  by (auto simp: ws_command_def allocateCommandId_def ws_send_def Let_def split: if_splits)

lemma chunk_slices: "0 < n \<Longrightarrow> s \<in> set (chunk xs n) \<Longrightarrow> length s \<le> n \<and> set s \<subseteq> set xs"
proof (induction xs n rule: chunk.induct)
  case (1 xs n)
  then show ?case using set_drop_subset [of n xs] set_take_subset [of n xs]
    by (subst (asm) chunk.simps) (auto split: if_splits)
qed

lemma chunk_concat: "0 < n \<Longrightarrow> concat (chunk xs n) = xs"
proof (induction xs n rule: chunk.induct)
  case (1 xs n)
  then show ?case by (subst chunk.simps) simp
qed

section \<open>Every operation keeps the index exact\<close>

lemma subscribeSlice_ok:
  assumes u: "inj uuid" and ok: "subs_ok uuid m" and len: "length slice \<le> sm_max m"
    and step: "subscribeSlice uuid now channel slice m = (r, m')"
  shows "subs_ok uuid m' \<and> sm_max m' = sm_max m \<and>
    (\<forall>sub. r = Inr sub \<longrightarrow> byStreamId (sb_streamId sub) m' = Some sub \<and> sb_channel sub = channel \<and> sb_markets sub = remdups slice) \<and>
    (\<forall>s. carries m s t \<longrightarrow> carries m' s t) \<and> (\<forall>s sub. byStreamId s m = Some sub \<longrightarrow> byStreamId s m' = Some sub)"
proof -
  note D = subs_okD [OF ok]
  obtain r0 ws where w: "ws_subscribe [channel] slice (sm_ws m) = (r0, ws)" by fastforce
  define s where "s = uuid (sm_drawn m)"
  have fresh: "byStreamId s m = None"
  proof (rule ccontr)
    assume "byStreamId s m \<noteq> None"
    then have "s \<in> uuid ` {..<sm_drawn m}" using D(3) by blast
    then show False unfolding s_def using injD [OF u] by fastforce
  qed
  then have none: "\<not> carries m s t" for t by (simp add: carries_def)
  show ?thesis
  proof (cases r0)
    case (Inl e)
    then have m': "m' = m\<lparr>sm_drawn := sm_drawn m + 1, sm_ws := ws\<rparr>" "r = Inl e"
      using step w by (simp_all add: subscribeSlice_def Let_def)
    have "subs_ok uuid m'" by (rule subs_ok_cong [OF ok]) (simp_all add: m')
    then show ?thesis by (simp add: m' carries_def byStreamId_def)
  next
    case (Inr c)
    define sub where "sub = \<lparr>sb_streamId = s, sb_channel = channel, sb_sid = None, sb_markets = remdups slice,
      sb_pendingCommandId = Some c, sb_createdAt = now\<rparr>"
    define m1 where "m1 = (putSub sub (m\<lparr>sm_drawn := sm_drawn m + 1, sm_ws := ws\<rparr>))\<lparr>sm_byCommandId := js_set c s (sm_byCommandId m)\<rparr>"
    have m': "m' = foldl (\<lambda>m t. indexMarket t s m) m1 slice" "r = Inr sub"
      using step w Inr by (simp_all add: subscribeSlice_def Let_def m1_def sub_def s_def)
    have got: "byStreamId s' m' = (if s' = s then Some sub else byStreamId s' m)" for s'
      unfolding m' index_all(1) by (simp add: m1_def byStreamId_def sub_def)
    have idx: "set (indexed m' t) = (if t \<in> set slice then insert s (set (indexed m t)) else set (indexed m t))" for t
      unfolding m' index_all(7) by (simp add: m1_def indexed_def)
    have f: "sm_subscriptions m' = js_set s sub (sm_subscriptions m)" "sm_bySid m' = sm_bySid m" "sm_max m' = sm_max m"
      "sm_drawn m' = Suc (sm_drawn m)" unfolding m' index_all by (simp_all add: m1_def sub_def)
    have car: "carries m' s' t = (if s' = s then t \<in> set slice else carries m s' t)" for s' t
      by (simp add: carries_def got sub_def)
    have "subs_ok uuid m'"
    proof
      show "js_map_ok (sm_subscriptions m')" using D(1) by (simp add: f)
      show "\<And>t s'. s' \<in> set (indexed m' t) \<longleftrightarrow> carries m' s' t" using D(6) none by (auto simp: idx car)
      show "\<And>sid s'. js_get (sm_bySid m') sid = Some s' \<Longrightarrow> \<exists>sub. byStreamId s' m' = Some sub \<and> sb_sid sub \<noteq> None"
        using D(7) fresh unfolding f(2) by (fastforce simp: got)
      fix s' sub' assume g: "byStreamId s' m' = Some sub'"
      show "sb_streamId sub' = s' \<and> s' \<in> uuid ` {..<sm_drawn m'} \<and> distinct (sb_markets sub') \<and> length (sb_markets sub') \<le> sm_max m'"
      proof (cases "s' = s")
        case True
        then show ?thesis using g len length_remdups_leq [of slice] by (auto simp: got sub_def f s_def intro: order_trans)
      next
        case False
        then show ?thesis using g D(2-5) [of s' sub'] by (auto simp: got f less_Suc_eq)
      qed
    qed
    moreover have "byStreamId (sb_streamId sub') m' = Some sub' \<and> sb_channel sub' = channel \<and> sb_markets sub' = remdups slice"
      if "r = Inr sub'" for sub'
    proof -
      have "sub' = sub" using that m'(2) by blast
      then show ?thesis unfolding got by (simp add: sub_def)
    qed
    moreover have "carries m' s' t" if "carries m s' t" for s' using that none by (auto simp: car)
    moreover have "byStreamId s' m' = Some sub'" if "byStreamId s' m = Some sub'" for s' sub' using that fresh by (auto simp: got)
    ultimately show ?thesis using f(3) by blast
  qed
qed

lemma subscribeSlices_ok:
  assumes u: "inj uuid"
  shows "subscribeSlices uuid now channel slices m = (r, m') \<Longrightarrow> subs_ok uuid m \<Longrightarrow> (\<And>s. s \<in> set slices \<Longrightarrow> length s \<le> sm_max m) \<Longrightarrow>
    subs_ok uuid m' \<and> sm_max m' = sm_max m \<and> (\<forall>s sub. byStreamId s m = Some sub \<longrightarrow> byStreamId s m' = Some sub) \<and>
    (r \<noteq> Inl WsNotOpen \<longrightarrow> (\<forall>t \<in> set (concat slices). \<exists>s sub. byStreamId s m' = Some sub \<and> sb_channel sub = channel \<and> t \<in> set (sb_markets sub)))"
proof (induction slices arbitrary: m r m')
  case (Cons slice slices)
  obtain r1 m1 where s: "subscribeSlice uuid now channel slice m = (r1, m1)" by fastforce
  note one = subscribeSlice_ok [OF u Cons.prems(2) _ s]
  have len: "length slice \<le> sm_max m" using Cons.prems(3) by simp
  show ?case
  proof (cases r1)
    case (Inl e)
    then show ?thesis using one [OF len] s Cons.prems(1) by (cases e) simp
  next
    case (Inr sub)
    obtain r2 m2 where rest: "subscribeSlices uuid now channel slices m1 = (r2, m2)" by fastforce
    have k: "subs_ok uuid m1" "sm_max m1 = sm_max m" using one [OF len] by blast+
    note ih = Cons.IH [OF rest k(1)]
    have "r = map_sum id (\<lambda>subs. sub # subs) r2" "m' = m2" using Cons.prems(1) s Inr rest by simp_all
    moreover have "byStreamId (sb_streamId sub) m1 = Some sub \<and> sb_channel sub = channel \<and> set (sb_markets sub) = set slice"
      using one [OF len] Inr by auto
    ultimately show ?thesis using ih one [OF len] k Cons.prems(3) by (cases r2) (fastforce+)
  qed
qed simp

lemma subscribe_ok:
  assumes u: "inj uuid" and ok: "subs_ok uuid m" and pos: "0 < sm_max m" and step: "subscribe uuid now channel markets m = (r, m')"
  shows "subs_ok uuid m' \<and> sm_max m' = sm_max m \<and> (\<forall>s sub. byStreamId s m = Some sub \<longrightarrow> byStreamId s m' = Some sub) \<and>
    (r \<noteq> Inl WsNotOpen \<longrightarrow> (\<forall>t \<in> set markets. \<exists>s sub. byStreamId s m' = Some sub \<and> sb_channel sub = channel \<and> t \<in> set (sb_markets sub)))"
proof -
  let ?slices = "if markets = [] then [[]] else chunk markets (sm_max m)"
  have "set (concat ?slices) = set markets" by (simp add: chunk_concat [OF pos] del: set_concat)
  moreover have "length s \<le> sm_max m" if "s \<in> set ?slices" for s using that chunk_slices [OF pos] by (auto split: if_splits)
  ultimately show ?thesis using subscribeSlices_ok [OF u step [unfolded subscribe_def] ok] by simp
qed

lemma named_sub:
  "subs_ok uuid m \<Longrightarrow> s \<in> set (forChannel channel m) \<Longrightarrow> byStreamId (sb_streamId s) m = Some s \<and> sb_channel s = channel"
proof -
  assume ok: "subs_ok uuid m" and s: "s \<in> set (forChannel channel m)"
  note D = subs_okD [OF ok]
  obtain k where k: "(k, s) \<in> set (sm_subscriptions m)" "sb_channel s = channel" using s by (auto simp: forChannel_def sm_all_def)
  have "byStreamId k m = Some s" using iffD1 [OF js_entry_get [OF D(1)] k(1)] unfolding byStreamId_def .
  then show ?thesis using D(2) [of k s] k(2) by simp
qed

text \<open>Writing back a subscription with the same markets, bound or not.\<close>

lemma putSub_same_ok:
  assumes ok: "subs_ok uuid m" and g: "byStreamId s m = Some sub"
    and new: "sb_streamId sub' = s" "sb_markets sub' = sb_markets sub" "sb_sid sub' \<noteq> None"
  shows "subs_ok uuid (putSub sub' m)"
proof
  note D = subs_okD [OF ok]
  show "js_map_ok (sm_subscriptions (putSub sub' m))" using D(1) by simp
  show "s' \<in> set (indexed (putSub sub' m) t) \<longleftrightarrow> carries (putSub sub' m) s' t" for t s'
    using D(6) [of s' t] g new by (auto simp: carries_put carries_def)
  show "\<exists>u. byStreamId s' (putSub sub' m) = Some u \<and> sb_sid u \<noteq> None" if "js_get (sm_bySid (putSub sub' m)) sid = Some s'" for sid s'
    using D(7) [of sid s'] that new by auto
  show "sb_streamId u = s' \<and> s' \<in> uuid ` {..<sm_drawn (putSub sub' m)} \<and> distinct (sb_markets u) \<and>
      length (sb_markets u) \<le> sm_max (putSub sub' m)" if "byStreamId s' (putSub sub' m) = Some u" for s' u
    using that D(2-5) [of s' u] D(2-5) [OF g] new by (auto split: if_splits)
qed

lemma bindSid_ok:
  assumes ok: "subs_ok uuid m" and step: "bindSid c sid channel m = (r, m')"
  shows "subs_ok uuid m' \<and> sm_max m' = sm_max m \<and> (\<forall>sub. r = Some sub \<longrightarrow> bySidOrNull sid m' = Some sub \<and> sb_sid sub = Some sid)"
proof -
  note D = subs_okD [OF ok]
  let ?named = "Option.bind c (\<lambda>c. Option.bind (js_get (sm_byCommandId m) c) (\<lambda>s. byStreamId s m))"
  show ?thesis
  proof (cases "case ?named of Some s \<Rightarrow> Some s | None \<Rightarrow> find (\<lambda>s. sb_sid s = None) (forChannel channel m)")
    case None
    then show ?thesis using step ok by (simp add: bindSid_def)
  next
    case (Some sub)
    have g: "byStreamId (sb_streamId sub) m = Some sub"
    proof (cases ?named)
      case None
      then have "sub \<in> set (forChannel channel m)" using Some by (auto simp: find_Some_iff)
      then show ?thesis using named_sub [OF ok] by blast
    next
      case (Some u)
      then obtain s where "byStreamId s m = Some u" by (auto simp: bind_eq_Some_conv)
      then show ?thesis using D(2) [of s u] \<open>(case ?named of Some s \<Rightarrow> Some s | None \<Rightarrow> _) = Some sub\<close> Some by simp
    qed
    define sub' where "sub' = sub\<lparr>sb_sid := Some sid, sb_pendingCommandId := None\<rparr>"
    define m1 where "m1 = (case c of None \<Rightarrow> putSub sub' m
      | Some c \<Rightarrow> (putSub sub' m)\<lparr>sm_byCommandId := js_del c (sm_byCommandId m)\<rparr>)"
    have r: "r = Some sub'" "m' = m1\<lparr>sm_bySid := js_set sid (sb_streamId sub') (sm_bySid m)\<rparr>"
      using step Some by (auto simp: bindSid_def sub'_def m1_def Let_def split: option.splits)
    have p: "subs_ok uuid (putSub sub' m)" by (rule putSub_same_ok [OF ok g]) (simp_all add: sub'_def)
    have m1: "subs_ok uuid m1" "sm_max m1 = sm_max m" "sm_bySid m1 = sm_bySid m" "byStreamId s m1 = byStreamId s (putSub sub' m)" for s
      using subs_ok_cong [OF p, of m1] by (auto simp: m1_def byStreamId_def split: option.splits)
    have same: "byStreamId s m' = byStreamId s m1" "indexed m' = indexed m1" "carries m' = carries m1" for s
      by (simp_all add: r byStreamId_def indexed_def carries_def fun_eq_iff)
    have "subs_ok uuid m'"
    proof
      note E = subs_okD [OF m1(1)]
      have fld: "sm_drawn m' = sm_drawn m1" "sm_max m' = sm_max m1" by (simp_all add: r)
      show "js_map_ok (sm_subscriptions m')" using E(1) by (simp add: r)
      show "\<And>t s. s \<in> set (indexed m' t) \<longleftrightarrow> carries m' s t" using E(6) by (simp add: same)
      show "sb_streamId u = s \<and> s \<in> uuid ` {..<sm_drawn m'} \<and> distinct (sb_markets u) \<and> length (sb_markets u) \<le> sm_max m'"
        if "byStreamId s m' = Some u" for s u using E(2-5) [of s u] that unfolding same fld by blast
      show "\<exists>u. byStreamId s m' = Some u \<and> sb_sid u \<noteq> None" if "js_get (sm_bySid m') sid' = Some s" for sid' s
      proof (cases "sid' = sid")
        case True
        then have "s = sb_streamId sub'" using that by (simp add: r)
        then show ?thesis unfolding same m1(4) by (simp add: sub'_def)
      next
        case False
        then have "js_get (sm_bySid m1) sid' = Some s" using that unfolding r(2) m1(3) by (simp del: map_of_eq_Some_iff)
        then show ?thesis using E(7) unfolding same by blast
      qed
    qed
    moreover have "sm_max m' = sm_max m" by (simp add: r m1(2))
    moreover have "bySidOrNull sid m' = Some sub'"
    proof -
      have "js_get (sm_bySid m') sid = Some (sb_streamId sub')" by (simp add: r)
      then show ?thesis unfolding bySidOrNull_def by (simp add: same m1(4) del: map_of_eq_Some_iff)
    qed
    moreover have "sb_sid sub' = Some sid" by (simp add: sub'_def)
    ultimately show ?thesis using r(1) by simp
  qed
qed

lemma addToSub_ok:
  assumes ok: "subs_ok uuid m" and g: "byStreamId s m = Some sub" and len: "length (sb_markets sub) + length ts \<le> sm_max m"
  shows "subs_ok uuid (addToSub s ts m) \<and> sm_max (addToSub s ts m) = sm_max m \<and>
    (\<exists>sub'. byStreamId s (addToSub s ts m) = Some sub' \<and> sb_channel sub' = sb_channel sub \<and> sb_sid sub' = sb_sid sub \<and>
       set (sb_markets sub') = set (sb_markets sub) \<union> set ts) \<and>
    (\<forall>s'. s' \<noteq> s \<longrightarrow> byStreamId s' (addToSub s ts m) = byStreamId s' m)"
  using assms
proof (induction ts arbitrary: m sub)
  case Nil
  then show ?case by (simp add: addToSub_def)
next
  case (Cons t ts)
  note D = subs_okD [OF Cons.prems(1)]
  define sub1 where "sub1 = sub\<lparr>sb_markets := set_add t (sb_markets sub)\<rparr>"
  define m1 where "m1 = indexMarket t s (putSub sub1 m)"
  have id1: "sb_streamId sub1 = s" using D(2) [OF Cons.prems(2)] by (simp add: sub1_def)
  have step: "addToSub s (t # ts) m = addToSub s ts m1" by (simp add: addToSub_def m1_def sub1_def Cons.prems(2))
  have g1: "byStreamId s m1 = Some sub1" "sm_max m1 = sm_max m" by (simp_all add: m1_def id1)
  have other: "byStreamId s' m1 = byStreamId s' m" if "s' \<noteq> s" for s' using that by (simp add: m1_def id1)
  have bs: "sm_bySid m1 = sm_bySid m" by (simp add: m1_def)
  have len1: "length (sb_markets sub1) + length ts \<le> sm_max m1"
    using Cons.prems(3) by (simp add: g1(2) sub1_def set_add_def)
  have "subs_ok uuid m1"
  proof
    show "js_map_ok (sm_subscriptions m1)" using D(1) by (simp add: m1_def)
    show "s' \<in> set (indexed m1 t') \<longleftrightarrow> carries m1 s' t'" for t' s'
      using D(6) [of s' t'] Cons.prems(2) by (auto simp: m1_def carries_put id1 carries_def) (auto simp: sub1_def)
    show "\<exists>u. byStreamId s' m1 = Some u \<and> sb_sid u \<noteq> None" if by_sid: "js_get (sm_bySid m1) sid = Some s'" for sid s'
    proof -
      obtain u where u: "byStreamId s' m = Some u" "sb_sid u \<noteq> None" using D(7) [of sid s'] by_sid unfolding bs by blast
      show ?thesis
      proof (cases "s' = s")
        case True
        then show ?thesis using u Cons.prems(2) g1(1) by (simp add: sub1_def)
      next
        case False
        then show ?thesis using u other by simp
      qed
    qed
    show "sb_streamId u = s' \<and> s' \<in> uuid ` {..<sm_drawn m1} \<and> distinct (sb_markets u) \<and> length (sb_markets u) \<le> sm_max m1"
      if "byStreamId s' m1 = Some u" for s' u
    proof (cases "s' = s")
      case True
      then have "u = sub1" using that g1(1) by simp
      then show ?thesis using True id1 D(3,4) [OF Cons.prems(2)] len1 by (simp add: m1_def sub1_def)
    next
      case False
      then show ?thesis using that other D(2-5) [of s' u] by (simp add: m1_def)
    qed
  qed
  then show ?case using Cons.IH [OF _ g1(1) len1] other unfolding step g1(2) by (auto simp: sub1_def)
qed

definition covered :: "subscription_manager \<Rightarrow> string \<Rightarrow> string \<Rightarrow> bool" where
  "covered m channel t \<longleftrightarrow> (\<exists>s sub. byStreamId s m = Some sub \<and> sb_channel sub = channel \<and> t \<in> set (sb_markets sub))"

lemma streams_covered:
  assumes ok: "subs_ok uuid m"
  shows "set (streamsForMarket t (Some channel) m) =
      {sub. \<exists>s. byStreamId s m = Some sub \<and> sb_channel sub = channel \<and> t \<in> set (sb_markets sub)}"
proof -
  note D = subs_okD [OF ok]
  have ids: "(case js_get (sm_marketIndex m) t of None \<Rightarrow> [] | Some s \<Rightarrow> s) = indexed m t" by (simp add: indexed_def)
  have picked: "set (List.map_filter f xs) = {y. \<exists>i. i \<in> set xs \<and> f i = Some y}" for f :: "string \<Rightarrow> subscription option" and xs
    by (induction xs) (auto simp: map_filter_simps split: option.split)
  show ?thesis
    unfolding streamsForMarket_def Let_def ids set_filter picked D(6) carries_def by (intro Collect_cong) auto
qed

lemma not_covered: "subs_ok uuid m \<Longrightarrow> streamsForMarket t (Some channel) m = [] \<longleftrightarrow> \<not> covered m channel t"
  unfolding set_empty [symmetric] covered_def using streams_covered [of uuid m t channel] by (simp del: set_empty) blast

lemma covered_mono:
  "covered m channel t \<Longrightarrow>
   (\<And>s sub. byStreamId s m = Some sub \<Longrightarrow> \<exists>sub'. byStreamId s m' = Some sub' \<and> sb_channel sub' = sb_channel sub \<and> set (sb_markets sub) \<subseteq> set (sb_markets sub')) \<Longrightarrow>
   covered m' channel t"
proof -
  assume c: "covered m channel t"
    and k: "\<And>s sub. byStreamId s m = Some sub \<Longrightarrow> \<exists>sub'. byStreamId s m' = Some sub' \<and> sb_channel sub' = sb_channel sub \<and> set (sb_markets sub) \<subseteq> set (sb_markets sub')"
  obtain s sub where s: "byStreamId s m = Some sub" "sb_channel sub = channel" "t \<in> set (sb_markets sub)" using c by (auto simp: covered_def)
  obtain sub' where "byStreamId s m' = Some sub'" "sb_channel sub' = sb_channel sub" "set (sb_markets sub) \<subseteq> set (sb_markets sub')"
    using k [OF s(1)] by blast
  then show ?thesis using s unfolding covered_def by blast
qed

lemma fillSubs_ok:
  "fillSubs subs remaining m = (r, m') \<Longrightarrow> subs_ok uuid m \<Longrightarrow> distinct (map sb_streamId subs) \<Longrightarrow>
   (\<And>sub. sub \<in> set subs \<Longrightarrow> byStreamId (sb_streamId sub) m = Some sub \<and> sb_channel sub = channel) \<Longrightarrow>
   subs_ok uuid m' \<and> sm_max m' = sm_max m \<and> (\<forall>t. covered m channel t \<longrightarrow> covered m' channel t) \<and>
   (\<forall>rest updated. r = Inr (rest, updated) \<longrightarrow> (\<forall>t \<in> set remaining. t \<in> set rest \<or> covered m' channel t))"
proof (induction subs arbitrary: remaining m r m')
  case (Cons sub subs)
  note g = Cons.prems(4) [of sub, simplified]
  have skip: ?case if "fillSubs subs remaining m = (r, m')"
    using Cons.IH [OF that Cons.prems(2)] Cons.prems(3,4) by simp
  show ?case
  proof (cases "remaining = []")
    case True
    then show ?thesis using Cons.prems(1,2) by auto
  next
    case some: False
    show ?thesis
    proof (cases "sb_sid sub")
      case None
      then show ?thesis using skip Cons.prems(1) some by simp
    next
      case (Some sid)
      show ?thesis
      proof (cases "sm_max m \<le> length (sb_markets sub)")
        case True
        then show ?thesis using skip Cons.prems(1) some Some by simp
      next
        case False
        define capacity where "capacity = sm_max m - length (sb_markets sub)"
        obtain r0 ws where w: "ws_addMarkets [sid] (take capacity remaining) (sm_ws m) = (r0, ws)" by fastforce
        define m1 where "m1 = m\<lparr>sm_ws := ws\<rparr>"
        have ok1: "subs_ok uuid m1" by (rule subs_ok_cong [OF Cons.prems(2)]) (simp_all add: m1_def)
        have same: "byStreamId s m1 = byStreamId s m" "covered m1 channel t = covered m channel t" for s t
          by (simp_all add: m1_def byStreamId_def covered_def)
        show ?thesis
        proof (cases r0)
          case (Inl e)
          then show ?thesis using Cons.prems(1) some Some False w ok1 same by (auto simp: capacity_def m1_def)
        next
          case (Inr c)
          define m2 where "m2 = addToSub (sb_streamId sub) (take capacity remaining) m1"
          obtain r3 m3 where rest: "fillSubs subs (drop capacity remaining) m2 = (r3, m3)" by fastforce
          have g1: "byStreamId (sb_streamId sub) m1 = Some sub" using g same by simp
          have room: "length (sb_markets sub) + length (take capacity remaining) \<le> sm_max m1"
            using False by (simp add: capacity_def m1_def)
          note added = addToSub_ok [OF ok1 g1 room, folded m2_def]
          have later: "byStreamId (sb_streamId u) m2 = Some u \<and> sb_channel u = channel" if "u \<in> set subs" for u
            using added Cons.prems(3) Cons.prems(4) [of u] that same(1) by (auto simp: image_iff)
          have ih: "subs_ok uuid m3 \<and> sm_max m3 = sm_max m2 \<and> (\<forall>t. covered m2 channel t \<longrightarrow> covered m3 channel t) \<and>
              (\<forall>rs updated. r3 = Inr (rs, updated) \<longrightarrow> (\<forall>t \<in> set (drop capacity remaining). t \<in> set rs \<or> covered m3 channel t))"
            by (rule Cons.IH [OF rest]) (use added later Cons.prems(3) in auto)
          have r: "r = map_sum id (\<lambda>(rs, updated). (rs, sb_streamId sub # updated)) r3" "m' = m3"
            using Cons.prems(1) some Some False w Inr rest by (simp_all add: capacity_def m1_def m2_def Let_def)
          have mono: "covered m2 channel t" if "covered m channel t" for t
            by (rule covered_mono [OF that]) (use added same(1) g1 in \<open>metis Un_upper1 option.inject order_refl\<close>)
          have new: "covered m2 channel t" if "t \<in> set (take capacity remaining)" for t
            using added g that unfolding covered_def by blast
          have split: "t \<in> set (take capacity remaining) \<or> t \<in> set (drop capacity remaining)" if "t \<in> set remaining" for t
            using that by (metis Un_iff append_take_drop_id set_append)
          have placed: "t \<in> set rs \<or> covered m3 channel t" if t: "t \<in> set remaining" and rs: "r = Inr (rs, updated)" for t rs updated
          proof -
            obtain updated' where "r3 = Inr (rs, updated')" using rs unfolding r by (cases r3) auto
            then show ?thesis using split [OF t] new ih by blast
          qed
          have "sm_max m3 = sm_max m" using ih added by (simp add: m1_def)
          then show ?thesis using ih mono placed unfolding r(2) by blast
        qed
      qed
    qed
  qed
qed auto

lemma addMarkets_ok:
  assumes u: "inj uuid" and ok: "subs_ok uuid m" and pos: "0 < sm_max m" and step: "addMarkets uuid now channel markets m = (r, m')"
  shows "subs_ok uuid m' \<and> sm_max m' = sm_max m \<and>
    (r \<noteq> Inl WsNotOpen \<longrightarrow> (\<forall>t \<in> set markets. covered m' channel t))"
proof -
  define remaining where "remaining = filter (\<lambda>t. streamsForMarket t (Some channel) m = []) markets"
  obtain r1 m1 where f: "fillSubs (forChannel channel m) remaining m = (r1, m1)" by fastforce
  have named: "byStreamId (sb_streamId s) m = Some s \<and> sb_channel s = channel" if "s \<in> set (forChannel channel m)" for s
    by (rule named_sub [OF ok that])
  have d: "distinct (map sb_streamId (forChannel channel m))"
  proof -
    have "sb_streamId (snd e) = fst e" if "e \<in> set (sm_subscriptions m)" for e
      using that subs_okD(2) [OF ok, of "fst e" "snd e"] iffD1 [OF js_entry_get [OF subs_okD(1) [OF ok]], of "fst e" "snd e"]
      by (simp add: byStreamId_def)
    then have "map sb_streamId (sm_all m) = js_keys (sm_subscriptions m)" by (simp add: sm_all_def)
    then have "distinct (map sb_streamId (sm_all m))" using subs_okD(1) [OF ok] by (simp only:)
    then show ?thesis unfolding forChannel_def by (rule distinct_map_filter)
  qed
  note filled = fillSubs_ok [OF f ok d named]
  have had: "covered m1 channel t" if "t \<in> set markets" "t \<notin> set remaining" for t
    using that filled not_covered [OF ok] by (auto simp: remaining_def)
  show ?thesis
  proof (cases r1)
    case (Inl e)
    then have "r = Inl e \<and> m' = m1" using step f by (simp add: addMarkets_def Let_def remaining_def)
    then show ?thesis using filled by (cases e) auto
  next
    case (Inr p)
    obtain rest updated where p: "r1 = Inr (rest, updated)" using Inr by (cases p) auto
    have cov: "t \<in> set rest \<or> covered m1 channel t" if "t \<in> set markets" for t using that filled p had by blast
    show ?thesis
    proof (cases "rest = []")
      case True
      then have "m' = m1" using step f p by (simp add: addMarkets_def Let_def remaining_def)
      then show ?thesis using filled cov True by auto
    next
      case False
      obtain r2 m2 where s: "subscribe uuid now channel rest m1 = (r2, m2)" by fastforce
      have r: "r = map_sum id (\<lambda>created. (updated, created)) r2" "m' = m2"
        using step f p False s by (simp_all add: addMarkets_def Let_def remaining_def)
      have k: "subs_ok uuid m1" "sm_max m1 = sm_max m" using filled by blast+
      note sub = subscribe_ok [OF u k(1) _ s, unfolded k(2), OF pos]
      have "covered m2 channel t" if "covered m1 channel t" for t by (rule covered_mono [OF that]) (use sub in blast)
      moreover have "r \<noteq> Inl WsNotOpen \<longrightarrow> r2 \<noteq> Inl WsNotOpen" by (cases r2) (auto simp: r)
      moreover have "covered m2 channel t" if "t \<in> set rest" "r2 \<noteq> Inl WsNotOpen" for t using sub that unfolding covered_def by blast
      ultimately show ?thesis using sub cov unfolding r(2) by blast
    qed
  qed
qed

lemma removeFrom_ok:
  assumes ok: "subs_ok uuid (fst acc)"
  shows "subs_ok uuid (fst (removeFrom t s acc)) \<and> sm_max (fst (removeFrom t s acc)) = sm_max (fst acc)"
proof -
  obtain m touched where acc: "acc = (m, touched)" by (cases acc)
  note D = subs_okD [OF ok [unfolded acc fst_conv]]
  show ?thesis
  proof (cases "byStreamId s m")
    case None
    then show ?thesis using ok by (simp add: removeFrom_def acc)
  next
    case (Some sub)
    show ?thesis
    proof (cases "sb_sid sub = None")
      case True
      then show ?thesis using ok Some by (simp add: removeFrom_def acc)
    next
      case False
      define sub' where "sub' = sub\<lparr>sb_markets := set_del t (sb_markets sub)\<rparr>"
      define m' where "m' = unindexMarket t s (putSub sub' m)"
      have id: "sb_streamId sub' = s" using D(2) [OF Some] by (simp add: sub'_def)
      have got: "byStreamId s' m' = (if s' = s then Some sub' else byStreamId s' m)" for s' by (simp add: m'_def id)
      have len: "length (sb_markets sub') \<le> length (sb_markets sub)" by (simp add: sub'_def set_del_def)
      have "subs_ok uuid m'"
      proof
        show "js_map_ok (sm_subscriptions m')" using D(1) by (simp add: m'_def)
        show "s' \<in> set (indexed m' t') \<longleftrightarrow> carries m' s' t'" for t' s'
          using D(6) [of s' t'] Some by (auto simp: m'_def carries_put id carries_def) (auto simp: sub'_def)
        show "\<exists>u. byStreamId s' m' = Some u \<and> sb_sid u \<noteq> None" if "js_get (sm_bySid m') sid = Some s'" for sid s'
        proof -
          have "js_get (sm_bySid m) sid = Some s'" using that by (simp add: m'_def del: map_of_eq_Some_iff)
          then show ?thesis using D(7) [of sid s'] False unfolding got by (auto simp: sub'_def)
        qed
        show "sb_streamId u = s' \<and> s' \<in> uuid ` {..<sm_drawn m'} \<and> distinct (sb_markets u) \<and> length (sb_markets u) \<le> sm_max m'"
          if "byStreamId s' m' = Some u" for s' u
        proof (cases "s' = s")
          case True
          then have "u = sub'" using that by (simp add: got)
          then show ?thesis using True id D(3-5) [OF Some] len by (simp add: m'_def) (simp add: sub'_def)
        next
          case False
          then show ?thesis using that D(2-5) [of s' u] by (simp add: got) (simp add: m'_def)
        qed
      qed
      moreover have "removeFrom t s acc = (m', set_add s touched)"
      proof -
        obtain sid where "sb_sid sub = Some sid" using False by blast
        then show ?thesis by (simp add: removeFrom_def acc Some m'_def sub'_def)
      qed
      ultimately show ?thesis by (simp add: acc m'_def)
    qed
  qed
qed

lemma deleteLoop_ok: "deleteLoop markets ids m = (r, m') \<Longrightarrow> subs_ok uuid m \<Longrightarrow> subs_ok uuid m' \<and> sm_max m' = sm_max m"
proof (induction markets ids m arbitrary: r m' rule: deleteLoop.induct)
  case (2 markets s ids m)
  have keep: "subs_ok uuid (m\<lparr>sm_ws := ws\<rparr>)" for ws by (rule subs_ok_cong [OF 2(6)]) simp_all
  show ?case using 2(5) keep 2(1-4) 2(6)
    by (auto simp: Let_def split: option.splits if_splits prod.splits sum.splits)
qed simp

lemma removeMarkets_ok:
  assumes ok: "subs_ok uuid m" and step: "removeMarkets channel markets m = (r, m')"
  shows "subs_ok uuid m' \<and> sm_max m' = sm_max m"
proof -
  let ?P = "\<lambda>acc :: subscription_manager \<times> string list. subs_ok uuid (fst acc) \<and> sm_max (fst acc) = sm_max m"
  have inner: "?P (foldl (\<lambda>acc sub. removeFrom t (sb_streamId sub) acc) acc subs)" if "?P acc" for acc t subs
    by (rule foldl_invariant [where P = ?P, OF _ that]) (simp add: removeFrom_ok [where uuid = uuid])
  have outer: "?P (foldl (\<lambda>acc t. foldl (\<lambda>acc sub. removeFrom t (sb_streamId sub) acc) acc (streamsForMarket t (Some channel) (fst acc))) acc ts)"
    if "?P acc" for acc ts
    by (rule foldl_invariant [where P = ?P, OF _ that]) (rule inner)
  obtain m1 touched where f: "foldl (\<lambda>acc t. foldl (\<lambda>acc sub. removeFrom t (sb_streamId sub) acc) acc
      (streamsForMarket t (Some channel) (fst acc))) (m, []) markets = (m1, touched)" by fastforce
  obtain r1 m2 where d: "deleteLoop markets touched m1 = (r1, m2)" by fastforce
  have "?P (m1, touched)" unfolding f [symmetric] by (rule outer) (simp add: ok)
  then show ?thesis using deleteLoop_ok [OF d, of uuid] step f d by (simp add: removeMarkets_def)
qed

section \<open>Asking for snapshots\<close>

definition boundSids :: "string \<Rightarrow> string \<Rightarrow> subscription_manager \<Rightarrow> int list" where
  "boundSids channel t m = List.map_filter sb_sid (streamsForMarket t (Some channel) m)"

definition askFor :: "string \<Rightarrow> (int, string list) jsmap \<Rightarrow> int \<Rightarrow> (int, string list) jsmap" where
  "askFor t bySub sid = js_set sid ((case js_get bySub sid of None \<Rightarrow> [] | Some l \<Rightarrow> l) @ [t]) bySub"

definition asked :: "(int, string list) jsmap \<Rightarrow> int \<Rightarrow> string list" where
  "asked bySub sid = (case js_get bySub sid of None \<Rightarrow> [] | Some l \<Rightarrow> l)"

lemma snapshotRequests_sids:
  "snapshotRequests markets channel m = foldl (\<lambda>bySub t. foldl (askFor t) bySub (boundSids channel t m)) [] markets"
proof -
  have inner: "foldl (\<lambda>bySub sub. (case sb_sid sub of None \<Rightarrow> bySub
      | Some sid \<Rightarrow> js_set sid ((case js_get bySub sid of None \<Rightarrow> [] | Some l \<Rightarrow> l) @ [t]) bySub)) bySub subs =
    foldl (askFor t) bySub (List.map_filter sb_sid subs)" for t bySub subs
    by (induction subs arbitrary: bySub) (simp_all add: map_filter_simps askFor_def split: option.split)
  show ?thesis unfolding snapshotRequests_def boundSids_def inner by (rule refl)
qed

lemma askFor_asked:
  "js_map_ok b \<Longrightarrow> js_map_ok (askFor t b sid)" "asked (askFor t b sid) sid' = (if sid' = sid then asked b sid @ [t] else asked b sid')"
  "js_map_ok b \<Longrightarrow> (\<Sum>e\<leftarrow>askFor t b sid. int (length (snd e))) = (\<Sum>e\<leftarrow>b. int (length (snd e))) + 1"
proof -
  show "js_map_ok (askFor t b sid)" if "js_map_ok b" using that by (simp add: askFor_def)
  show "asked (askFor t b sid) sid' = (if sid' = sid then asked b sid @ [t] else asked b sid')" by (simp add: askFor_def asked_def)
  show "(\<Sum>e\<leftarrow>askFor t b sid. int (length (snd e))) = (\<Sum>e\<leftarrow>b. int (length (snd e))) + 1" if "js_map_ok b"
    using sum_js_set [OF that, of "\<lambda>l. int (length l)" sid] by (simp add: askFor_def split: option.split)
qed

lemma snapshotRequests_spec:
  "js_map_ok (snapshotRequests markets channel m) \<and>
   (\<forall>sid t. t \<in> set (asked (snapshotRequests markets channel m) sid) \<longleftrightarrow> t \<in> set markets \<and> sid \<in> set (boundSids channel t m)) \<and>
   (\<Sum>e\<leftarrow>snapshotRequests markets channel m. int (length (snd e))) = (\<Sum>t\<leftarrow>markets. int (length (boundSids channel t m)))"
proof -
  have inner: "js_map_ok (foldl (askFor t) b sids) \<and>
      (\<forall>sid t'. t' \<in> set (asked (foldl (askFor t) b sids) sid) \<longleftrightarrow> t' \<in> set (asked b sid) \<or> t' = t \<and> sid \<in> set sids) \<and>
      (\<Sum>e\<leftarrow>foldl (askFor t) b sids. int (length (snd e))) = (\<Sum>e\<leftarrow>b. int (length (snd e))) + int (length sids)"
    if "js_map_ok b" for t b sids
    using that
  proof (induction sids rule: rev_induct)
    case (snoc sid sids)
    let ?b = "foldl (askFor t) b sids"
    have ok: "js_map_ok ?b" using snoc by blast
    show ?case using snoc.IH [OF snoc.prems] askFor_asked(1,3) [OF ok, of t sid]
      by (auto simp: askFor_asked(2))
  qed simp
  have "js_map_ok (foldl (\<lambda>b t. foldl (askFor t) b (boundSids channel t m)) [] markets) \<and>
      (\<forall>sid t. t \<in> set (asked (foldl (\<lambda>b t. foldl (askFor t) b (boundSids channel t m)) [] markets) sid) \<longleftrightarrow>
         t \<in> set markets \<and> sid \<in> set (boundSids channel t m)) \<and>
      (\<Sum>e\<leftarrow>foldl (\<lambda>b t. foldl (askFor t) b (boundSids channel t m)) [] markets. int (length (snd e))) =
        (\<Sum>t\<leftarrow>markets. int (length (boundSids channel t m)))"
  proof (induction markets rule: rev_induct)
    case Nil
    show ?case by (simp add: asked_def)
  next
    case (snoc t ts)
    let ?b = "foldl (\<lambda>b t. foldl (askFor t) b (boundSids channel t m)) [] ts"
    have ok: "js_map_ok ?b" using snoc by blast
    show ?case using snoc inner [OF ok, of t "boundSids channel t m"] by auto
  qed
  then show ?thesis unfolding snapshotRequests_sids .
qed

lemma requestLoop_open:
  "ws_isOpen ws \<Longrightarrow> \<exists>ws' ids. requestLoop reqs ws = (Inr (\<Sum>e\<leftarrow>reqs. length (snd e)), ws') \<and> ws_isOpen ws' \<and> length ids = length reqs \<and>
     ws_sent ws' = ws_sent ws @ map2 (\<lambda>i e. UpdateSubscriptionCommand i [fst e] (snd e) GetSnapshot) ids reqs"
proof (induction reqs arbitrary: ws)
  case Nil
  then show ?case by simp
next
  case (Cons e reqs)
  obtain r ws1 where w: "ws_requestSnapshot [fst e] (snd e) ws = (r, ws1)" by fastforce
  have one: "ws_isOpen ws1" "r = Inr (ws_nextCommandId ws)"
    "ws_sent ws1 = ws_sent ws @ [UpdateSubscriptionCommand (ws_nextCommandId ws) [fst e] (snd e) GetSnapshot]"
    using ws_command_cases [OF w [unfolded ws_requestSnapshot_def]] Cons.prems by simp_all
  obtain ws' ids where ih: "requestLoop reqs ws1 = (Inr (\<Sum>e\<leftarrow>reqs. length (snd e)), ws')" "ws_isOpen ws'" "length ids = length reqs"
    "ws_sent ws' = ws_sent ws1 @ map2 (\<lambda>i e. UpdateSubscriptionCommand i [fst e] (snd e) GetSnapshot) ids reqs"
    using Cons.IH [OF one(1)] by blast
  have "requestLoop (e # reqs) ws = (Inr (\<Sum>e\<leftarrow>e # reqs. length (snd e)), ws')" using w one(2) ih(1) by (cases e) simp
  then show ?case using ih one by (intro exI [of _ ws'] exI [of _ "ws_nextCommandId ws # ids"]) simp
qed

lemma requestLoop_closed: "\<not> ws_isOpen ws \<Longrightarrow> reqs \<noteq> [] \<Longrightarrow> \<exists>ws'. requestLoop reqs ws = (Inl WsNotOpen, ws') \<and> ws_sent ws' = ws_sent ws"
proof -
  assume c: "\<not> ws_isOpen ws" and n: "reqs \<noteq> []"
  then obtain sid ts rest where reqs: "reqs = (sid, ts) # rest" by (metis list.exhaust surj_pair)
  obtain r ws1 where w: "ws_requestSnapshot [sid] ts ws = (r, ws1)" by fastforce
  have "r = Inl WsNotOpen \<and> ws_sent ws1 = ws_sent ws" using ws_command_cases [OF w [unfolded ws_requestSnapshot_def]] c by simp
  then show ?thesis using w by (simp add: reqs)
qed

section \<open>Runs\<close>

datatype sm_op =
  SmSubscribe int string "string list"
| SmBindSid "int option" int string
| SmAddMarkets int string "string list"
| SmRemoveMarkets string "string list"
| SmRequestSnapshots "string list" string
| SmConnection bool
| SmReset

fun smStep :: "(nat \<Rightarrow> string) \<Rightarrow> subscription_manager \<Rightarrow> sm_op \<Rightarrow> subscription_manager" where
  "smStep uuid m (SmSubscribe now channel markets) = snd (subscribe uuid now channel markets m)"
| "smStep uuid m (SmBindSid c sid channel) = snd (bindSid c sid channel m)"
| "smStep uuid m (SmAddMarkets now channel markets) = snd (addMarkets uuid now channel markets m)"
| "smStep uuid m (SmRemoveMarkets channel markets) = snd (removeMarkets channel markets m)"
| "smStep uuid m (SmRequestSnapshots markets channel) = snd (requestSnapshots markets channel m)"
| "smStep uuid m (SmConnection isOpen) = m\<lparr>sm_ws := (sm_ws m)\<lparr>ws_isOpen := isOpen\<rparr>\<rparr>"
| "smStep uuid m SmReset = snd (sm_reset m)"

definition smRun :: "(nat \<Rightarrow> string) \<Rightarrow> subscription_manager \<Rightarrow> sm_op list \<Rightarrow> subscription_manager" where
  "smRun uuid m ops = foldl (smStep uuid) m ops"

lemma subs_ok_empty:
  "sm_subscriptions m = [] \<Longrightarrow> sm_bySid m = [] \<Longrightarrow> sm_marketIndex m = [] \<Longrightarrow> subs_ok uuid m"
  by (simp add: subs_ok_def byStreamId_def indexed_def carries_def)

lemma smStep_ok:
  assumes u: "inj uuid" and ok: "subs_ok uuid m" and pos: "0 < sm_max m"
  shows "subs_ok uuid (smStep uuid m op) \<and> sm_max (smStep uuid m op) = sm_max m"
proof (cases op)
  case (SmSubscribe now channel markets)
  then show ?thesis using subscribe_ok [OF u ok pos, of now channel markets] by (cases "subscribe uuid now channel markets m") simp
next
  case (SmBindSid c sid channel)
  then show ?thesis using bindSid_ok [OF ok, of c sid channel] by (cases "bindSid c sid channel m") simp
next
  case (SmAddMarkets now channel markets)
  then show ?thesis using addMarkets_ok [OF u ok pos, of now channel markets] by (cases "addMarkets uuid now channel markets m") simp
next
  case (SmRemoveMarkets channel markets)
  then show ?thesis using removeMarkets_ok [OF ok, of channel markets] by (cases "removeMarkets channel markets m") simp
next
  case (SmRequestSnapshots markets channel)
  have "subs_ok uuid (m\<lparr>sm_ws := ws\<rparr>)" for ws by (rule subs_ok_cong [OF ok]) simp_all
  then show ?thesis using SmRequestSnapshots by (simp add: requestSnapshots_def split: prod.split)
next
  case (SmConnection b)
  have "subs_ok uuid (m\<lparr>sm_ws := ws\<rparr>)" for ws by (rule subs_ok_cong [OF ok]) simp_all
  then show ?thesis using SmConnection by simp
next
  case SmReset
  then show ?thesis by (simp add: sm_reset_def subs_ok_empty)
qed

lemma smRun_ok:
  assumes "inj uuid" "subs_ok uuid m" "0 < sm_max m"
  shows "subs_ok uuid (smRun uuid m ops) \<and> sm_max (smRun uuid m ops) = sm_max m"
  unfolding smRun_def
  by (rule foldl_invariant [where P = "\<lambda>m'. subs_ok uuid m' \<and> sm_max m' = sm_max m"]) (use assms smStep_ok in auto)

lemma sm_all_iff: "subs_ok uuid m \<Longrightarrow> sub \<in> set (sm_all m) \<longleftrightarrow> byStreamId (sb_streamId sub) m = Some sub"
proof -
  assume ok: "subs_ok uuid m"
  note D = subs_okD [OF ok]
  show ?thesis
  proof
    assume "sub \<in> set (sm_all m)"
    then have "sub \<in> set (forChannel (sb_channel sub) m)" by (simp add: forChannel_def)
    then show "byStreamId (sb_streamId sub) m = Some sub" using named_sub [OF ok] by blast
  next
    assume "byStreamId (sb_streamId sub) m = Some sub"
    then have "(sb_streamId sub, sub) \<in> set (sm_subscriptions m)" unfolding byStreamId_def by (rule iffD2 [OF js_entry_get [OF D(1)]])
    then show "sub \<in> set (sm_all m)" unfolding sm_all_def set_map by force
  qed
qed

lemma streams_all:
  "subs_ok uuid m \<Longrightarrow> sub \<in> set (streamsForMarket t (Some channel) m) \<longleftrightarrow>
     sub \<in> set (sm_all m) \<and> sb_channel sub = channel \<and> t \<in> set (sb_markets sub)"
proof -
  assume ok: "subs_ok uuid m"
  have "byStreamId s m = Some sub \<longleftrightarrow> s = sb_streamId sub \<and> sub \<in> set (sm_all m)" for s
    using subs_okD(2) [OF ok, of s sub] sm_all_iff [OF ok, of sub] by auto
  then show ?thesis unfolding streams_covered [OF ok] by simp
qed

text \<open>A request for snapshots asks every bound subscription that carries the market, and no other.\<close>

lemma requests_reach_carriers:
  assumes ok: "subs_ok uuid m" and "open": "ws_isOpen (sm_ws m)"
  shows "\<exists>n m' ids reqs. requestSnapshots markets channel m = (Inr n, m') \<and> length ids = length reqs \<and>
    ws_sent (sm_ws m') = ws_sent (sm_ws m) @ map2 (\<lambda>i e. UpdateSubscriptionCommand i [fst e] (snd e) GetSnapshot) ids reqs \<and>
    js_map_ok reqs \<and> n = (\<Sum>e\<leftarrow>reqs. length (snd e)) \<and>
    (\<forall>sid t. t \<in> set (asked reqs sid) \<longleftrightarrow>
       t \<in> set markets \<and> (\<exists>sub \<in> set (sm_all m). sb_channel sub = channel \<and> sb_sid sub = Some sid \<and> t \<in> set (sb_markets sub)))"
proof -
  let ?reqs = "snapshotRequests markets channel m"
  have picked: "set (List.map_filter f xs) = {y. \<exists>i. i \<in> set xs \<and> f i = Some y}" for f :: "subscription \<Rightarrow> int option" and xs
    by (induction xs) (auto simp: map_filter_simps split: option.split)
  have bound: "sid \<in> set (boundSids channel t m) \<longleftrightarrow>
      (\<exists>sub \<in> set (sm_all m). sb_channel sub = channel \<and> sb_sid sub = Some sid \<and> t \<in> set (sb_markets sub))" for sid t
    unfolding boundSids_def picked using streams_all [OF ok, where t = t and channel = channel] by blast
  obtain ws' ids where l: "requestLoop ?reqs (sm_ws m) = (Inr (\<Sum>e\<leftarrow>?reqs. length (snd e)), ws')" "length ids = length ?reqs"
    "ws_sent ws' = ws_sent (sm_ws m) @ map2 (\<lambda>i e. UpdateSubscriptionCommand i [fst e] (snd e) GetSnapshot) ids ?reqs"
    using requestLoop_open [OF "open", of ?reqs] by blast
  have spec: "js_map_ok ?reqs" "t \<in> set (asked ?reqs sid) \<longleftrightarrow> t \<in> set markets \<and> sid \<in> set (boundSids channel t m)" for sid t
    using snapshotRequests_spec [of markets channel m] by blast+
  have "requestSnapshots markets channel m = (Inr (\<Sum>e\<leftarrow>?reqs. length (snd e)), m\<lparr>sm_ws := ws'\<rparr>)"
    by (simp add: requestSnapshots_def l(1))
  then show ?thesis using l(2,3) spec(1) by (intro exI conjI) (assumption | simp add: spec(2) bound)+
qed

text \<open>
  C39: Whatever is subscribed, bound, moved or dropped and however often the socket fails in between, the market index is exact: a
  subscription is found for a market and a channel if and only if it is one of the channel that carries the market; no
  subscription carries a market twice or more than the limit, and a market that was added without an error is carried.
\<close>

theorem subscriptions_stay_indexed:
  assumes "inj uuid" "0 < limit" "m = smRun uuid (newSubscriptionManager ws (Some limit)) ops"
  shows "(sub \<in> set (streamsForMarket t (Some channel) m)) =
      (sub \<in> set (sm_all m) \<and> sb_channel sub = channel \<and> t \<in> set (sb_markets sub)) \<and>
    list_all (\<lambda>sub. distinct (sb_markets sub) \<and> length (sb_markets sub) \<le> limit) (sm_all m) \<and>
    (case addMarkets uuid now channel markets m of
       (Inl e, m') \<Rightarrow> True
     | (Inr added, m') \<Rightarrow> list_all (\<lambda>t. streamsForMarket t (Some channel) m' \<noteq> []) markets)"
proof -
  have new: "subs_ok uuid (newSubscriptionManager ws (Some limit))" "0 < sm_max (newSubscriptionManager ws (Some limit))"
    using assms(2) by (simp_all add: newSubscriptionManager_def subs_ok_empty)
  have ok: "subs_ok uuid m" "sm_max m = limit"
    using smRun_ok [OF assms(1) new] unfolding assms(3) by (simp_all add: newSubscriptionManager_def)
  have each: "distinct (sb_markets sub) \<and> length (sb_markets sub) \<le> limit" if "sub \<in> set (sm_all m)" for sub
    using that sm_all_iff [OF ok(1)] subs_okD(4,5) [OF ok(1)] ok(2) by blast
  obtain r m' where a: "addMarkets uuid now channel markets m = (r, m')" by fastforce
  have added: "subs_ok uuid m' \<and> (r \<noteq> Inl WsNotOpen \<longrightarrow> (\<forall>t \<in> set markets. covered m' channel t))"
    using addMarkets_ok [OF assms(1) ok(1) _ a] assms(2) by (simp add: ok(2))
  have "list_all (\<lambda>t. streamsForMarket t (Some channel) m' \<noteq> []) markets" if "r = Inr x" for x
    using added that not_covered [of uuid m'] by (auto simp: list_all_iff)
  then show ?thesis using streams_all [OF ok(1)] each by (auto simp: a list_all_iff split: sum.split)
qed

definition wit_uuid :: "nat \<Rightarrow> string" where
  "wit_uuid n = replicate n CHR ''x''"

lemma wit_uuid_inj: "inj wit_uuid"
  by (rule injI) (metis length_replicate wit_uuid_def)

definition wit_socket :: ws_client where
  "wit_socket = \<lparr>ws_isOpen = False, ws_nextCommandId = 1, ws_sent = []\<rparr>"

definition wit_subs :: subscription_manager where
  "wit_subs = smRun wit_uuid (newSubscriptionManager wit_socket (Some 2))
     [SmConnection True, SmSubscribe 0 ''trade'' [''A'', ''B'', ''C''], SmBindSid (Some 1) 7 ''trade'', SmRemoveMarkets ''trade'' [''A'']]"

theorem subscriptions_stay_indexed_witness:
  "list_all (\<lambda>sub. distinct (sb_markets sub) \<and> length (sb_markets sub) \<le> 2) (sm_all wit_subs) \<and>
   (case addMarkets wit_uuid 0 ''trade'' [''A'', ''D''] wit_subs of
      (Inl e, m') \<Rightarrow> True | (Inr added, m') \<Rightarrow> list_all (\<lambda>t. streamsForMarket t (Some ''trade'') m' \<noteq> []) [''A'', ''D''])"
  using subscriptions_stay_indexed [OF wit_uuid_inj _ wit_subs_def] by simp

end
