(* ===== verification/Collector.thy ===== *)
theory Collector
  imports Wire Subscriptions BookManager Sequence Recovery
begin

text \<open>
  The recorder core: \<open>src/src/collector/collector.ts\<close>, with the context cache of \<open>src/src/collector/marketState.ts\<close>.

  \<open>collector\<close> holds the components the recorder owns and the maps of its own. What it tells others is kept in order: the calls of
  the batch writer, the events it emits, the refreshes it asks of the universe and the statements it sends to the database. A frame
  handler that throws answers with an error and with the state as it then is. The side effects that \<open>defer\<close> queues are values; the worker
  that runs them asks \<open>db\<close>, a parameter, for the answer of each statement, \<open>None\<close> being a rejected promise. A closure that
  writes the gap id into the episode it captured remembers the frame that opened it, since the machine may have another by then.
  The text of an error is not modelled, nor are log lines.
\<close>

section \<open>The context cache\<close>

record market_context =
  mc_lastTradePrice :: "rat option"
  mc_lastTradeCount :: "rat option"
  mc_lastTradeAtMs :: "int option"
  mc_volume :: "rat option"
  mc_openInterest :: "rat option"
  mc_tickerYesBid :: "rat option"
  mc_tickerYesAsk :: "rat option"
  mc_updatedAtMs :: int

type_synonym market_cache = "(string, market_context) jsmap"

definition cacheEnsure :: "string \<Rightarrow> market_cache \<Rightarrow> market_context" where
  "cacheEnsure t m =
     (case js_get m t of
        Some s \<Rightarrow> s
      | None \<Rightarrow> \<lparr>mc_lastTradePrice = None, mc_lastTradeCount = None, mc_lastTradeAtMs = None, mc_volume = None,
                 mc_openInterest = None, mc_tickerYesBid = None, mc_tickerYesAsk = None, mc_updatedAtMs = 0\<rparr>)"

definition recordTrade :: "dec_lib \<Rightarrow> string \<Rightarrow> string \<Rightarrow> string \<Rightarrow> int \<Rightarrow> market_cache \<Rightarrow> market_cache" where
  "recordTrade L t yesPrice traded atMs m =
     js_set t ((cacheEnsure t m)\<lparr>mc_lastTradePrice := Some (dl_of_string L yesPrice), mc_lastTradeCount := Some (dl_of_string L traded),
        mc_lastTradeAtMs := Some atMs, mc_updatedAtMs := atMs\<rparr>) m"

definition overwrite :: "dec_lib \<Rightarrow> string option \<Rightarrow> rat option \<Rightarrow> rat option" where
  \<comment> \<open>\<open>if (field != null) x = new Decimal(field)\<close>\<close>
  "overwrite L f old = (case f of None \<Rightarrow> old | Some s \<Rightarrow> Some (dl_of_string L s))"

definition recordTicker :: "dec_lib \<Rightarrow> ticker_msg \<Rightarrow> int \<Rightarrow> market_cache \<Rightarrow> market_cache" where
  "recordTicker L msg atMs m =
     (let t = tk_market_ticker msg; s = cacheEnsure t m;
          s = s\<lparr>mc_volume := overwrite L (tk_volume_fp msg) (mc_volume s),
                mc_openInterest := overwrite L (tk_open_interest_fp msg) (mc_openInterest s),
                mc_tickerYesBid := overwrite L (tk_yes_bid_dollars msg) (mc_tickerYesBid s),
                mc_tickerYesAsk := overwrite L (tk_yes_ask_dollars msg) (mc_tickerYesAsk s),
                mc_lastTradePrice := (if mc_lastTradePrice s = None then overwrite L (tk_price_dollars msg) None else mc_lastTradePrice s)\<rparr>
      in js_set t (s\<lparr>mc_updatedAtMs := atMs\<rparr>) m)"

section \<open>The state of the recorder\<close>

definition TICKER_MISMATCH_COOLDOWN_MS :: int where "TICKER_MISMATCH_COOLDOWN_MS = 60000"
definition SNAPSHOT_REQUEST_COOLDOWN_MS :: int where "SNAPSHOT_REQUEST_COOLDOWN_MS = 5000"
definition RECOVERY_TIMEOUT_MS :: int where "RECOVERY_TIMEOUT_MS = 30000"

record capture_config =
  cf_orderbookDeltas :: bool
  cf_trades :: bool
  cf_tickerUpdates :: bool
  cf_lifecycleEvents :: bool
  cf_privateOrders :: bool
  cf_privateFills :: bool

record collector_options =
  cp_dec :: dec_lib
  cp_sha256 :: "string \<Rightarrow> string"
  cp_dateParse :: "string \<Rightarrow> int option"
  cp_numberString :: "rat \<Rightarrow> string"
  cp_uuid :: "nat \<Rightarrow> string"
  cp_sessionId :: string
  cp_isTracked :: "string \<Rightarrow> bool"
  cp_capture :: capture_config

record collector_counters =
  cc_messagesReceived :: nat
  cc_messagesPersisted :: nat
  cc_orderbookDeltas :: nat
  cc_snapshots :: nat
  cc_trades :: nat
  cc_tickers :: nat
  cc_lifecycle :: nat
  cc_sequenceGaps :: nat
  cc_negativeLevels :: nat
  cc_unparseable :: nat
  cc_reconnects :: nat
  cc_tickerBboMismatches :: nat

datatype writer_call = WcEnqueue ingest_unit | WcDerived "normalized_row list"

datatype collector_event =
  EmLatency int int
| EmFirstSnapshot int
| EmSequenceGap string "int option" "int option" "string list"
| EmDiscoveryRefresh string
| EmDisconnected nat

datatype refresh_call = RefreshMarket string | RefreshEvent string

record gap_record =
  gp_streamId :: string
  gp_channel :: string
  gp_sid :: "int option"
  gp_expectedSeq :: "int option"
  gp_receivedSeq :: "int option"
  gp_affectedMarkets :: "string list"

datatype db_command =
  DbCreateStream subscription
| DbCloseStream string
| DbSetStreamSid string int
| DbSetStreamStatus string string
| DbUpdateStreamSeq string "int option" "int option" nat
| DbRecordGap gap_record
| DbMarkGapRecovering string
| DbMarkGapRecovered string nat
| DbMarkGapFailed string string
| DbMarkGapSuperseded string string
| DbRecordIntegrity integrity_input

type_synonym database = "db_command list \<Rightarrow> db_command \<Rightarrow> string option"

datatype deferred_task =
  DtSubscribed string int
| DtGap gap_record int bool
| DtRecovered string "string option" nat
| DtTimedOut recovery_episode
| DtSuperseded string string

record collector =
  co_books :: book_manager
  co_marketState :: market_cache
  co_sequences :: sequence_tracker
  co_subscriptions :: subscription_manager
  co_recovery :: recovery_machine
  co_counters :: collector_counters
  co_lastTickerMismatchAt :: "(string, int) jsmap"
  co_ingestOrdinal :: int
  co_announcedFirstSnapshot :: bool
  co_lastSnapshotRequestAt :: "(string, int) jsmap"
  co_deferred :: "deferred_task list"
  co_openedBy :: "(string, int) jsmap"
  co_writer :: "writer_call list"
  co_emitted :: "collector_event list"
  co_refreshes :: "refresh_call list"
  co_db :: "db_command list"

definition newCollector :: "ws_client \<Rightarrow> collector" where
  "newCollector ws =
     \<lparr>co_books = newBookManager, co_marketState = [], co_sequences = [], co_subscriptions = newSubscriptionManager ws None,
      co_recovery = newRecoveryMachine (Some RECOVERY_TIMEOUT_MS),
      co_counters = \<lparr>cc_messagesReceived = 0, cc_messagesPersisted = 0, cc_orderbookDeltas = 0, cc_snapshots = 0, cc_trades = 0,
        cc_tickers = 0, cc_lifecycle = 0, cc_sequenceGaps = 0, cc_negativeLevels = 0, cc_unparseable = 0, cc_reconnects = 0,
        cc_tickerBboMismatches = 0\<rparr>,
      co_lastTickerMismatchAt = [], co_ingestOrdinal = 0, co_announcedFirstSnapshot = False, co_lastSnapshotRequestAt = [],
      co_deferred = [], co_openedBy = [], co_writer = [], co_emitted = [], co_refreshes = [], co_db = []\<rparr>"

definition enabledChannels :: "capture_config \<Rightarrow> string list" where
  "enabledChannels c =
     (if cf_orderbookDeltas c then [''orderbook_delta''] else []) @ (if cf_trades c then [''trade''] else []) @
     (if cf_tickerUpdates c then [''ticker''] else []) @ (if cf_lifecycleEvents c then [''market_lifecycle_v2''] else []) @
     (if cf_privateOrders c then [''user_orders''] else []) @ (if cf_privateFills c then [''fill''] else [])"

text \<open>The effects every handler uses.\<close>

definition emit :: "collector_event \<Rightarrow> collector \<Rightarrow> collector" where
  "emit e co = co\<lparr>co_emitted := co_emitted co @ [e]\<rparr>"

definition defer_task :: "deferred_task \<Rightarrow> collector \<Rightarrow> collector" where
  "defer_task t co = co\<lparr>co_deferred := co_deferred co @ [t]\<rparr>"

definition enqueue :: "ingest_unit \<Rightarrow> collector \<Rightarrow> collector" where
  "enqueue u co = co\<lparr>co_writer := co_writer co @ [WcEnqueue u]\<rparr>"

definition enqueueDerived :: "normalized_row list \<Rightarrow> collector \<Rightarrow> collector" where
  "enqueueDerived rows co = co\<lparr>co_writer := co_writer co @ [WcDerived rows]\<rparr>"

definition pushRow :: "normalized_row \<Rightarrow> ingest_unit \<Rightarrow> ingest_unit" where
  "pushRow r u = u\<lparr>iu_normalized := iu_normalized u @ [r]\<rparr>"

definition tally :: "(collector_counters \<Rightarrow> collector_counters) \<Rightarrow> collector \<Rightarrow> collector" where
  "tally f co = co\<lparr>co_counters := f (co_counters co)\<rparr>"

definition integrityEvent ::
  "collector_options \<Rightarrow> string option \<Rightarrow> integrity_type \<Rightarrow> severity \<Rightarrow> (string \<times> cell) list \<Rightarrow> integrity_input" where
  "integrityEvent opts t ty sev details =
     \<lparr>ii_sessionId = Some (cp_sessionId opts), ii_marketTicker = t, ii_type = ty, ii_severity = sev, ii_details = details,
      ii_detectedAt = None\<rparr>"

definition mayRequestSnapshot :: "string \<Rightarrow> int \<Rightarrow> collector \<Rightarrow> bool \<times> collector" where
  "mayRequestSnapshot t nowMs co =
     (let lastAt = (case js_get (co_lastSnapshotRequestAt co) t of None \<Rightarrow> 0 | Some x \<Rightarrow> x)
      in if nowMs - lastAt < SNAPSHOT_REQUEST_COOLDOWN_MS then (False, co)
         else (True, co\<lparr>co_lastSnapshotRequestAt := js_set t nowMs (co_lastSnapshotRequestAt co)\<rparr>))"

definition askSnapshots :: "string list \<Rightarrow> collector \<Rightarrow> (ws_error + nat) \<times> collector" where
  \<comment> \<open>\<open>this.subscriptions.requestSnapshots(markets, 'orderbook_delta')\<close>\<close>
  "askSnapshots markets co =
     (let (r, m) = requestSnapshots markets ''orderbook_delta'' (co_subscriptions co) in (r, co\<lparr>co_subscriptions := m\<rparr>))"

fun allowedMarkets :: "int \<Rightarrow> string list \<Rightarrow> collector \<Rightarrow> string list \<times> collector" where
  "allowedMarkets nowMs [] co = ([], co)"
| "allowedMarkets nowMs (t # ts) co =
     (let (ok, co) = mayRequestSnapshot t nowMs co; (rest, co) = allowedMarkets nowMs ts co
      in (if ok then t # rest else rest, co))"

definition requestRecoverySnapshots :: "int \<Rightarrow> string list \<Rightarrow> collector \<Rightarrow> (ws_error + nat) \<times> collector" where
  "requestRecoverySnapshots nowMs markets co =
     (let (allowed, co) = allowedMarkets nowMs markets co
      in if allowed = [] then (Inr 0, co) else askSnapshots allowed co)"

definition reapStalledRecoveries :: "int \<Rightarrow> collector \<Rightarrow> collector" where
  "reapStalledRecoveries nowMs co =
     (let (episodes, m) = reapTimeouts nowMs (co_recovery co)
      in foldl (\<lambda>co e. defer_task (DtTimedOut e) co) (co\<lparr>co_recovery := m\<rparr>) episodes)"

section \<open>Deferred side effects\<close>

definition db_call :: "database \<Rightarrow> db_command \<Rightarrow> collector \<Rightarrow> string option \<times> collector" where
  "db_call db c co = (db (co_db co) c, co\<lparr>co_db := co_db co @ [c]\<rparr>)"

text \<open>Statements awaited one after the other; a rejection that is not caught ends the task.\<close>

fun db_calls :: "database \<Rightarrow> (db_command \<times> bool) list \<Rightarrow> collector \<Rightarrow> collector" where
  "db_calls db [] co = co"
| "db_calls db ((c, caught) # cs) co =
     (let (r, co) = db_call db c co in if r = None \<and> \<not> caught then co else db_calls db cs co)"

definition noteGapId :: "string \<Rightarrow> int \<Rightarrow> string \<Rightarrow> collector \<Rightarrow> collector" where
  \<comment> \<open>\<open>episode.gapId = gapId\<close> on the episode that the frame \<open>ordinal\<close> opened\<close>
  "noteGapId streamId ordinal gapId co =
     (case episodeOf (co_recovery co) streamId of
        None \<Rightarrow> co
      | Some e \<Rightarrow>
          if js_get (co_openedBy co) streamId = Some ordinal
          then co\<lparr>co_recovery := putEpisode streamId (e\<lparr>ep_gapId := Some gapId\<rparr>) (co_recovery co)\<rparr> else co)"

definition natText :: "nat \<Rightarrow> string" where
  "natText n = int_str (int n)"

fun runTask :: "collector_options \<Rightarrow> database \<Rightarrow> deferred_task \<Rightarrow> collector \<Rightarrow> collector" where
  "runTask opts db (DtSubscribed streamId sid) co =
     db_calls db [(DbSetStreamSid streamId sid, False), (DbSetStreamStatus streamId ''healthy'', False)] co"
| "runTask opts db (DtGap g ordinal recovering) co =
     (let co = snd (db_call db (DbSetStreamStatus (gp_streamId g) ''degraded'') co);
          (gapId, co) = db_call db (DbRecordGap g) co
      in case gapId of
           None \<Rightarrow> co
         | Some i \<Rightarrow>
             (let co = noteGapId (gp_streamId g) ordinal i co
              in if recovering
                 then db_calls db [(DbMarkGapRecovering i, False), (DbSetStreamStatus (gp_streamId g) ''recovering'', True)] co
                 else db_calls db [(DbMarkGapFailed i ''no subscription available to request snapshots'', True)] co))"
| "runTask opts db (DtRecovered streamId gapId received) co =
     db_calls db ((case gapId of None \<Rightarrow> [] | Some i \<Rightarrow> [(DbMarkGapRecovered i received, True)]) @
       [(DbSetStreamStatus streamId ''healthy'', True)]) co"
| "runTask opts db (DtTimedOut e) co =
     db_calls db ((case ep_gapId e of None \<Rightarrow> []
         | Some i \<Rightarrow> [(DbMarkGapFailed i (''recovery timed out; '' @ natText (length (ep_outstanding e)) @ '' markets outstanding''), True)]) @
       [(DbRecordIntegrity (integrityEvent opts None ItRecoveryFailure SevCritical
           [(''stream_id'', CText (ep_streamId e)), (''outstanding_markets'', CList (map CText (ep_outstanding e))),
            (''messages_withheld'', CInt (int (ep_messagesWithheld e)))]), True)]) co"
| "runTask opts db (DtSuperseded gapId reason) co = db_calls db [(DbMarkGapSuperseded gapId reason, True)] co"

text \<open>One turn of the worker. What a task defers meanwhile goes to the end of the queue.\<close>

definition drainOne :: "collector_options \<Rightarrow> database \<Rightarrow> collector \<Rightarrow> collector" where
  "drainOne opts db co =
     (case co_deferred co of [] \<Rightarrow> co | t # ts \<Rightarrow> runTask opts db t (co\<lparr>co_deferred := ts\<rparr>))"

section \<open>Control frames\<close>

definition handleSubscribed :: "ws_envelope \<Rightarrow> collector \<Rightarrow> collector" where
  "handleSubscribed env co =
     (case (Option.bind (Option.bind (we_msg env) (member ''sid'')) pInteger, Option.bind (Option.bind (we_msg env) (member ''channel'')) pString) of
        (Some sid, Some channel) \<Rightarrow>
          if channel = [] then co
          else
            (let (sub, m) = bindSid (we_id env) sid channel (co_subscriptions co); co = co\<lparr>co_subscriptions := m\<rparr>
             in case sub of None \<Rightarrow> co | Some s \<Rightarrow> defer_task (DtSubscribed (sb_streamId s) sid) co)
      | _ \<Rightarrow> co)"

definition handleError :: "collector_options \<Rightarrow> int \<Rightarrow> ws_envelope \<Rightarrow> ingest_unit \<Rightarrow> ingest_unit" where
  "handleError opts now env u =
     (let code = Option.bind (we_msg env) (member ''code''); message = Option.bind (we_msg env) (member ''msg'');
          cell = (\<lambda>k v. case v of None \<Rightarrow> [] | Some j \<Rightarrow> [(k, jsonCell j)])
      in pushRow (integrityRow now (integrityEvent opts None ItSubscriptionFailure
           (if code = Some (JNum 26) \<or> code = Some (JNum 27) then SevError else SevWarning)
           (cell ''code'' code @ cell ''message'' message))) u)"

section \<open>Sequence gaps and recovery\<close>

definition seqText :: "int option \<Rightarrow> string" where
  "seqText s = (case s of None \<Rightarrow> ''null'' | Some n \<Rightarrow> int_str n)"

definition optText :: "int option \<Rightarrow> cell" where
  "optText s = textCell (map_option int_str s)"

definition requestForGap ::
  "collector_options \<Rightarrow> int \<Rightarrow> subscription \<Rightarrow> string list \<Rightarrow> ingest_unit \<Rightarrow> collector \<Rightarrow> nat \<times> ingest_unit \<times> collector" where
  \<comment> \<open>how many snapshots were asked for; a failure of the socket is recorded\<close>
  "requestForGap opts now sub affected u co =
     (if affected \<noteq> [] \<and> canRequestRecovery (co_recovery co) (sb_streamId sub) then
        (case askSnapshots affected co of
           (Inr n, co) \<Rightarrow> (n, u, co)
         | (Inl e, co) \<Rightarrow> (0, pushRow (integrityRow now (integrityEvent opts None ItRecoveryFailure SevCritical
               [(''stream_id'', CText (sb_streamId sub)), (''error'', CText ''Error: cannot send: websocket is not open'')])) u, co))
      else (0, u, co))"

definition handleSequenceGap ::
  "collector_options \<Rightarrow> int \<Rightarrow> subscription \<Rightarrow> int option \<Rightarrow> int option \<Rightarrow> ingest_unit \<Rightarrow> collector \<Rightarrow> ingest_unit \<times> collector" where
  "handleSequenceGap opts now sub expectedSeq receivedSeq u co =
     (let s = sb_streamId sub; nowMs = ri_receivedAtMs (iu_raw u); affected = marketsForStream (co_books co) s;
          ((opened, episode), m) = openGap s \<lparr>og_affected = affected, og_expectedSeq = expectedSeq, og_receivedSeq = receivedSeq,
             og_nowMs = nowMs\<rparr> (co_recovery co);
          co = co\<lparr>co_recovery := m\<rparr>
      in if \<not> opened then (u, co)
         else
           (let reason = ''sequence gap on '' @ sb_channel sub @ '': expected '' @ seqText expectedSeq @ '', received '' @ seqText receivedSeq;
                co = co\<lparr>co_openedBy := js_set s (co_ingestOrdinal co) (co_openedBy co),
                        co_books := snd (invalidateStream s reason (co_books co))\<rparr>;
                u = pushRow (integrityRow now (integrityEvent opts None ItSequenceGap SevError
                      [(''stream_id'', CText s), (''channel'', CText (sb_channel sub)), (''sid'', intCell (sb_sid sub)),
                       (''expected_seq'', optText expectedSeq), (''received_seq'', optText receivedSeq),
                       (''affected_markets'', CInt (int (length affected)))])) u;
                (requested, u, co) = requestForGap opts now sub affected u co;
                co = co\<lparr>co_recovery := (if 0 < requested then snd (markRecoveryRequested s nowMs (co_recovery co))
                                        else snd (markRecoveryUnavailable s (co_recovery co)))\<rparr>;
                co = defer_task (DtGap \<lparr>gp_streamId = s, gp_channel = sb_channel sub, gp_sid = sb_sid sub, gp_expectedSeq = expectedSeq,
                       gp_receivedSeq = receivedSeq, gp_affectedMarkets = affected\<rparr> (co_ingestOrdinal co) (0 < requested)) co
            in (u, emit (EmSequenceGap s expectedSeq receivedSeq affected) co)))"

definition completeRecovery :: "string \<Rightarrow> string option \<Rightarrow> nat \<Rightarrow> int option \<Rightarrow> collector \<Rightarrow> collector" where
  "completeRecovery s gapId received seq co =
     defer_task (DtRecovered s gapId received) (co\<lparr>co_sequences := snd (resetAfterRecovery s seq (co_sequences co))\<rparr>)"

section \<open>Message handlers\<close>

text \<open>
  A handler answers with an error when it throws, and with the unit and the state as they then are.
\<close>

datatype frame_error = SchemaError | SocketError

type_synonym handled = "frame_error option \<times> ingest_unit \<times> collector"

definition levelInput :: "dec_lib \<Rightarrow> (string \<times> string) list option \<Rightarrow> (rat \<times> rat) list" where
  "levelInput L ls = (case ls of None \<Rightarrow> [] | Some l \<Rightarrow> map (\<lambda>(p, q). (dl_of_string L p, dl_of_string L q)) l)"

definition idText :: "string option \<Rightarrow> string" where
  "idText streamId = (case streamId of None \<Rightarrow> '''' | Some s \<Rightarrow> s)"

definition announce :: "int \<Rightarrow> collector \<Rightarrow> collector" where
  "announce at_ms co =
     (if co_announcedFirstSnapshot co then co else emit (EmFirstSnapshot at_ms) (co\<lparr>co_announcedFirstSnapshot := True\<rparr>))"

definition handleSnapshot ::
  "collector_options \<Rightarrow> ws_envelope \<Rightarrow> string option \<Rightarrow> int option \<Rightarrow> ingest_unit \<Rightarrow> collector \<Rightarrow> handled" where
  "handleSnapshot opts env streamId sid u co =
     (case Option.bind (we_msg env) OrderbookSnapshotMsg of
        None \<Rightarrow> (Some SchemaError, u, co)
      | Some msg \<Rightarrow>
          (let raw = iu_raw u;
               co = announce (ri_receivedAt raw) (tally (\<lambda>c. c\<lparr>cc_snapshots := cc_snapshots c + 1\<rparr>) co);
               (outcome, m) = (case streamId of
                  None \<Rightarrow> (\<lparr>rc_relevant = False, rc_completed = False, rc_episode = None\<rparr>, co_recovery co)
                | Some s \<Rightarrow> recordSnapshot s (sn_market_ticker msg) (ri_receivedAtMs raw) (co_recovery co));
               co = co\<lparr>co_recovery := m\<rparr>;
               (row, books) = bm_applySnapshot (cp_dec opts) (cp_sha256 opts)
                  \<lparr>xs_marketTicker = sn_market_ticker msg, xs_marketId = sn_market_id msg,
                   xs_yesBids = levelInput (cp_dec opts) (sn_yes_dollars_fp msg), xs_noBids = levelInput (cp_dec opts) (sn_no_dollars_fp msg),
                   xs_seq = ri_seq raw, xs_sid = sid, xs_sessionId = cp_sessionId opts, xs_streamId = idText streamId,
                   xs_source = (if rc_relevant outcome then WsRecovery else WsInitial),
                   xs_receivedAt = ri_receivedAt raw, xs_receivedAtMs = ri_receivedAtMs raw\<rparr> (co_books co);
               co = co\<lparr>co_books := books\<rparr>; u = pushRow row u
           in case (streamId, rc_episode outcome) of
                (Some s, Some e) \<Rightarrow>
                  (None, u, if rc_completed outcome then completeRecovery s (ep_gapId e) (ep_snapshotsReceived e) (ri_seq raw) co else co)
              | _ \<Rightarrow> (None, u, co)))"

definition deltaInput :: "collector_options \<Rightarrow> orderbook_delta_msg \<Rightarrow> string option \<Rightarrow> int option \<Rightarrow> raw_ingest_event \<Rightarrow> delta_input" where
  "deltaInput opts msg streamId sid raw =
     \<lparr>xd_marketTicker = dm_market_ticker msg, xd_marketId = dm_market_id msg, xd_side = dm_side msg,
      xd_price = dl_of_string (cp_dec opts) (dm_price_dollars msg), xd_delta = dl_of_string (cp_dec opts) (dm_delta_fp msg),
      xd_seq = (case ri_seq raw of None \<Rightarrow> 0 | Some n \<Rightarrow> n), xd_sid = sid, xd_sessionId = cp_sessionId opts,
      xd_streamId = idText streamId, xd_exchangeTsMs = ri_exchangeTsMs raw, xd_receivedAt = ri_receivedAt raw,
      xd_receivedAtMs = ri_receivedAtMs raw\<rparr>"

definition negativeRow ::
  "collector_options \<Rightarrow> int \<Rightarrow> orderbook_delta_msg \<Rightarrow> apply_delta_result \<Rightarrow> rat \<Rightarrow> raw_ingest_event \<Rightarrow> normalized_row" where
  "negativeRow opts now msg result post raw =
     integrityRow now (integrityEvent opts (Some (dm_market_ticker msg)) ItNegativeLevelQuantity SevError
       [(''side'', CText (sideString (dm_side msg))), (''price'', CText (dm_price_dollars msg)), (''delta'', CText (dm_delta_fp msg)),
        (''pre_count'', CDec (dr_preCount result)), (''post_count'', CDec post), (''seq'', intCell (ri_seq raw))])"

definition handleDelta ::
  "collector_options \<Rightarrow> int \<Rightarrow> ws_envelope \<Rightarrow> string option \<Rightarrow> int option \<Rightarrow> bool \<Rightarrow> string option \<Rightarrow> ingest_unit \<Rightarrow> collector
     \<Rightarrow> handled" where
  "handleDelta opts now env streamId sid applyAllowed skipReason u co =
     (case Option.bind (we_msg env) OrderbookDeltaMsg of
        None \<Rightarrow> (Some SchemaError, u, co)
      | Some msg \<Rightarrow>
          (let raw = iu_raw u; co = tally (\<lambda>c. c\<lparr>cc_orderbookDeltas := cc_orderbookDeltas c + 1\<rparr>) co;
               (outcome, books) = bm_applyDelta (cp_dec opts) (deltaInput opts msg streamId sid raw)
                  \<lparr>opt_canApply = applyAllowed, opt_skipReason = skipReason\<rparr> (co_books co);
               co = co\<lparr>co_books := books\<rparr>; u = pushRow (do_row outcome) u
           in case dr_postCount (do_result outcome) of
                None \<Rightarrow> (None, u, co)
              | Some post \<Rightarrow>
                  if \<not> post < 0 then (None, u, co)
                  else
                    (let co = tally (\<lambda>c. c\<lparr>cc_negativeLevels := cc_negativeLevels c + 1\<rparr>) co;
                         u = pushRow (negativeRow opts now msg (do_result outcome) post raw) u
                     in case streamId of
                          None \<Rightarrow> (None, u, co)
                        | Some _ \<Rightarrow>
                            (let (ok, co) = mayRequestSnapshot (dm_market_ticker msg) now co
                             in if \<not> ok then (None, u, co)
                                else (case askSnapshots [dm_market_ticker msg] co of
                                        (Inl e, co) \<Rightarrow> (Some SocketError, u, co)
                                      | (Inr n, co) \<Rightarrow> (None, u, co))))))"

definition tsCells :: "raw_ingest_event \<Rightarrow> (string \<times> cell) list" where
  \<comment> \<open>the four timestamps of a trade or ticker row; a zero timestamp is falsy\<close>
  "tsCells raw =
     [(''exchange_ts_ms'', bigintCell (ri_exchangeTsMs raw)),
      (''exchange_ts'', (case ri_exchangeTsMs raw of None \<Rightarrow> CNull | Some t \<Rightarrow> if t = 0 then CNull else CDate t)),
      (''received_at'', CDate (ri_receivedAt raw)), (''received_at_ms'', CText (int_str (ri_receivedAtMs raw)))]"

fun bookSideString :: "ladder_side \<Rightarrow> string" where
  "bookSideString Bid = ''bid''"
| "bookSideString Ask = ''ask''"

definition handleTrade :: "collector_options \<Rightarrow> ws_envelope \<Rightarrow> string option \<Rightarrow> ingest_unit \<Rightarrow> collector \<Rightarrow> handled" where
  "handleTrade opts env streamId u co =
     (case Option.bind (we_msg env) TradeMsg of
        None \<Rightarrow> (Some SchemaError, u, co)
      | Some msg \<Rightarrow>
          (let raw = iu_raw u; co = tally (\<lambda>c. c\<lparr>cc_trades := cc_trades c + 1\<rparr>) co;
               co = co\<lparr>co_marketState := recordTrade (cp_dec opts) (tm_market_ticker msg) (tm_yes_price_dollars msg) (tm_count_fp msg)
                         (ri_receivedAtMs raw) (co_marketState co)\<rparr>;
               row = \<lparr>nr_table = ''public_trades'', nr_linkRawEvent = True,
                 nr_values =
                  [(''trade_id'', CText (tm_trade_id msg)), (''session_id'', CText (cp_sessionId opts)), (''stream_id'', textCell streamId),
                   (''market_ticker'', CText (tm_market_ticker msg)), (''sid'', intCell (we_sid env)), (''seq'', bigintCell (ri_seq raw)),
                   (''yes_price'', CText (tm_yes_price_dollars msg)), (''no_price'', CText (tm_no_price_dollars msg)),
                   (''count'', CText (tm_count_fp msg)), (''taker_side'', textCell (map_option sideString (tm_taker_side msg))),
                   (''taker_outcome_side'', textCell (map_option sideString (tm_taker_outcome_side msg))),
                   (''taker_book_side'', textCell (map_option bookSideString (tm_taker_book_side msg))),
                   (''is_block_trade'', (case tm_is_block_trade msg of None \<Rightarrow> CNull | Some b \<Rightarrow> CBool b))] @ tsCells raw\<rparr>
           in (None, pushRow row u, co)))"

definition quoteDiffers :: "dec_lib \<Rightarrow> string option \<Rightarrow> rat option \<Rightarrow> bool" where
  "quoteDiffers L told held = (case told of None \<Rightarrow> False | Some s \<Rightarrow> held \<noteq> Some (dl_of_string L s))"

definition decOptCell :: "rat option \<Rightarrow> cell" where
  "decOptCell v = (case v of None \<Rightarrow> CNull | Some x \<Rightarrow> CDec x)"

definition crossCheckTickerBbo :: "collector_options \<Rightarrow> int \<Rightarrow> ticker_msg \<Rightarrow> ingest_unit \<Rightarrow> collector \<Rightarrow> ingest_unit \<times> collector" where
  "crossCheckTickerBbo opts now msg u co =
     (let t = tk_market_ticker msg; L = cp_dec opts in
      case bm_get (co_books co) t of
        None \<Rightarrow> (u, co)
      | Some book \<Rightarrow>
          if \<not> mb_valid book then (u, co)
          else
            (let bbo = getYesBBO L book;
                 differs = (quoteDiffers L (tk_yes_bid_dollars msg) (bbo_bid bbo) \<or> quoteDiffers L (tk_yes_ask_dollars msg) (bbo_ask bbo));
                 lastAt = (case js_get (co_lastTickerMismatchAt co) t of None \<Rightarrow> 0 | Some x \<Rightarrow> x);
                 nowMs = ri_receivedAtMs (iu_raw u)
             in if \<not> differs \<or> nowMs - lastAt < TICKER_MISMATCH_COOLDOWN_MS then (u, co)
                else
                  (pushRow (integrityRow now (integrityEvent opts (Some t) ItTickerBboMismatch SevInfo
                      [(''ticker_yes_bid'', textCell (tk_yes_bid_dollars msg)), (''ticker_yes_ask'', textCell (tk_yes_ask_dollars msg)),
                       (''book_yes_bid'', decOptCell (bbo_bid bbo)), (''book_yes_ask'', decOptCell (bbo_ask bbo)),
                       (''book_seq'', optText (mb_lastSeq book))])) u,
                   tally (\<lambda>c. c\<lparr>cc_tickerBboMismatches := cc_tickerBboMismatches c + 1\<rparr>)
                     (co\<lparr>co_lastTickerMismatchAt := js_set t nowMs (co_lastTickerMismatchAt co)\<rparr>))))"

definition numberText :: "collector_options \<Rightarrow> json option \<Rightarrow> cell" where
  "numberText opts v = (case v of Some (JStr s) \<Rightarrow> CText s | Some (JNum x) \<Rightarrow> CText (cp_numberString opts x) | _ \<Rightarrow> CNull)"

definition handleTicker :: "collector_options \<Rightarrow> int \<Rightarrow> ws_envelope \<Rightarrow> ingest_unit \<Rightarrow> collector \<Rightarrow> handled" where
  "handleTicker opts now env u co =
     (case Option.bind (we_msg env) TickerMsg of
        None \<Rightarrow> (Some SchemaError, u, co)
      | Some msg \<Rightarrow>
          (let raw = iu_raw u; co = tally (\<lambda>c. c\<lparr>cc_tickers := cc_tickers c + 1\<rparr>) co;
               co = co\<lparr>co_marketState := recordTicker (cp_dec opts) msg (ri_receivedAtMs raw) (co_marketState co)\<rparr>;
               row = \<lparr>nr_table = ''ticker_updates'', nr_linkRawEvent = True,
                 nr_values =
                  [(''session_id'', CText (cp_sessionId opts)), (''market_ticker'', CText (tk_market_ticker msg)),
                   (''market_id'', textCell (tk_market_id msg)), (''price'', textCell (tk_price_dollars msg)),
                   (''yes_bid'', textCell (tk_yes_bid_dollars msg)), (''yes_ask'', textCell (tk_yes_ask_dollars msg)),
                   (''yes_bid_size'', textCell (tk_yes_bid_size_fp msg)), (''yes_ask_size'', textCell (tk_yes_ask_size_fp msg)),
                   (''last_trade_size'', textCell (tk_last_trade_size_fp msg)), (''volume'', textCell (tk_volume_fp msg)),
                   (''open_interest'', textCell (tk_open_interest_fp msg)), (''dollar_volume'', numberText opts (tk_dollar_volume msg)),
                   (''dollar_open_interest'', numberText opts (tk_dollar_open_interest msg))] @ tsCells raw\<rparr>;
               (u, co) = crossCheckTickerBbo opts now msg (pushRow row u) co
           in (None, u, co)))"

definition lifecycleRow ::
  "collector_options \<Rightarrow> string \<Rightarrow> string option \<Rightarrow> string option \<Rightarrow> raw_ingest_event \<Rightarrow> cell \<Rightarrow> normalized_row" where
  "lifecycleRow opts ty t eventTicker raw payload =
     \<lparr>nr_table = ''market_lifecycle_events'', nr_linkRawEvent = True,
      nr_values = [(''session_id'', CText (cp_sessionId opts)), (''event_type'', CText ty), (''market_ticker'', textCell t),
        (''event_ticker'', textCell eventTicker), (''exchange_ts_ms'', bigintCell (ri_exchangeTsMs raw)),
        (''received_at'', CDate (ri_receivedAt raw)), (''payload'', payload)]\<rparr>"

definition refresh :: "refresh_call \<Rightarrow> string \<Rightarrow> collector \<Rightarrow> collector" where
  "refresh c reason co = emit (EmDiscoveryRefresh reason) (co\<lparr>co_refreshes := co_refreshes co @ [c]\<rparr>)"

definition handleLifecycle :: "collector_options \<Rightarrow> ws_envelope \<Rightarrow> string \<Rightarrow> ingest_unit \<Rightarrow> collector \<Rightarrow> handled" where
  "handleLifecycle opts env messageType u co =
     (let co = tally (\<lambda>c. c\<lparr>cc_lifecycle := cc_lifecycle c + 1\<rparr>) co; raw = iu_raw u in
      if messageType = ''market_lifecycle_v2'' then
        (case Option.bind (we_msg env) MarketLifecycleMsg of
           None \<Rightarrow> (Some SchemaError, u, co)
         | Some msg \<Rightarrow>
             if \<not> cp_isTracked opts (lm_market_ticker msg) then (None, u, co)
             else
               (None, pushRow (lifecycleRow opts (lm_event_type msg) (Some (lm_market_ticker msg)) None raw (jsonCell (the (we_msg env)))) u,
                if lm_event_type msg \<in> set METADATA_REFRESH_TRIGGERS
                then refresh (RefreshMarket (lm_market_ticker msg)) (''lifecycle:'' @ lm_event_type msg) co else co))
      else
        (let eventTicker = (if messageType = ''event_lifecycle'' then Option.bind (we_msg env) EventLifecycleMsg else None);
             payload = (case we_msg env of None \<Rightarrow> CObj [] | Some m \<Rightarrow> jsonCell m);
             u = pushRow (lifecycleRow opts messageType None eventTicker raw payload) u
         in case eventTicker of
              Some e \<Rightarrow> (None, u, if e = [] then co else refresh (RefreshEvent e) ''event_lifecycle'' co)
            | None \<Rightarrow> (None, u, co)))"

section \<open>Frames\<close>

fun stateText :: "stream_state \<Rightarrow> string" where
  "stateText Healthy = ''healthy''"
| "stateText Degraded = ''degraded''"
| "stateText Recovering = ''recovering''"
| "stateText Closed = ''closed''"

text \<open>Step two: whether the frame may change a book, and why not.\<close>

definition classifyFrame ::
  "collector_options \<Rightarrow> int \<Rightarrow> subscription option \<Rightarrow> string option \<Rightarrow> string \<Rightarrow> ingest_unit \<Rightarrow> collector
     \<Rightarrow> (bool \<times> string option) \<times> ingest_unit \<times> collector" where
  "classifyFrame opts now sub channel messageType u co =
     (case (sub, channel) of
        (Some sub, Some channel) \<Rightarrow>
          if \<not> isSequencedChannel (Some channel) then ((True, None), u, co)
          else
            (let s = sb_streamId sub;
                 (verdict, seqs) = st_observe s channel (ri_seq (iu_raw u)) (co_sequences co); co = co\<lparr>co_sequences := seqs\<rparr>;
                 expected = seqText (sr_expectedSeq verdict); received = seqText (sr_receivedSeq verdict);
                 ((allowed, reason), u, co) =
                   (case sr_verdict verdict of
                      VGap \<Rightarrow>
                        (let (u, co) = handleSequenceGap opts now sub (sr_expectedSeq verdict) (sr_receivedSeq verdict) u
                               (tally (\<lambda>c. c\<lparr>cc_sequenceGaps := cc_sequenceGaps c + 1\<rparr>) co)
                         in ((False, Some (''sequence gap: expected '' @ expected @ '', received '' @ received)), u, co))
                    | VDuplicate \<Rightarrow> ((False, Some (''sequence duplicate: expected '' @ expected @ '', received '' @ received)), u, co)
                    | VOutOfOrder \<Rightarrow> ((False, Some (''sequence out_of_order: expected '' @ expected @ '', received '' @ received)), u, co)
                    | VDegraded \<Rightarrow>
                        ((messageType = ''orderbook_snapshot'', Some ''stream degraded; awaiting recovery snapshot''), u,
                         co\<lparr>co_recovery := withhold s (co_recovery co)\<rparr>)
                    | _ \<Rightarrow> ((True, None), u, co))
             in if allowed \<and> messageType \<noteq> ''orderbook_snapshot'' \<and> \<not> canApplyDeltas (co_recovery co) s
                then ((False, case reason of Some r \<Rightarrow> Some r
                         | None \<Rightarrow> Some (''stream '' @ stateText (stateOf (co_recovery co) s) @ ''; awaiting recovery snapshot'')), u, co)
                else ((allowed, reason), u, co))
      | _ \<Rightarrow> ((True, None), u, co))"

text \<open>Steps three and four.\<close>

definition dispatch ::
  "collector_options \<Rightarrow> int \<Rightarrow> ws_envelope \<Rightarrow> subscription option \<Rightarrow> bool \<Rightarrow> string option \<Rightarrow> ingest_unit \<Rightarrow> collector
     \<Rightarrow> handled" where
  "dispatch opts now env sub allowed reason u co =
     (let ty = we_type env; s = map_option sb_streamId sub; sid = Option.bind sub sb_sid in
      if ty = ''orderbook_snapshot'' then handleSnapshot opts env s sid u co
      else if ty = ''orderbook_delta'' then handleDelta opts now env s sid allowed reason u co
      else if ty = ''trade'' then handleTrade opts env s u co
      else if ty = ''ticker'' \<or> ty = ''ticker_v2'' then handleTicker opts now env u co
      else if ty = ''market_lifecycle_v2'' \<or> ty = ''event_lifecycle'' \<or> ty = ''event_fee_update'' then handleLifecycle opts env ty u co
      else (None, u, co))"

definition isControl :: "string \<Rightarrow> bool" where
  "isControl ty \<longleftrightarrow> ty \<in> {''ok'', ''unsubscribed'', ''ping'', ''pong''}"

definition subOf :: "ws_envelope option \<Rightarrow> collector \<Rightarrow> subscription option" where
  "subOf env co = Option.bind (Option.bind env we_sid) (\<lambda>sid. bySidOrNull sid (co_subscriptions co))"

definition unparseableRow :: "collector_options \<Rightarrow> int \<Rightarrow> raw_frame \<Rightarrow> normalized_row" where
  "unparseableRow opts now f =
     integrityRow now (integrityEvent opts None ItUnexpectedSchema SevError
       ((case fm_parseError f of None \<Rightarrow> [] | Some e \<Rightarrow> [(''parseError'', CText e)]) @ [(''preview'', CText (take 500 (fm_text f)))]))"

definition failedRow :: "collector_options \<Rightarrow> int \<Rightarrow> raw_ingest_event \<Rightarrow> frame_error \<Rightarrow> normalized_row" where
  "failedRow opts now raw err =
     integrityRow now (integrityEvent opts (ri_marketTicker raw) ItUnexpectedSchema SevError
       [(''messageType'', CText (ri_messageType raw)),
        (''error'', CText (case err of SchemaError \<Rightarrow> ''ZodError'' | SocketError \<Rightarrow> ''Error: cannot send: websocket is not open''))])"

text \<open>Steps two to five, for a frame that carries data. \<open>canonical\<close> is what \<open>canWriteCanonical\<close> answers.\<close>

definition handleData ::
  "collector_options \<Rightarrow> int \<Rightarrow> bool \<Rightarrow> ws_envelope \<Rightarrow> subscription option \<Rightarrow> string option \<Rightarrow> ingest_unit \<Rightarrow> collector
     \<Rightarrow> collector" where
  "handleData opts now canonical env sub channel u co =
     (let ((allowed, reason), u, co) = classifyFrame opts now sub channel (we_type env) u co;
          (err, u, co) = dispatch opts now env sub allowed reason u co;
          u = (case err of None \<Rightarrow> u | Some e \<Rightarrow> pushRow (failedRow opts now (iu_raw u) e) u);
          u = (if canonical then u
               else u\<lparr>iu_normalized := filter (\<lambda>r. nr_table r = ''integrity_events'') (iu_normalized u)\<rparr>)
      in tally (\<lambda>c. c\<lparr>cc_messagesPersisted := cc_messagesPersisted c + 1\<rparr>) (enqueue u co))"

text \<open>
  One frame. The listener catches what is thrown, so a throw ends the frame with the state of that moment.
\<close>

definition handleFrame :: "collector_options \<Rightarrow> int \<Rightarrow> bool \<Rightarrow> raw_frame \<Rightarrow> collector \<Rightarrow> collector" where
  "handleFrame opts now canonical f co =
     (let co = tally (\<lambda>c. c\<lparr>cc_messagesReceived := cc_messagesReceived c + 1\<rparr>) (co\<lparr>co_ingestOrdinal := co_ingestOrdinal co + 1\<rparr>);
          sub = subOf (fm_envelope f) co;
          channel = (case sub of Some s \<Rightarrow> Some (sb_channel s) | None \<Rightarrow> channelForType (messageTypeOf f))
      in case toRawIngestEvent (cp_sha256 opts) (cp_dateParse opts) f (cp_sessionId opts) (map_option sb_streamId sub) (co_ingestOrdinal co) of
           None \<Rightarrow> co
         | Some raw \<Rightarrow>
             (let u = \<lparr>iu_raw = raw, iu_normalized = []\<rparr>;
                  co = (case ri_exchangeTsMs raw of None \<Rightarrow> co | Some t \<Rightarrow> emit (EmLatency t (ri_receivedAtMs raw)) co)
              in case fm_envelope f of
                   None \<Rightarrow> enqueue (pushRow (unparseableRow opts now f) u) (tally (\<lambda>c. c\<lparr>cc_unparseable := cc_unparseable c + 1\<rparr>) co)
                 | Some env \<Rightarrow>
                     if we_type env = ''subscribed'' then enqueue u (handleSubscribed env co)
                     else if we_type env = ''error'' then enqueue (handleError opts now env u) co
                     else if isControl (we_type env) then enqueue u co
                     else handleData opts now canonical env sub channel u co))"

section \<open>Subscribing and disconnecting\<close>

text \<open>
  What follows the creation of the stream's row, for one subscription; the row is written first, and if that is rejected the rest of the
  call does not run. \<open>subscribeAll\<close> also tells the books which markets the stream carries.
\<close>

definition registerStream :: "bool \<Rightarrow> subscription \<Rightarrow> collector \<Rightarrow> collector" where
  "registerStream tellBooks sub co =
     (let s = sb_streamId sub;
          co = co\<lparr>co_sequences := snd (st_register s (sb_channel sub) (co_sequences co)), co_recovery := rm_register s (co_recovery co)\<rparr>
      in if tellBooks then co\<lparr>co_books := foldl (\<lambda>b t. associate s t b) (co_books co) (sb_markets sub)\<rparr> else co)"

fun registerStreams :: "database \<Rightarrow> bool \<Rightarrow> subscription list \<Rightarrow> collector \<Rightarrow> bool \<times> collector" where
  "registerStreams db tellBooks [] co = (True, co)"
| "registerStreams db tellBooks (sub # subs) co =
     (case db_call db (DbCreateStream sub) co of
        (None, co) \<Rightarrow> (False, co)
      | (Some _, co) \<Rightarrow> registerStreams db tellBooks subs (registerStream tellBooks sub co))"

fun subscribeChannels :: "collector_options \<Rightarrow> database \<Rightarrow> int \<Rightarrow> string list \<Rightarrow> string list \<Rightarrow> collector \<Rightarrow> bool \<times> collector" where
  "subscribeChannels opts db now markets [] co = (True, co)"
| "subscribeChannels opts db now markets (channel # channels) co =
     (case subscribe (cp_uuid opts) now channel markets (co_subscriptions co) of
        (Inl e, m) \<Rightarrow> (False, co\<lparr>co_subscriptions := m\<rparr>)
      | (Inr subs, m) \<Rightarrow>
          (case registerStreams db True subs (co\<lparr>co_subscriptions := m\<rparr>) of
             (False, co) \<Rightarrow> (False, co)
           | (True, co) \<Rightarrow> subscribeChannels opts db now markets channels co))"

definition subscribeAll :: "collector_options \<Rightarrow> database \<Rightarrow> int \<Rightarrow> string list \<Rightarrow> collector \<Rightarrow> bool \<times> collector" where
  "subscribeAll opts db now markets co =
     (if 0 < sm_size (co_subscriptions co) then (True, co)
      else subscribeChannels opts db now markets (enabledChannels (cp_capture opts)) co)"

definition subscribeChannel ::
  "collector_options \<Rightarrow> database \<Rightarrow> int \<Rightarrow> string \<Rightarrow> string list \<Rightarrow> collector \<Rightarrow> (string \<times> int) option \<times> collector" where
  "subscribeChannel opts db now channel markets co =
     (case subscribe (cp_uuid opts) now channel markets (co_subscriptions co) of
        (Inl e, m) \<Rightarrow> (None, co\<lparr>co_subscriptions := m\<rparr>)
      | (Inr [], m) \<Rightarrow> (None, co\<lparr>co_subscriptions := m\<rparr>)
      | (Inr (sub # _), m) \<Rightarrow>
          (case registerStreams db False [sub] (co\<lparr>co_subscriptions := m\<rparr>) of
             (False, co) \<Rightarrow> (None, co)
           | (True, co) \<Rightarrow> (Some (sb_streamId sub, case sb_pendingCommandId sub of None \<Rightarrow> 0 | Some c \<Rightarrow> c), co)))"

definition diffChannel ::
  "collector_options \<Rightarrow> database \<Rightarrow> int \<Rightarrow> string list \<Rightarrow> string list \<Rightarrow> string \<Rightarrow> collector \<Rightarrow> bool \<times> collector" where
  "diffChannel opts db now added removed channel co =
     (let (ok, co) =
            (if added = [] then (True, co)
             else case addMarkets (cp_uuid opts) now channel added (co_subscriptions co) of
                    (Inl e, m) \<Rightarrow> (False, co\<lparr>co_subscriptions := m\<rparr>)
                  | (Inr (updated, created), m) \<Rightarrow> registerStreams db False created (co\<lparr>co_subscriptions := m\<rparr>))
      in if \<not> ok then (False, co)
         else if removed = [] then (True, co)
         else (case removeMarkets channel removed (co_subscriptions co) of
                 (Inl e, m) \<Rightarrow> (False, co\<lparr>co_subscriptions := m\<rparr>)
               | (Inr _, m) \<Rightarrow> (True, co\<lparr>co_subscriptions := m\<rparr>)))"

fun diffChannels ::
  "collector_options \<Rightarrow> database \<Rightarrow> int \<Rightarrow> string list \<Rightarrow> string list \<Rightarrow> string list \<Rightarrow> collector \<Rightarrow> bool \<times> collector" where
  "diffChannels opts db now added removed [] co = (True, co)"
| "diffChannels opts db now added removed (channel # channels) co =
     (case diffChannel opts db now added removed channel co of
        (False, co) \<Rightarrow> (False, co)
      | (True, co) \<Rightarrow> diffChannels opts db now added removed channels co)"

definition applyUniverseDiff :: "collector_options \<Rightarrow> database \<Rightarrow> int \<Rightarrow> string list \<Rightarrow> string list \<Rightarrow> collector \<Rightarrow> bool \<times> collector" where
  "applyUniverseDiff opts db now added removed co =
     (if added = [] \<and> removed = [] \<or> sm_size (co_subscriptions co) = 0 then (True, co)
      else
        (let (ok, co) = diffChannels opts db now added removed (enabledChannels (cp_capture opts)) co
         in if \<not> ok then (False, co)
            else (True, foldl (\<lambda>co t. co\<lparr>co_books := bm_remove t (co_books co), co_marketState := js_del t (co_marketState co)\<rparr>) co removed)))"

text \<open>
  A lost connection. The code awaits the closing of each stream's row; the three parts are what it does between the awaits.
\<close>

definition disconnectStart :: "collector \<Rightarrow> subscription list \<times> nat \<times> collector" where
  "disconnectStart co =
     (let (affected, books) = invalidateAll ''websocket disconnected; awaiting fresh snapshots'' (co_books co);
          (streams, m) = sm_reset (co_subscriptions co)
      in (streams, length affected, tally (\<lambda>c. c\<lparr>cc_reconnects := cc_reconnects c + 1\<rparr>) (co\<lparr>co_books := books, co_subscriptions := m\<rparr>)))"

definition disconnectStream :: "subscription \<Rightarrow> collector \<Rightarrow> collector" where
  "disconnectStream sub co =
     (let s = sb_streamId sub; (orphaned, m) = rm_close s (co_recovery co);
          co = co\<lparr>co_sequences := st_remove s (co_sequences co), co_recovery := m\<rparr>
      in case orphaned of
           None \<Rightarrow> co
         | Some e \<Rightarrow>
             (case ep_gapId e of
                None \<Rightarrow> co
              | Some gapId \<Rightarrow>
                  defer_task (DtSuperseded gapId (''stream closed with '' @ natText (length (ep_outstanding e)) @
                    '' market(s) outstanding; the next stream re-seeds every book from a fresh snapshot'')) co))"

definition disconnectEnd :: "collector_options \<Rightarrow> int \<Rightarrow> nat \<Rightarrow> nat \<Rightarrow> collector \<Rightarrow> collector" where
  "disconnectEnd opts now streams invalidated co =
     (let co = foldl (\<lambda>co e. case ep_gapId e of None \<Rightarrow> co
                | Some gapId \<Rightarrow> defer_task (DtSuperseded gapId ''collector disconnected before recovery completed'') co) co
                (openEpisodes (co_recovery co));
          co = co\<lparr>co_recovery := rm_reset (co_recovery co)\<rparr>;
          co = enqueueDerived [integrityRow now (integrityEvent opts None ItWsDisconnect SevWarning
                 [(''invalidatedBooks'', CInt (int invalidated)), (''streamsClosed'', CInt (int streams))])] co
      in emit (EmDisconnected invalidated) co)"

definition handleDisconnect :: "collector_options \<Rightarrow> database \<Rightarrow> int \<Rightarrow> collector \<Rightarrow> collector" where
  \<comment> \<open>with nothing else happening meanwhile\<close>
  "handleDisconnect opts db now co =
     (let (streams, invalidated, co) = disconnectStart co;
          co = foldl (\<lambda>co sub. disconnectStream sub (snd (db_call db (DbCloseStream (sb_streamId sub)) co))) co streams
      in disconnectEnd opts now (length streams) invalidated co)"

section \<open>Periodic work\<close>

definition persistStreamProgress :: "database \<Rightarrow> collector \<Rightarrow> collector" where
  "persistStreamProgress db co =
     foldl (\<lambda>co st. snd (db_call db (DbUpdateStreamSeq (ss_streamId st) (ss_firstSeq st) (ss_lastSeq st) (ss_gapCount st)) co)) co
       (st_all (co_sequences co))"

fun issueCells :: "consistency_issue \<Rightarrow> (string \<times> cell) list" where
  "issueCells (NegativeSize side price sz) =
     [(''kind'', CText ''negative_size''), (''side'', CText (sideString side)), (''price'', CText price), (''size'', CDec sz)]"
| "issueCells (PriceOutOfRange side price) =
     [(''kind'', CText ''price_out_of_range''), (''side'', CText (sideString side)), (''price'', CText price)]"
| "issueCells (CrossedBook bid ask) = [(''kind'', CText ''crossed_book''), (''bid'', CDec bid), (''ask'', CDec ask)]"

definition runConsistencyChecks :: "collector_options \<Rightarrow> int \<Rightarrow> collector \<Rightarrow> normalized_row list" where
  "runConsistencyChecks opts now co =
     concat (map (\<lambda>book. map (\<lambda>issue.
        (let crossed = (case issue of CrossedBook _ _ \<Rightarrow> True | _ \<Rightarrow> False)
         in integrityRow now (integrityEvent opts (Some (mb_ticker book)) (if crossed then ItCrossedBook else ItPriceOutOfRange)
              (if crossed then SevInfo else SevWarning) (issueCells issue @ [(''seq'', optText (mb_lastSeq book))]))))
        (checkConsistency (cp_dec opts) book)) (validBooks (co_books co)))"

fun handoffLoop :: "collector_options \<Rightarrow> int \<Rightarrow> market_book list \<Rightarrow> collector \<Rightarrow> normalized_row list \<times> collector" where
  "handoffLoop opts at_ms [] co = ([], co)"
| "handoffLoop opts at_ms (book # books) co =
     (let L = cp_dec opts; entry = (\<lambda>l. (dl_of_string L (fst l), dl_of_string L (snd l)));
          (row, m) = bm_applySnapshot L (cp_sha256 opts)
            \<lparr>xs_marketTicker = mb_ticker book, xs_marketId = None, xs_yesBids = map entry (yesBidLevels L book),
             xs_noBids = map entry (noBidLevels L book), xs_seq = mb_lastSeq book, xs_sid = None, xs_sessionId = cp_sessionId opts,
             xs_streamId = idText (mb_streamId book), xs_source = SessionHandoff, xs_receivedAt = at_ms, xs_receivedAtMs = at_ms\<rparr> (co_books co);
          (rows, co) = handoffLoop opts at_ms books (co\<lparr>co_books := m\<rparr>)
      in (row # rows, co))"

definition handoffSnapshots :: "collector_options \<Rightarrow> int \<Rightarrow> collector \<Rightarrow> normalized_row list \<times> collector" where
  "handoffSnapshots opts at_ms co = handoffLoop opts at_ms (validBooks (co_books co)) co"

end
