(* ===== verification/CollectorProps.thy ===== *)
theory CollectorProps
  imports Collector
begin

text \<open>
  What the recorder guarantees. \<open>co_op\<close> lists what can happen to it; between the awaits of a call anything may happen in the program, but a
  call is taken here with nothing between its parts. The invariant \<open>collector_ok\<close> ties the sequence tracker to the recovery machine: a
  stream is degraded for the one exactly when it is not healthy for the other.
\<close>

section \<open>Runs\<close>

datatype co_op =
  CoFrame int bool raw_frame
| CoSubscribeAll int "string list"
| CoSubscribeChannel int string "string list"
| CoUniverseDiff int "string list" "string list"
| CoConnection bool
| CoDisconnect int
| CoDeferred
| CoReap int
| CoRequestSnapshots int "string list"
| CoPersist
| CoHandoff int

fun coStep :: "collector_options \<Rightarrow> database \<Rightarrow> collector \<Rightarrow> co_op \<Rightarrow> collector" where
  "coStep opts db co (CoFrame now canonical f) = handleFrame opts now canonical f co"
| "coStep opts db co (CoSubscribeAll now markets) = snd (subscribeAll opts db now markets co)"
| "coStep opts db co (CoSubscribeChannel now channel markets) = snd (subscribeChannel opts db now channel markets co)"
| "coStep opts db co (CoUniverseDiff now added removed) = snd (applyUniverseDiff opts db now added removed co)"
| "coStep opts db co (CoConnection isOpen) =
     co\<lparr>co_subscriptions := (co_subscriptions co)\<lparr>sm_ws := (sm_ws (co_subscriptions co))\<lparr>ws_isOpen := isOpen\<rparr>\<rparr>\<rparr>"
| "coStep opts db co (CoDisconnect now) = handleDisconnect opts db now co"
| "coStep opts db co CoDeferred = drainOne opts db co"
| "coStep opts db co (CoReap now) = reapStalledRecoveries now co"
| "coStep opts db co (CoRequestSnapshots now markets) = snd (requestRecoverySnapshots now markets co)"
| "coStep opts db co CoPersist = persistStreamProgress db co"
| "coStep opts db co (CoHandoff now) = snd (handoffSnapshots opts now co)"

definition coRun :: "collector_options \<Rightarrow> database \<Rightarrow> collector \<Rightarrow> co_op list \<Rightarrow> collector" where
  "coRun opts db co ops = foldl (coStep opts db) co ops"

section \<open>What leaves the streams alone\<close>

text \<open>
  \<open>bystander\<close>: the tracker, the machine and the record of what went to the writer are as they were, and of the subscriptions at most
  the socket changed.
\<close>

definition bystander :: "collector \<Rightarrow> collector \<Rightarrow> bool" where
  "bystander co co' \<longleftrightarrow> co_sequences co' = co_sequences co \<and> co_recovery co' = co_recovery co \<and> co_writer co' = co_writer co \<and>
     co_ingestOrdinal co' = co_ingestOrdinal co \<and> (\<exists>ws. co_subscriptions co' = (co_subscriptions co)\<lparr>sm_ws := ws\<rparr>)"

lemma bystander_refl [simp]: "bystander co co"
  by (auto simp: bystander_def intro: exI [of _ "sm_ws (co_subscriptions co)"])

lemma bystander_trans: "bystander co co1 \<Longrightarrow> bystander co1 co2 \<Longrightarrow> bystander co co2"
  by (auto simp: bystander_def)

lemma bystanderI:
  "co_sequences co' = co_sequences co \<Longrightarrow> co_recovery co' = co_recovery co \<Longrightarrow> co_writer co' = co_writer co \<Longrightarrow>
   co_ingestOrdinal co' = co_ingestOrdinal co \<Longrightarrow> co_subscriptions co' = co_subscriptions co \<Longrightarrow> bystander co co'"
  by (auto simp: bystander_def intro: exI [of _ "sm_ws (co_subscriptions co)"])

lemma effects_bystand [simp]:
  "bystander co (emit e co)" "bystander co (defer_task t co)" "bystander co (tally f co)" "bystander co (co\<lparr>co_books := b\<rparr>)"
  "bystander co (co\<lparr>co_marketState := c\<rparr>)" "bystander co (co\<lparr>co_lastTickerMismatchAt := l\<rparr>)" "bystander co (announce x co)"
  "bystander co (refresh r s co)"
  by (simp_all add: bystanderI emit_def defer_task_def tally_def announce_def refresh_def)

lemma effects_fields [simp]:
  "co_sequences (emit e co) = co_sequences co" "co_recovery (emit e co) = co_recovery co" "co_subscriptions (emit e co) = co_subscriptions co"
  "co_writer (emit e co) = co_writer co" "co_ingestOrdinal (emit e co) = co_ingestOrdinal co" "co_books (emit e co) = co_books co"
  "co_sequences (defer_task t co) = co_sequences co" "co_recovery (defer_task t co) = co_recovery co"
  "co_subscriptions (defer_task t co) = co_subscriptions co" "co_writer (defer_task t co) = co_writer co"
  "co_ingestOrdinal (defer_task t co) = co_ingestOrdinal co" "co_books (defer_task t co) = co_books co"
  "co_sequences (tally f co) = co_sequences co" "co_recovery (tally f co) = co_recovery co" "co_subscriptions (tally f co) = co_subscriptions co"
  "co_writer (tally f co) = co_writer co" "co_ingestOrdinal (tally f co) = co_ingestOrdinal co" "co_books (tally f co) = co_books co"
  "co_sequences (announce x co) = co_sequences co" "co_recovery (announce x co) = co_recovery co"
  "co_subscriptions (announce x co) = co_subscriptions co" "co_writer (announce x co) = co_writer co"
  "co_ingestOrdinal (announce x co) = co_ingestOrdinal co" "co_books (announce x co) = co_books co"
  "co_sequences (enqueue u co) = co_sequences co" "co_recovery (enqueue u co) = co_recovery co"
  "co_subscriptions (enqueue u co) = co_subscriptions co" "co_writer (enqueue u co) = co_writer co @ [WcEnqueue u]"
  "co_ingestOrdinal (enqueue u co) = co_ingestOrdinal co" "co_books (enqueue u co) = co_books co"
  by (simp_all add: emit_def defer_task_def tally_def announce_def enqueue_def)

lemma askSnapshots_bystands: "askSnapshots ts co = (r, co') \<Longrightarrow> bystander co co' \<and> co_books co' = co_books co"
  by (auto simp: askSnapshots_def requestSnapshots_def bystander_def split: prod.splits)

lemma mayRequest_bystands: "mayRequestSnapshot t now co = (ok, co') \<Longrightarrow> bystander co co' \<and> co_books co' = co_books co"
  by (auto simp: mayRequestSnapshot_def Let_def bystander_def split: if_splits intro: exI [of _ "sm_ws (co_subscriptions co)"])

lemma allowed_bystands: "allowedMarkets now ts co = (r, co') \<Longrightarrow> bystander co co'"
proof (induction ts arbitrary: co r co')
  case (Cons t ts)
  obtain ok co1 where m: "mayRequestSnapshot t now co = (ok, co1)" by fastforce
  obtain r2 co2 where a: "allowedMarkets now ts co1 = (r2, co2)" by fastforce
  have "co' = co2" using Cons.prems m a by simp
  then show ?case using mayRequest_bystands [OF m] Cons.IH [OF a] bystander_trans by blast
qed simp

lemma requestRecovery_bystands: "requestRecoverySnapshots now ts co = (r, co') \<Longrightarrow> bystander co co'"
proof -
  assume a: "requestRecoverySnapshots now ts co = (r, co')"
  obtain allowed co1 where al: "allowedMarkets now ts co = (allowed, co1)" by fastforce
  show ?thesis
  proof (cases "allowed = []")
    case True
    then show ?thesis using a al allowed_bystands [OF al] by (simp add: requestRecoverySnapshots_def)
  next
    case False
    then have "askSnapshots allowed co1 = (r, co')" using a al by (simp add: requestRecoverySnapshots_def)
    then show ?thesis using allowed_bystands [OF al] askSnapshots_bystands bystander_trans by blast
  qed
qed

lemma trade_bystands: "handleTrade opts env s u co = (err, u', co') \<Longrightarrow> bystander co co' \<and> iu_raw u' = iu_raw u"
  by (auto simp: handleTrade_def Let_def pushRow_def intro!: bystanderI split: option.splits)

lemma ticker_bystands: "handleTicker opts now env u co = (err, u', co') \<Longrightarrow> bystander co co' \<and> iu_raw u' = iu_raw u"
  by (auto simp: handleTicker_def crossCheckTickerBbo_def Let_def pushRow_def intro!: bystanderI split: option.splits if_splits prod.splits)

lemma lifecycle_bystands: "handleLifecycle opts env ty u co = (err, u', co') \<Longrightarrow> bystander co co' \<and> iu_raw u' = iu_raw u"
  by (auto simp: handleLifecycle_def refresh_def Let_def pushRow_def intro!: bystanderI split: option.splits if_splits)

lemma delta_bystands:
  assumes "handleDelta opts now env s sid allowed reason u co = (err, u', co')"
  shows "bystander co co' \<and> iu_raw u' = iu_raw u"
proof (cases "Option.bind (we_msg env) OrderbookDeltaMsg")
  case None
  then show ?thesis using assms by (simp add: handleDelta_def)
next
  case (Some msg)
  obtain outcome books where b: "bm_applyDelta (cp_dec opts) (deltaInput opts msg s sid (iu_raw u))
      \<lparr>opt_canApply = allowed, opt_skipReason = reason\<rparr> (co_books co) = (outcome, books)" by fastforce
  define co1 where "co1 = (tally (\<lambda>c. c\<lparr>cc_orderbookDeltas := cc_orderbookDeltas c + 1\<rparr>) co)\<lparr>co_books := books\<rparr>"
  define co2 where "co2 = tally (\<lambda>c. c\<lparr>cc_negativeLevels := cc_negativeLevels c + 1\<rparr>) co1"
  have k: "bystander co co1" "bystander co co2" by (simp_all add: co1_def co2_def bystanderI)
  obtain ok co3 where m: "mayRequestSnapshot (dm_market_ticker msg) now co2 = (ok, co3)" by fastforce
  obtain r co4 where a: "askSnapshots [dm_market_ticker msg] co3 = (r, co4)" by fastforce
  have "co' \<in> {co1, co2, co3, co4} \<and> iu_raw u' = iu_raw u"
    using assms Some b m a
    by (auto simp: handleDelta_def Let_def pushRow_def co1_def co2_def split: option.splits if_splits sum.splits)
  moreover have "bystander co co3" using mayRequest_bystands [OF m] k(2) bystander_trans by blast
  moreover have "bystander co co4" using askSnapshots_bystands [OF a] \<open>bystander co co3\<close> bystander_trans by blast
  ultimately show ?thesis using k by blast
qed

section \<open>The tracker and the machine agree\<close>

definition degradedAt :: "sequence_tracker \<Rightarrow> string \<Rightarrow> bool" where
  "degradedAt tr s \<longleftrightarrow> (\<exists>st. js_get tr s = Some st \<and> ss_degraded st)"

definition agree :: "sequence_tracker \<Rightarrow> recovery_machine \<Rightarrow> bool" where
  "agree tr m \<longleftrightarrow> (\<forall>s. degradedAt tr s \<longleftrightarrow> stateOf m s \<noteq> Healthy)"

definition collector_ok :: "collector_options \<Rightarrow> collector \<Rightarrow> bool" where
  "collector_ok opts co \<longleftrightarrow> subs_ok (cp_uuid opts) (co_subscriptions co) \<and> 0 < sm_max (co_subscriptions co) \<and>
     machine_ok (co_recovery co) \<and> agree (co_sequences co) (co_recovery co) \<and>
     (\<forall>s. js_get (co_sequences co) s \<noteq> None \<longrightarrow> byStreamId s (co_subscriptions co) \<noteq> None)"

lemma collector_okD:
  assumes "collector_ok opts co"
  shows "subs_ok (cp_uuid opts) (co_subscriptions co)" "0 < sm_max (co_subscriptions co)" "machine_ok (co_recovery co)"
    "agree (co_sequences co) (co_recovery co)"
    "\<And>s. js_get (co_sequences co) s \<noteq> None \<Longrightarrow> byStreamId s (co_subscriptions co) \<noteq> None"
  using assms unfolding collector_ok_def by blast+

lemma bystander_ok: "bystander co co' \<Longrightarrow> collector_ok opts co' = collector_ok opts co"
proof -
  assume b: "bystander co co'"
  then obtain ws where w: "co_subscriptions co' = (co_subscriptions co)\<lparr>sm_ws := ws\<rparr>" by (auto simp: bystander_def)
  have "subs_ok u (m\<lparr>sm_ws := ws\<rparr>) = subs_ok u m" for u m
    using subs_ok_cong [of u m "m\<lparr>sm_ws := ws\<rparr>"] subs_ok_cong [of u "m\<lparr>sm_ws := ws\<rparr>" m] by auto
  moreover have "byStreamId s (m\<lparr>sm_ws := ws\<rparr>) = byStreamId s m" for s m by (simp add: byStreamId_def)
  ultimately show ?thesis using b by (simp add: collector_ok_def bystander_def w)
qed

lemma observe_degraded:
  assumes "st_observe s ch seq tr = (v, tr')"
  shows "degradedAt tr' s' \<longleftrightarrow> degradedAt tr s' \<or> s' = s \<and> sr_verdict v = VGap"
    and "sr_verdict v = VGap \<Longrightarrow> \<not> degradedAt tr s" and "sr_verdict v = VDegraded \<Longrightarrow> degradedAt tr s"
    and "js_get tr' s' \<noteq> None \<longleftrightarrow> js_get tr s' \<noteq> None \<or> s' = s"
proof -
  define st where "st = (case js_get tr s of Some st \<Rightarrow> st | None \<Rightarrow> newStreamState s ch)"
  have v: "v = fst (classify ch seq st)" and own: "js_get tr' s = Some (snd (classify ch seq st))"
    using assms by (auto simp: st_observe_def st_register_def st_def Let_def case_prod_unfold simp del: map_of_eq_Some_iff split: option.splits)
  have other: "js_get tr' s' = js_get tr s'" if "s' \<noteq> s" for s' using st_observe_other [OF that, of ch seq tr] assms by simp
  have deg: "degradedAt tr s \<longleftrightarrow> ss_degraded st" by (simp add: degradedAt_def st_def newStreamState_def split: option.split)
  have c: "ss_degraded (snd (classify ch seq st)) \<longleftrightarrow> ss_degraded st \<or> sr_verdict v = VGap" "sr_verdict v = VGap \<Longrightarrow> \<not> ss_degraded st"
    "sr_verdict v = VDegraded \<Longrightarrow> ss_degraded st"
    unfolding v by (auto simp: classify_def Let_def split: option.splits if_splits)
  show "degradedAt tr' s' \<longleftrightarrow> degradedAt tr s' \<or> s' = s \<and> sr_verdict v = VGap"
    using own other [of s'] c(1) deg by (cases "s' = s") (auto simp: degradedAt_def simp del: map_of_eq_Some_iff)
  show "sr_verdict v = VGap \<Longrightarrow> \<not> degradedAt tr s" "sr_verdict v = VDegraded \<Longrightarrow> degradedAt tr s" using c deg by blast+
  show "js_get tr' s' \<noteq> None \<longleftrightarrow> js_get tr s' \<noteq> None \<or> s' = s" using own other [of s'] by (cases "s' = s") auto
qed

lemma openGap_healthy:
  assumes "machine_ok m" "stateOf m s = Healthy" "openGap s inp m = ((opened, e), m')"
  shows "opened" "machine_ok m'" "stateOf m' = (stateOf m)(s := Degraded)" "episodeOf m' s \<noteq> None"
proof -
  have none: "episodeOf m s = None" using machine_okD(1) [OF assms(1), of s] assms(2) by (cases "episodeOf m s") auto
  then show "opened" "stateOf m' = (stateOf m)(s := Degraded)" "episodeOf m' s \<noteq> None"
    using assms(3) by (auto simp: openGap_def Let_def fun_eq_iff)
  show "machine_ok m'" using machine_ok_openGap [OF assms(1), of s inp] assms(3) by simp
qed

lemma episode_other:
  assumes "s' \<noteq> s"
  shows "episodeOf (snd (openGap s inp m)) s' = episodeOf m s'" "episodeOf (snd (markRecoveryRequested s t m)) s' = episodeOf m s'"
    "episodeOf (snd (markRecoveryUnavailable s m)) s' = episodeOf m s'"
  using assms by (simp_all add: openGap_def markRecoveryRequested_def markRecoveryUnavailable_def Let_def split: option.split)

lemma requested_state:
  "stateOf (snd (markRecoveryRequested s t m)) s' =
    (if s' = s \<and> episodeOf m s \<noteq> None \<and> stateOf m s = Degraded then Recovering else stateOf m s')"
  by (auto simp: markRecoveryRequested_def Let_def split: option.split)

lemma unavailable_state:
  "stateOf (snd (markRecoveryUnavailable s m)) s' = (if s' = s \<and> episodeOf m s \<noteq> None then Degraded else stateOf m s')"
  by (auto simp: markRecoveryUnavailable_def split: option.split)

lemma withhold_state [simp]: "stateOf (withhold s m) = stateOf m"
  by (auto simp: withhold_def fun_eq_iff split: option.split)

lemma snapshot_state:
  "recordSnapshot s t now m = (r, m') \<Longrightarrow>
     stateOf m' s' = (if s' = s \<and> rc_completed r then Healthy else stateOf m s') \<and> (rc_completed r \<longrightarrow> rc_episode r \<noteq> None)"
  by (auto simp: recordSnapshot_def Let_def split: option.splits if_splits)

lemma reset_degraded: "degradedAt (snd (resetAfterRecovery s seq tr)) s' \<longleftrightarrow> s' \<noteq> s \<and> degradedAt tr s'"
  by (auto simp: resetAfterRecovery_def degradedAt_def Let_def simp del: map_of_eq_Some_iff split: option.split)

lemma reset_keys: "js_get (snd (resetAfterRecovery s seq tr)) s' \<noteq> None \<longleftrightarrow> js_get tr s' \<noteq> None"
  by (auto simp: resetAfterRecovery_def Let_def simp del: map_of_eq_Some_iff split: option.split)

lemma reap_state: "\<forall>(s, e) \<in> set es. stateOf m s \<noteq> Healthy \<Longrightarrow> stateOf (snd (reapLoop now es m)) s \<noteq> Healthy \<longleftrightarrow> stateOf m s \<noteq> Healthy"
proof (induction es arbitrary: m)
  case (Cons p es)
  obtain k e where p: "p = (k, e)" by fastforce
  let ?m = "setState k Degraded RecoveryTimeout (dropEpisode k m)"
  have st: "stateOf ?m a = (if a = k then Degraded else stateOf m a)" for a by simp
  have "\<forall>(s, e) \<in> set es. stateOf ?m s \<noteq> Healthy" using Cons.prems st by (auto simp del: setState_stateOf split: if_splits)
  then have "stateOf (snd (reapLoop now es ?m)) s \<noteq> Healthy \<longleftrightarrow> stateOf ?m s \<noteq> Healthy" by (rule Cons.IH)
  moreover have "stateOf m k \<noteq> Healthy" using Cons.prems p by simp
  moreover have "stateOf (snd (reapLoop now es m)) s \<noteq> Healthy \<longleftrightarrow> stateOf m s \<noteq> Healthy" using Cons.IH Cons.prems by simp
  ultimately show ?case using p by (auto simp: case_prod_unfold Let_def)
qed simp

lemma close_state: "stateOf (snd (rm_close s m)) s' = (if s' = s then Healthy else stateOf m s')"
  by (simp add: rm_close_def Let_def stateOf_def setState_def dropEpisode_def putEpisode_def split: option.split)

lemma reset_state [simp]: "stateOf (rm_reset m) s = Healthy" "machine_ok m \<Longrightarrow> machine_ok (rm_reset m)"
  by (simp_all add: rm_reset_def stateOf_def episodeOf_def machine_ok_def)

lemma register_state [simp]: "stateOf (rm_register s m) = stateOf m"
  by (auto simp: rm_register_def stateOf_def js_has_def fun_eq_iff split: option.split)

section \<open>Subscriptions do not disappear\<close>

definition keepsSubs :: "subscription_manager \<Rightarrow> subscription_manager \<Rightarrow> bool" where
  "keepsSubs m m' \<longleftrightarrow> (\<forall>s. byStreamId s m \<noteq> None \<longrightarrow> byStreamId s m' \<noteq> None)"

lemma keepsSubs_trans: "keepsSubs m m1 \<Longrightarrow> keepsSubs m1 m2 \<Longrightarrow> keepsSubs m m2"
  by (simp add: keepsSubs_def)

lemma keepsSubs_same: "sm_subscriptions m' = sm_subscriptions m \<Longrightarrow> keepsSubs m m'"
  by (simp add: keepsSubs_def byStreamId_def)

lemma keepsSubs_put: "keepsSubs m (putSub sub m)"
  by (simp add: keepsSubs_def)

lemma keepsSubs_foldl: "(\<And>m x. keepsSubs m (f m x)) \<Longrightarrow> keepsSubs m (foldl f m xs)"
proof (induction xs arbitrary: m)
  case (Cons x xs)
  show ?case using keepsSubs_trans [OF Cons.prems Cons.IH [OF Cons.prems], of m x] by simp
qed (simp add: keepsSubs_same)

lemma slice_keeps:
  assumes "subscribeSlice uuid now channel slice m = (r, m')"
  shows "keepsSubs m m' \<and> (\<forall>sub. r = Inr sub \<longrightarrow> byStreamId (sb_streamId sub) m' \<noteq> None)"
proof -
  obtain r0 ws where w: "ws_subscribe [channel] slice (sm_ws m) = (r0, ws)" by fastforce
  have idx: "sm_subscriptions (foldl (\<lambda>m t. indexMarket t s m) m0 slice) = sm_subscriptions m0" for s m0
    by (induction slice arbitrary: m0) simp_all
  show ?thesis using assms w by (auto simp: subscribeSlice_def Let_def keepsSubs_def byStreamId_def idx split: sum.splits)
qed

lemma slices_keep:
  "subscribeSlices uuid now channel slices m = (r, m') \<Longrightarrow>
     keepsSubs m m' \<and> (\<forall>subs. r = Inr subs \<longrightarrow> (\<forall>sub \<in> set subs. byStreamId (sb_streamId sub) m' \<noteq> None))"
proof (induction slices arbitrary: m r m')
  case (Cons slice slices)
  obtain r1 m1 where s: "subscribeSlice uuid now channel slice m = (r1, m1)" by fastforce
  note one = slice_keeps [OF s]
  show ?case
  proof (cases r1)
    case (Inl e)
    then show ?thesis using one s Cons.prems by auto
  next
    case (Inr sub)
    obtain r2 m2 where s2: "subscribeSlices uuid now channel slices m1 = (r2, m2)" by fastforce
    have eq: "r = map_sum id (\<lambda>subs. sub # subs) r2" "m' = m2" using Cons.prems s Inr s2 by auto
    have "keepsSubs m m2" using one Cons.IH [OF s2] keepsSubs_trans by blast
    moreover have "byStreamId (sb_streamId sub) m2 \<noteq> None" using one Inr Cons.IH [OF s2] unfolding keepsSubs_def by blast
    ultimately show ?thesis using Cons.IH [OF s2] eq by (cases r2) auto
  qed
qed (simp add: keepsSubs_same)

lemma subscribe_keeps:
  "subscribe uuid now channel markets m = (r, m') \<Longrightarrow>
     keepsSubs m m' \<and> (\<forall>subs. r = Inr subs \<longrightarrow> (\<forall>sub \<in> set subs. byStreamId (sb_streamId sub) m' \<noteq> None))"
  unfolding subscribe_def by (rule slices_keep)

lemma bindSid_keeps: "bindSid c sid channel m = (r, m') \<Longrightarrow> keepsSubs m m'"
  by (auto simp: bindSid_def Let_def keepsSubs_def byStreamId_def putSub_def split: option.splits)

lemma addToSub_keeps: "keepsSubs m (addToSub s ts m)"
  unfolding addToSub_def
  by (rule keepsSubs_foldl) (auto simp: keepsSubs_def byStreamId_def split: option.split)

lemma fillSubs_keeps: "fillSubs subs remaining m = (r, m') \<Longrightarrow> keepsSubs m m'"
proof (induction subs arbitrary: remaining m r m')
  case (Cons sub subs)
  show ?case
  proof (cases "remaining = [] \<or> sb_sid sub = None \<or> sm_max m \<le> length (sb_markets sub)")
    case True
    then show ?thesis using Cons.prems Cons.IH [of remaining m r m'] by (auto simp: keepsSubs_same split: option.splits if_splits)
  next
    case False
    then obtain sid where sid: "sb_sid sub = Some sid" by auto
    define capacity where "capacity = sm_max m - length (sb_markets sub)"
    obtain r0 ws where w: "ws_addMarkets [sid] (take capacity remaining) (sm_ws m) = (r0, ws)" by fastforce
    let ?m = "m\<lparr>sm_ws := ws\<rparr>"
    obtain r2 m2 where f: "fillSubs subs (drop capacity remaining) (addToSub (sb_streamId sub) (take capacity remaining) ?m) = (r2, m2)" by fastforce
    have "keepsSubs m ?m" by (rule keepsSubs_same) simp
    moreover have "keepsSubs ?m m2" using Cons.IH [OF f] addToSub_keeps keepsSubs_trans by blast
    moreover have "m' = ?m \<or> m' = m2" using Cons.prems False sid w f by (cases r0) (auto simp: Let_def capacity_def)
    ultimately show ?thesis using keepsSubs_trans by blast
  qed
qed (simp add: keepsSubs_same)

lemma addMarkets_keeps:
  assumes "addMarkets uuid now channel markets m = (r, m')"
  shows "keepsSubs m m' \<and> (\<forall>updated created. r = Inr (updated, created) \<longrightarrow>
    (\<forall>sub \<in> set created. byStreamId (sb_streamId sub) m' \<noteq> None))"
proof -
  define remaining where "remaining = filter (\<lambda>t. streamsForMarket t (Some channel) m = []) markets"
  obtain r1 m1 where f: "fillSubs (forChannel channel m) remaining m = (r1, m1)" by fastforce
  note k = fillSubs_keeps [OF f]
  show ?thesis
  proof (cases r1)
    case (Inl e)
    then show ?thesis using assms f k by (auto simp: addMarkets_def remaining_def [symmetric])
  next
    case (Inr p)
    obtain rest updated where p: "p = (rest, updated)" by fastforce
    obtain r2 m2 where s: "subscribe uuid now channel rest m1 = (r2, m2)" by fastforce
    show ?thesis using assms f k Inr p s subscribe_keeps [OF s] keepsSubs_trans [OF k, of m2]
      by (cases r2) (auto simp: addMarkets_def remaining_def [symmetric] split: if_splits)
  qed
qed

lemma removeMarkets_keeps:
  assumes "removeMarkets channel markets m = (r, m')"
  shows "keepsSubs m m'"
proof -
  let ?P = "\<lambda>acc :: subscription_manager \<times> string list. keepsSubs m (fst acc)"
  have one: "?P (removeFrom t s acc)" if "?P acc" for t s acc
    using that by (auto simp: removeFrom_def Let_def keepsSubs_def case_prod_unfold split: option.split)
  have inner: "?P (foldl (\<lambda>acc sub. removeFrom t (sb_streamId sub) acc) acc subs)" if "?P acc" for acc t subs
    by (rule foldl_invariant [where P = ?P, OF _ that]) (rule one)
  have outer: "?P (foldl (\<lambda>acc t. foldl (\<lambda>acc sub. removeFrom t (sb_streamId sub) acc) acc (streamsForMarket t (Some channel) (fst acc))) (m, []) markets)"
    by (rule foldl_invariant [where P = ?P]) (rule inner, assumption, simp add: keepsSubs_same)
  have del: "sm_subscriptions m2 = sm_subscriptions m1" if "deleteLoop markets ids m1 = (r, m2)" for ids m1 r m2
    using that by (induction ids arbitrary: m1 r m2) (auto simp: Let_def split: option.splits prod.splits sum.splits if_splits)
  obtain m1 touched where f: "foldl (\<lambda>acc t. foldl (\<lambda>acc sub. removeFrom t (sb_streamId sub) acc) acc
      (streamsForMarket t (Some channel) (fst acc))) (m, []) markets = (m1, touched)" by fastforce
  obtain r2 m2 where d: "deleteLoop markets touched m1 = (r2, m2)" by fastforce
  have "m' = m2" using assms f d by (simp add: removeMarkets_def)
  then show ?thesis using outer f keepsSubs_same [OF del [OF d]] keepsSubs_trans by auto
qed

section \<open>Every operation keeps them in step\<close>

text \<open>\<open>kept\<close>: like \<open>bystander\<close>, but the tracker and the machine may have moved.\<close>

definition kept :: "collector \<Rightarrow> collector \<Rightarrow> bool" where
  "kept co co' \<longleftrightarrow> co_writer co' = co_writer co \<and> co_ingestOrdinal co' = co_ingestOrdinal co \<and>
     (\<exists>ws. co_subscriptions co' = (co_subscriptions co)\<lparr>sm_ws := ws\<rparr>)"

lemma bystander_kept: "bystander co co' \<Longrightarrow> kept co co'"
  by (auto simp: bystander_def kept_def)

lemma kept_trans: "kept co co1 \<Longrightarrow> kept co1 co2 \<Longrightarrow> kept co co2"
  by (auto simp: kept_def)

lemma keptI:
  "co_writer co' = co_writer co \<Longrightarrow> co_ingestOrdinal co' = co_ingestOrdinal co \<Longrightarrow> co_subscriptions co' = co_subscriptions co \<Longrightarrow> kept co co'"
  by (auto simp: kept_def intro: exI [of _ "sm_ws (co_subscriptions co)"])

lemma kept_subs:
  assumes "kept co co'"
  shows "subs_ok u (co_subscriptions co') = subs_ok u (co_subscriptions co)" "sm_max (co_subscriptions co') = sm_max (co_subscriptions co)"
    "byStreamId s (co_subscriptions co') = byStreamId s (co_subscriptions co)"
proof -
  obtain ws where w: "co_subscriptions co' = (co_subscriptions co)\<lparr>sm_ws := ws\<rparr>" using assms by (auto simp: kept_def)
  show "subs_ok u (co_subscriptions co') = subs_ok u (co_subscriptions co)"
    using subs_ok_cong [of u "co_subscriptions co" "co_subscriptions co'"] subs_ok_cong [of u "co_subscriptions co'" "co_subscriptions co"]
    by (auto simp: w)
  show "sm_max (co_subscriptions co') = sm_max (co_subscriptions co)" "byStreamId s (co_subscriptions co') = byStreamId s (co_subscriptions co)"
    by (simp_all add: w byStreamId_def)
qed

lemma ok_step:
  assumes "collector_ok opts co" "kept co co'" "machine_ok (co_recovery co')" "agree (co_sequences co') (co_recovery co')"
    and "\<And>s. js_get (co_sequences co') s \<noteq> None \<Longrightarrow> js_get (co_sequences co) s \<noteq> None \<or> byStreamId s (co_subscriptions co) \<noteq> None"
  shows "collector_ok opts co'"
  unfolding collector_ok_def kept_subs [OF assms(2)]
  using collector_okD(1,2,5) [OF assms(1)] assms(3,4,5) by blast

lemma requestForGap_bystands:
  assumes "requestForGap opts now sub affected u co = (n, u', co')"
  shows "bystander co co' \<and> co_books co' = co_books co \<and> iu_raw u' = iu_raw u"
proof -
  obtain r co1 where a: "askSnapshots affected co = (r, co1)" by fastforce
  show ?thesis using assms askSnapshots_bystands [OF a] a by (auto simp: requestForGap_def pushRow_def split: if_splits sum.splits)
qed

lemma gap_step:
  assumes m: "machine_ok (co_recovery co)" and h: "stateOf (co_recovery co) (sb_streamId sub) = Healthy"
    and step: "handleSequenceGap opts now sub e r u co = (u', co')"
  shows "kept co co' \<and> co_sequences co' = co_sequences co \<and> iu_raw u' = iu_raw u \<and> machine_ok (co_recovery co') \<and>
    (\<forall>s. stateOf (co_recovery co') s \<noteq> Healthy \<longleftrightarrow> s = sb_streamId sub \<or> stateOf (co_recovery co) s \<noteq> Healthy) \<and>
    (\<forall>s. s \<noteq> sb_streamId sub \<longrightarrow> episodeOf (co_recovery co') s = episodeOf (co_recovery co) s \<and>
       stateOf (co_recovery co') s = stateOf (co_recovery co) s)"
proof -
  let ?s = "sb_streamId sub" and ?affected = "marketsForStream (co_books co) (sb_streamId sub)"
  obtain opened ep m1 where g: "openGap ?s \<lparr>og_affected = ?affected, og_expectedSeq = e, og_receivedSeq = r,
     og_nowMs = ri_receivedAtMs (iu_raw u)\<rparr> (co_recovery co) = ((opened, ep), m1)" by (metis prod.collapse)
  note o = openGap_healthy [OF m h g]
  define co1 where "co1 = co\<lparr>co_recovery := m1, co_openedBy := js_set ?s (co_ingestOrdinal co) (co_openedBy co),
     co_books := snd (invalidateStream ?s (''sequence gap on '' @ sb_channel sub @ '': expected '' @ seqText e @ '', received '' @ seqText r) (co_books co))\<rparr>"
  define u1 where "u1 = pushRow (integrityRow now (integrityEvent opts None ItSequenceGap SevError
      [(''stream_id'', CText ?s), (''channel'', CText (sb_channel sub)), (''sid'', intCell (sb_sid sub)),
       (''expected_seq'', optText e), (''received_seq'', optText r), (''affected_markets'', CInt (int (length ?affected)))])) u"
  obtain n u2 co2 where q: "requestForGap opts now sub ?affected u1 co1 = (n, u2, co2)" by (metis prod.collapse)
  note b = requestForGap_bystands [OF q]
  have rec: "co_recovery co2 = m1" "co_sequences co2 = co_sequences co" using b by (simp_all add: bystander_def co1_def)
  define m2 where "m2 = (if 0 < n then snd (markRecoveryRequested ?s (ri_receivedAtMs (iu_raw u)) m1) else snd (markRecoveryUnavailable ?s m1))"
  have fin: "co_recovery co' = m2" "co_sequences co' = co_sequences co" "co_writer co' = co_writer co2" "co_ingestOrdinal co' = co_ingestOrdinal co2"
    "co_subscriptions co' = co_subscriptions co2" "u' = u2"
    using step g o(1) q by (simp_all add: handleSequenceGap_def Let_def co1_def u1_def m2_def rec [unfolded co1_def])
      (auto simp: rec m2_def)
  have "kept co co1" by (rule keptI) (simp_all add: co1_def)
  moreover have "kept co1 co2" using b bystander_kept by blast
  moreover have "kept co2 co'" by (rule keptI) (simp_all add: fin)
  ultimately have "kept co co'" using kept_trans by blast
  moreover have "machine_ok m2" using machine_ok_requested [OF o(2)] machine_ok_unavailable [OF o(2)] by (simp add: m2_def)
  moreover have "stateOf m2 s \<noteq> Healthy \<longleftrightarrow> s = ?s \<or> stateOf (co_recovery co) s \<noteq> Healthy" for s
    using o(3) by (auto simp: m2_def requested_state unavailable_state)
  moreover have "episodeOf m2 s = episodeOf (co_recovery co) s \<and> stateOf m2 s = stateOf (co_recovery co) s" if "s \<noteq> ?s" for s
  proof -
    have m1: "m1 = snd (openGap ?s \<lparr>og_affected = ?affected, og_expectedSeq = e, og_receivedSeq = r,
       og_nowMs = ri_receivedAtMs (iu_raw u)\<rparr> (co_recovery co))" using g by simp
    show ?thesis using that o(3) by (simp add: m2_def requested_state unavailable_state episode_other [OF that] m1 [symmetric])
      (simp add: m1 episode_other [OF that])
  qed
  moreover have "iu_raw u' = iu_raw u" using b by (simp add: fin u1_def pushRow_def)
  ultimately show ?thesis using fin(1,2) by simp
qed

lemma observe_accepts:
  assumes "st_observe s ch (Some n) tr = (v, tr')" "sr_verdict v = VOk \<or> sr_verdict v = VFirst \<or> sr_verdict v = VUnsequenced"
    "isSequencedChannel (Some ch)" "js_get tr s = Some st"
  shows "\<not> ss_degraded st \<and> (ss_lastSeq st = None \<or> ss_lastSeq st = Some (n - 1))"
proof -
  have "v = fst (classify ch (Some n) st)"
    using assms(1,4) by (simp add: st_observe_def st_register_def Let_def case_prod_unfold)
  then show ?thesis using assms(2,3) by (auto simp: classify_def Let_def split: option.splits if_splits)
qed

definition lastSeqOf :: "string \<Rightarrow> collector \<Rightarrow> int option" where
  "lastSeqOf s co = Option.bind (js_get (co_sequences co) s) ss_lastSeq"

lemma classify_step:
  assumes ok: "collector_ok opts co" and sub: "\<And>x. sub = Some x \<Longrightarrow> byStreamId (sb_streamId x) (co_subscriptions co) \<noteq> None"
    and step: "classifyFrame opts now sub channel ty u co = ((allowed, reason), u', co')"
  shows "collector_ok opts co' \<and> kept co co' \<and> iu_raw u' = iu_raw u \<and>
    (\<forall>x n. sub = Some x \<longrightarrow> isSequencedChannel channel \<longrightarrow> allowed \<longrightarrow> ty \<noteq> ''orderbook_snapshot'' \<longrightarrow>
       co_books co' = co_books co \<and> stateOf (co_recovery co) (sb_streamId x) = Healthy \<and>
       (ri_seq (iu_raw u) = Some n \<longrightarrow> lastSeqOf (sb_streamId x) co = None \<or> lastSeqOf (sb_streamId x) co = Some (n - 1)))"
proof (cases "\<exists>x ch. sub = Some x \<and> channel = Some ch \<and> isSequencedChannel (Some ch)")
  case False
  then have "u' = u" "co' = co" using step by (auto simp: classifyFrame_def split: option.splits if_splits)
  moreover have "kept co co" by (rule keptI) simp_all
  ultimately show ?thesis using ok False by (cases channel) (auto simp: isSequencedChannel_def)
next
  case True
  then obtain x ch where x: "sub = Some x" "channel = Some ch" "isSequencedChannel (Some ch)" by blast
  let ?s = "sb_streamId x"
  obtain v tr where o: "st_observe ?s ch (ri_seq (iu_raw u)) (co_sequences co) = (v, tr)" by fastforce
  note D = collector_okD [OF ok] and od = observe_degraded [OF o]
  define co1 where "co1 = co\<lparr>co_sequences := tr\<rparr>"
  have k1: "kept co co1" by (rule keptI) (simp_all add: co1_def)
  have keys: "js_get (co_sequences co) s \<noteq> None \<or> byStreamId s (co_subscriptions co) \<noteq> None" if "js_get tr s \<noteq> None" for s
    using od(4) [of s] that sub [OF x(1)] by auto
  show ?thesis
  proof (cases "sr_verdict v = VGap")
    case gap: True
    define co2 where "co2 = tally (\<lambda>c. c\<lparr>cc_sequenceGaps := cc_sequenceGaps c + 1\<rparr>) co1"
    obtain u3 co3 where g: "handleSequenceGap opts now x (sr_expectedSeq v) (sr_receivedSeq v) u co2 = (u3, co3)" by fastforce
    have eq: "u' = u3" "co' = co3" "\<not> allowed"
      using step x o gap g by (simp_all add: classifyFrame_def Let_def co1_def co2_def)
    have rec: "co_recovery co2 = co_recovery co" "co_sequences co2 = tr" by (simp_all add: co2_def co1_def)
    have h: "stateOf (co_recovery co) ?s = Healthy" using od(2) [OF gap] D(4) by (auto simp: agree_def)
    note G = gap_step [of co2 x opts now "sr_expectedSeq v" "sr_receivedSeq v" u u3 co3, unfolded rec, OF D(3) h g]
    have k: "kept co co3" using G k1 kept_trans bystander_kept [of co1 co2] by (simp add: co2_def)
    have "degradedAt tr s \<longleftrightarrow> s = ?s \<or> degradedAt (co_sequences co) s" for s using od(1) gap by auto
    then have "agree tr (co_recovery co3)" using G D(4) by (simp add: agree_def)
    then have "collector_ok opts co3" using ok_step [OF ok k, unfolded G [THEN conjunct2, THEN conjunct1]] G keys by blast
    then show ?thesis using G k eq by simp
  next
    case False
    have same: "degradedAt tr s \<longleftrightarrow> degradedAt (co_sequences co) s" for s using od(1) False by auto
    define co2 where "co2 = (if sr_verdict v = VDegraded then co1\<lparr>co_recovery := withhold ?s (co_recovery co1)\<rparr> else co1)"
    have eq: "u' = u" "co' = co2" using step x o False
      by (auto simp: classifyFrame_def Let_def co1_def co2_def split: verdict.splits if_splits)
    have rec: "co_recovery co1 = co_recovery co" "co_sequences co1 = tr" by (simp_all add: co1_def)
    have st: "stateOf (co_recovery co2) = stateOf (co_recovery co)" "co_sequences co2 = tr" by (simp_all add: co2_def rec)
    have mo: "machine_ok (co_recovery co2)" using D(3) machine_ok_withhold by (simp add: co2_def rec)
    have k2: "kept co1 co2" by (rule keptI) (simp_all add: co2_def)
    have k: "kept co co2" by (rule kept_trans [OF k1 k2])
    have books: "co_books co2 = co_books co" by (simp add: co2_def co1_def)
    have "agree tr (co_recovery co2)" using D(4) same by (simp add: agree_def st)
    then have c: "collector_ok opts co2" using ok_step [OF ok k mo, unfolded st(2)] keys by blast
    have app: "stateOf (co_recovery co) ?s = Healthy \<and> (sr_verdict v = VOk \<or> sr_verdict v = VFirst \<or> sr_verdict v = VUnsequenced)"
      if "allowed" "ty \<noteq> ''orderbook_snapshot''"
      using step x o False that
      by (cases "sr_verdict v") (auto simp: classifyFrame_def Let_def canApplyDeltas_def split: if_splits)
    have "lastSeqOf ?s co = None \<or> lastSeqOf ?s co = Some (n - 1)"
      if "allowed" "ty \<noteq> ''orderbook_snapshot''" "ri_seq (iu_raw u) = Some n" for n
    proof (cases "js_get (co_sequences co) ?s")
      case (Some st)
      then show ?thesis using observe_accepts [OF o [unfolded that(3)] _ x(3) Some] app that by (simp add: lastSeqOf_def)
    qed (simp add: lastSeqOf_def)
    then show ?thesis using c k eq x app books by auto
  qed
qed

lemma snapshot_step:
  assumes ok: "collector_ok opts co" and step: "handleSnapshot opts env streamId sid u co = (err, u', co')"
  shows "collector_ok opts co' \<and> kept co co' \<and> iu_raw u' = iu_raw u"
proof (cases "Option.bind (we_msg env) OrderbookSnapshotMsg")
  case None
  then show ?thesis using step ok bystander_kept [of co co] by (simp add: handleSnapshot_def)
next
  case (Some msg)
  note D = collector_okD [OF ok]
  obtain out m where r: "(case streamId of None \<Rightarrow> (\<lparr>rc_relevant = False, rc_completed = False, rc_episode = None\<rparr>, co_recovery co)
      | Some s \<Rightarrow> recordSnapshot s (sn_market_ticker msg) (ri_receivedAtMs (iu_raw u)) (co_recovery co)) = (out, m)" by fastforce
  have mo: "machine_ok m"
    using r D(3) machine_ok_snapshot [OF D(3)] by (cases streamId) (auto, metis snd_conv)
  have st: "stateOf m s = (if streamId = Some s \<and> rc_completed out then Healthy else stateOf (co_recovery co) s)"
    and ep: "rc_completed out \<Longrightarrow> streamId \<noteq> None \<and> rc_episode out \<noteq> None" for s
    using r snapshot_state by (cases streamId; fastforce)+
  define seqs where "seqs = (case streamId of Some s \<Rightarrow> if rc_completed out
      then snd (resetAfterRecovery s (ri_seq (iu_raw u)) (co_sequences co)) else co_sequences co | None \<Rightarrow> co_sequences co)"
  have eqs: "co_recovery co' = m" "co_sequences co' = seqs" "co_writer co' = co_writer co" "co_ingestOrdinal co' = co_ingestOrdinal co"
    "co_subscriptions co' = co_subscriptions co" "iu_raw u' = iu_raw u"
    using step Some r ep by (auto simp: handleSnapshot_def Let_def pushRow_def completeRecovery_def seqs_def split: option.splits prod.splits)
  have k: "kept co co'" by (rule keptI) (simp_all add: eqs)
  have "agree seqs m"
    using D(4) by (auto simp: agree_def seqs_def st reset_degraded split: option.split)
  moreover have "js_get seqs s \<noteq> None \<Longrightarrow> js_get (co_sequences co) s \<noteq> None" for s
    using reset_keys by (auto simp: seqs_def split: option.splits if_splits)
  ultimately show ?thesis using ok_step [OF ok k] mo k by (simp add: eqs)
qed

lemma dispatch_step:
  assumes ok: "collector_ok opts co" and step: "dispatch opts now env sub allowed reason u co = (err, u', co')"
  shows "collector_ok opts co' \<and> kept co co' \<and> iu_raw u' = iu_raw u"
proof (cases "we_type env = ''orderbook_snapshot''")
  case True
  then show ?thesis using snapshot_step [OF ok, of env] step by (simp add: dispatch_def)
next
  case False
  have "bystander co co' \<and> iu_raw u' = iu_raw u"
    using step False delta_bystands [of opts now env] trade_bystands [of opts env] ticker_bystands [of opts now env]
      lifecycle_bystands [of opts env]
    by (simp add: dispatch_def Let_def split: if_splits)
  then show ?thesis using ok bystander_ok bystander_kept by blast
qed

lemma subOf_known:
  assumes "subs_ok uuid (co_subscriptions co)" "subOf env co = Some x"
  shows "byStreamId (sb_streamId x) (co_subscriptions co) = Some x"
proof -
  obtain sid s where "js_get (sm_bySid (co_subscriptions co)) sid = Some s" and s: "byStreamId s (co_subscriptions co) = Some x"
    using assms(2) by (auto simp: subOf_def bySidOrNull_def bind_eq_Some_conv simp del: map_of_eq_Some_iff)
  then show ?thesis using subs_okD(2) [OF assms(1) s] by simp
qed

lemma subscribed_step:
  assumes ok: "collector_ok opts co"
  shows "collector_ok opts (handleSubscribed env co)" "co_writer (handleSubscribed env co) = co_writer co"
    "co_ingestOrdinal (handleSubscribed env co) = co_ingestOrdinal co"
proof -
  have *: "collector_ok opts (handleSubscribed env co) \<and> co_writer (handleSubscribed env co) = co_writer co \<and>
    co_ingestOrdinal (handleSubscribed env co) = co_ingestOrdinal co"
  proof (cases "\<exists>sid ch. (Option.bind (Option.bind (we_msg env) (member ''sid'')) pInteger,
      Option.bind (Option.bind (we_msg env) (member ''channel'')) pString) = (Some sid, Some ch) \<and> ch \<noteq> []")
    case False
    then have "handleSubscribed env co = co" by (auto simp: handleSubscribed_def split: option.split)
    then show ?thesis using ok by simp
  next
    case True
    then obtain sid ch where e: "Option.bind (Option.bind (we_msg env) (member ''sid'')) pInteger = Some sid"
      "Option.bind (Option.bind (we_msg env) (member ''channel'')) pString = Some ch" "ch \<noteq> []" by auto
    obtain r m where b: "bindSid (we_id env) sid ch (co_subscriptions co) = (r, m)" by fastforce
    note D = collector_okD [OF ok]
    have "subs_ok (cp_uuid opts) m \<and> sm_max m = sm_max (co_subscriptions co)" using bindSid_ok [OF D(1) b] by blast
    moreover have "byStreamId s m \<noteq> None" if "js_get (co_sequences co) s \<noteq> None" for s
      using D(5) [OF that] bindSid_keeps [OF b] unfolding keepsSubs_def by blast
    ultimately have "collector_ok opts (co\<lparr>co_subscriptions := m\<rparr>)" using D(2,3,4) by (simp add: collector_ok_def)
    moreover have by_m: "bystander (co\<lparr>co_subscriptions := m\<rparr>) (handleSubscribed env co)" using e b
      by (auto simp: handleSubscribed_def Let_def split: option.split)
    ultimately have "collector_ok opts (handleSubscribed env co)" using bystander_ok [OF by_m] by blast
    then show ?thesis using by_m by (simp add: bystander_def)
  qed
  then show "collector_ok opts (handleSubscribed env co)" "co_writer (handleSubscribed env co) = co_writer co"
    "co_ingestOrdinal (handleSubscribed env co) = co_ingestOrdinal co" by blast+
qed

lemma enqueue_ok [simp]: "collector_ok opts (enqueue u co) = collector_ok opts co"
  by (simp add: collector_ok_def)

definition rawOf :: "collector_options \<Rightarrow> raw_frame \<Rightarrow> collector \<Rightarrow> raw_ingest_event option" where
  "rawOf opts f co = toRawIngestEvent (cp_sha256 opts) (cp_dateParse opts) f (cp_sessionId opts)
     (map_option sb_streamId (subOf (fm_envelope f) co)) (co_ingestOrdinal co + 1)"

definition onlyIntegrity :: "ingest_unit \<Rightarrow> bool" where
  "onlyIntegrity u = list_all (\<lambda>r. nr_table r = ''integrity_events'') (iu_normalized u)"

lemma integrityRow_table [simp]: "nr_table (integrityRow now i) = ''integrity_events''"
  by (simp add: integrityRow_def Let_def)

lemma subOf_same [simp]:
  "subOf env (tally f co) = subOf env co" "subOf env (co\<lparr>co_ingestOrdinal := n\<rparr>) = subOf env co"
  "subOf env (emit e co) = subOf env co"
  by (simp_all add: subOf_def)

lemma data_step:
  assumes ok: "collector_ok opts co" and sub: "\<And>x. sub = Some x \<Longrightarrow> byStreamId (sb_streamId x) (co_subscriptions co) \<noteq> None"
  shows "\<exists>v co2. handleData opts now canonical env sub channel u co = enqueue v co2 \<and> collector_ok opts co2 \<and> kept co co2 \<and>
    iu_raw v = iu_raw u \<and> (canonical \<or> onlyIntegrity v)"
proof -
  obtain allowed reason u1 co1 where c: "classifyFrame opts now sub channel (we_type env) u co = ((allowed, reason), u1, co1)"
    by (metis prod.collapse)
  obtain err u2 co2 where d: "dispatch opts now env sub allowed reason u1 co1 = (err, u2, co2)" by (metis prod.collapse)
  define u3 where "u3 = (case err of None \<Rightarrow> u2 | Some e \<Rightarrow> pushRow (failedRow opts now (iu_raw u2) e) u2)"
  define u4 where "u4 = (if canonical then u3
      else u3\<lparr>iu_normalized := filter (\<lambda>r. nr_table r = ''integrity_events'') (iu_normalized u3)\<rparr>)"
  define co3 where "co3 = tally (\<lambda>c. c\<lparr>cc_messagesPersisted := cc_messagesPersisted c + 1\<rparr>) co2"
  have c1: "collector_ok opts co1 \<and> kept co co1 \<and> iu_raw u1 = iu_raw u" using classify_step [OF ok sub c] by blast
  have d1: "collector_ok opts co2 \<and> kept co1 co2 \<and> iu_raw u2 = iu_raw u1" using dispatch_step [OF _ d] c1 by blast
  have b: "bystander co2 co3" by (simp add: co3_def)
  have "handleData opts now canonical env sub channel u co = enqueue u4 co3"
    using c d by (simp add: handleData_def Let_def u3_def u4_def co3_def tally_def enqueue_def)
  moreover have "collector_ok opts co3" using bystander_ok [OF b] d1 by blast
  moreover have "kept co co3" using c1 d1 bystander_kept [OF b] kept_trans by blast
  moreover have "iu_raw u4 = iu_raw u" using c1 d1 by (simp add: u4_def u3_def pushRow_def split: option.split)
  moreover have "canonical \<or> onlyIntegrity u4" by (simp add: u4_def onlyIntegrity_def list_all_iff)
  ultimately show ?thesis by blast
qed

lemma frame_step:
  assumes ok: "collector_ok opts co"
  shows "collector_ok opts (handleFrame opts now canonical f co) \<and>
    co_ingestOrdinal (handleFrame opts now canonical f co) = co_ingestOrdinal co + 1 \<and>
    (case rawOf opts f co of
       None \<Rightarrow> co_writer (handleFrame opts now canonical f co) = co_writer co
     | Some raw \<Rightarrow> \<exists>u. co_writer (handleFrame opts now canonical f co) = co_writer co @ [WcEnqueue u] \<and> iu_raw u = raw \<and>
         (canonical \<or> onlyIntegrity u))"
proof -
  define co1 where "co1 = tally (\<lambda>c. c\<lparr>cc_messagesReceived := cc_messagesReceived c + 1\<rparr>) (co\<lparr>co_ingestOrdinal := co_ingestOrdinal co + 1\<rparr>)"
  have ok1: "collector_ok opts co1" using ok by (simp add: collector_ok_def co1_def)
  have f1: "co_writer co1 = co_writer co" "co_ingestOrdinal co1 = co_ingestOrdinal co + 1" "subOf (fm_envelope f) co1 = subOf (fm_envelope f) co"
    by (simp_all add: co1_def)
  show ?thesis
  proof (cases "rawOf opts f co")
    case None
    then have "handleFrame opts now canonical f co = co1"
      by (simp add: handleFrame_def Let_def rawOf_def co1_def)
    then show ?thesis using ok1 f1 None by simp
  next
    case (Some raw)
    define u where "u = \<lparr>iu_raw = raw, iu_normalized = []\<rparr>"
    define channel where "channel = (case subOf (fm_envelope f) co of Some s \<Rightarrow> Some (sb_channel s) | None \<Rightarrow> channelForType (messageTypeOf f))"
    define co2 where "co2 = (case ri_exchangeTsMs raw of None \<Rightarrow> co1 | Some t \<Rightarrow> emit (EmLatency t (ri_receivedAtMs raw)) co1)"
    have b2: "bystander co1 co2" by (simp add: co2_def split: option.split)
    have ok2: "collector_ok opts co2" using bystander_ok [OF b2] ok1 by blast
    have f2: "co_writer co2 = co_writer co" "co_ingestOrdinal co2 = co_ingestOrdinal co + 1" using b2 f1 by (simp_all add: bystander_def)
    have claim: ?thesis
      if "handleFrame opts now canonical f co = enqueue v co3" "collector_ok opts co3" "co_writer co3 = co_writer co"
        "co_ingestOrdinal co3 = co_ingestOrdinal co + 1" "iu_raw v = raw" "canonical \<or> onlyIntegrity v" for v co3
      using that Some by simp
    have hf: "handleFrame opts now canonical f co =
      (case fm_envelope f of
         None \<Rightarrow> enqueue (pushRow (unparseableRow opts now f) u) (tally (\<lambda>c. c\<lparr>cc_unparseable := cc_unparseable c + 1\<rparr>) co2)
       | Some env \<Rightarrow>
           if we_type env = ''subscribed'' then enqueue u (handleSubscribed env co2)
           else if we_type env = ''error'' then enqueue (handleError opts now env u) co2
           else if isControl (we_type env) then enqueue u co2
           else handleData opts now canonical env (subOf (fm_envelope f) co) channel u co2)"
      using Some by (cases "fm_envelope f"; cases "ri_exchangeTsMs raw")
        (simp_all add: handleFrame_def Let_def rawOf_def co1_def co2_def u_def channel_def)
    have e: "onlyIntegrity u" "onlyIntegrity (pushRow (unparseableRow opts now f) u)" "onlyIntegrity (handleError opts now env u)" for env
      by (simp_all add: onlyIntegrity_def u_def pushRow_def unparseableRow_def handleError_def Let_def)
    have r: "iu_raw (pushRow row u) = raw" "iu_raw u = raw" "iu_raw (handleError opts now env u) = raw" for row env
      by (simp_all add: u_def pushRow_def handleError_def Let_def)
    show ?thesis
    proof (cases "fm_envelope f")
      case None
      show ?thesis by (rule claim [of "pushRow (unparseableRow opts now f) u" "tally (\<lambda>c. c\<lparr>cc_unparseable := cc_unparseable c + 1\<rparr>) co2"])
        (simp_all add: hf None f2 e r bystander_ok [OF effects_bystand(3)] ok2)
    next
      case (Some env)
      consider "we_type env = ''subscribed''" | "we_type env = ''error''" | "isControl (we_type env)" "we_type env \<noteq> ''subscribed''" "we_type env \<noteq> ''error''"
        | "\<not> isControl (we_type env)" "we_type env \<noteq> ''subscribed''" "we_type env \<noteq> ''error''" by blast
      then show ?thesis
      proof cases
        case 1
        then show ?thesis using claim [of u "handleSubscribed env co2"] subscribed_step [OF ok2] f2 e r by (simp add: hf Some)
      next
        case 2
        then show ?thesis using claim [of "handleError opts now env u" co2] ok2 f2 e r by (simp add: hf Some)
      next
        case 3
        then show ?thesis using claim [of u co2] ok2 f2 e r by (simp add: hf Some)
      next
        case 4
        have "byStreamId (sb_streamId x) (co_subscriptions co2) \<noteq> None" if "subOf (fm_envelope f) co = Some x" for x
        proof -
          have "subOf (fm_envelope f) co2 = Some x" using that by (simp add: co2_def f1 split: option.split)
          then show ?thesis using subOf_known [OF collector_okD(1) [OF ok2]] by blast
        qed
        then obtain v co3 where h: "handleData opts now canonical env (subOf (fm_envelope f) co) channel u co2 = enqueue v co3"
          "collector_ok opts co3" "kept co2 co3" "iu_raw v = iu_raw u" "canonical \<or> onlyIntegrity v"
          using data_step [OF ok2, of "subOf (fm_envelope f) co"] by metis
        show ?thesis by (rule claim [of v co3]) (use h 4 f2 r in \<open>simp_all add: hf Some kept_def\<close>)
      qed
    qed
  qed
qed

lemma db_call_bystands [simp]: "bystander co (snd (db_call db c co))"
  by (simp add: db_call_def bystanderI)

lemma db_calls_bystand: "bystander co (db_calls db cs co)"
proof (induction cs arbitrary: co)
  case (Cons c cs)
  obtain k b where c: "c = (k, b)" by fastforce
  have one: "bystander co (snd (db_call db k co))" by simp
  show ?case using c one bystander_trans [OF one Cons.IH] by (auto simp: case_prod_unfold Let_def)
qed simp

lemma db_calls_fields [simp]: "co_writer (db_calls db cs co) = co_writer co" "co_ingestOrdinal (db_calls db cs co) = co_ingestOrdinal co"
  "collector_ok opts (db_calls db cs co) = collector_ok opts co"
  using db_calls_bystand [of co db cs] bystander_ok by (auto simp: bystander_def)

lemma noteGapId_ok:
  "collector_ok opts co \<Longrightarrow> collector_ok opts (noteGapId s n g co)"
  "co_writer (noteGapId s n g co) = co_writer co" "co_ingestOrdinal (noteGapId s n g co) = co_ingestOrdinal co"
proof -
  show "collector_ok opts (noteGapId s n g co)" if ok: "collector_ok opts co"
  proof (cases "\<exists>e. episodeOf (co_recovery co) s = Some e \<and> js_get (co_openedBy co) s = Some n")
    case True
    then obtain e where e: "episodeOf (co_recovery co) s = Some e" "js_get (co_openedBy co) s = Some n" by blast
    have "machine_ok (putEpisode s (e\<lparr>ep_gapId := Some g\<rparr>) (co_recovery co))"
      by (rule machine_ok_put [OF collector_okD(3) [OF ok] e(1)]) simp_all
    then show ?thesis using collector_okD [OF ok] e by (simp add: noteGapId_def collector_ok_def agree_def del: map_of_eq_Some_iff)
  next
    case False
    then show ?thesis using ok by (auto simp: noteGapId_def split: option.split)
  qed
qed (simp_all add: noteGapId_def split: option.split)

lemma runTask_ok:
  assumes ok: "collector_ok opts co"
  shows "collector_ok opts (runTask opts db t co) \<and> co_writer (runTask opts db t co) = co_writer co \<and>
    co_ingestOrdinal (runTask opts db t co) = co_ingestOrdinal co"
proof (cases t)
  case (DtGap g n recovering)
  obtain r co1 where r: "db_call db (DbRecordGap g) (snd (db_call db (DbSetStreamStatus (gp_streamId g) ''degraded'') co)) = (r, co1)" by fastforce
  have b: "bystander co co1"
    using bystander_trans [of co "snd (db_call db (DbSetStreamStatus (gp_streamId g) ''degraded'') co)" co1] db_call_bystands r by (metis snd_conv)
  then have ok1: "collector_ok opts co1" using ok bystander_ok by blast
  show ?thesis using noteGapId_ok ok1 r DtGap b
    by (simp add: Let_def bystander_def del: db_calls.simps split: option.split)
qed (simp_all add: ok del: db_calls.simps)

lemma drainOne_ok:
  assumes ok: "collector_ok opts co"
  shows "collector_ok opts (drainOne opts db co) \<and> co_writer (drainOne opts db co) = co_writer co \<and>
    co_ingestOrdinal (drainOne opts db co) = co_ingestOrdinal co"
proof (cases "co_deferred co")
  case (Cons t ts)
  have "collector_ok opts (co\<lparr>co_deferred := ts\<rparr>)" using ok by (simp add: collector_ok_def)
  then show ?thesis using runTask_ok [of opts "co\<lparr>co_deferred := ts\<rparr>" db t] Cons by (simp add: drainOne_def)
qed (simp add: ok drainOne_def)

lemma register_degraded [simp]: "degradedAt (snd (st_register s ch tr)) s' \<longleftrightarrow> degradedAt tr s'"
  by (auto simp: st_register_def degradedAt_def Let_def newStreamState_def simp del: map_of_eq_Some_iff split: option.split)

lemma register_known: "js_get (snd (st_register s ch tr)) s' \<noteq> None \<Longrightarrow> js_get tr s' \<noteq> None \<or> s' = s"
  by (auto simp: st_register_def Let_def split: option.splits if_splits)

lemma registerStream_fields [simp]:
  "co_subscriptions (registerStream b sub co) = co_subscriptions co" "co_writer (registerStream b sub co) = co_writer co"
  "co_ingestOrdinal (registerStream b sub co) = co_ingestOrdinal co" "co_recovery (registerStream b sub co) = rm_register (sb_streamId sub) (co_recovery co)"
  "co_sequences (registerStream b sub co) = snd (st_register (sb_streamId sub) (sb_channel sub) (co_sequences co))"
  by (simp_all add: registerStream_def Let_def)

lemma registerStream_ok:
  assumes ok: "collector_ok opts co" and known: "byStreamId (sb_streamId sub) (co_subscriptions co) \<noteq> None"
  shows "collector_ok opts (registerStream b sub co)"
proof (rule ok_step [OF ok])
  show "kept co (registerStream b sub co)" by (rule keptI) simp_all
  show "machine_ok (co_recovery (registerStream b sub co))" using machine_ok_register collector_okD(3) [OF ok] by simp
  show "agree (co_sequences (registerStream b sub co)) (co_recovery (registerStream b sub co))"
    using collector_okD(4) [OF ok] by (simp add: agree_def)
qed (use register_known known in fastforce)

lemma registerStreams_ok:
  "registerStreams db b subs co = (r, co') \<Longrightarrow> collector_ok opts co \<Longrightarrow>
   (\<And>sub. sub \<in> set subs \<Longrightarrow> byStreamId (sb_streamId sub) (co_subscriptions co) \<noteq> None) \<Longrightarrow>
   collector_ok opts co' \<and> co_writer co' = co_writer co \<and> co_ingestOrdinal co' = co_ingestOrdinal co"
proof (induction subs arbitrary: co)
  case (Cons sub subs)
  obtain a co1 where d: "db_call db (DbCreateStream sub) co = (a, co1)" by fastforce
  have b: "bystander co co1" using db_call_bystands [of co db "DbCreateStream sub"] d by simp
  have subs: "co_subscriptions co1 = co_subscriptions co" using d by (auto simp: db_call_def)
  have ok1: "collector_ok opts co1" using bystander_ok [OF b] Cons.prems(2) by blast
  have ok2: "collector_ok opts (registerStream b sub co1)" for b
    using registerStream_ok [OF ok1] Cons.prems(3) [of sub] subs by simp
  show ?case
  proof (cases a)
    case None
    then show ?thesis using Cons.prems(1) d b ok1 by (simp add: bystander_def)
  next
    case (Some x)
    then show ?thesis using Cons.IH [OF _ ok2] Cons.prems(1,3) d b subs by (simp add: bystander_def)
  qed
qed simp

text \<open>\<open>still\<close>: the invariant stays and nothing goes to the writer.\<close>

definition still :: "collector_options \<Rightarrow> collector \<Rightarrow> collector \<Rightarrow> bool" where
  "still opts co co' \<longleftrightarrow> (collector_ok opts co \<longrightarrow>
     collector_ok opts co' \<and> co_writer co' = co_writer co \<and> co_ingestOrdinal co' = co_ingestOrdinal co)"

lemma still_trans: "still opts co co1 \<Longrightarrow> still opts co1 co2 \<Longrightarrow> still opts co co2"
  by (simp add: still_def)

lemma still_bystander: "bystander co co' \<Longrightarrow> still opts co co'"
  using bystander_ok by (auto simp: still_def bystander_def)

lemma still_refl [simp]: "still opts co co"
  by (simp add: still_def)

lemma still_foldl: "(\<And>co x. x \<in> set xs \<Longrightarrow> still opts co (f co x)) \<Longrightarrow> still opts co (foldl f co xs)"
proof (induction xs arbitrary: co)
  case (Cons x xs)
  have "still opts co (f co x)" "still opts (f co x) (foldl f (f co x) xs)" using Cons by simp_all
  then show ?case using still_trans by simp
qed simp

lemma subs_change:
  assumes "collector_ok opts co" "subs_ok (cp_uuid opts) m" "sm_max m = sm_max (co_subscriptions co)" "keepsSubs (co_subscriptions co) m"
  shows "collector_ok opts (co\<lparr>co_subscriptions := m\<rparr>)"
  unfolding collector_ok_def using collector_okD [OF assms(1)] assms(2,3,4) by (simp add: keepsSubs_def)

lemma subscribed_streams:
  assumes u: "inj (cp_uuid opts)" and ok: "collector_ok opts co"
    and s: "subscribe (cp_uuid opts) now channel markets (co_subscriptions co) = (r, m)"
  shows "collector_ok opts (co\<lparr>co_subscriptions := m\<rparr>)"
    and "r = Inr subs \<Longrightarrow> still opts (co\<lparr>co_subscriptions := m\<rparr>) (snd (registerStreams db b subs (co\<lparr>co_subscriptions := m\<rparr>)))"
proof -
  show ok1: "collector_ok opts (co\<lparr>co_subscriptions := m\<rparr>)"
    using subs_change [OF ok] subscribe_ok [OF u collector_okD(1,2) [OF ok] s] subscribe_keeps [OF s] by blast
  show "still opts (co\<lparr>co_subscriptions := m\<rparr>) (snd (registerStreams db b subs (co\<lparr>co_subscriptions := m\<rparr>)))" if "r = Inr subs"
    using registerStreams_ok [where db = db and b = b and subs = subs, OF surjective_pairing ok1] subscribe_keeps [OF s] that by (simp add: still_def)
qed

lemma subscribeChannels_still:
  assumes u: "inj (cp_uuid opts)"
  shows "still opts co (snd (subscribeChannels opts db now markets channels co))"
proof (induction channels arbitrary: co)
  case (Cons channel channels)
  obtain r m where s: "subscribe (cp_uuid opts) now channel markets (co_subscriptions co) = (r, m)" by fastforce
  let ?co = "co\<lparr>co_subscriptions := m\<rparr>"
  have q: "still opts co ?co" using subscribed_streams(1) [OF u _ s] by (simp add: still_def)
  show ?case
  proof (cases r)
    case (Inl e)
    then show ?thesis using s q by simp
  next
    case (Inr subs)
    obtain b co2 where g: "registerStreams db True subs ?co = (b, co2)" by fastforce
    have "still opts co co2" using subscribed_streams(1) [OF u _ s] subscribed_streams(2) [where db = db and b = True and subs = subs, OF u _ s] Inr g
      by (auto simp: still_def)
    then show ?thesis using s Inr g Cons.IH [of co2] still_trans by (cases b) auto
  qed
qed simp

lemma subscribeAll_still: "inj (cp_uuid opts) \<Longrightarrow> still opts co (snd (subscribeAll opts db now markets co))"
  using subscribeChannels_still by (simp add: subscribeAll_def)

lemma subscribeChannel_still:
  assumes u: "inj (cp_uuid opts)"
  shows "still opts co (snd (subscribeChannel opts db now channel markets co))"
proof -
  obtain r m where s: "subscribe (cp_uuid opts) now channel markets (co_subscriptions co) = (r, m)" by fastforce
  let ?co = "co\<lparr>co_subscriptions := m\<rparr>"
  have q: "still opts co ?co" using subscribed_streams(1) [OF u _ s] by (simp add: still_def)
  have one: "still opts co (snd (registerStreams db False [sub] ?co))" if "r = Inr (sub # subs)" for sub subs
  proof -
    have "collector_ok opts co \<Longrightarrow> byStreamId (sb_streamId sub) m \<noteq> None" using subscribe_keeps [OF s] that by simp
    then show ?thesis
      using registerStreams_ok [where db = db and b = False and subs = "[sub]" and co = ?co and opts = opts, OF surjective_pairing] subscribed_streams(1) [OF u _ s] by (simp add: still_def)
  qed
  show ?thesis
  proof (cases r)
    case (Inl e)
    then show ?thesis using s q by (simp add: subscribeChannel_def)
  next
    case (Inr subs)
    show ?thesis
    proof (cases subs)
      case (Cons sub rest)
      then show ?thesis using s Inr one [of sub rest] by (auto simp: subscribeChannel_def simp del: registerStreams.simps split: prod.splits bool.splits)
    qed (use s Inr q in \<open>simp add: subscribeChannel_def\<close>)
  qed
qed

lemma diffChannel_still:
  assumes u: "inj (cp_uuid opts)"
  shows "still opts co (snd (diffChannel opts db now added removed channel co))"
proof -
  obtain b1 co1 where a: "(if added = [] then (True, co)
             else case addMarkets (cp_uuid opts) now channel added (co_subscriptions co) of
                    (Inl e, m) \<Rightarrow> (False, co\<lparr>co_subscriptions := m\<rparr>)
                  | (Inr (updated, created), m) \<Rightarrow> registerStreams db False created (co\<lparr>co_subscriptions := m\<rparr>)) = (b1, co1)" by fastforce
  have q1: "still opts co co1"
  proof (cases "added = []")
    case False
    obtain r m where s: "addMarkets (cp_uuid opts) now channel added (co_subscriptions co) = (r, m)" by fastforce
    have ok1: "collector_ok opts (co\<lparr>co_subscriptions := m\<rparr>)" if "collector_ok opts co"
      using subs_change [OF that] addMarkets_ok [OF u collector_okD(1,2) [OF that] s] addMarkets_keeps [OF s] by blast
    show ?thesis
    proof (cases r)
      case (Inl e)
      then show ?thesis using a s ok1 False by (auto simp: still_def)
    next
      case (Inr p)
      obtain updated created where p: "p = (updated, created)" by fastforce
      then show ?thesis using a s ok1 False Inr addMarkets_keeps [OF s]
          registerStreams_ok [of db False created "co\<lparr>co_subscriptions := m\<rparr>" b1 co1 opts] by (simp add: still_def)
    qed
  qed (use a in simp)
  obtain r m where s: "removeMarkets channel removed (co_subscriptions co1) = (r, m)" by fastforce
  have "still opts co1 (co1\<lparr>co_subscriptions := m\<rparr>)"
  proof -
    have "collector_ok opts (co1\<lparr>co_subscriptions := m\<rparr>)" if "collector_ok opts co1"
      using subs_change [OF that] removeMarkets_ok [OF collector_okD(1) [OF that] s] removeMarkets_keeps [OF s] by blast
    then show ?thesis by (simp add: still_def)
  qed
  then have "still opts co (co1\<lparr>co_subscriptions := m\<rparr>)" using q1 still_trans by blast
  then show ?thesis using q1 s by (simp add: diffChannel_def a split: sum.split)
qed

lemma diffChannels_still:
  assumes u: "inj (cp_uuid opts)"
  shows "still opts co (snd (diffChannels opts db now added removed channels co))"
proof (induction channels arbitrary: co)
  case (Cons channel channels)
  obtain b co1 where d: "diffChannel opts db now added removed channel co = (b, co1)" by fastforce
  have "still opts co co1" using diffChannel_still [OF u, of co db now added removed channel] d by simp
  then show ?case using d Cons.IH [of co1] still_trans by (cases b) auto
qed simp

lemma universe_still:
  assumes u: "inj (cp_uuid opts)"
  shows "still opts co (snd (applyUniverseDiff opts db now added removed co))"
proof -
  obtain b co1 where d: "diffChannels opts db now added removed (enabledChannels (cp_capture opts)) co = (b, co1)" by fastforce
  have q: "still opts co co1" using diffChannels_still [OF u, of co db now added removed "enabledChannels (cp_capture opts)"] d by simp
  have "still opts co1 (foldl (\<lambda>co t. co\<lparr>co_books := bm_remove t (co_books co), co_marketState := js_del t (co_marketState co)\<rparr>) co1 removed)"
    by (rule still_foldl) (simp add: still_bystander bystanderI)
  from still_trans [OF q this] have "still opts co (foldl (\<lambda>co t. co\<lparr>co_books := bm_remove t (co_books co), co_marketState := js_del t (co_marketState co)\<rparr>) co1 removed)" .
  then show ?thesis using d q by (simp add: applyUniverseDiff_def)
qed

lemma disconnectStream_fields:
  "co_subscriptions (disconnectStream sub co) = co_subscriptions co" "co_writer (disconnectStream sub co) = co_writer co"
  "co_ingestOrdinal (disconnectStream sub co) = co_ingestOrdinal co" "co_recovery (disconnectStream sub co) = snd (rm_close (sb_streamId sub) (co_recovery co))"
  "co_sequences (disconnectStream sub co) = st_remove (sb_streamId sub) (co_sequences co)"
  by (auto simp: disconnectStream_def Let_def case_prod_unfold split: option.split)

lemma streams_closed:
  assumes "machine_ok (co_recovery co)"
  shows "let co' = foldl (\<lambda>co sub. disconnectStream sub (snd (db_call db (DbCloseStream (sb_streamId sub)) co))) co subs in
     machine_ok (co_recovery co') \<and> co_subscriptions co' = co_subscriptions co \<and> co_writer co' = co_writer co \<and>
     co_ingestOrdinal co' = co_ingestOrdinal co \<and>
     (\<forall>s. js_get (co_sequences co') s = (if s \<in> sb_streamId ` set subs then None else js_get (co_sequences co) s))"
  using assms
proof (induction subs arbitrary: co)
  case (Cons sub subs)
  define co1 where "co1 = disconnectStream sub (snd (db_call db (DbCloseStream (sb_streamId sub)) co))"
  have f: "co_subscriptions co1 = co_subscriptions co" "co_writer co1 = co_writer co" "co_ingestOrdinal co1 = co_ingestOrdinal co"
    "co_recovery co1 = snd (rm_close (sb_streamId sub) (co_recovery co))" "co_sequences co1 = st_remove (sb_streamId sub) (co_sequences co)"
    by (simp_all add: co1_def disconnectStream_fields db_call_def)
  have "machine_ok (co_recovery co1)" using machine_ok_close [OF Cons.prems] by (simp add: f)
  then show ?case using Cons.IH [of co1] by (simp add: Let_def f st_remove_def co1_def [symmetric] del: map_of_eq_Some_iff)
qed simp

lemma disconnect_step:
  assumes ok: "collector_ok opts co"
  shows "collector_ok opts (handleDisconnect opts db now co) \<and> co_ingestOrdinal (handleDisconnect opts db now co) = co_ingestOrdinal co \<and>
    (\<exists>rows. co_writer (handleDisconnect opts db now co) = co_writer co @ [WcDerived rows])"
proof -
  note D = collector_okD [OF ok]
  obtain affected books where b: "invalidateAll ''websocket disconnected; awaiting fresh snapshots'' (co_books co) = (affected, books)" by fastforce
  define m where "m = snd (sm_reset (co_subscriptions co))"
  define co1 where "co1 = tally (\<lambda>c. c\<lparr>cc_reconnects := cc_reconnects c + 1\<rparr>) (co\<lparr>co_books := books, co_subscriptions := m\<rparr>)"
  have start: "disconnectStart co = (sm_all (co_subscriptions co), length affected, co1)"
    by (simp add: disconnectStart_def b Let_def sm_reset_def co1_def m_def)
  define co2 where "co2 = foldl (\<lambda>co sub. disconnectStream sub (snd (db_call db (DbCloseStream (sb_streamId sub)) co))) co1 (sm_all (co_subscriptions co))"
  have c: "machine_ok (co_recovery co2)" "co_subscriptions co2 = m" "co_writer co2 = co_writer co" "co_ingestOrdinal co2 = co_ingestOrdinal co"
    "js_get (co_sequences co2) s = (if s \<in> sb_streamId ` set (sm_all (co_subscriptions co)) then None else js_get (co_sequences co) s)" for s
  proof -
    have f1: "co_recovery co1 = co_recovery co" "co_subscriptions co1 = m" "co_writer co1 = co_writer co" "co_ingestOrdinal co1 = co_ingestOrdinal co"
      "co_sequences co1 = co_sequences co" by (simp_all add: co1_def)
    have "machine_ok (co_recovery co1)" using D(3) f1 by simp
    note S = streams_closed [OF this, of db "sm_all (co_subscriptions co)", unfolded Let_def, folded co2_def, unfolded f1]
    show "machine_ok (co_recovery co2)" "co_subscriptions co2 = m" "co_writer co2 = co_writer co" "co_ingestOrdinal co2 = co_ingestOrdinal co"
      "js_get (co_sequences co2) s = (if s \<in> sb_streamId ` set (sm_all (co_subscriptions co)) then None else js_get (co_sequences co) s)" for s
      using S by blast+
  qed
  have gone: "js_get (co_sequences co2) s = None" for s
  proof (cases "js_get (co_sequences co) s")
    case (Some st)
    then obtain x where x: "byStreamId s (co_subscriptions co) = Some x" using D(5) [of s] by auto
    then have "sb_streamId x = s" using subs_okD(2) [OF D(1)] by blast
    then have "x \<in> set (sm_all (co_subscriptions co))" using sm_all_iff [OF D(1), of x] x by simp
    then show ?thesis using c(5) [of s] \<open>sb_streamId x = s\<close> by auto
  qed (simp add: c(5))
  define sweep where "sweep = (\<lambda>co (e :: recovery_episode). case ep_gapId e of None \<Rightarrow> co
                | Some gapId \<Rightarrow> defer_task (DtSuperseded gapId ''collector disconnected before recovery completed'') co)"
  have s: "bystander co (foldl sweep co es)" for co es
  proof (induction es arbitrary: co)
    case (Cons e es)
    have "bystander co (sweep co e)" by (simp add: sweep_def split: option.split)
    then show ?case using bystander_trans [OF _ Cons.IH] by simp
  qed simp
  define co3 where "co3 = foldl sweep co2 (openEpisodes (co_recovery co2))"
  have s3: "bystander co2 co3" using s by (simp add: co3_def)
  then obtain ws where f3: "co_sequences co3 = co_sequences co2" "co_recovery co3 = co_recovery co2" "co_writer co3 = co_writer co2"
    "co_ingestOrdinal co3 = co_ingestOrdinal co2" "co_subscriptions co3 = m\<lparr>sm_ws := ws\<rparr>" by (auto simp: bystander_def c)
  define co4 where "co4 = handleDisconnect opts db now co"
  have fin: "co_sequences co4 = co_sequences co2" "co_recovery co4 = rm_reset (co_recovery co2)" "co_ingestOrdinal co4 = co_ingestOrdinal co"
    "co_subscriptions co4 = m\<lparr>sm_ws := ws\<rparr>" "\<exists>rows. co_writer co4 = co_writer co @ [WcDerived rows]"
    by (simp_all add: co4_def handleDisconnect_def start disconnectEnd_def Let_def co2_def [symmetric] sweep_def [symmetric]
      co3_def [symmetric] f3 c emit_def enqueueDerived_def)
  have "subs_ok (cp_uuid opts) (m\<lparr>sm_ws := ws\<rparr>)" "sm_max (m\<lparr>sm_ws := ws\<rparr>) = sm_max (co_subscriptions co)"
    by (simp_all add: m_def sm_reset_def subs_ok_empty)
  moreover have "agree (co_sequences co2) (rm_reset (co_recovery co2))" by (simp add: agree_def degradedAt_def gone)
  ultimately have "collector_ok opts co4" using D(2) c(1) by (simp add: collector_ok_def fin gone)
  then show ?thesis using fin unfolding co4_def by blast
qed

lemma reap_still: "still opts co (reapStalledRecoveries now co)"
proof -
  obtain es m where r: "reapTimeouts now (co_recovery co) = (es, m)" by fastforce
  have loop: "bystander co (foldl (\<lambda>co e. defer_task (DtTimedOut e) co) co es)" for co
  proof (induction es arbitrary: co)
    case (Cons e es)
    show ?case using bystander_trans [OF effects_bystand(2) Cons.IH] by simp
  qed simp
  have "collector_ok opts (co\<lparr>co_recovery := m\<rparr>)" if ok: "collector_ok opts co"
  proof (rule ok_step [OF ok])
    note M = collector_okD(3) [OF ok]
    have eps: "\<forall>(s, e) \<in> set (rm_episodes (co_recovery co)). episodeOf (co_recovery co) s = Some e"
      using js_entry_get [OF machine_okD(3) [OF M]] by (auto simp: episodeOf_def)
    then have "\<forall>(s, e) \<in> set (rm_episodes (co_recovery co)). stateOf (co_recovery co) s \<noteq> Healthy"
      using machine_okD(1) [OF M] by (fastforce simp: episode_ok_def split: option.splits)
    then have "stateOf m s \<noteq> Healthy \<longleftrightarrow> stateOf (co_recovery co) s \<noteq> Healthy" for s
      using reap_state [of "rm_episodes (co_recovery co)" "co_recovery co" now s] r by (simp add: reapTimeouts_def)
    then show "agree (co_sequences (co\<lparr>co_recovery := m\<rparr>)) (co_recovery (co\<lparr>co_recovery := m\<rparr>))"
      using collector_okD(4) [OF ok] by (simp add: agree_def)
    have d: "distinct (map fst (rm_episodes (co_recovery co)))" using machine_okD(3) [OF M] by simp
    have "machine_ok (snd (reapTimeouts now (co_recovery co)))" unfolding reapTimeouts_def by (rule machine_ok_reap [OF M d eps])
    then show "machine_ok (co_recovery (co\<lparr>co_recovery := m\<rparr>))" using r by simp
  qed (simp_all add: keptI)
  then have "still opts co (co\<lparr>co_recovery := m\<rparr>)" by (simp add: still_def)
  then show ?thesis using still_trans [OF _ still_bystander [OF loop]] r by (simp add: reapStalledRecoveries_def)
qed

lemma persist_bystands: "bystander co (persistStreamProgress db co)"
proof -
  have "bystander co (foldl (\<lambda>co st. snd (db_call db (DbUpdateStreamSeq (ss_streamId st) (ss_firstSeq st) (ss_lastSeq st) (ss_gapCount st)) co)) co sts)" for sts co
  proof (induction sts arbitrary: co)
    case (Cons st sts)
    show ?case using bystander_trans [OF db_call_bystands Cons.IH] by simp
  qed simp
  then show ?thesis by (simp add: persistStreamProgress_def)
qed

lemma handoff_bystands: "bystander co (snd (handoffLoop opts at_ms books co))"
proof (induction books arbitrary: co)
  case (Cons book books)
  show ?case using bystander_trans [OF effects_bystand(4) Cons.IH] by (simp add: Let_def case_prod_unfold)
qed simp

section \<open>Runs keep the invariant\<close>

definition recorded :: "collector \<Rightarrow> ingest_unit list" where
  "recorded co = concat (map (\<lambda>c. case c of WcEnqueue u \<Rightarrow> [u] | WcDerived rows \<Rightarrow> []) (co_writer co))"

lemma still_recorded: "still opts co co' \<Longrightarrow> collector_ok opts co \<Longrightarrow>
    collector_ok opts co' \<and> recorded co' = recorded co \<and> co_ingestOrdinal co' = co_ingestOrdinal co"
  by (simp add: still_def recorded_def)

fun frameOf :: "co_op \<Rightarrow> raw_frame list" where
  "frameOf (CoFrame now canonical f) = [f]"
| "frameOf _ = []"

lemma coStep_ok:
  assumes u: "inj (cp_uuid opts)" and ok: "collector_ok opts co"
  shows "collector_ok opts (coStep opts db co op) \<and>
    (frameOf op = [] \<longrightarrow> recorded (coStep opts db co op) = recorded co \<and> co_ingestOrdinal (coStep opts db co op) = co_ingestOrdinal co)"
proof (cases "(\<exists>now c f. op = CoFrame now c f) \<or> (\<exists>now. op = CoDisconnect now)")
  case True
  then show ?thesis
  proof (elim disjE exE)
    fix now c f
    assume op: "op = CoFrame now c f"
    then have "coStep opts db co op = handleFrame opts now c f co" "frameOf op \<noteq> []" by simp_all
    then show ?thesis using frame_step [OF ok, of now c f] by auto
  next
    fix now
    assume op: "op = CoDisconnect now"
    then have e: "coStep opts db co op = handleDisconnect opts db now co" by simp
    obtain rows where "co_writer (handleDisconnect opts db now co) = co_writer co @ [WcDerived rows]" using disconnect_step [OF ok] by blast
    then have "recorded (handleDisconnect opts db now co) = recorded co" by (simp add: recorded_def)
    then show ?thesis using disconnect_step [OF ok, of db now] unfolding e by blast
  qed
next
  case False
  have subs: "still opts co (co\<lparr>co_subscriptions := (co_subscriptions co)\<lparr>sm_ws := ws\<rparr>\<rparr>)" for ws
    by (rule still_bystander) (auto simp: bystander_def)
  have drain: "still opts co (drainOne opts db co)" using drainOne_ok by (simp add: still_def)
  have request: "still opts co (snd (requestRecoverySnapshots now ts co))" for now ts
    by (rule still_bystander [OF requestRecovery_bystands [OF surjective_pairing]])
  have "still opts co (coStep opts db co op)"
  proof (cases op)
    case (CoSubscribeAll now markets)
    then show ?thesis using subscribeAll_still [OF u] by simp
  next
    case (CoSubscribeChannel now channel markets)
    then show ?thesis using subscribeChannel_still [OF u] by simp
  next
    case (CoUniverseDiff now added removed)
    then show ?thesis using universe_still [OF u] by simp
  qed (use False in \<open>simp_all add: subs drain reap_still request still_bystander [OF persist_bystands] still_bystander [OF handoff_bystands]
      handoffSnapshots_def\<close>)
  then show ?thesis using still_recorded ok by blast
qed

lemma newCollector_ok: "collector_ok opts (newCollector ws)"
  by (simp add: collector_ok_def newCollector_def newSubscriptionManager_def subs_ok_empty DEFAULT_MARKETS_PER_SUBSCRIPTION_def
      machine_ok_def newRecoveryMachine_def stateOf_def episodeOf_def agree_def degradedAt_def)

lemma coRun_ok:
  assumes u: "inj (cp_uuid opts)" and ok: "collector_ok opts co"
  shows "collector_ok opts (coRun opts db co ops)"
  unfolding coRun_def
  by (rule foldl_invariant [where P = "collector_ok opts", OF _ ok]) (use coStep_ok [OF u] in blast)

section \<open>A degraded stream\<close>

text \<open>
  \<open>held s T m m'\<close>: from \<open>m\<close> to \<open>m'\<close> the stream \<open>s\<close> stays unhealthy and gains no episode, and what leaves the outstanding set
  of its episode lies in \<open>T\<close>; or it becomes healthy, and then it had an episode and all its outstanding markets lie in \<open>T\<close>.
\<close>

definition held :: "string \<Rightarrow> string set \<Rightarrow> recovery_machine \<Rightarrow> recovery_machine \<Rightarrow> bool" where
  "held s T m m' \<longleftrightarrow>
     (if stateOf m' s = Healthy then \<exists>e. episodeOf m s = Some e \<and> set (ep_outstanding e) \<subseteq> T
      else \<forall>e'. episodeOf m' s = Some e' \<longrightarrow> (\<exists>e. episodeOf m s = Some e \<and> set (ep_outstanding e) \<subseteq> set (ep_outstanding e') \<union> T))"

lemma held_same: "stateOf m s \<noteq> Healthy \<Longrightarrow> stateOf m' s = stateOf m s \<Longrightarrow> episodeOf m' s = episodeOf m s \<Longrightarrow> held s T m m'"
  by (auto simp: held_def)

lemma held_trans:
  assumes "held s T m m1" "stateOf m1 s \<noteq> Healthy" "held s T m1 m2"
  shows "held s T m m2"
proof (cases "stateOf m2 s = Healthy")
  case True
  then obtain e1 where "episodeOf m1 s = Some e1" "set (ep_outstanding e1) \<subseteq> T" using assms(3) by (auto simp: held_def)
  then show ?thesis using assms(1,2) True by (fastforce simp: held_def)
next
  case False
  show ?thesis
  proof -
    have "\<exists>e. episodeOf m s = Some e \<and> set (ep_outstanding e) \<subseteq> set (ep_outstanding e2) \<union> T" if e2: "episodeOf m2 s = Some e2" for e2
    proof -
      obtain e1 where "episodeOf m1 s = Some e1" "set (ep_outstanding e1) \<subseteq> set (ep_outstanding e2) \<union> T"
        using assms(3) False e2 by (auto simp: held_def)
      moreover obtain e where "episodeOf m s = Some e" "set (ep_outstanding e) \<subseteq> set (ep_outstanding e1) \<union> T"
        using assms(1,2) calculation(1) by (auto simp: held_def)
      ultimately show ?thesis by blast
    qed
    then show ?thesis using False by (simp add: held_def)
  qed
qed

lemma withhold_held: "stateOf m s \<noteq> Healthy \<Longrightarrow> held s T m (withhold s' m)"
  by (auto simp: held_def withhold_def split: option.split)

lemma recordSnapshot_held: "stateOf m s \<noteq> Healthy \<Longrightarrow> recordSnapshot s' t now m = (r, m') \<Longrightarrow> held s {t} m m'"
  by (cases "episodeOf m s'") (auto simp: held_def recordSnapshot_def Let_def jsmap split: if_splits)

lemma put_held: "stateOf m s \<noteq> Healthy \<Longrightarrow> episodeOf m s' = Some e \<Longrightarrow> ep_outstanding e' = ep_outstanding e \<Longrightarrow> held s T m (putEpisode s' e' m)"
  by (auto simp: held_def)

lemma reap_held: "\<forall>(k, e) \<in> set es. stateOf m k \<noteq> Healthy \<Longrightarrow> stateOf m s \<noteq> Healthy \<Longrightarrow> held s T m (snd (reapLoop now es m))"
proof (induction es arbitrary: m)
  case (Cons p es)
  obtain k e where p: "p = (k, e)" by fastforce
  let ?m = "setState k Degraded RecoveryTimeout (dropEpisode k m)"
  have st: "stateOf ?m a = (if a = k then Degraded else stateOf m a)" for a by simp
  have "held s T ?m (snd (reapLoop now es ?m))" using Cons.prems by (intro Cons.IH) (auto simp: st simp del: setState_stateOf split: if_splits)
  moreover have "held s T m ?m" using Cons.prems by (auto simp: held_def)
  moreover have "stateOf ?m s \<noteq> Healthy" using Cons.prems(2) by simp
  ultimately have "held s T m (snd (reapLoop now es ?m))" using held_trans by blast
  then show ?case using Cons p by (simp add: case_prod_unfold Let_def)
qed (simp add: held_same)

lemma classify_held:
  assumes ok: "collector_ok opts co" and n: "stateOf (co_recovery co) s \<noteq> Healthy"
    and step: "classifyFrame opts now sub channel ty u co = (a, u', co')"
  shows "held s T (co_recovery co) (co_recovery co') \<and> stateOf (co_recovery co') s \<noteq> Healthy"
proof (cases "\<exists>x ch. sub = Some x \<and> channel = Some ch \<and> isSequencedChannel (Some ch)")
  case False
  then have "co' = co" using step by (cases a) (auto simp: classifyFrame_def split: option.splits if_splits)
  then show ?thesis using held_same n by simp
next
  case True
  then obtain x ch where x: "sub = Some x" "channel = Some ch" "isSequencedChannel (Some ch)" by blast
  obtain allowed reason where a: "a = (allowed, reason)" by fastforce
  obtain v tr where o: "st_observe (sb_streamId x) ch (ri_seq (iu_raw u)) (co_sequences co) = (v, tr)" by fastforce
  note D = collector_okD [OF ok] and od = observe_degraded [OF o]
  show ?thesis
  proof (cases "sr_verdict v = VGap")
    case gap: True
    define co2 where "co2 = tally (\<lambda>c. c\<lparr>cc_sequenceGaps := cc_sequenceGaps c + 1\<rparr>) (co\<lparr>co_sequences := tr\<rparr>)"
    obtain u3 co3 where g: "handleSequenceGap opts now x (sr_expectedSeq v) (sr_receivedSeq v) u co2 = (u3, co3)" by fastforce
    have eq: "co' = co3" using step x o gap g a by (simp add: classifyFrame_def Let_def co2_def)
    have rec: "co_recovery co2 = co_recovery co" "co_sequences co2 = tr" by (simp_all add: co2_def)
    have h: "stateOf (co_recovery co) (sb_streamId x) = Healthy" using od(2) [OF gap] D(4) by (auto simp: agree_def)
    note G = gap_step [of co2 x opts now "sr_expectedSeq v" "sr_receivedSeq v" u u3 co3, unfolded rec, OF D(3) h g]
    have "s \<noteq> sb_streamId x" using h n by auto
    then show ?thesis using G n held_same unfolding eq by simp
  next
    case False
    then have "co_recovery co' = co_recovery co \<or> co_recovery co' = withhold (sb_streamId x) (co_recovery co)"
      using step x o a by (auto simp: classifyFrame_def Let_def split: verdict.splits if_splits)
    then show ?thesis using n held_same withhold_held by auto
  qed
qed

fun snapshotMarket :: "co_op \<Rightarrow> string option" where
  \<comment> \<open>the market of which the operation delivers a snapshot\<close>
  "snapshotMarket (CoFrame now canonical f) =
     Option.bind (fm_envelope f) (\<lambda>env. if we_type env = ''orderbook_snapshot''
       then map_option sn_market_ticker (Option.bind (we_msg env) OrderbookSnapshotMsg) else None)"
| "snapshotMarket _ = None"

lemma dispatch_held:
  assumes n: "stateOf (co_recovery co) s \<noteq> Healthy" and step: "dispatch opts now env sub allowed reason u co = (err, u', co')"
  shows "held s (set_option (if we_type env = ''orderbook_snapshot''
       then map_option sn_market_ticker (Option.bind (we_msg env) OrderbookSnapshotMsg) else None)) (co_recovery co) (co_recovery co')"
proof (cases "we_type env = ''orderbook_snapshot''")
  case False
  have "bystander co co' \<and> iu_raw u' = iu_raw u"
    using step False delta_bystands [of opts now env] trade_bystands [of opts env] ticker_bystands [of opts now env]
      lifecycle_bystands [of opts env]
    by (simp add: dispatch_def Let_def split: if_splits)
  then show ?thesis using False held_same n by (simp add: bystander_def)
next
  case True
  have h: "handleSnapshot opts env (map_option sb_streamId sub) (Option.bind sub sb_sid) u co = (err, u', co')"
    using step True by (simp add: dispatch_def)
  show ?thesis
  proof (cases "Option.bind (we_msg env) OrderbookSnapshotMsg")
    case None
    then have "co' = co" using h by (simp add: handleSnapshot_def)
    then show ?thesis using None True held_same [OF n] by simp
  next
    case (Some msg)
    obtain out m where r: "(case map_option sb_streamId sub of None \<Rightarrow> (\<lparr>rc_relevant = False, rc_completed = False, rc_episode = None\<rparr>, co_recovery co)
      | Some s \<Rightarrow> recordSnapshot s (sn_market_ticker msg) (ri_receivedAtMs (iu_raw u)) (co_recovery co)) = (out, m)" by fastforce
    have "co_recovery co' = m" using h Some r
      by (auto simp: handleSnapshot_def Let_def completeRecovery_def split: option.splits prod.splits)
    moreover have "held s {sn_market_ticker msg} (co_recovery co) m"
      using r n recordSnapshot_held [OF n] held_same [OF n] by (cases sub) auto
    ultimately show ?thesis using Some True by simp
  qed
qed

lemma frame_held:
  assumes ok: "collector_ok opts co" and n: "stateOf (co_recovery co) s \<noteq> Healthy"
  shows "held s (set_option (snapshotMarket (CoFrame now canonical f))) (co_recovery co) (co_recovery (handleFrame opts now canonical f co))"
proof -
  have same: "held s T (co_recovery co) (co_recovery co)" for T
    by (rule held_same [OF n]) simp_all
  have sub: "co_recovery (handleSubscribed env co') = co_recovery co'" for env co'
    by (auto simp: handleSubscribed_def Let_def split: option.split prod.split)
  define co1 where "co1 = tally (\<lambda>c. c\<lparr>cc_messagesReceived := cc_messagesReceived c + 1\<rparr>) (co\<lparr>co_ingestOrdinal := co_ingestOrdinal co + 1\<rparr>)"
  define channel where "channel = (case subOf (fm_envelope f) co of Some s \<Rightarrow> Some (sb_channel s) | None \<Rightarrow> channelForType (messageTypeOf f))"
  have r1: "co_recovery co1 = co_recovery co" by (simp add: co1_def)
  have ok1: "collector_ok opts co1" using ok by (simp add: collector_ok_def co1_def)
  have data: "held s (set_option (snapshotMarket (CoFrame now canonical f))) (co_recovery co) (co_recovery (handleData opts now canonical env sub channel u co2))"
    if "fm_envelope f = Some env" "bystander co1 co2" for env sub u co2
  proof -
    have r2: "co_recovery co2 = co_recovery co" using that(2) r1 by (simp add: bystander_def)
    have ok2: "collector_ok opts co2" using bystander_ok [OF that(2)] ok1 by blast
    obtain a u1 co3 where c: "classifyFrame opts now sub channel (we_type env) u co2 = (a, u1, co3)" by (metis prod.collapse)
    obtain allowed reason where a: "a = (allowed, reason)" by fastforce
    obtain err u2 co4 where d: "dispatch opts now env sub allowed reason u1 co3 = (err, u2, co4)" by (metis prod.collapse)
    have r4: "co_recovery (handleData opts now canonical env sub channel u co2) = co_recovery co4"
      using c d a by (simp add: handleData_def Let_def)
    have n2: "stateOf (co_recovery co2) s \<noteq> Healthy" using n r2 by simp
    let ?T = "set_option (snapshotMarket (CoFrame now canonical f))"
    note cl = classify_held [OF ok2 n2 c, where T = ?T]
    have "held s ?T (co_recovery co3) (co_recovery co4)"
      using dispatch_held [OF conjunct2 [OF cl] d] that(1) by simp
    then show ?thesis unfolding r4 using held_trans [OF conjunct1 [OF cl] conjunct2 [OF cl]] r2 by simp
  qed
  show ?thesis
  proof (cases "rawOf opts f co")
    case None
    then have "handleFrame opts now canonical f co = co1" by (simp add: handleFrame_def Let_def rawOf_def co1_def)
    then show ?thesis using same r1 by (simp del: snapshotMarket.simps)
  next
    case (Some raw)
    define co2 where "co2 = (case ri_exchangeTsMs raw of None \<Rightarrow> co1 | Some t \<Rightarrow> emit (EmLatency t (ri_receivedAtMs raw)) co1)"
    have b2: "bystander co1 co2" by (simp add: co2_def split: option.split)
    have r2: "co_recovery co2 = co_recovery co" using b2 r1 by (simp add: bystander_def)
    show ?thesis
    proof (cases "fm_envelope f")
      case None
      have "co_recovery (handleFrame opts now canonical f co) = co_recovery co2" using Some None
        by (cases "ri_exchangeTsMs raw") (simp_all add: handleFrame_def Let_def rawOf_def co1_def co2_def)
      then show ?thesis using same r2 by (simp del: snapshotMarket.simps)
    next
      case env: (Some env)
      define u where "u = \<lparr>iu_raw = raw, iu_normalized = []\<rparr>"
      have "handleFrame opts now canonical f co =
          (if we_type env = ''subscribed'' then enqueue u (handleSubscribed env co2)
           else if we_type env = ''error'' then enqueue (handleError opts now env u) co2
           else if isControl (we_type env) then enqueue u co2
           else handleData opts now canonical env (subOf (fm_envelope f) co) channel u co2)"
        using Some env by (cases "ri_exchangeTsMs raw") (simp_all add: handleFrame_def Let_def rawOf_def co1_def co2_def channel_def u_def)
      then show ?thesis using data [OF env b2, of "subOf (fm_envelope f) co" u] same by (simp add: sub r2 del: snapshotMarket.simps)
    qed
  qed
qed

lemma coStep_held:
  assumes ok: "collector_ok opts co" and n: "stateOf (co_recovery co) s \<noteq> Healthy" and d: "\<And>now. op \<noteq> CoDisconnect now"
  shows "held s (set_option (snapshotMarket op)) (co_recovery co) (co_recovery (coStep opts db co op))"
proof -
  have same: "held s T (co_recovery co) m" if "stateOf m s = stateOf (co_recovery co) s" "episodeOf m s = episodeOf (co_recovery co) s" for m T
    by (rule held_same [OF n that])
  have eq: "held s T (co_recovery co) (co_recovery co')" if "bystander co co'" for co' T
    using that same by (simp add: bystander_def)
  have reg: "stateOf (rm_register k m) = stateOf m \<and> episodeOf (rm_register k m) = episodeOf m" for k m
    by (simp add: fun_eq_iff) (simp add: rm_register_def episodeOf_def)
  have regs: "stateOf (co_recovery (snd (registerStreams db b subs co'))) = stateOf (co_recovery co') \<and>
      episodeOf (co_recovery (snd (registerStreams db b subs co'))) = episodeOf (co_recovery co')" for b subs co'
  proof (induction subs arbitrary: co')
    case (Cons sub subs)
    show ?case using Cons.IH reg by (simp add: db_call_def split: option.split)
  qed simp
  show ?thesis
  proof (cases op)
    case (CoFrame now canonical f)
    then show ?thesis using frame_held [OF ok n] by (simp del: snapshotMarket.simps)
  next
    case (CoSubscribeAll now markets)
    have "stateOf (co_recovery (snd (subscribeChannels opts db now markets chs co'))) = stateOf (co_recovery co') \<and>
        episodeOf (co_recovery (snd (subscribeChannels opts db now markets chs co'))) = episodeOf (co_recovery co')" for chs co'
    proof (induction chs arbitrary: co')
      case (Cons ch chs)
      obtain r m where s: "subscribe (cp_uuid opts) now ch markets (co_subscriptions co') = (r, m)" by fastforce
      show ?case
      proof (cases r)
        case (Inr subs)
        obtain b co2 where g: "registerStreams db True subs (co'\<lparr>co_subscriptions := m\<rparr>) = (b, co2)" by fastforce
        show ?thesis using s Inr g Cons.IH [of co2] regs [of True subs "co'\<lparr>co_subscriptions := m\<rparr>"] by (cases b) simp_all
      qed (use s in simp)
    qed simp
    then show ?thesis using CoSubscribeAll same by (simp add: subscribeAll_def)
  next
    case (CoSubscribeChannel now channel markets)
    obtain r m where s: "subscribe (cp_uuid opts) now channel markets (co_subscriptions co) = (r, m)" by fastforce
    have "co_recovery (snd (subscribeChannel opts db now channel markets co)) = co_recovery co \<or>
      (\<exists>sub. co_recovery (snd (subscribeChannel opts db now channel markets co)) =
         co_recovery (snd (registerStreams db False [sub] (co\<lparr>co_subscriptions := m\<rparr>))))"
    proof (cases "\<exists>sub subs. r = Inr (sub # subs)")
      case True
      then obtain sub subs where r: "r = Inr (sub # subs)" by blast
      obtain b co2 where g: "registerStreams db False [sub] (co\<lparr>co_subscriptions := m\<rparr>) = (b, co2)" by fastforce
      have "co_recovery (snd (subscribeChannel opts db now channel markets co)) = co_recovery co2"
        using s r g by (cases b) (simp_all add: subscribeChannel_def del: registerStreams.simps)
      then show ?thesis using g by (metis snd_conv)
    qed (use s in \<open>auto simp: subscribeChannel_def split: sum.split list.split\<close>)
    then have "stateOf (co_recovery (snd (subscribeChannel opts db now channel markets co))) = stateOf (co_recovery co) \<and>
      episodeOf (co_recovery (snd (subscribeChannel opts db now channel markets co))) = episodeOf (co_recovery co)"
      using regs [of False _ "co\<lparr>co_subscriptions := m\<rparr>"] by (elim disjE exE) (simp_all del: registerStreams.simps)
    then show ?thesis using CoSubscribeChannel same by simp
  next
    case (CoUniverseDiff now added removed)
    have rem: "co_recovery (foldl (\<lambda>co t. co\<lparr>co_books := bm_remove t (co_books co), co_marketState := js_del t (co_marketState co)\<rparr>) co' ts) =
        co_recovery co'" for co' ts
      by (induction ts arbitrary: co') simp_all
    have one: "stateOf (co_recovery (snd (diffChannel opts db now added removed ch co'))) = stateOf (co_recovery co') \<and>
        episodeOf (co_recovery (snd (diffChannel opts db now added removed ch co'))) = episodeOf (co_recovery co')" for ch co'
    proof -
      obtain r m where s: "addMarkets (cp_uuid opts) now ch added (co_subscriptions co') = (r, m)" by fastforce
      obtain created where c: "created = (case r of Inr p \<Rightarrow> snd p | Inl e \<Rightarrow> [])" by blast
      have "co_recovery (snd (diffChannel opts db now added removed ch co')) = co_recovery co' \<or>
        co_recovery (snd (diffChannel opts db now added removed ch co')) =
          co_recovery (snd (registerStreams db False created (co'\<lparr>co_subscriptions := m\<rparr>)))"
        using s c by (auto simp: diffChannel_def Let_def case_prod_unfold split: sum.splits)
      then show ?thesis using regs [of False created "co'\<lparr>co_subscriptions := m\<rparr>"] by fastforce
    qed
    have "stateOf (co_recovery (snd (diffChannels opts db now added removed chs co'))) = stateOf (co_recovery co') \<and>
        episodeOf (co_recovery (snd (diffChannels opts db now added removed chs co'))) = episodeOf (co_recovery co')" for chs co'
    proof (induction chs arbitrary: co')
      case (Cons ch chs)
      obtain b co2 where g: "diffChannel opts db now added removed ch co' = (b, co2)" by fastforce
      show ?case using g Cons.IH [of co2] one [of ch co'] by (cases b) simp_all
    qed simp
    then show ?thesis using CoUniverseDiff same by (simp add: applyUniverseDiff_def Let_def case_prod_unfold rem)
  next
    case CoDeferred
    have noted: "held s T (co_recovery co') (co_recovery (noteGapId k i g co'))" if "co_recovery co' = co_recovery co" for T k i g co'
      using put_held [OF n] held_same [OF n] that by (auto simp: noteGapId_def split: option.split)
    have calls: "co_recovery (db_calls db cs co') = co_recovery co'" for cs co' using db_calls_bystand [of co' db cs] by (simp add: bystander_def)
    have "held s {} (co_recovery co) (co_recovery (runTask opts db t co'))" if "co_recovery co' = co_recovery co" for t co'
    proof (cases t)
      case (DtGap g i recovering)
      have "co_recovery (snd (db_call db c co')) = co_recovery co'" for c co' by (simp add: db_call_def)
      then show ?thesis using DtGap noted same that
        by (simp add: Let_def case_prod_unfold calls del: db_calls.simps split: option.split)
    qed (simp_all add: calls that same del: db_calls.simps)
    then show ?thesis using CoDeferred same by (simp add: drainOne_def split: list.split)
  next
    case (CoReap now)
    note M = collector_okD(3) [OF ok]
    have "\<forall>(k, e) \<in> set (rm_episodes (co_recovery co)). episodeOf (co_recovery co) k = Some e"
      using js_entry_get [OF machine_okD(3) [OF M]] by (auto simp: episodeOf_def)
    then have "\<forall>(k, e) \<in> set (rm_episodes (co_recovery co)). stateOf (co_recovery co) k \<noteq> Healthy"
      using machine_okD(1) [OF M] by (fastforce simp: episode_ok_def split: option.splits)
    then have "held s {} (co_recovery co) (snd (reapTimeouts now (co_recovery co)))" unfolding reapTimeouts_def by (rule reap_held [OF _ n])
    moreover have "co_recovery (foldl (\<lambda>co e. defer_task (DtTimedOut e) co) co' es) = co_recovery co'" for co' es
      by (induction es arbitrary: co') simp_all
    ultimately show ?thesis using CoReap by (simp add: reapStalledRecoveries_def case_prod_unfold Let_def)
  next
    case (CoRequestSnapshots now markets)
    then show ?thesis using eq [OF requestRecovery_bystands [OF surjective_pairing]] by simp
  next
    case CoPersist
    then show ?thesis using eq [OF persist_bystands] by simp
  next
    case (CoHandoff now)
    then show ?thesis using eq [OF handoff_bystands] by (simp add: handoffSnapshots_def)
  qed (use d same in simp_all)
qed

lemma stays_degraded:
  assumes u: "inj (cp_uuid opts)" and ok: "collector_ok opts co" and n: "stateOf (co_recovery co) s \<noteq> Healthy"
    and d: "\<And>now. CoDisconnect now \<notin> set ops" and h: "stateOf (co_recovery (coRun opts db co ops)) s = Healthy"
  shows "\<exists>e. episodeOf (co_recovery co) s = Some e \<and> set (ep_outstanding e) \<subseteq> (\<Union>op \<in> set ops. set_option (snapshotMarket op))"
  using ok n d h
proof (induction ops arbitrary: co)
  case (Cons op ops)
  let ?co = "coStep opts db co op"
  have run: "coRun opts db co (op # ops) = coRun opts db ?co ops" by (simp add: coRun_def)
  have ok': "collector_ok opts ?co" using coStep_ok [OF u Cons.prems(1)] by blast
  have step: "held s (set_option (snapshotMarket op)) (co_recovery co) (co_recovery ?co)"
    using Cons.prems(3) by (intro coStep_held [OF Cons.prems(1,2)]) fastforce
  show ?case
  proof (cases "stateOf (co_recovery ?co) s = Healthy")
    case True
    then show ?thesis using step by (auto simp: held_def)
  next
    case False
    then obtain e' where e': "episodeOf (co_recovery ?co) s = Some e'" "set (ep_outstanding e') \<subseteq> (\<Union>op \<in> set ops. set_option (snapshotMarket op))"
      using Cons.IH [OF ok' False] Cons.prems(3,4) run by fastforce
    then show ?thesis using step False by (auto simp: held_def)
  qed
qed (simp add: coRun_def)

section \<open>What reaches the writer\<close>

definition integralSeq :: "raw_frame \<Rightarrow> bool" where
  "integralSeq f = (case Option.bind (fm_envelope f) we_seq of None \<Rightarrow> True | Some q \<Rightarrow> toBigint q \<noteq> None)"

definition framesOf :: "co_op list \<Rightarrow> raw_frame list" where
  "framesOf ops = concat (map frameOf ops)"

text \<open>What the raw log of a run is to be: every frame that arrived, numbered from one, except those that cannot be numbered by a \<open>bigint\<close>.\<close>

definition rawLog :: "(string \<Rightarrow> string) \<Rightarrow> raw_frame list \<Rightarrow> (int \<times> int \<times> string) list" where
  "rawLog sha fs = map (\<lambda>(i, f). (int i + 1, fm_receivedAtMs f, sha (fm_text f))) (filter (\<lambda>(i, f). integralSeq f) (enumerate 0 fs))"

lemma rawOf_spec:
  "case rawOf opts f co of
     None \<Rightarrow> \<not> integralSeq f
   | Some raw \<Rightarrow> integralSeq f \<and> ri_ingestOrdinal raw = co_ingestOrdinal co + 1 \<and> ri_payloadHash raw = cp_sha256 opts (fm_text f) \<and>
       ri_receivedAtMs raw = fm_receivedAtMs f"
  by (auto simp: rawOf_def toRawIngestEvent_def Let_def integralSeq_def split: option.splits)

definition told :: "ingest_unit \<Rightarrow> int \<times> int \<times> string" where
  "told u = (ri_ingestOrdinal (iu_raw u), ri_receivedAtMs (iu_raw u), ri_payloadHash (iu_raw u))"

lemma run_log:
  assumes u: "inj (cp_uuid opts)" and ok: "collector_ok opts co"
  shows "map told (recorded (coRun opts db co ops)) = map told (recorded co) @
      map (\<lambda>(i, f). (co_ingestOrdinal co + int i + 1, fm_receivedAtMs f, cp_sha256 opts (fm_text f)))
        (filter (\<lambda>(i, f). integralSeq f) (enumerate 0 (framesOf ops))) \<and>
    co_ingestOrdinal (coRun opts db co ops) = co_ingestOrdinal co + int (length (framesOf ops))"
  using ok
proof (induction ops rule: rev_induct)
  case Nil
  then show ?case by (simp add: coRun_def framesOf_def)
next
  case (snoc op ops)
  let ?co = "coRun opts db co ops"
  have run: "coRun opts db co (ops @ [op]) = coStep opts db ?co op" by (simp add: coRun_def)
  have ok': "collector_ok opts ?co" by (rule coRun_ok [OF u snoc.prems])
  note IH = snoc.IH [OF snoc.prems]
  show ?case
  proof (cases "frameOf op = []")
    case True
    then show ?thesis using coStep_ok [OF u ok', of db op] IH by (simp add: run framesOf_def)
  next
    case False
    then obtain now c f where op: "op = CoFrame now c f" by (cases op) auto
    have fs: "framesOf (ops @ [op]) = framesOf ops @ [f]" by (simp add: framesOf_def op)
    have co': "coStep opts db ?co op = handleFrame opts now c f ?co" by (simp add: op)
    note F = frame_step [OF ok', of now c f]
    show ?thesis
    proof (cases "rawOf opts f ?co")
      case None
      then have "recorded (handleFrame opts now c f ?co) = recorded ?co" "\<not> integralSeq f"
        using F rawOf_spec [where opts = opts and f = f and co = ?co] by (simp_all add: recorded_def)
      then show ?thesis using F IH by (simp add: run co' fs enumerate_append_eq)
    next
      case (Some raw)
      then obtain v where v: "co_writer (handleFrame opts now c f ?co) = co_writer ?co @ [WcEnqueue v]" "iu_raw v = raw" using F by auto
      then have "recorded (handleFrame opts now c f ?co) = recorded ?co @ [v]" by (simp add: recorded_def)
      moreover have "told v = (co_ingestOrdinal ?co + 1, fm_receivedAtMs f, cp_sha256 opts (fm_text f))" "integralSeq f"
        using rawOf_spec [where opts = opts and f = f and co = ?co] Some v(2) by (simp_all add: told_def)
      ultimately show ?thesis using F IH by (simp add: run co' fs enumerate_append_eq)
    qed
  qed
qed

end
