(* ===== verification/RecorderProps.thy ===== *)
theory RecorderProps
  imports CollectorProps
begin

text \<open>
  The properties of the recorder on every run: the two authorities on a stream agree, a degraded stream recovers by snapshots only, a
  delta that changes a book was the next of its stream, and the raw log is complete and numbered.
\<close>

section \<open>What a delta frame does to the books\<close>

definition levelsAt :: "collector \<Rightarrow> string \<Rightarrow> ladder \<times> ladder" where
  "levelsAt co t = (case bm_get (co_books co) t of None \<Rightarrow> ([], []) | Some b \<Rightarrow> (mb_yesBids b, mb_noBids b))"

lemma levelsAt_books: "co_books co' = co_books co \<Longrightarrow> levelsAt co' t = levelsAt co t"
  by (simp add: levelsAt_def)

lemma gap_levels:
  assumes "handleSequenceGap opts now sub e r u co = (u', co')"
  shows "levelsAt co' t = levelsAt co t"
proof -
  let ?s = "sb_streamId sub" and ?affected = "marketsForStream (co_books co) (sb_streamId sub)"
  obtain opened ep m1 where g: "openGap ?s \<lparr>og_affected = ?affected, og_expectedSeq = e, og_receivedSeq = r,
     og_nowMs = ri_receivedAtMs (iu_raw u)\<rparr> (co_recovery co) = ((opened, ep), m1)" by (metis prod.collapse)
  show ?thesis
  proof (cases opened)
    case False
    then have "co_books co' = co_books co" using assms g by (simp add: handleSequenceGap_def Let_def) auto
    then show ?thesis by (rule levelsAt_books)
  next
    case True
    have "\<exists>reason. co_books co' = snd (invalidateStream ?s reason (co_books co))"
      using assms g True
      by (auto simp: handleSequenceGap_def Let_def dest!: requestForGap_bystands split: prod.splits)
    then show ?thesis by (cases "bm_get (co_books co) t") (auto simp: levelsAt_def invalidate_def)
  qed
qed

lemma classify_levels:
  assumes "classifyFrame opts now sub channel ty u co = (a, u', co')"
  shows "levelsAt co' t = levelsAt co t"
proof (cases "\<exists>x ch. sub = Some x \<and> channel = Some ch \<and> isSequencedChannel (Some ch)")
  case False
  then have "co' = co" using assms by (cases a) (auto simp: classifyFrame_def split: option.splits if_splits)
  then show ?thesis by simp
next
  case True
  then obtain x ch where x: "sub = Some x" "channel = Some ch" "isSequencedChannel (Some ch)" by blast
  obtain allowed reason where a: "a = (allowed, reason)" by fastforce
  obtain v tr where o: "st_observe (sb_streamId x) ch (ri_seq (iu_raw u)) (co_sequences co) = (v, tr)" by fastforce
  show ?thesis
  proof (cases "sr_verdict v = VGap")
    case gap: True
    define co2 where "co2 = tally (\<lambda>c. c\<lparr>cc_sequenceGaps := cc_sequenceGaps c + 1\<rparr>) (co\<lparr>co_sequences := tr\<rparr>)"
    obtain u3 co3 where g: "handleSequenceGap opts now x (sr_expectedSeq v) (sr_receivedSeq v) u co2 = (u3, co3)" by fastforce
    have "co' = co3" using assms x o gap g a by (simp add: classifyFrame_def Let_def co2_def)
    then show ?thesis using gap_levels [OF g] by (simp add: levelsAt_def co2_def)
  next
    case False
    then have "co_books co' = co_books co"
      using assms x o a by (auto simp: classifyFrame_def Let_def split: verdict.splits if_splits)
    then show ?thesis by (rule levelsAt_books)
  qed
qed

lemma delta_books:
  assumes "handleDelta opts now env s sid allowed reason u co = (err, u', co')"
    and msg: "Option.bind (we_msg env) OrderbookDeltaMsg = Some msg"
  shows "co_books co' = snd (bm_applyDelta (cp_dec opts) (deltaInput opts msg s sid (iu_raw u))
      \<lparr>opt_canApply = allowed, opt_skipReason = reason\<rparr> (co_books co))"
proof -
  obtain outcome books where b: "bm_applyDelta (cp_dec opts) (deltaInput opts msg s sid (iu_raw u))
      \<lparr>opt_canApply = allowed, opt_skipReason = reason\<rparr> (co_books co) = (outcome, books)" by fastforce
  define co1 where "co1 = (tally (\<lambda>c. c\<lparr>cc_orderbookDeltas := cc_orderbookDeltas c + 1\<rparr>) co)\<lparr>co_books := books\<rparr>"
  define co2 where "co2 = tally (\<lambda>c. c\<lparr>cc_negativeLevels := cc_negativeLevels c + 1\<rparr>) co1"
  obtain ok co3 where m: "mayRequestSnapshot (dm_market_ticker msg) now co2 = (ok, co3)" by fastforce
  obtain r co4 where a: "askSnapshots [dm_market_ticker msg] co3 = (r, co4)" by fastforce
  have "co' \<in> {co1, co2, co3, co4}"
    using assms b m a
    by (auto simp: handleDelta_def Let_def pushRow_def co1_def co2_def split: option.splits if_splits sum.splits)
  moreover have "co_books co1 = books" "co_books co2 = books" by (simp_all add: co1_def co2_def)
  ultimately show ?thesis using mayRequest_bystands [OF m] askSnapshots_bystands [OF a] b by auto
qed

lemma apply_levels:
  assumes "snd (bm_applyDelta L inp opt m) = m'"
    and "(case bm_get m' t of None \<Rightarrow> ([], []) | Some b \<Rightarrow> (mb_yesBids b, mb_noBids b)) \<noteq>
         (case bm_get m t of None \<Rightarrow> ([], []) | Some b \<Rightarrow> (mb_yesBids b, mb_noBids b))"
  shows "opt_canApply opt \<and> validAt m t \<and> t = xd_marketTicker inp"
proof (rule ccontr)
  assume n: "\<not> ?thesis"
  show False
  proof (cases "opt_canApply opt \<and> validAt m (xd_marketTicker inp)")
    case True
    then show False using n assms bm_applyDelta_apply(3) [of opt m inp L t] by (auto split: if_splits)
  next
    case False
    then have "bm_get m' t = (if t = xd_marketTicker inp then Some (bookFor m t) else bm_get m t)"
      using bm_applyDelta_skip(3) [of opt m inp L t] assms(1) by simp
    then show False using assms(2) by (auto simp: bookFor_def newMarketBook_def split: if_splits option.splits)
  qed
qed

lemma data_delta:
  assumes ok: "collector_ok opts co" and x: "byStreamId (sb_streamId x) (co_subscriptions co) \<noteq> None"
    and ty: "we_type env = ''orderbook_delta''" and ch: "isSequencedChannel channel"
    and diff: "levelsAt (handleData opts now canonical env (Some x) channel u co) t \<noteq> levelsAt co t"
  shows "stateOf (co_recovery co) (sb_streamId x) = Healthy \<and> validAt (co_books co) t \<and>
    (\<exists>msg. Option.bind (we_msg env) OrderbookDeltaMsg = Some msg \<and> dm_market_ticker msg = t) \<and>
    (\<forall>n. ri_seq (iu_raw u) = Some n \<longrightarrow> lastSeqOf (sb_streamId x) co = None \<or> lastSeqOf (sb_streamId x) co = Some (n - 1))"
proof -
  obtain allowed reason u1 co1 where c: "classifyFrame opts now (Some x) channel (we_type env) u co = ((allowed, reason), u1, co1)"
    by (metis prod.collapse)
  obtain err u2 co2 where d: "dispatch opts now env (Some x) allowed reason u1 co1 = (err, u2, co2)" by (metis prod.collapse)
  have "co_books (handleData opts now canonical env (Some x) channel u co) = co_books co2"
    using c d by (simp add: handleData_def Let_def)
  then have diff1: "levelsAt co2 t \<noteq> levelsAt co1 t" using diff classify_levels [OF c] by (simp add: levelsAt_def)
  have h: "handleDelta opts now env (Some (sb_streamId x)) (sb_sid x) allowed reason u1 co1 = (err, u2, co2)"
    using d ty by (simp add: dispatch_def)
  show ?thesis
  proof (cases "Option.bind (we_msg env) OrderbookDeltaMsg")
    case None
    then have "co2 = co1" using h by (simp add: handleDelta_def)
    then show ?thesis using diff1 by simp
  next
    case (Some msg)
    have a: "allowed \<and> validAt (co_books co1) t \<and> t = dm_market_ticker msg"
      using apply_levels [OF delta_books [OF h Some, symmetric]] diff1 by (simp add: levelsAt_def deltaInput_def)
    then show ?thesis using classify_step [OF ok _ c] x ch ty Some by fastforce
  qed
qed

text \<open>
  C6: On every run of the recorder an orderbook delta of a sequenced subscription changes the levels of a book only if the stream is
  healthy, the book was valid before the frame and is the one the message names, and the sequence number is the one after the last
  accepted on the stream, or the first of it; a delta without a number passes only on a healthy stream.
\<close>

theorem applied_delta_was_next:
  assumes "inj (cp_uuid opts)" "co = coRun opts db (newCollector ws) ops"
    and "fm_envelope f = Some env" "we_type env = ''orderbook_delta''"
    and "subOf (Some env) co = Some sub" "isSequencedChannel (Some (sb_channel sub))"
    and "levelsAt (handleFrame opts now canonical f co) t \<noteq> levelsAt co t"
  shows "canApplyDeltas (co_recovery co) (sb_streamId sub) \<and> validAt (co_books co) t \<and>
    (\<exists>msg. Option.bind (we_msg env) OrderbookDeltaMsg = Some msg \<and> dm_market_ticker msg = t) \<and>
    (case we_seq env of
       None \<Rightarrow> True
     | Some q \<Rightarrow> \<exists>n. q = of_int n \<and> (lastSeqOf (sb_streamId sub) co = None \<or> lastSeqOf (sb_streamId sub) co = Some (n - 1)))"
proof -
  have ok: "collector_ok opts co" unfolding assms(2) by (rule coRun_ok [OF assms(1) newCollector_ok])
  define co1 where "co1 = tally (\<lambda>c. c\<lparr>cc_messagesReceived := cc_messagesReceived c + 1\<rparr>) (co\<lparr>co_ingestOrdinal := co_ingestOrdinal co + 1\<rparr>)"
  have ok1: "collector_ok opts co1" using ok by (simp add: collector_ok_def co1_def)
  obtain raw where raw: "rawOf opts f co = Some raw"
  proof (cases "rawOf opts f co")
    case None
    then have "handleFrame opts now canonical f co = co1" by (simp add: handleFrame_def Let_def rawOf_def co1_def)
    then show ?thesis using assms(7) by (simp add: levelsAt_def co1_def)
  qed blast
  define u where "u = \<lparr>iu_raw = raw, iu_normalized = []\<rparr>"
  define co2 where "co2 = (case ri_exchangeTsMs raw of None \<Rightarrow> co1 | Some t \<Rightarrow> emit (EmLatency t (ri_receivedAtMs raw)) co1)"
  have b2: "bystander co1 co2" by (simp add: co2_def split: option.split)
  have ok2: "collector_ok opts co2" using bystander_ok [OF b2] ok1 by blast
  have same: "levelsAt co2 t = levelsAt co t" "co_recovery co2 = co_recovery co" "co_books co2 = co_books co" "co_sequences co2 = co_sequences co"
    "subOf (Some env) co2 = Some sub"
    using assms(5) by (simp_all add: co2_def co1_def levelsAt_def split: option.split)
  have hf: "handleFrame opts now canonical f co = handleData opts now canonical env (Some sub) (Some (sb_channel sub)) u co2"
    using raw assms(3,4,5)
    by (cases "ri_exchangeTsMs raw") (simp_all add: handleFrame_def Let_def rawOf_def co1_def co2_def u_def isControl_def)
  have known: "byStreamId (sb_streamId sub) (co_subscriptions co2) \<noteq> None" using subOf_known [OF collector_okD(1) [OF ok2] same(5)] by simp
  have "levelsAt (handleData opts now canonical env (Some sub) (Some (sb_channel sub)) u co2) t \<noteq> levelsAt co2 t"
    using assms(7) hf same(1) by simp
  note D = data_delta [OF ok2 known assms(4,6) this, unfolded same]
  have seq: "ri_seq raw = Some n" if "we_seq env = Some q" "q = of_int n" for q n
    using raw that assms(3) by (auto simp: rawOf_def toRawIngestEvent_def Let_def toBigint_def split: option.splits if_splits)
  have int: "q = of_int \<lfloor>q\<rfloor>" if "we_seq env = Some q" for q
    using rawOf_spec [where opts = opts and f = f and co = co] raw that assms(3)
    by (simp add: integralSeq_def toBigint_def split: if_splits)
  have "\<exists>n. q = of_int n \<and> (lastSeqOf (sb_streamId sub) co = None \<or> lastSeqOf (sb_streamId sub) co = Some (n - 1))"
    if q: "we_seq env = Some q" for q
  proof (intro exI conjI)
    show "q = of_int \<lfloor>q\<rfloor>" by (rule int [OF q])
    have "ri_seq (iu_raw u) = Some \<lfloor>q\<rfloor>" using seq [OF q int [OF q]] by (simp add: u_def)
    then show "lastSeqOf (sb_streamId sub) co = None \<or> lastSeqOf (sb_streamId sub) co = Some (\<lfloor>q\<rfloor> - 1)"
      using D by (simp add: lastSeqOf_def same)
  qed
  then show ?thesis using D by (simp add: canApplyDeltas_def split: option.split)
qed


fun keepsSocket :: "co_op \<Rightarrow> bool" where
  "keepsSocket (CoDisconnect now) = False"
| "keepsSocket _ = True"

text \<open>
  C18: A stream on which deltas are forbidden at some point of a run applies them again, as long as the socket is not lost, only if a
  recovery episode was open then and a snapshot of each market still outstanding arrived in between. So a stream whose episode has
  timed out, or could not be requested, stays degraded until the reconnect.
\<close>

theorem degraded_until_snapshots:
  assumes "inj (cp_uuid opts)" "co = coRun opts db (newCollector ws) before" "\<not> canApplyDeltas (co_recovery co) s"
    and "list_all keepsSocket after" "canApplyDeltas (co_recovery (coRun opts db co after)) s"
  shows "\<exists>e. episodeOf (co_recovery co) s = Some e \<and> list_all (\<lambda>t. Some t \<in> set (map snapshotMarket after)) (ep_outstanding e)"
proof -
  have ok: "collector_ok opts co" unfolding assms(2) by (rule coRun_ok [OF assms(1) newCollector_ok])
  have d: "CoDisconnect now \<notin> set after" for now using assms(4) by (auto simp: list_all_iff)
  have n: "stateOf (co_recovery co) s \<noteq> Healthy" and h: "stateOf (co_recovery (coRun opts db co after)) s = Healthy"
    using assms(3,5) by (simp_all add: canApplyDeltas_def)
  obtain e where "episodeOf (co_recovery co) s = Some e" "set (ep_outstanding e) \<subseteq> (\<Union>op \<in> set after. set_option (snapshotMarket op))"
    using stays_degraded [OF assms(1) ok n d h] by blast
  then show ?thesis by (intro exI [of _ e]) (force simp: list_all_iff image_iff)
qed

fun standby :: "co_op \<Rightarrow> bool" where
  "standby (CoFrame now canonical f) = (\<not> canonical)"
| "standby _ = True"

lemma run_standby:
  assumes u: "inj (cp_uuid opts)" and ok: "collector_ok opts co"
  shows "list_all standby ops \<Longrightarrow> list_all onlyIntegrity (recorded co) \<Longrightarrow> list_all onlyIntegrity (recorded (coRun opts db co ops))"
proof (induction ops rule: rev_induct)
  case (snoc op ops)
  let ?co = "coRun opts db co ops"
  have ok': "collector_ok opts ?co" by (rule coRun_ok [OF u ok])
  have IH: "list_all onlyIntegrity (recorded ?co)" using snoc by simp
  have run: "coRun opts db co (ops @ [op]) = coStep opts db ?co op" by (simp add: coRun_def)
  show ?case
  proof (cases "frameOf op = []")
    case True
    then show ?thesis using coStep_ok [OF u ok', of db op] IH by (simp add: run)
  next
    case False
    then obtain now f where op: "op = CoFrame now False f" using snoc.prems(1) by (cases op) auto
    have "coStep opts db ?co op = handleFrame opts now False f ?co" by (simp add: op)
    then show ?thesis using frame_step [OF ok', of now False f] IH
      by (auto simp: run recorded_def split: option.splits)
  qed
qed (simp add: coRun_def)

text \<open>
  C19: The raw log of a run is what arrived: every frame, in order, with its place as the ingest ordinal and the hash of its very text,
  whatever its content and whatever fails meanwhile; only a frame whose sequence number is not an integer is missing. A recorder
  that does not own the lease hands on no rows but integrity events.
\<close>

theorem every_frame_recorded:
  assumes "inj (cp_uuid opts)" "co = coRun opts db (newCollector ws) ops"
  shows "map told (recorded co) = rawLog (cp_sha256 opts) (framesOf ops) \<and> co_ingestOrdinal co = int (length (framesOf ops)) \<and>
    (list_all standby ops \<longrightarrow> list_all onlyIntegrity (recorded co))"
proof -
  have "recorded (newCollector ws) = []" "co_ingestOrdinal (newCollector ws) = 0" by (simp_all add: recorded_def newCollector_def)
  then show ?thesis using run_log [OF assms(1) newCollector_ok, of db ws ops] run_standby [OF assms(1) newCollector_ok, of ops ws db]
    unfolding assms(2) [symmetric] by (simp add: rawLog_def)
qed

section \<open>A recorded session\<close>

definition wit_stream :: "nat \<Rightarrow> string" where
  "wit_stream n = CHR ''u'' # replicate n CHR ''x''"

lemma wit_stream_inj: "inj wit_stream"
  by (rule injI) (metis length_Cons length_replicate nat.inject wit_stream_def)

text \<open>A decimal library that knows the numbers of this session; the properties below rest on no law of it.\<close>

definition wit_numbers :: dec_lib where
  "wit_numbers = \<lparr>dl_fixed = (\<lambda>dp x. if x = 2 / 5 then ''0.4'' else if x = 5 then ''5'' else ''0''),
     dl_of_string = (\<lambda>s. if s = ''0.4'' then 2 / 5 else if s = ''5'' then 5 else 0), dl_round = (\<lambda>x. x)\<rparr>"

definition wit_recorder :: collector_options where
  "wit_recorder = \<lparr>cp_dec = wit_numbers, cp_sha256 = (\<lambda>s. s), cp_dateParse = (\<lambda>s. None), cp_numberString = (\<lambda>x. ''0''), cp_uuid = wit_stream,
     cp_sessionId = ''session'', cp_isTracked = (\<lambda>t. True),
     cp_capture = \<lparr>cf_orderbookDeltas = True, cf_trades = False, cf_tickerUpdates = False, cf_lifecycleEvents = False,
       cf_privateOrders = False, cf_privateFills = False\<rparr>\<rparr>"

definition wit_frame :: "string \<Rightarrow> int option \<Rightarrow> int option \<Rightarrow> rat option \<Rightarrow> json \<Rightarrow> raw_frame" where
  "wit_frame ty i sid seq msg =
     \<lparr>fm_receivedAt = 10, fm_receivedAtMs = 10, fm_recvMonotonicNs = 0, fm_text = ty,
      fm_envelope = Some \<lparr>we_type = ty, we_id = i, we_sid = sid, we_seq = seq, we_msg = Some msg\<rparr>, fm_json = Some msg, fm_parseError = None\<rparr>"

definition wit_subscribed :: raw_frame where
  "wit_subscribed = wit_frame ''subscribed'' (Some 1) None None (JObj [(''channel'', JStr ''orderbook_delta''), (''sid'', JNum 7)])"

definition wit_book_frame :: "rat \<Rightarrow> raw_frame" where
  "wit_book_frame seq = wit_frame ''orderbook_snapshot'' None (Some 7) (Some seq) (JObj [(''market_ticker'', JStr ''M'')])"

definition wit_delta_frame :: "rat \<Rightarrow> raw_frame" where
  "wit_delta_frame seq = wit_frame ''orderbook_delta'' None (Some 7) (Some seq)
     (JObj [(''market_ticker'', JStr ''M''), (''price_dollars'', JStr ''0.4''), (''delta_fp'', JStr ''5''), (''side'', JStr ''yes'')])"

definition wit_socket_open :: ws_client where
  "wit_socket_open = \<lparr>ws_isOpen = True, ws_nextCommandId = 1, ws_sent = []\<rparr>"

definition wit_db :: database where
  "wit_db sent c = Some ''g''"

definition wit_session :: "co_op list" where
  "wit_session = [CoSubscribeAll 0 [''M''], CoFrame 1 True wit_subscribed, CoFrame 2 True (wit_book_frame 1)]"

definition wit_recording :: collector where
  "wit_recording = coRun wit_recorder wit_db (newCollector wit_socket_open) wit_session"




text \<open>The same session with a lost message, and a snapshot after it.\<close>

definition wit_gapped :: collector where
  "wit_gapped = coRun wit_recorder wit_db (newCollector wit_socket_open)
     (wit_session @ [CoFrame 3 True (wit_delta_frame 2), CoFrame 4 True (wit_delta_frame 9)])"

lemma wit_recorder_inj: "inj (cp_uuid wit_recorder)"
  by (simp add: wit_recorder_def wit_stream_inj)

theorem applied_delta_was_next_witness:
  "canApplyDeltas (co_recovery wit_recording) ''u'' \<and> validAt (co_books wit_recording) ''M'' \<and>
   (lastSeqOf ''u'' wit_recording = None \<or> lastSeqOf ''u'' wit_recording = Some 1)"
proof -
  let ?env = "the (fm_envelope (wit_delta_frame 2))" and ?sub = "the (subOf (fm_envelope (wit_delta_frame 2)) wit_recording)"
  have e: "fm_envelope (wit_delta_frame 2) = Some ?env" "we_type ?env = ''orderbook_delta''" "we_seq ?env = Some 2" by code_simp+
  have s: "subOf (Some ?env) wit_recording = Some ?sub" "isSequencedChannel (Some (sb_channel ?sub))" "sb_streamId ?sub = ''u''" by code_simp+
  have l: "levelsAt (handleFrame wit_recorder 3 True (wit_delta_frame 2) wit_recording) ''M'' \<noteq> levelsAt wit_recording ''M''" by code_simp
  show ?thesis
    using applied_delta_was_next [OF wit_recorder_inj wit_recording_def e(1,2) s(1,2) l] e(3) s(3) by auto
qed


theorem degraded_until_snapshots_witness:
  "\<exists>e. episodeOf (co_recovery wit_gapped) ''u'' = Some e \<and>
     list_all (\<lambda>t. Some t \<in> set (map snapshotMarket [CoFrame 5 True (wit_book_frame 10)])) (ep_outstanding e)"
proof (rule degraded_until_snapshots [OF wit_recorder_inj wit_gapped_def])
  show "\<not> canApplyDeltas (co_recovery wit_gapped) ''u''" by code_simp
  show "canApplyDeltas (co_recovery (coRun wit_recorder wit_db wit_gapped [CoFrame 5 True (wit_book_frame 10)])) ''u''" by code_simp
qed simp

theorem every_frame_recorded_witness:
  "map told (recorded wit_gapped) = rawLog (\<lambda>s. s) (framesOf (wit_session @ [CoFrame 3 True (wit_delta_frame 2), CoFrame 4 True (wit_delta_frame 9)])) \<and>
   co_ingestOrdinal wit_gapped = 4"
proof -
  have "cp_sha256 wit_recorder = (\<lambda>s. s)" "length (framesOf (wit_session @ [CoFrame 3 True (wit_delta_frame 2), CoFrame 4 True (wit_delta_frame 9)])) = 4"
    by (simp_all add: wit_recorder_def wit_session_def framesOf_def)
  then show ?thesis using every_frame_recorded [OF wit_recorder_inj wit_gapped_def] by simp
qed

end
