(* ===== verification/Statements.thy ===== *)
theory Statements
  imports Wire Subscriptions
begin

text \<open>
  The statements of a flush: the INSERT construction and \<open>writeUnits\<close> of \<open>src/src/persistence/batchWriter.ts\<close>, and the
  classification of database errors of \<open>src/src/persistence/db.ts\<close>.

  What a statement is answered with is a parameter: a function of the statements the transaction has already sent and of this one. The
  expansion of \<open>tx(chunk)\<close> into columns and placeholders, \<open>BEGIN\<close>, \<open>COMMIT\<close> and the rollback of a failed transaction belong to the
  database driver; the statement \<open>Commit\<close> stands for its last act. A row object that is enqueued occurs in one unit only, so the
  provenance that \<open>writeUnits\<close> writes into it is an update of that unit.
\<close>

section \<open>Errors of the database\<close>

record db_error =
  de_code :: "string option"
  de_message :: string

definition RETRYABLE_CODES :: "string list" where
  "RETRYABLE_CODES =
     [''08000'', ''08003'', ''08006'', ''08001'', ''08004'', ''40001'', ''40P01'', ''57P01'', ''57P02'', ''57P03'', ''53300'']"

definition lower_ascii :: "char \<Rightarrow> char" where
  "lower_ascii c = (let n = (of_char c :: nat) in if 65 \<le> n \<and> n \<le> 90 then char_of (n + 32) else c)"

definition starts_ci :: "string \<Rightarrow> string \<Rightarrow> bool" where
  "starts_ci pat s = (length pat \<le> length s \<and> map lower_ascii (take (length pat) s) = map lower_ascii pat)"

fun contains_ci :: "string \<Rightarrow> string \<Rightarrow> bool" where
  \<comment> \<open>\<open>/pat/i.test(s)\<close> for a literal pattern\<close>
  "contains_ci pat [] = (pat = [])"
| "contains_ci pat (c # s) = (starts_ci pat (c # s) \<or> contains_ci pat s)"

fun line_contains_ci :: "string \<Rightarrow> string \<Rightarrow> bool" where
  \<comment> \<open>\<open>.*pat\<close> from here: \<open>.\<close> stops at a line terminator\<close>
  "line_contains_ci pat [] = (pat = [])"
| "line_contains_ci pat (c # s) =
     (starts_ci pat (c # s) \<or> (c \<noteq> CHR 0x0A \<and> c \<noteq> CHR 0x0D \<and> line_contains_ci pat s))"

fun partition_message :: "string \<Rightarrow> bool" where
  \<comment> \<open>\<open>/no partition of relation .* found for row/i\<close>\<close>
  "partition_message [] = False"
| "partition_message (c # s) =
     (starts_ci ''no partition of relation '' (c # s)
        \<and> line_contains_ci '' found for row'' (drop (length ''no partition of relation '') (c # s))
      \<or> partition_message s)"

definition isRetryableDbError :: "db_error \<Rightarrow> bool" where
  "isRetryableDbError e =
     ((case de_code e of Some c \<Rightarrow> c \<in> set RETRYABLE_CODES | None \<Rightarrow> False)
      \<or> list_ex (\<lambda>p. contains_ci p (de_message e))
          [''ECONNRESET'', ''ECONNREFUSED'', ''ETIMEDOUT'', ''EPIPE'', ''socket hang up'', ''Connection terminated''])"

definition isMissingPartitionError :: "db_error \<Rightarrow> bool" where
  "isMissingPartitionError e = (de_code e = Some ''23514'' \<or> partition_message (de_message e))"

section \<open>Multi-row inserts\<close>

type_synonym row_values = "(string, cell) jsmap"

definition MAX_BIND_PARAMETERS :: nat where "MAX_BIND_PARAMETERS = 60000"

definition maxRowsPerStatement :: "nat \<Rightarrow> nat" where
  "maxRowsPerStatement columnCount = max 1 (MAX_BIND_PARAMETERS div max 1 columnCount)"

definition chunkRows :: "'a list \<Rightarrow> nat \<Rightarrow> 'a list list" where
  "chunkRows rows columnCount =
     (let n = maxRowsPerStatement columnCount in if length rows \<le> n then [rows] else chunk rows n)"

definition JSONB_COLUMNS :: "(string, string list) jsmap" where
  "JSONB_COLUMNS =
     [(''orderbook_snapshots'', [''yes_bids'', ''no_bids'']), (''market_lifecycle_events'', [''payload'']),
      (''sequence_gaps'', [''affected_markets'']), (''integrity_events'', [''details'']), (''book_validations'', [''difference'']),
      (''user_order_updates'', [''payload'']), (''user_fills'', [''payload'']), (''external_observations'', [''raw''])]"

definition TABLE_INSERT_ORDER :: "string list" where
  "TABLE_INSERT_ORDER = [''event_ladder_sample_groups'', ''event_ladder_samples'']"

definition CONFLICT_CLAUSE :: "(string, string) jsmap" where
  "CONFLICT_CLAUSE =
     [(''orderbook_deltas'', ''ON CONFLICT (session_id, stream_id, seq) DO NOTHING''),
      (''public_trades'', ''ON CONFLICT (trade_id) DO NOTHING''),
      (''book_samples'', ''ON CONFLICT (market_ticker, interval_ms, bucket_ts) DO NOTHING''),
      (''event_ladder_sample_groups'', ''ON CONFLICT (event_ticker, interval_ms, sampled_at) DO NOTHING''),
      (''event_ladder_samples'', ''ON CONFLICT (sample_group_id, market_ticker) DO NOTHING''),
      (''orderflow_windows'', ''ON CONFLICT (market_ticker, window_ms, bucket_ts) DO NOTHING''),
      (''user_fills'', ''ON CONFLICT (fill_id) DO NOTHING'')]"

definition orderedTables :: "(string, 'a) jsmap \<Rightarrow> string list" where
  "orderedTables byTable =
     filter (js_has byTable) TABLE_INSERT_ORDER @ filter (\<lambda>t. t \<notin> set TABLE_INSERT_ORDER) (js_keys byTable)"

record aligned =
  al_columns :: "string list"
  al_rows :: "cell list list"

definition js_unique :: "'a list \<Rightarrow> 'a list" where
  \<comment> \<open>\<open>[...new Set(xs)]\<close>: first occurrences, in order\<close>
  "js_unique xs = foldl (\<lambda>s x. set_add x s) [] xs"

definition columnsOf :: "row_values list \<Rightarrow> string list" where
  "columnsOf rows = js_unique (concat (map js_keys rows))"

definition alignColumns :: "row_values list \<Rightarrow> aligned" where
  "alignColumns rows =
     (let columns = columnsOf rows
      in \<lparr>al_columns = columns,
          al_rows = map (\<lambda>r. map (\<lambda>c. case js_get r c of Some v \<Rightarrow> v | None \<Rightarrow> CNull) columns) rows\<rparr>)"

text \<open>The numbers of the placeholders, row by row: the counter runs on from row to row.\<close>

fun tupleNumbers :: "nat \<Rightarrow> nat \<Rightarrow> nat \<Rightarrow> nat list list" where
  "tupleNumbers n width 0 = []"
| "tupleNumbers n width (Suc k) = [Suc n..<Suc n + width] # tupleNumbers (n + width) width k"

definition placeholder :: "string list \<Rightarrow> string \<Rightarrow> nat \<Rightarrow> string" where
  "placeholder jsonb c n = ''$'' @ int_str (int n) @ (if c \<in> set jsonb then ''::jsonb'' else [])"

definition buildValuesPlaceholder :: "aligned \<Rightarrow> string list \<Rightarrow> string" where
  "buildValuesPlaceholder a jsonb =
     (let columns = al_columns a;
          cols = join '', '' (map (\<lambda>c. [CHR 0x22] @ c @ [CHR 0x22]) columns);
          tuples = join '', '' (map (\<lambda>ns. ''('' @ join '', '' (map2 (placeholder jsonb) columns ns) @ '')'')
                                   (tupleNumbers 0 (length columns) (length (al_rows a))))
      in ''('' @ cols @ '') VALUES '' @ tuples)"

definition flattenValues :: "aligned \<Rightarrow> cell list" where
  "flattenValues a = concat (al_rows a)"

section \<open>Units\<close>

text \<open>An \<open>IngestUnit\<close> as the writer holds it: rows enqueued without a message have no raw event.\<close>

record write_unit =
  wu_raw :: "raw_ingest_event option"
  wu_normalized :: "normalized_row list"

record returned_row =
  rr_id :: int
  rr_received_at :: int

definition rawRow :: "raw_ingest_event \<Rightarrow> row_values" where
  "rawRow r =
     [(''session_id'', CText (ri_sessionId r)), (''stream_id'', textCell (ri_streamId r)),
      (''ingest_ordinal'', CText (int_str (ri_ingestOrdinal r))), (''received_at'', CDate (ri_receivedAt r)),
      (''received_at_ms'', CText (int_str (ri_receivedAtMs r))), (''recv_monotonic_ns'', CText (int_str (ri_recvMonotonicNs r))),
      (''channel'', textCell (ri_channel r)), (''message_type'', CText (ri_messageType r)), (''sid'', intCell (ri_sid r)),
      (''seq'', bigintCell (ri_seq r)), (''market_ticker'', textCell (ri_marketTicker r)), (''market_id'', textCell (ri_marketId r)),
      (''exchange_ts_ms'', bigintCell (ri_exchangeTsMs r)), (''payload_hash'', CText (ri_payloadHash r)),
      (''payload'', jsonCell (ri_payload r)), (''parse_version'', CInt (int (ri_parseVersion r)))]"

definition rawRowsOf :: "write_unit list \<Rightarrow> raw_ingest_event list" where
  "rawRowsOf us = concat (map (\<lambda>u. case wu_raw u of None \<Rightarrow> [] | Some r \<Rightarrow> [r]) us)"

definition rowCount :: "write_unit list \<Rightarrow> nat" where
  \<comment> \<open>the count of \<open>requeue\<close>\<close>
  "rowCount us = sum_list (map (\<lambda>u. (if wu_raw u = None then 0 else 1) + length (wu_normalized u)) us)"

definition normalizedCount :: "write_unit list \<Rightarrow> nat" where
  "normalizedCount us = sum_list (map (\<lambda>u. length (wu_normalized u)) us)"

section \<open>Provenance\<close>

definition linkRow :: "raw_ingest_event \<Rightarrow> returned_row \<Rightarrow> normalized_row \<Rightarrow> normalized_row" where
  "linkRow r l row =
     (if nr_linkRawEvent row then
        row\<lparr>nr_values :=
          js_set ''ingest_ordinal'' (CText (int_str (ri_ingestOrdinal r)))
            (js_set ''raw_event_received_at'' (CDate (rr_received_at l))
              (js_set ''raw_event_id'' (CText (int_str (rr_id l))) (nr_values row)))\<rparr>
      else row)"

fun attachLinks :: "returned_row list \<Rightarrow> write_unit list \<Rightarrow> write_unit list" where
  \<comment> \<open>\<open>rawIds[rawIdx] ?? null\<close>, with the index advanced by every unit that has a raw event\<close>
  "attachLinks ids [] = []"
| "attachLinks ids (u # us) =
     (case wu_raw u of
        None \<Rightarrow> u # attachLinks ids us
      | Some r \<Rightarrow>
          (case ids of
             [] \<Rightarrow> u # attachLinks [] us
           | l # ls \<Rightarrow> u\<lparr>wu_normalized := map (linkRow r l) (wu_normalized u)\<rparr> # attachLinks ls us))"

definition pushTableRow :: "normalized_row \<Rightarrow> (string, row_values list) jsmap \<Rightarrow> (string, row_values list) jsmap" where
  "pushTableRow row byTable =
     js_set (nr_table row) ((case js_get byTable (nr_table row) of None \<Rightarrow> [] | Some xs \<Rightarrow> xs) @ [nr_values row]) byTable"

definition groupByTable :: "normalized_row list \<Rightarrow> (string, row_values list) jsmap" where
  "groupByTable rows = foldl (\<lambda>m row. pushTableRow row m) [] rows"

definition unitRows :: "write_unit list \<Rightarrow> normalized_row list" where
  "unitRows us = concat (map wu_normalized us)"

section \<open>One transaction\<close>

datatype statement =
  Begin
| RawInsert "row_values list"
| Execute string "cell list"
| Commit

type_synonym database_answers = "statement list \<Rightarrow> statement \<Rightarrow> db_error + returned_row list"

definition tableInserts :: "(string, row_values list) jsmap \<Rightarrow> (string \<times> aligned) list" where
  "tableInserts byTable =
     concat (map (\<lambda>t. let rows = (case js_get byTable t of None \<Rightarrow> [] | Some xs \<Rightarrow> xs)
                      in if rows = [] then []
                         else map (\<lambda>c. (t, alignColumns c)) (chunkRows rows (length (columnsOf rows))))
                 (orderedTables byTable))"

fun insertStatement :: "string \<times> aligned \<Rightarrow> statement" where
  "insertStatement (t, a) =
     Execute (''INSERT INTO '' @ t @ '' ''
                @ buildValuesPlaceholder a (case js_get JSONB_COLUMNS t of None \<Rightarrow> [] | Some cs \<Rightarrow> cs) @ '' ''
                @ (case js_get CONFLICT_CLAUSE t of None \<Rightarrow> [] | Some c \<Rightarrow> c))
       (flattenValues a)"

text \<open>The statements are sent one after the other; the first error ends the transaction.\<close>

fun sendAll ::
  "database_answers \<Rightarrow> statement list \<Rightarrow> statement list \<Rightarrow> db_error option \<times> statement list \<times> returned_row list" where
  "sendAll db sent [] = (None, sent, [])"
| "sendAll db sent (s # ss) =
     (case db sent s of
        Inl e \<Rightarrow> (Some e, sent @ [s], [])
      | Inr part \<Rightarrow> (case sendAll db (sent @ [s]) ss of (e, sent, rest) \<Rightarrow> (e, sent, part @ rest)))"

definition idCountError :: "nat \<Rightarrow> nat \<Rightarrow> db_error" where
  "idCountError got wanted =
     \<lparr>de_code = None,
      de_message = ''raw insert returned '' @ int_str (int got) @ '' ids for '' @ int_str (int wanted) @ '' rows''\<rparr>"

definition rawInserts :: "write_unit list \<Rightarrow> statement list" where
  "rawInserts us =
     (let rows = map rawRow (rawRowsOf us)
      in if rows = [] then [] else map RawInsert (chunkRows rows (length (js_keys (hd rows)))))"

text \<open>
  The error of the attempt, if any, the units with the provenance it has written into their rows, and the statements it sent. An attempt
  that fails after the raw rows were inserted leaves that provenance in the rows; the next attempt overwrites it.
\<close>

definition writeUnits :: "database_answers \<Rightarrow> write_unit list \<Rightarrow> db_error option \<times> write_unit list \<times> statement list" where
  "writeUnits db us =
     (case db [] Begin of
        Inl e \<Rightarrow> (Some e, us, [Begin])
      | Inr _ \<Rightarrow>
          (case sendAll db [Begin] (rawInserts us) of
             (Some e, sent, _) \<Rightarrow> (Some e, us, sent)
           | (None, sent, returned) \<Rightarrow>
               if rawRowsOf us \<noteq> [] \<and> length returned \<noteq> length (rawRowsOf us)
               then (Some (idCountError (length returned) (length (rawRowsOf us))), us, sent)
               else
                 (let us' = attachLinks (sort_key rr_id returned) us;
                      inserts = map insertStatement (tableInserts (groupByTable (unitRows us')))
                  in case sendAll db sent (inserts @ [Commit]) of (e, sent, _) \<Rightarrow> (e, us', sent))))"

section \<open>Shape of an insert\<close>

lemma foldl_set_add: "set (foldl (\<lambda>s x. set_add x s) acc xs) = set acc \<union> set xs"
  by (induction xs arbitrary: acc) auto

lemma set_js_unique [simp]: "set (js_unique xs) = set xs"
  by (simp add: js_unique_def foldl_set_add)

lemma distinct_js_unique [simp]: "distinct (js_unique xs)"
proof -
  have "distinct acc \<Longrightarrow> distinct (foldl (\<lambda>s x. set_add x s) acc xs)" for acc
    by (induction xs arbitrary: acc) auto
  then show ?thesis by (simp add: js_unique_def)
qed

lemma columns_mono: "set xs \<subseteq> set ys \<Longrightarrow> length (columnsOf xs) \<le> length (columnsOf ys)"
proof -
  assume "set xs \<subseteq> set ys"
  then have "set (columnsOf xs) \<subseteq> set (columnsOf ys)" by (auto simp: columnsOf_def)
  moreover have "distinct (columnsOf zs)" for zs by (simp add: columnsOf_def)
  ultimately show ?thesis by (metis distinct_card card_mono List.finite_set)
qed

lemma numbers_run_on: "concat (tupleNumbers n w k) = [Suc n..<Suc (n + w * k)]"
proof (induction n w k rule: tupleNumbers.induct)
  case (2 n w k)
  have "[Suc n..<Suc (n + w * Suc k)] = [Suc n..<Suc n + w] @ [Suc n + w..<Suc (n + w * Suc k)]"
    using upt_add_eq_append [of "Suc n" "Suc n + w" "w * k"] by (simp add: algebra_simps)
  with 2 show ?case by (simp add: algebra_simps)
qed simp

definition well_shaped :: "aligned \<Rightarrow> bool" where
  "well_shaped a = (distinct (al_columns a) \<and> list_all (\<lambda>r. length r = length (al_columns a)) (al_rows a))"

lemma align_well_shaped: "well_shaped (alignColumns rows)"
  by (simp add: well_shaped_def alignColumns_def Let_def columnsOf_def list_all_iff)

lemma align_size [simp]:
  "length (al_columns (alignColumns rows)) = length (columnsOf rows)" "length (al_rows (alignColumns rows)) = length rows"
  by (simp_all add: alignColumns_def Let_def)

lemma flatten_size: "well_shaped a \<Longrightarrow> length (flattenValues a) = length (al_columns a) * length (al_rows a)"
proof -
  have "list_all (\<lambda>r. length r = n) rs \<Longrightarrow> length (concat rs) = n * length rs" for n and rs :: "cell list list"
    by (induction rs) auto
  then show "well_shaped a \<Longrightarrow> ?thesis" by (auto simp: well_shaped_def flattenValues_def)
qed

lemma maxRows_pos [simp]: "0 < maxRowsPerStatement n"
  by (simp add: maxRowsPerStatement_def)

lemma chunkRows_concat [simp]: "concat (chunkRows rows n) = rows"
  by (simp add: chunkRows_def Let_def chunk_concat)

lemma chunkRows_size: "c \<in> set (chunkRows rows n) \<Longrightarrow> length c \<le> maxRowsPerStatement n \<and> set c \<subseteq> set rows"
  using chunk_slices [OF maxRows_pos, of c rows n] by (auto simp: chunkRows_def Let_def split: if_splits)

lemma rows_fit:
  assumes w: "w \<le> n" and k: "k \<le> maxRowsPerStatement n"
  shows "w * k \<le> MAX_BIND_PARAMETERS \<or> k \<le> 1"
proof (cases "k \<le> 1")
  case False
  then have "k \<le> MAX_BIND_PARAMETERS div max 1 n" using k by (auto simp: maxRowsPerStatement_def max_def split: if_splits)
  then have "max 1 n * k \<le> MAX_BIND_PARAMETERS"
    by (meson div_times_less_eq_dividend mult.commute mult_le_mono2 order.trans times_div_less_eq_dividend)
  moreover have "w * k \<le> max 1 n * k" using w by (intro mult_le_mono1) simp
  ultimately show ?thesis by linarith
qed simp

lemma rawRow_columns: "length (js_keys (rawRow r)) = 16"
  by (simp add: rawRow_def)

lemma raw_chunk: "RawInsert c \<in> set (rawInserts us) \<Longrightarrow> 16 * length c \<le> MAX_BIND_PARAMETERS"
proof -
  assume "RawInsert c \<in> set (rawInserts us)"
  then obtain r where "c \<in> set (chunkRows (map rawRow (rawRowsOf us)) (length (js_keys (rawRow r))))"
    by (auto simp: rawInserts_def Let_def hd_map split: if_splits)
  then have "length c \<le> maxRowsPerStatement 16" using chunkRows_size rawRow_columns by metis
  then show ?thesis by (simp add: maxRowsPerStatement_def MAX_BIND_PARAMETERS_def)
qed

lemma insert_fits:
  assumes "(t, a) \<in> set (tableInserts m)"
  shows "well_shaped a \<and> (length (flattenValues a) \<le> MAX_BIND_PARAMETERS \<or> length (al_rows a) \<le> 1)"
proof -
  obtain rows c where c: "c \<in> set (chunkRows rows (length (columnsOf rows)))" and a: "a = alignColumns c"
    using assms by (auto simp: tableInserts_def Let_def split: if_splits)
  have "length (columnsOf c) * length c \<le> MAX_BIND_PARAMETERS \<or> length c \<le> 1"
    using chunkRows_size [OF c] rows_fit [OF columns_mono, of c rows "length c"] by blast
  then show ?thesis using flatten_size [OF align_well_shaped, of c] by (auto simp: a align_well_shaped)
qed

section \<open>What a transaction sends\<close>

lemma sendAll_prefix: "sendAll db sent ss = (e, sent', r) \<Longrightarrow> \<exists>k. sent' = sent @ take k ss"
proof (induction ss arbitrary: sent sent' r)
  case (Cons s ss)
  show ?case
  proof (cases "db sent s")
    case (Inl x)
    then have "sent' = sent @ take 1 (s # ss)" using Cons.prems by simp
    then show ?thesis by blast
  next
    case (Inr part)
    with Cons.prems obtain r' where "sendAll db (sent @ [s]) ss = (e, sent', r')" by (auto split: prod.splits)
    from Cons.IH [OF this] obtain k where "sent' = sent @ take (Suc k) (s # ss)" by auto
    then show ?thesis by blast
  qed
qed simp

lemma sendAll_all: "sendAll db sent ss = (None, sent', r) \<Longrightarrow> sent' = sent @ ss"
proof (induction ss arbitrary: sent sent' r)
  case (Cons s ss)
  then obtain r' where "sendAll db (sent @ [s]) ss = (None, sent', r')" by (auto split: sum.splits prod.splits)
  from Cons.IH [OF this] show ?case by simp
qed simp

definition sendable :: "write_unit list \<Rightarrow> statement \<Rightarrow> bool" where
  "sendable us s =
     (s = Begin \<or> s = Commit \<or> s \<in> set (rawInserts us)
      \<or> (\<exists>ids. s \<in> set (map insertStatement (tableInserts (groupByTable (unitRows (attachLinks ids us)))))))"

lemma set_taken: "s \<in> set (take k ss) \<Longrightarrow> s \<in> set ss"
  by (meson in_set_takeD)

lemma sent_sendable:
  assumes "writeUnits db us = (e, us', sent)"
  shows "\<forall>s\<in>set sent. sendable us s"
proof (cases "db [] Begin")
  case (Inl x)
  then show ?thesis using assms by (auto simp: writeUnits_def sendable_def)
next
  case (Inr x)
  obtain e1 sent1 ret where s1: "sendAll db [Begin] (rawInserts us) = (e1, sent1, ret)" by (metis prod_cases3)
  obtain k where k: "sent1 = [Begin] @ take k (rawInserts us)" using sendAll_prefix [OF s1] by blast
  have one: "\<forall>s\<in>set sent1. sendable us s" by (auto simp: k sendable_def dest: set_taken)
  let ?us = "attachLinks (sort_key rr_id ret) us"
  let ?ins = "map insertStatement (tableInserts (groupByTable (unitRows ?us)))"
  obtain e2 sent2 r2 where s2: "sendAll db sent1 (?ins @ [Commit]) = (e2, sent2, r2)" by (metis prod_cases3)
  obtain k2 where k2: "sent2 = sent1 @ take k2 (?ins @ [Commit])" using sendAll_prefix [OF s2] by blast
  have two: "\<forall>s\<in>set sent2. sendable us s"
  proof
    fix s assume "s \<in> set sent2"
    then consider "s \<in> set sent1" | "s \<in> set ?ins" | "s = Commit"
      using set_taken [of s k2 "?ins @ [Commit]"] by (auto simp only: k2 set_append set_simps)
    then show "sendable us s" using one by cases (auto simp only: sendable_def)
  qed
  have "sent = sent1 \<or> sent = sent2"
    using assms Inr s1 s2 by (auto simp: writeUnits_def Let_def split: option.splits if_splits)
  then show ?thesis using one two by blast
qed

lemma insertStatementE:
  assumes "s \<in> set (map insertStatement xs)"
  obtains t a where "(t, a) \<in> set xs" "s = insertStatement (t, a)"
  using assms by auto

section \<open>Rows of a table\<close>

lemma grouped_rows:
  "js_get (foldl (\<lambda>m row. pushTableRow row m) m rows) t =
     (if js_get m t = None \<and> filter (\<lambda>r. nr_table r = t) rows = [] then None
      else Some ((case js_get m t of None \<Rightarrow> [] | Some xs \<Rightarrow> xs) @ map nr_values (filter (\<lambda>r. nr_table r = t) rows)))"
  by (induction rows arbitrary: m) (auto simp: pushTableRow_def split: option.splits)

lemma grouped_ok: "js_map_ok m \<Longrightarrow> js_map_ok (foldl (\<lambda>m row. pushTableRow row m) m rows)"
  by (induction rows arbitrary: m) (auto simp: pushTableRow_def)

lemma table_rows:
  "js_get (groupByTable rows) t =
     (let vs = map nr_values (filter (\<lambda>r. nr_table r = t) rows) in if vs = [] then None else Some vs)"
  by (simp add: groupByTable_def grouped_rows Let_def)

lemma tables_once: "js_map_ok m \<Longrightarrow> distinct (orderedTables m)"
  by (auto simp: orderedTables_def TABLE_INSERT_ORDER_def)

lemma tables_all: "set (orderedTables m) = set (js_keys m)"
  by (auto simp: orderedTables_def js_has_iff)

lemma filter_concat_tagged:
  "distinct ts \<Longrightarrow> (\<And>t p. p \<in> set (f t) \<Longrightarrow> fst p = t) \<Longrightarrow>
     filter (\<lambda>p. fst p = t) (concat (map f ts)) = (if t \<in> set ts then f t else [])"
proof (induction ts)
  case (Cons u ts)
  have "filter (\<lambda>p. fst p = t) (f u) = (if u = t then f u else [])"
    using Cons.prems(2) by (auto simp: filter_id_conv filter_empty_conv)
  then show ?case using Cons by auto
qed simp

definition readBack :: "aligned \<Rightarrow> row_values list" where
  \<comment> \<open>the rows an insert stores, as the columns it names and their cells\<close>
  "readBack a = map (zip (al_columns a)) (al_rows a)"

definition stored_as :: "row_values \<Rightarrow> row_values \<Rightarrow> bool" where
  \<comment> \<open>every cell of the first is stored in the second, and what is stored beyond it is null\<close>
  "stored_as r s =
     (\<forall>c. case js_get r c of Some v \<Rightarrow> js_get s c = Some v | None \<Rightarrow> js_get s c = None \<or> js_get s c = Some CNull)"

lemma aligned_stores: "list_all2 stored_as rows (readBack (alignColumns rows))"
proof -
  have "stored_as r (zip (columnsOf rows) (map (\<lambda>c. case js_get r c of Some v \<Rightarrow> v | None \<Rightarrow> CNull) (columnsOf rows)))"
    if "r \<in> set rows" for r
  proof -
    have "js_get (zip (columnsOf rows) (map (\<lambda>c. case js_get r c of Some v \<Rightarrow> v | None \<Rightarrow> CNull) (columnsOf rows))) c =
            (if c \<in> set (columnsOf rows) then Some (case js_get r c of Some v \<Rightarrow> v | None \<Rightarrow> CNull) else None)" for c
      by (simp add: map_of_zip_map)
    moreover have "js_get r c = Some v \<Longrightarrow> c \<in> set (columnsOf rows)" for c v
      using that by (force simp: columnsOf_def dest: map_of_SomeD)
    ultimately show ?thesis by (auto simp: stored_as_def split: option.splits)
  qed
  then show ?thesis
    by (auto simp: readBack_def alignColumns_def Let_def list_all2_conv_all_nth)
qed

definition storedRows :: "string \<Rightarrow> write_unit list \<Rightarrow> row_values list" where
  \<comment> \<open>the rows of a table that the inserts of the units store, statement by statement\<close>
  "storedRows t us =
     concat (map (readBack \<circ> snd) (filter (\<lambda>p. fst p = t) (tableInserts (groupByTable (unitRows us)))))"

lemma chunks_store: "list_all2 stored_as (concat cs) (concat (map (\<lambda>c. readBack (alignColumns c)) cs))"
  by (induction cs) (auto intro: list_all2_appendI aligned_stores)

lemma rows_stored:
  "list_all2 stored_as (map nr_values (filter (\<lambda>r. nr_table r = t) (unitRows us))) (storedRows t us)"
proof -
  let ?m = "groupByTable (unitRows us)" and ?vs = "map nr_values (filter (\<lambda>r. nr_table r = t) (unitRows us))"
  let ?f = "\<lambda>t. let rows = (case js_get ?m t of None \<Rightarrow> [] | Some xs \<Rightarrow> xs)
                in if rows = [] then [] else map (\<lambda>c. (t, alignColumns c)) (chunkRows rows (length (columnsOf rows)))"
  have d: "distinct (orderedTables ?m)" using grouped_ok by (intro tables_once) (simp add: groupByTable_def)
  have "filter (\<lambda>p. fst p = t) (tableInserts ?m) = (if t \<in> set (orderedTables ?m) then ?f t else [])"
    unfolding tableInserts_def by (rule filter_concat_tagged [OF d]) (auto simp: Let_def split: if_splits)
  moreover have "t \<in> set (orderedTables ?m) \<longleftrightarrow> ?vs \<noteq> []"
    by (simp only: tables_all js_has_iff [symmetric] js_has_def table_rows Let_def) (simp del: map_is_Nil_conv)
  ultimately have "storedRows t us =
      (if ?vs = [] then [] else concat (map (\<lambda>c. readBack (alignColumns c)) (chunkRows ?vs (length (columnsOf ?vs)))))"
    by (auto simp: storedRows_def table_rows Let_def comp_def)
  then show ?thesis using chunks_store [of "chunkRows ?vs (length (columnsOf ?vs))"] by (auto simp del: map_is_Nil_conv)
qed

section \<open>Provenance\<close>

definition LINK_COLUMNS :: "string list" where
  "LINK_COLUMNS = [''raw_event_id'', ''raw_event_received_at'', ''ingest_ordinal'']"

definition rowCore :: "normalized_row \<Rightarrow> string \<times> bool \<times> row_values" where
  \<comment> \<open>a row without the provenance a flush writes into it\<close>
  "rowCore r =
     (nr_table r, nr_linkRawEvent r,
      if nr_linkRawEvent r then filter (\<lambda>kv. fst kv \<notin> set LINK_COLUMNS) (nr_values r) else nr_values r)"

definition unitCore :: "write_unit \<Rightarrow> raw_ingest_event option \<times> (string \<times> bool \<times> row_values) list" where
  "unitCore u = (wu_raw u, map rowCore (wu_normalized u))"

lemma filter_update_away: "k \<in> A \<Longrightarrow> filter (\<lambda>kv. fst kv \<notin> A) (js_set k v m) = filter (\<lambda>kv. fst kv \<notin> A) m"
  by (induction m) auto

lemma rowCore_link [simp]: "rowCore (linkRow r l row) = rowCore row"
proof -
  have "''raw_event_id'' \<in> set LINK_COLUMNS" "''raw_event_received_at'' \<in> set LINK_COLUMNS" "''ingest_ordinal'' \<in> set LINK_COLUMNS"
    by (simp_all add: LINK_COLUMNS_def)
  then show ?thesis by (simp add: rowCore_def linkRow_def filter_update_away)
qed

lemma attach_core [simp]: "map unitCore (attachLinks ids us) = map unitCore us"
  by (induction ids us rule: attachLinks.induct) (auto simp: unitCore_def split: option.splits list.splits)

lemma writeUnits_core: "writeUnits db us = (e, us', sent) \<Longrightarrow> map unitCore us' = map unitCore us"
  by (auto simp: writeUnits_def Let_def split: sum.splits prod.splits option.splits if_splits)

lemma core_raws: "map unitCore us' = map unitCore us \<Longrightarrow> map wu_raw us' = map wu_raw us"
proof -
  assume "map unitCore us' = map unitCore us"
  then have "map fst (map unitCore us') = map fst (map unitCore us)" by simp
  then show ?thesis by (simp add: unitCore_def comp_def)
qed

definition carries_link :: "returned_row \<Rightarrow> write_unit \<Rightarrow> bool" where
  "carries_link l u =
     (case wu_raw u of None \<Rightarrow> False
      | Some r \<Rightarrow>
          list_all (\<lambda>row. \<not> nr_linkRawEvent row
            \<or> (js_get (nr_values row) ''raw_event_id'' = Some (CText (int_str (rr_id l)))
               \<and> js_get (nr_values row) ''raw_event_received_at'' = Some (CDate (rr_received_at l))
               \<and> js_get (nr_values row) ''ingest_ordinal'' = Some (CText (int_str (ri_ingestOrdinal r))))) (wu_normalized u))"

abbreviation has_raw :: "write_unit \<Rightarrow> bool" where
  "has_raw u \<equiv> wu_raw u \<noteq> None"

lemma linked_carries: "wu_raw u = Some r \<Longrightarrow> carries_link l (u\<lparr>wu_normalized := map (linkRow r l) (wu_normalized u)\<rparr>)"
  by (auto simp: carries_link_def list_all_iff linkRow_def)

lemma attach_carries:
  "length ids = length (rawRowsOf us) \<Longrightarrow> list_all2 carries_link ids (filter has_raw (attachLinks ids us))"
proof (induction ids us rule: attachLinks.induct)
  case (2 ids u us)
  show ?case
  proof (cases "wu_raw u")
    case None
    then show ?thesis using 2 by (simp add: rawRowsOf_def)
  next
    case (Some r)
    then obtain l ls where "ids = l # ls" using 2(4) by (cases ids) (auto simp: rawRowsOf_def)
    then show ?thesis using 2 Some by (simp add: rawRowsOf_def linked_carries)
  qed
qed (simp add: rawRowsOf_def)

definition rawCount :: "statement list \<Rightarrow> nat" where
  "rawCount sent = sum_list (map (\<lambda>s. case s of RawInsert c \<Rightarrow> length c | _ \<Rightarrow> 0) sent)"

definition insertedRaw :: "statement list \<Rightarrow> row_values list" where
  "insertedRaw sent = concat (map (\<lambda>s. case s of RawInsert c \<Rightarrow> c | _ \<Rightarrow> []) sent)"

text \<open>
  What the identity column of \<open>raw_ingest_events\<close> promises: the rows of a transaction get the ids \<open>ids\<close> in the order in which they are
  inserted. In which order a statement returns them is not promised.
\<close>

definition numbers_rows :: "(nat \<Rightarrow> returned_row) \<Rightarrow> database_answers \<Rightarrow> bool" where
  "numbers_rows ids db =
     (\<forall>sent c. case db sent (RawInsert c) of
        Inr part \<Rightarrow> mset part = mset (map ids [rawCount sent..<rawCount sent + length c])
      | Inl e \<Rightarrow> True)"

lemma rawCount_append [simp]: "rawCount (a @ b) = rawCount a + rawCount b"
  by (simp add: rawCount_def)

lemma returned_ids:
  "numbers_rows ids db \<Longrightarrow> sendAll db sent (map RawInsert cs) = (None, sent', ret) \<Longrightarrow>
     mset ret = mset (map ids [rawCount sent..<rawCount sent + length (concat cs)])"
proof (induction cs arbitrary: sent sent' ret)
  case (Cons c cs)
  then obtain part r where p: "db sent (RawInsert c) = Inr part" "sendAll db (sent @ [RawInsert c]) (map RawInsert cs) = (None, sent', r)"
    and ret: "ret = part @ r" by (auto split: sum.splits prod.splits)
  let ?k = "rawCount sent" and ?n = "length (concat cs)"
  have "mset part = mset (map ids [?k..<?k + length c])"
    using Cons.prems(1) [unfolded numbers_rows_def, rule_format, of sent c] by (simp only: p(1) sum.case)
  moreover have "mset r = mset (map ids [?k + length c..<?k + length c + ?n])"
    using Cons.IH [OF Cons.prems(1) p(2)] by (simp add: rawCount_def)
  moreover have "[?k..<?k + length c + ?n] = [?k..<?k + length c] @ [?k + length c..<?k + length c + ?n]"
    by (rule upt_add_eq_append) simp
  ultimately show ?case by (simp add: ret add.assoc)
qed simp

lemma rawInserts_rows [simp]: "insertedRaw (rawInserts us) = map rawRow (rawRowsOf us)"
proof -
  have "concat (map (\<lambda>s. case s of RawInsert c \<Rightarrow> c | _ \<Rightarrow> []) (map RawInsert cs)) = concat cs" for cs
    by (induction cs) auto
  then show ?thesis by (simp add: insertedRaw_def rawInserts_def Let_def)
qed

lemma inserted_append [simp]: "insertedRaw (a @ b) = insertedRaw a @ insertedRaw b"
  by (simp add: insertedRaw_def)

lemma inserted_tables [simp]: "insertedRaw (map insertStatement xs) = []"
proof -
  have "(case insertStatement x of RawInsert c \<Rightarrow> c | _ \<Rightarrow> []) = []" for x by (cases x) simp
  then show ?thesis by (simp add: insertedRaw_def)
qed

definition unitInserts :: "write_unit list \<Rightarrow> statement list" where
  "unitInserts us = map insertStatement (tableInserts (groupByTable (unitRows us)))"

lemma writeUnits_ok:
  assumes "writeUnits db us = (None, us', sent)"
  obtains ret where "sendAll db [Begin] (rawInserts us) = (None, [Begin] @ rawInserts us, ret)"
    "rawRowsOf us = [] \<or> length ret = length (rawRowsOf us)" "us' = attachLinks (sort_key rr_id ret) us"
    "sent = [Begin] @ rawInserts us @ unitInserts us' @ [Commit]"
proof -
  obtain x where b: "db [] Begin = Inr x" using assms by (auto simp: writeUnits_def split: sum.splits)
  obtain e1 sent1 ret where s1: "sendAll db [Begin] (rawInserts us) = (e1, sent1, ret)" by (metis prod_cases3)
  have e1: "e1 = None" using assms by (auto simp: writeUnits_def b s1 split: option.splits)
  with s1 have s1': "sendAll db [Begin] (rawInserts us) = (None, sent1, ret)" by simp
  have sent1: "sent1 = [Begin] @ rawInserts us" by (rule sendAll_all [OF s1'])
  let ?us = "attachLinks (sort_key rr_id ret) us"
  have n: "rawRowsOf us = [] \<or> length ret = length (rawRowsOf us)"
    using assms by (auto simp: writeUnits_def b s1 e1 split: if_splits)
  then obtain e2 sent2 r2 where s2: "sendAll db sent1 (unitInserts ?us @ [Commit]) = (e2, sent2, r2)" by (metis prod_cases3)
  have "writeUnits db us = (e2, ?us, sent2)"
    using n s2 by (auto simp: writeUnits_def b s1 e1 unitInserts_def Let_def)
  with assms have "e2 = None" "us' = ?us" "sent = sent2" by auto
  moreover have "sent2 = sent1 @ unitInserts ?us @ [Commit]" using sendAll_all s2 calculation(1) by blast
  ultimately show ?thesis using that [of ret] s1' sent1 n by simp
qed

lemma sorted_ids:
  assumes "mset ret = mset xs" "sorted_wrt (<) (map rr_id xs)"
  shows "sort_key rr_id ret = xs"
proof (rule sort_key_inj_key_eq [OF assms(1)])
  have d: "distinct (map rr_id xs)" and s: "sorted (map rr_id xs)" using assms(2) by (simp_all add: strict_sorted_iff)
  show "sorted (map rr_id xs)" by (rule s)
  have "set ret = set xs" using assms(1) by (rule mset_eq_setD)
  then show "inj_on rr_id (set ret)" using d by (simp only: distinct_map)
qed

lemma linked_in_order:
  assumes w: "writeUnits db us = (None, us', sent)" and ids: "numbers_rows ids db" "strict_mono (rr_id \<circ> ids)"
  shows "list_all2 carries_link (map ids [0..<length (rawRowsOf us)]) (filter has_raw us')"
proof -
  obtain ret where ret: "sendAll db [Begin] (rawInserts us) = (None, [Begin] @ rawInserts us, ret)"
    and us': "us' = attachLinks (sort_key rr_id ret) us"
    using w by (rule writeUnits_ok)
  obtain cs where cs: "rawInserts us = map RawInsert cs" and con: "concat cs = map rawRow (rawRowsOf us)"
  proof (cases "rawRowsOf us = []")
    case True
    then show ?thesis using that [of "[]"] by (simp add: rawInserts_def)
  next
    case False
    then show ?thesis
      using that [of "chunkRows (map rawRow (rawRowsOf us)) (length (js_keys (hd (map rawRow (rawRowsOf us)))))"]
      by (simp add: rawInserts_def Let_def)
  qed
  let ?ids = "map ids [0..<length (rawRowsOf us)]"
  have "mset ret = mset (map ids [rawCount [Begin]..<rawCount [Begin] + length (concat cs)])"
    using returned_ids [OF ids(1)] ret cs by metis
  then have "mset ret = mset ?ids" by (simp add: con rawCount_def)
  moreover have "sorted_wrt (<) (map rr_id ?ids)"
    using ids(2) by (simp add: sorted_wrt_map sorted_wrt_iff_nth_less strict_mono_def)
  ultimately have "sort_key rr_id ret = ?ids" by (rule sorted_ids)
  then show ?thesis using attach_carries [of ?ids us] by (simp add: us')
qed

end
