(* ===== verification/BatchWriter.thy ===== *)
theory BatchWriter
  imports Statements
begin

text \<open>
  The batch writer: the class \<open>BatchWriter\<close> of \<open>src/src/persistence/batchWriter.ts\<close>.

  A call runs to its first \<open>await\<close> without another call in between, so the writer is a state and a step is what runs between two
  awaits: an enqueue, a timer that fires, the end of an attempt to write, the end of a sleep, the end of a spool. The buffer that an
  attempt writes belongs to the flight, which no other step touches, so one attempt is one step. Events the writer emits, errors with
  which \<open>flush\<close> rejects, transactions that committed and files that were spooled are kept in order.
  \<open>clock()\<close> is an argument, and so is the number \<open>Math.random()\<close> answers.
\<close>

section \<open>State\<close>

record writer_options =
  wo_maxRows :: nat
  wo_maxWaitMs :: nat
  wo_maxBufferedRows :: nat
  wo_daemon :: bool
  wo_errorListener :: bool

definition defaultWriterOptions :: writer_options where
  "defaultWriterOptions =
     \<lparr>wo_maxRows = 500, wo_maxWaitMs = 250, wo_maxBufferedRows = 200000, wo_daemon = True, wo_errorListener = True\<rparr>"

record flush_stats =
  fs_batches :: nat
  fs_rawRows :: nat
  fs_normalizedRows :: nat
  fs_durationMs :: int
  fs_errors :: nat

datatype writer_event =
  EvFlushed flush_stats
| EvError db_error nat nat
| EvOverflow nat bool
| EvPartitionMissing db_error

record flight =
  fl_units :: "write_unit list"
  fl_rowCount :: nat
  fl_started :: int
  fl_attempt :: nat
  fl_sleep :: "rat option"

datatype close_state = NotClosing | AwaitingFirst | AwaitingSecond | ClosedDown | CloseFailed db_error

record spool =
  sp_path :: string
  sp_units :: "write_unit list"
  sp_rows :: nat

record batch_writer =
  bw_buffer :: "write_unit list"
  bw_bufferedRowCount :: nat
  bw_oldestEnqueuedAt :: "int option"
  bw_timer :: bool
  bw_flight :: "flight option"
  bw_closed :: bool
  bw_stats :: flush_stats
  bw_flushLatencies :: "int list"
  bw_closing :: close_state
  bw_spooling :: "spool list"
  bw_spooled :: "(string, write_unit list) jsmap"
  bw_committed :: "(write_unit list \<times> statement list) list"
  bw_rejections :: "db_error list"
  bw_events :: "writer_event list"

definition newBatchWriter :: batch_writer where
  "newBatchWriter =
     \<lparr>bw_buffer = [], bw_bufferedRowCount = 0, bw_oldestEnqueuedAt = None, bw_timer = False, bw_flight = None, bw_closed = False,
      bw_stats = \<lparr>fs_batches = 0, fs_rawRows = 0, fs_normalizedRows = 0, fs_durationMs = 0, fs_errors = 0\<rparr>,
      bw_flushLatencies = [], bw_closing = NotClosing, bw_spooling = [], bw_spooled = [], bw_committed = [], bw_rejections = [],
      bw_events = []\<rparr>"

definition tell :: "writer_event list \<Rightarrow> batch_writer \<Rightarrow> batch_writer" where
  "tell es w = w\<lparr>bw_events := bw_events w @ es\<rparr>"

section \<open>Flushing\<close>

definition doFlush :: "int \<Rightarrow> batch_writer \<Rightarrow> batch_writer" where
  \<comment> \<open>up to the first attempt\<close>
  "doFlush now w =
     (let units = bw_buffer w; rows = bw_bufferedRowCount w;
          w = w\<lparr>bw_timer := False, bw_buffer := [], bw_bufferedRowCount := 0, bw_oldestEnqueuedAt := None\<rparr>
      in if units = [] then w
         else w\<lparr>bw_flight := Some \<lparr>fl_units = units, fl_rowCount = rows, fl_started = now, fl_attempt = 0, fl_sleep = None\<rparr>\<rparr>)"

definition bw_flush :: "int \<Rightarrow> batch_writer \<Rightarrow> batch_writer" where
  "bw_flush now w =
     (if bw_flight w \<noteq> None then w else if bw_buffer w = [] then w else doFlush now w)"

definition armTimer :: "batch_writer \<Rightarrow> batch_writer" where
  "armTimer w = w\<lparr>bw_timer := True\<rparr>"

definition timerFires :: "int \<Rightarrow> batch_writer \<Rightarrow> batch_writer" where
  "timerFires now w = (if bw_timer w then bw_flush now (w\<lparr>bw_timer := False\<rparr>) else w)"

definition requeue :: "write_unit list \<Rightarrow> batch_writer \<Rightarrow> batch_writer" where
  "requeue us w = w\<lparr>bw_buffer := us @ bw_buffer w, bw_bufferedRowCount := bw_bufferedRowCount w + rowCount us\<rparr>"

section \<open>Enqueuing and overflow\<close>

definition handleOverflow :: "writer_options \<Rightarrow> int \<Rightarrow> string \<Rightarrow> batch_writer \<Rightarrow> batch_writer" where
  \<comment> \<open>up to \<open>mkdir\<close>; \<open>path\<close> names the file of this process and millisecond\<close>
  "handleOverflow opts now path w =
     (if \<not> wo_daemon opts then bw_flush now (tell [EvOverflow (bw_bufferedRowCount w) False] w)
      else w\<lparr>bw_buffer := [], bw_bufferedRowCount := 0,
             bw_spooling := bw_spooling w @ [\<lparr>sp_path = path, sp_units = bw_buffer w, sp_rows = bw_bufferedRowCount w\<rparr>]\<rparr>)"

text \<open>The \<open>n\<close>th of the spools under way ends; they may end in any order.\<close>

definition spoolEnds :: "nat \<Rightarrow> bool \<Rightarrow> batch_writer \<Rightarrow> batch_writer" where
  "spoolEnds n ok w =
     (if n < length (bw_spooling w) then
        (let s = bw_spooling w ! n; w = w\<lparr>bw_spooling := take n (bw_spooling w) @ drop (Suc n) (bw_spooling w)\<rparr>;
             old = (case js_get (bw_spooled w) (sp_path s) of None \<Rightarrow> [] | Some us \<Rightarrow> us)
         in if ok then tell [EvOverflow (sp_rows s) True] (w\<lparr>bw_spooled := js_set (sp_path s) (old @ sp_units s) (bw_spooled w)\<rparr>)
            else tell [EvOverflow (sp_rows s) False] (requeue (sp_units s) w))
      else w)"

definition bw_accept :: "int \<Rightarrow> write_unit \<Rightarrow> nat \<Rightarrow> batch_writer \<Rightarrow> batch_writer" where
  "bw_accept now u rows w =
     w\<lparr>bw_buffer := bw_buffer w @ [u], bw_bufferedRowCount := bw_bufferedRowCount w + rows,
       bw_oldestEnqueuedAt := (case bw_oldestEnqueuedAt w of None \<Rightarrow> Some now | Some t \<Rightarrow> Some t)\<rparr>"

definition bw_enqueue :: "writer_options \<Rightarrow> int \<Rightarrow> string \<Rightarrow> raw_ingest_event \<Rightarrow> normalized_row list \<Rightarrow> batch_writer \<Rightarrow> batch_writer" where
  "bw_enqueue opts now path raw rows w =
     (let w = bw_accept now \<lparr>wu_raw = Some raw, wu_normalized = rows\<rparr> (1 + length rows) w
      in if wo_maxBufferedRows opts \<le> bw_bufferedRowCount w then handleOverflow opts now path w
         else if bw_closed w \<or> wo_maxRows opts \<le> bw_bufferedRowCount w then bw_flush now w
         else armTimer w)"

definition bw_enqueueDerived :: "writer_options \<Rightarrow> int \<Rightarrow> normalized_row list \<Rightarrow> batch_writer \<Rightarrow> batch_writer" where
  "bw_enqueueDerived opts now rows w =
     (if rows = [] then w
      else
        (let w = bw_accept now \<lparr>wu_raw = None, wu_normalized = rows\<rparr> (length rows) w
         in if bw_closed w \<or> wo_maxRows opts \<le> bw_bufferedRowCount w then bw_flush now w else armTimer w))"

section \<open>Attempts\<close>

definition backoffMs :: "nat \<Rightarrow> nat" where
  "backoffMs attempt = min 30000 (100 * 2 ^ min (attempt - 1) 8)"

definition jittered :: "rat \<Rightarrow> nat \<Rightarrow> rat" where
  "jittered random attempt = of_nat (backoffMs attempt) / 2 + random * (of_nat (backoffMs attempt) / 2)"

text \<open>\<open>close\<close> goes on when the flush it awaits ends.\<close>

definition afterFlush :: "int \<Rightarrow> db_error option \<Rightarrow> batch_writer \<Rightarrow> batch_writer" where
  "afterFlush now err w =
     (case (bw_closing w, err) of
        (AwaitingFirst, None) \<Rightarrow>
          if bw_buffer w = [] then w\<lparr>bw_closing := ClosedDown\<rparr> else bw_flush now (w\<lparr>bw_closing := AwaitingSecond\<rparr>)
      | (AwaitingSecond, None) \<Rightarrow> w\<lparr>bw_closing := ClosedDown\<rparr>
      | (AwaitingFirst, Some e) \<Rightarrow> w\<lparr>bw_closing := CloseFailed e\<rparr>
      | (AwaitingSecond, Some e) \<Rightarrow> w\<lparr>bw_closing := CloseFailed e\<rparr>
      | _ \<Rightarrow> w)"

definition flushSucceeds :: "int \<Rightarrow> flight \<Rightarrow> write_unit list \<Rightarrow> statement list \<Rightarrow> batch_writer \<Rightarrow> batch_writer" where
  "flushSucceeds now f us sent w =
     (let raws = length (rawRowsOf us); norms = normalizedCount us; dur = now - fl_started f; st = bw_stats w;
          lats = bw_flushLatencies w @ [dur]
      in afterFlush now None
           (tell [EvFlushed \<lparr>fs_batches = 1, fs_rawRows = raws, fs_normalizedRows = norms, fs_durationMs = dur, fs_errors = 0\<rparr>]
              (w\<lparr>bw_flight := None, bw_committed := bw_committed w @ [(us, sent)],
                 bw_stats := st\<lparr>fs_rawRows := fs_rawRows st + raws, fs_normalizedRows := fs_normalizedRows st + norms,
                                fs_batches := fs_batches st + 1, fs_durationMs := fs_durationMs st + dur\<rparr>,
                 bw_flushLatencies := (if length lats > 5000 then drop (length lats - 2500) lats else lats)\<rparr>)))"

definition flushFails :: "writer_options \<Rightarrow> int \<Rightarrow> rat \<Rightarrow> flight \<Rightarrow> write_unit list \<Rightarrow> db_error \<Rightarrow> batch_writer \<Rightarrow> batch_writer" where
  "flushFails opts now random f us err w =
     (let n = fl_attempt f + 1; st = bw_stats w;
          w = tell (if wo_errorListener opts then [EvError err n (fl_rowCount f)] else [])
                (w\<lparr>bw_stats := st\<lparr>fs_errors := fs_errors st + 1\<rparr>\<rparr>);
          again = f\<lparr>fl_units := us, fl_attempt := n, fl_sleep := Some (jittered random n)\<rparr>
      in if isMissingPartitionError err then tell [EvPartitionMissing err] (w\<lparr>bw_flight := Some again\<rparr>)
         else if \<not> isRetryableDbError err then
           (let w = requeue us w
            in afterFlush now (Some err) (w\<lparr>bw_flight := None, bw_rejections := bw_rejections w @ [err]\<rparr>))
         else w\<lparr>bw_flight := Some again\<rparr>)"

definition attemptEnds :: "writer_options \<Rightarrow> int \<Rightarrow> database_answers \<Rightarrow> rat \<Rightarrow> batch_writer \<Rightarrow> batch_writer" where
  "attemptEnds opts now db random w =
     (case bw_flight w of
        None \<Rightarrow> w
      | Some f \<Rightarrow>
          if fl_sleep f \<noteq> None then w
          else (case writeUnits db (fl_units f) of
                  (None, us, sent) \<Rightarrow> flushSucceeds now f us sent w
                | (Some e, us, _) \<Rightarrow> flushFails opts now random f us e w))"

definition wakes :: "batch_writer \<Rightarrow> batch_writer" where
  "wakes w = w\<lparr>bw_flight := map_option (\<lambda>f. f\<lparr>fl_sleep := None\<rparr>) (bw_flight w)\<rparr>"

section \<open>Closing and latencies\<close>

definition bw_close :: "int \<Rightarrow> batch_writer \<Rightarrow> batch_writer" where
  \<comment> \<open>the writer is closed once\<close>
  "bw_close now w =
     (if bw_closing w \<noteq> NotClosing then w
      else
        (let w = bw_flush now (w\<lparr>bw_closed := True, bw_timer := False\<rparr>)
         in w\<lparr>bw_closing := (if bw_flight w = None then ClosedDown else AwaitingFirst)\<rparr>))"

record latency_summary =
  ls_avg :: rat
  ls_max :: int
  ls_p50 :: int
  ls_p95 :: int
  ls_p99 :: int

definition quantileAt :: "int list \<Rightarrow> rat \<Rightarrow> int" where
  "quantileAt s q = s ! min (length s - 1) (nat \<lfloor>q * of_nat (length s)\<rfloor>)"

definition drainFlushLatencies :: "batch_writer \<Rightarrow> latency_summary option \<times> batch_writer" where
  "drainFlushLatencies w =
     (if bw_flushLatencies w = [] then (None, w)
      else
        (let s = sort (bw_flushLatencies w)
         in (Some \<lparr>ls_avg = of_int (sum_list s) / of_nat (length s), ls_max = last s, ls_p50 = quantileAt s (1 / 2),
                   ls_p95 = quantileAt s (95 / 100), ls_p99 = quantileAt s (99 / 100)\<rparr>,
             w\<lparr>bw_flushLatencies := []\<rparr>)))"

section \<open>Runs\<close>

datatype writer_step =
  StEnqueue string raw_ingest_event "normalized_row list"
| StDerived "normalized_row list"
| StFlush
| StTimer
| StAttempt database_answers rat
| StWake
| StSpool nat bool
| StDrain
| StClose

fun writerStep :: "writer_options \<Rightarrow> int \<times> writer_step \<Rightarrow> batch_writer \<Rightarrow> batch_writer" where
  "writerStep opts (now, StEnqueue path raw rows) w = bw_enqueue opts now path raw rows w"
| "writerStep opts (now, StDerived rows) w = bw_enqueueDerived opts now rows w"
| "writerStep opts (now, StFlush) w = bw_flush now w"
| "writerStep opts (now, StTimer) w = timerFires now w"
| "writerStep opts (now, StAttempt db random) w = attemptEnds opts now db random w"
| "writerStep opts (now, StWake) w = wakes w"
| "writerStep opts (now, StSpool n ok) w = spoolEnds n ok w"
| "writerStep opts (now, StDrain) w = snd (drainFlushLatencies w)"
| "writerStep opts (now, StClose) w = bw_close now w"

definition writerRun :: "writer_options \<Rightarrow> (int \<times> writer_step) list \<Rightarrow> batch_writer \<Rightarrow> batch_writer" where
  "writerRun opts steps w = foldl (\<lambda>w st. writerStep opts st w) w steps"

end
