(* ===== verification/BatchWriterProps.thy ===== *)
theory BatchWriterProps
  imports BatchWriter
begin

text \<open>
  The properties of the batch writer: what a transaction sends, and, over every interleaving of its steps, where the units are that it
  accepted.
\<close>

section \<open>Where the units are\<close>

definition inFlight :: "batch_writer \<Rightarrow> write_unit list" where
  "inFlight w = (case bw_flight w of None \<Rightarrow> [] | Some f \<Rightarrow> fl_units f)"

definition line :: "batch_writer \<Rightarrow> write_unit list" where
  \<comment> \<open>what was committed, what is being written, what waits: in this order\<close>
  "line w = concat (map fst (bw_committed w)) @ inFlight w @ bw_buffer w"

definition aside :: "batch_writer \<Rightarrow> write_unit list" where
  \<comment> \<open>what is in a spool file or on its way there\<close>
  "aside w = concat (map sp_units (bw_spooling w)) @ concat (map snd (bw_spooled w))"

fun acceptedBy :: "writer_step \<Rightarrow> write_unit list" where
  "acceptedBy (StEnqueue path raw rows) = [\<lparr>wu_raw = Some raw, wu_normalized = rows\<rparr>]"
| "acceptedBy (StDerived rows) = (if rows = [] then [] else [\<lparr>wu_raw = None, wu_normalized = rows\<rparr>])"
| "acceptedBy _ = []"

definition accepted :: "(int \<times> writer_step) list \<Rightarrow> write_unit list" where
  "accepted steps = concat (map (acceptedBy \<circ> snd) steps)"

abbreviation kept_units :: "batch_writer \<Rightarrow> (raw_ingest_event option \<times> (string \<times> bool \<times> row_values) list) multiset" where
  "kept_units w \<equiv> mset (map unitCore (line w @ aside w))"

named_theorems writer \<open>the effect of each operation of the writer on its units\<close>

lemma line_tell [simp]: "line (tell es w) = line w" "aside (tell es w) = aside w"
  by (simp_all add: line_def aside_def inFlight_def tell_def)

lemma line_irrelevant [simp]:
  "line (w\<lparr>bw_timer := b\<rparr>) = line w" "line (w\<lparr>bw_closed := b\<rparr>) = line w" "line (w\<lparr>bw_closing := c\<rparr>) = line w"
  "line (w\<lparr>bw_stats := s\<rparr>) = line w" "line (w\<lparr>bw_flushLatencies := l\<rparr>) = line w" "line (w\<lparr>bw_rejections := r\<rparr>) = line w"
  "aside (w\<lparr>bw_timer := b\<rparr>) = aside w" "aside (w\<lparr>bw_closed := b\<rparr>) = aside w" "aside (w\<lparr>bw_closing := c\<rparr>) = aside w"
  "aside (w\<lparr>bw_stats := s\<rparr>) = aside w" "aside (w\<lparr>bw_flushLatencies := l\<rparr>) = aside w" "aside (w\<lparr>bw_rejections := r\<rparr>) = aside w"
  "aside (w\<lparr>bw_flight := f\<rparr>) = aside w" "aside (w\<lparr>bw_committed := cs\<rparr>) = aside w"
  by (simp_all add: line_def aside_def inFlight_def)

lemma flush_line [simp]: "line (bw_flush now w) = line w" "aside (bw_flush now w) = aside w"
  by (auto simp: bw_flush_def doFlush_def Let_def line_def aside_def inFlight_def)

lemma armTimer_line [simp]: "line (armTimer w) = line w" "aside (armTimer w) = aside w"
  by (simp_all add: armTimer_def)

lemma accept_line [simp]:
  "line (bw_accept now u n w) = line w @ [u]" "aside (bw_accept now u n w) = aside w"
  by (simp_all add: bw_accept_def line_def aside_def inFlight_def)

lemma timer_line [simp]: "line (timerFires now w) = line w" "aside (timerFires now w) = aside w"
  by (simp_all add: timerFires_def)

lemma afterFlush_line [simp]: "line (afterFlush now e w) = line w" "aside (afterFlush now e w) = aside w"
  by (auto simp: afterFlush_def split: close_state.splits option.splits)

lemma close_line [simp]: "line (bw_close now w) = line w" "aside (bw_close now w) = aside w"
  by (simp_all add: bw_close_def Let_def)

lemma drain_line [simp]: "line (snd (drainFlushLatencies w)) = line w" "aside (snd (drainFlushLatencies w)) = aside w"
  by (simp_all add: drainFlushLatencies_def Let_def)

lemma wakes_line [simp]: "line (wakes w) = line w" "aside (wakes w) = aside w"
  by (simp_all add: wakes_def line_def aside_def inFlight_def split: option.splits)

lemma success_line:
  assumes "bw_flight w = Some f" "map unitCore us = map unitCore (fl_units f)"
  shows "map unitCore (line (flushSucceeds now f us sent w)) = map unitCore (line w)"
  using assms by (simp add: flushSucceeds_def Let_def) (simp add: line_def inFlight_def)

lemma failure_line:
  assumes "bw_flight w = Some f" "map unitCore us = map unitCore (fl_units f)"
  shows "map unitCore (line (flushFails opts now r f us e w)) = map unitCore (line w)"
  using assms by (simp add: flushFails_def Let_def) (auto simp: line_def inFlight_def tell_def requeue_def)

lemma attempt_aside [simp]: "aside (attemptEnds opts now db r w) = aside w"
  by (auto simp: attemptEnds_def flushSucceeds_def flushFails_def requeue_def Let_def aside_def tell_def afterFlush_def bw_flush_def doFlush_def
      split: option.splits prod.splits close_state.splits)

lemma attempt_line: "map unitCore (line (attemptEnds opts now db r w)) = map unitCore (line w)"
proof (cases "bw_flight w")
  case (Some f)
  obtain e us sent where wr: "writeUnits db (fl_units f) = (e, us, sent)" by (metis prod_cases3)
  show ?thesis
    using success_line [OF Some writeUnits_core [OF wr]] failure_line [OF Some writeUnits_core [OF wr]]
    by (simp add: attemptEnds_def Some wr split: option.splits)
qed (simp add: attemptEnds_def)

lemma spooled_set: "mset (concat (map snd (js_set p (us @ vs) m))) =
    mset vs + mset (concat (map snd m))"
  if "us = (case js_get m p of None \<Rightarrow> [] | Some xs \<Rightarrow> xs)"
  using that by (induction m arbitrary: us) auto

lemma spool_units: "kept_units (spoolEnds n ok w) = kept_units w"
proof (cases "n < length (bw_spooling w)")
  case True
  let ?s = "bw_spooling w ! n" and ?rest = "take n (bw_spooling w) @ drop (Suc n) (bw_spooling w)"
  have "bw_spooling w = take n (bw_spooling w) @ ?s # drop (Suc n) (bw_spooling w)" using True by (simp add: id_take_nth_drop)
  then have "mset (concat (map sp_units (bw_spooling w))) =
      mset (concat (map sp_units (take n (bw_spooling w) @ ?s # drop (Suc n) (bw_spooling w))))" by simp
  then have a: "mset (concat (map sp_units (bw_spooling w))) = mset (sp_units ?s) + mset (concat (map sp_units ?rest))" by simp
  show ?thesis
  proof (cases ok)
    case True
    then show ?thesis using \<open>n < _\<close> a spooled_set [OF refl, of "sp_path ?s" "bw_spooled w" "sp_units ?s"]
      by (simp add: spoolEnds_def Let_def) (simp add: line_def aside_def inFlight_def del: mset_map mset_concat flip: mset_map)
  next
    case False
    then show ?thesis using \<open>n < _\<close> a
      by (simp add: spoolEnds_def Let_def) (simp add: line_def aside_def inFlight_def requeue_def)
  qed
qed (simp add: spoolEnds_def)

lemma overflow_units: "kept_units (handleOverflow opts now path w) = kept_units w"
  by (cases "wo_daemon opts") (simp_all add: handleOverflow_def, simp add: line_def aside_def inFlight_def)

lemma accept_units: "kept_units (bw_accept now u n w) = kept_units w + {#unitCore u#}"
  by simp

lemma flush_units: "kept_units (bw_flush now w) = kept_units w" "kept_units (armTimer w) = kept_units w"
  by simp_all

lemma step_units:
  "kept_units (writerStep opts st w) = kept_units w + mset (map unitCore (acceptedBy (snd st)))"
proof (cases "(opts, st, w)" rule: writerStep.cases)
  case (1 opts now path raw rows w)
  then show ?thesis
    by (simp only: prod.inject writerStep.simps bw_enqueue_def Let_def snd_conv acceptedBy.simps if_distrib [of kept_units]
          overflow_units flush_units accept_units if_cancel) simp
next
  case (5 opts now db r w)
  have "mset (map unitCore (line (attemptEnds opts now db r w))) = mset (map unitCore (line w))" by (simp only: attempt_line)
  with 5 show ?thesis by simp
next
  case (7 opts now n ok w)
  then show ?thesis using spool_units [of n ok w] by simp
qed (auto simp: bw_enqueueDerived_def Let_def)

lemma run_units: "kept_units (writerRun opts steps w) = kept_units w + mset (map unitCore (accepted steps))"
proof (induction steps arbitrary: w)
  case (Cons st steps)
  then show ?case using step_units [of opts st w] by (simp add: writerRun_def accepted_def)
qed (simp add: writerRun_def accepted_def)

lemma new_units [simp]: "line newBatchWriter = []" "aside newBatchWriter = []"
  by (simp_all add: line_def aside_def inFlight_def newBatchWriter_def)

text \<open>A writer that may not spool keeps the order.\<close>

definition unspooled :: "batch_writer \<Rightarrow> bool" where
  "unspooled w = (bw_spooling w = [] \<and> bw_spooled w = [])"

lemma unspooled_simps [simp]:
  "unspooled (tell es w) = unspooled w" "unspooled (bw_flush now w) = unspooled w" "unspooled (armTimer w) = unspooled w"
  "unspooled (bw_accept now u n w) = unspooled w" "unspooled (timerFires now w) = unspooled w"
  "unspooled (bw_close now w) = unspooled w" "unspooled (snd (drainFlushLatencies w)) = unspooled w" "unspooled (wakes w) = unspooled w"
  "unspooled (afterFlush now e w) = unspooled w"
  by (auto simp: unspooled_def tell_def bw_flush_def doFlush_def armTimer_def bw_accept_def timerFires_def bw_close_def Let_def
      drainFlushLatencies_def wakes_def afterFlush_def split: close_state.splits option.splits)

lemma attempt_unspooled [simp]: "unspooled (attemptEnds opts now db r w) = unspooled w"
  by (auto simp: attemptEnds_def flushSucceeds_def flushFails_def Let_def requeue_def split: option.splits prod.splits)
    (auto simp: unspooled_def tell_def)

lemma spool_none: "unspooled w \<Longrightarrow> spoolEnds n ok w = w"
  by (simp add: spoolEnds_def unspooled_def)

lemma step_unspooled:
  assumes "\<not> wo_daemon opts" "unspooled w"
  shows "unspooled (writerStep opts st w)"
  using assms by (cases "(opts, st, w)" rule: writerStep.cases)
    (auto simp: spool_none simp: bw_enqueue_def bw_enqueueDerived_def handleOverflow_def Let_def)

lemma step_line:
  assumes "\<not> wo_daemon opts" "unspooled w"
  shows "map unitCore (line (writerStep opts st w)) = map unitCore (line w) @ map unitCore (acceptedBy (snd st))"
  using assms by (cases "(opts, st, w)" rule: writerStep.cases)
    (auto simp: spool_none simp: bw_enqueue_def bw_enqueueDerived_def handleOverflow_def Let_def attempt_line)

lemma run_line:
  "\<not> wo_daemon opts \<Longrightarrow> unspooled w \<Longrightarrow>
     map unitCore (line (writerRun opts steps w)) = map unitCore (line w) @ map unitCore (accepted steps)"
  by (induction steps arbitrary: w) (simp_all add: writerRun_def accepted_def step_line step_unspooled)

section \<open>The state adds up\<close>

definition transaction_ok :: "write_unit list \<times> statement list \<Rightarrow> bool" where
  \<comment> \<open>raw rows and normalised rows of the units, between one \<open>BEGIN\<close> and one \<open>COMMIT\<close>\<close>
  "transaction_ok c = (snd c = [Begin] @ rawInserts (fst c) @ unitInserts (fst c) @ [Commit])"

definition counts_ok :: "batch_writer \<Rightarrow> bool" where
  "counts_ok w =
     (bw_bufferedRowCount w = rowCount (bw_buffer w)
      \<and> list_all (\<lambda>s. sp_rows s = rowCount (sp_units s)) (bw_spooling w)
      \<and> (case bw_flight w of None \<Rightarrow> True | Some f \<Rightarrow> fl_units f \<noteq> [] \<and> fl_rowCount f = rowCount (fl_units f))
      \<and> length (bw_flushLatencies w) \<le> 5000)"

definition stats_ok :: "batch_writer \<Rightarrow> bool" where
  "stats_ok w =
     (list_all transaction_ok (bw_committed w)
      \<and> fs_batches (bw_stats w) = length (bw_committed w)
      \<and> fs_rawRows (bw_stats w) = length (rawRowsOf (concat (map fst (bw_committed w))))
      \<and> fs_normalizedRows (bw_stats w) = normalizedCount (concat (map fst (bw_committed w))))"

definition closing_ok :: "batch_writer \<Rightarrow> bool" where
  "closing_ok w =
     (bw_closed w = (bw_closing w \<noteq> NotClosing)
      \<and> (bw_closing w = AwaitingFirst \<or> bw_closing w = AwaitingSecond \<longrightarrow> bw_flight w \<noteq> None))"

definition writer_ok :: "batch_writer \<Rightarrow> bool" where
  "writer_ok w = (counts_ok w \<and> stats_ok w \<and> closing_ok w)"

lemma rowCount_append [simp]: "rowCount (a @ b) = rowCount a + rowCount b" "rowCount [] = 0"
  by (simp_all add: rowCount_def)

lemma normalizedCount_append [simp]: "normalizedCount (a @ b) = normalizedCount a + normalizedCount b" "normalizedCount [] = 0"
  by (simp_all add: normalizedCount_def)

lemma rawRowsOf_append [simp]: "rawRowsOf (a @ b) = rawRowsOf a @ rawRowsOf b" "rawRowsOf [] = []"
  by (simp_all add: rawRowsOf_def)

lemma core_rawRows: "map unitCore us' = map unitCore us \<Longrightarrow> rawRowsOf us' = rawRowsOf us"
proof -
  have "rawRowsOf vs = concat (map (\<lambda>r. case r of None \<Rightarrow> [] | Some x \<Rightarrow> [x]) (map wu_raw vs))" for vs
    by (simp add: rawRowsOf_def comp_def)
  then show "map unitCore us' = map unitCore us \<Longrightarrow> ?thesis" using core_raws by metis
qed

lemma rowCount_core: "rowCount us = sum_list (map (\<lambda>c. (if fst c = None then 0 else 1) + length (snd c)) (map unitCore us))"
  by (simp add: rowCount_def unitCore_def comp_def)

lemma core_rowCount: "map unitCore us' = map unitCore us \<Longrightarrow> rowCount us' = rowCount us"
  by (simp only: rowCount_core)

lemma written_transaction:
  assumes "writeUnits db us = (None, us', sent)"
  shows "transaction_ok (us', sent)"
proof -
  have "sent = [Begin] @ rawInserts us @ unitInserts us' @ [Commit]" using assms by (rule writeUnits_ok)
  moreover have "rawInserts us' = rawInserts us"
    using core_rawRows [OF writeUnits_core [OF assms]] by (simp add: rawInserts_def)
  ultimately show ?thesis by (simp add: transaction_ok_def)
qed

lemma tell_ok [simp]: "counts_ok (tell es w) = counts_ok w" "stats_ok (tell es w) = stats_ok w" "closing_ok (tell es w) = closing_ok w"
  by (simp_all add: counts_ok_def stats_ok_def closing_ok_def tell_def)

lemma flush_stats_ok [simp]: "stats_ok (bw_flush now w) = stats_ok w"
  by (simp add: bw_flush_def doFlush_def Let_def stats_ok_def)

lemma flush_counts: "counts_ok w \<Longrightarrow> counts_ok (bw_flush now w)"
  by (auto simp: bw_flush_def doFlush_def Let_def counts_ok_def)

lemma flush_closing: "closing_ok w \<Longrightarrow> closing_ok (bw_flush now w)"
  by (auto simp: bw_flush_def doFlush_def Let_def closing_ok_def)

lemma flush_flight: "bw_buffer w \<noteq> [] \<Longrightarrow> bw_flight (bw_flush now w) \<noteq> None" "bw_closing (bw_flush now w) = bw_closing w"
  "bw_closed (bw_flush now w) = bw_closed w"
  by (auto simp: bw_flush_def doFlush_def Let_def)

lemma flush_ok: "writer_ok w \<Longrightarrow> writer_ok (bw_flush now w)"
  by (simp add: writer_ok_def flush_counts flush_closing)

lemma overflow_ok: "writer_ok w \<Longrightarrow> writer_ok (handleOverflow opts now path w)"
  by (cases "wo_daemon opts") (auto simp: handleOverflow_def writer_ok_def flush_counts flush_closing, auto simp: counts_ok_def stats_ok_def closing_ok_def)

lemma accept_ok: "writer_ok w \<Longrightarrow> n = rowCount [u] \<Longrightarrow> writer_ok (bw_accept now u n w)"
  by (simp add: writer_ok_def bw_accept_def counts_ok_def stats_ok_def closing_ok_def)

lemma timer_flag_ok [simp]: "writer_ok (w\<lparr>bw_timer := b\<rparr>) = writer_ok w"
  by (simp add: writer_ok_def counts_ok_def stats_ok_def closing_ok_def)

lemma afterFlush_ok:
  assumes "counts_ok w" "stats_ok w" "bw_closed w = (bw_closing w \<noteq> NotClosing)"
  shows "writer_ok (afterFlush now e w)"
proof (cases "bw_closing w = AwaitingFirst \<and> e = None \<and> bw_buffer w \<noteq> []")
  case True
  let ?w = "w\<lparr>bw_closing := AwaitingSecond\<rparr>"
  have "counts_ok ?w" "stats_ok ?w" using assms by (simp_all add: counts_ok_def stats_ok_def)
  moreover have "closing_ok (bw_flush now ?w)" using True assms(3) flush_flight [where w = ?w and now = now] by (simp add: closing_ok_def)
  ultimately show ?thesis using True by (simp add: afterFlush_def writer_ok_def flush_counts)
next
  case False
  then show ?thesis using assms
    by (auto simp: afterFlush_def writer_ok_def counts_ok_def stats_ok_def closing_ok_def split: close_state.splits option.splits)
qed

lemma success_ok:
  assumes "writer_ok w" "bw_flight w = Some f" "writeUnits db (fl_units f) = (None, us, sent)"
  shows "writer_ok (flushSucceeds now f us sent w)"
  unfolding flushSucceeds_def Let_def using assms(1) written_transaction [OF assms(3)]
  by (intro afterFlush_ok) (auto simp: writer_ok_def counts_ok_def stats_ok_def closing_ok_def tell_def)

lemma tell_writer_ok [simp]: "writer_ok (tell es w) = writer_ok w"
  by (simp add: writer_ok_def)

lemma failure_ok:
  assumes w: "writer_ok w" and f: "bw_flight w = Some f" and us: "map unitCore us = map unitCore (fl_units f)"
  shows "writer_ok (flushFails opts now r f us e w)"
proof -
  define n where "n = fl_attempt f + 1"
  define v where "v = tell (if wo_errorListener opts then [EvError e n (fl_rowCount f)] else [])
     (w\<lparr>bw_stats := (bw_stats w)\<lparr>fs_errors := fs_errors (bw_stats w) + 1\<rparr>\<rparr>)"
  define again where "again = f\<lparr>fl_units := us, fl_attempt := n, fl_sleep := Some (jittered r n)\<rparr>"
  have "us \<noteq> []" using us w f by (auto simp: writer_ok_def counts_ok_def)
  then have stays: "writer_ok (v\<lparr>bw_flight := Some again\<rparr>)"
    using w f core_rowCount [OF us] by (simp add: v_def again_def writer_ok_def counts_ok_def stats_ok_def closing_ok_def tell_def)
  have given_back: "writer_ok (afterFlush now (Some e) ((requeue us v)\<lparr>bw_flight := None, bw_rejections := rs\<rparr>))" for rs
    using w by (intro afterFlush_ok) (simp_all add: v_def writer_ok_def counts_ok_def stats_ok_def closing_ok_def tell_def requeue_def)
  have "flushFails opts now r f us e w =
     (if isMissingPartitionError e then tell [EvPartitionMissing e] (v\<lparr>bw_flight := Some again\<rparr>)
      else if \<not> isRetryableDbError e then
        afterFlush now (Some e) ((requeue us v)\<lparr>bw_flight := None, bw_rejections := bw_rejections (requeue us v) @ [e]\<rparr>)
      else v\<lparr>bw_flight := Some again\<rparr>)"
    unfolding flushFails_def Let_def v_def n_def again_def by (rule refl)
  then show ?thesis using stays given_back by simp
qed

lemma attempt_ok: "writer_ok w \<Longrightarrow> writer_ok (attemptEnds opts now db r w)"
proof (cases "bw_flight w")
  case (Some f)
  assume w: "writer_ok w"
  obtain e us sent where wr: "writeUnits db (fl_units f) = (e, us, sent)" by (metis prod_cases3)
  show ?thesis
  proof (cases e)
    case None
    with wr show ?thesis using success_ok [OF w Some] w by (simp add: attemptEnds_def Some)
  next
    case (Some x)
    with wr show ?thesis using failure_ok [OF w \<open>bw_flight w = Some f\<close> writeUnits_core [OF wr]]
      w by (simp add: attemptEnds_def \<open>bw_flight w = Some f\<close>)
  qed
qed (simp add: attemptEnds_def)

lemma spool_ok:
  assumes "writer_ok w"
  shows "writer_ok (spoolEnds n ok w)"
proof (cases "n < length (bw_spooling w)")
  case True
  then have "sp_rows (bw_spooling w ! n) = rowCount (sp_units (bw_spooling w ! n))"
    using assms by (simp add: writer_ok_def counts_ok_def list_all_length)
  moreover have "list_all (\<lambda>s. sp_rows s = rowCount (sp_units s)) (take n (bw_spooling w) @ drop (Suc n) (bw_spooling w))"
    using assms by (auto simp: writer_ok_def counts_ok_def list_all_iff dest: in_set_takeD in_set_dropD)
  ultimately show ?thesis using assms True
    by (cases ok) (simp_all add: spoolEnds_def Let_def, simp_all add: writer_ok_def requeue_def counts_ok_def stats_ok_def closing_ok_def)
qed (simp add: spoolEnds_def assms)

lemma close_ok: "writer_ok w \<Longrightarrow> writer_ok (bw_close now w)"
proof (cases "bw_closing w = NotClosing")
  case True
  assume w: "writer_ok w"
  let ?w = "bw_flush now (w\<lparr>bw_closed := True, bw_timer := False\<rparr>)"
  have "counts_ok (w\<lparr>bw_closed := True, bw_timer := False\<rparr>)" using w by (simp add: writer_ok_def counts_ok_def)
  then have c: "counts_ok ?w" by (rule flush_counts)
  moreover have "stats_ok ?w" using w by (simp add: writer_ok_def) (simp add: stats_ok_def)
  moreover have "bw_closed ?w" by (simp add: flush_flight)
  moreover have "counts_ok (?w\<lparr>bw_closing := c\<rparr>) = counts_ok ?w" "stats_ok (?w\<lparr>bw_closing := c\<rparr>) = stats_ok ?w" for c
    by (simp_all add: counts_ok_def stats_ok_def)
  moreover have "closing_ok (?w\<lparr>bw_closing := (if bw_flight ?w = None then ClosedDown else AwaitingFirst)\<rparr>)"
    by (simp add: closing_ok_def flush_flight)
  ultimately show ?thesis using True by (simp only: bw_close_def Let_def writer_ok_def if_False simp_thms)
qed (simp add: bw_close_def)

lemma wakes_ok: "writer_ok w \<Longrightarrow> writer_ok (wakes w)"
  by (auto simp: wakes_def writer_ok_def counts_ok_def stats_ok_def closing_ok_def split: option.splits)

lemma drain_ok: "writer_ok w \<Longrightarrow> writer_ok (snd (drainFlushLatencies w))"
  by (simp add: drainFlushLatencies_def Let_def writer_ok_def counts_ok_def stats_ok_def closing_ok_def)

lemma new_ok: "writer_ok newBatchWriter"
  by (simp add: newBatchWriter_def writer_ok_def counts_ok_def stats_ok_def closing_ok_def)

lemma step_ok: "writer_ok w \<Longrightarrow> writer_ok (writerStep opts st w)"
  by (cases "(opts, st, w)" rule: writerStep.cases)
    (auto simp: bw_enqueue_def bw_enqueueDerived_def Let_def armTimer_def timerFires_def rowCount_def
      intro!: overflow_ok flush_ok accept_ok attempt_ok spool_ok close_ok wakes_ok drain_ok)

lemma run_ok: "writer_ok w \<Longrightarrow> writer_ok (writerRun opts steps w)"
  unfolding writerRun_def by (induction steps arbitrary: w) (simp_all add: step_ok)

section \<open>The retry loop\<close>

definition failsRetryably :: "database_answers \<Rightarrow> bool" where
  "failsRetryably db =
     (\<forall>us. \<exists>e. fst (writeUnits db us) = Some e \<and> (isMissingPartitionError e \<or> isRetryableDbError e))"

definition bystander :: "int \<times> writer_step \<Rightarrow> bool" where
  \<comment> \<open>a step other than the end of an attempt or of a sleep\<close>
  "bystander st = (case snd st of StAttempt _ _ \<Rightarrow> False | StWake \<Rightarrow> False | _ \<Rightarrow> True)"

lemma flush_in_flight [simp]: "bw_flight w = Some f \<Longrightarrow> bw_flush now w = w"
  by (simp add: bw_flush_def)

lemma bystander_step:
  assumes "bystander st" "bw_flight w = Some f"
  shows "bw_flight (writerStep opts st w) = Some f \<and> bw_committed (writerStep opts st w) = bw_committed w
    \<and> bw_stats (writerStep opts st w) = bw_stats w"
  using assms
  by (cases "(opts, st, w)" rule: writerStep.cases)
    (auto simp: bystander_def bw_enqueue_def bw_enqueueDerived_def bw_accept_def handleOverflow_def armTimer_def timerFires_def
      spoolEnds_def requeue_def drainFlushLatencies_def bw_close_def tell_def Let_def bw_flush_def)

lemma run_append: "writerRun opts (a @ b) w = writerRun opts b (writerRun opts a w)"
  by (simp add: writerRun_def)

lemma run_one: "writerRun opts [st] w = writerStep opts st w"
  by (simp add: writerRun_def)

lemma bystander_run:
  "list_all bystander sts \<Longrightarrow> bw_flight w = Some f \<Longrightarrow>
     bw_flight (writerRun opts sts w) = Some f \<and> bw_committed (writerRun opts sts w) = bw_committed w
     \<and> bw_stats (writerRun opts sts w) = bw_stats w"
proof (induction sts arbitrary: w)
  case (Cons st sts)
  then have "bystander st" "list_all bystander sts" by simp_all
  with bystander_step [OF this(1) Cons.prems(2), of opts] Cons.IH [of "writerStep opts st w"] show ?case
    by (simp add: writerRun_def)
qed (simp add: writerRun_def)

definition same_units :: "write_unit list \<Rightarrow> flight \<Rightarrow> bool" where
  "same_units us f = (map unitCore (fl_units f) = map unitCore us)"

lemma failing_attempt:
  assumes "failsRetryably db" "bw_flight w = Some f" "fl_sleep f = None"
  shows "\<exists>f'. bw_flight (attemptEnds opts now db r w) = Some f' \<and> map unitCore (fl_units f') = map unitCore (fl_units f)
    \<and> bw_committed (attemptEnds opts now db r w) = bw_committed w
    \<and> fs_errors (bw_stats (attemptEnds opts now db r w)) = fs_errors (bw_stats w) + 1"
proof -
  obtain e us sent where wr: "writeUnits db (fl_units f) = (e, us, sent)" by (metis prod_cases3)
  then obtain x where e: "e = Some x" "isMissingPartitionError x \<or> isRetryableDbError x"
    using assms(1) unfolding failsRetryably_def by (metis fst_conv)
  then show ?thesis using assms(2,3) wr writeUnits_core [OF wr]
    by (auto simp: attemptEnds_def flushFails_def Let_def tell_def)
qed

fun retryRound :: "(int \<times> writer_step) list \<times> int \<times> database_answers \<times> rat \<Rightarrow> (int \<times> writer_step) list" where
  "retryRound (others, now, db, r) = others @ [(now, StAttempt db r), (now, StWake)]"

fun failing_round :: "(int \<times> writer_step) list \<times> int \<times> database_answers \<times> rat \<Rightarrow> bool" where
  "failing_round (others, now, db, r) = (list_all bystander others \<and> failsRetryably db)"

lemma one_round:
  assumes "failing_round rd" "bw_flight w = Some f" "fl_sleep f = None"
  shows "\<exists>f'. bw_flight (writerRun opts (retryRound rd) w) = Some f' \<and> fl_sleep f' = None
    \<and> map unitCore (fl_units f') = map unitCore (fl_units f) \<and> bw_committed (writerRun opts (retryRound rd) w) = bw_committed w
    \<and> fs_errors (bw_stats (writerRun opts (retryRound rd) w)) = fs_errors (bw_stats w) + 1"
proof -
  obtain others now db r where rd: "rd = (others, now, db, r)" by (metis prod_cases4)
  let ?w = "writerRun opts others w"
  have o: "bw_flight ?w = Some f \<and> bw_committed ?w = bw_committed w \<and> bw_stats ?w = bw_stats w"
    using assms(1,2) by (intro bystander_run) (simp_all add: rd)
  then show ?thesis using failing_attempt [of db ?w f opts now r] assms
    by (auto simp: rd run_append wakes_def) (auto simp: writerRun_def wakes_def)
qed

lemma failing_rounds:
  assumes "list_all failing_round rds" "bw_flight w = Some f" "fl_sleep f = None"
  shows "\<exists>f'. bw_flight (writerRun opts (concat (map retryRound rds)) w) = Some f' \<and> fl_sleep f' = None
    \<and> map unitCore (fl_units f') = map unitCore (fl_units f)
    \<and> bw_committed (writerRun opts (concat (map retryRound rds)) w) = bw_committed w
    \<and> fs_errors (bw_stats (writerRun opts (concat (map retryRound rds)) w)) = fs_errors (bw_stats w) + length rds"
  using assms
proof (induction rds arbitrary: w f)
  case (Cons rd rds)
  let ?w = "writerRun opts (retryRound rd) w"
  have "failing_round rd" using Cons.prems(1) by simp
  then obtain f' where f': "bw_flight ?w = Some f'" "fl_sleep f' = None" "map unitCore (fl_units f') = map unitCore (fl_units f)"
    "bw_committed ?w = bw_committed w" "fs_errors (bw_stats ?w) = fs_errors (bw_stats w) + 1"
    using one_round [OF _ Cons.prems(2,3)] by blast
  have "list_all failing_round rds" using Cons.prems(1) by simp
  from Cons.IH [OF this f'(1,2)] f' show ?case by (auto simp: run_append)
qed (simp add: writerRun_def)

lemma afterFlush_commits [simp]: "bw_committed (afterFlush now e w) = bw_committed w" "bw_stats (afterFlush now e w) = bw_stats w"
  by (auto simp: afterFlush_def bw_flush_def doFlush_def Let_def split: close_state.splits option.splits)

lemma accepted_attempt:
  assumes "bw_flight w = Some f" "fl_sleep f = None" "writeUnits db (fl_units f) = (None, us, sent)"
  shows "bw_committed (attemptEnds opts now db r w) = bw_committed w @ [(us, sent)]
    \<and> fs_errors (bw_stats (attemptEnds opts now db r w)) = fs_errors (bw_stats w)"
  using assms by (simp add: attemptEnds_def flushSucceeds_def Let_def tell_def)

definition accepts_all :: "database_answers \<Rightarrow> bool" where
  "accepts_all db = (\<forall>us. fst (writeUnits db us) = None)"

section \<open>Delays\<close>

lemma backoff_range: "100 \<le> backoffMs n \<and> backoffMs n \<le> 25600"
proof -
  have "(2::nat) ^ min (n - 1) 8 \<le> 2 ^ 8" by (rule power_increasing) simp_all
  then show ?thesis by (simp add: backoffMs_def)
qed

lemma retry_delay_below_cap: "0 \<le> r \<Longrightarrow> r < 1 \<Longrightarrow> 50 \<le> jittered r n \<and> jittered r n < 25600"
proof -
  assume r: "0 \<le> r" "r < 1"
  let ?b = "of_nat (backoffMs n) :: rat"
  have b: "100 \<le> ?b" "?b \<le> 25600" using backoff_range [of n]
    by (metis of_nat_le_iff of_nat_numeral, metis of_nat_le_iff of_nat_numeral)
  have "0 \<le> r * (?b / 2)" using r by simp
  moreover have "r * (?b / 2) < 1 * (?b / 2)" using r b by (intro mult_strict_right_mono) auto
  ultimately show ?thesis using b unfolding jittered_def by linarith
qed

section \<open>Rows that wait for the next enqueue\<close>

definition scheduled :: "batch_writer \<Rightarrow> bool" where
  \<comment> \<open>whatever waits in the buffer has a timer or a flight before it\<close>
  "scheduled w = (bw_buffer w = [] \<or> bw_timer w \<or> bw_flight w \<noteq> None)"

definition enqueues :: "writer_step \<Rightarrow> bool" where
  "enqueues st = (acceptedBy st \<noteq> [])"

lemma flush_scheduled: "scheduled (bw_flush now w)"
  by (simp add: bw_flush_def doFlush_def Let_def scheduled_def)

lemma step_scheduled:
  assumes "scheduled w \<or> enqueues (snd st)" "case snd st of StAttempt _ _ \<Rightarrow> False | StSpool _ ok \<Rightarrow> ok | _ \<Rightarrow> True"
  shows "scheduled (writerStep opts st w)"
  using assms flush_scheduled
  by (cases "(opts, st, w)" rule: writerStep.cases)
    (auto simp: enqueues_def bw_enqueue_def bw_enqueueDerived_def handleOverflow_def armTimer_def timerFires_def spoolEnds_def tell_def
      drainFlushLatencies_def bw_close_def Let_def wakes_def scheduled_def bw_flush_def doFlush_def)

section \<open>A database for the examples\<close>

definition good_db :: database_answers where
  \<comment> \<open>numbers the rows of a transaction from 1 and returns the ids of a statement backwards\<close>
  "good_db sent s =
     (case s of
        RawInsert c \<Rightarrow> Inr (rev (map (\<lambda>i. \<lparr>rr_id = int i, rr_received_at = 0\<rparr>) [Suc (rawCount sent)..<Suc (rawCount sent) + length c]))
      | _ \<Rightarrow> Inr [])"

definition down_db :: database_answers where
  "down_db sent s = Inl \<lparr>de_code = Some ''08006'', de_message = []\<rparr>"

definition example_raw :: "int \<Rightarrow> raw_ingest_event" where
  "example_raw n =
     \<lparr>ri_sessionId = ''s'', ri_streamId = None, ri_ingestOrdinal = n, ri_receivedAt = 0, ri_receivedAtMs = 0, ri_recvMonotonicNs = 0,
      ri_channel = None, ri_messageType = ''ticker'', ri_sid = None, ri_seq = None, ri_marketTicker = None, ri_marketId = None,
      ri_exchangeTsMs = None, ri_payloadHash = [], ri_payload = JNull, ri_parseVersion = 1\<rparr>"

definition example_row :: normalized_row where
  "example_row = \<lparr>nr_table = ''ticker_updates'', nr_linkRawEvent = True, nr_values = [(''price'', CText ''1'')]\<rparr>"

definition example_unit :: "int \<Rightarrow> write_unit" where
  "example_unit n = \<lparr>wu_raw = Some (example_raw n), wu_normalized = [example_row]\<rparr>"

lemma down_fails: "failsRetryably down_db"
  by (simp add: failsRetryably_def writeUnits_def down_db_def isRetryableDbError_def RETRYABLE_CODES_def)

lemma good_answers: "\<exists>part. good_db sent s = Inr part \<and> length part = (case s of RawInsert c \<Rightarrow> length c | _ \<Rightarrow> 0)"
  by (cases s) (auto simp: good_db_def Suc_le_eq)

lemma good_sends:
  "\<exists>sent' ret. sendAll good_db sent ss = (None, sent', ret) \<and> length ret = length (insertedRaw ss)"
proof (induction ss arbitrary: sent)
  case (Cons s ss)
  obtain part where p: "good_db sent s = Inr part" "length part = (case s of RawInsert c \<Rightarrow> length c | _ \<Rightarrow> 0)"
    using good_answers by blast
  obtain sent' ret where "sendAll good_db (sent @ [s]) ss = (None, sent', ret)" "length ret = length (insertedRaw ss)"
    using Cons by blast
  then show ?case using p by (cases s) (auto simp: insertedRaw_def)
qed (simp add: insertedRaw_def)

lemma good_writes: "\<exists>us' sent. writeUnits good_db us = (None, us', sent)"
proof -
  obtain part where b: "good_db [] Begin = Inr part" using good_answers by blast
  obtain sent ret where s: "sendAll good_db [Begin] (rawInserts us) = (None, sent, ret)" "length ret = length (rawRowsOf us)"
    using good_sends [of "[Begin]" "rawInserts us"] by auto
  obtain sent' ret' where "sendAll good_db sent (unitInserts (attachLinks (sort_key rr_id ret) us) @ [Commit]) = (None, sent', ret')"
    using good_sends by metis
  then show ?thesis using b s by (simp add: writeUnits_def unitInserts_def Let_def)
qed

lemma good_accepts: "accepts_all good_db"
  unfolding accepts_all_def using good_writes by (metis fst_conv)

lemma good_numbers: "numbers_rows (\<lambda>i. \<lparr>rr_id = int (Suc i), rr_received_at = 0\<rparr>) good_db"
proof -
  have "map (\<lambda>i. \<lparr>rr_id = int i, rr_received_at = (0::int)\<rparr>) [Suc a..<Suc a + n] =
      map (\<lambda>i. \<lparr>rr_id = int (Suc i), rr_received_at = 0\<rparr>) [a..<a + n]" for a n
    by (rule nth_equalityI) (auto simp del: upt_Suc)
  then show ?thesis by (simp only: numbers_rows_def good_db_def statement.case sum.case mset_rev simp_thms)
qed

section \<open>Properties\<close>

definition within_limits :: "statement \<Rightarrow> bool" where
  \<comment> \<open>an insert is the rendering of aligned rows whose placeholders number its parameters, and a statement takes what Postgres accepts\<close>
  "within_limits s =
     (case s of
        RawInsert rows \<Rightarrow> list_all (\<lambda>r. length r = 16) rows \<and> 16 * length rows \<le> MAX_BIND_PARAMETERS
      | Execute text params \<Rightarrow>
          (\<exists>t a. s = insertStatement (t, a) \<and> well_shaped a
             \<and> concat (tupleNumbers 0 (length (al_columns a)) (length (al_rows a))) = [1..<Suc (length params)]
             \<and> (length params \<le> MAX_BIND_PARAMETERS \<or> length (al_rows a) \<le> 1))
      | _ \<Rightarrow> True)"

lemma raw_rows_inserted: "RawInsert c \<in> set (rawInserts us) \<Longrightarrow> list_all (\<lambda>r. length r = 16) c"
proof -
  assume "RawInsert c \<in> set (rawInserts us)"
  then obtain n where "c \<in> set (chunkRows (map rawRow (rawRowsOf us)) n)" by (auto simp: rawInserts_def Let_def split: if_splits)
  then have "set c \<subseteq> rawRow ` set (rawRowsOf us)" using chunkRows_size by fastforce
  then show ?thesis by (auto simp: list_all_iff rawRow_def)
qed

lemma insert_within:
  assumes "(t, a) \<in> set (tableInserts m)"
  shows "within_limits (insertStatement (t, a))"
proof -
  have a: "well_shaped a" "length (flattenValues a) \<le> MAX_BIND_PARAMETERS \<or> length (al_rows a) \<le> 1"
    using insert_fits [OF assms] by auto
  have "concat (tupleNumbers 0 (length (al_columns a)) (length (al_rows a))) = [1..<Suc (length (flattenValues a))]"
    using numbers_run_on [of 0] flatten_size [OF a(1)] by simp
  then show ?thesis using a unfolding within_limits_def
    by (simp only: insertStatement.simps statement.case) blast
qed

lemma sendable_within: "sendable us s \<Longrightarrow> within_limits s"
proof (unfold sendable_def, elim disjE exE)
  assume r: "s \<in> set (rawInserts us)"
  then obtain c where "s = RawInsert c" by (auto simp: rawInserts_def Let_def split: if_splits)
  with r raw_chunk raw_rows_inserted show ?thesis by (simp add: within_limits_def)
next
  fix ids assume "s \<in> set (map insertStatement (tableInserts (groupByTable (unitRows (attachLinks ids us)))))"
  then show ?thesis by (elim insertStatementE) (simp only: insert_within)
qed (simp_all add: within_limits_def)

text \<open>
  C21: Every statement of a flush, whatever the database answers and however far it gets, stays within 60000 bind parameters (or carries
  one row), names each column once, gives each of its rows a cell for every column, and numbers its placeholders 1, 2, ... without a
  gap up to the number of its parameters.
\<close>

theorem statements_within_limits: "list_all within_limits (snd (snd (writeUnits db us)))"
  using sent_sendable [of db us] sendable_within
  by (metis Ball_set prod.collapse)

text \<open>
  C12: A transaction that commits inserted the raw events of its units in order, and for each table, statement by statement, the rows of
  its units in order, each cell under its column; and if the identity column numbers the raw rows in the order they are inserted, each
  row that asks for provenance carries the id, receipt time and ordinal of its own raw event, in whatever order the ids are returned.
\<close>

theorem transaction_complete:
  assumes "writeUnits db us = (None, us', sent)" "numbers_rows ids db" "strict_mono (rr_id \<circ> ids)"
  shows "sent = [Begin] @ rawInserts us @ unitInserts us' @ [Commit]
    \<and> insertedRaw sent = map rawRow (rawRowsOf us)
    \<and> list_all2 stored_as (map nr_values (filter (\<lambda>r. nr_table r = t) (unitRows us'))) (storedRows t us')
    \<and> map unitCore us' = map unitCore us
    \<and> list_all2 carries_link (map ids [0..<length (rawRowsOf us)]) (filter has_raw us')"
proof -
  have "sent = [Begin] @ rawInserts us @ unitInserts us' @ [Commit]" using assms(1) by (rule writeUnits_ok)
  moreover have "insertedRaw ([Begin] @ rawInserts us @ unitInserts us' @ [Commit]) = map rawRow (rawRowsOf us)"
    by (simp only: inserted_append rawInserts_rows unitInserts_def inserted_tables) (simp add: insertedRaw_def)
  ultimately show ?thesis using rows_stored writeUnits_core [OF assms(1)] linked_in_order [OF assms] by simp
qed

lemma transaction_complete_witness:
  "\<exists>us' sent. writeUnits good_db [example_unit 7, example_unit 8] = (None, us', sent)
     \<and> insertedRaw sent = [rawRow (example_raw 7), rawRow (example_raw 8)]
     \<and> list_all2 carries_link [\<lparr>rr_id = 1, rr_received_at = 0\<rparr>, \<lparr>rr_id = 2, rr_received_at = 0\<rparr>] (filter has_raw us')"
proof -
  obtain us' sent where w: "writeUnits good_db [example_unit 7, example_unit 8] = (None, us', sent)" using good_writes by blast
  have m: "strict_mono (rr_id \<circ> (\<lambda>i. \<lparr>rr_id = int (Suc i), rr_received_at = (0::int)\<rparr>))" by (simp add: strict_mono_def)
  have "rawRowsOf [example_unit 7, example_unit 8] = [example_raw 7, example_raw 8]" by (simp add: rawRowsOf_def example_unit_def)
  moreover have "map (\<lambda>i. \<lparr>rr_id = int (Suc i), rr_received_at = (0::int)\<rparr>) [0..<2] = [\<lparr>rr_id = 1, rr_received_at = 0\<rparr>, \<lparr>rr_id = 2, rr_received_at = 0\<rparr>]"
    by (simp add: upt_rec)
  ultimately show ?thesis using transaction_complete [OF w good_numbers m, of "''ticker_updates''"] w
    by (simp only: list.map list.size length_0_conv add_0 numeral_2_eq_2 [symmetric] One_nat_def add_Suc) blast
qed

text \<open>
  C7: On every interleaving of enqueues, timers, attempts, sleeps, spools and closing, each unit that was accepted is committed, being
  written, buffered, spooled or on its way to a spool file, exactly once, and with its content unchanged; and a writer that may not spool
  commits the units in the order in which it accepted them.
\<close>

theorem no_unit_lost:
  "mset (map unitCore (line (writerRun opts steps newBatchWriter) @ aside (writerRun opts steps newBatchWriter)))
     = mset (map unitCore (accepted steps))
   \<and> (wo_daemon opts \<or> map unitCore (line (writerRun opts steps newBatchWriter)) = map unitCore (accepted steps))"
proof -
  have "unspooled newBatchWriter" by (simp add: unspooled_def newBatchWriter_def)
  then show ?thesis using run_units [of opts steps newBatchWriter] run_line [of opts newBatchWriter steps] by auto
qed

text \<open>
  C22: On every run of the writer the row count is the number of rows buffered, a flush in progress has units, every committed
  transaction is complete, the statistics count the committed rows, and close waits only while a flush is in progress.
\<close>

theorem writer_adds_up: "writer_ok (writerRun opts steps newBatchWriter)"
  by (rule run_ok) (rule new_ok)


definition example_flight :: flight where
  "example_flight =
     \<lparr>fl_units = [example_unit 7], fl_rowCount = 2, fl_started = 0, fl_attempt = 0, fl_sleep = None\<rparr>"


section \<open>Where the promises stop\<close>

text \<open>
  A unit enqueued while a flush is under way that brings the buffer to its limit finds \<open>flush\<close> busy and arms no timer: when the flush
  ends, nothing will write it until another unit arrives. After \<open>close\<close> no other unit may arrive.
\<close>

lemma late_row_waits:
  assumes "bw_flight w = Some f" "fl_sleep f = None" "bw_closing w = AwaitingSecond" "bw_closed w"
    "bw_bufferedRowCount w + 1 + length rows < wo_maxBufferedRows opts" "\<not> bw_timer w" "accepts_all db"
  shows "\<exists>w'. w' = writerRun opts [(now, StEnqueue path raw rows), (now', StAttempt db r)] w
    \<and> bw_closing w' = ClosedDown \<and> bw_buffer w' = bw_buffer w @ [\<lparr>wu_raw = Some raw, wu_normalized = rows\<rparr>]
    \<and> bw_flight w' = None \<and> \<not> bw_timer w'"
proof -
  obtain us sent where "writeUnits db (fl_units f) = (None, us, sent)"
    using assms(7) unfolding accepts_all_def by (metis prod.collapse)
  then show ?thesis using assms
    by (simp add: writerRun_def bw_enqueue_def bw_accept_def Let_def bw_flush_def attemptEnds_def flushSucceeds_def afterFlush_def tell_def)
qed

text \<open>Such a state is reached: three units, two of which arrive while \<open>close\<close> drains the writer.\<close>

definition closing_steps :: "(int \<times> writer_step) list" where
  "closing_steps =
     [(0, StEnqueue [] (example_raw 7) []), (0, StClose), (0, StEnqueue [] (example_raw 8) []), (0, StAttempt good_db 0)]"

lemma closing_state:
  "\<exists>f w. w = writerRun defaultWriterOptions closing_steps newBatchWriter \<and> bw_flight w = Some f \<and> fl_sleep f = None
     \<and> bw_closing w = AwaitingSecond \<and> bw_closed w \<and> bw_bufferedRowCount w = 0 \<and> bw_buffer w = [] \<and> \<not> bw_timer w"
proof -
  obtain us sent where "writeUnits good_db [\<lparr>wu_raw = Some (example_raw 7), wu_normalized = []\<rparr>] = (None, us, sent)"
    using good_writes by blast
  then show ?thesis
    by (simp add: closing_steps_def writerRun_def newBatchWriter_def defaultWriterOptions_def bw_enqueue_def bw_accept_def Let_def armTimer_def
        bw_close_def bw_flush_def doFlush_def attemptEnds_def flushSucceeds_def afterFlush_def tell_def)
qed

text \<open>
  C38: A run of the writer ends with \<open>close\<close> resolved and an accepted unit still in the buffer, with neither a timer nor a flush under
  way that would write it.
\<close>

theorem row_waits_after_close:
  "\<exists>steps w. w = writerRun defaultWriterOptions steps newBatchWriter \<and> bw_closing w = ClosedDown
     \<and> bw_buffer w = [\<lparr>wu_raw = Some (example_raw 9), wu_normalized = []\<rparr>] \<and> \<not> scheduled w"
proof -
  obtain f w where w: "w = writerRun defaultWriterOptions closing_steps newBatchWriter" "bw_flight w = Some f" "fl_sleep f = None"
    "bw_closing w = AwaitingSecond" "bw_closed w" "bw_bufferedRowCount w = 0" "bw_buffer w = []" "\<not> bw_timer w"
    using closing_state by blast
  have "bw_bufferedRowCount w + 1 + length ([] :: normalized_row list) < wo_maxBufferedRows defaultWriterOptions"
    by (simp add: w(6) defaultWriterOptions_def)
  from late_row_waits [OF w(2,3,4,5) this w(8) good_accepts, of 0 "[]" "example_raw 9" 0 0] obtain w' where
    w': "w' = writerRun defaultWriterOptions [(0, StEnqueue [] (example_raw 9) []), (0, StAttempt good_db 0)] w"
    "bw_closing w' = ClosedDown" "bw_buffer w' = bw_buffer w @ [\<lparr>wu_raw = Some (example_raw 9), wu_normalized = []\<rparr>]"
    "bw_flight w' = None" "\<not> bw_timer w'" by blast
  have "w' = writerRun defaultWriterOptions (closing_steps @ [(0, StEnqueue [] (example_raw 9) []), (0, StAttempt good_db 0)]) newBatchWriter"
    by (simp only: w'(1) w(1) run_append)
  moreover have "\<not> scheduled w'" using w' by (simp add: scheduled_def)
  ultimately show ?thesis using w' w(7) by fastforce
qed

end
