(* ===== verification/Replay.thy ===== *)
theory Replay
  imports Rows
begin

text \<open>
  Offline reconstruction of a book from the recorded rows: \<open>src/src/replay/replay.ts\<close>, with the snapshot rows of
  \<open>src/src/persistence/repositories/snapshots.ts\<close>.

  The answers of the queries are a parameter (\<open>replay_db\<close>), a query after the seed being a function of the seed. What the
  callbacks \<open>onPosition\<close> and \<open>onBeforeEvent\<close> are called with is kept in order; they read the book and do not change the
  replay. Instants are milliseconds and are not negative. \<open>toISOString\<close> is a parameter.
\<close>

section \<open>Rows and options\<close>

record snapshot_row =
  sw_id :: string
  sw_source :: snapshot_source
  sw_sessionId :: "string option"
  sw_streamId :: "string option"
  sw_seq :: "int option"
  sw_receivedAtMs :: int
  sw_yesBids :: "level_pair list"
  sw_noBids :: "level_pair list"
  sw_stateHash :: string

record delta_row =
  dw_id :: string
  dw_sessionId :: string
  dw_streamId :: string
  dw_seq :: int
  dw_side :: book_side
  dw_price :: string
  dw_deltaCount :: string
  dw_applied :: bool
  dw_applyError :: "string option"
  dw_receivedAtMs :: int

record capture_gap_row =
  cg_startedAt :: int
  cg_endedAt :: "int option"
  cg_reason :: string

record gap_in_window =
  gw_detectedAt :: int
  gw_sessionId :: string
  gw_streamId :: string
  gw_expectedSeq :: "string option"
  gw_receivedSeq :: "string option"
  gw_status :: string

record replay_db =
  rd_gaps :: "gap_in_window list"
  rd_captureGaps :: "capture_gap_row list"
  rd_seed :: "snapshot_row option"
  rd_firstInWindow :: "snapshot_row option"
  rd_laterSnapshots :: "snapshot_row \<Rightarrow> snapshot_row list"
  rd_deltas :: "snapshot_row \<Rightarrow> delta_row list"

record replay_options =
  rp_dec :: dec_lib
  rp_sha :: "string \<Rightarrow> string"
  rp_iso :: "int \<Rightarrow> string"
  rp_marketTicker :: string
  rp_fromMs :: int
  rp_toMs :: int
  rp_sampleMs :: int
  rp_toSeq :: "int option"
  rp_toSeqStream :: "string option"
  rp_strict :: bool

record replay_epoch =
  re_sessionId :: string
  re_streamId :: "string option"
  re_startedAtMs :: int
  re_seedSnapshotId :: string
  re_seedSource :: snapshot_source
  re_deltasApplied :: nat
  re_deltasSkipped :: nat
  re_gaps :: nat

record replay_frame =
  rf_atMs :: int
  rf_at :: string
  rf_sessionId :: string
  rf_streamId :: "string option"
  rf_seq :: "string option"
  rf_stateHash :: string
  rf_valid :: bool
  rf_yesBid :: "string option"
  rf_yesAsk :: "string option"
  rf_bidSize :: "string option"
  rf_askSize :: "string option"
  rf_spread :: "string option"
  rf_mid :: "string option"
  rf_microprice :: "string option"
  rf_yesLevels :: nat
  rf_noLevels :: nat

record replay_position =
  ro_streamId :: "string option"
  ro_seq :: "int option"
  ro_atMs :: int
  ro_book :: market_book

record replay_state =
  rs_book :: market_book
  rs_session :: string
  rs_stream :: "string option"
  rs_snaps :: "snapshot_row list"
  rs_nextSample :: "int option"
  rs_reached :: bool
  rs_stopped :: bool
  rs_frames :: "replay_frame list"
  rs_epochs :: "replay_epoch list"
  rs_total :: nat
  rs_applied :: nat
  rs_skipped :: nat
  rs_warnings :: "string list"
  rs_positions :: "replay_position list"
  rs_before :: "(int \<times> market_book) list"

record replay_result =
  rr_frames :: "replay_frame list"
  rr_epochs :: "replay_epoch list"
  rr_finalBook :: "market_book option"
  rr_totalDeltas :: nat
  rr_appliedDeltas :: nat
  rr_skippedDeltas :: nat
  rr_captureGaps :: "capture_gap_row list"
  rr_gapsInWindow :: "gap_in_window list"
  rr_warnings :: "string list"
  rr_positions :: "replay_position list"
  rr_before :: "(int \<times> market_book) list"

section \<open>Books and frames\<close>

definition snapshotLevels :: "dec_lib \<Rightarrow> snapshot_row \<Rightarrow> snapshot_levels" where
  "snapshotLevels L s = \<lparr>sl_yesBids = levelPairsIn L (sw_yesBids s), sl_noBids = levelPairsIn L (sw_noBids s)\<rparr>"

definition snapshotOpts :: "snapshot_row \<Rightarrow> snapshot_opts" where
  "snapshotOpts s =
     \<lparr>so_seq = sw_seq s, so_atMs = Some (sw_receivedAtMs s), so_sessionId = sw_sessionId s, so_streamId = sw_streamId s\<rparr>"

definition bookFromSnapshot :: "dec_lib \<Rightarrow> string \<Rightarrow> snapshot_row \<Rightarrow> market_book" where
  \<comment> \<open>the instant is given, so the clock is not read\<close>
  "bookFromSnapshot L marketTicker s =
     replaceWithSnapshot L 0 (snapshotLevels L s) (snapshotOpts s) (newMarketBook marketTicker None None)"

definition frameOf :: "replay_options \<Rightarrow> market_book \<Rightarrow> int \<Rightarrow> string \<Rightarrow> string option \<Rightarrow> replay_frame \<times> market_book" where
  "frameOf opts book atMs sessionId streamId =
     (let L = rp_dec opts; (f, book') = computeFeatures L (rp_sha opts) book; six = map_option (dl_fixed L 6)
      in (\<lparr>rf_atMs = atMs, rf_at = rp_iso opts atMs, rf_sessionId = sessionId, rf_streamId = streamId,
           rf_seq = map_option int_str (mb_lastSeq book), rf_stateHash = bf_stateHash f, rf_valid = mb_valid book,
           rf_yesBid = six (bf_yesBid f), rf_yesAsk = six (bf_yesAsk f), rf_bidSize = six (bf_bidSize f), rf_askSize = six (bf_askSize f),
           rf_spread = six (bf_spread f), rf_mid = six (bf_mid f), rf_microprice = six (bf_microprice f),
           rf_yesLevels = fst (levelCount book), rf_noLevels = snd (levelCount book)\<rparr>, book'))"

definition pushFrame :: "replay_options \<Rightarrow> int \<Rightarrow> replay_state \<Rightarrow> replay_state" where
  "pushFrame opts atMs s =
     (let (f, b) = frameOf opts (rs_book s) atMs (rs_session s) (rs_stream s)
      in s\<lparr>rs_frames := rs_frames s @ [f], rs_book := b\<rparr>)"

text \<open>The loop that emits a frame for each grid instant up to \<open>limit\<close>; the step is positive where it is called.\<close>

function sampleUpTo :: "replay_options \<Rightarrow> int \<Rightarrow> int \<Rightarrow> replay_state \<Rightarrow> replay_state" where
  "sampleUpTo opts limit t s =
     (if t \<le> limit \<and> 0 < rp_sampleMs opts
      then sampleUpTo opts limit (t + rp_sampleMs opts) ((pushFrame opts t s)\<lparr>rs_nextSample := Some (t + rp_sampleMs opts)\<rparr>)
      else s)"
  by pat_completeness auto

termination
  by (relation "measure (\<lambda>(opts, limit, t, s). nat (limit + 1 - t))") auto

declare sampleUpTo.simps [simp del]

definition emit :: "replay_options \<Rightarrow> int \<Rightarrow> replay_state \<Rightarrow> replay_state" where
  "emit opts atMs s =
     (if atMs < rp_fromMs opts then s
      else (case rs_nextSample s of
              Some t \<Rightarrow> sampleUpTo opts atMs t s
            | None \<Rightarrow> pushFrame opts atMs s))"

definition onPosition :: "string option \<Rightarrow> int option \<Rightarrow> int \<Rightarrow> replay_state \<Rightarrow> replay_state" where
  "onPosition streamId sq atMs s =
     s\<lparr>rs_positions := rs_positions s @ [\<lparr>ro_streamId = streamId, ro_seq = sq, ro_atMs = atMs, ro_book = rs_book s\<rparr>]\<rparr>"

definition onBeforeEvent :: "int \<Rightarrow> replay_state \<Rightarrow> replay_state" where
  "onBeforeEvent atMs s = s\<lparr>rs_before := rs_before s @ [(atMs, rs_book s)]\<rparr>"

definition onEpoch :: "(replay_epoch \<Rightarrow> replay_epoch) \<Rightarrow> replay_state \<Rightarrow> replay_state" where
  \<comment> \<open>\<open>epoch\<close> is the object pushed last\<close>
  "onEpoch f s = s\<lparr>rs_epochs := butlast (rs_epochs s) @ [f (last (rs_epochs s))]\<rparr>"

definition warn :: "string \<Rightarrow> replay_state \<Rightarrow> replay_state" where
  "warn msg s = s\<lparr>rs_warnings := rs_warnings s @ [msg]\<rparr>"

section \<open>Order of streams, snapshots and deltas\<close>

definition streamOrder :: "delta_row list \<Rightarrow> (string, nat) jsmap" where
  "streamOrder deltas =
     foldl (\<lambda>m d. if js_has m (dw_streamId d) then m else js_set (dw_streamId d) (length m) m) [] deltas"

definition snapshotPrecedes :: "(string, nat) jsmap \<Rightarrow> snapshot_row \<Rightarrow> delta_row \<Rightarrow> bool" where
  "snapshotPrecedes order s d =
     (if sw_receivedAtMs s \<noteq> dw_receivedAtMs d then sw_receivedAtMs s \<le> dw_receivedAtMs d
      else if sw_streamId s = Some (dw_streamId d) \<and> sw_seq s \<noteq> None then the (sw_seq s) \<le> dw_seq d
      else (case (Option.bind (sw_streamId s) (js_get order), js_get order (dw_streamId d)) of
              (Some si, Some di) \<Rightarrow> si \<le> di
            | _ \<Rightarrow> True))"

definition beforeSeed :: "(string, nat) jsmap \<Rightarrow> snapshot_row \<Rightarrow> delta_row \<Rightarrow> bool" where
  \<comment> \<open>the deltas the loop skips: at or before the position of the seed\<close>
  "beforeSeed order seed d =
     (case Option.bind (sw_streamId seed) (js_get order) of
        Some seedIndex \<Rightarrow>
          (case js_get order (dw_streamId d) of
             Some i \<Rightarrow> i < seedIndex \<or> (i = seedIndex \<and> (case sw_seq seed of None \<Rightarrow> False | Some q \<Rightarrow> dw_seq d \<le> q))
           | None \<Rightarrow> False)
      | None \<Rightarrow>
          dw_receivedAtMs d = sw_receivedAtMs seed \<and> (case sw_seq seed of None \<Rightarrow> False | Some q \<Rightarrow> dw_seq d \<le> q))"

section \<open>Snapshots\<close>

definition newEpoch :: "replay_state \<Rightarrow> snapshot_row \<Rightarrow> replay_epoch" where
  "newEpoch s snap =
     \<lparr>re_sessionId = rs_session s, re_streamId = rs_stream s, re_startedAtMs = sw_receivedAtMs snap, re_seedSnapshotId = sw_id snap,
      re_seedSource = sw_source snap, re_deltasApplied = 0, re_deltasSkipped = 0, re_gaps = 0\<rparr>"

definition enterSnapshot :: "replay_options \<Rightarrow> bool \<Rightarrow> snapshot_row \<Rightarrow> replay_state \<Rightarrow> replay_state" where
  \<comment> \<open>\<open>draining\<close>: the loop after the last delta, which counts no gap and does not call \<open>onBeforeEvent\<close>\<close>
  "enterSnapshot opts draining snap s =
     (let s = (if draining then s else onBeforeEvent (sw_receivedAtMs snap) s);
          fresh = (sw_sessionId snap \<noteq> Some (rs_session s) \<or> sw_streamId snap \<noteq> rs_stream s);
          s = s\<lparr>rs_book := bookFromSnapshot (rp_dec opts) (rp_marketTicker opts) snap,
                rs_session := (case sw_sessionId snap of None \<Rightarrow> rs_session s | Some x \<Rightarrow> x), rs_stream := sw_streamId snap\<rparr>;
          s = (if fresh \<or> sw_source snap = SessionHandoff then s\<lparr>rs_epochs := rs_epochs s @ [newEpoch s snap]\<rparr> else s)
      in if \<not> draining \<and> sw_source snap = WsRecovery then onEpoch (\<lambda>e. e\<lparr>re_gaps := re_gaps e + 1\<rparr>) s else s)"

definition reseed :: "replay_options \<Rightarrow> bool \<Rightarrow> snapshot_row \<Rightarrow> replay_state \<Rightarrow> replay_state" where
  "reseed opts draining snap s =
     (let s = emit opts (sw_receivedAtMs snap) (enterSnapshot opts draining snap s)
      in onPosition (rs_stream s) (mb_lastSeq (rs_book s)) (sw_receivedAtMs snap) s)"

fun reseedLoop :: "replay_options \<Rightarrow> (snapshot_row \<Rightarrow> bool) \<Rightarrow> snapshot_row list \<Rightarrow> replay_state \<Rightarrow> replay_state" where
  "reseedLoop opts precedes [] s = s\<lparr>rs_snaps := []\<rparr>"
| "reseedLoop opts precedes (snap # snaps) s =
     (if precedes snap then reseedLoop opts precedes snaps (reseed opts False snap s) else s\<lparr>rs_snaps := snap # snaps\<rparr>)"

fun drainSnapshots :: "replay_options \<Rightarrow> snapshot_row list \<Rightarrow> replay_state \<Rightarrow> replay_state" where
  "drainSnapshots opts [] s = s\<lparr>rs_snaps := []\<rparr>"
| "drainSnapshots opts (snap # snaps) s =
     (if rp_toMs opts < sw_receivedAtMs snap then s\<lparr>rs_snaps := snap # snaps\<rparr>
      else drainSnapshots opts snaps (reseed opts True snap s))"

section \<open>Deltas\<close>

definition deltaInputOf :: "dec_lib \<Rightarrow> delta_row \<Rightarrow> apply_delta_input" where
  "deltaInputOf L d =
     \<lparr>di_side = dw_side d, di_price = dl_of_string L (dw_price d), di_delta = dl_of_string L (dw_deltaCount d),
      di_seq = Some (dw_seq d), di_atMs = Some (dw_receivedAtMs d)\<rparr>"

definition orUnknown :: "string option \<Rightarrow> string" where
  "orUnknown e = (case e of None \<Rightarrow> ''unknown'' | Some x \<Rightarrow> x)"

text \<open>The state after a delta, and whether the loop stops there.\<close>

definition takeDelta :: "replay_options \<Rightarrow> delta_row \<Rightarrow> replay_state \<Rightarrow> bool \<times> replay_state" where
  "takeDelta opts d s =
     (let s = s\<lparr>rs_total := rs_total s + 1\<rparr>
      in if \<not> dw_applied d then
           (let s = onEpoch (\<lambda>e. e\<lparr>re_deltasSkipped := re_deltasSkipped e + 1\<rparr>) (s\<lparr>rs_skipped := rs_skipped s + 1\<rparr>)
            in (False, if rp_strict opts
                       then warn (''delta '' @ dw_id d @ '' (seq '' @ int_str (dw_seq d) @ '') was not applied when recorded: ''
                                    @ orUnknown (dw_applyError d)) s
                       else s))
         else
           (let s = onBeforeEvent (dw_receivedAtMs d) s;
                (outcome, b) = applyDelta (rp_dec opts) 0 (deltaInputOf (rp_dec opts) d) (rs_book s);
                s = s\<lparr>rs_book := b\<rparr>
            in if \<not> dr_applied outcome then
                 (rp_strict opts,
                  onEpoch (\<lambda>e. e\<lparr>re_deltasSkipped := re_deltasSkipped e + 1\<rparr>)
                    (warn (''replay diverged at delta '' @ dw_id d @ '' (seq '' @ int_str (dw_seq d) @ ''): '' @ orUnknown (dr_error outcome)) s))
               else
                 (let s = onEpoch (\<lambda>e. e\<lparr>re_deltasApplied := re_deltasApplied e + 1\<rparr>) (s\<lparr>rs_applied := rs_applied s + 1\<rparr>);
                      s = emit opts (dw_receivedAtMs d) s
                  in (False, onPosition (Some (dw_streamId d)) (Some (dw_seq d)) (dw_receivedAtMs d) s))))"

definition pastBound :: "replay_options \<Rightarrow> delta_row \<Rightarrow> bool \<Rightarrow> bool" where
  "pastBound opts d reached =
     (case rp_toSeq opts of
        None \<Rightarrow> False
      | Some bound \<Rightarrow>
          (let onTarget = (rp_toSeqStream opts = None \<or> rp_toSeqStream opts = Some (dw_streamId d))
           in (onTarget \<and> bound < dw_seq d) \<or> (\<not> onTarget \<and> reached)))"

definition reaches :: "replay_options \<Rightarrow> delta_row \<Rightarrow> bool" where
  "reaches opts d =
     (rp_toSeq opts \<noteq> None \<and> (rp_toSeqStream opts = None \<or> rp_toSeqStream opts = Some (dw_streamId d)))"

fun deltaLoop :: "replay_options \<Rightarrow> (string, nat) jsmap \<Rightarrow> snapshot_row \<Rightarrow> delta_row list \<Rightarrow> replay_state \<Rightarrow> replay_state" where
  "deltaLoop opts order seed [] s = s"
| "deltaLoop opts order seed (d # ds) s =
     (if beforeSeed order seed d then deltaLoop opts order seed ds s
      else if pastBound opts d (rs_reached s) then s\<lparr>rs_stopped := True\<rparr>
      else
        (let s = (if reaches opts d then s\<lparr>rs_reached := True\<rparr> else s);
             s = reseedLoop opts (\<lambda>snap. snapshotPrecedes order snap d) (rs_snaps s) s;
             (stop, s) = takeDelta opts d s
         in if stop then s else deltaLoop opts order seed ds s))"

section \<open>The replay\<close>

definition gapWarning :: "replay_options \<Rightarrow> capture_gap_row \<Rightarrow> string" where
  "gapWarning opts g =
     ''no coverage from '' @ rp_iso opts (cg_startedAt g) @ '' to ''
       @ (case cg_endedAt g of None \<Rightarrow> ''ongoing'' | Some t \<Rightarrow> rp_iso opts t) @ '' ('' @ cg_reason g @ ''); ''
       @ ''absence of events in that interval does not mean absence of market activity''"

definition startState :: "replay_options \<Rightarrow> snapshot_row \<Rightarrow> snapshot_row list \<Rightarrow> string list \<Rightarrow> replay_state" where
  "startState opts seed snaps warnings =
     (let session = (case sw_sessionId seed of None \<Rightarrow> [] | Some x \<Rightarrow> x)
      in \<lparr>rs_book = bookFromSnapshot (rp_dec opts) (rp_marketTicker opts) seed, rs_session = session, rs_stream = sw_streamId seed,
          rs_snaps = snaps,
          rs_nextSample = (if rp_sampleMs opts = 0 then None else Some ((rp_fromMs opts div rp_sampleMs opts) * rp_sampleMs opts)),
          rs_reached = (rp_toSeqStream opts = None), rs_stopped = False, rs_frames = [],
          rs_epochs = [\<lparr>re_sessionId = session, re_streamId = sw_streamId seed, re_startedAtMs = sw_receivedAtMs seed,
             re_seedSnapshotId = sw_id seed, re_seedSource = sw_source seed, re_deltasApplied = 0, re_deltasSkipped = 0, re_gaps = 0\<rparr>],
          rs_total = 0, rs_applied = 0, rs_skipped = 0, rs_warnings = warnings, rs_positions = [], rs_before = []\<rparr>)"

definition replayFrom :: "replay_options \<Rightarrow> snapshot_row \<Rightarrow> snapshot_row list \<Rightarrow> delta_row list \<Rightarrow> string list \<Rightarrow> replay_state" where
  "replayFrom opts seed snaps deltas warnings =
     (let s = emit opts (sw_receivedAtMs seed) (startState opts seed snaps warnings);
          s = onPosition (rs_stream s) (mb_lastSeq (rs_book s)) (sw_receivedAtMs seed) s;
          s = deltaLoop opts (streamOrder deltas) seed deltas s;
          s = (if rs_stopped s then s else drainSnapshots opts (rs_snaps s) s)
      in case rs_nextSample s of None \<Rightarrow> s | Some t \<Rightarrow> sampleUpTo opts (rp_toMs opts) t s)"

definition replay :: "replay_db \<Rightarrow> replay_options \<Rightarrow> replay_result" where
  "replay db opts =
     (let empty = \<lparr>rr_frames = [], rr_epochs = [], rr_finalBook = None, rr_totalDeltas = 0, rr_appliedDeltas = 0, rr_skippedDeltas = 0,
            rr_captureGaps = rd_captureGaps db, rr_gapsInWindow = rd_gaps db,
            rr_warnings = map (gapWarning opts) (rd_captureGaps db), rr_positions = [], rr_before = []\<rparr>;
          (seed, late) =
            (case rd_seed db of
               Some x \<Rightarrow> (Some x, [])
             | None \<Rightarrow>
                 (case rd_firstInWindow db of
                    Some x \<Rightarrow> (Some x, [''no snapshot at or before '' @ rp_iso opts (rp_fromMs opts) @ ''; replay starts at ''
                                          @ rp_iso opts (sw_receivedAtMs x) @ '' instead''])
                  | None \<Rightarrow> (None, [])))
      in case seed of
           None \<Rightarrow>
             empty\<lparr>rr_warnings := rr_warnings empty @
               [''no snapshot for '' @ rp_marketTicker opts @ '' in or before the requested window; cannot seed replay'']\<rparr>
         | Some x \<Rightarrow>
             (let s = replayFrom opts x (rd_laterSnapshots db x) (rd_deltas db x) (rr_warnings empty @ late)
              in empty\<lparr>rr_frames := rs_frames s, rr_epochs := rs_epochs s, rr_finalBook := Some (rs_book s), rr_totalDeltas := rs_total s,
                   rr_appliedDeltas := rs_applied s, rr_skippedDeltas := rs_skipped s, rr_warnings := rs_warnings s,
                   rr_positions := rs_positions s, rr_before := rs_before s\<rparr>))"

section \<open>Verification\<close>

record verify_target =
  vt_receivedAtMs :: int
  vt_stateHash :: string
  vt_seq :: int
  vt_streamId :: "string option"

record verify_mismatch =
  vm_atMs :: int
  vm_expected :: string
  vm_actual :: string

record verify_result =
  vr_checked :: nat
  vr_matched :: nat
  vr_mismatches :: "verify_mismatch list"

definition positionKey :: "string option \<Rightarrow> int \<Rightarrow> string" where
  "positionKey streamId sq = (case streamId of None \<Rightarrow> [] | Some s \<Rightarrow> s) @ '':'' @ int_str sq"

definition addTarget :: "(string, verify_target list) jsmap \<Rightarrow> verify_target \<Rightarrow> (string, verify_target list) jsmap" where
  "addTarget m t =
     (let key = positionKey (vt_streamId t) (vt_seq t)
      in js_set key ((case js_get m key of None \<Rightarrow> [] | Some ts \<Rightarrow> ts) @ [t]) m)"

definition indexTargets :: "verify_target list \<Rightarrow> (string, verify_target list) jsmap" where
  "indexTargets targets = foldl addTarget [] targets"

definition checkTarget :: "string \<Rightarrow> verify_result \<Rightarrow> verify_target \<Rightarrow> verify_result" where
  "checkTarget actual r t =
     (let r = r\<lparr>vr_checked := vr_checked r + 1\<rparr>
      in if actual = vt_stateHash t then r\<lparr>vr_matched := vr_matched r + 1\<rparr>
         else r\<lparr>vr_mismatches := vr_mismatches r @ [\<lparr>vm_atMs = vt_receivedAtMs t, vm_expected = vt_stateHash t, vm_actual = actual\<rparr>]\<rparr>)"

definition visitPosition ::
  "dec_lib \<Rightarrow> (string \<Rightarrow> string) \<Rightarrow> (string, verify_target list) jsmap \<Rightarrow> string list \<times> verify_result \<Rightarrow> replay_position \<Rightarrow> string list \<times> verify_result" where
  "visitPosition L sha byPosition sr p =
     (case sr of (seen, r) \<Rightarrow>
        (case ro_seq p of
           None \<Rightarrow> (seen, r)
         | Some sq \<Rightarrow>
             (let key = positionKey (ro_streamId p) sq
              in case js_get byPosition key of
                   None \<Rightarrow> (seen, r)
                 | Some hits \<Rightarrow>
                     if key \<in> set seen then (seen, r)
                     else (set_add key seen, foldl (checkTarget (fst (getStateHash L sha (ro_book p)))) r hits))))"

definition unreached :: "verify_result \<Rightarrow> verify_target \<Rightarrow> verify_result" where
  "unreached r t =
     r\<lparr>vr_checked := vr_checked r + 1,
       vr_mismatches := vr_mismatches r @
         [\<lparr>vm_atMs = vt_receivedAtMs t, vm_expected = vt_stateHash t, vm_actual = ''(position never reached during replay)''\<rparr>]\<rparr>"

definition verifyReplay :: "replay_db \<Rightarrow> replay_options \<Rightarrow> verify_target list \<Rightarrow> verify_result" where
  \<comment> \<open>\<open>targets\<close> is the answer of its query; the options are those of a plain replay of the window\<close>
  "verifyReplay db opts targets =
     (let start = \<lparr>vr_checked = 0, vr_matched = 0, vr_mismatches = []\<rparr>; byPosition = indexTargets targets
      in if targets = [] then start
         else
           (let (seen, r) = foldl (visitPosition (rp_dec opts) (rp_sha opts) byPosition) ([], start) (rr_positions (replay db opts))
            in foldl (\<lambda>r (key, hits). if key \<in> set seen then r else foldl unreached r hits) r byPosition))"

end
