(* ===== verification/ReplayProps.thy ===== *)
theory ReplayProps
  imports Replay
begin

text \<open>
  The acceptance test of the recorder: replaying the rows of a recording visits the states the recorder's book was in.
\<close>

section \<open>Books that agree\<close>

definition same_book :: "market_book \<Rightarrow> market_book \<Rightarrow> bool" where
  "same_book b b' =
     (mb_yesBids b = mb_yesBids b' \<and> mb_noBids b = mb_noBids b' \<and> mb_ticker b = mb_ticker b' \<and> mb_lastSeq b = mb_lastSeq b'
      \<and> mb_valid b = mb_valid b')"

definition cache_ok :: "dec_lib \<Rightarrow> (string \<Rightarrow> string) \<Rightarrow> market_book \<Rightarrow> bool" where
  "cache_ok L sha b = (mb_hashCache b = None \<or> mb_hashCache b = Some (bookHash L sha b))"

lemma same_refl [simp]: "same_book b b"
  by (simp add: same_book_def)

lemma same_hash: "same_book b b' \<Longrightarrow> bookHash L sha b = bookHash L sha b'"
  by (simp add: same_book_def bookHash_def yesBidLevels_def noBidLevels_def)

lemma same_side: "same_book b b' \<Longrightarrow> sideLadder side b = sideLadder side b'"
  by (cases side) (simp_all add: same_book_def)

lemma hash_value: "cache_ok L sha b \<Longrightarrow> fst (getStateHash L sha b) = bookHash L sha b"
  by (auto simp: cache_ok_def getStateHash_def Let_def)

lemma hash_keeps: "cache_ok L sha b \<Longrightarrow> same_book (snd (getStateHash L sha b)) b \<and> cache_ok L sha (snd (getStateHash L sha b))"
  by (auto simp: cache_ok_def getStateHash_def Let_def same_book_def bookHash_def yesBidLevels_def noBidLevels_def split: option.splits)

lemma same_trans: "same_book a b \<Longrightarrow> same_book b c \<Longrightarrow> same_book a c"
  by (simp add: same_book_def)

lemma features_book: "snd (computeFeatures L sha b) = snd (getStateHash L sha b)"
  by (simp add: computeFeatures_def Let_def case_prod_unfold)

lemma same_apply:
  assumes "same_book b b'"
  shows "same_book (snd (applyDelta L now d b)) (snd (applyDelta L now' d b'))
    \<and> dr_applied (fst (applyDelta L now d b)) = dr_applied (fst (applyDelta L now' d b'))"
  using assms
  by (cases "di_side d"; cases "di_seq d") (auto simp: applyDelta_def Let_def same_book_def invalidate_def trimJournal_def)

lemma apply_cache: "cache_ok L sha b \<Longrightarrow> cache_ok L sha (snd (applyDelta L now d b))"
  by (auto simp: applyDelta_def Let_def cache_ok_def invalidate_def trimJournal_def bookHash_def yesBidLevels_def noBidLevels_def)

definition same_levels :: "market_book \<Rightarrow> market_book \<Rightarrow> bool" where
  "same_levels b b' = (mb_yesBids b = mb_yesBids b' \<and> mb_noBids b = mb_noBids b' \<and> mb_ticker b = mb_ticker b')"

lemma setLevels_same:
  "same_levels b b' \<Longrightarrow>
     same_levels (foldl (\<lambda>b (p, z). setLevel L side p z b) b xs) (foldl (\<lambda>b (p, z). setLevel L side p z b) b' xs)"
proof (induction xs arbitrary: b b')
  case (Cons x xs)
  obtain p z where x: "x = (p, z)" by (cases x)
  have "same_levels (setLevel L side p z b) (setLevel L side p z b')"
    using Cons.prems by (cases side) (simp_all add: setLevel_def Let_def same_levels_def)
  from Cons.IH [OF this] show ?case by (simp add: x)
qed simp

lemma same_replace:
  assumes "mb_ticker b = mb_ticker b'"
  shows "same_book (replaceWithSnapshot L now sl opts b) (replaceWithSnapshot L now' sl opts b')"
proof -
  let ?f = "\<lambda>b. foldl (\<lambda>b (p, z). setLevel L No p z b)
     (foldl (\<lambda>b (p, z). setLevel L Yes p z b) (b\<lparr>mb_yesBids := [], mb_noBids := []\<rparr>) (sl_yesBids sl)) (sl_noBids sl)"
  have "same_levels (?f b) (?f b')"
    by (intro setLevels_same) (simp add: same_levels_def assms)
  then show ?thesis by (simp add: replaceWithSnapshot_def Let_def same_levels_def same_book_def)
qed

section \<open>Recordings\<close>

text \<open>What the book of the recorder went through, in order, each event with the row that was written of it.\<close>

datatype recorded = RecSnap snapshot_row | RecDelta delta_row

fun recMs :: "recorded \<Rightarrow> int" where
  "recMs (RecSnap s) = sw_receivedAtMs s"
| "recMs (RecDelta d) = dw_receivedAtMs d"

fun recStream :: "recorded \<Rightarrow> string option" where
  "recStream (RecSnap s) = sw_streamId s"
| "recStream (RecDelta d) = Some (dw_streamId d)"

fun recSeq :: "recorded \<Rightarrow> int option" where
  "recSeq (RecSnap s) = sw_seq s"
| "recSeq (RecDelta d) = Some (dw_seq d)"

fun recordStep :: "dec_lib \<Rightarrow> int \<Rightarrow> market_book \<Rightarrow> recorded \<Rightarrow> market_book" where
  "recordStep L now b (RecSnap s) = replaceWithSnapshot L now (snapshotLevels L s) (snapshotOpts s) b"
| "recordStep L now b (RecDelta d) = (if dw_applied d then snd (applyDelta L now (deltaInputOf L d) b) else b)"

fun changes :: "dec_lib \<Rightarrow> market_book \<Rightarrow> recorded \<Rightarrow> bool" where
  "changes L b (RecSnap s) = True"
| "changes L b (RecDelta d) = (dw_applied d \<and> dr_applied (fst (applyDelta L 0 (deltaInputOf L d) b)))"

text \<open>The position and the state hash after each event that changed the book.\<close>

fun retrace ::
  "dec_lib \<Rightarrow> (string \<Rightarrow> string) \<Rightarrow> int \<Rightarrow> market_book \<Rightarrow> recorded list \<Rightarrow> (string option \<times> int option \<times> int \<times> string) list" where
  "retrace L sha now b [] = []"
| "retrace L sha now b (e # es) =
     (let b' = recordStep L now b e
      in (if changes L b e then [(recStream e, recSeq e, recMs e, bookHash L sha b')] else []) @ retrace L sha now b' es)"

definition snapsOf :: "recorded list \<Rightarrow> snapshot_row list" where
  "snapsOf h = concat (map (\<lambda>e. case e of RecSnap s \<Rightarrow> [s] | RecDelta d \<Rightarrow> []) h)"

definition deltasOf :: "recorded list \<Rightarrow> delta_row list" where
  "deltasOf h = concat (map (\<lambda>e. case e of RecSnap s \<Rightarrow> [] | RecDelta d \<Rightarrow> [d]) h)"

lemma rows_simps [simp]:
  "snapsOf [] = []" "deltasOf [] = []" "snapsOf (RecSnap s # h) = s # snapsOf h" "deltasOf (RecSnap s # h) = deltasOf h"
  "snapsOf (RecDelta d # h) = snapsOf h" "deltasOf (RecDelta d # h) = d # deltasOf h"
  by (simp_all add: snapsOf_def deltasOf_def)

definition posView :: "dec_lib \<Rightarrow> (string \<Rightarrow> string) \<Rightarrow> replay_position \<Rightarrow> string option \<times> int option \<times> int \<times> string" where
  "posView L sha p = (ro_streamId p, ro_seq p, ro_atMs p, fst (getStateHash L sha (ro_book p)))"

section \<open>Emitting frames does not move the replay\<close>

definition book_agrees :: "replay_options \<Rightarrow> replay_state \<Rightarrow> market_book \<Rightarrow> bool" where
  "book_agrees opts s b = (same_book (rs_book s) b \<and> cache_ok (rp_dec opts) (rp_sha opts) (rs_book s))"

definition standstill :: "replay_state \<Rightarrow> replay_state \<Rightarrow> bool" where
  \<comment> \<open>what emitting a frame leaves alone\<close>
  "standstill s s' =
     (rs_positions s' = rs_positions s \<and> rs_snaps s' = rs_snaps s \<and> rs_stream s' = rs_stream s \<and> rs_stopped s' = rs_stopped s
      \<and> rs_reached s' = rs_reached s)"

lemma standstill_refl [simp]: "standstill s s"
  by (simp add: standstill_def)

lemma standstill_trans: "standstill a b \<Longrightarrow> standstill b c \<Longrightarrow> standstill a c"
  by (simp add: standstill_def)

lemma push_keeps: "book_agrees opts s b \<Longrightarrow> book_agrees opts (pushFrame opts t s) b \<and> standstill s (pushFrame opts t s)"
  using hash_keeps [of "rp_dec opts" "rp_sha opts" "rs_book s"]
  by (auto simp: book_agrees_def standstill_def pushFrame_def frameOf_def Let_def features_book case_prod_unfold intro: same_trans)

lemma sample_keeps:
  "book_agrees opts s b \<Longrightarrow> book_agrees opts (sampleUpTo opts limit t s) b \<and> standstill s (sampleUpTo opts limit t s)"
proof (induction opts limit t s rule: sampleUpTo.induct)
  case (1 opts limit t s)
  show ?case
  proof (cases "t \<le> limit \<and> 0 < rp_sampleMs opts")
    case True
    let ?s = "(pushFrame opts t s)\<lparr>rs_nextSample := Some (t + rp_sampleMs opts)\<rparr>"
    have "book_agrees opts ?s b" "standstill s ?s"
      using push_keeps [OF 1(2), of t] by (simp_all add: book_agrees_def standstill_def)
    with 1(1) [OF True] True show ?thesis by (subst (1 2) sampleUpTo.simps) (auto intro: standstill_trans)
  next
    case False
    then show ?thesis using 1(2) by (subst (1 2) sampleUpTo.simps) auto
  qed
qed

lemma emit_keeps: "book_agrees opts s b \<Longrightarrow> book_agrees opts (emit opts t s) b \<and> standstill s (emit opts t s)"
  using sample_keeps push_keeps by (simp add: emit_def split: option.split)

section \<open>The pending snapshots are not read by an event\<close>

lemma push_snaps: "pushFrame opts t (s\<lparr>rs_snaps := x\<rparr>) = (pushFrame opts t s)\<lparr>rs_snaps := x\<rparr>"
  by (simp add: pushFrame_def Let_def case_prod_unfold)

lemma sample_snaps: "sampleUpTo opts limit t (s\<lparr>rs_snaps := x\<rparr>) = (sampleUpTo opts limit t s)\<lparr>rs_snaps := x\<rparr>"
proof (induction opts limit t s rule: sampleUpTo.induct)
  case (1 opts limit t s)
  show ?case
  proof (cases "t \<le> limit \<and> 0 < rp_sampleMs opts")
    case True
    have "(pushFrame opts t (s\<lparr>rs_snaps := x\<rparr>))\<lparr>rs_nextSample := n\<rparr> = ((pushFrame opts t s)\<lparr>rs_nextSample := n\<rparr>)\<lparr>rs_snaps := x\<rparr>" for n
      by (simp add: push_snaps)
    with 1 [OF True] True show ?thesis by (subst (1 2) sampleUpTo.simps) simp
  next
    case False
    then show ?thesis by (subst (1 2) sampleUpTo.simps) auto
  qed
qed

lemma emit_snaps: "emit opts t (s\<lparr>rs_snaps := x\<rparr>) = (emit opts t s)\<lparr>rs_snaps := x\<rparr>"
  by (simp add: emit_def push_snaps sample_snaps split: option.split)

lemma enter_snaps: "enterSnapshot opts dr sn (s\<lparr>rs_snaps := x\<rparr>) = (enterSnapshot opts dr sn s)\<lparr>rs_snaps := x\<rparr>"
  by (cases dr; cases "sw_sessionId sn") (auto simp: enterSnapshot_def Let_def onBeforeEvent_def onEpoch_def newEpoch_def)

lemma reseed_snaps: "reseed opts dr sn (s\<lparr>rs_snaps := x\<rparr>) = (reseed opts dr sn s)\<lparr>rs_snaps := x\<rparr>"
  by (simp add: reseed_def enter_snaps emit_snaps Let_def onPosition_def)

lemma reseedLoop_snaps: "reseedLoop opts P snaps (s\<lparr>rs_snaps := x\<rparr>) = reseedLoop opts P snaps s"
  by (induction snaps arbitrary: s) (simp_all add: reseed_snaps)

lemma drain_snaps: "drainSnapshots opts snaps (s\<lparr>rs_snaps := x\<rparr>) = drainSnapshots opts snaps s"
  by (induction snaps arbitrary: s) (simp_all add: reseed_snaps)

section \<open>One event of the recording, one event of the replay\<close>

lemma from_snapshot:
  assumes "mb_ticker b = rp_marketTicker opts"
  shows "same_book (bookFromSnapshot (rp_dec opts) (rp_marketTicker opts) sn) (recordStep (rp_dec opts) now b (RecSnap sn))
    \<and> cache_ok (rp_dec opts) (rp_sha opts) (bookFromSnapshot (rp_dec opts) (rp_marketTicker opts) sn)"
  using same_replace [of "newMarketBook (rp_marketTicker opts) None None" b] assms
  by (simp add: bookFromSnapshot_def newMarketBook_def) (simp add: cache_ok_def replaceWithSnapshot_def Let_def)

lemma snapshot_lastSeq [simp]: "mb_lastSeq (recordStep L now b (RecSnap sn)) = sw_seq sn"
  by (simp add: replaceWithSnapshot_def Let_def snapshotOpts_def)

lemma position_view:
  assumes "book_agrees opts s b"
  shows "map (posView (rp_dec opts) (rp_sha opts)) (rs_positions (onPosition st sq t s)) =
    map (posView (rp_dec opts) (rp_sha opts)) (rs_positions s) @ [(st, sq, t, bookHash (rp_dec opts) (rp_sha opts) b)]"
  using assms same_hash hash_value by (auto simp: onPosition_def posView_def book_agrees_def)

lemma reseed_step:
  assumes "mb_ticker b = rp_marketTicker opts"
  shows "book_agrees opts (reseed opts dr sn s) (recordStep (rp_dec opts) now b (RecSnap sn))
    \<and> map (posView (rp_dec opts) (rp_sha opts)) (rs_positions (reseed opts dr sn s)) =
        map (posView (rp_dec opts) (rp_sha opts)) (rs_positions s) @
          [(sw_streamId sn, sw_seq sn, sw_receivedAtMs sn, bookHash (rp_dec opts) (rp_sha opts) (recordStep (rp_dec opts) now b (RecSnap sn)))]
    \<and> rs_stopped (reseed opts dr sn s) = rs_stopped s"
proof -
  let ?b = "recordStep (rp_dec opts) now b (RecSnap sn)"
  define u where "u = enterSnapshot opts dr sn s"
  define v where "v = emit opts (sw_receivedAtMs sn) u"
  have r: "reseed opts dr sn s = onPosition (rs_stream v) (mb_lastSeq (rs_book v)) (sw_receivedAtMs sn) v"
    by (simp add: reseed_def u_def v_def Let_def)
  have "rs_book u = bookFromSnapshot (rp_dec opts) (rp_marketTicker opts) sn"
    by (simp add: u_def enterSnapshot_def Let_def onEpoch_def)
  then have u: "book_agrees opts u ?b" using from_snapshot [OF assms] by (simp add: book_agrees_def)
  have us: "rs_positions u = rs_positions s" "rs_stream u = sw_streamId sn" "rs_stopped u = rs_stopped s"
    by (simp_all add: u_def enterSnapshot_def Let_def onEpoch_def onBeforeEvent_def)
  have v: "book_agrees opts v ?b" "rs_positions v = rs_positions s" "rs_stream v = sw_streamId sn" "rs_stopped v = rs_stopped s"
    using emit_keeps [OF u, of "sw_receivedAtMs sn"] us by (simp_all add: v_def standstill_def)
  then have "mb_lastSeq (rs_book v) = sw_seq sn" by (simp add: book_agrees_def same_book_def replaceWithSnapshot_def Let_def snapshotOpts_def)
  then show ?thesis using position_view [OF v(1), of "sw_streamId sn" "sw_seq sn" "sw_receivedAtMs sn"] v
    by (simp add: r) (simp add: onPosition_def book_agrees_def)
qed

lemma delta_step:
  assumes agrees: "book_agrees opts s b" and strict: "\<not> rp_strict opts"
  shows "\<not> fst (takeDelta opts d s) \<and> book_agrees opts (snd (takeDelta opts d s)) (recordStep (rp_dec opts) now b (RecDelta d))
    \<and> map (posView (rp_dec opts) (rp_sha opts)) (rs_positions (snd (takeDelta opts d s))) =
        map (posView (rp_dec opts) (rp_sha opts)) (rs_positions s) @
          retrace (rp_dec opts) (rp_sha opts) now b [RecDelta d]
    \<and> rs_stopped (snd (takeDelta opts d s)) = rs_stopped s \<and> rs_snaps (snd (takeDelta opts d s)) = rs_snaps s"
proof (cases "dw_applied d")
  case False
  then show ?thesis using assms
    by (simp add: takeDelta_def Let_def onEpoch_def book_agrees_def)
next
  case True
  let ?L = "rp_dec opts" and ?b = "recordStep (rp_dec opts) now b (RecDelta d)"
  define out where "out = applyDelta ?L 0 (deltaInputOf ?L d) (rs_book s)"
  have same: "same_book (snd out) ?b" "dr_applied (fst out) = dr_applied (fst (applyDelta ?L 0 (deltaInputOf ?L d) b))"
    using same_apply [of "rs_book s" b ?L 0 "deltaInputOf ?L d"] agrees True
    by (simp_all add: out_def book_agrees_def)
  have cache: "cache_ok ?L (rp_sha opts) (snd out)" using agrees apply_cache by (simp add: out_def book_agrees_def)
  define u where "u = (onBeforeEvent (dw_receivedAtMs d) (s\<lparr>rs_total := rs_total s + 1\<rparr>))\<lparr>rs_book := snd out\<rparr>"
  have u: "rs_positions u = rs_positions s" "rs_stopped u = rs_stopped s" "rs_snaps u = rs_snaps s" "rs_book u = snd out"
    by (simp_all add: u_def onBeforeEvent_def)
  have td: "takeDelta opts d s =
      (if \<not> dr_applied (fst out) then
         (rp_strict opts, onEpoch (\<lambda>e. e\<lparr>re_deltasSkipped := re_deltasSkipped e + 1\<rparr>)
            (warn (''replay diverged at delta '' @ dw_id d @ '' (seq '' @ int_str (dw_seq d) @ ''): '' @ orUnknown (dr_error (fst out))) u))
       else (False, onPosition (Some (dw_streamId d)) (Some (dw_seq d)) (dw_receivedAtMs d)
               (emit opts (dw_receivedAtMs d) (onEpoch (\<lambda>e. e\<lparr>re_deltasApplied := re_deltasApplied e + 1\<rparr>) (u\<lparr>rs_applied := rs_applied u + 1\<rparr>)))))"
    using True by (simp add: takeDelta_def Let_def u_def out_def onBeforeEvent_def case_prod_unfold)
  show ?thesis
  proof (cases "dr_applied (fst out)")
    case False
    then show ?thesis using strict same cache u True
      by (simp add: td) (simp add: onEpoch_def warn_def book_agrees_def)
  next
    case applied: True
    define v where "v = onEpoch (\<lambda>e. e\<lparr>re_deltasApplied := re_deltasApplied e + 1\<rparr>) (u\<lparr>rs_applied := rs_applied u + 1\<rparr>)"
    have v: "book_agrees opts v ?b" "rs_positions v = rs_positions s" "rs_stopped v = rs_stopped s" "rs_snaps v = rs_snaps s"
      using u same cache by (simp_all add: v_def onEpoch_def book_agrees_def)
    define w where "w = emit opts (dw_receivedAtMs d) v"
    have w: "book_agrees opts w ?b" "rs_positions w = rs_positions s" "rs_stopped w = rs_stopped s" "rs_snaps w = rs_snaps s"
      using emit_keeps [OF v(1), of "dw_receivedAtMs d"] v by (simp_all add: w_def standstill_def)
    have "takeDelta opts d s = (False, onPosition (Some (dw_streamId d)) (Some (dw_seq d)) (dw_receivedAtMs d) w)"
      using applied by (simp add: td v_def w_def)
    moreover have "retrace ?L (rp_sha opts) now b [RecDelta d] =
        [(Some (dw_streamId d), Some (dw_seq d), dw_receivedAtMs d, bookHash ?L (rp_sha opts) ?b)]"
      using applied same(2) True by (simp add: Let_def)
    ultimately show ?thesis using position_view [OF w(1)] w by (simp add: onPosition_def book_agrees_def)
  qed
qed

section \<open>The order of the rows\<close>

fun in_order :: "(string, nat) jsmap \<Rightarrow> recorded list \<Rightarrow> bool" where
  \<comment> \<open>the comparisons of the replay decide as the events were\<close>
  "in_order order [] = True"
| "in_order order (RecSnap s # h) = (list_all (snapshotPrecedes order s) (deltasOf h) \<and> in_order order h)"
| "in_order order (RecDelta d # h) = (list_all (\<lambda>s. \<not> snapshotPrecedes order s d) (snapsOf h) \<and> in_order order h)"

definition pass :: "replay_options \<Rightarrow> (string, nat) jsmap \<Rightarrow> snapshot_row \<Rightarrow> delta_row list \<Rightarrow> replay_state \<Rightarrow> replay_state" where
  "pass opts order seed deltas s =
     (let s = deltaLoop opts order seed deltas s in if rs_stopped s then s else drainSnapshots opts (rs_snaps s) s)"

lemma pass_snapshot:
  assumes "rs_snaps s = sn # snaps" "\<not> rs_stopped s" "list_all (snapshotPrecedes order sn) deltas"
    "list_all (\<lambda>d. \<not> beforeSeed order seed d) deltas" "rp_toSeq opts = None" "sw_receivedAtMs sn \<le> rp_toMs opts"
  shows "\<exists>dr. pass opts order seed deltas s = pass opts order seed deltas ((reseed opts dr sn s)\<lparr>rs_snaps := snaps\<rparr>)"
proof (cases deltas)
  case Nil
  have st: "rs_stopped (reseed opts True sn s) = rs_stopped s"
    using reseed_step [of "newMarketBook (rp_marketTicker opts) None None" opts True sn s 0] by (simp add: newMarketBook_def)
  have "pass opts order seed deltas s = pass opts order seed deltas ((reseed opts True sn s)\<lparr>rs_snaps := snaps\<rparr>)"
    using assms st by (simp add: Nil pass_def Let_def drain_snaps)
  then show ?thesis by blast
next
  case (Cons d ds)
  have "deltaLoop opts order seed (d # ds) s = deltaLoop opts order seed (d # ds) ((reseed opts False sn s)\<lparr>rs_snaps := snaps\<rparr>)"
    using assms by (simp add: Cons pastBound_def reaches_def reseedLoop_snaps)
  then have "pass opts order seed deltas s = pass opts order seed deltas ((reseed opts False sn s)\<lparr>rs_snaps := snaps\<rparr>)"
    unfolding pass_def Cons by (simp only:)
  then show ?thesis by blast
qed

lemma reseedLoop_none: "list_all (\<lambda>sn. \<not> P sn) (rs_snaps s) \<Longrightarrow> reseedLoop opts P (rs_snaps s) s = s"
  by (cases "rs_snaps s") simp_all

lemma pass_delta:
  assumes "list_all (\<lambda>sn. \<not> snapshotPrecedes order sn d) (rs_snaps s)" "\<not> beforeSeed order seed d" "rp_toSeq opts = None"
    "\<not> fst (takeDelta opts d s)"
  shows "pass opts order seed (d # ds) s = pass opts order seed ds (snd (takeDelta opts d s))"
  using assms reseedLoop_none [OF assms(1), of opts]
  by (simp add: pass_def pastBound_def reaches_def case_prod_unfold)

lemma ticker_step [simp]: "mb_ticker (recordStep L now b e) = mb_ticker b"
proof -
  have "mb_ticker (foldl (\<lambda>b (p, z). setLevel L side p z b) b xs) = mb_ticker b" for side xs b
  proof (induction xs arbitrary: b)
    case (Cons x xs)
    moreover have "mb_ticker (setLevel L side p z b) = mb_ticker b" for p z b by (cases side) (simp_all add: setLevel_def Let_def)
    ultimately show ?case by (simp add: case_prod_unfold)
  qed simp
  then show ?thesis
    by (cases e) (auto simp: replaceWithSnapshot_def Let_def applyDelta_def invalidate_def trimJournal_def)
qed

lemma pass_retraces:
  assumes "in_order order h" "list_all (\<lambda>d. \<not> beforeSeed order seed d) (deltasOf h)" "rp_toSeq opts = None" "\<not> rp_strict opts"
    "list_all (\<lambda>sn. sw_receivedAtMs sn \<le> rp_toMs opts) (snapsOf h)" "rs_snaps s = snapsOf h" "\<not> rs_stopped s" "book_agrees opts s b"
    "mb_ticker b = rp_marketTicker opts"
  shows "map (posView (rp_dec opts) (rp_sha opts)) (rs_positions (pass opts order seed (deltasOf h) s)) =
      map (posView (rp_dec opts) (rp_sha opts)) (rs_positions s) @ retrace (rp_dec opts) (rp_sha opts) now b h
    \<and> book_agrees opts (pass opts order seed (deltasOf h) s) (foldl (recordStep (rp_dec opts) now) b h)"
  using assms
proof (induction h arbitrary: s b)
  case Nil
  then show ?case by (simp add: pass_def book_agrees_def)
next
  case (Cons e h)
  show ?case
  proof (cases e)
    case (RecSnap sn)
    obtain dr where p: "pass opts order seed (deltasOf h) s = pass opts order seed (deltasOf h) ((reseed opts dr sn s)\<lparr>rs_snaps := snapsOf h\<rparr>)"
      using pass_snapshot [of s sn "snapsOf h" order "deltasOf h" seed opts] Cons.prems by (auto simp: RecSnap)
    let ?s = "(reseed opts dr sn s)\<lparr>rs_snaps := snapsOf h\<rparr>" and ?b = "recordStep (rp_dec opts) now b (RecSnap sn)"
    have r: "book_agrees opts ?s ?b" "\<not> rs_stopped ?s" "map (posView (rp_dec opts) (rp_sha opts)) (rs_positions ?s) =
        map (posView (rp_dec opts) (rp_sha opts)) (rs_positions s) @
          [(sw_streamId sn, sw_seq sn, sw_receivedAtMs sn, bookHash (rp_dec opts) (rp_sha opts) ?b)]"
      using reseed_step [OF Cons.prems(9), of dr sn s now] Cons.prems(7) by (simp_all add: book_agrees_def)
    have "mb_ticker ?b = rp_marketTicker opts" using Cons.prems(9) by (simp only: ticker_step)
    from Cons.IH [OF _ _ Cons.prems(3,4) _ _ r(2,1) this] Cons.prems(1,2,5) r(3)
    show ?thesis by (simp add: RecSnap p Let_def)
  next
    case (RecDelta d)
    let ?s = "snd (takeDelta opts d s)" and ?b = "recordStep (rp_dec opts) now b (RecDelta d)"
    note ds = delta_step [OF Cons.prems(8,4), of d now]
    have p: "pass opts order seed (deltasOf (e # h)) s = pass opts order seed (deltasOf h) ?s"
      unfolding RecDelta rows_simps using Cons.prems(1,2,6) ds by (intro pass_delta Cons.prems(3)) (simp_all add: RecDelta)
    have "mb_ticker ?b = rp_marketTicker opts" using Cons.prems(9) by (simp only: ticker_step)
    from Cons.IH [OF _ _ Cons.prems(3,4) _ _ _ _ this, of ?s] Cons.prems(1,2,5,6,7) ds
    show ?thesis unfolding p by (simp add: RecDelta Let_def)
  qed
qed

definition follows :: "(string, nat) jsmap \<Rightarrow> recorded \<Rightarrow> recorded \<Rightarrow> bool" where
  \<comment> \<open>times do not run back, a stream is followed only by streams that began later, and within a stream the sequence number rises\<close>
  "follows order a b =
     (recMs a \<le> recMs b \<and>
      (if recStream a = recStream b
       then (case (recSeq a, recSeq b) of (Some x, Some y) \<Rightarrow> x < y | _ \<Rightarrow> False)
       else (case (Option.bind (recStream a) (js_get order), Option.bind (recStream b) (js_get order)) of
               (Some i, Some j) \<Rightarrow> i < j
             | _ \<Rightarrow> False)))"

lemma delta_in_rows: "d \<in> set (deltasOf h) \<Longrightarrow> RecDelta d \<in> set h"
  by (auto simp: deltasOf_def split: recorded.splits)

lemma snap_in_rows: "sn \<in> set (snapsOf h) \<Longrightarrow> RecSnap sn \<in> set h"
  by (auto simp: snapsOf_def split: recorded.splits)

lemma follows_precedes: "follows order (RecSnap sn) (RecDelta d) \<Longrightarrow> snapshotPrecedes order sn d"
  by (auto simp: follows_def snapshotPrecedes_def split: option.splits if_splits)

lemma follows_not_precedes: "follows order (RecDelta d) (RecSnap sn) \<Longrightarrow> \<not> snapshotPrecedes order sn d"
  by (auto simp: follows_def snapshotPrecedes_def split: option.splits if_splits)

lemma sorted_in_order: "sorted_wrt (follows order) h \<Longrightarrow> in_order order h"
proof (induction h)
  case (Cons e h)
  then show ?case
    by (cases e) (auto simp: list_all_iff dest!: delta_in_rows snap_in_rows intro: follows_precedes dest: follows_not_precedes)
qed simp

lemma follows_before_seed: "follows order (RecDelta d) (RecSnap seed) \<Longrightarrow> js_has order (dw_streamId d) \<Longrightarrow> beforeSeed order seed d"
  by (cases "sw_streamId seed") (auto simp: follows_def beforeSeed_def js_has_def split: option.splits if_splits)

lemma follows_after_seed: "follows order (RecSnap seed) (RecDelta d) \<Longrightarrow> js_has order (dw_streamId d) \<Longrightarrow> \<not> beforeSeed order seed d"
  by (auto simp: follows_def beforeSeed_def js_has_def split: option.splits if_splits)

lemma streamOrder_has: "d \<in> set ds \<Longrightarrow> js_has (streamOrder ds) (dw_streamId d)"
proof -
  have "js_has m s \<Longrightarrow> js_has (foldl (\<lambda>m d. if js_has m (dw_streamId d) then m else js_set (dw_streamId d) (length m) m) m ds) s" for m s
    by (induction ds arbitrary: m) (auto simp: js_has_def)
  moreover have "d \<in> set ds \<Longrightarrow>
      js_has (foldl (\<lambda>m d. if js_has m (dw_streamId d) then m else js_set (dw_streamId d) (length m) m) m ds) (dw_streamId d)" for m
  proof (induction ds arbitrary: m)
    case (Cons x ds)
    have stays: "js_has m s \<Longrightarrow> js_has (foldl (\<lambda>m d. if js_has m (dw_streamId d) then m else js_set (dw_streamId d) (length m) m) m ds) s" for m s
      by (induction ds arbitrary: m) (auto simp: js_has_def)
    show ?case
    proof (cases "x = d")
      case True
      then show ?thesis by (auto intro!: stays) (simp add: js_has_def)
    next
      case False
      then show ?thesis using Cons by simp
    qed
  qed simp
  ultimately show "d \<in> set ds \<Longrightarrow> ?thesis" by (simp add: streamOrder_def)
qed

lemma pass_skips: "list_all (beforeSeed order seed) pre \<Longrightarrow> pass opts order seed (pre @ ds) s = pass opts order seed ds s"
  by (induction pre) (simp_all add: pass_def)

lemma replayFrom_pass:
  "replayFrom opts seed snaps deltas warnings =
     (let s = emit opts (sw_receivedAtMs seed) (startState opts seed snaps warnings);
          s = pass opts (streamOrder deltas) seed deltas (onPosition (rs_stream s) (mb_lastSeq (rs_book s)) (sw_receivedAtMs seed) s)
      in case rs_nextSample s of None \<Rightarrow> s | Some t \<Rightarrow> sampleUpTo opts (rp_toMs opts) t s)"
  unfolding replayFrom_def pass_def Let_def by (rule refl)

lemma samples_after: "map (posView L sha) (rs_positions (case rs_nextSample s of None \<Rightarrow> s | Some t \<Rightarrow> sampleUpTo opts limit t s)) =
    map (posView L sha) (rs_positions s)
  \<and> (book_agrees opts s b \<longrightarrow> book_agrees opts (case rs_nextSample s of None \<Rightarrow> s | Some t \<Rightarrow> sampleUpTo opts limit t s) b)"
  if "book_agrees opts s b"
  using sample_keeps [OF that] that by (simp add: standstill_def split: option.split)

lemma replay_run:
  assumes db: "rd_seed db = Some seed" "rd_deltas db seed = pre @ deltasOf h" "rd_laterSnapshots db seed = snapsOf h"
    and order: "sorted_wrt (follows (streamOrder (pre @ deltasOf h))) (map RecDelta pre @ RecSnap seed # h)"
    and opts: "rp_toSeq opts = None" "\<not> rp_strict opts" "list_all (\<lambda>sn. sw_receivedAtMs sn \<le> rp_toMs opts) (snapsOf h)"
    and b: "mb_ticker b = rp_marketTicker opts"
  shows "map (posView (rp_dec opts) (rp_sha opts)) (rr_positions (replay db opts)) =
      retrace (rp_dec opts) (rp_sha opts) now b (RecSnap seed # h)
    \<and> (\<exists>b'. rr_finalBook (replay db opts) = Some b' \<and> same_book b' (foldl (recordStep (rp_dec opts) now) b (RecSnap seed # h)))"
proof -
  let ?o = "streamOrder (pre @ deltasOf h)" and ?L = "rp_dec opts" and ?b = "recordStep (rp_dec opts) now b (RecSnap seed)"
    and ?V = "posView (rp_dec opts) (rp_sha opts)"
  have sorted: "sorted_wrt (follows ?o) h" using order by (simp add: sorted_wrt_append)
  have pre: "list_all (beforeSeed ?o seed) pre"
    using order streamOrder_has [of _ "pre @ deltasOf h"] by (auto simp: list_all_iff sorted_wrt_append intro!: follows_before_seed)
  have post: "list_all (\<lambda>d. \<not> beforeSeed ?o seed d) (deltasOf h)"
    unfolding list_all_iff
  proof
    fix d assume d: "d \<in> set (deltasOf h)"
    then have "js_has ?o (dw_streamId d)" by (intro streamOrder_has) simp
    moreover have "follows ?o (RecSnap seed) (RecDelta d)" using order delta_in_rows [OF d] by (simp add: sorted_wrt_append)
    ultimately show "\<not> beforeSeed ?o seed d" by (intro follows_after_seed)
  qed
  define s0 where "s0 = startState opts seed (snapsOf h) (map (gapWarning opts) (rd_captureGaps db))"
  have s0: "book_agrees opts s0 ?b" "rs_positions s0 = []" "rs_stream s0 = sw_streamId seed" "\<not> rs_stopped s0" "rs_snaps s0 = snapsOf h"
    using from_snapshot [OF b] by (simp_all add: s0_def startState_def Let_def book_agrees_def)
  define s1 where "s1 = emit opts (sw_receivedAtMs seed) s0"
  have s1: "book_agrees opts s1 ?b" "rs_positions s1 = []" "rs_stream s1 = sw_streamId seed" "\<not> rs_stopped s1" "rs_snaps s1 = snapsOf h"
    using emit_keeps [OF s0(1), of "sw_receivedAtMs seed"] s0 by (simp_all add: s1_def standstill_def)
  have seq: "mb_lastSeq (rs_book s1) = sw_seq seed"
    using s1(1) by (simp add: book_agrees_def same_book_def replaceWithSnapshot_def Let_def snapshotOpts_def)
  define s2 where "s2 = onPosition (sw_streamId seed) (sw_seq seed) (sw_receivedAtMs seed) s1"
  have s2: "book_agrees opts s2 ?b" "\<not> rs_stopped s2" "rs_snaps s2 = snapsOf h"
    "map ?V (rs_positions s2) = [(sw_streamId seed, sw_seq seed, sw_receivedAtMs seed, bookHash ?L (rp_sha opts) ?b)]"
    using position_view [OF s1(1)] s1 by (simp_all add: s2_def) (simp_all add: onPosition_def book_agrees_def)
  have t: "mb_ticker ?b = rp_marketTicker opts" using b by (simp only: ticker_step)
  define s3 where "s3 = pass opts ?o seed (deltasOf h) s2"
  have s3: "map ?V (rs_positions s3) = map ?V (rs_positions s2) @ retrace ?L (rp_sha opts) now ?b h"
    "book_agrees opts s3 (foldl (recordStep ?L now) ?b h)"
    using pass_retraces [OF sorted_in_order [OF sorted] post opts(1,2,3) s2(3,2,1) t] by (simp_all add: s3_def)
  have "replayFrom opts seed (snapsOf h) (pre @ deltasOf h) (map (gapWarning opts) (rd_captureGaps db)) =
      (case rs_nextSample s3 of None \<Rightarrow> s3 | Some t \<Rightarrow> sampleUpTo opts (rp_toMs opts) t s3)"
  proof -
    have "onPosition (rs_stream s1) (mb_lastSeq (rs_book s1)) (sw_receivedAtMs seed) s1 = s2" by (simp only: s1(3) seq s2_def)
    then show ?thesis by (simp only: replayFrom_pass s0_def [symmetric] s1_def [symmetric] Let_def pass_skips [OF pre] s3_def)
  qed
  then have "rr_positions (replay db opts) = rs_positions (case rs_nextSample s3 of None \<Rightarrow> s3 | Some t \<Rightarrow> sampleUpTo opts (rp_toMs opts) t s3)"
    "rr_finalBook (replay db opts) = Some (rs_book (case rs_nextSample s3 of None \<Rightarrow> s3 | Some t \<Rightarrow> sampleUpTo opts (rp_toMs opts) t s3))"
    using db by (simp_all add: replay_def Let_def)
  then show ?thesis using samples_after [OF s3(2), of ?L "rp_sha opts" "rp_toMs opts"] s3 s2(4)
    by (simp add: Let_def book_agrees_def)
qed

section \<open>Keys of positions\<close>

lemma key_inj: "positionKey (Some a) x = positionKey (Some b) y \<Longrightarrow> a = b \<and> x = y"
proof -
  assume e: "positionKey (Some a) x = positionKey (Some b) y"
  have c: "CHR '':'' \<notin> set (rev (int_str n))" for n using int_str_chars [of n] by auto
  from e have "rev (int_str x) @ CHR '':'' # rev a = rev (int_str y) @ CHR '':'' # rev b"
    by (simp add: positionKey_def) (metis append.assoc append_Cons append_Nil rev.simps(2) rev_append rev_rev_ident)
  from split_unique [OF c c this] show ?thesis by (simp add: int_str_inj)
qed

definition viewKey :: "string option \<times> int option \<times> int \<times> string \<Rightarrow> string" where
  "viewKey v = positionKey (fst v) (the (fst (snd v)))"

definition viewHash :: "string option \<times> int option \<times> int \<times> string \<Rightarrow> string" where
  "viewHash v = snd (snd (snd v))"

lemma retrace_events: "v \<in> set (retrace L sha now b h) \<Longrightarrow> \<exists>e\<in>set h. fst v = recStream e \<and> fst (snd v) = recSeq e"
  by (induction h arbitrary: b) (fastforce simp: Let_def split: if_splits)+

lemma follows_keys:
  assumes "follows order a b" "recStream a \<noteq> None" "recSeq a \<noteq> None" "recStream b \<noteq> None" "recSeq b \<noteq> None"
  shows "positionKey (recStream a) (the (recSeq a)) \<noteq> positionKey (recStream b) (the (recSeq b))"
  using assms key_inj by (fastforce simp: follows_def split: if_splits option.splits)

definition placed :: "recorded \<Rightarrow> bool" where
  "placed e = (recStream e \<noteq> None \<and> recSeq e \<noteq> None)"

lemma retrace_placed: "list_all placed h \<Longrightarrow> list_all (\<lambda>v. fst v \<noteq> None \<and> fst (snd v) \<noteq> None) (retrace L sha now b h)"
  unfolding list_all_iff placed_def by (metis retrace_events)

lemma retrace_distinct:
  "sorted_wrt (follows order) h \<Longrightarrow> list_all placed h \<Longrightarrow> distinct (map viewKey (retrace L sha now b h))"
proof (induction h arbitrary: b)
  case (Cons e h)
  let ?b = "recordStep L now b e"
  have "distinct (map viewKey (retrace L sha now ?b h))" using Cons by simp
  moreover have "positionKey (recStream e) (the (recSeq e)) \<noteq> viewKey v" if v: "v \<in> set (retrace L sha now ?b h)" for v
  proof -
    obtain e' where e': "e' \<in> set h" "fst v = recStream e'" "fst (snd v) = recSeq e'" using retrace_events [OF v] by blast
    then have "follows order e e'" "placed e" "placed e'" using Cons.prems by (auto simp: list_all_iff)
    then show ?thesis using follows_keys [of order e e'] e' by (simp add: placed_def viewKey_def)
  qed
  ultimately show ?case by (cases "changes L b e") (auto simp: Let_def viewKey_def [of "(_, _)"])
qed simp

section \<open>Counting the targets\<close>

lemma sum_perm: "distinct xs \<Longrightarrow> distinct ys \<Longrightarrow> set xs = set ys \<Longrightarrow> sum_list (map f xs) = (sum_list (map f ys) :: nat)"
  by (simp add: sum_list_distinct_conv_sum_set)

definition hitsAt :: "(string, verify_target list) jsmap \<Rightarrow> string \<Rightarrow> verify_target list" where
  "hitsAt m k = (case js_get m k of None \<Rightarrow> [] | Some ts \<Rightarrow> ts)"

definition keyOf :: "verify_target \<Rightarrow> string" where
  "keyOf t = positionKey (vt_streamId t) (vt_seq t)"

lemma hits_add: "hitsAt (addTarget m t) k = hitsAt m k @ (if keyOf t = k then [t] else [])"
  by (simp add: hitsAt_def addTarget_def Let_def keyOf_def split: option.split)

lemma index_hits: "hitsAt (indexTargets ts) k = filter (\<lambda>t. keyOf t = k) ts"
proof -
  have "hitsAt (foldl addTarget m ts) k = hitsAt m k @ filter (\<lambda>t. keyOf t = k) ts" for m
    by (induction ts arbitrary: m) (simp_all add: hits_add)
  then show ?thesis by (simp add: indexTargets_def) (simp add: hitsAt_def)
qed

lemma index_ok: "js_map_ok (indexTargets ts)"
proof -
  have "js_map_ok m \<Longrightarrow> js_map_ok (foldl addTarget m ts)" for m
    by (induction ts arbitrary: m) (simp_all add: addTarget_def Let_def)
  then show ?thesis by (simp add: indexTargets_def)
qed

lemma index_keys: "set (js_keys (indexTargets ts)) = keyOf ` set ts"
proof -
  have "set (js_keys (foldl addTarget m ts)) = set (js_keys m) \<union> keyOf ` set ts" for m
    by (induction ts arbitrary: m) (simp_all add: addTarget_def Let_def js_keys_set keyOf_def del: set_map)
  then show ?thesis by (simp add: indexTargets_def del: set_map)
qed

lemma index_total: "sum_list (map (\<lambda>k. length (hitsAt (indexTargets ts) k)) (js_keys (indexTargets ts))) = length ts"
proof -
  have "finite K \<Longrightarrow> keyOf ` set us \<subseteq> K \<Longrightarrow> sum (\<lambda>k. length (filter (\<lambda>t. keyOf t = k) us)) K = length us" for K us
  proof (induction us)
    case (Cons t us)
    then have "sum (\<lambda>k. length (filter (\<lambda>t. keyOf t = k) us)) K = length us" by simp
    moreover have "sum (\<lambda>k. length (filter (\<lambda>t. keyOf t = k) (t # us))) K =
        sum (\<lambda>k. (if keyOf t = k then 1 else 0) + length (filter (\<lambda>t. keyOf t = k) us)) K"
      by (rule sum.cong) simp_all
    ultimately show ?case using Cons.prems by (simp add: sum.distrib)
  qed simp
  from this [of "set (js_keys (indexTargets ts))" ts] show ?thesis
    by (simp only: sum_list_distinct_conv_sum_set [OF index_ok] index_hits index_keys List.finite_set finite_imageI subset_refl)
qed

section \<open>Verifying\<close>

lemma matching_hits:
  "list_all (\<lambda>t. vt_stateHash t = actual) hits \<Longrightarrow>
     foldl (checkTarget actual) r hits = r\<lparr>vr_checked := vr_checked r + length hits, vr_matched := vr_matched r + length hits\<rparr>"
  by (induction hits arbitrary: r) (simp_all add: checkTarget_def Let_def)

definition posKey :: "replay_position \<Rightarrow> string" where
  "posKey p = positionKey (ro_streamId p) (the (ro_seq p))"

lemma visit_all:
  assumes "list_all (\<lambda>p. ro_seq p \<noteq> None) ps" "distinct (map posKey ps)" "set (map posKey ps) \<inter> set seen = {}" "distinct seen"
    "\<forall>p\<in>set ps. list_all (\<lambda>t. vt_stateHash t = fst (getStateHash L sha (ro_book p))) (hitsAt m (posKey p))"
  shows "\<exists>new. foldl (visitPosition L sha m) (seen, r) ps =
      (seen @ new, r\<lparr>vr_checked := vr_checked r + sum_list (map (\<lambda>k. length (hitsAt m k)) new),
                     vr_matched := vr_matched r + sum_list (map (\<lambda>k. length (hitsAt m k)) new)\<rparr>)
    \<and> distinct new \<and> set new = set (map posKey ps) \<inter> set (js_keys m)"
  using assms
proof (induction ps arbitrary: seen r)
  case (Cons p ps)
  obtain sq where sq: "ro_seq p = Some sq" using Cons.prems(1) by auto
  let ?k = "posKey p" and ?H = "fst (getStateHash L sha (ro_book p))"
  have notin: "?k \<notin> set seen" using Cons.prems(3) by auto
  show ?case
  proof (cases "js_get m ?k")
    case None
    then have v: "visitPosition L sha m (seen, r) p = (seen, r)" by (simp add: visitPosition_def sq posKey_def)
    have "?k \<notin> set (js_keys m)" using None by (simp add: map_of_eq_None_iff)
    then have "set (map posKey (p # ps)) \<inter> set (js_keys m) = set (map posKey ps) \<inter> set (js_keys m)" by auto
    moreover have "set (map posKey ps) \<inter> set seen = {}" using Cons.prems(3) by auto
    ultimately show ?thesis using Cons.IH [of seen r] Cons.prems by (simp add: v del: set_map)
  next
    case (Some hits)
    let ?r = "r\<lparr>vr_checked := vr_checked r + length hits, vr_matched := vr_matched r + length hits\<rparr>"
    have h: "hitsAt m ?k = hits" by (simp add: hitsAt_def Some)
    have "list_all (\<lambda>t. vt_stateHash t = ?H) hits" using Cons.prems(5) h by simp
    then have v: "visitPosition L sha m (seen, r) p = (seen @ [?k], ?r)"
      using Some notin by (simp add: visitPosition_def sq posKey_def Let_def matching_hits set_add_def)
    have "set (map posKey ps) \<inter> set (seen @ [?k]) = {}" "distinct (seen @ [?k])" using Cons.prems notin by auto
    then obtain new where new: "foldl (visitPosition L sha m) (seen @ [?k], ?r) ps =
      (seen @ [?k] @ new, ?r\<lparr>vr_checked := vr_checked ?r + sum_list (map (\<lambda>k. length (hitsAt m k)) new),
                     vr_matched := vr_matched ?r + sum_list (map (\<lambda>k. length (hitsAt m k)) new)\<rparr>)"
      "distinct new" "set new = set (map posKey ps) \<inter> set (js_keys m)"
      using Cons.IH [of "seen @ [?k]" ?r] Cons.prems by auto
    have "?k \<in> set (js_keys m)" using Some by (metis js_has_iff js_has_def option.simps(3))
    moreover have "?k \<notin> set (map posKey ps)" using Cons.prems(2) by simp
    ultimately have "distinct (?k # new)" "set (?k # new) = set (map posKey (p # ps)) \<inter> set (js_keys m)" using new(2,3) by auto
    moreover have "foldl (visitPosition L sha m) (seen, r) (p # ps) =
      (seen @ (?k # new), r\<lparr>vr_checked := vr_checked r + sum_list (map (\<lambda>k. length (hitsAt m k)) (?k # new)),
                     vr_matched := vr_matched r + sum_list (map (\<lambda>k. length (hitsAt m k)) (?k # new))\<rparr>)"
      using new(1) by (simp add: v h add.assoc)
    ultimately show ?thesis by blast
  qed
qed simp

lemma all_reached: "set (js_keys m) \<subseteq> set seen \<Longrightarrow> foldl (\<lambda>r (key, hits). if key \<in> set seen then r else foldl unreached r hits) r m = r"
  by (induction m) auto

lemma verified:
  assumes trace: "map (posView (rp_dec opts) (rp_sha opts)) (rr_positions (replay db opts)) = vs"
    and d: "distinct (map viewKey vs)" and p: "list_all (\<lambda>v. fst v \<noteq> None \<and> fst (snd v) \<noteq> None) vs"
    and targets: "list_all (\<lambda>t. \<exists>v\<in>set vs. fst v = vt_streamId t \<and> fst (snd v) = Some (vt_seq t) \<and> viewHash v = vt_stateHash t) targets"
  shows "verifyReplay db opts targets =
    \<lparr>vr_checked = length targets, vr_matched = length targets, vr_mismatches = []\<rparr>"
proof -
  let ?ps = "rr_positions (replay db opts)" and ?m = "indexTargets targets" and ?L = "rp_dec opts" and ?sha = "rp_sha opts"
  have vp: "viewKey (posView ?L ?sha q) = posKey q" "viewHash (posView ?L ?sha q) = fst (getStateHash ?L ?sha (ro_book q))"
    "fst (snd (posView ?L ?sha q)) = ro_seq q" "fst (posView ?L ?sha q) = ro_streamId q" for q
    by (simp_all add: viewKey_def viewHash_def posView_def posKey_def)
  have keys: "map posKey ?ps = map viewKey vs" by (simp add: trace [symmetric] vp)
  have seqs: "list_all (\<lambda>q. ro_seq q \<noteq> None) ?ps" using p by (simp add: trace [symmetric] list_all_iff vp)
  have tkey: "viewKey v = keyOf t" if "fst v = vt_streamId t" "fst (snd v) = Some (vt_seq t)" for v t
    using that by (simp add: viewKey_def keyOf_def)
  have match: "\<forall>q\<in>set ?ps. list_all (\<lambda>t. vt_stateHash t = fst (getStateHash ?L ?sha (ro_book q))) (hitsAt ?m (posKey q))"
  proof
    fix q assume q: "q \<in> set ?ps"
    let ?v = "posView ?L ?sha q"
    have v: "?v \<in> set vs" using q by (simp add: trace [symmetric])
    show "list_all (\<lambda>t. vt_stateHash t = fst (getStateHash ?L ?sha (ro_book q))) (hitsAt ?m (posKey q))"
      unfolding list_all_iff index_hits
    proof
      fix t assume "t \<in> set (filter (\<lambda>t. keyOf t = posKey q) targets)"
      then have t: "t \<in> set targets" "keyOf t = viewKey ?v" by (simp_all add: vp)
      obtain w where w: "w \<in> set vs" "viewKey w = keyOf t" "viewHash w = vt_stateHash t"
        using targets t(1) tkey unfolding list_all_iff by blast
      have "w = ?v" using d v w(1,2) t(2) by (simp add: distinct_map inj_on_def)
      then show "vt_stateHash t = fst (getStateHash ?L ?sha (ro_book q))" using w(3) by (simp add: vp)
    qed
  qed
  obtain new where new: "foldl (visitPosition ?L ?sha ?m) ([], \<lparr>vr_checked = 0, vr_matched = 0, vr_mismatches = []\<rparr>) ?ps =
      (new, \<lparr>vr_checked = sum_list (map (\<lambda>k. length (hitsAt ?m k)) new),
             vr_matched = sum_list (map (\<lambda>k. length (hitsAt ?m k)) new), vr_mismatches = []\<rparr>)"
    "distinct new" "set new = set (map posKey ?ps) \<inter> set (js_keys ?m)"
    using visit_all [OF seqs _ _ _ match, of "[]" "\<lparr>vr_checked = 0, vr_matched = 0, vr_mismatches = []\<rparr>"] d by (auto simp: keys)
  have "keyOf t \<in> set (map viewKey vs)" if t: "t \<in> set targets" for t
    using targets t tkey unfolding list_all_iff set_map by (metis imageI)
  then have all: "set new = set (js_keys ?m)" unfolding new(3) keys index_keys by blast
  have "sum_list (map (\<lambda>k. length (hitsAt ?m k)) new) = length targets"
    using sum_perm [OF new(2) index_ok all] index_total by simp
  then show ?thesis
    using new(1) all_reached [of ?m new] all by (cases "targets = []") (simp_all add: verifyReplay_def Let_def)
qed

definition is_recording :: "replay_db \<Rightarrow> replay_options \<Rightarrow> snapshot_row \<Rightarrow> delta_row list \<Rightarrow> recorded list \<Rightarrow> bool" where
  \<comment> \<open>the rows are those of the events \<open>h\<close> after the seed and of the deltas \<open>pre\<close> before it, in the order they happened\<close>
  "is_recording db opts seed pre h =
     (rd_seed db = Some seed \<and> rd_deltas db seed = pre @ deltasOf h \<and> rd_laterSnapshots db seed = snapsOf h
      \<and> sorted_wrt (follows (streamOrder (pre @ deltasOf h))) (map RecDelta pre @ RecSnap seed # h)
      \<and> list_all placed (RecSnap seed # h)
      \<and> list_all (\<lambda>sn. sw_receivedAtMs sn \<le> rp_toMs opts) (snapsOf h))"

section \<open>Properties\<close>



definition ex_snap :: "string \<Rightarrow> int \<Rightarrow> int \<Rightarrow> snapshot_row" where
  "ex_snap stream sq ms =
     \<lparr>sw_id = ''1'', sw_source = WsInitial, sw_sessionId = Some ''p'', sw_streamId = Some stream, sw_seq = Some sq, sw_receivedAtMs = ms,
      sw_yesBids = [], sw_noBids = [], sw_stateHash = []\<rparr>"

definition ex_delta :: "string \<Rightarrow> int \<Rightarrow> int \<Rightarrow> bool \<Rightarrow> delta_row" where
  "ex_delta stream sq ms ok =
     \<lparr>dw_id = ''1'', dw_sessionId = ''p'', dw_streamId = stream, dw_seq = sq, dw_side = Yes, dw_price = ''0.400000'',
      dw_deltaCount = ''3.000000'', dw_applied = ok, dw_applyError = None, dw_receivedAtMs = ms\<rparr>"

definition ex_recording :: "recorded list" where
  \<comment> \<open>a delta in the millisecond of the seed, one that was not applied, and a reconnect whose numbers start again\<close>
  "ex_recording =
     [RecDelta (ex_delta ''s'' 3 10 True), RecDelta (ex_delta ''s'' 4 11 False), RecSnap (ex_snap ''u'' 1 12),
      RecDelta (ex_delta ''u'' 2 12 True)]"

definition ex_replay_db :: replay_db where
  "ex_replay_db =
     \<lparr>rd_gaps = [], rd_captureGaps = [], rd_seed = Some (ex_snap ''s'' 2 10), rd_firstInWindow = None,
      rd_laterSnapshots = (\<lambda>seed. snapsOf ex_recording),
      rd_deltas = (\<lambda>seed. [ex_delta ''s'' 1 10 True] @ deltasOf ex_recording)\<rparr>"

definition ex_replay_options :: replay_options where
  "ex_replay_options =
     \<lparr>rp_dec = std_dlib, rp_sha = (\<lambda>x. x), rp_iso = int_str, rp_marketTicker = ''M'', rp_fromMs = 10, rp_toMs = 20, rp_sampleMs = 0,
      rp_toSeq = None, rp_toSeqStream = None, rp_strict = False\<rparr>"

lemma ex_is_recording: "is_recording ex_replay_db ex_replay_options (ex_snap ''s'' 2 10) [ex_delta ''s'' 1 10 True] ex_recording"
  by (simp add: is_recording_def ex_replay_db_def ex_recording_def ex_replay_options_def ex_snap_def ex_delta_def follows_def
      streamOrder_def js_has_def placed_def)

lemma ex_trace:
  "\<exists>h1 h2 h3 h4. retrace std_dlib (\<lambda>x. x) 0 (newMarketBook ''M'' None None) (RecSnap (ex_snap ''s'' 2 10) # ex_recording) =
     [(Some ''s'', Some 2, 10, h1), (Some ''s'', Some 3, 10, h2), (Some ''u'', Some 1, 12, h3), (Some ''u'', Some 2, 12, h4)]"
  by (simp add: ex_recording_def ex_snap_def ex_delta_def Let_def snapshotLevels_def levelPairsIn_def snapshotOpts_def
      replaceWithSnapshot_def applyDelta_def deltaInputOf_def levelSize_def newMarketBook_def std_numbers)



text \<open>
  A frame of the sampling grid is made after the event that passes its instant, so it shows the book with that event.
\<close>

lemma sampled_frame_is_late:
  assumes "rs_nextSample s = Some t" "t < atMs" "rp_fromMs opts \<le> atMs" "0 < rp_sampleMs opts"
  shows "\<exists>f fs. rs_frames (emit opts atMs s) = rs_frames s @ f # fs \<and> rf_atMs f = t
    \<and> rf_stateHash f = fst (getStateHash (rp_dec opts) (rp_sha opts) (rs_book s))"
proof -
  have more: "\<exists>fs. rs_frames (sampleUpTo opts limit t s) = rs_frames s @ fs" for limit t s
  proof (induction opts limit t s rule: sampleUpTo.induct)
    case (1 opts limit t s)
    then show ?case by (subst sampleUpTo.simps) (auto simp: pushFrame_def Let_def case_prod_unfold)
  qed
  let ?s = "(pushFrame opts t s)\<lparr>rs_nextSample := Some (t + rp_sampleMs opts)\<rparr>"
  have "emit opts atMs s = sampleUpTo opts atMs (t + rp_sampleMs opts) ?s"
    using assms by (simp add: emit_def) (subst sampleUpTo.simps, simp)
  moreover obtain fs where "rs_frames (sampleUpTo opts atMs (t + rp_sampleMs opts) ?s) = rs_frames ?s @ fs" using more by blast
  moreover have "rs_frames ?s = rs_frames s @ [fst (frameOf opts (rs_book s) t (rs_session s) (rs_stream s))]"
    by (simp add: pushFrame_def Let_def case_prod_unfold)
  ultimately show ?thesis
    by (auto simp: frameOf_def Let_def case_prod_unfold computeFeatures_def)
qed

end
