(* ===== verification/Sampling.thy ===== *)
theory Sampling
  imports Collector
begin

text \<open>
  Periodic samples of the books: \<open>src/src/sampling/bookSampler.ts\<close> and \<open>src/src/sampling/ladderSampler.ts\<close>.

  A sampler reads the books of the manager and the context cache; reading the hash of a book caches it there, so the manager is
  returned. Intervals are positive. \<open>sha256\<close> answers in hexadecimal.
\<close>

section \<open>Samples of each book\<close>

definition bucketFor :: "int \<Rightarrow> int \<Rightarrow> int" where
  "bucketFor nowMs intervalMs = (nowMs div intervalMs) * intervalMs"

record book_sampler =
  bs_bboIntervals :: "int list"
  bs_fullBookIntervals :: "int list"
  bs_suppressUnchanged :: bool
  bs_lastBucket :: "(string, int) jsmap"
  bs_lastHash :: "(string, string) jsmap"

definition newBookSampler :: "int list \<Rightarrow> int list \<Rightarrow> bool \<Rightarrow> book_sampler" where
  "newBookSampler bbo full suppress =
     \<lparr>bs_bboIntervals = sort bbo, bs_fullBookIntervals = sort full, bs_suppressUnchanged = suppress, bs_lastBucket = [], bs_lastHash = []\<rparr>"

definition samplerIntervals :: "book_sampler \<Rightarrow> int list" where
  "samplerIntervals sp = sorted_list_of_set (set (bs_bboIntervals sp @ bs_fullBookIntervals sp))"

definition sampleKey :: "int \<Rightarrow> string \<Rightarrow> string" where
  "sampleKey intervalMs ticker = int_str intervalMs @ '':'' @ ticker"

definition stateColumns :: "dec_lib \<Rightarrow> market_context option \<Rightarrow> (string \<times> cell) list" where
  "stateColumns L st =
     [(''last_trade_price'', numericCell L (Option.bind st mc_lastTradePrice) PRICE_DP),
      (''last_trade_count'', numericCell L (Option.bind st mc_lastTradeCount) SIZE_DP),
      (''volume'', numericCell L (Option.bind st mc_volume) SIZE_DP),
      (''open_interest'', numericCell L (Option.bind st mc_openInterest) SIZE_DP)]"

type_synonym sampling = "normalized_row list \<times> book_sampler \<times> book_manager"

definition bboSample ::
  "dec_lib \<Rightarrow> (string \<Rightarrow> string) \<Rightarrow> market_cache \<Rightarrow> int \<Rightarrow> int \<Rightarrow> string \<Rightarrow> sampling \<Rightarrow> sampling" where
  "bboSample L sha cache nowMs intervalMs ticker sg =
     (case sg of (rows, sp, m) \<Rightarrow>
       (case bm_get m ticker of
          None \<Rightarrow> sg
        | Some book \<Rightarrow>
            (let bucket = bucketFor nowMs intervalMs; key = sampleKey intervalMs (mb_ticker book)
             in if js_get (bs_lastBucket sp) key = Some bucket then sg
                else
                  (let (f, book') = computeFeatures L sha book;
                       values = [(''market_ticker'', CText (mb_ticker book)), (''interval_ms'', CInt intervalMs),
                                 (''bucket_ts'', CDate bucket), (''bucket_ts_ms'', CText (int_str bucket))]
                                @ featuresToSampleColumns L f @ stateColumns L (js_get cache (mb_ticker book))
                   in (rows @ [\<lparr>nr_table = ''book_samples'', nr_linkRawEvent = False, nr_values = values\<rparr>],
                       sp\<lparr>bs_lastBucket := js_set key bucket (bs_lastBucket sp)\<rparr>, putBook book' ticker m)))))"

definition fullSample ::
  "dec_lib \<Rightarrow> (string \<Rightarrow> string) \<Rightarrow> int \<Rightarrow> string \<Rightarrow> int \<Rightarrow> string \<Rightarrow> sampling \<Rightarrow> sampling" where
  "fullSample L sha nowMs sessionId intervalMs ticker sg =
     (case sg of (rows, sp, m) \<Rightarrow>
       (case bm_get m ticker of
          None \<Rightarrow> sg
        | Some book \<Rightarrow>
            (let bucket = bucketFor nowMs intervalMs; key = ''full:'' @ sampleKey intervalMs (mb_ticker book)
             in if \<not> mb_valid book \<or> js_get (bs_lastBucket sp) key = Some bucket then sg
                else
                  (let sp = sp\<lparr>bs_lastBucket := js_set key bucket (bs_lastBucket sp)\<rparr>;
                       (h, hashed) = getStateHash L sha book
                   in if bs_suppressUnchanged sp \<and> js_get (bs_lastHash sp) key = Some h then (rows, sp, putBook hashed ticker m)
                      else
                        (let sp = (if bs_suppressUnchanged sp then sp\<lparr>bs_lastHash := js_set key h (bs_lastHash sp)\<rparr> else sp);
                             (row, book') = snapshotRow L sha
                               \<lparr>si_book = book, si_source = LocalMaterialized, si_sessionId = Some sessionId, si_streamId = mb_streamId book,
                                si_sid = None, si_seq = mb_lastSeq book, si_receivedAt = nowMs, si_receivedAtMs = nowMs, si_marketId = None,
                                si_linkRawEvent = False\<rparr>
                         in (rows @ [row], sp, putBook book' ticker m))))))"

definition sampleBooks ::
  "dec_lib \<Rightarrow> (string \<Rightarrow> string) \<Rightarrow> market_cache \<Rightarrow> int \<Rightarrow> string \<Rightarrow> book_sampler \<Rightarrow> book_manager \<Rightarrow> sampling" where
  "sampleBooks L sha cache nowMs sessionId sp m =
     (let each = (\<lambda>f sg intervalMs. foldl (\<lambda>sg t. f intervalMs t sg) sg (tickers m));
          sg = foldl (each (bboSample L sha cache nowMs)) ([], sp, m) (bs_bboIntervals sp)
      in foldl (each (fullSample L sha nowMs sessionId)) sg (bs_fullBookIntervals sp))"

definition ends_with :: "string \<Rightarrow> string \<Rightarrow> bool" where
  "ends_with suffix s = (length suffix \<le> length s \<and> drop (length s - length suffix) s = suffix)"

definition forgetKeys :: "string \<Rightarrow> (string, 'a) jsmap \<Rightarrow> (string, 'a) jsmap" where
  "forgetKeys ticker m = foldl (\<lambda>m k. if ends_with ('':'' @ ticker) k then js_del k m else m) m (js_keys m)"

definition forget :: "string \<Rightarrow> book_sampler \<Rightarrow> book_sampler" where
  "forget ticker sp =
     sp\<lparr>bs_lastBucket := forgetKeys ticker (bs_lastBucket sp), bs_lastHash := forgetKeys ticker (bs_lastHash sp)\<rparr>"

section \<open>Samples of an event ladder\<close>

record ladder_market_row =
  lr_eventTicker :: string
  lr_marketTicker :: string
  lr_floorStrike :: "string option"
  lr_capStrike :: "string option"
  lr_strikeType :: "string option"
  lr_functionalStrike :: "string option"

record ladder_sampler =
  ls_intervals :: "int list"
  ls_lastBucket :: "(string, int) jsmap"

definition newLadderSampler :: "int list \<Rightarrow> ladder_sampler" where
  "newLadderSampler intervals = \<lparr>ls_intervals = sort intervals, ls_lastBucket = []\<rparr>"

definition slice :: "nat \<Rightarrow> nat \<Rightarrow> 'a list \<Rightarrow> 'a list" where
  "slice a b xs = take (b - a) (drop a xs)"

definition hexDigits :: string where "hexDigits = ''0123456789abcdef''"

fun hexValue :: "char \<Rightarrow> string \<Rightarrow> nat" where
  "hexValue c [] = 0"
| "hexValue c (d # ds) = (if c = d then 0 else Suc (hexValue c ds))"

definition variantDigit :: "string \<Rightarrow> string" where
  \<comment> \<open>\<open>((parseInt(c, 16) & 0x3) | 0x8).toString(16)\<close>: the two low bits, and eight\<close>
  "variantDigit s = (case s of [] \<Rightarrow> ''8'' | c # _ \<Rightarrow> [hexDigits ! (hexValue c hexDigits mod 4 + 8)])"

definition ladderGroupId :: "(string \<Rightarrow> string) \<Rightarrow> string \<Rightarrow> int \<Rightarrow> int \<Rightarrow> string" where
  "ladderGroupId sha eventTicker intervalMs bucketMs =
     (let digest = sha (eventTicker @ ''|'' @ int_str intervalMs @ ''|'' @ int_str bucketMs)
      in slice 0 8 digest @ ''-'' @ slice 8 12 digest @ ''-8'' @ slice 13 16 digest @ ''-''
           @ variantDigit (slice 16 17 digest) @ slice 17 20 digest @ ''-'' @ slice 20 32 digest)"

definition ladderSampleRow ::
  "dec_lib \<Rightarrow> (string \<Rightarrow> string) \<Rightarrow> string \<Rightarrow> market_cache \<Rightarrow> ladder_market_row \<Rightarrow> market_book \<Rightarrow> normalized_row" where
  "ladderSampleRow L sha groupId cache market book =
     (let bbo = getYesBBO L book; st = js_get cache (lr_marketTicker market)
      in \<lparr>nr_table = ''event_ladder_samples'', nr_linkRawEvent = False,
          nr_values =
            [(''sample_group_id'', CText groupId), (''market_ticker'', CText (lr_marketTicker market)),
             (''floor_strike'', textCell (lr_floorStrike market)), (''cap_strike'', textCell (lr_capStrike market)),
             (''strike_type'', textCell (lr_strikeType market)), (''functional_strike'', textCell (lr_functionalStrike market)),
             (''yes_bid'', numericCell L (bbo_bid bbo) PRICE_DP), (''yes_ask'', numericCell L (bbo_ask bbo) PRICE_DP),
             (''bid_size'', numericCell L (bbo_bidSize bbo) SIZE_DP), (''ask_size'', numericCell L (bbo_askSize bbo) SIZE_DP),
             (''mid'', numericCell L (bbo_mid bbo) PRICE_DP), (''microprice'', numericCell L (getMicroprice L book) PRICE_DP),
             (''last_trade_price'', numericCell L (Option.bind st mc_lastTradePrice) PRICE_DP),
             (''volume'', numericCell L (Option.bind st mc_volume) SIZE_DP),
             (''open_interest'', numericCell L (Option.bind st mc_openInterest) SIZE_DP),
             (''source_seq'', bigintCell (mb_lastSeq book)), (''book_state_hash'', CText (fst (getStateHash L sha book))),
             (''book_valid'', CBool (mb_valid book))]\<rparr>)"

text \<open>The rows of one group, from the copies of the books that were taken at one instant.\<close>

definition ladderGroup ::
  "dec_lib \<Rightarrow> (string \<Rightarrow> string) \<Rightarrow> market_cache \<Rightarrow> book_manager \<Rightarrow> int \<Rightarrow> int \<Rightarrow> string \<Rightarrow> string \<Rightarrow> ladder_market_row list
     \<Rightarrow> normalized_row list" where
  "ladderGroup L sha cache m intervalMs bucket eventTicker seriesTicker markets =
     (let frozen = snapshotAll (Some (map lr_marketTicker markets)) m;
          groupId = ladderGroupId sha eventTicker intervalMs bucket;
          present = concat (map (\<lambda>k. case js_get frozen (lr_marketTicker k) of None \<Rightarrow> [] | Some b \<Rightarrow> [(k, b)]) markets);
          hashInputs = map (\<lambda>k. (lr_marketTicker k, case js_get frozen (lr_marketTicker k) of
                              None \<Rightarrow> None | Some b \<Rightarrow> if mb_valid b then Some (fst (getStateHash L sha b)) else None)) markets;
          sampleRows = map (\<lambda>(k, b). ladderSampleRow L sha groupId cache k b) present
      in if sampleRows = [] then []
         else \<lparr>nr_table = ''event_ladder_sample_groups'', nr_linkRawEvent = False,
               nr_values =
                 [(''sample_group_id'', CText groupId), (''event_ticker'', CText eventTicker), (''series_ticker'', CText seriesTicker),
                  (''interval_ms'', CInt intervalMs), (''sampled_at'', CDate bucket), (''sampled_at_ms'', CText (int_str bucket)),
                  (''expected_market_count'', CInt (int (length markets))), (''captured_market_count'', CInt (int (length present))),
                  (''complete'', CBool (length present = length markets)),
                  (''ladder_state_hash'', CText (hashLadderState sha hashInputs))]\<rparr> # sampleRows)"

definition ladderSample ::
  "dec_lib \<Rightarrow> (string \<Rightarrow> string) \<Rightarrow> market_cache \<Rightarrow> book_manager \<Rightarrow> (string \<Rightarrow> string option) \<Rightarrow> int \<Rightarrow> int
     \<Rightarrow> normalized_row list \<times> nat \<times> ladder_sampler \<Rightarrow> string \<times> ladder_market_row list \<Rightarrow> normalized_row list \<times> nat \<times> ladder_sampler" where
  "ladderSample L sha cache m seriesByEvent nowMs intervalMs acc ladder =
     (case (acc, ladder) of ((rows, groups, ls), (eventTicker, markets)) \<Rightarrow>
       (let bucket = bucketFor nowMs intervalMs; key = sampleKey intervalMs eventTicker
        in if js_get (ls_lastBucket ls) key = Some bucket then acc
           else
             (let ls = ls\<lparr>ls_lastBucket := js_set key bucket (ls_lastBucket ls)\<rparr>
              in case seriesByEvent eventTicker of
                   None \<Rightarrow> (rows, groups, ls)
                 | Some seriesTicker \<Rightarrow>
                     if seriesTicker = [] then (rows, groups, ls)
                     else (let g = ladderGroup L sha cache m intervalMs bucket eventTicker seriesTicker markets
                           in (rows @ g, if g = [] then groups else groups + 1, ls)))))"

definition sampleLadders ::
  "dec_lib \<Rightarrow> (string \<Rightarrow> string) \<Rightarrow> market_cache \<Rightarrow> book_manager \<Rightarrow> (string \<Rightarrow> string option) \<Rightarrow> int
     \<Rightarrow> (string, ladder_market_row list) jsmap \<Rightarrow> ladder_sampler \<Rightarrow> normalized_row list \<times> nat \<times> ladder_sampler" where
  "sampleLadders L sha cache m seriesByEvent nowMs ladders ls =
     foldl (\<lambda>acc intervalMs. foldl (ladderSample L sha cache m seriesByEvent nowMs intervalMs) acc ladders) ([], 0, ls) (ls_intervals ls)"

section \<open>The grid\<close>

lemma bucket_grid: "0 < i \<Longrightarrow> bucketFor t i \<le> t \<and> t < bucketFor t i + i \<and> i dvd bucketFor t i"
proof -
  assume i: "0 < i"
  have "t = t div i * i + t mod i" by simp
  moreover have "0 \<le> t mod i" "t mod i < i" using i by simp_all
  ultimately have "t div i * i \<le> t" "t < t div i * i + i" by linarith+
  then show ?thesis by (simp add: bucketFor_def)
qed

lemma bucket_mono: "0 < i \<Longrightarrow> t \<le> t' \<Longrightarrow> bucketFor t i \<le> bucketFor t' i"
  by (simp add: bucketFor_def zdiv_mono1 mult_right_mono)

lemma sampleKey_inj: "sampleKey i t = sampleKey j u \<Longrightarrow> i = j \<and> t = u"
proof -
  assume e: "sampleKey i t = sampleKey j u"
  have c: "CHR '':'' \<notin> set (int_str n)" for n using int_str_chars [of n] by auto
  have "int_str i @ CHR '':'' # t = int_str j @ CHR '':'' # u" using e by (simp add: sampleKey_def)
  from split_unique [OF c c this] show ?thesis by (simp add: int_str_inj)
qed

lemma full_key: "''full:'' @ k \<noteq> sampleKey i t"
proof
  assume "''full:'' @ k = sampleKey i t"
  then have h: "hd (sampleKey i t) = CHR ''f''" by (metis append_Cons list.sel(1))
  have "int_str i \<noteq> []" using int_str_chars by (cases "int_str i") (auto simp: int_str_def ndig.simps split: if_splits)
  then have "hd (sampleKey i t) \<in> set (int_str i)" by (simp add: sampleKey_def)
  then show False using h int_str_chars [of i] by auto
qed

definition identityOf :: "normalized_row \<Rightarrow> cell option \<times> cell option \<times> cell option" where
  "identityOf r = (js_get (nr_values r) ''market_ticker'', js_get (nr_values r) ''interval_ms'', js_get (nr_values r) ''bucket_ts'')"

definition bboRows :: "normalized_row list \<Rightarrow> normalized_row list" where
  "bboRows rows = filter (\<lambda>r. nr_table r = ''book_samples'') rows"

text \<open>
  What is known of the samples so far: each row stands on the grid at a bucket the sampler remembers or has passed, no row repeats
  another, and the sampler remembers no bucket after that of \<open>now\<close>.
\<close>

definition sampled_ok :: "int \<Rightarrow> normalized_row list \<Rightarrow> book_sampler \<Rightarrow> bool" where
  "sampled_ok now rows sp =
     (distinct (map identityOf (bboRows rows))
      \<and> (\<forall>r \<in> set (bboRows rows). \<exists>t i b b'. identityOf r = (Some (CText t), Some (CInt i), Some (CDate b))
            \<and> js_get (bs_lastBucket sp) (sampleKey i t) = Some b' \<and> b \<le> b')
      \<and> (\<forall>t i b. 0 < i \<longrightarrow> js_get (bs_lastBucket sp) (sampleKey i t) = Some b \<longrightarrow> b \<le> bucketFor now i))"

lemma sampled_later: "sampled_ok now rows sp \<Longrightarrow> now \<le> now' \<Longrightarrow> sampled_ok now' rows sp"
  unfolding sampled_ok_def by (meson bucket_mono order_trans)

lemma bboSample_ok:
  assumes "sampled_ok now (pre @ rows) sp" "0 < i" "bboSample L sha cache now i t (rows, sp, m) = (rows', sp', m')"
  shows "sampled_ok now (pre @ rows') sp' \<and> bs_bboIntervals sp' = bs_bboIntervals sp \<and> bs_fullBookIntervals sp' = bs_fullBookIntervals sp"
proof (cases "bm_get m t")
  case None
  then show ?thesis using assms by (simp add: bboSample_def)
next
  case (Some book)
  let ?t = "mb_ticker book" let ?b = "bucketFor now i" let ?k = "sampleKey i ?t"
  show ?thesis
  proof (cases "js_get (bs_lastBucket sp) ?k = Some ?b")
    case True
    then show ?thesis using assms Some by (simp add: bboSample_def Let_def)
  next
    case False
    obtain row where row: "rows' = rows @ [row]" "sp' = sp\<lparr>bs_lastBucket := js_set ?k ?b (bs_lastBucket sp)\<rparr>"
      "nr_table row = ''book_samples''" "identityOf row = (Some (CText ?t), Some (CInt i), Some (CDate ?b))"
    proof -
      let ?row = "\<lparr>nr_table = ''book_samples'', nr_linkRawEvent = False,
        nr_values = [(''market_ticker'', CText ?t), (''interval_ms'', CInt i), (''bucket_ts'', CDate ?b), (''bucket_ts_ms'', CText (int_str ?b))]
          @ featuresToSampleColumns L (fst (computeFeatures L sha book)) @ stateColumns L (js_get cache ?t)\<rparr>"
      have "rows' = rows @ [?row]" "sp' = sp\<lparr>bs_lastBucket := js_set ?k ?b (bs_lastBucket sp)\<rparr>"
        using assms(3) Some False by (simp_all add: bboSample_def Let_def case_prod_unfold)
      then show ?thesis using that by (simp add: identityOf_def)
    qed
    have fresh: "identityOf row \<notin> set (map identityOf (bboRows (pre @ rows)))"
    proof
      assume "identityOf row \<in> set (map identityOf (bboRows (pre @ rows)))"
      then obtain r where r: "r \<in> set (bboRows (pre @ rows))" "identityOf r = identityOf row" by auto
      then obtain b' where "js_get (bs_lastBucket sp) ?k = Some b'" "?b \<le> b'"
        using assms(1) row(4) unfolding sampled_ok_def by fastforce
      moreover then have "b' \<le> ?b" using assms(1,2) unfolding sampled_ok_def by blast
      ultimately show False using False by simp
    qed
    have bbo: "bboRows (pre @ rows') = bboRows (pre @ rows) @ [row]" by (simp add: row bboRows_def)
    have old: "\<exists>t i b b'. identityOf r = (Some (CText t), Some (CInt i), Some (CDate b))
        \<and> js_get (bs_lastBucket sp') (sampleKey i t) = Some b' \<and> b \<le> b'" if r: "r \<in> set (bboRows (pre @ rows))" for r
    proof -
      obtain u j b b' where u: "identityOf r = (Some (CText u), Some (CInt j), Some (CDate b))"
        "js_get (bs_lastBucket sp) (sampleKey j u) = Some b'" "b \<le> b'"
        using assms(1) r unfolding sampled_ok_def by blast
      have "sampleKey j u = ?k \<Longrightarrow> b' \<le> ?b"
        using assms(1,2) u(2) sampleKey_inj unfolding sampled_ok_def by metis
      then show ?thesis using u by (auto simp: row(2))
    qed
    have last: "b \<le> bucketFor now j" if "0 < j" "js_get (bs_lastBucket sp') (sampleKey j u) = Some b" for u j b
      using that assms(1) sampleKey_inj [of j u i ?t] unfolding sampled_ok_def by (auto simp: row(2) split: if_splits)
    have new: "\<exists>t i b b'. identityOf row = (Some (CText t), Some (CInt i), Some (CDate b))
        \<and> js_get (bs_lastBucket sp') (sampleKey i t) = Some b' \<and> b \<le> b'" by (simp add: row)
    have "distinct (map identityOf (bboRows (pre @ rows')))" using fresh assms(1) by (simp add: bbo sampled_ok_def)
    moreover have "\<forall>r \<in> set (bboRows (pre @ rows')). \<exists>t i b b'. identityOf r = (Some (CText t), Some (CInt i), Some (CDate b))
        \<and> js_get (bs_lastBucket sp') (sampleKey i t) = Some b' \<and> b \<le> b'" unfolding bbo using old new by auto
    ultimately show ?thesis unfolding sampled_ok_def using last by (auto simp: row(2))
  qed
qed

lemma fullSample_ok:
  assumes "sampled_ok now (pre @ rows) sp" "fullSample L sha now sid i t (rows, sp, m) = (rows', sp', m')"
  shows "sampled_ok now (pre @ rows') sp' \<and> bs_bboIntervals sp' = bs_bboIntervals sp \<and> bs_fullBookIntervals sp' = bs_fullBookIntervals sp"
proof -
  obtain extra where rows': "rows' = rows @ extra" "bboRows extra = []"
    and keys: "\<And>j u. js_get (bs_lastBucket sp') (sampleKey j u) = js_get (bs_lastBucket sp) (sampleKey j u)"
    and same: "bs_bboIntervals sp' = bs_bboIntervals sp" "bs_fullBookIntervals sp' = bs_fullBookIntervals sp"
  proof (cases "bm_get m t")
    case None
    then show ?thesis using assms(2) that [of "[]"] by (simp add: fullSample_def bboRows_def)
  next
    case (Some book)
    let ?k = "''full:'' @ sampleKey i (mb_ticker book)"
    have k: "sampleKey j u \<noteq> ?k" for j u using full_key [of "sampleKey i (mb_ticker book)" j u] by metis
    show ?thesis
    proof (cases "\<not> mb_valid book \<or> js_get (bs_lastBucket sp) ?k = Some (bucketFor now i)")
      case True
      then show ?thesis using assms(2) Some that [of "[]"] by (auto simp: fullSample_def Let_def bboRows_def)
    next
      case False
      define row where "row = fst (snapshotRow L sha
        \<lparr>si_book = book, si_source = LocalMaterialized, si_sessionId = Some sid, si_streamId = mb_streamId book, si_sid = None,
         si_seq = mb_lastSeq book, si_receivedAt = now, si_receivedAtMs = now, si_marketId = None, si_linkRawEvent = False\<rparr>)"
      have "nr_table row = ''orderbook_snapshots''" by (simp add: row_def snapshotRow_def Let_def case_prod_unfold)
      then have n: "bboRows [row] = []" by (simp add: bboRows_def)
      define h where "h = fst (getStateHash L sha book)"
      define sp1 where "sp1 = sp\<lparr>bs_lastBucket := js_set ?k (bucketFor now i) (bs_lastBucket sp)\<rparr>"
      have "(rows', sp') =
         (if bs_suppressUnchanged sp \<and> js_get (bs_lastHash sp) ?k = Some h then (rows, sp1)
          else (rows @ [row], if bs_suppressUnchanged sp then sp1\<lparr>bs_lastHash := js_set ?k h (bs_lastHash sp1)\<rparr> else sp1))"
        using assms(2) Some False by (auto simp: fullSample_def Let_def case_prod_unfold row_def h_def sp1_def split: if_splits)
      then have sp': "(rows' = rows \<or> rows' = rows @ [row]) \<and> (sp' = sp1 \<or> sp' = sp1\<lparr>bs_lastHash := js_set ?k h (bs_lastHash sp1)\<rparr>)"
        by (auto split: if_splits)
      then obtain extra where "rows' = rows @ extra" "extra = [] \<or> extra = [row]" by (metis append_Nil2)
      moreover have "bboRows extra = []" using calculation(2) n by (auto simp: bboRows_def)
      ultimately show ?thesis using that [of extra] sp' k by (auto simp: sp1_def)
    qed
  qed
  then show ?thesis using assms(1) by (simp add: sampled_ok_def bboRows_def)
qed

definition keeps_samples :: "int \<Rightarrow> normalized_row list \<Rightarrow> (sampling \<Rightarrow> sampling) \<Rightarrow> bool" where
  "keeps_samples now pre f =
     (\<forall>rows sp m. sampled_ok now (pre @ rows) sp \<longrightarrow>
        (case f (rows, sp, m) of (rows', sp', m') \<Rightarrow>
           sampled_ok now (pre @ rows') sp' \<and> bs_bboIntervals sp' = bs_bboIntervals sp \<and> bs_fullBookIntervals sp' = bs_fullBookIntervals sp))"

lemma keeps_fold: "(\<And>x. x \<in> set xs \<Longrightarrow> keeps_samples now pre (f x)) \<Longrightarrow> keeps_samples now pre (\<lambda>sg. foldl (\<lambda>sg x. f x sg) sg xs)"
proof (induction xs)
  case (Cons x xs)
  have one: "keeps_samples now pre (f x)" and rest: "keeps_samples now pre (\<lambda>sg. foldl (\<lambda>sg x. f x sg) sg xs)" using Cons by simp_all
  show ?case unfolding keeps_samples_def
  proof (intro allI impI)
    fix rows sp m assume a: "sampled_ok now (pre @ rows) sp"
    obtain r1 s1 m1 where f: "f x (rows, sp, m) = (r1, s1, m1)" by (metis prod_cases3)
    obtain r2 s2 m2 where g: "foldl (\<lambda>sg x. f x sg) (r1, s1, m1) xs = (r2, s2, m2)" by (metis prod_cases3)
    have "sampled_ok now (pre @ r1) s1 \<and> bs_bboIntervals s1 = bs_bboIntervals sp \<and> bs_fullBookIntervals s1 = bs_fullBookIntervals sp"
      using one [unfolded keeps_samples_def, rule_format, OF a, of m] by (simp add: f)
    moreover then have "sampled_ok now (pre @ r2) s2 \<and> bs_bboIntervals s2 = bs_bboIntervals s1 \<and> bs_fullBookIntervals s2 = bs_fullBookIntervals s1"
      using rest [unfolded keeps_samples_def, rule_format, of r1 s1 m1] by (simp add: g)
    ultimately show "case foldl (\<lambda>sg x. f x sg) (rows, sp, m) (x # xs) of (rows', sp', m') \<Rightarrow>
        sampled_ok now (pre @ rows') sp' \<and> bs_bboIntervals sp' = bs_bboIntervals sp \<and> bs_fullBookIntervals sp' = bs_fullBookIntervals sp"
      by (simp add: f g)
  qed
qed (simp add: keeps_samples_def)

lemma keeps_bbo: "0 < i \<Longrightarrow> keeps_samples now pre (bboSample L sha cache now i t)"
  unfolding keeps_samples_def using bboSample_ok by (auto split: prod.splits)

lemma keeps_full: "keeps_samples now pre (fullSample L sha now sid i t)"
  unfolding keeps_samples_def using fullSample_ok by (auto split: prod.splits)

definition sampleRun ::
  "dec_lib \<Rightarrow> (string \<Rightarrow> string) \<Rightarrow> string \<Rightarrow> (int \<times> market_cache \<times> book_manager) list \<Rightarrow> normalized_row list \<times> book_sampler
     \<Rightarrow> normalized_row list \<times> book_sampler" where
  \<comment> \<open>the sampler through a list of calls, each with the books and the context as they then are\<close>
  "sampleRun L sha sid calls acc =
     foldl (\<lambda>(rows, sp) (now, cache, m). case sampleBooks L sha cache now sid sp m of (rs, sp, _) \<Rightarrow> (rows @ rs, sp)) acc calls"

lemma sampleBooks_ok:
  assumes "sampled_ok now pre sp" "list_all (\<lambda>i. 0 < i) (bs_bboIntervals sp)" "sampleBooks L sha cache now sid sp m = (rs, sp', m')"
  shows "sampled_ok now (pre @ rs) sp' \<and> bs_bboIntervals sp' = bs_bboIntervals sp"
proof -
  obtain r1 s1 m1 where one: "foldl (\<lambda>sg i. foldl (\<lambda>sg t. bboSample L sha cache now i t sg) sg (tickers m)) ([], sp, m) (bs_bboIntervals sp) = (r1, s1, m1)"
    by (metis prod_cases3)
  have k1: "keeps_samples now pre (\<lambda>sg. foldl (\<lambda>sg i. foldl (\<lambda>sg t. bboSample L sha cache now i t sg) sg (tickers m)) sg (bs_bboIntervals sp))"
    using assms(2) by (intro keeps_fold keeps_bbo) (auto simp: list_all_iff)
  have k2: "keeps_samples now pre (\<lambda>sg. foldl (\<lambda>sg i. foldl (\<lambda>sg t. fullSample L sha now sid i t sg) sg (tickers m)) sg (bs_fullBookIntervals sp))"
    by (intro keeps_fold keeps_full)
  have a: "sampled_ok now (pre @ r1) s1" "bs_bboIntervals s1 = bs_bboIntervals sp"
    using k1 [unfolded keeps_samples_def, rule_format, of "[]" sp m] assms(1) one by simp_all
  have "foldl (\<lambda>sg i. foldl (\<lambda>sg t. fullSample L sha now sid i t sg) sg (tickers m)) (r1, s1, m1) (bs_fullBookIntervals sp) = (rs, sp', m')"
    using assms(3) one by (simp add: sampleBooks_def Let_def)
  with k2 [unfolded keeps_samples_def, rule_format, of r1 s1 m1] a show ?thesis by simp
qed

lemma sampleRun_ok:
  assumes "sampled_ok now rows sp" "list_all (\<lambda>i. 0 < i) (bs_bboIntervals sp)" "sorted (now # map fst calls)"
    "sampleRun L sha sid calls (rows, sp) = (rows', sp')"
  shows "\<exists>now'. sampled_ok now' rows' sp'"
  using assms
proof (induction calls arbitrary: now rows sp)
  case Nil
  then show ?case by (auto simp: sampleRun_def)
next
  case (Cons c calls)
  obtain t cache m where c: "c = (t, cache, m)" by (metis prod_cases3)
  obtain rs s1 m1 where one: "sampleBooks L sha cache t sid sp m = (rs, s1, m1)" by (metis prod_cases3)
  have "sampled_ok t rows sp" using Cons.prems(1,3) sampled_later by (simp add: c)
  then have a: "sampled_ok t (rows @ rs) s1" "bs_bboIntervals s1 = bs_bboIntervals sp"
    using sampleBooks_ok [OF _ Cons.prems(2) one] by blast+
  show ?case using Cons.IH [OF a(1)] Cons.prems(2,3,4) a(2) by (simp add: c one sampleRun_def)
qed

section \<open>The rows of a ladder\<close>

lemma frozen_books:
  "js_get (snapshotAll (Some ts) m) t = (if t \<in> set ts then map_option clone (bm_get m t) else None)"
proof -
  have "js_get (foldl (\<lambda>out t. case bm_get m t of None \<Rightarrow> out | Some b \<Rightarrow> js_set t (clone b) out) out ts) t =
      (if t \<in> set ts \<and> bm_get m t \<noteq> None then map_option clone (bm_get m t) else js_get out t)" for out
    by (induction ts arbitrary: out) (auto split: option.splits)
  then show ?thesis by (auto simp: snapshotAll_def)
qed

lemma clone_reads:
  assumes "decimal_lib L" "book_ok L sha b"
  shows "ladderSampleRow L sha g cache k (clone b) = ladderSampleRow L sha g cache k b"
    "fst (getStateHash L sha (clone b)) = fst (getStateHash L sha b)" "mb_valid (clone b) = mb_valid b"
proof -
  have c: "clone b = b\<lparr>mb_hashCache := None, mb_journal := []\<rparr>" by (rule decimal_lib.clone_levels [OF assms])
  have "fst (getStateHash L sha (clone b)) = bookHash L sha b"
    by (simp add: c getStateHash_def Let_def bookHash_def yesBidLevels_def noBidLevels_def)
  moreover have "fst (getStateHash L sha b) = bookHash L sha b" by (rule getStateHash_result [OF assms(2)])
  ultimately show h: "fst (getStateHash L sha (clone b)) = fst (getStateHash L sha b)" by simp
  have "getYesBBO L (clone b) = getYesBBO L b"
    by (simp add: c getYesBBO_def yesAskLevels_def yesBidLevels_def noBidLevels_def)
  moreover have "mb_lastSeq (clone b) = mb_lastSeq b" "mb_valid (clone b) = mb_valid b" by (simp_all add: c)
  ultimately show "ladderSampleRow L sha g cache k (clone b) = ladderSampleRow L sha g cache k b" "mb_valid (clone b) = mb_valid b"
    using h by (simp_all add: ladderSampleRow_def getMicroprice_def)
qed

definition heldMarkets :: "book_manager \<Rightarrow> ladder_market_row list \<Rightarrow> (ladder_market_row \<times> market_book) list" where
  "heldMarkets m markets =
     concat (map (\<lambda>k. case bm_get m (lr_marketTicker k) of None \<Rightarrow> [] | Some b \<Rightarrow> [(k, b)]) markets)"

lemma group_rows:
  assumes "decimal_lib L" "manager_ok L sha m"
  shows "ladderGroup L sha cache m i bucket ev ser markets = [] \<longleftrightarrow> heldMarkets m markets = []"
    "tl (ladderGroup L sha cache m i bucket ev ser markets) =
       map (\<lambda>(k, b). ladderSampleRow L sha (ladderGroupId sha ev i bucket) cache k b) (heldMarkets m markets)"
    "heldMarkets m markets \<noteq> [] \<Longrightarrow>
       nr_table (hd (ladderGroup L sha cache m i bucket ev ser markets)) = ''event_ladder_sample_groups''
       \<and> js_get (nr_values (hd (ladderGroup L sha cache m i bucket ev ser markets))) ''captured_market_count''
           = Some (CInt (int (length (heldMarkets m markets))))
       \<and> js_get (nr_values (hd (ladderGroup L sha cache m i bucket ev ser markets))) ''complete''
           = Some (CBool (\<forall>k \<in> set markets. bm_get m (lr_marketTicker k) \<noteq> None))"
proof -
  let ?ts = "map lr_marketTicker markets"
  let ?frozen = "snapshotAll (Some ?ts) m"
  have fr: "js_get ?frozen (lr_marketTicker k) = map_option clone (bm_get m (lr_marketTicker k))" if "k \<in> set markets" for k
    using that frozen_books [of ?ts m] by simp
  have present: "concat (map (\<lambda>k. case js_get ?frozen (lr_marketTicker k) of None \<Rightarrow> [] | Some b \<Rightarrow> [(k, b)]) ks) =
      map (\<lambda>(k, b). (k, clone b)) (heldMarkets m ks)" if "set ks \<subseteq> set markets" for ks
    using that by (induction ks) (auto simp: heldMarkets_def fr split: option.splits)
  have held: "map (\<lambda>(k, b). ladderSampleRow L sha g cache k b) (map (\<lambda>(k, b). (k, clone b)) (heldMarkets m ks)) =
      map (\<lambda>(k, b). ladderSampleRow L sha g cache k b) (heldMarkets m ks)" for g ks
  proof -
    have "book_ok L sha b" if "(k, b) \<in> set (heldMarkets m ks)" for k b
      using that assms(2) by (auto simp: heldMarkets_def manager_ok_def split: option.splits)
    then show ?thesis using clone_reads(1) [OF assms(1)] by auto
  qed
  have full: "length (heldMarkets m ks) = length ks \<longleftrightarrow> (\<forall>k \<in> set ks. bm_get m (lr_marketTicker k) \<noteq> None)" for ks
  proof (induction ks)
    case (Cons k ks)
    have "length (heldMarkets m ks) \<le> length ks" by (induction ks) (auto simp: heldMarkets_def split: option.splits)
    then show ?case using Cons by (auto simp: heldMarkets_def split: option.splits)
  qed (simp add: heldMarkets_def)
  show "ladderGroup L sha cache m i bucket ev ser markets = [] \<longleftrightarrow> heldMarkets m markets = []"
    "tl (ladderGroup L sha cache m i bucket ev ser markets) =
       map (\<lambda>(k, b). ladderSampleRow L sha (ladderGroupId sha ev i bucket) cache k b) (heldMarkets m markets)"
    unfolding ladderGroup_def Let_def present [OF subset_refl] held by (simp_all split: if_split)
  show "heldMarkets m markets \<noteq> [] \<Longrightarrow> nr_table (hd (ladderGroup L sha cache m i bucket ev ser markets)) = ''event_ladder_sample_groups''
       \<and> js_get (nr_values (hd (ladderGroup L sha cache m i bucket ev ser markets))) ''captured_market_count''
           = Some (CInt (int (length (heldMarkets m markets))))
       \<and> js_get (nr_values (hd (ladderGroup L sha cache m i bucket ev ser markets))) ''complete''
           = Some (CBool (\<forall>k \<in> set markets. bm_get m (lr_marketTicker k) \<noteq> None))"
    unfolding ladderGroup_def Let_def present [OF subset_refl] held length_map map_is_Nil_conv full [of markets] by simp
qed

section \<open>Properties\<close>

text \<open>
  C38: However often the sampler is called at times that do not run back, and however the books change between the calls, no two rows of
  book samples are of the same market, interval and bucket.
\<close>

theorem sample_once_per_bucket:
  assumes "list_all (\<lambda>i. 0 < i) bbo" "sorted (map fst calls)"
  shows "distinct (map identityOf (bboRows (fst (sampleRun L sha sid calls ([], newBookSampler bbo full suppress)))))"
proof -
  let ?sp = "newBookSampler bbo full suppress"
  have "sampled_ok t [] ?sp" for t by (simp add: sampled_ok_def bboRows_def newBookSampler_def)
  moreover have "list_all (\<lambda>i. 0 < i) (bs_bboIntervals ?sp)" using assms(1) by (simp add: newBookSampler_def list_all_iff)
  moreover have "sorted ((case calls of [] \<Rightarrow> 0 | c # _ \<Rightarrow> fst c) # map fst calls)" using assms(2) by (cases calls) auto
  ultimately obtain now' where "sampled_ok now' (fst (sampleRun L sha sid calls ([], ?sp))) (snd (sampleRun L sha sid calls ([], ?sp)))"
    using sampleRun_ok by (metis prod.collapse)
  then show ?thesis by (simp add: sampled_ok_def)
qed

lemma sample_once_per_bucket_witness:
  "distinct (map identityOf (bboRows (fst (sampleRun std_dlib (\<lambda>x. x) ''s''
     [(1000, [], putBook (wit_book (\<lambda>x. x)) ''MKT'' newBookManager), (1500, [], putBook (wit_book (\<lambda>x. x)) ''MKT'' newBookManager)]
     ([], newBookSampler [1000] [] False)))))"
  by (rule sample_once_per_bucket) simp_all

text \<open>
  C40: The rows of an event ladder are one group row followed by a row for each of its markets that has a book, in the order of the ladder,
  each of them what reading that market's book at that instant gives; the group counts them, and is complete if and only if every market
  of the ladder has a book.
\<close>

theorem ladder_read_at_one_instant:
  assumes "decimal_lib L" "manager_ok L sha m" "heldMarkets m markets \<noteq> []"
  shows "\<exists>g. ladderGroup L sha cache m i bucket ev ser markets =
      g # map (\<lambda>(k, b). ladderSampleRow L sha (ladderGroupId sha ev i bucket) cache k b) (heldMarkets m markets)
    \<and> nr_table g = ''event_ladder_sample_groups''
    \<and> js_get (nr_values g) ''captured_market_count'' = Some (CInt (int (length (heldMarkets m markets))))
    \<and> js_get (nr_values g) ''complete'' = Some (CBool (list_all (\<lambda>k. bm_has m (lr_marketTicker k)) markets))"
proof -
  have "ladderGroup L sha cache m i bucket ev ser markets \<noteq> []" using group_rows(1) [OF assms(1,2)] assms(3) by blast
  then obtain g rest where g: "ladderGroup L sha cache m i bucket ev ser markets = g # rest" by (cases "ladderGroup L sha cache m i bucket ev ser markets") auto
  have "list_all (\<lambda>k. bm_has m (lr_marketTicker k)) markets = (\<forall>k \<in> set markets. bm_get m (lr_marketTicker k) \<noteq> None)"
    by (simp add: list_all_iff bm_has_def js_has_def bm_get_def)
  then show ?thesis using group_rows(2) [OF assms(1,2), of cache i bucket ev ser markets] group_rows(3) [OF assms, of cache i bucket ev ser]
    by (simp only: g list.sel) blast
qed

definition ex_market :: "string \<Rightarrow> ladder_market_row" where
  "ex_market t = \<lparr>lr_eventTicker = ''EV'', lr_marketTicker = t, lr_floorStrike = None, lr_capStrike = None, lr_strikeType = None, lr_functionalStrike = None\<rparr>"

lemma ladder_read_at_one_instant_witness:
  "\<exists>g r. ladderGroup std_dlib (\<lambda>x. x) [] (putBook (wit_book (\<lambda>x. x)) ''MKT'' newBookManager) 1000 5000 ''EV'' ''SER'' [ex_market ''MKT'', ex_market ''X''] = [g, r]
     \<and> js_get (nr_values g) ''captured_market_count'' = Some (CInt 1) \<and> js_get (nr_values g) ''complete'' = Some (CBool False)"
proof -
  let ?m = "putBook (wit_book (\<lambda>x. x)) ''MKT'' newBookManager"
  have ok: "manager_ok std_dlib (\<lambda>x. x) ?m"
    using wit_book_ok [of "\<lambda>x. x"] by (auto simp: manager_ok_def putBook_def newBookManager_def bm_get_def wit_book_def
        replaceWithSnapshot_def setLevel_def Let_def newMarketBook_def wit_snapshot_def wit_opts_def split: if_splits)
  have h: "heldMarkets ?m [ex_market ''MKT'', ex_market ''X''] = [(ex_market ''MKT'', wit_book (\<lambda>x. x))]"
    by (simp add: heldMarkets_def ex_market_def putBook_def newBookManager_def bm_get_def)
  have c: "list_all (\<lambda>k. bm_has ?m (lr_marketTicker k)) [ex_market ''MKT'', ex_market ''X''] = False"
    by (simp add: bm_has_def js_has_def ex_market_def putBook_def newBookManager_def)
  have ne: "heldMarkets ?m [ex_market ''MKT'', ex_market ''X''] \<noteq> []" by (simp only: h) simp
  show ?thesis
    using ladder_read_at_one_instant [OF std.decimal_lib_axioms ok ne, of "[]" 1000 5000 "''EV''" "''SER''"]
    unfolding h c by (elim exE conjE) (intro exI conjI, simp_all)
qed

end
