(* ===== verification/Probing.thy ===== *)
theory Probing
  imports MarketState Markets Rows
begin

text \<open>
  What a calibration probe is allowed to do and where it goes: the risk envelope (\<open>src/src/research/calibration/riskEnvelope.ts\<close>), the
  choice of markets (\<open>marketSelector.ts\<close>) and the activity at a level (\<open>levelActivity.ts\<close>).

  The detail texts of refusals are left out. A random draw is a rational argument in the half-open unit interval.
\<close>

section \<open>The risk envelope\<close>

record calibration_envelope =
  ce_orderSize :: int
  ce_maxRestingOrders :: int
  ce_maxRestingPerMarket :: int
  ce_maxPositionPerMarket :: int
  ce_maxWorstCaseExposureUsd :: rat
  ce_orderGroup15sLimit :: int
  ce_maxFillsPerDay :: int
  ce_maxNewOrdersPerDay :: int
  ce_maxProbesPerSeries :: int
  ce_minMid :: rat
  ce_maxMid :: rat
  ce_minMsToClose :: int

definition CALIBRATION_V0 :: calibration_envelope where
  "CALIBRATION_V0 =
     \<lparr>ce_orderSize = 1, ce_maxRestingOrders = 2, ce_maxRestingPerMarket = 1, ce_maxPositionPerMarket = 1,
      ce_maxWorstCaseExposureUsd = 5, ce_orderGroup15sLimit = 2, ce_maxFillsPerDay = 50, ce_maxNewOrdersPerDay = 200,
      ce_maxProbesPerSeries = 1, ce_minMid = 15 / 100, ce_maxMid = 85 / 100, ce_minMsToClose = 30 * 60000\<rparr>"

record account_state =
  as_restingByMarket :: "(string, int) jsmap"
  as_positionByMarket :: "(string, rat) jsmap"
  as_premiumAtRiskByMarket :: "(string, rat) jsmap"
  as_probesInFlight :: "(string, int) jsmap"
  as_seriesInFlight :: "(string, int) jsmap"
  as_fillsToday :: int
  as_ordersToday :: int

datatype block_reason =
  BrMaxRestingOrders | BrMaxRestingPerMarket | BrMaxPositionPerMarket | BrMaxWorstCaseExposure | BrMaxFillsPerDay | BrMaxNewOrdersPerDay
| BrMaxProbesPerSeries | BrProbeAlreadyInFlight

definition js_or :: "('k, 'v) jsmap \<Rightarrow> 'k \<Rightarrow> 'v \<Rightarrow> 'v" where
  \<comment> \<open>\<open>m.get(k) ?? v\<close>\<close>
  "js_or m k v = (case js_get m k of None \<Rightarrow> v | Some x \<Rightarrow> x)"

definition worstCaseExposure :: "account_state \<Rightarrow> rat \<Rightarrow> rat" where
  "worstCaseExposure st pendingPremium = foldl (+) pendingPremium (map snd (as_premiumAtRiskByMarket st))"

text \<open>The refusal, or none when the probe is allowed.\<close>

definition mayPlaceProbe :: "calibration_envelope \<Rightarrow> account_state \<Rightarrow> string \<Rightarrow> string \<Rightarrow> rat \<Rightarrow> block_reason option" where
  "mayPlaceProbe env st marketTicker seriesTicker premiumIfFilled =
     (let restingTotal = foldl (+) 0 (map snd (as_restingByMarket st));
          inFlightTotal = foldl (+) 0 (map snd (as_probesInFlight st))
      in if js_or (as_probesInFlight st) marketTicker 0 \<noteq> 0 then Some BrProbeAlreadyInFlight
         else if ce_maxRestingOrders env \<le> restingTotal + inFlightTotal then Some BrMaxRestingOrders
         else if ce_maxRestingPerMarket env \<le> js_or (as_restingByMarket st) marketTicker 0 then Some BrMaxRestingPerMarket
         else if ce_maxProbesPerSeries env \<le> js_or (as_seriesInFlight st) seriesTicker 0 then Some BrMaxProbesPerSeries
         else
           (let position = js_or (as_positionByMarket st) marketTicker 0;
                worstCasePosition = \<bar>position\<bar> + of_int (ce_orderSize env)
            in if of_int (ce_maxPositionPerMarket env) < worstCasePosition then Some BrMaxPositionPerMarket
               else if ce_maxWorstCaseExposureUsd env < worstCaseExposure st premiumIfFilled then Some BrMaxWorstCaseExposure
               else if ce_maxFillsPerDay env \<le> as_fillsToday st then Some BrMaxFillsPerDay
               else if ce_maxNewOrdersPerDay env \<le> as_ordersToday st then Some BrMaxNewOrdersPerDay
               else None))"

definition isKilled :: "calibration_envelope \<Rightarrow> account_state \<Rightarrow> bool" where
  "isKilled env st =
     (if ce_maxWorstCaseExposureUsd env < worstCaseExposure st 0 then True
      else list_ex (\<lambda>(market, position). of_int (ce_maxPositionPerMarket env) < \<bar>position\<bar>) (as_positionByMarket st))"

definition premiumForProbe :: "rat \<Rightarrow> ladder_side \<Rightarrow> int \<Rightarrow> rat" where
  "premiumForProbe yesPrice side contracts = (if side = Bid then yesPrice else 1 - yesPrice) * of_int contracts"

section \<open>Which market to probe\<close>

datatype depth_stratum = LowDepth | HighDepth

datatype flow_stratum = LowFlow | HighFlow

record stratum_key =
  sk_depth :: depth_stratum
  sk_flow :: flow_stratum

record eligibility_input =
  ei_marketTicker :: string
  ei_seriesTicker :: string
  ei_book :: "market_book option"
  ei_state :: "market_state option"
  ei_recentTrades :: int
  ei_recentDeltas :: int
  ei_nowMs :: int

datatype ineligible_reason =
  IrNoBook | IrBookInvalid | IrNotTwoSided | IrMidOutOfBand | IrTooCloseToClose | IrNotActive | IrNoRecentActivity | IrNoTouchSize

record eligibility =
  el_eligible :: bool
  el_reason :: "ineligible_reason option"
  el_mid :: "rat option"
  el_touchDepth :: "rat option"
  el_stratum :: "stratum_key option"

definition DEPTH_SPLIT :: rat where "DEPTH_SPLIT = 100"

definition FLOW_SPLIT :: int where "FLOW_SPLIT = 3"

definition MIN_RECENT_DELTAS :: int where "MIN_RECENT_DELTAS = 5"

definition classifyStratum :: "rat \<Rightarrow> int \<Rightarrow> stratum_key" where
  "classifyStratum touchDepth recentTrades =
     \<lparr>sk_depth = (if DEPTH_SPLIT \<le> touchDepth then HighDepth else LowDepth), sk_flow = (if FLOW_SPLIT \<le> recentTrades then HighFlow else LowFlow)\<rparr>"

fun depthString :: "depth_stratum \<Rightarrow> string" where
  "depthString LowDepth = ''low_depth''"
| "depthString HighDepth = ''high_depth''"

fun flowString :: "flow_stratum \<Rightarrow> string" where
  "flowString LowFlow = ''low_flow''"
| "flowString HighFlow = ''high_flow''"

definition stratumId :: "stratum_key \<Rightarrow> string" where
  "stratumId key = depthString (sk_depth key) @ ''/'' @ flowString (sk_flow key)"

definition ALL_STRATA :: "stratum_key list" where
  "ALL_STRATA = [\<lparr>sk_depth = LowDepth, sk_flow = LowFlow\<rparr>, \<lparr>sk_depth = LowDepth, sk_flow = HighFlow\<rparr>,
     \<lparr>sk_depth = HighDepth, sk_flow = LowFlow\<rparr>, \<lparr>sk_depth = HighDepth, sk_flow = HighFlow\<rparr>]"

definition ineligible :: "ineligible_reason \<Rightarrow> rat option \<Rightarrow> eligibility" where
  "ineligible reason mid =
     \<lparr>el_eligible = False, el_reason = Some reason, el_mid = mid, el_touchDepth = None, el_stratum = None\<rparr>"

definition assessEligibility :: "dec_lib \<Rightarrow> eligibility_input \<Rightarrow> calibration_envelope \<Rightarrow> eligibility" where
  "assessEligibility L inp env =
     (case ei_book inp of
        None \<Rightarrow> ineligible IrNoBook None
      | Some book \<Rightarrow>
          if \<not> mb_valid book then ineligible IrBookInvalid None
          else if (case ei_state inp of None \<Rightarrow> False | Some s \<Rightarrow> ms_state s \<noteq> LcOpen) then ineligible IrNotActive None
          else
            (let bbo = view_bbo L book
             in case (bbo_bid bbo, bbo_ask bbo, bbo_mid bbo) of
                  (Some _, Some _, Some mid) \<Rightarrow>
                    if (case bbo_bidSize bbo of None \<Rightarrow> True | Some s \<Rightarrow> s \<le> 0) then ineligible IrNoTouchSize None
                    else if mid < ce_minMid env \<or> ce_maxMid env < mid then ineligible IrMidOutOfBand (Some mid)
                    else if (case Option.bind (ei_state inp) ms_closeTimeMs of None \<Rightarrow> False
                             | Some c \<Rightarrow> c - ei_nowMs inp < ce_minMsToClose env) then ineligible IrTooCloseToClose (Some mid)
                    else if ei_recentDeltas inp < MIN_RECENT_DELTAS then ineligible IrNoRecentActivity (Some mid)
                    else
                      (let touchDepth = (case bbo_bidSize bbo of None \<Rightarrow> 0 | Some s \<Rightarrow> s) + (case bbo_askSize bbo of None \<Rightarrow> 0 | Some s \<Rightarrow> s)
                       in \<lparr>el_eligible = True, el_reason = None, el_mid = Some mid, el_touchDepth = Some touchDepth,
                           el_stratum = Some (classifyStratum touchDepth (ei_recentTrades inp))\<rparr>)
                | _ \<Rightarrow> ineligible IrNotTwoSided None))"

record candidate =
  ca_marketTicker :: string
  ca_seriesTicker :: string
  ca_stratum :: stratum_key
  ca_mid :: rat
  ca_touchDepth :: rat
  ca_bboChanges :: int

text \<open>One pass over the candidates keeps those with the smallest count, in order.\<close>

definition poolStep :: "('a \<Rightarrow> int) \<Rightarrow> int option \<times> 'a list \<Rightarrow> 'a \<Rightarrow> int option \<times> 'a list" where
  "poolStep cnt acc x =
     (case acc of (best, pool) \<Rightarrow>
        (let n = cnt x in
         if (case best of None \<Rightarrow> True | Some b \<Rightarrow> n < b) then (Some n, [x])
         else if best = Some n then (best, pool @ [x]) else (best, pool)))"

definition leastPool :: "('a \<Rightarrow> int) \<Rightarrow> 'a list \<Rightarrow> 'a list" where
  "leastPool cnt xs = snd (foldl (poolStep cnt) (None, []) xs)"

definition drawn :: "rat \<Rightarrow> 'a list \<Rightarrow> 'a option" where
  \<comment> \<open>\<open>xs[Math.floor(random() * xs.length)]\<close>\<close>
  "drawn r xs = (let i = \<lfloor>r * of_nat (length xs)\<rfloor> in if 0 \<le> i \<and> i < int (length xs) then Some (xs ! nat i) else None)"

definition selectNext :: "candidate list \<Rightarrow> (string, int) jsmap \<Rightarrow> rat \<Rightarrow> bool \<Rightarrow> candidate option" where
  "selectNext candidates sampledByStratum r preferChurn =
     (if candidates = [] then None
      else
        (let pool = leastPool (\<lambda>c. js_or sampledByStratum (stratumId (ca_stratum c)) 0) candidates;
             pool = (if preferChurn \<and> 1 < length pool
                     then (let most = Max (set (map ca_bboChanges pool))
                           in if 0 < most then filter (\<lambda>c. ca_bboChanges c = most) pool else pool)
                     else pool)
         in drawn r pool))"

definition DWELL_CHOICES_MS :: "int list" where "DWELL_CHOICES_MS = [10000, 30000, 60000, 120000]"

definition BEHIND_TOUCH_DWELL_MS :: "int list" where "BEHIND_TOUCH_DWELL_MS = [60000, 120000]"

definition chooseDwellMs :: "rat \<Rightarrow> int list \<Rightarrow> int option" where
  "chooseDwellMs r choices = drawn r choices"

record design_cell =
  dc_seriesTicker :: string
  dc_side :: ladder_side
  dc_ticksBehind :: int

fun ladderString :: "ladder_side \<Rightarrow> string" where
  "ladderString Bid = ''bid''"
| "ladderString Ask = ''ask''"

definition cellId :: "design_cell \<Rightarrow> string" where
  "cellId cell = dc_seriesTicker cell @ ''/'' @ ladderString (dc_side cell) @ ''/'' @ int_str (dc_ticksBehind cell)"

definition selectLeastSampledCell :: "design_cell list \<Rightarrow> (string, int) jsmap \<Rightarrow> rat \<Rightarrow> design_cell option" where
  "selectLeastSampledCell cells sampled r =
     (if cells = [] then None else drawn r (leastPool (\<lambda>c. js_or sampled (cellId c) 0) cells))"

definition chooseSide :: "rat \<Rightarrow> ladder_side" where
  "chooseSide r = (if r < 1 / 2 then Bid else Ask)"

section \<open>What happens at a level\<close>

record level_activity =
  la_executed :: rat
  la_removed :: rat
  la_added :: rat
  la_trades :: int
  la_unreconciledTradeVolume :: rat

definition emptyActivity :: level_activity where
  "emptyActivity = \<lparr>la_executed = 0, la_removed = 0, la_added = 0, la_trades = 0, la_unreconciledTradeVolume = 0\<rparr>"

definition ladderFor :: "dec_lib \<Rightarrow> ladder_side \<Rightarrow> rat \<Rightarrow> public_level" where
  "ladderFor L side yesPrice = publicLevelFor L side yesPrice"

definition watchKey :: "string \<Rightarrow> book_side \<Rightarrow> string \<Rightarrow> string" where
  "watchKey marketTicker bookSide bookPrice = marketTicker @ ''|'' @ sideString bookSide @ ''|'' @ bookPrice"

type_synonym level_tracker = "(string, level_activity) jsmap"

definition watch :: "dec_lib \<Rightarrow> string \<Rightarrow> ladder_side \<Rightarrow> rat \<Rightarrow> level_tracker \<Rightarrow> string \<times> level_tracker" where
  "watch L marketTicker side yesPrice tr =
     (let lvl = ladderFor L side yesPrice; key = watchKey marketTicker (pl_side lvl) (pl_price lvl)
      in (key, js_set key emptyActivity tr))"

definition unwatch :: "string \<Rightarrow> level_tracker \<Rightarrow> level_tracker" where
  "unwatch key tr = js_del key tr"

definition activityAt :: "string \<Rightarrow> level_tracker \<Rightarrow> level_activity" where
  "activityAt key tr = js_or tr key emptyActivity"

definition levelDelta :: "rat \<Rightarrow> level_activity \<Rightarrow> level_activity" where
  "levelDelta change a =
     (if change = 0 then a
      else if 0 < change then a\<lparr>la_added := la_added a + change\<rparr>
      else (let decrease = \<bar>change\<bar>; explained = min decrease (la_unreconciledTradeVolume a)
            in a\<lparr>la_unreconciledTradeVolume := la_unreconciledTradeVolume a - explained,
                 la_removed := la_removed a + (decrease - explained)\<rparr>))"

definition tracker_onDelta :: "dec_lib \<Rightarrow> delta_body \<Rightarrow> level_tracker \<Rightarrow> level_tracker" where
  "tracker_onDelta L e tr =
     (let key = watchKey (ed_marketTicker e) (ed_side e) (canonicalPrice L (ed_price e))
      in case js_get tr key of None \<Rightarrow> tr | Some a \<Rightarrow> js_set key (levelDelta (ed_deltaCount e) a) tr)"

definition levelTrade :: "rat \<Rightarrow> level_activity \<Rightarrow> level_activity" where
  "levelTrade quantity a =
     a\<lparr>la_executed := la_executed a + quantity, la_unreconciledTradeVolume := la_unreconciledTradeVolume a + quantity,
       la_trades := la_trades a + 1\<rparr>"

definition tracker_onTrade :: "dec_lib \<Rightarrow> trade_body \<Rightarrow> level_tracker \<Rightarrow> level_tracker" where
  "tracker_onTrade L e tr =
     (case et_takerOutcomeSide e of
        None \<Rightarrow> tr
      | Some taker \<Rightarrow>
          (let bookSide = (if taker = Yes then No else Yes);
               key = watchKey (et_marketTicker e) bookSide (yesPriceOfPublicLevel L bookSide (et_yesPrice e))
           in case js_get tr key of None \<Rightarrow> tr | Some a \<Rightarrow> js_set key (levelTrade (et_count e) a) tr))"

record recent_activity =
  ra_windowMs :: int
  ra_trades :: "(string, int list) jsmap"
  ra_deltas :: "(string, int list) jsmap"
  ra_bboChanges :: "(string, int list) jsmap"
  ra_lastBbo :: "(string, string) jsmap"

definition newRecentActivity :: "int \<Rightarrow> recent_activity" where
  "newRecentActivity windowMs = \<lparr>ra_windowMs = windowMs, ra_trades = [], ra_deltas = [], ra_bboChanges = [], ra_lastBbo = []\<rparr>"

definition pushTime :: "int \<Rightarrow> string \<Rightarrow> int \<Rightarrow> (string, int list) jsmap \<Rightarrow> (string, int list) jsmap" where
  "pushTime windowMs ticker atMs m =
     js_set ticker (dropWhile (\<lambda>t. t < atMs - windowMs) (js_or m ticker [] @ [atMs])) m"

definition countTimes :: "int \<Rightarrow> string \<Rightarrow> int \<Rightarrow> (string, int list) jsmap \<Rightarrow> int" where
  "countTimes windowMs ticker nowMs m = int (length (takeWhile (\<lambda>t. nowMs - windowMs \<le> t) (rev (js_or m ticker []))))"

definition recordTradeAt :: "string \<Rightarrow> int \<Rightarrow> recent_activity \<Rightarrow> recent_activity" where
  "recordTradeAt ticker atMs ra = ra\<lparr>ra_trades := pushTime (ra_windowMs ra) ticker atMs (ra_trades ra)\<rparr>"

definition recordDelta :: "string \<Rightarrow> int \<Rightarrow> recent_activity \<Rightarrow> recent_activity" where
  "recordDelta ticker atMs ra = ra\<lparr>ra_deltas := pushTime (ra_windowMs ra) ticker atMs (ra_deltas ra)\<rparr>"

definition recordBbo :: "string \<Rightarrow> int \<Rightarrow> string option \<Rightarrow> string option \<Rightarrow> recent_activity \<Rightarrow> recent_activity" where
  "recordBbo ticker atMs bid ask ra =
     (let key = (case bid of None \<Rightarrow> ''-'' | Some b \<Rightarrow> b) @ ''|'' @ (case ask of None \<Rightarrow> ''-'' | Some a \<Rightarrow> a)
      in if js_get (ra_lastBbo ra) ticker = Some key then ra
         else ra\<lparr>ra_lastBbo := js_set ticker key (ra_lastBbo ra),
                 ra_bboChanges := pushTime (ra_windowMs ra) ticker atMs (ra_bboChanges ra)\<rparr>)"

definition bboChangesIn :: "string \<Rightarrow> int \<Rightarrow> recent_activity \<Rightarrow> int" where
  "bboChangesIn ticker nowMs ra = countTimes (ra_windowMs ra) ticker nowMs (ra_bboChanges ra)"

definition tradesIn :: "string \<Rightarrow> int \<Rightarrow> recent_activity \<Rightarrow> int" where
  "tradesIn ticker nowMs ra = countTimes (ra_windowMs ra) ticker nowMs (ra_trades ra)"

definition deltasIn :: "string \<Rightarrow> int \<Rightarrow> recent_activity \<Rightarrow> int" where
  "deltasIn ticker nowMs ra = countTimes (ra_windowMs ra) ticker nowMs (ra_deltas ra)"

section \<open>An allowed probe\<close>

lemma js_or_set [simp]: "js_or (js_set k v m) k' d = (if k' = k then v else js_or m k' d)"
  by (simp add: js_or_def)

lemma foldl_add: "foldl (+) (a :: 'a :: comm_monoid_add) xs = a + sum_list xs"
  by (induction xs arbitrary: a) (simp_all add: ac_simps)

lemma exposure_after:
  assumes "js_map_ok (as_premiumAtRiskByMarket st)"
  shows "worstCaseExposure (st\<lparr>as_premiumAtRiskByMarket := js_set m (js_or (as_premiumAtRiskByMarket st) m 0 + p) (as_premiumAtRiskByMarket st)\<rparr>) 0
     = worstCaseExposure st p"
  using sum_js_set [OF assms, of "\<lambda>v. v" m "js_or (as_premiumAtRiskByMarket st) m 0 + p"]
  by (simp add: worstCaseExposure_def foldl_add js_or_def split: option.splits)

text \<open>The account once the probe rests, and once some of it has been filled.\<close>

definition probeRests :: "string \<Rightarrow> rat \<Rightarrow> account_state \<Rightarrow> account_state" where
  "probeRests m premium st =
     st\<lparr>as_premiumAtRiskByMarket := js_set m (js_or (as_premiumAtRiskByMarket st) m 0 + premium) (as_premiumAtRiskByMarket st)\<rparr>"

definition probeFills :: "string \<Rightarrow> rat \<Rightarrow> account_state \<Rightarrow> account_state" where
  "probeFills m signed st =
     st\<lparr>as_positionByMarket := js_set m (js_or (as_positionByMarket st) m 0 + signed) (as_positionByMarket st)\<rparr>"

lemma allowed_fields:
  assumes "mayPlaceProbe env st m s p = None"
  shows "worstCaseExposure st p \<le> ce_maxWorstCaseExposureUsd env"
    "\<bar>js_or (as_positionByMarket st) m 0\<bar> + of_int (ce_orderSize env) \<le> of_int (ce_maxPositionPerMarket env)"
    "js_or (as_probesInFlight st) m 0 = 0" "as_ordersToday st < ce_maxNewOrdersPerDay env" "as_fillsToday st < ce_maxFillsPerDay env"
    "foldl (+) 0 (map snd (as_restingByMarket st)) + foldl (+) 0 (map snd (as_probesInFlight st)) < ce_maxRestingOrders env"
    "js_or (as_seriesInFlight st) s 0 < ce_maxProbesPerSeries env"
  using assms by (auto simp: mayPlaceProbe_def Let_def split: if_splits)

text \<open>
  C11: A probe that the envelope allows cannot trip the kill switch: once it rests, and however much of its size has been filled, an account
  that was not killed is not killed.
\<close>

theorem allowed_probe_never_kills:
  assumes allowed: "mayPlaceProbe env st m s p = None" and alive: "\<not> isKilled env st"
    and maps: "js_map_ok (as_premiumAtRiskByMarket st)" "js_map_ok (as_positionByMarket st)"
    and filled: "\<bar>signed\<bar> \<le> of_int (ce_orderSize env)"
  shows "\<not> isKilled env (probeRests m p st) \<and> \<not> isKilled env (probeFills m signed (probeRests m p st))"
proof -
  note a = allowed_fields [OF allowed]
  have e: "worstCaseExposure (probeRests m p st) 0 \<le> ce_maxWorstCaseExposureUsd env"
    using a(1) exposure_after [OF maps(1)] by (simp add: probeRests_def)
  have pos: "\<bar>q\<bar> \<le> of_int (ce_maxPositionPerMarket env)" if "(k, q) \<in> set (as_positionByMarket st)" for k q
    using alive that by (fastforce simp: isKilled_def list_ex_iff not_less split: if_splits)
  have "\<bar>js_or (as_positionByMarket st) m 0 + signed\<bar> \<le> of_int (ce_maxPositionPerMarket env)" using a(2) filled by linarith
  then have "\<bar>q\<bar> \<le> of_int (ce_maxPositionPerMarket env)"
    if "(k, q) \<in> set (as_positionByMarket (probeFills m signed (probeRests m p st)))" for k q
    using that pos by (auto simp: probeFills_def probeRests_def dest!: js_set_entryD)
  moreover have "worstCaseExposure (probeFills m signed (probeRests m p st)) 0 = worstCaseExposure (probeRests m p st) 0"
    by (simp add: worstCaseExposure_def probeFills_def)
  ultimately show ?thesis using e pos
    by (fastforce simp: isKilled_def list_ex_iff not_less probeRests_def)
qed

section \<open>Rotation\<close>

lemma pool_min:
  assumes "xs \<noteq> []"
  shows "foldl (poolStep cnt) (None, []) xs = (Some (Min (cnt ` set xs)), filter (\<lambda>x. cnt x = Min (cnt ` set xs)) xs)"
  using assms
proof (induction xs rule: rev_nonempty_induct)
  case (snoc x xs)
  let ?m = "Min (cnt ` set xs)"
  have m: "Min (cnt ` set (xs @ [x])) = min (cnt x) ?m" using snoc by simp
  have low: "?m \<le> cnt y" if "y \<in> set xs" for y using that by simp
  show ?case
  proof (cases "cnt x < ?m")
    case True
    then have "cnt y \<noteq> cnt x" if "y \<in> set xs" for y using low [OF that] by linarith
    then have "filter (\<lambda>y. cnt y = cnt x) xs = []" by (simp add: filter_empty_conv)
    then show ?thesis using True snoc by (simp add: m poolStep_def Let_def min_absorb1)
  next
    case False
    then have "min (cnt x) ?m = ?m" by (simp add: min_absorb2)
    then show ?thesis using False unfolding foldl_append m foldl.simps snoc(2) by (simp add: poolStep_def Let_def)
  qed
qed (simp add: poolStep_def)

lemma leastPool_least:
  assumes "x \<in> set (leastPool cnt xs)"
  shows "x \<in> set xs" "y \<in> set xs \<Longrightarrow> cnt x \<le> cnt y"
proof -
  have "xs \<noteq> []" using assms by (auto simp: leastPool_def)
  then have "x \<in> set xs \<and> cnt x = Min (cnt ` set xs)" using assms by (simp add: leastPool_def pool_min)
  then show "x \<in> set xs" "y \<in> set xs \<Longrightarrow> cnt x \<le> cnt y" by simp_all
qed

lemma drawn_in: "drawn r xs = Some x \<Longrightarrow> x \<in> set xs"
  by (auto simp: drawn_def Let_def nat_less_iff split: if_splits intro!: nth_mem)

lemma selectNext_least:
  assumes "selectNext cs m r churn = Some c"
  shows "c \<in> set cs" "d \<in> set cs \<Longrightarrow> js_or m (stratumId (ca_stratum c)) 0 \<le> js_or m (stratumId (ca_stratum d)) 0"
proof -
  let ?cnt = "\<lambda>c. js_or m (stratumId (ca_stratum c)) 0"
  have "c \<in> set (leastPool ?cnt cs)"
    using assms by (auto simp: selectNext_def Let_def split: if_splits dest!: drawn_in)
  then show "c \<in> set cs" "d \<in> set cs \<Longrightarrow> ?cnt c \<le> ?cnt d" using leastPool_least [of c ?cnt cs] by blast+
qed

text \<open>The counts of the runner through a list of selections, each with its candidates, draw and preference.\<close>

fun rotateStep :: "(string, int) jsmap \<Rightarrow> candidate list \<times> rat \<times> bool \<Rightarrow> (string, int) jsmap" where
  "rotateStep m (cs, r, churn) =
     (case selectNext cs m r churn of None \<Rightarrow> m
      | Some c \<Rightarrow> js_set (stratumId (ca_stratum c)) (js_or m (stratumId (ca_stratum c)) 0 + 1) m)"

definition balanced :: "string list \<Rightarrow> (string, int) jsmap \<Rightarrow> bool" where
  "balanced S m \<longleftrightarrow> (\<forall>s \<in> set S. \<forall>t \<in> set S. js_or m s 0 \<le> js_or m t 0 + 1)"

lemma balanced_step:
  assumes "balanced S m" "set (map (\<lambda>c. stratumId (ca_stratum c)) cs) = set S"
  shows "balanced S (rotateStep m (cs, r, churn))"
proof (cases "selectNext cs m r churn")
  case (Some c)
  have "stratumId (ca_stratum c) \<in> set S" using selectNext_least(1) [OF Some] assms(2) by auto
  moreover have "js_or m (stratumId (ca_stratum c)) 0 \<le> js_or m t 0" if "t \<in> set S" for t
  proof -
    have "t \<in> set (map (\<lambda>c. stratumId (ca_stratum c)) cs)" using that assms(2) by simp
    then obtain d where "d \<in> set cs" "t = stratumId (ca_stratum d)" by auto
    then show ?thesis using selectNext_least(2) [OF Some] by simp
  qed
  ultimately show ?thesis using assms(1) by (fastforce simp: Some balanced_def)
qed (use assms in simp)

interpretation rotation: stepper rotateStep "\<lambda>call. set (map (\<lambda>c. stratumId (ca_stratum c)) (fst call)) = set S" "balanced S" for S
  by unfold_locales (use balanced_step in \<open>metis prod.collapse\<close>)

text \<open>
  C39: While the same strata are on offer, the rotation samples them evenly: after any number of selections, whatever is drawn and whether
  or not churn breaks the ties, no two strata differ by more than one probe.
\<close>

theorem rotation_stays_balanced:
  assumes "list_all (\<lambda>call. set (map (\<lambda>c. stratumId (ca_stratum c)) (fst call)) = set S) calls" "s \<in> set S" "t \<in> set S"
  shows "\<bar>js_or (foldl rotateStep [] calls) s 0 - js_or (foldl rotateStep [] calls) t 0\<bar> \<le> 1"
proof -
  have "balanced S (foldl rotateStep [] calls)"
    by (rule rotation.run_inv) (use assms(1) in \<open>auto simp: balanced_def js_or_def list_all_iff\<close>)
  then have "js_or (foldl rotateStep [] calls) s 0 \<le> js_or (foldl rotateStep [] calls) t 0 + 1"
    "js_or (foldl rotateStep [] calls) t 0 \<le> js_or (foldl rotateStep [] calls) s 0 + 1"
    using assms(2,3) by (simp_all add: balanced_def)
  then show ?thesis by linarith
qed

section \<open>What a level accounts for\<close>

text \<open>One event at the tracker, and the change and the trade it means for one watched level.\<close>

fun trackerStep :: "dec_lib \<Rightarrow> level_tracker \<Rightarrow> research_event \<Rightarrow> level_tracker" where
  "trackerStep L tr (EvDelta b e) = tracker_onDelta L e tr"
| "trackerStep L tr (EvTrade b e) = tracker_onTrade L e tr"
| "trackerStep L tr ev = tr"

fun changeAt :: "dec_lib \<Rightarrow> string \<Rightarrow> research_event \<Rightarrow> rat" where
  "changeAt L key (EvDelta b e) =
     (if watchKey (ed_marketTicker e) (ed_side e) (canonicalPrice L (ed_price e)) = key then ed_deltaCount e else 0)"
| "changeAt L key ev = 0"

fun tradedAt :: "dec_lib \<Rightarrow> string \<Rightarrow> research_event \<Rightarrow> rat" where
  "tradedAt L key (EvTrade b e) =
     (case et_takerOutcomeSide e of None \<Rightarrow> 0
      | Some taker \<Rightarrow> (let bookSide = (if taker = Yes then No else Yes)
                       in if watchKey (et_marketTicker e) bookSide (yesPriceOfPublicLevel L bookSide (et_yesPrice e)) = key then et_count e else 0))"
| "tradedAt L key ev = 0"

fun trade_positive :: "research_event \<Rightarrow> bool" where
  "trade_positive (EvTrade b e) = (0 \<le> et_count e)"
| "trade_positive ev = True"

definition activity_ok :: "rat \<Rightarrow> rat \<Rightarrow> rat \<Rightarrow> level_activity \<Rightarrow> bool" where
  \<comment> \<open>size added, size that left and volume traded\<close>
  "activity_ok up down traded a \<longleftrightarrow> la_added a = up \<and> la_executed a = traded
     \<and> la_removed a + (la_executed a - la_unreconciledTradeVolume a) = down
     \<and> 0 \<le> la_unreconciledTradeVolume a \<and> la_unreconciledTradeVolume a \<le> la_executed a \<and> 0 \<le> la_removed a"

lemma levelDelta_ok:
  assumes "activity_ok up down traded a"
  shows "activity_ok (up + max 0 d) (down + max 0 (- d)) traded (levelDelta d a)"
proof (cases d "0 :: rat" rule: linorder_cases)
  case less
  define x where "x = min \<bar>d\<bar> (la_unreconciledTradeVolume a)"
  have x: "x \<le> - d" "x \<le> la_unreconciledTradeVolume a" "0 \<le> x" using assms less by (simp_all add: activity_ok_def x_def)
  have "levelDelta d a = a\<lparr>la_unreconciledTradeVolume := la_unreconciledTradeVolume a - x, la_removed := la_removed a + (- d - x)\<rparr>"
    using less by (simp add: levelDelta_def Let_def x_def)
  then show ?thesis using assms less x by (auto simp: activity_ok_def)
qed (use assms in \<open>simp_all add: activity_ok_def levelDelta_def\<close>)

lemma trackerStep_at:
  assumes "js_get tr key = Some a" "trade_positive ev" "activity_ok up down traded a"
  shows "\<exists>a'. js_get (trackerStep L tr ev) key = Some a'
    \<and> activity_ok (up + max 0 (changeAt L key ev)) (down + max 0 (- changeAt L key ev)) (traded + tradedAt L key ev) a'"
proof (cases ev)
  case (EvDelta b e)
  let ?k = "watchKey (ed_marketTicker e) (ed_side e) (canonicalPrice L (ed_price e))"
  have "activity_ok (up + max 0 (ed_deltaCount e)) (down + max 0 (- ed_deltaCount e)) traded (levelDelta (ed_deltaCount e) a)"
    using assms(3) by (rule levelDelta_ok)
  then show ?thesis using assms(1,3)
    by (cases "?k = key") (auto simp: EvDelta tracker_onDelta_def Let_def split: option.splits)
next
  case (EvTrade b e)
  have "activity_ok up down (traded + et_count e) (levelTrade (et_count e) a)"
    using assms(2,3) by (auto simp: EvTrade activity_ok_def levelTrade_def)
  then show ?thesis using assms(1,3)
    by (auto simp: EvTrade tracker_onTrade_def Let_def split: option.splits)
qed (use assms in auto)

lemma trackerRun_at:
  assumes "js_get tr key = Some a" "list_all trade_positive evs" "activity_ok up down traded a"
  shows "\<exists>a'. js_get (foldl (trackerStep L) tr evs) key = Some a'
    \<and> activity_ok (up + sum_list (map (\<lambda>ev. max 0 (changeAt L key ev)) evs)) (down + sum_list (map (\<lambda>ev. max 0 (- changeAt L key ev)) evs))
        (traded + sum_list (map (tradedAt L key) evs)) a'"
  using assms
proof (induction evs arbitrary: tr a up down traded)
  case (Cons ev evs)
  have "trade_positive ev" using Cons.prems(2) by simp
  from trackerStep_at [OF Cons.prems(1) this Cons.prems(3), of L] obtain a' where
    a: "js_get (trackerStep L tr ev) key = Some a'"
      "activity_ok (up + max 0 (changeAt L key ev)) (down + max 0 (- changeAt L key ev)) (traded + tradedAt L key ev) a'" by blast
  show ?case using Cons.IH [OF a(1) _ a(2)] Cons.prems(2) by (simp add: add.assoc)
qed auto

text \<open>
  C40: From the moment a level is watched, whatever the order of prints and size changes, what the tracker says of it adds up: added is the
  size that was posted, executed what traded there, and every contract that left the displayed size is counted once, as removed or as part
  of the executed volume that has been reconciled, of which there is never more than was executed.
\<close>

theorem decreases_counted_once:
  assumes "list_all trade_positive evs" "watch L m side p tr = (key, tr')"
    and "a = activityAt key (foldl (trackerStep L) tr' evs)"
  shows "la_added a = sum_list (map (\<lambda>ev. max 0 (changeAt L key ev)) evs)
    \<and> la_executed a = sum_list (map (tradedAt L key) evs)
    \<and> la_removed a + (la_executed a - la_unreconciledTradeVolume a) = sum_list (map (\<lambda>ev. max 0 (- changeAt L key ev)) evs)
    \<and> 0 \<le> la_removed a \<and> 0 \<le> la_unreconciledTradeVolume a \<and> la_unreconciledTradeVolume a \<le> la_executed a"
proof -
  have "js_get tr' key = Some emptyActivity" using assms(2) by (auto simp: watch_def Let_def)
  from trackerRun_at [OF this assms(1), of 0 0 0 L] show ?thesis
    by (auto simp: assms(3) activityAt_def js_or_def activity_ok_def emptyActivity_def)
qed

section \<open>Recent activity\<close>

lemma drop_early: "sorted xs \<Longrightarrow> dropWhile (\<lambda>x. x < c) xs = filter (\<lambda>x. (c :: int) \<le> x) xs"
proof (induction xs)
  case (Cons x xs)
  then have "filter (\<lambda>y. c \<le> y) xs = xs" if "c \<le> x" using that by (auto intro!: filter_True)
  then show ?case using Cons by (auto simp: not_less)
qed simp

lemma take_late: "sorted xs \<Longrightarrow> length (takeWhile (\<lambda>x. c \<le> x) (rev xs)) = length (filter (\<lambda>x. (c :: int) \<le> x) xs)"
proof (induction xs rule: rev_induct)
  case (snoc x xs)
  have "filter (\<lambda>y. c \<le> y) xs = []" if "x < c" using snoc.prems that by (force simp: filter_empty_conv sorted_append)
  then show ?case using snoc by (auto simp: sorted_append)
qed simp

lemma push_kept:
  assumes "sorted (hist @ [t])" "js_or m k [] = filter (\<lambda>x. edge \<le> x) hist" "edge \<le> t - w"
  shows "js_or (pushTime w k t m) k [] = filter (\<lambda>x. t - w \<le> x) (hist @ [t])"
proof -
  have "sorted (filter (\<lambda>x. edge \<le> x) hist @ [t])" using assms(1) by (auto simp: sorted_append sorted_wrt_filter)
  moreover have "filter (\<lambda>x. t - w \<le> x) (filter (\<lambda>x. edge \<le> x) hist) = filter (\<lambda>x. t - w \<le> x) hist"
    using assms(3) by (auto simp: filter_filter intro!: filter_cong)
  ultimately show ?thesis unfolding pushTime_def assms(2) by (simp add: drop_early)
qed

definition timesOf :: "string \<Rightarrow> (string \<times> int) list \<Rightarrow> int list" where
  "timesOf k recs = map snd (filter (\<lambda>r. fst r = k) recs)"

lemma pushes_keep:
  assumes "sorted (map snd recs)"
    "\<forall>t \<in> snd ` set recs. t \<le> now"
  shows "\<exists>edge \<le> now - w. js_or (foldl (\<lambda>m (k, t). pushTime w k t m) [] recs) k [] = filter (\<lambda>x. edge \<le> x) (timesOf k recs)"
  using assms
proof (induction recs arbitrary: now rule: rev_induct)
  case Nil
  show ?case by (intro exI [of _ "now - w"]) (simp add: js_or_def timesOf_def)
next
  case (snoc r recs)
  obtain j t where r: "r = (j, t)" by fastforce
  let ?m = "foldl (\<lambda>m (k, t). pushTime w k t m) [] recs"
  have s: "sorted (map snd recs)" "\<forall>x \<in> snd ` set recs. x \<le> t" "t \<le> now" using snoc.prems by (auto simp: r sorted_append)
  obtain edge where edge: "js_or ?m k [] = filter (\<lambda>x. edge \<le> x) (timesOf k recs)" "edge \<le> t - w" using snoc.IH [OF s(1,2)] by blast
  show ?case
  proof (cases "j = k")
    case True
    have "sorted (timesOf k recs @ [t])" using s by (auto simp: sorted_append timesOf_def sorted_filter)
    from push_kept [OF this edge(1,2)] s(3) show ?thesis
      by (intro exI [of _ "t - w"]) (simp add: r True timesOf_def)
  next
    case False
    then have "js_or (pushTime w j t ?m) k [] = js_or ?m k []" by (simp add: pushTime_def)
    then show ?thesis using edge s(3) False by (intro exI [of _ edge]) (simp add: r timesOf_def)
  qed
qed

text \<open>
  C0: The window that is trimmed as it grows counts what the whole history would: for prints recorded in the order of their times, the
  trades of a market in the window are the recorded ones that are not older than it.
\<close>

theorem window_counts_history:
  assumes "sorted (map snd recs)" "list_all (\<lambda>r. snd r \<le> now) recs"
  shows "tradesIn k now (foldl (\<lambda>ra (k, t). recordTradeAt k t ra) (newRecentActivity w) recs)
    = int (length (filter (\<lambda>t. now - w \<le> t) (timesOf k recs)))"
proof -
  let ?m = "foldl (\<lambda>m (k, t). pushTime w k t m) [] recs"
  have fields: "ra_trades (foldl (\<lambda>ra (k, t). recordTradeAt k t ra) ra recs) = foldl (\<lambda>m (k, t). pushTime (ra_windowMs ra) k t m) (ra_trades ra) recs
      \<and> ra_windowMs (foldl (\<lambda>ra (k, t). recordTradeAt k t ra) ra recs) = ra_windowMs ra" for ra
    by (induction recs arbitrary: ra) (auto simp: recordTradeAt_def)
  have "\<forall>t \<in> snd ` set recs. t \<le> now" using assms(2) by (auto simp: list_all_iff)
  from pushes_keep [OF assms(1) this] obtain edge where
    edge: "js_or ?m k [] = filter (\<lambda>x. edge \<le> x) (timesOf k recs)" "edge \<le> now - w" by blast
  have "sorted (filter (\<lambda>x. edge \<le> x) (timesOf k recs))" using assms(1) by (simp add: timesOf_def sorted_filter sorted_wrt_filter)
  from take_late [OF this, of "now - w"] edge show ?thesis
    by (simp add: tradesIn_def countTimes_def fields newRecentActivity_def conj_commute)
      (auto simp: filter_filter intro!: arg_cong [of _ _ length] filter_cong)
qed

section \<open>Concrete accounts and calls\<close>

definition quiet_account :: account_state where
  "quiet_account = \<lparr>as_restingByMarket = [], as_positionByMarket = [], as_premiumAtRiskByMarket = [], as_probesInFlight = [],
     as_seriesInFlight = [], as_fillsToday = 0, as_ordersToday = 0\<rparr>"

lemma allowed_probe_never_kills_witness:
  "\<not> isKilled CALIBRATION_V0 (probeRests ''M'' (2 / 5) quiet_account)
   \<and> \<not> isKilled CALIBRATION_V0 (probeFills ''M'' 1 (probeRests ''M'' (2 / 5) quiet_account))"
  by (rule allowed_probe_never_kills [where s = "''S''"])
    (simp_all add: mayPlaceProbe_def isKilled_def worstCaseExposure_def quiet_account_def CALIBRATION_V0_def js_or_def)

definition ex_candidate :: "depth_stratum \<Rightarrow> candidate" where
  "ex_candidate d = \<lparr>ca_marketTicker = ''M'', ca_seriesTicker = ''S'', ca_stratum = \<lparr>sk_depth = d, sk_flow = LowFlow\<rparr>,
     ca_mid = 1 / 2, ca_touchDepth = 1, ca_bboChanges = 0\<rparr>"

lemma rotation_stays_balanced_witness:
  "\<bar>js_or (foldl rotateStep [] [([ex_candidate LowDepth, ex_candidate HighDepth], 0, False)]) ''low_depth/low_flow'' 0
     - js_or (foldl rotateStep [] [([ex_candidate LowDepth, ex_candidate HighDepth], 0, False)]) ''high_depth/low_flow'' 0\<bar> \<le> 1"
  by (rule rotation_stays_balanced [where S = "[''low_depth/low_flow'', ''high_depth/low_flow'']"])
    (simp_all add: ex_candidate_def stratumId_def)

definition ex_level_events :: "research_event list" where
  "ex_level_events =
     [EvTrade (wit_base 1 ''s1'') \<lparr>et_marketTicker = ''M'', et_tradeId = ''t'', et_yesPrice = 1 / 2, et_noPrice = 1 / 2, et_count = 2,
        et_takerOutcomeSide = Some No, et_takerBookSide = None, et_isBlockTrade = False\<rparr>,
      EvDelta (wit_base 2 ''s1'') \<lparr>ed_marketTicker = ''M'', ed_side = Yes, ed_price = 1 / 2, ed_deltaCount = - 3, ed_preCount = None,
        ed_postCount = None, ed_applied = True, ed_applyError = None\<rparr>]"

lemma decreases_counted_once_witness:
  "\<exists>a. a = activityAt (fst (watch std_dlib ''M'' Bid (1 / 2) [])) (foldl (trackerStep std_dlib) (snd (watch std_dlib ''M'' Bid (1 / 2) [])) ex_level_events)
     \<and> la_executed a = 2 \<and> la_removed a + (la_executed a - la_unreconciledTradeVolume a) = 3"
proof -
  have t: "list_all trade_positive ex_level_events" by (simp add: ex_level_events_def)
  from decreases_counted_once [OF t prod.collapse [symmetric] refl, of std_dlib "''M''" Bid "1 / 2" "[]"] show ?thesis
    by (simp add: ex_level_events_def watch_def ladderFor_def Let_def)
qed

lemma window_counts_history_witness:
  "tradesIn ''M'' 150 (foldl (\<lambda>ra (k, t). recordTradeAt k t ra) (newRecentActivity 100) [(''M'', 10), (''N'', 60), (''M'', 120)])
    = int (length (filter (\<lambda>t. 150 - 100 \<le> t) (timesOf ''M'' [(''M'', 10), (''N'', 60), (''M'', 120)])))"
  by (rule window_counts_history) simp_all

end
