(* ===== verification/Calibration.thy ===== *)
theory Calibration
  imports Probing Exchange
begin

text \<open>
  The calibration runner: the class \<open>CalibrationRunner\<close> of \<open>src/src/research/calibration/calibrationRunner.ts\<close>, which places real
  one-contract orders to learn how the queue behaves.

  The runner is one state and tasks that share it. A task is where one of its asynchronous functions waits: the constructor names the
  awaited call, its arguments are what the rest of the function needs, and \<open>resumePc\<close> is the code from there to the next await. Task zero
  is the loop of \<open>run\<close>. Which task is answered next, and with what, is the step of the environment, so that every interleaving of the
  program is a list of steps. The answers come from the exchange and the database. A probe object is one entry of \<open>rn_probes\<close>; the maps of
  the runner and the tasks hold its identifier. Log lines, the texts of reasons and the provenance of the run are left out.
\<close>

section \<open>Configuration and state\<close>

record calibration_config =
  cc_envelope :: calibration_envelope
  cc_runForMs :: int
  cc_cooldownMinMs :: int
  cc_cooldownMaxMs :: int
  cc_expirationSlackMs :: int
  cc_dryRun :: bool
  cc_behindTouchTicks :: "int list"
  cc_dwellChoicesMs :: "int list option"
  cc_requireRestingAtTarget :: bool
  cc_targetInformativeMoves :: int
  cc_preferChurn :: bool
  cc_fillModels :: "fill_model list"
  cc_random :: "nat \<Rightarrow> rat"      \<comment> \<open>the draws, in their order\<close>
  cc_uuid :: "nat \<Rightarrow> string"     \<comment> \<open>\<open>randomUUID\<close>\<close>
  cc_dec :: dec_lib
  cc_sha :: "string \<Rightarrow> string"
  cc_decString :: "rat \<Rightarrow> string"

datatype probe_state = PsSubmitting | PsResting | PsCancelling | PsFilled | PsCancelled | PsRejected | PsAmbiguous

record active_probe =
  ap_probeId :: string
  ap_clientOrderId :: string
  ap_orderId :: "string option"
  ap_marketTicker :: string
  ap_seriesTicker :: string
  ap_side :: ladder_side
  ap_yesPrice :: rat
  ap_ticksBehindAtEntry :: int
  ap_priceCents :: int
  ap_quantity :: int
  ap_plannedDwellMs :: int
  ap_restingSinceMs :: "int option"
  ap_levelKey :: string
  ap_state :: probe_state
  ap_queueSeqNo :: int
  ap_lastQueuePosition :: "rat option"
  ap_recordedInitialQueue :: bool
  ap_premium :: rat
  ap_stratum :: string
  ap_modelledQueueAtEntry :: "(string, rat) jsmap"

record placement =
  pm_chosen :: candidate
  pm_side :: ladder_side
  pm_yesPrice :: rat
  pm_ticksBehind :: int
  pm_book :: market_book

datatype stop_reason =
  SrBookInvalid | SrRecoveryUnderway | SrPrivateFeedDown | SrPersistenceUnavailable | SrRiskLimit | SrAmbiguousOrderState
| SrDurationElapsed | SrTargetObservationsReached | SrInterrupted

section \<open>Calls of the database and of the exchange\<close>

record probe_row =
  pw_probeId :: string
  pw_marketTicker :: string
  pw_seriesTicker :: string
  pw_eventTicker :: "string option"
  pw_stratum :: stratum_key
  pw_probeSide :: ladder_side
  pw_plannedDwellMs :: int
  pw_decisionTsMs :: int
  pw_bookHashAtDecision :: string
  pw_decisionBbo :: yes_bbo
  pw_decisionImbalance1 :: "rat option"
  pw_decisionImbalance3 :: "rat option"
  pw_displayedSizeAtEntry :: rat
  pw_betterDepthAtEntry :: rat
  pw_clientOrderId :: string
  pw_orderSide :: book_side
  pw_priceCents :: int
  pw_yesPrice :: rat
  pw_quantity :: int
  pw_expirationTs :: int

record submission_row =
  sb_orderId :: "string option"
  sb_httpSendTsMs :: "int option"
  sb_httpAckTsMs :: "int option"
  sb_httpStatus :: "int option"
  sb_terminalState :: string

record queue_observation =
  qo_probeId :: string
  qo_seqNo :: int
  qo_pollSendTsMs :: int
  qo_pollReceiveTsMs :: int
  qo_timeSinceEntryMs :: int
  qo_queuePosition :: "rat option"
  qo_ahead :: "ahead_depth option"
  qo_bbo :: "yes_bbo option"
  qo_imbalance1 :: "rat option"
  qo_imbalance3 :: "rat option"
  qo_activity :: level_activity
  qo_ticksFromTouch :: "int option"

record counterfactual_row =
  cw_probeId :: string
  cw_fillModel :: string
  cw_wouldFill :: bool
  cw_fillTimeMs :: "int option"
  cw_fillReason :: "fill_reason option"
  cw_queueAtEntry :: "rat option"
  cw_queueBeforeFill :: "rat option"

record create_request =
  cq_clientOrderId :: string
  cq_marketTicker :: string
  cq_side :: ladder_side
  cq_price :: rat
  cq_count :: int
  cq_postOnly :: bool
  cq_cancelOrderOnPause :: bool
  cq_expirationTime :: int
  cq_orderGroupId :: "string option"

datatype calib_call =
  CaStartRun
| CaEvent string "string option"               \<comment> \<open>kind and market\<close>
| CaInsertProbe probe_row
| CaSubmission string submission_row
| CaAttempted | CaPlaced | CaFilled rat
| CaInitialQueue string rat int int
| CaQueueObservation queue_observation
| CaPrivateAck string int
| CaRecordFill string rat "rat option"          \<comment> \<open>probe, quantity and queue before\<close>
| CaRecordCancel string int "int option" "int option"
| CaFinishProbe string string
| CaCounterfactual counterfactual_row
| CaEndRun stop_reason
| CaCreateOrder create_request
| CaCancelOrder string string string            \<comment> \<open>order, client order and market\<close>
| CaListOrders string
| CaQueuePositions "string list"
| CaStopFeed

section \<open>Where a task waits\<close>

datatype rest_end = EndTask | EndShutdown bool   \<comment> \<open>whether the run ends by an exception\<close>

text \<open>What waits for \<open>cancelProbe\<close>: nobody, the loop of \<open>cancelEverything\<close>, or the reconciliation of a create.\<close>

datatype cancel_cont = KNone | KRest "string list" string rest_end | KReconcile string

datatype persist_cont = PkCancel cancel_cont | PkFill

record queue_reading =
  qr_probeId :: string
  qr_queuePosition :: "rat option"
  qr_bbo :: "yes_bbo option"
  qr_ahead :: "ahead_depth option"
  qr_ticks :: "int option"
  qr_activity :: level_activity
  qr_sendTs :: int
  qr_ackTs :: int

record poll_rest =
  pr_probes :: "string list"
  pr_byOrder :: "(string, rat option) jsmap"
  pr_sendTs :: int
  pr_ackTs :: int

datatype pc =
  PcIdle
| PcBlocked int
| PcInsert active_probe stratum_key int int          \<comment> \<open>the probe, decision time and expiration\<close>
| PcAttempted active_probe int int
| PcDry string
| PcCreate string
| PcRecordPlaced string
| PcPlaced string
| PcRejected string
| PcRejectedEvent
| PcFailAmbiguous string
| PcListOrders string
| PcReconciledEvent string
| PcAmbiguousEvent
| PcCancelOrder string string int cancel_cont
| PcCancelRecorded string string int cancel_cont
| PcCancelFinished string string int cancel_cont
| PcGoneRecorded string cancel_cont
| PcGoneFinished string cancel_cont
| PcAmbRecorded string cancel_cont
| PcAmbFinished string cancel_cont
| PcRest "string list" string rest_end
| PcPersist string "nat list" "(string, simulated_fill) jsmap" persist_cont
| PcFillRecorded string rat
| PcFillCounted string
| PcPoll "string list"
| PcInitial queue_reading poll_rest
| PcObserved poll_rest
| PcStopFeed bool
| PcEnding
| PcEnded bool                                        \<comment> \<open>the run has returned, or thrown\<close>
| PcDone

text \<open>What an awaited call answers.\<close>

datatype answer =
  AnOk | AnThrow
| AnCreated string int int int                       \<comment> \<open>order, send, acknowledgement, status\<close>
| AnApiError int | AnAmbiguous
| AnCancelled int int
| AnOrders "(string \<times> string) list"                  \<comment> \<open>order and client order\<close>
| AnQueue "(string \<times> rat option) list" int int

type_synonym cf_exchange = "unit exchange_options \<times> unit exchange"

record runner =
  rn_state :: market_store
  rn_activity :: recent_activity
  rn_levels :: level_tracker
  rn_counterfactuals :: "cf_exchange list"
  rn_cfFillsByClientId :: "(string, (string, simulated_fill) jsmap) jsmap"
  rn_probes :: "(string, active_probe) jsmap"
  rn_active :: "(string, string) jsmap"
  rn_byOrderId :: "(string, string) jsmap"
  rn_sampledByStratum :: "(string, int) jsmap"
  rn_sampledByCell :: "(string, int) jsmap"
  rn_informativeMoves :: int
  rn_marketStates :: "(string, market_state) jsmap"
  rn_positions :: "(string, rat) jsmap"
  rn_premiums :: "(string, rat) jsmap"
  rn_orderGroupId :: "string option"
  rn_clockMs :: int
  rn_nextProbeAtMs :: int
  rn_fillsToday :: int
  rn_ordersToday :: int
  rn_halted :: "stop_reason option"
  rn_privateFeedDownAt :: "int option"
  rn_feedUp :: bool
  rn_deadline :: "int option"
  rn_queueTimer :: bool
  rn_draws :: nat
  rn_uuids :: nat
  rn_calls :: "calib_call list"
  rn_dwellTimers :: "string list"
  rn_tasks :: "(nat, pc) jsmap"
  rn_nextTask :: nat

definition emit_call :: "calib_call \<Rightarrow> runner \<Rightarrow> runner" where
  "emit_call c r = r\<lparr>rn_calls := rn_calls r @ [c]\<rparr>"

definition probeOf :: "runner \<Rightarrow> string \<Rightarrow> active_probe" where
  "probeOf r pid = the (js_get (rn_probes r) pid)"

definition putProbe :: "active_probe \<Rightarrow> runner \<Rightarrow> runner" where
  "putProbe p r = r\<lparr>rn_probes := js_set (ap_probeId p) p (rn_probes r)\<rparr>"

definition setProbeState :: "string \<Rightarrow> probe_state \<Rightarrow> runner \<Rightarrow> runner" where
  "setProbeState pid st r = putProbe ((probeOf r pid)\<lparr>ap_state := st\<rparr>) r"

definition spawn :: "pc \<Rightarrow> runner \<Rightarrow> runner" where
  "spawn c r = (if c = PcDone then r else r\<lparr>rn_tasks := rn_tasks r @ [(rn_nextTask r, c)], rn_nextTask := Suc (rn_nextTask r)\<rparr>)"

definition draw :: "calibration_config \<Rightarrow> runner \<Rightarrow> rat \<times> runner" where
  "draw cfg r = (cc_random cfg (rn_draws r), r\<lparr>rn_draws := Suc (rn_draws r)\<rparr>)"

definition scheduleCooldown :: "calibration_config \<Rightarrow> int \<Rightarrow> runner \<Rightarrow> runner" where
  "scheduleCooldown cfg now r =
     (let span = max 0 (cc_cooldownMaxMs cfg - cc_cooldownMinMs cfg); (x, r) = draw cfg r
      in r\<lparr>rn_nextProbeAtMs := now + cc_cooldownMinMs cfg + \<lfloor>x * of_int span\<rfloor>\<rparr>)"

section \<open>Counterfactual exchanges\<close>

definition mapCounterfactuals :: "(cf_exchange \<Rightarrow> unit exchange) \<Rightarrow> runner \<Rightarrow> runner" where
  "mapCounterfactuals f r = r\<lparr>rn_counterfactuals := map (\<lambda>c. (fst c, f c)) (rn_counterfactuals r)\<rparr>"

definition modelName :: "cf_exchange \<Rightarrow> string" where
  "modelName c = fm_name (xo_fillModel (fst c))"

definition recordCounterfactualFill :: "string \<Rightarrow> runner \<Rightarrow> simulated_fill \<Rightarrow> runner" where
  "recordCounterfactualFill model r f =
     (let byModel = js_or (rn_cfFillsByClientId r) (fl_clientOrderId f) []
      in r\<lparr>rn_cfFillsByClientId := js_set (fl_clientOrderId f) (if js_has byModel model then byModel else js_set model f byModel)
             (rn_cfFillsByClientId r)\<rparr>)"

definition onEachModel :: "(cf_exchange \<Rightarrow> simulated_fill list \<times> unit exchange) \<Rightarrow> runner \<Rightarrow> runner" where
  \<comment> \<open>runs an operation on every exchange and records the fills it reports\<close>
  "onEachModel f r =
     foldl (\<lambda>r c. foldl (recordCounterfactualFill (modelName c)) r (fst (f c)))
       (mapCounterfactuals (\<lambda>c. snd (f c)) r) (rn_counterfactuals r)"

definition probeIntent :: "active_probe \<Rightarrow> order_intent" where
  "probeIntent p = LimitIntent
     \<lparr>li_marketTicker = ap_marketTicker p, li_side = (if ap_side p = Bid then Yes else No), li_action = Buy,
      li_price = (if ap_side p = Bid then ap_yesPrice p else 1 - ap_yesPrice p), li_quantity = of_int (ap_quantity p),
      li_clientOrderId = ap_clientOrderId p, li_timeInForce = None, li_tag = Some (ap_probeId p)\<rparr>"

definition submitAdvance :: "market_store \<Rightarrow> order_intent \<Rightarrow> int \<Rightarrow> cf_exchange \<Rightarrow> unit exchange" where
  "submitAdvance store intent atMs c =
     (let (_, ex) = submit (fst c) store intent atMs (snd c); (_, _, ex) = advanceTo (fst c) store atMs ex in ex)"

definition submitCounterfactuals :: "active_probe \<Rightarrow> runner \<Rightarrow> runner" where
  "submitCounterfactuals p r = mapCounterfactuals (submitAdvance (rn_state r) (probeIntent p) (rn_clockMs r)) r"

definition cancelCounterfactuals :: "active_probe \<Rightarrow> runner \<Rightarrow> runner" where
  "cancelCounterfactuals p r =
     mapCounterfactuals (submitAdvance (rn_state r) (CancelIntent (ap_clientOrderId p)) (rn_clockMs r)) r"

definition modelledQueue :: "active_probe \<Rightarrow> cf_exchange list \<Rightarrow> (string, rat) jsmap" where
  "modelledQueue p cs =
     foldl (\<lambda>m c. case Option.bind (findByClientId (ap_clientOrderId p) (snd c)) so_queue of
              None \<Rightarrow> m | Some q \<Rightarrow> js_set (modelName c) (qs_queueAheadAtEntry q) m) (ap_modelledQueueAtEntry p) cs"

definition counterfactualRow :: "active_probe \<Rightarrow> (string, simulated_fill) jsmap \<Rightarrow> cf_exchange \<Rightarrow> counterfactual_row" where
  "counterfactualRow p byModel c =
     (let fill = js_get byModel (modelName c);
          queued = map_option qs_queueAheadAtEntry (Option.bind (findByClientId (ap_clientOrderId p) (snd c)) so_queue)
      in \<lparr>cw_probeId = ap_probeId p, cw_fillModel = modelName c, cw_wouldFill = (fill \<noteq> None),
          cw_fillTimeMs = (if ap_restingSinceMs p = None then None else map_option (\<lambda>f. fl_filledAtMs f - fl_arrivedAtMs f) fill),
          cw_fillReason = map_option sl_reason fill,
          cw_queueAtEntry = (case Option.bind fill sl_queueAheadAtEntry of Some q \<Rightarrow> Some q
                             | None \<Rightarrow> case queued of Some q \<Rightarrow> Some q | None \<Rightarrow> js_get (ap_modelledQueueAtEntry p) (modelName c)),
          cw_queueBeforeFill = Option.bind fill sl_queueAheadBeforeFill\<rparr>)"

section \<open>Cancelling\<close>

definition isFinal :: "probe_state \<Rightarrow> bool" where
  "isFinal st = (st = PsFilled \<or> st = PsCancelled)"

text \<open>\<open>cancelProbe\<close> up to its first await, or none when it returns at once.\<close>

definition beginCancel :: "int \<Rightarrow> string \<Rightarrow> string \<Rightarrow> cancel_cont \<Rightarrow> runner \<Rightarrow> (pc \<times> runner) option" where
  "beginCancel now pid why k r =
     (let p = probeOf r pid in
      if ap_state p \<noteq> PsResting \<and> ap_state p \<noteq> PsCancelling then None
      else case ap_orderId p of
             None \<Rightarrow> None
           | Some oid \<Rightarrow>
               if oid = [] then None
               else Some (PcCancelOrder pid why now k,
                          emit_call (CaCancelOrder oid (ap_clientOrderId p) (ap_marketTicker p)) (setProbeState pid PsCancelling r)))"

fun endRest :: "rest_end \<Rightarrow> runner \<Rightarrow> pc \<times> runner" where
  "endRest EndTask r = (PcDone, r)"
| "endRest (EndShutdown threw) r = (PcStopFeed threw, emit_call CaStopFeed r)"

text \<open>The loop of \<open>cancelEverything\<close> over the probes that were active when it began.\<close>

fun nextCancel :: "int \<Rightarrow> string list \<Rightarrow> string \<Rightarrow> rest_end \<Rightarrow> runner \<Rightarrow> pc \<times> runner" where
  "nextCancel now [] why e r = endRest e r"
| "nextCancel now (pid # pids) why e r =
     (if isFinal (ap_state (probeOf r pid)) then nextCancel now pids why e r
      else case beginCancel now pid why (KRest pids why e) r of
             None \<Rightarrow> (PcRest pids why e, r)
           | Some s \<Rightarrow> s)"

definition activeProbes :: "runner \<Rightarrow> string list" where
  "activeProbes r = map snd (rn_active r)"

definition cancelEverything :: "int \<Rightarrow> string \<Rightarrow> rest_end \<Rightarrow> runner \<Rightarrow> pc \<times> runner" where
  "cancelEverything now why e r = nextCancel now (activeProbes r) why e r"

definition halt :: "int \<Rightarrow> stop_reason \<Rightarrow> runner \<Rightarrow> runner" where
  "halt now reason r =
     (if rn_halted r \<noteq> None then r
      else (let r = emit_call (CaEvent ''killed'' None) (r\<lparr>rn_halted := Some reason\<rparr>);
                (c, r) = cancelEverything now ''halted'' EndTask r
            in spawn c r))"

text \<open>What follows a \<open>cancelProbe\<close> that returned, or threw.\<close>

definition afterReconcile :: "calibration_config \<Rightarrow> int \<Rightarrow> runner \<Rightarrow> pc \<times> runner" where
  "afterReconcile cfg now r = (PcIdle, scheduleCooldown cfg now (halt now SrAmbiguousOrderState r))"

fun cancelReturned :: "calibration_config \<Rightarrow> int \<Rightarrow> cancel_cont \<Rightarrow> runner \<Rightarrow> pc \<times> runner" where
  "cancelReturned cfg now KNone r = (PcDone, r)"
| "cancelReturned cfg now (KRest pids why e) r = nextCancel now pids why e r"
| "cancelReturned cfg now (KReconcile pid) r = afterReconcile cfg now r"

fun cancelThrew :: "int \<Rightarrow> cancel_cont \<Rightarrow> runner \<Rightarrow> pc \<times> runner" where
  "cancelThrew now KNone r = (PcDone, r)"
| "cancelThrew now (KRest pids why e) r = nextCancel now pids why e r"
| "cancelThrew now (KReconcile pid) r =
     (PcAmbiguousEvent, emit_call (CaEvent ''ambiguous'' (Some (ap_marketTicker (probeOf r pid)))) r)"

definition forgetProbe :: "active_probe \<Rightarrow> runner \<Rightarrow> runner" where
  \<comment> \<open>the level, the active probe and its order\<close>
  "forgetProbe p r =
     r\<lparr>rn_levels := unwatch (ap_levelKey p) (rn_levels r), rn_active := js_del (ap_clientOrderId p) (rn_active r),
       rn_byOrderId := (case ap_orderId p of None \<Rightarrow> rn_byOrderId r | Some oid \<Rightarrow> if oid = [] then rn_byOrderId r else js_del oid (rn_byOrderId r))\<rparr>"

text \<open>\<open>persistCounterfactuals\<close>: a row for each model, and then what follows it.\<close>

definition afterPersist :: "calibration_config \<Rightarrow> int \<Rightarrow> string \<Rightarrow> persist_cont \<Rightarrow> runner \<Rightarrow> pc \<times> runner" where
  "afterPersist cfg now pid pk r =
     (let p = probeOf r pid;
          r = r\<lparr>rn_cfFillsByClientId := js_del (ap_clientOrderId p) (rn_cfFillsByClientId r)\<rparr>
      in case pk of
           PkCancel k \<Rightarrow> cancelReturned cfg now k (forgetProbe p (r\<lparr>rn_premiums := js_del (ap_marketTicker p) (rn_premiums r)\<rparr>))
         | PkFill \<Rightarrow> (PcDone, forgetProbe p r))"

fun persistNext ::
  "calibration_config \<Rightarrow> int \<Rightarrow> string \<Rightarrow> nat list \<Rightarrow> (string, simulated_fill) jsmap \<Rightarrow> persist_cont \<Rightarrow> runner \<Rightarrow> pc \<times> runner" where
  "persistNext cfg now pid [] byModel pk r = afterPersist cfg now pid pk r"
| "persistNext cfg now pid (i # is) byModel pk r =
     (PcPersist pid is byModel pk, emit_call (CaCounterfactual (counterfactualRow (probeOf r pid) byModel (rn_counterfactuals r ! i))) r)"

definition persistCounterfactuals :: "calibration_config \<Rightarrow> int \<Rightarrow> string \<Rightarrow> persist_cont \<Rightarrow> runner \<Rightarrow> pc \<times> runner" where
  "persistCounterfactuals cfg now pid pk r =
     persistNext cfg now pid [0..<length (rn_counterfactuals r)] (js_or (rn_cfFillsByClientId r) (ap_clientOrderId (probeOf r pid)) []) pk r"

definition afterCancel :: "calibration_config \<Rightarrow> int \<Rightarrow> string \<Rightarrow> cancel_cont \<Rightarrow> runner \<Rightarrow> pc \<times> runner" where
  "afterCancel cfg now pid k r = persistCounterfactuals cfg now pid (PkCancel k) (cancelCounterfactuals (probeOf r pid) r)"

definition goneBegin :: "string \<Rightarrow> int \<Rightarrow> cancel_cont \<Rightarrow> runner \<Rightarrow> pc \<times> runner" where
  \<comment> \<open>the exchange answered that it cannot cancel, or the database refused a row\<close>
  "goneBegin pid decisionTsMs k r = (PcGoneRecorded pid k, emit_call (CaRecordCancel pid decisionTsMs None None) r)"

definition answeredCancel :: "string \<Rightarrow> string \<Rightarrow> int \<Rightarrow> cancel_cont \<Rightarrow> answer \<Rightarrow> runner \<Rightarrow> pc \<times> runner" where
  "answeredCancel pid why decisionTsMs k ans r =
     (case ans of
        AnCancelled sendTs ackTs \<Rightarrow>
          (PcCancelRecorded pid why decisionTsMs k, emit_call (CaRecordCancel pid decisionTsMs (Some sendTs) (Some ackTs)) r)
      | AnAmbiguous \<Rightarrow>
          (PcAmbRecorded pid k, emit_call (CaRecordCancel pid decisionTsMs None None) (setProbeState pid PsAmbiguous r))
      | _ \<Rightarrow> goneBegin pid decisionTsMs k r)"

section \<open>The account and what blocks a probe\<close>

definition bump :: "'k \<Rightarrow> ('k, int) jsmap \<Rightarrow> ('k, int) jsmap" where
  "bump k m = js_set k (js_or m k 0 + 1) m"

definition livePids :: "runner \<Rightarrow> string list" where
  "livePids r = filter (\<lambda>pid. \<not> isFinal (ap_state (probeOf r pid))) (activeProbes r)"

definition accountState :: "runner \<Rightarrow> account_state" where
  "accountState r =
     (let live = map (probeOf r) (livePids r);
          byMarket = foldl (\<lambda>m p. bump (ap_marketTicker p) m) [] live
      in \<lparr>as_restingByMarket = byMarket, as_positionByMarket = rn_positions r, as_premiumAtRiskByMarket = rn_premiums r,
          as_probesInFlight = byMarket, as_seriesInFlight = foldl (\<lambda>m p. bump (ap_seriesTicker p) m) [] live,
          as_fillsToday = rn_fillsToday r, as_ordersToday = rn_ordersToday r\<rparr>)"

definition blockingCondition :: "calibration_config \<Rightarrow> runner \<Rightarrow> stop_reason option" where
  "blockingCondition cfg r =
     (if \<not> rn_feedUp r then Some SrPrivateFeedDown
      else if rn_privateFeedDownAt r \<noteq> None then Some SrPrivateFeedDown
      else if list_ex (\<lambda>pid. ap_state (probeOf r pid) = PsAmbiguous) (activeProbes r) then Some SrAmbiguousOrderState
      else if isKilled (cc_envelope cfg) (accountState r) then Some SrRiskLimit
      else None)"

section \<open>Where to place a probe\<close>

definition eligibleCandidates :: "calibration_config \<Rightarrow> int \<Rightarrow> runner \<Rightarrow> candidate list" where
  "eligibleCandidates cfg nowMs r =
     List.map_filter (\<lambda>view.
       let ticker = mb_ticker view;
           marketState = js_get (rn_marketStates r) ticker;
           series = (case Option.bind marketState ms_seriesTicker of Some s \<Rightarrow> s | None \<Rightarrow> takeWhile (\<lambda>c. c \<noteq> CHR ''-'') ticker);
           e = assessEligibility (cc_dec cfg)
                 \<lparr>ei_marketTicker = ticker, ei_seriesTicker = series, ei_book = Some view, ei_state = marketState,
                  ei_recentTrades = tradesIn ticker nowMs (rn_activity r), ei_recentDeltas = deltasIn ticker nowMs (rn_activity r),
                  ei_nowMs = nowMs\<rparr> (cc_envelope cfg)
       in case (el_eligible e, el_stratum e, el_mid e) of
            (True, Some stratum, Some mid) \<Rightarrow>
              Some \<lparr>ca_marketTicker = ticker, ca_seriesTicker = series, ca_stratum = stratum, ca_mid = mid,
                    ca_touchDepth = (case el_touchDepth e of None \<Rightarrow> 0 | Some d \<Rightarrow> d), ca_bboChanges = bboChangesIn ticker nowMs (rn_activity r)\<rparr>
          | _ \<Rightarrow> None) (ms_views (rn_state r))"

definition selectAtTouch :: "calibration_config \<Rightarrow> candidate list \<Rightarrow> runner \<Rightarrow> placement option \<times> runner" where
  "selectAtTouch cfg cands r =
     (let (x, r) = draw cfg r in
      case selectNext cands (rn_sampledByStratum r) x (cc_preferChurn cfg) of
        None \<Rightarrow> (None, r)
      | Some chosen \<Rightarrow>
          (let (y, r) = draw cfg r; side = chooseSide y
           in case ms_view (ca_marketTicker chosen) (rn_state r) of
                None \<Rightarrow> (None, r)
              | Some book \<Rightarrow>
                  (let bbo = view_bbo (cc_dec cfg) book
                   in if \<not> mb_valid book then (None, r)
                      else case (bbo_bid bbo, bbo_ask bbo) of
                             (Some bid, Some ask) \<Rightarrow>
                               (Some \<lparr>pm_chosen = chosen, pm_side = side, pm_yesPrice = (if side = Bid then bid else ask),
                                      pm_ticksBehind = 0, pm_book = book\<rparr>, r)
                           | _ \<Rightarrow> (None, r))))"

text \<open>One option of the design: a side and a distance behind the touch of a candidate's book.\<close>

definition behindOption ::
  "calibration_config \<Rightarrow> candidate \<Rightarrow> market_book \<Rightarrow> rat \<Rightarrow> rat \<Rightarrow> ladder_side \<Rightarrow> int \<Rightarrow> placement option" where
  "behindOption cfg candidate book bestBid bestAsk side ticks =
     (let step = ddiv (cc_dec cfg) (of_int ticks) 100;
          yesPrice = (if side = Bid then bestBid - step else bestAsk + step)
      in if yesPrice \<le> 0 \<or> 1 \<le> yesPrice then None
         else if side = Bid \<and> bestAsk \<le> yesPrice then None
         else if side = Ask \<and> yesPrice \<le> bestBid then None
         else if cc_requireRestingAtTarget cfg \<and> ad_sameLevel (view_depthAhead (cc_dec cfg) side yesPrice book) \<le> 0 then None
         else Some \<lparr>pm_chosen = candidate, pm_side = side, pm_yesPrice = yesPrice, pm_ticksBehind = ticks, pm_book = book\<rparr>)"

definition behindOptions :: "calibration_config \<Rightarrow> runner \<Rightarrow> int list \<Rightarrow> candidate \<Rightarrow> placement list" where
  "behindOptions cfg r ticksChoices candidate =
     (case ms_view (ca_marketTicker candidate) (rn_state r) of
        None \<Rightarrow> []
      | Some book \<Rightarrow>
          if \<not> mb_valid book then []
          else (let bbo = view_bbo (cc_dec cfg) book
                in case (bbo_bid bbo, bbo_ask bbo) of
                     (Some bid, Some ask) \<Rightarrow>
                       concat (map (\<lambda>side. List.map_filter (behindOption cfg candidate book bid ask side) ticksChoices) [Bid, Ask])
                   | _ \<Rightarrow> []))"

definition cellOf :: "placement \<Rightarrow> design_cell" where
  "cellOf pm = \<lparr>dc_seriesTicker = ca_seriesTicker (pm_chosen pm), dc_side = pm_side pm, dc_ticksBehind = pm_ticksBehind pm\<rparr>"

definition selectBehindTouch :: "calibration_config \<Rightarrow> candidate list \<Rightarrow> int list \<Rightarrow> runner \<Rightarrow> placement option \<times> runner" where
  "selectBehindTouch cfg cands ticksChoices r =
     (let options = concat (map (behindOptions cfg r ticksChoices) cands)
      in if options = [] then (None, r)
         else (let (x, r) = draw cfg r in
               case selectLeastSampledCell (map cellOf options) (rn_sampledByCell r) x of
                 None \<Rightarrow> (None, r)
               | Some cell \<Rightarrow>
                   (let (y, r) = draw cfg r in (drawn y (filter (\<lambda>pm. cellId (cellOf pm) = cellId cell) options), r))))"

section \<open>Launching a probe\<close>

definition shutdown :: "int \<Rightarrow> bool \<Rightarrow> runner \<Rightarrow> pc \<times> runner" where
  "shutdown now threw r = cancelEverything now ''run ending'' (EndShutdown threw) (r\<lparr>rn_queueTimer := False\<rparr>)"

definition launchProbe :: "calibration_config \<Rightarrow> int \<Rightarrow> placement \<Rightarrow> rat \<Rightarrow> runner \<Rightarrow> pc \<times> runner" where
  "launchProbe cfg now pm premium r =
     (let L = cc_dec cfg; chosen = pm_chosen pm; side = pm_side pm; yesPrice = pm_yesPrice pm; book = pm_book pm;
          probeId = cc_uuid cfg (rn_uuids r); r = r\<lparr>rn_uuids := Suc (rn_uuids r)\<rparr>;
          clientOrderId = ''cal-'' @ take 18 probeId;
          (x, r) = draw cfg r;
          dwellMs = the (chooseDwellMs x (case cc_dwellChoicesMs cfg of None \<Rightarrow> DWELL_CHOICES_MS | Some cs \<Rightarrow> cs));
          orderSide = (if side = Bid then Yes else No);
          priceCents = half_even ((if side = Bid then yesPrice else 1 - yesPrice) * 100)
      in if priceCents < 1 \<or> 99 < priceCents then (PcIdle, r)
         else
           (let ahead = view_depthAhead L side yesPrice book;
                expirationTs = (now + dwellMs + cc_expirationSlackMs cfg) div 1000;
                row = \<lparr>pw_probeId = probeId, pw_marketTicker = ca_marketTicker chosen, pw_seriesTicker = ca_seriesTicker chosen,
                       pw_eventTicker = Option.bind (js_get (rn_marketStates r) (ca_marketTicker chosen)) ms_eventTicker,
                       pw_stratum = ca_stratum chosen, pw_probeSide = side, pw_plannedDwellMs = dwellMs, pw_decisionTsMs = now,
                       pw_bookHashAtDecision = view_stateHash L (cc_sha cfg) book, pw_decisionBbo = view_bbo L book,
                       pw_decisionImbalance1 = view_imbalance L 1 book, pw_decisionImbalance3 = view_imbalance L 3 book,
                       pw_displayedSizeAtEntry = ad_sameLevel ahead, pw_betterDepthAtEntry = ad_better ahead,
                       pw_clientOrderId = clientOrderId, pw_orderSide = orderSide, pw_priceCents = priceCents, pw_yesPrice = yesPrice,
                       pw_quantity = ce_orderSize (cc_envelope cfg), pw_expirationTs = expirationTs\<rparr>;
                probe = \<lparr>ap_probeId = probeId, ap_clientOrderId = clientOrderId, ap_orderId = None, ap_marketTicker = ca_marketTicker chosen,
                         ap_seriesTicker = ca_seriesTicker chosen, ap_side = side, ap_yesPrice = yesPrice,
                         ap_ticksBehindAtEntry = pm_ticksBehind pm, ap_priceCents = priceCents, ap_quantity = ce_orderSize (cc_envelope cfg),
                         ap_plannedDwellMs = dwellMs, ap_restingSinceMs = None, ap_levelKey = [], ap_state = PsSubmitting, ap_queueSeqNo = 0,
                         ap_lastQueuePosition = None, ap_recordedInitialQueue = False, ap_premium = premium,
                         ap_stratum = stratumId (ca_stratum chosen), ap_modelledQueueAtEntry = []\<rparr>
            in (PcInsert probe (ca_stratum chosen) now expirationTs, emit_call (CaInsertProbe row) r)))"

definition retryLater :: "int \<Rightarrow> runner \<Rightarrow> pc \<times> runner" where
  "retryLater now r = (PcIdle, r\<lparr>rn_nextProbeAtMs := now + 2000\<rparr>)"

definition selectPlacement :: "calibration_config \<Rightarrow> candidate list \<Rightarrow> runner \<Rightarrow> placement option \<times> runner" where
  "selectPlacement cfg cands r =
     (if cc_behindTouchTicks cfg \<noteq> [] then selectBehindTouch cfg cands (cc_behindTouchTicks cfg) r else selectAtTouch cfg cands r)"

definition premiumOf :: "calibration_config \<Rightarrow> placement \<Rightarrow> rat" where
  "premiumOf cfg pm = premiumForProbe (pm_yesPrice pm) (pm_side pm) (ce_orderSize (cc_envelope cfg))"

definition maybeLaunchProbe :: "calibration_config \<Rightarrow> int \<Rightarrow> runner \<Rightarrow> pc \<times> runner" where
  "maybeLaunchProbe cfg now r =
     (if now < rn_nextProbeAtMs r then (PcIdle, r)
      else case blockingCondition cfg r of
             Some reason \<Rightarrow>
               retryLater now (if reason = SrRiskLimit \<or> reason = SrAmbiguousOrderState then halt now reason r else r)
           | None \<Rightarrow>
               (let cands = eligibleCandidates cfg now r in
                if cands = [] then retryLater now r
                else (let (placed, r) = selectPlacement cfg cands r in
                      case placed of
                        None \<Rightarrow> retryLater now r
                      | Some pm \<Rightarrow>
                          (let premium = premiumOf cfg pm in
                           case mayPlaceProbe (cc_envelope cfg) (accountState r) (ca_marketTicker (pm_chosen pm)) (ca_seriesTicker (pm_chosen pm)) premium of
                             Some reason \<Rightarrow> (PcBlocked now, emit_call (CaEvent ''blocked'' (Some (ca_marketTicker (pm_chosen pm)))) r)
                           | None \<Rightarrow> launchProbe cfg now pm premium r))))"

section \<open>The life of an order\<close>

definition probeInserted :: "calibration_config \<Rightarrow> active_probe \<Rightarrow> int \<Rightarrow> int \<Rightarrow> runner \<Rightarrow> pc \<times> runner" where
  "probeInserted cfg probe decisionTsMs expirationTs r =
     (let (key, levels) = watch (cc_dec cfg) (ap_marketTicker probe) (ap_side probe) (ap_yesPrice probe) (rn_levels r);
          probe = probe\<lparr>ap_levelKey := key\<rparr>;
          cell = cellId \<lparr>dc_seriesTicker = ap_seriesTicker probe, dc_side = ap_side probe, dc_ticksBehind = ap_ticksBehindAtEntry probe\<rparr>;
          r = putProbe probe r;
          r = r\<lparr>rn_levels := levels, rn_active := js_set (ap_clientOrderId probe) (ap_probeId probe) (rn_active r),
                rn_ordersToday := rn_ordersToday r + 1, rn_sampledByStratum := bump (ap_stratum probe) (rn_sampledByStratum r),
                rn_sampledByCell := bump cell (rn_sampledByCell r)\<rparr>
      in (PcAttempted probe decisionTsMs expirationTs, emit_call CaAttempted r))"

definition submission :: "string option \<Rightarrow> int option \<Rightarrow> int option \<Rightarrow> int option \<Rightarrow> string \<Rightarrow> submission_row" where
  "submission orderId sendTs ackTs status terminal =
     \<lparr>sb_orderId = orderId, sb_httpSendTsMs = sendTs, sb_httpAckTsMs = ackTs, sb_httpStatus = status, sb_terminalState = terminal\<rparr>"

definition sendOrder :: "calibration_config \<Rightarrow> active_probe \<Rightarrow> int \<Rightarrow> int \<Rightarrow> runner \<Rightarrow> pc \<times> runner" where
  "sendOrder cfg p decisionTsMs expirationTs r =
     (if cc_dryRun cfg
      then (PcDry (ap_probeId p), emit_call (CaSubmission (ap_probeId p)
              (submission None (Some decisionTsMs) (Some decisionTsMs) None ''aborted'')) r)
      else (PcCreate (ap_probeId p), emit_call (CaCreateOrder
              \<lparr>cq_clientOrderId = ap_clientOrderId p, cq_marketTicker = ap_marketTicker p, cq_side = ap_side p, cq_price = ap_yesPrice p,
               cq_count = ce_orderSize (cc_envelope cfg), cq_postOnly = True, cq_cancelOrderOnPause = True,
               cq_expirationTime = expirationTs, cq_orderGroupId = rn_orderGroupId r\<rparr>) r))"

definition dryDone :: "calibration_config \<Rightarrow> int \<Rightarrow> string \<Rightarrow> runner \<Rightarrow> pc \<times> runner" where
  "dryDone cfg now pid r =
     (let p = probeOf r pid
      in (PcIdle, scheduleCooldown cfg now
            (r\<lparr>rn_active := js_del (ap_clientOrderId p) (rn_active r), rn_levels := unwatch (ap_levelKey p) (rn_levels r)\<rparr>)))"

text \<open>\<open>handleSubmitFailure\<close> up to its first await.\<close>

definition submitFailed :: "string \<Rightarrow> answer \<Rightarrow> runner \<Rightarrow> pc \<times> runner" where
  "submitFailed pid ans r =
     (let p = probeOf r pid; r = r\<lparr>rn_levels := unwatch (ap_levelKey p) (rn_levels r)\<rparr>
      in if ans = AnAmbiguous
         then (PcFailAmbiguous pid, emit_call (CaSubmission pid (submission None None None None ''ambiguous'')) (setProbeState pid PsAmbiguous r))
         else (let r = setProbeState pid PsRejected r;
                   status = (case ans of AnApiError s \<Rightarrow> Some s | _ \<Rightarrow> None)
               in (PcRejected pid, emit_call (CaSubmission pid (submission None None None status ''rejected''))
                     (r\<lparr>rn_active := js_del (ap_clientOrderId p) (rn_active r)\<rparr>))))"

definition orderCreated :: "string \<Rightarrow> string \<Rightarrow> int \<Rightarrow> int \<Rightarrow> int \<Rightarrow> runner \<Rightarrow> pc \<times> runner" where
  "orderCreated pid oid sendTs ackTs status r =
     (let p = (probeOf r pid)\<lparr>ap_orderId := Some oid, ap_state := PsResting, ap_restingSinceMs := Some ackTs\<rparr>;
          r = putProbe p r;
          r = r\<lparr>rn_byOrderId := js_set oid pid (rn_byOrderId r),
                rn_premiums := js_set (ap_marketTicker p) (js_or (rn_premiums r) (ap_marketTicker p) 0 + ap_premium p) (rn_premiums r)\<rparr>
      in (PcRecordPlaced pid, emit_call (CaSubmission pid (submission (Some oid) (Some sendTs) (Some ackTs) (Some status) ''resting'')) r))"

text \<open>\<open>pollQueuePositions\<close> up to its request.\<close>

definition restingProbes :: "runner \<Rightarrow> string list" where
  "restingProbes r = filter (\<lambda>pid. ap_state (probeOf r pid) = PsResting
     \<and> (case ap_orderId (probeOf r pid) of None \<Rightarrow> False | Some oid \<Rightarrow> oid \<noteq> [])) (activeProbes r)"

definition pollQueuePositions :: "calibration_config \<Rightarrow> runner \<Rightarrow> pc \<times> runner" where
  "pollQueuePositions cfg r =
     (if cc_dryRun cfg then (PcDone, r)
      else (let resting = restingProbes r in
            if resting = [] then (PcDone, r)
            else (PcPoll resting, emit_call (CaQueuePositions (foldl (\<lambda>ms pid. set_add (ap_marketTicker (probeOf r pid)) ms) [] resting)) r)))"

definition orderPlaced :: "calibration_config \<Rightarrow> int \<Rightarrow> string \<Rightarrow> runner \<Rightarrow> pc \<times> runner" where
  "orderPlaced cfg now pid r =
     (let r = submitCounterfactuals (probeOf r pid) r;
          r = putProbe ((probeOf r pid)\<lparr>ap_modelledQueueAtEntry := modelledQueue (probeOf r pid) (rn_counterfactuals r)\<rparr>) r;
          (c, r) = pollQueuePositions cfg r;
          r = spawn c r;
          r = r\<lparr>rn_dwellTimers := rn_dwellTimers r @ [pid]\<rparr>
      in (PcIdle, scheduleCooldown cfg now r))"

definition ordersListed :: "string \<Rightarrow> answer \<Rightarrow> runner \<Rightarrow> pc \<times> runner" where
  "ordersListed pid ans r =
     (let p = probeOf r pid;
          found = (case ans of AnOrders orders \<Rightarrow> List.find (\<lambda>q. snd q = ap_clientOrderId p) orders | _ \<Rightarrow> None)
      in case found of
           Some (oid, _) \<Rightarrow>
             (let r = putProbe (p\<lparr>ap_orderId := Some oid, ap_state := PsCancelling\<rparr>) r
              in (PcReconciledEvent pid, emit_call (CaEvent ''reconciled'' (Some (ap_marketTicker p)))
                    (r\<lparr>rn_byOrderId := js_set oid pid (rn_byOrderId r)\<rparr>)))
         | None \<Rightarrow> (PcAmbiguousEvent, emit_call (CaEvent ''ambiguous'' (Some (ap_marketTicker p))) r))"

section \<open>Queue positions\<close>

definition observeQueue :: "calibration_config \<Rightarrow> int \<Rightarrow> queue_reading \<Rightarrow> poll_rest \<Rightarrow> runner \<Rightarrow> pc \<times> runner" where
  "observeQueue cfg now rd rest r =
     (let pid = qr_probeId rd; q = qr_queuePosition rd; p = probeOf r pid;
          informative = (case (q, ap_lastQueuePosition p) of
                           (Some x, Some y) \<Rightarrow> 1 \<le> \<bar>x - y\<bar> \<and> 1 \<le> (case qr_ticks rd of None \<Rightarrow> 0 | Some t \<Rightarrow> t) | _ \<Rightarrow> False);
          r = (if informative then r\<lparr>rn_informativeMoves := rn_informativeMoves r + 1\<rparr> else r);
          r = (if informative \<and> 0 < cc_targetInformativeMoves cfg \<and> cc_targetInformativeMoves cfg \<le> rn_informativeMoves r
               then halt now SrTargetObservationsReached r else r);
          r = (if q = None then r else putProbe ((probeOf r pid)\<lparr>ap_lastQueuePosition := q\<rparr>) r);
          p = probeOf r pid;
          book = (case ms_view (ap_marketTicker p) (rn_state r) of None \<Rightarrow> None | Some b \<Rightarrow> if mb_valid b then Some b else None)
      in (PcObserved rest, emit_call (CaQueueObservation
            \<lparr>qo_probeId = pid, qo_seqNo = ap_queueSeqNo p, qo_pollSendTsMs = qr_sendTs rd, qo_pollReceiveTsMs = qr_ackTs rd,
             qo_timeSinceEntryMs = (case ap_restingSinceMs p of None \<Rightarrow> 0 | Some t \<Rightarrow> qr_sendTs rd - t), qo_queuePosition = q,
             qo_ahead = qr_ahead rd, qo_bbo = qr_bbo rd,
             qo_imbalance1 = Option.bind book (view_imbalance (cc_dec cfg) 1), qo_imbalance3 = Option.bind book (view_imbalance (cc_dec cfg) 3),
             qo_activity = qr_activity rd, qo_ticksFromTouch = qr_ticks rd\<rparr>) r))"

definition pollNext :: "calibration_config \<Rightarrow> int \<Rightarrow> poll_rest \<Rightarrow> runner \<Rightarrow> pc \<times> runner" where
  "pollNext cfg now rest r =
     (case pr_probes rest of
        [] \<Rightarrow> (PcDone, r)
      | pid # pids \<Rightarrow>
          (let L = cc_dec cfg; p = probeOf r pid; rest = rest\<lparr>pr_probes := pids\<rparr>;
               q = (case ap_orderId p of None \<Rightarrow> None | Some oid \<Rightarrow> js_or (pr_byOrder rest) oid None);
               book = (case ms_view (ap_marketTicker p) (rn_state r) of None \<Rightarrow> None | Some b \<Rightarrow> if mb_valid b then Some b else None);
               bbo = map_option (view_bbo L) book;
               rd = \<lparr>qr_probeId = pid, qr_queuePosition = q, qr_bbo = bbo,
                     qr_ahead = map_option (view_depthAhead L (ap_side p) (ap_yesPrice p)) book,
                     qr_ticks = Option.bind bbo (\<lambda>b. ticksFromTouch (ap_side p) (ap_yesPrice p) (bbo_bid b) (bbo_ask b)),
                     qr_activity = activityAt (ap_levelKey p) (rn_levels r), qr_sendTs = pr_sendTs rest, qr_ackTs = pr_ackTs rest\<rparr>;
               r = putProbe (p\<lparr>ap_queueSeqNo := ap_queueSeqNo p + 1\<rparr>) r
           in case q of
                Some x \<Rightarrow>
                  if ap_recordedInitialQueue p then observeQueue cfg now rd rest r
                  else (PcInitial rd rest, emit_call (CaInitialQueue pid x (pr_sendTs rest) (pr_ackTs rest))
                          (putProbe ((probeOf r pid)\<lparr>ap_recordedInitialQueue := True\<rparr>) r))
              | None \<Rightarrow> observeQueue cfg now rd rest r))"

definition queueAnswered :: "calibration_config \<Rightarrow> int \<Rightarrow> string list \<Rightarrow> answer \<Rightarrow> runner \<Rightarrow> pc \<times> runner" where
  "queueAnswered cfg now pids ans r =
     (case ans of
        AnQueue rows sendTs ackTs \<Rightarrow>
          pollNext cfg now \<lparr>pr_probes = pids, pr_byOrder = foldl (\<lambda>m (k, v). js_set k v m) [] rows, pr_sendTs = sendTs, pr_ackTs = ackTs\<rparr> r
      | _ \<Rightarrow> (PcDone, r))"

section \<open>Market data\<close>

definition advanceAll :: "runner \<Rightarrow> runner" where
  "advanceAll r =
     onEachModel (\<lambda>c. case advanceTo (fst c) (rn_state r) (rn_clockMs r) (snd c) of (_, fills, ex) \<Rightarrow> (fills, ex)) r"

definition deltaApplied :: "calibration_config \<Rightarrow> base_event \<Rightarrow> delta_body \<Rightarrow> runner \<Rightarrow> runner" where
  "deltaApplied cfg b e r =
     (let L = cc_dec cfg; t = ed_marketTicker e; atMs = be_receiveTimeMs b;
          activity = recordDelta t atMs (rn_activity r);
          activity = (case ms_view t (rn_state r) of
                        None \<Rightarrow> activity
                      | Some view \<Rightarrow>
                          if mb_valid view
                          then recordBbo t atMs (map_option (dl_fixed L 6) (bbo_bid (view_bbo L view))) (map_option (dl_fixed L 6) (bbo_ask (view_bbo L view))) activity
                          else activity)
      in mapCounterfactuals (\<lambda>c. onBookDelta (fst c) b e (snd c))
           (r\<lparr>rn_activity := activity, rn_levels := tracker_onDelta L e (rn_levels r)\<rparr>))"

fun applyKind :: "calibration_config \<Rightarrow> int \<Rightarrow> research_event \<Rightarrow> runner \<Rightarrow> runner" where
  "applyKind cfg now (EvSnapshot b e) r = r\<lparr>rn_state := snd (ms_applySnapshot (cc_dec cfg) b e (rn_state r))\<rparr>"
| "applyKind cfg now (EvDelta b e) r =
     (let (outcome, s) = ms_applyDelta (cc_dec cfg) b e (rn_state r); r = r\<lparr>rn_state := s\<rparr>
      in if ao_applied outcome then deltaApplied cfg b e r else r)"
| "applyKind cfg now (EvTrade b e) r =
     (let r = r\<lparr>rn_activity := recordTradeAt (et_marketTicker e) (be_receiveTimeMs b) (rn_activity r),
                rn_levels := tracker_onTrade (cc_dec cfg) e (rn_levels r)\<rparr>
      in onEachModel (\<lambda>c. onTrade (fst c) (rn_state r) b e (snd c)) r)"
| "applyKind cfg now (EvGap b e) r = halt now SrBookInvalid (r\<lparr>rn_state := snd (applyCaptureGap e (rn_state r))\<rparr>)"
| "applyKind cfg now _ r = r"

definition applyEvent :: "calibration_config \<Rightarrow> int \<Rightarrow> research_event \<Rightarrow> runner \<Rightarrow> runner" where
  "applyEvent cfg now ev r = advanceAll (applyKind cfg now ev r)"

text \<open>One turn of the loop of \<open>run\<close>: from an event to the next await.\<close>

definition sawEvent :: "calibration_config \<Rightarrow> int \<Rightarrow> research_event \<Rightarrow> runner \<Rightarrow> runner" where
  "sawEvent cfg now ev r = applyEvent cfg now ev (r\<lparr>rn_clockMs := max (rn_clockMs r) (be_receiveTimeMs (eventBase ev))\<rparr>)"

definition onEvent :: "calibration_config \<Rightarrow> int \<Rightarrow> research_event \<Rightarrow> runner \<Rightarrow> pc \<times> runner" where
  "onEvent cfg now ev r =
     (let r = sawEvent cfg now ev r
      in if (case rn_deadline r of None \<Rightarrow> False | Some d \<Rightarrow> d \<le> now) then shutdown now False (halt now SrDurationElapsed r)
         else if rn_halted r \<noteq> None \<and> rn_active r = [] then shutdown now False r
         else if rn_halted r = None then maybeLaunchProbe cfg now r
         else (PcIdle, r))"

section \<open>The private feed\<close>

record private_fill =
  pv_orderId :: "string option"
  pv_clientOrderId :: "string option"
  pv_count :: "rat option"

definition findProbe :: "string option \<Rightarrow> string option \<Rightarrow> runner \<Rightarrow> string option" where
  "findProbe clientOrderId orderId r =
     (let via = (\<lambda>key m. case key of None \<Rightarrow> None | Some k \<Rightarrow> if k = [] then None else js_get m k)
      in case via clientOrderId (rn_active r) of Some pid \<Rightarrow> Some pid | None \<Rightarrow> via orderId (rn_byOrderId r))"

definition onFilled :: "string \<Rightarrow> private_fill \<Rightarrow> runner \<Rightarrow> pc \<times> runner" where
  "onFilled pid f r =
     (let r = setProbeState pid PsFilled r; p = probeOf r pid;
          filledQty = (case pv_count f of None \<Rightarrow> of_int (ap_quantity p) | Some q \<Rightarrow> q);
          signed = (if ap_side p = Bid then filledQty else - filledQty)
      in (PcFillRecorded pid filledQty, emit_call (CaRecordFill pid filledQty (ap_lastQueuePosition p))
            (r\<lparr>rn_fillsToday := rn_fillsToday r + 1,
               rn_positions := js_set (ap_marketTicker p) (js_or (rn_positions r) (ap_marketTicker p) 0 + signed) (rn_positions r)\<rparr>)))"

section \<open>From an answer to the next await\<close>

definition runThrew :: "int \<Rightarrow> runner \<Rightarrow> pc \<times> runner" where
  "runThrew now r = shutdown now True r"

fun resumePc :: "calibration_config \<Rightarrow> int \<Rightarrow> answer \<Rightarrow> runner \<Rightarrow> pc \<Rightarrow> pc \<times> runner" where
  "resumePc cfg now ans r (PcBlocked since) = retryLater since r"
| "resumePc cfg now ans r (PcInsert probe stratum decisionTs expirationTs) =
     (if ans = AnThrow then runThrew now r else probeInserted cfg probe decisionTs expirationTs r)"
| "resumePc cfg now ans r (PcAttempted probe decisionTs expirationTs) = sendOrder cfg probe decisionTs expirationTs r"
| "resumePc cfg now ans r (PcDry pid) = (if ans = AnThrow then runThrew now r else dryDone cfg now pid r)"
| "resumePc cfg now ans r (PcCreate pid) =
     (case ans of AnCreated oid sendTs ackTs status \<Rightarrow> orderCreated pid oid sendTs ackTs status r | _ \<Rightarrow> submitFailed pid ans r)"
| "resumePc cfg now ans r (PcRecordPlaced pid) =
     (if ans = AnThrow then submitFailed pid AnThrow r else (PcPlaced pid, emit_call CaPlaced r))"
| "resumePc cfg now ans r (PcPlaced pid) = orderPlaced cfg now pid r"
| "resumePc cfg now ans r (PcRejected pid) =
     (if ans = AnThrow then runThrew now r
      else (PcRejectedEvent, emit_call (CaEvent ''warning'' (Some (ap_marketTicker (probeOf r pid)))) r))"
| "resumePc cfg now ans r PcRejectedEvent = (PcIdle, scheduleCooldown cfg now r)"
| "resumePc cfg now ans r (PcFailAmbiguous pid) =
     (if ans = AnThrow then runThrew now r
      else (PcListOrders pid, emit_call (CaListOrders (ap_marketTicker (probeOf r pid))) r))"
| "resumePc cfg now ans r (PcListOrders pid) = ordersListed pid ans r"
| "resumePc cfg now ans r (PcReconciledEvent pid) =
     (case beginCancel now pid ''reconciled'' (KReconcile pid) r of None \<Rightarrow> afterReconcile cfg now r | Some s \<Rightarrow> s)"
| "resumePc cfg now ans r PcAmbiguousEvent = afterReconcile cfg now r"
| "resumePc cfg now ans r (PcCancelOrder pid why decisionTs k) = answeredCancel pid why decisionTs k ans r"
| "resumePc cfg now ans r (PcCancelRecorded pid why decisionTs k) =
     (if ans = AnThrow then goneBegin pid decisionTs k r
      else (PcCancelFinished pid why decisionTs k, emit_call (CaFinishProbe pid ''cancelled'') (setProbeState pid PsCancelled r)))"
| "resumePc cfg now ans r (PcCancelFinished pid why decisionTs k) =
     (if ans = AnThrow then goneBegin pid decisionTs k r else afterCancel cfg now pid k r)"
| "resumePc cfg now ans r (PcGoneRecorded pid k) =
     (if ans = AnThrow then cancelThrew now k r else (PcGoneFinished pid k, emit_call (CaFinishProbe pid ''cancelled'') r))"
| "resumePc cfg now ans r (PcGoneFinished pid k) =
     (if ans = AnThrow then cancelThrew now k r else afterCancel cfg now pid k (setProbeState pid PsCancelled r))"
| "resumePc cfg now ans r (PcAmbRecorded pid k) =
     (if ans = AnThrow then cancelThrew now k r else (PcAmbFinished pid k, emit_call (CaFinishProbe pid ''ambiguous'') r))"
| "resumePc cfg now ans r (PcAmbFinished pid k) =
     (if ans = AnThrow then cancelThrew now k r else cancelReturned cfg now k (halt now SrAmbiguousOrderState r))"
| "resumePc cfg now ans r (PcRest pids why e) = nextCancel now pids why e r"
| "resumePc cfg now ans r (PcPersist pid is byModel pk) = persistNext cfg now pid is byModel pk r"
| "resumePc cfg now ans r (PcFillRecorded pid qty) = (PcFillCounted pid, emit_call (CaFilled qty) r)"
| "resumePc cfg now ans r (PcFillCounted pid) = persistCounterfactuals cfg now pid PkFill (cancelCounterfactuals (probeOf r pid) r)"
| "resumePc cfg now ans r (PcPoll pids) = queueAnswered cfg now pids ans r"
| "resumePc cfg now ans r (PcInitial rd rest) = observeQueue cfg now rd rest r"
| "resumePc cfg now ans r (PcObserved rest) =
     pollNext cfg now rest (if ans = AnThrow then halt now SrPersistenceUnavailable r else r)"
| "resumePc cfg now ans r (PcStopFeed threw) =
     (if threw then (PcEnded True, r)
      else (PcEnding, emit_call (CaEndRun (case rn_halted r of None \<Rightarrow> SrDurationElapsed | Some h \<Rightarrow> h)) r))"
| "resumePc cfg now ans r PcEnding = (PcEnded (ans = AnThrow), r)"
| "resumePc cfg now ans r PcIdle = (PcIdle, r)"
| "resumePc cfg now ans r (PcEnded threw) = (PcEnded threw, r)"
| "resumePc cfg now ans r PcDone = (PcDone, r)"

section \<open>The steps of a run\<close>

datatype calib_step =
  CsEvent research_event | CsStreamEnd | CsPollTimer | CsDwell string | CsFeedDown | CsFeedUp bool
| CsOrderUpdate "string option" "string option" int | CsFill private_fill | CsResume nat answer

definition setTask :: "nat \<Rightarrow> pc \<times> runner \<Rightarrow> runner" where
  "setTask tid s = (case s of (c, r) \<Rightarrow> r\<lparr>rn_tasks := (if c = PcDone then js_del tid (rn_tasks r) else js_set tid c (rn_tasks r))\<rparr>)"

fun calibStep :: "calibration_config \<Rightarrow> runner \<Rightarrow> int \<times> calib_step \<Rightarrow> runner" where
  "calibStep cfg r (now, CsEvent ev) = (if js_get (rn_tasks r) 0 = Some PcIdle then setTask 0 (onEvent cfg now ev r) else r)"
| "calibStep cfg r (now, CsStreamEnd) = (if js_get (rn_tasks r) 0 = Some PcIdle then setTask 0 (shutdown now False r) else r)"
| "calibStep cfg r (now, CsPollTimer) =
     (if rn_queueTimer r then (case pollQueuePositions cfg r of (c, r) \<Rightarrow> spawn c r) else r)"
| "calibStep cfg r (now, CsDwell pid) =
     (if pid \<notin> set (rn_dwellTimers r) then r
      else (let r = r\<lparr>rn_dwellTimers := set_del pid (rn_dwellTimers r)\<rparr> in
            if ap_state (probeOf r pid) \<noteq> PsResting then r
            else case beginCancel now pid ''dwell elapsed'' KNone r of None \<Rightarrow> r | Some (c, r) \<Rightarrow> spawn c r))"
| "calibStep cfg r (now, CsFeedDown) = halt now SrPrivateFeedDown (r\<lparr>rn_privateFeedDownAt := Some now, rn_feedUp := False\<rparr>)"
| "calibStep cfg r (now, CsFeedUp up) = r\<lparr>rn_feedUp := up\<rparr>"
| "calibStep cfg r (now, CsOrderUpdate clientOrderId orderId receivedAt) =
     (case findProbe clientOrderId orderId r of None \<Rightarrow> r | Some pid \<Rightarrow> emit_call (CaPrivateAck pid receivedAt) r)"
| "calibStep cfg r (now, CsFill f) =
     (case findProbe (pv_clientOrderId f) (pv_orderId f) r of
        None \<Rightarrow> r
      | Some pid \<Rightarrow> (case onFilled pid f r of (c, r) \<Rightarrow> spawn c r))"
| "calibStep cfg r (now, CsResume tid ans) =
     (case js_get (rn_tasks r) tid of None \<Rightarrow> r | Some c \<Rightarrow> setTask tid (resumePc cfg now ans r c))"

definition calibRun :: "calibration_config \<Rightarrow> (int \<times> calib_step) list \<Rightarrow> runner \<Rightarrow> runner" where
  "calibRun cfg steps r = foldl (calibStep cfg) r steps"

section \<open>The start of a run\<close>

definition newCounterfactual :: "calibration_config \<Rightarrow> fill_model \<Rightarrow> cf_exchange" where
  "newCounterfactual cfg model =
     (\<lparr>xo_fillModel = model, xo_feeModel = zeroFeeModel, xo_latency = zeroLatencyModel, xo_marketStates = [], xo_gapOrderPolicy = GpCancelAll,
       xo_dec = cc_dec cfg, xo_sha256 = cc_sha cfg, xo_decString = cc_decString cfg\<rparr>, newExchange ())"

definition newRunner :: "calibration_config \<Rightarrow> runner" where
  "newRunner cfg =
     \<lparr>rn_state = newMarketStore, rn_activity = newRecentActivity 120000, rn_levels = [],
      rn_counterfactuals = map (newCounterfactual cfg) (cc_fillModels cfg), rn_cfFillsByClientId = [], rn_probes = [], rn_active = [],
      rn_byOrderId = [], rn_sampledByStratum = [], rn_sampledByCell = [], rn_informativeMoves = 0, rn_marketStates = [], rn_positions = [],
      rn_premiums = [], rn_orderGroupId = None, rn_clockMs = 0, rn_nextProbeAtMs = 0, rn_fillsToday = 0, rn_ordersToday = 0,
      rn_halted = None, rn_privateFeedDownAt = None, rn_feedUp = False, rn_deadline = None, rn_queueTimer = False, rn_draws = 0, rn_uuids = 0,
      rn_calls = [], rn_dwellTimers = [], rn_tasks = [], rn_nextTask = 1\<rparr>"

text \<open>What the exchange says of the account: the positions and the number of resting orders, or that a read failed.\<close>

definition syncAccountFromExchange ::
  "calibration_config \<Rightarrow> int \<Rightarrow> (string \<times> rat) list option \<Rightarrow> int option \<Rightarrow> runner \<Rightarrow> runner" where
  "syncAccountFromExchange cfg now positions resting r =
     (if cc_dryRun cfg then r
      else case positions of
             None \<Rightarrow> halt now SrPersistenceUnavailable r
           | Some ps \<Rightarrow>
               (let held = filter (\<lambda>p. snd p \<noteq> 0) ps;
                    r = r\<lparr>rn_positions := foldl (\<lambda>m p. js_set (fst p) (snd p) m) [] held,
                          rn_premiums := foldl (\<lambda>m p. js_set (fst p) \<bar>snd p\<bar> m) [] held\<rparr>
                in case resting of
                     None \<Rightarrow> halt now SrPersistenceUnavailable r
                   | Some n \<Rightarrow> if 0 < n then halt now SrRiskLimit (emit_call (CaEvent ''warning'' None) r) else r))"

text \<open>\<open>run\<close> up to its loop: the order group is none when the exchange refused it.\<close>

definition startRunner ::
  "calibration_config \<Rightarrow> int \<Rightarrow> (string, market_state) jsmap \<Rightarrow> string option option \<Rightarrow> (string \<times> rat) list option \<Rightarrow> int option \<Rightarrow> runner" where
  "startRunner cfg now states grp positions resting =
     (let r = (newRunner cfg)\<lparr>rn_marketStates := states\<rparr>;
          r = (if cc_dryRun cfg then r
               else case grp of None \<Rightarrow> emit_call (CaEvent ''warning'' None) r | Some g \<Rightarrow> r\<lparr>rn_orderGroupId := g\<rparr>);
          r = emit_call CaStartRun r;
          r = syncAccountFromExchange cfg now positions resting r
      in r\<lparr>rn_feedUp := True, rn_queueTimer := True,
           rn_deadline := (if 0 < cc_runForMs cfg then Some (now + cc_runForMs cfg) else None), rn_tasks := js_set 0 PcIdle (rn_tasks r)\<rparr>)"

end
