(* ===== verification/CalibrationProps.thy ===== *)
theory CalibrationProps
  imports Calibration
begin

text \<open>
  The properties of the calibration runner on every interleaving of its steps: no order is sent that was not asked for, their number is
  bounded, and a halt stops them.
\<close>

section \<open>What the steps leave alone\<close>

fun isCreate :: "calib_call \<Rightarrow> bool" where
  "isCreate (CaCreateOrder q) = True"
| "isCreate _ = False"

definition creates :: "runner \<Rightarrow> calib_call list" where
  "creates r = filter isCreate (rn_calls r)"

text \<open>The part of the state that orders depend on.\<close>

definition core :: "runner \<Rightarrow> calib_call list \<times> int \<times> stop_reason option \<times> nat \<times> (nat, pc) jsmap" where
  "core r = (creates r, rn_ordersToday r, rn_halted r, rn_nextTask r, rn_tasks r)"

fun side_cont :: "cancel_cont \<Rightarrow> bool" where
  "side_cont KNone = True"
| "side_cont (KRest pids why e) = (e = EndTask)"
| "side_cont (KReconcile pid) = False"

fun side_pc :: "pc \<Rightarrow> bool" where
  "side_pc (PcCancelOrder pid why d k) = side_cont k"
| "side_pc (PcCancelRecorded pid why d k) = side_cont k"
| "side_pc (PcCancelFinished pid why d k) = side_cont k"
| "side_pc (PcGoneRecorded pid k) = side_cont k"
| "side_pc (PcGoneFinished pid k) = side_cont k"
| "side_pc (PcAmbRecorded pid k) = side_cont k"
| "side_pc (PcAmbFinished pid k) = side_cont k"
| "side_pc (PcRest pids why e) = (e = EndTask)"
| "side_pc (PcPersist pid is m pk) = (case pk of PkCancel k \<Rightarrow> side_cont k | PkFill \<Rightarrow> True)"
| "side_pc (PcFillRecorded pid q) = True"
| "side_pc (PcFillCounted pid) = True"
| "side_pc (PcPoll pids) = True"
| "side_pc (PcInitial rd rest) = True"
| "side_pc (PcObserved rest) = True"
| "side_pc PcDone = True"
| "side_pc _ = False"

fun launching :: "pc \<Rightarrow> bool" where
  "launching (PcInsert p s d e) = True"
| "launching (PcAttempted p d e) = True"
| "launching _ = False"

lemma side_not_launching: "side_pc c \<Longrightarrow> \<not> launching c"
  by (cases c) simp_all

text \<open>A stretch of code that sends no order: it may halt, and it may start tasks that do not launch.\<close>

definition side_step :: "runner \<Rightarrow> runner \<Rightarrow> bool" where
  "side_step r r' \<longleftrightarrow> creates r' = creates r \<and> rn_ordersToday r' = rn_ordersToday r
     \<and> (rn_halted r \<noteq> None \<longrightarrow> rn_halted r' = rn_halted r) \<and> rn_nextTask r \<le> rn_nextTask r'
     \<and> (\<forall>tid c. js_get (rn_tasks r') tid = Some c \<longrightarrow> js_get (rn_tasks r) tid = Some c \<or> rn_nextTask r \<le> tid \<and> side_pc c)"

lemma side_core: "core r' = core r \<Longrightarrow> side_step r r'"
  by (simp add: core_def side_step_def)

lemma side_refl [simp]: "side_step r r"
  by (rule side_core) (rule refl)

lemma side_trans: "side_step r s \<Longrightarrow> side_step s t \<Longrightarrow> side_step r t"
  unfolding side_step_def by (metis order_trans)

lemma side_core_left: "core r = core s \<Longrightarrow> side_step r t = side_step s t"
  by (simp add: core_def side_step_def)

lemma core_emit [simp]: "\<not> isCreate c \<Longrightarrow> core (emit_call c r) = core r"
  by (simp add: core_def emit_call_def creates_def)

lemma creates_emit: "creates (emit_call c r) = creates r @ (if isCreate c then [c] else [])"
  by (simp add: emit_call_def creates_def)

lemma core_put [simp]: "core (putProbe p r) = core r"
  by (simp add: core_def putProbe_def creates_def)

lemma core_state [simp]: "core (setProbeState pid st r) = core r"
  by (simp add: setProbeState_def)

lemma core_fields [simp]:
  "core (r\<lparr>rn_state := a1\<rparr>) = core r" "core (r\<lparr>rn_activity := a2\<rparr>) = core r" "core (r\<lparr>rn_levels := a3\<rparr>) = core r"
  "core (r\<lparr>rn_counterfactuals := a4\<rparr>) = core r" "core (r\<lparr>rn_cfFillsByClientId := a5\<rparr>) = core r" "core (r\<lparr>rn_active := a6\<rparr>) = core r"
  "core (r\<lparr>rn_byOrderId := a7\<rparr>) = core r" "core (r\<lparr>rn_sampledByStratum := a8\<rparr>) = core r" "core (r\<lparr>rn_sampledByCell := a9\<rparr>) = core r"
  "core (r\<lparr>rn_informativeMoves := b1\<rparr>) = core r" "core (r\<lparr>rn_positions := b2\<rparr>) = core r" "core (r\<lparr>rn_premiums := b3\<rparr>) = core r"
  "core (r\<lparr>rn_clockMs := b4\<rparr>) = core r" "core (r\<lparr>rn_nextProbeAtMs := b5\<rparr>) = core r" "core (r\<lparr>rn_fillsToday := b6\<rparr>) = core r"
  "core (r\<lparr>rn_privateFeedDownAt := b7\<rparr>) = core r" "core (r\<lparr>rn_feedUp := b8\<rparr>) = core r" "core (r\<lparr>rn_draws := b9\<rparr>) = core r"
  "core (r\<lparr>rn_uuids := c1\<rparr>) = core r" "core (r\<lparr>rn_dwellTimers := c2\<rparr>) = core r" "core (r\<lparr>rn_queueTimer := c3\<rparr>) = core r"
  "core (r\<lparr>rn_marketStates := c4\<rparr>) = core r" "core (r\<lparr>rn_deadline := c5\<rparr>) = core r" "core (r\<lparr>rn_orderGroupId := c6\<rparr>) = core r"
  by (simp_all add: core_def creates_def)

lemma core_cooldown [simp]: "core (scheduleCooldown cfg now r) = core r"
  by (simp add: scheduleCooldown_def draw_def Let_def)

lemma core_map [simp]: "core (mapCounterfactuals f r) = core r"
  by (simp add: mapCounterfactuals_def)

lemma core_record [simp]: "core (recordCounterfactualFill m r f) = core r"
  by (simp add: recordCounterfactualFill_def Let_def)

lemma core_foldl: "(\<And>r x. core (f r x) = core r) \<Longrightarrow> core (foldl f r xs) = core r"
  by (induction xs arbitrary: r) simp_all

lemma core_each [simp]: "core (onEachModel f r) = core r"
  unfolding onEachModel_def by (subst core_foldl) (simp_all add: core_foldl)

lemma core_counterfactuals [simp]:
  "core (submitCounterfactuals p r) = core r" "core (cancelCounterfactuals p r) = core r" "core (advanceAll r) = core r"
  by (simp_all add: submitCounterfactuals_def cancelCounterfactuals_def advanceAll_def)

lemma core_forget [simp]: "core (forgetProbe p r) = core r"
  by (simp add: forgetProbe_def)

lemma side_spawn: "side_pc c \<Longrightarrow> side_step r (spawn c r)"
  by (auto simp: side_step_def spawn_def creates_def map_of_append map_add_def split: option.splits if_splits)

section \<open>The cancelling part\<close>

definition side_result :: "bool \<Rightarrow> runner \<Rightarrow> pc \<times> runner \<Rightarrow> bool" where
  \<comment> \<open>no order sent, no launch begun, and the task stays a side task if it was one\<close>
  "side_result side r s \<longleftrightarrow> side_step r (snd s) \<and> \<not> launching (fst s) \<and> (side \<longrightarrow> side_pc (fst s))"

lemma side_resultI: "core r' = core r \<Longrightarrow> \<not> launching c \<Longrightarrow> (side \<Longrightarrow> side_pc c) \<Longrightarrow> side_result side r (c, r')"
  by (simp add: side_result_def side_core)

lemma side_result_step: "side_step r r1 \<Longrightarrow> side_result side r1 s \<Longrightarrow> side_result side r s"
  unfolding side_result_def by (metis side_trans)

lemma side_result_core: "core r1 = core r \<Longrightarrow> side_result side r1 s \<Longrightarrow> side_result side r s"
  by (rule side_result_step [OF side_core])

lemma side_beginCancel: "beginCancel now pid why k r = Some s \<Longrightarrow> side_result (side_cont k) r s"
  by (auto simp: beginCancel_def Let_def side_result_def side_core split: if_splits option.splits)

lemma side_endRest: "side_result (e = EndTask) r (endRest e r)"
  by (cases e) (simp_all add: side_result_def side_core)

lemma side_nextCancel: "side_result (e = EndTask) r (nextCancel now pids why e r)"
proof (induction pids arbitrary: r)
  case (Cons pid pids)
  show ?case
  proof (cases "beginCancel now pid why (KRest pids why e) r")
    case None
    then show ?thesis using Cons by (cases e) (simp_all add: side_result_def)
  next
    case (Some s)
    then show ?thesis using Cons side_beginCancel [OF Some] by (cases e) (simp_all add: side_result_def)
  qed
qed (simp add: side_endRest)

lemma side_halt [simp]: "side_step r (halt now reason r)"
proof (cases "rn_halted r")
  case None
  let ?r = "emit_call (CaEvent ''killed'' None) (r\<lparr>rn_halted := Some reason\<rparr>)"
  obtain c r2 where c: "cancelEverything now ''halted'' EndTask ?r = (c, r2)" by fastforce
  have s: "side_pc c" "side_step ?r r2"
    using side_nextCancel [of EndTask ?r now "activeProbes ?r" "''halted''"] c by (simp_all add: side_result_def cancelEverything_def)
  have "side_step r ?r" using None by (simp add: side_step_def emit_call_def creates_def)
  from side_trans [OF side_trans [OF this s(2)] side_spawn [OF s(1)]] show ?thesis by (simp add: halt_def None Let_def c)
qed (simp add: halt_def)

lemma side_afterReconcile: "side_result False r (afterReconcile cfg now r)"
  unfolding afterReconcile_def
  by (rule side_result_step [OF side_halt]) (rule side_resultI; simp)

lemma side_cancelReturned: "side_result (side_cont k) r (cancelReturned cfg now k r)"
proof (cases k)
  case KNone
  then show ?thesis by (simp add: side_result_def)
next
  case (KRest pids why e)
  then show ?thesis using side_nextCancel [of e r now pids why] by simp
next
  case (KReconcile pid)
  then show ?thesis using side_afterReconcile by simp
qed

lemma side_cancelThrew: "side_result (side_cont k) r (cancelThrew now k r)"
proof (cases k)
  case (KRest pids why e)
  then show ?thesis using side_nextCancel [of e r now pids why] by simp
qed (simp_all add: side_result_def side_core)

fun side_persist :: "persist_cont \<Rightarrow> bool" where
  "side_persist (PkCancel k) = side_cont k"
| "side_persist PkFill = True"

lemma side_afterPersist: "side_result (side_persist pk) r (afterPersist cfg now pid pk r)"
proof (cases pk)
  case (PkCancel k)
  then show ?thesis unfolding afterPersist_def Let_def
    by simp (rule side_result_core [OF _ side_cancelReturned], simp)
next
  case PkFill
  then show ?thesis unfolding afterPersist_def Let_def by simp (rule side_resultI; simp)
qed

lemma side_persistNext: "side_result (side_persist pk) r (persistNext cfg now pid is byModel pk r)"
proof (cases "is")
  case Nil
  then show ?thesis using side_afterPersist by simp
next
  case (Cons i js)
  then show ?thesis by (cases pk) (auto intro!: side_resultI)
qed

lemma side_persistCounterfactuals: "side_result (side_persist pk) r (persistCounterfactuals cfg now pid pk r)"
  unfolding persistCounterfactuals_def by (rule side_persistNext)

lemma side_afterCancel: "side_result (side_cont k) r (afterCancel cfg now pid k r)"
  unfolding afterCancel_def
  by (rule side_result_core [OF _ side_persistCounterfactuals [where pk = "PkCancel k", unfolded side_persist.simps]]) simp

lemma side_shutdown: "side_result False r (shutdown now threw r)"
  unfolding shutdown_def cancelEverything_def
  by (rule side_result_core [of "r\<lparr>rn_queueTimer := False\<rparr>"]) (use side_nextCancel [of "EndShutdown threw"] in simp_all)

section \<open>Queue positions\<close>

lemma side_observeQueue: "side_result True r (observeQueue cfg now rd rest r)"
proof -
  define inf where "inf = (case (qr_queuePosition rd, ap_lastQueuePosition (probeOf r (qr_probeId rd))) of
      (Some x, Some y) \<Rightarrow> 1 \<le> \<bar>x - y\<bar> \<and> 1 \<le> (case qr_ticks rd of None \<Rightarrow> 0 | Some t \<Rightarrow> t) | _ \<Rightarrow> False)"
  define r1 where "r1 = (if inf then r\<lparr>rn_informativeMoves := rn_informativeMoves r + 1\<rparr> else r)"
  define r2 where "r2 = (if inf \<and> 0 < cc_targetInformativeMoves cfg \<and> cc_targetInformativeMoves cfg \<le> rn_informativeMoves r1
      then halt now SrTargetObservationsReached r1 else r1)"
  define r3 where "r3 = (if qr_queuePosition rd = None then r2
      else putProbe ((probeOf r2 (qr_probeId rd))\<lparr>ap_lastQueuePosition := qr_queuePosition rd\<rparr>) r2)"
  obtain row where o: "observeQueue cfg now rd rest r = (PcObserved rest, emit_call (CaQueueObservation row) r3)"
    unfolding observeQueue_def Let_def r3_def r2_def r1_def inf_def by blast
  have "side_step r r1" by (rule side_core) (simp add: r1_def)
  moreover have "side_step r1 r2" by (simp add: r2_def)
  moreover have "side_step r2 (emit_call (CaQueueObservation row) r3)" by (rule side_core) (simp add: r3_def)
  ultimately have "side_step r (emit_call (CaQueueObservation row) r3)" by (meson side_trans)
  then show ?thesis by (simp add: o side_result_def)
qed

lemma side_pollNext: "side_result True r (pollNext cfg now rest r)"
proof (cases "pr_probes rest")
  case Nil
  then show ?thesis by (simp add: pollNext_def side_result_def)
next
  case (Cons pid pids)
  show ?thesis unfolding pollNext_def Let_def Cons
    by (auto split: option.split simp del: core_put intro!: side_result_core [OF core_put side_observeQueue]) (rule side_resultI; simp)+
qed

section \<open>Resuming a task\<close>

lemma side_queueAnswered: "side_result True r (queueAnswered cfg now pids ans r)"
  using side_pollNext by (cases ans) (simp_all add: queueAnswered_def side_result_def)

lemma side_pollQueuePositions: "side_result True r (pollQueuePositions cfg r)"
  by (simp add: pollQueuePositions_def Let_def side_result_def side_core)

lemma side_goneBegin: "side_result (side_cont k) r (goneBegin pid d k r)"
  by (simp add: goneBegin_def side_result_def side_core)

lemma side_answeredCancel: "side_result (side_cont k) r (answeredCancel pid why d k ans r)"
  using side_goneBegin by (cases ans) (simp_all add: answeredCancel_def side_result_def side_core)

lemma side_submitFailed: "side_result False r (submitFailed pid ans r)"
  by (auto simp: submitFailed_def Let_def side_result_def side_core split: answer.split)

lemma side_orderCreated: "side_result False r (orderCreated pid oid s a st r)"
  by (simp add: orderCreated_def Let_def side_result_def side_core)

lemma side_ordersListed: "side_result False r (ordersListed pid ans r)"
  by (auto simp: ordersListed_def Let_def side_result_def side_core split: option.split)

lemma side_orderPlaced: "side_result False r (orderPlaced cfg now pid r)"
proof -
  define r1 where "r1 = submitCounterfactuals (probeOf r pid) r"
  define r2 where "r2 = putProbe ((probeOf r1 pid)\<lparr>ap_modelledQueueAtEntry := modelledQueue (probeOf r1 pid) (rn_counterfactuals r1)\<rparr>) r1"
  obtain c r3 where c: "pollQueuePositions cfg r2 = (c, r3)" by fastforce
  define r4 where "r4 = scheduleCooldown cfg now ((spawn c r3)\<lparr>rn_dwellTimers := rn_dwellTimers (spawn c r3) @ [pid]\<rparr>)"
  have "orderPlaced cfg now pid r = (PcIdle, r4)"
    by (simp only: orderPlaced_def Let_def r4_def c prod.case flip: r1_def r2_def)
  moreover have "side_step r r2" by (rule side_core) (simp add: r2_def r1_def)
  moreover have "side_pc c" "side_step r2 r3" using side_pollQueuePositions [of r2 cfg] c by (simp_all add: side_result_def)
  moreover have "side_step (spawn c r3) r4" by (rule side_core) (simp add: r4_def)
  ultimately have "side_step r r4" by (meson side_trans side_spawn)
  then show ?thesis using \<open>orderPlaced cfg now pid r = (PcIdle, r4)\<close> by (simp add: side_result_def)
qed

lemmas side_rules = side_nextCancel side_endRest side_afterReconcile side_cancelReturned side_cancelThrew side_persistNext
  side_persistCounterfactuals side_afterCancel side_shutdown side_observeQueue side_pollNext side_queueAnswered side_answeredCancel
  side_goneBegin side_submitFailed side_orderCreated side_ordersListed side_orderPlaced

lemma side_weaken: "side_result side r s \<Longrightarrow> (side' \<Longrightarrow> side) \<Longrightarrow> side_result side' r s"
  by (auto simp: side_result_def)

text \<open>A task that is not launching sends no order and launches nothing, and a side task stays one.\<close>

lemma resume_side: "\<not> launching c \<Longrightarrow> side_result (side_pc c) r (resumePc cfg now ans r c)"
proof (cases c)
  case (PcReconciledEvent pid)
  then show ?thesis
    using side_beginCancel [of now pid "''reconciled''" "KReconcile pid" r] side_afterReconcile [of r cfg now]
    by (auto split: option.split)
next
  case (PcCancelRecorded pid why d k)
  then show ?thesis using side_goneBegin [of k r pid d] by (auto intro!: side_resultI)
next
  case (PcCancelFinished pid why d k)
  then show ?thesis using side_goneBegin [of k r pid d] side_afterCancel [of k r cfg now pid] by auto
next
  case (PcGoneRecorded pid k)
  then show ?thesis using side_cancelThrew [of k r now] by (auto intro!: side_resultI)
next
  case (PcGoneFinished pid k)
  then show ?thesis using side_cancelThrew [of k r now]
    side_result_core [OF core_state side_afterCancel [of k "setProbeState pid PsCancelled r" cfg now pid]] by auto
next
  case (PcAmbRecorded pid k)
  then show ?thesis using side_cancelThrew [of k r now] by (auto intro!: side_resultI)
next
  case (PcAmbFinished pid k)
  then show ?thesis using side_cancelThrew [of k r now]
    side_result_step [OF side_halt side_cancelReturned [of k "halt now SrAmbiguousOrderState r" cfg now]] by auto
next
  case (PcPersist pid js m pk)
  then show ?thesis using side_persistNext [of pk r cfg now pid js m] by (cases pk) auto
next
  case (PcFillCounted pid)
  then show ?thesis
    using side_result_core [OF core_counterfactuals(2) side_persistCounterfactuals [of PkFill "cancelCounterfactuals (probeOf r pid) r" cfg now pid]]
    by simp
next
  case (PcObserved rest)
  then show ?thesis using side_pollNext [of r cfg now rest]
    side_result_step [OF side_halt side_pollNext [of "halt now SrPersistenceUnavailable r" cfg now rest]] by auto
next
  case (PcCreate pid)
  then show ?thesis using side_orderCreated [of r pid] side_submitFailed [of r pid ans] by (cases ans) simp_all
next
  case (PcRecordPlaced pid)
  then show ?thesis using side_submitFailed [of r pid AnThrow] by (auto intro!: side_resultI)
next
  case (PcDry pid)
  then show ?thesis using side_shutdown [of r now True] by (auto simp: runThrew_def dryDone_def Let_def intro!: side_resultI)
next
  case (PcRejected pid)
  then show ?thesis using side_shutdown [of r now True] by (auto simp: runThrew_def intro!: side_resultI)
next
  case (PcFailAmbiguous pid)
  then show ?thesis using side_shutdown [of r now True] by (auto simp: runThrew_def intro!: side_resultI)
next
  case (PcRest pids why e)
  then show ?thesis using side_nextCancel [of e r now pids why] by simp
next
  case (PcBlocked since)
  then show ?thesis by (auto simp: retryLater_def intro!: side_resultI)
qed (simp_all add: side_rules [unfolded side_result_def] side_result_def side_core)

section \<open>A launch\<close>

lemma chosen_at_touch:
  "selectAtTouch cfg cands r = (Some pm, r') \<Longrightarrow> pm_chosen pm \<in> set cands"
  by (auto simp: selectAtTouch_def draw_def Let_def split: option.splits if_splits dest: selectNext_least(1))

lemma chosen_behind:
  "selectBehindTouch cfg cands ticks r = (Some pm, r') \<Longrightarrow> pm_chosen pm \<in> set cands"
proof -
  assume s: "selectBehindTouch cfg cands ticks r = (Some pm, r')"
  have "pm \<in> set (concat (map (behindOptions cfg r ticks) cands))"
    using s by (auto simp: selectBehindTouch_def draw_def Let_def split: option.splits if_splits dest!: drawn_in)
  then obtain c where "c \<in> set cands" "pm \<in> set (behindOptions cfg r ticks c)" by auto
  then show ?thesis
    by (auto simp: behindOptions_def behindOption_def Let_def map_filter_def split: option.splits if_splits)
qed

lemma selectPlacement_chosen: "selectPlacement cfg cands r = (Some pm, r') \<Longrightarrow> pm_chosen pm \<in> set cands"
  by (auto simp: selectPlacement_def chosen_at_touch chosen_behind split: if_splits)

lemma atTouch_draws:
  "snd (selectAtTouch cfg cands r) = r\<lparr>rn_draws := (if selectNext cands (rn_sampledByStratum r) (cc_random cfg (rn_draws r)) (cc_preferChurn cfg) = None
     then Suc (rn_draws r) else Suc (Suc (rn_draws r)))\<rparr>"
  by (simp add: selectAtTouch_def draw_def Let_def split: option.split)

lemma behind_draws: "\<exists>n. snd (selectBehindTouch cfg cands ticks r) = r\<lparr>rn_draws := n\<rparr>"
proof (cases "concat (map (behindOptions cfg r ticks) cands) = []")
  case True
  then have "snd (selectBehindTouch cfg cands ticks r) = r\<lparr>rn_draws := rn_draws r\<rparr>" by (simp add: selectBehindTouch_def Let_def)
  then show ?thesis by (rule exI)
next
  case False
  let ?cell = "selectLeastSampledCell (map cellOf (concat (map (behindOptions cfg r ticks) cands))) (rn_sampledByCell r) (cc_random cfg (rn_draws r))"
  have "snd (selectBehindTouch cfg cands ticks r) = r\<lparr>rn_draws := (if ?cell = None then Suc (rn_draws r) else Suc (Suc (rn_draws r)))\<rparr>"
    unfolding selectBehindTouch_def Let_def if_not_P [OF False] draw_def prod.case by (simp split: option.split)
  then show ?thesis by (rule exI)
qed

lemma selectPlacement_draws: "\<exists>n. snd (selectPlacement cfg cands r) = r\<lparr>rn_draws := n\<rparr>"
  unfolding selectPlacement_def using atTouch_draws [of cfg cands r] behind_draws [of cfg cands "cc_behindTouchTicks cfg" r] by (simp split: if_split) blast

lemma probeOf_draws [simp]: "probeOf (r\<lparr>rn_draws := n\<rparr>) = probeOf r"
  by (rule ext) (simp add: probeOf_def)

lemma accountState_draws [simp]: "accountState (r\<lparr>rn_draws := n\<rparr>) = accountState r"
  by (simp add: accountState_def livePids_def activeProbes_def Let_def)

text \<open>The decision that a probe may be placed, in the state the runner then is in.\<close>

definition launchAllowed :: "calibration_config \<Rightarrow> int \<Rightarrow> runner \<Rightarrow> active_probe \<Rightarrow> bool" where
  "launchAllowed cfg now r p \<longleftrightarrow> blockingCondition cfg r = None
     \<and> list_ex (\<lambda>c. ca_marketTicker c = ap_marketTicker p
         \<and> mayPlaceProbe (cc_envelope cfg) (accountState r) (ca_marketTicker c) (ca_seriesTicker c)
             (premiumForProbe (ap_yesPrice p) (ap_side p) (ce_orderSize (cc_envelope cfg))) = None) (eligibleCandidates cfg now r)"

lemma launchProbe_result:
  assumes "launchProbe cfg now pm premium r = (c, r')"
  shows "core r' = core r" "launching c \<Longrightarrow> \<exists>p st d e. c = PcInsert p st d e \<and> ap_marketTicker p = ca_marketTicker (pm_chosen pm)
    \<and> ap_side p = pm_side pm \<and> ap_yesPrice p = pm_yesPrice pm"
  using assms by (auto simp: launchProbe_def draw_def Let_def split: if_splits)

lemma side_retryLater [simp]: "side_step r (snd (retryLater now r))" "\<not> launching (fst (retryLater now r))"
  by (simp_all add: retryLater_def side_core)

lemma maybeLaunch_result:
  assumes "maybeLaunchProbe cfg now r = (c, r')"
  shows "side_step r r' \<and> (launching c \<longrightarrow> (\<exists>p st d e. c = PcInsert p st d e \<and> launchAllowed cfg now r p))"
proof (cases "now < rn_nextProbeAtMs r \<or> blockingCondition cfg r \<noteq> None \<or> eligibleCandidates cfg now r = []")
  case True
  show ?thesis
  proof (cases "blockingCondition cfg r")
    case None
    then have "(c, r') = (PcIdle, r) \<or> (c, r') = retryLater now r"
      using True assms by (cases "now < rn_nextProbeAtMs r") (simp_all add: maybeLaunchProbe_def Let_def)
    then show ?thesis using side_retryLater [where r = r and now = now] by (metis fst_conv snd_conv side_refl launching.simps(3))
  next
    case (Some reason)
    define r1 where "r1 = (if reason = SrRiskLimit \<or> reason = SrAmbiguousOrderState then halt now reason r else r)"
    have "side_step r (snd (retryLater now r1))" using side_trans [OF side_halt side_retryLater(1)] by (simp add: r1_def)
    moreover have "(c, r') = (PcIdle, r) \<or> (c, r') = retryLater now r1"
      using Some assms by (cases "now < rn_nextProbeAtMs r") (simp_all add: maybeLaunchProbe_def r1_def)
    ultimately show ?thesis using side_retryLater(2) [of now r1] by (metis fst_conv snd_conv side_refl launching.simps(3))
  qed
next
  case False
  obtain placed r1 where s: "selectPlacement cfg (eligibleCandidates cfg now r) r = (placed, r1)" by fastforce
  obtain n where n: "r1 = r\<lparr>rn_draws := n\<rparr>" using selectPlacement_draws [of cfg "eligibleCandidates cfg now r" r] s by auto
  have r1: "core r1 = core r" by (simp add: n)
  show ?thesis
  proof (cases placed)
    case None
    then have "(c, r') = retryLater now r1" using assms False s by (auto simp: maybeLaunchProbe_def Let_def)
    then show ?thesis using side_retryLater [where r = r1 and now = now] side_core_left [OF r1] by (metis fst_conv snd_conv)
  next
    case (Some pm)
    let ?t = "ca_marketTicker (pm_chosen pm)" and ?s = "ca_seriesTicker (pm_chosen pm)"
    show ?thesis
    proof (cases "mayPlaceProbe (cc_envelope cfg) (accountState r) ?t ?s (premiumOf cfg pm)")
      case None
      then have l: "launchProbe cfg now pm (premiumOf cfg pm) r1 = (c, r')"
        using assms False s Some by (auto simp: maybeLaunchProbe_def Let_def n)
      have "launchAllowed cfg now r p" if "ap_marketTicker p = ?t" "ap_side p = pm_side pm" "ap_yesPrice p = pm_yesPrice pm" for p
        using selectPlacement_chosen [OF s [unfolded Some]] None False that
        by (auto simp: launchAllowed_def list_ex_iff premiumOf_def)
      then show ?thesis using launchProbe_result [OF l] r1 by (auto intro!: side_core)
    next
      case (Some reason)
      then have "(c, r') = (PcBlocked now, emit_call (CaEvent ''blocked'' (Some ?t)) r1)"
        using assms False s \<open>placed = Some pm\<close> by (auto simp: maybeLaunchProbe_def Let_def n)
      then show ?thesis using r1 by (auto intro!: side_core)
    qed
  qed
qed

lemma side_applyKind: "side_step r (applyKind cfg now ev r)"
proof (cases ev)
  case (EvDelta b e)
  then show ?thesis by (auto simp: deltaApplied_def Let_def split: prod.split intro!: side_core)
next
  case (EvGap b e)
  then show ?thesis using side_trans [OF side_core [OF core_fields(1)] side_halt] by simp
qed (auto simp: Let_def intro!: side_core)

lemma side_sawEvent: "side_step r (sawEvent cfg now ev r)"
proof -
  let ?r = "r\<lparr>rn_clockMs := max (rn_clockMs r) (be_receiveTimeMs (eventBase ev))\<rparr>"
  have "side_step r ?r" by (rule side_core) simp
  from side_trans [OF this side_applyKind] have "side_step r (applyKind cfg now ev ?r)" .
  from side_trans [OF this side_core [OF core_counterfactuals(3)]] show ?thesis by (simp add: sawEvent_def applyEvent_def)
qed

section \<open>What one step does to the orders\<close>

definition tasks_ok :: "runner \<Rightarrow> bool" where
  "tasks_ok r \<longleftrightarrow> 1 \<le> rn_nextTask r \<and> (\<forall>tid c. tid \<noteq> 0 \<longrightarrow> js_get (rn_tasks r) tid = Some c \<longrightarrow> side_pc c)"

abbreviation main_pc :: "runner \<Rightarrow> pc option" where
  "main_pc r \<equiv> js_get (rn_tasks r) 0"

definition pending :: "runner \<Rightarrow> nat" where
  "pending r = (case main_pc r of None \<Rightarrow> 0 | Some c \<Rightarrow> if launching c then 1 else 0)"

definition requestOf :: "calibration_config \<Rightarrow> active_probe \<Rightarrow> int \<Rightarrow> string option \<Rightarrow> create_request" where
  "requestOf cfg p expirationTs grp =
     \<lparr>cq_clientOrderId = ap_clientOrderId p, cq_marketTicker = ap_marketTicker p, cq_side = ap_side p, cq_price = ap_yesPrice p,
      cq_count = ce_orderSize (cc_envelope cfg), cq_postOnly = True, cq_cancelOrderOnPause = True, cq_expirationTime = expirationTs,
      cq_orderGroupId = grp\<rparr>"

text \<open>The four ways a step can treat the launch of an order.\<close>

inductive order_step :: "calibration_config \<Rightarrow> runner \<Rightarrow> int \<times> calib_step \<Rightarrow> runner \<Rightarrow> bool" for cfg r where
  quiet: "creates r' = creates r \<Longrightarrow> rn_ordersToday r' = rn_ordersToday r \<Longrightarrow>
     (\<And>c. main_pc r' = Some c \<Longrightarrow> launching c \<Longrightarrow> main_pc r = Some c) \<Longrightarrow>
     (rn_halted r \<noteq> None \<Longrightarrow> rn_halted r' \<noteq> None) \<Longrightarrow> order_step cfg r s r'"
| decide: "creates r' = creates r \<Longrightarrow> rn_ordersToday r' = rn_ordersToday r \<Longrightarrow> main_pc r' = Some (PcInsert p st d e) \<Longrightarrow>
     rn_halted r = None \<Longrightarrow> rn_halted (sawEvent cfg now ev r) = None \<Longrightarrow> rn_ordersToday (sawEvent cfg now ev r) = rn_ordersToday r \<Longrightarrow>
     launchAllowed cfg now (sawEvent cfg now ev r) p \<Longrightarrow> order_step cfg r (now, CsEvent ev) r'"
| inserted: "creates r' = creates r \<Longrightarrow> rn_ordersToday r' = rn_ordersToday r + 1 \<Longrightarrow> main_pc r = Some (PcInsert p st d e) \<Longrightarrow>
     main_pc r' = Some (PcAttempted p' d e) \<Longrightarrow> ap_marketTicker p' = ap_marketTicker p \<Longrightarrow> ap_side p' = ap_side p \<Longrightarrow>
     ap_yesPrice p' = ap_yesPrice p \<Longrightarrow> (rn_halted r \<noteq> None \<Longrightarrow> rn_halted r' \<noteq> None) \<Longrightarrow> order_step cfg r s r'"
| sent: "creates r' = creates r @ [CaCreateOrder (requestOf cfg p e grp)] \<Longrightarrow> rn_ordersToday r' = rn_ordersToday r \<Longrightarrow>
     main_pc r = Some (PcAttempted p d e) \<Longrightarrow> pending r' = 0 \<Longrightarrow> \<not> cc_dryRun cfg \<Longrightarrow>
     (rn_halted r \<noteq> None \<Longrightarrow> rn_halted r' \<noteq> None) \<Longrightarrow> order_step cfg r s r'"

lemma setTask_fields [simp]:
  "creates (setTask tid s) = creates (snd s)" "rn_ordersToday (setTask tid s) = rn_ordersToday (snd s)"
  "rn_halted (setTask tid s) = rn_halted (snd s)" "rn_nextTask (setTask tid s) = rn_nextTask (snd s)"
  by (simp_all add: setTask_def creates_def split: prod.split)

lemma setTask_get:
  "js_get (rn_tasks (setTask tid s)) t = (if t = tid then if fst s = PcDone then None else Some (fst s) else js_get (rn_tasks (snd s)) t)"
  by (auto simp: setTask_def split: prod.split)

lemma side_tasks_ok: "tasks_ok r \<Longrightarrow> side_step r r' \<Longrightarrow> tasks_ok r'"
  unfolding tasks_ok_def side_step_def by (meson le_trans)

lemma side_main: "tasks_ok r \<Longrightarrow> side_step r r' \<Longrightarrow> main_pc r' = Some c \<Longrightarrow> main_pc r = Some c"
  unfolding tasks_ok_def side_step_def by fastforce

lemma side_fields:
  "side_step r r' \<Longrightarrow> creates r' = creates r" "side_step r r' \<Longrightarrow> rn_ordersToday r' = rn_ordersToday r"
  "side_step r r' \<Longrightarrow> rn_halted r' = None \<Longrightarrow> rn_halted r = None" "side_step r r' \<Longrightarrow> rn_halted r \<noteq> None \<Longrightarrow> rn_halted r' \<noteq> None"
  by (auto simp: side_step_def)

lemma side_quiet: "tasks_ok r \<Longrightarrow> side_step r r' \<Longrightarrow> order_step cfg r s r' \<and> tasks_ok r'"
proof
  assume ok: "tasks_ok r" and st: "side_step r r'"
  show "order_step cfg r s r'" by (rule quiet [OF side_fields(1) [OF st] side_fields(2) [OF st] side_main [OF ok st] side_fields(4) [OF st]])
  show "tasks_ok r'" by (rule side_tasks_ok [OF ok st])
qed

lemma setTask_quiet:
  assumes "tasks_ok r" "side_step r (snd t)" "\<not> launching (fst t)" "tid \<noteq> 0 \<Longrightarrow> side_pc (fst t)"
  shows "order_step cfg r s (setTask tid t) \<and> tasks_ok (setTask tid t)"
proof -
  have ok: "tasks_ok (snd t)" by (rule side_tasks_ok [OF assms(1,2)])
  have "tasks_ok (setTask tid t)" using ok assms(4) by (auto simp: tasks_ok_def setTask_get split: if_splits)
  moreover have "order_step cfg r s (setTask tid t)"
  proof (rule quiet)
    show "main_pc r = Some c" if "main_pc (setTask tid t) = Some c" "launching c" for c
      using that assms(3) side_main [OF assms(1,2)] by (auto simp: setTask_get split: if_splits)
    show "rn_halted (setTask tid t) \<noteq> None" if "rn_halted r \<noteq> None" using side_fields(4) [OF assms(2) that] by simp
  qed (simp_all add: side_fields(1,2) [OF assms(2)])
  ultimately show ?thesis by blast
qed

lemma event_step:
  assumes "tasks_ok r" "main_pc r = Some PcIdle"
  shows "order_step cfg r (now, CsEvent ev) (setTask 0 (onEvent cfg now ev r)) \<and> tasks_ok (setTask 0 (onEvent cfg now ev r))"
proof -
  let ?r = "sawEvent cfg now ev r"
  note saw = side_sawEvent [of r cfg now ev]
  consider (stop) t where "onEvent cfg now ev r = t" "side_step ?r (snd t)" "\<not> launching (fst t)"
    | (go) "rn_halted ?r = None" "onEvent cfg now ev r = maybeLaunchProbe cfg now ?r"
  proof -
    have "side_result False ?r (shutdown now False (halt now SrDurationElapsed ?r))" by (rule side_result_step [OF side_halt side_shutdown])
    moreover have "side_result False ?r (shutdown now False ?r)" by (rule side_shutdown)
    moreover have "side_result False ?r (PcIdle, ?r)" by (simp add: side_result_def)
    moreover have "onEvent cfg now ev r = shutdown now False (halt now SrDurationElapsed ?r) \<or> onEvent cfg now ev r = shutdown now False ?r
        \<or> onEvent cfg now ev r = (PcIdle, ?r) \<or> rn_halted ?r = None \<and> onEvent cfg now ev r = maybeLaunchProbe cfg now ?r"
      by (simp add: onEvent_def Let_def)
    ultimately show ?thesis using that unfolding side_result_def by metis
  qed
  then show ?thesis
  proof cases
    case (stop t)
    then show ?thesis using setTask_quiet [OF assms(1) side_trans [OF saw]] by simp
  next
    case go
    obtain c r' where m: "maybeLaunchProbe cfg now ?r = (c, r')" by fastforce
    note res = maybeLaunch_result [OF m]
    have s: "side_step r r'" using side_trans [OF saw] res by blast
    show ?thesis
    proof (cases "launching c")
      case False
      then show ?thesis using setTask_quiet [OF assms(1), of "(c, r')" 0] s go m by simp
    next
      case True
      then obtain p st d e where p: "c = PcInsert p st d e" "launchAllowed cfg now ?r p" using res by blast
      have "order_step cfg r (now, CsEvent ev) (setTask 0 (c, r'))"
      proof (rule decide)
        show "main_pc (setTask 0 (c, r')) = Some (PcInsert p st d e)" by (simp add: setTask_get p)
        show "rn_halted r = None" by (rule side_fields(3) [OF saw go(1)])
      qed (use go p side_fields [OF s] side_fields(2) [OF saw] in simp_all)
      moreover have "tasks_ok (setTask 0 (c, r'))" using side_tasks_ok [OF assms(1) s] by (auto simp: tasks_ok_def setTask_get)
      ultimately show ?thesis using go m by simp
    qed
  qed
qed

lemma probeInserted_result:
  "\<exists>p'. fst (probeInserted cfg p d e r) = PcAttempted p' d e \<and> ap_marketTicker p' = ap_marketTicker p \<and> ap_side p' = ap_side p
     \<and> ap_yesPrice p' = ap_yesPrice p \<and> creates (snd (probeInserted cfg p d e r)) = creates r
     \<and> rn_ordersToday (snd (probeInserted cfg p d e r)) = rn_ordersToday r + 1
     \<and> rn_halted (snd (probeInserted cfg p d e r)) = rn_halted r \<and> rn_nextTask (snd (probeInserted cfg p d e r)) = rn_nextTask r
     \<and> rn_tasks (snd (probeInserted cfg p d e r)) = rn_tasks r"
  by (auto simp: probeInserted_def emit_call_def putProbe_def creates_def Let_def split: prod.split)

lemma resume_step:
  assumes "tasks_ok r" "js_get (rn_tasks r) tid = Some c"
  shows "order_step cfg r s (setTask tid (resumePc cfg now ans r c)) \<and> tasks_ok (setTask tid (resumePc cfg now ans r c))"
proof (cases "launching c")
  case False
  from resume_side [OF this, of r cfg now ans] have "side_step r (snd (resumePc cfg now ans r c))" "\<not> launching (fst (resumePc cfg now ans r c))"
    "side_pc c \<Longrightarrow> side_pc (fst (resumePc cfg now ans r c))" by (simp_all add: side_result_def)
  moreover have "tid \<noteq> 0 \<Longrightarrow> side_pc c" using assms by (simp add: tasks_ok_def)
  ultimately show ?thesis using setTask_quiet [OF assms(1)] by blast
next
  case True
  then have tid: "tid = 0" using assms side_not_launching by (auto simp: tasks_ok_def)
  show ?thesis
  proof (cases c)
    case (PcInsert p st d e)
    show ?thesis
    proof (cases "ans = AnThrow")
      case True
      have "side_result False r (shutdown now True r)" by (rule side_shutdown)
      then show ?thesis using setTask_quiet [OF assms(1), of "shutdown now True r" 0] True by (simp add: PcInsert runThrew_def tid side_result_def)
    next
      case False
      obtain c' r' where i: "probeInserted cfg p d e r = (c', r')" by fastforce
      obtain p' where p': "c' = PcAttempted p' d e" "ap_marketTicker p' = ap_marketTicker p" "ap_side p' = ap_side p" "ap_yesPrice p' = ap_yesPrice p"
        "creates r' = creates r" "rn_ordersToday r' = rn_ordersToday r + 1" "rn_tasks r' = rn_tasks r" "rn_nextTask r' = rn_nextTask r"
        "rn_halted r' = rn_halted r"
        using probeInserted_result [of cfg p d e r] by (auto simp: i)
      have "order_step cfg r s (setTask 0 (c', r'))"
        by (rule inserted [where p = p and st = st and d = d and e = e and p' = p']) (use p' assms(2) in \<open>simp_all add: setTask_get PcInsert tid\<close>)
      moreover have "tasks_ok (setTask 0 (c', r'))" using assms(1) p' by (auto simp: tasks_ok_def setTask_get)
      ultimately show ?thesis using False by (simp add: PcInsert i tid)
    qed
  next
    case (PcAttempted p d e)
    show ?thesis
    proof (cases "cc_dryRun cfg")
      case True
      then have "side_step r (snd (sendOrder cfg p d e r))" "\<not> launching (fst (sendOrder cfg p d e r))"
        by (simp_all add: sendOrder_def side_core)
      then show ?thesis using setTask_quiet [OF assms(1), of "sendOrder cfg p d e r" 0] by (simp add: PcAttempted tid)
    next
      case False
      then have o: "sendOrder cfg p d e r = (PcCreate (ap_probeId p), emit_call (CaCreateOrder (requestOf cfg p e (rn_orderGroupId r))) r)"
        by (simp add: sendOrder_def requestOf_def)
      have "order_step cfg r s (setTask 0 (sendOrder cfg p d e r))"
      proof (rule sent [where p = p and e = e and d = d and grp = "rn_orderGroupId r"])
        show "creates (setTask 0 (sendOrder cfg p d e r)) = creates r @ [CaCreateOrder (requestOf cfg p e (rn_orderGroupId r))]"
          by (simp add: o creates_emit)
        show "pending (setTask 0 (sendOrder cfg p d e r)) = 0" by (simp add: pending_def setTask_get o)
      qed (use False assms(2) in \<open>simp_all add: o emit_call_def PcAttempted tid\<close>)
      moreover have "tasks_ok (setTask 0 (sendOrder cfg p d e r))" using assms(1) by (auto simp: tasks_ok_def setTask_get o emit_call_def)
      ultimately show ?thesis by (simp add: PcAttempted tid)
    qed
  qed (use True in simp_all)
qed

lemma spawn_step:
  assumes "tasks_ok r" "core r1 = core r" "side_result True r1 t"
  shows "order_step cfg r s (spawn (fst t) (snd t)) \<and> tasks_ok (spawn (fst t) (snd t))"
proof (rule side_quiet [OF assms(1)])
  have "side_step r1 (snd t)" "side_pc (fst t)" using assms(3) by (simp_all add: side_result_def)
  then show "side_step r (spawn (fst t) (snd t))"
    using side_trans [OF side_trans [OF side_core [OF assms(2)]] side_spawn] by blast
qed

lemma step_order:
  assumes "tasks_ok r"
  shows "order_step cfg r (now, s) (calibStep cfg r (now, s)) \<and> tasks_ok (calibStep cfg r (now, s))"
proof -
  have same: "order_step cfg r x r1 \<and> tasks_ok r1" if "core r1 = core r" for r1 x by (rule side_quiet [OF assms side_core [OF that]])
  show ?thesis
  proof (cases s)
    case (CsEvent ev)
    then show ?thesis using event_step [OF assms] same [of r] by simp
  next
    case CsStreamEnd
    have "side_result False r (shutdown now False r)" by (rule side_shutdown)
    then show ?thesis using CsStreamEnd setTask_quiet [OF assms, of "shutdown now False r" 0] same [of r] by (simp add: side_result_def)
  next
    case CsPollTimer
    then show ?thesis using spawn_step [OF assms refl side_pollQueuePositions] same [of r] by (simp add: case_prod_unfold)
  next
    case (CsDwell pid)
    let ?r = "r\<lparr>rn_dwellTimers := set_del pid (rn_dwellTimers r)\<rparr>"
    have "side_result True ?r t" if "beginCancel now pid ''dwell elapsed'' KNone ?r = Some t" for t
      using side_beginCancel [OF that] by simp
    from spawn_step [OF assms core_fields(20) this] show ?thesis
      using CsDwell same [of r] same [of ?r] by (auto simp: Let_def case_prod_unfold split: option.split)
  next
    case CsFeedDown
    have "side_step r (halt now SrPrivateFeedDown (r\<lparr>rn_privateFeedDownAt := Some now, rn_feedUp := False\<rparr>))"
      by (rule side_trans [OF side_core side_halt]) simp
    then show ?thesis using CsFeedDown side_quiet [OF assms] by simp
  next
    case (CsFill f)
    have "side_result True r (onFilled pid f r)" for pid by (simp add: onFilled_def Let_def side_result_def side_core)
    from spawn_step [OF assms refl this] show ?thesis using CsFill same [of r] by (auto simp: case_prod_unfold split: option.split)
  next
    case (CsResume tid ans)
    then show ?thesis using resume_step [OF assms] same [of r] by (auto split: option.split)
  qed (use same in \<open>auto split: option.split\<close>)
qed

lemma tasks_ok_run: "tasks_ok r \<Longrightarrow> tasks_ok (calibRun cfg steps r)"
proof (induction steps rule: rev_induct)
  case (snoc st steps)
  then show ?case using step_order [of "calibRun cfg steps r" cfg "fst st" "snd st"] by (simp add: calibRun_def)
qed (simp add: calibRun_def)

lemma run_snoc: "calibRun cfg (steps @ [st]) r = calibStep cfg (calibRun cfg steps r) st"
  by (simp add: calibRun_def)

lemma run_step: "tasks_ok r \<Longrightarrow> order_step cfg (calibRun cfg steps r) st (calibRun cfg (steps @ [st]) r)"
  using step_order [OF tasks_ok_run, where now = "fst st" and s = "snd st"] by (simp add: run_snoc)

section \<open>The start\<close>

lemma side_syncAccount: "side_step r (syncAccountFromExchange cfg now positions resting r)"
proof (cases positions)
  case None
  then show ?thesis by (simp add: syncAccountFromExchange_def)
next
  case (Some ps)
  define r1 where "r1 = r\<lparr>rn_positions := foldl (\<lambda>m p. js_set (fst p) (snd p) m) [] (filter (\<lambda>p. snd p \<noteq> 0) ps),
      rn_premiums := foldl (\<lambda>m p. js_set (fst p) \<bar>snd p\<bar> m) [] (filter (\<lambda>p. snd p \<noteq> 0) ps)\<rparr>"
  have r1: "core r1 = core r" by (simp add: r1_def)
  have "side_step r r1" "side_step r (halt now SrPersistenceUnavailable r1)" "side_step r (halt now SrRiskLimit (emit_call (CaEvent ''warning'' None) r1))"
    using side_trans [OF side_core [OF r1] side_halt] side_core [OF r1] by (auto intro: side_trans [OF side_core side_halt] simp: r1)
  moreover have "syncAccountFromExchange cfg now positions resting r \<in> {r, r1, halt now SrPersistenceUnavailable r1,
      halt now SrRiskLimit (emit_call (CaEvent ''warning'' None) r1)}"
    by (auto simp: syncAccountFromExchange_def Some Let_def r1_def split: option.split)
  ultimately show ?thesis by auto
qed

lemma start_ok:
  "tasks_ok (startRunner cfg now states grp positions resting)" "creates (startRunner cfg now states grp positions resting) = []"
  "rn_ordersToday (startRunner cfg now states grp positions resting) = 0" "main_pc (startRunner cfg now states grp positions resting) = Some PcIdle"
proof -
  define r0 where "r0 = (newRunner cfg)\<lparr>rn_marketStates := states\<rparr>"
  define r1 where "r1 = (if cc_dryRun cfg then r0 else case grp of None \<Rightarrow> emit_call (CaEvent ''warning'' None) r0 | Some g \<Rightarrow> r0\<lparr>rn_orderGroupId := g\<rparr>)"
  define r2 where "r2 = syncAccountFromExchange cfg now positions resting (emit_call CaStartRun r1)"
  have s: "startRunner cfg now states grp positions resting = r2\<lparr>rn_feedUp := True, rn_queueTimer := True,
      rn_deadline := (if 0 < cc_runForMs cfg then Some (now + cc_runForMs cfg) else None), rn_tasks := js_set 0 PcIdle (rn_tasks r2)\<rparr>"
    by (simp only: startRunner_def Let_def r2_def r1_def r0_def)
  have "core (emit_call CaStartRun r1) = core (newRunner cfg)" by (auto simp: r1_def r0_def split: option.split)
  then have step: "side_step (newRunner cfg) r2" using side_trans [OF side_core side_syncAccount] by (simp add: r2_def)
  have n: "tasks_ok (newRunner cfg)" "creates (newRunner cfg) = []" "rn_ordersToday (newRunner cfg) = 0"
    by (simp_all add: newRunner_def tasks_ok_def creates_def)
  show "tasks_ok (startRunner cfg now states grp positions resting)" using side_tasks_ok [OF n(1) step] by (simp add: s tasks_ok_def)
  show "creates (startRunner cfg now states grp positions resting) = []" "rn_ordersToday (startRunner cfg now states grp positions resting) = 0"
    using side_fields(1,2) [OF step] n by (simp_all add: s creates_def)
  show "main_pc (startRunner cfg now states grp positions resting) = Some PcIdle" by (simp add: s)
qed

section \<open>Properties\<close>

text \<open>An order was asked for by the turn of the loop for an event.\<close>

definition askedFor :: "calibration_config \<Rightarrow> runner \<Rightarrow> (int \<times> calib_step) list \<Rightarrow> ladder_side \<Rightarrow> string \<Rightarrow> rat \<Rightarrow> bool" where
  "askedFor cfg r0 steps side market price \<longleftrightarrow> (\<exists>pre now ev post. steps = pre @ (now, CsEvent ev) # post
     \<and> rn_halted (sawEvent cfg now ev (calibRun cfg pre r0)) = None \<and> blockingCondition cfg (sawEvent cfg now ev (calibRun cfg pre r0)) = None
     \<and> list_ex (\<lambda>c. ca_marketTicker c = market
         \<and> mayPlaceProbe (cc_envelope cfg) (accountState (sawEvent cfg now ev (calibRun cfg pre r0))) market (ca_seriesTicker c)
             (premiumForProbe price side (ce_orderSize (cc_envelope cfg))) = None)
         (eligibleCandidates cfg now (sawEvent cfg now ev (calibRun cfg pre r0))))"

definition orderOf :: "create_request \<Rightarrow> ladder_side \<times> string \<times> rat" where
  "orderOf q = (cq_side q, cq_marketTicker q, cq_price q)"

lemma askedFor_more: "askedFor cfg r0 steps side m p \<Longrightarrow> askedFor cfg r0 (steps @ rest) side m p"
  unfolding askedFor_def
proof (elim exE conjE)
  fix pre now ev post assume "steps = pre @ (now, CsEvent ev) # post"
  then have "steps @ rest = pre @ (now, CsEvent ev) # (post @ rest)" by simp
  then show "\<exists>pre now ev post. steps @ rest = pre @ (now, CsEvent ev) # post \<and> rn_halted (sawEvent cfg now ev (calibRun cfg pre r0)) = None
      \<and> blockingCondition cfg (sawEvent cfg now ev (calibRun cfg pre r0)) = None
      \<and> list_ex (\<lambda>c. ca_marketTicker c = m \<and> mayPlaceProbe (cc_envelope cfg) (accountState (sawEvent cfg now ev (calibRun cfg pre r0))) m
            (ca_seriesTicker c) (premiumForProbe p side (ce_orderSize (cc_envelope cfg))) = None)
          (eligibleCandidates cfg now (sawEvent cfg now ev (calibRun cfg pre r0)))"
    if "rn_halted (sawEvent cfg now ev (calibRun cfg pre r0)) = None" "blockingCondition cfg (sawEvent cfg now ev (calibRun cfg pre r0)) = None"
      "list_ex (\<lambda>c. ca_marketTicker c = m \<and> mayPlaceProbe (cc_envelope cfg) (accountState (sawEvent cfg now ev (calibRun cfg pre r0))) m
            (ca_seriesTicker c) (premiumForProbe p side (ce_orderSize (cc_envelope cfg))) = None)
          (eligibleCandidates cfg now (sawEvent cfg now ev (calibRun cfg pre r0)))" using that by blast
qed

definition asked_inv :: "calibration_config \<Rightarrow> runner \<Rightarrow> (int \<times> calib_step) list \<Rightarrow> runner \<Rightarrow> bool" where
  "asked_inv cfg r0 steps r \<longleftrightarrow>
     (\<forall>q. CaCreateOrder q \<in> set (creates r) \<longrightarrow> askedFor cfg r0 steps (cq_side q) (cq_marketTicker q) (cq_price q)
        \<and> cq_count q = ce_orderSize (cc_envelope cfg) \<and> cq_postOnly q \<and> \<not> cc_dryRun cfg)
     \<and> (\<forall>p st d e. main_pc r = Some (PcInsert p st d e) \<or> main_pc r = Some (PcAttempted p d e)
          \<longrightarrow> askedFor cfg r0 steps (ap_side p) (ap_marketTicker p) (ap_yesPrice p))"

lemma asked_step:
  assumes "asked_inv cfg r0 steps (calibRun cfg steps r0)" "order_step cfg (calibRun cfg steps r0) st r'"
  shows "asked_inv cfg r0 (steps @ [st]) r'"
  using assms(2)
proof cases
  case quiet
  have "main_pc (calibRun cfg steps r0) = Some c" if "main_pc r' = Some c" "launching c" for c by (rule quiet(3) [OF that])
  then show ?thesis using assms(1) quiet(1) unfolding asked_inv_def by (metis askedFor_more launching.simps(1,2))
next
  case (decide p s d e now ev)
  have "askedFor cfg r0 (steps @ [st]) (ap_side p) (ap_marketTicker p) (ap_yesPrice p)"
    unfolding askedFor_def
    by (rule exI [of _ steps], rule exI [of _ now], rule exI [of _ ev], rule exI [of _ "[]"])
      (use decide in \<open>auto simp: launchAllowed_def list_ex_iff\<close>)
  then show ?thesis using assms(1) decide(2,4) unfolding asked_inv_def by (auto intro: askedFor_more)
next
  case (inserted p s d e p')
  then show ?thesis using assms(1) unfolding asked_inv_def by (auto intro: askedFor_more)
next
  case (sent p e grp d)
  have "askedFor cfg r0 steps (ap_side p) (ap_marketTicker p) (ap_yesPrice p)" using assms(1) sent(3) by (auto simp: asked_inv_def)
  moreover have "main_pc r' \<noteq> Some (PcInsert q s d e)" "main_pc r' \<noteq> Some (PcAttempted q d e)" for q s d e
    using sent(4) by (auto simp: pending_def)
  ultimately show ?thesis using assms(1) sent unfolding asked_inv_def by (auto simp: requestOf_def intro: askedFor_more)
qed

lemma asked_run:
  assumes "tasks_ok r0" "creates r0 = []" "main_pc r0 = Some PcIdle"
  shows "asked_inv cfg r0 steps (calibRun cfg steps r0)"
proof (induction steps rule: rev_induct)
  case Nil
  then show ?case using assms(2,3) by (simp add: asked_inv_def calibRun_def)
next
  case (snoc st steps)
  show ?case by (rule asked_step [OF snoc run_step [OF assms(1)]])
qed

text \<open>
  C5: On every interleaving of the runner, each order that is sent to the exchange was asked for: there was a turn of the loop, not halted
  and with nothing blocking, at which the market was eligible and the risk envelope allowed the account, as it then was, one more probe with
  the premium of this order; and the order is post-only, of the size of the envelope, and never sent in a dry run.
\<close>

theorem every_order_was_allowed:
  "list_all (\<lambda>call. case call of
       CaCreateOrder q \<Rightarrow> askedFor cfg (startRunner cfg t states grp positions resting) steps (cq_side q) (cq_marketTicker q) (cq_price q)
         \<and> cq_count q = ce_orderSize (cc_envelope cfg) \<and> cq_postOnly q \<and> \<not> cc_dryRun cfg
     | _ \<Rightarrow> True) (rn_calls (calibRun cfg steps (startRunner cfg t states grp positions resting)))"
proof -
  let ?r0 = "startRunner cfg t states grp positions resting"
  have "asked_inv cfg ?r0 steps (calibRun cfg steps ?r0)" by (rule asked_run [OF start_ok(1,2,4)])
  then show ?thesis by (auto simp: asked_inv_def list_all_iff creates_def split: calib_call.split)
qed

definition inserting :: "runner \<Rightarrow> bool" where
  "inserting r \<longleftrightarrow> (\<exists>p st d e. main_pc r = Some (PcInsert p st d e))"

definition attempting :: "runner \<Rightarrow> bool" where
  "attempting r \<longleftrightarrow> (\<exists>p d e. main_pc r = Some (PcAttempted p d e))"

definition orders_inv :: "calibration_config \<Rightarrow> runner \<Rightarrow> bool" where
  "orders_inv cfg r \<longleftrightarrow> rn_ordersToday r \<le> max 0 (ce_maxNewOrdersPerDay (cc_envelope cfg)) \<and> int (length (creates r)) \<le> rn_ordersToday r
     \<and> (inserting r \<longrightarrow> rn_ordersToday r < ce_maxNewOrdersPerDay (cc_envelope cfg))
     \<and> (attempting r \<longrightarrow> int (length (creates r)) + 1 \<le> rn_ordersToday r)"

lemma launching_iff: "(\<exists>c. main_pc r = Some c \<and> launching c) \<longleftrightarrow> inserting r \<or> attempting r"
proof
  assume "\<exists>c. main_pc r = Some c \<and> launching c"
  then obtain c where "main_pc r = Some c" "launching c" by blast
  then show "inserting r \<or> attempting r" by (cases c) (auto simp: inserting_def attempting_def)
qed (auto simp: inserting_def attempting_def)

lemma allowed_orders:
  "launchAllowed cfg now r p \<Longrightarrow> rn_ordersToday r < ce_maxNewOrdersPerDay (cc_envelope cfg)"
proof -
  have "as_ordersToday (accountState r) = rn_ordersToday r" by (simp add: accountState_def Let_def)
  then show "launchAllowed cfg now r p \<Longrightarrow> ?thesis" using allowed_fields(4) by (fastforce simp: launchAllowed_def list_ex_iff)
qed

lemma orders_step:
  assumes "orders_inv cfg r" "order_step cfg r st r'"
  shows "orders_inv cfg r'"
  using assms(2)
proof cases
  case quiet
  have "inserting r' \<Longrightarrow> inserting r" "attempting r' \<Longrightarrow> attempting r" using quiet(3) by (fastforce simp: inserting_def attempting_def)+
  then show ?thesis using assms(1) quiet(1,2) by (simp add: orders_inv_def)
next
  case (decide p s d e now ev)
  then show ?thesis using assms(1) allowed_orders [OF decide(8)] by (auto simp: orders_inv_def inserting_def attempting_def)
next
  case (inserted p s d e p')
  then show ?thesis using assms(1) by (auto simp: orders_inv_def inserting_def attempting_def)
next
  case (sent p e grp d)
  have "\<not> inserting r'" "\<not> attempting r'" using sent(4) by (auto simp: pending_def inserting_def attempting_def)
  moreover have "attempting r" using sent(3) by (auto simp: attempting_def)
  ultimately show ?thesis using assms(1) sent(1,2) by (simp add: orders_inv_def)
qed

text \<open>
  C15: However the tasks interleave and whatever the exchange and the database answer, a run sends at most as many orders as the envelope
  allows for a day.
\<close>

theorem orders_within_day:
  "int (length (filter isCreate (rn_calls (calibRun cfg steps (startRunner cfg t states grp positions resting)))))
     \<le> max 0 (ce_maxNewOrdersPerDay (cc_envelope cfg))"
proof -
  let ?r0 = "startRunner cfg t states grp positions resting"
  have "orders_inv cfg (calibRun cfg steps ?r0)"
  proof (induction steps rule: rev_induct)
    case Nil
    then show ?case using start_ok(2,3,4) [of cfg t states grp positions resting]
      by (simp add: orders_inv_def calibRun_def inserting_def attempting_def)
  next
    case (snoc st steps)
    show ?case by (rule orders_step [OF snoc run_step [OF start_ok(1)]])
  qed
  then show ?thesis by (simp add: orders_inv_def creates_def)
qed

text \<open>
  C14: A halt is final and stops the orders: however the run goes on, it stays halted, and the only order that can still be sent is the one
  whose launch was in flight when the run was halted, of which there is at most one.
\<close>

theorem halt_stops_orders:
  assumes "rn_halted (calibRun cfg pre (startRunner cfg t states grp positions resting)) \<noteq> None"
  shows "rn_halted (calibRun cfg (pre @ post) (startRunner cfg t states grp positions resting)) \<noteq> None
    \<and> length (filter isCreate (rn_calls (calibRun cfg (pre @ post) (startRunner cfg t states grp positions resting))))
       \<le> length (filter isCreate (rn_calls (calibRun cfg pre (startRunner cfg t states grp positions resting))))
         + pending (calibRun cfg pre (startRunner cfg t states grp positions resting))
    \<and> pending (calibRun cfg pre (startRunner cfg t states grp positions resting)) \<le> 1"
proof -
  let ?r0 = "startRunner cfg t states grp positions resting"
  have one: "rn_halted r' \<noteq> None \<and> length (creates r') + pending r' \<le> length (creates r) + pending r"
    if "order_step cfg r st r'" "rn_halted r \<noteq> None" for r r' st
    using that(1)
  proof cases
    case quiet
    have "pending r' \<le> pending r"
    proof (cases "main_pc r'")
      case (Some c)
      then show ?thesis using quiet(3) [OF Some] by (cases "launching c") (simp_all add: pending_def)
    qed (simp add: pending_def)
    then show ?thesis using quiet(1,4) that(2) by simp
  next
    case sent
    then show ?thesis using that(2) by (simp add: pending_def)
  qed (use that(2) in \<open>simp_all add: pending_def\<close>)
  have "rn_halted (calibRun cfg (pre @ post) ?r0) \<noteq> None
    \<and> length (creates (calibRun cfg (pre @ post) ?r0)) + pending (calibRun cfg (pre @ post) ?r0)
       \<le> length (creates (calibRun cfg pre ?r0)) + pending (calibRun cfg pre ?r0)"
  proof (induction post rule: rev_induct)
    case (snoc st post)
    then show ?case using one [OF run_step [OF start_ok(1), of cfg "pre @ post" cfg t states grp positions resting st]] by fastforce
  qed (use assms in simp)
  moreover have "pending r \<le> 1" for r by (simp add: pending_def split: option.split)
  ultimately show ?thesis unfolding creates_def by (meson add_leD1)
qed

definition ex_config :: calibration_config where
  "ex_config = \<lparr>cc_envelope = CALIBRATION_V0, cc_runForMs = 0, cc_cooldownMinMs = 5000, cc_cooldownMaxMs = 20000, cc_expirationSlackMs = 60000,
     cc_dryRun = False, cc_behindTouchTicks = [], cc_dwellChoicesMs = None, cc_requireRestingAtTarget = True, cc_targetInformativeMoves = 0,
     cc_preferChurn = False, cc_fillModels = [touchFillModel], cc_random = (\<lambda>n. 1 / 2), cc_uuid = (\<lambda>n. int_str (int n)), cc_dec = std_dlib,
     cc_sha = (\<lambda>s. s), cc_decString = (\<lambda>d. [])\<rparr>"

lemma halt_stops_orders_witness:
  "rn_halted (calibRun ex_config ([(5, CsFeedDown)] @ [(6, CsFeedUp True)]) (startRunner ex_config 0 [] (Some None) (Some []) (Some 0))) \<noteq> None"
proof -
  have "rn_halted (calibRun ex_config [(5, CsFeedDown)] (startRunner ex_config 0 [] (Some None) (Some []) (Some 0))) \<noteq> None"
    by (simp add: calibRun_def halt_def emit_call_def cancelEverything_def activeProbes_def spawn_def startRunner_def syncAccountFromExchange_def
        newRunner_def Let_def)
  from halt_stops_orders [OF this] show ?thesis by blast
qed

end
